(* ===== verification/Node_Prelude.thy ===== *)
theory Node_Prelude
  imports Main "HOL-Library.Char_ord" "HOL-Library.List_Lexorder" "HOL-Library.Sublist"
    "HOL-Library.Word"
begin

text \<open>
  What every component of the node shares: the Go machine integers (\<open>int64\<close> as an \<open>int\<close> with
  its wrap-around written out), Go maps and the order in which a \<^verbatim>\<open>range\<close> loop visits them,
  the functions of the packages \<^verbatim>\<open>strings\<close> and \<^verbatim>\<open>strconv\<close> the sources call, the zero
  value of a missing map entry, and the lemmas and rule collections about them that the component
  theories use.

  A Go string is the list of its bytes. A pointer that may be nil is an \<open>option\<close>. A value of type
  \<^verbatim>\<open>error\<close> is \<open>None\<close> (nil) or \<open>Some\<close> message, and a pair (result, error) whose result
  is only meaningful without an error is a sum, \<open>Inl\<close> being the error. A \<^verbatim>\<open>time.Time\<close> is
  the number of nanoseconds since its zero value.
\<close>

named_theorems i64_simps \<open>rewrite rules that discharge int64 wrap-around\<close>
named_theorems gomap_simps \<open>rewrite rules about Go maps and the keys a loop visits\<close>


section \<open>Machine integers\<close>

type_synonym int64 = int
type_synonym gotime = int

definition wrap64 :: "int \<Rightarrow> int64" where
  "wrap64 x = (x + 2 ^ 63) mod 2 ^ 64 - 2 ^ 63"

definition in_i64 :: "int \<Rightarrow> bool" where
  "in_i64 x \<longleftrightarrow> - (2 ^ 63) \<le> x \<and> x < 2 ^ 63"

text \<open>The Go operators on \<^verbatim>\<open>int64\<close>.\<close>

definition add64 :: "int64 \<Rightarrow> int64 \<Rightarrow> int64" where
  "add64 a b = wrap64 (a + b)"

definition sub64 :: "int64 \<Rightarrow> int64 \<Rightarrow> int64" where
  "sub64 a b = wrap64 (a - b)"

lemma in_i64_wrap64 [simp]: "in_i64 (wrap64 x)"
  by (simp add: in_i64_def wrap64_def)

lemma wrap64_id [i64_simps]: "in_i64 x \<Longrightarrow> wrap64 x = x"
  by (simp add: in_i64_def wrap64_def)

lemma wrap64_mod: "wrap64 x mod 2 ^ 64 = x mod 2 ^ 64"
  by (simp add: wrap64_def mod_diff_left_eq)

lemma wrap64_cong: "x mod 2 ^ 64 = y mod 2 ^ 64 \<Longrightarrow> wrap64 x = wrap64 y"
  unfolding wrap64_def by (metis mod_add_left_eq)

lemma wrap64_add_left: "wrap64 (wrap64 a + b) = wrap64 (a + b)"
  by (rule wrap64_cong) (metis wrap64_mod mod_add_left_eq)

lemma wrap64_add_right: "wrap64 (a + wrap64 b) = wrap64 (a + b)"
  by (rule wrap64_cong) (metis wrap64_mod mod_add_right_eq)

lemma wrap64_diff_left: "wrap64 (wrap64 a - b) = wrap64 (a - b)"
  by (rule wrap64_cong) (metis wrap64_mod mod_diff_left_eq)

lemma wrap64_diff_right: "wrap64 (a - wrap64 b) = wrap64 (a - b)"
  by (rule wrap64_cong) (metis wrap64_mod mod_diff_right_eq)

lemmas wrap64_normalize = wrap64_add_left wrap64_add_right wrap64_diff_left wrap64_diff_right

lemma add64_exact [i64_simps]: "in_i64 (a + b) \<Longrightarrow> add64 a b = a + b"
  by (simp add: add64_def wrap64_id)

lemma sub64_exact [i64_simps]: "in_i64 (a - b) \<Longrightarrow> sub64 a b = a - b"
  by (simp add: sub64_def wrap64_id)

lemma sub64_self [simp]: "sub64 a a = 0"
  by (simp add: sub64_def wrap64_def)

lemma sub64_nonneg [i64_simps]:
  "0 \<le> a \<Longrightarrow> 0 \<le> b \<Longrightarrow> a < 2 ^ 63 \<Longrightarrow> b < 2 ^ 63 \<Longrightarrow> sub64 a b = a - b"
  by (rule sub64_exact) (simp add: in_i64_def)

lemma add64_nonneg [i64_simps]:
  "0 \<le> a \<Longrightarrow> 0 \<le> b \<Longrightarrow> a + b < 2 ^ 63 \<Longrightarrow> add64 a b = a + b"
  by (rule add64_exact) (simp add: in_i64_def)

lemma in_i64_add64 [simp]: "in_i64 (add64 a b)" and in_i64_sub64 [simp]: "in_i64 (sub64 a b)"
  by (simp_all add: add64_def sub64_def)

text \<open>Subtracting what was subtracted before gives it back, whatever wrapped in between.\<close>

lemma sub64_sub64_cancel: "in_i64 p \<Longrightarrow> sub64 a (sub64 a p) = p"
  by (simp add: sub64_def wrap64_diff_right wrap64_id)


section \<open>Go maps\<close>

text \<open>
  A Go map is a HOL map. Reading a missing key gives the zero value of the element type. A
  \<^verbatim>\<open>range\<close> loop visits every key once in an order the runtime picks anew for every loop: a
  definition with such a loop takes the order as an argument, and its theorems hold for every order
  that \<open>iterates\<close> over the map.
\<close>

definition getd :: "'v \<Rightarrow> ('k \<rightharpoonup> 'v) \<Rightarrow> 'k \<Rightarrow> 'v" where
  "getd z m k = (case m k of None \<Rightarrow> z | Some v \<Rightarrow> v)"

definition iterates :: "'k list \<Rightarrow> ('k \<rightharpoonup> 'v) \<Rightarrow> bool" where
  "iterates ks m \<longleftrightarrow> distinct ks \<and> set ks = dom m"

lemma getd_simps [gomap_simps, simp]:
  "m k = None \<Longrightarrow> getd z m k = z"
  "m k = Some v \<Longrightarrow> getd z m k = v"
  by (simp_all add: getd_def)

lemma getd_upd [gomap_simps, simp]: "getd z (m(k := x)) k' =
    (if k' = k then (case x of None \<Rightarrow> z | Some v \<Rightarrow> v) else getd z m k')"
  by (simp add: getd_def)

lemma getd_empty [simp]: "getd z Map.empty k = z"
  by (simp add: getd_def)

lemma iterates_distinct: "iterates ks m \<Longrightarrow> distinct ks"
  and iterates_mem: "iterates ks m \<Longrightarrow> k \<in> set ks \<longleftrightarrow> k \<in> dom m"
  by (simp_all add: iterates_def)

lemma iterates_empty [simp]: "iterates ks Map.empty \<longleftrightarrow> ks = []"
  by (auto simp: iterates_def)

lemma iterates_Some: "iterates ks m \<Longrightarrow> k \<in> set ks \<Longrightarrow> \<exists>v. m k = Some v"
  by (auto simp: iterates_def)

text \<open>
  An operation with several such loops takes one \<open>ranger\<close>: the order in which its \<open>i\<close>-th loop visits
  a set of keys. Theorems hold for every ranger that enumerates finite sets.
\<close>

type_synonym ranger = "nat \<Rightarrow> string set \<Rightarrow> string list"

definition range_order :: "ranger \<Rightarrow> bool" where
  "range_order rg \<longleftrightarrow> (\<forall>i S. finite S \<longrightarrow> distinct (rg i S) \<and> set (rg i S) = S)"

definition keys_of :: "ranger \<Rightarrow> nat \<Rightarrow> (string \<rightharpoonup> 'v) \<Rightarrow> string list" where
  "keys_of rg i m = rg i (dom m)"

definition sorted_ranger :: ranger where
  "sorted_ranger i S = sorted_list_of_set S"

lemma range_order_sorted [simp]: "range_order sorted_ranger"
  by (simp add: range_order_def sorted_ranger_def)

lemma keys_of_iterates: "range_order rg \<Longrightarrow> finite (dom m) \<Longrightarrow> iterates (keys_of rg i m) m"
  by (simp add: range_order_def keys_of_def iterates_def)

lemma set_keys_of [gomap_simps]: "range_order rg \<Longrightarrow> finite (dom m) \<Longrightarrow> set (keys_of rg i m) = dom m"
  and distinct_keys_of [gomap_simps]: "range_order rg \<Longrightarrow> finite (dom m) \<Longrightarrow> distinct (keys_of rg i m)"
  using keys_of_iterates [of rg m i] by (simp_all add: iterates_def)

text \<open>The keys of a map with a known finite order, sorted as \<^verbatim>\<open>sort.Strings\<close> leaves them.\<close>

lemma sort_iterates: "iterates ks m \<Longrightarrow> iterates (sort ks) m"
  by (simp add: iterates_def)


section \<open>Lists of pointers\<close>

text \<open>The pointers of a list that are not nil.\<close>

fun present :: "'a option list \<Rightarrow> 'a list" where
  "present [] = []"
| "present (None # xs) = present xs"
| "present (Some x # xs) = x # present xs"

lemma present_map_Some [simp]: "present (map Some xs) = xs"
  by (induction xs) simp_all

lemma set_present: "x \<in> set (present xs) \<longleftrightarrow> Some x \<in> set xs"
  by (induction xs rule: present.induct) auto

lemma present_append [simp]: "present (xs @ ys) = present xs @ present ys"
  by (induction xs rule: present.induct) simp_all

text \<open>What a list of distinct keys becomes when it is put into a map one by one.\<close>

lemma map_of_rev_distinct:
  assumes "distinct (map f xs)"
  shows "map_of (map (\<lambda>x. (f x, g x)) (rev xs)) k = Some v \<longleftrightarrow> (\<exists>x \<in> set xs. f x = k \<and> g x = v)"
proof -
  have "distinct (map fst (map (\<lambda>x. (f x, g x)) (rev xs)))"
    using assms by (simp add: comp_def distinct_rev flip: rev_map)
  from map_of_eq_Some_iff [OF this] show ?thesis by auto
qed


text \<open>A sum over a list of things with distinct keys, as a sum over the keys.\<close>

lemma sum_list_by_key:
  fixes g :: "'a \<Rightarrow> int"
  assumes "distinct (map k xs)" "finite S" "\<And>x. x \<in> set xs \<Longrightarrow> P x \<longleftrightarrow> k x \<in> S"
  shows "(\<Sum>x\<leftarrow>filter P xs. g x) = (\<Sum>c\<in>S. case map_of (map (\<lambda>x. (k x, x)) xs) c of None \<Rightarrow> 0 | Some x \<Rightarrow> g x)"
  using assms
proof (induction xs)
  case (Cons x xs)
  let ?m = "map_of (map (\<lambda>x. (k x, x)) xs)" and ?v = "\<lambda>m c. case m c of None \<Rightarrow> 0 | Some x \<Rightarrow> g x"
  have notin: "?m (k x) = None" using Cons.prems(1) by (auto simp: map_of_eq_None_iff)
  have "(\<Sum>c\<in>S. ?v (?m(k x \<mapsto> x)) c) = (\<Sum>c\<in>S. ?v ?m c + (if c = k x then g x else 0))"
    by (intro sum.cong) (auto simp: notin)
  also have "\<dots> = (\<Sum>c\<in>S. ?v ?m c) + (if k x \<in> S then g x else 0)"
    using Cons.prems(2) by (simp add: sum.distrib sum.delta')
  also have "(\<Sum>c\<in>S. ?v ?m c) = (\<Sum>x\<leftarrow>filter P xs. g x)" using Cons by simp
  finally show ?case using Cons.prems(3) [of x] by auto
qed simp


section \<open>Errors\<close>

type_synonym err = "string option"

definition first_err :: "err \<Rightarrow> err \<Rightarrow> err" where
  "first_err e e' = (if e = None then e' else e)"

lemma first_err_simps [simp]: "first_err None e = e" "first_err (Some m) e = Some m"
    "first_err e None = e"
  by (simp_all add: first_err_def)

lemma first_err_None [simp]: "first_err e e' = None \<longleftrightarrow> e = None \<and> e' = None"
  by (auto simp: first_err_def)


section \<open>Package strings\<close>

text \<open>
  The UTF-8 encodings of the runes \<^verbatim>\<open>unicode.IsSpace\<close> accepts. Letters outside ASCII keep
  their case in \<open>ToLower\<close>.
\<close>

definition byte :: "nat \<Rightarrow> char" where
  "byte n = char_of n"

definition go_spaces :: "string list" where
  "go_spaces = map (map byte)
     [[32], [9], [10], [11], [12], [13], [0xC2, 0x85], [0xC2, 0xA0], [0xE1, 0x9A, 0x80],
      [0xE2, 0x80, 0x80], [0xE2, 0x80, 0x81], [0xE2, 0x80, 0x82], [0xE2, 0x80, 0x83],
      [0xE2, 0x80, 0x84], [0xE2, 0x80, 0x85], [0xE2, 0x80, 0x86], [0xE2, 0x80, 0x87],
      [0xE2, 0x80, 0x88], [0xE2, 0x80, 0x89], [0xE2, 0x80, 0x8A], [0xE2, 0x80, 0xA8],
      [0xE2, 0x80, 0xA9], [0xE2, 0x80, 0xAF], [0xE2, 0x81, 0x9F], [0xE3, 0x80, 0x80]]"

fun space_at :: "string list \<Rightarrow> string \<Rightarrow> nat" where
  "space_at [] s = 0"
| "space_at (p # ps) s = (if take (length p) s = p \<and> p \<noteq> [] then length p else space_at ps s)"

lemma space_at_le: "space_at ps s \<le> length s"
proof (induction ps)
  case (Cons p ps)
  have "length p \<le> length s" if "take (length p) s = p"
    using that by (metis length_take min.bounded_iff order_refl)
  with Cons show ?case by simp
qed simp

function trim_left :: "string list \<Rightarrow> string \<Rightarrow> string" where
  "trim_left ps s =
     (if space_at ps s = 0 then s else trim_left ps (drop (space_at ps s) s))"
  by pat_completeness auto
termination
proof (relation "measure (\<lambda>(ps, s). length s)", goal_cases)
  case (2 ps s)
  then show ?case using space_at_le [of ps s] by simp
qed simp

declare trim_left.simps [simp del]

definition TrimSpace :: "string \<Rightarrow> string" where
  "TrimSpace s = rev (trim_left (map rev go_spaces) (rev (trim_left go_spaces s)))"

definition HasPrefix :: "string \<Rightarrow> string \<Rightarrow> bool" where
  "HasPrefix s p \<longleftrightarrow> take (length p) s = p"

definition HasSuffix :: "string \<Rightarrow> string \<Rightarrow> bool" where
  "HasSuffix s p \<longleftrightarrow> HasPrefix (rev s) (rev p)"

fun Contains :: "string \<Rightarrow> string \<Rightarrow> bool" where
  "Contains [] sub = (sub = [])"
| "Contains (c # s) sub = (HasPrefix (c # s) sub \<or> Contains s sub)"

text \<open>\<open>Cut\<close>, \<open>Split\<close> and \<open>SplitN\<close> are used with a non-empty separator only.\<close>

fun Cut :: "string \<Rightarrow> string \<Rightarrow> (string \<times> string) option" where
  "Cut [] sep = None"
| "Cut (c # s) sep =
     (if HasPrefix (c # s) sep then Some ([], drop (length sep) (c # s))
      else map_option (\<lambda>(b, a). (c # b, a)) (Cut s sep))"

lemma Cut_length: "Cut s sep = Some (b, a) \<Longrightarrow> sep \<noteq> [] \<Longrightarrow> length a < length s"
proof (induction s arbitrary: b)
  case (Cons c s)
  then show ?case by (fastforce split: if_splits)
qed simp

lemma Cut_append: "Cut s sep = Some (b, a) \<Longrightarrow> s = b @ sep @ a"
proof (induction s arbitrary: b)
  case (Cons c s)
  show ?case
  proof (cases "HasPrefix (c # s) sep")
    case True
    with Cons.prems have "b = []" and "a = drop (length sep) (c # s)" by auto
    moreover have "take (length sep) (c # s) = sep" using True by (simp only: HasPrefix_def)
    ultimately show ?thesis by (metis append_Nil append_take_drop_id)
  next
    case False
    with Cons show ?thesis by auto
  qed
qed simp

function Split :: "string \<Rightarrow> string \<Rightarrow> string list" where
  "Split s sep = (if sep = [] then [s] else
     (case Cut s sep of None \<Rightarrow> [s] | Some (b, a) \<Rightarrow> b # Split a sep))"
  by pat_completeness auto
termination
  by (relation "measure (\<lambda>(s, sep). length s)") (auto dest: Cut_length)

declare Split.simps [simp del]

fun Join :: "string list \<Rightarrow> string \<Rightarrow> string" where
  "Join [] sep = []"
| "Join [x] sep = x"
| "Join (x # y # ys) sep = x @ sep @ Join (y # ys) sep"

lemma Split_not_Nil: "Split s sep \<noteq> []"
  by (subst Split.simps) (simp split: option.split)

text \<open>\<open>Join\<close> undoes \<open>Split\<close>.\<close>

lemma Join_Cons: "ys \<noteq> [] \<Longrightarrow> Join (x # ys) sep = x @ sep @ Join ys sep"
  by (cases ys) auto

lemma Join_Split: "Join (Split s sep) sep = s"
proof (induction s sep rule: Split.induct)
  case (1 s sep)
  show ?case
  proof (cases "sep = [] \<or> Cut s sep = None")
    case True
    then show ?thesis by (subst Split.simps) auto
  next
    case False
    then obtain b a where ba: "Cut s sep = Some (b, a)" and ne: "sep \<noteq> []" by auto
    from 1 [OF ne ba refl] have "Join (Split a sep) sep = a" .
    moreover have "Split s sep = b # Split a sep" using ba ne by (subst Split.simps) simp
    ultimately show ?thesis by (simp add: Join_Cons Split_not_Nil Cut_append [OF ba])
  qed
qed

definition ToLower :: "string \<Rightarrow> string" where
  "ToLower s = map (\<lambda>c. if 65 \<le> (of_char c :: nat) \<and> (of_char c :: nat) \<le> 90
                        then byte (of_char c + 32) else c) s"

definition EqualFold :: "string \<Rightarrow> string \<Rightarrow> bool" where
  "EqualFold s t \<longleftrightarrow> ToLower s = ToLower t"

text \<open>\<open>Fields\<close> splits around runs of white space.\<close>

function take_field :: "string \<Rightarrow> string \<Rightarrow> string list" where
  "take_field acc s =
     (if s = [] then (if acc = [] then [] else [rev acc])
      else if space_at go_spaces s = 0 then take_field (hd s # acc) (tl s)
      else (if acc = [] then [] else [rev acc]) @ take_field [] (drop (space_at go_spaces s) s))"
  by pat_completeness auto
termination
proof (relation "measure (\<lambda>(acc, s). length s)", goal_cases)
  case (3 acc s)
  then show ?case using space_at_le [of go_spaces s] by simp
qed auto

declare take_field.simps [simp del]

definition Fields :: "string \<Rightarrow> string list" where
  "Fields s = take_field [] s"


section \<open>Package strconv and decimal formatting\<close>

definition is_digit :: "char \<Rightarrow> bool" where
  "is_digit c \<longleftrightarrow> 48 \<le> (of_char c :: nat) \<and> (of_char c :: nat) \<le> 57"

definition digit_val :: "char \<Rightarrow> int" where
  "digit_val c = of_char c - 48"

definition digits_val :: "string \<Rightarrow> int" where
  "digits_val s = foldl (\<lambda>n c. 10 * n + digit_val c) 0 s"

text \<open>
  The value \<^verbatim>\<open>strconv.ParseInt(s, 10, 64)\<close> returns when its error is ignored: zero for a
  syntax error, the nearest bound when the number does not fit.
\<close>

definition parse_nat :: "string \<Rightarrow> int option" where
  "parse_nat s = (if s = [] \<or> \<not> list_all is_digit s then None else Some (digits_val s))"

definition ParseInt64 :: "string \<Rightarrow> int64" where
  "ParseInt64 s =
     (case s of
        [] \<Rightarrow> 0
      | c # cs \<Rightarrow>
         (if c = CHR ''-'' then (case parse_nat cs of None \<Rightarrow> 0 | Some n \<Rightarrow> max (- (2 ^ 63)) (- n))
          else (case parse_nat (if c = CHR ''+'' then cs else s) of
                  None \<Rightarrow> 0 | Some n \<Rightarrow> min (2 ^ 63 - 1) n)))"

lemma digit_val_nonneg: "is_digit c \<Longrightarrow> 0 \<le> digit_val c"
proof -
  have "(of_char c :: int) = int (of_char c)" by (simp add: of_nat_of_char)
  then show "is_digit c \<Longrightarrow> 0 \<le> digit_val c" by (simp only: is_digit_def digit_val_def) linarith
qed

lemma digits_val_nonneg: "list_all is_digit s \<Longrightarrow> 0 \<le> digits_val s"
proof -
  have "0 \<le> n \<Longrightarrow> list_all is_digit s \<Longrightarrow> 0 \<le> foldl (\<lambda>n c. 10 * n + digit_val c) n s" for n
    by (induction s arbitrary: n) (simp_all add: digit_val_nonneg)
  then show "list_all is_digit s \<Longrightarrow> 0 \<le> digits_val s" by (simp add: digits_val_def)
qed

lemma parse_nat_nonneg: "parse_nat s = Some n \<Longrightarrow> 0 \<le> n"
  by (auto simp: parse_nat_def digits_val_nonneg split: if_splits)

lemma ParseInt64_in_i64 [simp]: "in_i64 (ParseInt64 s)"
proof -
  have neg: "in_i64 (case parse_nat t of None \<Rightarrow> 0 | Some n \<Rightarrow> max (- (2 ^ 63)) (- n))"
    and pos: "in_i64 (case parse_nat t of None \<Rightarrow> 0 | Some n \<Rightarrow> min (2 ^ 63 - 1) n)" for t
    using parse_nat_nonneg [of t] by (auto simp: in_i64_def split: option.split)
  show ?thesis
    unfolding ParseInt64_def using neg pos
    by (cases s) (simp_all only: list.case if_split in_i64_def, simp_all)
qed

fun show_nat :: "nat \<Rightarrow> string" where
  "show_nat n = (if n < 10 then [byte (48 + n)] else show_nat (n div 10) @ [byte (48 + n mod 10)])"

declare show_nat.simps [simp del]

definition show_int :: "int \<Rightarrow> string" where
  "show_int i = (if i < 0 then CHR ''-'' # show_nat (nat (- i)) else show_nat (nat i))"

text \<open>Decimal formatting loses nothing.\<close>

lemma of_char_byte [simp]: "n < 256 \<Longrightarrow> (of_char (byte n) :: nat) = n"
  by (simp add: byte_def of_char_of)

lemma of_char_byte_int [simp]: "n < 256 \<Longrightarrow> (of_char (byte n) :: int) = int n"
  by (metis of_char_byte of_nat_of_char)

lemma is_digit_byte: "n \<le> 9 \<Longrightarrow> is_digit (byte (48 + n)) \<and> digit_val (byte (48 + n)) = int n"
  by (simp add: is_digit_def digit_val_def)

lemma parse_show_nat: "digits_val (show_nat n) = int n \<and> list_all is_digit (show_nat n) \<and> show_nat n \<noteq> []"
proof (induction n rule: show_nat.induct)
  case (1 n)
  show ?case
  proof (cases "n < 10")
    case True
    then have sn: "show_nat n = [byte (48 + n)]" by (subst show_nat.simps) simp
    show ?thesis unfolding sn using True
      using is_digit_byte [of n] by (simp add: digits_val_def)
  next
    case False
    from False have sn: "show_nat n = show_nat (n div 10) @ [byte (48 + n mod 10)]"
      by (subst show_nat.simps) simp
    have le: "n mod 10 \<le> 9" by simp
    from 1 [OF False] have ih: "digits_val (show_nat (n div 10)) = int (n div 10)"
      "list_all is_digit (show_nat (n div 10))" by auto
    have "digits_val (show_nat n) = 10 * int (n div 10) + int (n mod 10)"
      unfolding sn using ih is_digit_byte [OF le] by (simp add: digits_val_def)
    also have "\<dots> = int n" by presburger
    finally show ?thesis using ih is_digit_byte [OF le] by (simp add: sn)
  qed
qed

lemma show_nat_inject: "show_nat m = show_nat n \<longleftrightarrow> m = n"
  by (metis parse_show_nat of_nat_eq_iff)

end
