(* ===== verification/Node_Messages.thy ===== *)
theory Node_Messages
  imports Node_Prelude
begin

text \<open>
  The protobuf messages the panel and the node exchange (\<^verbatim>\<open>common/service.proto\<close>), with the
  nil-safe getters of the generated Go code: a getter on a nil message gives the zero value of the
  field. A list of users is a list of pointers, as in the Go signatures.
\<close>

record vmess_msg =
  vm_Id :: string

record vless_msg =
  vl_Id :: string
  vl_Flow :: string

record trojan_msg =
  tr_Password :: string

record shadowsocks_msg =
  ss_Password :: string
  ss_Method :: string

record wireguard_msg =
  wgm_PublicKey :: string
  wgm_PeerIps :: "string list"

record hysteria_msg =
  hy_Auth :: string

record openvpn_msg =
  ovm_Serial :: string
  ovm_Fingerprint :: string

record ikev2_msg =
  ik_Username :: string
  ik_Password :: string

record proxy_msg =
  px_Vmess :: "vmess_msg option"
  px_Vless :: "vless_msg option"
  px_Trojan :: "trojan_msg option"
  px_Shadowsocks :: "shadowsocks_msg option"
  px_Wireguard :: "wireguard_msg option"
  px_Hysteria :: "hysteria_msg option"
  px_Openvpn :: "openvpn_msg option"
  px_Ikev2 :: "ikev2_msg option"

record user_msg =
  u_Email :: string
  u_Proxies :: "proxy_msg option"
  u_Inbounds :: "string list"

type_synonym user = "user_msg option"

definition no_proxies :: proxy_msg where
  "no_proxies = \<lparr>px_Vmess = None, px_Vless = None, px_Trojan = None, px_Shadowsocks = None,
     px_Wireguard = None, px_Hysteria = None, px_Openvpn = None, px_Ikev2 = None\<rparr>"

definition GetEmail :: "user \<Rightarrow> string" where
  "GetEmail u = (case u of None \<Rightarrow> [] | Some m \<Rightarrow> u_Email m)"

definition GetProxies :: "user \<Rightarrow> proxy_msg option" where
  "GetProxies u = Option.bind u u_Proxies"

definition GetInbounds :: "user \<Rightarrow> string list" where
  "GetInbounds u = (case u of None \<Rightarrow> [] | Some m \<Rightarrow> u_Inbounds m)"

definition GetVmess :: "proxy_msg option \<Rightarrow> vmess_msg option" where
  "GetVmess p = Option.bind p px_Vmess"

definition GetVless :: "proxy_msg option \<Rightarrow> vless_msg option" where
  "GetVless p = Option.bind p px_Vless"

definition GetTrojan :: "proxy_msg option \<Rightarrow> trojan_msg option" where
  "GetTrojan p = Option.bind p px_Trojan"

definition GetShadowsocks :: "proxy_msg option \<Rightarrow> shadowsocks_msg option" where
  "GetShadowsocks p = Option.bind p px_Shadowsocks"

definition GetWireguard :: "proxy_msg option \<Rightarrow> wireguard_msg option" where
  "GetWireguard p = Option.bind p px_Wireguard"

definition GetHysteria :: "proxy_msg option \<Rightarrow> hysteria_msg option" where
  "GetHysteria p = Option.bind p px_Hysteria"

definition GetOpenvpn :: "proxy_msg option \<Rightarrow> openvpn_msg option" where
  "GetOpenvpn p = Option.bind p px_Openvpn"

definition GetIkev2 :: "proxy_msg option \<Rightarrow> ikev2_msg option" where
  "GetIkev2 p = Option.bind p px_Ikev2"

text \<open>A string field of a message that may be nil.\<close>

definition field :: "('m \<Rightarrow> string) \<Rightarrow> 'm option \<Rightarrow> string" where
  "field f m = (case m of None \<Rightarrow> [] | Some x \<Rightarrow> f x)"

named_theorems msg_defs \<open>definitions of the message getters\<close>

lemmas [msg_defs] = GetEmail_def GetProxies_def GetInbounds_def GetVmess_def GetVless_def
  GetTrojan_def GetShadowsocks_def GetWireguard_def GetHysteria_def GetOpenvpn_def GetIkev2_def
  field_def no_proxies_def


section \<open>Statistics messages\<close>

record stat =
  s_Name :: string
  s_Type :: string
  s_Link :: string
  s_Value :: int64

datatype stat_type = Outbounds | Outbound | Inbounds | Inbound | UsersStat | UserStat

record stat_request =
  sr_Name :: string
  sr_Reset :: bool
  sr_Type :: stat_type

record latency =
  lt_Name :: string
  lt_Alive :: bool
  lt_Delay :: int64
  lt_Link :: string
  lt_LastSeenTime :: int64
  lt_LastTryTime :: int64
  lt_Source :: string

record online_stat =
  os_Name :: string
  os_Value :: int64

record online_ips =
  oi_Name :: string
  oi_Ips :: "string \<rightharpoonup> int64"

datatype backend_type = XRAY | WIREGUARD | OPENVPN | SINGBOX | L2TP

record backend_msg =
  b_Type :: backend_type
  b_Config :: string
  b_Users :: "user list"
  b_KeepAlive :: "64 word"
  b_ExcludeInbounds :: "string list"
  b_Additive :: bool

record users_chunk =
  ch_Users :: "user list"
  ch_Index :: "64 word"
  ch_Last :: bool

end
