(* ===== verification/Stats_Tracker.thy ===== *)
theory Stats_Tracker
  imports Node_Messages
begin

text \<open>
  The shared usage accounting of \<^verbatim>\<open>pkg/stats\<close>: the per-user tracker every interface-based
  backend (WireGuard, OpenVPN, L2TP) feeds and the panel drains, and the node-level interface
  counters. After the operations come the contract of a traffic meter as a locale, its conservation
  law, the interpretations on both directions of a tracker entry, and the billing theorems over
  whole runs of the tracker.
\<close>

section \<open>Data\<close>

record entry =
  e_Email :: string
  e_CurrentRx :: int64
  e_CurrentTx :: int64
  e_BaseRx :: int64
  e_BaseTx :: int64
  e_LastDeltaRx :: int64
  e_LastDeltaTx :: int64
  e_LastActiveTime :: gotime
  e_EndpointIP :: string
  e_IsDeleted :: bool

record sample =
  sm_PublicKey :: string
  sm_Email :: string
  sm_Rx :: int64
  sm_Tx :: int64
  sm_EndpointIP :: string

type_synonym tracker = "string \<rightharpoonup> entry"

definition newTracker :: tracker where
  "newTracker = Map.empty"

definition new_entry :: "string \<Rightarrow> entry" where
  "new_entry em = \<lparr>e_Email = em, e_CurrentRx = 0, e_CurrentTx = 0, e_BaseRx = 0, e_BaseTx = 0,
     e_LastDeltaRx = 0, e_LastDeltaTx = 0, e_LastActiveTime = 0, e_EndpointIP = [],
     e_IsDeleted = False\<rparr>"


section \<open>Operations of the tracker\<close>

text \<open>
  One sample applied to the entry of its key: the pending delta of a deleted entry is restored when
  the peer comes back, an unchanged sample only refreshes the endpoint, a counter that went back is
  rebased so that what is pending survives, and growth marks the peer active.
\<close>

definition restore_delta :: "entry \<Rightarrow> sample \<Rightarrow> entry" where
  "restore_delta e s = e\<lparr>e_BaseRx := sub64 (sm_Rx s) (e_LastDeltaRx e),
     e_BaseTx := sub64 (sm_Tx s) (e_LastDeltaTx e), e_LastDeltaRx := 0, e_LastDeltaTx := 0\<rparr>"

definition rebase :: "entry \<Rightarrow> sample \<Rightarrow> entry" where
  "rebase e s =
     (let pendingRx = sub64 (e_CurrentRx e) (e_BaseRx e);
          pendingTx = sub64 (e_CurrentTx e) (e_BaseTx e);
          pendingRx = (if pendingRx < 0 then 0 else pendingRx);
          pendingTx = (if pendingTx < 0 then 0 else pendingTx)
      in e\<lparr>e_BaseRx := sub64 (sm_Rx s) pendingRx, e_BaseTx := sub64 (sm_Tx s) pendingTx\<rparr>)"

definition sample_entry :: "entry \<Rightarrow> sample \<Rightarrow> gotime \<Rightarrow> entry" where
  "sample_entry entry0 s activeAt =
     (let entry = entry0\<lparr>e_Email := sm_Email s, e_IsDeleted := False\<rparr>;
          readded = (e_LastDeltaRx entry \<noteq> 0 \<or> e_LastDeltaTx entry \<noteq> 0);
          entry = (if readded then restore_delta entry s else entry)
      in if e_CurrentRx entry = sm_Rx s \<and> e_CurrentTx entry = sm_Tx s
         then entry\<lparr>e_EndpointIP := sm_EndpointIP s\<rparr>
         else
          (let entry = (if \<not> readded \<and> (sm_Rx s < e_CurrentRx entry \<or> sm_Tx s < e_CurrentTx entry)
                        then rebase entry s else entry);
               entry = (if sm_Rx s > e_CurrentRx entry \<or> sm_Tx s > e_CurrentTx entry
                        then entry\<lparr>e_LastActiveTime := activeAt\<rparr> else entry)
           in entry\<lparr>e_CurrentRx := sm_Rx s, e_CurrentTx := sm_Tx s,
                e_EndpointIP := sm_EndpointIP s\<rparr>))"

definition applySampleLocked :: "tracker \<Rightarrow> sample \<Rightarrow> gotime \<Rightarrow> tracker" where
  "applySampleLocked st s activeAt =
     (let entry = (case st (sm_PublicKey s) of None \<Rightarrow> new_entry (sm_Email s) | Some e \<Rightarrow> e)
      in st(sm_PublicKey s \<mapsto> sample_entry entry s activeAt))"

definition UpdateStatsBatch :: "sample list \<Rightarrow> gotime \<Rightarrow> tracker \<Rightarrow> tracker" where
  "UpdateStatsBatch samples now st = foldl (\<lambda>st s. applySampleLocked st s now) st samples"

definition buildDeltaStats :: "string \<Rightarrow> string \<Rightarrow> int64 \<Rightarrow> int64 \<Rightarrow> stat list" where
  "buildDeltaStats name link rx tx =
     (if rx = 0 \<and> tx = 0 then []
      else (if rx > 0 then [\<lparr>s_Name = name, s_Type = ''uplink'', s_Link = link, s_Value = rx\<rparr>]
            else []) @
           (if tx > 0 then [\<lparr>s_Name = name, s_Type = ''downlink'', s_Link = link, s_Value = tx\<rparr>]
            else []))"

definition BuildInterfaceStats :: "string \<Rightarrow> string \<Rightarrow> int64 \<Rightarrow> int64 \<Rightarrow> stat list" where
  "BuildInterfaceStats name link rx tx = buildDeltaStats name link rx tx"

text \<open>The body both reporting loops share: the deltas of one key, and the reset.\<close>

definition report_key :: "bool \<Rightarrow> string \<Rightarrow> tracker \<Rightarrow> stat list \<times> tracker" where
  "report_key reset key st =
     (case st key of
        None \<Rightarrow> ([], st)
      | Some entry \<Rightarrow>
         (let rx = sub64 (e_CurrentRx entry) (e_BaseRx entry);
              tx = sub64 (e_CurrentTx entry) (e_BaseTx entry);
              stats = buildDeltaStats (e_Email entry) key rx tx
          in (stats,
              if reset then
                (let entry = entry\<lparr>e_BaseRx := e_CurrentRx entry, e_BaseTx := e_CurrentTx entry\<rparr>
                 in if e_IsDeleted entry then st(key := None) else st(key \<mapsto> entry))
              else st)))"

fun GetStats :: "string list \<Rightarrow> bool \<Rightarrow> tracker \<Rightarrow> stat list \<times> tracker" where
  "GetStats [] reset st = ([], st)"
| "GetStats (key # keys) reset st =
     (let (stats, st') = report_key reset key st; (more, st'') = GetStats keys reset st'
      in (stats @ more, st''))"

text \<open>All users: the same loop over every key, in the order \<open>ord\<close> the runtime visits the map.\<close>

definition GetUsersStats :: "string list \<Rightarrow> bool \<Rightarrow> tracker \<Rightarrow> stat list \<times> tracker" where
  "GetUsersStats ord reset st = GetStats ord reset st"

definition GetStatsEntries :: "string list \<Rightarrow> tracker \<Rightarrow> tracker" where
  "GetStatsEntries keys st =
     foldl (\<lambda>res key. case st key of None \<Rightarrow> res | Some entry \<Rightarrow> res(key \<mapsto> entry)) Map.empty keys"

definition AnyActiveSince :: "string list \<Rightarrow> gotime \<Rightarrow> tracker \<Rightarrow> bool" where
  "AnyActiveSince keys cutoff st =
     list_ex (\<lambda>key. case st key of None \<Rightarrow> False | Some entry \<Rightarrow> e_LastActiveTime entry > cutoff) keys"

text \<open>\<^verbatim>\<open>time.Time.Unix\<close>: seconds since 1970, from nanoseconds since the zero time.\<close>

definition unix_time :: "gotime \<Rightarrow> int64" where
  "unix_time t = t div 1000000000 - 62135596800"

definition EndpointActivity :: "string list \<Rightarrow> tracker \<Rightarrow> (string \<rightharpoonup> int64)" where
  "EndpointActivity keys st =
     foldl (\<lambda>res key.
       (case st key of
          None \<Rightarrow> res
        | Some entry \<Rightarrow>
           (if e_EndpointIP entry = [] \<or> e_LastActiveTime entry = 0 then res
            else
             (let ts = unix_time (e_LastActiveTime entry)
              in case res (e_EndpointIP entry) of
                   None \<Rightarrow> res(e_EndpointIP entry \<mapsto> ts)
                 | Some prev \<Rightarrow> (if ts > prev then res(e_EndpointIP entry \<mapsto> ts) else res)))))
       Map.empty keys"

definition RemoveStats :: "string \<Rightarrow> tracker \<Rightarrow> tracker" where
  "RemoveStats publicKey st =
     (case st publicKey of
        None \<Rightarrow> st
      | Some entry \<Rightarrow>
         st(publicKey \<mapsto> entry\<lparr>
           e_LastDeltaRx := sub64 (e_CurrentRx entry) (e_BaseRx entry),
           e_LastDeltaTx := sub64 (e_CurrentTx entry) (e_BaseTx entry),
           e_IsDeleted := True, e_LastActiveTime := 0\<rparr>))"

definition ClearAllStats :: "tracker \<Rightarrow> tracker" where
  "ClearAllStats st = Map.empty"

definition CleanupDeletedEntries :: "tracker \<Rightarrow> tracker" where
  "CleanupDeletedEntries st =
     (\<lambda>key. case st key of
        None \<Rightarrow> None
      | Some entry \<Rightarrow>
         (if e_IsDeleted entry \<and> e_CurrentRx entry = e_BaseRx entry \<and>
             e_CurrentTx entry = e_BaseTx entry
          then None else Some entry))"


section \<open>Interface counters\<close>

record iface_counters =
  ic_BaseRx :: int64
  ic_BaseTx :: int64
  ic_BaseSet :: bool

definition NewInterfaceCountersTracker :: iface_counters where
  "NewInterfaceCountersTracker = \<lparr>ic_BaseRx = 0, ic_BaseTx = 0, ic_BaseSet = False\<rparr>"

definition Delta :: "int64 \<Rightarrow> int64 \<Rightarrow> bool \<Rightarrow> iface_counters \<Rightarrow> (int64 \<times> int64) \<times> iface_counters" where
  "Delta currentRx currentTx reset t =
     (let t = (if \<not> ic_BaseSet t
               then t\<lparr>ic_BaseRx := currentRx, ic_BaseTx := currentTx, ic_BaseSet := True\<rparr> else t);
          t = (if currentRx < ic_BaseRx t \<or> currentTx < ic_BaseTx t
               then t\<lparr>ic_BaseRx := currentRx, ic_BaseTx := currentTx\<rparr> else t);
          deltaRx = sub64 currentRx (ic_BaseRx t);
          deltaTx = sub64 currentTx (ic_BaseTx t);
          t = (if reset then t\<lparr>ic_BaseRx := currentRx, ic_BaseTx := currentTx\<rparr> else t)
      in ((deltaRx, deltaTx), t))"

section \<open>The contract of a usage meter\<close>

text \<open>
  A usage meter is driven by operations. \<open>moved e r\<close> is the traffic an operation observes when the
  last known reading was \<open>r\<close>, \<open>nxt e r\<close> the reading known afterwards, \<open>billed e s\<close> what the
  operation hands to the panel, \<open>pending s\<close> what is still to be handed over. The contract is that
  one step bills nothing that did not move, as long as the amounts fit below \<open>cap\<close>; from it follows
  the same for every run. A meter is exact when, moreover, a steady step loses nothing.
\<close>

primrec run_ops :: "('e \<Rightarrow> 's \<Rightarrow> 's) \<Rightarrow> 'e list \<Rightarrow> 's \<Rightarrow> 's" where
  "run_ops step [] s = s"
| "run_ops step (e # es) s = run_ops step es (step e s)"

primrec total_billed :: "('e \<Rightarrow> 's \<Rightarrow> 's) \<Rightarrow> ('e \<Rightarrow> 's \<Rightarrow> int) \<Rightarrow> 'e list \<Rightarrow> 's \<Rightarrow> int" where
  "total_billed step billed [] s = 0"
| "total_billed step billed (e # es) s = billed e s + total_billed step billed es (step e s)"

primrec total_moved :: "('e \<Rightarrow> 'r \<Rightarrow> int) \<Rightarrow> ('e \<Rightarrow> 'r \<Rightarrow> 'r) \<Rightarrow> 'e list \<Rightarrow> 'r \<Rightarrow> int" where
  "total_moved moved nxt [] r = 0"
| "total_moved moved nxt (e # es) r = moved e r + total_moved moved nxt es (nxt e r)"

primrec steady_run :: "('e \<Rightarrow> 'r \<Rightarrow> bool) \<Rightarrow> ('e \<Rightarrow> 'r \<Rightarrow> 'r) \<Rightarrow> 'e list \<Rightarrow> 'r \<Rightarrow> bool" where
  "steady_run steady nxt [] r = True"
| "steady_run steady nxt (e # es) r = (steady e r \<and> steady_run steady nxt es (nxt e r))"

locale usage_meter =
  fixes step :: "'e \<Rightarrow> 's \<Rightarrow> 's"
    and billed :: "'e \<Rightarrow> 's \<Rightarrow> int"
    and pending :: "'s \<Rightarrow> int"
    and reading :: "'s \<Rightarrow> 'r"
    and moved :: "'e \<Rightarrow> 'r \<Rightarrow> int"
    and nxt :: "'e \<Rightarrow> 'r \<Rightarrow> 'r"
    and legal :: "'e \<Rightarrow> bool"
    and invar :: "'s \<Rightarrow> bool"
    and cap :: int
  assumes moved_nonneg: "legal e \<Longrightarrow> 0 \<le> moved e r"
    and billed_nonneg: "legal e \<Longrightarrow> invar s \<Longrightarrow> pending s + moved e (reading s) < cap \<Longrightarrow> 0 \<le> billed e s"
    and invar_step: "legal e \<Longrightarrow> invar s \<Longrightarrow> pending s + moved e (reading s) < cap \<Longrightarrow>
          invar (step e s)"
    and reading_step: "legal e \<Longrightarrow> invar s \<Longrightarrow> pending s + moved e (reading s) < cap \<Longrightarrow>
          reading (step e s) = nxt e (reading s)"
    and step_le: "legal e \<Longrightarrow> invar s \<Longrightarrow> pending s + moved e (reading s) < cap \<Longrightarrow>
          billed e s + pending (step e s) \<le> pending s + moved e (reading s)"
begin

lemma total_moved_nonneg: "list_all legal es \<Longrightarrow> 0 \<le> total_moved moved nxt es r"
  by (induction es arbitrary: r) (simp_all add: moved_nonneg)

lemma first_below_cap:
  assumes "legal e" "list_all legal es" "pending s + total_moved moved nxt (e # es) (reading s) < cap"
  shows "pending s + moved e (reading s) < cap"
  using assms total_moved_nonneg [of es "nxt e (reading s)"] by simp

lemma rest_below_cap:
  assumes "legal e" "list_all legal es" "invar s"
    and "pending s + total_moved moved nxt (e # es) (reading s) < cap"
  shows "pending (step e s) + total_moved moved nxt es (reading (step e s)) < cap"
proof -
  note * = first_below_cap [OF assms(1,2,4)]
  from step_le [OF assms(1,3) *] billed_nonneg [OF assms(1,3) *]
  have "pending (step e s) \<le> pending s + moved e (reading s)" by simp
  then show ?thesis using assms(4) by (simp add: reading_step [OF assms(1,3) *])
qed

theorem never_overbilled:
  assumes "list_all legal es" "invar s" "pending s + total_moved moved nxt es (reading s) < cap"
  shows "total_billed step billed es s + pending (run_ops step es s)
           \<le> pending s + total_moved moved nxt es (reading s) \<and> invar (run_ops step es s)"
  using assms
proof (induction es arbitrary: s)
  case (Cons e es)
  then have e: "legal e" and es: "list_all legal es" by simp_all
  note * = first_below_cap [OF e es Cons.prems(3)]
  from Cons.IH [OF es invar_step [OF e Cons.prems(2) *] rest_below_cap [OF e es Cons.prems(2,3)]]
  show ?case
    using step_le [OF e Cons.prems(2) *] by (simp add: reading_step [OF e Cons.prems(2) *])
qed simp

end

locale exact_meter = usage_meter +
  fixes steady :: "'a \<Rightarrow> 'c \<Rightarrow> bool"
  assumes steady_eq: "legal e \<Longrightarrow> invar s \<Longrightarrow> pending s + moved e (reading s) < cap \<Longrightarrow>
          steady e (reading s) \<Longrightarrow>
          billed e s + pending (step e s) = pending s + moved e (reading s)"
begin

theorem conserved:
  assumes "list_all legal es" "invar s" "pending s + total_moved moved nxt es (reading s) < cap"
    and "steady_run steady nxt es (reading s)"
  shows "total_billed step billed es s + pending (run_ops step es s)
           = pending s + total_moved moved nxt es (reading s)"
  using assms
proof (induction es arbitrary: s)
  case (Cons e es)
  then have e: "legal e" and es: "list_all legal es" by simp_all
  note * = first_below_cap [OF e es Cons.prems(3)]
  note r = reading_step [OF e Cons.prems(2) *]
  from Cons.prems(4) have "steady_run steady nxt es (reading (step e s))" by (simp add: r)
  from Cons.IH [OF es invar_step [OF e Cons.prems(2) *] rest_below_cap [OF e es Cons.prems(2,3)] this]
  show ?case using steady_eq [OF e Cons.prems(2) *] Cons.prems(4) by (simp add: r)
qed simp

end


section \<open>The tracker as a usage meter\<close>

text \<open>
  The operations the backends drive the tracker with. Samples arrive in batches, the panel asks for
  some users or all of them, with or without a reset, peers are removed and idle entries cleaned up.
\<close>

datatype tracker_op =
    Samples "sample list" gotime
  | Report "string list" bool
  | Remove string
  | Cleanup
  | ClearAll

fun track :: "tracker_op \<Rightarrow> tracker \<Rightarrow> tracker" where
  "track (Samples ss now) st = UpdateStatsBatch ss now st"
| "track (Report keys reset) st = snd (GetStats keys reset st)"
| "track (Remove key) st = RemoveStats key st"
| "track Cleanup st = CleanupDeletedEntries st"
| "track ClearAll st = ClearAllStats st"

text \<open>Both directions are treated alike; \<open>dir\<close> selects one.\<close>

datatype dir = Uplink | Downlink

lemma all_dir: "(\<forall>d. P d) \<longleftrightarrow> P Uplink \<and> P Downlink"
  by (metis dir.exhaust)

fun cur_of :: "dir \<Rightarrow> entry \<Rightarrow> int" where
  "cur_of Uplink e = e_CurrentRx e"
| "cur_of Downlink e = e_CurrentTx e"

fun base_of :: "dir \<Rightarrow> entry \<Rightarrow> int" where
  "base_of Uplink e = e_BaseRx e"
| "base_of Downlink e = e_BaseTx e"

fun last_of :: "dir \<Rightarrow> entry \<Rightarrow> int" where
  "last_of Uplink e = e_LastDeltaRx e"
| "last_of Downlink e = e_LastDeltaTx e"

fun val_of :: "dir \<Rightarrow> sample \<Rightarrow> int" where
  "val_of Uplink s = sm_Rx s"
| "val_of Downlink s = sm_Tx s"

fun kind_of :: "dir \<Rightarrow> string" where
  "kind_of Uplink = ''uplink''"
| "kind_of Downlink = ''downlink''"

fun dir_of :: "dir \<Rightarrow> int \<times> int \<Rightarrow> int" where
  "dir_of Uplink r = fst r"
| "dir_of Downlink r = snd r"

definition unbilled :: "dir \<Rightarrow> string \<Rightarrow> tracker \<Rightarrow> int" where
  "unbilled d k st = (case st k of None \<Rightarrow> 0 | Some e \<Rightarrow> sub64 (cur_of d e) (base_of d e))"

text \<open>What the statistics of a reply add up to for one key in one direction.\<close>

definition stat_sum :: "dir \<Rightarrow> string \<Rightarrow> stat list \<Rightarrow> int" where
  "stat_sum d k sts =
     sum_list (map s_Value (filter (\<lambda>x. s_Link x = k \<and> s_Type x = kind_of d) sts))"

text \<open>Only a reply with a reset bills: the panel adds its values up.\<close>

definition billed_of :: "dir \<Rightarrow> string \<Rightarrow> tracker_op \<Rightarrow> tracker \<Rightarrow> int" where
  "billed_of d k e st =
     (case e of Report keys True \<Rightarrow> stat_sum d k (fst (GetStats keys True st)) | _ \<Rightarrow> 0)"

text \<open>
  The traffic of one peer told by its counters alone, without looking into the tracker: a counter
  that grew moved the difference, one that went back restarted from zero, and a peer that is removed
  (or the whole tracker cleared) starts from zero again when it comes back.
\<close>

definition growth :: "int \<Rightarrow> int \<Rightarrow> int" where
  "growth prev v = (if v < prev then v else v - prev)"

fun samples_moved :: "dir \<Rightarrow> string \<Rightarrow> sample list \<Rightarrow> int \<times> int \<Rightarrow> int" where
  "samples_moved d k [] r = 0"
| "samples_moved d k (s # ss) r =
     (if sm_PublicKey s = k
      then growth (dir_of d r) (val_of d s) + samples_moved d k ss (sm_Rx s, sm_Tx s)
      else samples_moved d k ss r)"

fun samples_nxt :: "string \<Rightarrow> sample list \<Rightarrow> int \<times> int \<Rightarrow> int \<times> int" where
  "samples_nxt k [] r = r"
| "samples_nxt k (s # ss) r =
     samples_nxt k ss (if sm_PublicKey s = k then (sm_Rx s, sm_Tx s) else r)"

fun moved_of :: "dir \<Rightarrow> string \<Rightarrow> tracker_op \<Rightarrow> int \<times> int \<Rightarrow> int" where
  "moved_of d k (Samples ss now) r = samples_moved d k ss r"
| "moved_of d k e r = 0"

fun nxt_of :: "string \<Rightarrow> tracker_op \<Rightarrow> int \<times> int \<Rightarrow> int \<times> int" where
  "nxt_of k (Samples ss now) r = samples_nxt k ss r"
| "nxt_of k (Remove key) r = (if key = k then (0, 0) else r)"
| "nxt_of k ClearAll r = (0, 0)"
| "nxt_of k e r = r"

definition reading_of :: "string \<Rightarrow> tracker \<Rightarrow> int \<times> int" where
  "reading_of k st =
     (case st k of None \<Rightarrow> (0, 0)
      | Some e \<Rightarrow> (if e_IsDeleted e then (0, 0) else (e_CurrentRx e, e_CurrentTx e)))"

text \<open>Kernel counters are never negative.\<close>

definition sample_ok :: "sample \<Rightarrow> bool" where
  "sample_ok s \<longleftrightarrow> 0 \<le> sm_Rx s \<and> sm_Rx s < 2 ^ 63 \<and> 0 \<le> sm_Tx s \<and> sm_Tx s < 2 ^ 63"

fun legal_op :: "tracker_op \<Rightarrow> bool" where
  "legal_op (Samples ss now) = list_all sample_ok ss"
| "legal_op e = True"

text \<open>
  The invariant of an entry, in one direction: the counter is one, what is pending is not negative,
  and \<open>LastDelta\<close> holds exactly what a deleted entry still owes.
\<close>

definition entry_ok :: "dir \<Rightarrow> entry \<Rightarrow> bool" where
  "entry_ok d e \<longleftrightarrow> 0 \<le> cur_of d e \<and> cur_of d e < 2 ^ 63 \<and>
     base_of d e \<le> cur_of d e \<and> cur_of d e - base_of d e < 2 ^ 63 \<and>
     (if e_IsDeleted e then last_of d e = cur_of d e - base_of d e
      else e_LastDeltaRx e = 0 \<and> e_LastDeltaTx e = 0)"

definition key_ok :: "dir \<Rightarrow> string \<Rightarrow> tracker \<Rightarrow> bool" where
  "key_ok d k st \<longleftrightarrow> (case st k of None \<Rightarrow> True | Some e \<Rightarrow> entry_ok d e)"

lemma pending_exact: "entry_ok d e \<Longrightarrow> sub64 (cur_of d e) (base_of d e) = cur_of d e - base_of d e"
  by (rule sub64_exact) (auto simp: entry_ok_def in_i64_def)

lemma unbilled_nonneg: "key_ok d k st \<Longrightarrow> 0 \<le> unbilled d k st"
  by (auto simp: key_ok_def unbilled_def pending_exact entry_ok_def split: option.splits)

lemma growth_nonneg: "0 \<le> v \<Longrightarrow> 0 \<le> growth p v"
  by (simp add: growth_def)

subsection \<open>One sample\<close>

lemma sample_entry_cur [simp]: "cur_of d (sample_entry e s t) = val_of d s"
  by (cases d) (simp_all add: sample_entry_def Let_def restore_delta_def rebase_def)

lemma sample_entry_counters [simp]:
  "e_CurrentRx (sample_entry e s t) = sm_Rx s" "e_CurrentTx (sample_entry e s t) = sm_Tx s"
  using sample_entry_cur [of Uplink e s t] sample_entry_cur [of Downlink e s t]
  by (simp_all only: cur_of.simps val_of.simps)

lemma sample_entry_live [simp]: "\<not> e_IsDeleted (sample_entry e s t)"
  by (simp add: sample_entry_def Let_def restore_delta_def rebase_def)

lemma val_of_range: "sample_ok s \<Longrightarrow> 0 \<le> val_of d s \<and> val_of d s < 2 ^ 63"
  by (cases d) (simp_all add: sample_ok_def)

text \<open>
  What becomes of the base: a peer that comes back keeps what it owed, a counter that went back (in
  either direction) keeps what was pending, and otherwise the base stays.
\<close>

lemma sub64_pending [simp]: "0 \<le> v \<Longrightarrow> v < 2 ^ 63 \<Longrightarrow> 0 \<le> p \<Longrightarrow> p < 2 ^ 63 \<Longrightarrow> sub64 v p = v - p"
  by (simp add: sub64_nonneg)

lemma sample_entry_base:
  assumes "entry_ok d e" "sample_ok s"
  shows "base_of d (sample_entry e s t) =
    (if e_LastDeltaRx e \<noteq> 0 \<or> e_LastDeltaTx e \<noteq> 0 then val_of d s - last_of d e
     else if sm_Rx s < e_CurrentRx e \<or> sm_Tx s < e_CurrentTx e
     then val_of d s - (cur_of d e - base_of d e)
     else base_of d e)"
proof -
  have r: "0 \<le> val_of d s" "val_of d s < 2 ^ 63" using val_of_range [OF assms(2), of d] by simp_all
  have l: "e_LastDeltaRx e \<noteq> 0 \<or> e_LastDeltaTx e \<noteq> 0 \<Longrightarrow> 0 \<le> last_of d e \<and> last_of d e < 2 ^ 63"
    and p: "0 \<le> cur_of d e - base_of d e" "cur_of d e - base_of d e < 2 ^ 63"
    using assms(1) by (auto simp: entry_ok_def split: if_splits)
  note pe = pending_exact [OF assms(1)]
  show ?thesis
    using r l p pe
    by (cases d) (auto simp: sample_entry_def Let_def restore_delta_def rebase_def sub64_nonneg)
qed

lemma sample_entry_last: "e_LastDeltaRx (sample_entry e s t) = 0 \<and> e_LastDeltaTx (sample_entry e s t) = 0"
  by (simp add: sample_entry_def Let_def restore_delta_def rebase_def)

definition live_reading :: "dir \<Rightarrow> entry \<Rightarrow> int" where
  "live_reading d e = (if e_IsDeleted e then 0 else cur_of d e)"

lemma sample_entry_pending_le:
  assumes "entry_ok d e" "sample_ok s"
  shows "0 \<le> val_of d s - base_of d (sample_entry e s t)"
    and "val_of d s - base_of d (sample_entry e s t)
           \<le> (cur_of d e - base_of d e) + growth (live_reading d e) (val_of d s)"
proof -
  have "0 \<le> cur_of d e - base_of d e" "0 \<le> cur_of d e"
    "e_LastDeltaRx e \<noteq> 0 \<or> e_LastDeltaTx e \<noteq> 0 \<Longrightarrow>
       e_IsDeleted e \<and> last_of d e = cur_of d e - base_of d e"
    using assms(1) by (auto simp: entry_ok_def split: if_splits)
  moreover have "0 \<le> growth (live_reading d e) (val_of d s)"
    using val_of_range [OF assms(2), of d] by (simp add: growth_nonneg)
  moreover have "val_of d s - cur_of d e \<le> growth (live_reading d e) (val_of d s)"
    if "\<not> val_of d s < cur_of d e"
    using that \<open>0 \<le> cur_of d e\<close> by (simp add: growth_def live_reading_def)
  moreover have "\<not> (sm_Rx s < e_CurrentRx e \<or> sm_Tx s < e_CurrentTx e) \<Longrightarrow> \<not> val_of d s < cur_of d e"
    by (cases d) auto
  ultimately show "0 \<le> val_of d s - base_of d (sample_entry e s t)"
    "val_of d s - base_of d (sample_entry e s t)
           \<le> (cur_of d e - base_of d e) + growth (live_reading d e) (val_of d s)"
    unfolding sample_entry_base [OF assms] by (auto split: if_splits)
qed

lemma sample_entry_pending_eq:
  assumes "entry_ok d e" "sample_ok s" "\<not> e_IsDeleted e"
    and "e_CurrentRx e \<le> sm_Rx s" "e_CurrentTx e \<le> sm_Tx s"
  shows "val_of d s - base_of d (sample_entry e s t)
           = (cur_of d e - base_of d e) + growth (live_reading d e) (val_of d s)"
proof -
  have "e_LastDeltaRx e = 0 \<and> e_LastDeltaTx e = 0" using assms(1,3) by (simp add: entry_ok_def)
  then show ?thesis unfolding sample_entry_base [OF assms(1,2)] using assms(3-5)
    by (cases d) (simp_all add: growth_def live_reading_def)
qed

lemma sample_entry_ok:
  assumes "entry_ok d e" "sample_ok s"
    and "(cur_of d e - base_of d e) + growth (live_reading d e) (val_of d s) < 2 ^ 63"
  shows "entry_ok d (sample_entry e s t)"
  using sample_entry_pending_le [OF assms(1,2), of t] assms(3) val_of_range [OF assms(2), of d]
  by (simp add: entry_ok_def sample_entry_last)

lemma new_entry_ok [simp]: "entry_ok d (new_entry em)"
  by (cases d) (simp_all add: entry_ok_def new_entry_def)

lemma new_entry_simps [simp]: "cur_of d (new_entry em) = 0" "base_of d (new_entry em) = 0"
    "live_reading d (new_entry em) = 0" "\<not> e_IsDeleted (new_entry em)"
    "e_CurrentRx (new_entry em) = 0" "e_CurrentTx (new_entry em) = 0"
  by (cases d; simp add: new_entry_def live_reading_def)+

subsection \<open>Samples, reports and removals on the whole tracker\<close>

definition entry_at :: "string \<Rightarrow> string \<Rightarrow> tracker \<Rightarrow> entry" where
  "entry_at k em st = (case st k of None \<Rightarrow> new_entry em | Some e \<Rightarrow> e)"

lemma applySample_at: "applySampleLocked st s t k =
    (if sm_PublicKey s = k then Some (sample_entry (entry_at k (sm_Email s) st) s t) else st k)"
  by (simp add: applySampleLocked_def entry_at_def Let_def)

lemma entry_at_ok: "key_ok d k st \<Longrightarrow> entry_ok d (entry_at k em st)"
  by (simp add: key_ok_def entry_at_def split: option.splits)

lemma unbilled_entry_at: "key_ok d k st \<Longrightarrow>
    unbilled d k st = cur_of d (entry_at k em st) - base_of d (entry_at k em st)"
  by (auto simp: key_ok_def unbilled_def entry_at_def pending_exact split: option.splits)

lemma reading_entry_at: "dir_of d (reading_of k st) = live_reading d (entry_at k em st)"
  by (cases d) (simp_all add: reading_of_def entry_at_def live_reading_def new_entry_def split: option.splits)

lemma applySample_other: "sm_PublicKey s \<noteq> k \<Longrightarrow> unbilled d k (applySampleLocked st s t) = unbilled d k st \<and>
    reading_of k (applySampleLocked st s t) = reading_of k st \<and>
    (key_ok d k (applySampleLocked st s t) \<longleftrightarrow> key_ok d k st)"
  by (simp add: unbilled_def reading_of_def key_ok_def applySample_at)

lemma applySample_this:
  fixes st s t
  defines "st' \<equiv> applySampleLocked st s t"
  assumes key: "sm_PublicKey s = k" and ok: "key_ok d k st" "sample_ok s"
    and cap: "unbilled d k st + growth (dir_of d (reading_of k st)) (val_of d s) < 2 ^ 63"
  shows "key_ok d k st'" and "reading_of k st' = (sm_Rx s, sm_Tx s)"
    and "unbilled d k st' \<le> unbilled d k st + growth (dir_of d (reading_of k st)) (val_of d s)"
    and "\<not> (\<exists>e. st k = Some e \<and> e_IsDeleted e) \<Longrightarrow> fst (reading_of k st) \<le> sm_Rx s \<Longrightarrow>
         snd (reading_of k st) \<le> sm_Tx s \<Longrightarrow>
         unbilled d k st' = unbilled d k st + growth (dir_of d (reading_of k st)) (val_of d s)"
proof -
  let ?e = "entry_at k (sm_Email s) st"
  have st': "st' k = Some (sample_entry ?e s t)" by (simp add: st'_def applySample_at key)
  note e = entry_at_ok [OF ok(1), of "sm_Email s"]
  have pend: "unbilled d k st = cur_of d ?e - base_of d ?e"
    by (rule unbilled_entry_at [OF ok(1)])
  have cap': "(cur_of d ?e - base_of d ?e) + growth (live_reading d ?e) (val_of d s) < 2 ^ 63"
    using cap by (simp only: pend reading_entry_at [where em = "sm_Email s"])
  note e' = sample_entry_ok [OF e ok(2) cap', of t]
  have pend': "unbilled d k st' = val_of d s - base_of d (sample_entry ?e s t)"
    using pending_exact [OF e'] by (simp add: unbilled_def st')
  show "key_ok d k st'" using e' by (simp add: key_ok_def st')
  show "reading_of k st' = (sm_Rx s, sm_Tx s)"
    by (simp add: reading_of_def st')
  show "unbilled d k st' \<le> unbilled d k st + growth (dir_of d (reading_of k st)) (val_of d s)"
    using sample_entry_pending_le(2) [OF e ok(2), of t]
    by (simp only: pend' pend reading_entry_at [where em = "sm_Email s"])
  assume live: "\<not> (\<exists>e. st k = Some e \<and> e_IsDeleted e)"
    and le: "fst (reading_of k st) \<le> sm_Rx s" "snd (reading_of k st) \<le> sm_Tx s"
  from live have "\<not> e_IsDeleted ?e" by (auto simp: entry_at_def split: option.splits)
  moreover from this have "e_CurrentRx ?e \<le> sm_Rx s" "e_CurrentTx ?e \<le> sm_Tx s"
    using le reading_entry_at [of Uplink k st "sm_Email s"] reading_entry_at [of Downlink k st "sm_Email s"]
    by (simp_all add: live_reading_def)
  ultimately show "unbilled d k st' = unbilled d k st + growth (dir_of d (reading_of k st)) (val_of d s)"
    unfolding pend' pend reading_entry_at [of d k st "sm_Email s"]
    by (rule sample_entry_pending_eq [OF e ok(2)])
qed

lemma samples_moved_nonneg: "list_all sample_ok ss \<Longrightarrow> 0 \<le> samples_moved d k ss r"
  by (induction ss arbitrary: r) (simp_all add: growth_nonneg val_of_range)

lemma batch_Cons: "UpdateStatsBatch (s # ss) t st = UpdateStatsBatch ss t (applySampleLocked st s t)"
  by (simp add: UpdateStatsBatch_def)

lemma batch_meter:
  assumes "list_all sample_ok ss" "key_ok d k st"
    and "unbilled d k st + samples_moved d k ss (reading_of k st) < 2 ^ 63"
  shows "key_ok d k (UpdateStatsBatch ss t st) \<and>
    reading_of k (UpdateStatsBatch ss t st) = samples_nxt k ss (reading_of k st) \<and>
    unbilled d k (UpdateStatsBatch ss t st) \<le> unbilled d k st + samples_moved d k ss (reading_of k st)"
  using assms
proof (induction ss arbitrary: st)
  case (Cons s ss)
  let ?st = "applySampleLocked st s t" and ?g = "growth (dir_of d (reading_of k st)) (val_of d s)"
  from Cons.prems have s: "sample_ok s" and ss: "list_all sample_ok ss" by simp_all
  show ?case
  proof (cases "sm_PublicKey s = k")
    case True
    with Cons.prems(3) have "unbilled d k st + ?g < 2 ^ 63"
      using samples_moved_nonneg [OF ss, of d k "(sm_Rx s, sm_Tx s)"] by simp
    note * = applySample_this(1-3) [OF True Cons.prems(2) s this, of t]
    then show ?thesis using Cons.IH [OF ss *(1)] Cons.prems(3) True by (simp add: batch_Cons)
  next
    case False
    from applySample_other [OF False] Cons.prems(2,3) False Cons.IH [OF ss, of ?st]
    show ?thesis by (simp add: batch_Cons)
  qed
qed (simp add: UpdateStatsBatch_def)

text \<open>A batch whose samples of \<open>k\<close> never go back, for a peer that is not deleted, loses nothing.\<close>

definition live_key :: "string \<Rightarrow> tracker \<Rightarrow> bool" where
  "live_key k st \<longleftrightarrow> (case st k of None \<Rightarrow> True | Some e \<Rightarrow> \<not> e_IsDeleted e)"

fun samples_steady :: "string \<Rightarrow> sample list \<Rightarrow> int \<times> int \<Rightarrow> bool" where
  "samples_steady k [] r = True"
| "samples_steady k (s # ss) r =
     (if sm_PublicKey s = k
      then fst r \<le> sm_Rx s \<and> snd r \<le> sm_Tx s \<and> samples_steady k ss (sm_Rx s, sm_Tx s)
      else samples_steady k ss r)"

lemma live_key_applySample: "live_key k st \<Longrightarrow> live_key k (applySampleLocked st s t)"
  by (simp add: live_key_def applySample_at)

lemma live_key_batch: "live_key k st \<Longrightarrow> live_key k (UpdateStatsBatch ss t st)"
  by (induction ss arbitrary: st) (simp_all add: batch_Cons live_key_applySample, simp add: UpdateStatsBatch_def)

lemma batch_exact:
  assumes "list_all sample_ok ss" "key_ok d k st" "live_key k st" "samples_steady k ss (reading_of k st)"
    and "unbilled d k st + samples_moved d k ss (reading_of k st) < 2 ^ 63"
  shows "unbilled d k (UpdateStatsBatch ss t st) = unbilled d k st + samples_moved d k ss (reading_of k st)"
  using assms
proof (induction ss arbitrary: st)
  case (Cons s ss)
  let ?st = "applySampleLocked st s t" and ?g = "growth (dir_of d (reading_of k st)) (val_of d s)"
  from Cons.prems have s: "sample_ok s" and ss: "list_all sample_ok ss" by simp_all
  note live = live_key_applySample [OF Cons.prems(3), of s t]
  show ?case
  proof (cases "sm_PublicKey s = k")
    case True
    with Cons.prems(5) have cap: "unbilled d k st + ?g < 2 ^ 63"
      using samples_moved_nonneg [OF ss, of d k "(sm_Rx s, sm_Tx s)"] by simp
    have "\<not> (\<exists>e. st k = Some e \<and> e_IsDeleted e)" using Cons.prems(3) by (auto simp: live_key_def)
    with applySample_this(4) [OF True Cons.prems(2) s cap, of t] Cons.prems(4) True
    have "unbilled d k ?st = unbilled d k st + ?g" by simp
    moreover note applySample_this(1,2) [OF True Cons.prems(2) s cap, of t]
    ultimately show ?thesis
      using Cons.IH [OF ss _ live] Cons.prems(4,5) True by (simp add: batch_Cons)
  next
    case False
    from applySample_other [OF False, of d st t] Cons.prems(2,4,5) False Cons.IH [OF ss _ live]
    show ?thesis by (simp add: batch_Cons)
  qed
qed (simp add: UpdateStatsBatch_def)

text \<open>Reports: each key bills what it owes and owes nothing afterwards.\<close>

lemma stat_sum_append [simp]: "stat_sum d k (xs @ ys) = stat_sum d k xs + stat_sum d k ys"
  by (simp add: stat_sum_def)

lemma stat_sum_Nil [simp]: "stat_sum d k [] = 0"
  by (simp add: stat_sum_def)

lemma stat_sum_delta: "stat_sum d k (buildDeltaStats name link rx tx) =
    (if link = k then max 0 (dir_of d (rx, tx)) else 0)"
  by (cases d) (auto simp: stat_sum_def buildDeltaStats_def)

lemma pending_dir: "dir_of d (sub64 (e_CurrentRx e) (e_BaseRx e), sub64 (e_CurrentTx e) (e_BaseTx e))
    = sub64 (cur_of d e) (base_of d e)"
  by (cases d) simp_all

lemma report_key_sum: "key_ok d k st \<Longrightarrow>
    stat_sum d k (fst (report_key reset key st)) = (if key = k then unbilled d k st else 0)"
  using unbilled_nonneg [of d k st]
  by (auto simp: report_key_def Let_def stat_sum_delta pending_dir unbilled_def split: option.splits)

lemma report_key_other: "key \<noteq> k \<Longrightarrow> snd (report_key reset key st) k = st k"
  by (simp add: report_key_def Let_def split: option.splits)

lemma entry_ok_base: "entry_ok d e \<Longrightarrow> \<not> e_IsDeleted e \<Longrightarrow>
    entry_ok d (e\<lparr>e_BaseRx := e_CurrentRx e, e_BaseTx := e_CurrentTx e\<rparr>)"
  by (cases d) (simp_all add: entry_ok_def)

lemma report_key_this:
  assumes "key_ok d k st"
  shows "key_ok d k (snd (report_key reset k st))"
    and "unbilled d k (snd (report_key reset k st)) = (if reset then 0 else unbilled d k st)"
    and "reading_of k (snd (report_key reset k st)) = reading_of k st"
    and "live_key k st \<Longrightarrow> live_key k (snd (report_key reset k st))"
  using assms
  by (cases d; auto simp: report_key_def Let_def key_ok_def entry_ok_base unbilled_def reading_of_def
      live_key_def split: option.splits)+

lemma report_key_meter:
  assumes "key_ok d k st"
  shows "key_ok d k (snd (report_key reset key st))"
    and "reading_of k (snd (report_key reset key st)) = reading_of k st"
    and "live_key k st \<Longrightarrow> live_key k (snd (report_key reset key st))"
    and "unbilled d k (snd (report_key reset key st))
          = (if reset \<and> key = k then 0 else unbilled d k st)"
  using report_key_this [OF assms, of reset] report_key_other [of key k reset st] assms
  by (cases "key = k"; auto simp: key_ok_def reading_of_def live_key_def unbilled_def)+

lemma GetStats_Cons: "fst (GetStats (key # keys) reset st) =
      fst (report_key reset key st) @ fst (GetStats keys reset (snd (report_key reset key st)))"
    "snd (GetStats (key # keys) reset st) = snd (GetStats keys reset (snd (report_key reset key st)))"
  by (simp_all add: split_beta)

lemma GetStats_meter:
  assumes "key_ok d k st"
  shows "key_ok d k (snd (GetStats keys reset st)) \<and>
    reading_of k (snd (GetStats keys reset st)) = reading_of k st \<and>
    (live_key k st \<longrightarrow> live_key k (snd (GetStats keys reset st))) \<and>
    unbilled d k (snd (GetStats keys reset st)) = (if reset \<and> k \<in> set keys then 0 else unbilled d k st) \<and>
    (reset \<longrightarrow> stat_sum d k (fst (GetStats keys reset st)) = (if k \<in> set keys then unbilled d k st else 0))"
  using assms
proof (induction keys arbitrary: st)
  case (Cons key keys)
  note r = report_key_meter [OF Cons.prems, of reset key]
  from Cons.IH [OF r(1)] r report_key_sum [OF Cons.prems, of reset key]
  show ?case unfolding GetStats_Cons by auto
qed simp

definition deleted_entry :: "entry \<Rightarrow> entry" where
  "deleted_entry e = e\<lparr>e_LastDeltaRx := sub64 (e_CurrentRx e) (e_BaseRx e),
     e_LastDeltaTx := sub64 (e_CurrentTx e) (e_BaseTx e), e_IsDeleted := True, e_LastActiveTime := 0\<rparr>"

lemma RemoveStats_at: "RemoveStats key st k = (if key = k then map_option deleted_entry (st k) else st k)"
  by (auto simp: RemoveStats_def deleted_entry_def split: option.splits)

lemma deleted_entry_simps [simp]: "cur_of d (deleted_entry e) = cur_of d e"
    "base_of d (deleted_entry e) = base_of d e" "e_IsDeleted (deleted_entry e)"
    "last_of d (deleted_entry e) = sub64 (cur_of d e) (base_of d e)"
  by (cases d; simp add: deleted_entry_def)+

lemma deleted_entry_ok: "entry_ok d e \<Longrightarrow> entry_ok d (deleted_entry e)"
  using pending_exact [of d e] by (simp add: entry_ok_def)

lemma RemoveStats_meter:
  assumes "key_ok d k st"
  shows "key_ok d k (RemoveStats key st)" "unbilled d k (RemoveStats key st) = unbilled d k st"
    "reading_of k (RemoveStats key st) = (if key = k then (0, 0) else reading_of k st)"
    "key \<noteq> k \<Longrightarrow> live_key k st \<Longrightarrow> live_key k (RemoveStats key st)"
  using assms by (cases "st k"; simp add: key_ok_def RemoveStats_at deleted_entry_ok unbilled_def
      reading_of_def live_key_def)+

lemma Cleanup_meter:
  assumes "key_ok d k st"
  shows "key_ok d k (CleanupDeletedEntries st)"
    "unbilled d k (CleanupDeletedEntries st) = unbilled d k st"
    "reading_of k (CleanupDeletedEntries st) = reading_of k st"
    "live_key k st \<Longrightarrow> live_key k (CleanupDeletedEntries st)"
proof -
  have "cur_of d e = base_of d e" if "e_CurrentRx e = e_BaseRx e" "e_CurrentTx e = e_BaseTx e" for e
    using that by (cases d) simp_all
  then show "key_ok d k (CleanupDeletedEntries st)"
    "unbilled d k (CleanupDeletedEntries st) = unbilled d k st"
    "reading_of k (CleanupDeletedEntries st) = reading_of k st"
    "live_key k st \<Longrightarrow> live_key k (CleanupDeletedEntries st)"
    using assms by (cases "st k"; simp add: CleanupDeletedEntries_def key_ok_def unbilled_def
      reading_of_def live_key_def)+
qed

lemma Clear_meter [simp]: "key_ok d k (ClearAllStats st)" "unbilled d k (ClearAllStats st) = 0"
    "reading_of k (ClearAllStats st) = (0, 0)"
  by (simp_all add: ClearAllStats_def key_ok_def unbilled_def reading_of_def)

text \<open>Both directions of the tracker are usage meters, and exact ones while the peer stays.\<close>

interpretation trk: usage_meter track "billed_of d k" "unbilled d k" "reading_of k"
    "moved_of d k" "nxt_of k" legal_op "key_ok d k" "2 ^ 63" for d k
proof (unfold_locales, goal_cases)
  case (1 e r)
  then show ?case by (cases e) (simp_all add: samples_moved_nonneg)
next
  case (2 e s)
  then show ?case using GetStats_meter [OF 2(2)] unbilled_nonneg [OF 2(2)]
    by (cases e) (simp_all add: billed_of_def split: bool.split)
next
  case (3 e s)
  then show ?case by (cases e) (simp_all add: batch_meter GetStats_meter RemoveStats_meter Cleanup_meter)
next
  case (4 e s)
  then show ?case
    using GetStats_meter [OF 4(2)] batch_meter [OF _ 4(2)] RemoveStats_meter(3) [OF 4(2)] Cleanup_meter(3) [OF 4(2)]
    by (cases e) simp_all
next
  case (5 e s)
  then show ?case
    using GetStats_meter [OF 5(2)] batch_meter [OF _ 5(2)] unbilled_nonneg [OF 5(2)]
    by (cases e) (simp_all add: billed_of_def RemoveStats_meter Cleanup_meter
        split: bool.split)
qed

fun staying_op :: "string \<Rightarrow> tracker_op \<Rightarrow> bool" where
  "staying_op k (Remove key) = (key \<noteq> k)"
| "staying_op k ClearAll = False"
| "staying_op k e = legal_op e"

fun steady_op :: "string \<Rightarrow> tracker_op \<Rightarrow> int \<times> int \<Rightarrow> bool" where
  "steady_op k (Samples ss now) r = samples_steady k ss r"
| "steady_op k e r = True"

lemma staying_legal: "staying_op k e \<Longrightarrow> legal_op e"
  by (cases e) simp_all

lemma staying_live: "staying_op k e \<Longrightarrow> key_ok d k st \<Longrightarrow> live_key k st \<Longrightarrow> live_key k (track e st)"
  by (cases e) (simp_all add: live_key_batch GetStats_meter RemoveStats_meter Cleanup_meter)

interpretation trk_exact: exact_meter track "billed_of d k" "unbilled d k" "reading_of k"
    "moved_of d k" "nxt_of k" "staying_op k" "\<lambda>st. key_ok d k st \<and> live_key k st" "2 ^ 63" "steady_op k" for d k
proof (unfold_locales, goal_cases)
  case (1 e r)
  then show ?case by (simp add: trk.moved_nonneg staying_legal)
next
  case (2 e s)
  then show ?case by (simp add: trk.billed_nonneg staying_legal)
next
  case (3 e s)
  then show ?case by (meson trk.invar_step staying_legal staying_live)
next
  case (4 e s)
  then show ?case by (meson trk.reading_step staying_legal)
next
  case (5 e s)
  then show ?case by (meson trk.step_le staying_legal)
next
  case (6 e s)
  then show ?case
    using GetStats_meter [of d k s] batch_exact [of _ d k s]
    by (cases e) (simp_all add: billed_of_def RemoveStats_meter Cleanup_meter split: bool.split)
qed


section \<open>Billing\<close>

text \<open>
  C1: starting from an empty tracker, whatever sequence of batches, reports, removals and clean-ups
  happens, the panel is never told of more traffic of a user than the peer's counters moved: what all
  resetting reports add up to for a key, in each direction, plus what the tracker still holds back
  for it, is at most the growth of that peer's kernel counter, where a counter that went back and a
  peer that was removed start again from zero. The hypotheses are that counters are kernel counters
  (below \<open>2 ^ 63\<close>, not negative) and that the peer moved less than \<open>2 ^ 63\<close> bytes.
\<close>

theorem tracker_never_overbills:
  assumes "list_all legal_op ops"
    and "total_moved (moved_of d k) (nxt_of k) ops (0, 0) < 2 ^ 63"
  shows "0 \<le> unbilled d k (run_ops track ops newTracker) \<and>
    total_billed track (billed_of d k) ops newTracker + unbilled d k (run_ops track ops newTracker)
      \<le> total_moved (moved_of d k) (nxt_of k) ops (0, 0)"
proof -
  have *: "key_ok d k newTracker" "unbilled d k newTracker = 0" "reading_of k newTracker = (0, 0)"
    by (simp_all add: newTracker_def key_ok_def unbilled_def reading_of_def)
  from trk.never_overbilled [OF assms(1) *(1)] assms(2) show ?thesis
    by (simp add: * unbilled_nonneg)
qed

text \<open>The run of the examples: two samples, a report, a restart of the counter, a removal.\<close>

definition demo_sample :: "int \<Rightarrow> int \<Rightarrow> sample" where
  "demo_sample rx tx = \<lparr>sm_PublicKey = ''pk'', sm_Email = ''a@b'', sm_Rx = rx, sm_Tx = tx,
     sm_EndpointIP = ''192.0.2.7''\<rparr>"

definition demo_ops :: "tracker_op list" where
  "demo_ops = [Samples [demo_sample 10 5] 1, Samples [demo_sample 30 9] 2, Report [''pk''] True,
     Samples [demo_sample 4 2] 3, Remove ''pk'', Report [''pk''] True, Cleanup]"

lemma demo_ops_moved: "total_moved (moved_of Uplink ''pk'') (nxt_of ''pk'') demo_ops (0, 0) = 34"
  by (simp add: demo_ops_def demo_sample_def growth_def)

theorem tracker_never_overbills_witness:
  "total_moved (moved_of Uplink ''pk'') (nxt_of ''pk'') demo_ops (0, 0) = 34 \<and>
   total_billed track (billed_of Uplink ''pk'') demo_ops newTracker
     + unbilled Uplink ''pk'' (run_ops track demo_ops newTracker) \<le> 34"
proof -
  have "list_all legal_op demo_ops" by (simp add: demo_ops_def demo_sample_def sample_ok_def)
  then show ?thesis using tracker_never_overbills [of demo_ops Uplink "''pk''"] demo_ops_moved by simp
qed

text \<open>
  C2: no usage is lost while a peer stays: if it is never removed and its counters never go back,
  what the resetting reports billed for it plus what is still pending is exactly what its counter
  moved, in each direction, for every interleaving with the traffic and the reports of other peers.
\<close>

theorem tracker_bills_exactly:
  assumes "list_all (staying_op k) ops" "steady_run (steady_op k) (nxt_of k) ops (0, 0)"
    and "total_moved (moved_of d k) (nxt_of k) ops (0, 0) < 2 ^ 63"
  shows "total_billed track (billed_of d k) ops newTracker + unbilled d k (run_ops track ops newTracker)
      = total_moved (moved_of d k) (nxt_of k) ops (0, 0)"
proof -
  have *: "key_ok d k newTracker" "live_key k newTracker" "unbilled d k newTracker = 0"
    "reading_of k newTracker = (0, 0)"
    by (simp_all add: newTracker_def key_ok_def live_key_def unbilled_def reading_of_def)
  from trk_exact.conserved [OF assms(1), of d newTracker] assms(2,3) show ?thesis by (simp add: *)
qed

theorem tracker_bills_exactly_witness:
  "total_billed track (billed_of Downlink ''pk'') (take 3 demo_ops) newTracker
     + unbilled Downlink ''pk'' (run_ops track (take 3 demo_ops) newTracker) = 9"
proof -
  let ?ops = "take 3 demo_ops"
  have "list_all (staying_op ''pk'') ?ops" "steady_run (steady_op ''pk'') (nxt_of ''pk'') ?ops (0, 0)"
    and moved: "total_moved (moved_of Downlink ''pk'') (nxt_of ''pk'') ?ops (0, 0) = 9"
    by (simp_all add: demo_ops_def demo_sample_def sample_ok_def growth_def)
  then show ?thesis using tracker_bills_exactly [of "''pk''" ?ops Downlink] by simp
qed

lemma report_key_state: "snd (report_key False key st) = st"
  by (simp add: report_key_def Let_def split: option.splits)

lemma GetStats_peek: "snd (GetStats keys False st) = st"
  by (induction keys) (simp_all only: GetStats.simps(1) GetStats_Cons report_key_state snd_conv)

lemma report_key_reset_at: "snd (report_key True key st) k =
    (if key = k then (case st k of None \<Rightarrow> None | Some e \<Rightarrow> if e_IsDeleted e then None
       else Some (e\<lparr>e_BaseRx := e_CurrentRx e, e_BaseTx := e_CurrentTx e\<rparr>)) else st k)"
  by (auto simp: report_key_def Let_def split: option.splits)

lemma GetStats_reset_at: "snd (GetStats keys True st) k =
    (if k \<in> set keys then (case st k of None \<Rightarrow> None | Some e \<Rightarrow> if e_IsDeleted e then None
       else Some (e\<lparr>e_BaseRx := e_CurrentRx e, e_BaseTx := e_CurrentTx e\<rparr>)) else st k)"
proof (induction keys arbitrary: st)
  case (Cons key keys)
  show ?case unfolding GetStats_Cons Cons.IH report_key_reset_at by (auto split: option.splits)
qed simp

text \<open>
  A report with a reset over a range order of all keys leaves nothing pending for any key, drops
  every deleted entry and keeps every other one; a report without a reset changes nothing.
\<close>

lemma GetUsersStats_drains:
  assumes "iterates ord st"
  shows "(\<forall>k d. unbilled d k (snd (GetUsersStats ord True st)) = 0) \<and>
    dom (snd (GetUsersStats ord True st)) = {k. \<exists>e. st k = Some e \<and> \<not> e_IsDeleted e} \<and>
    snd (GetUsersStats ord False st) = st"
proof (intro conjI allI)
  have at: "snd (GetUsersStats ord True st) k = (case st k of None \<Rightarrow> None
      | Some e \<Rightarrow> if e_IsDeleted e then None
                 else Some (e\<lparr>e_BaseRx := e_CurrentRx e, e_BaseTx := e_CurrentTx e\<rparr>))" for k
    unfolding GetUsersStats_def GetStats_reset_at using iterates_mem [OF assms, of k]
    by (auto simp: dom_def split: option.split)
  show "unbilled d k (snd (GetUsersStats ord True st)) = 0" for k d
    by (cases d) (simp_all add: unbilled_def at split: option.split)
  show "dom (snd (GetUsersStats ord True st)) = {k. \<exists>e. st k = Some e \<and> \<not> e_IsDeleted e}"
    by (auto simp: dom_def at split: option.splits if_splits)
  show "snd (GetUsersStats ord False st) = st" by (simp add: GetUsersStats_def GetStats_peek)
qed

lemma GetUsersStats_drains_witness:
  "snd (GetUsersStats [''pk''] False [''pk'' \<mapsto> new_entry ''a@b'']) = [''pk'' \<mapsto> new_entry ''a@b'']"
proof -
  have "iterates [''pk''] [''pk'' \<mapsto> new_entry ''a@b'']" by (simp add: iterates_def)
  from GetUsersStats_drains [OF this] show ?thesis by blast
qed


section \<open>Interface counters as a usage meter\<close>

text \<open>
  The node-level counters: a call carries the interface's counters and whether it resets. Only a
  resetting call bills. The reading is the base, once it is set.
\<close>

definition delta_step :: "int \<times> int \<times> bool \<Rightarrow> iface_counters \<Rightarrow> iface_counters" where
  "delta_step c t = (case c of (rx, tx, reset) \<Rightarrow> snd (Delta rx tx reset t))"

definition delta_billed :: "dir \<Rightarrow> int \<times> int \<times> bool \<Rightarrow> iface_counters \<Rightarrow> int" where
  "delta_billed d c t = (case c of (rx, tx, reset) \<Rightarrow> if reset then dir_of d (fst (Delta rx tx reset t)) else 0)"

definition delta_reading :: "iface_counters \<Rightarrow> (int \<times> int) option" where
  "delta_reading t = (if ic_BaseSet t then Some (ic_BaseRx t, ic_BaseTx t) else None)"

definition delta_moved :: "dir \<Rightarrow> int \<times> int \<times> bool \<Rightarrow> (int \<times> int) option \<Rightarrow> int" where
  "delta_moved d c r = (case (c, r) of ((rx, tx, reset), Some b) \<Rightarrow>
     (if reset then growth (dir_of d b) (dir_of d (rx, tx)) else 0) | _ \<Rightarrow> 0)"

definition delta_nxt :: "int \<times> int \<times> bool \<Rightarrow> (int \<times> int) option \<Rightarrow> (int \<times> int) option" where
  "delta_nxt c r = (case c of (rx, tx, reset) \<Rightarrow>
     (case r of None \<Rightarrow> Some (rx, tx)
      | Some b \<Rightarrow> if rx < fst b \<or> tx < snd b \<or> reset then Some (rx, tx) else r))"

definition delta_legal :: "int \<times> int \<times> bool \<Rightarrow> bool" where
  "delta_legal c = (case c of (rx, tx, reset) \<Rightarrow> 0 \<le> rx \<and> rx < 2 ^ 63 \<and> 0 \<le> tx \<and> tx < 2 ^ 63)"

definition delta_invar :: "iface_counters \<Rightarrow> bool" where
  "delta_invar t \<longleftrightarrow> (ic_BaseSet t \<longrightarrow> delta_legal (ic_BaseRx t, ic_BaseTx t, False))"

definition delta_steady :: "int \<times> int \<times> bool \<Rightarrow> (int \<times> int) option \<Rightarrow> bool" where
  "delta_steady c r = (case (c, r) of ((rx, tx, reset), Some b) \<Rightarrow> fst b \<le> rx \<and> snd b \<le> tx | _ \<Rightarrow> True)"

lemmas delta_defs = delta_step_def delta_billed_def delta_reading_def delta_moved_def delta_nxt_def
  delta_legal_def delta_invar_def delta_steady_def

lemma Delta_simps:
  "\<not> ic_BaseSet t \<Longrightarrow> Delta rx tx reset t =
     ((0, 0), t\<lparr>ic_BaseRx := rx, ic_BaseTx := tx, ic_BaseSet := True\<rparr>)"
  "ic_BaseSet t \<Longrightarrow> rx < ic_BaseRx t \<or> tx < ic_BaseTx t \<Longrightarrow> Delta rx tx reset t =
     ((0, 0), t\<lparr>ic_BaseRx := rx, ic_BaseTx := tx\<rparr>)"
  "ic_BaseSet t \<Longrightarrow> ic_BaseRx t \<le> rx \<Longrightarrow> ic_BaseTx t \<le> tx \<Longrightarrow> Delta rx tx reset t =
     ((sub64 rx (ic_BaseRx t), sub64 tx (ic_BaseTx t)),
      if reset then t\<lparr>ic_BaseRx := rx, ic_BaseTx := tx\<rparr> else t)"
  by (auto simp: Delta_def Let_def)

lemma Delta_cases:
  obtains "\<not> ic_BaseSet t"
  | "ic_BaseSet t" "rx < ic_BaseRx t \<or> tx < ic_BaseTx t"
  | "ic_BaseSet t" "ic_BaseRx t \<le> rx" "ic_BaseTx t \<le> tx"
  by (meson linorder_not_le)

lemma delta_laws:
  assumes "delta_legal e" "delta_invar t"
  shows "0 \<le> delta_billed d e t" "delta_invar (delta_step e t)"
    "delta_reading (delta_step e t) = delta_nxt e (delta_reading t)"
    "delta_billed d e t \<le> delta_moved d e (delta_reading t)"
    "delta_steady e (delta_reading t) \<Longrightarrow> delta_billed d e t = delta_moved d e (delta_reading t)"
proof (atomize (full), goal_cases)
  case 1
  obtain rx tx reset where e: "e = (rx, tx, reset)" by (cases e)
  show ?case
  proof (cases rule: Delta_cases [where t = t and rx = rx and tx = tx])
    case 1
    with assms show ?thesis by (cases d) (auto simp: e delta_defs Delta_simps)
  next
    case 2
    with assms show ?thesis by (cases d) (auto simp: e delta_defs Delta_simps growth_def)
  next
    case 3
    with assms show ?thesis by (cases d) (auto simp: e delta_defs Delta_simps growth_def sub64_nonneg)
  qed
qed

interpretation icnt: exact_meter delta_step "delta_billed d" "\<lambda>t. 0" delta_reading "delta_moved d"
    delta_nxt delta_legal delta_invar "2 ^ 63" delta_steady for d
proof (unfold_locales, goal_cases)
  case (1 e r)
  then show ?case
    by (cases d) (auto simp: delta_moved_def delta_legal_def growth_nonneg split: option.split)
qed (simp_all add: delta_laws)

text \<open>Along readings that never go back, what moved telescopes.\<close>

lemma delta_moved_telescopes:
  "steady_run delta_steady delta_nxt cs (Some b) \<Longrightarrow>
   total_moved (delta_moved d) delta_nxt cs (Some b)
     = dir_of d (the (fold delta_nxt cs (Some b))) - dir_of d b"
proof (induction cs arbitrary: b)
  case (Cons c cs)
  obtain b' where b': "delta_nxt c (Some b) = Some b'" "delta_moved d c (Some b) = dir_of d b' - dir_of d b"
    using Cons.prems
    by (cases c; cases d) (auto simp: delta_nxt_def delta_moved_def delta_steady_def growth_def split: if_splits)
  with Cons show ?case by simp
qed simp

lemma delta_reading_run: "list_all delta_legal cs \<Longrightarrow> delta_invar t \<Longrightarrow> delta_reading (run_ops delta_step cs t)
    = fold delta_nxt cs (delta_reading t)"
  by (induction cs arbitrary: t) (simp_all add: delta_laws)

lemma delta_nxt_legal: "list_all delta_legal cs \<Longrightarrow> delta_legal (fst b, snd b, False) \<Longrightarrow>
    \<exists>b'. fold delta_nxt cs (Some b) = Some b' \<and> delta_legal (fst b', snd b', False)"
proof (induction cs arbitrary: b)
  case (Cons c cs)
  have "\<exists>b'. delta_nxt c (Some b) = Some b' \<and> delta_legal (fst b', snd b', False)"
    using Cons.prems by (cases c; cases b) (auto simp: delta_nxt_def delta_legal_def)
  with Cons show ?case by fastforce
qed simp

text \<open>
  The node's interface counters: over any sequence of calls whose counters do not go back, the
  deltas of the resetting calls add up, in each direction, to the distance from the first counters
  seen to the base the tracker ends with, so nothing is reported twice and nothing before the first
  call is reported.
\<close>

lemma Delta_telescopes:
  assumes "list_all delta_legal ((rx, tx, reset) # cs)"
    and "steady_run delta_steady delta_nxt cs (Some (rx, tx))"
  shows "\<exists>b. delta_reading (run_ops delta_step ((rx, tx, reset) # cs) NewInterfaceCountersTracker) = Some b \<and>
    total_billed delta_step (delta_billed d) ((rx, tx, reset) # cs) NewInterfaceCountersTracker
      = dir_of d b - dir_of d (rx, tx)"
proof -
  let ?t = "NewInterfaceCountersTracker" and ?c = "(rx, tx, reset)"
  let ?m = "total_moved (delta_moved d) delta_nxt cs (Some (rx, tx))"
  have t: "delta_reading ?t = None" "delta_invar ?t"
    by (simp_all add: delta_reading_def delta_invar_def NewInterfaceCountersTracker_def)
  have nx: "delta_nxt ?c None = Some (rx, tx)" "delta_moved d ?c None = 0" "delta_steady ?c None"
    by (simp_all add: delta_nxt_def delta_moved_def delta_steady_def)
  obtain b where b: "fold delta_nxt cs (Some (rx, tx)) = Some b" "delta_legal (fst b, snd b, False)"
    using delta_nxt_legal [of cs "(rx, tx)"] assms(1) by (auto simp: delta_legal_def)
  have m: "?m = dir_of d b - dir_of d (rx, tx)" using delta_moved_telescopes [OF assms(2), of d] b by simp
  have "?m < 2 ^ 63" unfolding m using b(2) assms(1) by (cases d) (auto simp: delta_legal_def)
  then have "total_billed delta_step (delta_billed d) (?c # cs) ?t = ?m"
    using icnt.conserved [OF assms(1) t(2), of d] assms(2) nx t(1) by simp
  moreover have "delta_reading (run_ops delta_step (?c # cs) ?t) = Some b"
    using delta_reading_run [OF assms(1) t(2)] nx t(1) b(1) by simp
  ultimately show ?thesis by (intro exI [of _ b] conjI) (simp_all only: m)
qed

lemma Delta_telescopes_witness:
  "\<exists>b. delta_reading (run_ops delta_step [(100, 50, False), (130, 50, True), (170, 90, True)]
          NewInterfaceCountersTracker) = Some b \<and>
    total_billed delta_step (delta_billed Uplink) [(100, 50, False), (130, 50, True), (170, 90, True)]
      NewInterfaceCountersTracker = fst b - 100"
  using Delta_telescopes [of 100 50 False "[(130, 50, True), (170, 90, True)]" Uplink]
  by (simp add: delta_legal_def delta_steady_def delta_nxt_def)

end
