(* ===== verification/Net_Ip.thy ===== *)
theory Net_Ip
  imports Node_Prelude
begin

text \<open>
  The part of the Go packages \<^verbatim>\<open>net\<close> and \<^verbatim>\<open>net/netip\<close> the node's address handling calls:
  parsing a CIDR prefix (IPv4 and IPv6), printing it, masks and containment. An address is the list
  of its bytes, four or sixteen of them. A mask always comes from \<^verbatim>\<open>ParseCIDR\<close> or
  \<^verbatim>\<open>CIDRMask\<close> here, so it is a number of leading ones and a length in bytes.
\<close>

type_synonym ip = "nat list"

record ipnet =
  n_IP :: ip
  n_Ones :: nat
  n_MaskLen :: nat


section \<open>Parsing\<close>

text \<open>
  One field of a dotted quad: digits only, no leading zero, at most 255.
\<close>

definition ipv4_field :: "string \<Rightarrow> nat option" where
  "ipv4_field s =
     (if s \<noteq> [] \<and> list_all is_digit s \<and> (hd s = CHR ''0'' \<longrightarrow> length s = 1) \<and> digits_val s \<le> 255
      then Some (nat (digits_val s)) else None)"

fun sequence_opt :: "'a option list \<Rightarrow> 'a list option" where
  "sequence_opt [] = Some []"
| "sequence_opt (None # xs) = None"
| "sequence_opt (Some x # xs) = map_option ((#) x) (sequence_opt xs)"

definition parseIPv4 :: "string \<Rightarrow> ip option" where
  "parseIPv4 s = (let fs = Split s ''.'' in
     if length fs = 4 then sequence_opt (map ipv4_field fs) else None)"

definition hex_val :: "char \<Rightarrow> nat option" where
  "hex_val c = (let n = (of_char c :: nat) in
     if 48 \<le> n \<and> n \<le> 57 then Some (n - 48)
     else if 97 \<le> n \<and> n \<le> 102 then Some (n - 87)
     else if 65 \<le> n \<and> n \<le> 70 then Some (n - 55) else None)"

definition is_hex :: "char \<Rightarrow> bool" where
  "is_hex c \<longleftrightarrow> hex_val c \<noteq> None"

text \<open>
  The loop of \<^verbatim>\<open>netip.parseIPv6\<close>. \<open>n\<close> counts the 16-bit groups it may still read, \<open>acc\<close> is what
  was read (bytes, in order) and \<open>ell\<close> the position of the ellipsis. A result is the bytes, the
  ellipsis and the unread rest.
\<close>

fun ipv6_loop :: "nat \<Rightarrow> ip \<Rightarrow> nat option \<Rightarrow> string \<Rightarrow> (ip \<times> nat option \<times> string) option" where
  "ipv6_loop 0 acc ell s = Some (acc, ell, s)"
| "ipv6_loop (Suc n) acc ell s =
     (let h = takeWhile is_hex s; r = dropWhile is_hex s in
      if h = [] \<or> length h > 4 then None
      else if r \<noteq> [] \<and> hd r = CHR ''.'' then
        (if (ell = None \<and> length acc \<noteq> 12) \<or> length acc + 4 > 16 then None
         else map_option (\<lambda>v4. (acc @ v4, ell, [])) (parseIPv4 s))
      else
       (let v = foldl (\<lambda>a c. 16 * a + the (hex_val c)) 0 h; acc = acc @ [v div 256, v mod 256] in
        case r of
          [] \<Rightarrow> Some (acc, ell, [])
        | c # r' \<Rightarrow>
           (if c \<noteq> CHR '':'' \<or> r' = [] then None
            else if hd r' = CHR '':'' then
              (if ell \<noteq> None then None
               else if tl r' = [] then Some (acc, Some (length acc), [])
               else ipv6_loop n acc (Some (length acc)) (tl r'))
            else ipv6_loop n acc ell r')))"

definition ipv6_finish :: "(ip \<times> nat option \<times> string) option \<Rightarrow> ip option" where
  "ipv6_finish res =
     (case res of
        None \<Rightarrow> None
      | Some (acc, ell, rest) \<Rightarrow>
         (if rest \<noteq> [] then None
          else case ell of
            None \<Rightarrow> (if length acc < 16 then None else Some acc)
          | Some e \<Rightarrow>
             (if length acc < 16
              then Some (take e acc @ replicate (16 - length acc) 0 @ drop e acc) else None)))"

definition parseIPv6 :: "string \<Rightarrow> ip option" where
  "parseIPv6 s =
     (if HasPrefix s ''::'' then
        (if length s = 2 then Some (replicate 16 0)
         else ipv6_finish (ipv6_loop 8 [] (Some 0) (drop 2 s)))
      else ipv6_finish (ipv6_loop 8 [] None s))"

text \<open>
  \<^verbatim>\<open>netip.ParseAddr\<close>, for addresses without a zone: the first of the two separators decides.
  \<^verbatim>\<open>ParseCIDR\<close> refuses an address with a zone, so a percent sign is an error either way.
\<close>

definition ParseAddr :: "string \<Rightarrow> ip option" where
  "ParseAddr s =
     (if CHR ''%'' \<in> set s then None
      else case find (\<lambda>c. c = CHR ''.'' \<or> c = CHR '':'') s of
        None \<Rightarrow> None
      | Some c \<Rightarrow> (if c = CHR ''.'' then parseIPv4 s else parseIPv6 s))"

text \<open>The leading \<open>k\<close> bits of one byte, and of an address.\<close>

definition mask_byte :: "nat \<Rightarrow> nat \<Rightarrow> nat" where
  "mask_byte k b = b - b mod 2 ^ (8 - k)"

fun mask_ip :: "nat \<Rightarrow> ip \<Rightarrow> ip" where
  "mask_ip k [] = []"
| "mask_ip k (b # bs) = mask_byte (min k 8) b # mask_ip (k - 8) bs"

definition ParseCIDR :: "string \<Rightarrow> ipnet option" where
  "ParseCIDR s =
     (case Cut s ''/'' of
        None \<Rightarrow> None
      | Some (addr, bits) \<Rightarrow>
         (case ParseAddr addr of
            None \<Rightarrow> None
          | Some a \<Rightarrow>
             (case parse_nat bits of
                None \<Rightarrow> None
              | Some n \<Rightarrow>
                 (if n > 8 * int (length a) then None
                  else Some \<lparr>n_IP = mask_ip (nat n) a, n_Ones = nat n, n_MaskLen = length a\<rparr>))))"


section \<open>Printing and containment\<close>

text \<open>\<^verbatim>\<open>IP.To4\<close>: the four bytes of an IPv4 address, also of one mapped into IPv6.\<close>

definition To4 :: "ip \<Rightarrow> ip option" where
  "To4 a =
     (if length a = 4 then Some a
      else if length a = 16 \<and> take 12 a = replicate 10 0 @ [255, 255] then Some (drop 12 a)
      else None)"

fun groups16 :: "ip \<Rightarrow> nat list" where
  "groups16 (h # l # bs) = (256 * h + l) # groups16 bs"
| "groups16 bs = []"

fun show_hex :: "nat \<Rightarrow> string" where
  "show_hex n =
     (let d = (\<lambda>m. byte (if m < 10 then 48 + m else 87 + m))
      in if n < 16 then [d n] else show_hex (n div 16) @ [d (n mod 16)])"

declare show_hex.simps [simp del]

text \<open>The longest run of at least two zero groups, the first one of that length.\<close>

fun zero_run :: "nat list \<Rightarrow> nat" where
  "zero_run (0 # gs) = Suc (zero_run gs)"
| "zero_run gs = 0"

definition best_run :: "nat list \<Rightarrow> nat \<times> nat" where
  "best_run gs = foldl (\<lambda>(start, len) i. let l = zero_run (drop i gs) in
      if l \<ge> 2 \<and> l > len then (i, l) else (start, len)) (0, 0) [0..<length gs]"

definition show_ipv6 :: "ip \<Rightarrow> string" where
  "show_ipv6 a =
     (let gs = groups16 a; (start, len) = best_run gs; hex = (\<lambda>xs. Join (map show_hex xs) '':'')
      in if len = 0 then hex gs
         else hex (take start gs) @ ''::'' @ hex (drop (start + len) gs))"

definition show_ipv4 :: "ip \<Rightarrow> string" where
  "show_ipv4 a = Join (map show_nat a) ''.''"

definition IP_String :: "ip \<Rightarrow> string" where
  "IP_String a = (case To4 a of Some b \<Rightarrow> show_ipv4 b | None \<Rightarrow> show_ipv6 a)"

text \<open>The network number and the leading ones of the mask that applies to it.\<close>

definition networkNumberAndMask :: "ipnet \<Rightarrow> ip \<times> nat" where
  "networkNumberAndMask n =
     (case To4 (n_IP n) of
        None \<Rightarrow> (n_IP n, n_Ones n)
      | Some a \<Rightarrow> (a, if n_MaskLen n = 16 then n_Ones n - 96 else n_Ones n))"

definition IPNet_String :: "ipnet \<Rightarrow> string" where
  "IPNet_String n = (case networkNumberAndMask n of (a, ones) \<Rightarrow> IP_String a @ ''/'' @ show_nat ones)"

definition IPNet_Contains :: "ipnet \<Rightarrow> ip \<Rightarrow> bool" where
  "IPNet_Contains n a =
     (case networkNumberAndMask n of (nn, ones) \<Rightarrow>
        (let a = (case To4 a of Some b \<Rightarrow> b | None \<Rightarrow> a)
         in length a = length nn \<and> mask_ip ones nn = mask_ip ones a))"


section \<open>Facts\<close>

lemma length_mask_ip [simp]: "length (mask_ip k a) = length a"
  by (induction a arbitrary: k) simp_all

lemma mask_byte_mask_byte: "k \<le> l \<Longrightarrow> l \<le> 8 \<Longrightarrow> mask_byte k (mask_byte l b) = mask_byte k b"
proof -
  assume kl: "k \<le> l" "l \<le> 8"
  let ?c = "2 ^ (8 - l) :: nat" and ?d = "2 ^ (8 - k) :: nat"
  have "?d = ?c * 2 ^ (l - k)" using kl by (simp flip: power_add)
  then have cd: "?c dvd ?d" by simp
  have m: "mask_byte j b = b div 2 ^ (8 - j) * 2 ^ (8 - j)" for j b
    by (simp add: mask_byte_def minus_mod_eq_div_mult)
  obtain q where q: "?d = ?c * q" "q > 0" using cd by (metis dvdE nat_0_less_mult_iff zero_less_numeral zero_less_power)
  have "b div ?c * ?c div ?d = b div ?c div q" unfolding q(1) by (simp add: div_mult2_eq)
  also have "\<dots> = b div ?d" unfolding q(1) by (simp add: div_mult2_eq)
  finally show "mask_byte k (mask_byte l b) = mask_byte k b" by (simp add: m)
qed

lemma mask_ip_mask_ip: "k \<le> l \<Longrightarrow> mask_ip k (mask_ip l a) = mask_ip k a"
  by (induction a arbitrary: k l) (simp_all add: mask_byte_mask_byte)

lemma mask_ip_mono: "k \<le> l \<Longrightarrow> mask_ip l a = mask_ip l b \<Longrightarrow> mask_ip k a = mask_ip k b"
  by (metis mask_ip_mask_ip)

text \<open>The addresses a prefix stands for, as byte lists of its own length.\<close>

definition net_members :: "ipnet \<Rightarrow> ip set" where
  "net_members n = {a. length a = length (n_IP n) \<and> mask_ip (n_Ones n) a = mask_ip (n_Ones n) (n_IP n)}"

lemma net_members_self: "n_IP n \<in> net_members n"
  by (simp add: net_members_def)

text \<open>The parts of a dotted address are bytes, and no other notation gives four of them.\<close>

lemma sequence_opt_bytes: "sequence_opt (map ipv4_field fs) = Some a \<Longrightarrow> list_all (\<lambda>b. b < 256) a"
proof (induction fs arbitrary: a)
  case (Cons f fs)
  then obtain b bs where b: "ipv4_field f = Some b" "sequence_opt (map ipv4_field fs) = Some bs" "a = b # bs"
    by (cases "ipv4_field f") auto
  have "b < 256" using b(1) by (auto simp: ipv4_field_def split: if_splits)
  with Cons.IH [OF b(2)] show ?case by (simp add: b(3))
qed simp

lemma ipv6_finish_length: "ipv6_finish res = Some a \<Longrightarrow> 16 \<le> length a"
  by (auto simp: ipv6_finish_def split: option.splits prod.splits if_splits)

lemma ParseAddr4:
  assumes "ParseAddr s = Some a" "length a = 4"
  shows "list_all (\<lambda>b. b < 256) a"
proof -
  have "parseIPv6 s \<noteq> Some a" using ipv6_finish_length [of _ a] assms(2) by (auto simp: parseIPv6_def split: if_splits)
  then have "parseIPv4 s = Some a" using assms(1) by (auto simp: ParseAddr_def split: if_splits option.splits)
  then show ?thesis by (auto simp: parseIPv4_def Let_def intro: sequence_opt_bytes split: if_splits)
qed

end
