(* ===== verification/Peer_Store.thy ===== *)
theory Peer_Store
  imports Node_Messages Net_Ip
begin

text \<open>
  The WireGuard backend's peer store (\<^verbatim>\<open>backend/wireguard/peer_store.go\<close>): peers by public key
  and the index from a user's e-mail to that key. The key type \<open>'k\<close> and its printed form \<open>str\<close> stand
  for \<^verbatim>\<open>wgtypes.Key\<close> and \<^verbatim>\<open>Key.String\<close>. The theorems are the one-to-one invariant the store
  promises and what each operation does to both maps.
\<close>

record 'k peer_info =
  pi_Email :: string
  pi_PublicKey :: 'k
  pi_AllowedIPs :: "ipnet list"

definition clonePeerInfo :: "'k peer_info option \<Rightarrow> 'k peer_info option" where
  "clonePeerInfo peer =
     (case peer of
        None \<Rightarrow> None
      | Some p \<Rightarrow> Some \<lparr>pi_Email = pi_Email p, pi_PublicKey = pi_PublicKey p,
                       pi_AllowedIPs = [] @ pi_AllowedIPs p\<rparr>)"

record 'k peer_store =
  ps_peers :: "string \<rightharpoonup> 'k peer_info"
  ps_emailToKey :: "string \<rightharpoonup> string"

definition NewPeerStore :: "'k peer_store" where
  "NewPeerStore = \<lparr>ps_peers = Map.empty, ps_emailToKey = Map.empty\<rparr>"

text \<open>The body the bulk loops of \<open>Init\<close> and \<open>ReplaceAll\<close> share: one peer, nil skipped.\<close>

definition put_peer :: "('k \<Rightarrow> string) \<Rightarrow> 'k peer_store \<Rightarrow> 'k peer_info option \<Rightarrow> 'k peer_store" where
  "put_peer str ps peer =
     (case clonePeerInfo peer of
        None \<Rightarrow> ps
      | Some p \<Rightarrow>
         (let keyStr = str (pi_PublicKey p)
          in ps\<lparr>ps_peers := (ps_peers ps)(keyStr \<mapsto> p),
                ps_emailToKey := (ps_emailToKey ps)(pi_Email p \<mapsto> keyStr)\<rparr>))"

definition Init :: "('k \<Rightarrow> string) \<Rightarrow> 'k peer_info option list \<Rightarrow> 'k peer_store \<Rightarrow> 'k peer_store" where
  "Init str peers ps = foldl (put_peer str) ps peers"

text \<open>\<open>ApplyChanges\<close>: the removals, then the upserts.\<close>

fun remove_keys :: "string list \<Rightarrow> 'k peer_store \<Rightarrow> string list \<times> 'k peer_store" where
  "remove_keys [] ps = ([], ps)"
| "remove_keys (key # keys) ps =
     (case ps_peers ps key of
        None \<Rightarrow> remove_keys keys ps
      | Some peer \<Rightarrow>
         (let ps = ps\<lparr>ps_emailToKey := (ps_emailToKey ps)(pi_Email peer := None),
                      ps_peers := (ps_peers ps)(key := None)\<rparr>;
              (removed, ps) = remove_keys keys ps
          in (key # removed, ps)))"

definition upsert_peer :: "('k \<Rightarrow> string) \<Rightarrow> 'k peer_store \<Rightarrow> 'k peer_info option \<Rightarrow> 'k peer_store" where
  "upsert_peer str ps peer =
     (case clonePeerInfo peer of
        None \<Rightarrow> ps
      | Some p \<Rightarrow>
         (let key = str (pi_PublicKey p);
              ps = (case ps_emailToKey ps (pi_Email p) of
                      Some oldKey \<Rightarrow>
                        (if oldKey \<noteq> key then ps\<lparr>ps_peers := (ps_peers ps)(oldKey := None)\<rparr> else ps)
                    | None \<Rightarrow> ps);
              ps = (case ps_peers ps key of
                      Some existing \<Rightarrow>
                        (if pi_Email existing \<noteq> pi_Email p
                         then ps\<lparr>ps_emailToKey := (ps_emailToKey ps)(pi_Email existing := None)\<rparr>
                         else ps)
                    | None \<Rightarrow> ps)
          in ps\<lparr>ps_peers := (ps_peers ps)(key \<mapsto> p),
                ps_emailToKey := (ps_emailToKey ps)(pi_Email p \<mapsto> key)\<rparr>))"

definition ApplyChanges :: "('k \<Rightarrow> string) \<Rightarrow> string list \<Rightarrow> 'k peer_info option list \<Rightarrow> 'k peer_store \<Rightarrow>
    string list \<times> 'k peer_store" where
  "ApplyChanges str removeKeys upsertPeers ps =
     (let (removed, ps) = remove_keys removeKeys ps
      in (removed, foldl (upsert_peer str) ps upsertPeers))"

text \<open>\<open>ReplaceAll\<close> reports the keys that are gone, in the order it ranges over the old map.\<close>

definition ReplaceAll :: "('k \<Rightarrow> string) \<Rightarrow> string list \<Rightarrow> 'k peer_info option list \<Rightarrow> 'k peer_store \<Rightarrow>
    string list \<times> 'k peer_store" where
  "ReplaceAll str oldKeys peers ps =
     (let new = foldl (put_peer str) NewPeerStore peers
      in (filter (\<lambda>oldKey. ps_peers new oldKey = None) oldKeys, new))"

definition GetByEmail :: "string \<Rightarrow> 'k peer_store \<Rightarrow> 'k peer_info option" where
  "GetByEmail email ps =
     (case ps_emailToKey ps email of None \<Rightarrow> None | Some key \<Rightarrow> clonePeerInfo (ps_peers ps key))"

definition GetByKey :: "string \<Rightarrow> 'k peer_store \<Rightarrow> 'k peer_info option" where
  "GetByKey publicKey ps = clonePeerInfo (ps_peers ps publicKey)"

definition GetAll :: "string list \<Rightarrow> 'k peer_store \<Rightarrow> 'k peer_info list" where
  "GetAll ord ps = map (\<lambda>key. the (clonePeerInfo (ps_peers ps key))) ord"

definition GetEmailMap :: "'k peer_store \<Rightarrow> (string \<rightharpoonup> string)" where
  "GetEmailMap ps = (\<lambda>key. map_option pi_Email (ps_peers ps key))"

lemma clonePeerInfo_id [simp]: "clonePeerInfo p = p"
  by (simp add: clonePeerInfo_def split: option.split)


section \<open>The one-to-one invariant\<close>

text \<open>
  Each entry sits under its own printed key and is the one its e-mail leads to, and each e-mail leads
  to an entry of that e-mail.
\<close>

definition store_ok :: "('k \<Rightarrow> string) \<Rightarrow> 'k peer_store \<Rightarrow> bool" where
  "store_ok str ps \<longleftrightarrow> finite (dom (ps_peers ps)) \<and>
     (\<forall>key p. ps_peers ps key = Some p \<longrightarrow>
        str (pi_PublicKey p) = key \<and> ps_emailToKey ps (pi_Email p) = Some key) \<and>
     (\<forall>em key. ps_emailToKey ps em = Some key \<longrightarrow>
        (\<exists>p. ps_peers ps key = Some p \<and> pi_Email p = em))"

lemma store_okD:
  assumes "store_ok str ps"
  shows "finite (dom (ps_peers ps))"
    and "ps_peers ps key = Some p \<Longrightarrow> str (pi_PublicKey p) = key"
    and "ps_peers ps key = Some p \<Longrightarrow> ps_emailToKey ps (pi_Email p) = Some key"
    and "ps_emailToKey ps em = Some key \<Longrightarrow> \<exists>p. ps_peers ps key = Some p \<and> pi_Email p = em"
  using assms by (auto simp: store_ok_def)

lemma store_okI:
  assumes "finite (dom (ps_peers ps))"
    and "\<And>key p. ps_peers ps key = Some p \<Longrightarrow> str (pi_PublicKey p) = key"
    and "\<And>key p. ps_peers ps key = Some p \<Longrightarrow> ps_emailToKey ps (pi_Email p) = Some key"
    and "\<And>em key. ps_emailToKey ps em = Some key \<Longrightarrow> \<exists>p. ps_peers ps key = Some p \<and> pi_Email p = em"
  shows "store_ok str ps"
  using assms by (simp add: store_ok_def)

lemma store_ok_new [simp]: "store_ok str NewPeerStore"
  by (simp add: store_ok_def NewPeerStore_def)

lemma store_ok_emails: "store_ok str ps \<Longrightarrow> ps_peers ps k = Some p \<Longrightarrow> ps_peers ps k' = Some p' \<Longrightarrow>
    pi_Email p = pi_Email p' \<Longrightarrow> k = k'"
  by (metis store_okD(3) option.inject)

lemma delete_peer_ok:
  assumes ok: "store_ok str ps" and peer: "ps_peers ps key = Some peer"
  shows "store_ok str (ps\<lparr>ps_emailToKey := (ps_emailToKey ps)(pi_Email peer := None),
                  ps_peers := (ps_peers ps)(key := None)\<rparr>)" (is "store_ok str ?ps")
proof (rule store_okI)
  show "finite (dom (ps_peers ?ps))" using store_okD(1) [OF ok] by simp
  show "str (pi_PublicKey p) = k" if "ps_peers ?ps k = Some p" for k p
    using that store_okD(2) [OF ok] by (simp split: if_splits)
  show "ps_emailToKey ?ps (pi_Email p) = Some k" if "ps_peers ?ps k = Some p" for k p
  proof -
    from that have k: "k \<noteq> key" "ps_peers ps k = Some p" by (simp_all split: if_splits)
    with store_ok_emails [OF ok _ peer] have "pi_Email p \<noteq> pi_Email peer" by blast
    with store_okD(3) [OF ok k(2)] show ?thesis by simp
  qed
  show "\<exists>p. ps_peers ?ps k = Some p \<and> pi_Email p = em" if "ps_emailToKey ?ps em = Some k" for em k
  proof -
    from that have em: "em \<noteq> pi_Email peer" "ps_emailToKey ps em = Some k" by (simp_all split: if_splits)
    with store_okD(4) [OF ok] obtain p where "ps_peers ps k = Some p" "pi_Email p = em" by blast
    with em peer show ?thesis by auto
  qed
qed

lemma remove_keys_ok: "store_ok str ps \<Longrightarrow> store_ok str (snd (remove_keys keys ps))"
proof (induction keys ps rule: remove_keys.induct)
  case (2 key keys ps)
  then show ?case
    by (cases "ps_peers ps key") (simp_all add: Let_def split_beta delete_peer_ok)
qed simp

lemma remove_keys_peers: "ps_peers (snd (remove_keys keys ps)) = (ps_peers ps) |` (- set keys)"
proof (induction keys ps rule: remove_keys.induct)
  case (2 key keys ps)
  then show ?case
    by (auto simp: Let_def split_beta restrict_map_def fun_eq_iff split: option.splits)
qed (simp add: restrict_map_def)

lemma remove_keys_fst: "distinct keys \<Longrightarrow>
    fst (remove_keys keys ps) = filter (\<lambda>k. ps_peers ps k \<noteq> None) keys"
proof (induction keys ps rule: remove_keys.induct)
  case (2 key keys ps)
  show ?case
  proof (cases "ps_peers ps key")
    case (Some peer)
    have "filter (\<lambda>k. ((ps_peers ps)(key := None)) k \<noteq> None) keys = filter (\<lambda>k. ps_peers ps k \<noteq> None) keys"
      using 2(3) by (intro filter_cong) auto
    with 2 Some show ?thesis by (simp add: Let_def split_beta del: fun_upd_apply)
  qed (use 2 in simp)
qed simp

text \<open>
  An upsert puts its peer under its key and takes away whatever else its e-mail or its key was
  attached to.
\<close>

lemma upsert_peer_None [simp]: "upsert_peer str ps None = ps"
  by (simp add: upsert_peer_def)

lemma upsert_peers_at:
  assumes "store_ok str ps"
  shows "ps_peers (upsert_peer str ps (Some p)) k =
    (if k = str (pi_PublicKey p) then Some p
     else if ps_emailToKey ps (pi_Email p) = Some k then None else ps_peers ps k)"
  by (auto simp: upsert_peer_def Let_def split: option.splits)

lemma upsert_emails_at:
  assumes "store_ok str ps"
  shows "ps_emailToKey (upsert_peer str ps (Some p)) em =
    (if em = pi_Email p then Some (str (pi_PublicKey p))
     else if ps_emailToKey ps em = Some (str (pi_PublicKey p)) then None else ps_emailToKey ps em)"
proof -
  have "ps_emailToKey ps em = Some (str (pi_PublicKey p)) \<longleftrightarrow>
      (\<exists>q. ps_peers ps (str (pi_PublicKey p)) = Some q \<and> pi_Email q = em)" for em
    using store_okD(3,4) [OF assms] by blast
  then show ?thesis
    by (auto simp: upsert_peer_def Let_def split: option.splits if_splits)
qed

lemma upsert_peer_ok:
  assumes ok: "store_ok str ps"
  shows "store_ok str (upsert_peer str ps peer)"
proof (cases peer)
  case (Some p)
  let ?ps = "upsert_peer str ps (Some p)" and ?key = "str (pi_PublicKey p)"
  note at = upsert_peers_at [OF ok, of p] and em_at = upsert_emails_at [OF ok, of p]
  show ?thesis
    unfolding Some
  proof (rule store_okI)
    have "dom (ps_peers ?ps) \<subseteq> insert ?key (dom (ps_peers ps))" by (auto simp: at split: if_splits)
    then show "finite (dom (ps_peers ?ps))"
      using store_okD(1) [OF ok] by (meson finite.insertI finite_subset)
    show "str (pi_PublicKey q) = k" if "ps_peers ?ps k = Some q" for k q
      using that store_okD(2) [OF ok] by (auto simp: at split: if_splits)
    show "ps_emailToKey ?ps (pi_Email q) = Some k" if q: "ps_peers ?ps k = Some q" for k q
    proof (cases "k = ?key")
      case False
      with q have "ps_peers ps k = Some q" "ps_emailToKey ps (pi_Email p) \<noteq> Some k"
        by (simp_all add: at split: if_splits)
      with store_okD(3) [OF ok this(1)] False show ?thesis by (auto simp: em_at)
    qed (use q in \<open>auto simp: upsert_peers_at [OF ok] upsert_emails_at [OF ok]\<close>)
    show "\<exists>q. ps_peers ?ps k = Some q \<and> pi_Email q = em" if em: "ps_emailToKey ?ps em = Some k" for em k
    proof (cases "em = pi_Email p")
      case False
      with em have k: "ps_emailToKey ps em = Some k" "k \<noteq> ?key" by (auto simp: em_at split: if_splits)
      with store_okD(4) [OF ok] obtain q where q: "ps_peers ps k = Some q" "pi_Email q = em" by blast
      have "ps_emailToKey ps (pi_Email p) \<noteq> Some k"
        using store_okD(4) [OF ok, of "pi_Email p" k] q False by auto
      with q k show ?thesis by (simp add: at)
    qed (use em in \<open>auto simp: upsert_peers_at [OF ok] upsert_emails_at [OF ok]\<close>)
  qed
qed (use ok in simp)

lemma upsert_peers_ok: "store_ok str ps \<Longrightarrow> store_ok str (foldl (upsert_peer str) ps ups)"
  by (induction ups arbitrary: ps) (simp_all add: upsert_peer_ok)

lemma ApplyChanges_ok: "store_ok str ps \<Longrightarrow> store_ok str (snd (ApplyChanges str ks ups ps))"
  by (simp add: ApplyChanges_def split_beta upsert_peers_ok remove_keys_ok)

text \<open>
  The bulk operations put each peer under its key without looking for an earlier owner, so they keep
  the invariant only for peers with distinct keys and distinct e-mails.
\<close>

definition bulk_ok :: "('k \<Rightarrow> string) \<Rightarrow> 'k peer_info option list \<Rightarrow> bool" where
  "bulk_ok str peers \<longleftrightarrow> distinct (map pi_Email (present peers)) \<and>
     distinct (map (\<lambda>p. str (pi_PublicKey p)) (present peers))"

definition bulk_map :: "('k \<Rightarrow> string) \<Rightarrow> 'k peer_info option list \<Rightarrow> (string \<rightharpoonup> 'k peer_info)" where
  "bulk_map str peers = map_of (map (\<lambda>p. (str (pi_PublicKey p), p)) (rev (present peers)))"

lemma put_peer_simps [simp]:
  "put_peer str ps None = ps"
  "ps_peers (put_peer str ps (Some p)) = (ps_peers ps)(str (pi_PublicKey p) \<mapsto> p)"
  "ps_emailToKey (put_peer str ps (Some p)) = (ps_emailToKey ps)(pi_Email p \<mapsto> str (pi_PublicKey p))"
  by (simp_all add: put_peer_def Let_def)

lemma put_peers:
  "ps_peers (foldl (put_peer str) ps peers) = ps_peers ps ++ bulk_map str peers \<and>
   ps_emailToKey (foldl (put_peer str) ps peers) = ps_emailToKey ps ++
     map_of (map (\<lambda>p. (pi_Email p, str (pi_PublicKey p))) (rev (present peers)))"
  by (induction peers arbitrary: ps rule: present.induct) (simp_all add: bulk_map_def)

lemma bulk_map_Some:
  assumes "bulk_ok str peers"
  shows "bulk_map str peers k = Some p \<longleftrightarrow> p \<in> set (present peers) \<and> str (pi_PublicKey p) = k"
proof -
  have "distinct (map (\<lambda>p. str (pi_PublicKey p)) (present peers))" using assms by (simp add: bulk_ok_def)
  from map_of_rev_distinct [OF this, of "\<lambda>p. p"] show ?thesis by (auto simp: bulk_map_def)
qed

lemma bulk_store_ok:
  assumes "bulk_ok str peers"
  shows "store_ok str (foldl (put_peer str) NewPeerStore peers)" (is "store_ok str ?ps")
proof (rule store_okI)
  let ?xs = "present peers"
  have de: "distinct (map pi_Email ?xs)" using assms by (simp add: bulk_ok_def)
  have em: "ps_emailToKey ?ps em = Some k \<longleftrightarrow> (\<exists>p \<in> set ?xs. pi_Email p = em \<and> str (pi_PublicKey p) = k)" for em k
    using map_of_rev_distinct [OF de] by (simp add: put_peers NewPeerStore_def)
  have pe: "ps_peers ?ps k = Some p \<longleftrightarrow> p \<in> set ?xs \<and> str (pi_PublicKey p) = k" for k p
    using bulk_map_Some [OF assms] by (simp add: put_peers NewPeerStore_def)
  show "finite (dom (ps_peers ?ps))" by (simp add: put_peers NewPeerStore_def bulk_map_def finite_dom_map_of)
  show "str (pi_PublicKey p) = k" if "ps_peers ?ps k = Some p" for k p using that by (simp add: pe)
  show "ps_emailToKey ?ps (pi_Email p) = Some k" if "ps_peers ?ps k = Some p" for k p
    using that by (auto simp: pe em)
  show "\<exists>p. ps_peers ?ps k = Some p \<and> pi_Email p = e" if "ps_emailToKey ?ps e = Some k" for e k
    using that by (auto simp: pe em)
qed


section \<open>The directory the synchronisation relies on\<close>

text \<open>
  Seen from outside, the store is a directory of users: at most one peer per e-mail and no key twice.
  An upsert makes its peer the only one of its e-mail and of its key.
\<close>

locale peer_directory =
  fixes lookup :: "'s \<Rightarrow> string \<rightharpoonup> 'p"
    and upsert :: "'s \<Rightarrow> 'p \<Rightarrow> 's"
    and remove :: "string list \<Rightarrow> 's \<Rightarrow> 's"
    and invar :: "'s \<Rightarrow> bool"
    and email :: "'p \<Rightarrow> string"
    and key :: "'p \<Rightarrow> string"
  assumes lookup_email: "invar s \<Longrightarrow> lookup s em = Some p \<Longrightarrow> email p = em"
    and one_key: "invar s \<Longrightarrow> lookup s em = Some p \<Longrightarrow> lookup s em' = Some p' \<Longrightarrow> key p = key p' \<Longrightarrow> em = em'"
    and invar_upsert: "invar s \<Longrightarrow> invar (upsert s p)"
    and invar_remove: "invar s \<Longrightarrow> invar (remove ks s)"
    and lookup_upsert: "invar s \<Longrightarrow> lookup (upsert s p) em =
          (if em = email p then Some p
           else case lookup s em of Some q \<Rightarrow> if key q = key p then None else Some q | None \<Rightarrow> None)"
    and lookup_remove: "invar s \<Longrightarrow> lookup (remove ks s) em =
          (case lookup s em of Some q \<Rightarrow> if key q \<in> set ks then None else Some q | None \<Rightarrow> None)"
begin

lemma invar_upserts: "invar s \<Longrightarrow> invar (foldl upsert s ps)"
  by (induction ps arbitrary: s) (simp_all add: invar_upsert)

lemma lookup_upserts_new:
  assumes "invar s" "p \<in> set ps" "distinct (map email ps)" "distinct (map key ps)"
  shows "lookup (foldl upsert s ps) (email p) = Some p"
  using assms
proof (induction ps rule: rev_induct)
  case (snoc q ps)
  note inv = invar_upserts [OF snoc.prems(1), of ps]
  show ?case
  proof (cases "p = q")
    case False
    with snoc have "lookup (foldl upsert s ps) (email p) = Some p" "p \<in> set ps" by simp_all
    moreover from this snoc.prems have "email p \<noteq> email q" "key p \<noteq> key q" by (auto simp: image_iff)
    ultimately show ?thesis by (simp add: lookup_upsert [OF inv])
  qed (simp add: lookup_upsert [OF inv])
qed simp

lemma lookup_upserts_other:
  assumes "invar s" "em \<notin> email ` set ps"
  shows "lookup (foldl upsert s ps) em =
    (case lookup s em of Some q \<Rightarrow> if key q \<in> key ` set ps then None else Some q | None \<Rightarrow> None)"
  using assms
proof (induction ps rule: rev_induct)
  case (snoc q ps)
  note inv = invar_upserts [OF snoc.prems(1), of ps]
  from snoc show ?case by (auto simp: lookup_upsert [OF inv] split: option.split)
qed (simp split: option.split)

theorem lookup_changes:
  assumes "invar s" "distinct (map email ps)" "distinct (map key ps)"
  shows "p \<in> set ps \<Longrightarrow> lookup (foldl upsert (remove ks s) ps) (email p) = Some p"
    and "em \<notin> email ` set ps \<Longrightarrow> lookup (foldl upsert (remove ks s) ps) em =
      (case lookup s em of Some q \<Rightarrow> if key q \<in> set ks \<union> key ` set ps then None else Some q | None \<Rightarrow> None)"
  using lookup_upserts_new [OF invar_remove [OF assms(1)] _ assms(2,3)]
    lookup_upserts_other [OF invar_remove [OF assms(1)], of em ps ks]
  by (simp_all add: lookup_remove [OF assms(1)] split: option.split)

end

definition pkey :: "('k \<Rightarrow> string) \<Rightarrow> 'k peer_info \<Rightarrow> string" where
  "pkey str p = str (pi_PublicKey p)"

lemma GetByEmail_iff:
  assumes ok: "store_ok str ps"
  shows "GetByEmail em ps = Some p \<longleftrightarrow> ps_peers ps (pkey str p) = Some p \<and> pi_Email p = em"
proof
  assume "GetByEmail em ps = Some p"
  then obtain k where k: "ps_emailToKey ps em = Some k" "ps_peers ps k = Some p"
    by (auto simp: GetByEmail_def split: option.splits)
  with store_okD(2) [OF ok k(2)] store_okD(4) [OF ok k(1)]
  show "ps_peers ps (pkey str p) = Some p \<and> pi_Email p = em" by (auto simp: pkey_def)
next
  assume "ps_peers ps (pkey str p) = Some p \<and> pi_Email p = em"
  with store_okD(3) [OF ok] show "GetByEmail em ps = Some p" by (auto simp: GetByEmail_def)
qed

lemma option_eq_iffI: "(\<And>x. a = Some x \<longleftrightarrow> b = Some x) \<Longrightarrow> a = b"
  by (metis not_Some_eq)

lemma case_keep_iff: "(case x of Some q \<Rightarrow> if P q then None else Some q | None \<Rightarrow> None) = Some r \<longleftrightarrow>
    x = Some r \<and> \<not> P r"
  by (auto split: option.splits if_splits)

lemma GetByEmail_upsert:
  assumes ok: "store_ok str s"
  shows "GetByEmail em (upsert_peer str s (Some p)) =
    (if em = pi_Email p then Some p
     else case GetByEmail em s of Some q \<Rightarrow> if pkey str q = pkey str p then None else Some q | None \<Rightarrow> None)"
proof (rule option_eq_iffI)
  fix r
  have *: "ps_emailToKey s (pi_Email p) = Some (pkey str r) \<longleftrightarrow> pi_Email p = pi_Email r"
    if "ps_peers s (pkey str r) = Some r"
    using store_okD(3) [OF ok that] store_okD(4) [OF ok, of "pi_Email p" "pkey str r"] that by auto
  have "GetByEmail em (upsert_peer str s (Some p)) = Some r \<longleftrightarrow> pi_Email r = em \<and>
     (if pkey str r = pkey str p then r = p
      else pi_Email p \<noteq> pi_Email r \<and> ps_peers s (pkey str r) = Some r)"
    unfolding GetByEmail_iff [OF upsert_peer_ok [OF ok]] upsert_peers_at [OF ok]
    using * by (auto simp: pkey_def)
  also have "\<dots> \<longleftrightarrow> (if em = pi_Email p then Some p else case GetByEmail em s of
      Some q \<Rightarrow> if pkey str q = pkey str p then None else Some q | None \<Rightarrow> None) = Some r"
    by (cases "em = pi_Email p") (auto simp: case_keep_iff GetByEmail_iff [OF ok])
  finally show "GetByEmail em (upsert_peer str s (Some p)) = Some r \<longleftrightarrow>
      (if em = pi_Email p then Some p
       else case GetByEmail em s of Some q \<Rightarrow> if pkey str q = pkey str p then None else Some q
            | None \<Rightarrow> None) = Some r" .
qed

lemma GetByEmail_remove:
  assumes ok: "store_ok str s"
  shows "GetByEmail em (snd (remove_keys ks s)) =
    (case GetByEmail em s of Some q \<Rightarrow> if pkey str q \<in> set ks then None else Some q | None \<Rightarrow> None)"
proof (rule option_eq_iffI)
  fix r
  show "GetByEmail em (snd (remove_keys ks s)) = Some r \<longleftrightarrow>
      (case GetByEmail em s of Some q \<Rightarrow> if pkey str q \<in> set ks then None else Some q
       | None \<Rightarrow> None) = Some r"
    unfolding case_keep_iff GetByEmail_iff [OF ok] GetByEmail_iff [OF remove_keys_ok [OF ok]]
    by (auto simp: remove_keys_peers restrict_map_def)
qed

interpretation directory: peer_directory "\<lambda>ps em. GetByEmail em ps"
    "\<lambda>ps p. upsert_peer str ps (Some p)" "\<lambda>ks ps. snd (remove_keys ks ps)" "store_ok str" pi_Email "pkey str"
  for str :: "'k \<Rightarrow> string"
proof (unfold_locales, goal_cases)
  case (1 s em p)
  then show ?case by (simp add: GetByEmail_iff)
next
  case (2 s em p em' p')
  then show ?case by (simp add: GetByEmail_iff)
next
  case (3 s p)
  then show ?case by (rule upsert_peer_ok)
next
  case (4 s ks)
  then show ?case by (rule remove_keys_ok)
next
  case (5 s p em)
  then show ?case by (rule GetByEmail_upsert)
next
  case (6 s ks em)
  then show ?case by (rule GetByEmail_remove)
qed

end
