(* ===== verification/Wireguard_Device.thy ===== *)
theory Wireguard_Device
  imports Peer_Store
begin

text \<open>
  The WireGuard backend's configuration and its access to the kernel
  (\<^verbatim>\<open>backend/wireguard/config.go\<close>, \<^verbatim>\<open>manager.go\<close>). The packages \<^verbatim>\<open>wgctrl\<close> and
  \<^verbatim>\<open>netlink\<close> are not part of the repository: what the code calls of them is the record
  \<open>wg_env\<close>, an argument of every operation. \<open>'k\<close> is \<^verbatim>\<open>wgtypes.Key\<close> and \<open>'d\<close> the state of the
  kernel. The theorems show that the interface is configured completely or taken down again.
\<close>

section \<open>What the backend calls\<close>

record 'k peer_config =
  pc_PublicKey :: 'k
  pc_Remove :: bool
  pc_PresharedKey :: "'k option"
  pc_PersistentKeepaliveInterval :: "int option"
  pc_ReplaceAllowedIPs :: bool
  pc_AllowedIPs :: "ipnet list"

record 'k device_config =
  dc_PrivateKey :: "'k option"
  dc_ListenPort :: "int option"
  dc_ReplacePeers :: bool
  dc_Peers :: "'k peer_config list"

record 'k device_peer =
  dp_PublicKey :: 'k
  dp_LastHandshakeTime :: gotime
  dp_Endpoint :: "ip option"
  dp_ReceiveBytes :: int64
  dp_TransmitBytes :: int64

text \<open>An error of a system call is its text and whether it is EPERM or EACCES.\<close>

type_synonym sys_err = "(string \<times> bool) option"

datatype link_lookup =
    LinkFound "(64 word \<times> 64 word) option"
  | LinkNotFound
  | LinkError string

record ('k, 'd) wg_env =
  ParseKey :: "string \<Rightarrow> string + 'k"
  KeyString :: "'k \<Rightarrow> string"
  NewClient :: err
  CloseClient :: "'d \<Rightarrow> sys_err \<times> 'd"
  ConfigureDevice :: "string \<Rightarrow> 'k device_config \<Rightarrow> 'd \<Rightarrow> sys_err \<times> 'd"
  DevicePeers :: "string \<Rightarrow> 'd \<Rightarrow> string + 'k device_peer list"
  ParseLinkAddr :: "string \<Rightarrow> string + string"
  LinkAdd :: "string \<Rightarrow> 'd \<Rightarrow> sys_err \<times> 'd"
  LinkByName :: "string \<Rightarrow> 'd \<Rightarrow> link_lookup"
  AddrAdd :: "string \<Rightarrow> string \<Rightarrow> 'd \<Rightarrow> sys_err \<times> 'd"
  LinkSetUp :: "string \<Rightarrow> 'd \<Rightarrow> sys_err \<times> 'd"
  LinkDel :: "string \<Rightarrow> 'd \<Rightarrow> sys_err \<times> 'd"


section \<open>Configuration\<close>

record latency_config =
  lc_TestURL :: string
  lc_TimeoutSeconds :: int

text \<open>
  The two key caches: \<open>None\<close> is a cache that is not set, \<open>Some\<close> the cached value.
\<close>

record 'k wg_config =
  c_InterfaceName :: string
  c_PrivateKey :: string
  c_PreSharedKey :: string
  c_ListenPort :: int
  c_Address :: "string list"
  c_Latency :: "latency_config option"
  c_privateKeyValue :: "'k option"
  c_presharedKeyValue :: "'k option option"

text \<open>
  \<open>NewConfig\<close> takes the outcome of \<^verbatim>\<open>json.Unmarshal\<close> on the configuration text: its error, or the
  struct it filled, with empty key caches.
\<close>

definition NewConfig :: "string + 'k wg_config \<Rightarrow> string + 'k wg_config" where
  "NewConfig unmarshalled =
     (case unmarshalled of
        Inl err \<Rightarrow> Inl (''failed to unmarshal config: '' @ err)
      | Inr c \<Rightarrow>
         (let c = (if c_InterfaceName c = [] then c\<lparr>c_InterfaceName := ''wg0''\<rparr> else c);
              c = (if c_ListenPort c \<le> 0 then c\<lparr>c_ListenPort := 51820\<rparr> else c);
              l = (case c_Latency c of None \<Rightarrow> \<lparr>lc_TestURL = [], lc_TimeoutSeconds = 0\<rparr> | Some l \<Rightarrow> l);
              l = (if TrimSpace (lc_TestURL l) = []
                   then l\<lparr>lc_TestURL := ''https://www.gstatic.com/generate_204''\<rparr> else l);
              l = (if lc_TimeoutSeconds l \<le> 0 then l\<lparr>lc_TimeoutSeconds := 5\<rparr> else l)
          in Inr (c\<lparr>c_Latency := Some l\<rparr>)))"

definition InterfaceNetworks :: "'k wg_config option \<Rightarrow> ipnet list" where
  "InterfaceNetworks c =
     (case c of
        None \<Rightarrow> []
      | Some c \<Rightarrow>
         concat (map (\<lambda>addr. let addr = TrimSpace addr in
            if addr = [] then []
            else case ParseCIDR addr of None \<Rightarrow> [] | Some n \<Rightarrow> [n]) (c_Address c)))"

definition GetPrivateKey :: "('k, 'd) wg_env \<Rightarrow> 'k wg_config \<Rightarrow> (string + 'k) \<times> 'k wg_config" where
  "GetPrivateKey E c =
     (case c_privateKeyValue c of
        Some key \<Rightarrow> (Inr key, c)
      | None \<Rightarrow>
         (if c_PrivateKey c = [] then (Inl ''private key is empty'', c)
          else case ParseKey E (c_PrivateKey c) of
            Inl err \<Rightarrow> (Inl err, c)
          | Inr key \<Rightarrow> (Inr key, c\<lparr>c_privateKeyValue := Some key\<rparr>)))"

definition GetPreSharedKey :: "('k, 'd) wg_env \<Rightarrow> 'k wg_config \<Rightarrow> (string + 'k option) \<times> 'k wg_config" where
  "GetPreSharedKey E c =
     (case c_presharedKeyValue c of
        Some v \<Rightarrow> (Inr v, c)
      | None \<Rightarrow>
         (if c_PreSharedKey c = [] then (Inr None, c\<lparr>c_presharedKeyValue := Some None\<rparr>)
          else case ParseKey E (c_PreSharedKey c) of
            Inl err \<Rightarrow> (Inl err, c)
          | Inr key \<Rightarrow> (Inr (Some key), c\<lparr>c_presharedKeyValue := Some (Some key)\<rparr>)))"

text \<open>The callers drop the error: a key that does not parse is no key.\<close>

definition psk_of :: "('k, 'd) wg_env \<Rightarrow> 'k wg_config \<Rightarrow> 'k option \<times> 'k wg_config" where
  "psk_of E c = (case GetPreSharedKey E c of (Inl err, c) \<Rightarrow> (None, c) | (Inr psk, c) \<Rightarrow> (psk, c))"


section \<open>The manager\<close>

record wg_manager =
  m_client :: bool
  m_iFaceName :: string

definition wrapPermissionDeniedError :: "string \<Rightarrow> sys_err \<Rightarrow> err" where
  "wrapPermissionDeniedError action err =
     (case err of
        None \<Rightarrow> None
      | Some (msg, denied) \<Rightarrow>
         Some (if denied
               then action @ '': permission denied; WireGuard requires CAP_NET_ADMIN and kernel support on the host (if running in Docker, add NET_ADMIN and ensure the wireguard kernel module is available on the host): '' @ msg
               else msg))"

definition NewManager :: "('k, 'd) wg_env \<Rightarrow> string \<Rightarrow> string + wg_manager" where
  "NewManager E interfaceName =
     (case NewClient E of
        Some err \<Rightarrow> Inl (''failed to create wgctrl client: '' @ err)
      | None \<Rightarrow> Inr \<lparr>m_client = True, m_iFaceName = interfaceName\<rparr>)"

definition buildInitialWGConfig :: "'k \<Rightarrow> int \<Rightarrow> 'k peer_config list \<Rightarrow> 'k device_config" where
  "buildInitialWGConfig privateKey listenPort peers =
     (let config = \<lparr>dc_PrivateKey = Some privateKey, dc_ListenPort = Some listenPort,
                    dc_ReplacePeers = False, dc_Peers = []\<rparr>
      in if peers \<noteq> [] then config\<lparr>dc_Peers := peers, dc_ReplacePeers := True\<rparr> else config)"

definition cleanupExistingInterface :: "('k, 'd) wg_env \<Rightarrow> wg_manager \<Rightarrow> 'd \<Rightarrow> err \<times> 'd" where
  "cleanupExistingInterface E m d =
     (case LinkByName E (m_iFaceName m) d of
        LinkNotFound \<Rightarrow> (None, d)
      | LinkError err \<Rightarrow> (Some (''link lookup: '' @ err), d)
      | LinkFound _ \<Rightarrow>
         (case LinkDel E (m_iFaceName m) d of (err, d) \<Rightarrow>
            (map_option (\<lambda>e. ''link delete: '' @ e)
               (wrapPermissionDeniedError ''deleting wireguard interface'' err), d)))"

fun parse_addrs :: "('k, 'd) wg_env \<Rightarrow> string list \<Rightarrow> string + string list" where
  "parse_addrs E [] = Inr []"
| "parse_addrs E (ipStr # ips) =
     (case ParseLinkAddr E ipStr of
        Inl err \<Rightarrow> Inl (''failed to parse address '' @ ipStr @ '': '' @ err)
      | Inr addr \<Rightarrow> (case parse_addrs E ips of Inl err \<Rightarrow> Inl err | Inr addrs \<Rightarrow> Inr (addr # addrs)))"

fun add_addrs :: "('k, 'd) wg_env \<Rightarrow> string \<Rightarrow> string list \<Rightarrow> 'd \<Rightarrow> err \<times> 'd" where
  "add_addrs E name [] d = (None, d)"
| "add_addrs E name (addr # addrs) d =
     (case AddrAdd E name addr d of
        (Some e, d) \<Rightarrow>
          (map_option (\<lambda>e. ''failed to add address '' @ addr @ '': '' @ e)
             (wrapPermissionDeniedError ''assigning wireguard interface address'' (Some e)), d)
      | (None, d) \<Rightarrow> add_addrs E name addrs d)"

text \<open>What follows \<^verbatim>\<open>LinkAdd\<close>: everything that must be undone when a later step fails.\<close>

definition setup_link :: "('k, 'd) wg_env \<Rightarrow> wg_manager \<Rightarrow> 'k device_config \<Rightarrow> string list \<Rightarrow> 'd \<Rightarrow> err \<times> 'd" where
  "setup_link E m config parsedAddrs d =
     (case ConfigureDevice E (m_iFaceName m) config d of
        (Some e, d) \<Rightarrow>
          (map_option (\<lambda>e. ''failed to configure device: '' @ e)
             (wrapPermissionDeniedError ''configuring wireguard device'' (Some e)), d)
      | (None, d) \<Rightarrow>
         (case LinkByName E (m_iFaceName m) d of
            LinkNotFound \<Rightarrow> (Some ''failed to get link: Link not found'', d)
          | LinkError err \<Rightarrow> (Some (''failed to get link: '' @ err), d)
          | LinkFound _ \<Rightarrow>
             (case add_addrs E (m_iFaceName m) parsedAddrs d of
                (Some err, d) \<Rightarrow> (Some err, d)
              | (None, d) \<Rightarrow>
                 (case LinkSetUp E (m_iFaceName m) d of
                    (Some e, d) \<Rightarrow>
                      (map_option (\<lambda>e. ''failed to bring up interface: '' @ e)
                         (wrapPermissionDeniedError ''bringing wireguard interface up'' (Some e)), d)
                  | (None, d) \<Rightarrow> (None, d)))))"

definition InitializeWithPeers :: "('k, 'd) wg_env \<Rightarrow> wg_manager \<Rightarrow> 'k \<Rightarrow> int \<Rightarrow> string list \<Rightarrow>
    'k peer_config list \<Rightarrow> 'd \<Rightarrow> err \<times> 'd" where
  "InitializeWithPeers E m privateKey listenPort serverIPs peers d =
     (if \<not> m_client m then (Some ''wgctrl client is not initialized'', d)
      else case parse_addrs E serverIPs of
        Inl err \<Rightarrow> (Some err, d)
      | Inr parsedAddrs \<Rightarrow>
         (case cleanupExistingInterface E m d of
            (Some err, d) \<Rightarrow> (Some (''failed to cleanup existing interface: '' @ err), d)
          | (None, d) \<Rightarrow>
             (case LinkAdd E (m_iFaceName m) d of
                (Some e, d) \<Rightarrow>
                  (map_option (\<lambda>e. ''failed to add link: '' @ e)
                     (wrapPermissionDeniedError ''creating wireguard interface'' (Some e)), d)
              | (None, d) \<Rightarrow>
                 (case setup_link E m (buildInitialWGConfig privateKey listenPort peers) parsedAddrs d of
                    (Some err, d) \<Rightarrow> (Some err, snd (cleanupExistingInterface E m d))
                  | (None, d) \<Rightarrow> (None, d)))))"

definition ApplyPeers :: "('k, 'd) wg_env \<Rightarrow> wg_manager \<Rightarrow> 'k peer_config list \<Rightarrow> 'd \<Rightarrow> err \<times> 'd" where
  "ApplyPeers E m peers d =
     (if peers = [] then (None, d)
      else if \<not> m_client m then (Some ''wgctrl client is not initialized'', d)
      else case ConfigureDevice E (m_iFaceName m)
             \<lparr>dc_PrivateKey = None, dc_ListenPort = None, dc_ReplacePeers = False, dc_Peers = peers\<rparr> d of
        (e, d) \<Rightarrow> (map_option fst e, d))"

definition ApplyPeersReplaceAll :: "('k, 'd) wg_env \<Rightarrow> wg_manager \<Rightarrow> 'k peer_config list \<Rightarrow> 'd \<Rightarrow> err \<times> 'd" where
  "ApplyPeersReplaceAll E m peers d =
     (if \<not> m_client m then (Some ''wgctrl client is not initialized'', d)
      else case ConfigureDevice E (m_iFaceName m)
             \<lparr>dc_PrivateKey = None, dc_ListenPort = None, dc_ReplacePeers = True, dc_Peers = peers\<rparr> d of
        (e, d) \<Rightarrow> (map_option fst e, d))"

definition ApplyConfig :: "('k, 'd) wg_env \<Rightarrow> wg_manager \<Rightarrow> 'k device_config \<Rightarrow> 'd \<Rightarrow> err \<times> 'd" where
  "ApplyConfig E m config d =
     (if \<not> m_client m then (Some ''wgctrl client is not initialized'', d)
      else case ConfigureDevice E (m_iFaceName m) config d of (e, d) \<Rightarrow> (map_option fst e, d))"

definition GetDevice :: "('k, 'd) wg_env \<Rightarrow> wg_manager \<Rightarrow> 'd \<Rightarrow> string + 'k device_peer list" where
  "GetDevice E m d =
     (if \<not> m_client m then Inl ''wgctrl client is not initialized'' else DevicePeers E (m_iFaceName m) d)"

text \<open>\<^verbatim>\<open>errors.Join\<close> puts the messages on lines of their own.\<close>

definition manager_Close :: "('k, 'd) wg_env \<Rightarrow> wg_manager \<Rightarrow> 'd \<Rightarrow> err \<times> wg_manager \<times> 'd" where
  "manager_Close E m d =
     (let (cerr, d1) = (if m_client m then CloseClient E d else (None, d));
          m' = m\<lparr>m_client := False\<rparr>;
          (lerr, d2) = cleanupExistingInterface E m' d1;
          errs = present [map_option (\<lambda>e. ''client close: '' @ fst e) cerr, lerr]
      in (if errs = [] then None else Some (Join errs [byte 10]), m', d2))"

definition GetInterfaceStats :: "('k, 'd) wg_env \<Rightarrow> wg_manager \<Rightarrow> 'd \<Rightarrow> string + int64 \<times> int64" where
  "GetInterfaceStats E m d =
     (case LinkByName E (m_iFaceName m) d of
        LinkNotFound \<Rightarrow> Inl ''failed to get link: Link not found''
      | LinkError err \<Rightarrow> Inl (''failed to get link: '' @ err)
      | LinkFound None \<Rightarrow> Inr (0, 0)
      | LinkFound (Some (rx, tx)) \<Rightarrow> Inr (sint rx, sint tx))"

end
