(* ===== verification/Wireguard_Agreement.thy ===== *)
theory Wireguard_Agreement
  imports Wireguard_Sync
begin

text \<open>
  What synchronisation guarantees. First the peers a list of users asks for, user by user; then the
  difference with the existing peers; then the two synchronisations: after a successful one the
  store holds exactly what the users ask for and the kernel the peers of the store, and a failed one
  leaves the store alone.
\<close>

section \<open>Normalised users\<close>

lemma lastByEmail_step:
  "lastByEmail (users @ [user]) =
     (if normalizable user then (lastByEmail users)(GetEmail user \<mapsto> user) else lastByEmail users)"
  by (simp add: lastByEmail_def)

lemma lastByEmail_Some: "lastByEmail users em = Some u \<Longrightarrow> GetEmail u = em \<and> normalizable u \<and> u \<in> set users"
  by (induction users rule: rev_induct)
    (auto simp: lastByEmail_step lastByEmail_def [of "[]"] split: if_splits)

lemma finite_lastByEmail [simp]: "finite (dom (lastByEmail users))"
  by (induction users rule: rev_induct) (auto simp: lastByEmail_step lastByEmail_def [of "[]"])

lemma normalizeUsers_emails:
  assumes "range_order rg"
  shows "map GetEmail (normalizeUsers rg users) = keys_of rg 0 (lastByEmail users)"
proof -
  have "\<forall>e \<in> set (keys_of rg 0 (lastByEmail users)). GetEmail (the (lastByEmail users e)) = e"
    using lastByEmail_Some by (fastforce simp: set_keys_of [OF assms])
  then show ?thesis by (simp add: normalizeUsers_def Let_def map_idI)
qed

lemma distinct_normalizeUsers: "range_order rg \<Longrightarrow> distinct (map GetEmail (normalizeUsers rg users))"
  by (simp add: normalizeUsers_emails distinct_keys_of)

lemma set_normalizeUsers: "range_order rg \<Longrightarrow> u \<in> set (normalizeUsers rg users) \<longleftrightarrow> lastByEmail users (GetEmail u) = Some u"
proof -
  assume rg: "range_order rg"
  have "u \<in> set (normalizeUsers rg users) \<longleftrightarrow> (\<exists>e. lastByEmail users e = Some u)"
  proof -
    have "set (keys_of rg 0 (lastByEmail users)) = dom (lastByEmail users)" by (simp add: set_keys_of [OF rg])
    then show ?thesis by (force simp: normalizeUsers_def Let_def image_iff)
  qed
  then show ?thesis using lastByEmail_Some [of users _ u] by blast
qed


section \<open>The peer one user asks for\<close>

text \<open>
  Looked at alone, a user asks for a peer when one of the inbounds is this interface, the key parses,
  every address parses and at least one lies in the interface's networks.
\<close>

definition wanted :: "('k, 'd) wg_env \<Rightarrow> 'k wg_config \<Rightarrow> user \<Rightarrow> 'k desired_peer option" where
  "wanted E c u =
     (let pk = GetPublicKey (GetWireguard (GetProxies u));
          ips = GetPeerIps (GetWireguard (GetProxies u));
          nets = filter (\<lambda>n. peerIPAllowedOnInterface n (InterfaceNetworks (Some c))) (map (the \<circ> ParseCIDR) ips)
      in if \<not> shouldIncludeUserInInterface u (c_InterfaceName c) then None
         else case ParseKey E pk of
           Inl err \<Rightarrow> None
         | Inr key \<Rightarrow>
            (if (\<exists>ip \<in> set ips. ParseCIDR ip = None) \<or> nets = [] then None
             else Some \<lparr>ds_Email = GetEmail u, ds_PublicKey = pk, ds_ParsedKey = key, ds_AllowedIPNets = nets\<rparr>))"

lemma wantedD:
  assumes "wanted E c u = Some d"
  shows "ds_Email d = GetEmail u" "ds_PublicKey d = GetPublicKey (GetWireguard (GetProxies u))"
    "ParseKey E (ds_PublicKey d) = Inr (ds_ParsedKey d)" "ds_AllowedIPNets d \<noteq> []"
    "n \<in> set (ds_AllowedIPNets d) \<Longrightarrow> peerIPAllowedOnInterface n (InterfaceNetworks (Some c))"
    "shouldIncludeUserInInterface u (c_InterfaceName c)"
  using assms by (auto simp: wanted_def Let_def split: if_splits sum.splits)

text \<open>The loop over one user's addresses.\<close>

lemma peer_nets_spec:
  assumes "peer_nets I em ips seen acc = Inr (bad, nets, seen')"
  shows "(bad \<longleftrightarrow> (\<exists>ip \<in> set ips. ParseCIDR ip = None)) \<and>
    (\<not> bad \<longrightarrow> nets = acc @ filter (\<lambda>n. peerIPAllowedOnInterface n I) (map (the \<circ> ParseCIDR) ips)) \<and>
    seen \<subseteq>\<^sub>m seen' \<and> (\<forall>n \<in> set nets. n \<in> set acc \<or> seen' (IPNet_String n) = Some em)"
  using assms
proof (induction ips arbitrary: seen acc)
  case (Cons ip ips)
  show ?case
  proof (cases "ParseCIDR ip")
    case (Some n)
    note n = this
    show ?thesis
    proof (cases "peerIPAllowedOnInterface n I")
      case True
      let ?seen = "seen(IPNet_String n \<mapsto> em)"
      have go: "peer_nets I em ips ?seen (acc @ [n]) = Inr (bad, nets, seen')"
        and same: "seen (IPNet_String n) = None \<or> seen (IPNet_String n) = Some em"
        using Cons.prems n True by (auto simp: Let_def split: option.splits if_splits)
      from same have le: "seen \<subseteq>\<^sub>m ?seen" by (auto simp: map_le_def)
      note ih = Cons.IH [OF go]
      then have "seen' (IPNet_String n) = Some em" by (metis domI fun_upd_same map_le_def)
      moreover from ih le have "seen \<subseteq>\<^sub>m seen'" by (blast intro: map_le_trans)
      ultimately show ?thesis using ih n True by auto
    qed (use Cons.prems Cons.IH [of seen acc] n in simp)
  qed (use Cons in simp)
qed simp

lemma wanted_unfold:
  assumes "peer_nets (InterfaceNetworks (Some c)) (GetEmail u) (GetPeerIps (GetWireguard (GetProxies u))) seen []
             = Inr (bad, nets, seen')"
    and "shouldIncludeUserInInterface u (c_InterfaceName c)"
    and "ParseKey E (GetPublicKey (GetWireguard (GetProxies u))) = Inr key"
  shows "wanted E c u = (if bad \<or> nets = [] then None
    else Some \<lparr>ds_Email = GetEmail u, ds_PublicKey = GetPublicKey (GetWireguard (GetProxies u)),
               ds_ParsedKey = key, ds_AllowedIPNets = nets\<rparr>)"
  using peer_nets_spec [OF assms(1)] assms(2,3) by (auto simp: wanted_def Let_def)

text \<open>
  The invariant of the collecting loop: the map holds what the users seen so far ask for, and every
  address of theirs is recorded under their e-mail.
\<close>

definition collected :: "('k, 'd) wg_env \<Rightarrow> 'k wg_config \<Rightarrow> user list \<Rightarrow> (string \<rightharpoonup> string) \<Rightarrow>
    (string \<rightharpoonup> 'k desired_peer) \<Rightarrow> bool" where
  "collected E c us seen desired \<longleftrightarrow>
     (\<forall>k d. desired k = Some d \<longleftrightarrow> (\<exists>u \<in> set us. wanted E c u = Some d \<and> ds_PublicKey d = k)) \<and>
     (\<forall>u \<in> set us. \<forall>d. wanted E c u = Some d \<longrightarrow>
        (\<forall>n \<in> set (ds_AllowedIPNets d). seen (IPNet_String n) = Some (ds_Email d)))"

lemma collected_skip:
  assumes "collected E c us seen desired" "wanted E c u = None" "seen \<subseteq>\<^sub>m seen'"
  shows "collected E c (us @ [u]) seen' desired"
proof -
  have "seen' s = Some e" if "seen s = Some e" for s e
    using assms(3) that by (metis domI map_le_def)
  then show ?thesis using assms(1,2) unfolding collected_def by auto
qed

lemma collected_add:
  assumes "collected E c us seen desired" "wanted E c u = Some d" "seen \<subseteq>\<^sub>m seen'"
    and "desired (ds_PublicKey d) = None"
    and "\<forall>n \<in> set (ds_AllowedIPNets d). seen' (IPNet_String n) = Some (GetEmail u)"
  shows "collected E c (us @ [u]) seen' (desired(ds_PublicKey d \<mapsto> d))"
proof -
  have "seen' s = Some e" if "seen s = Some e" for s e
    using assms(3) that by (metis domI map_le_def)
  moreover have "\<not> (\<exists>v \<in> set us. \<exists>d'. wanted E c v = Some d' \<and> ds_PublicKey d' = ds_PublicKey d)"
    using assms(1,4) unfolding collected_def by (metis option.distinct(1))
  ultimately show ?thesis
    using assms(1,2,5) wantedD(1) [OF assms(2)] unfolding collected_def by auto
qed

lemma collect_peers_spec:
  assumes "collect_peers E c us seen desired = Inr desired'" "collected E c done seen desired"
    and "distinct (map GetEmail (done @ us))"
  shows "\<exists>seen'. collected E c (done @ us) seen' desired'"
  using assms
proof (induction us arbitrary: seen desired "done")
  case (Cons u us)
  have dist: "distinct (map GetEmail ((done @ [u]) @ us))" using Cons.prems(3) by simp
  have step: ?case if "collect_peers E c us seen' desired1 = Inr desired'" "collected E c (done @ [u]) seen' desired1"
    for seen' desired1
    using Cons.IH [OF that dist] by simp
  let ?pk = "GetPublicKey (GetWireguard (GetProxies u))"
  show ?case
  proof (cases "shouldIncludeUserInInterface u (c_InterfaceName c) \<and> (\<exists>key. ParseKey E ?pk = Inr key)")
    case False
    then have "wanted E c u = None" by (auto simp: wanted_def Let_def split: sum.splits)
    moreover from False have "collect_peers E c us seen desired = Inr desired'"
      using Cons.prems(1) by (auto simp: Let_def split: sum.splits)
    ultimately show ?thesis using step collected_skip [OF Cons.prems(2) _ map_le_refl] by blast
  next
    case True
    then obtain key where incl: "shouldIncludeUserInInterface u (c_InterfaceName c)"
      and key: "ParseKey E ?pk = Inr key" by blast
    obtain bad nets seen' where pn: "peer_nets (InterfaceNetworks (Some c)) (GetEmail u)
        (GetPeerIps (GetWireguard (GetProxies u))) seen [] = Inr (bad, nets, seen')"
      using Cons.prems(1) incl key by (auto simp: Let_def split: sum.splits)
    note spec = peer_nets_spec [OF pn] and w = wanted_unfold [OF pn incl key]
    show ?thesis
    proof (cases "bad \<or> nets = []")
      case True
      then have "collect_peers E c us seen' desired = Inr desired'"
        using Cons.prems(1) incl key pn by (simp add: Let_def)
      then show ?thesis using step collected_skip [OF Cons.prems(2)] True w spec by simp
    next
      case False
      let ?d = "\<lparr>ds_Email = GetEmail u, ds_PublicKey = ?pk, ds_ParsedKey = key, ds_AllowedIPNets = nets\<rparr>"
      have "ds_Email e \<noteq> GetEmail u" if "desired ?pk = Some e" for e
      proof -
        from that Cons.prems(2) obtain v where "v \<in> set done" "wanted E c v = Some e"
          unfolding collected_def by blast
        with wantedD(1) [OF this(2)] Cons.prems(3) show ?thesis by (auto simp: image_iff)
      qed
      then have none: "desired ?pk = None" and go: "collect_peers E c us seen' (desired(?pk \<mapsto> ?d)) = Inr desired'"
        using Cons.prems(1) incl key pn False by (auto simp: Let_def split: option.splits if_splits)
      from False w have wd: "wanted E c u = Some ?d" by simp
      show ?thesis
        using step [OF go] collected_add [OF Cons.prems(2) wd, of seen'] none spec by simp
    qed
  qed
qed auto

lemma collectDesiredPeers_spec:
  assumes "collectDesiredPeers E c us = Inr desired" "distinct (map GetEmail us)"
  shows "\<exists>seen. collected E c us seen desired"
  using collect_peers_spec [of E c us Map.empty Map.empty desired "[]"] assms
  by (simp add: collectDesiredPeers_def collected_def)

text \<open>What follows for the collected peers.\<close>

lemma collectedD:
  assumes "collected E c us seen desired"
  shows "desired k = Some d \<Longrightarrow> \<exists>u \<in> set us. wanted E c u = Some d \<and> ds_PublicKey d = k"
    and "u \<in> set us \<Longrightarrow> wanted E c u = Some d \<Longrightarrow> desired (ds_PublicKey d) = Some d"
    and "u \<in> set us \<Longrightarrow> wanted E c u = Some d \<Longrightarrow> n \<in> set (ds_AllowedIPNets d) \<Longrightarrow>
           seen (IPNet_String n) = Some (ds_Email d)"
  using assms unfolding collected_def by blast+

lemma collected_unique:
  assumes "collected E c us seen desired" "distinct (map GetEmail us)"
    and "desired k = Some d" "desired k' = Some d'" "ds_Email d = ds_Email d'"
  shows "k = k'"
proof -
  from collectedD(1) [OF assms(1,3)] obtain u where u: "u \<in> set us" "wanted E c u = Some d" "ds_PublicKey d = k"
    by blast
  from collectedD(1) [OF assms(1,4)] obtain u' where u': "u' \<in> set us" "wanted E c u' = Some d'" "ds_PublicKey d' = k'"
    by blast
  from u u' assms(5) have "GetEmail u = GetEmail u'" by (simp add: wantedD(1))
  then have "u = u'" using u(1) u'(1) assms(2) by (auto simp: distinct_map dest: inj_onD)
  with u u' show ?thesis by simp
qed

lemma finite_collected:
  assumes "collected E c us seen desired"
  shows "finite (dom desired)"
proof (rule finite_subset)
  show "dom desired \<subseteq> (\<lambda>u. ds_PublicKey (the (wanted E c u))) ` set us"
  proof
    fix k assume "k \<in> dom desired"
    then obtain d where "desired k = Some d" by blast
    from collectedD(1) [OF assms this] show "k \<in> (\<lambda>u. ds_PublicKey (the (wanted E c u))) ` set us" by force
  qed
qed simp


section \<open>The difference\<close>

lemma buildAddConfig_ok: "pi_AllowedIPs t \<noteq> [] \<Longrightarrow>
    buildAddConfigFromPeerInfo t psk = Inr (buildAddConfig (pi_PublicKey t) (pi_AllowedIPs t) psk)"
  by (simp add: buildAddConfigFromPeerInfo_def)

definition nets_differ :: "'k peer_info \<Rightarrow> 'k peer_info \<Rightarrow> bool" where
  "nets_differ p q \<longleftrightarrow> \<not> ipnetsEqual (pi_AllowedIPs p) (pi_AllowedIPs q)"

definition same_peer :: "'k peer_info \<Rightarrow> 'k peer_info \<Rightarrow> bool" where
  "same_peer p q \<longleftrightarrow> pi_Email p = pi_Email q \<and> pi_PublicKey p = pi_PublicKey q \<and>
     ipnetsEqual (pi_AllowedIPs p) (pi_AllowedIPs q)"

text \<open>
  The two loops over distinct keys, when every target has an address. \<open>keys\<close> counts what the kernel
  is told to add.
\<close>

definition adds :: "'k peer_config list \<Rightarrow> 'k set" where
  "adds cfgs = pc_PublicKey ` set (filter (\<lambda>c. \<not> pc_Remove c) cfgs)"

definition removes :: "'k peer_config list \<Rightarrow> 'k set" where
  "removes cfgs = pc_PublicKey ` set (filter pc_Remove cfgs)"

lemma adds_Cons: "adds (c # cs) = (if pc_Remove c then adds cs else insert (pc_PublicKey c) (adds cs))"
  and removes_Cons: "removes (c # cs) = (if pc_Remove c then insert (pc_PublicKey c) (removes cs) else removes cs)"
  and adds_append [simp]: "adds (xs @ ys) = adds xs \<union> adds ys"
  and removes_append [simp]: "removes (xs @ ys) = removes xs \<union> removes ys"
  and adds_Nil [simp]: "adds [] = {}" and removes_Nil [simp]: "removes [] = {}"
  by (simp_all add: adds_def removes_def image_Un)

lemma config_simps [simp]: "\<not> pc_Remove (buildAddConfig k ips psk)" "pc_PublicKey (buildAddConfig k ips psk) = k"
    "pc_Remove (buildRemoveConfig k)" "pc_PublicKey (buildRemoveConfig k) = k"
  by (simp_all add: buildAddConfig_def buildRemoveConfig_def)

lemmas config_sets = adds_Cons removes_Cons

lemma diff_existing_loop:
  assumes "foldl (diff_existing psk ex tg) (rm0, up0, cf0) ks = (rm, up, cf)"
    and "\<forall>t \<in> ran tg. pi_AllowedIPs t \<noteq> []"
  shows "rm = (\<lambda>k. if k \<in> set ks \<and> tg k = None then Some (the (ex k)) else rm0 k)"
    and "up = (\<lambda>k. if k \<in> set ks \<and> (\<exists>t. tg k = Some t \<and> (pi_Email (the (ex k)) \<noteq> pi_Email t \<or> nets_differ (the (ex k)) t))
                then tg k else up0 k)"
    and "removes cf = removes cf0"
    and "adds cf = adds cf0 \<union> {pi_PublicKey t |k t. k \<in> set ks \<and> tg k = Some t \<and> nets_differ (the (ex k)) t}"
  using assms
proof (atomize (full), induction ks arbitrary: rm up cf rule: rev_induct)
  case (snoc key ks)
  obtain rm1 up1 cf1 where 1: "foldl (diff_existing psk ex tg) (rm0, up0, cf0) ks = (rm1, up1, cf1)"
    by (metis prod_cases3)
  from snoc.prems(1) have step: "(rm, up, cf) = diff_existing psk ex tg (rm1, up1, cf1) key" by (simp add: 1)
  note ih = snoc.IH [OF 1 snoc.prems(2)]
  show ?case
  proof (cases "tg key")
    case None
    with step have "rm = rm1(key \<mapsto> the (ex key))" "up = up1" "cf = cf1" by (simp_all add: diff_existing_def)
    with ih None show ?thesis by (auto simp: fun_eq_iff)
  next
    case (Some t)
    then have "pi_AllowedIPs t \<noteq> []" using snoc.prems(2) by (auto simp: ran_def)
    note ok = buildAddConfig_ok [OF this, of psk]
    show ?thesis
    proof (cases "nets_differ (the (ex key)) t")
      case True
      with step Some ok have "rm = rm1" "up = up1(key \<mapsto> t)"
        "cf = cf1 @ [buildAddConfig (pi_PublicKey t) (pi_AllowedIPs t) psk\<lparr>pc_ReplaceAllowedIPs := True\<rparr>]"
        by (simp_all add: diff_existing_def nets_differ_def)
      with ih Some True show ?thesis by (auto simp: fun_eq_iff config_sets)
    next
      case False
      with step Some have "rm = rm1" "cf = cf1"
        "up = (if pi_Email (the (ex key)) \<noteq> pi_Email t then up1(key \<mapsto> t) else up1)"
        by (simp_all add: diff_existing_def nets_differ_def split: if_splits)
      with ih Some False show ?thesis by (auto simp: fun_eq_iff)
    qed
  qed
qed simp

lemma diff_target_loop:
  assumes "foldl (diff_target psk ex tg) (rm0, up0, cf0) ks = (rm, up, cf)"
    and "\<forall>t \<in> ran tg. pi_AllowedIPs t \<noteq> []" "set ks \<subseteq> dom tg"
  shows "rm = rm0" "up = (\<lambda>k. if k \<in> set ks \<and> ex k = None then tg k else up0 k)"
    and "removes cf = removes cf0"
    and "adds cf = adds cf0 \<union> {pi_PublicKey t |k t. k \<in> set ks \<and> tg k = Some t \<and> ex k = None}"
  using assms
proof (atomize (full), induction ks arbitrary: rm up cf rule: rev_induct)
  case (snoc key ks)
  obtain rm1 up1 cf1 where 1: "foldl (diff_target psk ex tg) (rm0, up0, cf0) ks = (rm1, up1, cf1)"
    by (metis prod_cases3)
  from snoc.prems(1) have step: "(rm, up, cf) = diff_target psk ex tg (rm1, up1, cf1) key" by (simp add: 1)
  note ih = snoc.IH [OF 1 snoc.prems(2)]
  obtain t where t: "tg key = Some t" using snoc.prems(3) by auto
  then have "pi_AllowedIPs t \<noteq> []" using snoc.prems(2) by (auto simp: ran_def)
  note ok = buildAddConfig_ok [OF this, of psk]
  show ?case
  proof (cases "ex key")
    case None
    with step t ok have "rm = rm1" "up = up1(key \<mapsto> t)"
      "cf = cf1 @ [buildAddConfig (pi_PublicKey t) (pi_AllowedIPs t) psk]"
      by (simp_all add: diff_target_def)
    with ih snoc.prems(3) None t show ?thesis by (auto simp: fun_eq_iff config_sets)
  next
    case (Some p)
    with step have "rm = rm1" "up = up1" "cf = cf1" by (simp_all add: diff_target_def)
    with ih snoc.prems(3) Some show ?thesis by (auto simp: fun_eq_iff)
  qed
qed simp

text \<open>Keys of the third-party package: printing and parsing a key gives it back.\<close>

definition key_law :: "('k, 'd) wg_env \<Rightarrow> bool" where
  "key_law E \<longleftrightarrow> (\<forall>k. ParseKey E (KeyString E k) = Inr k)"

lemma key_law_inj: "key_law E \<Longrightarrow> KeyString E k = KeyString E k' \<longleftrightarrow> k = k'"
  by (metis key_law_def sum.inject(2))

lemma remove_configs_spec:
  assumes "key_law E" "\<forall>k \<in> set ks. \<exists>K. KeyString E K = k"
  shows "fst (remove_configs E ks) = ks" "adds (snd (remove_configs E ks)) = {}"
    "removes (snd (remove_configs E ks)) = {K. KeyString E K \<in> set ks}"
  using assms(2)
proof (atomize (full), induction ks)
  case (Cons k ks)
  then obtain K where "KeyString E K = k" by auto
  moreover have "ParseKey E (KeyString E K) = Inr K" using assms(1) by (simp add: key_law_def)
  ultimately show ?case using Cons key_law_inj [OF assms(1)] by (auto simp: Let_def split_beta config_sets)
qed simp

definition key_ok_map :: "('k, 'd) wg_env \<Rightarrow> (string \<rightharpoonup> 'k peer_info) \<Rightarrow> bool" where
  "key_ok_map E m \<longleftrightarrow> finite (dom m) \<and> (\<forall>k p. m k = Some p \<longrightarrow> KeyString E (pi_PublicKey p) = k)"

definition stale :: "(string \<rightharpoonup> 'k peer_info) \<Rightarrow> string \<Rightarrow> 'k peer_info \<Rightarrow> bool" where
  "stale ex k t \<longleftrightarrow> (case ex k of None \<Rightarrow> True | Some p \<Rightarrow> pi_Email p \<noteq> pi_Email t \<or> nets_differ p t)"

definition uncovered :: "(string \<rightharpoonup> 'k peer_info) \<Rightarrow> string \<Rightarrow> 'k peer_info \<Rightarrow> bool" where
  "uncovered ex k t \<longleftrightarrow> (case ex k of None \<Rightarrow> True | Some p \<Rightarrow> nets_differ p t)"

lemma finite_map_restr: "finite (dom m) \<Longrightarrow> dom m' \<subseteq> dom m \<Longrightarrow> finite (dom m')"
  by (rule finite_subset)

lemma buildSyncDiff_spec:
  fixes E :: "('k, 'd) wg_env" and ex psk rg
    and ds :: "string \<rightharpoonup> 'k desired_peer"
  defines "tg \<equiv> (\<lambda>k. map_option target_peer (ds k))" and "D \<equiv> buildSyncDiff E rg psk ex ds"
  assumes rg: "range_order rg" and law: "key_law E" and ex: "key_ok_map E ex" and fin: "finite (dom ds)"
    and ips: "\<forall>d \<in> ran ds. ds_AllowedIPNets d \<noteq> []"
  shows "sd_TargetPeers D = tg"
    and "set (sd_RemoveKeys D) = {k \<in> dom ex. ds k = None}" "distinct (sd_RemoveKeys D)"
    and "\<exists>ks. sd_UpsertPeers D = map (\<lambda>k. the (tg k)) ks \<and> distinct ks \<and>
           set ks = {k. \<exists>t. tg k = Some t \<and> stale ex k t}"
    and "adds (sd_PeerConfigs D) = {pi_PublicKey t |k t. tg k = Some t \<and> uncovered ex k t}"
    and "removes (sd_PeerConfigs D) = {K. KeyString E K \<in> set (sd_RemoveKeys D)}"
    and "\<exists>as rs. sd_PeerConfigs D = as @ rs \<and> removes as = {} \<and> adds rs = {}"
    and "sd_Changed D \<longleftrightarrow> sd_RemoveKeys D \<noteq> [] \<or> sd_UpsertPeers D \<noteq> []"
proof -
  obtain rm1 up1 cf1 where 1: "foldl (diff_existing psk ex tg) (Map.empty, Map.empty, []) (keys_of rg 2 ex) = (rm1, up1, cf1)"
    by (metis prod_cases3)
  obtain rm up cf where 2: "foldl (diff_target psk ex tg) (rm1, up1, cf1) (keys_of rg 3 tg) = (rm, up, cf)"
    by (metis prod_cases3)
  have tgfin: "finite (dom tg)" and exfin: "finite (dom ex)"
    using fin ex by (simp_all add: tg_def dom_map_option key_ok_map_def)
  have tgips: "\<forall>t \<in> ran tg. pi_AllowedIPs t \<noteq> []"
    using ips by (auto simp: tg_def ran_def target_peer_def)
  note kex = set_keys_of [OF rg exfin, of 2] and ktg = set_keys_of [OF rg tgfin, of 3]
  note l1 = diff_existing_loop [OF 1 tgips]
  note l2 = diff_target_loop [OF 2 tgips eq_refl [OF ktg]]
  have rm: "rm = (\<lambda>k. if tg k = None then ex k else None)"
    unfolding l2(1) l1(1) kex by (auto simp: fun_eq_iff dom_def)
  have up: "up = (\<lambda>k. case tg k of None \<Rightarrow> None | Some t \<Rightarrow> if stale ex k t then Some t else None)"
    unfolding l2(2) l1(2) kex ktg by (auto simp: fun_eq_iff stale_def split: option.splits)
  have rmdom: "dom rm = {k \<in> dom ex. ds k = None}" by (auto simp: rm tg_def split: if_splits)
  then have rmfin: "finite (dom rm)" using exfin by simp
  have upfin: "finite (dom up)" "dom up = {k. \<exists>t. tg k = Some t \<and> stale ex k t}"
    by (rule finite_map_restr [OF tgfin]) (auto simp: up split: option.splits if_splits)
  have rmkeys: "set (sort (keys_of rg 5 rm)) = dom rm" "distinct (sort (keys_of rg 5 rm))"
    by (simp_all add: set_keys_of [OF rg rmfin] distinct_keys_of [OF rg rmfin])
  have "\<forall>k \<in> set (sort (keys_of rg 5 rm)). \<exists>K. KeyString E K = k"
    unfolding rmkeys rmdom using ex by (auto simp: key_ok_map_def)
  note rc = remove_configs_spec [OF law this]
  have D: "D = \<lparr>sd_RemoveKeys = sort (keys_of rg 5 rm),
      sd_UpsertPeers = map (\<lambda>key. the (up key)) (sort (keys_of rg 4 up)),
      sd_PeerConfigs = cf @ snd (remove_configs E (sort (keys_of rg 5 rm))), sd_TargetPeers = tg,
      sd_Changed = (sort (keys_of rg 5 rm) \<noteq> [] \<or> map (\<lambda>key. the (up key)) (sort (keys_of rg 4 up)) \<noteq> [])\<rparr>"
    unfolding D_def buildSyncDiff_def Let_def tg_def [symmetric] 1 2 buildRemoveConfigsForPeers_def
    using rc(1) by (simp add: split_beta)
  show "sd_TargetPeers D = tg" "distinct (sd_RemoveKeys D)"
    "sd_Changed D \<longleftrightarrow> sd_RemoveKeys D \<noteq> [] \<or> sd_UpsertPeers D \<noteq> []"
    using rmkeys(2) by (simp_all add: D)
  show "set (sd_RemoveKeys D) = {k \<in> dom ex. ds k = None}" using rmkeys(1) rmdom by (simp add: D)
  have "map (\<lambda>key. the (up key)) (sort (keys_of rg 4 up)) = map (\<lambda>k. the (tg k)) (sort (keys_of rg 4 up))"
  proof (rule map_cong [OF refl])
    fix k assume "k \<in> set (sort (keys_of rg 4 up))"
    then have "k \<in> dom up" by (simp add: set_keys_of [OF rg upfin(1)])
    then show "the (up k) = the (tg k)" by (auto simp: up split: option.splits if_splits)
  qed
  then show "\<exists>ks. sd_UpsertPeers D = map (\<lambda>k. the (tg k)) ks \<and> distinct ks \<and>
           set ks = {k. \<exists>t. tg k = Some t \<and> stale ex k t}"
    by (intro exI [of _ "sort (keys_of rg 4 up)"])
      (simp add: D set_keys_of [OF rg upfin(1)] distinct_keys_of [OF rg upfin(1)] upfin(2))
  have cf: "removes cf = {}" using l2(3) l1(3) by simp
  show "adds (sd_PeerConfigs D) = {pi_PublicKey t |k t. tg k = Some t \<and> uncovered ex k t}"
  proof -
    have "uncovered ex k t \<longleftrightarrow> k \<in> dom ex \<and> nets_differ (the (ex k)) t \<or> ex k = None" for k t
      by (auto simp: uncovered_def split: option.splits)
    then show ?thesis unfolding D sync_diff.simps adds_append adds_Nil rc(2) l2(4) l1(4) kex ktg by blast
  qed
  show "removes (sd_PeerConfigs D) = {K. KeyString E K \<in> set (sd_RemoveKeys D)}"
    by (simp add: D rc(3) cf)
  show "\<exists>as rs. sd_PeerConfigs D = as @ rs \<and> removes as = {} \<and> adds rs = {}"
    using cf rc(2) by (auto simp: D)
qed

text \<open>
  Every configuration the difference adds is that of a target; an existing peer's replaces its
  addresses.
\<close>

definition config_of :: "(string \<rightharpoonup> 'k peer_info) \<Rightarrow> (string \<rightharpoonup> 'k peer_info) \<Rightarrow> 'k peer_config \<Rightarrow> bool" where
  "config_of ex tg c \<longleftrightarrow> (\<exists>k t. tg k = Some t \<and> pc_PublicKey c = pi_PublicKey t \<and> pc_AllowedIPs c = pi_AllowedIPs t \<and>
     (pc_ReplaceAllowedIPs c \<or> ex k = None))"

lemma buildAddConfig_Inr: "buildAddConfigFromPeerInfo t psk = Inr c \<Longrightarrow>
    pc_PublicKey c = pi_PublicKey t \<and> pc_AllowedIPs c = pi_AllowedIPs t \<and> \<not> pc_Remove c"
  by (auto simp: buildAddConfigFromPeerInfo_def buildAddConfig_def split: if_splits)

lemma diff_existing_shape:
  assumes "\<forall>c \<in> set cf. config_of ex tg c" "diff_existing psk ex tg (rm, up, cf) k = (rm', up', cf')"
  shows "\<forall>c \<in> set cf'. config_of ex tg c"
proof (cases "cf' = cf")
  case False
  with assms(2) obtain t c where t: "tg k = Some t" and c: "buildAddConfigFromPeerInfo t psk = Inr c"
    and cf': "cf' = cf @ [c\<lparr>pc_ReplaceAllowedIPs := True\<rparr>]"
    by (auto simp: diff_existing_def Let_def split: option.splits sum.splits if_splits)
  from buildAddConfig_Inr [OF c] t have "config_of ex tg (c\<lparr>pc_ReplaceAllowedIPs := True\<rparr>)"
    by (auto simp: config_of_def)
  with assms(1) cf' show ?thesis by simp
qed (use assms in simp)

lemma diff_target_shape:
  assumes "\<forall>c \<in> set cf. config_of ex tg c" "tg k = Some t" "diff_target psk ex tg (rm, up, cf) k = (rm', up', cf')"
  shows "\<forall>c \<in> set cf'. config_of ex tg c"
proof (cases "cf' = cf")
  case False
  with assms(2,3) obtain c where k: "ex k = None" and c: "buildAddConfigFromPeerInfo t psk = Inr c" and cf': "cf' = cf @ [c]"
    by (auto simp: diff_target_def Let_def split: option.splits sum.splits)
  from buildAddConfig_Inr [OF c] assms(2) k have "config_of ex tg c" by (auto simp: config_of_def)
  with assms(1) cf' show ?thesis by simp
qed (use assms in simp)

lemma remove_configs_Remove: "c \<in> set (snd (remove_configs E ks)) \<Longrightarrow> pc_Remove c"
  by (induction ks) (auto simp: Let_def split_beta split: sum.splits)

lemma buildSyncDiff_configs:
  assumes rg: "range_order rg" and fin: "finite (dom ds)"
    and c: "c \<in> set (sd_PeerConfigs (buildSyncDiff E rg psk ex ds))" "\<not> pc_Remove c"
  shows "config_of ex (\<lambda>k. map_option target_peer (ds k)) c"
proof -
  let ?tg = "\<lambda>k. map_option target_peer (ds k)"
  obtain rm1 up1 cf1 where first: "foldl (diff_existing psk ex ?tg) (Map.empty, Map.empty, []) (keys_of rg 2 ex) = (rm1, up1, cf1)"
    by (metis prod_cases3)
  obtain rm up cf where second: "foldl (diff_target psk ex ?tg) (rm1, up1, cf1) (keys_of rg 3 ?tg) = (rm, up, cf)"
    by (metis prod_cases3)
  have "foldl (diff_existing psk ex ?tg) (Map.empty, Map.empty, []) ks = (rm1, up1, cf1) \<Longrightarrow>
      \<forall>c \<in> set cf1. config_of ex ?tg c" for ks rm1 up1 cf1
  proof (induction ks arbitrary: rm1 up1 cf1 rule: rev_induct)
    case (snoc k ks)
    obtain r u l where l: "foldl (diff_existing psk ex ?tg) (Map.empty, Map.empty, []) ks = (r, u, l)" by (metis prod_cases3)
    from snoc.prems l have "diff_existing psk ex ?tg (r, u, l) k = (rm1, up1, cf1)" by simp
    from diff_existing_shape [OF snoc.IH [OF l] this] show ?case .
  qed simp
  from this [OF first] have one: "\<forall>c \<in> set cf1. config_of ex ?tg c" .
  have "set ks \<subseteq> dom ?tg \<Longrightarrow> foldl (diff_target psk ex ?tg) (rm1, up1, cf1) ks = (rm, up, cf) \<Longrightarrow>
      \<forall>c \<in> set cf. config_of ex ?tg c" for ks rm up cf
  proof (induction ks arbitrary: rm up cf rule: rev_induct)
    case Nil
    with one show ?case by simp
  next
    case (snoc k ks)
    obtain r u l where l: "foldl (diff_target psk ex ?tg) (rm1, up1, cf1) ks = (r, u, l)" by (metis prod_cases3)
    from snoc.prems(2) l have step: "diff_target psk ex ?tg (r, u, l) k = (rm, up, cf)" by simp
    from snoc.prems(1) obtain t where t: "?tg k = Some t" and sub: "set ks \<subseteq> dom ?tg" by auto
    from diff_target_shape [OF snoc.IH [OF sub l] t step] show ?case .
  qed
  moreover have "set (keys_of rg 3 ?tg) \<subseteq> dom ?tg"
    using set_keys_of [OF rg, of ?tg 3] fin by (simp add: dom_map_option)
  ultimately have "\<forall>c \<in> set cf. config_of ex ?tg c" using second by blast
  moreover have "c \<in> set cf"
    using c remove_configs_Remove unfolding buildSyncDiff_def Let_def first second buildRemoveConfigsForPeers_def
    by (auto simp: split_beta)
  ultimately show ?thesis by blast
qed


section \<open>Agreement with the kernel\<close>

text \<open>
  What \<^verbatim>\<open>wgctrl\<close> documents about a successful configuration call: the peers of the call are
  added to the device's, or replace them, in order, and a peer marked for removal goes. \<open>pk\<close> reads
  the keys of the peers off a kernel state.
\<close>

definition apply_peer :: "'k set \<Rightarrow> 'k peer_config \<Rightarrow> 'k set" where
  "apply_peer S c = (if pc_Remove c then S - {pc_PublicKey c} else insert (pc_PublicKey c) S)"

definition kernel_law :: "('k, 'd) wg_env \<Rightarrow> string \<Rightarrow> ('d \<Rightarrow> 'k set) \<Rightarrow> bool" where
  "kernel_law E name pk \<longleftrightarrow> (\<forall>cfg d d'. ConfigureDevice E name cfg d = (None, d') \<longrightarrow>
     pk d' = foldl apply_peer (if dc_ReplacePeers cfg then {} else pk d) (dc_Peers cfg))"

lemma apply_adds: "removes as = {} \<Longrightarrow> foldl apply_peer S as = S \<union> adds as"
  by (induction as arbitrary: S) (simp_all add: config_sets apply_peer_def split: if_splits)

lemma apply_removes: "adds rs = {} \<Longrightarrow> foldl apply_peer S rs = S - removes rs"
  by (induction rs arbitrary: S) (auto simp: config_sets apply_peer_def split: if_splits)

lemma apply_diff: "removes as = {} \<Longrightarrow> adds rs = {} \<Longrightarrow>
    foldl apply_peer S (as @ rs) = (S \<union> adds (as @ rs)) - removes (as @ rs)"
  by (simp add: apply_adds apply_removes)

lemma kernel_lawD: "kernel_law E name pk \<Longrightarrow> ConfigureDevice E name cfg d = (None, d') \<Longrightarrow>
    pk d' = foldl apply_peer (if dc_ReplacePeers cfg then {} else pk d) (dc_Peers cfg)"
  by (simp only: kernel_law_def)

lemma ReplaceAll_kernel:
  assumes "kernel_law E (m_iFaceName m) pk" "ApplyPeersReplaceAll E m cs d = (None, d')"
  shows "pk d' = foldl apply_peer {} cs"
proof -
  from assms(2) have "ConfigureDevice E (m_iFaceName m)
      \<lparr>dc_PrivateKey = None, dc_ListenPort = None, dc_ReplacePeers = True, dc_Peers = cs\<rparr> d = (None, d')"
    by (auto simp: ApplyPeersReplaceAll_def split: if_splits prod.splits)
  from kernel_lawD [OF assms(1) this] show ?thesis by simp
qed

lemma ApplyPeers_kernel:
  assumes "kernel_law E (m_iFaceName m) pk" "ApplyPeers E m cs d = (None, d')"
  shows "pk d' = foldl apply_peer (pk d) cs"
proof (cases "cs = []")
  case False
  with assms(2) have "ConfigureDevice E (m_iFaceName m)
      \<lparr>dc_PrivateKey = None, dc_ListenPort = None, dc_ReplacePeers = False, dc_Peers = cs\<rparr> d = (None, d')"
    by (auto simp: ApplyPeers_def split: if_splits prod.splits)
  from kernel_lawD [OF assms(1) this] show ?thesis by simp
qed (use assms(2) in \<open>simp add: ApplyPeers_def\<close>)

definition store_keys :: "('k, 'd) wireguard \<Rightarrow> 'k set" where
  "store_keys wg = pi_PublicKey ` ran (ps_peers (wg_peerStore wg))"

text \<open>The users' keys are spelled the way the package prints them.\<close>

definition canonical_users :: "('k, 'd) wg_env \<Rightarrow> user list \<Rightarrow> bool" where
  "canonical_users E users \<longleftrightarrow> (\<forall>u \<in> set users. \<forall>K. ParseKey E (GetPublicKey (GetWireguard (GetProxies u))) = Inr K \<longrightarrow>
     KeyString E K = GetPublicKey (GetWireguard (GetProxies u)))"

lemma sampleDepartingPeers_fields [simp]:
  "wg_peerStore (sampleDepartingPeers E now ks wg) = wg_peerStore wg"
  "wg_manager (sampleDepartingPeers E now ks wg) = wg_manager wg"
  "wg_kernel (sampleDepartingPeers E now ks wg) = wg_kernel wg"
  "wg_state (sampleDepartingPeers E now ks wg) = wg_state wg"
  "wg_config (sampleDepartingPeers E now ks wg) = wg_config wg"
  by (simp_all add: sampleDepartingPeers_def split: option.split sum.split)

lemma ensureRunning_None: "ensureRunningWithManagerLocked wg = None \<Longrightarrow> \<exists>m. wg_manager wg = Some m"
  by (auto simp: ensureRunningWithManagerLocked_def split: option.splits)

lemma snapshot_is_store:
  assumes "store_ok (KeyString E) (wg_peerStore wg)" "range_order rg"
  shows "buildExistingPeersByKeySnapshot E rg wg = ps_peers (wg_peerStore wg)"
proof -
  let ?ps = "ps_peers (wg_peerStore wg)" and ?ks = "keys_of rg 1 (ps_peers (wg_peerStore wg))"
  have fin: "finite (dom ?ps)" by (rule store_okD(1) [OF assms(1)])
  have step: "foldl (\<lambda>m peer. m(KeyString E (pi_PublicKey peer) \<mapsto> peer)) m (map (\<lambda>k. the (?ps k)) ks)
      = (\<lambda>k. if k \<in> set ks then ?ps k else m k)" if "set ks \<subseteq> dom ?ps" for m ks
    using that
  proof (induction ks arbitrary: m)
    case (Cons k ks)
    then obtain p where p: "?ps k = Some p" by auto
    from store_okD(2) [OF assms(1) p] have "KeyString E (pi_PublicKey p) = k" .
    with Cons p show ?case by (auto simp: fun_eq_iff)
  qed simp
  show ?thesis
    using step [of ?ks] set_keys_of [OF assms(2) fin, of 1]
    by (auto simp: buildExistingPeersByKeySnapshot_def GetAll_def fun_eq_iff)
qed

lemma store_ok_key_map: "store_ok (KeyString E) ps \<Longrightarrow> key_ok_map E (ps_peers ps)"
  using store_okD(1,2) by (fastforce simp: key_ok_map_def)

lemma target_configs_all: "\<forall>k \<in> set ks. pi_AllowedIPs (the (tg k)) \<noteq> [] \<Longrightarrow>
    snd (target_configs psk tg ks) = set ks \<and> removes (fst (target_configs psk tg ks)) = {} \<and>
    adds (fst (target_configs psk tg ks)) = (\<lambda>k. pi_PublicKey (the (tg k))) ` set ks"
proof (induction ks)
  case (Cons k ks)
  then have ok: "buildAddConfigFromPeerInfo (the (tg k)) psk =
      Inr (buildAddConfig (pi_PublicKey (the (tg k))) (pi_AllowedIPs (the (tg k))) psk)"
    by (simp add: buildAddConfig_ok)
  from Cons ok show ?case by (simp add: Let_def split_beta config_sets)
qed simp

text \<open>The facts about collected peers the two proofs share.\<close>

lemma collected_facts:
  assumes "collectDesiredPeers E c (normalizeUsers rg users) = Inr ds" "range_order rg" "canonical_users E users"
  shows "finite (dom ds)" "\<forall>d \<in> ran ds. ds_AllowedIPNets d \<noteq> []"
    and "ds k = Some d \<Longrightarrow> KeyString E (ds_ParsedKey d) = k"
    and "ds k = Some d \<Longrightarrow> ds_Email d \<in> set (map GetEmail (normalizeUsers rg users))"
    and "ds k = Some d \<Longrightarrow> ds k' = Some d' \<Longrightarrow> ds_Email d = ds_Email d' \<Longrightarrow> k = k'"
proof -
  let ?us = "normalizeUsers rg users"
  note dist = distinct_normalizeUsers [OF assms(2), of users]
  from collectDesiredPeers_spec [OF assms(1) dist] obtain seen where col: "collected E c ?us seen ds" ..
  note D = collectedD(1) [OF col]
  show "finite (dom ds)" by (rule finite_collected [OF col])
  show "\<forall>d \<in> ran ds. ds_AllowedIPNets d \<noteq> []" using D wantedD(4) by (force simp: ran_def)
  show "ds k = Some d \<Longrightarrow> ds k' = Some d' \<Longrightarrow> ds_Email d = ds_Email d' \<Longrightarrow> k = k'"
    by (rule collected_unique [OF col dist])
  assume "ds k = Some d"
  from D [OF this] obtain u where u: "u \<in> set ?us" "wanted E c u = Some d" "ds_PublicKey d = k" by blast
  then show "ds_Email d \<in> set (map GetEmail ?us)" by (simp add: wantedD(1))
  have "u \<in> set users" using u(1) lastByEmail_Some by (metis set_normalizeUsers [OF assms(2)])
  then show "KeyString E (ds_ParsedKey d) = k"
    using assms(3) wantedD(2,3) [OF u(2)] u(3) by (auto simp: canonical_users_def)
qed

text \<open>
  What a request asks for an e-mail: the peer the last well-formed user of that e-mail asks for.
\<close>

definition requested :: "('k, 'd) wg_env \<Rightarrow> 'k wg_config \<Rightarrow> user list \<Rightarrow> string \<Rightarrow> 'k peer_info option" where
  "requested E c users em =
     (case lastByEmail users em of None \<Rightarrow> None | Some u \<Rightarrow> map_option target_peer (wanted E c u))"

lemma requested_iff:
  assumes "collectDesiredPeers E c (normalizeUsers rg users) = Inr ds" "range_order rg"
  shows "requested E c users em = Some t \<longleftrightarrow> (\<exists>k d. ds k = Some d \<and> ds_Email d = em \<and> t = target_peer d)"
proof -
  let ?us = "normalizeUsers rg users"
  from collectDesiredPeers_spec [OF assms(1) distinct_normalizeUsers [OF assms(2)]]
  obtain seen where col: "collected E c ?us seen ds" ..
  have us: "u \<in> set ?us \<longleftrightarrow> lastByEmail users (GetEmail u) = Some u" for u
    by (rule set_normalizeUsers [OF assms(2)])
  show ?thesis
  proof
    assume "requested E c users em = Some t"
    then obtain u d where u: "lastByEmail users em = Some u" "wanted E c u = Some d" "t = target_peer d"
      by (auto simp: requested_def split: option.splits)
    from lastByEmail_Some [OF u(1)] u us collectedD(2) [OF col _ u(2)] wantedD(1) [OF u(2)]
    show "\<exists>k d. ds k = Some d \<and> ds_Email d = em \<and> t = target_peer d" by auto
  next
    assume "\<exists>k d. ds k = Some d \<and> ds_Email d = em \<and> t = target_peer d"
    then obtain k d where d: "ds k = Some d" "ds_Email d = em" "t = target_peer d" by blast
    from collectedD(1) [OF col d(1)] obtain u where "u \<in> set ?us" "wanted E c u = Some d" by blast
    with d wantedD(1) us show "requested E c users em = Some t" by (force simp: requested_def)
  qed
qed

text \<open>The successful ends of the two synchronisations.\<close>

lemma syncUsersFull_None:
  assumes "syncUsersFull E rg now users wg = (None, wg')"
  obtains ds psk where "collectDesiredPeers E (the_config wg) (normalizeUsers rg users) = Inr ds"
    and "\<not> sd_Changed (buildSyncDiff E rg psk (buildExistingPeersByKeySnapshot E rg wg) ds)"
    and "wg_peerStore wg' = wg_peerStore wg" "wg_kernel wg' = wg_kernel wg"
  | ds psk D m where "collectDesiredPeers E (the_config wg) (normalizeUsers rg users) = Inr ds"
    and "D = buildSyncDiff E rg psk (buildExistingPeersByKeySnapshot E rg wg) ds"
    and "wg_manager wg = Some m"
    and "ApplyPeersReplaceAll E m (fst (buildTargetPeerConfigs rg (sd_TargetPeers D) psk)) (wg_kernel wg)
           = (None, wg_kernel wg')"
    and "wg_peerStore wg' = snd (ReplaceAll (KeyString E) (keys_of rg 8 (ps_peers (wg_peerStore wg)))
           (map (sd_TargetPeers D) (filter (\<lambda>k. k \<in> snd (buildTargetPeerConfigs rg (sd_TargetPeers D) psk))
              (keys_of rg 7 (sd_TargetPeers D)))) (wg_peerStore wg))"
    and "\<exists>ks. wg_statsTracker wg' = remove_stats ks (wg_statsTracker (sampleDepartingPeers E now (sd_RemoveKeys D) wg))"
proof -
  from assms obtain ds where ds: "collectDesiredPeers E (the_config wg) (normalizeUsers rg users) = Inr ds"
    by (auto simp: syncUsersFull_def Let_def split: sum.splits)
  obtain psk c where psk: "psk_of E (the_config wg) = (psk, c)" by (metis prod.exhaust)
  let ?D = "buildSyncDiff E rg psk (buildExistingPeersByKeySnapshot E rg wg) ds"
  show thesis
  proof (cases "sd_Changed ?D")
    case False
    then have "wg_peerStore wg' = wg_peerStore wg" "wg_kernel wg' = wg_kernel wg"
      using assms ds psk by (auto simp: syncUsersFull_def)
    with that(1) ds False show ?thesis by blast
  next
    case True
    let ?wg = "sampleDepartingPeers E now (sd_RemoveKeys ?D) (wg\<lparr>wg_config := Some c\<rparr>)"
    let ?b = "buildTargetPeerConfigs rg (sd_TargetPeers ?D) psk"
    have run: "ensureRunningWithManagerLocked ?wg = None"
      using assms ds psk True by (auto simp: syncUsersFull_def Let_def split_beta split: option.splits)
    from ensureRunning_None [OF this] obtain m where m: "wg_manager wg = Some m" by auto
    obtain e d' where ap': "ApplyPeersReplaceAll E m (fst ?b) (wg_kernel wg) = (e, d')" by (metis prod.exhaust)
    have "e = None" using assms ds psk True run m ap' by (cases e) (auto simp: syncUsersFull_def Let_def split_beta)
    with ap' have ap: "ApplyPeersReplaceAll E m (fst ?b) (wg_kernel wg) = (None, d')" by simp
    from assms ds psk True run m ap
    have "wg_kernel wg' = d'" "wg_peerStore wg' = snd (ReplaceAll (KeyString E) (keys_of rg 8 (ps_peers (wg_peerStore wg)))
           (map (sd_TargetPeers ?D) (filter (\<lambda>k. k \<in> snd ?b) (keys_of rg 7 (sd_TargetPeers ?D)))) (wg_peerStore wg))"
      by (auto simp: syncUsersFull_def Let_def split_beta)
    moreover have "wg_statsTracker ?wg = wg_statsTracker (sampleDepartingPeers E now (sd_RemoveKeys ?D) wg)"
      by (simp add: sampleDepartingPeers_def split: option.split sum.split)
    then have "\<exists>ks. wg_statsTracker wg' = remove_stats ks (wg_statsTracker (sampleDepartingPeers E now (sd_RemoveKeys ?D) wg))"
      using assms ds psk True run m ap by (auto simp: syncUsersFull_def Let_def split_beta)
    ultimately show ?thesis using that(2) [OF ds refl m] ap by simp
  qed
qed

text \<open>An unchanged difference means the store already holds what is asked for.\<close>

lemma unchanged_same:
  assumes "range_order rg" "key_law E" "key_ok_map E ex" "finite (dom ds)"
    "\<forall>d \<in> ran ds. ds_AllowedIPNets d \<noteq> []" "\<And>k d. ds k = Some d \<Longrightarrow> KeyString E (ds_ParsedKey d) = k"
    and "\<not> sd_Changed (buildSyncDiff E rg psk ex ds)"
  shows "rel_option same_peer (ex k) (map_option target_peer (ds k))"
proof -
  note D = buildSyncDiff_spec [OF assms(1-5), of psk]
  obtain ks where ks: "sd_UpsertPeers (buildSyncDiff E rg psk ex ds) = map (\<lambda>k. the (map_option target_peer (ds k))) ks"
    "set ks = {k. \<exists>t. map_option target_peer (ds k) = Some t \<and> stale ex k t}" using D(4) by blast
  from assms(7) D(8) have "sd_RemoveKeys (buildSyncDiff E rg psk ex ds) = []" "ks = []" by (auto simp: ks(1))
  then have rm: "{k \<in> dom ex. ds k = None} = {}" and "{k. \<exists>t. map_option target_peer (ds k) = Some t \<and> stale ex k t} = {}"
    using D(2) ks(2) by simp_all
  then have up: "map_option target_peer (ds k) = Some t \<Longrightarrow> \<not> stale ex k t" for k t by blast
  show ?thesis
  proof (cases "ds k")
    case None
    with rm show ?thesis by (cases "ex k") auto
  next
    case (Some d)
    with up [of k "target_peer d"] obtain p where p: "ex k = Some p" "pi_Email p = ds_Email d"
      "\<not> nets_differ p (target_peer d)" by (auto simp: stale_def target_peer_def split: option.splits)
    have "KeyString E (pi_PublicKey p) = k" "KeyString E (ds_ParsedKey d) = k"
      using assms(3,6) p(1) Some by (auto simp: key_ok_map_def)
    then have "pi_PublicKey p = ds_ParsedKey d" using key_law_inj [OF assms(2)] by metis
    with p Some show ?thesis by (simp add: same_peer_def nets_differ_def target_peer_def)
  qed
qed

lemma ipnetsEqual_refl [simp]: "ipnetsEqual xs xs"
  by (simp add: ipnetsEqual_def)

lemma same_peer_refl [simp]: "same_peer p p"
  by (simp add: same_peer_def)

lemma rel_option_same_refl: "rel_option same_peer x x"
  by (cases x) simp_all

lemma full_configs:
  assumes "range_order rg" "finite (dom tg)" "\<forall>t \<in> ran tg. pi_AllowedIPs t \<noteq> []"
  shows "snd (buildTargetPeerConfigs rg tg psk) = dom tg"
    and "foldl apply_peer {} (fst (buildTargetPeerConfigs rg tg psk)) = pi_PublicKey ` ran tg"
proof -
  have ks: "set (sort (keys_of rg 6 tg)) = dom tg" using set_keys_of [OF assms(1,2)] by simp
  then have "\<forall>k \<in> set (sort (keys_of rg 6 tg)). pi_AllowedIPs (the (tg k)) \<noteq> []"
    using assms(3) by (auto simp: ran_def)
  note t = target_configs_all [OF this, of psk, unfolded ks]
  then show "snd (buildTargetPeerConfigs rg tg psk) = dom tg" by (simp add: buildTargetPeerConfigs_def)
  have "(\<lambda>k. pi_PublicKey (the (tg k))) ` dom tg = pi_PublicKey ` ran tg" by (force simp: ran_def image_iff dom_def)
  with t show "foldl apply_peer {} (fst (buildTargetPeerConfigs rg tg psk)) = pi_PublicKey ` ran tg"
    by (simp add: buildTargetPeerConfigs_def apply_adds)
qed

lemma bulk_of_map:
  assumes ks: "set ks = dom tg" "distinct ks"
    and keys': "\<forall>k t. tg k = Some t \<longrightarrow> str (pi_PublicKey t) = k"
    and emails': "\<forall>k k' t t'. tg k = Some t \<longrightarrow> tg k' = Some t' \<longrightarrow> pi_Email t = pi_Email t' \<longrightarrow> k = k'"
  shows "ps_peers (foldl (put_peer str) NewPeerStore (map tg ks)) = tg"
    and "store_ok str (foldl (put_peer str) NewPeerStore (map tg ks))"
proof -
  have keys: "tg k = Some t \<Longrightarrow> str (pi_PublicKey t) = k"
    and emails: "tg k = Some t \<Longrightarrow> tg k' = Some t' \<Longrightarrow> pi_Email t = pi_Email t' \<Longrightarrow> k = k'" for k k' t t'
    using keys' emails' by blast+
  have pr: "present (map tg ks) = map (\<lambda>k. the (tg k)) ks"
  proof -
    have "map tg ks = map Some (map (\<lambda>k. the (tg k)) ks)" using ks(1) by auto
    then show ?thesis by (metis present_map_Some)
  qed
  have some: "tg k = Some (the (tg k))" if "k \<in> set ks" for k using that ks(1) by auto
  have "inj_on (\<lambda>k. pi_Email (the (tg k))) (set ks)"
  proof (rule inj_onI)
    fix k k' assume "k \<in> set ks" "k' \<in> set ks" "pi_Email (the (tg k)) = pi_Email (the (tg k'))"
    then show "k = k'" using emails [OF some some] by blast
  qed
  moreover have "inj_on (\<lambda>k. str (pi_PublicKey (the (tg k)))) (set ks)"
    using keys [OF some] by (simp add: inj_on_def)
  ultimately have bulk: "bulk_ok str (map tg ks)"
    using ks(2) by (simp add: bulk_ok_def pr comp_def distinct_map)
  show "store_ok str (foldl (put_peer str) NewPeerStore (map tg ks))" by (rule bulk_store_ok [OF bulk])
  have "bulk_map str (map tg ks) k = tg k" for k
  proof (rule option_eq_iffI)
    fix t
    have "t \<in> set (map (\<lambda>k. the (tg k)) ks) \<longleftrightarrow> (\<exists>k. tg k = Some t)"
      using ks(1) by (force simp: image_iff)
    then show "bulk_map str (map tg ks) k = Some t \<longleftrightarrow> tg k = Some t"
      unfolding bulk_map_Some [OF bulk] pr using keys by blast
  qed
  then show "ps_peers (foldl (put_peer str) NewPeerStore (map tg ks)) = tg"
    by (simp add: put_peers NewPeerStore_def fun_eq_iff)
qed

lemma replaced_store:
  assumes "range_order rg" "finite (dom tg)" "\<forall>k t. tg k = Some t \<longrightarrow> str (pi_PublicKey t) = k"
    and "\<forall>k k' t t'. tg k = Some t \<longrightarrow> tg k' = Some t' \<longrightarrow> pi_Email t = pi_Email t' \<longrightarrow> k = k'"
  shows "ps_peers (snd (ReplaceAll str old (map tg (keys_of rg i tg)) ps)) = tg"
    and "store_ok str (snd (ReplaceAll str old (map tg (keys_of rg i tg)) ps))"
  using bulk_of_map [OF set_keys_of [OF assms(1,2)] distinct_keys_of [OF assms(1,2)] assms(3,4)]
  by (simp_all add: ReplaceAll_def Let_def)

lemma by_email_agrees:
  assumes ok: "store_ok (KeyString E) ps" and rg: "range_order rg"
    and ds: "collectDesiredPeers E c (normalizeUsers rg users) = Inr ds"
    and rel: "\<And>k. rel_option same_peer (ps_peers ps k) (map_option target_peer (ds k))"
  shows "rel_option same_peer (GetByEmail em ps) (requested E c users em)"
proof (cases "requested E c users em")
  case None
  have "GetByEmail em ps \<noteq> Some p" for p
  proof
    assume "GetByEmail em ps = Some p"
    then have p: "ps_peers ps (pkey (KeyString E) p) = Some p" "pi_Email p = em" by (simp_all add: GetByEmail_iff [OF ok])
    with rel [of "pkey (KeyString E) p"] obtain d where "ds (pkey (KeyString E) p) = Some d" "ds_Email d = em"
      by (cases "ds (pkey (KeyString E) p)") (auto simp: same_peer_def target_peer_def)
    with requested_iff [OF ds rg] None show False by (metis option.distinct(1))
  qed
  with None show ?thesis by (cases "GetByEmail em ps") auto
next
  case (Some t)
  with requested_iff [OF ds rg] obtain k d where d: "ds k = Some d" "ds_Email d = em" "t = target_peer d" by blast
  with rel [of k] obtain p where p: "ps_peers ps k = Some p" "same_peer p t" by (cases "ps_peers ps k") auto
  from store_okD(2) [OF ok p(1)] p d have "GetByEmail em ps = Some p"
    by (auto simp: GetByEmail_iff [OF ok] pkey_def same_peer_def target_peer_def)
  with Some p(2) show ?thesis by simp
qed

lemma syncUsersFull_store:
  assumes "range_order rg" "key_law E" "canonical_users E users"
    and "store_ok (KeyString E) (wg_peerStore wg)" "syncUsersFull E rg now users wg = (None, wg')"
  shows "(\<forall>em. rel_option same_peer (GetByEmail em (wg_peerStore wg')) (requested E (the_config wg) users em)) \<and>
    store_ok (KeyString E) (wg_peerStore wg') \<and>
    (wg_peerStore wg' = wg_peerStore wg \<and> wg_kernel wg' = wg_kernel wg \<or>
     (\<exists>m cs. wg_manager wg = Some m \<and> ApplyPeersReplaceAll E m cs (wg_kernel wg) = (None, wg_kernel wg') \<and>
        foldl apply_peer {} cs = store_keys wg'))"
  using assms(5)
proof (cases rule: syncUsersFull_None)
  case (1 ds psk)
  note facts = collected_facts [OF 1(1) assms(1,3)]
  have snap: "buildExistingPeersByKeySnapshot E rg wg = ps_peers (wg_peerStore wg)"
    by (rule snapshot_is_store [OF assms(4,1)])
  show ?thesis
    using 1(2-4) unchanged_same [OF assms(1,2) store_ok_key_map [OF assms(4)] facts(1,2,3)] assms(4)
      by_email_agrees [OF assms(4,1) 1(1)]
    by (simp add: snap)
next
  case (2 ds psk D m)
  note facts = collected_facts [OF 2(1) assms(1,3)]
  let ?tg = "\<lambda>k. map_option target_peer (ds k)"
  have tg: "sd_TargetPeers D = ?tg"
    using buildSyncDiff_spec(1) [OF assms(1,2) store_ok_key_map [OF assms(4)] facts(1,2)]
    by (simp add: 2(2) snapshot_is_store [OF assms(4,1)])
  have fin: "finite (dom ?tg)" and ips: "\<forall>t \<in> ran ?tg. pi_AllowedIPs t \<noteq> []"
    using facts(1,2) by (auto simp: dom_map_option ran_def target_peer_def)
  note fc = full_configs [OF assms(1) fin ips, of psk]
  have keys: "\<forall>k t. ?tg k = Some t \<longrightarrow> KeyString E (pi_PublicKey t) = k"
    and emails: "\<forall>k k' t t'. ?tg k = Some t \<longrightarrow> ?tg k' = Some t' \<longrightarrow> pi_Email t = pi_Email t' \<longrightarrow> k = k'"
    using facts(3,5) by (auto simp: target_peer_def)
  have "filter (\<lambda>k. k \<in> dom ?tg) (keys_of rg 7 ?tg) = keys_of rg 7 ?tg"
    using set_keys_of [OF assms(1) fin, of 7] by (simp add: filter_id_conv)
  then have st: "wg_peerStore wg' = snd (ReplaceAll (KeyString E) (keys_of rg 8 (ps_peers (wg_peerStore wg)))
      (map ?tg (keys_of rg 7 ?tg)) (wg_peerStore wg))"
    using 2(5) fc(1) unfolding tg by simp
  have rs: "ps_peers (wg_peerStore wg') = ?tg" "store_ok (KeyString E) (wg_peerStore wg')"
    unfolding st by (rule replaced_store [OF assms(1) fin keys emails])+
  have "foldl apply_peer {} (fst (buildTargetPeerConfigs rg ?tg psk)) = store_keys wg'"
    by (simp add: fc(2) store_keys_def rs(1))
  moreover have "\<forall>em. rel_option same_peer (GetByEmail em (wg_peerStore wg')) (requested E (the_config wg) users em)"
    using by_email_agrees [OF rs(2) assms(1) 2(1)] by (simp add: rs(1) rel_option_same_refl)
  ultimately show ?thesis using rs(2) 2(3,4) unfolding tg by blast
qed

text \<open>The keys a full synchronisation samples before they go are exactly those that go.\<close>

lemma syncUsersFull_departing:
  assumes "range_order rg" "key_law E" "canonical_users E users"
    and "store_ok (KeyString E) (wg_peerStore wg)" "syncUsersFull E rg now users wg = (None, wg')"
    and "k \<in> dom (ps_peers (wg_peerStore wg))" "k \<notin> dom (ps_peers (wg_peerStore wg'))"
  shows "\<exists>rms ks. set rms = dom (ps_peers (wg_peerStore wg)) - dom (ps_peers (wg_peerStore wg')) \<and>
    wg_statsTracker wg' = remove_stats ks (wg_statsTracker (sampleDepartingPeers E now rms wg))"
  using assms(5)
proof (cases rule: syncUsersFull_None)
  case (1 ds psk)
  with assms(6,7) show ?thesis by simp
next
  case (2 ds psk D m)
  note facts = collected_facts [OF 2(1) assms(1,3)]
  let ?tg = "\<lambda>k. map_option target_peer (ds k)"
  note D = buildSyncDiff_spec [OF assms(1,2) store_ok_key_map [OF assms(4)] facts(1,2), of psk,
      folded 2(2) [unfolded snapshot_is_store [OF assms(4,1)]]]
  have fin: "finite (dom ?tg)" and ips: "\<forall>t \<in> ran ?tg. pi_AllowedIPs t \<noteq> []"
    using facts(1,2) by (auto simp: dom_map_option ran_def target_peer_def)
  have keys: "\<forall>k t. ?tg k = Some t \<longrightarrow> KeyString E (pi_PublicKey t) = k"
    and emails: "\<forall>k k' t t'. ?tg k = Some t \<longrightarrow> ?tg k' = Some t' \<longrightarrow> pi_Email t = pi_Email t' \<longrightarrow> k = k'"
    using facts(3,5) by (auto simp: target_peer_def)
  have "filter (\<lambda>k. k \<in> dom ?tg) (keys_of rg 7 ?tg) = keys_of rg 7 ?tg"
    using set_keys_of [OF assms(1) fin, of 7] by (simp add: filter_id_conv)
  then have "wg_peerStore wg' = snd (ReplaceAll (KeyString E) (keys_of rg 8 (ps_peers (wg_peerStore wg)))
      (map ?tg (keys_of rg 7 ?tg)) (wg_peerStore wg))"
    using 2(5) full_configs(1) [OF assms(1) fin ips, of psk] unfolding D(1) by simp
  with replaced_store(1) [OF assms(1) fin keys emails] have "ps_peers (wg_peerStore wg') = ?tg" by simp
  then have "set (sd_RemoveKeys D) = dom (ps_peers (wg_peerStore wg)) - dom (ps_peers (wg_peerStore wg'))"
    unfolding D(2) by (auto simp: dom_map_option)
  with 2(6) show ?thesis by blast
qed

text \<open>
  C3: a full synchronisation that returns without an error leaves the store with exactly the peers the
  users ask for (the same keys, owners and addresses), one-to-one between e-mails and keys, and the
  kernel with exactly the store's peers, if it had the store's peers before. The hypotheses are that
  keys print and parse back, that configuration calls do what \<^verbatim>\<open>wgctrl\<close> documents, that the
  users' keys are spelled canonically and that the manager is the one of the interface.
\<close>

theorem syncUsersFull_agrees:
  assumes "range_order rg" "key_law E" "kernel_law E name pk" "canonical_users E users"
    and "store_ok (KeyString E) (wg_peerStore wg)" "pk (wg_kernel wg) = store_keys wg"
    and "\<And>m. wg_manager wg = Some m \<Longrightarrow> m_iFaceName m = name"
    and "syncUsersFull E rg now users wg = (None, wg')"
  shows "(\<forall>em. rel_option same_peer (GetByEmail em (wg_peerStore wg')) (requested E (the_config wg) users em)) \<and>
    store_ok (KeyString E) (wg_peerStore wg') \<and> pk (wg_kernel wg') = store_keys wg'"
proof -
  note st = syncUsersFull_store [OF assms(1,2,4,5,8)]
  have "kernel_law E (m_iFaceName m) pk" if "wg_manager wg = Some m" for m using assms(3,7) that by simp
  then have "pk (wg_kernel wg') = store_keys wg'"
    using st ReplaceAll_kernel assms(6) by (fastforce simp: store_keys_def)
  with st show ?thesis by blast
qed


section \<open>Partial synchronisation\<close>

lemma syncUsersPartial_None:
  assumes "syncUsersPartialReconcile E rg now users wg = (None, wg')"
  obtains ds psk D where "collectDesiredPeers E (the_config wg) (normalizeUsers rg users) = Inr ds"
    and "owner_conflict (GetEmailMap (wg_peerStore wg)) ds (set (map GetEmail (normalizeUsers rg users)))
           (keys_of rg 9 ds) = None"
    and "D = buildSyncDiff E rg psk (buildExistingPeersSubsetForTouched E
           (rg 1 (set (map GetEmail (normalizeUsers rg users)))) wg) ds"
    and "wg_peerStore wg' = snd (ApplyChanges (KeyString E) (sd_RemoveKeys D) (map Some (sd_UpsertPeers D)) (wg_peerStore wg))"
    and "sd_PeerConfigs D = [] \<and> wg_kernel wg' = wg_kernel wg \<or>
         (\<exists>m. wg_manager wg = Some m \<and> ApplyPeers E m (sd_PeerConfigs D) (wg_kernel wg) = (None, wg_kernel wg'))"
    and "wg_statsTracker wg' = remove_stats (fst (ApplyChanges (KeyString E) (sd_RemoveKeys D)
           (map Some (sd_UpsertPeers D)) (wg_peerStore wg))) (wg_statsTracker (sampleDepartingPeers E now (sd_RemoveKeys D) wg))"
proof -
  let ?us = "normalizeUsers rg users"
  from assms obtain ds where ds: "collectDesiredPeers E (the_config wg) ?us = Inr ds"
    and oc: "owner_conflict (GetEmailMap (wg_peerStore wg)) ds (set (map GetEmail ?us)) (keys_of rg 9 ds) = None"
    by (auto simp: syncUsersPartialReconcile_def Let_def split: sum.splits option.splits)
  obtain psk c where psk: "psk_of E (the_config wg) = (psk, c)" by (metis prod.exhaust)
  let ?D = "buildSyncDiff E rg psk (buildExistingPeersSubsetForTouched E (rg 1 (set (map GetEmail ?us))) wg) ds"
  let ?wg = "sampleDepartingPeers E now (sd_RemoveKeys ?D) (wg\<lparr>wg_config := Some c\<rparr>)"
  let ?ac = "ApplyChanges (KeyString E) (sd_RemoveKeys ?D) (map Some (sd_UpsertPeers ?D)) (wg_peerStore wg)"
  let ?st = "remove_stats (fst ?ac) (wg_statsTracker (sampleDepartingPeers E now (sd_RemoveKeys ?D) wg))"
  have st: "wg_statsTracker ?wg = wg_statsTracker (sampleDepartingPeers E now (sd_RemoveKeys ?D) wg)"
    by (simp add: sampleDepartingPeers_def split: option.split sum.split)
  show thesis
  proof (cases "sd_PeerConfigs ?D = []")
    case True
    then have "wg_peerStore wg' = snd ?ac" "wg_kernel wg' = wg_kernel wg" "wg_statsTracker wg' = ?st"
      unfolding st [symmetric] using assms ds oc psk by (auto simp: syncUsersPartialReconcile_def Let_def split_beta)
    with that [OF ds oc refl] True show ?thesis by blast
  next
    case False
    have run: "ensureRunningWithManagerLocked ?wg = None"
      using assms ds oc psk False by (auto simp: syncUsersPartialReconcile_def Let_def split_beta split: option.splits)
    from ensureRunning_None [OF this] obtain m where m: "wg_manager wg = Some m" by auto
    obtain e d' where ap: "ApplyPeers E m (sd_PeerConfigs ?D) (wg_kernel wg) = (e, d')" by (metis prod.exhaust)
    have e: "e = None" using assms ds oc psk False run m ap
      by (cases e) (auto simp: syncUsersPartialReconcile_def Let_def split_beta)
    from assms ds oc psk False run m ap e
    have "wg_kernel wg' = d'" "wg_peerStore wg' = snd ?ac" "wg_statsTracker wg' = ?st"
      unfolding st [symmetric] by (auto simp: syncUsersPartialReconcile_def Let_def split_beta)
    with that [OF ds oc refl] m ap e show ?thesis by blast
  qed
qed

lemma owner_conflict_None:
  assumes "owner_conflict owners ds touched ks = None" "k \<in> set ks" "owners k = Some em" "ds k = Some d"
  shows "em = ds_Email d \<or> em \<in> touched"
  using assms by (induction ks) (auto split: option.splits if_splits)

lemma touched_subset:
  assumes ok: "store_ok (KeyString E) (wg_peerStore wg)" and "set ts = T"
  shows "buildExistingPeersSubsetForTouched E ts wg =
    (\<lambda>k. case ps_peers (wg_peerStore wg) k of None \<Rightarrow> None | Some p \<Rightarrow> if pi_Email p \<in> T then Some p else None)"
proof -
  let ?ps = "wg_peerStore wg"
  let ?f = "\<lambda>m email. case GetByEmail email ?ps of None \<Rightarrow> m | Some peer \<Rightarrow> m(KeyString E (pi_PublicKey peer) \<mapsto> peer)"
  have "foldl ?f Map.empty ts k = Some p \<longleftrightarrow> ps_peers ?ps k = Some p \<and> pi_Email p \<in> set ts" for k p
  proof (induction ts rule: rev_induct)
    case (snoc t ts)
    have iff: "GetByEmail t ?ps = Some q \<longleftrightarrow> ps_peers ?ps (KeyString E (pi_PublicKey q)) = Some q \<and> pi_Email q = t" for q
      using GetByEmail_iff [OF ok] by (simp add: pkey_def)
    show ?case
    proof (cases "GetByEmail t ?ps")
      case None
      have "pi_Email p \<noteq> t" if "ps_peers ?ps k = Some p"
        using iff [of p] None store_okD(2) [OF ok that] that by auto
      with snoc None show ?thesis by auto
    next
      case (Some q)
      with iff have q: "ps_peers ?ps (KeyString E (pi_PublicKey q)) = Some q" "pi_Email q = t" by auto
      have "pi_Email p = t \<Longrightarrow> ps_peers ?ps k = Some p \<Longrightarrow> k = KeyString E (pi_PublicKey q)"
        using store_ok_emails [OF ok _ q(1)] q(2) by simp
      with snoc Some q show ?thesis by auto
    qed
  qed simp
  then show ?thesis using assms(2)
    by (intro ext option_eq_iffI) (auto simp: buildExistingPeersSubsetForTouched_def split: option.splits)
qed

text \<open>
  The situation of a partial synchronisation whose difference is known, apart from the calls that
  apply it: \<open>T\<close> are the e-mails of the request, \<open>ex\<close> the store's peers with those e-mails, \<open>ds\<close> what
  the request asks for.
\<close>

lemma partial_store:
  fixes E :: "('k, 'd) wg_env" and ps :: "'k peer_store" and ds :: "string \<rightharpoonup> 'k desired_peer"
  defines "tg \<equiv> (\<lambda>k. map_option target_peer (ds k))" and "str \<equiv> KeyString E"
  assumes law: "key_law E" and ok: "store_ok str ps"
    and ex': "ex = (\<lambda>k. case ps_peers ps k of None \<Rightarrow> None | Some p \<Rightarrow> if pi_Email p \<in> T then Some p else None)"
    and laws: "\<forall>k d. ds k = Some d \<longrightarrow> str (ds_ParsedKey d) = k" "\<forall>k d. ds k = Some d \<longrightarrow> ds_Email d \<in> T"
      "\<forall>k k' d d'. ds k = Some d \<longrightarrow> ds k' = Some d' \<longrightarrow> ds_Email d = ds_Email d' \<longrightarrow> k = k'"
      "\<forall>k d p. ds k = Some d \<longrightarrow> ps_peers ps k = Some p \<longrightarrow> pi_Email p \<in> T"
    and rm: "set rms = {k \<in> dom ex. ds k = None}"
    and up: "ups = map (\<lambda>k. the (tg k)) ks" "distinct ks" "set ks = {k. \<exists>t. tg k = Some t \<and> stale ex k t}"
    and ps': "ps' = snd (ApplyChanges str rms (map Some ups) ps)"
  shows "store_ok str ps'"
    and "em \<notin> T \<Longrightarrow> GetByEmail em ps' = GetByEmail em ps"
    and "ds k = Some d \<Longrightarrow> \<exists>p. GetByEmail (ds_Email d) ps' = Some p \<and> same_peer p (target_peer d)"
    and "em \<in> T \<Longrightarrow> \<forall>k d. ds k = Some d \<longrightarrow> ds_Email d \<noteq> em \<Longrightarrow> GetByEmail em ps' = None"
proof -
  have keys: "ds k = Some d \<Longrightarrow> str (ds_ParsedKey d) = k" and inT: "ds k = Some d \<Longrightarrow> ds_Email d \<in> T"
    and inj: "ds k = Some d \<Longrightarrow> ds k' = Some d' \<Longrightarrow> ds_Email d = ds_Email d' \<Longrightarrow> k = k'"
    and owner: "ds k = Some d \<Longrightarrow> ps_peers ps k = Some p \<Longrightarrow> pi_Email p \<in> T" for k k' d d' p
    using laws by blast+
  have ex: "ex k = (case ps_peers ps k of None \<Rightarrow> None | Some p \<Rightarrow> if pi_Email p \<in> T then Some p else None)" for k
    by (simp add: ex')
  show "store_ok str ps'" unfolding ps' by (rule ApplyChanges_ok [OF ok])
  have fold: "ps' = foldl (\<lambda>ps p. upsert_peer str ps (Some p)) (snd (remove_keys rms ps)) ups"
    unfolding ps' by (simp add: ApplyChanges_def split_beta foldl_map)
  have tgD: "\<exists>d. ds k = Some d \<and> the (tg k) = target_peer d \<and> stale ex k (target_peer d)" if "k \<in> set ks" for k
    using that by (auto simp: up(3) tg_def)
  have pk: "pkey str (the (tg k)) = k" if "k \<in> set ks" for k
    using tgD [OF that] keys by (auto simp: pkey_def target_peer_def)
  have emk: "\<exists>d. ds k = Some d \<and> pi_Email (the (tg k)) = ds_Email d" if "k \<in> set ks" for k
    using tgD [OF that] by (auto simp: target_peer_def)
  have "map (pkey str) ups = ks" using pk by (simp add: up(1) map_idI)
  then have dk: "distinct (map (pkey str) ups)" and sk: "pkey str ` set ups = set ks"
    using up(2) by (simp, metis set_map)
  have "inj_on (\<lambda>k. pi_Email (the (tg k))) (set ks)"
  proof (rule inj_onI)
    fix k k' assume k: "k \<in> set ks" "k' \<in> set ks" "pi_Email (the (tg k)) = pi_Email (the (tg k'))"
    obtain d where d: "ds k = Some d" "pi_Email (the (tg k)) = ds_Email d" using emk [OF k(1)] by blast
    obtain d' where d': "ds k' = Some d'" "pi_Email (the (tg k')) = ds_Email d'" using emk [OF k(2)] by blast
    from d(2) d'(2) k(3) have "ds_Email d = ds_Email d'" by simp
    with inj [OF d(1) d'(1)] show "k = k'" .
  qed
  then have de: "distinct (map pi_Email ups)" using up(2) by (simp add: up(1) distinct_map comp_def)
  note changes = directory.lookup_changes [OF ok de dk, where ks = rms, folded fold]
  have emT: "pi_Email ` set ups \<subseteq> T" 
  proof
    fix e assume "e \<in> pi_Email ` set ups"
    then obtain k where k: "k \<in> set ks" "e = pi_Email (the (tg k))" by (auto simp: up(1))
    from emk [OF k(1)] k(2) inT show "e \<in> T" by auto
  qed
  have iff: "GetByEmail em ps = Some q \<longleftrightarrow> ps_peers ps (pkey str q) = Some q \<and> pi_Email q = em" for em q
    by (rule GetByEmail_iff [OF ok])
  show "GetByEmail em ps' = GetByEmail em ps" if "em \<notin> T"
  proof -
    have "pkey str q \<notin> set rms \<union> set ks" if q: "GetByEmail em ps = Some q" for q
    proof
      assume "pkey str q \<in> set rms \<union> set ks"
      then have "pi_Email q \<in> T"
        using q tgD [of "pkey str q"] owner [of "pkey str q"]
        by (auto simp: iff rm ex split: option.splits if_splits)
      with q \<open>em \<notin> T\<close> show False by (simp add: iff)
    qed
    moreover have "em \<notin> pi_Email ` set ups" using emT that by blast
    ultimately show ?thesis using changes(2) [of em] by (cases "GetByEmail em ps") (auto simp: sk)
  qed
  show "\<exists>p. GetByEmail (ds_Email d) ps' = Some p \<and> same_peer p (target_peer d)" if d: "ds k = Some d"
  proof (cases "k \<in> set ks")
    case True
    then have "target_peer d \<in> set ups" using d by (auto simp: up(1) tg_def image_iff intro!: bexI [of _ k])
    from changes(1) [OF this] show ?thesis by (auto simp: target_peer_def)
  next
    case False
    then have "\<not> stale ex k (target_peer d)" using d by (auto simp: up(3) tg_def)
    then obtain p where p: "ex k = Some p" "pi_Email p = ds_Email d" "\<not> nets_differ p (target_peer d)"
      by (auto simp: stale_def target_peer_def split: option.splits)
    then have psk: "ps_peers ps k = Some p" by (auto simp: ex split: option.splits if_splits)
    then have kp: "str (pi_PublicKey p) = k" by (rule store_okD(2) [OF ok])
    then have "pi_PublicKey p = ds_ParsedKey d" using keys [OF d] key_law_inj [OF law] by (metis str_def)
    then have same: "same_peer p (target_peer d)" using p by (simp add: same_peer_def nets_differ_def target_peer_def)
    have "ds_Email d \<notin> pi_Email ` set ups"
    proof
      assume "ds_Email d \<in> pi_Email ` set ups"
      then obtain k' where k': "k' \<in> set ks" "ds_Email d = pi_Email (the (tg k'))" by (auto simp: up(1))
      from emk [OF k'(1)] k'(2) obtain d' where "ds k' = Some d'" "ds_Email d = ds_Email d'" by auto
      with inj [OF d] k'(1) False show False by blast
    qed
    moreover have "pkey str p \<notin> set rms \<union> set ks" using kp False d by (auto simp: pkey_def rm)
    moreover have "GetByEmail (ds_Email d) ps = Some p" using psk kp p(2) by (simp add: iff pkey_def)
    ultimately have "GetByEmail (ds_Email d) ps' = Some p" using changes(2) by (simp add: sk)
    with same show ?thesis by blast
  qed
  show "GetByEmail em ps' = None" if "em \<in> T" "\<forall>k d. ds k = Some d \<longrightarrow> ds_Email d \<noteq> em"
  proof -
    have "em \<notin> pi_Email ` set ups"
    proof
      assume "em \<in> pi_Email ` set ups"
      then obtain k where k: "k \<in> set ks" "em = pi_Email (the (tg k))" by (auto simp: up(1))
      from emk [OF k(1)] k(2) obtain d where "ds k = Some d" "ds_Email d = em" by auto
      with that(2) show False by blast
    qed
    moreover have "pkey str q \<in> set rms \<union> set ks" if q: "GetByEmail em ps = Some q" for q
    proof -
      have exq: "ex (pkey str q) = Some q" using q \<open>em \<in> T\<close> by (simp add: iff ex)
      show ?thesis
      proof (cases "ds (pkey str q)")
        case None
        with exq show ?thesis by (auto simp: rm)
      next
        case (Some d)
        then have "ds_Email d \<noteq> em" using \<open>\<forall>k d. ds k = Some d \<longrightarrow> ds_Email d \<noteq> em\<close> by blast
        then have "stale ex (pkey str q) (target_peer d)"
          using exq q by (simp add: stale_def target_peer_def iff)
        with Some show ?thesis by (auto simp: up(3) tg_def)
      qed
    qed
    ultimately show ?thesis using changes(2) [of em] by (cases "GetByEmail em ps") (auto simp: sk)
  qed
qed

lemma store_keys_iff:
  assumes "store_ok (KeyString E) (wg_peerStore wg)" "key_law E"
  shows "K \<in> store_keys wg \<longleftrightarrow> KeyString E K \<in> dom (ps_peers (wg_peerStore wg))"
proof
  assume "K \<in> store_keys wg"
  then obtain k p where "ps_peers (wg_peerStore wg) k = Some p" "K = pi_PublicKey p"
    by (auto simp: store_keys_def ran_def)
  with store_okD(2) [OF assms(1)] show "KeyString E K \<in> dom (ps_peers (wg_peerStore wg))" by blast
next
  assume "KeyString E K \<in> dom (ps_peers (wg_peerStore wg))"
  then obtain p where p: "ps_peers (wg_peerStore wg) (KeyString E K) = Some p" by blast
  from store_okD(2) [OF assms(1) p] have "pi_PublicKey p = K" using key_law_inj [OF assms(2)] by metis
  with p show "K \<in> store_keys wg" by (auto simp: store_keys_def ran_def)
qed

text \<open>The keys of a store known by e-mail: of the named users what is asked for, of the others the old ones.\<close>

lemma partial_dom:
  assumes ok: "store_ok str ps" "store_ok str ps'"
    and others: "\<And>em. em \<notin> T \<Longrightarrow> GetByEmail em ps' = GetByEmail em ps"
    and named: "\<And>k d. ds k = Some d \<Longrightarrow> \<exists>p. GetByEmail (ds_Email d) ps' = Some p \<and> same_peer p (target_peer d)"
    and gone: "\<And>em. em \<in> T \<Longrightarrow> \<forall>k d. ds k = Some d \<longrightarrow> ds_Email d \<noteq> em \<Longrightarrow> GetByEmail em ps' = None"
    and keys: "\<And>k d. ds k = Some d \<Longrightarrow> str (ds_ParsedKey d) = k"
    and inT: "\<And>k d. ds k = Some d \<Longrightarrow> ds_Email d \<in> T"
  shows "dom (ps_peers ps') = dom ds \<union> {k. \<exists>p. ps_peers ps k = Some p \<and> pi_Email p \<notin> T}"
proof (intro set_eqI iffI)
  fix k assume "k \<in> dom (ps_peers ps')"
  then obtain p where p: "ps_peers ps' k = Some p" by blast
  note pk = store_okD(2) [OF ok(2) p]
  from p pk have g: "GetByEmail (pi_Email p) ps' = Some p" by (simp add: GetByEmail_iff [OF ok(2)] pkey_def)
  show "k \<in> dom ds \<union> {k. \<exists>p. ps_peers ps k = Some p \<and> pi_Email p \<notin> T}"
  proof (cases "pi_Email p \<in> T")
    case True
    with gone g obtain k' d where d: "ds k' = Some d" "ds_Email d = pi_Email p" by fastforce
    with named [OF d(1)] g have "same_peer p (target_peer d)" by simp
    with keys [OF d(1)] pk d(1) show ?thesis by (auto simp: same_peer_def target_peer_def)
  next
    case False
    with others g have "GetByEmail (pi_Email p) ps = Some p" by simp
    with False pk show ?thesis by (auto simp: GetByEmail_iff [OF ok(1)] pkey_def)
  qed
next
  fix k assume "k \<in> dom ds \<union> {k. \<exists>p. ps_peers ps k = Some p \<and> pi_Email p \<notin> T}"
  then consider d where "ds k = Some d" | p where "ps_peers ps k = Some p" "pi_Email p \<notin> T" by blast
  then show "k \<in> dom (ps_peers ps')"
  proof cases
    case 1
    with named obtain p where "GetByEmail (ds_Email d) ps' = Some p" "same_peer p (target_peer d)" by blast
    with keys [OF 1] show ?thesis by (auto simp: GetByEmail_iff [OF ok(2)] pkey_def same_peer_def target_peer_def)
  next
    case 2
    from store_okD(2) [OF ok(1) 2(1)] 2(1) have "GetByEmail (pi_Email p) ps = Some p"
      by (simp add: GetByEmail_iff [OF ok(1)] pkey_def)
    with others [OF 2(2)] store_okD(2) [OF ok(1) 2(1)] show ?thesis
      by (auto simp: GetByEmail_iff [OF ok(2)] pkey_def)
  qed
qed

lemma syncUsersPartial_detail:
  fixes E :: "('k, 'd) wg_env" and wg :: "('k, 'd) wireguard"
  assumes "range_order rg" "key_law E" "canonical_users E users" "store_ok (KeyString E) (wg_peerStore wg)"
    and "syncUsersPartialReconcile E rg now users wg = (None, wg')"
  obtains D :: "'k sync_diff" where "\<forall>em. if em \<in> dom (lastByEmail users)
          then rel_option same_peer (GetByEmail em (wg_peerStore wg')) (requested E (the_config wg) users em)
          else GetByEmail em (wg_peerStore wg') = GetByEmail em (wg_peerStore wg)"
    and "store_ok (KeyString E) (wg_peerStore wg')"
    and "foldl apply_peer (store_keys wg) (sd_PeerConfigs D) = store_keys wg'"
    and "sd_PeerConfigs D = [] \<and> wg_kernel wg' = wg_kernel wg \<or>
         (\<exists>m. wg_manager wg = Some m \<and> ApplyPeers E m (sd_PeerConfigs D) (wg_kernel wg) = (None, wg_kernel wg'))"
    and "set (sd_RemoveKeys D) = dom (ps_peers (wg_peerStore wg)) - dom (ps_peers (wg_peerStore wg'))"
    and "\<exists>ks. wg_statsTracker wg' = remove_stats ks (wg_statsTracker (sampleDepartingPeers E now (sd_RemoveKeys D) wg))"
    and "\<exists>as rs. sd_PeerConfigs D = as @ rs \<and> removes as = {} \<and> adds rs = {}"
    and "removes (sd_PeerConfigs D) = {K. KeyString E K \<in> set (sd_RemoveKeys D)}"
    and "\<And>c. c \<in> set (sd_PeerConfigs D) \<Longrightarrow> \<not> pc_Remove c \<Longrightarrow>
           \<exists>em t. requested E (the_config wg) users em = Some t \<and> pc_PublicKey c = pi_PublicKey t \<and>
             pc_AllowedIPs c = pi_AllowedIPs t \<and>
             (pc_ReplaceAllowedIPs c \<or> ps_peers (wg_peerStore wg) (KeyString E (pi_PublicKey t)) = None)"
    and "\<And>em t. requested E (the_config wg) users em = Some t \<Longrightarrow> pi_PublicKey t \<in> adds (sd_PeerConfigs D) \<or>
           (\<exists>p. ps_peers (wg_peerStore wg) (KeyString E (pi_PublicKey t)) = Some p \<and>
              ipnetsEqual (pi_AllowedIPs p) (pi_AllowedIPs t))"
  using assms(5)
proof (cases rule: syncUsersPartial_None)
  case (1 ds psk D)
  define T where "T = set (map GetEmail (normalizeUsers rg users))"
  define ex where "ex = buildExistingPeersSubsetForTouched E (rg 1 T) wg"
  let ?ps' = "wg_peerStore wg'" and ?str = "KeyString E" and ?tg = "\<lambda>k. map_option target_peer (ds k)"
  note facts = collected_facts [OF 1(1) assms(1,3), folded T_def] and req = requested_iff [OF 1(1) assms(1)]
  have T: "T = dom (lastByEmail users)"
    unfolding T_def normalizeUsers_emails [OF assms(1)] by (simp add: set_keys_of [OF assms(1)])
  have "set (rg 1 T) = T" using assms(1) by (simp add: range_order_def T_def)
  have ok: "store_ok ?str (wg_peerStore wg)" by (rule assms(4))
  note ex = touched_subset [OF ok \<open>set (rg 1 T) = T\<close>, folded ex_def]
  have exmap: "key_ok_map E ex"
  proof -
    have "dom ex \<subseteq> dom (ps_peers (wg_peerStore wg))" by (auto simp: ex split: option.splits)
    then have "finite (dom ex)" using store_okD(1) [OF ok] by (rule finite_subset)
    then show ?thesis using store_okD(2) [OF ok] by (auto simp: key_ok_map_def ex split: option.splits if_splits)
  qed
  note D = buildSyncDiff_spec [OF assms(1,2) exmap facts(1,2), of psk, folded 1(3) [folded T_def, folded ex_def]]
  obtain ks where ks: "sd_UpsertPeers D = map (\<lambda>k. the (?tg k)) ks" "distinct ks"
    "set ks = {k. \<exists>t. ?tg k = Some t \<and> stale ex k t}" using D(4) by blast
  have laws: "\<forall>k d. ds k = Some d \<longrightarrow> ?str (ds_ParsedKey d) = k" "\<forall>k d. ds k = Some d \<longrightarrow> ds_Email d \<in> T"
      "\<forall>k k' d d'. ds k = Some d \<longrightarrow> ds k' = Some d' \<longrightarrow> ds_Email d = ds_Email d' \<longrightarrow> k = k'"
    using facts(3,4,5) by blast+
  have owner: "\<forall>k d p. ds k = Some d \<longrightarrow> ps_peers (wg_peerStore wg) k = Some p \<longrightarrow> pi_Email p \<in> T"
    using owner_conflict_None [OF 1(2) [folded T_def]] facts(4) set_keys_of [OF assms(1) facts(1), of 9]
    by (fastforce simp: GetEmailMap_def)
  note st = partial_store [OF assms(2) ok ex laws owner D(2) ks 1(4)]
  have emails: "if em \<in> T then rel_option same_peer (GetByEmail em ?ps') (requested E (the_config wg) users em)
      else GetByEmail em ?ps' = GetByEmail em (wg_peerStore wg)" for em
  proof (cases "requested E (the_config wg) users em")
    case None
    then have "\<forall>k d. ds k = Some d \<longrightarrow> ds_Email d \<noteq> em" using req by (metis option.distinct(1))
    with st(2,4) None show ?thesis by simp
  next
    case (Some t)
    with req obtain k d where d: "ds k = Some d" "ds_Email d = em" "t = target_peer d" by blast
    with st(3) [OF d(1)] facts(4) [OF d(1)] Some show ?thesis by auto
  qed
  have domps': "dom (ps_peers ?ps') = dom ds \<union> {k. \<exists>p. ps_peers (wg_peerStore wg) k = Some p \<and> pi_Email p \<notin> T}"
    by (rule partial_dom [OF ok st(1) st(2) st(3) st(4) facts(3) facts(4)])
  have "foldl apply_peer (store_keys wg) (sd_PeerConfigs D) = (store_keys wg \<union> adds (sd_PeerConfigs D)) - removes (sd_PeerConfigs D)"
    using D(7) apply_diff by metis
  also have "\<dots> = store_keys wg'"
  proof (rule set_eqI)
    fix K
    have "K \<in> adds (sd_PeerConfigs D) \<longleftrightarrow> (\<exists>d. ds (?str K) = Some d \<and> uncovered ex (?str K) (target_peer d))"
    proof
      assume "K \<in> adds (sd_PeerConfigs D)"
      then obtain k d where d: "ds k = Some d" "K = ds_ParsedKey d" "uncovered ex k (target_peer d)"
        unfolding D(5) by (auto simp: target_peer_def)
      with facts(3) [OF d(1)] show "\<exists>d. ds (?str K) = Some d \<and> uncovered ex (?str K) (target_peer d)" by auto
    next
      assume "\<exists>d. ds (?str K) = Some d \<and> uncovered ex (?str K) (target_peer d)"
      then obtain d where d: "ds (?str K) = Some d" "uncovered ex (?str K) (target_peer d)" by blast
      from facts(3) [OF d(1)] have "pi_PublicKey (target_peer d) = K"
        using key_law_inj [OF assms(2)] by (simp add: target_peer_def)
      with d show "K \<in> adds (sd_PeerConfigs D)" unfolding D(5) by force
    qed
    moreover have "\<exists>p. ps_peers (wg_peerStore wg) k = Some p \<and> pi_Email p \<in> T"
      if "ds k = Some d" "\<not> uncovered ex k (target_peer d)" for k d
      using that by (auto simp: uncovered_def ex split: option.splits if_splits)
    moreover have "?str K \<in> dom ex \<longleftrightarrow> (\<exists>p. ps_peers (wg_peerStore wg) (?str K) = Some p \<and> pi_Email p \<in> T)"
      by (auto simp: ex split: option.splits if_splits)
    ultimately show "K \<in> (store_keys wg \<union> adds (sd_PeerConfigs D)) - removes (sd_PeerConfigs D) \<longleftrightarrow> K \<in> store_keys wg'"
      unfolding Diff_iff Un_iff store_keys_iff [OF ok assms(2)] store_keys_iff [OF st(1) assms(2)] domps' D(6) D(2)
      by (cases "ds (?str K)") auto
  qed
  finally have kern: "foldl apply_peer (store_keys wg) (sd_PeerConfigs D) = store_keys wg'" .
  have rmk: "set (sd_RemoveKeys D) = dom (ps_peers (wg_peerStore wg)) - dom (ps_peers ?ps')"
    unfolding domps' D(2) by (auto simp: ex split: option.splits if_splits)
  have shape: "\<exists>em t. requested E (the_config wg) users em = Some t \<and> pc_PublicKey c = pi_PublicKey t \<and>
      pc_AllowedIPs c = pi_AllowedIPs t \<and>
      (pc_ReplaceAllowedIPs c \<or> ps_peers (wg_peerStore wg) (KeyString E (pi_PublicKey t)) = None)"
    if c: "c \<in> set (sd_PeerConfigs D)" "\<not> pc_Remove c" for c
  proof -
    from buildSyncDiff_configs [OF assms(1) facts(1) c [unfolded 1(3)], folded T_def, folded ex_def]
    obtain k d where d: "ds k = Some d" "pc_PublicKey c = ds_ParsedKey d" "pc_AllowedIPs c = ds_AllowedIPNets d"
      "pc_ReplaceAllowedIPs c \<or> ex k = None" by (auto simp: config_of_def target_peer_def)
    moreover have "ex k = None \<Longrightarrow> ps_peers (wg_peerStore wg) k = None"
      using owner d(1) by (auto simp: ex split: option.splits if_splits)
    moreover have "requested E (the_config wg) users (ds_Email d) = Some (target_peer d)" using req d(1) by blast
    ultimately show ?thesis using facts(3) [OF d(1)] by (intro exI conjI) (auto simp: target_peer_def)
  qed
  have cover: "pi_PublicKey t \<in> adds (sd_PeerConfigs D) \<or>
      (\<exists>p. ps_peers (wg_peerStore wg) (KeyString E (pi_PublicKey t)) = Some p \<and>
         ipnetsEqual (pi_AllowedIPs p) (pi_AllowedIPs t))"
    if "requested E (the_config wg) users em = Some t" for em t
  proof -
    from that req obtain k d where d: "ds k = Some d" "t = target_peer d" by blast
    with facts(3) [OF d(1)] have k: "KeyString E (pi_PublicKey t) = k" by (simp add: target_peer_def)
    show ?thesis
    proof (cases "uncovered ex k t")
      case True
      with d show ?thesis unfolding D(5) by auto
    next
      case False
      then obtain p where "ps_peers (wg_peerStore wg) k = Some p" "\<not> nets_differ p t"
        by (auto simp: uncovered_def ex split: option.splits if_splits)
      with k show ?thesis by (auto simp: nets_differ_def)
    qed
  qed
  have em: "\<forall>em. if em \<in> dom (lastByEmail users)
          then rel_option same_peer (GetByEmail em (wg_peerStore wg')) (requested E (the_config wg) users em)
          else GetByEmail em (wg_peerStore wg') = GetByEmail em (wg_peerStore wg)"
    using emails unfolding T by blast
  have tr: "\<exists>ks. wg_statsTracker wg' = remove_stats ks (wg_statsTracker (sampleDepartingPeers E now (sd_RemoveKeys D) wg))"
    using 1(6) by blast
  show thesis by (rule that [OF em st(1) kern 1(5) rmk tr D(7) D(6) shape cover])
qed


section \<open>What collected peers guarantee\<close>

lemma mask_ip_append: "mask_ip k (xs @ ys) = mask_ip k xs @ mask_ip (k - 8 * length xs) ys"
  by (induction xs arbitrary: k) (simp_all add: diff_diff_add)

lemma ParseCIDR_mask: "ParseCIDR s = Some n \<Longrightarrow> n_MaskLen n = length (n_IP n)"
  by (auto simp: ParseCIDR_def split: option.splits if_splits)

text \<open>\<open>IPNet_Contains\<close> on addresses of the pool's length compares the masked bytes.\<close>

lemma Contains_mask:
  assumes "IPNet_Contains pool a" "length a = length (n_IP pool)" "n_MaskLen pool = length (n_IP pool)"
  shows "mask_ip (n_Ones pool) a = mask_ip (n_Ones pool) (n_IP pool)"
proof -
  have split16: "mask_ip k b = mask_ip k (replicate 10 0 @ [255, 255]) @ mask_ip (k - 96) c"
    if "To4 b = Some c" "length b = 16" for b c k
  proof -
    let ?p = "replicate 10 0 @ [255, 255] :: nat list"
    from that have "take 12 b = ?p" "drop 12 b = c" by (simp_all add: To4_def split: if_splits)
    then have "b = ?p @ c" by (metis append_take_drop_id)
    moreover have "8 * length ?p = 96" by simp
    ultimately show ?thesis by (simp only: mask_ip_append)
  qed
  have four: "To4 b = Some c \<Longrightarrow> length b \<noteq> 16 \<Longrightarrow> c = b \<and> length b = 4" for b c
    by (auto simp: To4_def split: if_splits)
  have len4: "To4 b = Some c \<Longrightarrow> length c = 4" for b c
    by (auto simp: To4_def split: if_splits)
  have none: "To4 b = None \<Longrightarrow> length b \<noteq> 4" for b by (auto simp: To4_def)
  show ?thesis
  proof (cases "To4 (n_IP pool)")
    case None
    with assms(1,2) none len4 show ?thesis
      by (cases "To4 a") (auto simp: IPNet_Contains_def networkNumberAndMask_def)
  next
    case (Some c)
    note c = this
    then obtain b where b: "To4 a = Some b"
      using assms(1,2) len4 [OF c] none by (cases "To4 a") (auto simp: IPNet_Contains_def networkNumberAndMask_def)
    show ?thesis
    proof (cases "length a = 16")
      case True
      with assms c b have "mask_ip (n_Ones pool - 96) c = mask_ip (n_Ones pool - 96) b"
        by (simp add: IPNet_Contains_def networkNumberAndMask_def)
      with split16 [OF c] split16 [OF b] True assms(2) show ?thesis by simp
    next
      case False
      with four [OF c] four [OF b] assms c b show ?thesis
        by (simp add: IPNet_Contains_def networkNumberAndMask_def)
    qed
  qed
qed

lemma allowed_inside:
  assumes "peerIPAllowedOnInterface n pools" "\<forall>pool \<in> set pools. n_MaskLen pool = length (n_IP pool)"
  shows "pools = [] \<or> (\<exists>pool \<in> set pools. net_members n \<subseteq> net_members pool)"
proof (cases "pools = []")
  case False
  with assms(1) obtain pool where pool: "pool \<in> set pools" "length (n_IP n) = length (n_IP pool)"
    "IPNet_Contains pool (n_IP n)" "n_Ones n \<ge> n_Ones pool"
    by (auto simp: peerIPAllowedOnInterface_def list_ex_iff)
  have eq: "mask_ip (n_Ones pool) (n_IP n) = mask_ip (n_Ones pool) (n_IP pool)"
    using Contains_mask [OF pool(3,2)] assms(2) pool(1) by simp
  have "net_members n \<subseteq> net_members pool"
  proof
    fix a assume a: "a \<in> net_members n"
    then have "mask_ip (n_Ones n) a = mask_ip (n_Ones n) (n_IP n)" by (simp add: net_members_def)
    from mask_ip_mono [OF pool(4) this] eq a pool(2) show "a \<in> net_members pool" by (simp add: net_members_def)
  qed
  with pool(1) show ?thesis by blast
qed simp

lemma InterfaceNetworks_mask: "pool \<in> set (InterfaceNetworks c) \<Longrightarrow> n_MaskLen pool = length (n_IP pool)"
  using ParseCIDR_mask by (fastforce simp: InterfaceNetworks_def Let_def split: option.splits if_splits)

text \<open>
  Whatever the panel sends, the peers collected from a list of users that is accepted are safe to
  apply: each has an address, all its addresses lie inside one of the interface's networks (if the
  core has any), its key parses, no two peers have an owner in common and no address prefix is given
  to two of them.
\<close>

lemma collectDesiredPeers_safe:
  assumes "range_order rg" "collectDesiredPeers E c (normalizeUsers rg users) = Inr ds"
    and "ds k = Some d"
  shows "ds_AllowedIPNets d \<noteq> [] \<and> ParseKey E k = Inr (ds_ParsedKey d) \<and>
    (InterfaceNetworks (Some c) = [] \<or>
      (\<forall>n \<in> set (ds_AllowedIPNets d). \<exists>pool \<in> set (InterfaceNetworks (Some c)). net_members n \<subseteq> net_members pool)) \<and>
    (\<forall>k' d'. ds k' = Some d' \<longrightarrow> k' \<noteq> k \<longrightarrow> ds_Email d' \<noteq> ds_Email d \<and>
       IPNet_String ` set (ds_AllowedIPNets d') \<inter> IPNet_String ` set (ds_AllowedIPNets d) = {})"
proof -
  let ?us = "normalizeUsers rg users"
  note dist = distinct_normalizeUsers [OF assms(1), of users]
  from collectDesiredPeers_spec [OF assms(2) dist] obtain seen where col: "collected E c ?us seen ds" ..
  from collectedD(1) [OF col assms(3)] obtain u where u: "u \<in> set ?us" "wanted E c u = Some d" "ds_PublicKey d = k" by blast
  note w = wantedD [OF u(2)]
  have "InterfaceNetworks (Some c) = [] \<or>
      (\<forall>n \<in> set (ds_AllowedIPNets d). \<exists>pool \<in> set (InterfaceNetworks (Some c)). net_members n \<subseteq> net_members pool)"
    using allowed_inside [OF w(5)] InterfaceNetworks_mask by blast
  moreover have "ds_Email d' \<noteq> ds_Email d \<and>
       IPNet_String ` set (ds_AllowedIPNets d') \<inter> IPNet_String ` set (ds_AllowedIPNets d) = {}"
    if d': "ds k' = Some d'" "k' \<noteq> k" for k' d'
  proof -
    have ne: "ds_Email d' \<noteq> ds_Email d" using collected_unique [OF col dist d'(1) assms(3)] d'(2) by blast
    from collectedD(1) [OF col d'(1)] obtain v where v: "v \<in> set ?us" "wanted E c v = Some d'" by blast
    from collectedD(3) [OF col u(1,2)] collectedD(3) [OF col v] ne
    have "IPNet_String n' \<noteq> IPNet_String n" if "n' \<in> set (ds_AllowedIPNets d')" "n \<in> set (ds_AllowedIPNets d)" for n n'
      using that by (metis option.inject)
    with ne show ?thesis by blast
  qed
  ultimately show ?thesis using w(3,4) u(3) by blast
qed

lemma full_error_store: "syncUsersFull E rg now users wg = (Some err, wg') \<Longrightarrow>
    wg_peerStore wg' = wg_peerStore wg \<and> wg_manager wg' = wg_manager wg \<and> wg_state wg' = wg_state wg"
  by (auto simp: syncUsersFull_def Let_def split_beta split: sum.splits if_splits option.splits prod.splits)

lemma partial_error_store: "syncUsersPartialReconcile E rg now users wg = (Some err, wg') \<Longrightarrow>
    wg_peerStore wg' = wg_peerStore wg \<and> wg_manager wg' = wg_manager wg \<and> wg_state wg' = wg_state wg"
  by (auto simp: syncUsersPartialReconcile_def Let_def split_beta
      split: sum.splits if_splits option.splits prod.splits)

text \<open>
  C8: a synchronisation, full or partial, that reports an error has not touched the peer store, the
  configuration's interface or the manager, so the next one starts from what is really applied.
\<close>

theorem sync_error_keeps_store:
  assumes "syncUsersFull E rg now users wg = (Some err, wg') \<or>
           syncUsersPartialReconcile E rg now users wg = (Some err, wg')"
  shows "wg_peerStore wg' = wg_peerStore wg \<and> wg_manager wg' = wg_manager wg \<and> wg_state wg' = wg_state wg"
  using assms full_error_store partial_error_store by blast


section \<open>A concrete kernel\<close>

text \<open>
  A kernel that is the set of its peers' keys, with keys that are their own printed form: the
  environment and the state the examples below run in.
\<close>

definition demo_env :: "(string, string set) wg_env" where
  "demo_env = \<lparr>ParseKey = Inr, KeyString = (\<lambda>k. k), NewClient = None, CloseClient = (\<lambda>d. (None, d)),
     ConfigureDevice = (\<lambda>name cfg d. (None, foldl apply_peer (if dc_ReplacePeers cfg then {} else d) (dc_Peers cfg))),
     DevicePeers = (\<lambda>name d. Inl ''no device''), ParseLinkAddr = Inr, LinkAdd = (\<lambda>name d. (None, {})),
     LinkByName = (\<lambda>name d. LinkFound None), AddrAdd = (\<lambda>name addr d. (None, d)),
     LinkSetUp = (\<lambda>name d. (None, d)), LinkDel = (\<lambda>name d. (None, {}))\<rparr>"

definition demo_user :: user where
  "demo_user = Some \<lparr>u_Email = ''a'', u_Proxies = Some (no_proxies\<lparr>px_Wireguard :=
       Some \<lparr>wgm_PublicKey = ''K'', wgm_PeerIps = [''10.0.0.2/32'']\<rparr>\<rparr>), u_Inbounds = [''wg0'']\<rparr>"

definition demo_config :: "string wg_config" where
  "demo_config = \<lparr>c_InterfaceName = ''wg0'', c_PrivateKey = ''P'', c_PreSharedKey = [], c_ListenPort = 51820,
     c_Address = [''10.0.0.1/24''], c_Latency = None, c_privateKeyValue = None, c_presharedKeyValue = None\<rparr>"

definition demo_wg :: "(string, string set) wireguard" where
  "demo_wg = \<lparr>wg_config = Some demo_config, wg_manager = Some \<lparr>m_client = True, m_iFaceName = ''wg0''\<rparr>,
     wg_statsTracker = newTracker, wg_peerStore = NewPeerStore, wg_interfaceStats = NewInterfaceCountersTracker,
     wg_state = LifecycleRunning, wg_version = [], wg_startTime = 0, wg_lastStatsErrAt = 0, wg_background = True,
     wg_hostRouting = False, wg_logOpen = True, wg_shutdownDone = False, wg_kernel = {}\<rparr>"

lemma demo_laws: "key_law demo_env" "kernel_law demo_env ''wg0'' (\<lambda>d. d)" "canonical_users demo_env us"
    "store_ok (KeyString demo_env) (wg_peerStore demo_wg)" "wg_kernel demo_wg = store_keys demo_wg"
    "wg_manager demo_wg = Some m \<Longrightarrow> m_iFaceName m = ''wg0''"
  by (auto simp: key_law_def kernel_law_def canonical_users_def demo_env_def demo_wg_def store_keys_def
      NewPeerStore_def store_ok_def)

lemma demo_normalize: "normalizeUsers sorted_ranger [demo_user] = [demo_user]"
  by (simp add: normalizeUsers_def lastByEmail_def normalizable_def demo_user_def keys_of_def sorted_ranger_def
      GetPublicKey_def GetPeerIps_def msg_defs)

lemma demo_nets: "ParseCIDR ''10.0.0.2/32'' = Some \<lparr>n_IP = [10, 0, 0, 2], n_Ones = 32, n_MaskLen = 4\<rparr>"
    "InterfaceNetworks (Some demo_config) = [\<lparr>n_IP = [10, 0, 0, 0], n_Ones = 24, n_MaskLen = 4\<rparr>]"
  by code_simp+

definition demo_desired :: "string desired_peer" where
  "demo_desired = \<lparr>ds_Email = ''a'', ds_PublicKey = ''K'', ds_ParsedKey = ''K'',
     ds_AllowedIPNets = [\<lparr>n_IP = [10, 0, 0, 2], n_Ones = 32, n_MaskLen = 4\<rparr>]\<rparr>"

lemma demo_allowed: "peerIPAllowedOnInterface \<lparr>n_IP = [10, 0, 0, 2], n_Ones = 32, n_MaskLen = 4\<rparr>
    [\<lparr>n_IP = [10, 0, 0, 0], n_Ones = 24, n_MaskLen = 4\<rparr>]"
  by code_simp

lemma demo_collect: "collectDesiredPeers demo_env demo_config [demo_user] = Inr [''K'' \<mapsto> demo_desired]"
proof -
  have fields: "GetEmail demo_user = ''a''" "GetPublicKey (GetWireguard (GetProxies demo_user)) = ''K''"
    "GetPeerIps (GetWireguard (GetProxies demo_user)) = [''10.0.0.2/32'']" "ParseKey demo_env s = Inr s"
    "shouldIncludeUserInInterface demo_user (c_InterfaceName demo_config)" for s
    by (simp_all add: demo_user_def GetPublicKey_def GetPeerIps_def msg_defs demo_env_def
        shouldIncludeUserInInterface_def demo_config_def)
  show ?thesis
    by (simp add: collectDesiredPeers_def fields demo_nets demo_allowed demo_desired_def Let_def)
qed

lemma demo_running: "ensureRunningWithManagerLocked (sampleDepartingPeers demo_env t ks (demo_wg\<lparr>wg_config := c\<rparr>)) = None"
  "the_config demo_wg = demo_config" "wg_manager demo_wg = Some \<lparr>m_client = True, m_iFaceName = ''wg0''\<rparr>"
  by (simp_all add: ensureRunningWithManagerLocked_def lifecycleReadinessError_def demo_wg_def the_config_def)

lemma demo_apply: "fst (ApplyPeersReplaceAll demo_env \<lparr>m_client = True, m_iFaceName = ''wg0''\<rparr> cs d) = None"
    "fst (ApplyPeers demo_env \<lparr>m_client = True, m_iFaceName = ''wg0''\<rparr> cs d) = None"
  by (simp_all add: ApplyPeersReplaceAll_def ApplyPeers_def demo_env_def)

lemma demo_full: "fst (syncUsersFull demo_env sorted_ranger 0 [demo_user] demo_wg) = None"
  using demo_apply(1)
  by (simp add: syncUsersFull_def demo_normalize demo_collect demo_running split_beta Let_def split: option.split prod.split)

lemma demo_partial: "fst (syncUsersPartialReconcile demo_env sorted_ranger 0 [demo_user] demo_wg) = None"
proof -
  have oc: "owner_conflict (GetEmailMap (wg_peerStore demo_wg)) ds T ks = None" for ds T ks
    by (induction ks) (simp_all add: GetEmailMap_def demo_wg_def NewPeerStore_def)
  show ?thesis using demo_apply(2)
    by (simp add: syncUsersPartialReconcile_def demo_normalize demo_collect demo_running oc split_beta Let_def
        split: option.split prod.split)
qed

lemma demo_requested: "requested demo_env demo_config [demo_user] ''a'' = Some (target_peer demo_desired)"
proof -
  have "collectDesiredPeers demo_env demo_config (normalizeUsers sorted_ranger [demo_user]) = Inr [''K'' \<mapsto> demo_desired]"
    by (simp add: demo_normalize demo_collect)
  from requested_iff [OF this] show ?thesis by (simp add: demo_desired_def)
qed


theorem syncUsersFull_agrees_witness:
  "\<exists>wg'. syncUsersFull demo_env sorted_ranger 0 [demo_user] demo_wg = (None, wg') \<and>
    rel_option same_peer (GetByEmail ''a'' (wg_peerStore wg')) (Some (target_peer demo_desired)) \<and>
    wg_kernel wg' = store_keys wg'"
proof -
  obtain wg' where wg': "syncUsersFull demo_env sorted_ranger 0 [demo_user] demo_wg = (None, wg')"
    using demo_full by (metis prod.collapse)
  note agrees = syncUsersFull_agrees [OF range_order_sorted demo_laws(1-6) wg']
  then have "rel_option same_peer (GetByEmail ''a'' (wg_peerStore wg')) (requested demo_env demo_config [demo_user] ''a'')"
    by (simp add: demo_running(2))
  then show ?thesis using wg' demo_requested agrees by auto
qed

lemma collectDesiredPeers_safe_witness:
  "ds_AllowedIPNets demo_desired \<noteq> [] \<and> InterfaceNetworks (Some demo_config) \<noteq> [] \<and>
   list_all (\<lambda>n. \<exists>pool \<in> set (InterfaceNetworks (Some demo_config)). net_members n \<subseteq> net_members pool)
     (ds_AllowedIPNets demo_desired)"
proof -
  have "collectDesiredPeers demo_env demo_config (normalizeUsers sorted_ranger [demo_user]) = Inr [''K'' \<mapsto> demo_desired]"
    by (simp add: demo_normalize demo_collect)
  from collectDesiredPeers_safe [OF range_order_sorted this, of "''K''" demo_desired]
  show ?thesis by (simp add: demo_nets list_all_iff)
qed

theorem sync_error_keeps_store_witness:
  "\<exists>err wg'. syncUsersFull demo_env sorted_ranger 0 [demo_user] (demo_wg\<lparr>wg_state := LifecycleStopped\<rparr>) = (Some err, wg') \<and>
     wg_peerStore wg' = NewPeerStore"
proof -
  let ?wg = "demo_wg\<lparr>wg_state := LifecycleStopped\<rparr>" and ?r = "syncUsersFull demo_env sorted_ranger 0 [demo_user] (demo_wg\<lparr>wg_state := LifecycleStopped\<rparr>)"
  have c: "the_config ?wg = demo_config" by (simp add: demo_wg_def the_config_def)
  have "buildExistingPeersByKeySnapshot demo_env sorted_ranger ?wg = Map.empty"
    by (subst snapshot_is_store) (use demo_laws(4) in \<open>simp_all add: demo_wg_def NewPeerStore_def\<close>)
  moreover have "sd_Changed (buildSyncDiff demo_env sorted_ranger psk Map.empty [''K'' \<mapsto> demo_desired])" for psk
  proof -
    have fin: "finite (dom [''K'' \<mapsto> demo_desired])" "\<forall>d \<in> ran [''K'' \<mapsto> demo_desired]. ds_AllowedIPNets d \<noteq> []"
      by (simp_all add: demo_desired_def)
    have "key_ok_map demo_env Map.empty" by (simp add: key_ok_map_def)
    note D = buildSyncDiff_spec [OF range_order_sorted demo_laws(1) this fin, of psk]
    from D(4) D(8) show ?thesis by (auto simp: stale_def)
  qed
  moreover have "ensureRunningWithManagerLocked (sampleDepartingPeers demo_env t ks (?wg\<lparr>wg_config := cc\<rparr>)) = Some ''wireguard not started''" for t ks cc
    by (simp add: ensureRunningWithManagerLocked_def lifecycleReadinessError_def)
  ultimately have "fst ?r = Some ''wireguard not started''"
    by (simp add: syncUsersFull_def demo_normalize demo_collect c split_beta Let_def)
  then obtain wg' where r: "?r = (Some ''wireguard not started'', wg')" by (metis prod.collapse)
  with sync_error_keeps_store [of demo_env sorted_ranger 0 "[demo_user]" ?wg "''wireguard not started''" wg']
  show ?thesis by (auto simp: demo_wg_def)
qed

end
