(* ===== verification/Wireguard_Core.thy ===== *)
theory Wireguard_Core
  imports Wireguard_Agreement
begin

text \<open>
  The life of a WireGuard backend (\<^verbatim>\<open>backend/wireguard/wireguard.go\<close>, \<^verbatim>\<open>user.go\<close>,
  \<^verbatim>\<open>stats.go\<close>, \<^verbatim>\<open>jobs.go\<close>, \<^verbatim>\<open>latency.go\<close>): start, the calls of the panel, the background
  jobs, restart and shutdown. What comes from outside is an argument: the clock, the output of the
  version command, the result of a latency probe, whether host routing was set up. The theorems say
  that a start ends in agreement with the kernel or with nothing, that a restart restores the
  agreement, that the traffic of a departing peer is kept for billing, and what holds in every state
  the backend can reach.
\<close>

section \<open>Start\<close>

definition getWireGuardVersion :: "string option \<Rightarrow> string" where
  "getWireGuardVersion output =
     (case output of
        None \<Rightarrow> ''unknown''
      | Some out \<Rightarrow>
         (let parts = Fields (TrimSpace (hd (Split out [byte 10])))
          in if length parts \<ge> 2 then parts ! 1 else ''unknown''))"

definition fresh_wg :: "string \<Rightarrow> gotime \<Rightarrow> 'k wg_config option \<Rightarrow> 'd \<Rightarrow> ('k, 'd) wireguard" where
  "fresh_wg version now c d =
     \<lparr>wg_config = c, wg_manager = None, wg_statsTracker = newTracker, wg_peerStore = NewPeerStore,
      wg_interfaceStats = NewInterfaceCountersTracker, wg_state = LifecycleStarting, wg_version = version,
      wg_startTime = now, wg_lastStatsErrAt = 0, wg_background = False, wg_hostRouting = False,
      wg_logOpen = True, wg_shutdownDone = False, wg_kernel = d\<rparr>"

text \<open>
  \<open>hr\<close> tells whether \<^verbatim>\<open>applyLinuxHostRouting\<close> returned an undo function. The result is the
  backend or an error, and the kernel in either case.
\<close>

definition newWithManagerFactory :: "('k, 'd) wg_env \<Rightarrow> ranger \<Rightarrow> string option \<Rightarrow> gotime \<Rightarrow> bool \<Rightarrow>
    'k wg_config option \<Rightarrow> user list \<Rightarrow> 'd \<Rightarrow> (string + ('k, 'd) wireguard) \<times> 'd" where
  "newWithManagerFactory E rg versionOut now hr wgConfig users d =
     (case wgConfig of
        None \<Rightarrow> (Inl ''wireguard config string must not be empty or nil'', d)
      | Some c \<Rightarrow>
         (case GetPrivateKey E c of
            (Inl err, c) \<Rightarrow> (Inl (''invalid wireguard private key: '' @ err), d)
          | (Inr privateKey, c) \<Rightarrow>
             (let wg = fresh_wg (getWireGuardVersion versionOut) now (Some c) d;
                  normalizedUsers = normalizeUsers rg users;
                  startupExistingByKey = buildExistingPeersByKeySnapshot E rg wg
              in case collectDesiredPeers E c normalizedUsers of
                   Inl err \<Rightarrow> (Inl (''failed to collect desired peers: '' @ err), d)
                 | Inr startupDesiredPeers \<Rightarrow>
                    (let (psk, c) = psk_of E c;
                         startupDiff = buildSyncDiff E rg psk startupExistingByKey startupDesiredPeers;
                         (startupPeerConfigs, appliedKeys) = buildTargetPeerConfigs rg (sd_TargetPeers startupDiff) psk
                     in case NewManager E (c_InterfaceName c) of
                          Inl err \<Rightarrow> (Inl (''failed to create manager: '' @ err), d)
                        | Inr manager \<Rightarrow>
                           (case InitializeWithPeers E manager privateKey (c_ListenPort c) (c_Address c) startupPeerConfigs d of
                              (Some err, d) \<Rightarrow>
                                (case manager_Close E manager d of (_, _, d) \<Rightarrow>
                                   (Inl (''failed to initialize interface: '' @ err), d))
                            | (None, d) \<Rightarrow>
                               (Inr (wg\<lparr>wg_config := Some c, wg_hostRouting := hr, wg_manager := Some manager,
                                  wg_peerStore := Init (KeyString E)
                                    (map Some (filterUpsertsByAppliedKeys (KeyString E)
                                       (sd_UpsertPeers startupDiff) appliedKeys)) (wg_peerStore wg),
                                  wg_background := True, wg_state := LifecycleRunning, wg_kernel := d\<rparr>), d))))))"

definition Started :: "('k, 'd) wireguard \<Rightarrow> bool" where
  "Started wg \<longleftrightarrow> wg_state wg = LifecycleRunning"


section \<open>Calls of the panel\<close>

definition SyncUser :: "('k, 'd) wg_env \<Rightarrow> ranger \<Rightarrow> gotime \<Rightarrow> user \<Rightarrow> ('k, 'd) wireguard \<Rightarrow> err \<times> ('k, 'd) wireguard" where
  "SyncUser E rg now user wg =
     (if user = None then (Some ''user is nil'', wg) else syncUsersPartialReconcile E rg now [user] wg)"

definition SyncUsers :: "('k, 'd) wg_env \<Rightarrow> ranger \<Rightarrow> gotime \<Rightarrow> user list \<Rightarrow> ('k, 'd) wireguard \<Rightarrow> err \<times> ('k, 'd) wireguard" where
  "SyncUsers E rg now users wg = syncUsersFull E rg now users wg"

definition UpdateUsers :: "('k, 'd) wg_env \<Rightarrow> ranger \<Rightarrow> gotime \<Rightarrow> user list \<Rightarrow> ('k, 'd) wireguard \<Rightarrow> err \<times> ('k, 'd) wireguard" where
  "UpdateUsers E rg now users wg = syncUsersPartialReconcile E rg now users wg"

fun restart_configs :: "'k option \<Rightarrow> 'k peer_info list \<Rightarrow> string + 'k peer_config list" where
  "restart_configs psk [] = Inr []"
| "restart_configs psk (peer # peers) =
     (if pi_AllowedIPs peer = [] then Inl (''peer '' @ pi_Email peer @ '' has no allowed IPs'')
      else case restart_configs psk peers of
        Inl err \<Rightarrow> Inl err
      | Inr configs \<Rightarrow> Inr (buildAddConfig (pi_PublicKey peer) (pi_AllowedIPs peer) psk # configs))"

definition buildPeerConfigsForRestart :: "('k \<Rightarrow> string) \<Rightarrow> 'k peer_info list \<Rightarrow> 'k option \<Rightarrow> string + 'k peer_config list" where
  "buildPeerConfigsForRestart str peers presharedKey =
     restart_configs presharedKey (sort_key (\<lambda>p. str (pi_PublicKey p)) peers)"

definition restartLocked :: "('k, 'd) wg_env \<Rightarrow> ranger \<Rightarrow> ('k, 'd) wireguard \<Rightarrow> err \<times> ('k, 'd) wireguard" where
  "restartLocked E rg wg =
     (case wg_config wg of
        None \<Rightarrow> (Some ''wireguard config not initialized'', wg)
      | Some c \<Rightarrow>
         (case GetPrivateKey E c of
            (Inl err, c) \<Rightarrow> (Some (''failed to get private key: '' @ err), wg\<lparr>wg_config := Some c\<rparr>)
          | (Inr privateKey, c) \<Rightarrow>
             (let allPeers = GetAll (keys_of rg 10 (ps_peers (wg_peerStore wg))) (wg_peerStore wg);
                  (psk, c) = psk_of E c;
                  wg = wg\<lparr>wg_config := Some c\<rparr>
              in case buildPeerConfigsForRestart (KeyString E) allPeers psk of
                   Inl err \<Rightarrow> (Some (''failed to build restart peer configs: '' @ err), wg)
                 | Inr peerConfigs \<Rightarrow>
                    (case ensureRunningWithManagerLocked wg of
                       Some err \<Rightarrow> (Some err, wg)
                     | None \<Rightarrow>
                        (case ApplyConfig E (the (wg_manager wg))
                               \<lparr>dc_PrivateKey = Some privateKey, dc_ListenPort = Some (c_ListenPort c),
                                dc_ReplacePeers = True, dc_Peers = peerConfigs\<rparr> (wg_kernel wg) of
                           (Some err, d) \<Rightarrow>
                             (Some (''failed to reconfigure interface during restart: '' @ err), wg\<lparr>wg_kernel := d\<rparr>)
                         | (None, d) \<Rightarrow> (None, wg\<lparr>wg_kernel := d\<rparr>))))))"

definition Restart :: "('k, 'd) wg_env \<Rightarrow> ranger \<Rightarrow> ('k, 'd) wireguard \<Rightarrow> err \<times> ('k, 'd) wireguard" where
  "Restart E rg wg = restartLocked E rg wg"

definition UpdateUsersAndRestart :: "('k, 'd) wg_env \<Rightarrow> ranger \<Rightarrow> gotime \<Rightarrow> user list \<Rightarrow> ('k, 'd) wireguard \<Rightarrow>
    err \<times> ('k, 'd) wireguard" where
  "UpdateUsersAndRestart E rg now users wg =
     (case syncUsersPartialReconcile E rg now users wg of
        (Some err, wg) \<Rightarrow> (Some err, wg)
      | (None, wg) \<Rightarrow> restartLocked E rg wg)"

definition shutdownLocked :: "('k, 'd) wg_env \<Rightarrow> ('k, 'd) wireguard \<Rightarrow> ('k, 'd) wireguard" where
  "shutdownLocked E wg =
     (let wg = wg\<lparr>wg_background := False, wg_hostRouting := False\<rparr>;
          wg = (case wg_manager wg of
                  None \<Rightarrow> wg
                | Some m \<Rightarrow> (case manager_Close E m (wg_kernel wg) of (_, _, d) \<Rightarrow>
                               wg\<lparr>wg_kernel := d, wg_manager := None\<rparr>))
      in wg\<lparr>wg_state := LifecycleStopped, wg_version := [], wg_logOpen := False\<rparr>)"

definition Shutdown :: "('k, 'd) wg_env \<Rightarrow> ('k, 'd) wireguard \<Rightarrow> ('k, 'd) wireguard" where
  "Shutdown E wg =
     (if wg_shutdownDone wg then wg else (shutdownLocked E wg)\<lparr>wg_shutdownDone := True\<rparr>)"


section \<open>Statistics\<close>

definition getInterfaceCounters :: "('k, 'd) wg_env \<Rightarrow> ('k, 'd) wireguard \<Rightarrow> string + int64 \<times> int64" where
  "getInterfaceCounters E wg =
     (case wg_manager wg of
        None \<Rightarrow> Inl ''wireguard manager not initialized''
      | Some mgr \<Rightarrow> GetInterfaceStats E mgr (wg_kernel wg))"

definition user_keys :: "('k, 'd) wg_env \<Rightarrow> string \<Rightarrow> ('k, 'd) wireguard \<Rightarrow> string list" where
  "user_keys E email wg =
     (case GetByEmail email (wg_peerStore wg) of
        None \<Rightarrow> [] | Some peer \<Rightarrow> [KeyString E (pi_PublicKey peer)])"

definition handleUserStats :: "('k, 'd) wg_env \<Rightarrow> stat_request \<Rightarrow> ('k, 'd) wireguard \<Rightarrow> stat list \<times> ('k, 'd) wireguard" where
  "handleUserStats E request wg =
     (let keys = user_keys E (sr_Name request) wg
      in if keys = [] then ([], wg)
         else case GetStats keys (sr_Reset request) (wg_statsTracker wg) of (stats, st) \<Rightarrow>
                (stats, wg\<lparr>wg_statsTracker := st\<rparr>))"

definition handleUsersStats :: "ranger \<Rightarrow> stat_request \<Rightarrow> ('k, 'd) wireguard \<Rightarrow> stat list \<times> ('k, 'd) wireguard" where
  "handleUsersStats rg request wg =
     (case GetUsersStats (keys_of rg 11 (wg_statsTracker wg)) (sr_Reset request) (wg_statsTracker wg) of
        (stats, st) \<Rightarrow> (stats, wg\<lparr>wg_statsTracker := st\<rparr>))"

definition handleInterfaceOutboundStats :: "('k, 'd) wg_env \<Rightarrow> string \<Rightarrow> bool \<Rightarrow> ('k, 'd) wireguard \<Rightarrow>
    (string + stat list) \<times> ('k, 'd) wireguard" where
  "handleInterfaceOutboundStats E name reset wg =
     (let name = (if name = [] then c_InterfaceName (the_config wg) else name)
      in case getInterfaceCounters E wg of
           Inl err \<Rightarrow> (Inl err, wg)
         | Inr (currentRx, currentTx) \<Rightarrow>
            (case Delta currentRx currentTx reset (wg_interfaceStats wg) of ((deltaRx, deltaTx), t) \<Rightarrow>
               (Inr (BuildInterfaceStats name ''interface'' deltaRx deltaTx), wg\<lparr>wg_interfaceStats := t\<rparr>)))"

definition wg_GetStats :: "('k, 'd) wg_env \<Rightarrow> ranger \<Rightarrow> stat_request \<Rightarrow> ('k, 'd) wireguard \<Rightarrow>
    (string + stat list) \<times> ('k, 'd) wireguard" where
  "wg_GetStats E rg request wg =
     (if wg_state wg \<noteq> LifecycleRunning then (Inl ''wireguard not started'', wg)
      else case sr_Type request of
        UserStat \<Rightarrow> (case handleUserStats E request wg of (stats, wg) \<Rightarrow> (Inr stats, wg))
      | UsersStat \<Rightarrow> (case handleUsersStats rg request wg of (stats, wg) \<Rightarrow> (Inr stats, wg))
      | Outbound \<Rightarrow> handleInterfaceOutboundStats E (sr_Name request) (sr_Reset request) wg
      | Outbounds \<Rightarrow> handleInterfaceOutboundStats E (sr_Name request) (sr_Reset request) wg
      | Inbound \<Rightarrow> (Inl ''inbound stats not applicable for wireguard'', wg)
      | Inbounds \<Rightarrow> (Inl ''inbound stats not applicable for wireguard'', wg))"

definition wg_GetUserOnlineStats :: "('k, 'd) wg_env \<Rightarrow> gotime \<Rightarrow> string \<Rightarrow> ('k, 'd) wireguard \<Rightarrow> string + online_stat" where
  "wg_GetUserOnlineStats E now email wg =
     (if wg_state wg \<noteq> LifecycleRunning then Inl ''wireguard not started''
      else (let keys = user_keys E email wg
            in if keys = [] then Inr \<lparr>os_Name = email, os_Value = 0\<rparr>
               else if AnyActiveSince keys (now - 45000000000) (wg_statsTracker wg)
               then Inr \<lparr>os_Name = email, os_Value = 1\<rparr>
               else Inr \<lparr>os_Name = email, os_Value = 0\<rparr>))"

definition wg_GetUserOnlineIpListStats :: "('k, 'd) wg_env \<Rightarrow> string \<Rightarrow> ('k, 'd) wireguard \<Rightarrow> string + online_ips" where
  "wg_GetUserOnlineIpListStats E email wg =
     (if wg_state wg \<noteq> LifecycleRunning then Inl ''wireguard not started''
      else (let keys = user_keys E email wg
            in if keys = [] then Inr \<lparr>oi_Name = email, oi_Ips = Map.empty\<rparr>
               else Inr \<lparr>oi_Name = email, oi_Ips = Map.empty ++ EndpointActivity keys (wg_statsTracker wg)\<rparr>))"


section \<open>Background jobs\<close>

definition peer_samples :: "('k \<Rightarrow> string) \<Rightarrow> (string \<rightharpoonup> string) \<Rightarrow> 'k device_peer list \<Rightarrow> sample list" where
  "peer_samples str emailByKey peers =
     concat (map (\<lambda>peer.
        if dp_LastHandshakeTime peer = 0 then []
        else let peerKey = str (dp_PublicKey peer)
             in case emailByKey peerKey of
                  None \<Rightarrow> []
                | Some email \<Rightarrow>
                   [\<lparr>sm_PublicKey = peerKey, sm_Email = email, sm_Rx = dp_ReceiveBytes peer,
                     sm_Tx = dp_TransmitBytes peer,
                     sm_EndpointIP = (case dp_Endpoint peer of None \<Rightarrow> [] | Some a \<Rightarrow> IP_String a)\<rparr>]) peers)"

text \<open>Only the time of the last logged error is state here; the log line itself is not.\<close>

definition logStatsDeviceReadError :: "gotime \<Rightarrow> ('k, 'd) wireguard \<Rightarrow> ('k, 'd) wireguard" where
  "logStatsDeviceReadError now wg =
     (if wg_lastStatsErrAt wg \<noteq> 0 \<and> now - wg_lastStatsErrAt wg < 60000000000 then wg
      else wg\<lparr>wg_lastStatsErrAt := now\<rparr>)"

definition updateConnectedPeers :: "('k, 'd) wg_env \<Rightarrow> gotime \<Rightarrow> ('k, 'd) wireguard \<Rightarrow> ('k, 'd) wireguard" where
  "updateConnectedPeers E now wg =
     (if \<not> wg_background wg then wg
      else case (wg_manager wg, wg_config wg) of
        (Some mgr, Some cfg) \<Rightarrow>
          (case GetDevice E mgr (wg_kernel wg) of
             Inl err \<Rightarrow> logStatsDeviceReadError now wg
           | Inr peers \<Rightarrow>
              wg\<lparr>wg_statsTracker := UpdateStatsBatch
                   (peer_samples (KeyString E) (GetEmailMap (wg_peerStore wg)) peers) now (wg_statsTracker wg)\<rparr>)
      | _ \<Rightarrow> wg)"

definition cleanupOfflineUsers :: "('k, 'd) wireguard \<Rightarrow> ('k, 'd) wireguard" where
  "cleanupOfflineUsers wg =
     (if \<not> wg_background wg then wg
      else wg\<lparr>wg_statsTracker := CleanupDeletedEntries (wg_statsTracker wg)\<rparr>)"

text \<open>One turn of the loop: the context ends it, or one of the tickers fires.\<close>

datatype tick = UpdateTick gotime | CleanupTick

definition runStatsUpdateLoop :: "('k, 'd) wg_env \<Rightarrow> tick list \<Rightarrow> ('k, 'd) wireguard \<Rightarrow> ('k, 'd) wireguard" where
  "runStatsUpdateLoop E ticks wg =
     foldl (\<lambda>wg tk. if \<not> wg_background wg then wg
                    else case tk of UpdateTick now \<Rightarrow> updateConnectedPeers E now wg
                                  | CleanupTick \<Rightarrow> cleanupOfflineUsers wg) wg ticks"


section \<open>Latency\<close>

definition latencyProbeInterface :: "string \<Rightarrow> ('k, 'd) wireguard \<Rightarrow> string" where
  "latencyProbeInterface natOutputInterface wg =
     (if TrimSpace natOutputInterface \<noteq> [] then TrimSpace natOutputInterface
      else case wg_config wg of None \<Rightarrow> [] | Some c \<Rightarrow> TrimSpace (c_InterfaceName c))"

text \<open>
  \<open>build\<close> is the error of building the request, \<open>probe\<close> whether the HEAD request succeeded and how
  many milliseconds it took, \<open>unow\<close> the Unix time.
\<close>

definition wg_GetOutboundsLatency :: "string \<Rightarrow> (string \<Rightarrow> err) \<Rightarrow> (string \<Rightarrow> string \<Rightarrow> bool \<times> int64) \<Rightarrow> int64 \<Rightarrow> string \<Rightarrow>
    ('k, 'd) wireguard \<Rightarrow> string + latency list" where
  "wg_GetOutboundsLatency natOutputInterface build probe unow requestName wg =
     (let testURL = (case wg_config wg of
                       None \<Rightarrow> [] | Some c \<Rightarrow> (case c_Latency c of None \<Rightarrow> [] | Some l \<Rightarrow> lc_TestURL l));
          iface = latencyProbeInterface natOutputInterface wg;
          name = (if iface = [] then ''wireguard'' else iface);
          requestName = TrimSpace requestName
      in if wg_state wg \<noteq> LifecycleRunning then Inl ''wireguard not started''
         else if requestName \<noteq> [] \<and> requestName \<noteq> name then Inr []
         else case build testURL of
           Some err \<Rightarrow> Inl err
         | None \<Rightarrow>
            (case probe iface testURL of (alive, delay) \<Rightarrow>
               Inr [\<lparr>lt_Name = name, lt_Alive = alive, lt_Delay = delay, lt_Link = testURL,
                     lt_LastSeenTime = (if alive then unow else 0), lt_LastTryTime = unow,
                     lt_Source = ''wireguard-probe''\<rparr>]))"

section \<open>Restart\<close>

lemma restart_configs_Inr: "restart_configs psk peers = Inr cs \<Longrightarrow>
    removes cs = {} \<and> adds cs = pi_PublicKey ` set peers"
  by (induction peers arbitrary: cs) (auto simp: config_sets split: if_splits sum.splits)

lemma restart_configs_ok: "\<forall>p \<in> set peers. pi_AllowedIPs p \<noteq> [] \<Longrightarrow> \<exists>cs. restart_configs psk peers = Inr cs"
  by (induction peers) auto

lemma set_GetAll:
  assumes "range_order rg" "finite (dom (ps_peers ps))"
  shows "set (GetAll (keys_of rg i (ps_peers ps)) ps) = ran (ps_peers ps)"
  using set_keys_of [OF assms, of i] by (force simp: GetAll_def ran_def image_iff)

lemma ApplyConfig_kernel:
  assumes "kernel_law E (m_iFaceName m) pk" "ApplyConfig E m cfg d = (None, d')"
  shows "pk d' = foldl apply_peer (if dc_ReplacePeers cfg then {} else pk d) (dc_Peers cfg)"
proof -
  from assms(2) have "ConfigureDevice E (m_iFaceName m) cfg d = (None, d')"
    by (auto simp: ApplyConfig_def split: if_splits prod.splits)
  from kernel_lawD [OF assms(1) this] show ?thesis .
qed

lemma restartLocked_None:
  assumes "restartLocked E rg wg = (None, wg')"
  obtains psk privateKey port cs m where
    "restart_configs psk (sort_key (\<lambda>p. KeyString E (pi_PublicKey p))
        (GetAll (keys_of rg 10 (ps_peers (wg_peerStore wg))) (wg_peerStore wg))) = Inr cs"
    and "wg_manager wg = Some m"
    and "ApplyConfig E m \<lparr>dc_PrivateKey = Some privateKey, dc_ListenPort = Some port, dc_ReplacePeers = True,
           dc_Peers = cs\<rparr> (wg_kernel wg) = (None, wg_kernel wg')"
proof -
  from assms obtain c where c: "wg_config wg = Some c" by (auto simp: restartLocked_def split: option.splits)
  from assms c obtain key c1 where key: "GetPrivateKey E c = (Inr key, c1)"
    by (cases "GetPrivateKey E c"; cases "fst (GetPrivateKey E c)") (auto simp: restartLocked_def)
  obtain psk c2 where psk: "psk_of E c1 = (psk, c2)" by (metis prod.exhaust)
  let ?wg = "wg\<lparr>wg_config := Some c2\<rparr>"
  from assms c key psk obtain cs where cs: "buildPeerConfigsForRestart (KeyString E)
      (GetAll (keys_of rg 10 (ps_peers (wg_peerStore wg))) (wg_peerStore wg)) psk = Inr cs"
    by (auto simp: restartLocked_def Let_def split: sum.splits)
  from assms c key psk cs have run: "ensureRunningWithManagerLocked ?wg = None"
    by (auto simp: restartLocked_def Let_def split: option.splits)
  from ensureRunning_None [OF this] obtain m where m: "wg_manager wg = Some m" by auto
  let ?cfg = "\<lparr>dc_PrivateKey = Some key, dc_ListenPort = Some (c_ListenPort c2), dc_ReplacePeers = True, dc_Peers = cs\<rparr>"
  obtain e d' where ap: "ApplyConfig E m ?cfg (wg_kernel wg) = (e, d')" by (metis prod.exhaust)
  from assms c key psk cs run m ap have "e = None \<and> wg_kernel wg' = d'"
    by (cases e) (auto simp: restartLocked_def Let_def)
  with that [of psk cs m] cs m ap show ?thesis by (simp add: buildPeerConfigsForRestart_def)
qed

lemma restartLocked_fields: "restartLocked E rg wg = (e, wg') \<Longrightarrow>
    wg_peerStore wg' = wg_peerStore wg \<and> wg_manager wg' = wg_manager wg \<and> wg_state wg' = wg_state wg \<and>
    wg_background wg' = wg_background wg \<and> wg_hostRouting wg' = wg_hostRouting wg \<and>
    wg_shutdownDone wg' = wg_shutdownDone wg \<and> wg_logOpen wg' = wg_logOpen wg \<and>
    wg_statsTracker wg' = wg_statsTracker wg"
  by (auto simp: restartLocked_def Let_def split_beta split: option.splits sum.splits prod.splits)

text \<open>
  A restart that reports no error leaves the kernel with exactly the peers of the store, whatever
  it had before, and changes nothing else the panel relies on.
\<close>

lemma Restart_reapplies:
  assumes "range_order rg" "kernel_law E name pk" "store_ok (KeyString E) (wg_peerStore wg)"
    and "\<And>m. wg_manager wg = Some m \<Longrightarrow> m_iFaceName m = name"
    and "Restart E rg wg = (None, wg')"
  shows "pk (wg_kernel wg') = store_keys wg \<and> wg_peerStore wg' = wg_peerStore wg \<and>
    wg_statsTracker wg' = wg_statsTracker wg \<and> wg_state wg' = wg_state wg"
proof -
  from assms(5) have r: "restartLocked E rg wg = (None, wg')" by (simp add: Restart_def)
  then obtain psk key port cs m where
    cs: "restart_configs psk (sort_key (\<lambda>p. KeyString E (pi_PublicKey p))
        (GetAll (keys_of rg 10 (ps_peers (wg_peerStore wg))) (wg_peerStore wg))) = Inr cs"
    and m: "wg_manager wg = Some m"
    and ap: "ApplyConfig E m \<lparr>dc_PrivateKey = Some key, dc_ListenPort = Some port, dc_ReplacePeers = True,
           dc_Peers = cs\<rparr> (wg_kernel wg) = (None, wg_kernel wg')"
    by (rule restartLocked_None)
  have "kernel_law E (m_iFaceName m) pk" using assms(2,4) m by simp
  from ApplyConfig_kernel [OF this ap] have "pk (wg_kernel wg') = foldl apply_peer {} cs" by simp
  also have "\<dots> = store_keys wg"
    using restart_configs_Inr [OF cs] set_GetAll [OF assms(1) store_okD(1) [OF assms(3)], of 10]
    by (simp add: apply_adds store_keys_def)
  finally show ?thesis using restartLocked_fields [OF r] by simp
qed

lemma Restart_reapplies_witness:
  "\<exists>wg'. Restart demo_env sorted_ranger demo_wg = (None, wg') \<and> wg_kernel wg' = store_keys demo_wg"
proof -
  have "fst (Restart demo_env sorted_ranger demo_wg) = None"
    by (simp add: Restart_def restartLocked_def demo_wg_def demo_config_def demo_env_def GetPrivateKey_def psk_of_def
        GetPreSharedKey_def buildPeerConfigsForRestart_def GetAll_def keys_of_def sorted_ranger_def NewPeerStore_def
        ensureRunningWithManagerLocked_def lifecycleReadinessError_def ApplyConfig_def)
  then obtain wg' where r: "Restart demo_env sorted_ranger demo_wg = (None, wg')" by (metis prod.collapse)
  from Restart_reapplies [OF range_order_sorted demo_laws(2,4,6) r] r show ?thesis by blast
qed


section \<open>Start\<close>

text \<open>
  What \<^verbatim>\<open>netlink\<close> documents: a link that was just added has no peers, and adding an address or
  bringing the link up does not touch them.
\<close>

definition link_law :: "('k, 'd) wg_env \<Rightarrow> string \<Rightarrow> ('d \<Rightarrow> 'k set) \<Rightarrow> bool" where
  "link_law E name pk \<longleftrightarrow>
     (\<forall>d d'. LinkAdd E name d = (None, d') \<longrightarrow> pk d' = {}) \<and>
     (\<forall>a d e d'. AddrAdd E name a d = (e, d') \<longrightarrow> pk d' = pk d) \<and>
     (\<forall>d e d'. LinkSetUp E name d = (e, d') \<longrightarrow> pk d' = pk d)"

lemma add_addrs_keeps: "link_law E name pk \<Longrightarrow> add_addrs E name as d = (e, d') \<Longrightarrow> pk d' = pk d"
proof (induction as arbitrary: d)
  case (Cons a as)
  obtain e1 d1 where a: "AddrAdd E name a d = (e1, d1)" by (metis prod.exhaust)
  with Cons.prems(1) have "pk d1 = pk d" unfolding link_law_def by blast
  with Cons a show ?case by (cases e1) auto
qed simp

lemma setup_link_None:
  assumes "link_law E (m_iFaceName m) pk" "setup_link E m cfg as d = (None, d')"
  shows "\<exists>d1. ConfigureDevice E (m_iFaceName m) cfg d = (None, d1) \<and> pk d' = pk d1"
proof -
  let ?n = "m_iFaceName m"
  obtain e1 d1 where 1: "ConfigureDevice E ?n cfg d = (e1, d1)" by (metis prod.exhaust)
  obtain e2 d2 where 2: "add_addrs E ?n as d1 = (e2, d2)" by (metis prod.exhaust)
  obtain e3 d3 where 3: "LinkSetUp E ?n d2 = (e3, d3)" by (metis prod.exhaust)
  have e1: "e1 = None" using assms(2) 1
    by (cases e1) (auto simp: setup_link_def wrapPermissionDeniedError_def split: prod.splits)
  obtain st where l: "LinkByName E ?n d1 = LinkFound st"
    using assms(2) 1 e1 by (cases "LinkByName E ?n d1") (auto simp: setup_link_def)
  have e2: "e2 = None" using assms(2) 1 2 e1 l by (cases e2) (auto simp: setup_link_def)
  have "e3 = None \<and> d' = d3" using assms(2) 1 2 3 e1 e2 l
    by (cases e3) (auto simp: setup_link_def wrapPermissionDeniedError_def split: prod.splits)
  moreover have "pk d2 = pk d1" using add_addrs_keeps [OF assms(1) 2] .
  moreover have "pk d3 = pk d2" using assms(1) 3 unfolding link_law_def by blast
  ultimately show ?thesis using 1 e1 by auto
qed

lemma InitializeWithPeers_None:
  assumes "InitializeWithPeers E m key port ips peers d = (None, d')"
  obtains addrs d1 d2 where "LinkAdd E (m_iFaceName m) d1 = (None, d2)"
    and "setup_link E m (buildInitialWGConfig key port peers) addrs d2 = (None, d')"
proof -
  have cl: "m_client m" using assms by (auto simp: InitializeWithPeers_def split: if_splits)
  obtain addrs where a: "parse_addrs E ips = Inr addrs"
    using assms cl by (auto simp: InitializeWithPeers_def split: sum.splits)
  obtain e0 d1 where 0: "cleanupExistingInterface E m d = (e0, d1)" by (metis prod.exhaust)
  have e0: "e0 = None" using assms cl a 0 by (cases e0) (auto simp: InitializeWithPeers_def)
  obtain e1 d2 where 1: "LinkAdd E (m_iFaceName m) d1 = (e1, d2)" by (metis prod.exhaust)
  have e1: "e1 = None" using assms cl a 0 e0 1
    by (cases e1) (auto simp: InitializeWithPeers_def wrapPermissionDeniedError_def split: prod.splits)
  obtain e2 d3 where 2: "setup_link E m (buildInitialWGConfig key port peers) addrs d2 = (e2, d3)" by (metis prod.exhaust)
  have "e2 = None \<and> d3 = d'" using assms cl a 0 e0 1 e1 2 by (cases e2) (auto simp: InitializeWithPeers_def)
  with that 1 e1 2 show ?thesis by simp
qed

lemma InitializeWithPeers_kernel:
  assumes "kernel_law E (m_iFaceName m) pk" "link_law E (m_iFaceName m) pk"
    and "InitializeWithPeers E m key port ips peers d = (None, d')"
  shows "pk d' = foldl apply_peer {} peers"
  using assms(3)
proof (rule InitializeWithPeers_None)
  fix addrs d1 d2
  assume la: "LinkAdd E (m_iFaceName m) d1 = (None, d2)"
    and sl: "setup_link E m (buildInitialWGConfig key port peers) addrs d2 = (None, d')"
  from la assms(2) have "pk d2 = {}" unfolding link_law_def by blast
  moreover from setup_link_None [OF assms(2) sl] obtain d3 where
    d3: "ConfigureDevice E (m_iFaceName m) (buildInitialWGConfig key port peers) d2 = (None, d3)" "pk d' = pk d3"
    by blast
  ultimately show ?thesis using kernel_lawD [OF assms(1) d3(1)] by (cases "peers = []") (simp_all add: buildInitialWGConfig_def Let_def)
qed

text \<open>The key caches of a configuration do not matter for what users ask for.\<close>

definition same_core :: "'k wg_config \<Rightarrow> 'k wg_config \<Rightarrow> bool" where
  "same_core c c' \<longleftrightarrow> c_InterfaceName c = c_InterfaceName c' \<and> c_Address c = c_Address c'"

lemma requested_same_core: "same_core c c' \<Longrightarrow> requested E c users em = requested E c' users em"
proof -
  assume c: "same_core c c'"
  have "wanted E c u = wanted E c' u" for u
    using c by (simp add: wanted_def InterfaceNetworks_def same_core_def)
  then show ?thesis by (auto simp: requested_def split: option.split)
qed

lemma psk_of_core: "psk_of E c = (psk, c') \<Longrightarrow> same_core c c'"
  by (auto simp: psk_of_def GetPreSharedKey_def same_core_def split: option.splits sum.splits if_splits)

lemma GetPrivateKey_core: "GetPrivateKey E c = (r, c') \<Longrightarrow> same_core c c'"
  by (auto simp: GetPrivateKey_def same_core_def split: option.splits sum.splits if_splits)

lemma startup_upserts:
  fixes psk
  assumes "range_order rg" "key_law E" "finite (dom ds)" "\<forall>d \<in> ran ds. ds_AllowedIPNets d \<noteq> []"
    and keys: "\<forall>k d. ds k = Some d \<longrightarrow> KeyString E (ds_ParsedKey d) = k"
    and emails: "\<forall>k k' d d'. ds k = Some d \<longrightarrow> ds k' = Some d' \<longrightarrow> ds_Email d = ds_Email d' \<longrightarrow> k = k'"
    and D: "D = buildSyncDiff E rg psk Map.empty ds"
    and ps': "ps = Init (KeyString E) (map Some (filterUpsertsByAppliedKeys (KeyString E) (sd_UpsertPeers D)
                    (snd (buildTargetPeerConfigs rg (sd_TargetPeers D) psk)))) NewPeerStore"
  shows "ps_peers ps = (\<lambda>k. map_option target_peer (ds k)) \<and> store_ok (KeyString E) ps \<and>
    foldl apply_peer {} (fst (buildTargetPeerConfigs rg (sd_TargetPeers D) psk)) = pi_PublicKey ` ran (ps_peers ps)"
proof -
  let ?tg = "\<lambda>k. map_option target_peer (ds k)" and ?str = "KeyString E"
  have ex: "key_ok_map E Map.empty" by (simp add: key_ok_map_def)
  note spec = buildSyncDiff_spec [OF assms(1,2) ex assms(3,4), of psk, folded D]
  obtain ks where ks: "sd_UpsertPeers D = map (\<lambda>k. the (?tg k)) ks" "distinct ks"
    "set ks = {k. \<exists>t. ?tg k = Some t \<and> stale Map.empty k t}" using spec(4) by blast
  then have dom: "set ks = dom ?tg" by (auto simp: stale_def dom_def)
  have fin: "finite (dom ?tg)" and ips: "\<forall>t \<in> ran ?tg. pi_AllowedIPs t \<noteq> []"
    using assms(3,4) by (auto simp: dom_map_option ran_def target_peer_def)
  note fc = full_configs [OF assms(1) fin ips, of psk]
  have "card (dom ?tg) = length ks" using distinct_card [OF ks(2)] dom by simp
  then have "filterUpsertsByAppliedKeys ?str (sd_UpsertPeers D) (dom ?tg) = map (\<lambda>k. the (?tg k)) ks"
    by (simp add: filterUpsertsByAppliedKeys_def ks(1))
  moreover have "map Some (map (\<lambda>k. the (?tg k)) ks) = map ?tg ks" using dom by auto
  ultimately have ps: "ps = foldl (put_peer ?str) NewPeerStore (map ?tg ks)"
    unfolding ps' Init_def spec(1) fc(1) by (simp only:)
  have laws: "\<forall>k t. ?tg k = Some t \<longrightarrow> ?str (pi_PublicKey t) = k"
    "\<forall>k k' t t'. ?tg k = Some t \<longrightarrow> ?tg k' = Some t' \<longrightarrow> pi_Email t = pi_Email t' \<longrightarrow> k = k'"
    using keys emails by (auto simp: target_peer_def)
  show ?thesis using bulk_of_map [OF dom ks(2) laws] fc(2) unfolding ps by (simp add: spec(1))
qed

lemma fresh_wg_store [simp]: "wg_peerStore (fresh_wg v t c d) = NewPeerStore"
  by (simp add: fresh_wg_def)

lemma newWithManagerFactory_Inr:
  assumes "newWithManagerFactory E rg out now hr (Some c) users d = (Inr wg, d')"
  obtains key c1 c2 psk ds m D where "GetPrivateKey E c = (Inr key, c1)" "psk_of E c1 = (psk, c2)"
    and "collectDesiredPeers E c1 (normalizeUsers rg users) = Inr ds"
    and "D = buildSyncDiff E rg psk (buildExistingPeersByKeySnapshot E rg
           (fresh_wg (getWireGuardVersion out) now (Some c1) d)) ds"
    and "NewManager E (c_InterfaceName c2) = Inr m"
    and "InitializeWithPeers E m key (c_ListenPort c2) (c_Address c2)
           (fst (buildTargetPeerConfigs rg (sd_TargetPeers D) psk)) d = (None, d')"
    and "wg = (fresh_wg (getWireGuardVersion out) now (Some c1) d)\<lparr>wg_config := Some c2, wg_hostRouting := hr,
           wg_manager := Some m, wg_peerStore := Init (KeyString E) (map Some (filterUpsertsByAppliedKeys (KeyString E)
             (sd_UpsertPeers D) (snd (buildTargetPeerConfigs rg (sd_TargetPeers D) psk)))) NewPeerStore,
           wg_background := True, wg_state := LifecycleRunning, wg_kernel := d'\<rparr>"
proof -
  obtain r c1 where 1: "GetPrivateKey E c = (r, c1)" by (metis prod.exhaust)
  obtain key where key: "r = Inr key"
    using assms 1 by (cases r) (auto simp: newWithManagerFactory_def)
  let ?wg = "fresh_wg (getWireGuardVersion out) now (Some c1) d"
  obtain ds where ds: "collectDesiredPeers E c1 (normalizeUsers rg users) = Inr ds"
    using assms 1 key
    by (cases "collectDesiredPeers E c1 (normalizeUsers rg users)") (auto simp: newWithManagerFactory_def Let_def)
  obtain psk c2 where psk: "psk_of E c1 = (psk, c2)" by (metis prod.exhaust)
  define D where "D = buildSyncDiff E rg psk (buildExistingPeersByKeySnapshot E rg ?wg) ds"
  obtain m where m: "NewManager E (c_InterfaceName c2) = Inr m"
    using assms 1 key ds psk
    by (cases "NewManager E (c_InterfaceName c2)") (auto simp: newWithManagerFactory_def Let_def split_beta)
  obtain e d1 where i: "InitializeWithPeers E m key (c_ListenPort c2) (c_Address c2)
      (fst (buildTargetPeerConfigs rg (sd_TargetPeers D) psk)) d = (e, d1)" by (metis prod.exhaust)
  have e: "e = None"
    using assms 1 key ds psk m i
    by (cases e) (auto simp: newWithManagerFactory_def Let_def split_beta D_def [symmetric])
  show thesis
    using assms 1 key ds psk m i e
    by (intro that [OF _ psk ds D_def m])
      (auto simp: newWithManagerFactory_def Let_def split_beta D_def [symmetric])
qed

text \<open>
  Until it is shut down a started backend runs with its manager and its background loop; afterwards
  everything is released.
\<close>

definition control_ok :: "('k, 'd) wireguard \<Rightarrow> bool" where
  "control_ok wg \<longleftrightarrow> (if wg_shutdownDone wg
     then wg_state wg = LifecycleStopped \<and> wg_manager wg = None \<and> \<not> wg_background wg \<and> \<not> wg_hostRouting wg \<and> \<not> wg_logOpen wg
     else wg_state wg = LifecycleRunning \<and> (\<exists>m. wg_manager wg = Some m \<and> m_client m) \<and> wg_background wg \<and> wg_logOpen wg)"

lemma New_detail:
  assumes "range_order rg" "key_law E" "canonical_users E users"
    and "newWithManagerFactory E rg out now hr (Some c) users d = (Inr wg, d')"
  shows "Started wg \<and> control_ok wg \<and>
    (\<forall>em. rel_option same_peer (GetByEmail em (wg_peerStore wg)) (requested E c users em)) \<and>
    store_ok (KeyString E) (wg_peerStore wg) \<and> wg_kernel wg = d' \<and>
    (\<exists>m key port ips cs. wg_manager wg = Some m \<and> m_iFaceName m = c_InterfaceName c \<and>
       InitializeWithPeers E m key port ips cs d = (None, d') \<and> foldl apply_peer {} cs = store_keys wg)"
  using assms(4)
proof (rule newWithManagerFactory_Inr)
  fix key c1 c2 psk ds m D
  assume 1: "GetPrivateKey E c = (Inr key, c1)" "psk_of E c1 = (psk, c2)"
    and ds: "collectDesiredPeers E c1 (normalizeUsers rg users) = Inr ds"
    and D: "D = buildSyncDiff E rg psk (buildExistingPeersByKeySnapshot E rg
           (fresh_wg (getWireGuardVersion out) now (Some c1) d)) ds"
    and m: "NewManager E (c_InterfaceName c2) = Inr m"
    and init: "InitializeWithPeers E m key (c_ListenPort c2) (c_Address c2)
           (fst (buildTargetPeerConfigs rg (sd_TargetPeers D) psk)) d = (None, d')"
    and wg: "wg = (fresh_wg (getWireGuardVersion out) now (Some c1) d)\<lparr>wg_config := Some c2, wg_hostRouting := hr,
           wg_manager := Some m, wg_peerStore := Init (KeyString E) (map Some (filterUpsertsByAppliedKeys (KeyString E)
             (sd_UpsertPeers D) (snd (buildTargetPeerConfigs rg (sd_TargetPeers D) psk)))) NewPeerStore,
           wg_background := True, wg_state := LifecycleRunning, wg_kernel := d'\<rparr>"
  have core: "same_core c c1" "same_core c1 c2" by (rule GetPrivateKey_core [OF 1(1)], rule psk_of_core [OF 1(2)])
  have name: "m_iFaceName m = c_InterfaceName c"
    using m core by (auto simp: NewManager_def same_core_def split: option.splits)
  note facts = collected_facts [OF ds assms(1,3)]
  have "buildExistingPeersByKeySnapshot E rg (fresh_wg (getWireGuardVersion out) now (Some c1) d) = Map.empty"
    by (subst snapshot_is_store) (simp_all add: fresh_wg_def assms(1), simp add: NewPeerStore_def)
  with D have D': "D = buildSyncDiff E rg psk Map.empty ds" by simp
  have laws: "\<forall>k d. ds k = Some d \<longrightarrow> KeyString E (ds_ParsedKey d) = k"
    "\<forall>k k' d d'. ds k = Some d \<longrightarrow> ds k' = Some d' \<longrightarrow> ds_Email d = ds_Email d' \<longrightarrow> k = k'"
    using facts(3,5) by blast+
  have "wg_peerStore wg = Init (KeyString E) (map Some (filterUpsertsByAppliedKeys (KeyString E)
             (sd_UpsertPeers D) (snd (buildTargetPeerConfigs rg (sd_TargetPeers D) psk)))) NewPeerStore"
    by (simp add: wg)
  note su = startup_upserts [OF assms(1,2) facts(1,2) laws D' this]
  have cl: "m_client m" using m by (auto simp: NewManager_def split: option.splits)
  have "foldl apply_peer {} (fst (buildTargetPeerConfigs rg (sd_TargetPeers D) psk)) = store_keys wg"
    using su by (simp add: store_keys_def)
  moreover have "rel_option same_peer (GetByEmail em (wg_peerStore wg)) (requested E c users em)" for em
    using by_email_agrees [OF _ assms(1) ds, of "wg_peerStore wg" em] su requested_same_core [OF core(1), of E users em]
    by (simp add: rel_option_same_refl)
  ultimately show ?thesis using su name init cl
    by (auto simp: wg Started_def control_ok_def fresh_wg_def)
qed

text \<open>
  C7: when a WireGuard core starts, it runs, its store holds for every e-mail exactly what the users of
  the start request ask for, one-to-one, and the kernel has exactly the store's peers.
\<close>

theorem New_agrees:
  assumes "range_order rg" "key_law E" "canonical_users E users"
    and "kernel_law E (c_InterfaceName c) pk" "link_law E (c_InterfaceName c) pk"
    and "newWithManagerFactory E rg out now hr (Some c) users d = (Inr wg, d')"
  shows "Started wg \<and> (\<forall>em. rel_option same_peer (GetByEmail em (wg_peerStore wg)) (requested E c users em)) \<and>
    store_ok (KeyString E) (wg_peerStore wg) \<and> pk d' = store_keys wg \<and> wg_kernel wg = d' \<and>
    (\<exists>m. wg_manager wg = Some m \<and> m_iFaceName m = c_InterfaceName c)"
  using New_detail [OF assms(1-3,6)] InitializeWithPeers_kernel assms(4,5) by metis

lemma demo_new: "\<exists>wg d'. newWithManagerFactory demo_env sorted_ranger None 0 False (Some demo_config) [demo_user] {} = (Inr wg, d')"
proof -
  let ?m = "\<lparr>m_client = True, m_iFaceName = ''wg0''\<rparr>" and ?c = "demo_config\<lparr>c_privateKeyValue := Some ''P''\<rparr>"
  have key: "GetPrivateKey demo_env demo_config = (Inr ''P'', ?c)"
    and psk: "psk_of demo_env ?c = (None, ?c\<lparr>c_presharedKeyValue := Some None\<rparr>)"
    by (simp_all add: demo_config_def demo_env_def GetPrivateKey_def psk_of_def GetPreSharedKey_def)
  have coll: "collectDesiredPeers demo_env ?c [demo_user] = Inr [''K'' \<mapsto> demo_desired]"
  proof -
    have cp: "collect_peers E (c\<lparr>c_privateKeyValue := v\<rparr>) us seen des = collect_peers E c us seen des"
      for E :: "(string, string set) wg_env" and c v us seen des
      by (induction us arbitrary: seen des) (simp_all add: InterfaceNetworks_def Let_def split: sum.split option.split)
    show ?thesis unfolding collectDesiredPeers_def cp by (rule demo_collect [unfolded collectDesiredPeers_def])
  qed
  have fields: "NewClient demo_env = None" "LinkAdd demo_env n d = (None, {})" "LinkByName demo_env n d = LinkFound None"
    "LinkSetUp demo_env n d = (None, d)" "LinkDel demo_env n d = (None, {})" "AddrAdd demo_env n a d = (None, d)"
    "ParseLinkAddr demo_env a = Inr a" "fst (ConfigureDevice demo_env n cfg d) = None"
    "c_InterfaceName demo_config = ''wg0''" for n d a cfg
    by (simp_all add: demo_env_def demo_config_def)
  have addr: "add_addrs demo_env name as d = (None, d)" "parse_addrs demo_env as = Inr as" for name as d
    by (induction as) (simp_all add: fields)
  have "fst (setup_link demo_env ?m cfg as d) = None" for cfg as d
    using fields(8) [of "''wg0''" cfg d]
    by (cases "ConfigureDevice demo_env ''wg0'' cfg d") (simp add: setup_link_def fields addr)
  then have init: "fst (InitializeWithPeers demo_env ?m k p ips peers d) = None" for k p ips peers d
    by (simp add: InitializeWithPeers_def cleanupExistingInterface_def fields addr wrapPermissionDeniedError_def split_beta
        split: option.split prod.split)
  have nm: "NewManager demo_env ''wg0'' = Inr ?m" by (simp add: NewManager_def fields)
  define r where "r = newWithManagerFactory demo_env sorted_ranger None 0 False (Some demo_config) [demo_user] {}"
  define g where "g k p ips peers d = snd (InitializeWithPeers demo_env ?m k p ips peers d)" for k p ips peers d
  have g: "InitializeWithPeers demo_env ?m k p ips peers d = (None, g k p ips peers d)" for k p ips peers d
    using init by (simp add: g_def prod_eq_iff)
  have "\<exists>wg. fst r = Inr wg"
    unfolding r_def newWithManagerFactory_def
    by (simp add: key psk coll demo_normalize nm fields Let_def split_beta g)
  then show ?thesis unfolding r_def by (metis prod.collapse)
qed

lemma demo_link_law: "link_law demo_env n (\<lambda>d. d)"
  by (simp add: link_law_def demo_env_def)

theorem New_agrees_witness:
  "\<exists>wg d'. newWithManagerFactory demo_env sorted_ranger None 0 False (Some demo_config) [demo_user] {} = (Inr wg, d') \<and>
     rel_option same_peer (GetByEmail ''a'' (wg_peerStore wg)) (Some (target_peer demo_desired)) \<and> d' = store_keys wg"
proof -
  obtain wg d' where r: "newWithManagerFactory demo_env sorted_ranger None 0 False (Some demo_config) [demo_user] {} = (Inr wg, d')"
    using demo_new by blast
  have "kernel_law demo_env (c_InterfaceName demo_config) (\<lambda>d. d)" using demo_laws(2) by (simp add: demo_config_def)
  note agrees = New_agrees [OF range_order_sorted demo_laws(1,3) this demo_link_law r]
  then have "rel_option same_peer (GetByEmail ''a'' (wg_peerStore wg)) (requested demo_env demo_config [demo_user] ''a'')"
    by blast
  then show ?thesis using r agrees demo_requested by auto
qed


section \<open>Traffic of departing peers\<close>









text \<open>The example: the user of the examples above leaves the interface with 100 bytes not yet seen.\<close>

definition demo_env2 :: "(string, string set) wg_env" where
  "demo_env2 = demo_env\<lparr>DevicePeers := (\<lambda>n d. Inr [\<lparr>dp_PublicKey = ''K'', dp_LastHandshakeTime = 1,
     dp_Endpoint = None, dp_ReceiveBytes = 100, dp_TransmitBytes = 50\<rparr>])\<rparr>"

definition demo_wg2 :: "(string, string set) wireguard" where
  "demo_wg2 = demo_wg\<lparr>wg_peerStore := \<lparr>ps_peers = [''K'' \<mapsto> target_peer demo_desired], ps_emailToKey = [''a'' \<mapsto> ''K'']\<rparr>\<rparr>"


lemma demo2_laws: "key_law demo_env2" "canonical_users demo_env2 us" "store_ok (KeyString demo_env2) (wg_peerStore demo_wg2)"
  by (auto simp: key_law_def canonical_users_def store_ok_def demo_env2_def demo_env_def demo_wg2_def demo_desired_def
      target_peer_def)






section \<open>Every state the backend reaches\<close>

text \<open>
  A backend starts with \<open>newWithManagerFactory\<close>; after that calls of the panel, turns of the
  background loop, reports and a shutdown happen in any order, each with the outcome the kernel gives
  it.
\<close>

inductive wg_reach :: "('k, 'd) wg_env \<Rightarrow> ('k, 'd) wireguard \<Rightarrow> bool" for E where
  start: "range_order rg \<Longrightarrow> canonical_users E users \<Longrightarrow>
    newWithManagerFactory E rg out now hr (Some c) users d = (Inr wg, d') \<Longrightarrow> wg_reach E wg"
| sync_user: "wg_reach E wg \<Longrightarrow> range_order rg \<Longrightarrow> canonical_users E [u] \<Longrightarrow> SyncUser E rg now u wg = (e, wg') \<Longrightarrow> wg_reach E wg'"
| sync_users: "wg_reach E wg \<Longrightarrow> range_order rg \<Longrightarrow> canonical_users E us \<Longrightarrow> SyncUsers E rg now us wg = (e, wg') \<Longrightarrow> wg_reach E wg'"
| update_users: "wg_reach E wg \<Longrightarrow> range_order rg \<Longrightarrow> canonical_users E us \<Longrightarrow> UpdateUsers E rg now us wg = (e, wg') \<Longrightarrow> wg_reach E wg'"
| update_restart: "wg_reach E wg \<Longrightarrow> range_order rg \<Longrightarrow> canonical_users E us \<Longrightarrow>
    UpdateUsersAndRestart E rg now us wg = (e, wg') \<Longrightarrow> wg_reach E wg'"
| restart: "wg_reach E wg \<Longrightarrow> range_order rg \<Longrightarrow> Restart E rg wg = (e, wg') \<Longrightarrow> wg_reach E wg'"
| stats: "wg_reach E wg \<Longrightarrow> wg_GetStats E rg req wg = (r, wg') \<Longrightarrow> wg_reach E wg'"
| loop: "wg_reach E wg \<Longrightarrow> wg_reach E (runStatsUpdateLoop E ticks wg)"
| shutdown: "wg_reach E wg \<Longrightarrow> wg_reach E (Shutdown E wg)"

text \<open>The part of the state that only start and shutdown change.\<close>

definition control :: "('k, 'd) wireguard \<Rightarrow> wg_manager option \<times> lifecycle \<times> bool \<times> bool \<times> bool \<times> bool" where
  "control wg = (wg_manager wg, wg_state wg, wg_background wg, wg_hostRouting wg, wg_logOpen wg, wg_shutdownDone wg)"

definition wg_ok :: "('k, 'd) wg_env \<Rightarrow> ('k, 'd) wireguard \<Rightarrow> bool" where
  "wg_ok E wg \<longleftrightarrow> store_ok (KeyString E) (wg_peerStore wg) \<and> control_ok wg \<and>
     (\<forall>p \<in> ran (ps_peers (wg_peerStore wg)). pi_AllowedIPs p \<noteq> [])"

lemma wg_ok_cong: "control wg' = control wg \<Longrightarrow> wg_peerStore wg' = wg_peerStore wg \<Longrightarrow> wg_ok E wg \<Longrightarrow> wg_ok E wg'"
  by (simp add: wg_ok_def control_ok_def control_def)

lemma sampleDeparting_control [simp]: "control (sampleDepartingPeers E now ks wg) = control wg"
  by (simp add: sampleDepartingPeers_def control_def split: option.split sum.split)

lemma control_update [simp]: "control (wg\<lparr>wg_config := c\<rparr>) = control wg" "control (wg\<lparr>wg_kernel := d\<rparr>) = control wg"
    "control (wg\<lparr>wg_peerStore := ps\<rparr>) = control wg" "control (wg\<lparr>wg_statsTracker := st\<rparr>) = control wg"
    "control (wg\<lparr>wg_peerStore := ps, wg_statsTracker := st\<rparr>) = control wg"
    "control (wg\<lparr>wg_interfaceStats := i\<rparr>) = control wg" "control (wg\<lparr>wg_lastStatsErrAt := t\<rparr>) = control wg"
  by (simp_all add: control_def)

lemma syncUsersFull_control: "control (snd (syncUsersFull E rg now us wg)) = control wg"
  by (simp add: syncUsersFull_def Let_def split_beta split: sum.split option.split prod.split)

lemma syncUsersPartial_control: "control (snd (syncUsersPartialReconcile E rg now us wg)) = control wg"
  by (simp add: syncUsersPartialReconcile_def Let_def split_beta split: sum.split option.split prod.split)

lemma requested_nets: "requested E c users em = Some t \<Longrightarrow> pi_AllowedIPs t \<noteq> []"
  using wantedD(4) by (fastforce simp: requested_def target_peer_def split: option.splits)

lemma same_peer_nets: "same_peer p t \<Longrightarrow> pi_AllowedIPs t \<noteq> [] \<Longrightarrow> pi_AllowedIPs p \<noteq> []"
  by (auto simp: same_peer_def ipnetsEqual_def)

lemma stored_nets:
  assumes ok: "store_ok (KeyString E) ps"
    and em: "\<And>em p. GetByEmail em ps = Some p \<Longrightarrow> pi_AllowedIPs p \<noteq> []"
  shows "\<forall>p \<in> ran (ps_peers ps). pi_AllowedIPs p \<noteq> []"
proof
  fix p assume "p \<in> ran (ps_peers ps)"
  then obtain k where k: "ps_peers ps k = Some p" by (auto simp: ran_def)
  with store_okD(2) [OF ok k] have "GetByEmail (pi_Email p) ps = Some p" by (simp add: GetByEmail_iff [OF ok] pkey_def)
  then show "pi_AllowedIPs p \<noteq> []" by (rule em)
qed

lemma rel_requested_nets: "rel_option same_peer (Some p) (requested E c users em) \<Longrightarrow> pi_AllowedIPs p \<noteq> []"
  using requested_nets same_peer_nets by (cases "requested E c users em") fastforce+

lemma full_ok:
  assumes "key_law E" "range_order rg" "canonical_users E us" "wg_ok E wg" "syncUsersFull E rg now us wg = (e, wg')"
  shows "wg_ok E wg'"
proof (cases e)
  case None
  have ok: "store_ok (KeyString E) (wg_peerStore wg)" using assms(4) by (simp add: wg_ok_def)
  note st = syncUsersFull_store [OF assms(2,1,3) ok, of now wg']
  have c: "control wg' = control wg" using syncUsersFull_control [of E rg now us wg] assms(5) by simp
  have "control_ok wg'" using c assms(4) by (simp add: wg_ok_def control_ok_def control_def)
  moreover have ok': "store_ok (KeyString E) (wg_peerStore wg')" using st assms(5) None by blast
  moreover have "\<forall>p \<in> ran (ps_peers (wg_peerStore wg')). pi_AllowedIPs p \<noteq> []"
    using stored_nets [OF ok'] st assms(5) None rel_requested_nets by metis
  ultimately show ?thesis by (simp add: wg_ok_def)
next
  case (Some err)
  with assms(5) full_error_store have "wg_peerStore wg' = wg_peerStore wg" by blast
  then show ?thesis using wg_ok_cong [OF _ _ assms(4), of wg'] syncUsersFull_control [of E rg now us wg] assms(5) by simp
qed

lemma partial_ok:
  fixes E :: "('k, 'd) wg_env"
  assumes "key_law E" "range_order rg" "canonical_users E us" "wg_ok E wg" "syncUsersPartialReconcile E rg now us wg = (e, wg')"
  shows "wg_ok E wg'"
proof (cases e)
  case None
  have ok: "store_ok (KeyString E) (wg_peerStore wg)" using assms(4) by (simp add: wg_ok_def)
  obtain D :: "'k sync_diff" where em: "\<forall>em. if em \<in> dom (lastByEmail us)
          then rel_option same_peer (GetByEmail em (wg_peerStore wg')) (requested E (the_config wg) us em)
          else GetByEmail em (wg_peerStore wg') = GetByEmail em (wg_peerStore wg)"
    and ok': "store_ok (KeyString E) (wg_peerStore wg')"
    by (rule syncUsersPartial_detail [OF assms(2,1,3) ok, of now wg']) (use assms(5) None in auto)
  have c: "control wg' = control wg" using syncUsersPartial_control [of E rg now us wg] assms(5) by simp
  have "control_ok wg'" using c assms(4) by (simp add: wg_ok_def control_ok_def control_def)
  moreover have "pi_AllowedIPs p \<noteq> []" if p: "GetByEmail x (wg_peerStore wg') = Some p" for x p
  proof (cases "x \<in> dom (lastByEmail us)")
    case True
    with em p have "rel_option same_peer (Some p) (requested E (the_config wg) us x)" by metis
    then show ?thesis by (rule rel_requested_nets)
  next
    case False
    with em p have "GetByEmail x (wg_peerStore wg) = Some p" by metis
    then have "p \<in> ran (ps_peers (wg_peerStore wg))" by (auto simp: GetByEmail_iff [OF ok] ran_def)
    with assms(4) show ?thesis by (simp add: wg_ok_def)
  qed
  ultimately show ?thesis using ok' stored_nets [OF ok'] by (simp add: wg_ok_def)
next
  case (Some err)
  with assms(5) partial_error_store have "wg_peerStore wg' = wg_peerStore wg" by blast
  then show ?thesis using wg_ok_cong [OF _ _ assms(4), of wg'] syncUsersPartial_control [of E rg now us wg] assms(5) by simp
qed

lemma restart_ok: "wg_ok E wg \<Longrightarrow> restartLocked E rg wg = (e, wg') \<Longrightarrow> wg_ok E wg'"
  using restartLocked_fields [of E rg wg e wg'] wg_ok_cong [of wg' wg E] by (simp add: control_def)

lemma stats_ok: "wg_ok E wg \<Longrightarrow> wg_GetStats E rg req wg = (r, wg') \<Longrightarrow> wg_ok E wg'"
  by (rule wg_ok_cong [of wg' wg])
    (auto simp: wg_GetStats_def handleUserStats_def handleUsersStats_def handleInterfaceOutboundStats_def Let_def
      split: if_splits stat_type.splits sum.splits prod.splits)

lemma loop_ok: "wg_ok E wg \<Longrightarrow> wg_ok E (runStatsUpdateLoop E ticks wg)"
proof (induction ticks arbitrary: wg)
  case (Cons tk ticks)
  have "wg_ok E (case tk of UpdateTick now \<Rightarrow> updateConnectedPeers E now wg | CleanupTick \<Rightarrow> cleanupOfflineUsers wg)"
    by (rule wg_ok_cong [OF _ _ Cons.prems])
      (auto simp: updateConnectedPeers_def cleanupOfflineUsers_def logStatsDeviceReadError_def
        split: tick.split option.split sum.split)
  with Cons show ?case by (simp add: runStatsUpdateLoop_def split: tick.splits)
qed (simp add: runStatsUpdateLoop_def)

lemma shutdown_ok: "wg_ok E wg \<Longrightarrow> wg_ok E (Shutdown E wg)"
  by (auto simp: wg_ok_def control_ok_def Shutdown_def shutdownLocked_def Let_def split: option.split prod.split)

lemma start_ok:
  assumes "key_law E" "range_order rg" "canonical_users E users"
    and "newWithManagerFactory E rg out now hr (Some c) users d = (Inr wg, d')"
  shows "wg_ok E wg"
proof -
  note n = New_detail [OF assms(2,1,3,4)]
  then have ok: "store_ok (KeyString E) (wg_peerStore wg)" by blast
  have "\<forall>p \<in> ran (ps_peers (wg_peerStore wg)). pi_AllowedIPs p \<noteq> []"
    using stored_nets [OF ok] n rel_requested_nets by metis
  with n show ?thesis by (simp add: wg_ok_def)
qed

text \<open>
  C6: in every state a WireGuard backend can reach, through any sequence of calls, reports, loop turns,
  restarts and a shutdown with any outcome: the peer store is one-to-one between e-mails and keys,
  every stored peer has an address (so a restart can never fail over a peer without one), and the
  backend either runs with an open manager, its loop and its log, or has been shut down and holds
  nothing any more.
\<close>

theorem wg_reachable_ok:
  assumes "key_law E" "wg_reach E wg"
  shows "store_ok (KeyString E) (wg_peerStore wg) \<and> control_ok wg \<and>
    (\<forall>p \<in> ran (ps_peers (wg_peerStore wg)). pi_AllowedIPs p \<noteq> [])"
proof -
  have "wg_ok E wg" using assms(2)
  proof induction
    case (start rg users out now hr c d wg d')
    then show ?case by (blast intro: start_ok [OF assms(1)])
  next
    case (sync_user wg rg u now e wg')
    then show ?case using partial_ok [OF assms(1)] by (auto simp: SyncUser_def split: if_splits)
  next
    case (sync_users wg rg us now e wg')
    then show ?case using full_ok [OF assms(1)] by (simp add: SyncUsers_def)
  next
    case (update_users wg rg us now e wg')
    then show ?case using partial_ok [OF assms(1)] by (simp add: UpdateUsers_def)
  next
    case (update_restart wg rg us now e wg')
    obtain e1 wg1 where p: "syncUsersPartialReconcile E rg now us wg = (e1, wg1)" by (metis prod.exhaust)
    from partial_ok [OF assms(1) update_restart(2,3) _ p] update_restart have "wg_ok E wg1" by blast
    with update_restart p restart_ok show ?case by (cases e1) (auto simp: UpdateUsersAndRestart_def)
  next
    case (restart wg rg e wg')
    then show ?case using restart_ok by (auto simp: Restart_def)
  next
    case (stats wg rg req r wg')
    then show ?case using stats_ok by blast
  next
    case (loop wg ticks)
    then show ?case using loop_ok by blast
  next
    case (shutdown wg)
    then show ?case using shutdown_ok by blast
  qed
  then show ?thesis by (simp add: wg_ok_def)
qed

theorem wg_reachable_ok_witness:
  "\<exists>wg. wg_reach demo_env wg \<and> control_ok (Shutdown demo_env wg) \<and> store_ok (KeyString demo_env) (wg_peerStore wg)"
proof -
  obtain wg d' where "newWithManagerFactory demo_env sorted_ranger None 0 False (Some demo_config) [demo_user] {} = (Inr wg, d')"
    using demo_new by blast
  from wg_reach.start [OF range_order_sorted demo_laws(3) this] have r: "wg_reach demo_env wg" .
  from wg_reachable_ok [OF demo_laws(1) r] wg_reachable_ok [OF demo_laws(1) wg_reach.shutdown [OF r]] r
  show ?thesis by blast
qed


section \<open>Two gaps of the duplicate checks\<close>

definition demo_peer_user :: "string \<Rightarrow> string \<Rightarrow> user" where
  "demo_peer_user email key = Some \<lparr>u_Email = email, u_Proxies = Some (no_proxies\<lparr>px_Wireguard :=
       Some \<lparr>wgm_PublicKey = key, wgm_PeerIps = [''10.0.0.2/32'']\<rparr>\<rparr>), u_Inbounds = [''wg0'']\<rparr>"

lemma demo_peer_user_fields:
  "GetEmail (demo_peer_user em key) = em" "GetPublicKey (GetWireguard (GetProxies (demo_peer_user em key))) = key"
  "GetPeerIps (GetWireguard (GetProxies (demo_peer_user em key))) = [''10.0.0.2/32'']"
  "shouldIncludeUserInInterface (demo_peer_user em key) (c_InterfaceName demo_config)"
  "em \<noteq> [] \<Longrightarrow> key \<noteq> [] \<Longrightarrow> normalizable (demo_peer_user em key)"
  by (simp_all add: demo_peer_user_def GetPublicKey_def GetPeerIps_def msg_defs shouldIncludeUserInInterface_def
      demo_config_def normalizable_def)

lemma demo_b_wanted: "wanted demo_env2 demo_config (demo_peer_user ''b'' ''K2'') =
    Some (demo_desired\<lparr>ds_Email := ''b'', ds_PublicKey := ''K2'', ds_ParsedKey := ''K2''\<rparr>)"
proof -
  have pk: "ParseKey demo_env2 s = Inr s" for s by (simp add: demo_env2_def demo_env_def)
  show ?thesis by (simp add: wanted_def demo_peer_user_fields demo_nets demo_allowed demo_desired_def pk Let_def)
qed

lemma demo_b_partial: "fst (syncUsersPartialReconcile demo_env2 sorted_ranger 0 [demo_peer_user ''b'' ''K2''] demo_wg2) = None"
proof -
  let ?b = "demo_peer_user ''b'' ''K2''" and ?m = "\<lparr>m_client = True, m_iFaceName = ''wg0''\<rparr>"
  let ?ds = "[''K2'' \<mapsto> demo_desired\<lparr>ds_Email := ''b'', ds_PublicKey := ''K2'', ds_ParsedKey := ''K2''\<rparr>]"
  have n: "normalizeUsers sorted_ranger [?b] = [?b]"
    by (simp add: normalizeUsers_def lastByEmail_def demo_peer_user_fields keys_of_def sorted_ranger_def)
  have pk: "ParseKey demo_env2 s = Inr s" for s by (simp add: demo_env2_def demo_env_def)
  have c: "collectDesiredPeers demo_env2 demo_config [?b] = Inr ?ds"
    by (simp add: collectDesiredPeers_def demo_peer_user_fields demo_nets demo_allowed demo_desired_def pk Let_def)
  have oc: "owner_conflict (GetEmailMap (wg_peerStore demo_wg2)) ?ds T (keys_of sorted_ranger 9 ?ds) = None" for T
    by (simp add: keys_of_def sorted_ranger_def demo_wg2_def GetEmailMap_def)
  have run: "ensureRunningWithManagerLocked (sampleDepartingPeers demo_env2 t ks (demo_wg2\<lparr>wg_config := cc\<rparr>)) = None" for t ks cc
    by (simp add: ensureRunningWithManagerLocked_def lifecycleReadinessError_def demo_wg2_def demo_wg_def)
  have m: "wg_manager demo_wg2 = Some ?m" "the_config demo_wg2 = demo_config" by (simp_all add: demo_wg2_def demo_wg_def the_config_def)
  have ap: "fst (ApplyPeers demo_env2 ?m cs d) = None" for cs d
    by (simp add: ApplyPeers_def demo_env2_def demo_env_def)
  show ?thesis using ap
    by (simp add: syncUsersPartialReconcile_def n c oc run m split_beta Let_def split: option.split prod.split)
qed

text \<open>
  The check for an address assigned twice looks only at the users of one request. A partial
  synchronisation accepts a user whose address already belongs to a user the request does not name,
  and afterwards both have it: here \<open>a\<close> keeps 10.0.0.2/32 and \<open>b\<close> gets it too.
\<close>

lemma partial_sync_shares_address:
  "\<exists>wg' p q. syncUsersPartialReconcile demo_env2 sorted_ranger 0 [demo_peer_user ''b'' ''K2''] demo_wg2 = (None, wg') \<and>
     GetByEmail ''a'' (wg_peerStore wg') = Some p \<and> GetByEmail ''b'' (wg_peerStore wg') = Some q \<and>
     pi_PublicKey p \<noteq> pi_PublicKey q \<and>
     map IPNet_String (pi_AllowedIPs p) = map IPNet_String (pi_AllowedIPs q) \<and> pi_AllowedIPs p \<noteq> []"
proof -
  let ?b = "demo_peer_user ''b'' ''K2''"
  obtain wg' where r: "syncUsersPartialReconcile demo_env2 sorted_ranger 0 [?b] demo_wg2 = (None, wg')"
    using demo_b_partial by (metis prod.collapse)
  have last: "lastByEmail [?b] = [''b'' \<mapsto> ?b]" by (simp add: lastByEmail_def demo_peer_user_fields)
  have all: "\<forall>em. if em \<in> dom (lastByEmail [?b])
        then rel_option same_peer (GetByEmail em (wg_peerStore wg')) (requested demo_env2 (the_config demo_wg2) [?b] em)
        else GetByEmail em (wg_peerStore wg') = GetByEmail em (wg_peerStore demo_wg2)"
    by (rule syncUsersPartial_detail [OF range_order_sorted demo2_laws r]) blast
  from all have "GetByEmail ''a'' (wg_peerStore wg') = GetByEmail ''a'' (wg_peerStore demo_wg2)"
    by (simp add: last split: if_splits)
  then have a: "GetByEmail ''a'' (wg_peerStore wg') = Some (target_peer demo_desired)"
    by (simp add: demo_wg2_def GetByEmail_def)
  have cfg: "the_config demo_wg2 = demo_config" by (simp add: demo_wg2_def demo_wg_def the_config_def)
  from all have "rel_option same_peer (GetByEmail ''b'' (wg_peerStore wg')) (requested demo_env2 demo_config [?b] ''b'')"
    by (simp add: last cfg split: if_splits)
  then obtain q where q: "GetByEmail ''b'' (wg_peerStore wg') = Some q"
    "same_peer q (target_peer (demo_desired\<lparr>ds_Email := ''b'', ds_PublicKey := ''K2'', ds_ParsedKey := ''K2''\<rparr>))"
    by (cases "GetByEmail ''b'' (wg_peerStore wg')") (auto simp: requested_def last demo_b_wanted)
  from r a q show ?thesis by (auto simp: same_peer_def target_peer_def demo_desired_def ipnetsEqual_def)
qed

text \<open>
  An environment whose key parser accepts two spellings of a key, as a base64 decoder that skips line
  breaks does.
\<close>

definition demo_env3 :: "(string, string set) wg_env" where
  "demo_env3 = demo_env\<lparr>ParseKey := (\<lambda>s. Inr (filter (\<lambda>c. c \<noteq> byte 10) s))\<rparr>"

definition demo_config3 :: "string wg_config" where
  "demo_config3 = demo_config\<lparr>c_Address := []\<rparr>"

definition demo_key_user :: "string \<Rightarrow> string \<Rightarrow> string \<Rightarrow> user" where
  "demo_key_user email key ip = Some \<lparr>u_Email = email, u_Proxies = Some (no_proxies\<lparr>px_Wireguard :=
       Some \<lparr>wgm_PublicKey = key, wgm_PeerIps = [ip]\<rparr>\<rparr>), u_Inbounds = [''wg0'']\<rparr>"

text \<open>
  The check for a key assigned twice compares the text the panel sent, not the parsed key. Two
  users with the same key in two spellings that parse alike are accepted: here a trailing line break
  is the only difference, and two peers with one key are collected for two owners.
\<close>

lemma duplicate_key_accepted:
  "\<exists>ds d d'. collectDesiredPeers demo_env3 demo_config3
       [demo_key_user ''a'' ''K'' ''10.0.0.2/32'', demo_key_user ''b'' (''K'' @ [byte 10]) ''10.0.0.3/32''] = Inr ds \<and>
     ds ''K'' = Some d \<and> ds (''K'' @ [byte 10]) = Some d' \<and>
     ds_ParsedKey d = ds_ParsedKey d' \<and> ds_Email d \<noteq> ds_Email d'"
proof -
  let ?n2 = "\<lparr>n_IP = [10, 0, 0, 2], n_Ones = 32, n_MaskLen = 4\<rparr>" and ?n3 = "\<lparr>n_IP = [10, 0, 0, 3], n_Ones = 32, n_MaskLen = 4\<rparr>"
  have ip: "ParseCIDR ''10.0.0.3/32'' = Some ?n3" "IPNet_String ?n2 = ''10.0.0.2/32''" "IPNet_String ?n3 = ''10.0.0.3/32''"
    by code_simp+
  have nl: "byte 10 \<noteq> CHR ''K''" by code_simp
  have f: "GetEmail (demo_key_user em key i) = em" "GetPublicKey (GetWireguard (GetProxies (demo_key_user em key i))) = key"
    "GetPeerIps (GetWireguard (GetProxies (demo_key_user em key i))) = [i]"
    "shouldIncludeUserInInterface (demo_key_user em key i) (c_InterfaceName demo_config3)" for em key i
    by (simp_all add: demo_key_user_def GetPublicKey_def GetPeerIps_def msg_defs shouldIncludeUserInInterface_def
        demo_config3_def demo_config_def)
  have nets: "InterfaceNetworks (Some demo_config3) = []" "peerIPAllowedOnInterface n []" for n
    by (simp_all add: InterfaceNetworks_def demo_config3_def peerIPAllowedOnInterface_def)
  have pk: "ParseKey demo_env3 s = Inr (filter (\<lambda>c. c \<noteq> byte 10) s)" for s by (simp add: demo_env3_def)
  show ?thesis
    using nl by (simp add: collectDesiredPeers_def f nets pk demo_nets(1) ip Let_def)
qed

end
