(* ===== verification/Wireguard_Addresses.thy ===== *)
theory Wireguard_Addresses
  imports Wireguard_Core
begin

text \<open>
  Which addresses the kernel routes to which peer. A WireGuard device keeps one table of allowed
  addresses: a prefix belongs to at most one peer, giving it to a peer takes it from the others, and
  \<^verbatim>\<open>ReplaceAllowedIPs\<close> first empties the peer's own list. Under that reading of
  \<^verbatim>\<open>wgctrl\<close> the theorem says what a partial synchronisation
  (\<^verbatim>\<open>user_partial_sync.go\<close>) leaves in the kernel for every peer.
\<close>

section \<open>The device's table of addresses\<close>

text \<open>
  A device maps the key of each peer to the prefixes it accepts from that peer, each spelled as
  \<^verbatim>\<open>net.IPNet\<close> prints it.
\<close>

type_synonym 'k allowed = "'k \<rightharpoonup> string set"

definition config_nets :: "'k peer_config \<Rightarrow> string set" where
  "config_nets c = IPNet_String ` set (pc_AllowedIPs c)"

definition peer_addrs :: "'k peer_info \<Rightarrow> string set" where
  "peer_addrs p = IPNet_String ` set (pi_AllowedIPs p)"

definition apply_allowed :: "'k allowed \<Rightarrow> 'k peer_config \<Rightarrow> 'k allowed" where
  "apply_allowed v c =
     (if pc_Remove c then v(pc_PublicKey c := None)
      else (\<lambda>k. if k = pc_PublicKey c
                then Some ((if pc_ReplaceAllowedIPs c then {}
                            else case v k of None \<Rightarrow> {} | Some S \<Rightarrow> S) \<union> config_nets c)
                else map_option (\<lambda>S. S - config_nets c) (v k)))"

text \<open>
  What \<^verbatim>\<open>wgctrl\<close> documents about a successful configuration call, with \<open>view\<close> reading the table
  off a kernel state.
\<close>

definition device_law :: "('k, 'd) wg_env \<Rightarrow> string \<Rightarrow> ('d \<Rightarrow> 'k allowed) \<Rightarrow> bool" where
  "device_law E name view \<longleftrightarrow> (\<forall>cfg d d'. ConfigureDevice E name cfg d = (None, d') \<longrightarrow>
     view d' = foldl apply_allowed (if dc_ReplacePeers cfg then Map.empty else view d) (dc_Peers cfg))"

text \<open>The law on keys alone that the other theorems use follows from it.\<close>

lemma dom_apply_allowed: "dom (apply_allowed v c) = apply_peer (dom v) c"
  by (auto simp: apply_allowed_def apply_peer_def split: if_splits)

lemma dom_apply_alloweds: "dom (foldl apply_allowed v cs) = foldl apply_peer (dom v) cs"
  by (induction cs arbitrary: v) (simp_all add: dom_apply_allowed)

lemma device_kernel_law: "device_law E name view \<Longrightarrow> kernel_law E name (\<lambda>d. dom (view d))"
  unfolding device_law_def kernel_law_def by (simp add: dom_apply_alloweds)

lemma device_lawD: "device_law E name view \<Longrightarrow> ConfigureDevice E name cfg d = (None, d') \<Longrightarrow>
    view d' = foldl apply_allowed (if dc_ReplacePeers cfg then Map.empty else view d) (dc_Peers cfg)"
  by (simp only: device_law_def)

lemma ApplyPeers_allowed:
  assumes "device_law E (m_iFaceName m) view" "ApplyPeers E m cs d = (None, d')"
  shows "view d' = foldl apply_allowed (view d) cs"
proof (cases "cs = []")
  case False
  with assms(2) have "ConfigureDevice E (m_iFaceName m)
      \<lparr>dc_PrivateKey = None, dc_ListenPort = None, dc_ReplacePeers = False, dc_Peers = cs\<rparr> d = (None, d')"
    by (auto simp: ApplyPeers_def split: if_splits prod.splits)
  from device_lawD [OF assms(1) this] show ?thesis by simp
qed (use assms(2) in \<open>simp add: ApplyPeers_def\<close>)

text \<open>
  Adding peers with pairwise disjoint addresses, each new or replacing its own: every one of them has
  exactly its addresses, the others what is left of theirs.
\<close>

lemma apply_allowed_adds:
  assumes "removes cs = {}"
    and "\<And>c c'. c \<in> set cs \<Longrightarrow> c' \<in> set cs \<Longrightarrow> pc_PublicKey c \<noteq> pc_PublicKey c' \<Longrightarrow> config_nets c \<inter> config_nets c' = {}"
    and "\<And>c c'. c \<in> set cs \<Longrightarrow> c' \<in> set cs \<Longrightarrow> pc_PublicKey c = pc_PublicKey c' \<Longrightarrow> config_nets c = config_nets c'"
    and "\<And>c. c \<in> set cs \<Longrightarrow> pc_ReplaceAllowedIPs c \<or> v (pc_PublicKey c) = None"
  shows "(\<forall>c \<in> set cs. foldl apply_allowed v cs (pc_PublicKey c) = Some (config_nets c)) \<and>
    (\<forall>K. K \<notin> adds cs \<longrightarrow> foldl apply_allowed v cs K = map_option (\<lambda>S. S - (\<Union>c \<in> set cs. config_nets c)) (v K))"
  using assms
proof (induction cs rule: rev_induct)
  case Nil
  show ?case by (simp add: option.map_ident)
next
  case (snoc c cs)
  let ?w = "foldl apply_allowed v cs"
  have rm: "\<not> pc_Remove c" "removes cs = {}" using snoc.prems(1) by (auto simp: removes_def)
  have p2: "config_nets c1 \<inter> config_nets c2 = {}" if "c1 \<in> set cs" "c2 \<in> set cs" "pc_PublicKey c1 \<noteq> pc_PublicKey c2" for c1 c2
    using that by (intro snoc.prems(2)) simp_all
  have p3: "config_nets c1 = config_nets c2" if "c1 \<in> set cs" "c2 \<in> set cs" "pc_PublicKey c1 = pc_PublicKey c2" for c1 c2
    using that by (intro snoc.prems(3)) simp_all
  have p4: "pc_ReplaceAllowedIPs c1 \<or> v (pc_PublicKey c1) = None" if "c1 \<in> set cs" for c1
    using that by (intro snoc.prems(4)) simp
  note ih = snoc.IH [OF rm(2) p2 p3 p4]
  have ih1: "?w (pc_PublicKey c') = Some (config_nets c')" if "c' \<in> set cs" for c' using ih that by blast
  have ih2: "?w K = map_option (\<lambda>S. S - (\<Union>c \<in> set cs. config_nets c)) (v K)" if "K \<notin> adds cs" for K using ih that by blast
  have self: "apply_allowed ?w c (pc_PublicKey c) = Some (config_nets c)"
  proof (cases "pc_PublicKey c \<in> adds cs")
    case True
    then obtain c' where c': "c' \<in> set cs" "pc_PublicKey c' = pc_PublicKey c" by (auto simp: adds_def)
    from ih1 [OF c'(1)] snoc.prems(3) [of c' c] c' rm(1) show ?thesis by (simp add: apply_allowed_def)
  next
    case False
    from ih2 [OF False] snoc.prems(4) [of c] rm(1) show ?thesis by (auto simp: apply_allowed_def)
  qed
  have old: "apply_allowed ?w c (pc_PublicKey c') = Some (config_nets c')" if c': "c' \<in> set cs" for c'
  proof (cases "pc_PublicKey c' = pc_PublicKey c")
    case True
    with self snoc.prems(3) [of c' c] c' show ?thesis by simp
  next
    case False
    with ih1 [OF c'] snoc.prems(2) [of c' c] c' rm(1) show ?thesis by (auto simp: apply_allowed_def)
  qed
  have rest: "apply_allowed ?w c K = map_option (\<lambda>S. S - (\<Union>c \<in> set (cs @ [c]). config_nets c)) (v K)"
    if "K \<notin> adds (cs @ [c])" for K
  proof -
    from that rm(1) have "K \<noteq> pc_PublicKey c" "K \<notin> adds cs" by (auto simp: adds_def)
    with ih2 rm(1) show ?thesis by (cases "v K") (auto simp: apply_allowed_def)
  qed
  from self old rest show ?case by (auto simp del: adds_append)
qed

lemma apply_allowed_removes: "adds rs = {} \<Longrightarrow>
    foldl apply_allowed v rs K = (if K \<in> removes rs then None else v K)"
  by (induction rs arbitrary: v) (auto simp: config_sets apply_allowed_def split: if_splits)


section \<open>Addresses after a partial synchronisation\<close>

text \<open>What the store says the kernel should hold, and all a request asks for.\<close>

definition store_allowed :: "('k, 'd) wg_env \<Rightarrow> ('k, 'd) wireguard \<Rightarrow> 'k allowed" where
  "store_allowed E wg K = map_option peer_addrs (ps_peers (wg_peerStore wg) (KeyString E K))"

definition asked :: "('k, 'd) wg_env \<Rightarrow> 'k wg_config \<Rightarrow> user list \<Rightarrow> string set" where
  "asked E c users = \<Union> {peer_addrs t |em t. requested E c users em = Some t}"

lemma ipnetsEqual_addrs: "ipnetsEqual (pi_AllowedIPs p) (pi_AllowedIPs t) \<Longrightarrow> peer_addrs p = peer_addrs t"
  unfolding ipnetsEqual_def peer_addrs_def by (metis set_map)

lemma requested_apart:
  assumes "range_order rg" "canonical_users E users" "key_law E"
    and "collectDesiredPeers E c (normalizeUsers rg users) = Inr ds"
    and "requested E c users em = Some t" "requested E c users em' = Some t'"
  shows "pi_PublicKey t = pi_PublicKey t' \<Longrightarrow> t = t'"
    and "pi_PublicKey t \<noteq> pi_PublicKey t' \<Longrightarrow> peer_addrs t \<inter> peer_addrs t' = {}"
proof -
  note req = requested_iff [OF assms(4,1)] and facts = collected_facts [OF assms(4,1,2)]
  from req assms(5) obtain k d where d: "ds k = Some d" "t = target_peer d" by blast
  from req assms(6) obtain k' d' where d': "ds k' = Some d'" "t' = target_peer d'" by blast
  have k: "KeyString E (pi_PublicKey t) = k" "KeyString E (pi_PublicKey t') = k'"
    using facts(3) d d' by (simp_all add: target_peer_def)
  then show "pi_PublicKey t = pi_PublicKey t' \<Longrightarrow> t = t'" using d d' by auto
  assume "pi_PublicKey t \<noteq> pi_PublicKey t'"
  with k have "k' \<noteq> k" using key_law_inj [OF assms(3)] by metis
  with collectDesiredPeers_safe [OF assms(1,4) d(1)] d d' show "peer_addrs t \<inter> peer_addrs t' = {}"
    by (auto simp: peer_addrs_def target_peer_def)
qed

text \<open>
  The configurations of a partial synchronisation applied to a kernel that agrees with the store.
\<close>

lemma partial_configs_allowed:
  fixes req :: "string \<Rightarrow> 'k peer_info option" and v :: "'k allowed"
  assumes split: "\<exists>as rs. cfgs = as @ rs \<and> removes as = {} \<and> adds rs = {}"
    and shape': "\<forall>c \<in> set cfgs. \<not> pc_Remove c \<longrightarrow>
           (\<exists>em t. req em = Some t \<and> pc_PublicKey c = pi_PublicKey t \<and> pc_AllowedIPs c = pi_AllowedIPs t \<and>
             (pc_ReplaceAllowedIPs c \<or> v (pi_PublicKey t) = None))"
    and same': "\<forall>em em' t t'. req em = Some t \<longrightarrow> req em' = Some t' \<longrightarrow> pi_PublicKey t = pi_PublicKey t' \<longrightarrow> t = t'"
    and apart': "\<forall>em em' t t'. req em = Some t \<longrightarrow> req em' = Some t' \<longrightarrow> pi_PublicKey t \<noteq> pi_PublicKey t' \<longrightarrow>
           peer_addrs t \<inter> peer_addrs t' = {}"
  shows "K \<in> removes cfgs \<Longrightarrow> foldl apply_allowed v cfgs K = None"
    and "K \<notin> removes cfgs \<Longrightarrow> K \<notin> adds cfgs \<Longrightarrow> v K = None \<Longrightarrow> foldl apply_allowed v cfgs K = None"
    and "K \<notin> removes cfgs \<Longrightarrow> K \<in> adds cfgs \<Longrightarrow> req em = Some t \<Longrightarrow> pi_PublicKey t = K \<Longrightarrow>
           foldl apply_allowed v cfgs K = Some (peer_addrs t)"
    and "K \<notin> removes cfgs \<Longrightarrow> K \<notin> adds cfgs \<Longrightarrow> v K = Some S \<Longrightarrow>
           \<exists>S'. foldl apply_allowed v cfgs K = Some S' \<and> S' \<subseteq> S \<and>
             (\<forall>a \<in> S - S'. \<exists>em t. req em = Some t \<and> pi_PublicKey t \<noteq> K \<and> a \<in> peer_addrs t)"
proof -
  note shape = shape' [rule_format] and same = same' [rule_format] and apart = apart' [rule_format]
  obtain as rs where cfgs: "cfgs = as @ rs" and as: "removes as = {}" and rs: "adds rs = {}" using split by blast
  have nr: "\<not> pc_Remove c" if "c \<in> set as" for c using as that by (auto simp: removes_def)
  have of_req: "\<exists>em t. req em = Some t \<and> pc_PublicKey c = pi_PublicKey t \<and> config_nets c = peer_addrs t \<and>
      (pc_ReplaceAllowedIPs c \<or> v (pc_PublicKey c) = None)" if c: "c \<in> set as" for c
  proof -
    from shape [of c] c nr [OF c] obtain em t where "req em = Some t" "pc_PublicKey c = pi_PublicKey t"
      "pc_AllowedIPs c = pi_AllowedIPs t" "pc_ReplaceAllowedIPs c \<or> v (pi_PublicKey t) = None"
      by (auto simp: cfgs)
    then show ?thesis by (intro exI conjI) (auto simp: config_nets_def peer_addrs_def)
  qed
  have disj: "config_nets c \<inter> config_nets c' = {}"
    if "c \<in> set as" "c' \<in> set as" "pc_PublicKey c \<noteq> pc_PublicKey c'" for c c'
    using of_req [OF that(1)] of_req [OF that(2)] that(3) apart by metis
  have eq: "config_nets c = config_nets c'"
    if "c \<in> set as" "c' \<in> set as" "pc_PublicKey c = pc_PublicKey c'" for c c'
    using of_req [OF that(1)] of_req [OF that(2)] that(3) same by metis
  have rep: "pc_ReplaceAllowedIPs c \<or> v (pc_PublicKey c) = None" if "c \<in> set as" for c
    using of_req [OF that] by auto
  have A: "\<forall>c \<in> set as. foldl apply_allowed v as (pc_PublicKey c) = Some (config_nets c)"
    and B: "\<And>K. K \<notin> adds as \<Longrightarrow> foldl apply_allowed v as K = map_option (\<lambda>S. S - (\<Union>c \<in> set as. config_nets c)) (v K)"
    using apply_allowed_adds [of as v, OF as disj eq rep] by blast+
  have F: "foldl apply_allowed v cfgs K = (if K \<in> removes cfgs then None else foldl apply_allowed v as K)" for K
    by (simp add: cfgs as apply_allowed_removes [OF rs])
  have ad: "adds cfgs = adds as" by (simp add: cfgs rs)
  show "K \<in> removes cfgs \<Longrightarrow> foldl apply_allowed v cfgs K = None" by (simp add: F)
  show "K \<notin> removes cfgs \<Longrightarrow> K \<notin> adds cfgs \<Longrightarrow> v K = None \<Longrightarrow> foldl apply_allowed v cfgs K = None"
    by (simp add: F ad B)
  show "foldl apply_allowed v cfgs K = Some (peer_addrs t)"
    if K: "K \<notin> removes cfgs" "K \<in> adds cfgs" "req em = Some t" "pi_PublicKey t = K"
  proof -
    from K(2) [unfolded ad] obtain c where c: "c \<in> set as" "pc_PublicKey c = K" by (auto simp: adds_def)
    with of_req [OF c(1)] same [OF _ K(3)] K(4) have "config_nets c = peer_addrs t" by metis
    with A c K(1) show ?thesis by (auto simp: F)
  qed
  show "\<exists>S'. foldl apply_allowed v cfgs K = Some S' \<and> S' \<subseteq> S \<and>
      (\<forall>a \<in> S - S'. \<exists>em t. req em = Some t \<and> pi_PublicKey t \<noteq> K \<and> a \<in> peer_addrs t)"
    if K: "K \<notin> removes cfgs" "K \<notin> adds cfgs" "v K = Some S"
  proof -
    have "\<exists>em t. req em = Some t \<and> pi_PublicKey t \<noteq> K \<and> a \<in> peer_addrs t"
      if "c \<in> set as" "a \<in> config_nets c" for a c
    proof -
      have "pc_PublicKey c \<noteq> K" using K(2) [unfolded ad] that(1) nr by (auto simp: adds_def)
      with of_req [OF that(1)] that(2) show ?thesis by metis
    qed
    with K B [of K] show ?thesis by (auto simp: F ad)
  qed
qed

text \<open>
  C4: a partial synchronisation that returns without an error leaves every user it does not name
  exactly as before in the store, gives every named user that asks for a peer that peer (same key,
  owner and addresses), leaves no peer of a named user that asks for none, and keeps the store
  one-to-one. The kernel, which agreed with the store before, then has a peer for exactly the keys of
  the store; the peer of a named user has exactly its addresses, no more and no less; that of any
  other user has its addresses except, possibly, those some named user asks for. The hypotheses are
  those of a full synchronisation, with \<open>device_law\<close> for what \<^verbatim>\<open>wgctrl\<close> does with addresses.
\<close>

theorem syncUsersPartial_agrees:
  fixes E :: "('k, 'd) wg_env" and wg wg' :: "('k, 'd) wireguard"
  assumes "range_order rg" "key_law E" "device_law E name view" "canonical_users E users"
    and "store_ok (KeyString E) (wg_peerStore wg)" "view (wg_kernel wg) = store_allowed E wg"
    and "\<And>m. wg_manager wg = Some m \<Longrightarrow> m_iFaceName m = name"
    and "syncUsersPartialReconcile E rg now users wg = (None, wg')"
  shows "(\<forall>em. if em \<in> dom (lastByEmail users)
          then rel_option same_peer (GetByEmail em (wg_peerStore wg')) (requested E (the_config wg) users em)
          else GetByEmail em (wg_peerStore wg') = GetByEmail em (wg_peerStore wg)) \<and>
    store_ok (KeyString E) (wg_peerStore wg') \<and>
    (\<forall>K. case ps_peers (wg_peerStore wg') (KeyString E K) of
       None \<Rightarrow> view (wg_kernel wg') K = None
     | Some p \<Rightarrow> (\<exists>S. view (wg_kernel wg') K = Some S \<and>
         (if pi_Email p \<in> dom (lastByEmail users) then S = peer_addrs p
          else peer_addrs p - asked E (the_config wg) users \<subseteq> S \<and> S \<subseteq> peer_addrs p)))"
    (is "?store \<and> ?ok \<and> (\<forall>K. ?kernel K)")
proof -
  let ?str = "KeyString E" and ?ps = "ps_peers (wg_peerStore wg)" and ?ps' = "ps_peers (wg_peerStore wg')"
  let ?req = "requested E (the_config wg) users"
  obtain ds where ds: "collectDesiredPeers E (the_config wg) (normalizeUsers rg users) = Inr ds"
    using assms(8) by (rule syncUsersPartial_None)
  note ra = requested_apart [OF assms(1,4,2) ds]
  obtain D :: "'k sync_diff" where st: ?store and ok: ?ok
    and keys: "foldl apply_peer (store_keys wg) (sd_PeerConfigs D) = store_keys wg'"
    and app: "sd_PeerConfigs D = [] \<and> wg_kernel wg' = wg_kernel wg \<or>
         (\<exists>m. wg_manager wg = Some m \<and> ApplyPeers E m (sd_PeerConfigs D) (wg_kernel wg) = (None, wg_kernel wg'))"
    and sp: "\<exists>as rs. sd_PeerConfigs D = as @ rs \<and> removes as = {} \<and> adds rs = {}"
    and shape: "\<And>c. c \<in> set (sd_PeerConfigs D) \<Longrightarrow> \<not> pc_Remove c \<Longrightarrow>
           \<exists>em t. ?req em = Some t \<and> pc_PublicKey c = pi_PublicKey t \<and> pc_AllowedIPs c = pi_AllowedIPs t \<and>
             (pc_ReplaceAllowedIPs c \<or> ?ps (?str (pi_PublicKey t)) = None)"
    and cover: "\<And>em t. ?req em = Some t \<Longrightarrow> pi_PublicKey t \<in> adds (sd_PeerConfigs D) \<or>
           (\<exists>p. ?ps (?str (pi_PublicKey t)) = Some p \<and> ipnetsEqual (pi_AllowedIPs p) (pi_AllowedIPs t))"
    by (rule syncUsersPartial_detail [OF assms(1,2,4,5,8)]) (rule that)
  let ?cs = "sd_PeerConfigs D" and ?v = "store_allowed E wg"
  have "device_law E (m_iFaceName m) view" if "wg_manager wg = Some m" for m using assms(3,7) that by simp
  then have k': "view (wg_kernel wg') = foldl apply_allowed ?v ?cs"
    using app ApplyPeers_allowed assms(6) by fastforce
  have shape': "\<forall>c \<in> set ?cs. \<not> pc_Remove c \<longrightarrow>
      (\<exists>em t. ?req em = Some t \<and> pc_PublicKey c = pi_PublicKey t \<and> pc_AllowedIPs c = pi_AllowedIPs t \<and>
        (pc_ReplaceAllowedIPs c \<or> ?v (pi_PublicKey t) = None))"
    using shape by (simp add: store_allowed_def)
  have same': "\<forall>em em' t t'. ?req em = Some t \<longrightarrow> ?req em' = Some t' \<longrightarrow> pi_PublicKey t = pi_PublicKey t' \<longrightarrow> t = t'"
    and apart': "\<forall>em em' t t'. ?req em = Some t \<longrightarrow> ?req em' = Some t' \<longrightarrow> pi_PublicKey t \<noteq> pi_PublicKey t' \<longrightarrow>
      peer_addrs t \<inter> peer_addrs t' = {}" using ra by blast+
  note L = partial_configs_allowed [OF sp shape' same' apart', folded k']
  have mem: "K \<in> store_keys wg' \<longleftrightarrow> (K \<in> store_keys wg \<or> K \<in> adds ?cs) \<and> K \<notin> removes ?cs" for K
    unfolding keys [symmetric] using sp apply_diff by (metis Diff_iff Un_iff)
  note sk = store_keys_iff [OF assms(5,2)] and sk' = store_keys_iff [OF ok assms(2)]
  have "?kernel K" for K
  proof (cases "?ps' (?str K)")
    case None
    then have "K \<notin> store_keys wg'" by (simp add: sk' domIff)
    with mem have "K \<in> removes ?cs \<or> (K \<notin> removes ?cs \<and> K \<notin> adds ?cs \<and> K \<notin> store_keys wg)" by blast
    moreover have "K \<notin> store_keys wg \<Longrightarrow> ?v K = None" by (simp add: sk store_allowed_def domIff)
    ultimately show ?thesis using L(1,2) [where K = K] None by auto
  next
    case (Some p)
    then have "K \<in> store_keys wg'" by (auto simp: sk')
    with mem have K: "K \<notin> removes ?cs" "K \<in> store_keys wg \<or> K \<in> adds ?cs" by blast+
    from store_okD(2) [OF ok Some] have pk: "pi_PublicKey p = K" using key_law_inj [OF assms(2)] by metis
    with Some have g: "GetByEmail (pi_Email p) (wg_peerStore wg') = Some p"
      by (simp add: GetByEmail_iff [OF ok] pkey_def)
    show ?thesis
    proof (cases "pi_Email p \<in> dom (lastByEmail users)")
      case True
      with st g have "rel_option same_peer (Some p) (?req (pi_Email p))" by (metis (no_types, lifting))
      then obtain t where t: "?req (pi_Email p) = Some t" "same_peer p t" by (cases "?req (pi_Email p)") auto
      then have tk: "pi_PublicKey t = K" and ta: "peer_addrs p = peer_addrs t"
        using pk ipnetsEqual_addrs by (auto simp: same_peer_def)
      show ?thesis
      proof (cases "K \<in> adds ?cs")
        case T: True
        from L(3) [OF K(1) T t(1) tk] Some True ta show ?thesis by simp
      next
        case False
        with cover [OF t(1)] obtain p0 where "?ps (?str K) = Some p0" "ipnetsEqual (pi_AllowedIPs p0) (pi_AllowedIPs t)"
          unfolding tk by blast
        then have v: "?v K = Some (peer_addrs t)" by (simp add: store_allowed_def ipnetsEqual_addrs)
        from L(4) [OF K(1) False v] obtain S' where S': "view (wg_kernel wg') K = Some S'" "S' \<subseteq> peer_addrs t"
          "\<forall>a \<in> peer_addrs t - S'. \<exists>em t'. ?req em = Some t' \<and> pi_PublicKey t' \<noteq> K \<and> a \<in> peer_addrs t'" by blast
        have "a \<in> S'" if a: "a \<in> peer_addrs t" for a
        proof (rule ccontr)
          assume "a \<notin> S'"
          with S'(3) a obtain em t' where "?req em = Some t'" "pi_PublicKey t' \<noteq> K" "a \<in> peer_addrs t'" by blast
          with ra(2) [OF t(1), of em t'] tk a show False by auto
        qed
        with S'(2) have "S' = peer_addrs t" by blast
        with S'(1) Some True ta show ?thesis by simp
      qed
    next
      case False
      with st g have "GetByEmail (pi_Email p) (wg_peerStore wg) = Some p" by (metis (no_types, lifting))
      then have "?ps (?str K) = Some p" using pk by (simp add: GetByEmail_iff [OF assms(5)] pkey_def)
      then have v: "?v K = Some (peer_addrs p)" by (simp add: store_allowed_def)
      have "K \<notin> adds ?cs"
      proof
        assume "K \<in> adds ?cs"
        then obtain c where "c \<in> set ?cs" "\<not> pc_Remove c" "pc_PublicKey c = K" by (auto simp: adds_def)
        with shape obtain em t where t: "?req em = Some t" "pi_PublicKey t = K" by metis
        then have "em \<in> dom (lastByEmail users)" by (auto simp: requested_def split: option.splits)
        with st t(1) obtain q where q: "GetByEmail em (wg_peerStore wg') = Some q" "same_peer q t"
          by (metis (no_types, lifting) option_rel_Some2)
        then have "?ps' (?str K) = Some q" "pi_Email q = em"
          using t(2) by (simp_all add: GetByEmail_iff [OF ok] pkey_def same_peer_def)
        with Some False \<open>em \<in> dom (lastByEmail users)\<close> show False by simp
      qed
      from L(4) [OF K(1) this v] obtain S' where S': "view (wg_kernel wg') K = Some S'" "S' \<subseteq> peer_addrs p"
        "\<forall>a \<in> peer_addrs p - S'. \<exists>em t. ?req em = Some t \<and> pi_PublicKey t \<noteq> K \<and> a \<in> peer_addrs t" by blast
      from S'(3) have "peer_addrs p - S' \<subseteq> asked E (the_config wg) users" unfolding asked_def by blast
      with S'(1,2) Some False show ?thesis by auto
    qed
  qed
  with st ok show ?thesis by blast
qed

section \<open>An example\<close>

text \<open>A kernel that is its table of addresses, and a user who moves from 10.0.0.9 to 10.0.0.2.\<close>

definition dev_env :: "(string, string allowed) wg_env" where
  "dev_env = \<lparr>ParseKey = Inr, KeyString = (\<lambda>k. k), NewClient = None, CloseClient = (\<lambda>d. (None, d)),
     ConfigureDevice = (\<lambda>name cfg d. (None, foldl apply_allowed (if dc_ReplacePeers cfg then Map.empty else d) (dc_Peers cfg))),
     DevicePeers = (\<lambda>name d. Inl ''no device''), ParseLinkAddr = Inr, LinkAdd = (\<lambda>name d. (None, Map.empty)),
     LinkByName = (\<lambda>name d. LinkFound None), AddrAdd = (\<lambda>name addr d. (None, d)),
     LinkSetUp = (\<lambda>name d. (None, d)), LinkDel = (\<lambda>name d. (None, Map.empty))\<rparr>"

definition old_peer :: "string peer_info" where
  "old_peer = \<lparr>pi_Email = ''a'', pi_PublicKey = ''K'', pi_AllowedIPs = [\<lparr>n_IP = [10, 0, 0, 9], n_Ones = 32, n_MaskLen = 4\<rparr>]\<rparr>"

definition dev_wg :: "(string, string allowed) wireguard" where
  "dev_wg = \<lparr>wg_config = Some demo_config, wg_manager = Some \<lparr>m_client = True, m_iFaceName = ''wg0''\<rparr>,
     wg_statsTracker = newTracker, wg_peerStore = \<lparr>ps_peers = [''K'' \<mapsto> old_peer], ps_emailToKey = [''a'' \<mapsto> ''K'']\<rparr>,
     wg_interfaceStats = NewInterfaceCountersTracker, wg_state = LifecycleRunning, wg_version = [], wg_startTime = 0,
     wg_lastStatsErrAt = 0, wg_background = True, wg_hostRouting = False, wg_logOpen = True, wg_shutdownDone = False,
     wg_kernel = [''K'' \<mapsto> {''10.0.0.9/32''}]\<rparr>"

lemma dev_nets: "IPNet_String \<lparr>n_IP = [10, 0, 0, 9], n_Ones = 32, n_MaskLen = 4\<rparr> = ''10.0.0.9/32''"
    "IPNet_String \<lparr>n_IP = [10, 0, 0, 2], n_Ones = 32, n_MaskLen = 4\<rparr> = ''10.0.0.2/32''"
  by code_simp+

lemma dev_laws: "key_law dev_env" "device_law dev_env ''wg0'' (\<lambda>d. d)" "canonical_users dev_env us"
    "store_ok (KeyString dev_env) (wg_peerStore dev_wg)" "wg_kernel dev_wg = store_allowed dev_env dev_wg"
    "wg_manager dev_wg = Some m \<Longrightarrow> m_iFaceName m = ''wg0''"
  by (auto simp: key_law_def device_law_def canonical_users_def dev_env_def dev_wg_def old_peer_def store_ok_def
      store_allowed_def peer_addrs_def dev_nets fun_eq_iff)

lemma dev_collect: "collectDesiredPeers dev_env demo_config [demo_user] = Inr [''K'' \<mapsto> demo_desired]"
proof -
  have fields: "GetEmail demo_user = ''a''" "GetPublicKey (GetWireguard (GetProxies demo_user)) = ''K''"
    "GetPeerIps (GetWireguard (GetProxies demo_user)) = [''10.0.0.2/32'']" "ParseKey dev_env s = Inr s"
    "shouldIncludeUserInInterface demo_user (c_InterfaceName demo_config)" for s
    by (simp_all add: demo_user_def GetPublicKey_def GetPeerIps_def msg_defs dev_env_def
        shouldIncludeUserInInterface_def demo_config_def)
  show ?thesis by (simp add: collectDesiredPeers_def fields demo_nets demo_allowed demo_desired_def Let_def)
qed

lemma dev_partial: "fst (syncUsersPartialReconcile dev_env sorted_ranger 0 [demo_user] dev_wg) = None"
proof -
  let ?m = "\<lparr>m_client = True, m_iFaceName = ''wg0''\<rparr>" and ?ds = "[''K'' \<mapsto> demo_desired]"
  have oc: "owner_conflict (GetEmailMap (wg_peerStore dev_wg)) ?ds T (keys_of sorted_ranger 9 ?ds) = None" for T
    by (simp add: keys_of_def sorted_ranger_def dev_wg_def old_peer_def GetEmailMap_def demo_desired_def)
  have run: "ensureRunningWithManagerLocked (sampleDepartingPeers dev_env t ks (dev_wg\<lparr>wg_config := cc\<rparr>)) = None" for t ks cc
    by (simp add: ensureRunningWithManagerLocked_def lifecycleReadinessError_def dev_wg_def)
  have m: "wg_manager dev_wg = Some ?m" "the_config dev_wg = demo_config" by (simp_all add: dev_wg_def the_config_def)
  have ap: "fst (ApplyPeers dev_env ?m cs d) = None" for cs d by (simp add: ApplyPeers_def dev_env_def)
  show ?thesis using ap
    by (simp add: syncUsersPartialReconcile_def demo_normalize dev_collect oc run m split_beta Let_def split: option.split prod.split)
qed

theorem syncUsersPartial_agrees_witness:
  "\<exists>wg'. syncUsersPartialReconcile dev_env sorted_ranger 0 [demo_user] dev_wg = (None, wg') \<and>
    rel_option same_peer (GetByEmail ''a'' (wg_peerStore wg')) (Some (target_peer demo_desired)) \<and>
    wg_kernel dev_wg ''K'' = Some {''10.0.0.9/32''} \<and> wg_kernel wg' ''K'' = Some {''10.0.0.2/32''}"
proof -
  obtain wg' where wg': "syncUsersPartialReconcile dev_env sorted_ranger 0 [demo_user] dev_wg = (None, wg')"
    using dev_partial by (metis prod.collapse)
  have last: "lastByEmail [demo_user] = [''a'' \<mapsto> demo_user]"
    by (simp add: lastByEmail_def normalizable_def demo_user_def GetPublicKey_def GetPeerIps_def msg_defs)
  have cfg: "the_config dev_wg = demo_config" by (simp add: dev_wg_def the_config_def)
  have "collectDesiredPeers dev_env demo_config (normalizeUsers sorted_ranger [demo_user]) = Inr [''K'' \<mapsto> demo_desired]"
    by (simp add: demo_normalize dev_collect)
  from requested_iff [OF this range_order_sorted] have req: "requested dev_env demo_config [demo_user] ''a'' = Some (target_peer demo_desired)"
    by (simp add: demo_desired_def)
  note use = syncUsersPartial_agrees [OF range_order_sorted dev_laws(1-6) wg', unfolded cfg last]
  from use have a: "rel_option same_peer (GetByEmail ''a'' (wg_peerStore wg')) (Some (target_peer demo_desired))"
    and ok: "store_ok (KeyString dev_env) (wg_peerStore wg')" unfolding req [symmetric] by (simp_all split: if_splits)
  from a obtain p where p: "GetByEmail ''a'' (wg_peerStore wg') = Some p" "same_peer p (target_peer demo_desired)"
    by (cases "GetByEmail ''a'' (wg_peerStore wg')") auto
  then have at: "ps_peers (wg_peerStore wg') (KeyString dev_env ''K'') = Some p" "pi_Email p = ''a''"
    by (simp_all add: GetByEmail_iff [OF ok] pkey_def same_peer_def target_peer_def demo_desired_def)
  from p(2) have "ipnetsEqual (pi_AllowedIPs p) (pi_AllowedIPs (target_peer demo_desired))" by (simp add: same_peer_def)
  from ipnetsEqual_addrs [OF this] have "peer_addrs p = {''10.0.0.2/32''}" by (simp add: peer_addrs_def target_peer_def demo_desired_def dev_nets)
  moreover from use at have "wg_kernel wg' ''K'' = Some (peer_addrs p)" by (auto dest: spec [of _ "''K''"])
  ultimately show ?thesis using wg' a by (auto simp: dev_wg_def)
qed

end
