(* ===== verification/Backend_Composite.thy ===== *)
theory Backend_Composite
  imports Node_Messages "HOL-Library.Multiset"
begin

text \<open>
  The interface every protocol core implements (\<^verbatim>\<open>backend/backend.go\<close>) and the composite
  that fans one call out over all cores of a node (\<^verbatim>\<open>backend/composite.go\<close>).

  A core is a Go interface value: a reference \<open>'b\<close>. What the reference points to lives in a world
  \<open>'w\<close>, and a method is a function of the reference and the world. The record \<open>backend_ops\<close> is the
  method table; \<open>composite_ops\<close> is the method table of the composite, whose references are lists of
  references. The locale \<open>isolated_cores\<close> is the contract the node relies on: a core changes its own
  state only, its answers depend on its own state only, and a core that was shut down is not
  started. The context argument of the Go methods carries cancellation only and is left out.
\<close>

section \<open>The interface\<close>

record backend_stats =
  bs_NumGoroutine :: "32 word"
  bs_NumGc :: "32 word"
  bs_Alloc :: "64 word"
  bs_TotalAlloc :: "64 word"
  bs_Sys :: "64 word"
  bs_Mallocs :: "64 word"
  bs_Frees :: "64 word"
  bs_LiveObjects :: "64 word"
  bs_PauseTotalNs :: "64 word"
  bs_Uptime :: "32 word"

definition no_backend_stats :: backend_stats where
  "no_backend_stats = \<lparr>bs_NumGoroutine = 0, bs_NumGc = 0, bs_Alloc = 0, bs_TotalAlloc = 0, bs_Sys = 0,
     bs_Mallocs = 0, bs_Frees = 0, bs_LiveObjects = 0, bs_PauseTotalNs = 0, bs_Uptime = 0\<rparr>"

text \<open>What the cores that run inside the node's own process report: its memory statistics.\<close>

record mem_stats =
  ms_NumGoroutine :: "32 word"
  ms_NumGC :: "32 word"
  ms_Alloc :: "64 word"
  ms_TotalAlloc :: "64 word"
  ms_Sys :: "64 word"
  ms_Mallocs :: "64 word"
  ms_Frees :: "64 word"
  ms_PauseTotalNs :: "64 word"

definition runtime_stats :: "mem_stats \<Rightarrow> gotime \<Rightarrow> gotime \<Rightarrow> backend_stats" where
  "runtime_stats ms now startTime =
     \<lparr>bs_NumGoroutine = ms_NumGoroutine ms, bs_NumGc = ms_NumGC ms, bs_Alloc = ms_Alloc ms,
      bs_TotalAlloc = ms_TotalAlloc ms, bs_Sys = ms_Sys ms, bs_Mallocs = ms_Mallocs ms, bs_Frees = ms_Frees ms,
      bs_LiveObjects = ms_Mallocs ms - ms_Frees ms, bs_PauseTotalNs = ms_PauseTotalNs ms,
      bs_Uptime = word_of_int ((now - startTime) div 1000000000)\<rparr>"

definition GetUptime :: "backend_stats option \<Rightarrow> 32 word" where
  "GetUptime s = (case s of None \<Rightarrow> 0 | Some r \<Rightarrow> bs_Uptime r)"

type_synonym ('b, 'w) action = "'b \<Rightarrow> 'w \<Rightarrow> err \<times> 'w"

record ('b, 'w) backend_ops =
  bk_Started :: "'b \<Rightarrow> 'w \<Rightarrow> bool"
  bk_Version :: "'b \<Rightarrow> 'w \<Rightarrow> string"
  bk_Restart :: "('b, 'w) action"
  bk_Shutdown :: "'b \<Rightarrow> 'w \<Rightarrow> 'w"
  bk_SyncUser :: "user \<Rightarrow> ('b, 'w) action"
  bk_SyncUsers :: "user list \<Rightarrow> ('b, 'w) action"
  bk_UpdateUsers :: "user list \<Rightarrow> ('b, 'w) action"
  bk_UpdateUsersAndRestart :: "user list \<Rightarrow> ('b, 'w) action"
  bk_GetSysStats :: "'b \<Rightarrow> 'w \<Rightarrow> backend_stats option \<times> err"
  bk_GetStats :: "stat_request \<Rightarrow> 'b \<Rightarrow> 'w \<Rightarrow> (string + stat list option) \<times> 'w"
  bk_GetOutboundsLatency :: "string \<Rightarrow> 'b \<Rightarrow> 'w \<Rightarrow> string + latency list option"
  bk_GetUserOnlineStats :: "string \<Rightarrow> 'b \<Rightarrow> 'w \<Rightarrow> string + online_stat option"
  bk_GetUserOnlineIpListStats :: "string \<Rightarrow> 'b \<Rightarrow> 'w \<Rightarrow> string + online_ips option"


section \<open>The composite\<close>

type_synonym 'b composite = "'b list"

definition NewComposite :: "'b list \<Rightarrow> 'b composite option" where
  "NewComposite backends = (if length backends = 0 then None else Some backends)"

fun Composite_Started :: "('b, 'w) backend_ops \<Rightarrow> 'b composite \<Rightarrow> 'w \<Rightarrow> bool" where
  "Composite_Started ops [] w = False"
| "Composite_Started ops (b # bs) w = (if bk_Started ops b w then True else Composite_Started ops bs w)"

definition Composite_Version :: "('b, 'w) backend_ops \<Rightarrow> 'b composite \<Rightarrow> 'w \<Rightarrow> string" where
  "Composite_Version ops c w =
     Join (foldl (\<lambda>parts b. let v = bk_Version ops b w in if v \<noteq> [] then parts @ [v] else parts) [] c) '', ''"

text \<open>The loop of the methods that only pass an error on: every core is called, the first error kept.\<close>

fun fan_out :: "('b, 'w) action \<Rightarrow> 'b list \<Rightarrow> err \<Rightarrow> 'w \<Rightarrow> err \<times> 'w" where
  "fan_out op [] firstErr w = (firstErr, w)"
| "fan_out op (b # bs) firstErr w =
     (let (e, w') = op b w
      in fan_out op bs (if e \<noteq> None \<and> firstErr = None then e else firstErr) w')"

definition Composite_Restart :: "('b, 'w) backend_ops \<Rightarrow> 'b composite \<Rightarrow> 'w \<Rightarrow> err \<times> 'w" where
  "Composite_Restart ops c w = fan_out (bk_Restart ops) c None w"

definition Composite_Shutdown :: "('b, 'w) backend_ops \<Rightarrow> 'b composite \<Rightarrow> 'w \<Rightarrow> 'w" where
  "Composite_Shutdown ops c w = foldl (\<lambda>w b. bk_Shutdown ops b w) w c"

definition Composite_SyncUser :: "('b, 'w) backend_ops \<Rightarrow> user \<Rightarrow> 'b composite \<Rightarrow> 'w \<Rightarrow> err \<times> 'w" where
  "Composite_SyncUser ops user c w = fan_out (bk_SyncUser ops user) c None w"

definition Composite_SyncUsers :: "('b, 'w) backend_ops \<Rightarrow> user list \<Rightarrow> 'b composite \<Rightarrow> 'w \<Rightarrow> err \<times> 'w" where
  "Composite_SyncUsers ops users c w = fan_out (bk_SyncUsers ops users) c None w"

definition Composite_UpdateUsers :: "('b, 'w) backend_ops \<Rightarrow> user list \<Rightarrow> 'b composite \<Rightarrow> 'w \<Rightarrow> err \<times> 'w" where
  "Composite_UpdateUsers ops users c w = fan_out (bk_UpdateUsers ops users) c None w"

definition Composite_UpdateUsersAndRestart ::
    "('b, 'w) backend_ops \<Rightarrow> user list \<Rightarrow> 'b composite \<Rightarrow> 'w \<Rightarrow> err \<times> 'w" where
  "Composite_UpdateUsersAndRestart ops users c w = fan_out (bk_UpdateUsersAndRestart ops users) c None w"

fun best_stats :: "('b \<Rightarrow> backend_stats option \<times> err) \<Rightarrow> 'b list \<Rightarrow> backend_stats option \<Rightarrow> err \<Rightarrow>
    backend_stats option \<times> err" where
  "best_stats get [] best firstErr =
     (if best = None then (Some no_backend_stats, firstErr) else (best, None))"
| "best_stats get (b # bs) best firstErr =
     (let (s, e) = get b in
      if e \<noteq> None then best_stats get bs best (if firstErr = None then e else firstErr)
      else if best = None \<or> GetUptime best < GetUptime s then best_stats get bs s firstErr
      else best_stats get bs best firstErr)"

definition Composite_GetSysStats :: "('b, 'w) backend_ops \<Rightarrow> 'b composite \<Rightarrow> 'w \<Rightarrow> backend_stats option \<times> err" where
  "Composite_GetSysStats ops c w = best_stats (\<lambda>b. bk_GetSysStats ops b w) c None None"

fun gather_stats :: "('b \<Rightarrow> 'w \<Rightarrow> (string + stat list option) \<times> 'w) \<Rightarrow> 'b list \<Rightarrow> stat list \<Rightarrow> err \<Rightarrow> 'w \<Rightarrow>
    (string + stat list option) \<times> 'w" where
  "gather_stats get [] merged firstErr w =
     (if length merged = 0 \<and> firstErr \<noteq> None then (Inl (the firstErr), w) else (Inr (Some merged), w))"
| "gather_stats get (b # bs) merged firstErr w =
     (case get b w of
        (Inl e, w') \<Rightarrow> gather_stats get bs merged (if firstErr = None then Some e else firstErr) w'
      | (Inr None, w') \<Rightarrow> gather_stats get bs merged firstErr w'
      | (Inr (Some s), w') \<Rightarrow> gather_stats get bs (merged @ s) firstErr w')"

definition Composite_GetStats :: "('b, 'w) backend_ops \<Rightarrow> stat_request \<Rightarrow> 'b composite \<Rightarrow> 'w \<Rightarrow>
    (string + stat list option) \<times> 'w" where
  "Composite_GetStats ops request c w = gather_stats (bk_GetStats ops request) c [] None w"

fun gather_latencies :: "('b \<Rightarrow> string + latency list option) \<Rightarrow> 'b list \<Rightarrow> latency list \<Rightarrow> err \<Rightarrow>
    string + latency list option" where
  "gather_latencies get [] merged firstErr =
     (if length merged = 0 \<and> firstErr \<noteq> None then Inl (the firstErr) else Inr (Some merged))"
| "gather_latencies get (b # bs) merged firstErr =
     (case get b of
        Inl e \<Rightarrow> gather_latencies get bs merged (if firstErr = None then Some e else firstErr)
      | Inr None \<Rightarrow> gather_latencies get bs merged firstErr
      | Inr (Some l) \<Rightarrow> gather_latencies get bs (merged @ l) firstErr)"

definition Composite_GetOutboundsLatency :: "('b, 'w) backend_ops \<Rightarrow> string \<Rightarrow> 'b composite \<Rightarrow> 'w \<Rightarrow>
    string + latency list option" where
  "Composite_GetOutboundsLatency ops request c w =
     gather_latencies (\<lambda>b. bk_GetOutboundsLatency ops request b w) c [] None"

fun sum_online :: "('b \<Rightarrow> string + online_stat option) \<Rightarrow> 'b list \<Rightarrow> string \<Rightarrow> int64 \<Rightarrow> bool \<Rightarrow> err \<Rightarrow>
    string + online_stat option" where
  "sum_online get [] name acc found firstErr =
     (if \<not> found \<and> firstErr \<noteq> None then Inl (the firstErr)
      else Inr (Some \<lparr>os_Name = name, os_Value = acc\<rparr>))"
| "sum_online get (b # bs) name acc found firstErr =
     (case get b of
        Inl e \<Rightarrow> sum_online get bs name acc found (if firstErr = None then Some e else firstErr)
      | Inr None \<Rightarrow> sum_online get bs name acc found firstErr
      | Inr (Some s) \<Rightarrow> sum_online get bs name (add64 acc (os_Value s)) True firstErr)"

definition Composite_GetUserOnlineStats :: "('b, 'w) backend_ops \<Rightarrow> string \<Rightarrow> 'b composite \<Rightarrow> 'w \<Rightarrow>
    string + online_stat option" where
  "Composite_GetUserOnlineStats ops name c w =
     sum_online (\<lambda>b. bk_GetUserOnlineStats ops name b w) c name 0 False None"

text \<open>The inner loop visits the addresses of one answer in the order \<open>rg i\<close> picks.\<close>

definition merge_ips :: "string list \<Rightarrow> (string \<rightharpoonup> int64) \<Rightarrow> (string \<rightharpoonup> int64) \<Rightarrow> (string \<rightharpoonup> int64)" where
  "merge_ips ks ips merged =
     foldl (\<lambda>merged ip. merged(ip \<mapsto> add64 (getd 0 merged ip) (getd 0 ips ip))) merged ks"

fun merge_online :: "ranger \<Rightarrow> nat \<Rightarrow> ('b \<Rightarrow> string + online_ips option) \<Rightarrow> 'b list \<Rightarrow> string \<Rightarrow> (string \<rightharpoonup> int64) \<Rightarrow>
    bool \<Rightarrow> err \<Rightarrow> string + online_ips option" where
  "merge_online rg i get [] name merged found firstErr =
     (if \<not> found \<and> firstErr \<noteq> None then Inl (the firstErr)
      else Inr (Some \<lparr>oi_Name = name, oi_Ips = merged\<rparr>))"
| "merge_online rg i get (b # bs) name merged found firstErr =
     (case get b of
        Inl e \<Rightarrow> merge_online rg (Suc i) get bs name merged found (if firstErr = None then Some e else firstErr)
      | Inr None \<Rightarrow> merge_online rg (Suc i) get bs name merged found firstErr
      | Inr (Some s) \<Rightarrow> merge_online rg (Suc i) get bs name
          (merge_ips (keys_of rg i (oi_Ips s)) (oi_Ips s) merged) True firstErr)"

definition Composite_GetUserOnlineIpListStats :: "('b, 'w) backend_ops \<Rightarrow> ranger \<Rightarrow> string \<Rightarrow> 'b composite \<Rightarrow> 'w \<Rightarrow>
    string + online_ips option" where
  "Composite_GetUserOnlineIpListStats ops rg name c w =
     merge_online rg 0 (\<lambda>b. bk_GetUserOnlineIpListStats ops name b w) c name Map.empty False None"

text \<open>The composite implements the interface itself.\<close>

definition composite_ops :: "('b, 'w) backend_ops \<Rightarrow> ranger \<Rightarrow> ('b composite, 'w) backend_ops" where
  "composite_ops ops rg =
     \<lparr>bk_Started = Composite_Started ops, bk_Version = Composite_Version ops,
      bk_Restart = Composite_Restart ops, bk_Shutdown = Composite_Shutdown ops,
      bk_SyncUser = Composite_SyncUser ops, bk_SyncUsers = Composite_SyncUsers ops,
      bk_UpdateUsers = Composite_UpdateUsers ops,
      bk_UpdateUsersAndRestart = Composite_UpdateUsersAndRestart ops,
      bk_GetSysStats = Composite_GetSysStats ops, bk_GetStats = Composite_GetStats ops,
      bk_GetOutboundsLatency = Composite_GetOutboundsLatency ops,
      bk_GetUserOnlineStats = Composite_GetUserOnlineStats ops,
      bk_GetUserOnlineIpListStats = Composite_GetUserOnlineIpListStats ops rg\<rparr>"


section \<open>Merging the log channels\<close>

text \<open>
  \<^verbatim>\<open>Logs\<close> starts one goroutine per core that moves lines into a channel of 256 slots and drops
  a line when no slot is free, and one that closes the channel when all of them are done. A source
  is the list of lines it still delivers before its channel is closed (\<open>None\<close> once its goroutine has
  finished). A step is one scheduling choice, including the reader's.
\<close>

record log_merger =
  lm_src :: "string list option list"
  lm_out :: "string list"
  lm_read :: "string list"
  lm_closed :: bool

datatype log_move = Forward nat | Finish nat | CloseOut | Receive

definition composite_Logs :: "string list option list \<Rightarrow> log_merger" where
  "composite_Logs chans = \<lparr>lm_src = filter (\<lambda>src. src \<noteq> None) chans, lm_out = [], lm_read = [], lm_closed = False\<rparr>"

fun log_step :: "log_move \<Rightarrow> log_merger \<Rightarrow> log_merger option" where
  "log_step (Forward i) m =
     (if i < length (lm_src m) then
        (case lm_src m ! i of
           Some (line # rest) \<Rightarrow> Some (m\<lparr>lm_src := (lm_src m)[i := Some rest],
               lm_out := if length (lm_out m) < 256 then lm_out m @ [line] else lm_out m\<rparr>)
         | _ \<Rightarrow> None)
      else None)"
| "log_step (Finish i) m =
     (if i < length (lm_src m) \<and> lm_src m ! i = Some [] then Some (m\<lparr>lm_src := (lm_src m)[i := None]\<rparr>) else None)"
| "log_step CloseOut m =
     (if \<not> lm_closed m \<and> list_all (\<lambda>s. s = None) (lm_src m) then Some (m\<lparr>lm_closed := True\<rparr>) else None)"
| "log_step Receive m =
     (case lm_out m of [] \<Rightarrow> None | line # rest \<Rightarrow> Some (m\<lparr>lm_out := rest, lm_read := lm_read m @ [line]\<rparr>))"


section \<open>Objects on a heap\<close>

text \<open>
  References to objects of one package: the heap knows the next free reference, and a method changes
  the object it is called on.
\<close>

record 's heap =
  hp_next :: nat
  hp_obj :: "nat \<Rightarrow> 's"

definition heap_view :: "nat \<Rightarrow> 's heap \<Rightarrow> 's" where
  "heap_view b h = hp_obj h b"

definition heap_alive :: "nat \<Rightarrow> 's heap \<Rightarrow> bool" where
  "heap_alive b h \<longleftrightarrow> b < hp_next h"

definition on_object :: "('s \<Rightarrow> 'r \<times> 's) \<Rightarrow> nat \<Rightarrow> 's heap \<Rightarrow> 'r \<times> 's heap" where
  "on_object f b h = (case f (hp_obj h b) of (r, s) \<Rightarrow> (r, h\<lparr>hp_obj := (hp_obj h)(b := s)\<rparr>))"

definition modify_object :: "('s \<Rightarrow> 's) \<Rightarrow> nat \<Rightarrow> 's heap \<Rightarrow> 's heap" where
  "modify_object f b h = h\<lparr>hp_obj := (hp_obj h)(b := f (hp_obj h b))\<rparr>"

definition allocate :: "'s \<Rightarrow> 's heap \<Rightarrow> nat \<times> 's heap" where
  "allocate s h = (hp_next h, \<lparr>hp_next = Suc (hp_next h), hp_obj = (hp_obj h)(hp_next h := s)\<rparr>)"

lemma on_object_simps: "fst (on_object f b h) = fst (f (heap_view b h))"
    "heap_view b' (snd (on_object f b h)) = (if b' = b then snd (f (heap_view b h)) else heap_view b' h)"
    "heap_alive b' (snd (on_object f b h)) = heap_alive b' h"
  by (simp_all add: on_object_def heap_view_def heap_alive_def split_beta)

lemma modify_object_simps:
    "heap_view b' (modify_object f b h) = (if b' = b then f (heap_view b h) else heap_view b' h)"
    "heap_alive b' (modify_object f b h) = heap_alive b' h"
  by (simp_all add: modify_object_def heap_view_def heap_alive_def)

lemma allocate_simps: "allocate s h = (b, h') \<Longrightarrow> \<not> heap_alive b h \<and> heap_view b h' = s \<and>
    (heap_alive b' h' \<longleftrightarrow> b' = b \<or> heap_alive b' h) \<and> (b' \<noteq> b \<longrightarrow> heap_view b' h' = heap_view b' h)"
  by (auto simp: allocate_def heap_view_def heap_alive_def)


section \<open>What the cores promise\<close>

text \<open>The methods that change users or process of a core and answer with an error or nil.\<close>

definition mutators :: "('b, 'w) backend_ops \<Rightarrow> ('b, 'w) action set" where
  "mutators ops = {bk_Restart ops} \<union> range (bk_SyncUser ops) \<union> range (bk_SyncUsers ops) \<union>
     range (bk_UpdateUsers ops) \<union> range (bk_UpdateUsersAndRestart ops)"

lemma foldl_first_err: "foldl first_err e es = None \<longleftrightarrow> e = None \<and> (\<forall>x \<in> set es. x = None)"
  by (induction es arbitrary: e) auto

locale isolated_cores =
  fixes ops :: "('b, 'w) backend_ops" and view :: "'b \<Rightarrow> 'w \<Rightarrow> 's" and ok :: "'s \<Rightarrow> bool"
  assumes mutator_frame: "op \<in> mutators ops \<Longrightarrow> b' \<noteq> b \<Longrightarrow> view b' (snd (op b w)) = view b' w"
    and mutator_local: "op \<in> mutators ops \<Longrightarrow> view b w = view b w' \<Longrightarrow>
      fst (op b w) = fst (op b w') \<and> view b (snd (op b w)) = view b (snd (op b w'))"
    and mutator_ok: "op \<in> mutators ops \<Longrightarrow> ok (view b w) \<Longrightarrow> ok (view b (snd (op b w)))"
    and shutdown_frame: "b' \<noteq> b \<Longrightarrow> view b' (bk_Shutdown ops b w) = view b' w"
    and shutdown_local: "view b w = view b w' \<Longrightarrow> view b (bk_Shutdown ops b w) = view b (bk_Shutdown ops b w')"
    and shutdown_ok: "ok (view b w) \<Longrightarrow> ok (view b (bk_Shutdown ops b w))"
    and shutdown_stops: "ok (view b w) \<Longrightarrow> \<not> bk_Started ops b (bk_Shutdown ops b w)"
    and started_local: "view b w = view b w' \<Longrightarrow> bk_Started ops b w = bk_Started ops b w'"
    and stats_frame: "b' \<noteq> b \<Longrightarrow> view b' (snd (bk_GetStats ops r b w)) = view b' w"
    and stats_local: "view b w = view b w' \<Longrightarrow>
      fst (bk_GetStats ops r b w) = fst (bk_GetStats ops r b w') \<and>
      view b (snd (bk_GetStats ops r b w)) = view b (snd (bk_GetStats ops r b w'))"
    and stats_ok: "ok (view b w) \<Longrightarrow> ok (view b (snd (bk_GetStats ops r b w)))"
begin

text \<open>Each core of a fan-out ends as if it had been called alone; the others are not touched.\<close>

lemma fan_out_view:
  assumes "op \<in> mutators ops" "distinct bs"
  shows "view b (snd (fan_out op bs e w)) = (if b \<in> set bs then view b (snd (op b w)) else view b w)"
  using assms(2)
proof (induction bs arbitrary: e w)
  case (Cons x bs)
  show ?case
  proof (cases "b = x")
    case True
    with Cons show ?thesis by (simp add: Let_def split_beta)
  next
    case False
    have "view b (snd (op x w)) = view b w" using mutator_frame [OF assms(1) False] .
    with mutator_local [OF assms(1) this] False Cons show ?thesis by (simp add: Let_def split_beta)
  qed
qed simp

lemma fan_out_err:
  assumes "op \<in> mutators ops" "distinct bs"
  shows "fst (fan_out op bs e w) = foldl first_err e (map (\<lambda>b. fst (op b w)) bs)"
  using assms(2)
proof (induction bs arbitrary: e w)
  case (Cons x bs)
  have same: "map (\<lambda>b. fst (op b (snd (op x w)))) bs = map (\<lambda>b. fst (op b w)) bs"
    by (rule map_cong [OF refl])
      (use Cons.prems mutator_local [OF assms(1) mutator_frame [OF assms(1)]] in \<open>metis distinct.simps(2)\<close>)
  have err: "(if fst (op x w) \<noteq> None \<and> e = None then fst (op x w) else e) = first_err e (fst (op x w))"
    by (auto simp: first_err_def)
  have "distinct bs" using Cons.prems by simp
  from Cons.IH [OF this] show ?case by (simp only: fan_out.simps Let_def split_beta err same list.map foldl_Cons)
qed simp

lemma fan_out_nil:
  assumes "op \<in> mutators ops" "distinct bs"
  shows "fst (fan_out op bs None w) = None \<longleftrightarrow> (\<forall>b \<in> set bs. fst (op b w) = None)"
  by (simp add: fan_out_err [OF assms] foldl_first_err)

text \<open>Shutting a list of cores down, each exactly once.\<close>

lemma shutdown_all_view:
  "distinct bs \<Longrightarrow> view b (foldl (\<lambda>w b. bk_Shutdown ops b w) w bs) =
     (if b \<in> set bs then view b (bk_Shutdown ops b w) else view b w)"
proof (induction bs arbitrary: w)
  case (Cons x bs)
  then show ?case
    by (cases "b = x") (simp_all add: shutdown_frame shutdown_local [OF shutdown_frame])
qed simp

lemma shutdown_all_stops:
  assumes "distinct bs" "b \<in> set bs" "ok (view b w)"
  shows "\<not> bk_Started ops b (foldl (\<lambda>w b. bk_Shutdown ops b w) w bs)"
  using started_local [of b "foldl (\<lambda>w b. bk_Shutdown ops b w) w bs" "bk_Shutdown ops b w"]
    shutdown_all_view [OF assms(1), of b w] shutdown_stops [OF assms(3)] assms(2) by simp

text \<open>Statistics of every core are gathered, each core being asked once in its own state.\<close>

definition answers :: "stat_request \<Rightarrow> 'b list \<Rightarrow> 'w \<Rightarrow> stat list" where
  "answers r bs w = concat (map (\<lambda>b. case fst (bk_GetStats ops r b w) of Inr (Some s) \<Rightarrow> s | _ \<Rightarrow> []) bs)"

lemma gather_stats_view:
  "distinct bs \<Longrightarrow> view b (snd (gather_stats (bk_GetStats ops r) bs ms e w)) =
     (if b \<in> set bs then view b (snd (bk_GetStats ops r b w)) else view b w)"
proof (induction bs arbitrary: ms e w)
  case (Cons x bs)
  have "b \<noteq> x \<Longrightarrow> view b (snd (bk_GetStats ops r b (snd (bk_GetStats ops r x w)))) = view b (snd (bk_GetStats ops r b w))"
    using stats_local [OF stats_frame, of b x] by blast
  with Cons stats_frame [of b x r w] show ?case
    by (cases "b = x") (auto split: prod.split sum.split option.split)
qed simp

definition failures :: "stat_request \<Rightarrow> 'b list \<Rightarrow> 'w \<Rightarrow> err list" where
  "failures r bs w = map (\<lambda>b. case fst (bk_GetStats ops r b w) of Inl x \<Rightarrow> Some x | _ \<Rightarrow> None) bs"

lemma answers_later: "b \<notin> set bs \<Longrightarrow> answers r bs (snd (bk_GetStats ops r b w)) = answers r bs w"
  and failures_later: "b \<notin> set bs \<Longrightarrow> failures r bs (snd (bk_GetStats ops r b w)) = failures r bs w"
proof -
  assume "b \<notin> set bs"
  then have *: "x \<in> set bs \<Longrightarrow> fst (bk_GetStats ops r x (snd (bk_GetStats ops r b w))) = fst (bk_GetStats ops r x w)" for x
    using stats_local [OF stats_frame] by metis
  show "answers r bs (snd (bk_GetStats ops r b w)) = answers r bs w"
    unfolding answers_def by (rule arg_cong [where f = concat], rule map_cong) (simp_all add: *)
  show "failures r bs (snd (bk_GetStats ops r b w)) = failures r bs w"
    unfolding failures_def by (rule map_cong) (simp_all add: *)
qed

lemma gather_stats_answers:
  assumes "distinct bs"
  shows "fst (gather_stats (bk_GetStats ops r) bs ms e w) =
    (if ms @ answers r bs w = [] \<and> foldl first_err e (failures r bs w) \<noteq> None
     then Inl (the (foldl first_err e (failures r bs w))) else Inr (Some (ms @ answers r bs w)))"
  using assms
proof (induction bs arbitrary: ms e w)
  case (Cons x bs)
  then have x: "x \<notin> set bs" "distinct bs" by simp_all
  obtain q w' where g: "bk_GetStats ops r x w = (q, w')" by fastforce
  have later: "answers r bs w' = answers r bs w" "failures r bs w' = failures r bs w"
    using answers_later [OF x(1), of r w] failures_later [OF x(1), of r w] by (simp_all add: g)
  have ans: "answers r (x # bs) w = (case q of Inr (Some s) \<Rightarrow> s | _ \<Rightarrow> []) @ answers r bs w"
    and fls: "failures r (x # bs) w = (case q of Inl y \<Rightarrow> Some y | _ \<Rightarrow> None) # failures r bs w"
    by (simp_all add: answers_def failures_def g)
  note ih = Cons.IH [OF x(2)]
  show ?case
  proof (cases q)
    case (Inl y)
    have "(if e = None then Some y else e) = first_err e (Some y)" by (simp add: first_err_def)
    with Inl show ?thesis by (simp only: gather_stats.simps g prod.case sum.case ih later ans fls append_Nil foldl_Cons)
  next
    case (Inr z)
    then show ?thesis
      by (cases z) (simp_all add: g ih later ans fls)
  qed
qed (simp add: answers_def failures_def)

end


section \<open>Properties of the composite\<close>

text \<open>Each fanned-out method with the method of the cores it calls.\<close>

definition composite_methods :: "('b, 'w) backend_ops \<Rightarrow> (('b, 'w) action \<times> ('b composite, 'w) action) set" where
  "composite_methods ops =
     {(bk_Restart ops, Composite_Restart ops)} \<union>
     range (\<lambda>u. (bk_SyncUser ops u, Composite_SyncUser ops u)) \<union>
     range (\<lambda>us. (bk_SyncUsers ops us, Composite_SyncUsers ops us)) \<union>
     range (\<lambda>us. (bk_UpdateUsers ops us, Composite_UpdateUsers ops us)) \<union>
     range (\<lambda>us. (bk_UpdateUsersAndRestart ops us, Composite_UpdateUsersAndRestart ops us))"

lemma composite_methods_fan_out:
  "(op, cop) \<in> composite_methods ops \<Longrightarrow> op \<in> mutators ops \<and> cop = (\<lambda>c w. fan_out op c None w)"
  unfolding composite_methods_def mutators_def
  by (elim UnE rangeE singletonE)
    (auto simp: Composite_Restart_def Composite_SyncUser_def Composite_SyncUsers_def
      Composite_UpdateUsers_def Composite_UpdateUsersAndRestart_def intro!: ext)

lemma merge_ips_sum:
  "distinct ks \<Longrightarrow> set ks = dom ips \<Longrightarrow>
    merge_ips ks ips m ip = (if ip \<in> dom ips then Some (add64 (getd 0 m ip) (getd 0 ips ip)) else m ip)"
proof -
  have "distinct ks \<Longrightarrow> merge_ips ks ips m ip = (if ip \<in> set ks then Some (add64 (getd 0 m ip) (getd 0 ips ip)) else m ip)"
    by (induction ks arbitrary: m) (auto simp: merge_ips_def)
  then show "distinct ks \<Longrightarrow> set ks = dom ips \<Longrightarrow> ?thesis" by simp
qed

text \<open>The addresses of the answers that are not errors.\<close>

definition ip_maps :: "('b \<Rightarrow> string + online_ips option) \<Rightarrow> 'b list \<Rightarrow> (string \<rightharpoonup> int64) list" where
  "ip_maps get bs = map oi_Ips (present (map (\<lambda>b. case get b of Inl e \<Rightarrow> None | Inr r \<Rightarrow> r) bs))"

lemma ip_maps_Cons: "ip_maps get (b # bs) =
    (case get b of Inr (Some s) \<Rightarrow> oi_Ips s # ip_maps get bs | _ \<Rightarrow> ip_maps get bs)"
  by (simp add: ip_maps_def split: sum.split option.split)

lemma merge_online_sum:
  assumes "range_order rg" "list_all (\<lambda>m. finite (dom m)) (ip_maps get bs)" "in_i64 (getd 0 m ip)"
    and "merge_online rg i get bs name m found e = Inr (Some r)"
  shows "getd 0 (oi_Ips r) ip = wrap64 (getd 0 m ip + (\<Sum>ips \<leftarrow> ip_maps get bs. getd 0 ips ip)) \<and> oi_Name r = name \<and>
    dom (oi_Ips r) = dom m \<union> \<Union> (set (map dom (ip_maps get bs)))"
  using assms(2-)
proof (induction bs arbitrary: i m found e)
  case Nil
  then show ?case by (auto simp: ip_maps_def wrap64_id split: if_splits)
next
  case (Cons b bs)
  show ?case
  proof (cases "get b")
    case (Inl x)
    with Cons show ?thesis by (simp add: ip_maps_Cons)
  next
    case (Inr q)
    show ?thesis
    proof (cases q)
      case None
      with Cons Inr show ?thesis by (simp add: ip_maps_Cons)
    next
      case (Some s)
      define m' where "m' = merge_ips (keys_of rg i (oi_Ips s)) (oi_Ips s) m"
      have fin: "finite (dom (oi_Ips s))" using Cons.prems Inr Some by (simp add: ip_maps_Cons)
      note m'_ip = merge_ips_sum [OF distinct_keys_of [OF assms(1) fin] set_keys_of [OF assms(1) fin], of i m, folded m'_def]
      have sum: "getd 0 m' ip = wrap64 (getd 0 m ip + getd 0 (oi_Ips s) ip)"
        using m'_ip [of ip] Cons.prems(2) by (cases "oi_Ips s ip") (auto simp: add64_def wrap64_id getd_def)
      have dom: "dom m' = dom m \<union> dom (oi_Ips s)" using m'_ip by (auto simp: dom_def)
      have "merge_online rg (Suc i) get bs name m' True e = Inr (Some r)"
        using Cons.prems(3) Inr Some by (simp add: m'_def)
      from Cons.IH [OF _ _ this] Cons.prems(1) have
        "getd 0 (oi_Ips r) ip = wrap64 (getd 0 m' ip + (\<Sum>ips \<leftarrow> ip_maps get bs. getd 0 ips ip))"
        "oi_Name r = name" "dom (oi_Ips r) = dom m' \<union> \<Union> (set (map dom (ip_maps get bs)))"
        using Inr Some by (simp_all add: ip_maps_Cons sum)
      then show ?thesis using Inr Some by (auto simp: ip_maps_Cons sum dom wrap64_add_left add.assoc)
    qed
  qed
qed


section \<open>Properties of the merged log stream\<close>

fun log_run :: "log_move list \<Rightarrow> log_merger \<Rightarrow> log_merger option" where
  "log_run [] m = Some m"
| "log_run (mv # mvs) m = Option.bind (log_step mv m) (log_run mvs)"

definition src_cost :: "string list option \<Rightarrow> nat" where
  "src_cost s = (case s of None \<Rightarrow> 0 | Some ls \<Rightarrow> 2 * length ls + 1)"

definition src_lines :: "string list option \<Rightarrow> string multiset" where
  "src_lines s = (case s of None \<Rightarrow> {#} | Some ls \<Rightarrow> mset ls)"

definition log_cost :: "log_merger \<Rightarrow> nat" where
  "log_cost m = (\<Sum>s \<leftarrow> lm_src m. src_cost s) + length (lm_out m) + (if lm_closed m then 0 else 1)"

lemma src_simps [simp]: "src_cost None = 0" "src_cost (Some ls) = 2 * length ls + 1"
    "src_lines None = {#}" "src_lines (Some ls) = mset ls"
  by (simp_all add: src_cost_def src_lines_def)

text \<open>The lines still to come, and the lines the reader has or can still get.\<close>

definition log_pending :: "log_merger \<Rightarrow> string multiset" where
  "log_pending m = (\<Sum>s \<leftarrow> lm_src m. src_lines s)"

definition log_delivered :: "log_merger \<Rightarrow> string multiset" where
  "log_delivered m = mset (lm_read m) + mset (lm_out m)"

lemma sum_list_update_split:
  fixes f :: "'a \<Rightarrow> 'b :: comm_monoid_add"
  assumes "i < length xs"
  shows "\<exists>rest. (\<Sum>x \<leftarrow> xs. f x) = f (xs ! i) + rest \<and> (\<forall>y. (\<Sum>x \<leftarrow> xs[i := y]. f x) = f y + rest)"
proof (intro exI conjI allI)
  have xs: "xs = take i xs @ xs ! i # drop (Suc i) xs" using assms by (rule id_take_nth_drop)
  show "(\<Sum>x \<leftarrow> xs. f x) = f (xs ! i) + ((\<Sum>x \<leftarrow> take i xs. f x) + (\<Sum>x \<leftarrow> drop (Suc i) xs. f x))"
    by (subst xs) (simp only: map_append sum_list_append list.map sum_list.Cons, simp add: ac_simps)
  show "(\<Sum>x \<leftarrow> xs[i := y]. f x) = f y + ((\<Sum>x \<leftarrow> take i xs. f x) + (\<Sum>x \<leftarrow> drop (Suc i) xs. f x))" for y
    using assms by (simp add: upd_conv_take_nth_drop ac_simps)
qed

lemma log_stepD:
  assumes "log_step mv m = Some m'"
  shows "log_cost m' < log_cost m \<and> log_delivered m' + log_pending m' \<subseteq># log_delivered m + log_pending m \<and>
    (size (log_delivered m + log_pending m) \<le> 256 \<longrightarrow> log_delivered m' + log_pending m' = log_delivered m + log_pending m)"
proof (cases mv)
  case (Forward i)
  with assms obtain line rest where i: "i < length (lm_src m)" "lm_src m ! i = Some (line # rest)"
    and m': "m' = m\<lparr>lm_src := (lm_src m)[i := Some rest],
      lm_out := if length (lm_out m) < 256 then lm_out m @ [line] else lm_out m\<rparr>"
    by (auto split: if_splits option.splits list.splits)
  from sum_list_update_split [OF i(1), of src_cost] sum_list_update_split [OF i(1), of src_lines] i(2)
  show ?thesis by (auto simp: m' log_cost_def log_pending_def log_delivered_def)
next
  case (Finish i)
  with assms have i: "i < length (lm_src m)" "lm_src m ! i = Some []" and m': "m' = m\<lparr>lm_src := (lm_src m)[i := None]\<rparr>"
    by (auto split: if_splits)
  from sum_list_update_split [OF i(1), of src_cost] sum_list_update_split [OF i(1), of src_lines] i(2)
  show ?thesis by (auto simp: m' log_cost_def log_pending_def log_delivered_def)
qed (use assms in \<open>auto simp: log_cost_def log_pending_def log_delivered_def split: if_splits list.splits\<close>)

lemma log_runD:
  "log_run mvs m = Some m' \<Longrightarrow> length mvs + log_cost m' \<le> log_cost m \<and>
    log_delivered m' + log_pending m' \<subseteq># log_delivered m + log_pending m \<and>
    (size (log_delivered m + log_pending m) \<le> 256 \<longrightarrow> log_delivered m' + log_pending m' = log_delivered m + log_pending m)"
proof (induction mvs arbitrary: m)
  case (Cons mv mvs)
  then obtain m1 where 1: "log_step mv m = Some m1" "log_run mvs m1 = Some m'"
    by (cases "log_step mv m") auto
  note s = log_stepD [OF 1(1)] and r = Cons.IH [OF 1(2)]
  show ?case
  proof (intro conjI impI)
    show "length (mv # mvs) + log_cost m' \<le> log_cost m" using s r by simp
    show "log_delivered m' + log_pending m' \<subseteq># log_delivered m + log_pending m"
      using s r subset_mset.order_trans by blast
    show "log_delivered m' + log_pending m' = log_delivered m + log_pending m"
      if "size (log_delivered m + log_pending m) \<le> 256" using s r that by metis
  qed
qed simp

text \<open>As long as the channel is open or has lines in it, some goroutine can move.\<close>

lemma log_progress:
  assumes "\<not> (lm_closed m \<and> lm_out m = [])"
  shows "\<exists>mv m'. log_step mv m = Some m'"
proof (cases "list_all (\<lambda>s. s = None) (lm_src m)")
  case True
  with assms have "(\<exists>m'. log_step CloseOut m = Some m') \<or> (\<exists>m'. log_step Receive m = Some m')"
    by (cases "lm_out m") auto
  then show ?thesis by blast
next
  case False
  then obtain i ls where i: "i < length (lm_src m)" "lm_src m ! i = Some ls" by (auto simp: list_all_length)
  then have "(\<exists>m'. log_step (Forward i) m = Some m') \<or> (\<exists>m'. log_step (Finish i) m = Some m')"
    by (cases ls) auto
  then show ?thesis by blast
qed

text \<open>
  C17: However the goroutines and the reader are scheduled, a merged log stream ends: a run is never
  longer than a bound fixed by the lines of the cores, and as long as the stream is not closed and
  drained some step is possible. No line is invented or duplicated, and none is lost when the cores
  deliver at most 256 lines; the channel never blocks a core.
\<close>

theorem merged_logs_end:
  assumes "log_run mvs (composite_Logs chans) = Some m"
  shows "length mvs \<le> 1 + (\<Sum>s \<leftarrow> chans. src_cost s) \<and>
    ((lm_closed m \<and> lm_out m = []) \<or> (\<exists>mv m'. log_step mv m = Some m')) \<and>
    log_delivered m + log_pending m \<subseteq># (\<Sum>s \<leftarrow> chans. src_lines s) \<and>
    (size (\<Sum>s \<leftarrow> chans. src_lines s) \<le> 256 \<longrightarrow> log_delivered m + log_pending m = (\<Sum>s \<leftarrow> chans. src_lines s))"
proof -
  have f: "(\<Sum>s \<leftarrow> filter (\<lambda>src. src \<noteq> None) xs. src_cost s) = (\<Sum>s \<leftarrow> xs. src_cost s)"
    "(\<Sum>s \<leftarrow> filter (\<lambda>src. src \<noteq> None) xs. src_lines s) = (\<Sum>s \<leftarrow> xs. src_lines s)" for xs
    by (induction xs) auto
  have 0: "log_cost (composite_Logs chans) = 1 + (\<Sum>s \<leftarrow> chans. src_cost s)"
    "log_delivered (composite_Logs chans) + log_pending (composite_Logs chans) = (\<Sum>s \<leftarrow> chans. src_lines s)"
    by (simp_all add: composite_Logs_def log_cost_def log_delivered_def log_pending_def f del: not_None_eq)
  show ?thesis using log_runD [OF assms] log_progress [of m] unfolding 0 by auto
qed

theorem merged_logs_end_witness:
  "\<exists>m. log_run [Forward 0, Receive, Finish 0, CloseOut] (composite_Logs [Some [''a''], None]) = Some m \<and>
    lm_read m = [''a''] \<and> log_delivered m + log_pending m \<subseteq># {#''a''#} \<and> lm_closed m"
proof -
  obtain m where m: "log_run [Forward 0, Receive, Finish 0, CloseOut] (composite_Logs [Some [''a''], None]) = Some m"
    "lm_read m = [''a'']" "lm_closed m"
    by (simp add: composite_Logs_def)
  from merged_logs_end [OF m(1)] m show ?thesis by auto
qed

end
