(* ===== verification/Node_Controller.thy ===== *)
theory Node_Controller
  imports Backend_Composite
begin

text \<open>
  The controller (\<^verbatim>\<open>controller/controller.go\<close>): the set of cores a node runs, keyed by type
  and instance, the client that controls the node, and the keep-alive jobs; and the assembly of
  chunked user lists (\<^verbatim>\<open>controller/users_chunk.go\<close>).

  The packages of the five protocols are the record \<open>factories\<close>: their dependency check, their
  configuration parser and their constructor. \<^verbatim>\<open>json.Unmarshal\<close> appears as its outcome
  (\<open>json_views\<close>), the free ports of the host as arguments, and a \<^verbatim>\<open>range\<close> loop over the map of
  cores as the list of keys it visits. A cancellable context is a number: cancelling it ends the jobs
  started under it.
\<close>

section \<open>State\<close>

type_synonym backend_key = "backend_type \<times> string"

record 'f system_stats =
  sy_MemTotal :: "64 word"
  sy_MemUsed :: "64 word"
  sy_CpuCores :: "64 word"
  sy_CpuUsage :: 'f
  sy_IncomingBandwidthSpeed :: "64 word"
  sy_OutgoingBandwidthSpeed :: "64 word"
  sy_Uptime :: "64 word"

record base_info =
  bi_Started :: bool
  bi_CoreVersion :: string
  bi_NodeVersion :: string

record ('b, 'f, 'u) controller =
  ct_backends :: "backend_key \<rightharpoonup> 'b"
  ct_apiKey :: 'u
  ct_apiPort :: int
  ct_metricPort :: int
  ct_clientIP :: string
  ct_lastRequest :: gotime
  ct_stats :: "'f system_stats option"
  ct_cancelFunc :: nat
  ct_nextContext :: nat
  ct_keepAliveJobs :: "nat \<rightharpoonup> int"
  ct_statsJobs :: "nat set"

definition NodeVersion :: string where
  "NodeVersion = ''0.5.3''"

definition New :: "'u \<Rightarrow> int \<times> int \<Rightarrow> ('b, 'f, 'u) controller" where
  "New apiKey ports =
     \<lparr>ct_backends = Map.empty, ct_apiKey = apiKey, ct_apiPort = fst ports, ct_metricPort = snd ports,
      ct_clientIP = [], ct_lastRequest = 0, ct_stats = None, ct_cancelFunc = 0, ct_nextContext = 1,
      ct_keepAliveJobs = Map.empty, ct_statsJobs = {}\<rparr>"

definition ApiKey :: "('b, 'f, 'u) controller \<Rightarrow> 'u" where
  "ApiKey c = ct_apiKey c"


section \<open>Clients\<close>

definition Connect :: "gotime \<Rightarrow> string \<Rightarrow> 64 word \<Rightarrow> ('b, 'f, 'u) controller \<Rightarrow> ('b, 'f, 'u) controller" where
  "Connect now ip keepAlive c =
     (let ctx = ct_nextContext c;
          c = c\<lparr>ct_lastRequest := now, ct_clientIP := ip, ct_cancelFunc := ctx, ct_nextContext := Suc ctx,
                ct_statsJobs := insert ctx (ct_statsJobs c)\<rparr>
      in if keepAlive > 0
         then c\<lparr>ct_keepAliveJobs := (ct_keepAliveJobs c)(ctx \<mapsto> wrap64 (uint keepAlive * 1000000000))\<rparr>
         else c)"

definition cancel :: "('b, 'f, 'u) controller \<Rightarrow> ('b, 'f, 'u) controller" where
  "cancel c = c\<lparr>ct_keepAliveJobs := (ct_keepAliveJobs c)(ct_cancelFunc c := None),
                ct_statsJobs := ct_statsJobs c - {ct_cancelFunc c}\<rparr>"

definition running_list :: "backend_key list \<Rightarrow> ('b, 'f, 'u) controller \<Rightarrow> 'b list" where
  "running_list ks c = present (map (ct_backends c) ks)"

definition shutdown_all :: "('b, 'w) backend_ops \<Rightarrow> 'b list \<Rightarrow> 'w \<Rightarrow> 'w" where
  "shutdown_all ops bs w = foldl (\<lambda>w b. bk_Shutdown ops b w) w bs"

text \<open>
  \<^verbatim>\<open>Disconnect\<close> does not hold the mutex while the cores shut down: it is a snapshot of the map,
  the shutdowns, and the clearing of the map.
\<close>

definition Disconnect_begin :: "backend_key list \<Rightarrow> ('b, 'f, 'u) controller \<Rightarrow> 'b list \<times> ('b, 'f, 'u) controller" where
  "Disconnect_begin ks c = (let c = cancel c in (running_list ks c, c))"

definition Disconnect_end :: "int \<times> int \<Rightarrow> ('b, 'f, 'u) controller \<Rightarrow> ('b, 'f, 'u) controller" where
  "Disconnect_end ports c =
     c\<lparr>ct_backends := Map.empty, ct_apiPort := fst ports, ct_metricPort := snd ports, ct_clientIP := []\<rparr>"

definition Disconnect :: "('b, 'w) backend_ops \<Rightarrow> backend_key list \<Rightarrow> int \<times> int \<Rightarrow> ('b, 'f, 'u) controller \<Rightarrow> 'w \<Rightarrow>
    ('b, 'f, 'u) controller \<times> 'w" where
  "Disconnect ops ks ports c w =
     (case Disconnect_begin ks c of
        (running, c) \<Rightarrow> (Disconnect_end ports c, shutdown_all ops running w))"

definition Ip :: "('b, 'f, 'u) controller \<Rightarrow> string" where
  "Ip c = ct_clientIP c"

definition IsCurrentClient :: "string \<Rightarrow> ('b, 'f, 'u) controller \<Rightarrow> bool" where
  "IsCurrentClient ip c \<longleftrightarrow> ct_clientIP c = [] \<or> ct_clientIP c = ip"

definition NewRequest :: "gotime \<Rightarrow> ('b, 'f, 'u) controller \<Rightarrow> ('b, 'f, 'u) controller" where
  "NewRequest now c = c\<lparr>ct_lastRequest := now\<rparr>"


section \<open>Instances\<close>

text \<open>
  What \<^verbatim>\<open>json.Unmarshal\<close> makes of a configuration: as a map of any values, of which the string
  fields matter here, and as the list of inbounds with their type and tag; \<open>None\<close> is an error.
\<close>

record json_views =
  jv_strings :: "string \<Rightarrow> (string \<rightharpoonup> string) option"
  jv_inbounds :: "string \<Rightarrow> (string \<times> string) list option"

fun hysteria_tag :: "(string \<times> string) list \<Rightarrow> string" where
  "hysteria_tag [] = []"
| "hysteria_tag ((typ, tag) # rest) = (if typ = ''hysteria2'' then TrimSpace tag else hysteria_tag rest)"

definition singboxInstanceID :: "json_views \<Rightarrow> string \<Rightarrow> string" where
  "singboxInstanceID J configStr =
     (case jv_inbounds J configStr of None \<Rightarrow> [] | Some inbounds \<Rightarrow> hysteria_tag inbounds)"

definition named_instance :: "json_views \<Rightarrow> string \<Rightarrow> string \<Rightarrow> string" where
  "named_instance J name configStr =
     (case jv_strings J configStr of
        None \<Rightarrow> []
      | Some parsed \<Rightarrow> (case parsed name of Some v \<Rightarrow> TrimSpace v | None \<Rightarrow> []))"

definition backendInstanceID :: "json_views \<Rightarrow> backend_type \<Rightarrow> string \<Rightarrow> string" where
  "backendInstanceID J t configStr =
     (case t of
        WIREGUARD \<Rightarrow> named_instance J ''interface_name'' configStr
      | OPENVPN \<Rightarrow> named_instance J ''inbound_tag'' configStr
      | L2TP \<Rightarrow> named_instance J ''inbound_tag'' configStr
      | SINGBOX \<Rightarrow> singboxInstanceID J configStr
      | XRAY \<Rightarrow> [])"

definition key_for :: "json_views \<Rightarrow> backend_msg \<Rightarrow> backend_key" where
  "key_for J m = (b_Type m, backendInstanceID J (b_Type m) (b_Config m))"


section \<open>Starting and retiring cores\<close>

record ('c, 'b, 'w) factories =
  xray_NewConfig :: "string \<Rightarrow> string list \<Rightarrow> string + 'c"
  xray_New :: "'c \<Rightarrow> user list \<Rightarrow> int \<Rightarrow> int \<Rightarrow> 'w \<Rightarrow> (string + 'b) \<times> 'w"
  wireguard_NewConfig :: "string \<Rightarrow> string + 'c"
  wireguard_New :: "'c \<Rightarrow> user list \<Rightarrow> 'w \<Rightarrow> (string + 'b) \<times> 'w"
  openvpn_CheckDeps :: err
  openvpn_NewConfig :: "string \<Rightarrow> string + 'c"
  openvpn_NewBackend :: "'c \<Rightarrow> user list \<Rightarrow> 'w \<Rightarrow> (string + 'b) \<times> 'w"
  singbox_NewConfig :: "string \<Rightarrow> string + 'c"
  singbox_New :: "'c \<Rightarrow> user list \<Rightarrow> 'w \<Rightarrow> (string + 'b) \<times> 'w"
  l2tp_CheckDeps :: err
  l2tp_NewConfig :: "string \<Rightarrow> string + 'c"
  l2tp_New :: "'c \<Rightarrow> user list \<Rightarrow> 'w \<Rightarrow> (string + 'b) \<times> 'w"

definition retireFor :: "('b, 'w) backend_ops \<Rightarrow> json_views \<Rightarrow> backend_key list \<Rightarrow> backend_msg \<Rightarrow>
    ('b, 'f, 'u) controller \<Rightarrow> 'w \<Rightarrow> ('b, 'f, 'u) controller \<times> 'w" where
  "retireFor ops J ks m c w =
     (let key = key_for J m;
          retired = (if b_Additive m then (case ct_backends c key of Some old \<Rightarrow> [old] | None \<Rightarrow> [])
                     else running_list ks c);
          left = (if b_Additive m then (ct_backends c)(key := None) else Map.empty)
      in (c\<lparr>ct_backends := left\<rparr>, shutdown_all ops retired w))"

text \<open>A configuration that does not parse ends the start before the constructor is called.\<close>

definition configured :: "string + 'c \<Rightarrow> ('c \<Rightarrow> 'w \<Rightarrow> (string + 'b) \<times> 'w) \<Rightarrow> 'w \<Rightarrow> (string + 'b) \<times> 'w" where
  "configured config start w = (case config of Inl err \<Rightarrow> (Inl err, w) | Inr cfg \<Rightarrow> start cfg w)"

definition launch :: "('c, 'b, 'w) factories \<Rightarrow> int \<Rightarrow> int \<Rightarrow> backend_msg \<Rightarrow> 'w \<Rightarrow> (string + 'b) \<times> 'w" where
  "launch F apiPort metricPort m w =
     (case b_Type m of
        XRAY \<Rightarrow> configured (xray_NewConfig F (b_Config m) (b_ExcludeInbounds m))
                  (\<lambda>config. xray_New F config (b_Users m) apiPort metricPort) w
      | WIREGUARD \<Rightarrow> configured (wireguard_NewConfig F (b_Config m)) (\<lambda>config. wireguard_New F config (b_Users m)) w
      | OPENVPN \<Rightarrow> (case openvpn_CheckDeps F of
                      Some err \<Rightarrow> (Inl err, w)
                    | None \<Rightarrow> configured (openvpn_NewConfig F (b_Config m)) (\<lambda>config. openvpn_NewBackend F config (b_Users m)) w)
      | SINGBOX \<Rightarrow> configured (singbox_NewConfig F (b_Config m)) (\<lambda>config. singbox_New F config (b_Users m)) w
      | L2TP \<Rightarrow> (case l2tp_CheckDeps F of
                   Some err \<Rightarrow> (Inl err, w)
                 | None \<Rightarrow> configured (l2tp_NewConfig F (b_Config m)) (\<lambda>config. l2tp_New F config (b_Users m)) w))"

definition StartBackend :: "('b, 'w) backend_ops \<Rightarrow> json_views \<Rightarrow> ('c, 'b, 'w) factories \<Rightarrow> backend_key list \<Rightarrow>
    backend_msg \<Rightarrow> ('b, 'f, 'u) controller \<Rightarrow> 'w \<Rightarrow> err \<times> ('b, 'f, 'u) controller \<times> 'w" where
  "StartBackend ops J F ks m c w =
     (case retireFor ops J ks m c w of
        (c, w) \<Rightarrow>
          (case launch F (ct_apiPort c) (ct_metricPort c) m w of
             (Inl err, w) \<Rightarrow> (Some err, c, w)
           | (Inr newBackend, w) \<Rightarrow> (None, c\<lparr>ct_backends := (ct_backends c)(key_for J m \<mapsto> newBackend)\<rparr>, w)))"


section \<open>Views over the running cores\<close>

definition Backend :: "backend_key list \<Rightarrow> ('b, 'f, 'u) controller \<Rightarrow> 'b composite option" where
  "Backend ks c = (if ct_backends c = Map.empty then None else NewComposite (running_list ks c))"

definition anyBackend :: "backend_key list \<Rightarrow> ('b, 'f, 'u) controller \<Rightarrow> 'b option" where
  "anyBackend ks c = (case running_list ks c of [] \<Rightarrow> None | b # _ \<Rightarrow> Some b)"

definition keepAliveTracker :: "('b, 'w) backend_ops \<Rightarrow> backend_key list \<Rightarrow> int \<times> int \<Rightarrow> gotime \<Rightarrow> nat \<Rightarrow>
    ('b, 'f, 'u) controller \<Rightarrow> 'w \<Rightarrow> ('b, 'f, 'u) controller \<times> 'w" where
  "keepAliveTracker ops ks ports now ctx c w =
     (case ct_keepAliveJobs c ctx of
        None \<Rightarrow> (c, w)
      | Some keepAlive \<Rightarrow> if now - ct_lastRequest c \<ge> keepAlive then Disconnect ops ks ports c w else (c, w))"

definition recordSystemStats :: "string + 'f system_stats \<Rightarrow> nat \<Rightarrow> ('b, 'f, 'u) controller \<Rightarrow> ('b, 'f, 'u) controller" where
  "recordSystemStats sample ctx c =
     (if ctx \<in> ct_statsJobs c then (case sample of Inl _ \<Rightarrow> c | Inr stats \<Rightarrow> c\<lparr>ct_stats := Some stats\<rparr>) else c)"

definition SystemStats :: "('b, 'w) backend_ops \<Rightarrow> backend_key list \<Rightarrow> 'f \<Rightarrow> ('b, 'f, 'u) controller \<Rightarrow> 'w \<Rightarrow> 'f system_stats" where
  "SystemStats ops ks zero c w =
     (let response = (case ct_stats c of
            None \<Rightarrow> \<lparr>sy_MemTotal = 0, sy_MemUsed = 0, sy_CpuCores = 0, sy_CpuUsage = zero,
                     sy_IncomingBandwidthSpeed = 0, sy_OutgoingBandwidthSpeed = 0, sy_Uptime = 0\<rparr>
          | Some s \<Rightarrow> s)
      in case anyBackend ks c of
           None \<Rightarrow> response
         | Some b \<Rightarrow> (case bk_GetSysStats ops b w of
                        (_, Some err) \<Rightarrow> response
                      | (backendStats, None) \<Rightarrow> response\<lparr>sy_Uptime := ucast (GetUptime backendStats)\<rparr>))"

definition BaseInfoResponse :: "('b, 'w) backend_ops \<Rightarrow> backend_key list \<Rightarrow> ('b, 'f, 'u) controller \<Rightarrow> 'w \<Rightarrow> base_info" where
  "BaseInfoResponse ops ks c w =
     (case anyBackend ks c of
        None \<Rightarrow> \<lparr>bi_Started = False, bi_CoreVersion = [], bi_NodeVersion = NodeVersion\<rparr>
      | Some b \<Rightarrow> \<lparr>bi_Started = bk_Started ops b w, bi_CoreVersion = bk_Version ops b w, bi_NodeVersion = NodeVersion\<rparr>)"

definition OutboundsLatency :: "('b, 'w) backend_ops \<Rightarrow> backend_key list \<Rightarrow> string \<Rightarrow> ('b, 'f, 'u) controller \<Rightarrow> 'w \<Rightarrow>
    string + latency list option" where
  "OutboundsLatency ops ks request c w =
     (case Backend ks c of
        None \<Rightarrow> Inr (Some [])
      | Some backendSnapshot \<Rightarrow> Composite_GetOutboundsLatency ops request backendSnapshot w)"


section \<open>Chunked user lists\<close>

text \<open>
  The loop variable is a \<^verbatim>\<open>uint64\<close>: for the largest index the loop condition is always true, and
  the loop ends only at a missing chunk. \<open>None\<close> is a loop that never returns.
\<close>

partial_function (option) build_loop :: "(64 word \<rightharpoonup> user list) \<Rightarrow> 64 word \<Rightarrow> 64 word \<Rightarrow> user list \<Rightarrow>
    (string + user list) option" where
  "build_loop chunks lastIndex i users =
     (if i \<le> lastIndex then
        (case chunks i of
           None \<Rightarrow> Some (Inl (''missing chunk index '' @ show_nat (unat i)))
         | Some chunkUsers \<Rightarrow> build_loop chunks lastIndex (i + 1) (users @ chunkUsers))
      else Some (Inr users))"

definition BuildUsersFromChunks :: "(64 word \<rightharpoonup> user list) \<Rightarrow> 64 word \<Rightarrow> bool \<Rightarrow> (string + user list) option" where
  "BuildUsersFromChunks chunks lastIndex sawLast =
     (if \<not> sawLast then Some (Inl ''missing final chunk indicator'')
      else case build_loop chunks lastIndex 0 [] of
             None \<Rightarrow> None
           | Some (Inl err) \<Rightarrow> Some (Inl err)
           | Some (Inr users) \<Rightarrow> (if length users = 0 then Some (Inl ''no users received'') else Some (Inr users)))"

definition ApplyChunkedUserUpdate :: "('b, 'w) backend_ops \<Rightarrow> 'b composite \<Rightarrow> user list \<Rightarrow> 'w \<Rightarrow> err \<times> 'w" where
  "ApplyChunkedUserUpdate ops back users w = Composite_UpdateUsers ops users back w"


section \<open>What the constructors promise\<close>

definition constructors :: "('c, 'b, 'w) factories \<Rightarrow> ('w \<Rightarrow> (string + 'b) \<times> 'w) set" where
  "constructors F = {nw. (\<exists>cfg us p q. nw = xray_New F cfg us p q) \<or> (\<exists>cfg us. nw = wireguard_New F cfg us) \<or>
     (\<exists>cfg us. nw = openvpn_NewBackend F cfg us) \<or> (\<exists>cfg us. nw = singbox_New F cfg us) \<or>
     (\<exists>cfg us. nw = l2tp_New F cfg us)}"

lemma constructors_mem: "xray_New F cfg us p q \<in> constructors F" "wireguard_New F cfg us \<in> constructors F"
    "openvpn_NewBackend F cfg us \<in> constructors F" "singbox_New F cfg us \<in> constructors F"
    "l2tp_New F cfg us \<in> constructors F"
  unfolding constructors_def mem_Collect_eq by blast+

lemma ran_delete:
  assumes "\<forall>k k' b. m k = Some b \<longrightarrow> m k' = Some b \<longrightarrow> k = k'"
  shows "ran (m(k := None)) = ran m - set_option (m k)"
proof (rule set_eqI)
  fix b
  have "b \<in> ran (m(k := None)) \<longleftrightarrow> (\<exists>k'. k' \<noteq> k \<and> m k' = Some b)" unfolding ran_def mem_Collect_eq fun_upd_def by auto
  also have "\<dots> \<longleftrightarrow> (\<exists>k'. m k' = Some b) \<and> m k \<noteq> Some b" using assms by metis
  finally show "b \<in> ran (m(k := None)) \<longleftrightarrow> b \<in> ran m - set_option (m k)"
    by (auto simp: ran_def elem_set)
qed

lemma inj_insert:
  assumes "\<forall>k k' b. m k = Some b \<longrightarrow> m k' = Some b \<longrightarrow> k = k'" "b \<notin> ran m"
  shows "\<forall>k k' x. (m(j \<mapsto> b)) k = Some x \<longrightarrow> (m(j \<mapsto> b)) k' = Some x \<longrightarrow> k = k'"
  using assms unfolding ran_def fun_upd_def mem_Collect_eq by (metis option.inject)

lemma launch_cases:
  obtains (refused) e where "launch F ap mp m w = (Inl e, w)"
    | (built) nw where "nw \<in> constructors F" "launch F ap mp m w = nw w"
proof -
  have "(\<exists>e. launch F ap mp m w = (Inl e, w)) \<or> (\<exists>nw \<in> constructors F. launch F ap mp m w = nw w)"
    by (cases "b_Type m")
      (auto simp: launch_def configured_def split: sum.split option.split intro: bexI [OF _ constructors_mem(1)]
        bexI [OF _ constructors_mem(2)] bexI [OF _ constructors_mem(3)] bexI [OF _ constructors_mem(4)]
        bexI [OF _ constructors_mem(5)])
  with that show thesis by blast
qed

text \<open>
  The invariant of a node: every core of the map exists, is in a good state and is there once, and no
  core runs that the map does not hold.
\<close>

definition node_inv :: "('b, 'w) backend_ops \<Rightarrow> ('b \<Rightarrow> 'w \<Rightarrow> 's) \<Rightarrow> ('s \<Rightarrow> bool) \<Rightarrow> ('b \<Rightarrow> 'w \<Rightarrow> bool) \<Rightarrow>
    ('b, 'f, 'u) controller \<Rightarrow> 'w \<Rightarrow> bool" where
  "node_inv ops view ok alive c w \<longleftrightarrow> finite (dom (ct_backends c)) \<and>
     (\<forall>k k' b. ct_backends c k = Some b \<longrightarrow> ct_backends c k' = Some b \<longrightarrow> k = k') \<and>
     (\<forall>b \<in> ran (ct_backends c). alive b w \<and> ok (view b w)) \<and>
     (\<forall>b. bk_Started ops b w \<longrightarrow> b \<in> ran (ct_backends c))"

text \<open>
  A constructor that succeeds gives a core that did not exist before, in a good state, and touches no
  other core; one that fails leaves no core behind. Methods neither create nor destroy cores.
\<close>

locale node_cores = isolated_cores ops view ok
  for ops :: "('b, 'w) backend_ops" and view :: "'b \<Rightarrow> 'w \<Rightarrow> 's" and ok :: "'s \<Rightarrow> bool" +
  fixes alive :: "'b \<Rightarrow> 'w \<Rightarrow> bool" and F :: "('c, 'b, 'w) factories"
  assumes new_ok: "nw \<in> constructors F \<Longrightarrow> nw w = (Inr b, w') \<Longrightarrow>
      \<not> alive b w \<and> ok (view b w') \<and> (\<forall>b'. alive b' w' \<longleftrightarrow> b' = b \<or> alive b' w) \<and>
      (\<forall>b'. b' \<noteq> b \<longrightarrow> view b' w' = view b' w)"
    and new_err: "nw \<in> constructors F \<Longrightarrow> nw w = (Inl e, w') \<Longrightarrow>
      (\<forall>b'. (alive b' w' \<longleftrightarrow> alive b' w) \<and> view b' w' = view b' w)"
    and mutator_alive: "op \<in> mutators ops \<Longrightarrow> alive b' (snd (op b w)) \<longleftrightarrow> alive b' w"
    and shutdown_alive: "alive b' (bk_Shutdown ops b w) \<longleftrightarrow> alive b' w"
    and stats_alive: "alive b' (snd (bk_GetStats ops r b w)) \<longleftrightarrow> alive b' w"
begin

lemma running_list_mem: "b \<in> set (running_list ks c) \<longleftrightarrow> (\<exists>k \<in> set ks. ct_backends c k = Some b)"
  unfolding running_list_def set_present set_map image_iff by metis

text \<open>The invariant over the cores of this contract.\<close>

abbreviation good_node :: "('b, 'f, 'u) controller \<Rightarrow> 'w \<Rightarrow> bool" where
  "good_node \<equiv> node_inv ops view ok alive"

lemma running_list_set: "iterates ks (ct_backends c) \<Longrightarrow> set (running_list ks c) = ran (ct_backends c)"
  using running_list_mem [of _ ks c] unfolding iterates_def ran_def by blast

lemma running_list_distinct:
  assumes "iterates ks (ct_backends c)" "good_node c w"
  shows "distinct (running_list ks c)"
proof -
  have inj: "\<forall>k k' b. ct_backends c k = Some b \<longrightarrow> ct_backends c k' = Some b \<longrightarrow> k = k'"
    using assms(2) by (simp add: node_inv_def)
  have "distinct ks \<Longrightarrow> distinct (present (map (ct_backends c) ks))"
  proof (induction ks)
    case (Cons k ks)
    show ?case
    proof (cases "ct_backends c k")
      case None
      with Cons show ?thesis by simp
    next
      case (Some b)
      have "b \<notin> set (present (map (ct_backends c) ks))"
        using Cons.prems inj Some running_list_mem [of b ks c] unfolding running_list_def
        by (metis distinct.simps(2))
      with Cons Some show ?thesis by simp
    qed
  qed simp
  with assms(1) show ?thesis by (simp add: running_list_def iterates_def)
qed

lemma shutdown_all_alive: "alive b (shutdown_all ops bs w) \<longleftrightarrow> alive b w"
  unfolding shutdown_all_def by (induction bs arbitrary: w) (simp_all add: shutdown_alive)

text \<open>After shutting down a list of cores, a core runs only if it ran before and is not in the list.\<close>

lemma shutdown_all_started:
  assumes "distinct bs" "\<forall>b \<in> set bs. ok (view b w)" "bk_Started ops b (shutdown_all ops bs w)"
  shows "b \<notin> set bs \<and> bk_Started ops b w"
proof -
  have "b \<notin> set bs" using shutdown_all_stops [OF assms(1)] assms(2,3) by (auto simp: shutdown_all_def)
  moreover have "view b (shutdown_all ops bs w) = view b w"
    using shutdown_all_view [OF assms(1), of b w] calculation by (simp add: shutdown_all_def)
  ultimately show ?thesis using started_local assms(3) by metis
qed

lemma shutdown_all_ok: "distinct bs \<Longrightarrow> ok (view b w) \<Longrightarrow> ok (view b (shutdown_all ops bs w))"
  using shutdown_all_view [of bs b w] shutdown_ok [of b w] by (simp add: shutdown_all_def)

lemma Disconnect_stops_all:
  assumes "good_node c w" "iterates ks (ct_backends c)" "Disconnect ops ks ports c w = (c', w')"
  shows "good_node c' w' \<and> ct_backends c' = Map.empty \<and> (\<forall>b. \<not> bk_Started ops b w') \<and> ct_clientIP c' = [] \<and>
    (\<forall>b. alive b w' \<longleftrightarrow> alive b w)"
proof -
  let ?bs = "running_list ks c"
  have c': "ct_backends c' = Map.empty" "ct_clientIP c' = []" and w': "w' = shutdown_all ops ?bs w"
    using assms(3) by (auto simp: Disconnect_def Disconnect_begin_def Disconnect_end_def cancel_def running_list_def Let_def)
  note d = running_list_distinct [OF assms(2,1)] and s = running_list_set [OF assms(2)]
  have "\<not> bk_Started ops b w'" for b
    using shutdown_all_started [OF d, of w b] assms(1) unfolding s w' node_inv_def by blast
  then show ?thesis using c' by (auto simp: node_inv_def w' shutdown_all_alive)
qed

text \<open>Retiring stops exactly the cores the start supersedes, and keeps the rest as they were.\<close>

lemma retireFor_spec:
  assumes "good_node c w" "iterates ks (ct_backends c)" "retireFor ops J ks m c w = (c', w')"
  shows "good_node c' w' \<and>
    ct_backends c' = (if b_Additive m then (ct_backends c)(key_for J m := None) else Map.empty) \<and>
    (\<forall>b \<in> ran (ct_backends c'). view b w' = view b w) \<and>
    (\<forall>b. b \<in> ran (ct_backends c) \<longrightarrow> b \<notin> ran (ct_backends c') \<longrightarrow> \<not> bk_Started ops b w') \<and>
    (\<forall>b. bk_Started ops b w' \<longrightarrow> bk_Started ops b w)"
proof -
  let ?old = "case ct_backends c (key_for J m) of Some old \<Rightarrow> [old] | None \<Rightarrow> []"
  define retired where "retired = (if b_Additive m then ?old else running_list ks c)"
  define kept where "kept = (if b_Additive m then (ct_backends c)(key_for J m := None) else Map.empty)"
  have c': "ct_backends c' = kept" and w': "w' = shutdown_all ops retired w"
    using assms(3) by (auto simp: retireFor_def Let_def retired_def kept_def)
  have inj: "\<forall>k k' b. ct_backends c k = Some b \<longrightarrow> ct_backends c k' = Some b \<longrightarrow> k = k'"
    and fin: "finite (dom (ct_backends c))" and good: "\<forall>b \<in> ran (ct_backends c). alive b w \<and> ok (view b w)"
    and run: "\<forall>b. bk_Started ops b w \<longrightarrow> b \<in> ran (ct_backends c)" using assms(1) by (auto simp: node_inv_def)
  have d: "distinct retired"
    using running_list_distinct [OF assms(2,1)] by (auto simp: retired_def split: option.split)
  have split: "set retired = ran (ct_backends c) - ran kept"
    using running_list_set [OF assms(2)] ran_delete [OF inj, of "key_for J m"]
    by (auto simp: retired_def kept_def intro: ranI split: option.split)
  have sub: "ran kept \<subseteq> ran (ct_backends c)" by (auto simp: kept_def ran_def split: if_splits)
  have ok_r: "\<forall>b \<in> set retired. ok (view b w)" using good split by auto
  have same: "view b w' = view b w" if "b \<in> ran kept" for b
    using shutdown_all_view [OF d, of b w] split that by (auto simp: w' shutdown_all_def)
  have started: "bk_Started ops b w' \<Longrightarrow> b \<notin> set retired \<and> bk_Started ops b w" for b
    using shutdown_all_started [OF d ok_r] unfolding w' .
  have "good_node c' w'"
    unfolding node_inv_def c'
  proof (intro conjI)
    show "finite (dom kept)" using fin by (simp add: kept_def)
    show "\<forall>k k' b. kept k = Some b \<longrightarrow> kept k' = Some b \<longrightarrow> k = k'" using inj by (auto simp: kept_def split: if_splits)
    show "\<forall>b \<in> ran kept. alive b w' \<and> ok (view b w')"
      using good sub same shutdown_all_alive [of _ retired w] unfolding w' by (metis subsetD)
    show "\<forall>b. bk_Started ops b w' \<longrightarrow> b \<in> ran kept" using started run split by blast
  qed
  moreover have "\<not> bk_Started ops b w'" if "b \<in> ran (ct_backends c)" "b \<notin> ran kept" for b
    using started split that by blast
  ultimately show ?thesis using same started unfolding c' by (auto simp: kept_def)
qed

lemma started_view: "view b w' = view b w \<Longrightarrow> bk_Started ops b w' = bk_Started ops b w"
  by (rule started_local)

lemma launch_spec:
  assumes "launch F ap mp m w = (r, w')"
  shows "case r of
      Inl e \<Rightarrow> (\<forall>b'. (alive b' w' \<longleftrightarrow> alive b' w) \<and> view b' w' = view b' w)
    | Inr b \<Rightarrow> \<not> alive b w \<and> ok (view b w') \<and> (\<forall>b'. alive b' w' \<longleftrightarrow> b' = b \<or> alive b' w) \<and>
        (\<forall>b'. b' \<noteq> b \<longrightarrow> view b' w' = view b' w)"
proof (cases rule: launch_cases [of F ap mp m w])
  case (refused e)
  with assms show ?thesis by auto
next
  case (built nw)
  with assms have nw: "nw w = (r, w')" by simp
  show ?thesis
  proof (cases r)
    case (Inl e)
    with new_err [OF built(1)] nw show ?thesis by simp
  next
    case (Inr b)
    with new_ok [OF built(1)] nw show ?thesis by simp
  qed
qed

lemma StartBackend_spec:
  assumes "good_node c w" "iterates ks (ct_backends c)" "StartBackend ops J F ks m c w = (e, c', w')"
  defines "kept \<equiv> if b_Additive m then (ct_backends c)(key_for J m := None) else Map.empty"
  shows "good_node c' w' \<and> (\<forall>b \<in> ran kept. view b w' = view b w) \<and>
    (case e of Some _ \<Rightarrow> ct_backends c' = kept
     | None \<Rightarrow> \<exists>b. b \<notin> ran (ct_backends c) \<and> ct_backends c' = kept(key_for J m \<mapsto> b)) \<and>
    (\<forall>b. b \<in> ran (ct_backends c) \<longrightarrow> b \<notin> ran kept \<longrightarrow> \<not> bk_Started ops b w') \<and>
    (\<forall>b. alive b w \<longrightarrow> bk_Started ops b w' \<longrightarrow> bk_Started ops b w)"
proof -
  obtain c1 w1 where r: "retireFor ops J ks m c w = (c1, w1)" by fastforce
  note rs = retireFor_spec [OF assms(1,2) r]
  then have c1: "ct_backends c1 = kept" and inv1: "good_node c1 w1"
    and v1: "\<forall>b \<in> ran kept. view b w1 = view b w"
    and off: "\<forall>b. b \<in> ran (ct_backends c) \<longrightarrow> b \<notin> ran kept \<longrightarrow> \<not> bk_Started ops b w1"
    and old: "\<forall>b. bk_Started ops b w1 \<longrightarrow> bk_Started ops b w"
    by (auto simp: kept_def)
  obtain q w2 where l: "launch F (ct_apiPort c1) (ct_metricPort c1) m w1 = (q, w2)" by fastforce
  note ls = launch_spec [OF l]
  have alive1: "alive b w1 \<longleftrightarrow> alive b w" for b
  proof -
    obtain bs where "w1 = shutdown_all ops bs w" using r by (auto simp: retireFor_def Let_def)
    then show ?thesis by (simp add: shutdown_all_alive)
  qed
  show ?thesis
  proof (cases q)
    case (Inl err)
    with assms(3) r l have c': "c' = c1" and w': "w' = w2" and e: "e = Some err" by (auto simp: StartBackend_def)
    from ls Inl have same: "\<And>b. (alive b w' \<longleftrightarrow> alive b w1) \<and> view b w' = view b w1" by (simp add: w')
    have "good_node c' w'" using inv1 same started_view [of _ w' w1] unfolding node_inv_def c' by metis
    then show ?thesis using c1 v1 off old same started_view [of _ w' w1] by (simp add: c' e)
  next
    case (Inr b)
    with assms(3) r l have c': "ct_backends c' = kept(key_for J m \<mapsto> b)" and w': "w' = w2" and e: "e = None"
      by (auto simp: StartBackend_def c1)
    from ls Inr have new: "\<not> alive b w1" "ok (view b w')" "\<And>b'. alive b' w' \<longleftrightarrow> b' = b \<or> alive b' w1"
      and same: "\<And>b'. b' \<noteq> b \<Longrightarrow> view b' w' = view b' w1" by (auto simp: w')
    have b: "b \<notin> ran (ct_backends c)" using new(1) assms(1) by (auto simp: alive1 node_inv_def)
    have b': "b \<notin> ran kept" using new(1) inv1 by (auto simp: node_inv_def c1)
    have ran: "ran (kept(key_for J m \<mapsto> b)) = insert b (ran kept)"
      by (rule ran_map_upd) (simp add: kept_def)
    have "good_node c' w'"
      unfolding node_inv_def c' ran
    proof (intro conjI)
      show "finite (dom (kept(key_for J m \<mapsto> b)))" using inv1 by (simp add: node_inv_def c1)
      show "\<forall>k k' x. (kept(key_for J m \<mapsto> b)) k = Some x \<longrightarrow> (kept(key_for J m \<mapsto> b)) k' = Some x \<longrightarrow> k = k'"
        using inv1 b' unfolding node_inv_def c1 by (intro inj_insert) blast+
      show "\<forall>x \<in> insert b (ran kept). alive x w' \<and> ok (view x w')"
        using inv1 new same by (metis c1 insert_iff node_inv_def)
      show "\<forall>x. bk_Started ops x w' \<longrightarrow> x \<in> insert b (ran kept)"
        using inv1 same started_view [of _ w' w1] by (metis c1 insert_iff node_inv_def)
    qed
    moreover have "\<forall>x \<in> ran kept. view x w' = view x w" using v1 same b' by metis
    moreover have "\<forall>x. x \<in> ran (ct_backends c) \<longrightarrow> x \<notin> ran kept \<longrightarrow> \<not> bk_Started ops x w'"
      using off same b started_view [of _ w' w1] by metis
    moreover have "\<forall>x. alive x w \<longrightarrow> bk_Started ops x w' \<longrightarrow> bk_Started ops x w"
      using old same new(1) alive1 started_view [of _ w' w1] by metis
    ultimately show ?thesis using c' b by (auto simp: e)
  qed
qed

text \<open>Calls through the composite keep the invariant: they touch the cores of the map only.\<close>

lemma view_change_inv:
  assumes "good_node c w" "\<forall>b. b \<notin> ran (ct_backends c) \<longrightarrow> view b w' = view b w"
    and "\<forall>b. alive b w' \<longleftrightarrow> alive b w" "\<forall>b \<in> ran (ct_backends c). ok (view b w')"
  shows "good_node c w'"
  using assms(1,3,4) started_view [OF assms(2) [rule_format]] unfolding node_inv_def by metis

lemma fan_out_alive: "op \<in> mutators ops \<Longrightarrow> alive b (snd (fan_out op bs e w)) \<longleftrightarrow> alive b w"
  by (induction bs arbitrary: e w) (simp_all add: Let_def split_beta mutator_alive)

lemma fan_out_inv:
  assumes "op \<in> mutators ops" "good_node c w" "iterates ks (ct_backends c)"
  shows "good_node c (snd (fan_out op (running_list ks c) e w))"
proof -
  note v = fan_out_view [OF assms(1) running_list_distinct [OF assms(3,2)]] and s = running_list_set [OF assms(3)]
  have "\<forall>b \<in> ran (ct_backends c). ok (view b w)" using assms(2) by (simp add: node_inv_def)
  then show ?thesis
    by (intro view_change_inv [OF assms(2)]) (simp_all add: v s fan_out_alive [OF assms(1)] mutator_ok [OF assms(1)])
qed

lemma gather_alive: "alive b (snd (gather_stats (bk_GetStats ops r) bs ms e w)) \<longleftrightarrow> alive b w"
proof (induction bs arbitrary: ms e w)
  case (Cons x bs)
  obtain q w' where g: "bk_GetStats ops r x w = (q, w')" by fastforce
  with stats_alive [of b r x w] have "alive b w' \<longleftrightarrow> alive b w" by simp
  with Cons g show ?case by (simp split: sum.split option.split)
qed simp

lemma gather_inv:
  assumes "good_node c w" "iterates ks (ct_backends c)"
  shows "good_node c (snd (gather_stats (bk_GetStats ops r) (running_list ks c) ms e w))"
proof -
  note v = gather_stats_view [OF running_list_distinct [OF assms(2,1)]] and s = running_list_set [OF assms(2)]
  have "\<forall>b \<in> ran (ct_backends c). ok (view b w)" using assms(1) by (simp add: node_inv_def)
  then show ?thesis by (intro view_change_inv [OF assms(1)]) (simp_all add: v s gather_alive stats_ok)
qed

end


section \<open>Properties of the chunked user lists\<close>

lemma unat_inc: "(i :: 64 word) \<noteq> - 1 \<Longrightarrow> unat (i + 1) = Suc (unat i)"
  using unatSuc [of i] by (metis add.commute add_eq_0_iff)

lemma word_nat_id: "of_nat (unat w) = (w :: 64 word)"
  by simp

lemma build_loop_complete:
  assumes "\<forall>j. unat i \<le> j \<and> j \<le> unat lastIndex \<longrightarrow> chunks (of_nat j) \<noteq> None" "lastIndex \<noteq> - 1" "i \<le> lastIndex + 1"
  shows "build_loop chunks lastIndex i users =
    Some (Inr (users @ concat (map (\<lambda>j. the (chunks (of_nat j))) [unat i ..< Suc (unat lastIndex)])))"
  using assms(1,3)
proof (induction "Suc (unat lastIndex) - unat i" arbitrary: i users)
  case 0
  have last: "unat (lastIndex + 1) = Suc (unat lastIndex)"
    using assms(2) by (rule unat_inc)
  from 0 have "\<not> i \<le> lastIndex" by (simp add: word_le_nat_alt)
  with 0 show ?case by (subst build_loop.simps) simp
next
  case (Suc n)
  then have le: "i \<le> lastIndex" by (simp add: word_le_nat_alt)
  have "i \<noteq> - 1" using le assms(2) by (metis word_order.extremum_uniqueI)
  then have i1: "unat (i + 1) = Suc (unat i)" by (rule unat_inc)
  have last: "unat (lastIndex + 1) = Suc (unat lastIndex)"
    using assms(2) by (rule unat_inc)
  from Suc.prems(1) le obtain us where us: "chunks i = Some us"
    by (metis le_refl not_None_eq word_le_nat_alt word_nat_id)
  have ih: "build_loop chunks lastIndex (i + 1) (users @ us) =
      Some (Inr ((users @ us) @ concat (map (\<lambda>j. the (chunks (of_nat j))) [unat (i + 1) ..< Suc (unat lastIndex)])))"
  proof (rule Suc.hyps(1))
    show "n = Suc (unat lastIndex) - unat (i + 1)" using Suc.hyps(2) i1 by simp
    show "\<forall>j. unat (i + 1) \<le> j \<and> j \<le> unat lastIndex \<longrightarrow> chunks (of_nat j) \<noteq> None"
      using Suc.prems(1) by (simp add: i1)
    show "i + 1 \<le> lastIndex + 1" using le by (simp add: word_le_nat_alt i1 last)
  qed
  have "[unat i ..< Suc (unat lastIndex)] = unat i # [unat (i + 1) ..< Suc (unat lastIndex)]"
    using le by (simp add: i1 word_le_nat_alt upt_conv_Cons)
  with ih le us show ?case by (subst build_loop.simps) simp
qed

lemma build_loop_missing:
  assumes "chunks (of_nat j) = None" "\<forall>k. unat i \<le> k \<and> k < j \<longrightarrow> chunks (of_nat k) \<noteq> None"
    and "unat i \<le> j" "j \<le> unat lastIndex"
  shows "build_loop chunks lastIndex i users = Some (Inl (''missing chunk index '' @ show_nat j))"
  using assms(2,3)
proof (induction "j - unat i" arbitrary: i users)
  case 0
  then have j: "j = unat i" by simp
  then have "i \<le> lastIndex" "chunks i = None" using assms by (simp_all add: word_le_nat_alt)
  then show ?case by (subst build_loop.simps) (simp add: j)
next
  case (Suc n)
  then have lt: "unat i < j" by simp
  then have le: "i \<le> lastIndex" using assms(4) by (simp add: word_le_nat_alt)
  have "i \<noteq> - 1" using lt assms(4) word_order.extremum [of lastIndex] by (auto simp: word_le_nat_alt)
  then have i1: "unat (i + 1) = Suc (unat i)" by (rule unat_inc)
  from Suc.prems(1) lt obtain us where us: "chunks i = Some us"
    by (metis le_refl not_None_eq word_nat_id)
  have "build_loop chunks lastIndex (i + 1) (users @ us) = Some (Inl (''missing chunk index '' @ show_nat j))"
    by (rule Suc.hyps(1)) (use Suc.hyps(2) Suc.prems(1) lt in \<open>simp_all add: i1\<close>)
  with le us show ?case by (subst build_loop.simps) simp
qed

text \<open>
  C14: The assembly of chunks ends, although its loop variable wraps around, as soon as one of the
  2^64 indices has no chunk: with every chunk up to the last present it gives the chunks
  concatenated in the order of their index (or refuses an empty list), otherwise it names the
  smallest missing index.
\<close>

theorem BuildUsersFromChunks_ends:
  assumes "chunks k = None"
  shows "BuildUsersFromChunks chunks lastIndex True =
    (case find (\<lambda>j. chunks (of_nat j) = None) [0 ..< Suc (unat lastIndex)] of
       Some j \<Rightarrow> Some (Inl (''missing chunk index '' @ show_nat j))
     | None \<Rightarrow> (let users = concat (map (\<lambda>j. the (chunks (of_nat j))) [0 ..< Suc (unat lastIndex)])
               in if users = [] then Some (Inl ''no users received'') else Some (Inr users)))"
proof (cases "find (\<lambda>j. chunks (of_nat j) = None) [0 ..< Suc (unat lastIndex)]")
  case None
  then have all: "\<forall>j. j \<le> unat lastIndex \<longrightarrow> chunks (of_nat j) \<noteq> None"
    by (auto simp: find_None_iff less_Suc_eq_le simp del: upt_Suc)
  have "lastIndex \<noteq> - 1"
  proof
    assume "lastIndex = - 1"
    then have "unat k \<le> unat lastIndex" by (metis word_le_nat_alt word_order.extremum)
    with all assms show False by (metis word_nat_id)
  qed
  moreover have "0 \<le> lastIndex + 1" by simp
  ultimately show ?thesis using build_loop_complete [of 0 lastIndex chunks "[]"] all None
    by (simp add: BuildUsersFromChunks_def Let_def del: upt_Suc)
next
  case (Some j)
  then have j: "chunks (of_nat j) = None" "j \<le> unat lastIndex" "\<forall>k < j. chunks (of_nat k) \<noteq> None"
    by (auto simp: find_Some_iff less_Suc_eq_le simp del: upt_Suc)
  have "build_loop chunks lastIndex 0 [] = Some (Inl (''missing chunk index '' @ show_nat j))"
    by (rule build_loop_missing) (use j in simp_all)
  with Some show ?thesis by (simp add: BuildUsersFromChunks_def del: upt_Suc)
qed

theorem BuildUsersFromChunks_ends_witness:
  "BuildUsersFromChunks [0 \<mapsto> [None], 1 \<mapsto> [None, None]] 1 True = Some (Inr [None, None, None]) \<and>
   BuildUsersFromChunks [0 \<mapsto> [None]] (- 1) True = Some (Inl ''missing chunk index 1'')"
proof
  have one: "show_nat (Suc 0) = ''1''" by code_simp
  show "BuildUsersFromChunks [0 \<mapsto> [None], 1 \<mapsto> [None, None]] 1 True = Some (Inr [None, None, None])"
    using BuildUsersFromChunks_ends [of "[0 \<mapsto> [None], 1 \<mapsto> [None, None]]" 2 1] by simp
  have "find (\<lambda>j. ([0 \<mapsto> [None]] :: 64 word \<rightharpoonup> user list) (of_nat j) = None) [0 ..< Suc (unat (- 1 :: 64 word))] = Some 1"
  proof -
    have two: "[0 ..< Suc (Suc n)] = 0 # 1 # [2 ..< Suc (Suc n)]" for n
      by (simp add: upt_conv_Cons numeral_2_eq_2 del: upt_Suc)
    have "unat (- 1 :: 64 word) \<noteq> 0" by (simp add: unat_eq_zero)
    then obtain n where "unat (- 1 :: 64 word) = Suc n" using not0_implies_Suc by blast
    with two [of n] have "[0 ..< Suc (unat (- 1 :: 64 word))] = 0 # 1 # [2 ..< Suc (unat (- 1 :: 64 word))]" by (simp only:)
    then show ?thesis by simp
  qed
  then show "BuildUsersFromChunks [0 \<mapsto> [None]] (- 1) True = Some (Inl ''missing chunk index 1'')"
    using BuildUsersFromChunks_ends [of "[0 \<mapsto> [None]]" 1 "- 1"]
    by (simp add: one del: upt_Suc)
qed

end
