(* ===== verification/Node_Service.thy ===== *)
theory Node_Service
  imports Node_Controller
begin

text \<open>
  The two services in front of the controller: gRPC (\<^verbatim>\<open>controller/rpc\<close>) and REST
  (\<^verbatim>\<open>controller/rest\<close>), with their authentication and client checks, and the error helpers of
  \<^verbatim>\<open>common/helper.go\<close> they share.

  A request sees a node: the controller and the world of the cores. Third-party code appears as
  parameters: parsing a UUID, decoding a protobuf message, chaining of interceptors, the answer of
  the panic handler. A handler that dereferences a nil backend panics; its result is \<open>None\<close>. Logging
  is left out.
\<close>

section \<open>Errors\<close>

datatype grpc_code = OK | Canceled | Unknown | InvalidArgument | DeadlineExceeded | NotFound | AlreadyExists
  | PermissionDenied | ResourceExhausted | FailedPrecondition | Aborted | OutOfRange | Unimplemented | Internal
  | Unavailable | DataLoss | Unauthenticated

datatype rpc_err = Status grpc_code string | Plain string

definition GrpcCodeToHTTP :: "grpc_code \<Rightarrow> nat" where
  "GrpcCodeToHTTP code =
     (case code of
        OK \<Rightarrow> 200
      | Canceled \<Rightarrow> 499
      | InvalidArgument \<Rightarrow> 400
      | Unauthenticated \<Rightarrow> 401
      | PermissionDenied \<Rightarrow> 403
      | NotFound \<Rightarrow> 404
      | AlreadyExists \<Rightarrow> 409
      | ResourceExhausted \<Rightarrow> 429
      | FailedPrecondition \<Rightarrow> 412
      | Aborted \<Rightarrow> 409
      | OutOfRange \<Rightarrow> 400
      | Unimplemented \<Rightarrow> 501
      | Internal \<Rightarrow> 500
      | Unavailable \<Rightarrow> 503
      | DeadlineExceeded \<Rightarrow> 504
      | _ \<Rightarrow> 500)"

definition InterceptNotFound :: "string \<Rightarrow> rpc_err" where
  "InterceptNotFound e = (if HasSuffix e ''not found.'' then Status NotFound e else Plain e)"

text \<open>The code \<^verbatim>\<open>status.FromError\<close> finds; \<open>code_of\<close> is what it finds in the error of a core.\<close>

definition FromError :: "(string \<Rightarrow> grpc_code) \<Rightarrow> rpc_err \<Rightarrow> grpc_code" where
  "FromError code_of e = (case e of Status c _ \<Rightarrow> c | Plain s \<Rightarrow> code_of s)"


section \<open>Addresses\<close>

definition last_colon :: "string \<Rightarrow> nat option" where
  "last_colon s = (case Cut (rev s) '':'' of None \<Rightarrow> None | Some (b, a) \<Rightarrow> Some (length a))"

definition index_byte :: "string \<Rightarrow> char \<Rightarrow> nat option" where
  "index_byte s ch = (case Cut s [ch] of None \<Rightarrow> None | Some (b, a) \<Rightarrow> Some (length b))"

text \<open>The host part \<^verbatim>\<open>net.SplitHostPort\<close> finds, or \<open>None\<close> for one of its errors.\<close>

definition split_host :: "string \<Rightarrow> string option" where
  "split_host hostport =
     (case last_colon hostport of
        None \<Rightarrow> None
      | Some i \<Rightarrow>
         (if take 1 hostport = ''['' then
            (case index_byte hostport (CHR '']'') of
               None \<Rightarrow> None
             | Some e \<Rightarrow>
                (if e + 1 \<noteq> i then None
                 else if index_byte (drop 1 hostport) (CHR ''['') \<noteq> None then None
                 else if index_byte (drop (e + 1) hostport) (CHR '']'') \<noteq> None then None
                 else Some (drop 1 (take e hostport))))
          else
            (if index_byte (take i hostport) (CHR '':'') \<noteq> None then None
             else if index_byte hostport (CHR ''['') \<noteq> None \<or> index_byte hostport (CHR '']'') \<noteq> None then None
             else Some (take i hostport))))"

datatype net_addr = TCPAddr string | OtherAddr string

record rpc_ctx =
  rc_peer :: "net_addr option"
  rc_metadata :: "(string \<rightharpoonup> string list) option"

definition clientIPFromContext :: "rpc_ctx \<Rightarrow> string" where
  "clientIPFromContext ctx =
     (case rc_peer ctx of
        None \<Rightarrow> []
      | Some (TCPAddr ip) \<Rightarrow> ip
      | Some (OtherAddr addr) \<Rightarrow> (case split_host addr of Some host \<Rightarrow> host | None \<Rightarrow> addr))"


section \<open>The node a request sees\<close>

type_synonym ('b, 'w, 'f, 'u) node = "('b, 'f, 'u) controller \<times> 'w"

type_synonym key_ranger = "nat \<Rightarrow> backend_key set \<Rightarrow> backend_key list"

definition key_order :: "key_ranger \<Rightarrow> bool" where
  "key_order kr \<longleftrightarrow> (\<forall>i S. finite S \<longrightarrow> distinct (kr i S) \<and> set (kr i S) = S)"

record ('b, 'w, 'c, 'f, 'u) service =
  sv_ops :: "('b, 'w) backend_ops"
  sv_json :: json_views
  sv_fact :: "('c, 'b, 'w) factories"
  sv_uuid :: "string \<Rightarrow> string + 'u"
  sv_code :: "string \<Rightarrow> grpc_code"
  sv_zero :: 'f

text \<open>
  What the moment of a call decides: the time it starts and ends, the free ports, the order of the
  loops over the map of cores (the index tells them apart) and over address maps.
\<close>

record moment =
  mo_now :: gotime
  mo_done :: gotime
  mo_ports :: "int \<times> int"
  mo_keys :: key_ranger
  mo_range :: ranger

definition keys_at :: "moment \<Rightarrow> nat \<Rightarrow> ('b, 'f, 'u) controller \<Rightarrow> backend_key list" where
  "keys_at mo i c = mo_keys mo i (dom (ct_backends c))"

lemma keys_at_iterates:
  "key_order (mo_keys mo) \<Longrightarrow> finite (dom (ct_backends c)) \<Longrightarrow> iterates (keys_at mo i c) (ct_backends c)"
  by (simp add: key_order_def keys_at_def iterates_def)

datatype 'f resp = REmpty | RBase base_info | RStat "stat list option" | ROnline "online_stat option"
  | RIps "online_ips option" | RBackend "backend_stats option" | RLatency "latency list option" | RSys "'f system_stats"

type_synonym ('n, 'f) handler = "rpc_ctx \<Rightarrow> 'n \<Rightarrow> (rpc_err + 'f resp) \<times> 'n"
type_synonym 'n stream_handler = "rpc_ctx \<Rightarrow> 'n \<Rightarrow> rpc_err option \<times> 'n"


section \<open>gRPC middleware\<close>

text \<open>How a list of interceptors wraps a handler: the first is the outermost.\<close>

type_synonym 'h list_chain = "('h \<Rightarrow> 'h) list \<Rightarrow> 'h \<Rightarrow> 'h"

definition chain_law :: "'h list_chain \<Rightarrow> bool" where
  "chain_law chain \<longleftrightarrow> (\<forall>h. chain [] h = h) \<and> (\<forall>i is h. chain (i # is) h = i (chain is h))"

definition validateApiKey :: "('b, 'w, 'c, 'f, 'u) service \<Rightarrow> rpc_ctx \<Rightarrow> ('b, 'f, 'u) controller \<Rightarrow> rpc_err option" where
  "validateApiKey sv ctx c =
     (case rc_metadata ctx of
        None \<Rightarrow> Some (Status Unauthenticated ''missing metadata'')
      | Some md \<Rightarrow>
         (case md ''x-api-key'' of
            None \<Rightarrow> Some (Status Unauthenticated ''missing x-api-key header'')
          | Some [] \<Rightarrow> Some (Status Unauthenticated ''missing x-api-key header'')
          | Some (apiKeyHeader # _) \<Rightarrow>
             (case sv_uuid sv apiKeyHeader of
                Inl err \<Rightarrow> Some (Status InvalidArgument ''invalid api key format: must be a valid UUID'')
              | Inr key \<Rightarrow> if key \<noteq> ApiKey c then Some (Status PermissionDenied ''api key mismatch'') else None)))"

definition validateApiKeyMiddleware :: "('b, 'w, 'c, 'f, 'u) service \<Rightarrow>
    (('b, 'w, 'f, 'u) node, 'f) handler \<Rightarrow> (('b, 'w, 'f, 'u) node, 'f) handler" where
  "validateApiKeyMiddleware sv h ctx n =
     (case validateApiKey sv ctx (fst n) of Some err \<Rightarrow> (Inl err, n) | None \<Rightarrow> h ctx n)"

definition validateCurrentClient :: "rpc_ctx \<Rightarrow> ('b, 'f, 'u) controller \<Rightarrow> rpc_err option" where
  "validateCurrentClient ctx c =
     (let clientIP = clientIPFromContext ctx
      in if clientIP = [] then Some (Status PermissionDenied ''unknown client ip'')
         else if \<not> IsCurrentClient clientIP c then Some (Status PermissionDenied ''node is controlled by another client'')
         else None)"

definition validateCurrentClientMiddleware :: "(('b, 'w, 'f, 'u) node, 'f) handler \<Rightarrow> (('b, 'w, 'f, 'u) node, 'f) handler" where
  "validateCurrentClientMiddleware h ctx n =
     (case validateCurrentClient ctx (fst n) of Some err \<Rightarrow> (Inl err, n) | None \<Rightarrow> h ctx n)"

definition validateCurrentClientStreamMiddleware ::
    "('b, 'w, 'f, 'u) node stream_handler \<Rightarrow> ('b, 'w, 'f, 'u) node stream_handler" where
  "validateCurrentClientStreamMiddleware h ctx n =
     (case validateCurrentClient ctx (fst n) of Some err \<Rightarrow> (Some err, n) | None \<Rightarrow> h ctx n)"

definition validateApiKeyStreamMiddleware :: "('b, 'w, 'c, 'f, 'u) service \<Rightarrow>
    ('b, 'w, 'f, 'u) node stream_handler \<Rightarrow> ('b, 'w, 'f, 'u) node stream_handler" where
  "validateApiKeyStreamMiddleware sv h ctx n =
     (case validateApiKey sv ctx (fst n) of Some err \<Rightarrow> (Some err, n) | None \<Rightarrow> h ctx n)"

definition checkBackendStatus :: "('b, 'w, 'c, 'f, 'u) service \<Rightarrow> moment \<Rightarrow> ('b, 'w, 'f, 'u) node \<Rightarrow> rpc_err option" where
  "checkBackendStatus sv mo n =
     (case Backend (keys_at mo 0 (fst n)) (fst n) of
        None \<Rightarrow> Some (Status Unavailable ''backend not initialized'')
      | Some back \<Rightarrow> if \<not> Composite_Started (sv_ops sv) back (snd n)
                    then Some (Status Unavailable ''core is not started yet'') else None)"

definition CheckBackendMiddleware :: "('b, 'w, 'c, 'f, 'u) service \<Rightarrow> moment \<Rightarrow>
    (('b, 'w, 'f, 'u) node, 'f) handler \<Rightarrow> (('b, 'w, 'f, 'u) node, 'f) handler" where
  "CheckBackendMiddleware sv mo h ctx n =
     (case checkBackendStatus sv mo n of Some err \<Rightarrow> (Inl err, n) | None \<Rightarrow> h ctx n)"

definition CheckBackendStreamMiddleware :: "('b, 'w, 'c, 'f, 'u) service \<Rightarrow> moment \<Rightarrow>
    ('b, 'w, 'f, 'u) node stream_handler \<Rightarrow> ('b, 'w, 'f, 'u) node stream_handler" where
  "CheckBackendStreamMiddleware sv mo h ctx n =
     (case checkBackendStatus sv mo n of Some err \<Rightarrow> (Some err, n) | None \<Rightarrow> h ctx n)"

definition LoggingInterceptor :: "moment \<Rightarrow> (('b, 'w, 'f, 'u) node, 'f) handler \<Rightarrow> (('b, 'w, 'f, 'u) node, 'f) handler" where
  "LoggingInterceptor mo h ctx n =
     (case h ctx n of
        (Inl err, n) \<Rightarrow> (Inl err, n)
      | (Inr resp, (c, w)) \<Rightarrow> (Inr resp, (NewRequest (mo_done mo) c, w)))"

definition LoggingStreamInterceptor :: "moment \<Rightarrow> ('b, 'w, 'f, 'u) node stream_handler \<Rightarrow> ('b, 'w, 'f, 'u) node stream_handler" where
  "LoggingStreamInterceptor mo h ctx n =
     (case h ctx n of
        (Some err, n) \<Rightarrow> (Some err, n)
      | (None, (c, w)) \<Rightarrow> (None, (NewRequest (mo_done mo) c, w)))"

definition backendMethods :: "string set" where
  "backendMethods = set
     [''/service.NodeService/GetStats'', ''/service.NodeService/GetUserOnlineStats'',
      ''/service.NodeService/GetUserOnlineIpListStats'', ''/service.NodeService/GetBackendStats'',
      ''/service.NodeService/GetSystemStats'', ''/service.NodeService/Stop'', ''/service.NodeService/SyncUser'',
      ''/service.NodeService/SyncUsers'', ''/service.NodeService/SyncUsersChunked'', ''/service.NodeService/GetLogs'']"

definition ConditionalMiddleware :: "((('b, 'w, 'f, 'u) node, 'f) handler list_chain) \<Rightarrow> ('b, 'w, 'c, 'f, 'u) service \<Rightarrow> moment \<Rightarrow> string \<Rightarrow>
    (('b, 'w, 'f, 'u) node, 'f) handler \<Rightarrow> (('b, 'w, 'f, 'u) node, 'f) handler" where
  "ConditionalMiddleware chain sv mo fullMethod handler =
     (let interceptors = [LoggingInterceptor mo];
          interceptors = interceptors @ [validateApiKeyMiddleware sv];
          interceptors = (if fullMethod \<in> backendMethods
                          then interceptors @ [validateCurrentClientMiddleware] @ [CheckBackendMiddleware sv mo]
                          else interceptors)
      in chain interceptors handler)"

definition ConditionalStreamMiddleware :: "(('b, 'w, 'f, 'u) node stream_handler list_chain) \<Rightarrow> ('b, 'w, 'c, 'f, 'u) service \<Rightarrow> moment \<Rightarrow> string \<Rightarrow>
    ('b, 'w, 'f, 'u) node stream_handler \<Rightarrow> ('b, 'w, 'f, 'u) node stream_handler" where
  "ConditionalStreamMiddleware chain sv mo fullMethod handler =
     (let interceptors = [LoggingStreamInterceptor mo];
          interceptors = interceptors @ [validateApiKeyStreamMiddleware sv];
          interceptors = (if fullMethod \<in> backendMethods
                          then interceptors @ [validateCurrentClientStreamMiddleware] @ [CheckBackendStreamMiddleware sv mo]
                          else interceptors)
      in chain interceptors handler)"


section \<open>gRPC methods\<close>

definition service_backend :: "moment \<Rightarrow> nat \<Rightarrow> ('b, 'w, 'f, 'u) node \<Rightarrow> rpc_err + 'b composite" where
  "service_backend mo i n =
     (case Backend (keys_at mo i (fst n)) (fst n) of
        None \<Rightarrow> Inl (Status Unavailable ''backend not initialized'')
      | Some backend \<Rightarrow> Inr backend)"

definition rpc_Start :: "('b, 'w, 'c, 'f, 'u) service \<Rightarrow> moment \<Rightarrow> backend_msg \<Rightarrow> (('b, 'w, 'f, 'u) node, 'f) handler" where
  "rpc_Start sv mo data ctx n =
     (let clientIP = clientIPFromContext ctx; (c, w) = n in
      if clientIP = [] then (Inl (Status PermissionDenied ''unknown client ip''), n)
      else
        (let running = (Backend (keys_at mo 1 c) c \<noteq> None) in
         if running \<and> \<not> IsCurrentClient clientIP c
         then (Inl (Status PermissionDenied ''node is controlled by another client''), n)
         else
           (let additive = (running \<and> b_Additive data);
                (c, w) = (if running \<and> \<not> additive then Disconnect (sv_ops sv) (keys_at mo 2 c) (mo_ports mo) c w else (c, w))
            in case StartBackend (sv_ops sv) (sv_json sv) (sv_fact sv) (keys_at mo 3 c) data c w of
                 (Some err, c, w) \<Rightarrow> (Inl (Plain err), (c, w))
               | (None, c, w) \<Rightarrow>
                   (let c = (if additive then NewRequest (mo_now mo) c else Connect (mo_now mo) clientIP (b_KeepAlive data) c)
                    in (Inr (RBase (BaseInfoResponse (sv_ops sv) (keys_at mo 4 c) c w)), (c, w))))))"

definition rpc_Stop :: "('b, 'w, 'c, 'f, 'u) service \<Rightarrow> moment \<Rightarrow> (('b, 'w, 'f, 'u) node, 'f) handler" where
  "rpc_Stop sv mo ctx n = (Inr REmpty, Disconnect (sv_ops sv) (keys_at mo 2 (fst n)) (mo_ports mo) (fst n) (snd n))"

definition rpc_GetBaseInfo :: "('b, 'w, 'c, 'f, 'u) service \<Rightarrow> moment \<Rightarrow> (('b, 'w, 'f, 'u) node, 'f) handler" where
  "rpc_GetBaseInfo sv mo ctx n =
     (Inr (RBase (BaseInfoResponse (sv_ops sv) (keys_at mo 4 (fst n)) (fst n) (snd n))), n)"

text \<open>
  \<open>users\<close> are the users received before the stream ends, \<open>send\<close> the error of closing the stream.
\<close>

fun sync_user_loop :: "('b, 'w) backend_ops \<Rightarrow> 'b composite \<Rightarrow> rpc_err option \<Rightarrow> user list \<Rightarrow> 'w \<Rightarrow> rpc_err option \<times> 'w" where
  "sync_user_loop ops backend send [] w = (send, w)"
| "sync_user_loop ops backend send (user # users) w =
     (if GetEmail user = [] then (Some (Plain ''email is required''), w)
      else case Composite_SyncUser ops user backend w of
             (Some err, w) \<Rightarrow> (Some (Status Internal (''failed to update user: '' @ err)), w)
           | (None, w) \<Rightarrow> sync_user_loop ops backend send users w)"

definition rpc_SyncUser :: "('b, 'w, 'c, 'f, 'u) service \<Rightarrow> moment \<Rightarrow> rpc_err option \<Rightarrow> user list \<Rightarrow>
    ('b, 'w, 'f, 'u) node stream_handler" where
  "rpc_SyncUser sv mo send users ctx n =
     (case service_backend mo 1 n of
        Inl err \<Rightarrow> (Some err, n)
      | Inr backend \<Rightarrow>
         (case sync_user_loop (sv_ops sv) backend send users (snd n) of (err, w) \<Rightarrow> (err, (fst n, w))))"

definition rpc_SyncUsers :: "('b, 'w, 'c, 'f, 'u) service \<Rightarrow> moment \<Rightarrow> user list \<Rightarrow> (('b, 'w, 'f, 'u) node, 'f) handler" where
  "rpc_SyncUsers sv mo users ctx n =
     (case service_backend mo 1 n of
        Inl err \<Rightarrow> (Inl err, n)
      | Inr backend \<Rightarrow>
         (case Composite_SyncUsers (sv_ops sv) users backend (snd n) of
            (Some err, w) \<Rightarrow> (Inl (Plain err), (fst n, w))
          | (None, w) \<Rightarrow> (Inr REmpty, (fst n, w))))"

text \<open>What \<^verbatim>\<open>Recv\<close> gives: a chunk or an error; after the last element, end of file.\<close>

datatype recv = Chunk users_chunk | RecvError string

type_synonym chunk_map = "64 word \<rightharpoonup> user list"

definition add_chunk :: "users_chunk \<Rightarrow> chunk_map \<Rightarrow> chunk_map" where
  "add_chunk chunk chunks =
     chunks(ch_Index chunk \<mapsto> getd [] chunks (ch_Index chunk) @ ch_Users chunk)"

fun recv_chunks :: "recv list \<Rightarrow> chunk_map \<Rightarrow> string + chunk_map \<times> 64 word \<times> bool" where
  "recv_chunks [] chunks = Inr (chunks, 0, False)"
| "recv_chunks (RecvError err # rest) chunks = Inl err"
| "recv_chunks (Chunk chunk # rest) chunks =
     (let chunks = add_chunk chunk chunks
      in if ch_Last chunk then Inr (chunks, ch_Index chunk, True) else recv_chunks rest chunks)"

definition rpc_SyncUsersChunked :: "('b, 'w, 'c, 'f, 'u) service \<Rightarrow> moment \<Rightarrow> rpc_err option \<Rightarrow> recv list \<Rightarrow>
    rpc_ctx \<Rightarrow> ('b, 'w, 'f, 'u) node \<Rightarrow> (rpc_err option \<times> ('b, 'w, 'f, 'u) node) option" where
  "rpc_SyncUsersChunked sv mo send stream ctx n =
     (case recv_chunks stream Map.empty of
        Inl err \<Rightarrow> Some (Some (Status Internal (''failed to receive chunk: '' @ err)), n)
      | Inr (chunks, lastIndex, sawLast) \<Rightarrow>
         (case BuildUsersFromChunks chunks lastIndex sawLast of
            None \<Rightarrow> None
          | Some (Inl err) \<Rightarrow> Some (Some (Status InvalidArgument err), n)
          | Some (Inr users) \<Rightarrow>
             (case service_backend mo 1 n of
                Inl err \<Rightarrow> Some (Some err, n)
              | Inr backend \<Rightarrow>
                 (case ApplyChunkedUserUpdate (sv_ops sv) backend users (snd n) of
                    (Some err, w) \<Rightarrow> Some (Some (Status Internal (''failed to update users: '' @ err)), (fst n, w))
                  | (None, w) \<Rightarrow> Some (send, (fst n, w))))))"

definition rpc_GetStats :: "('b, 'w, 'c, 'f, 'u) service \<Rightarrow> moment \<Rightarrow> stat_request \<Rightarrow> (('b, 'w, 'f, 'u) node, 'f) handler" where
  "rpc_GetStats sv mo request ctx n =
     (case service_backend mo 1 n of
        Inl err \<Rightarrow> (Inl err, n)
      | Inr backend \<Rightarrow>
         (case Composite_GetStats (sv_ops sv) request backend (snd n) of
            (Inl err, w) \<Rightarrow> (Inl (InterceptNotFound err), (fst n, w))
          | (Inr stats, w) \<Rightarrow> (Inr (RStat stats), (fst n, w))))"

definition rpc_GetUserOnlineStats :: "('b, 'w, 'c, 'f, 'u) service \<Rightarrow> moment \<Rightarrow> stat_request \<Rightarrow> (('b, 'w, 'f, 'u) node, 'f) handler" where
  "rpc_GetUserOnlineStats sv mo request ctx n =
     (case service_backend mo 1 n of
        Inl err \<Rightarrow> (Inl err, n)
      | Inr backend \<Rightarrow>
         (case Composite_GetUserOnlineStats (sv_ops sv) (sr_Name request) backend (snd n) of
            Inl err \<Rightarrow> (Inl (InterceptNotFound err), n)
          | Inr stats \<Rightarrow> (Inr (ROnline stats), n)))"

definition rpc_GetUserOnlineIpListStats :: "('b, 'w, 'c, 'f, 'u) service \<Rightarrow> moment \<Rightarrow> stat_request \<Rightarrow> (('b, 'w, 'f, 'u) node, 'f) handler" where
  "rpc_GetUserOnlineIpListStats sv mo request ctx n =
     (case service_backend mo 1 n of
        Inl err \<Rightarrow> (Inl err, n)
      | Inr backend \<Rightarrow>
         (case Composite_GetUserOnlineIpListStats (sv_ops sv) (mo_range mo) (sr_Name request) backend (snd n) of
            Inl err \<Rightarrow> (Inl (InterceptNotFound err), n)
          | Inr stats \<Rightarrow> (Inr (RIps stats), n)))"

definition rpc_GetBackendStats :: "('b, 'w, 'c, 'f, 'u) service \<Rightarrow> moment \<Rightarrow> (('b, 'w, 'f, 'u) node, 'f) handler" where
  "rpc_GetBackendStats sv mo ctx n =
     (case service_backend mo 1 n of
        Inl err \<Rightarrow> (Inl err, n)
      | Inr backend \<Rightarrow>
         (case Composite_GetSysStats (sv_ops sv) backend (snd n) of
            (_, Some err) \<Rightarrow> (Inl (Plain err), n)
          | (stats, None) \<Rightarrow> (Inr (RBackend stats), n)))"

definition rpc_GetOutboundsLatency :: "('b, 'w, 'c, 'f, 'u) service \<Rightarrow> moment \<Rightarrow> string \<Rightarrow> (('b, 'w, 'f, 'u) node, 'f) handler" where
  "rpc_GetOutboundsLatency sv mo request ctx n =
     (case OutboundsLatency (sv_ops sv) (keys_at mo 1 (fst n)) request (fst n) (snd n) of
        Inl err \<Rightarrow> (Inl (Plain err), n)
      | Inr latency \<Rightarrow> (Inr (RLatency latency), n))"

definition rpc_GetSystemStats :: "('b, 'w, 'c, 'f, 'u) service \<Rightarrow> moment \<Rightarrow> (('b, 'w, 'f, 'u) node, 'f) handler" where
  "rpc_GetSystemStats sv mo ctx n =
     (Inr (RSys (SystemStats (sv_ops sv) (keys_at mo 1 (fst n)) (sv_zero sv) (fst n) (snd n))), n)"


section \<open>REST middleware\<close>

datatype 'f body = ErrorText rpc_err | Message "'f resp"

type_synonym 'f http = "nat \<times> 'f body"

definition http_Error :: "string \<Rightarrow> nat \<Rightarrow> 'f http" where
  "http_Error text code = (code, ErrorText (Plain text))"

definition SendProtoResponse :: "'f resp \<Rightarrow> 'f http" where
  "SendProtoResponse m = (200, Message m)"

record rest_req =
  rr_RemoteAddr :: string
  rr_ApiKey :: string

text \<open>A handler that panics gives \<open>None\<close>; the router's panic handler answers \<open>recovered\<close> then.\<close>

type_synonym ('n, 'f) rest_handler = "rest_req \<Rightarrow> 'n \<Rightarrow> ('f http \<times> 'n) option"

definition rest_validateApiKey :: "('b, 'w, 'c, 'f, 'u) service \<Rightarrow>
    (('b, 'w, 'f, 'u) node, 'f) rest_handler \<Rightarrow> (('b, 'w, 'f, 'u) node, 'f) rest_handler" where
  "rest_validateApiKey sv next r n =
     (let apiKeyHeader = rr_ApiKey r in
      if apiKeyHeader = [] then Some (http_Error ''missing x-api-key header'' 401, n)
      else case sv_uuid sv apiKeyHeader of
             Inl err \<Rightarrow> Some (http_Error ''invalid api key format: must be a valid UUID'' 422, n)
           | Inr key \<Rightarrow> if key \<noteq> ApiKey (fst n) then Some (http_Error ''api key mismatch'' 403, n)
                        else next r n)"

definition requestClientIP :: "rest_req \<Rightarrow> string option" where
  "requestClientIP r = split_host (rr_RemoteAddr r)"

definition rest_validateCurrentClient ::
    "(('b, 'w, 'f, 'u) node, 'f) rest_handler \<Rightarrow> (('b, 'w, 'f, 'u) node, 'f) rest_handler" where
  "rest_validateCurrentClient next r n =
     (case requestClientIP r of
        None \<Rightarrow> Some (http_Error ''unknown ip'' 503, n)
      | Some ip \<Rightarrow> if \<not> IsCurrentClient ip (fst n) then Some (http_Error ''node is controlled by another client'' 403, n)
                   else next r n)"

definition checkBackendMiddleware :: "('b, 'w, 'c, 'f, 'u) service \<Rightarrow> moment \<Rightarrow>
    (('b, 'w, 'f, 'u) node, 'f) rest_handler \<Rightarrow> (('b, 'w, 'f, 'u) node, 'f) rest_handler" where
  "checkBackendMiddleware sv mo next r n =
     (case Backend (keys_at mo 0 (fst n)) (fst n) of
        None \<Rightarrow> Some (http_Error ''backend not initialized'' 500, n)
      | Some back \<Rightarrow> if \<not> Composite_Started (sv_ops sv) back (snd n) then Some (http_Error ''core is not started yet'' 503, n)
                    else next r n)"

definition trackSuccessfulRequest :: "moment \<Rightarrow>
    (('b, 'w, 'f, 'u) node, 'f) rest_handler \<Rightarrow> (('b, 'w, 'f, 'u) node, 'f) rest_handler" where
  "trackSuccessfulRequest mo next r n =
     (case next r n of
        None \<Rightarrow> None
      | Some ((status, body), (c, w)) \<Rightarrow>
          (if 200 \<le> status \<and> status < 300 then Some ((status, body), (NewRequest (mo_done mo) c, w))
           else Some ((status, body), (c, w))))"

definition Recoverer :: "'f http \<Rightarrow> (('b, 'w, 'f, 'u) node, 'f) rest_handler \<Rightarrow> (('b, 'w, 'f, 'u) node, 'f) rest_handler" where
  "Recoverer recovered next r n = (case next r n of None \<Rightarrow> Some (recovered, n) | Some x \<Rightarrow> Some x)"

text \<open>The routes of \<^verbatim>\<open>setRouter\<close>: two public ones and the private group.\<close>

definition public_route :: "(('b, 'w, 'f, 'u) node, 'f) rest_handler list_chain \<Rightarrow> 'f http \<Rightarrow> ('b, 'w, 'c, 'f, 'u) service \<Rightarrow> moment \<Rightarrow>
    (('b, 'w, 'f, 'u) node, 'f) rest_handler \<Rightarrow> (('b, 'w, 'f, 'u) node, 'f) rest_handler" where
  "public_route chain recovered sv mo h =
     chain [rest_validateApiKey sv, trackSuccessfulRequest mo, Recoverer recovered] h"

definition private_route :: "(('b, 'w, 'f, 'u) node, 'f) rest_handler list_chain \<Rightarrow> 'f http \<Rightarrow> ('b, 'w, 'c, 'f, 'u) service \<Rightarrow> moment \<Rightarrow>
    (('b, 'w, 'f, 'u) node, 'f) rest_handler \<Rightarrow> (('b, 'w, 'f, 'u) node, 'f) rest_handler" where
  "private_route chain recovered sv mo h =
     chain [rest_validateApiKey sv, trackSuccessfulRequest mo, Recoverer recovered,
            checkBackendMiddleware sv mo, rest_validateCurrentClient] h"


section \<open>REST methods\<close>

text \<open>
  A decoded request body is a sum: the error of reading or decoding it, or the message. \<open>here\<close> calls
  a method of the backend; without one the handler panics.
\<close>

definition here :: "moment \<Rightarrow> ('b, 'w, 'f, 'u) node \<Rightarrow> ('b composite \<Rightarrow> ('f http \<times> ('b, 'w, 'f, 'u) node) option) \<Rightarrow>
    ('f http \<times> ('b, 'w, 'f, 'u) node) option" where
  "here mo n k = Option.bind (Backend (keys_at mo 1 (fst n)) (fst n)) k"

definition rest_Base :: "('b, 'w, 'c, 'f, 'u) service \<Rightarrow> moment \<Rightarrow> (('b, 'w, 'f, 'u) node, 'f) rest_handler" where
  "rest_Base sv mo r n =
     Some (SendProtoResponse (RBase (BaseInfoResponse (sv_ops sv) (keys_at mo 4 (fst n)) (fst n) (snd n))), n)"

definition rest_Start :: "('b, 'w, 'c, 'f, 'u) service \<Rightarrow> moment \<Rightarrow> string + backend_msg \<Rightarrow> (('b, 'w, 'f, 'u) node, 'f) rest_handler" where
  "rest_Start sv mo decoded r n =
     (case decoded of
        Inl err \<Rightarrow> Some (http_Error err 400, n)
      | Inr data \<Rightarrow>
         (case requestClientIP r of
            None \<Rightarrow> Some (http_Error ''unknown ip'' 503, n)
          | Some ip \<Rightarrow>
             (let (c, w) = n; running = (Backend (keys_at mo 1 c) c \<noteq> None) in
              if running \<and> \<not> IsCurrentClient ip c
              then Some (http_Error ''node is controlled by another client'' 403, n)
              else
                (let additive = (running \<and> b_Additive data);
                     (c, w) = (if running \<and> \<not> additive then Disconnect (sv_ops sv) (keys_at mo 2 c) (mo_ports mo) c w else (c, w))
                 in case StartBackend (sv_ops sv) (sv_json sv) (sv_fact sv) (keys_at mo 3 c) data c w of
                      (Some err, c, w) \<Rightarrow> Some (http_Error err 503, (c, w))
                    | (None, c, w) \<Rightarrow>
                        (let c = (if additive then NewRequest (mo_now mo) c else Connect (mo_now mo) ip (b_KeepAlive data) c)
                         in Some (SendProtoResponse (RBase (BaseInfoResponse (sv_ops sv) (keys_at mo 4 c) c w)), (c, w)))))))"

definition rest_Stop :: "('b, 'w, 'c, 'f, 'u) service \<Rightarrow> moment \<Rightarrow> (('b, 'w, 'f, 'u) node, 'f) rest_handler" where
  "rest_Stop sv mo r n =
     Some (SendProtoResponse REmpty, Disconnect (sv_ops sv) (keys_at mo 2 (fst n)) (mo_ports mo) (fst n) (snd n))"

definition rest_SyncUser :: "('b, 'w, 'c, 'f, 'u) service \<Rightarrow> moment \<Rightarrow> string + user \<Rightarrow> (('b, 'w, 'f, 'u) node, 'f) rest_handler" where
  "rest_SyncUser sv mo decoded r n =
     (case decoded of
        Inl err \<Rightarrow> Some (http_Error err 400, n)
      | Inr user \<Rightarrow>
         (if GetEmail user = [] then Some (http_Error ''email is required'' 400, n)
          else here mo n (\<lambda>backend.
            case Composite_SyncUser (sv_ops sv) user backend (snd n) of
              (Some err, w) \<Rightarrow> Some (http_Error err 500, (fst n, w))
            | (None, w) \<Rightarrow> Some (SendProtoResponse REmpty, (fst n, w)))))"

definition rest_SyncUsers :: "('b, 'w, 'c, 'f, 'u) service \<Rightarrow> moment \<Rightarrow> string + user list \<Rightarrow> (('b, 'w, 'f, 'u) node, 'f) rest_handler" where
  "rest_SyncUsers sv mo decoded r n =
     (case decoded of
        Inl err \<Rightarrow> Some (http_Error err 400, n)
      | Inr users \<Rightarrow>
          here mo n (\<lambda>backend.
            case Composite_SyncUsers (sv_ops sv) users backend (snd n) of
              (Some err, w) \<Rightarrow> Some (http_Error err 500, (fst n, w))
            | (None, w) \<Rightarrow> Some (SendProtoResponse REmpty, (fst n, w))))"

text \<open>
  The body of a chunked request is a sequence of length-prefixed messages. \<open>read_uvarint\<close> is
  \<^verbatim>\<open>binary.ReadUvarint\<close>: at most ten bytes of seven bits, the tenth at most one. The reader ends
  with end of file (\<open>None\<close>) or another error.
\<close>

datatype uvarint = UEof | UErr string | UVal nat "nat list"

fun read_uvarint :: "err \<Rightarrow> nat \<Rightarrow> nat \<Rightarrow> nat list \<Rightarrow> uvarint" where
  "read_uvarint tail i x [] =
     (if 10 \<le> i then UErr ''binary: varint overflows a 64-bit integer''
      else case tail of Some err \<Rightarrow> UErr err | None \<Rightarrow> if i > 0 then UErr ''unexpected EOF'' else UEof)"
| "read_uvarint tail i x (b # bs) =
     (if 10 \<le> i then UErr ''binary: varint overflows a 64-bit integer''
      else if b < 128 then
        (if i = 9 \<and> b > 1 then UErr ''binary: varint overflows a 64-bit integer''
         else UVal (x + b * 2 ^ (7 * i)) bs)
      else read_uvarint tail (Suc i) (x + (b - 128) * 2 ^ (7 * i)) bs)"

lemma read_uvarint_shorter: "read_uvarint tail i x bs = UVal v rest \<Longrightarrow> length rest < length bs"
  by (induction tail i x bs rule: read_uvarint.induct) (fastforce split: if_splits option.splits)+

text \<open>The result of the loop: \<open>None\<close> is the panic of an allocation that is too large.\<close>

function read_chunks :: "nat \<Rightarrow> (nat list \<Rightarrow> string + users_chunk) \<Rightarrow> err \<Rightarrow> nat list \<Rightarrow> chunk_map \<Rightarrow>
    (string + chunk_map \<times> 64 word \<times> bool) option" where
  "read_chunks maxAlloc decode tail bs chunks =
     (case read_uvarint tail 0 0 bs of
        UEof \<Rightarrow> Some (Inr (chunks, 0, False))
      | UErr err \<Rightarrow> Some (Inl (''failed to read chunk length: '' @ err))
      | UVal sz rest \<Rightarrow>
         (if sz = 0 then read_chunks maxAlloc decode tail rest chunks
          else if sz > maxAlloc then None
          else if length rest < sz
          then Some (Inl (''failed to read chunk payload: '' @
                 (case tail of Some err \<Rightarrow> err | None \<Rightarrow> if rest = [] then ''EOF'' else ''unexpected EOF'')))
          else case decode (take sz rest) of
                 Inl err \<Rightarrow> Some (Inl (''failed to decode chunk: '' @ err))
               | Inr chunk \<Rightarrow>
                  (let chunks = add_chunk chunk chunks
                   in if ch_Last chunk then Some (Inr (chunks, ch_Index chunk, True))
                      else read_chunks maxAlloc decode tail (drop sz rest) chunks)))"
  by pat_completeness auto
termination
  by (relation "measure (\<lambda>(maxAlloc, decode, tail, bs, chunks). length bs)")
    (auto dest!: read_uvarint_shorter)

declare read_chunks.simps [simp del]

text \<open>Results of a handler that may panic or, in principle, never return.\<close>

datatype 'a outcome = Returns 'a | Panics | Hangs

definition rest_SyncUsersChunked :: "('b, 'w, 'c, 'f, 'u) service \<Rightarrow> moment \<Rightarrow> nat \<Rightarrow> (nat list \<Rightarrow> string + users_chunk) \<Rightarrow>
    err \<Rightarrow> nat list \<Rightarrow> rest_req \<Rightarrow> ('b, 'w, 'f, 'u) node \<Rightarrow> ('f http \<times> ('b, 'w, 'f, 'u) node) outcome" where
  "rest_SyncUsersChunked sv mo maxAlloc decode tail body r n =
     (case read_chunks maxAlloc decode tail body Map.empty of
        None \<Rightarrow> Panics
      | Some (Inl err) \<Rightarrow> Returns (http_Error err 400, n)
      | Some (Inr (chunks, lastIndex, sawLast)) \<Rightarrow>
         (case BuildUsersFromChunks chunks lastIndex sawLast of
            None \<Rightarrow> Hangs
          | Some (Inl err) \<Rightarrow> Returns (http_Error err 400, n)
          | Some (Inr users) \<Rightarrow>
             (case Backend (keys_at mo 1 (fst n)) (fst n) of
                None \<Rightarrow> Panics
              | Some backend \<Rightarrow>
                 (case ApplyChunkedUserUpdate (sv_ops sv) backend users (snd n) of
                    (Some err, w) \<Rightarrow> Returns (http_Error err 500, (fst n, w))
                  | (None, w) \<Rightarrow> Returns (SendProtoResponse REmpty, (fst n, w))))))"

text \<open>An error of a core, wrapped when it says that something was not found.\<close>

definition rest_failure :: "(string \<Rightarrow> grpc_code) \<Rightarrow> rpc_err \<Rightarrow> 'f http" where
  "rest_failure code_of e = (GrpcCodeToHTTP (FromError code_of e), ErrorText e)"

definition rest_GetStats :: "('b, 'w, 'c, 'f, 'u) service \<Rightarrow> moment \<Rightarrow> string + stat_request \<Rightarrow> (('b, 'w, 'f, 'u) node, 'f) rest_handler" where
  "rest_GetStats sv mo decoded r n =
     (case decoded of
        Inl err \<Rightarrow> Some (http_Error err 400, n)
      | Inr request \<Rightarrow>
          here mo n (\<lambda>backend.
            case Composite_GetStats (sv_ops sv) request backend (snd n) of
              (Inl err, w) \<Rightarrow> Some (rest_failure (sv_code sv) (InterceptNotFound err), (fst n, w))
            | (Inr stats, w) \<Rightarrow> Some (SendProtoResponse (RStat stats), (fst n, w))))"

definition rest_GetUserOnlineStat :: "('b, 'w, 'c, 'f, 'u) service \<Rightarrow> moment \<Rightarrow> string + stat_request \<Rightarrow> (('b, 'w, 'f, 'u) node, 'f) rest_handler" where
  "rest_GetUserOnlineStat sv mo decoded r n =
     (case decoded of
        Inl err \<Rightarrow> Some (http_Error err 400, n)
      | Inr request \<Rightarrow>
          here mo n (\<lambda>backend.
            case Composite_GetUserOnlineStats (sv_ops sv) (sr_Name request) backend (snd n) of
              Inl err \<Rightarrow> Some (rest_failure (sv_code sv) (InterceptNotFound err), n)
            | Inr stats \<Rightarrow> Some (SendProtoResponse (ROnline stats), n)))"

definition rest_GetUserOnlineIpListStats :: "('b, 'w, 'c, 'f, 'u) service \<Rightarrow> moment \<Rightarrow> string + stat_request \<Rightarrow> (('b, 'w, 'f, 'u) node, 'f) rest_handler" where
  "rest_GetUserOnlineIpListStats sv mo decoded r n =
     (case decoded of
        Inl err \<Rightarrow> Some (http_Error err 400, n)
      | Inr request \<Rightarrow>
          here mo n (\<lambda>backend.
            case Composite_GetUserOnlineIpListStats (sv_ops sv) (mo_range mo) (sr_Name request) backend (snd n) of
              Inl err \<Rightarrow> Some (rest_failure (sv_code sv) (InterceptNotFound err), n)
            | Inr stats \<Rightarrow> Some (SendProtoResponse (RIps stats), n)))"

definition rest_GetBackendStats :: "('b, 'w, 'c, 'f, 'u) service \<Rightarrow> moment \<Rightarrow> (('b, 'w, 'f, 'u) node, 'f) rest_handler" where
  "rest_GetBackendStats sv mo r n =
     here mo n (\<lambda>backend.
       case Composite_GetSysStats (sv_ops sv) backend (snd n) of
         (_, Some err) \<Rightarrow> Some (rest_failure (sv_code sv) (Plain err), n)
       | (stats, None) \<Rightarrow> Some (SendProtoResponse (RBackend stats), n))"

definition rest_GetOutboundsLatency :: "('b, 'w, 'c, 'f, 'u) service \<Rightarrow> moment \<Rightarrow> string + string \<Rightarrow> (('b, 'w, 'f, 'u) node, 'f) rest_handler" where
  "rest_GetOutboundsLatency sv mo decoded r n =
     (case decoded of
        Inl err \<Rightarrow> Some (http_Error err 400, n)
      | Inr request \<Rightarrow>
         (case OutboundsLatency (sv_ops sv) (keys_at mo 1 (fst n)) request (fst n) (snd n) of
            Inl err \<Rightarrow> Some (http_Error err 502, n)
          | Inr latency \<Rightarrow> Some (SendProtoResponse (RLatency latency), n)))"

definition rest_GetSystemStats :: "('b, 'w, 'c, 'f, 'u) service \<Rightarrow> moment \<Rightarrow> (('b, 'w, 'f, 'u) node, 'f) rest_handler" where
  "rest_GetSystemStats sv mo r n =
     Some (SendProtoResponse (RSys (SystemStats (sv_ops sv) (keys_at mo 1 (fst n)) (sv_zero sv) (fst n) (snd n))), n)"

end
