(* ===== verification/Wireguard_Backend.thy ===== *)
theory Wireguard_Backend
  imports Wireguard_Core Backend_Composite
begin

text \<open>
  The WireGuard core as an implementation of the backend interface: its method table over a heap of
  WireGuard objects, and the proof that it keeps the contract \<open>isolated_cores\<close>. With it the properties
  of the composite hold for a node that runs several WireGuard interfaces.

  The clock, the range orders, the runtime's memory statistics and the latency probe are arguments of
  the method table; nothing depends on their values.
\<close>

section \<open>Runtime statistics\<close>

definition wg_GetSysStats :: "('k, 'd) wg_env \<Rightarrow> mem_stats \<Rightarrow> gotime \<Rightarrow> ('k, 'd) wireguard \<Rightarrow> string + backend_stats" where
  "wg_GetSysStats E ms now wg =
     (case lifecycleReadinessError (wg_state wg) of
        Some err \<Rightarrow> Inl err
      | None \<Rightarrow>
         (case wg_manager wg of
            None \<Rightarrow> Inl ''wireguard manager not initialized''
          | Some mgr \<Rightarrow>
             (case GetInterfaceStats E mgr (wg_kernel wg) of
                Inl err \<Rightarrow> Inl (''wireguard interface not available: '' @ err)
              | Inr _ \<Rightarrow> Inr (runtime_stats ms now (wg_startTime wg)))))"


section \<open>The method table\<close>

type_synonym ('k, 'd) wg_heap = "('k, 'd) wireguard heap"

definition some_answer :: "string + 'a \<Rightarrow> string + 'a option" where
  "some_answer r = map_sum id Some r"

definition wg_ops :: "('k, 'd) wg_env \<Rightarrow> ranger \<Rightarrow> gotime \<Rightarrow> mem_stats \<Rightarrow>
    (string \<Rightarrow> ('k, 'd) wireguard \<Rightarrow> string + latency list) \<Rightarrow> (nat, ('k, 'd) wg_heap) backend_ops" where
  "wg_ops E rg now ms probe =
     \<lparr>bk_Started = (\<lambda>b h. Started (heap_view b h)),
      bk_Version = (\<lambda>b h. wg_version (heap_view b h)),
      bk_Restart = on_object (Restart E rg),
      bk_Shutdown = modify_object (Shutdown E),
      bk_SyncUser = (\<lambda>u. on_object (SyncUser E rg now u)),
      bk_SyncUsers = (\<lambda>us. on_object (SyncUsers E rg now us)),
      bk_UpdateUsers = (\<lambda>us. on_object (UpdateUsers E rg now us)),
      bk_UpdateUsersAndRestart = (\<lambda>us. on_object (UpdateUsersAndRestart E rg now us)),
      bk_GetSysStats = (\<lambda>b h. case wg_GetSysStats E ms now (heap_view b h) of Inl e \<Rightarrow> (None, Some e) | Inr s \<Rightarrow> (Some s, None)),
      bk_GetStats = (\<lambda>r b h. apfst some_answer (on_object (wg_GetStats E rg r) b h)),
      bk_GetOutboundsLatency = (\<lambda>name b h. some_answer (probe name (heap_view b h))),
      bk_GetUserOnlineStats = (\<lambda>name b h. some_answer (wg_GetUserOnlineStats E now name (heap_view b h))),
      bk_GetUserOnlineIpListStats = (\<lambda>name b h. some_answer (wg_GetUserOnlineIpListStats E name (heap_view b h)))\<rparr>"

text \<open>Every method that changes a WireGuard core keeps its lifecycle part, apart from the shutdown.\<close>

lemma control_ok_cong: "control wg' = control wg \<Longrightarrow> control_ok wg' = control_ok wg"
  by (simp add: control_ok_def control_def)

lemma mutator_control:
  fixes E :: "('k, 'd) wg_env"
  shows "control (snd (Restart E rg wg)) = control wg"
  "control (snd (SyncUser E rg now u wg)) = control wg"
  "control (snd (SyncUsers E rg now us wg)) = control wg"
  "control (snd (UpdateUsers E rg now us wg)) = control wg"
  "control (snd (UpdateUsersAndRestart E rg now us wg)) = control wg"
proof -
  have r: "control (snd (restartLocked E rg wg)) = control wg" for wg :: "('k, 'd) wireguard"
    using restartLocked_fields [of E rg wg "fst (restartLocked E rg wg)" "snd (restartLocked E rg wg)"]
    by (simp add: control_def)
  show "control (snd (Restart E rg wg)) = control wg" by (simp add: Restart_def r)
  show "control (snd (SyncUser E rg now u wg)) = control wg"
    by (simp add: SyncUser_def syncUsersPartial_control syncUsersFull_control)
  show "control (snd (SyncUsers E rg now us wg)) = control wg" by (simp add: SyncUsers_def syncUsersFull_control)
  show "control (snd (UpdateUsers E rg now us wg)) = control wg" by (simp add: UpdateUsers_def syncUsersPartial_control)
  show "control (snd (UpdateUsersAndRestart E rg now us wg)) = control wg"
    using syncUsersPartial_control [of E rg now us wg]
    by (auto simp: UpdateUsersAndRestart_def r split: prod.split option.split)
qed

lemma stats_control: "control (snd (wg_GetStats E rg req wg)) = control wg"
  by (auto simp: wg_GetStats_def handleUserStats_def handleUsersStats_def handleInterfaceOutboundStats_def Let_def
      split: stat_type.split sum.split prod.split)

lemma shutdown_control_ok: "control_ok wg \<Longrightarrow> control_ok (Shutdown E wg) \<and> \<not> Started (Shutdown E wg)"
  by (auto simp: control_ok_def Shutdown_def shutdownLocked_def Started_def Let_def split: option.split prod.split)

interpretation wg_cores: isolated_cores "wg_ops E rg now ms probe" heap_view control_ok
  for E :: "('k, 'd) wg_env" and rg now ms probe
proof
  fix op b b' and w w' :: "('k, 'd) wg_heap"
  assume "op \<in> mutators (wg_ops E rg now ms probe)"
  then have "\<exists>f. op = on_object f \<and> (\<forall>wg. control (snd (f wg)) = control wg)"
    unfolding mutators_def by (auto simp: wg_ops_def mutator_control)
  then obtain f where op: "op = on_object f" and c: "\<And>wg. control (snd (f wg)) = control wg" by blast
  show "heap_view b' (snd (op b w)) = heap_view b' w" if "b' \<noteq> b" using that by (simp add: op on_object_simps)
  show "fst (op b w) = fst (op b w') \<and> heap_view b (snd (op b w)) = heap_view b (snd (op b w'))"
    if "heap_view b w = heap_view b w'" using that by (simp add: op on_object_simps)
  show "control_ok (heap_view b (snd (op b w)))" if "control_ok (heap_view b w)"
    using that control_ok_cong [OF c, of "heap_view b w"] by (simp add: op on_object_simps)
qed (auto simp: wg_ops_def shutdown_control_ok on_object_simps modify_object_simps control_ok_cong [OF stats_control])


section \<open>The composite over WireGuard cores\<close>

text \<open>
  C16: One call of the composite (restart, a user, a user list, an update, an update with restart)
  reaches every core exactly once: each core ends in the state the call gives it alone, cores outside
  the composite are untouched, the answer is nil exactly when every core answers nil, and any other
  order of the cores (the controller collects them from a Go map) leaves every core in the same state.
\<close>

theorem composite_reaches_every_core:
  assumes "isolated_cores ops view ok" "(op, cop) \<in> composite_methods ops" "distinct c" "mset c' = mset c"
  shows "view b (snd (cop c w)) = (if b \<in> set c then view b (snd (op b w)) else view b w) \<and>
    (fst (cop c w) = None \<longleftrightarrow> (\<forall>b \<in> set c. fst (op b w) = None)) \<and>
    view b (snd (cop c' w)) = view b (snd (cop c w)) \<and> (fst (cop c' w) = None \<longleftrightarrow> fst (cop c w) = None)"
proof -
  from composite_methods_fan_out [OF assms(2)] have op: "op \<in> mutators ops"
    and cop: "cop = (\<lambda>c w. fan_out op c None w)" by auto
  have c': "distinct c'" "set c' = set c"
    using assms(3,4) by (metis mset_eq_imp_distinct_iff, metis mset_eq_setD)
  note view = isolated_cores.fan_out_view [OF assms(1) op] and nil = isolated_cores.fan_out_nil [OF assms(1) op]
  show ?thesis by (simp add: cop view nil assms(3) c')
qed

definition demo_ops :: "(nat, (string, string set) wg_heap) backend_ops" where
  "demo_ops = wg_ops demo_env sorted_ranger 0
     \<lparr>ms_NumGoroutine = 0, ms_NumGC = 0, ms_Alloc = 0, ms_TotalAlloc = 0, ms_Sys = 0, ms_Mallocs = 0, ms_Frees = 0,
      ms_PauseTotalNs = 0\<rparr> (\<lambda>_ _. Inr [])"

definition demo_heap :: "(string, string set) wg_heap" where
  "demo_heap = \<lparr>hp_next = 2, hp_obj = (\<lambda>_. demo_wg)\<rparr>"

lemma heap_view_demo: "heap_view b demo_heap = demo_wg"
  by (simp add: heap_view_def demo_heap_def)

theorem composite_reaches_every_core_witness:
  "heap_view 1 (snd (Composite_Restart demo_ops [0, 1] demo_heap)) = snd (Restart demo_env sorted_ranger demo_wg) \<and>
   heap_view 1 (snd (Composite_Restart demo_ops [1, 0] demo_heap)) = snd (Restart demo_env sorted_ranger demo_wg)"
proof -
  have "(bk_Restart demo_ops, Composite_Restart demo_ops) \<in> composite_methods demo_ops"
    by (simp add: composite_methods_def)
  from composite_reaches_every_core [OF _ this, of heap_view control_ok "[0, 1]" "[1, 0]" 1 demo_heap]
  show ?thesis
    by (simp add: demo_ops_def wg_cores.isolated_cores_axioms)
      (simp add: wg_ops_def on_object_simps heap_view_demo)
qed

text \<open>
  The online addresses a node reports for a user are the union of what its cores report, and the
  count of an address is the (int64) sum of the counts of the cores, whatever order Go visits the
  maps in. A core that fails is left out.
\<close>

lemma online_ips_merged:
  assumes "range_order rg"
    and "list_all (\<lambda>m. finite (dom m)) (ip_maps (\<lambda>b. bk_GetUserOnlineIpListStats ops name b w) c)"
    and "Composite_GetUserOnlineIpListStats ops rg name c w = Inr (Some r)"
  shows "getd 0 (oi_Ips r) ip =
      wrap64 (\<Sum>ips \<leftarrow> ip_maps (\<lambda>b. bk_GetUserOnlineIpListStats ops name b w) c. getd 0 ips ip) \<and>
    dom (oi_Ips r) = \<Union> (set (map dom (ip_maps (\<lambda>b. bk_GetUserOnlineIpListStats ops name b w) c)))"
  using merge_online_sum [OF assms(1,2) _ assms(3) [unfolded Composite_GetUserOnlineIpListStats_def], of ip]
  by (simp add: in_i64_def)

lemma online_ips_merged_witness:
  "\<exists>r. Composite_GetUserOnlineIpListStats (demo_ops\<lparr>bk_GetUserOnlineIpListStats :=
      (\<lambda>name b h. Inr (Some \<lparr>oi_Name = name, oi_Ips = [''10.0.0.2'' \<mapsto> 2]\<rparr>))\<rparr>)
      sorted_ranger ''a'' [0, 1] demo_heap = Inr (Some r) \<and> getd 0 (oi_Ips r) ''10.0.0.2'' = 4"
proof -
  let ?ops = "demo_ops\<lparr>bk_GetUserOnlineIpListStats :=
      (\<lambda>name b h. Inr (Some \<lparr>oi_Name = name, oi_Ips = [''10.0.0.2'' \<mapsto> 2]\<rparr>))\<rparr>"
  have maps: "ip_maps (\<lambda>b. bk_GetUserOnlineIpListStats ?ops ''a'' b demo_heap) [0, 1] =
      [[''10.0.0.2'' \<mapsto> 2], [''10.0.0.2'' \<mapsto> 2]]" by (simp add: ip_maps_def)
  obtain r where r: "Composite_GetUserOnlineIpListStats ?ops sorted_ranger ''a'' [0, 1] demo_heap = Inr (Some r)"
    by (simp add: Composite_GetUserOnlineIpListStats_def)
  from online_ips_merged [OF range_order_sorted _ r, of "''10.0.0.2''"] r show ?thesis
    unfolding maps by (simp add: wrap64_def)
qed

end
