(* ===== verification/Node_Access.thy ===== *)
theory Node_Access
  imports Node_Service Wireguard_Backend
begin

text \<open>
  What the services guarantee: only the client that controls the node, with the right key, gets
  through the private methods; a start runs exactly what it declares; and no core runs that the
  controller does not know. The cores enter through the contract \<open>node_cores\<close>, which the WireGuard
  core meets.
\<close>

section \<open>The WireGuard constructor\<close>

definition wg_new :: "('k, 'd) wg_env \<Rightarrow> ranger \<Rightarrow> string option \<Rightarrow> gotime \<Rightarrow> bool \<Rightarrow> 'd \<Rightarrow> 'k wg_config \<Rightarrow> user list \<Rightarrow>
    ('k, 'd) wg_heap \<Rightarrow> (string + nat) \<times> ('k, 'd) wg_heap" where
  "wg_new E rg out now hr d cfg users h =
     (case newWithManagerFactory E rg out now hr (Some cfg) users d of
        (Inl err, _) \<Rightarrow> (Inl err, h)
      | (Inr wg, _) \<Rightarrow> (case allocate wg h of (b, h) \<Rightarrow> (Inr b, h)))"

text \<open>A node on which only the WireGuard package starts.\<close>

definition wg_factories :: "('k, 'd) wg_env \<Rightarrow> ranger \<Rightarrow> string option \<Rightarrow> gotime \<Rightarrow> bool \<Rightarrow> 'd \<Rightarrow> (string \<Rightarrow> string + 'k wg_config) \<Rightarrow>
    ('k wg_config, nat, ('k, 'd) wg_heap) factories" where
  "wg_factories E rg out now hr d parse =
     (let no = (\<lambda>h. (Inl ''not available'', h)) in
      \<lparr>xray_NewConfig = (\<lambda>_ _. Inl ''not available''), xray_New = (\<lambda>_ _ _ _. no),
       wireguard_NewConfig = parse, wireguard_New = wg_new E rg out now hr d,
       openvpn_CheckDeps = Some ''openvpn not found'', openvpn_NewConfig = (\<lambda>_. Inl ''not available''), openvpn_NewBackend = (\<lambda>_ _. no),
       singbox_NewConfig = (\<lambda>_. Inl ''not available''), singbox_New = (\<lambda>_ _. no),
       l2tp_CheckDeps = Some ''xl2tpd not found'', l2tp_NewConfig = (\<lambda>_. Inl ''not available''), l2tp_New = (\<lambda>_ _. no)\<rparr>)"

lemma newWithManagerFactory_control:
  assumes "newWithManagerFactory E rg out now hr (Some c) users d = (Inr wg, d')"
  shows "control_ok wg \<and> Started wg"
  using assms
proof (rule newWithManagerFactory_Inr)
  fix key c1 c2 psk ds m D
  assume m: "NewManager E (c_InterfaceName c2) = Inr m"
    and wg: "wg = (fresh_wg (getWireGuardVersion out) now (Some c1) d)\<lparr>wg_config := Some c2, wg_hostRouting := hr,
           wg_manager := Some m, wg_peerStore := Init (KeyString E) (map Some (filterUpsertsByAppliedKeys (KeyString E)
             (sd_UpsertPeers D) (snd (buildTargetPeerConfigs rg (sd_TargetPeers D) psk)))) NewPeerStore,
           wg_background := True, wg_state := LifecycleRunning, wg_kernel := d'\<rparr>"
  have "m_client m" using m by (auto simp: NewManager_def split: option.splits)
  then show ?thesis by (simp add: wg control_ok_def Started_def fresh_wg_def)
qed

interpretation wg_node: node_cores "wg_ops E rg now ms probe" heap_view control_ok heap_alive
    "wg_factories E rg' out now' hr d parse"
  for E :: "('k, 'd) wg_env" and rg now ms probe rg' out now' hr d parse
proof
  fix nw b e and h h' :: "('k, 'd) wg_heap"
  assume "nw \<in> constructors (wg_factories E rg' out now' hr d parse)"
  then have nw: "nw = (\<lambda>h. (Inl ''not available'', h)) \<or> (\<exists>cfg us. nw = wg_new E rg' out now' hr d cfg us)"
    unfolding constructors_def wg_factories_def by (auto simp: Let_def)
  show "\<not> heap_alive b h \<and> control_ok (heap_view b h') \<and> (\<forall>b'. heap_alive b' h' \<longleftrightarrow> b' = b \<or> heap_alive b' h) \<and>
      (\<forall>b'. b' \<noteq> b \<longrightarrow> heap_view b' h' = heap_view b' h)" if "nw h = (Inr b, h')"
  proof -
    from that nw obtain cfg us where "wg_new E rg' out now' hr d cfg us h = (Inr b, h')" by auto
    then obtain wg d' where wg: "newWithManagerFactory E rg' out now' hr (Some cfg) us d = (Inr wg, d')"
      and a: "allocate wg h = (b, h')"
      by (auto simp: wg_new_def split: prod.splits sum.splits)
    from newWithManagerFactory_control [OF wg] allocate_simps [OF a] show ?thesis by auto
  qed
  show "\<forall>b'. (heap_alive b' h' \<longleftrightarrow> heap_alive b' h) \<and> heap_view b' h' = heap_view b' h" if "nw h = (Inl e, h')"
    using that nw by (auto simp: wg_new_def split: prod.splits sum.splits)
next
  fix op b b' and h :: "('k, 'd) wg_heap"
  assume "op \<in> mutators (wg_ops E rg now ms probe)"
  then obtain f where "op = on_object f" unfolding mutators_def by (auto simp: wg_ops_def)
  then show "heap_alive b' (snd (op b h)) \<longleftrightarrow> heap_alive b' h" by (simp add: on_object_simps)
qed (simp_all add: wg_ops_def on_object_simps modify_object_simps)

end
