(* ===== verification/Node_Control.thy ===== *)
theory Node_Control
  imports Node_Access "HOL-Library.Product_Lexorder"
begin

text \<open>
  Properties of the services: who gets through, what a start leaves running, the chunked upload, the
  agreement of the two services, and the invariant of the node over every sequence of requests.
\<close>

section \<open>Orders of the cores\<close>

text \<open>The numbers of the protobuf enumeration order the core types, and so the keys.\<close>

definition type_number :: "backend_type \<Rightarrow> nat" where
  "type_number t = (case t of XRAY \<Rightarrow> 0 | WIREGUARD \<Rightarrow> 1 | OPENVPN \<Rightarrow> 2 | SINGBOX \<Rightarrow> 3 | L2TP \<Rightarrow> 4)"

lemma type_number_inject: "type_number a = type_number b \<longleftrightarrow> a = b"
  by (simp add: type_number_def split: backend_type.split)

instantiation backend_type :: linorder
begin

definition less_eq_backend_type :: "backend_type \<Rightarrow> backend_type \<Rightarrow> bool" where
  "less_eq_backend_type a b \<longleftrightarrow> type_number a \<le> type_number b"

definition less_backend_type :: "backend_type \<Rightarrow> backend_type \<Rightarrow> bool" where
  "less_backend_type a b \<longleftrightarrow> type_number a < type_number b"

instance
  by standard (auto simp: less_eq_backend_type_def less_backend_type_def type_number_inject)

end

definition sorted_keys :: key_ranger where
  "sorted_keys i S = sorted_list_of_set S"

lemma key_order_sorted [simp]: "key_order sorted_keys"
  by (simp add: key_order_def sorted_keys_def)


section \<open>Who gets through\<close>

definition authorized :: "('b, 'w, 'c, 'f, 'u) service \<Rightarrow> string list option \<Rightarrow> ('b, 'f, 'u) controller \<Rightarrow> bool" where
  "authorized sv header c \<longleftrightarrow> (case header of Some (key # _) \<Rightarrow> sv_uuid sv key = Inr (ct_apiKey c) | _ \<Rightarrow> False)"

definition core_up :: "('b, 'w, 'c, 'f, 'u) service \<Rightarrow> ('b, 'w, 'f, 'u) node \<Rightarrow> bool" where
  "core_up sv n \<longleftrightarrow> (\<exists>k b. ct_backends (fst n) k = Some b \<and> bk_Started (sv_ops sv) b (snd n))"

definition api_header :: "rpc_ctx \<Rightarrow> string list option" where
  "api_header ctx = Option.bind (rc_metadata ctx) (\<lambda>md. md ''x-api-key'')"

text \<open>A request that may enter a private method, and the errors of one that may not.\<close>

definition admitted :: "('b, 'w, 'c, 'f, 'u) service \<Rightarrow> rpc_ctx \<Rightarrow> ('b, 'w, 'f, 'u) node \<Rightarrow> bool" where
  "admitted sv ctx n \<longleftrightarrow> authorized sv (api_header ctx) (fst n) \<and> clientIPFromContext ctx \<noteq> [] \<and>
    IsCurrentClient (clientIPFromContext ctx) (fst n) \<and> core_up sv n"

definition refusal :: "rpc_err \<Rightarrow> bool" where
  "refusal e \<longleftrightarrow> (case e of Status code _ \<Rightarrow> code \<in> {Unauthenticated, InvalidArgument, PermissionDenied, Unavailable} | _ \<Rightarrow> False)"

lemma Composite_Started_iff: "Composite_Started ops c w \<longleftrightarrow> (\<exists>b \<in> set c. bk_Started ops b w)"
  by (induction c) auto

lemma running_mem: "iterates ks (ct_backends c) \<Longrightarrow> b \<in> set (running_list ks c) \<longleftrightarrow> (\<exists>k. ct_backends c k = Some b)"
  unfolding running_list_def set_present set_map image_iff iterates_def dom_def by (metis mem_Collect_eq option.distinct(1))

lemma Backend_cases:
  assumes "iterates ks (ct_backends c)"
  shows "Backend ks c = (if ct_backends c = Map.empty then None else Some (running_list ks c))"
proof (cases "ct_backends c = Map.empty")
  case False
  then obtain k b where "ct_backends c k = Some b" by fastforce
  with running_mem [OF assms, of b] have "b \<in> set (running_list ks c)" by blast
  then have "running_list ks c \<noteq> []" by auto
  with False show ?thesis by (simp add: Backend_def NewComposite_def)
qed (simp add: Backend_def)

lemma checkBackendStatus_iff:
  assumes "key_order (mo_keys mo)" "finite (dom (ct_backends (fst n)))"
  shows "checkBackendStatus sv mo n = None \<longleftrightarrow> core_up sv n"
proof -
  note it = keys_at_iterates [OF assms]
  have "checkBackendStatus sv mo n = None \<longleftrightarrow> ct_backends (fst n) \<noteq> Map.empty \<and>
      (\<exists>b \<in> set (running_list (keys_at mo 0 (fst n)) (fst n)). bk_Started (sv_ops sv) b (snd n))"
    unfolding checkBackendStatus_def Backend_cases [OF it] by (simp add: Composite_Started_iff)
  also have "\<dots> \<longleftrightarrow> core_up sv n"
    unfolding core_up_def Bex_def running_mem [OF it] by (metis option.distinct(1))
  finally show ?thesis .
qed

lemma validateApiKey_iff: "validateApiKey sv ctx c = None \<longleftrightarrow> authorized sv (api_header ctx) c"
  by (auto simp: validateApiKey_def authorized_def api_header_def ApiKey_def split: option.split list.split sum.split)

lemma validateApiKey_status: "validateApiKey sv ctx c = Some e \<Longrightarrow> refusal e"
  by (auto simp: refusal_def validateApiKey_def split: option.splits list.splits sum.splits if_splits)

lemma validateCurrentClient_iff: "validateCurrentClient ctx c = None \<longleftrightarrow>
    clientIPFromContext ctx \<noteq> [] \<and> IsCurrentClient (clientIPFromContext ctx) c"
  by (simp add: validateCurrentClient_def Let_def)

lemma validateCurrentClient_status: "validateCurrentClient ctx c = Some e \<Longrightarrow> refusal e"
  by (auto simp: refusal_def validateCurrentClient_def Let_def split: if_splits)

lemma checkBackendStatus_status: "checkBackendStatus sv mo n = Some e \<Longrightarrow> refusal e"
  by (auto simp: refusal_def checkBackendStatus_def split: option.splits if_splits)

lemmas refusals = validateApiKey_status validateCurrentClient_status checkBackendStatus_status

text \<open>
  C11: A private gRPC method, unary or streaming, is entered exactly when the request carries the
  node's API key, comes from the client that controls the node (or nobody controls it) and a core is
  up. Otherwise the answer is one of four status codes and the node is as it was. An entered method
  that succeeds also renews the time of the last request.
\<close>

theorem rpc_private_guarded:
  assumes "chain_law chain" "chain_law schain" "m \<in> backendMethods"
    and "key_order (mo_keys mo)" "finite (dom (ct_backends (fst n)))"
  shows "if admitted sv ctx n
    then ConditionalMiddleware chain sv mo m h ctx n =
        (case h ctx n of (Inl e, n') \<Rightarrow> (Inl e, n') | (Inr x, (c, w)) \<Rightarrow> (Inr x, (NewRequest (mo_done mo) c, w))) \<and>
      ConditionalStreamMiddleware schain sv mo m sh ctx n =
        (case sh ctx n of (Some e, n') \<Rightarrow> (Some e, n') | (None, (c, w)) \<Rightarrow> (None, (NewRequest (mo_done mo) c, w)))
    else (\<exists>e. ConditionalMiddleware chain sv mo m h ctx n = (Inl e, n) \<and> refusal e) \<and>
      (\<exists>e. ConditionalStreamMiddleware schain sv mo m sh ctx n = (Some e, n) \<and> refusal e)"
proof -
  have c: "ConditionalMiddleware chain sv mo m h = LoggingInterceptor mo (validateApiKeyMiddleware sv
      (validateCurrentClientMiddleware (CheckBackendMiddleware sv mo h)))"
    "ConditionalStreamMiddleware schain sv mo m sh = LoggingStreamInterceptor mo (validateApiKeyStreamMiddleware sv
      (validateCurrentClientStreamMiddleware (CheckBackendStreamMiddleware sv mo sh)))"
    using assms(1-3) by (simp_all add: ConditionalMiddleware_def ConditionalStreamMiddleware_def chain_law_def)
  note unfold = c LoggingInterceptor_def LoggingStreamInterceptor_def validateApiKeyMiddleware_def
    validateApiKeyStreamMiddleware_def validateCurrentClientMiddleware_def validateCurrentClientStreamMiddleware_def
    CheckBackendMiddleware_def CheckBackendStreamMiddleware_def
  have adm: "admitted sv ctx n \<longleftrightarrow> validateApiKey sv ctx (fst n) = None \<and> validateCurrentClient ctx (fst n) = None \<and>
      checkBackendStatus sv mo n = None"
    by (auto simp: admitted_def validateApiKey_iff validateCurrentClient_iff checkBackendStatus_iff [OF assms(4,5)])
  show ?thesis
  proof (cases "admitted sv ctx n")
    case True
    with adm show ?thesis by (simp add: unfold)
  next
    case False
    with adm show ?thesis using refusals(1) [of sv ctx "fst n"] refusals(2) [of ctx "fst n"] refusals(3) [of sv mo n]
      by (auto simp: unfold split: option.split)
  qed
qed

definition demo_service :: "(nat, (string, string set) wg_heap, string wg_config, nat, string) service" where
  "demo_service = \<lparr>sv_ops = demo_ops, sv_json = \<lparr>jv_strings = (\<lambda>_. None), jv_inbounds = (\<lambda>_. None)\<rparr>,
     sv_fact = wg_factories demo_env sorted_ranger None 0 False {} (\<lambda>s. if s = ''bad'' then Inl ''bad config'' else Inr demo_config),
     sv_uuid = Inr, sv_code = (\<lambda>_. Unknown), sv_zero = 0\<rparr>"

definition demo_moment :: moment where
  "demo_moment = \<lparr>mo_now = 5, mo_done = 6, mo_ports = (1, 2), mo_keys = sorted_keys, mo_range = sorted_ranger\<rparr>"

definition demo_ctx :: "string \<Rightarrow> rpc_ctx" where
  "demo_ctx ip = \<lparr>rc_peer = Some (TCPAddr ip), rc_metadata = Some [''x-api-key'' \<mapsto> [''secret'']]\<rparr>"

definition demo_node :: "(nat, (string, string set) wg_heap, nat, string) node" where
  "demo_node = ((New ''secret'' (3, 4))\<lparr>ct_backends := [(WIREGUARD, ''wg0'') \<mapsto> 0], ct_clientIP := ''10.1.1.1''\<rparr>, demo_heap)"

definition foldr_chain :: "'h list_chain" where
  "foldr_chain is h = foldr (\<lambda>i h. i h) is h"

lemma chain_law_foldr: "chain_law foldr_chain"
  by (simp add: chain_law_def foldr_chain_def)

lemma demo_node_facts: "finite (dom (ct_backends (fst demo_node)))" "ct_backends (fst demo_node) = [(WIREGUARD, ''wg0'') \<mapsto> 0]"
    "ct_apiKey (fst demo_node) = ''secret''" "ct_clientIP (fst demo_node) = ''10.1.1.1''" "snd demo_node = demo_heap"
  by (simp_all add: demo_node_def New_def)

lemma demo_core_up: "core_up demo_service demo_node"
  unfolding core_up_def
  by (rule exI [of _ "(WIREGUARD, ''wg0'')"], rule exI [of _ 0])
    (simp add: demo_node_facts demo_service_def demo_ops_def wg_ops_def heap_view_demo Started_def demo_wg_def)

theorem rpc_private_guarded_witness:
  "(\<exists>e. ConditionalMiddleware foldr_chain demo_service demo_moment ''/service.NodeService/Stop''
      (rpc_Stop demo_service demo_moment) (demo_ctx ''10.9.9.9'') demo_node = (Inl e, demo_node)) \<and>
   fst (ConditionalMiddleware foldr_chain demo_service demo_moment ''/service.NodeService/Stop''
      (rpc_Stop demo_service demo_moment) (demo_ctx ''10.1.1.1'') demo_node) = Inr REmpty"
proof -
  have m: "''/service.NodeService/Stop'' \<in> backendMethods" by (simp add: backendMethods_def)
  have k: "key_order (mo_keys demo_moment)" by (simp add: demo_moment_def)
  note g = rpc_private_guarded [OF chain_law_foldr chain_law_foldr m k demo_node_facts(1)]
  have ip: "clientIPFromContext (demo_ctx ip) = ip" "authorized demo_service (api_header (demo_ctx ip)) (fst demo_node)" for ip
    by (simp_all add: clientIPFromContext_def demo_ctx_def authorized_def api_header_def demo_service_def demo_node_facts)
  have "\<not> admitted demo_service (demo_ctx ''10.9.9.9'') demo_node" "admitted demo_service (demo_ctx ''10.1.1.1'') demo_node"
    by (simp_all add: admitted_def ip demo_core_up IsCurrentClient_def demo_node_facts)
  with g [of demo_service "demo_ctx ''10.9.9.9''" "rpc_Stop demo_service demo_moment"]
    g [of demo_service "demo_ctx ''10.1.1.1''" "rpc_Stop demo_service demo_moment"]
  show ?thesis by (auto simp: rpc_Stop_def split: prod.split)
qed

text \<open>A REST request that may enter a private route.\<close>

definition rest_admitted :: "('b, 'w, 'c, 'f, 'u) service \<Rightarrow> rest_req \<Rightarrow> ('b, 'w, 'f, 'u) node \<Rightarrow> bool" where
  "rest_admitted sv r n \<longleftrightarrow> rr_ApiKey r \<noteq> [] \<and> sv_uuid sv (rr_ApiKey r) = Inr (ct_apiKey (fst n)) \<and> core_up sv n \<and>
     (\<exists>ip. requestClientIP r = Some ip \<and> IsCurrentClient ip (fst n))"

lemma checkBackendMiddleware_cases:
  assumes "key_order (mo_keys mo)" "finite (dom (ct_backends (fst n)))"
  shows "if core_up sv n then checkBackendMiddleware sv mo h r n = h r n
    else \<exists>code \<in> {500, 503}. \<exists>body. checkBackendMiddleware sv mo h r n = Some ((code, body), n)"
  using checkBackendStatus_iff [OF assms, of sv]
  by (auto simp: checkBackendMiddleware_def checkBackendStatus_def http_Error_def split: option.splits if_splits)

text \<open>
  C12: A private REST route is entered exactly when the request carries the node's API key, a core is
  up and the request comes from the client that controls the node. Otherwise the answer is one of
  the status codes 401, 403, 422, 500 and 503 and the node is as it was. A route that panics answers
  what the panic handler writes and changes nothing; one that answers 2xx renews the last request.
\<close>

theorem rest_private_guarded:
  assumes "chain_law chain" "key_order (mo_keys mo)" "finite (dom (ct_backends (fst n)))" "fst recovered = 500"
  shows "if rest_admitted sv r n
    then private_route chain recovered sv mo h r n =
      (case h r n of
         None \<Rightarrow> Some (recovered, n)
       | Some ((status, body), (c, w)) \<Rightarrow>
           Some ((status, body), (if 200 \<le> status \<and> status < 300 then NewRequest (mo_done mo) c else c, w)))
    else \<exists>code body. private_route chain recovered sv mo h r n = Some ((code, body), n) \<and> code \<in> {401, 403, 422, 500, 503}"
proof -
  have route: "private_route chain recovered sv mo h = rest_validateApiKey sv (trackSuccessfulRequest mo
      (Recoverer recovered (checkBackendMiddleware sv mo (rest_validateCurrentClient h))))"
    using assms(1) by (simp add: private_route_def chain_law_def)
  let ?inner = "checkBackendMiddleware sv mo (rest_validateCurrentClient h) r n"
  have inner: "if core_up sv n \<and> (\<exists>ip. requestClientIP r = Some ip \<and> IsCurrentClient ip (fst n)) then ?inner = h r n
      else \<exists>code \<in> {403, 500, 503}. \<exists>body. ?inner = Some ((code, body), n)"
    using checkBackendMiddleware_cases [OF assms(2,3), of sv "rest_validateCurrentClient h" r]
    by (auto simp: rest_validateCurrentClient_def http_Error_def split: option.splits if_splits)
  have track: "trackSuccessfulRequest mo (Recoverer recovered g) r n =
      (case g r n of
         None \<Rightarrow> Some (recovered, n)
       | Some ((status, body), (c, w)) \<Rightarrow>
           Some ((status, body), (if 200 \<le> status \<and> status < 300 then NewRequest (mo_done mo) c else c, w)))" for g
    using assms(4) by (auto simp: trackSuccessfulRequest_def Recoverer_def split: option.split prod.split)
  show ?thesis
  proof (cases "rr_ApiKey r \<noteq> [] \<and> sv_uuid sv (rr_ApiKey r) = Inr (ct_apiKey (fst n))")
    case True
    then have "private_route chain recovered sv mo h r n =
        trackSuccessfulRequest mo (Recoverer recovered (checkBackendMiddleware sv mo (rest_validateCurrentClient h))) r n"
      by (simp add: route rest_validateApiKey_def ApiKey_def)
    with True inner show ?thesis unfolding track rest_admitted_def by (auto split: if_splits)
  next
    case False
    then show ?thesis
      by (auto simp: route rest_validateApiKey_def rest_admitted_def ApiKey_def http_Error_def Let_def split: sum.split)
  qed
qed

theorem rest_private_guarded_witness:
  "\<exists>code body. private_route foldr_chain (500, ErrorText (Plain [])) demo_service demo_moment (rest_Stop demo_service demo_moment)
     \<lparr>rr_RemoteAddr = ''10.9.9.9:5000'', rr_ApiKey = ''guess''\<rparr> demo_node = Some ((code, body), demo_node) \<and> 400 \<le> code"
proof -
  let ?r = "\<lparr>rr_RemoteAddr = ''10.9.9.9:5000'', rr_ApiKey = ''guess''\<rparr>"
  have k: "key_order (mo_keys demo_moment)" by (simp add: demo_moment_def)
  have "\<not> rest_admitted demo_service ?r demo_node"
    by (simp add: rest_admitted_def demo_service_def demo_node_facts)
  with rest_private_guarded [OF chain_law_foldr k demo_node_facts(1), of "(500, ErrorText (Plain []))" demo_service ?r
      "rest_Stop demo_service demo_moment"]
  show ?thesis by auto
qed


section \<open>Starting cores\<close>

text \<open>The two services run the same start; they differ in how they find the address and report errors.\<close>

definition start_node :: "('b, 'w, 'c, 'f, 'u) service \<Rightarrow> moment \<Rightarrow> string \<Rightarrow> backend_msg \<Rightarrow> ('b, 'w, 'f, 'u) node \<Rightarrow>
    err \<times> ('b, 'w, 'f, 'u) node" where
  "start_node sv mo ip data n =
     (let (c, w) = n; running = (ct_backends c \<noteq> Map.empty); additive = (running \<and> b_Additive data);
          (c, w) = (if running \<and> \<not> additive then Disconnect (sv_ops sv) (keys_at mo 2 c) (mo_ports mo) c w else (c, w))
      in case StartBackend (sv_ops sv) (sv_json sv) (sv_fact sv) (keys_at mo 3 c) data c w of
           (Some err, c, w) \<Rightarrow> (Some err, (c, w))
         | (None, c, w) \<Rightarrow>
             (None, (if additive then NewRequest (mo_now mo) c else Connect (mo_now mo) ip (b_KeepAlive data) c, w)))"

definition start_refused :: "string \<Rightarrow> ('b, 'w, 'f, 'u) node \<Rightarrow> bool" where
  "start_refused ip n \<longleftrightarrow> ct_backends (fst n) \<noteq> Map.empty \<and> \<not> IsCurrentClient ip (fst n)"

lemma Backend_None: "iterates ks (ct_backends c) \<Longrightarrow> Backend ks c = None \<longleftrightarrow> ct_backends c = Map.empty"
  by (simp add: Backend_cases)

lemma rpc_Start_cases:
  assumes "key_order (mo_keys mo)" "finite (dom (ct_backends (fst n)))" "clientIPFromContext ctx \<noteq> []"
  shows "rpc_Start sv mo data ctx n =
    (if start_refused (clientIPFromContext ctx) n
     then (Inl (Status PermissionDenied ''node is controlled by another client''), n)
     else case start_node sv mo (clientIPFromContext ctx) data n of
       (Some err, n') \<Rightarrow> (Inl (Plain err), n')
     | (None, (c, w)) \<Rightarrow> (Inr (RBase (BaseInfoResponse (sv_ops sv) (keys_at mo 4 c) c w)), (c, w)))"
proof -
  obtain c w where n: "n = (c, w)" by fastforce
  have "iterates (keys_at mo i c) (ct_backends c)" for i using keys_at_iterates assms(1,2) by (simp add: n)
  note b = Backend_None [OF this]
  define run where "run = (ct_backends c \<noteq> Map.empty)"
  obtain c1 w1 where d: "(if run \<and> \<not> (run \<and> b_Additive data)
      then Disconnect (sv_ops sv) (keys_at mo 2 c) (mo_ports mo) c w else (c, w)) = (c1, w1)" by fastforce
  obtain e c2 w2 where s: "StartBackend (sv_ops sv) (sv_json sv) (sv_fact sv) (keys_at mo 3 c1) data c1 w1 = (e, c2, w2)"
    by (metis prod.exhaust)
  show ?thesis using assms(3)
    unfolding rpc_Start_def start_node_def start_refused_def n Let_def fst_conv snd_conv prod.case b run_def [symmetric] d s
    by (cases e) simp_all
qed

lemma rest_Start_cases:
  assumes "key_order (mo_keys mo)" "finite (dom (ct_backends (fst n)))" "requestClientIP r = Some ip"
  shows "rest_Start sv mo (Inr data) r n =
    (if start_refused ip n then Some (http_Error ''node is controlled by another client'' 403, n)
     else case start_node sv mo ip data n of
       (Some err, n') \<Rightarrow> Some (http_Error err 503, n')
     | (None, (c, w)) \<Rightarrow> Some (SendProtoResponse (RBase (BaseInfoResponse (sv_ops sv) (keys_at mo 4 c) c w)), (c, w)))"
proof -
  obtain c w where n: "n = (c, w)" by fastforce
  have "iterates (keys_at mo i c) (ct_backends c)" for i using keys_at_iterates assms(1,2) by (simp add: n)
  note b = Backend_None [OF this]
  define run where "run = (ct_backends c \<noteq> Map.empty)"
  obtain c1 w1 where d: "(if run \<and> \<not> (run \<and> b_Additive data)
      then Disconnect (sv_ops sv) (keys_at mo 2 c) (mo_ports mo) c w else (c, w)) = (c1, w1)" by fastforce
  obtain e c2 w2 where s: "StartBackend (sv_ops sv) (sv_json sv) (sv_fact sv) (keys_at mo 3 c1) data c1 w1 = (e, c2, w2)"
    by (metis prod.exhaust)
  show ?thesis using assms(3)
    unfolding rest_Start_def start_node_def start_refused_def n Let_def fst_conv snd_conv prod.case sum.case b run_def [symmetric] d s
    by (cases e) simp_all
qed

text \<open>
  C15: The REST and the gRPC service are interchangeable for starting: from the same client address
  (an IPv4 or bracketed IPv6 address with a port behind REST) the same request leaves the node in the
  same state, with the same information on success, and 403 or 503 where gRPC answers
  \<^verbatim>\<open>PermissionDenied\<close> or the plain error.
\<close>

theorem rest_and_rpc_start_agree:
  assumes "key_order (mo_keys mo)" "finite (dom (ct_backends (fst n)))"
    and "requestClientIP r = Some (clientIPFromContext ctx)" "clientIPFromContext ctx \<noteq> []"
  shows "\<exists>answer n'. rest_Start sv mo (Inr data) r n = Some (answer, n') \<and> snd (rpc_Start sv mo data ctx n) = n' \<and>
    (case fst (rpc_Start sv mo data ctx n) of
       Inl (Status code msg) \<Rightarrow> code = PermissionDenied \<and> answer = (403, ErrorText (Plain msg)) \<and> n' = n
     | Inl (Plain msg) \<Rightarrow> answer = (503, ErrorText (Plain msg))
     | Inr x \<Rightarrow> answer = (200, Message x))"
proof -
  obtain e c' w' where s: "start_node sv mo (clientIPFromContext ctx) data n = (e, c', w')" by (metis prod.exhaust)
  show ?thesis
    unfolding rpc_Start_cases [OF assms(1,2,4)] rest_Start_cases [OF assms(1-3)] s
    by (cases e) (auto simp: http_Error_def SendProtoResponse_def simp del: split_paired_Ex)
qed

lemma split_host_demo: "split_host ''10.1.1.1:5000'' = Some ''10.1.1.1''"
  by code_simp

theorem rest_and_rpc_start_agree_witness:
  "\<exists>answer n'. rest_Start demo_service demo_moment (Inr \<lparr>b_Type = XRAY, b_Config = [], b_Users = [], b_KeepAlive = 0,
       b_ExcludeInbounds = [], b_Additive = True\<rparr>) \<lparr>rr_RemoteAddr = ''10.1.1.1:5000'', rr_ApiKey = ''secret''\<rparr> demo_node =
     Some (answer, n') \<and> snd (rpc_Start demo_service demo_moment \<lparr>b_Type = XRAY, b_Config = [], b_Users = [], b_KeepAlive = 0,
       b_ExcludeInbounds = [], b_Additive = True\<rparr> (demo_ctx ''10.1.1.1'') demo_node) = n'"
proof -
  have k: "key_order (mo_keys demo_moment)" by (simp add: demo_moment_def)
  have ip: "clientIPFromContext (demo_ctx ''10.1.1.1'') = ''10.1.1.1''" by (simp add: clientIPFromContext_def demo_ctx_def)
  show ?thesis
    using rest_and_rpc_start_agree [OF k demo_node_facts(1), of "\<lparr>rr_RemoteAddr = ''10.1.1.1:5000'', rr_ApiKey = ''secret''\<rparr>" "demo_ctx ''10.1.1.1''" demo_service]
    unfolding ip by (simp add: requestClientIP_def split_host_demo) blast
qed

text \<open>The cores a start leaves alone: an additive one all others of the map, a plain one none.\<close>

definition kept_cores :: "json_views \<Rightarrow> backend_msg \<Rightarrow> ('b, 'f, 'u) controller \<Rightarrow> (backend_key \<rightharpoonup> 'b)" where
  "kept_cores J data c = (if b_Additive data then (ct_backends c)(key_for J data := None) else Map.empty)"

lemma node_inv_cong: "ct_backends c' = ct_backends c \<Longrightarrow> node_inv ops view ok alive c' w = node_inv ops view ok alive c w"
  by (simp add: node_inv_def)

lemma Connect_backends [simp]: "ct_backends (Connect now ip ka c) = ct_backends c" "ct_clientIP (Connect now ip ka c) = ip"
  and NewRequest_backends [simp]: "ct_backends (NewRequest now c) = ct_backends c" "ct_clientIP (NewRequest now c) = ct_clientIP c"
  by (simp_all add: Connect_def NewRequest_def Let_def)

lemma start_node_spec:
  assumes cores: "node_cores (sv_ops sv) view ok alive (sv_fact sv)" and "key_order (mo_keys mo)"
    and inv: "node_inv (sv_ops sv) view ok alive c w" and start: "start_node sv mo ip data (c, w) = (e, c', w')"
  shows "node_inv (sv_ops sv) view ok alive c' w' \<and>
    (\<forall>b \<in> ran (kept_cores (sv_json sv) data c). view b w' = view b w) \<and>
    (\<forall>b \<in> ran (ct_backends c) - ran (kept_cores (sv_json sv) data c). \<not> bk_Started (sv_ops sv) b w') \<and>
    (case e of Some _ \<Rightarrow> ct_backends c' = kept_cores (sv_json sv) data c
     | None \<Rightarrow> (\<exists>b. ct_backends c' = (kept_cores (sv_json sv) data c)(key_for (sv_json sv) data \<mapsto> b))) \<and>
    (e = None \<longrightarrow> ct_clientIP c' = (if ct_backends c \<noteq> Map.empty \<and> b_Additive data then ct_clientIP c else ip))"
proof -
  define run where "run = (ct_backends c \<noteq> Map.empty)"
  let ?J = "sv_json sv"
  have fin: "finite (dom (ct_backends c))" using inv by (simp add: node_inv_def)
  obtain c1 w1 where d: "(if run \<and> \<not> (run \<and> b_Additive data)
      then Disconnect (sv_ops sv) (keys_at mo 2 c) (mo_ports mo) c w else (c, w)) = (c1, w1)" by fastforce
  obtain e2 c2 w2 where s: "StartBackend (sv_ops sv) ?J (sv_fact sv) (keys_at mo 3 c1) data c1 w1 = (e2, c2, w2)"
    by (metis prod.exhaust)
  have e: "e2 = e" "w' = w2" "ct_backends c' = ct_backends c2"
    "e = None \<longrightarrow> ct_clientIP c' = (if run \<and> b_Additive data then ct_clientIP c2 else ip)"
    using start unfolding start_node_def Let_def prod.case run_def [symmetric] d s by (auto split: option.splits)
  have 1: "node_inv (sv_ops sv) view ok alive c1 w1 \<and> kept_cores ?J data c1 = kept_cores ?J data c \<and>
      (\<forall>b \<in> ran (kept_cores ?J data c). view b w1 = view b w) \<and>
      (\<forall>b \<in> ran (ct_backends c) - ran (ct_backends c1). \<not> bk_Started (sv_ops sv) b w1) \<and> (c1 = c \<or> (\<forall>b. \<not> bk_Started (sv_ops sv) b w1)) \<and>
      (run \<and> b_Additive data \<longrightarrow> c1 = c)"
  proof (cases "run \<and> \<not> b_Additive data")
    case True
    with d have "Disconnect (sv_ops sv) (keys_at mo 2 c) (mo_ports mo) c w = (c1, w1)" by simp
    from node_cores.Disconnect_stops_all [OF cores inv keys_at_iterates [OF assms(2) fin] this] True
    show ?thesis by (auto simp: kept_cores_def)
  next
    case False
    with d inv show ?thesis by (auto simp: run_def)
  qed
  have fin1: "finite (dom (ct_backends c1))" using 1 by (simp add: node_inv_def)
  note st = node_cores.StartBackend_spec [OF cores conjunct1 [OF 1] keys_at_iterates [OF assms(2) fin1] s,
      folded kept_cores_def]
  have ip: "ct_clientIP c2 = ct_clientIP c1"
    using s unfolding StartBackend_def retireFor_def Let_def by (auto split: prod.splits sum.splits)
  have stop: "\<not> bk_Started (sv_ops sv) b w2" if b: "b \<in> ran (ct_backends c)" "b \<notin> ran (kept_cores ?J data c)" for b
  proof (cases "c1 = c")
    case True
    with st 1 b show ?thesis by auto
  next
    case False
    then have "run \<and> \<not> b_Additive data" using d by (auto split: if_splits)
    with d have "Disconnect (sv_ops sv) (keys_at mo 2 c) (mo_ports mo) c w = (c1, w1)" by simp
    note dis = node_cores.Disconnect_stops_all [OF cores inv keys_at_iterates [OF assms(2) fin] this]
    have "alive b w1" using dis b inv by (auto simp: node_inv_def)
    with dis st show ?thesis by blast
  qed
  have kept: "kept_cores ?J data c1 = kept_cores ?J data c" using 1 by blast
  show ?thesis
  proof (intro conjI)
    show "node_inv (sv_ops sv) view ok alive c' w'" unfolding node_inv_cong [OF e(3)] e(2) using st by blast
    show "\<forall>b \<in> ran (kept_cores ?J data c). view b w' = view b w"
      using st 1 unfolding kept e(2) by metis
    show "\<forall>b \<in> ran (ct_backends c) - ran (kept_cores ?J data c). \<not> bk_Started (sv_ops sv) b w'"
      using stop unfolding e(2) by blast
    show "case e of Some _ \<Rightarrow> ct_backends c' = kept_cores ?J data c
       | None \<Rightarrow> \<exists>b. ct_backends c' = (kept_cores ?J data c)(key_for ?J data \<mapsto> b)"
      using st unfolding kept e(1,3) by (cases e) auto
    show "e = None \<longrightarrow> ct_clientIP c' = (if ct_backends c \<noteq> Map.empty \<and> b_Additive data then ct_clientIP c else ip)"
      using e(4) ip 1 unfolding run_def by auto
  qed
qed

text \<open>
  C10: A start from a client other than the one that controls a running node is refused and changes
  nothing. Any other start keeps the node's invariant and leaves exactly what it declares: a plain
  one stops every core and runs the new one alone, an additive one replaces the core of its own type
  and instance and does not touch the others; if the new core fails to start, it is missing and the
  rest is as said. After a plain start the caller controls the node.
\<close>

theorem Start_leaves_what_it_declares:
  assumes "node_cores (sv_ops sv) view ok alive (sv_fact sv)" "key_order (mo_keys mo)"
    and "node_inv (sv_ops sv) view ok alive c w" "clientIPFromContext ctx \<noteq> []"
    and "rpc_Start sv mo data ctx (c, w) = (r, c', w')"
  shows "if start_refused (clientIPFromContext ctx) (c, w)
    then r = Inl (Status PermissionDenied ''node is controlled by another client'') \<and> c' = c \<and> w' = w
    else node_inv (sv_ops sv) view ok alive c' w' \<and>
      (\<forall>b \<in> ran (kept_cores (sv_json sv) data c). view b w' = view b w) \<and>
      (\<forall>b \<in> ran (ct_backends c) - ran (kept_cores (sv_json sv) data c). \<not> bk_Started (sv_ops sv) b w') \<and>
      (case r of Inl _ \<Rightarrow> ct_backends c' = kept_cores (sv_json sv) data c
       | Inr _ \<Rightarrow> (\<exists>b. ct_backends c' = (kept_cores (sv_json sv) data c)(key_for (sv_json sv) data \<mapsto> b)) \<and>
           (\<not> b_Additive data \<longrightarrow> ct_clientIP c' = clientIPFromContext ctx))"
proof -
  have fin: "finite (dom (ct_backends (fst (c, w))))" using assms(3) by (simp add: node_inv_def)
  obtain e c2 w2 where s: "start_node sv mo (clientIPFromContext ctx) data (c, w) = (e, c2, w2)" by (metis prod.exhaust)
  note sp = start_node_spec [OF assms(1-3) s]
  show ?thesis
  proof (cases "start_refused (clientIPFromContext ctx) (c, w)")
    case True
    with rpc_Start_cases [OF assms(2) fin assms(4), of sv data] assms(5) show ?thesis by simp
  next
    case False
    with rpc_Start_cases [OF assms(2) fin assms(4), of sv data] assms(5) s
    have r: "c' = c2" "w' = w2" "(e = None \<longleftrightarrow> (\<exists>x. r = Inr x))" by (auto split: option.splits)
    with sp False show ?thesis by (cases e; cases r) simp_all
  qed
qed

text \<open>The start of one WireGuard interface on an empty node.\<close>

definition demo_start :: backend_msg where
  "demo_start = \<lparr>b_Type = WIREGUARD, b_Config = [], b_Users = [demo_user], b_KeepAlive = 0, b_ExcludeInbounds = [], b_Additive = False\<rparr>"

definition stopped_heap :: "(string, string set) wg_heap" where
  "stopped_heap = \<lparr>hp_next = 0, hp_obj = (\<lambda>_. Shutdown demo_env demo_wg)\<rparr>"

lemma Shutdown_not_started: "\<not> Started (Shutdown demo_env demo_wg)"
  by (rule conjunct2 [OF shutdown_control_ok]) (simp add: control_ok_def demo_wg_def)

lemma demo_cores: "node_cores (sv_ops demo_service) heap_view control_ok heap_alive (sv_fact demo_service)"
  by (simp add: demo_service_def demo_ops_def wg_node.node_cores_axioms)

lemma demo_fresh_inv: "node_inv (sv_ops demo_service) heap_view control_ok heap_alive (New ''secret'' (3, 4)) stopped_heap"
  by (simp add: node_inv_def New_def demo_service_def demo_ops_def wg_ops_def heap_view_def stopped_heap_def Shutdown_not_started)

theorem Start_leaves_what_it_declares_witness:
  "\<exists>r c' w'. rpc_Start demo_service demo_moment demo_start (demo_ctx ''10.1.1.1'') (New ''secret'' (3, 4), stopped_heap) = (r, c', w') \<and>
     node_inv (sv_ops demo_service) heap_view control_ok heap_alive c' w'"
proof -
  obtain r c' w' where s: "rpc_Start demo_service demo_moment demo_start (demo_ctx ''10.1.1.1'')
      (New ''secret'' (3, 4), stopped_heap) = (r, c', w')" by (metis prod.exhaust)
  have k: "key_order (mo_keys demo_moment)" by (simp add: demo_moment_def)
  have "clientIPFromContext (demo_ctx ''10.1.1.1'') \<noteq> []" by (simp add: clientIPFromContext_def demo_ctx_def)
  from Start_leaves_what_it_declares [OF demo_cores k demo_fresh_inv this s] s show ?thesis
    by (auto simp: start_refused_def New_def)
qed


section \<open>No core without a controller\<close>

text \<open>
  What a node does under its locks, from one state to the next: requests of the two services, which the
  control lock orders, calls and reports through the composite, and the cores' own life. In its own life
  a core of the map may change, even stop or restart; cores outside the map do not start by themselves.
\<close>

inductive node_step :: "('b, 'w, 'c, 'f, 'u) service \<Rightarrow> ('b \<Rightarrow> 'w \<Rightarrow> 's) \<Rightarrow> ('s \<Rightarrow> bool) \<Rightarrow> ('b \<Rightarrow> 'w \<Rightarrow> bool) \<Rightarrow>
    ('b, 'w, 'f, 'u) node \<Rightarrow> ('b, 'w, 'f, 'u) node \<Rightarrow> bool" for sv view ok alive where
  rpc_start: "key_order (mo_keys mo) \<Longrightarrow> rpc_Start sv mo data ctx n = (r, n') \<Longrightarrow> node_step sv view ok alive n n'"
| rest_start: "key_order (mo_keys mo) \<Longrightarrow> rest_Start sv mo decoded req n = Some (ans, n') \<Longrightarrow> node_step sv view ok alive n n'"
| stop: "key_order (mo_keys mo) \<Longrightarrow> rpc_Stop sv mo ctx n = (r, n') \<Longrightarrow> node_step sv view ok alive n n'"
| request: "node_step sv view ok alive (c, w) (NewRequest now c, w)"
| system_stats: "node_step sv view ok alive (c, w) (recordSystemStats sample job c, w)"
| call: "iterates ks (ct_backends c) \<Longrightarrow> Backend ks c = Some back \<Longrightarrow>
    (op, cop) \<in> composite_methods (sv_ops sv) \<Longrightarrow> cop back w = (e, w') \<Longrightarrow> node_step sv view ok alive (c, w) (c, w')"
| stats: "iterates ks (ct_backends c) \<Longrightarrow> Backend ks c = Some back \<Longrightarrow>
    Composite_GetStats (sv_ops sv) req back w = (q, w') \<Longrightarrow> node_step sv view ok alive (c, w) (c, w')"
| life: "\<forall>b. b \<notin> ran (ct_backends c) \<longrightarrow> view b w' = view b w \<Longrightarrow>
    \<forall>b. alive b w' \<longleftrightarrow> alive b w \<Longrightarrow> \<forall>b \<in> ran (ct_backends c). ok (view b w) \<longrightarrow> ok (view b w') \<Longrightarrow>
    node_step sv view ok alive (c, w) (c, w')"

text \<open>
  The keep-alive job calls \<^verbatim>\<open>Disconnect\<close> without the control lock, and \<^verbatim>\<open>Disconnect\<close>
  releases the mutex while the cores shut down, so any step may come in between: \<open>ka_begin\<close> takes the
  snapshot of the map, \<open>ka_shut\<close> shuts down the next core of it and \<open>ka_end\<close> clears the map. \<open>ws\<close> has, for every
  such call under way, the cores it has still to shut down; \<open>overlap\<close> records whether a core has come
  up while there was one.
\<close>

definition came_up :: "('b, 'w, 'c, 'f, 'u) service \<Rightarrow> ('b, 'w, 'f, 'u) node \<Rightarrow> ('b, 'w, 'f, 'u) node \<Rightarrow> bool" where
  "came_up sv n n' \<longleftrightarrow> (\<exists>b. bk_Started (sv_ops sv) b (snd n') \<and> \<not> bk_Started (sv_ops sv) b (snd n))"

inductive node_reach :: "('b, 'w, 'c, 'f, 'u) service \<Rightarrow> ('b \<Rightarrow> 'w \<Rightarrow> 's) \<Rightarrow> ('s \<Rightarrow> bool) \<Rightarrow> ('b \<Rightarrow> 'w \<Rightarrow> bool) \<Rightarrow>
    ('b, 'w, 'f, 'u) node \<Rightarrow> 'b list list \<Rightarrow> bool \<Rightarrow> bool" for sv view ok alive where
  boot: "\<forall>b. \<not> bk_Started (sv_ops sv) b w \<Longrightarrow> node_reach sv view ok alive (New key ports, w) [] False"
| step: "node_reach sv view ok alive n ws overlap \<Longrightarrow> node_step sv view ok alive n n' \<Longrightarrow>
    node_reach sv view ok alive n' ws (overlap \<or> ws \<noteq> [] \<and> came_up sv n n')"
| ka_begin: "node_reach sv view ok alive (c, w) ws overlap \<Longrightarrow> iterates ks (ct_backends c) \<Longrightarrow>
    ct_keepAliveJobs c job = Some keepAlive \<Longrightarrow> now - ct_lastRequest c \<ge> keepAlive \<Longrightarrow>
    Disconnect_begin ks c = (running, c') \<Longrightarrow> node_reach sv view ok alive (c', w) (running # ws) overlap"
| ka_shut: "node_reach sv view ok alive (c, w) (us @ (b # bs) # vs) overlap \<Longrightarrow>
    node_reach sv view ok alive (c, bk_Shutdown (sv_ops sv) b w) (us @ bs # vs) overlap"
| ka_end: "node_reach sv view ok alive (c, w) (us @ [] # vs) overlap \<Longrightarrow>
    node_reach sv view ok alive (Disconnect_end ports c, w) (us @ vs) overlap"

text \<open>A keep-alive tick that meets nothing else is \<open>keepAliveTracker\<close> in one piece.\<close>

lemma node_reach_shut_all:
  "node_reach sv view ok alive (c, w) (bs # ws) ov \<Longrightarrow> node_reach sv view ok alive (c, shutdown_all (sv_ops sv) bs w) ([] # ws) ov"
proof (induction bs arbitrary: w)
  case (Cons b bs)
  from ka_shut [of sv view ok alive c w "[]" b bs ws ov] Cons show ?case by (simp add: shutdown_all_def)
qed (simp add: shutdown_all_def)

lemma node_reach_keepAliveTracker:
  assumes "node_reach sv view ok alive (c, w) ws ov" "iterates ks (ct_backends c)"
    and "keepAliveTracker (sv_ops sv) ks ports now job c w = n'"
  shows "node_reach sv view ok alive n' ws ov"
proof (cases "\<exists>ka. ct_keepAliveJobs c job = Some ka \<and> now - ct_lastRequest c \<ge> ka")
  case True
  then obtain ka where ka: "ct_keepAliveJobs c job = Some ka" "now - ct_lastRequest c \<ge> ka" by blast
  obtain running c' where b: "Disconnect_begin ks c = (running, c')" by fastforce
  have "node_reach sv view ok alive (Disconnect_end ports c', shutdown_all (sv_ops sv) running w) ws ov"
    using ka_end [of sv view ok alive c' _ "[]" ws ov] node_reach_shut_all [OF ka_begin [OF assms(1,2) ka b]] by simp
  then show ?thesis using assms(3) ka b by (simp add: keepAliveTracker_def Disconnect_def)
next
  case False
  then show ?thesis using assms by (auto simp: keepAliveTracker_def split: option.splits if_splits)
qed

text \<open>Whatever is called, a core that exists and is in a good state stays so, in the map or not.\<close>

definition keeps :: "('b \<Rightarrow> 'w \<Rightarrow> 's) \<Rightarrow> ('s \<Rightarrow> bool) \<Rightarrow> ('b \<Rightarrow> 'w \<Rightarrow> bool) \<Rightarrow> 'w \<Rightarrow> 'w \<Rightarrow> bool" where
  "keeps view ok alive w w' \<longleftrightarrow> (\<forall>b. alive b w \<and> ok (view b w) \<longrightarrow> alive b w' \<and> ok (view b w'))"

lemma keeps_refl: "keeps view ok alive w w"
  by (simp add: keeps_def)

lemma keeps_trans: "keeps view ok alive w w1 \<Longrightarrow> keeps view ok alive w1 w2 \<Longrightarrow> keeps view ok alive w w2"
  by (simp add: keeps_def)

context node_cores
begin

lemma keeps_shutdown: "keeps view ok alive w (bk_Shutdown ops b w)"
  unfolding keeps_def using shutdown_ok shutdown_frame shutdown_alive by metis

lemma keeps_shutdown_all: "keeps view ok alive w (shutdown_all ops bs w)"
  unfolding shutdown_all_def
  by (induction bs arbitrary: w) (auto intro: keeps_refl keeps_trans [OF keeps_shutdown])

lemma keeps_mutator: "op \<in> mutators ops \<Longrightarrow> keeps view ok alive w (snd (op b w))"
  unfolding keeps_def using mutator_ok mutator_frame mutator_alive by metis

lemma keeps_fan_out: "op \<in> mutators ops \<Longrightarrow> keeps view ok alive w (snd (fan_out op bs e w))"
  by (induction bs arbitrary: e w) (auto simp: Let_def split_beta intro: keeps_refl keeps_trans [OF keeps_mutator])

lemma keeps_stats: "keeps view ok alive w (snd (bk_GetStats ops r b w))"
  unfolding keeps_def using stats_ok stats_frame stats_alive by metis

lemma keeps_gather: "keeps view ok alive w (snd (gather_stats (bk_GetStats ops r) bs ms e w))"
proof (induction bs arbitrary: ms e w)
  case (Cons x bs)
  obtain q w' where g: "bk_GetStats ops r x w = (q, w')" by fastforce
  with keeps_stats [of w r x] have 1: "keeps view ok alive w w'" by simp
  note keeps_trans [OF 1 Cons.IH]
  with g show ?case by (simp split: sum.split option.split)
qed (simp add: keeps_refl)

lemma keeps_Disconnect: "Disconnect ops ks ports c w = (c', w') \<Longrightarrow> keeps view ok alive w w'"
  by (auto simp: Disconnect_def Disconnect_begin_def Let_def keeps_shutdown_all)

lemma keeps_StartBackend:
  assumes "StartBackend ops J F ks m c w = (e, c', w')"
  shows "keeps view ok alive w w'"
proof -
  obtain c1 w1 where r: "retireFor ops J ks m c w = (c1, w1)" by fastforce
  then have 1: "keeps view ok alive w w1" by (auto simp: retireFor_def Let_def keeps_shutdown_all)
  obtain q w2 where l: "launch F (ct_apiPort c1) (ct_metricPort c1) m w1 = (q, w2)" by fastforce
  have "w' = w2" using assms r l by (auto simp: StartBackend_def split: sum.splits)
  moreover have "keeps view ok alive w1 w2" using launch_spec [OF l] by (cases q) (auto simp: keeps_def, metis)
  ultimately show ?thesis using keeps_trans [OF 1] by simp
qed

end













section \<open>Where the control lock is missing\<close>

text \<open>
  The keep-alive job calls \<^verbatim>\<open>Disconnect\<close> without the control lock, and \<^verbatim>\<open>Disconnect\<close>
  releases the mutex while cores shut down. \<open>racing_start\<close> is an additive start that runs in that gap.
\<close>

definition racing_start :: "('b, 'w, 'c, 'f, 'u) service \<Rightarrow> moment \<Rightarrow> string \<Rightarrow> backend_msg \<Rightarrow> ('b, 'w, 'f, 'u) node \<Rightarrow>
    err \<times> ('b, 'w, 'f, 'u) node" where
  "racing_start sv mo ip data n =
     (case Disconnect_begin (keys_at mo 2 (fst n)) (fst n) of
        (running, c) \<Rightarrow>
          (case start_node sv mo ip data (c, shutdown_all (sv_ops sv) running (snd n)) of
             (err, (c, w)) \<Rightarrow> (err, (Disconnect_end (mo_ports mo) c, w))))"

definition demo_additive :: backend_msg where
  "demo_additive = demo_start\<lparr>b_Additive := True\<rparr>"

lemma key_for_demo: "key_for (sv_json demo_service) demo_additive = (WIREGUARD, [])"
  by (simp add: key_for_def demo_additive_def demo_start_def backendInstanceID_def named_instance_def demo_service_def)

lemma demo_core: "\<exists>wg. wg_new demo_env sorted_ranger None 0 False {} demo_config [demo_user] h =
    (Inr (hp_next h), \<lparr>hp_next = Suc (hp_next h), hp_obj = (hp_obj h)(hp_next h := wg)\<rparr>) \<and> Started wg"
proof -
  obtain wg d where "newWithManagerFactory demo_env sorted_ranger None 0 False (Some demo_config) [demo_user] {} = (Inr wg, d)"
    using demo_new by blast
  with newWithManagerFactory_control [OF this] show ?thesis by (auto simp: wg_new_def allocate_def)
qed

lemma demo_StartBackend:
  assumes "ct_backends c (WIREGUARD, []) = None"
  shows "\<exists>wg. StartBackend (sv_ops demo_service) (sv_json demo_service) (sv_fact demo_service) ks demo_additive c h =
    (None, c\<lparr>ct_backends := (ct_backends c)((WIREGUARD, []) \<mapsto> hp_next h)\<rparr>,
     \<lparr>hp_next = Suc (hp_next h), hp_obj = (hp_obj h)(hp_next h := wg)\<rparr>) \<and> Started wg"
proof -
  obtain wg where wg: "wg_new demo_env sorted_ranger None 0 False {} demo_config [demo_user] h =
    (Inr (hp_next h), \<lparr>hp_next = Suc (hp_next h), hp_obj = (hp_obj h)(hp_next h := wg)\<rparr>)" "Started wg"
    using demo_core [of h] by blast
  have "launch (sv_fact demo_service) p q demo_additive h =
      (Inr (hp_next h), \<lparr>hp_next = Suc (hp_next h), hp_obj = (hp_obj h)(hp_next h := wg)\<rparr>)" for p q
    by (simp add: launch_def demo_additive_def demo_start_def demo_service_def wg_factories_def configured_def wg(1) Let_def)
  moreover have "retireFor (sv_ops demo_service) (sv_json demo_service) ks demo_additive c h =
      (c\<lparr>ct_backends := ct_backends c\<rparr>, h)"
    using assms key_for_demo fun_upd_idem [where f = "ct_backends c" and x = "(WIREGUARD, [])", OF assms] by (simp add: retireFor_def demo_additive_def demo_start_def shutdown_all_def Let_def)
  ultimately show ?thesis using wg(2) by (intro exI [of _ wg]) (simp add: StartBackend_def key_for_demo)
qed

text \<open>
  When the keep-alive timeout of a node meets an additive start, the new core can be lost: the
  start reports success, the core runs, and the controller does not know it any more. (The start holds
  the control lock, the timeout does not take it.)
\<close>

lemma keep_alive_race_loses_core:
  "\<exists>c w b. racing_start demo_service demo_moment ''10.1.1.1'' demo_additive demo_node = (None, (c, w)) \<and>
     bk_Started (sv_ops demo_service) b w \<and> ct_backends c = Map.empty"
proof -
  let ?c = "cancel (fst demo_node)" and ?h = "shutdown_all (sv_ops demo_service) (running_list (keys_at demo_moment 2 (fst demo_node)) (cancel (fst demo_node))) demo_heap"
  have c: "ct_backends ?c = [(WIREGUARD, ''wg0'') \<mapsto> 0]" by (simp add: cancel_def demo_node_facts)
  obtain wg where s: "StartBackend (sv_ops demo_service) (sv_json demo_service) (sv_fact demo_service) (keys_at demo_moment 3 ?c) demo_additive ?c ?h =
    (None, ?c\<lparr>ct_backends := (ct_backends ?c)((WIREGUARD, []) \<mapsto> hp_next ?h)\<rparr>,
     \<lparr>hp_next = Suc (hp_next ?h), hp_obj = (hp_obj ?h)(hp_next ?h := wg)\<rparr>)" "Started wg"
    using demo_StartBackend [of ?c] by (auto simp: c)
  have add: "b_Additive demo_additive" by (simp add: demo_additive_def)
  have run: "ct_backends ?c \<noteq> Map.empty" by (simp add: c)
  let ?w = "\<lparr>hp_next = Suc (hp_next ?h), hp_obj = (hp_obj ?h)(hp_next ?h := wg)\<rparr>"
  have "bk_Started (sv_ops demo_service) (hp_next ?h) ?w"
    using s(2) by (simp add: demo_service_def demo_ops_def wg_ops_def heap_view_def)
  moreover have "start_node demo_service demo_moment ''10.1.1.1'' demo_additive (?c, ?h) =
      (None, (NewRequest 5 (?c\<lparr>ct_backends := (ct_backends ?c)((WIREGUARD, []) \<mapsto> hp_next ?h)\<rparr>), ?w))"
    unfolding start_node_def Let_def prod.case using add run s(1) by (simp add: demo_moment_def)
  ultimately show ?thesis
    by (auto simp: racing_start_def Disconnect_begin_def Disconnect_end_def Let_def demo_node_facts(5))
qed

text \<open>Starting a core touches neither the jobs nor the client of the controller.\<close>

lemma StartBackend_frame:
  assumes "StartBackend ops J F ks m c w = (e, c', w')"
  shows "ct_keepAliveJobs c' = ct_keepAliveJobs c \<and> ct_clientIP c' = ct_clientIP c \<and> ct_lastRequest c' = ct_lastRequest c \<and>
    ct_backends c' = (if e = None then ct_backends c' else if b_Additive m then (ct_backends c)(key_for J m := None) else Map.empty) \<and>
    (e = None \<longrightarrow> ct_backends c' \<noteq> Map.empty)"
  using assms unfolding StartBackend_def retireFor_def Let_def by (auto split: prod.splits sum.splits)

text \<open>
  A keep-alive job can outlive the connection it belongs to. When the only core of a node is
  replaced by an additive start that fails, the node has no core but its connection stays open; the
  next plain start finds nothing running, so it does not disconnect, and it overwrites the handle of
  the old jobs. The new client asked for no keep-alive, yet the old job still disconnects it.
\<close>

lemma keep_alive_job_outlives_connection:
  assumes "key_order (mo_keys mo)" "key_order (mo_keys mo')" "clientIPFromContext ctx \<noteq> []" "clientIPFromContext ctx' \<noteq> []"
    and "dom (ct_backends c) = {key_for (sv_json sv) data}" "b_Additive data" "IsCurrentClient (clientIPFromContext ctx) c"
    and "ct_keepAliveJobs c j = Some ka" "rpc_Start sv mo data ctx (c, w) = (Inl e, c1, w1)"
    and "b_KeepAlive data' = 0" "\<not> b_Additive data'" "rpc_Start sv mo' data' ctx' (c1, w1) = (Inr x, c2, w2)"
    and "ct_lastRequest c2 + ka \<le> now"
  shows "ct_backends c2 \<noteq> Map.empty \<and> ct_clientIP c2 = clientIPFromContext ctx' \<and>
    ct_backends (fst (keepAliveTracker (sv_ops sv) ks ports now j c2 w2)) = Map.empty"
proof -
  have fin: "finite (dom (ct_backends (fst (c, w))))" and run: "ct_backends c \<noteq> Map.empty"
    using assms(5) by (simp, metis dom_empty insert_not_empty)
  have "\<not> start_refused (clientIPFromContext ctx) (c, w)" using assms(7) by (simp add: start_refused_def)
  with rpc_Start_cases [OF assms(1) fin assms(3), of sv data] assms(9)
  obtain err where s1: "start_node sv mo (clientIPFromContext ctx) data (c, w) = (Some err, c1, w1)"
    by (auto split: prod.splits option.splits)
  then have st1: "StartBackend (sv_ops sv) (sv_json sv) (sv_fact sv) (keys_at mo 3 c) data c w = (Some err, c1, w1)"
    using run assms(6) unfolding start_node_def Let_def prod.case by (auto split: prod.splits option.splits)
  note f1 = StartBackend_frame [OF st1]
  have c1: "ct_backends c1 = Map.empty"
  proof -
    have "(ct_backends c)(key_for (sv_json sv) data := None) = Map.empty"
      unfolding dom_eq_empty_conv [symmetric] dom_fun_upd using assms(5) by simp
    then show ?thesis using f1 assms(6) by simp
  qed
  have fin1: "finite (dom (ct_backends (fst (c1, w1))))" by (simp add: c1)
  have "\<not> start_refused (clientIPFromContext ctx') (c1, w1)" by (simp add: start_refused_def c1)
  with rpc_Start_cases [OF assms(2) fin1 assms(4), of sv data'] assms(12)
  have s2: "start_node sv mo' (clientIPFromContext ctx') data' (c1, w1) = (None, c2, w2)"
    by (auto split: prod.splits option.splits)
  obtain c3 where st2: "StartBackend (sv_ops sv) (sv_json sv) (sv_fact sv) (keys_at mo' 3 c1) data' c1 w1 = (None, c3, w2)"
    and c2: "c2 = Connect (mo_now mo') (clientIPFromContext ctx') (b_KeepAlive data') c3"
    using s2 unfolding start_node_def Let_def prod.case c1 by (auto split: prod.splits option.splits)
  note f2 = StartBackend_frame [OF st2]
  have job: "ct_keepAliveJobs c2 j = Some ka" using f1 f2 assms(8,10) by (simp add: c2 Connect_def Let_def)
  show ?thesis using f2 job assms(13)
    by (simp add: c2 keepAliveTracker_def Disconnect_def Disconnect_begin_def Disconnect_end_def Let_def)
qed
lemma demo_plain_start:
  assumes "ct_backends c = Map.empty"
  shows "\<exists>c' w'. StartBackend (sv_ops demo_service) (sv_json demo_service) (sv_fact demo_service) ks demo_start c h = (None, c', w')"
proof -
  obtain wg where wg: "wg_new demo_env sorted_ranger None 0 False {} demo_config [demo_user] h =
    (Inr (hp_next h), \<lparr>hp_next = Suc (hp_next h), hp_obj = (hp_obj h)(hp_next h := wg)\<rparr>)"
    using demo_core [of h] by blast
  have "present (map (\<lambda>_. None :: nat option) ks) = []" by (induction ks) simp_all
  then have "retireFor (sv_ops demo_service) (sv_json demo_service) ks demo_start c h = (c\<lparr>ct_backends := Map.empty\<rparr>, h)"
    using assms by (simp add: retireFor_def demo_start_def running_list_def shutdown_all_def Let_def)
  then show ?thesis
    by (simp add: StartBackend_def launch_def demo_start_def demo_service_def wg_factories_def configured_def wg Let_def)
qed

definition demo_lone :: "(nat, nat, string) controller" where
  "demo_lone = (New ''secret'' (3, 4))\<lparr>ct_backends := [(WIREGUARD, []) \<mapsto> 0], ct_clientIP := ''10.1.1.1'', ct_keepAliveJobs := [1 \<mapsto> 10]\<rparr>"

lemma keep_alive_job_outlives_connection_witness:
  "\<exists>e c1 w1 x c2 w2. rpc_Start demo_service demo_moment (demo_additive\<lparr>b_Config := ''bad''\<rparr>) (demo_ctx ''10.1.1.1'') (demo_lone, demo_heap) = (Inl e, c1, w1) \<and>
     rpc_Start demo_service demo_moment demo_start (demo_ctx ''10.2.2.2'') (c1, w1) = (Inr x, c2, w2) \<and>
     ct_clientIP c2 = ''10.2.2.2'' \<and> ct_backends (fst (keepAliveTracker (sv_ops demo_service) [] (1, 2) 100 1 c2 w2)) = Map.empty"
proof -
  let ?bad = "demo_additive\<lparr>b_Config := ''bad''\<rparr>"
  have k: "key_order (mo_keys demo_moment)" by (simp add: demo_moment_def)
  have ip: "clientIPFromContext (demo_ctx i) = i" for i by (simp add: clientIPFromContext_def demo_ctx_def)
  have key: "key_for (sv_json demo_service) ?bad = (WIREGUARD, [])"
    by (simp add: key_for_def demo_additive_def demo_start_def backendInstanceID_def named_instance_def demo_service_def)
  have lone: "ct_backends demo_lone = [(WIREGUARD, []) \<mapsto> 0]" "ct_clientIP demo_lone = ''10.1.1.1''" "ct_keepAliveJobs demo_lone 1 = Some 10"
    by (simp_all add: demo_lone_def)
  have run: "ct_backends demo_lone \<noteq> Map.empty" by (simp add: lone)
  have add: "b_Additive ?bad" by (simp add: demo_additive_def)
  have bad: "launch (sv_fact demo_service) p q ?bad w = (Inl ''bad config'', w)" for p q w
    by (simp add: launch_def demo_additive_def demo_start_def demo_service_def wg_factories_def configured_def Let_def)
  obtain h where st1: "StartBackend (sv_ops demo_service) (sv_json demo_service) (sv_fact demo_service) (keys_at demo_moment 3 demo_lone) ?bad demo_lone demo_heap =
      (Some ''bad config'', demo_lone\<lparr>ct_backends := Map.empty\<rparr>, h)"
    using lone add key bad by (simp add: StartBackend_def retireFor_def Let_def)
  have fin: "finite (dom (ct_backends (fst (demo_lone, demo_heap))))" by (simp add: lone)
  have ip_ne: "clientIPFromContext (demo_ctx ''10.1.1.1'') \<noteq> []" "clientIPFromContext (demo_ctx ''10.2.2.2'') \<noteq> []" by (simp_all add: ip)
  have r1: "rpc_Start demo_service demo_moment ?bad (demo_ctx ''10.1.1.1'') (demo_lone, demo_heap) =
      (Inl (Plain ''bad config''), demo_lone\<lparr>ct_backends := Map.empty\<rparr>, h)"
    unfolding rpc_Start_cases [OF k fin ip_ne(1)] start_node_def Let_def prod.case
    using st1 run add by (simp add: start_refused_def IsCurrentClient_def ip lone)
  let ?c1 = "demo_lone\<lparr>ct_backends := Map.empty\<rparr>"
  have fin1: "finite (dom (ct_backends (fst (?c1, h))))" by simp
  obtain c3 w2 where st2: "StartBackend (sv_ops demo_service) (sv_json demo_service) (sv_fact demo_service) (keys_at demo_moment 3 ?c1) demo_start ?c1 h = (None, c3, w2)"
    using demo_plain_start [of ?c1] by fastforce
  have r2: "\<exists>x c2 w2. rpc_Start demo_service demo_moment demo_start (demo_ctx ''10.2.2.2'') (?c1, h) = (Inr x, c2, w2) \<and> ct_lastRequest c2 = 5"
    unfolding rpc_Start_cases [OF k fin1 ip_ne(2)] start_node_def Let_def prod.case
    using st2 by (simp add: start_refused_def Connect_def Let_def) (simp add: demo_moment_def)
  then obtain x c2 w2 where r2: "rpc_Start demo_service demo_moment demo_start (demo_ctx ''10.2.2.2'') (?c1, h) = (Inr x, c2, w2)" "ct_lastRequest c2 = 5"
    by blast
  have "ct_backends c2 \<noteq> Map.empty \<and> ct_clientIP c2 = clientIPFromContext (demo_ctx ''10.2.2.2'') \<and>
    ct_backends (fst (keepAliveTracker (sv_ops demo_service) [] (1, 2) 100 1 c2 w2)) = Map.empty"
    by (rule keep_alive_job_outlives_connection [OF k k ip_ne _ add _ lone(3) r1 _ _ r2(1)])
      (simp_all add: lone key ip IsCurrentClient_def demo_start_def r2(2))
  then show ?thesis using r1 r2(1) by (auto simp: ip)
qed


section \<open>The latency query\<close>

text \<open>
  The gRPC latency query is not among the guarded methods: any caller with the API key gets an
  answer, also one that the guarded methods turn away because another client controls the node. The
  REST route of the same query is private and refuses that caller.
\<close>

lemma latency_query_unguarded:
  assumes "chain_law chain" "chain_law rchain" "authorized sv (api_header ctx) (fst n)" "fst recovered = 500"
    and "key_order (mo_keys mo)" "finite (dom (ct_backends (fst n)))" "requestClientIP r = Some ip" "\<not> IsCurrentClient ip (fst n)"
    and "OutboundsLatency (sv_ops sv) (keys_at mo 1 (fst n)) request (fst n) (snd n) = Inr latency"
  shows "fst (ConditionalMiddleware chain sv mo ''/service.NodeService/GetOutboundsLatency'' (rpc_GetOutboundsLatency sv mo request) ctx n) =
      Inr (RLatency latency) \<and>
    (\<exists>code body. private_route rchain recovered sv mo (rest_GetOutboundsLatency sv mo (Inr request)) r n = Some ((code, body), n) \<and> 400 \<le> code)"
proof
  have "''/service.NodeService/GetOutboundsLatency'' \<notin> backendMethods" by (simp add: backendMethods_def)
  then have c: "ConditionalMiddleware chain sv mo ''/service.NodeService/GetOutboundsLatency'' h =
      LoggingInterceptor mo (validateApiKeyMiddleware sv h)" for h
    using assms(1) by (simp add: ConditionalMiddleware_def chain_law_def)
  show "fst (ConditionalMiddleware chain sv mo ''/service.NodeService/GetOutboundsLatency'' (rpc_GetOutboundsLatency sv mo request) ctx n) =
      Inr (RLatency latency)"
    using assms(3,9) unfolding c
    by (simp add: LoggingInterceptor_def validateApiKeyMiddleware_def validateApiKey_iff [symmetric] rpc_GetOutboundsLatency_def
        split: prod.split)
  let ?inner = "checkBackendMiddleware sv mo (rest_validateCurrentClient (rest_GetOutboundsLatency sv mo (Inr request))) r n"
  have "\<exists>code body. ?inner = Some ((code, body), n) \<and> 400 \<le> code"
    using checkBackendMiddleware_cases [OF assms(5,6), of sv "rest_validateCurrentClient (rest_GetOutboundsLatency sv mo (Inr request))" r] assms(7,8)
    by (auto simp: rest_validateCurrentClient_def http_Error_def split: if_splits)
  then show "\<exists>code body. private_route rchain recovered sv mo (rest_GetOutboundsLatency sv mo (Inr request)) r n = Some ((code, body), n) \<and> 400 \<le> code"
    using assms(2) by (auto simp: private_route_def chain_law_def rest_validateApiKey_def trackSuccessfulRequest_def Recoverer_def
        http_Error_def Let_def split: sum.split prod.split)
qed

lemma split_host_other: "split_host ''10.9.9.9:5000'' = Some ''10.9.9.9''"
  by code_simp

lemma latency_query_unguarded_witness:
  "fst (ConditionalMiddleware foldr_chain demo_service demo_moment ''/service.NodeService/GetOutboundsLatency''
     (rpc_GetOutboundsLatency demo_service demo_moment []) (demo_ctx ''10.9.9.9'') demo_node) = Inr (RLatency (Some []))"
proof -
  have k: "key_order (mo_keys demo_moment)" by (simp add: demo_moment_def)
  have a: "authorized demo_service (api_header (demo_ctx ''10.9.9.9'')) (fst demo_node)"
    by (simp add: demo_ctx_def authorized_def api_header_def demo_service_def demo_node_facts)
  have "keys_at demo_moment 1 (fst demo_node) = [(WIREGUARD, ''wg0'')]"
    by (simp add: keys_at_def demo_moment_def demo_node_facts sorted_keys_def)
  then have l: "OutboundsLatency (sv_ops demo_service) (keys_at demo_moment 1 (fst demo_node)) [] (fst demo_node) (snd demo_node) = Inr (Some [])"
    by (simp add: OutboundsLatency_def Backend_def NewComposite_def running_list_def demo_node_facts
        Composite_GetOutboundsLatency_def demo_service_def demo_ops_def wg_ops_def some_answer_def)
  have "requestClientIP \<lparr>rr_RemoteAddr = ''10.9.9.9:5000'', rr_ApiKey = []\<rparr> = Some ''10.9.9.9''"
    by (simp add: requestClientIP_def split_host_other)
  from latency_query_unguarded [OF chain_law_foldr chain_law_foldr a _ k demo_node_facts(1) this _ l, of "(500, ErrorText (Plain []))"]
  show ?thesis by (simp add: IsCurrentClient_def demo_node_facts)
qed

end
