(* ===== verification/Chunked_Upload.thy ===== *)
theory Chunked_Upload
  imports Node_Control
begin

text \<open>
  The chunked user upload end to end: a user list the panel splits into numbered chunks arrives at the
  cores as the same list, over the length-prefixed body of the REST route and over the gRPC stream.
\<close>

section \<open>Framing\<close>

fun put_uvarint :: "nat \<Rightarrow> nat list" where
  "put_uvarint n = (if n < 128 then [n] else (n mod 128 + 128) # put_uvarint (n div 128))"

declare put_uvarint.simps [simp del]

lemma read_put_uvarint:
  "v * 2 ^ (7 * i) < 2 ^ 64 \<Longrightarrow> i \<le> 9 \<Longrightarrow> read_uvarint tail i x (put_uvarint v @ rest) = UVal (x + v * 2 ^ (7 * i)) rest"
proof (induction v arbitrary: i x rule: put_uvarint.induct)
  case (1 v)
  show ?case
  proof (cases "v < 128")
    case True
    have "v \<le> 1" if "i = 9" using 1(2) that by simp
    then show ?thesis using True 1(3) by (subst put_uvarint.simps) auto
  next
    case False
    have i: "i \<le> 8"
    proof (rule ccontr)
      assume "\<not> i \<le> 8"
      with 1(3) have "i = 9" by simp
      with 1(2) False show False by simp
    qed
    have "(v div 128) * 2 ^ (7 * Suc i) = (v div 128 * 128) * 2 ^ (7 * i)" by (simp add: power_add)
    also have "\<dots> \<le> v * 2 ^ (7 * i)" by (rule mult_right_mono) (simp_all add: div_times_less_eq_dividend)
    finally have lt: "(v div 128) * 2 ^ (7 * Suc i) < 2 ^ 64" using 1(2) by linarith
    have i': "Suc i \<le> 9" using i by simp
    have P: "(2 :: nat) ^ (7 * Suc i) = 128 * 2 ^ (7 * i)" by (simp add: power_add)
    have "(v mod 128) * 2 ^ (7 * i) + (v div 128) * 2 ^ (7 * Suc i) = (v mod 128 + v div 128 * 128) * 2 ^ (7 * i)"
      unfolding P by (simp only: ring_distribs ac_simps)
    also have "\<dots> = v * 2 ^ (7 * i)" by (simp only: mod_div_mult_eq)
    finally have sum: "x + (v mod 128) * 2 ^ (7 * i) + (v div 128) * 2 ^ (7 * Suc i) = x + v * 2 ^ (7 * i)" by simp
    have "read_uvarint tail i x (put_uvarint v @ rest) =
        read_uvarint tail (Suc i) (x + (v mod 128) * 2 ^ (7 * i)) (put_uvarint (v div 128) @ rest)"
      using False i by (subst put_uvarint.simps) simp
    also have "\<dots> = UVal (x + (v mod 128) * 2 ^ (7 * i) + (v div 128) * 2 ^ (7 * Suc i)) rest"
      by (rule 1(1) [OF False lt i'])
    finally show ?thesis by (simp only: sum)
  qed
qed

definition frames :: "(users_chunk \<Rightarrow> nat list) \<Rightarrow> users_chunk list \<Rightarrow> nat list" where
  "frames encode cs = concat (map (\<lambda>c. put_uvarint (length (encode c)) @ encode c) cs)"

text \<open>What the message library promises for a chunk: it decodes what it encodes, in a usable size.\<close>

definition codec_ok :: "nat \<Rightarrow> (users_chunk \<Rightarrow> nat list) \<Rightarrow> (nat list \<Rightarrow> string + users_chunk) \<Rightarrow> users_chunk \<Rightarrow> bool" where
  "codec_ok maxAlloc encode decode c \<longleftrightarrow> decode (encode c) = Inr c \<and> encode c \<noteq> [] \<and>
     length (encode c) \<le> maxAlloc \<and> length (encode c) < 2 ^ 64"

lemma read_frames:
  "list_all (codec_ok maxAlloc encode decode) cs \<Longrightarrow>
    read_chunks maxAlloc decode None (frames encode cs) m = Some (recv_chunks (map Chunk cs) m)"
proof (induction cs arbitrary: m)
  case Nil
  show ?case by (subst read_chunks.simps) (simp add: frames_def)
next
  case (Cons c cs)
  then have c: "decode (encode c) = Inr c" "encode c \<noteq> []" "length (encode c) \<le> maxAlloc" "length (encode c) < 2 ^ 64"
    by (simp_all add: codec_ok_def)
  have "read_uvarint None 0 0 (frames encode (c # cs)) = UVal (length (encode c)) (encode c @ frames encode cs)"
    using read_put_uvarint [of "length (encode c)" 0 None 0] c(4) by (simp add: frames_def)
  with c Cons show ?case by (subst read_chunks.simps) (simp add: Let_def)
qed


section \<open>Splitting\<close>

text \<open>Part \<open>i\<close> of a list split into \<open>parts\<close>.\<close>

definition part_chunk :: "user list list \<Rightarrow> nat \<Rightarrow> users_chunk" where
  "part_chunk parts i = \<lparr>ch_Users = parts ! i, ch_Index = of_nat i, ch_Last = (Suc i = length parts)\<rparr>"

definition part_map :: "user list list \<Rightarrow> nat set \<Rightarrow> chunk_map" where
  "part_map parts S = (\<lambda>i. if unat i \<in> S then Some (parts ! unat i) else None)"

lemma unat_of_nat_64: "i < 2 ^ 64 \<Longrightarrow> unat (of_nat i :: 64 word) = i"
  by (simp add: unat_of_nat)

lemma add_part:
  assumes "i < 2 ^ 64" "i \<notin> S"
  shows "add_chunk (part_chunk parts i) (part_map parts S) = part_map parts (insert i S)"
proof
  fix k :: "64 word"
  have u: "unat (of_nat i :: 64 word) = i" using assms(1) by (rule unat_of_nat_64)
  have "k = of_nat i \<longleftrightarrow> unat k = i" using u by (metis word_nat_id)
  then show "add_chunk (part_chunk parts i) (part_map parts S) k = part_map parts (insert i S) k"
    using u assms(2) by (auto simp: add_chunk_def part_chunk_def part_map_def getd_def)
qed

lemma recv_parts:
  assumes "distinct is" "set is \<inter> S = {}" "\<forall>i \<in> set is. Suc i < length parts" "length parts < 2 ^ 64"
  shows "recv_chunks (map (\<lambda>i. Chunk (part_chunk parts i)) is @ rest) (part_map parts S) = recv_chunks rest (part_map parts (S \<union> set is))"
  using assms
proof (induction "is" arbitrary: S)
  case (Cons i "is")
  then have "recv_chunks (map (\<lambda>i. Chunk (part_chunk parts i)) (i # is) @ rest) (part_map parts S) =
      recv_chunks (map (\<lambda>i. Chunk (part_chunk parts i)) is @ rest) (part_map parts (insert i S))"
    using add_part [of i S parts] by (simp add: Let_def part_chunk_def)
  also have "\<dots> = recv_chunks rest (part_map parts (insert i S \<union> set is))"
    by (rule Cons.IH) (use Cons.prems in auto)
  finally show ?case by simp
qed simp

lemma recv_all_parts:
  assumes "mset order = mset [0 ..< length parts - 1]" "parts \<noteq> []" "length parts < 2 ^ 64"
  shows "recv_chunks (map Chunk (map (part_chunk parts) (order @ [length parts - 1]))) Map.empty =
    Inr (part_map parts {0 ..< length parts}, of_nat (length parts - 1), True)"
proof -
  let ?n = "length parts - 1"
  have o: "distinct order" "set order = {0 ..< ?n}"
    using assms(1) by (metis distinct_upt mset_eq_imp_distinct_iff, metis mset_eq_setD set_upt)
  have "(Map.empty :: chunk_map) = part_map parts {}" by (simp add: part_map_def)
  moreover have "\<forall>i \<in> set order. Suc i < length parts" using o by auto
  ultimately have "recv_chunks (map (\<lambda>i. Chunk (part_chunk parts i)) order @ [Chunk (part_chunk parts ?n)]) Map.empty =
      recv_chunks [Chunk (part_chunk parts ?n)] (part_map parts (set order))"
    using recv_parts [OF o(1), of "{}" parts] assms(3) by simp
  also have "\<dots> = Inr (part_map parts (insert ?n (set order)), of_nat ?n, True)"
    using add_part [of ?n "set order" parts] o assms(2,3) by (simp add: Let_def part_chunk_def)
  also have "insert ?n (set order) = {0 ..< length parts}" using o assms(2) by (cases parts) auto
  finally show ?thesis by (simp add: comp_def)
qed

lemma build_parts:
  assumes "parts \<noteq> []" "length parts < 2 ^ 64" "concat parts \<noteq> []"
  shows "BuildUsersFromChunks (part_map parts {0 ..< length parts}) (of_nat (length parts - 1)) True = Some (Inr (concat parts))"
proof -
  let ?l = "of_nat (length parts - 1) :: 64 word"
  have l: "unat ?l = length parts - 1" by (rule unat_of_nat_64) (use assms(2) in linarith)
  have Suc_l: "Suc (unat ?l) = length parts" using assms(1) l by (cases parts) auto
  have "unat (- 1 :: 64 word) = 2 ^ 64 - 1" by (simp add: unsigned_minus_1_eq_mask mask_eq_exp_minus_1)
  with l assms(1,2) have ne: "?l \<noteq> - 1" by (cases parts) (auto simp del: unsigned_minus_1_eq_mask)
  have u: "unat (of_nat j :: 64 word) = j" if "j < length parts" for j by (rule unat_of_nat_64) (use that assms(2) in linarith)
  have "map (\<lambda>j. the (part_map parts {0 ..< length parts} (of_nat j))) [unat (0 :: 64 word) ..< Suc (unat ?l)] = parts"
    unfolding Suc_l by (rule nth_equalityI) (simp_all add: part_map_def u)
  moreover have "\<forall>j. unat (0 :: 64 word) \<le> j \<and> j \<le> unat ?l \<longrightarrow> part_map parts {0 ..< length parts} (of_nat j) \<noteq> None"
    using Suc_l by (auto simp: part_map_def u less_Suc_eq_le [symmetric])
  ultimately have "build_loop (part_map parts {0 ..< length parts}) ?l 0 [] = Some (Inr (concat parts))"
    using build_loop_complete [of 0 ?l "part_map parts {0 ..< length parts}" "[]"] ne by simp
  with assms(3) show ?thesis by (simp add: BuildUsersFromChunks_def)
qed

text \<open>
  C13: A non-empty user list split into numbered chunks reaches the cores unchanged and in order, by
  one update call, whatever order the chunks before the marked last one are sent in: over REST, where
  the body frames each message with its length, and over the gRPC stream.
\<close>

theorem chunked_upload_round_trip:
  assumes "mset order = mset [0 ..< length parts - 1]" "length parts < 2 ^ 64" "concat parts \<noteq> []"
    and "list_all (codec_ok maxAlloc encode decode) (map (part_chunk parts) (order @ [length parts - 1]))"
    and "Backend (keys_at mo 1 c) c = Some cores"
    and "Composite_UpdateUsers (sv_ops sv) (concat parts) cores w = (None, w')"
  shows "rest_SyncUsersChunked sv mo maxAlloc decode None
      (frames encode (map (part_chunk parts) (order @ [length parts - 1]))) r (c, w) =
      Returns (SendProtoResponse REmpty, (c, w')) \<and>
    rpc_SyncUsersChunked sv mo None (map Chunk (map (part_chunk parts) (order @ [length parts - 1]))) ctx (c, w) =
      Some (None, (c, w'))"
proof -
  have ne: "parts \<noteq> []" using assms(3) by auto
  note recv = recv_all_parts [OF assms(1) ne assms(2)] and build = build_parts [OF ne assms(2,3)]
  show ?thesis
    unfolding rest_SyncUsersChunked_def rpc_SyncUsersChunked_def read_frames [OF assms(4)] recv
      option.case sum.case prod.case build
    using assms(5,6) by (simp add: service_backend_def ApplyChunkedUserUpdate_def)
qed

text \<open>A node whose core accepts every update, and a codec for the two chunks of the example.\<close>

definition quiet_service :: "(nat, (string, string set) wg_heap, string wg_config, nat, string) service" where
  "quiet_service = demo_service\<lparr>sv_ops := demo_ops\<lparr>bk_UpdateUsers := (\<lambda>us b w. (None, w))\<rparr>\<rparr>"

theorem chunked_upload_round_trip_witness:
  "rest_SyncUsersChunked quiet_service demo_moment 10
     (\<lambda>bs. Inr (part_chunk [[demo_user], [None]] (hd bs))) None
     (frames (\<lambda>ch. [unat (ch_Index ch)]) (map (part_chunk [[demo_user], [None]]) [0, 1])) \<lparr>rr_RemoteAddr = [], rr_ApiKey = []\<rparr> demo_node =
   Returns (SendProtoResponse REmpty, demo_node)"
proof -
  let ?p = "[[demo_user], [None]] :: user list list"
  have codec: "list_all (codec_ok 10 (\<lambda>ch. [unat (ch_Index ch)]) (\<lambda>bs. Inr (part_chunk ?p (hd bs))))
      (map (part_chunk ?p) ([0] @ [length ?p - 1]))"
    by (simp add: codec_ok_def part_chunk_def)
  have ks: "keys_at demo_moment 1 (fst demo_node) = [(WIREGUARD, ''wg0'')]"
    by (simp add: keys_at_def demo_moment_def demo_node_facts sorted_keys_def)
  have cores: "Backend (keys_at demo_moment 1 (fst demo_node)) (fst demo_node) = Some [0]"
    unfolding ks by (simp add: Backend_def NewComposite_def running_list_def demo_node_facts)
  have up: "Composite_UpdateUsers (sv_ops quiet_service) (concat ?p) [0] demo_heap = (None, demo_heap)"
    by (simp add: quiet_service_def Composite_UpdateUsers_def)
  have n: "demo_node = (fst demo_node, demo_heap)" using demo_node_facts(5) by (metis prod.collapse)
  from chunked_upload_round_trip [OF _ _ _ codec cores up, of "\<lparr>rr_RemoteAddr = [], rr_ApiKey = []\<rparr>"] show ?thesis
    unfolding n [symmetric] by simp
qed

end
