(* ===== verification/Go_Crypto.thy ===== *)
theory Go_Crypto
  imports Node_Prelude
begin

text \<open>
  The standard library functions the node derives secrets with: SHA-256
  (\<^verbatim>\<open>crypto/sha256\<close>, FIPS 180-4), lower-case hexadecimal formatting (\<^verbatim>\<open>%x\<close>) and the
  standard base64 alphabet (\<^verbatim>\<open>encoding/base64\<close>). Bytes are numbers below 256.
\<close>

unbundle bit_operations_syntax

section \<open>SHA-256\<close>

type_synonym w32 = "32 word"

definition sha_k :: "w32 list" where
  "sha_k =
    [0x428A2F98, 0x71374491, 0xB5C0FBCF, 0xE9B5DBA5, 0x3956C25B, 0x59F111F1, 0x923F82A4, 0xAB1C5ED5,
     0xD807AA98, 0x12835B01, 0x243185BE, 0x550C7DC3, 0x72BE5D74, 0x80DEB1FE, 0x9BDC06A7, 0xC19BF174,
     0xE49B69C1, 0xEFBE4786, 0x0FC19DC6, 0x240CA1CC, 0x2DE92C6F, 0x4A7484AA, 0x5CB0A9DC, 0x76F988DA,
     0x983E5152, 0xA831C66D, 0xB00327C8, 0xBF597FC7, 0xC6E00BF3, 0xD5A79147, 0x06CA6351, 0x14292967,
     0x27B70A85, 0x2E1B2138, 0x4D2C6DFC, 0x53380D13, 0x650A7354, 0x766A0ABB, 0x81C2C92E, 0x92722C85,
     0xA2BFE8A1, 0xA81A664B, 0xC24B8B70, 0xC76C51A3, 0xD192E819, 0xD6990624, 0xF40E3585, 0x106AA070,
     0x19A4C116, 0x1E376C08, 0x2748774C, 0x34B0BCB5, 0x391C0CB3, 0x4ED8AA4A, 0x5B9CCA4F, 0x682E6FF3,
     0x748F82EE, 0x78A5636F, 0x84C87814, 0x8CC70208, 0x90BEFFFA, 0xA4506CEB, 0xBEF9A3F7, 0xC67178F2]"

definition sha_h0 :: "w32 list" where
  "sha_h0 = [0x6A09E667, 0xBB67AE85, 0x3C6EF372, 0xA54FF53A, 0x510E527F, 0x9B05688C, 0x1F83D9AB, 0x5BE0CD19]"

definition rotr :: "nat \<Rightarrow> w32 \<Rightarrow> w32" where
  "rotr n w = drop_bit n w OR push_bit (32 - n) w"

definition sha_ch :: "w32 \<Rightarrow> w32 \<Rightarrow> w32 \<Rightarrow> w32" where
  "sha_ch x y z = (x AND y) XOR (NOT x AND z)"

definition sha_maj :: "w32 \<Rightarrow> w32 \<Rightarrow> w32 \<Rightarrow> w32" where
  "sha_maj x y z = (x AND y) XOR (x AND z) XOR (y AND z)"

definition sha_S0 :: "w32 \<Rightarrow> w32" where "sha_S0 x = rotr 2 x XOR rotr 13 x XOR rotr 22 x"
definition sha_S1 :: "w32 \<Rightarrow> w32" where "sha_S1 x = rotr 6 x XOR rotr 11 x XOR rotr 25 x"
definition sha_s0 :: "w32 \<Rightarrow> w32" where "sha_s0 x = rotr 7 x XOR rotr 18 x XOR drop_bit 3 x"
definition sha_s1 :: "w32 \<Rightarrow> w32" where "sha_s1 x = rotr 17 x XOR rotr 19 x XOR drop_bit 10 x"

definition word_of_bytes :: "nat list \<Rightarrow> w32" where
  "word_of_bytes bs = of_nat (foldl (\<lambda>n b. 256 * n + b) 0 bs)"

definition bytes_of_word :: "w32 \<Rightarrow> nat list" where
  "bytes_of_word w = (let n = unat w in [n div 16777216, n div 65536 mod 256, n div 256 mod 256, n mod 256])"

fun chop :: "nat \<Rightarrow> 'a list \<Rightarrow> 'a list list" where
  "chop n xs = (if n = 0 \<or> xs = [] then [] else take n xs # chop n (drop n xs))"

declare chop.simps [simp del]

text \<open>The message with its terminating bit, zeros and the bit length as a 64-bit number.\<close>

definition sha_pad :: "nat list \<Rightarrow> nat list" where
  "sha_pad msg = msg @ [128] @ replicate ((119 - length msg mod 64) mod 64) 0 @
     map (\<lambda>i. 8 * length msg div 256 ^ (7 - i) mod 256) [0 ..< 8]"

text \<open>The schedule is kept newest word first.\<close>

fun sha_extend :: "nat \<Rightarrow> w32 list \<Rightarrow> w32 list" where
  "sha_extend 0 ws = ws"
| "sha_extend (Suc n) ws = sha_extend n ((sha_s1 (ws ! 1) + ws ! 6 + sha_s0 (ws ! 14) + ws ! 15) # ws)"

definition sha_schedule :: "nat list \<Rightarrow> w32 list" where
  "sha_schedule block = rev (sha_extend 48 (rev (map word_of_bytes (chop 4 block))))"

fun sha_round :: "w32 list \<Rightarrow> w32 \<times> w32 \<Rightarrow> w32 list" where
  "sha_round [a, b, c, d, e, f, g, h] (k, w) =
     (let t1 = h + sha_S1 e + sha_ch e f g + k + w; t2 = sha_S0 a + sha_maj a b c
      in [t1 + t2, a, b, c, d + t1, e, f, g])"
| "sha_round s kw = s"

definition sha_block :: "w32 list \<Rightarrow> nat list \<Rightarrow> w32 list" where
  "sha_block hs block = map2 (+) hs (foldl sha_round hs (zip sha_k (sha_schedule block)))"

definition sha256 :: "nat list \<Rightarrow> nat list" where
  "sha256 msg = concat (map bytes_of_word (foldl sha_block sha_h0 (chop 64 (sha_pad msg))))"

definition bytes_of :: "string \<Rightarrow> nat list" where
  "bytes_of s = map of_char s"

definition is_byte :: "nat \<Rightarrow> bool" where
  "is_byte b \<longleftrightarrow> b < 256"

lemma bytes_of_word_bytes: "length (bytes_of_word w) = 4" "list_all is_byte (bytes_of_word w)"
proof -
  have "unat w < 2 ^ 32" using unsigned_less [of w, where ?'a = nat] by simp
  then have "unat w div 16777216 < 256" by (simp add: less_mult_imp_div_less)
  then show "list_all is_byte (bytes_of_word w)" by (simp add: bytes_of_word_def Let_def is_byte_def)
qed (simp add: bytes_of_word_def Let_def)

lemma sha_round_length: "length hs = 8 \<Longrightarrow> length (sha_round hs kw) = 8"
  by (cases "(hs, kw)" rule: sha_round.cases) (simp_all add: Let_def)

lemma sha_block_length: "length hs = 8 \<Longrightarrow> length (sha_block hs block) = 8"
proof -
  have "length hs = 8 \<Longrightarrow> length (foldl sha_round hs kws) = 8" for kws
    by (induction kws arbitrary: hs) (simp_all add: sha_round_length)
  then show "length hs = 8 \<Longrightarrow> length (sha_block hs block) = 8" by (simp add: sha_block_def)
qed

text \<open>A digest has 32 bytes.\<close>

lemma sha256_bytes: "length (sha256 msg) = 32" "list_all is_byte (sha256 msg)"
proof -
  have l: "length hs = 8 \<Longrightarrow> length (foldl sha_block hs bs) = 8" for hs bs
    by (induction bs arbitrary: hs) (simp_all add: sha_block_length)
  have "length (concat (map bytes_of_word ws)) = 4 * length ws" for ws
    by (induction ws) (simp_all add: bytes_of_word_bytes)
  then show "length (sha256 msg) = 32" by (simp add: sha256_def l sha_h0_def)
  have "list_all is_byte (concat (map bytes_of_word ws))" for ws
    by (induction ws) (simp_all add: bytes_of_word_bytes)
  then show "list_all is_byte (sha256 msg)" by (simp add: sha256_def)
qed


section \<open>Hexadecimal\<close>

definition hex_digit :: "nat \<Rightarrow> char" where
  "hex_digit n = (if n < 10 then byte (48 + n) else byte (87 + n))"

definition hex_bytes :: "nat list \<Rightarrow> string" where
  "hex_bytes bs = concat (map (\<lambda>b. [hex_digit (b div 16), hex_digit (b mod 16)]) bs)"


section \<open>Base64\<close>

definition b64_char :: "nat \<Rightarrow> char" where
  "b64_char n = (if n < 26 then byte (65 + n) else if n < 52 then byte (71 + n)
     else if n < 62 then byte (n - 4) else if n = 62 then CHR ''+'' else CHR ''/'')"

definition b64_val :: "char \<Rightarrow> nat option" where
  "b64_val ch = (let n = of_char ch :: nat in
     if 65 \<le> n \<and> n \<le> 90 then Some (n - 65) else if 97 \<le> n \<and> n \<le> 122 then Some (n - 71)
     else if 48 \<le> n \<and> n \<le> 57 then Some (n + 4) else if n = 43 then Some 62 else if n = 47 then Some 63 else None)"

fun b64_encode :: "nat list \<Rightarrow> string" where
  "b64_encode [] = []"
| "b64_encode [a] = [b64_char (a div 4), b64_char (a mod 4 * 16), CHR ''='', CHR ''='']"
| "b64_encode [a, b] = [b64_char (a div 4), b64_char (a mod 4 * 16 + b div 16), b64_char (b mod 16 * 4), CHR ''='']"
| "b64_encode (a # b # c # rest) =
     [b64_char (a div 4), b64_char (a mod 4 * 16 + b div 16), b64_char (b mod 16 * 4 + c div 64), b64_char (c mod 64)] @
     b64_encode rest"

fun b64_quads :: "string \<Rightarrow> nat list option" where
  "b64_quads [] = Some []"
| "b64_quads (p # q # r # s # rest) =
     (case (b64_val p, b64_val q) of
        (Some x, Some y) \<Rightarrow>
          (if r = CHR ''='' then (if s = CHR ''='' \<and> rest = [] then Some [x * 4 + y div 16] else None)
           else case b64_val r of
                  None \<Rightarrow> None
                | Some z \<Rightarrow>
                   (if s = CHR ''='' then (if rest = [] then Some [x * 4 + y div 16, y mod 16 * 16 + z div 4] else None)
                    else case b64_val s of
                           None \<Rightarrow> None
                         | Some u \<Rightarrow> map_option (\<lambda>bs. [x * 4 + y div 16, y mod 16 * 16 + z div 4, z mod 4 * 64 + u] @ bs) (b64_quads rest)))
      | _ \<Rightarrow> None)"
| "b64_quads _ = None"

text \<open>Go's decoder skips carriage returns and line feeds and does not check the unused bits.\<close>

definition b64_decode :: "string \<Rightarrow> nat list option" where
  "b64_decode s = b64_quads (filter (\<lambda>ch. ch \<noteq> byte 10 \<and> ch \<noteq> byte 13) s)"

lemma b64_val_char: "n < 64 \<Longrightarrow> b64_val (b64_char n) = Some n \<and> b64_char n \<noteq> CHR ''='' \<and>
    b64_char n \<noteq> byte 10 \<and> b64_char n \<noteq> byte 13"
proof -
  assume n: "n < 64"
  define m :: nat where "m = (if n < 26 then 65 + n else if n < 52 then 71 + n else if n < 62 then n - 4 else if n = 62 then 43 else 47)"
  have m: "m < 256" using n unfolding m_def by (auto intro: less_le_trans [of _ 64])
  have ch: "CHR ''+'' = byte 43" "CHR ''/'' = byte 47" "CHR ''='' = byte 61" by code_simp+
  have char: "b64_char n = byte m" using n by (simp add: b64_char_def m_def ch)
  have code: "(of_char (byte m) :: nat) = m" using m by (rule of_char_byte)
  have ne: "byte m \<noteq> byte k" if "m \<noteq> k" "k < 256" for k using code of_char_byte [OF that(2)] that(1) by metis
  have "b64_val (byte m) = Some n" using n unfolding b64_val_def code Let_def by (auto simp: m_def)
  moreover have "m \<noteq> 61" "m \<noteq> 10" "m \<noteq> 13" using n by (auto simp: m_def)
  ultimately show ?thesis using ne by (simp add: char ch)
qed

lemma b64_bits:
  assumes "a < 256" "b < 256" "c < (256 :: nat)"
  shows "a div 4 < 64" "a mod 4 * 16 + b div 16 < 64" "b mod 16 * 4 + c div 64 < 64" "a mod 4 * 16 < 64" "b mod 16 * 4 < 64"
    "a div 4 * 4 + (a mod 4 * 16 + b div 16) div 16 = a" "(a mod 4 * 16 + b div 16) mod 16 * 16 + (b mod 16 * 4 + c div 64) div 4 = b"
    "(b mod 16 * 4 + c div 64) mod 4 * 64 + c mod 64 = c" "b div 16 mod 16 = b div 16" "c div 64 mod 4 = c div 64"
proof -
  have b: "b div 16 < 16" and c: "c div 64 < 4" using assms by (simp_all add: less_mult_imp_div_less)
  show "b div 16 mod 16 = b div 16" "c div 64 mod 4 = c div 64" using b c by simp_all
  show "a div 4 < 64" using assms by (simp add: less_mult_imp_div_less)
  have "a mod 4 \<le> 3" "b mod 16 \<le> 15" by simp_all
  with b c show "a mod 4 * 16 + b div 16 < 64" "b mod 16 * 4 + c div 64 < 64" "a mod 4 * 16 < 64" "b mod 16 * 4 < 64" by linarith+
  show "a div 4 * 4 + (a mod 4 * 16 + b div 16) div 16 = a" using b by simp
  show "(a mod 4 * 16 + b div 16) mod 16 * 16 + (b mod 16 * 4 + c div 64) div 4 = b" using b c by simp
  show "(b mod 16 * 4 + c div 64) mod 4 * 64 + c mod 64 = c" using c by simp
qed

text \<open>Decoding undoes encoding, and an encoding has no line breaks.\<close>

lemma b64_quads_encode: "list_all is_byte bs \<Longrightarrow> b64_quads (b64_encode bs) = Some bs"
proof (induction bs rule: b64_encode.induct)
  case (2 a)
  then show ?case using b64_bits [of a 0 0] by (simp add: is_byte_def b64_val_char)
next
  case (3 a b)
  then show ?case using b64_bits [of a b 0] by (simp add: is_byte_def b64_val_char)
next
  case (4 a b c rest)
  then show ?case using b64_bits [of a b c] by (simp add: is_byte_def b64_val_char)
qed simp

lemma b64_encode_clean: "list_all is_byte bs \<Longrightarrow> list_all (\<lambda>ch. ch \<noteq> byte 10 \<and> ch \<noteq> byte 13) (b64_encode bs)"
proof (induction bs rule: b64_encode.induct)
  case (2 a)
  then show ?case using b64_bits [of a 0 0] by (simp add: is_byte_def b64_val_char) (simp add: byte_def char_of_def)
next
  case (3 a b)
  then show ?case using b64_bits [of a b 0] by (simp add: is_byte_def b64_val_char) (simp add: byte_def char_of_def)
next
  case (4 a b c rest)
  then show ?case using b64_bits [of a b c] by (simp add: is_byte_def b64_val_char)
qed simp

lemma b64_round_trip: "list_all is_byte bs \<Longrightarrow> b64_decode (b64_encode bs) = Some bs"
  using b64_encode_clean [of bs] b64_quads_encode [of bs] by (simp add: b64_decode_def list_all_iff filter_id_conv)


section \<open>Shadowsocks keys\<close>

definition EnsureBase64Password :: "string \<Rightarrow> string \<Rightarrow> string" where
  "EnsureBase64Password password method =
     (case b64_decode password of
        Some decodedBytes \<Rightarrow>
          (if (Contains method ''aes-128-gcm'' \<and> length decodedBytes = 16) \<or>
              ((Contains method ''aes-256-gcm'' \<or> Contains method ''chacha20-poly1305'') \<and> length decodedBytes = 32)
           then password
           else b64_encode (if Contains method ''aes-128-gcm'' then take 16 (sha256 (bytes_of password))
                            else take 32 (sha256 (bytes_of password))))
      | None \<Rightarrow> b64_encode (if Contains method ''aes-128-gcm'' then take 16 (sha256 (bytes_of password))
                           else take 32 (sha256 (bytes_of password))))"

definition key_length :: "string \<Rightarrow> nat" where
  "key_length method = (if Contains method ''aes-128-gcm'' then 16 else 32)"

lemma list_all_take: "list_all P xs \<Longrightarrow> list_all P (take n xs)"
  by (simp add: list_all_iff) (meson in_set_takeD)

text \<open>The ciphers whose key length the code knows, and what it does for them.\<close>

definition fixed_key :: "string \<Rightarrow> bool" where
  "fixed_key method \<longleftrightarrow>
     Contains method ''aes-128-gcm'' \<noteq> (Contains method ''aes-256-gcm'' \<or> Contains method ''chacha20-poly1305'')"

lemma EnsureBase64Password_fixed:
  assumes "fixed_key method"
  shows "EnsureBase64Password p method = (case b64_decode p of
      Some key \<Rightarrow> if length key = key_length method then p else b64_encode (take (key_length method) (sha256 (bytes_of p)))
    | None \<Rightarrow> b64_encode (take (key_length method) (sha256 (bytes_of p))))"
proof -
  have good: "(Contains method ''aes-128-gcm'' \<and> length key = 16) \<or>
      ((Contains method ''aes-256-gcm'' \<or> Contains method ''chacha20-poly1305'') \<and> length key = 32) \<longleftrightarrow>
      length key = key_length method" for key :: "nat list"
    using assms by (auto simp: key_length_def fixed_key_def)
  show ?thesis unfolding EnsureBase64Password_def good by (simp add: key_length_def split: option.split)
qed

lemma EnsureBase64Password_kept:
  "fixed_key method \<Longrightarrow> b64_decode p = Some key \<Longrightarrow> length key = key_length method \<Longrightarrow> EnsureBase64Password p method = p"
  by (simp add: EnsureBase64Password_fixed)

lemma EnsureBase64Password_fits:
  assumes "fixed_key method"
  shows "\<exists>key. b64_decode (EnsureBase64Password p method) = Some key \<and> length key = key_length method"
proof -
  define fresh where "fresh = take (key_length method) (sha256 (bytes_of p))"
  have fresh: "length fresh = key_length method" "list_all is_byte fresh"
    by (simp_all add: fresh_def key_length_def sha256_bytes list_all_take)
  then show ?thesis
    using b64_round_trip [OF fresh(2)] by (auto simp: EnsureBase64Password_fixed [OF assms] fresh_def split: option.split)
qed

lemma EnsureBase64Password_idem:
  "fixed_key method \<Longrightarrow> EnsureBase64Password (EnsureBase64Password p method) method = EnsureBase64Password p method"
  using EnsureBase64Password_fits EnsureBase64Password_kept by blast

text \<open>
  For the ciphers with a fixed key length, the password the node configures always decodes to a
  key of exactly that length; a password that already is such a key is kept, and preparing a
  password twice is the same as preparing it once, so that re-sent users keep their key.
\<close>

lemma EnsureBase64Password_key:
  assumes "Contains method ''aes-128-gcm'' \<noteq> (Contains method ''aes-256-gcm'' \<or> Contains method ''chacha20-poly1305'')"
  shows "(\<exists>key. b64_decode (EnsureBase64Password password method) = Some key \<and> length key = key_length method) \<and>
    EnsureBase64Password (EnsureBase64Password password method) method = EnsureBase64Password password method \<and>
    (\<forall>key. b64_decode password = Some key \<longrightarrow> length key = key_length method \<longrightarrow> EnsureBase64Password password method = password)"
  using EnsureBase64Password_fits EnsureBase64Password_idem EnsureBase64Password_kept assms unfolding fixed_key_def by blast

lemma EnsureBase64Password_key_witness:
  "\<exists>key. b64_decode (EnsureBase64Password ''secret'' ''2022-blake3-aes-128-gcm'') = Some key \<and> length key = 16"
proof -
  have m: "Contains ''2022-blake3-aes-128-gcm'' ''aes-128-gcm''" "\<not> Contains ''2022-blake3-aes-128-gcm'' ''aes-256-gcm''"
    "\<not> Contains ''2022-blake3-aes-128-gcm'' ''chacha20-poly1305''"
    by (simp_all add: HasPrefix_def)
  then have "Contains ''2022-blake3-aes-128-gcm'' ''aes-128-gcm'' \<noteq>
      (Contains ''2022-blake3-aes-128-gcm'' ''aes-256-gcm'' \<or> Contains ''2022-blake3-aes-128-gcm'' ''chacha20-poly1305'')" by blast
  from EnsureBase64Password_key [OF this, of "''secret''"] m(1) show ?thesis unfolding key_length_def by auto
qed

end
