(* ===== verification/Singbox.thy ===== *)
theory Singbox
  imports Stats_Tracker Node_Messages Go_Crypto
begin

text \<open>
  The sing-box backend (\<^verbatim>\<open>backend/singbox\<close>): its configuration, the table of slots that gives
  every user a position in the list sing-box authenticates by, the push of that list over
  \<^verbatim>\<open>clash_api\<close>, the accounting of cumulative counters, and the life of the process with the
  supervisor that restarts it.

  The sing-box process is \<open>'p\<close>; the record \<open>clash_env\<close> is what HTTP requests to it do. Every section
  under one mutex is one step. The supervisor goroutine is a state (\<open>sup\<close>), so that process exits,
  shutdowns and pushes can come between its steps.
\<close>

section \<open>Configuration\<close>

datatype cred_kind = credHysteria2 | credVLESS | credVMess | credTrojan | credShadowsocks

type_synonym managed_inbound = "string \<times> cred_kind"

record sb_config =
  sc_raw :: string
  sc_clashAPIAddress :: string
  sc_clashAPISecret :: string
  sc_statsAddress :: string
  sc_inbounds :: "managed_inbound list"

text \<open>What \<^verbatim>\<open>json.Unmarshal\<close> finds in a configuration.\<close>

record sb_json =
  sj_external_controller :: string
  sj_secret :: string
  sj_listen :: string
  sj_enabled :: bool
  sj_users :: "string list"
  sj_inbounds :: "(string \<times> string) list"

definition supportedInbounds :: "string \<rightharpoonup> cred_kind" where
  "supportedInbounds = [''hysteria2'' \<mapsto> credHysteria2, ''vless'' \<mapsto> credVLESS, ''vmess'' \<mapsto> credVMess,
     ''trojan'' \<mapsto> credTrojan, ''shadowsocks'' \<mapsto> credShadowsocks]"

fun containsWildcard :: "string list \<Rightarrow> bool" where
  "containsWildcard [] = False"
| "containsWildcard (u # us) = (if TrimSpace u = ''*'' then True else containsWildcard us)"

fun managed_inbounds :: "(string \<times> string) list \<Rightarrow> managed_inbound list" where
  "managed_inbounds [] = []"
| "managed_inbounds ((typ, rawTag) # rest) =
     (let tag = TrimSpace rawTag in
      case supportedInbounds typ of
        None \<Rightarrow> managed_inbounds rest
      | Some kind \<Rightarrow> if tag = [] then managed_inbounds rest else (tag, kind) # managed_inbounds rest)"

definition sb_NewConfig :: "(string \<Rightarrow> string + sb_json) \<Rightarrow> string \<Rightarrow> string + sb_config" where
  "sb_NewConfig unmarshal configStr =
     (if TrimSpace configStr = [] then Inl ''singbox: empty config''
      else case unmarshal configStr of
        Inl err \<Rightarrow> Inl (''singbox: config is not valid json: '' @ err)
      | Inr parsed \<Rightarrow>
         (let cfg = \<lparr>sc_raw = configStr, sc_clashAPIAddress = TrimSpace (sj_external_controller parsed),
                     sc_clashAPISecret = sj_secret parsed, sc_statsAddress = TrimSpace (sj_listen parsed), sc_inbounds = []\<rparr>
          in if sc_clashAPIAddress cfg = []
             then Inl ''singbox: experimental.clash_api.external_controller is required; without it this backend cannot push users''
             else if sc_statsAddress cfg = []
             then Inl ''singbox: experimental.v2ray_api.listen is required; without it there is no per-user usage to report''
             else if \<not> sj_enabled parsed then Inl ''singbox: experimental.v2ray_api.stats.enabled must be true''
             else if \<not> containsWildcard (sj_users parsed)
             then Inl (''singbox: experimental.v2ray_api.stats.users must contain '' @ [byte 34] @ ''*'' @ [byte 34] @ ''; that list is read once at startup, so users added later would pass traffic counted against nobody'')
             else
               (let cfg = cfg\<lparr>sc_inbounds := managed_inbounds (sj_inbounds parsed)\<rparr>
                in if length (sc_inbounds cfg) = 0 then Inl ''singbox: config has no inbound this backend can manage users for''
                   else Inr cfg)))"

definition sb_InstanceID :: "sb_config \<Rightarrow> string" where
  "sb_InstanceID cfg = (case sc_inbounds cfg of [] \<Rightarrow> [] | (tag, _) # _ \<Rightarrow> tag)"

definition sanitise :: "string \<Rightarrow> string" where
  "sanitise name =
     (if name = [] then ''default''
      else map (\<lambda>ch. let n = of_char ch :: nat in
             if (97 \<le> n \<and> n \<le> 122) \<or> (65 \<le> n \<and> n \<le> 90) \<or> (48 \<le> n \<and> n \<le> 57) \<or> n = 45 \<or> n = 95 then ch else CHR ''_'') name)"


section \<open>Credentials\<close>

record user_creds =
  uc_hysteria2 :: string
  uc_vlessUUID :: string
  uc_vmessUUID :: string
  uc_trojanPass :: string
  uc_shadowsocks :: string

definition no_creds :: user_creds where
  "no_creds = \<lparr>uc_hysteria2 = [], uc_vlessUUID = [], uc_vmessUUID = [], uc_trojanPass = [], uc_shadowsocks = []\<rparr>"

definition creds_secret :: "cred_kind \<Rightarrow> user_creds \<Rightarrow> string" where
  "creds_secret kind cr =
     (case kind of
        credHysteria2 \<Rightarrow> uc_hysteria2 cr
      | credVLESS \<Rightarrow> uc_vlessUUID cr
      | credVMess \<Rightarrow> uc_vmessUUID cr
      | credTrojan \<Rightarrow> uc_trojanPass cr
      | credShadowsocks \<Rightarrow> uc_shadowsocks cr)"

definition creds_empty :: "user_creds \<Rightarrow> bool" where
  "creds_empty cr \<longleftrightarrow> uc_hysteria2 cr = [] \<and> uc_vlessUUID cr = [] \<and> uc_vmessUUID cr = [] \<and>
     uc_trojanPass cr = [] \<and> uc_shadowsocks cr = []"

definition servesAnyOf :: "sb_config \<Rightarrow> string list \<Rightarrow> bool" where
  "servesAnyOf cfg userInbounds \<longleftrightarrow>
     (if length userInbounds = 0 then False
      else list_ex (\<lambda>tag. list_ex (\<lambda>own. tag = fst own) (sc_inbounds cfg)) userInbounds)"

definition sb_credentials :: "sb_config \<Rightarrow> user \<Rightarrow> (string \<times> user_creds) option" where
  "sb_credentials cfg u =
     (if u = None then None
      else
        (let email = TrimSpace (GetEmail u) in
         if email = [] then None
         else if \<not> servesAnyOf cfg (GetInbounds u) then None
         else
           (let proxies = GetProxies u;
                creds = \<lparr>uc_hysteria2 = TrimSpace (field hy_Auth (GetHysteria proxies)),
                         uc_vlessUUID = TrimSpace (field vl_Id (GetVless proxies)),
                         uc_vmessUUID = TrimSpace (field vm_Id (GetVmess proxies)),
                         uc_trojanPass = TrimSpace (field tr_Password (GetTrojan proxies)),
                         uc_shadowsocks = TrimSpace (field ss_Password (GetShadowsocks proxies))\<rparr>
            in if creds_empty creds then None else Some (email, creds))))"


section \<open>Usage counters\<close>

record stats_client =
  st_pending :: "string \<rightharpoonup> int64"
  st_baseline :: "string \<rightharpoonup> int64"
  st_connected :: bool

definition newStatsClient :: stats_client where
  "newStatsClient = \<lparr>st_pending = Map.empty, st_baseline = Map.empty, st_connected = False\<rparr>"

definition add_pending :: "string \<Rightarrow> int64 \<Rightarrow> stats_client \<Rightarrow> stats_client" where
  "add_pending name d st = st\<lparr>st_pending := (st_pending st)(name \<mapsto> add64 (getd 0 (st_pending st) name) d)\<rparr>"

definition fold_stat :: "stats_client \<Rightarrow> string \<times> int64 \<Rightarrow> stats_client" where
  "fold_stat st nv =
     (case nv of (name, cur) \<Rightarrow>
        (let prev = st_baseline st name;
             st = st\<lparr>st_baseline := (st_baseline st)(name \<mapsto> cur)\<rparr>
         in case prev of
              None \<Rightarrow> st
            | Some prev \<Rightarrow>
               (if cur < prev then (if cur > 0 then add_pending name cur st else st)
                else (let d = sub64 cur prev in if d > 0 then add_pending name d st else st))))"

definition stats_fold :: "(string \<times> int64) list \<Rightarrow> stats_client \<Rightarrow> stats_client" where
  "stats_fold stats st = foldl fold_stat st stats"

definition collect :: "string + (string \<times> int64) list \<Rightarrow> stats_client \<Rightarrow> err \<times> stats_client" where
  "collect answer st = (case answer of Inl err \<Rightarrow> (Some err, st) | Inr stats \<Rightarrow> (None, stats_fold stats st))"

text \<open>\<open>ks\<close> is the order in which the loop visits the pending counters.\<close>

definition stats_take :: "string list \<Rightarrow> string \<Rightarrow> bool \<Rightarrow> stats_client \<Rightarrow> (string \<rightharpoonup> int64) \<times> stats_client" where
  "stats_take ks pre consume st =
     foldl (\<lambda>(out, st) name.
        if pre \<noteq> [] \<and> \<not> HasPrefix name pre then (out, st)
        else (out(name := st_pending st name),
              if consume then st\<lparr>st_pending := (st_pending st)(name := None)\<rparr> else st)) (Map.empty, st) ks"

definition splitStatName :: "string \<Rightarrow> string \<times> string \<times> string" where
  "splitStatName raw =
     (let parts = Split raw ''>>>'' in
      if length parts \<noteq> 4 then (raw, [], []) else (parts ! 1, parts ! 3, parts ! 2))"

definition stat_pattern :: "stat_request \<Rightarrow> string" where
  "stat_pattern request =
     (case sr_Type request of
        UsersStat \<Rightarrow> ''user>>>''
      | UserStat \<Rightarrow> ''user>>>'' @ sr_Name request @ ''>>>''
      | Inbounds \<Rightarrow> ''inbound>>>''
      | Inbound \<Rightarrow> ''inbound>>>'' @ sr_Name request @ ''>>>''
      | Outbounds \<Rightarrow> ''outbound>>>''
      | Outbound \<Rightarrow> ''outbound>>>'' @ sr_Name request @ ''>>>'')"

definition sb_GetStats :: "ranger \<Rightarrow> string + (string \<times> int64) list \<Rightarrow> stat_request \<Rightarrow> stats_client \<Rightarrow>
    (string + stat list) \<times> stats_client" where
  "sb_GetStats rg answer request st =
     (case collect answer st of
        (Some err, st) \<Rightarrow> (Inl err, st)
      | (None, st) \<Rightarrow>
         (case stats_take (keys_of rg 0 (st_pending st)) (stat_pattern request) (sr_Reset request) st of
            (stats, st) \<Rightarrow>
              (Inr (map (\<lambda>rawName. case splitStatName rawName of (name, kind, link) \<Rightarrow>
                      \<lparr>s_Name = name, s_Type = kind, s_Link = link, s_Value = getd 0 stats rawName\<rparr>)
                    (keys_of rg 1 stats)), st)))"


section \<open>The clash API\<close>

record clash_user =
  cu_Name :: string
  cu_Password :: string
  cu_UUID :: string

definition usesUUID :: "cred_kind \<Rightarrow> bool" where
  "usesUUID kind \<longleftrightarrow> kind = credVLESS \<or> kind = credVMess"

definition newClashUser :: "string \<Rightarrow> cred_kind \<Rightarrow> string \<Rightarrow> clash_user" where
  "newClashUser name kind secret =
     (if usesUUID kind then \<lparr>cu_Name = name, cu_Password = [], cu_UUID = secret\<rparr>
      else \<lparr>cu_Name = name, cu_Password = secret, cu_UUID = []\<rparr>)"

datatype http_outcome = HttpErr string | HttpStatus nat string

record 'p clash_env =
  ce_badURL :: "string \<Rightarrow> err"
  ce_get :: "string \<Rightarrow> string option \<Rightarrow> 'p \<Rightarrow> http_outcome"
  ce_put :: "string \<Rightarrow> string option \<Rightarrow> clash_user list \<Rightarrow> 'p \<Rightarrow> http_outcome \<times> 'p"

record clash_client =
  cc_base :: string
  cc_secret :: string

definition TrimRight_slash :: "string \<Rightarrow> string" where
  "TrimRight_slash s = rev (dropWhile (\<lambda>ch. ch = CHR ''/'') (rev s))"

definition newClashClient :: "string \<Rightarrow> string \<Rightarrow> clash_client" where
  "newClashClient address secret =
     (let address = (if \<not> Contains address ''://'' then ''http://'' @ address else address)
      in \<lparr>cc_base = TrimRight_slash address, cc_secret = secret\<rparr>)"

definition clash_auth :: "clash_client \<Rightarrow> string option" where
  "clash_auth cl = (if cc_secret cl \<noteq> [] then Some (''Bearer '' @ cc_secret cl) else None)"

definition clash_ping :: "'p clash_env \<Rightarrow> clash_client \<Rightarrow> 'p \<Rightarrow> err" where
  "clash_ping E cl p =
     (let url = cc_base cl @ ''/version'' in
      case ce_badURL E url of
        Some err \<Rightarrow> Some err
      | None \<Rightarrow>
         (case ce_get E url (clash_auth cl) p of
            HttpErr err \<Rightarrow> Some err
          | HttpStatus code body \<Rightarrow> if code \<noteq> 200 then Some (''clash_api returned '' @ show_nat code) else None))"

definition clash_replaceUsers :: "'p clash_env \<Rightarrow> clash_client \<Rightarrow> string \<Rightarrow> clash_user list \<Rightarrow> 'p \<Rightarrow> err \<times> 'p" where
  "clash_replaceUsers E cl tag users p =
     (let url = cc_base cl @ ''/inbounds/'' @ tag @ ''/users'' in
      case ce_badURL E url of
        Some err \<Rightarrow> (Some err, p)
      | None \<Rightarrow>
         (case ce_put E url (clash_auth cl) users p of
            (HttpErr err, p) \<Rightarrow> (Some err, p)
          | (HttpStatus code body, p) \<Rightarrow>
              if code \<noteq> 200 then (Some (''clash_api returned '' @ show_nat code @ '': '' @ TrimSpace (take 512 body)), p)
              else (None, p)))"


section \<open>State\<close>

text \<open>
  Where the supervisor goroutine is: at the head of its loop (with the next delay in seconds), asleep
  on the stop channel it read there, past its checks and about to start the process, or pushing the
  users to the process it started. A channel that is nil is never ready.
\<close>

datatype stop_chan = ChanNil | ChanOpen | ChanClosed

datatype sup = Looping nat | Sleeping nat stop_chan | Starting nat | Pushing

record 'p singbox =
  sb_config :: sb_config
  sb_client :: clash_client
  sb_users :: "string \<rightharpoonup> user_creds"
  sb_slots :: "string list"
  sb_pushTimer :: bool
  sb_stats :: stats_client
  sb_process :: "'p option"
  sb_started :: bool
  sb_stopping :: bool
  sb_supervising :: bool
  sb_sup :: "sup option"
  sb_pushStop :: bool
  sb_version :: string
  sb_startTime :: gotime


section \<open>Slots\<close>

text \<open>
  Both loops of \<^verbatim>\<open>reconcileSlotsLocked\<close>: over the table, freeing the slots of departed users,
  and over the users in the order the range loop picks, appending those without a slot.
\<close>

definition free_slots :: "(string \<rightharpoonup> user_creds) \<Rightarrow> string list \<Rightarrow> string list" where
  "free_slots users slots = map (\<lambda>email. if email = [] then [] else if users email \<noteq> None then email else []) slots"

definition placed :: "string list \<Rightarrow> string set" where
  "placed slots = set slots - {[]}"

fun append_users :: "string list \<Rightarrow> string set \<Rightarrow> string list \<Rightarrow> string list" where
  "append_users [] done slots = slots"
| "append_users (email # emails) done slots =
     (if email \<in> done then append_users emails done slots
      else append_users emails (insert email done) (slots @ [email]))"

definition reconcileSlotsLocked :: "ranger \<Rightarrow> 'p singbox \<Rightarrow> 'p singbox" where
  "reconcileSlotsLocked rg s =
     (let slots = free_slots (sb_users s) (sb_slots s)
      in s\<lparr>sb_slots := append_users (keys_of rg 0 (sb_users s)) (placed slots) slots\<rparr>)"

definition freeSlotName :: string where
  "freeSlotName = ''-''"

definition newSlotNonce :: "nat list \<Rightarrow> string" where
  "newSlotNonce random = hex_bytes random"

definition uuid_text :: "nat list \<Rightarrow> string" where
  "uuid_text bs = hex_bytes (take 4 bs) @ ''-'' @ hex_bytes (take 2 (drop 4 bs)) @ ''-'' @ hex_bytes (take 2 (drop 6 bs)) @
     ''-'' @ hex_bytes (take 2 (drop 8 bs)) @ ''-'' @ hex_bytes (take 6 (drop 10 bs))"

definition freeSlotSecret :: "string \<Rightarrow> cred_kind \<Rightarrow> nat \<Rightarrow> string" where
  "freeSlotSecret slotNonce kind index =
     (let plain = ''pg-unused-slot-'' @ show_nat index @ ''-'' @ slotNonce in
      if \<not> usesUUID kind then plain
      else
        (let bs = take 16 (sha256 (bytes_of plain));
             bs = bs[6 := bs ! 6 mod 16 + 64];
             bs = bs[8 := bs ! 8 mod 64 + 128]
         in uuid_text bs))"

definition slot_entry :: "string \<Rightarrow> (string \<rightharpoonup> user_creds) \<Rightarrow> cred_kind \<Rightarrow> nat \<Rightarrow> string \<Rightarrow> clash_user" where
  "slot_entry slotNonce users kind index email =
     (let secret = (if email \<noteq> [] then creds_secret kind (getd no_creds users email) else [])
      in if secret = [] then newClashUser freeSlotName kind (freeSlotSecret slotNonce kind index)
         else newClashUser email kind secret)"

definition payloadForLocked :: "string \<Rightarrow> 'p singbox \<Rightarrow> cred_kind \<Rightarrow> clash_user list" where
  "payloadForLocked slotNonce s kind =
     map (\<lambda>(index, email). slot_entry slotNonce (sb_users s) kind index email) (enumerate 0 (sb_slots s))"

fun push_inbounds :: "'p clash_env \<Rightarrow> clash_client \<Rightarrow> (cred_kind \<Rightarrow> clash_user list) \<Rightarrow> managed_inbound list \<Rightarrow>
    string list \<Rightarrow> 'p \<Rightarrow> string list \<times> 'p" where
  "push_inbounds E cl payloads [] failures p = (failures, p)"
| "push_inbounds E cl payloads ((tag, kind) # ins) failures p =
     (case clash_replaceUsers E cl tag (payloads kind) p of
        (Some err, p) \<Rightarrow> push_inbounds E cl payloads ins (failures @ [tag @ '': '' @ err]) p
      | (None, p) \<Rightarrow> push_inbounds E cl payloads ins failures p)"

text \<open>Without a process every request fails with the error \<open>refused\<close>.\<close>

definition pushUsers :: "'p clash_env \<Rightarrow> string \<Rightarrow> string \<Rightarrow> ranger \<Rightarrow> 'p singbox \<Rightarrow> err \<times> 'p singbox" where
  "pushUsers E slotNonce refused rg s =
     (let s = reconcileSlotsLocked rg s;
          payloads = payloadForLocked slotNonce s
      in case sb_process s of
           None \<Rightarrow>
             (if sc_inbounds (sb_config s) = [] then (None, s)
              else (Some (Join (map (\<lambda>(tag, kind). tag @ '': '' @ refused) (sc_inbounds (sb_config s))) ''; ''), s))
         | Some p \<Rightarrow>
             (case push_inbounds E (sb_client s) payloads (sc_inbounds (sb_config s)) [] p of
                (failures, p) \<Rightarrow>
                  (if length failures > 0 then Some (Join failures ''; '') else None, s\<lparr>sb_process := Some p\<rparr>)))"


section \<open>User operations\<close>

definition pushSoon :: "'p singbox \<Rightarrow> 'p singbox" where
  "pushSoon s = s\<lparr>sb_pushTimer := True\<rparr>"

text \<open>The timer of \<^verbatim>\<open>pushSoon\<close> goes off.\<close>

definition timer_push :: "'p clash_env \<Rightarrow> string \<Rightarrow> string \<Rightarrow> ranger \<Rightarrow> 'p singbox \<Rightarrow> 'p singbox" where
  "timer_push E slotNonce refused rg s =
     (if sb_pushTimer s then snd (pushUsers E slotNonce refused rg (s\<lparr>sb_pushTimer := False\<rparr>)) else s)"

definition sb_SyncUser :: "user \<Rightarrow> 'p singbox \<Rightarrow> err \<times> 'p singbox" where
  "sb_SyncUser user s =
     (if user = None then (Some ''singbox: user is nil'', s)
      else
        (let s = (case sb_credentials (sb_config s) user of
                    Some (email, creds) \<Rightarrow> s\<lparr>sb_users := (sb_users s)(email \<mapsto> creds)\<rparr>
                  | None \<Rightarrow> s\<lparr>sb_users := (sb_users s)(GetEmail user := None)\<rparr>)
         in (None, pushSoon s)))"

fun merge_into :: "sb_config \<Rightarrow> user list \<Rightarrow> (string \<rightharpoonup> user_creds) \<Rightarrow> (string \<rightharpoonup> user_creds)" where
  "merge_into cfg [] m = m"
| "merge_into cfg (u # us) m =
     (if u = None then merge_into cfg us m
      else case sb_credentials cfg u of
        Some (email, creds) \<Rightarrow> merge_into cfg us (m(email \<mapsto> creds))
      | None \<Rightarrow> merge_into cfg us (m(TrimSpace (GetEmail u) := None)))"

definition mergeUsers :: "'p clash_env \<Rightarrow> string \<Rightarrow> string \<Rightarrow> ranger \<Rightarrow> user list \<Rightarrow> 'p singbox \<Rightarrow> err \<times> 'p singbox" where
  "mergeUsers E slotNonce refused rg users s =
     pushUsers E slotNonce refused rg
       (s\<lparr>sb_users := merge_into (sb_config s) users (sb_users s), sb_pushTimer := False\<rparr>)"

fun users_map :: "sb_config \<Rightarrow> user list \<Rightarrow> (string \<rightharpoonup> user_creds) \<Rightarrow> (string \<rightharpoonup> user_creds)" where
  "users_map cfg [] m = m"
| "users_map cfg (u # us) m =
     (case sb_credentials cfg u of
        Some (email, creds) \<Rightarrow> users_map cfg us (m(email \<mapsto> creds))
      | None \<Rightarrow> users_map cfg us m)"

definition replaceUsers :: "'p clash_env \<Rightarrow> string \<Rightarrow> string \<Rightarrow> ranger \<Rightarrow> user list \<Rightarrow> 'p singbox \<Rightarrow> err \<times> 'p singbox" where
  "replaceUsers E slotNonce refused rg users s =
     pushUsers E slotNonce refused rg
       (s\<lparr>sb_users := users_map (sb_config s) users Map.empty, sb_pushTimer := False\<rparr>)"

definition sb_SyncUsers :: "'p clash_env \<Rightarrow> string \<Rightarrow> string \<Rightarrow> ranger \<Rightarrow> user list \<Rightarrow> 'p singbox \<Rightarrow> err \<times> 'p singbox" where
  "sb_SyncUsers = replaceUsers"

definition sb_UpdateUsers :: "'p clash_env \<Rightarrow> string \<Rightarrow> string \<Rightarrow> ranger \<Rightarrow> user list \<Rightarrow> 'p singbox \<Rightarrow> err \<times> 'p singbox" where
  "sb_UpdateUsers = mergeUsers"

definition sb_UpdateUsersAndRestart :: "'p clash_env \<Rightarrow> string \<Rightarrow> string \<Rightarrow> ranger \<Rightarrow> user list \<Rightarrow> 'p singbox \<Rightarrow> err \<times> 'p singbox" where
  "sb_UpdateUsersAndRestart = mergeUsers"


section \<open>Life of the process\<close>

text \<open>
  The watcher of a process that has exited: the core is down, and unless the exit was asked for or a
  supervisor exists, a supervisor is spawned with the smallest delay.
\<close>

definition proc_exits :: "'p singbox \<Rightarrow> 'p singbox" where
  "proc_exits s =
     (let s = s\<lparr>sb_process := None, sb_started := False\<rparr>;
          spawn = (\<not> sb_stopping s \<and> \<not> sb_supervising s)
      in if spawn then s\<lparr>sb_supervising := True, sb_sup := Some (Looping 2)\<rparr> else s)"

definition teardown :: "'p singbox \<Rightarrow> 'p singbox" where
  "teardown s =
     (let s = s\<lparr>sb_started := False, sb_pushTimer := False\<rparr>;
          s = (if sb_process s \<noteq> None then proc_exits s else s)
      in s\<lparr>sb_stats := (sb_stats s)\<lparr>st_connected := False\<rparr>\<rparr>)"

text \<open>
  What \<^verbatim>\<open>waitReady\<close> sees each 200 ms until its deadline: its context cancelled, the process gone,
  or the answer of a ping.
\<close>

datatype poll = CtxDone | ProcDone | Ping bool

fun waitReady :: "poll list \<Rightarrow> err" where
  "waitReady [] = Some ''singbox: clash_api did not answer within 20s''"
| "waitReady (CtxDone # ps) = Some ''singbox: process exited before it became ready''"
| "waitReady (ProcDone # ps) = Some ''singbox: process exited before it became ready; check the core log''"
| "waitReady (Ping ok # ps) = (if ok then None else waitReady ps)"

definition readVersion :: "string option \<Rightarrow> string" where
  "readVersion output =
     (case output of
        None \<Rightarrow> []
      | Some text \<Rightarrow>
         (let line = (case Cut text [byte 10] of None \<Rightarrow> text | Some (l, _) \<Rightarrow> l);
              fields = Fields line
          in if length fields \<ge> 3 then fields ! 2 else []))"

text \<open>
  One attempt to start: \<open>at_prep\<close> is the error of the steps before the process runs (directory, file,
  pipe, exec), \<open>at_process\<close> the fresh process.
\<close>

record 'p attempt =
  at_prep :: err
  at_process :: 'p
  at_polls :: "poll list"
  at_version :: "string option"
  at_now :: gotime

definition sb_start :: "'p attempt \<Rightarrow> 'p singbox \<Rightarrow> err \<times> 'p singbox" where
  "sb_start at s =
     (case at_prep at of
        Some err \<Rightarrow> (Some err, s)
      | None \<Rightarrow>
         (let s = s\<lparr>sb_stopping := False, sb_process := Some (at_process at), sb_startTime := at_now at\<rparr>
          in case waitReady (at_polls at) of
               Some err \<Rightarrow> (Some err, teardown s)
             | None \<Rightarrow> (None, s\<lparr>sb_started := True, sb_version := readVersion (at_version at), sb_slots := []\<rparr>)))"

text \<open>Closing the channel wakes the supervisor that sleeps on it.\<close>

definition close_pushStop :: "'p singbox \<Rightarrow> 'p singbox" where
  "close_pushStop s =
     (if sb_pushStop s
      then s\<lparr>sb_pushStop := False,
             sb_sup := (case sb_sup s of Some (Sleeping delay ChanOpen) \<Rightarrow> Some (Sleeping delay ChanClosed) | at \<Rightarrow> at)\<rparr>
      else s)"

definition sb_Shutdown :: "'p singbox \<Rightarrow> 'p singbox" where
  "sb_Shutdown s = teardown (close_pushStop (s\<lparr>sb_stopping := True\<rparr>))"

definition sb_Restart :: "'p clash_env \<Rightarrow> string \<Rightarrow> string \<Rightarrow> ranger \<Rightarrow> 'p attempt \<Rightarrow> 'p singbox \<Rightarrow> err \<times> 'p singbox" where
  "sb_Restart E slotNonce refused rg at s =
     (let s = (sb_Shutdown s)\<lparr>sb_pushStop := True\<rparr>
      in case sb_start at s of
           (Some err, s) \<Rightarrow> (Some err, s)
         | (None, s) \<Rightarrow> pushUsers E slotNonce refused rg s)"

definition fresh_singbox :: "sb_config \<Rightarrow> user list \<Rightarrow> 'p singbox" where
  "fresh_singbox cfg users =
     \<lparr>sb_config = cfg, sb_client = newClashClient (sc_clashAPIAddress cfg) (sc_clashAPISecret cfg),
      sb_users = users_map cfg users Map.empty, sb_slots = [], sb_pushTimer = False, sb_stats = newStatsClient,
      sb_process = None, sb_started = False, sb_stopping = False, sb_supervising = False, sb_sup = None,
      sb_pushStop = True, sb_version = [], sb_startTime = 0\<rparr>"

text \<open>The object exists also when the constructor fails: its goroutines keep it.\<close>

definition sb_New :: "'p clash_env \<Rightarrow> string \<Rightarrow> string \<Rightarrow> ranger \<Rightarrow> 'p attempt \<Rightarrow> sb_config \<Rightarrow> user list \<Rightarrow> err \<times> 'p singbox" where
  "sb_New E slotNonce refused rg at cfg users =
     (case sb_start at (fresh_singbox cfg users) of
        (Some err, s) \<Rightarrow> (Some err, s)
      | (None, s) \<Rightarrow>
         (case pushUsers E slotNonce refused rg s of
            (Some err, s) \<Rightarrow> (Some (''singbox: initial user push failed: '' @ err), sb_Shutdown s)
          | (None, s) \<Rightarrow> (None, s)))"

text \<open>
  The steps of \<^verbatim>\<open>superviseRestart\<close>; leaving the loop releases the flag. \<open>elapsed\<close> says whether the
  sleep ended because its delay had passed; only a closed channel ends it otherwise. The start of a
  process, from its first file to the answer of its API, is one step.
\<close>

definition sup_leaves :: "'p singbox \<Rightarrow> 'p singbox" where
  "sup_leaves s = s\<lparr>sb_supervising := False, sb_sup := None\<rparr>"

definition backoff :: "nat \<Rightarrow> nat" where
  "backoff delay = (if delay < 60 then (if delay * 2 > 60 then 60 else delay * 2) else delay)"

fun sup_step :: "'p clash_env \<Rightarrow> string \<Rightarrow> string \<Rightarrow> ranger \<Rightarrow> bool \<Rightarrow> 'p attempt \<Rightarrow> 'p singbox \<Rightarrow> 'p singbox" where
  "sup_step E slotNonce refused rg elapsed at s =
     (case sb_sup s of
        None \<Rightarrow> s
      | Some (Looping delay) \<Rightarrow>
          (if sb_stopping s then sup_leaves s
           else s\<lparr>sb_sup := Some (Sleeping delay (if sb_pushStop s then ChanOpen else ChanNil))\<rparr>)
      | Some (Sleeping delay stop) \<Rightarrow>
          (if \<not> elapsed then (if stop = ChanClosed then sup_leaves s else s)
           else if sb_stopping s then sup_leaves s
           else if sb_started s then sup_leaves s
           else s\<lparr>sb_sup := Some (Starting delay)\<rparr>)
      | Some (Starting delay) \<Rightarrow>
          (case sb_start at s of
             (Some err, s) \<Rightarrow> s\<lparr>sb_sup := Some (Looping (backoff delay))\<rparr>
           | (None, s) \<Rightarrow> s\<lparr>sb_sup := Some Pushing\<rparr>)
      | Some Pushing \<Rightarrow> sup_leaves (snd (pushUsers E slotNonce refused rg s)))"

definition sb_GetSysStats :: "gotime \<Rightarrow> 'p singbox \<Rightarrow> 32 word" where
  "sb_GetSysStats now s =
     (if sb_startTime s = 0 then 0 else word_of_int ((now - sb_startTime s) div 1000000000))"

end
