(* ===== verification/Singbox_Billing.thy ===== *)
theory Singbox_Billing
  imports Singbox
begin

text \<open>
  The usage accounting of the sing-box backend is an exact meter: over every sequence of polls, with
  and without reset, what was billed for a counter plus what is pending is the growth of the counter
  since it was first seen, a restart of the process included.
\<close>

section \<open>One counter\<close>

fun counter_growth :: "string \<Rightarrow> (string \<times> int64) list \<Rightarrow> int64 option \<Rightarrow> int" where
  "counter_growth n [] r = 0"
| "counter_growth n ((m, cur) # rest) r =
     (if m = n then (case r of None \<Rightarrow> 0 | Some prev \<Rightarrow> if cur < prev then cur else cur - prev) + counter_growth n rest (Some cur)
      else counter_growth n rest r)"

fun counter_last :: "string \<Rightarrow> (string \<times> int64) list \<Rightarrow> int64 option \<Rightarrow> int64 option" where
  "counter_last n [] r = r"
| "counter_last n ((m, cur) # rest) r = counter_last n rest (if m = n then Some cur else r)"

definition good_values :: "(string \<times> int64) list \<Rightarrow> bool" where
  "good_values stats \<longleftrightarrow> list_all (\<lambda>(_, v). 0 \<le> v \<and> v < 2 ^ 63) stats"

definition counter_ok :: "string \<Rightarrow> stats_client \<Rightarrow> bool" where
  "counter_ok n st \<longleftrightarrow> finite (dom (st_pending st)) \<and> 0 \<le> getd 0 (st_pending st) n \<and> getd 0 (st_pending st) n < 2 ^ 63 \<and>
     (case st_baseline st n of None \<Rightarrow> True | Some p \<Rightarrow> 0 \<le> p \<and> p < 2 ^ 63)"

lemma counter_growth_nonneg:
  "good_values stats \<Longrightarrow> 0 \<le> counter_growth n stats r"
proof (induction n stats r rule: counter_growth.induct)
  case (2 n m cur rest r)
  then show ?case by (auto simp: good_values_def split: option.splits)
qed simp

lemma add_pending_simps [simp]:
  "st_baseline (add_pending m d st) = st_baseline st"
  "finite (dom (st_pending (add_pending m d st))) = finite (dom (st_pending st))"
  "getd 0 (st_pending (add_pending m d st)) n = (if n = m then add64 (getd 0 (st_pending st) m) d else getd 0 (st_pending st) n)"
  by (simp_all add: add_pending_def)

lemma fold_stat_step:
  assumes "counter_ok n st" "0 \<le> cur" "cur < 2 ^ 63" "getd 0 (st_pending st) n + counter_growth n [(m, cur)] (st_baseline st n) < 2 ^ 63"
  shows "counter_ok n (fold_stat st (m, cur)) \<and>
    getd 0 (st_pending (fold_stat st (m, cur))) n = getd 0 (st_pending st) n + counter_growth n [(m, cur)] (st_baseline st n) \<and>
    st_baseline (fold_stat st (m, cur)) n = (if m = n then Some cur else st_baseline st n)"
proof (cases "st_baseline st m")
  case None
  then show ?thesis using assms by (auto simp: fold_stat_def counter_ok_def Let_def)
next
  case (Some prev)
  show ?thesis
  proof (cases "m = n")
    case False
    then show ?thesis using assms Some by (auto simp: fold_stat_def counter_ok_def Let_def)
  next
    case True
    then have p: "0 \<le> prev" "prev < 2 ^ 63" using assms(1) Some by (simp_all add: counter_ok_def)
    have d: "sub64 cur prev = cur - prev" using p assms(2,3) by (intro sub64_nonneg)
    note s = True Some d
    show ?thesis
    proof (cases "cur < prev")
      case True
      then have "getd 0 (st_pending st) n + cur < 2 ^ 63" using assms(4) s by simp
      then have "add64 (getd 0 (st_pending st) n) cur = getd 0 (st_pending st) n + cur"
        using assms(1,2) by (intro add64_nonneg) (simp_all add: counter_ok_def)
      then show ?thesis using assms s True by (auto simp: fold_stat_def counter_ok_def Let_def)
    next
      case False
      then have "getd 0 (st_pending st) n + (cur - prev) < 2 ^ 63" using assms(4) s by simp
      then have "add64 (getd 0 (st_pending st) n) (cur - prev) = getd 0 (st_pending st) n + (cur - prev)"
        using assms(1) False by (intro add64_nonneg) (simp_all add: counter_ok_def)
      then show ?thesis using assms s False by (auto simp: fold_stat_def counter_ok_def Let_def)
    qed
  qed
qed

lemma counter_growth_Cons: "counter_growth n ((m, cur) # rest) r =
    counter_growth n [(m, cur)] r + counter_growth n rest (if m = n then Some cur else r)"
  by simp

lemma stats_fold_step:
  assumes "counter_ok n st" "good_values stats" "getd 0 (st_pending st) n + counter_growth n stats (st_baseline st n) < 2 ^ 63"
  shows "counter_ok n (stats_fold stats st) \<and>
    getd 0 (st_pending (stats_fold stats st)) n = getd 0 (st_pending st) n + counter_growth n stats (st_baseline st n) \<and>
    st_baseline (stats_fold stats st) n = counter_last n stats (st_baseline st n)"
  using assms
proof (induction stats arbitrary: st)
  case Nil
  then show ?case by (simp add: stats_fold_def)
next
  case (Cons nv stats)
  obtain m cur where nv: "nv = (m, cur)" by fastforce
  from Cons.prems(2) have v: "0 \<le> cur" "cur < 2 ^ 63" and gs: "good_values stats" by (simp_all add: good_values_def nv)
  note gc = counter_growth_Cons [of n m cur stats "st_baseline st n"]
  let ?r = "if m = n then Some cur else st_baseline st n"
  have "0 \<le> counter_growth n stats ?r"
    by (rule counter_growth_nonneg [OF gs])
  with Cons.prems(3) gc have lt: "getd 0 (st_pending st) n + counter_growth n [(m, cur)] (st_baseline st n) < 2 ^ 63"
    unfolding nv by linarith
  note s = fold_stat_step [OF Cons.prems(1) v lt]
  have "getd 0 (st_pending (fold_stat st nv)) n + counter_growth n stats (st_baseline (fold_stat st nv) n) < 2 ^ 63"
    using s Cons.prems(3) gc unfolding nv by simp
  from Cons.IH [OF _ gs this] s gc show ?case
    unfolding nv by (simp add: stats_fold_def nv)
qed


section \<open>Taking\<close>

definition matches :: "string \<Rightarrow> string \<Rightarrow> bool" where
  "matches pre name \<longleftrightarrow> pre = [] \<or> HasPrefix name pre"

lemma stats_take_spec:
  assumes "distinct ks"
  shows "fst (stats_take ks pre consume st) n = (if n \<in> set ks \<and> matches pre n then st_pending st n else None)"
    "st_pending (snd (stats_take ks pre consume st)) n =
      (if consume \<and> n \<in> set ks \<and> matches pre n then None else st_pending st n)"
    "st_baseline (snd (stats_take ks pre consume st)) = st_baseline st"
proof -
  define f where "f = (\<lambda>(out :: string \<rightharpoonup> int64, st :: stats_client) name. if pre \<noteq> [] \<and> \<not> HasPrefix name pre then (out, st)
      else (out(name := st_pending st name), if consume then st\<lparr>st_pending := (st_pending st)(name := None)\<rparr> else st))"
  have f: "f (out, st) name = (if matches pre name then (out(name := st_pending st name),
      if consume then st\<lparr>st_pending := (st_pending st)(name := None)\<rparr> else st) else (out, st))" for out st name
    by (auto simp: f_def matches_def)
  have "fst (foldl f (out, st) ks) n = (if n \<in> set ks \<and> matches pre n then st_pending st n else out n) \<and>
      st_pending (snd (foldl f (out, st) ks)) n = (if consume \<and> n \<in> set ks \<and> matches pre n then None else st_pending st n) \<and>
      st_baseline (snd (foldl f (out, st) ks)) = st_baseline st" for out
    using assms
  proof (induction ks arbitrary: out st)
    case (Cons k ks)
    then have "k \<notin> set ks" "distinct ks" by simp_all
    then show ?case using Cons.IH by (simp add: f)
  qed simp
  from this [of Map.empty] show "fst (stats_take ks pre consume st) n = (if n \<in> set ks \<and> matches pre n then st_pending st n else None)"
    "st_pending (snd (stats_take ks pre consume st)) n =
      (if consume \<and> n \<in> set ks \<and> matches pre n then None else st_pending st n)"
    "st_baseline (snd (stats_take ks pre consume st)) = st_baseline st"
    by (simp_all add: stats_take_def f_def)
qed

lemma stats_take_finite: "finite (dom (st_pending st)) \<Longrightarrow> distinct ks \<Longrightarrow> finite (dom (st_pending (snd (stats_take ks pre consume st))))"
  by (rule finite_subset [of _ "dom (st_pending st)"]) (auto simp: stats_take_spec(2) split: if_splits)


section \<open>Polls as an exact meter\<close>

record poll_event =
  pe_range :: ranger
  pe_answer :: "string + (string \<times> int64) list"
  pe_request :: stat_request

definition poll_step :: "poll_event \<Rightarrow> stats_client \<Rightarrow> stats_client" where
  "poll_step e st = snd (sb_GetStats (pe_range e) (pe_answer e) (pe_request e) st)"

text \<open>What a poll bills for a counter: the value reported by a poll with reset.\<close>

definition poll_billed :: "string \<Rightarrow> poll_event \<Rightarrow> stats_client \<Rightarrow> int" where
  "poll_billed n e st =
     (case pe_answer e of
        Inl _ \<Rightarrow> 0
      | Inr stats \<Rightarrow>
          (if sr_Reset (pe_request e)
           then getd 0 (fst (stats_take (keys_of (pe_range e) 0 (st_pending (stats_fold stats st))) (stat_pattern (pe_request e))
                              True (stats_fold stats st))) n
           else 0))"

definition poll_growth :: "string \<Rightarrow> poll_event \<Rightarrow> int64 option \<Rightarrow> int" where
  "poll_growth n e r = (case pe_answer e of Inl _ \<Rightarrow> 0 | Inr stats \<Rightarrow> counter_growth n stats r)"

definition poll_last :: "string \<Rightarrow> poll_event \<Rightarrow> int64 option \<Rightarrow> int64 option" where
  "poll_last n e r = (case pe_answer e of Inl _ \<Rightarrow> r | Inr stats \<Rightarrow> counter_last n stats r)"

definition poll_legal :: "poll_event \<Rightarrow> bool" where
  "poll_legal e \<longleftrightarrow> range_order (pe_range e) \<and> (case pe_answer e of Inl _ \<Rightarrow> True | Inr stats \<Rightarrow> good_values stats)"

lemma poll_facts:
  assumes "poll_legal e" "counter_ok n st" "getd 0 (st_pending st) n + poll_growth n e (st_baseline st n) < 2 ^ 63"
  shows "counter_ok n (poll_step e st)" "st_baseline (poll_step e st) n = poll_last n e (st_baseline st n)"
    "poll_billed n e st + getd 0 (st_pending (poll_step e st)) n = getd 0 (st_pending st) n + poll_growth n e (st_baseline st n)"
    "0 \<le> poll_billed n e st"
proof -
  have "counter_ok n (poll_step e st) \<and> st_baseline (poll_step e st) n = poll_last n e (st_baseline st n) \<and>
    poll_billed n e st + getd 0 (st_pending (poll_step e st)) n = getd 0 (st_pending st) n + poll_growth n e (st_baseline st n) \<and>
    0 \<le> poll_billed n e st"
  proof (cases "pe_answer e")
    case (Inl err)
    then show ?thesis using assms(2) by (simp add: poll_step_def sb_GetStats_def collect_def poll_last_def poll_billed_def poll_growth_def)
  next
    case (Inr stats)
    then have rg: "range_order (pe_range e)" and gs: "good_values stats" using assms(1) by (simp_all add: poll_legal_def)
    define st1 where "st1 = stats_fold stats st"
    have g: "getd 0 (st_pending st) n + counter_growth n stats (st_baseline st n) < 2 ^ 63"
      using assms(3) Inr by (simp add: poll_growth_def)
    note s = stats_fold_step [OF assms(2) gs g, folded st1_def]
    have fin: "finite (dom (st_pending st1))" using s by (simp add: counter_ok_def)
    define ks where "ks = keys_of (pe_range e) 0 (st_pending st1)"
    have ks: "distinct ks" "set ks = dom (st_pending st1)" using distinct_keys_of [OF rg fin] set_keys_of [OF rg fin] by (simp_all add: ks_def)
    let ?pat = "stat_pattern (pe_request e)" and ?reset = "sr_Reset (pe_request e)"
    define st2 where "st2 = snd (stats_take ks ?pat ?reset st1)"
    have step: "poll_step e st = st2"
      by (simp add: poll_step_def sb_GetStats_def collect_def Inr st2_def ks_def st1_def split_beta)
    have billed: "poll_billed n e st = (if ?reset then getd 0 (fst (stats_take ks ?pat True st1)) n else 0)"
      by (simp add: poll_billed_def Inr ks_def st1_def)
    note take = stats_take_spec [OF ks(1)]
    have fin2: "finite (dom (st_pending st2))" unfolding st2_def by (rule stats_take_finite [OF fin ks(1)])
    have b2: "st_baseline st2 = st_baseline st1" by (simp add: st2_def take(3))
    have p2: "st_pending st2 n = (if ?reset \<and> n \<in> set ks \<and> matches ?pat n then None else st_pending st1 n)"
      by (simp add: st2_def take(2))
    have bill: "poll_billed n e st + getd 0 (st_pending st2) n = getd 0 (st_pending st1) n" "0 \<le> poll_billed n e st"
      using s by (auto simp: billed getd_def take(1) p2 counter_ok_def split: option.splits)
    have le: "0 \<le> getd 0 (st_pending st2) n" "getd 0 (st_pending st2) n < 2 ^ 63"
      using s by (auto simp: getd_def p2 counter_ok_def split: option.splits)
    show ?thesis
      using s b2 fin2 bill le Inr unfolding step counter_ok_def poll_last_def poll_growth_def by (auto split: option.splits)
  qed
  then show "counter_ok n (poll_step e st)" "st_baseline (poll_step e st) n = poll_last n e (st_baseline st n)"
    "poll_billed n e st + getd 0 (st_pending (poll_step e st)) n = getd 0 (st_pending st) n + poll_growth n e (st_baseline st n)"
    "0 \<le> poll_billed n e st" by blast+
qed

interpretation sbm: exact_meter poll_step "poll_billed n" "\<lambda>st. getd 0 (st_pending st) n" "\<lambda>st. st_baseline st n"
    "poll_growth n" "poll_last n" poll_legal "counter_ok n" "2 ^ 63" "\<lambda>_ _. True" for n
proof
  fix e :: poll_event and r
  show "poll_legal e \<Longrightarrow> 0 \<le> poll_growth n e r"
    by (simp add: poll_growth_def poll_legal_def counter_growth_nonneg split: sum.splits)
qed (use poll_facts in auto)

text \<open>
  C20: Over every sequence of polls, failed ones, filtered ones and ones without reset included, what
  the sing-box backend billed for a counter plus what it still holds is exactly the growth of the
  counter since its first reading: nothing is lost when another poll comes first, nothing is billed
  twice, a counter that starts again from zero is billed from zero, and a total found at the first
  reading is never billed.
\<close>

theorem singbox_bills_exactly:
  assumes "list_all poll_legal polls" "total_moved (poll_growth n) (poll_last n) polls None < 2 ^ 63"
  shows "total_billed poll_step (poll_billed n) polls newStatsClient + getd 0 (st_pending (run_ops poll_step polls newStatsClient)) n =
    total_moved (poll_growth n) (poll_last n) polls None"
proof -
  have 0: "counter_ok n newStatsClient" by (simp add: counter_ok_def newStatsClient_def)
  have "steady_run (\<lambda>_ _. True) (poll_last n) polls r" for r by (induction polls arbitrary: r) simp_all
  with sbm.conserved [OF assms(1) 0] assms(2) show ?thesis by (simp add: newStatsClient_def)
qed

definition demo_poll :: "int64 \<Rightarrow> bool \<Rightarrow> poll_event" where
  "demo_poll v reset = \<lparr>pe_range = sorted_ranger, pe_answer = Inr [(''user>>>a>>>traffic>>>uplink'', v)],
     pe_request = \<lparr>sr_Name = [], sr_Reset = reset, sr_Type = UsersStat\<rparr>\<rparr>"

theorem singbox_bills_exactly_witness:
  "total_billed poll_step (poll_billed ''user>>>a>>>traffic>>>uplink'') [demo_poll 100 True, demo_poll 130 False, demo_poll 20 True] newStatsClient +
     getd 0 (st_pending (run_ops poll_step [demo_poll 100 True, demo_poll 130 False, demo_poll 20 True] newStatsClient)) ''user>>>a>>>traffic>>>uplink'' = 50"
proof -
  let ?polls = "[demo_poll 100 True, demo_poll 130 False, demo_poll 20 True]"
  have "list_all poll_legal ?polls" by (simp add: poll_legal_def demo_poll_def good_values_def)
  moreover have "total_moved (poll_growth ''user>>>a>>>traffic>>>uplink'') (poll_last ''user>>>a>>>traffic>>>uplink'') ?polls None = 50"
    by (simp add: poll_growth_def poll_last_def demo_poll_def)
  ultimately show ?thesis using singbox_bills_exactly [of ?polls "''user>>>a>>>traffic>>>uplink''"] by simp
qed

end
