(* ===== verification/Singbox_Slots.thy ===== *)
theory Singbox_Slots
  imports Singbox_Billing
begin

text \<open>
  The slot table of the sing-box backend: a position, once given to a user, never names another one
  while the process lives; after a push every inbound holds exactly the users it should, each at its
  slot; and freed slots hold placeholders nobody can authenticate with.
\<close>

section \<open>Invariants\<close>

definition users_ok :: "'p singbox \<Rightarrow> bool" where
  "users_ok s \<longleftrightarrow> finite (dom (sb_users s)) \<and> [] \<notin> dom (sb_users s)"

definition slots_ok :: "string list \<Rightarrow> bool" where
  "slots_ok slots \<longleftrightarrow> distinct (filter (\<lambda>e. e \<noteq> []) slots)"

text \<open>What may happen to a table: it grows at the end, and a position keeps its user or is freed.\<close>

definition slots_grow :: "string list \<Rightarrow> string list \<Rightarrow> bool" where
  "slots_grow xs ys \<longleftrightarrow> length xs \<le> length ys \<and> (\<forall>i < length xs. ys ! i = xs ! i \<or> ys ! i = [])"

lemma slots_grow_refl [simp]: "slots_grow xs xs"
  by (simp add: slots_grow_def)

lemma slots_grow_trans: "slots_grow xs ys \<Longrightarrow> slots_grow ys zs \<Longrightarrow> slots_grow xs zs"
  unfolding slots_grow_def by (metis less_le_trans order_trans)

lemma append_users_eq: "distinct ks \<Longrightarrow> append_users ks don slots = slots @ filter (\<lambda>e. e \<notin> don) ks"
proof (induction ks arbitrary: don slots)
  case (Cons k ks)
  then have "k \<notin> set ks" by simp
  then have "filter (\<lambda>e. e \<notin> insert k don) ks = filter (\<lambda>e. e \<notin> don) ks" by (intro filter_cong) auto
  with Cons show ?case by simp
qed simp

lemma free_slots_nth: "i < length slots \<Longrightarrow> free_slots users slots ! i = slots ! i \<or> free_slots users slots ! i = []"
  by (simp add: free_slots_def)

lemma free_slots_kept: "filter (\<lambda>e. e \<noteq> []) (free_slots users slots) = filter (\<lambda>e. e \<noteq> [] \<and> users e \<noteq> None) slots"
  by (induction slots) (auto simp: free_slots_def)

lemma placed_free: "placed (free_slots users slots) = {e \<in> set slots. e \<noteq> [] \<and> users e \<noteq> None}"
proof -
  have "placed (free_slots users slots) = set (filter (\<lambda>e. e \<noteq> []) (free_slots users slots))" by (auto simp: placed_def)
  also have "\<dots> = set (filter (\<lambda>e. e \<noteq> [] \<and> users e \<noteq> None) slots)" unfolding free_slots_kept ..
  finally show ?thesis by simp
qed

lemma reconcile_facts:
  assumes "range_order rg" "users_ok s" "slots_ok (sb_slots s)"
  defines "s' \<equiv> reconcileSlotsLocked rg s"
  shows "slots_ok (sb_slots s')" "set (filter (\<lambda>e. e \<noteq> []) (sb_slots s')) = dom (sb_users s)"
    "slots_grow (sb_slots s) (sb_slots s')" "s' = s\<lparr>sb_slots := sb_slots s'\<rparr>"
proof -
  let ?u = "sb_users s" and ?ks = "keys_of rg 0 (sb_users s)" and ?f = "free_slots (sb_users s) (sb_slots s)"
  have fin: "finite (dom ?u)" and ne: "[] \<notin> dom ?u" using assms(2) by (simp_all add: users_ok_def)
  have ks: "distinct ?ks" "set ?ks = dom ?u" using distinct_keys_of [OF assms(1) fin] set_keys_of [OF assms(1) fin] by blast+
  have sl: "sb_slots s' = ?f @ filter (\<lambda>e. e \<notin> placed ?f) ?ks"
    by (simp add: s'_def reconcileSlotsLocked_def Let_def append_users_eq [OF ks(1)])
  have nonempty: "filter (\<lambda>e. e \<noteq> []) (filter (\<lambda>e. e \<notin> placed ?f) ?ks) = filter (\<lambda>e. e \<notin> placed ?f) ?ks"
    using ks(2) ne by (intro filter_True) auto
  have filt: "filter (\<lambda>e. e \<noteq> []) (sb_slots s') = filter (\<lambda>e. e \<noteq> [] \<and> ?u e \<noteq> None) (sb_slots s) @ filter (\<lambda>e. e \<notin> placed ?f) ?ks"
    unfolding sl filter_append free_slots_kept nonempty ..
  have "filter (\<lambda>e. e \<noteq> [] \<and> ?u e \<noteq> None) (sb_slots s) = filter (\<lambda>e. ?u e \<noteq> None) (filter (\<lambda>e. e \<noteq> []) (sb_slots s))"
    by (simp add: conj_commute)
  then have "distinct (filter (\<lambda>e. e \<noteq> [] \<and> ?u e \<noteq> None) (sb_slots s))"
    using distinct_filter [OF assms(3) [unfolded slots_ok_def], of "\<lambda>e. ?u e \<noteq> None"] by simp
  then show "slots_ok (sb_slots s')"
    unfolding slots_ok_def filt using ks(1) by (auto simp: placed_free)
  show "set (filter (\<lambda>e. e \<noteq> []) (sb_slots s')) = dom ?u"
    unfolding filt using ks(2) ne by (auto simp: placed_free)
  show "slots_grow (sb_slots s) (sb_slots s')"
    unfolding slots_grow_def sl using free_slots_nth [of _ "sb_slots s" ?u] by (auto simp: nth_append free_slots_def)
  show "s' = s\<lparr>sb_slots := sb_slots s'\<rparr>" by (simp add: s'_def reconcileSlotsLocked_def Let_def)
qed

lemma reconcile_keeps [simp]:
  "sb_process (reconcileSlotsLocked rg s) = sb_process s" "sb_client (reconcileSlotsLocked rg s) = sb_client s"
  "sb_config (reconcileSlotsLocked rg s) = sb_config s" "sb_users (reconcileSlotsLocked rg s) = sb_users s"
  by (simp_all add: reconcileSlotsLocked_def Let_def)

lemma pushUsers_slots: "sb_slots (snd (pushUsers E nonce refused rg s)) = sb_slots (reconcileSlotsLocked rg s)"
    "sb_users (snd (pushUsers E nonce refused rg s)) = sb_users s"
    "sb_config (snd (pushUsers E nonce refused rg s)) = sb_config s"
  by (auto simp: pushUsers_def reconcileSlotsLocked_def Let_def split: option.split prod.split)

lemma credentials_email: "sb_credentials cfg u = Some (email, cr) \<Longrightarrow> email \<noteq> []"
  by (auto simp: sb_credentials_def Let_def split: if_splits)

definition umap_ok :: "(string \<rightharpoonup> user_creds) \<Rightarrow> bool" where
  "umap_ok m \<longleftrightarrow> finite (dom m) \<and> [] \<notin> dom m"

lemma umap_ok_simps [simp]:
  "umap_ok Map.empty" "umap_ok m \<Longrightarrow> umap_ok (m(k := None))" "umap_ok m \<Longrightarrow> k \<noteq> [] \<Longrightarrow> umap_ok (m(k \<mapsto> v))"
  by (auto simp: umap_ok_def)

lemma merge_into_ok: "umap_ok m \<Longrightarrow> umap_ok (merge_into cfg us m)"
proof (induction us arbitrary: m)
  case (Cons u us)
  show ?case
  proof (cases "sb_credentials cfg u")
    case (Some ec)
    then obtain email cr where ec: "sb_credentials cfg u = Some (email, cr)" by (cases ec) auto
    have "umap_ok (m(email \<mapsto> cr))" using Cons.prems credentials_email [OF ec] by (auto simp: umap_ok_def)
    from Cons.IH [OF this] Cons.IH [OF Cons.prems] show ?thesis
      unfolding merge_into.simps users_map.simps ec option.case prod.case by (cases "u = None") (simp_all only: if_True if_False simp_thms)
  next
    case None
    from Cons.IH [OF umap_ok_simps(2) [OF Cons.prems]] Cons.IH [OF Cons.prems] show ?thesis
      unfolding merge_into.simps None option.case by (cases "u = None") (simp_all only: if_True if_False simp_thms)
  qed
qed simp

lemma users_map_ok: "umap_ok m \<Longrightarrow> umap_ok (users_map cfg us m)"
proof (induction us arbitrary: m)
  case (Cons u us)
  show ?case
  proof (cases "sb_credentials cfg u")
    case (Some ec)
    then obtain email cr where ec: "sb_credentials cfg u = Some (email, cr)" by (cases ec) auto
    have "umap_ok (m(email \<mapsto> cr))" using Cons.prems credentials_email [OF ec] by (auto simp: umap_ok_def)
    from Cons.IH [OF this] Cons.IH [OF Cons.prems] show ?thesis
      unfolding merge_into.simps users_map.simps ec option.case prod.case by (cases "u = None") (simp_all only: if_True if_False simp_thms)
  qed (use Cons in simp)
qed simp


section \<open>Slots never change hands\<close>

text \<open>Everything that changes users or pushes them, short of starting the process anew.\<close>

datatype user_call = CallSyncUser user | CallSyncUsers "user list" | CallUpdateUsers "user list" | CallTimer

fun user_step :: "'p clash_env \<Rightarrow> string \<Rightarrow> string \<Rightarrow> ranger \<Rightarrow> user_call \<Rightarrow> 'p singbox \<Rightarrow> 'p singbox" where
  "user_step E nonce refused rg (CallSyncUser u) s = snd (sb_SyncUser u s)"
| "user_step E nonce refused rg (CallSyncUsers us) s = snd (sb_SyncUsers E nonce refused rg us s)"
| "user_step E nonce refused rg (CallUpdateUsers us) s = snd (sb_UpdateUsers E nonce refused rg us s)"
| "user_step E nonce refused rg CallTimer s = timer_push E nonce refused rg s"

definition user_run :: "'p clash_env \<Rightarrow> string \<Rightarrow> string \<Rightarrow> (ranger \<times> user_call) list \<Rightarrow> 'p singbox \<Rightarrow> 'p singbox" where
  "user_run E nonce refused calls s = foldl (\<lambda>s (rg, call). user_step E nonce refused rg call s) s calls"

definition sb_ok :: "'p singbox \<Rightarrow> bool" where
  "sb_ok s \<longleftrightarrow> users_ok s \<and> slots_ok (sb_slots s)"

lemma push_step:
  assumes "range_order rg" "sb_ok s"
  shows "sb_ok (snd (pushUsers E nonce refused rg s)) \<and> slots_grow (sb_slots s) (sb_slots (snd (pushUsers E nonce refused rg s)))"
  using reconcile_facts [OF assms(1), of s] assms(2) by (simp add: sb_ok_def users_ok_def pushUsers_slots)

lemma user_step_ok:
  assumes "range_order rg" "sb_ok s"
  shows "sb_ok (user_step E nonce refused rg call s) \<and> slots_grow (sb_slots s) (sb_slots (user_step E nonce refused rg call s))"
proof (cases call)
  case (CallSyncUser u)
  show ?thesis
    using assms(2) credentials_email [of "sb_config s" u]
    by (auto simp: CallSyncUser sb_SyncUser_def sb_ok_def users_ok_def pushSoon_def Let_def split: option.split)
next
  case (CallSyncUsers us)
  have "sb_ok (s\<lparr>sb_users := users_map (sb_config s) us Map.empty, sb_pushTimer := False\<rparr>)"
    using assms(2) users_map_ok [of Map.empty "sb_config s" us] by (simp add: sb_ok_def users_ok_def umap_ok_def)
  from push_step [OF assms(1) this] show ?thesis by (simp add: CallSyncUsers sb_SyncUsers_def replaceUsers_def)
next
  case (CallUpdateUsers us)
  have "sb_ok (s\<lparr>sb_users := merge_into (sb_config s) us (sb_users s), sb_pushTimer := False\<rparr>)"
    using assms(2) merge_into_ok [of "sb_users s" "sb_config s" us] by (simp add: sb_ok_def users_ok_def umap_ok_def)
  from push_step [OF assms(1) this] show ?thesis by (simp add: CallUpdateUsers sb_UpdateUsers_def mergeUsers_def)
next
  case CallTimer
  have "sb_ok (s\<lparr>sb_pushTimer := False\<rparr>)" using assms(2) by (simp add: sb_ok_def users_ok_def)
  from push_step [OF assms(1) this] assms(2) show ?thesis by (simp add: CallTimer timer_push_def)
qed

text \<open>
  C18: Whatever users come, go, change or come back, in single calls, partial and full updates and
  delayed pushes, as long as the process lives a position in the list sing-box authenticates by
  belongs to the user it was first given to or to nobody: it is never handed to another user, not even
  after it was freed, so a live session is never billed to somebody else. No user ever has two positions.
\<close>

theorem slots_never_change_hands:
  assumes "list_all (\<lambda>(rg, _). range_order rg) calls" "sb_ok s" "user_run E nonce refused calls s = s'"
  shows "length (sb_slots s) \<le> length (sb_slots s') \<and>
    (\<forall>i < length (sb_slots s). sb_slots s' ! i = sb_slots s ! i \<or> sb_slots s' ! i = []) \<and> slots_ok (sb_slots s')"
proof -
  have "sb_ok s \<Longrightarrow> list_all (\<lambda>(rg, _). range_order rg) calls \<Longrightarrow>
      sb_ok (user_run E nonce refused calls s) \<and> slots_grow (sb_slots s) (sb_slots (user_run E nonce refused calls s))" for s
  proof (induction calls arbitrary: s)
    case (Cons c calls)
    obtain rg call where c: "c = (rg, call)" by fastforce
    with Cons.prems have "range_order rg" by simp
    note u = user_step_ok [OF this Cons.prems(1), of E nonce refused call]
    from Cons.IH [of "user_step E nonce refused rg call s"] Cons.prems(2) u show ?case
      by (auto simp: c user_run_def intro: slots_grow_trans)
  qed (simp add: user_run_def)
  from this [OF assms(2,1)] show ?thesis by (simp add: assms(3) slots_grow_def sb_ok_def)
qed

text \<open>A process that keeps the list of every inbound, addressed by its URL.\<close>

definition demo_clash :: "(string \<Rightarrow> clash_user list) clash_env" where
  "demo_clash = \<lparr>ce_badURL = (\<lambda>_. None), ce_get = (\<lambda>_ _ _. HttpStatus 200 []),
     ce_put = (\<lambda>url _ us p. (HttpStatus 200 [], p(url := us)))\<rparr>"

definition demo_sb_config :: sb_config where
  "demo_sb_config = \<lparr>sc_raw = [], sc_clashAPIAddress = ''127.0.0.1:1'', sc_clashAPISecret = [], sc_statsAddress = [],
     sc_inbounds = [(''hy'', credHysteria2), (''vl'', credVLESS)]\<rparr>"

definition demo_sb :: "(string \<Rightarrow> clash_user list) singbox" where
  "demo_sb = (fresh_singbox demo_sb_config [])\<lparr>sb_users := [''b'' \<mapsto> no_creds\<lparr>uc_hysteria2 := ''pw''\<rparr>],
     sb_slots := [''a'', ''b''], sb_process := Some (\<lambda>_. []), sb_started := True\<rparr>"

theorem slots_never_change_hands_witness:
  "\<exists>s'. user_run demo_clash ''n'' ''x'' [(sorted_ranger, CallTimer), (sorted_ranger, CallSyncUsers [])] demo_sb = s' \<and>
     2 \<le> length (sb_slots s') \<and> (sb_slots s' ! 0 = ''a'' \<or> sb_slots s' ! 0 = [])"
proof -
  let ?calls = "[(sorted_ranger, CallTimer), (sorted_ranger, CallSyncUsers [])]"
  have "sb_ok demo_sb" by (simp add: sb_ok_def users_ok_def slots_ok_def demo_sb_def)
  from slots_never_change_hands [OF _ this, of ?calls demo_clash "''n''" "''x''"]
  show ?thesis by (auto simp: demo_sb_def)
qed


section \<open>What a push delivers\<close>

definition inbound_url :: "'p singbox \<Rightarrow> string \<Rightarrow> string" where
  "inbound_url s tag = cc_base (sb_client s) @ ''/inbounds/'' @ tag @ ''/users''"

text \<open>
  What the patched sing-box promises: a PUT that it answers with 200 replaces the user list of that
  inbound and of no other.
\<close>

definition put_law :: "'p clash_env \<Rightarrow> ('p \<Rightarrow> string \<Rightarrow> clash_user list) \<Rightarrow> bool" where
  "put_law E view \<longleftrightarrow> (\<forall>url auth us p body p'. ce_put E url auth us p = (HttpStatus 200 body, p') \<longrightarrow> view p' = (view p)(url := us))"

lemma clash_replaceUsers_None:
  assumes "put_law E view" "clash_replaceUsers E cl tag us p = (None, p')"
  shows "view p' = (view p)(cc_base cl @ ''/inbounds/'' @ tag @ ''/users'' := us)"
  using assms by (auto simp: clash_replaceUsers_def put_law_def Let_def split: option.splits prod.splits http_outcome.splits if_splits)

lemma push_inbounds_failures: "\<exists>more. fst (push_inbounds E cl payloads ins fs p) = fs @ more"
proof (induction ins arbitrary: fs p)
  case (Cons i ins)
  obtain tag kind where i: "i = (tag, kind)" by fastforce
  obtain e p' where r: "clash_replaceUsers E cl tag (payloads kind) p = (e, p')" by fastforce
  show ?case using Cons.IH [of "fs @ [tag @ '': '' @ the e]" p'] Cons.IH [of fs p'] by (cases e) (auto simp: i r)
qed simp

lemma push_inbounds_delivers:
  assumes "put_law E view" "distinct (map fst ins)" "push_inbounds E cl payloads ins [] p = ([], p')"
  shows "\<forall>(tag, kind) \<in> set ins. view p' (cc_base cl @ ''/inbounds/'' @ tag @ ''/users'') = payloads kind"
proof -
  have "distinct (map fst ins) \<Longrightarrow> push_inbounds E cl payloads ins [] p = ([], p') \<Longrightarrow>
      (\<forall>(tag, kind) \<in> set ins. view p' (cc_base cl @ ''/inbounds/'' @ tag @ ''/users'') = payloads kind) \<and>
      (\<forall>tag. tag \<notin> fst ` set ins \<longrightarrow> view p' (cc_base cl @ ''/inbounds/'' @ tag @ ''/users'') = view p (cc_base cl @ ''/inbounds/'' @ tag @ ''/users''))" for p
  proof (induction ins arbitrary: p)
    case (Cons i ins)
    obtain tag kind where i: "i = (tag, kind)" by fastforce
    obtain e p1 where r: "clash_replaceUsers E cl tag (payloads kind) p = (e, p1)" by fastforce
    have e: "e = None"
    proof (rule ccontr)
      assume "e \<noteq> None"
      then obtain x where "e = Some x" by auto
      with Cons.prems(2) push_inbounds_failures [of E cl payloads ins "[tag @ '': '' @ x]" p1] show False by (auto simp: i r)
    qed
    then have "push_inbounds E cl payloads ins [] p1 = ([], p')" using Cons.prems(2) by (simp add: i r)
    with Cons have ih: "(\<forall>(tag, kind) \<in> set ins. view p' (cc_base cl @ ''/inbounds/'' @ tag @ ''/users'') = payloads kind)"
      "(\<forall>tag. tag \<notin> fst ` set ins \<longrightarrow> view p' (cc_base cl @ ''/inbounds/'' @ tag @ ''/users'') = view p1 (cc_base cl @ ''/inbounds/'' @ tag @ ''/users''))"
      by auto
    have tag: "tag \<notin> fst ` set ins" using Cons.prems(1) by (simp add: i)
    from clash_replaceUsers_None [OF assms(1)] r e have v: "view p1 = (view p)(cc_base cl @ ''/inbounds/'' @ tag @ ''/users'' := payloads kind)" by blast
    show ?case using ih tag by (auto simp: i v)
  qed simp
  with assms(2,3) show ?thesis by blast
qed

lemma payload_nth: "i < length (sb_slots s) \<Longrightarrow> payloadForLocked nonce s kind ! i = slot_entry nonce (sb_users s) kind i (sb_slots s ! i)"
  and payload_length: "length (payloadForLocked nonce s kind) = length (sb_slots s)"
  by (simp_all add: payloadForLocked_def nth_enumerate_eq)

lemma slot_of_user:
  assumes "slots_ok slots" "e \<in> set (filter (\<lambda>e. e \<noteq> []) slots)"
  shows "\<exists>!i. i < length slots \<and> slots ! i = e"
proof -
  from assms(2) obtain i where i: "i < length slots" "slots ! i = e" by (auto simp: in_set_conv_nth)
  have "j = i" if j: "j < length slots" "slots ! j = e" for j
  proof (rule ccontr)
    assume ne: "j \<noteq> i"
    have e: "e \<noteq> []" using assms(2) by auto
    have "\<not> distinct (filter (\<lambda>e. e \<noteq> []) slots)" if "a < b" "b < length slots" "slots ! a = e" "slots ! b = e" for a b
    proof -
      have "e \<in> set (take (Suc a) slots)" using that by (simp add: in_set_conv_nth) (metis lessI less_trans_Suc min_less_iff_conj nth_take)
      moreover have "e \<in> set (drop (Suc a) slots)" using that nth_mem [of "b - Suc a" "drop (Suc a) slots"] by simp
      ultimately have "e \<in> set (filter (\<lambda>e. e \<noteq> []) (take (Suc a) slots)) \<inter> set (filter (\<lambda>e. e \<noteq> []) (drop (Suc a) slots))"
        using e by simp
      then have "\<not> distinct (filter (\<lambda>e. e \<noteq> []) (take (Suc a) slots @ drop (Suc a) slots))"
        unfolding filter_append distinct_append by blast
      then show ?thesis by simp
    qed
    with i j ne assms(1) show False unfolding slots_ok_def by (metis nat_neq_iff)
  qed
  with i show ?thesis by blast
qed

text \<open>
  C19: A push that succeeds leaves every managed inbound with a list laid out over the same slots: a
  user with a secret for the protocol of the inbound is at exactly one position, with that secret and
  under the own name; every other position, freed or of a user without such a secret, holds a
  placeholder. So each inbound admits exactly the users the panel described, and an index means the
  same user on every inbound.
\<close>

theorem push_delivers_users:
  assumes "put_law E view" "range_order rg" "sb_ok s" "distinct (map fst (sc_inbounds (sb_config s)))"
    and "sb_process s = Some p" "pushUsers E nonce refused rg s = (None, s')"
    and "(tag, kind) \<in> set (sc_inbounds (sb_config s))"
  shows "\<exists>p' l. sb_process s' = Some p' \<and> view p' (inbound_url s tag) = l \<and> length l = length (sb_slots s') \<and>
    (\<forall>email cr. sb_users s email = Some cr \<and> creds_secret kind cr \<noteq> [] \<longrightarrow>
       (\<exists>!i. i < length l \<and> sb_slots s' ! i = email) \<and>
       (\<exists>i < length l. sb_slots s' ! i = email \<and> l ! i = newClashUser email kind (creds_secret kind cr))) \<and>
    (\<forall>i < length l. (\<exists>cr. sb_users s (sb_slots s' ! i) = Some cr \<and> creds_secret kind cr \<noteq> [] \<and> l ! i = newClashUser (sb_slots s' ! i) kind (creds_secret kind cr)) \<or>
       (\<forall>cr. sb_users s (sb_slots s' ! i) = Some cr \<longrightarrow> creds_secret kind cr = []) \<and> l ! i = newClashUser freeSlotName kind (freeSlotSecret nonce kind i))"
proof -
  define r where "r = reconcileSlotsLocked rg s"
  note rec = reconcile_facts [OF assms(2), of s, folded r_def]
  have ok: "users_ok s" "slots_ok (sb_slots s)" using assms(3) by (simp_all add: sb_ok_def)
  have r: "sb_process r = Some p" "sb_client r = sb_client s" "sb_config r = sb_config s" "sb_users r = sb_users s"
    using assms(5) by (simp_all add: r_def)
  obtain fs p' where pi: "push_inbounds E (sb_client s) (payloadForLocked nonce r) (sc_inbounds (sb_config s)) [] p = (fs, p')" by fastforce
  have fs: "fs = []" and s': "s' = r\<lparr>sb_process := Some p'\<rparr>"
    using assms(6) r pi by (auto simp: pushUsers_def Let_def r_def [symmetric] split: if_splits)
  let ?l = "payloadForLocked nonce r kind"
  have view: "view p' (inbound_url s tag) = ?l"
    using push_inbounds_delivers [OF assms(1,4) pi [unfolded fs]] assms(7) by (auto simp: inbound_url_def)
  have nth: "i < length (sb_slots r) \<Longrightarrow> ?l ! i = slot_entry nonce (sb_users s) kind i (sb_slots r ! i)" for i
    by (simp add: payload_nth r)
  have served: "(\<exists>!i. i < length ?l \<and> sb_slots r ! i = email) \<and>
      (\<exists>i < length ?l. sb_slots r ! i = email \<and> ?l ! i = newClashUser email kind (creds_secret kind cr))"
    if u: "sb_users s email = Some cr" "creds_secret kind cr \<noteq> []" for email cr
  proof -
    have mem: "email \<in> set (filter (\<lambda>e. e \<noteq> []) (sb_slots r))" unfolding rec(2) [OF ok] using u(1) by blast
    from slot_of_user [OF rec(1) [OF ok] mem] have ex: "\<exists>!i. i < length ?l \<and> sb_slots r ! i = email" by (simp add: payload_length)
    then obtain i where i: "i < length (sb_slots r)" "sb_slots r ! i = email" by (auto simp: payload_length)
    have "email \<noteq> []" using mem by simp
    then have "?l ! i = newClashUser email kind (creds_secret kind cr)" using nth [OF i(1)] i(2) u by (simp add: slot_entry_def Let_def)
    with ex i show ?thesis by (auto simp: payload_length)
  qed
  have entries: "(\<exists>cr. sb_users s (sb_slots r ! i) = Some cr \<and> creds_secret kind cr \<noteq> [] \<and> ?l ! i = newClashUser (sb_slots r ! i) kind (creds_secret kind cr)) \<or>
       (\<forall>cr. sb_users s (sb_slots r ! i) = Some cr \<longrightarrow> creds_secret kind cr = []) \<and> ?l ! i = newClashUser freeSlotName kind (freeSlotSecret nonce kind i)" if i: "i < length ?l" for i
  proof -
    have "creds_secret kind no_creds = []" by (cases kind) (simp_all add: creds_secret_def no_creds_def)
    moreover have "sb_users s [] = None" using ok(1) by (auto simp: users_ok_def)
    ultimately show ?thesis using nth [of i] i
      by (cases "sb_users s (sb_slots r ! i)") (auto simp: payload_length slot_entry_def Let_def getd_def)
  qed
  have "sb_process s' = Some p'" "sb_slots s' = sb_slots r" by (simp_all add: s')
  then show ?thesis using view served entries payload_length [of nonce r kind]
    by (intro exI [of _ p'] exI [of _ ?l]) (simp only: simp_thms, blast)
qed

theorem push_delivers_users_witness:
  "\<exists>s' p'. pushUsers demo_clash ''n'' ''x'' sorted_ranger demo_sb = (None, s') \<and> sb_process s' = Some p' \<and>
     length (p' (inbound_url demo_sb ''hy'')) = length (sb_slots s')"
proof -
  obtain e s' where push: "pushUsers demo_clash ''n'' ''x'' sorted_ranger demo_sb = (e, s')" by fastforce
  have e: "e = None" using push
    by (auto simp: pushUsers_def reconcileSlotsLocked_def demo_sb_def fresh_singbox_def demo_sb_config_def demo_clash_def clash_replaceUsers_def Let_def)
  have law: "put_law demo_clash (\<lambda>p. p)" by (simp add: put_law_def demo_clash_def)
  have ok: "sb_ok demo_sb" by (simp add: sb_ok_def users_ok_def slots_ok_def demo_sb_def)
  have cfg: "sc_inbounds (sb_config demo_sb) = [(''hy'', credHysteria2), (''vl'', credVLESS)]"
    by (simp add: demo_sb_def fresh_singbox_def demo_sb_config_def)
  have p: "sb_process demo_sb = Some (\<lambda>_. [])" by (simp add: demo_sb_def)
  from push_delivers_users [OF law range_order_sorted ok _ p push [unfolded e], of "''hy''" credHysteria2] push e
  show ?thesis by (auto simp: cfg)
qed

end
