(* ===== verification/Singbox_Supervisor.thy ===== *)
theory Singbox_Supervisor
  imports Singbox_Slots
begin

text \<open>
  The life of the sing-box process: the supervisor brings a core that died back however often the
  attempts fail, a shutdown stays a shutdown, the flags agree with what exists in every interleaving,
  and the placeholders of empty slots are secrets sing-box accepts.
\<close>

section \<open>Reachable states\<close>

text \<open>
  A backend object from its constructor on, whether that succeeded or not, under every interleaving of
  process exits, supervisor steps, shutdowns, restarts and user calls.
\<close>

inductive sb_reach :: "'p clash_env \<Rightarrow> string \<Rightarrow> string \<Rightarrow> 'p singbox \<Rightarrow> bool" for E nonce refused where
  reach_new: "sb_reach E nonce refused (snd (sb_New E nonce refused rg at cfg users))"
| reach_exit: "sb_reach E nonce refused s \<Longrightarrow> sb_process s \<noteq> None \<Longrightarrow> sb_reach E nonce refused (proc_exits s)"
| reach_sup: "sb_reach E nonce refused s \<Longrightarrow> sb_reach E nonce refused (sup_step E nonce refused rg elapsed at s)"
| reach_shutdown: "sb_reach E nonce refused s \<Longrightarrow> sb_reach E nonce refused (sb_Shutdown s)"
| reach_restart: "sb_reach E nonce refused s \<Longrightarrow> sb_reach E nonce refused (snd (sb_Restart E nonce refused rg at s))"
| reach_user: "sb_reach E nonce refused s \<Longrightarrow> sb_reach E nonce refused (user_step E nonce refused rg call s)"

fun sup_delay :: "sup option \<Rightarrow> nat option" where
  "sup_delay (Some (Looping delay)) = Some delay"
| "sup_delay (Some (Sleeping delay _)) = Some delay"
| "sup_delay (Some (Starting delay)) = Some delay"
| "sup_delay _ = None"

definition delay_ok :: "sup option \<Rightarrow> bool" where
  "delay_ok at \<longleftrightarrow> (case sup_delay at of Some delay \<Rightarrow> 2 \<le> delay \<and> delay \<le> 60 | None \<Rightarrow> True)"

definition life_inv :: "'p singbox \<Rightarrow> bool" where
  "life_inv s \<longleftrightarrow> (sb_supervising s \<longleftrightarrow> sb_sup s \<noteq> None) \<and> (sb_started s \<longrightarrow> sb_process s \<noteq> None) \<and> delay_ok (sb_sup s)"

named_theorems life_simps

lemma delay_ok_simps [life_simps]:
  "delay_ok None" "delay_ok (Some Pushing)" "delay_ok (Some (Looping d)) \<longleftrightarrow> 2 \<le> d \<and> d \<le> 60"
  "delay_ok (Some (Sleeping d c)) \<longleftrightarrow> 2 \<le> d \<and> d \<le> 60" "delay_ok (Some (Starting d)) \<longleftrightarrow> 2 \<le> d \<and> d \<le> 60"
  by (simp_all add: delay_ok_def)

lemma backoff_bounds: "2 \<le> d \<Longrightarrow> d \<le> 60 \<Longrightarrow> 2 \<le> backoff d \<and> backoff d \<le> 60"
  by (simp add: backoff_def)

lemma pushUsers_life [life_simps]:
  "sb_started (snd (pushUsers E nonce refused rg s)) = sb_started s"
  "sb_stopping (snd (pushUsers E nonce refused rg s)) = sb_stopping s"
  "sb_supervising (snd (pushUsers E nonce refused rg s)) = sb_supervising s"
  "sb_sup (snd (pushUsers E nonce refused rg s)) = sb_sup s"
  "sb_process (snd (pushUsers E nonce refused rg s)) = None \<longleftrightarrow> sb_process s = None"
  by (auto simp: pushUsers_def reconcileSlotsLocked_def Let_def split: option.split prod.split)

lemma inv_push: "life_inv (snd (pushUsers E nonce refused rg s)) = life_inv s"
  by (simp add: life_inv_def life_simps)

lemma inv_exit: "life_inv s \<Longrightarrow> life_inv (proc_exits s)"
  by (auto simp: life_inv_def proc_exits_def Let_def life_simps)

lemma inv_stats: "life_inv (s\<lparr>sb_stats := st\<rparr>) = life_inv s"
  by (simp add: life_inv_def)

lemma inv_teardown: "life_inv s \<Longrightarrow> life_inv (teardown s)"
proof -
  assume "life_inv s"
  then have *: "life_inv (s\<lparr>sb_started := False, sb_pushTimer := False\<rparr>)" by (simp add: life_inv_def)
  with inv_exit [OF *] show ?thesis by (auto simp: teardown_def Let_def inv_stats)
qed

lemma inv_start: "life_inv s \<Longrightarrow> life_inv (snd (sb_start at s))"
  by (auto simp: sb_start_def Let_def split: option.split intro!: inv_teardown) (auto simp: life_inv_def)

lemma inv_shutdown: "life_inv s \<Longrightarrow> life_inv (sb_Shutdown s)"
  unfolding sb_Shutdown_def
  by (intro inv_teardown) (auto simp: life_inv_def close_pushStop_def life_simps split: option.split sup.split stop_chan.split)

lemma inv_restart:
  assumes "life_inv s"
  shows "life_inv (snd (sb_Restart E nonce refused rg at s))"
proof -
  have "life_inv ((sb_Shutdown s)\<lparr>sb_pushStop := True\<rparr>)" using inv_shutdown [OF assms] by (simp add: life_inv_def)
  moreover obtain e s' where st: "sb_start at ((sb_Shutdown s)\<lparr>sb_pushStop := True\<rparr>) = (e, s')" by fastforce
  ultimately have "life_inv s'" using inv_start [of _ at] by (metis snd_conv)
  then show ?thesis by (cases e) (simp_all add: sb_Restart_def Let_def st inv_push)
qed

lemma inv_user: "life_inv s \<Longrightarrow> life_inv (user_step E nonce refused rg call s)"
  by (cases call)
    (auto simp: sb_SyncUser_def sb_SyncUsers_def sb_UpdateUsers_def replaceUsers_def mergeUsers_def timer_push_def pushSoon_def Let_def inv_push
       split: option.split, auto simp: life_inv_def)

lemma inv_new:
  fixes E :: "'p clash_env"
  shows "life_inv (snd (sb_New E nonce refused rg at cfg users))"
proof -
  obtain e s where st: "sb_start at (fresh_singbox cfg users) = (e, s)" by fastforce
  obtain e' s' where push: "pushUsers E nonce refused rg s = (e', s')" by fastforce
  have "life_inv (fresh_singbox cfg users :: 'p singbox)" by (simp add: life_inv_def fresh_singbox_def life_simps)
  from inv_start [OF this, of at] have s: "life_inv s" by (simp add: st)
  then have s': "life_inv s'" using inv_push [of E nonce refused rg s] by (simp add: push)
  show ?thesis by (cases e; cases e') (simp_all add: sb_New_def st push s s' inv_shutdown)
qed

lemma inv_sup_start:
  assumes "life_inv s" "sb_sup s = Some (Starting delay)"
  shows "life_inv (sup_step E nonce refused rg elapsed at s)"
proof -
  obtain e s' where st: "sb_start at s = (e, s')" by fastforce
  have "life_inv s'" using inv_start [OF assms(1), of at] by (simp add: st)
  moreover have "sb_supervising s'" 
    using assms st by (auto simp: life_inv_def sb_start_def teardown_def proc_exits_def Let_def split: option.splits if_splits)
  ultimately show ?thesis
    using assms backoff_bounds [of delay] by (cases e) (auto simp: st life_inv_def life_simps)
qed

lemma inv_sup: 
  assumes "life_inv s"
  shows "life_inv (sup_step E nonce refused rg elapsed at s)"
proof (cases "sb_sup s")
  case (Some p)
  show ?thesis
  proof (cases p)
    case Pushing
    then show ?thesis using assms Some by (simp add: sup_leaves_def life_inv_def life_simps)
  next
    case (Starting d)
    with assms Some show ?thesis using inv_sup_start by blast
  qed (use assms Some in \<open>auto simp: life_inv_def sup_leaves_def life_simps\<close>)
qed (use assms in simp)

lemma reach_inv: "sb_reach E nonce refused s \<Longrightarrow> life_inv s"
  by (induction rule: sb_reach.induct)
    (auto intro: inv_new inv_exit inv_sup inv_shutdown inv_restart inv_user simp del: sup_step.simps)

text \<open>
  However process exits, restart attempts, shutdowns, restarts and user calls interleave on a
  sing-box backend, from its constructor on: the flag that keeps a second supervisor from starting is
  set exactly while one exists, a core is reported started only while it has a process, and the
  supervisor never waits less than two seconds or more than a minute between attempts.
\<close>

lemma singbox_life_bounds:
  assumes "sb_reach E nonce refused s"
  shows "(sb_supervising s \<longleftrightarrow> sb_sup s \<noteq> None) \<and> (sb_started s \<longrightarrow> sb_process s \<noteq> None) \<and>
    (case sup_delay (sb_sup s) of Some delay \<Rightarrow> 2 \<le> delay \<and> delay \<le> 60 | None \<Rightarrow> True)"
  using reach_inv [OF assms] unfolding life_inv_def delay_ok_def by blast

text \<open>An attempt that comes up at once, and one whose process never answers.\<close>

definition good_attempt :: "(string \<Rightarrow> clash_user list) attempt" where
  "good_attempt = \<lparr>at_prep = None, at_process = (\<lambda>_. []), at_polls = [Ping True], at_version = None, at_now = 7\<rparr>"

definition bad_attempt :: "(string \<Rightarrow> clash_user list) attempt" where
  "bad_attempt = good_attempt\<lparr>at_polls := [Ping False, ProcDone]\<rparr>"

lemma singbox_life_bounds_witness:
  "\<exists>s. sb_reach demo_clash ''n'' ''x'' s \<and> sb_supervising s \<and> sb_sup s \<noteq> None \<and> \<not> sb_started s"
proof -
  let ?s = "snd (sb_New demo_clash ''n'' ''x'' sorted_ranger bad_attempt demo_sb_config [])"
  have r: "sb_reach demo_clash ''n'' ''x'' ?s" by (rule reach_new)
  have "sb_supervising ?s" "\<not> sb_started ?s"
    by (simp_all add: sb_New_def sb_start_def bad_attempt_def good_attempt_def teardown_def proc_exits_def fresh_singbox_def Let_def)
  with singbox_life_bounds [OF r] r show ?thesis by blast
qed


section \<open>Recovery\<close>

definition attempt_fails :: "'p attempt \<Rightarrow> bool" where
  "attempt_fails at \<longleftrightarrow> at_prep at \<noteq> None \<or> waitReady (at_polls at) \<noteq> None"

text \<open>One turn of the loop of \<^verbatim>\<open>superviseRestart\<close>, undisturbed: head, sleep, start.\<close>

definition sup_round :: "'p clash_env \<Rightarrow> string \<Rightarrow> string \<Rightarrow> ranger \<Rightarrow> 'p singbox \<Rightarrow> 'p attempt \<Rightarrow> 'p singbox" where
  "sup_round E nonce refused rg s at = ((sup_step E nonce refused rg True at) ^^ 3) s"

text \<open>A dead core at the head of the loop of its supervisor.\<close>

definition waits :: "nat \<Rightarrow> 'p singbox \<Rightarrow> bool" where
  "waits delay s \<longleftrightarrow> sb_sup s = Some (Looping delay) \<and> sb_supervising s \<and> \<not> sb_stopping s \<and> \<not> sb_started s"

lemma exit_waits: "\<not> sb_stopping s \<Longrightarrow> \<not> sb_supervising s \<Longrightarrow> waits 2 (proc_exits s)"
  by (simp add: waits_def proc_exits_def Let_def)

lemma two_steps:
  assumes "waits delay s"
  shows "sup_step E nonce refused rg True at (sup_step E nonce refused rg True at s) = s\<lparr>sb_sup := Some (Starting delay)\<rparr>"
  using assms by (simp add: waits_def)

lemma round_eq:
  assumes "waits delay s"
  shows "sup_round E nonce refused rg s at = sup_step E nonce refused rg True at (s\<lparr>sb_sup := Some (Starting delay)\<rparr>)"
  unfolding sup_round_def using two_steps [OF assms] by (simp add: numeral_3_eq_3 del: sup_step.simps)

lemma failing_round:
  assumes "waits delay s" "attempt_fails at"
  shows "waits (backoff delay) (sup_round E nonce refused rg s at)"
  unfolding round_eq [OF assms(1)] using assms
  by (auto simp: waits_def attempt_fails_def sb_start_def teardown_def proc_exits_def Let_def split: option.split)

lemma failing_rounds:
  "waits delay s \<Longrightarrow> list_all attempt_fails ats \<Longrightarrow> waits ((backoff ^^ length ats) delay) (foldl (sup_round E nonce refused rg) s ats)"
  by (induction ats arbitrary: s delay) (simp_all add: failing_round funpow_swap1)

lemma backoff_pow: "(backoff ^^ k) 2 = min 60 (2 ^ Suc k)"
  by (induction k) (auto simp: backoff_def min_def)

text \<open>
  C21: A core that exits on its own comes back: whatever number of attempts fail, before the process
  runs or because it never answers, the supervisor is still there, waiting twice as long each time
  up to a minute; the first attempt whose process answers leaves the core started on that process, with
  an empty slot table, and one more step pushes the users to it and ends the supervisor.
\<close>

theorem supervisor_recovers:
  assumes "\<not> sb_stopping s" "\<not> sb_supervising s" "list_all attempt_fails ats" "\<not> attempt_fails at"
    and "foldl (sup_round E nonce refused rg) (proc_exits s) ats = s1" "sup_round E nonce refused rg s1 at = s2"
    and "sup_step E nonce refused rg True at s2 = s3"
  shows "sb_sup s1 = Some (Looping (min 60 (2 ^ Suc (length ats)))) \<and>
    sb_started s2 \<and> sb_process s2 = Some (at_process at) \<and> sb_slots s2 = [] \<and> sb_users s2 = sb_users s1 \<and>
    s3 = sup_leaves (snd (pushUsers E nonce refused rg s2)) \<and> sb_started s3 \<and> sb_sup s3 = None \<and> \<not> sb_supervising s3"
proof -
  have w: "waits (min 60 (2 ^ Suc (length ats))) s1"
    using failing_rounds [OF exit_waits [OF assms(1,2)] assms(3), of E nonce refused rg] by (simp add: assms(5) backoff_pow del: power_Suc)
  have ok: "at_prep at = None" "waitReady (at_polls at) = None" using assms(4) by (simp_all add: attempt_fails_def)
  have s2: "s2 = s1\<lparr>sb_stopping := False, sb_process := Some (at_process at), sb_startTime := at_now at, sb_started := True,
      sb_version := readVersion (at_version at), sb_slots := [], sb_sup := Some Pushing\<rparr>"
    unfolding assms(6) [symmetric] round_eq [OF w] by (simp add: sb_start_def ok Let_def)
  have s3: "s3 = sup_leaves (snd (pushUsers E nonce refused rg s2))" unfolding assms(7) [symmetric] by (simp add: s2)
  from w have "sb_sup s1 = Some (Looping (min 60 (2 ^ Suc (length ats))))" by (simp add: waits_def)
  moreover have "sb_started s3" "sb_sup s3 = None" "\<not> sb_supervising s3"
    unfolding s3 by (simp_all add: sup_leaves_def life_simps s2)
  ultimately show ?thesis using s3 by (simp add: s2)
qed

theorem supervisor_recovers_witness:
  "\<exists>s1 s2 s3. foldl (sup_round demo_clash ''n'' ''x'' sorted_ranger) (proc_exits demo_sb) [bad_attempt, bad_attempt] = s1 \<and>
     sup_round demo_clash ''n'' ''x'' sorted_ranger s1 good_attempt = s2 \<and> sup_step demo_clash ''n'' ''x'' sorted_ranger True good_attempt s2 = s3 \<and>
     sb_sup s1 = Some (Looping 8) \<and> sb_started s3"
proof -
  have s: "\<not> sb_stopping demo_sb" "\<not> sb_supervising demo_sb" by (simp_all add: demo_sb_def fresh_singbox_def)
  have "list_all attempt_fails [bad_attempt, bad_attempt]" "\<not> attempt_fails good_attempt"
    by (simp_all add: attempt_fails_def bad_attempt_def good_attempt_def)
  note recovers = supervisor_recovers [OF s this refl refl refl, of demo_clash "''n''" "''x''" sorted_ranger]
  have "min 60 (2 ^ Suc (length [bad_attempt, bad_attempt])) = (8 :: nat)" by simp
  from recovers [unfolded this] show ?thesis by blast
qed


section \<open>Shutdown\<close>

definition down :: "'p singbox \<Rightarrow> bool" where
  "down s \<longleftrightarrow> sb_stopping s \<and> \<not> sb_started s \<and> sb_process s = None \<and> (\<forall>delay. sb_sup s \<noteq> Some (Starting delay))"

lemma shutdown_down: "(\<And>delay. sb_sup s \<noteq> Some (Starting delay)) \<Longrightarrow> down (sb_Shutdown s)"
  by (auto simp: down_def sb_Shutdown_def close_pushStop_def teardown_def proc_exits_def Let_def split: option.splits sup.splits stop_chan.splits)

lemma down_push: "down (snd (pushUsers E nonce refused rg s)) = down s"
  by (simp add: down_def life_simps)

lemma down_sup: "down s \<Longrightarrow> down (sup_step E nonce refused rg elapsed at s)"
  by (cases "sb_sup s") (auto simp: down_def sup_leaves_def life_simps split: sup.split)

lemma down_shutdown: "down s \<Longrightarrow> down (sb_Shutdown s)"
  using shutdown_down [of s] by (simp add: down_def)

lemma down_user: "down s \<Longrightarrow> down (user_step E nonce refused rg call s)"
  by (cases call)
    (auto simp: sb_SyncUser_def sb_SyncUsers_def sb_UpdateUsers_def replaceUsers_def mergeUsers_def timer_push_def pushSoon_def Let_def down_push
       split: option.split, auto simp: down_def)

text \<open>What can still happen to a backend nobody restarts.\<close>

datatype 'p afterwards = AfterSup ranger bool "'p attempt" | AfterUser ranger user_call | AfterShutdown

fun afterwards_step :: "'p clash_env \<Rightarrow> string \<Rightarrow> string \<Rightarrow> 'p singbox \<Rightarrow> 'p afterwards \<Rightarrow> 'p singbox" where
  "afterwards_step E nonce refused s (AfterSup rg elapsed at) = sup_step E nonce refused rg elapsed at s"
| "afterwards_step E nonce refused s (AfterUser rg call) = user_step E nonce refused rg call s"
| "afterwards_step E nonce refused s AfterShutdown = sb_Shutdown s"

text \<open>
  C22: A sing-box core that is shut down, running or crashed, stays down through any sequence of
  supervisor steps, delayed pushes, user calls and further shutdowns, unless the supervisor was already
  past its last check when the shutdown came.
\<close>

theorem shutdown_stays_down:
  assumes "\<And>delay. sb_sup s \<noteq> Some (Starting delay)" "foldl (afterwards_step E nonce refused) (sb_Shutdown s) evs = s'"
  shows "\<not> sb_started s' \<and> sb_process s' = None \<and> sb_stopping s'"
proof -
  have "down t \<Longrightarrow> down (foldl (afterwards_step E nonce refused) t evs)" for t
  proof (induction evs arbitrary: t)
    case (Cons ev evs)
    have "down (afterwards_step E nonce refused t ev)"
      using Cons.prems by (cases ev) (simp_all add: down_sup down_user down_shutdown del: sup_step.simps)
    from Cons.IH [OF this] show ?case by simp
  qed simp
  from this [OF shutdown_down [OF assms(1)]] show ?thesis by (simp add: assms(2) down_def)
qed

theorem shutdown_stays_down_witness:
  "\<exists>s'. foldl (afterwards_step demo_clash ''n'' ''x'') (sb_Shutdown (proc_exits demo_sb))
       [AfterSup sorted_ranger True good_attempt, AfterUser sorted_ranger CallTimer] = s' \<and> \<not> sb_started s'"
proof -
  have "sb_sup (proc_exits demo_sb) \<noteq> Some (Starting delay)" for delay
    by (simp add: proc_exits_def demo_sb_def fresh_singbox_def Let_def)
  from shutdown_stays_down [OF this refl] show ?thesis by blast
qed

text \<open>
  The exception is real: a supervisor past its check starts the core after the shutdown, since
  \<^verbatim>\<open>start\<close> clears the flag the shutdown set.
\<close>

lemma shutdown_overtaken:
  "\<exists>s. sb_reach demo_clash ''n'' ''x'' s \<and>
     sb_started (sup_step demo_clash ''n'' ''x'' sorted_ranger True good_attempt (sb_Shutdown s))"
proof -
  let ?step = "sup_step demo_clash ''n'' ''x'' sorted_ranger True good_attempt"
  let ?n = "snd (sb_New demo_clash ''n'' ''x'' sorted_ranger bad_attempt demo_sb_config [])"
  have r: "sb_reach demo_clash ''n'' ''x'' (?step (?step ?n))" by (intro reach_sup reach_new)
  have w: "waits 2 ?n"
    by (simp add: waits_def sb_New_def sb_start_def bad_attempt_def good_attempt_def teardown_def proc_exits_def fresh_singbox_def Let_def)
  have "sb_started (?step (sb_Shutdown (?n\<lparr>sb_sup := Some (Starting 2)\<rparr>)))"
    by (simp add: sb_Shutdown_def close_pushStop_def teardown_def proc_exits_def sb_start_def good_attempt_def Let_def)
  with r show ?thesis unfolding two_steps [OF w] by blast
qed


section \<open>A constructor that fails\<close>

text \<open>
  When the process of a new sing-box core does not become ready, the constructor returns the
  error, and with it nothing the caller could shut down; but the exit of that process has left a
  supervisor behind, and the next attempt that succeeds brings up a core on the ports of the
  configuration that no controller knows of.
\<close>

lemma failed_constructor_leaves_supervisor:
  assumes "at_prep at = None" "waitReady (at_polls at) = Some err" "\<not> attempt_fails at'"
  shows "\<exists>s. sb_New E nonce refused rg at cfg users = (Some err, s) \<and> sb_sup s = Some (Looping 2) \<and> sb_supervising s \<and>
    sb_started (sup_round E nonce refused rg s at')"
proof -
  obtain e s where n: "sb_New E nonce refused rg at cfg users = (e, s)" by fastforce
  then have s: "e = Some err" "waits 2 s"
    using assms(1,2) by (auto simp: sb_New_def sb_start_def teardown_def proc_exits_def fresh_singbox_def waits_def Let_def)
  have "sb_started (sup_round E nonce refused rg s at')"
    unfolding round_eq [OF s(2)] using assms(3) by (simp add: sb_start_def attempt_fails_def Let_def)
  with n s show ?thesis by (auto simp: waits_def)
qed

lemma failed_constructor_leaves_supervisor_witness:
  "\<exists>s. sb_New demo_clash ''n'' ''x'' sorted_ranger bad_attempt demo_sb_config [] =
      (Some ''singbox: process exited before it became ready; check the core log'', s) \<and>
    sb_started (sup_round demo_clash ''n'' ''x'' sorted_ranger s good_attempt)"
proof -
  have "at_prep bad_attempt = None"
    "waitReady (at_polls bad_attempt) = Some ''singbox: process exited before it became ready; check the core log''"
    "\<not> attempt_fails good_attempt"
    by (simp_all add: attempt_fails_def bad_attempt_def good_attempt_def)
  from failed_constructor_leaves_supervisor [OF this] show ?thesis by blast
qed

text \<open>
  The process may also die while the supervisor that restarted it is still pushing users: the watcher
  finds the flag set and spawns nothing, and the supervisor then leaves. The core stays down.
\<close>

lemma exit_during_push_abandons:
  assumes "sb_sup s = Some Pushing" "sb_supervising s" "sup_step E nonce refused rg True at (proc_exits s) = s'"
  shows "\<not> sb_started s' \<and> sb_process s' = None \<and> sb_sup s' = None \<and> \<not> sb_supervising s'"
  unfolding assms(3) [symmetric] using assms(1,2) by (simp add: proc_exits_def Let_def sup_leaves_def life_simps)


section \<open>Placeholders\<close>

definition lower_hex :: "char \<Rightarrow> bool" where
  "lower_hex ch \<longleftrightarrow> ch \<in> set ''0123456789abcdef''"

definition uuid4_shape :: "(char \<Rightarrow> bool) list" where
  "uuid4_shape = replicate 8 lower_hex @ [(=) CHR ''-''] @ replicate 4 lower_hex @ [(=) CHR ''-'', (=) CHR ''4''] @ replicate 3 lower_hex @
     [(=) CHR ''-'', \<lambda>ch. ch \<in> set ''89ab''] @ replicate 3 lower_hex @ [(=) CHR ''-''] @ replicate 12 lower_hex"

definition is_uuid4 :: "string \<Rightarrow> bool" where
  "is_uuid4 u \<longleftrightarrow> list_all2 (\<lambda>p ch. p ch) uuid4_shape u"

lemma hex_digit_values:
  "map hex_digit [0..<16] = ''0123456789abcdef''"
  by code_simp

lemma hex_digit_hex: "n < 16 \<Longrightarrow> lower_hex (hex_digit n)"
proof -
  assume "n < 16"
  then have "hex_digit n \<in> set (map hex_digit [0..<16])" by simp
  then show ?thesis unfolding lower_hex_def hex_digit_values .
qed

lemma hex_bytes_Cons: "hex_bytes (b # bs) = hex_digit (b div 16) # hex_digit (b mod 16) # hex_bytes bs" and hex_bytes_Nil: "hex_bytes [] = []"
  by (simp_all add: hex_bytes_def)

lemma list_16: "length xs = 16 \<Longrightarrow> \<exists>a b c d e f g h i j k l m n p q. xs = [a, b, c, d, e, f, g, h, i, j, k, l, m, n, p, q]"
  by (simp add: numeral_eq_Suc length_Suc_conv) blast

lemma version_digit: "hex_digit ((b mod 16 + 64) div 16) = CHR ''4''"
proof -
  have "(b mod 16 + 64) div 16 = (4 :: nat)" by simp
  then show ?thesis by (simp only:) code_simp
qed

lemma variant_digit: "hex_digit ((b mod 64 + 128) div 16) \<in> set ''89ab''"
proof -
  have "(b mod 64 + 128) div 16 \<in> {8, 9, 10, 11 :: nat}" by auto
  moreover have "hex_digit 8 = CHR ''8''" "hex_digit 9 = CHR ''9''" "hex_digit 10 = CHR ''a''" "hex_digit 11 = CHR ''b''" by code_simp+
  ultimately show ?thesis by auto
qed

lemma uuid_text_uuid4:
  assumes "length bs = 16" "list_all is_byte bs"
  shows "is_uuid4 (uuid_text (bs[6 := bs ! 6 mod 16 + 64, 8 := bs ! 8 mod 64 + 128]))"
proof -
  from list_16 [OF assms(1)] obtain a b c d e f g h i j k l m n p q where bs: "bs = [a, b, c, d, e, f, g, h, i, j, k, l, m, n, p, q]" by blast
  have hi: "b < 256 \<Longrightarrow> lower_hex (hex_digit (b div 16))" and lo: "lower_hex (hex_digit (b mod 16))" for b :: nat
    by (rule hex_digit_hex, simp)+
  have ut: "uuid_text (bs[6 := bs ! 6 mod 16 + 64, 8 := bs ! 8 mod 64 + 128]) =
      hex_bytes [a, b, c, d] @ ''-'' @ hex_bytes [e, f] @ ''-'' @ hex_bytes [g mod 16 + 64, h] @ ''-'' @ hex_bytes [i mod 64 + 128, j] @ ''-'' @
      hex_bytes [k, l, m, n, p, q]"
    by (simp add: uuid_text_def bs)
  have reps: "replicate 8 lower_hex = [lower_hex, lower_hex, lower_hex, lower_hex, lower_hex, lower_hex, lower_hex, lower_hex]" "replicate 4 lower_hex = [lower_hex, lower_hex, lower_hex, lower_hex]"
    "replicate 3 lower_hex = [lower_hex, lower_hex, lower_hex]"
    "replicate 12 lower_hex = [lower_hex, lower_hex, lower_hex, lower_hex, lower_hex, lower_hex, lower_hex, lower_hex, lower_hex, lower_hex, lower_hex, lower_hex]"
    by (simp_all add: numeral_eq_Suc)
  from assms(2) have le: "a < 256" "b < 256" "c < 256" "d < 256" "e < 256" "f < 256" "h < 256" "j < 256" "k < 256" "l < 256" "m < 256" "n < 256" "p < 256" "q < 256"
    by (simp_all add: bs is_byte_def)
  have v: "lower_hex (hex_digit ((g mod 16 + 64) mod 16))" "lower_hex (hex_digit ((i mod 64 + 128) mod 16))" by (rule lo)+
  show ?thesis
    unfolding is_uuid4_def uuid4_shape_def ut hex_bytes_Cons hex_bytes_Nil reps append.simps list_all2_Cons list_all2_Nil version_digit
    by (intro conjI le [THEN hi] lo v variant_digit refl TrueI)
qed

text \<open>
  C23: The secret that fills an empty slot is one sing-box accepts and no user can guess from another:
  for the protocols keyed by UUID it is the canonical text of a version 4 UUID, never the empty or the
  zero UUID; for those keyed by a password it differs from slot to slot and carries the random nonce.
\<close>

theorem placeholder_secrets:
  shows "(usesUUID kind \<longrightarrow> is_uuid4 (freeSlotSecret nonce kind i)) \<and>
    (\<not> usesUUID kind \<longrightarrow> (\<forall>j. freeSlotSecret nonce kind i = freeSlotSecret nonce kind j \<longleftrightarrow> i = j) \<and> HasSuffix (freeSlotSecret nonce kind i) nonce)"
proof -
  let ?plain = "''pg-unused-slot-'' @ show_nat i @ ''-'' @ nonce"
  have "is_uuid4 (freeSlotSecret nonce kind i)" if "usesUUID kind"
  proof -
    let ?bs = "take 16 (sha256 (bytes_of ?plain))"
    have "length ?bs = 16" "list_all is_byte ?bs" by (simp_all add: sha256_bytes list_all_take)
    from uuid_text_uuid4 [OF this] that show ?thesis by (simp add: freeSlotSecret_def Let_def)
  qed
  moreover have "freeSlotSecret nonce kind i = freeSlotSecret nonce kind j \<longleftrightarrow> i = j" if "\<not> usesUUID kind" for j
    using that show_nat_inject [of i j] by (auto simp: freeSlotSecret_def Let_def)
  moreover have "HasSuffix (freeSlotSecret nonce kind i) nonce" if "\<not> usesUUID kind"
    using that by (simp add: freeSlotSecret_def HasSuffix_def HasPrefix_def Let_def)
  ultimately show ?thesis by blast
qed

theorem placeholder_secrets_witness:
  "is_uuid4 (freeSlotSecret ''n'' credVLESS 3) \<and> freeSlotSecret ''n'' credTrojan 3 \<noteq> freeSlotSecret ''n'' credTrojan 4"
  using placeholder_secrets [of credVLESS "''n''" 3] placeholder_secrets [of credTrojan "''n''" 3]
  by (simp add: usesUUID_def del: freeSlotSecret_def)

end
