(* ===== verification/Go_Text.thy ===== *)
theory Go_Text
  imports Node_Prelude
begin

text \<open>
  Text the backends generate for and read from files: slash-separated paths, quoting, and the lines a
  \<^verbatim>\<open>bufio.Scanner\<close> gives.
\<close>

section \<open>Paths and quoting\<close>

text \<open>\<^verbatim>\<open>filepath.Clean\<close> and \<^verbatim>\<open>filepath.Join\<close>, for slash-separated paths.\<close>

fun clean_parts :: "bool \<Rightarrow> string list \<Rightarrow> string list \<Rightarrow> string list" where
  "clean_parts rooted acc [] = rev acc"
| "clean_parts rooted acc (p # ps) =
     (if p = [] \<or> p = ''.'' then clean_parts rooted acc ps
      else if p = ''..'' then
        (case acc of
           a # as \<Rightarrow> if a = ''..'' then clean_parts rooted (p # acc) ps else clean_parts rooted as ps
         | [] \<Rightarrow> if rooted then clean_parts rooted [] ps else clean_parts rooted [p] ps)
      else clean_parts rooted (p # acc) ps)"

definition path_clean :: "string \<Rightarrow> string" where
  "path_clean p =
     (let rooted = HasPrefix p ''/'';
          cleaned = (if rooted then ''/'' else []) @ Join (clean_parts rooted [] (Split p ''/'')) ''/''
      in if cleaned = [] then ''.'' else cleaned)"

definition path_join :: "string list \<Rightarrow> string" where
  "path_join ps =
     (let ps = dropWhile (\<lambda>p. p = []) ps in if ps = [] then [] else path_clean (Join ps ''/''))"

text \<open>\<^verbatim>\<open>strconv.Quote\<close> on ASCII text; other bytes are printed as they are.\<close>

definition quote_char :: "char \<Rightarrow> string" where
  "quote_char ch =
     (let n = (of_char ch :: nat) in
      if n = 34 then [byte 92, byte 34] else if n = 92 then [byte 92, byte 92]
      else if n = 7 then [byte 92] @ ''a'' else if n = 8 then [byte 92] @ ''b'' else if n = 12 then [byte 92] @ ''f''
      else if n = 10 then [byte 92] @ ''n'' else if n = 13 then [byte 92] @ ''r'' else if n = 9 then [byte 92] @ ''t''
      else if n = 11 then [byte 92] @ ''v''
      else if n < 32 \<or> n = 127 then [byte 92] @ ''x'' @ [if n div 16 < 10 then byte (48 + n div 16) else byte (87 + n div 16),
                                     if n mod 16 < 10 then byte (48 + n mod 16) else byte (87 + n mod 16)]
      else [ch])"

definition go_quote :: "string \<Rightarrow> string" where
  "go_quote s = [byte 34] @ concat (map quote_char s) @ [byte 34]"

definition nl :: string where
  "nl = [byte 10]"


section \<open>Lines\<close>

text \<open>
  \<^verbatim>\<open>bufio.Scanner\<close> with its default split: a line ends at a newline, a carriage return before it is
  dropped, and an empty rest after the last newline is no line. A line that does not fit into the buffer
  of 64 KB stops the scan; the second component says whether that happened.
\<close>

definition drop_cr :: "string \<Rightarrow> string" where
  "drop_cr line = (if line \<noteq> [] \<and> last line = byte 13 then butlast line else line)"

fun scan_parts :: "string list \<Rightarrow> string list \<times> bool" where
  "scan_parts [] = ([], False)"
| "scan_parts (p # ps) =
     (if length p \<ge> 65536 then ([], True)
      else if p = [] \<and> ps = [] then ([], False)
      else (case scan_parts ps of (ls, long) \<Rightarrow> (drop_cr p # ls, long)))"

definition scan_lines :: "string \<Rightarrow> string list \<times> bool" where
  "scan_lines s = scan_parts (Split s nl)"

text \<open>Text put together from lines is read back as these lines.\<close>

lemma HasPrefix_nl: "HasPrefix (c # s) nl \<longleftrightarrow> c = byte 10"
  by (auto simp: HasPrefix_def nl_def)

lemma Cut_line: "byte 10 \<notin> set l \<Longrightarrow> Cut (l @ nl @ s) nl = Some (l, s)"
  by (induction l) (auto simp: HasPrefix_nl nl_def HasPrefix_def)

lemma Split_line: "byte 10 \<notin> set l \<Longrightarrow> Split (l @ nl @ s) nl = l # Split s nl"
  by (subst Split.simps) (simp add: Cut_line, simp add: nl_def)

definition plain_line :: "string \<Rightarrow> bool" where
  "plain_line l \<longleftrightarrow> byte 10 \<notin> set l \<and> (l = [] \<or> last l \<noteq> byte 13) \<and> length l < 65536"

lemma drop_cr_plain: "plain_line l \<Longrightarrow> drop_cr l = l"
  by (auto simp: plain_line_def drop_cr_def)

lemma scan_text:
  assumes "list_all plain_line ls"
  shows "scan_lines (concat (map (\<lambda>l. l @ nl) ls)) = (ls, False)"
proof -
  have "scan_parts (Split (concat (map (\<lambda>l. l @ nl) ls)) nl) = (ls, False)"
    using assms
  proof (induction ls)
    case Nil
    show ?case by (subst Split.simps) (simp add: nl_def)
  next
    case (Cons l ls)
    then have l: "byte 10 \<notin> set l" "length l < 65536" "drop_cr l = l" by (auto simp: plain_line_def drop_cr_plain)
    have "Split (concat (map (\<lambda>l. l @ nl) (l # ls))) nl = l # Split (concat (map (\<lambda>l. l @ nl) ls)) nl"
      using Split_line [OF l(1)] by simp
    with Cons l show ?case by (simp add: Split_not_Nil)
  qed
  then show ?thesis by (simp add: scan_lines_def)
qed

end
