(* ===== verification/Openvpn.thy ===== *)
theory Openvpn
  imports Go_Text Stats_Tracker Backend_Composite Net_Ip
begin

text \<open>
  The OpenVPN backend (\<^verbatim>\<open>backend/openvpn\<close>): its configuration and the split of a subnet over several
  listeners, the allow list, the management protocol that admits clients and reports their counters,
  the accounting per user, and the life of the server process.

  The daemon enters through the lines it writes on the management socket; what the node writes there
  is the list \<open>mg_sent\<close>. The record \<open>ov_env\<close> holds the outcomes of files, processes and sockets. Every
  section under a mutex is one step. Log lines and the texts of library parse errors are left out.
\<close>

unbundle bit_operations_syntax

section \<open>Configuration\<close>

record listener =
  li_Port :: int
  li_Proto :: string

record ov_config =
  oc_InboundTag :: string
  oc_Port :: int
  oc_Proto :: string
  oc_Device :: string
  oc_ServerSubnet :: string
  oc_DNS :: "string list"
  oc_Cipher :: string
  oc_DataCiphers :: "string list"
  oc_Auth :: string
  oc_Keepalive :: string
  oc_MaxClients :: int
  oc_DuplicateCN :: bool
  oc_Push :: "string list"
  oc_ExtraServerDirectives :: "string list"
  oc_CACert :: string
  oc_ServerCert :: string
  oc_ServerKey :: string
  oc_TLSCryptKey :: string
  oc_Listeners :: "listener list"
  oc_workDir :: string

definition listener_key :: "listener \<Rightarrow> string" where
  "listener_key l = li_Proto l @ ''/'' @ show_int (li_Port l)"

fun normalize_loop :: "ov_config \<Rightarrow> string set \<Rightarrow> listener list \<Rightarrow> string + listener list" where
  "normalize_loop c seen [] = Inr []"
| "normalize_loop c seen (l # ls) =
     (let l = (if li_Port l = 0 then l\<lparr>li_Port := oc_Port c\<rparr> else l) in
      if li_Port l \<le> 0 \<or> li_Port l > 65535
      then Inl (''listener port must be between 1 and 65535, got '' @ show_int (li_Port l))
      else
        (let l = l\<lparr>li_Proto := ToLower (TrimSpace (li_Proto l))\<rparr>;
             l = (if li_Proto l = [] then l\<lparr>li_Proto := oc_Proto c\<rparr> else l)
         in if li_Proto l \<notin> {''udp'', ''tcp'', ''udp4'', ''udp6'', ''tcp4'', ''tcp6''}
            then Inl (''listener proto must be udp or tcp, got '' @ go_quote (li_Proto l))
            else if listener_key l \<in> seen then Inl (''duplicate listener '' @ listener_key l)
            else map_sum id ((#) l) (normalize_loop c (insert (listener_key l) seen) ls)))"

definition normalizeListeners :: "ov_config \<Rightarrow> string + ov_config" where
  "normalizeListeners c =
     (if length (oc_Listeners c) = 0 then Inr (c\<lparr>oc_Listeners := [\<lparr>li_Port = oc_Port c, li_Proto = oc_Proto c\<rparr>]\<rparr>)
      else case normalize_loop c {} (oc_Listeners c) of
        Inl err \<Rightarrow> Inl err
      | Inr ls \<Rightarrow> Inr (c\<lparr>oc_Listeners := ls, oc_Port := li_Port (ls ! 0), oc_Proto := li_Proto (ls ! 0)\<rparr>))"

definition ov_defaults :: "ov_config \<Rightarrow> ov_config" where
  "ov_defaults c = c\<lparr>oc_Cipher := (if oc_Cipher c = [] then ''AES-256-GCM'' else oc_Cipher c),
     oc_Auth := (if oc_Auth c = [] then ''SHA256'' else oc_Auth c),
     oc_Keepalive := (if oc_Keepalive c = [] then ''10 60'' else oc_Keepalive c),
     oc_MaxClients := (if oc_MaxClients c \<le> 0 then 1024 else oc_MaxClients c)\<rparr>"

definition ov_NewConfig :: "(string \<Rightarrow> string + ov_config) \<Rightarrow> string \<Rightarrow> string + ov_config" where
  "ov_NewConfig unmarshal configStr =
     (if TrimSpace configStr = [] then Inl ''openvpn config string must not be empty''
      else case unmarshal configStr of
        Inl err \<Rightarrow> Inl (''failed to parse openvpn config: '' @ err)
      | Inr cfg \<Rightarrow>
         (if oc_InboundTag cfg = [] then Inl ''inbound_tag is required''
          else if oc_Port cfg \<le> 0 \<or> oc_Port cfg > 65535 then Inl ''port must be between 1 and 65535''
          else
            (let cfg = (if oc_Proto cfg = [] then cfg\<lparr>oc_Proto := ''udp''\<rparr> else cfg);
                 cfg = (if oc_Device cfg = [] then cfg\<lparr>oc_Device := ''tun''\<rparr> else cfg)
             in if oc_ServerSubnet cfg = [] then Inl ''server_subnet is required''
                else
                  (let cfg = ov_defaults cfg
                   in if oc_CACert cfg = [] \<or> oc_ServerCert cfg = [] \<or> oc_ServerKey cfg = []
                      then Inl ''ca_cert, server_cert and server_key are required''
                      else normalizeListeners cfg))))"

definition mgmtSocketPath :: "ov_config \<Rightarrow> string" where
  "mgmtSocketPath c = path_join [oc_workDir c, ''mgmt.sock'']"


section \<open>Listeners\<close>

text \<open>\<^verbatim>\<open>bits.Len\<close>: the length of a number in binary.\<close>

fun bits_len :: "nat \<Rightarrow> nat" where
  "bits_len n = (if n = 0 then 0 else Suc (bits_len (n div 2)))"

declare bits_len.simps [simp del]

definition bitsNeeded :: "nat \<Rightarrow> nat" where
  "bitsNeeded n = (if n \<le> 1 then 0 else bits_len (n - 1))"

text \<open>\<^verbatim>\<open>netip.ParsePrefix\<close>: an address and a number of bits without sign or leading zero.\<close>

definition parsePrefix :: "string \<Rightarrow> (ip \<times> nat) option" where
  "parsePrefix s =
     (case Cut (rev s) ''/'' of
        None \<Rightarrow> None
      | Some (bits, addr) \<Rightarrow>
         (case ParseAddr (rev addr) of
            None \<Rightarrow> None
          | Some a \<Rightarrow>
             (case parse_nat (rev bits) of
                None \<Rightarrow> None
              | Some n \<Rightarrow>
                 (if (length bits > 1 \<and> hd (rev bits) = CHR ''0'') \<or> n > 8 * int (length a) then None
                  else Some (a, nat n)))))"

definition ip4_word :: "ip \<Rightarrow> 32 word" where
  "ip4_word b = push_bit 24 (of_nat (b ! 0)) OR push_bit 16 (of_nat (b ! 1)) OR push_bit 8 (of_nat (b ! 2)) OR of_nat (b ! 3)"

definition word_ip4 :: "32 word \<Rightarrow> ip" where
  "word_ip4 w = map (\<lambda>k. unat (ucast (drop_bit k w) :: 8 word)) [24, 16, 8, 0]"

definition split_start :: "ip \<Rightarrow> nat \<Rightarrow> nat \<Rightarrow> 32 word" where
  "split_start base newBits index = ip4_word base + push_bit (32 - newBits) 1 * of_nat index"

definition splitSubnet :: "string \<Rightarrow> nat \<Rightarrow> nat \<Rightarrow> string + string" where
  "splitSubnet cidr index parts =
     (if parts \<le> 1 then Inr cidr
      else case parsePrefix cidr of
        None \<Rightarrow> Inl (''server_subnet '' @ go_quote cidr @ '' is not a valid CIDR'')
      | Some (a, bits) \<Rightarrow>
         (if length a \<noteq> 4 then Inl (''server_subnet '' @ go_quote cidr @ '' must be IPv4 to be split across listeners'')
          else
            (let extra = bitsNeeded parts; newBits = bits + extra
             in if newBits > 24
                then Inl (''server_subnet '' @ cidr @ '' is too small to split across '' @ show_nat parts @
                          '' listeners (would need a /'' @ show_nat newBits @ '' per listener)'')
                else Inr (show_ipv4 (word_ip4 (split_start (mask_ip bits a) newBits index)) @ ''/'' @ show_nat newBits))))"

definition derive :: "ov_config \<Rightarrow> string \<Rightarrow> listener \<Rightarrow> nat \<Rightarrow> nat \<Rightarrow> string + ov_config" where
  "derive c generatedPath l index parts =
     (case splitSubnet (oc_ServerSubnet c) index parts of
        Inl err \<Rightarrow> Inl err
      | Inr sub \<Rightarrow>
         (let clone = c\<lparr>oc_Port := li_Port l, oc_Proto := li_Proto l, oc_ServerSubnet := sub, oc_Listeners := [l]\<rparr>
          in Inr (if parts > 1
                  then clone\<lparr>oc_workDir := path_join [generatedPath, ''openvpn'', oc_InboundTag c, li_Proto l @ show_int (li_Port l)]\<rparr>
                  else clone)))"


section \<open>Server configuration\<close>

text \<open>The dotted mask of a prefix length, byte by byte.\<close>

definition dotted_mask :: "nat \<Rightarrow> string" where
  "dotted_mask ones = Join (map show_nat (mask_ip ones [255, 255, 255, 255])) ''.''"

definition parseCIDR :: "string \<Rightarrow> string + string \<times> string" where
  "parseCIDR cidr =
     (case ParseCIDR (TrimSpace cidr) of
        None \<Rightarrow> Inl (''invalid server_subnet '' @ go_quote cidr)
      | Some n \<Rightarrow>
         (if n_MaskLen n \<noteq> 4 then Inl (''server_subnet '' @ go_quote cidr @ '' must be IPv4'')
          else Inr (IP_String (n_IP n), dotted_mask (n_Ones n))))"

definition renderServerConf :: "ov_config \<Rightarrow> string + string" where
  "renderServerConf c =
     (case parseCIDR (oc_ServerSubnet c) of
        Inl err \<Rightarrow> Inl err
      | Inr (netAddr, netMask) \<Rightarrow>
         Inr (''port '' @ show_int (oc_Port c) @ nl @
              ''proto '' @ oc_Proto c @ nl @
              ''dev '' @ oc_Device c @ nl @
              ''topology subnet'' @ nl @
              ''server '' @ netAddr @ '' '' @ netMask @ nl @
              ''ca ca.crt'' @ nl @ ''cert server.crt'' @ nl @ ''key server.key'' @ nl @ ''dh none'' @ nl @ ''ecdh-curve prime256v1'' @ nl @
              (if TrimSpace (oc_TLSCryptKey c) \<noteq> [] then ''tls-crypt tc.key'' @ nl else []) @
              ''cipher '' @ oc_Cipher c @ nl @
              (if length (oc_DataCiphers c) > 0 then ''data-ciphers '' @ Join (oc_DataCiphers c) '':'' @ nl else []) @
              ''auth '' @ oc_Auth c @ nl @
              ''keepalive '' @ oc_Keepalive c @ nl @
              ''max-clients '' @ show_int (oc_MaxClients c) @ nl @
              (if oc_DuplicateCN c then ''duplicate-cn'' @ nl else []) @
              concat (map (\<lambda>dns. ''push '' @ [byte 34] @ ''dhcp-option DNS '' @ dns @ [byte 34] @ nl) (oc_DNS c)) @
              concat (map (\<lambda>line. ''push '' @ go_quote line @ nl) (oc_Push c)) @
              concat (map (\<lambda>line. if TrimSpace line \<noteq> [] then TrimSpace line @ nl else []) (oc_ExtraServerDirectives c)) @
              ''management '' @ mgmtSocketPath c @ '' unix'' @ nl @
              ''management-client-auth'' @ nl @ ''auth-user-pass-optional'' @ nl @ ''verify-client-cert require'' @ nl @ ''status-version 3'' @ nl @
              ''status '' @ path_join [oc_workDir c, ''status.log''] @ '' 5'' @ nl @
              ''persist-key'' @ nl @ ''persist-tun'' @ nl @ ''verb 3'' @ nl))"

text \<open>What files, processes and the socket answer.\<close>

record ov_env =
  oe_mkdir :: "string \<Rightarrow> err"
  oe_write :: "string \<Rightarrow> err"
  oe_exec :: "string \<Rightarrow> err"
  oe_dial :: "nat \<Rightarrow> err"
  oe_version :: string
  oe_routed :: "string \<Rightarrow> bool"

fun write_all :: "ov_env \<Rightarrow> string \<Rightarrow> (string \<times> string) list \<Rightarrow> (string \<times> string) list \<Rightarrow> err \<times> (string \<times> string) list" where
  "write_all E dir [] written = (None, written)"
| "write_all E dir ((name, content) # files) written =
     (case oe_write E (path_join [dir, name]) of
        Some err \<Rightarrow> (Some (''write '' @ name @ '': '' @ err), written)
      | None \<Rightarrow> write_all E dir files (written @ [(path_join [dir, name], content)]))"

definition config_files :: "ov_config \<Rightarrow> string \<rightharpoonup> string" where
  "config_files c =
     (let files = [''ca.crt'' \<mapsto> oc_CACert c, ''server.crt'' \<mapsto> oc_ServerCert c, ''server.key'' \<mapsto> oc_ServerKey c]
      in if TrimSpace (oc_TLSCryptKey c) \<noteq> [] then files(''tc.key'' \<mapsto> oc_TLSCryptKey c) else files)"

definition writeFiles :: "ov_env \<Rightarrow> ranger \<Rightarrow> ov_config \<Rightarrow> (string + string) \<times> (string \<times> string) list" where
  "writeFiles E rg c =
     (case oe_mkdir E (oc_workDir c) of
        Some err \<Rightarrow> (Inl (''create work dir: '' @ err), [])
      | None \<Rightarrow>
         (case write_all E (oc_workDir c) (map (\<lambda>name. (name, getd [] (config_files c) name)) (keys_of rg 0 (config_files c))) [] of
            (Some err, written) \<Rightarrow> (Inl err, written)
          | (None, written) \<Rightarrow>
             (case renderServerConf c of
                Inl err \<Rightarrow> (Inl err, written)
              | Inr conf \<Rightarrow>
                 (let confPath = path_join [oc_workDir c, ''server.conf''] in
                  case oe_write E confPath of
                    Some err \<Rightarrow> (Inl (''write server.conf: '' @ err), written)
                  | None \<Rightarrow> (Inr confPath, written @ [(confPath, conf)])))))"


section \<open>The allow list\<close>

record user_entry =
  ue_serial :: string
  ue_fingerprint :: string

record user_store =
  us_inboundTag :: string
  us_users :: "string \<rightharpoonup> user_entry"
  us_sessions :: "string \<rightharpoonup> string set"

definition newUserStore :: "string \<Rightarrow> user_store" where
  "newUserStore inboundTag = \<lparr>us_inboundTag = inboundTag, us_users = Map.empty, us_sessions = Map.empty\<rparr>"

definition authorizedLocked :: "string \<Rightarrow> string \<Rightarrow> user_store \<Rightarrow> bool" where
  "authorizedLocked commonName serial s =
     (case us_users s commonName of
        None \<Rightarrow> False
      | Some entry \<Rightarrow> if ue_serial entry \<noteq> [] \<and> ue_serial entry \<noteq> serial then False else True)"

definition authorize :: "string \<Rightarrow> string \<Rightarrow> user_store \<Rightarrow> bool" where
  "authorize commonName serial s = authorizedLocked commonName serial s"

definition tryConnect :: "string \<Rightarrow> string \<Rightarrow> string \<Rightarrow> user_store \<Rightarrow> (bool \<times> string) \<times> user_store" where
  "tryConnect commonName serial clientID s =
     (if \<not> authorizedLocked commonName serial s then ((False, ''unauthorized''), s)
      else
        (let ids = (case us_sessions s commonName of None \<Rightarrow> {} | Some ids \<Rightarrow> ids);
             s = s\<lparr>us_sessions := (us_sessions s)(commonName \<mapsto> ids)\<rparr>
         in if clientID \<in> ids then ((True, []), s)
            else ((True, []), s\<lparr>us_sessions := (us_sessions s)(commonName \<mapsto> insert clientID ids)\<rparr>)))"

definition releaseSession :: "string \<Rightarrow> string \<Rightarrow> user_store \<Rightarrow> user_store" where
  "releaseSession commonName clientID s =
     (case us_sessions s commonName of
        None \<Rightarrow> s
      | Some ids \<Rightarrow>
         (let ids = ids - {clientID}
          in s\<lparr>us_sessions := (us_sessions s)(commonName := if ids = {} then None else Some ids)\<rparr>))"

definition wantsInterface :: "user_store \<Rightarrow> user \<Rightarrow> bool" where
  "wantsInterface s u \<longleftrightarrow> (if GetOpenvpn (GetProxies u) = None then False else us_inboundTag s \<in> set (GetInbounds u))"

definition entry_of :: "user \<Rightarrow> user_entry" where
  "entry_of u = (let ov = GetOpenvpn (GetProxies u) in \<lparr>ue_serial = field ovm_Serial ov, ue_fingerprint = field ovm_Fingerprint ov\<rparr>)"

text \<open>The result is the common name, whether its serial changed and whether it was removed.\<close>

definition applyUser :: "user \<Rightarrow> user_store \<Rightarrow> (string \<times> bool \<times> bool) \<times> user_store" where
  "applyUser u s =
     (let cn = GetEmail u in
      if cn = [] then (([], False, False), s)
      else if \<not> wantsInterface s u
      then ((cn, False, us_users s cn \<noteq> None),
            s\<lparr>us_users := (us_users s)(cn := None), us_sessions := (us_sessions s)(cn := None)\<rparr>)
      else ((cn, case us_users s cn of None \<Rightarrow> False | Some prev \<Rightarrow> ue_serial prev \<noteq> ue_serial (entry_of u), False),
            s\<lparr>us_users := (us_users s)(cn \<mapsto> entry_of u)\<rparr>))"

fun next_users :: "user_store \<Rightarrow> user list \<Rightarrow> (string \<rightharpoonup> user_entry) \<Rightarrow> (string \<rightharpoonup> user_entry)" where
  "next_users s [] m = m"
| "next_users s (u # us) m =
     (if \<not> wantsInterface s u then next_users s us m
      else if GetEmail u = [] then next_users s us m
      else next_users s us (m(GetEmail u \<mapsto> entry_of u)))"

definition replaceAll :: "ranger \<Rightarrow> user list \<Rightarrow> user_store \<Rightarrow> string list \<times> user_store" where
  "replaceAll rg users s =
     (let nxt = next_users s users Map.empty;
          removed = filter (\<lambda>cn. nxt cn = None) (keys_of rg 0 (us_users s))
      in (removed, s\<lparr>us_sessions := (us_sessions s) |` (- set removed), us_users := nxt\<rparr>))"


section \<open>The management interface\<close>

record client_status =
  cs_CommonName :: string
  cs_RealAddress :: string
  cs_VirtualAddr :: string
  cs_BytesReceived :: int64
  cs_BytesSent :: int64
  cs_ClientID :: string

text \<open>\<open>mg_open\<close>: the socket is connected; \<open>mg_ready\<close>: the one place of the channel \<^verbatim>\<open>statusReady\<close> is taken.\<close>

record mgmt_client =
  mg_pendingCID :: string
  mg_pendingKID :: string
  mg_pendingEnv :: "(string \<rightharpoonup> string) option"
  mg_pendingDisconnect :: bool
  mg_statusBuf :: "client_status list"
  mg_lastStatus :: "client_status list"
  mg_ready :: bool
  mg_open :: bool
  mg_sent :: "string list"

definition newMgmtClient :: mgmt_client where
  "newMgmtClient = \<lparr>mg_pendingCID = [], mg_pendingKID = [], mg_pendingEnv = None, mg_pendingDisconnect = False,
     mg_statusBuf = [], mg_lastStatus = [], mg_ready = False, mg_open = False, mg_sent = []\<rparr>"

text \<open>Fifty attempts to dial, 200 ms apart.\<close>

fun connect_loop :: "(nat \<Rightarrow> err) \<Rightarrow> nat list \<Rightarrow> string \<Rightarrow> err" where
  "connect_loop dial [] lastErr = Some lastErr"
| "connect_loop dial (i # is) lastErr = (case dial i of None \<Rightarrow> None | Some err \<Rightarrow> connect_loop dial is err)"

definition mgmt_connect :: "ov_env \<Rightarrow> string \<Rightarrow> mgmt_client \<Rightarrow> err \<times> mgmt_client" where
  "mgmt_connect E socketPath m =
     (case connect_loop (oe_dial E) [0..<50] [] of
        None \<Rightarrow> (None, m\<lparr>mg_open := True\<rparr>)
      | Some lastErr \<Rightarrow> (Some (''connect management socket '' @ socketPath @ '': '' @ lastErr), m))"

definition mgmt_close :: "mgmt_client \<Rightarrow> mgmt_client" where
  "mgmt_close m = m\<lparr>mg_open := False\<rparr>"

definition mgmt_send :: "string \<Rightarrow> mgmt_client \<Rightarrow> mgmt_client" where
  "mgmt_send cmd m = (if \<not> mg_open m then m else m\<lparr>mg_sent := mg_sent m @ [cmd]\<rparr>)"

definition mgmt_kill :: "string \<Rightarrow> mgmt_client \<Rightarrow> mgmt_client" where
  "mgmt_kill commonName m = (if commonName = [] then m else mgmt_send (''kill '' @ commonName) m)"

definition killClient :: "string \<Rightarrow> mgmt_client \<Rightarrow> mgmt_client" where
  "killClient cid m = (if cid = [] then m else mgmt_send (''client-kill '' @ cid) m)"

definition statusSnapshot :: "mgmt_client \<Rightarrow> client_status list" where
  "statusSnapshot m = mg_lastStatus m"

definition parseStatusLine :: "string \<Rightarrow> client_status option" where
  "parseStatusLine line =
     (if \<not> HasPrefix line (''CLIENT_LIST'' @ [byte 9]) then None
      else
        (let fields = Split line [byte 9] in
         if length fields < 11 then None
         else Some \<lparr>cs_CommonName = fields ! 1, cs_RealAddress = fields ! 2, cs_VirtualAddr = fields ! 3,
                    cs_BytesReceived = ParseInt64 (fields ! 5), cs_BytesSent = ParseInt64 (fields ! 6), cs_ClientID = fields ! 10\<rparr>))"

definition publishStatus :: "mgmt_client \<Rightarrow> mgmt_client" where
  "publishStatus m = m\<lparr>mg_lastStatus := mg_statusBuf m, mg_statusBuf := [], mg_ready := True\<rparr>"


section \<open>State\<close>

record ended_session =
  es_clientID :: string
  es_commonName :: string
  es_rx :: int64
  es_tx :: int64

datatype ov_lifecycle = OvStopped | OvRunning

record openvpn =
  ov_config :: ov_config
  ov_users :: user_store
  ov_mgmt :: mgmt_client
  ov_tracker :: tracker
  ov_interfaceStats :: iface_counters
  ov_totalRx :: int64
  ov_totalTx :: int64
  ov_sessionSeen :: "string \<rightharpoonup> client_status"
  ov_cnCumulative :: "string \<rightharpoonup> client_status"
  ov_endedSessions :: "ended_session list"
  ov_process :: bool
  ov_startTime :: gotime
  ov_version :: string
  ov_state :: ov_lifecycle
  ov_shutdownOnce :: bool
  ov_hostRouting :: bool


section \<open>Management events\<close>

definition on_mgmt :: "(mgmt_client \<Rightarrow> mgmt_client) \<Rightarrow> openvpn \<Rightarrow> openvpn" where
  "on_mgmt f ov = ov\<lparr>ov_mgmt := f (ov_mgmt ov)\<rparr>"

definition recordSessionEnd :: "string \<Rightarrow> string \<Rightarrow> int64 \<Rightarrow> int64 \<Rightarrow> openvpn \<Rightarrow> openvpn" where
  "recordSessionEnd cid commonName rx tx ov =
     (if cid = [] \<or> commonName = [] then ov
      else ov\<lparr>ov_endedSessions := ov_endedSessions ov @ [\<lparr>es_clientID = cid, es_commonName = commonName, es_rx = rx, es_tx = tx\<rparr>]\<rparr>)"

text \<open>The decider of the management client is the allow list of the same backend.\<close>

definition finishConnect :: "openvpn \<Rightarrow> openvpn" where
  "finishConnect ov =
     (let cid = mg_pendingCID (ov_mgmt ov); kid = mg_pendingKID (ov_mgmt ov); env = mg_pendingEnv (ov_mgmt ov);
          ov = on_mgmt (\<lambda>m. m\<lparr>mg_pendingCID := [], mg_pendingKID := [], mg_pendingEnv := None\<rparr>) ov
      in case env of
           None \<Rightarrow> ov
         | Some env \<Rightarrow>
            (if cid = [] then ov
             else
               (let cn = getd [] env ''common_name''; serial = getd [] env ''tls_serial_0'' in
                case tryConnect cn serial cid (ov_users ov) of
                  ((allowed, reason), users) \<Rightarrow>
                    (let ov = ov\<lparr>ov_users := users\<rparr>
                     in if allowed then on_mgmt (mgmt_send (''client-auth-nt '' @ cid @ '' '' @ kid)) ov
                        else on_mgmt (mgmt_send (''client-deny '' @ cid @ '' '' @ kid @ '' '' @ go_quote reason)) ov))))"

definition finishDisconnect :: "openvpn \<Rightarrow> openvpn" where
  "finishDisconnect ov =
     (let cid = mg_pendingCID (ov_mgmt ov); env = mg_pendingEnv (ov_mgmt ov);
          ov = on_mgmt (\<lambda>m. m\<lparr>mg_pendingCID := [], mg_pendingKID := [], mg_pendingEnv := None, mg_pendingDisconnect := False\<rparr>) ov
      in case env of
           None \<Rightarrow> ov
         | Some env \<Rightarrow>
            (if cid = [] then ov
             else
               (let cn = getd [] env ''common_name'';
                    ov = recordSessionEnd cid cn (ParseInt64 (getd [] env ''bytes_received'')) (ParseInt64 (getd [] env ''bytes_sent'')) ov
                in ov\<lparr>ov_users := releaseSession cn cid (ov_users ov)\<rparr>)))"

text \<open>What follows the first comma, cut at the next one.\<close>

definition event_args :: "string \<Rightarrow> string \<times> string" where
  "event_args line =
     (case Cut line '','' of
        None \<Rightarrow> (line, [])
      | Some (_, rest) \<Rightarrow> (case Cut rest '','' of None \<Rightarrow> (rest, []) | Some (a, b) \<Rightarrow> (a, b)))"

definition handleLine :: "string \<Rightarrow> openvpn \<Rightarrow> openvpn" where
  "handleLine line ov =
     (if HasPrefix line ''>CLIENT:CONNECT,'' \<or> HasPrefix line ''>CLIENT:REAUTH,''
      then on_mgmt (\<lambda>m. m\<lparr>mg_pendingCID := fst (event_args line), mg_pendingKID := snd (event_args line),
                          mg_pendingDisconnect := False, mg_pendingEnv := Some Map.empty\<rparr>) ov
      else if HasPrefix line ''>CLIENT:DISCONNECT,''
      then on_mgmt (\<lambda>m. m\<lparr>mg_pendingCID := fst (event_args line), mg_pendingKID := [],
                          mg_pendingDisconnect := True, mg_pendingEnv := Some Map.empty\<rparr>) ov
      else if HasPrefix line ''>CLIENT:ENV,'' then
        (let env = drop (length ''>CLIENT:ENV,'') line in
         if env = ''END'' then (if mg_pendingDisconnect (ov_mgmt ov) then finishDisconnect ov else finishConnect ov)
         else case Cut env ''='' of
           None \<Rightarrow> ov
         | Some (k, v) \<Rightarrow>
            (case mg_pendingEnv (ov_mgmt ov) of
               None \<Rightarrow> ov
             | Some e \<Rightarrow> on_mgmt (\<lambda>m. m\<lparr>mg_pendingEnv := Some (e(k \<mapsto> v))\<rparr>) ov))
      else if HasPrefix line (''CLIENT_LIST'' @ [byte 9]) then
        (case parseStatusLine line of
           None \<Rightarrow> ov
         | Some cs \<Rightarrow> on_mgmt (\<lambda>m. m\<lparr>mg_statusBuf := mg_statusBuf m @ [cs]\<rparr>) ov)
      else if line = ''END'' then on_mgmt publishStatus ov
      else ov)"

text \<open>The reader handles lines while the socket is open.\<close>

definition mgmt_run :: "string list \<Rightarrow> openvpn \<Rightarrow> openvpn" where
  "mgmt_run lines ov = foldl (\<lambda>ov line. if mg_open (ov_mgmt ov) then handleLine line ov else ov) ov lines"

text \<open>\<open>lines\<close> are those the reader handles between the request and the end of the wait.\<close>

definition requestStatus :: "string list \<Rightarrow> openvpn \<Rightarrow> client_status list \<times> openvpn" where
  "requestStatus lines ov =
     (let ov = on_mgmt (\<lambda>m. mgmt_send ''status 3'' (m\<lparr>mg_ready := False\<rparr>)) ov;
          ov = on_mgmt (\<lambda>m. m\<lparr>mg_ready := False\<rparr>) (mgmt_run lines ov)
      in (mg_lastStatus (ov_mgmt ov), ov))"


section \<open>Accounting\<close>

text \<open>\<^verbatim>\<open>extractIP\<close>: the address of \<^verbatim>\<open>ip:port\<close> or \<^verbatim>\<open>[ip]:port\<close>.\<close>

definition indexByte :: "string \<Rightarrow> char \<Rightarrow> int" where
  "indexByte s b = (let i = length (takeWhile (\<lambda>ch. ch \<noteq> b) s) in if i < length s then int i else - 1)"

definition lastIndexByte :: "string \<Rightarrow> char \<Rightarrow> int" where
  "lastIndexByte s b = (let i = length (takeWhile (\<lambda>ch. ch \<noteq> b) (rev s)) in if i < length s then int (length s - 1 - i) else - 1)"

definition extractIP :: "string \<Rightarrow> string" where
  "extractIP realAddress =
     (if realAddress = [] then []
      else if hd realAddress = CHR ''['' then
        (let stop = indexByte realAddress (CHR '']'')
         in if stop > 0 then drop 1 (take (nat stop) realAddress) else realAddress)
      else (let idx = lastIndexByte realAddress (CHR '':'')
            in if idx > 0 then take (nat idx) realAddress else realAddress))"

type_synonym growths = "string \<rightharpoonup> client_status"

definition no_status :: "string \<Rightarrow> string \<Rightarrow> client_status" where
  "no_status cn addr = \<lparr>cs_CommonName = cn, cs_RealAddress = addr, cs_VirtualAddr = [], cs_BytesReceived = 0, cs_BytesSent = 0, cs_ClientID = []\<rparr>"

definition add_bytes :: "int64 \<Rightarrow> int64 \<Rightarrow> client_status \<Rightarrow> client_status" where
  "add_bytes dRx dTx cs = cs\<lparr>cs_BytesReceived := add64 (cs_BytesReceived cs) dRx, cs_BytesSent := add64 (cs_BytesSent cs) dTx\<rparr>"

definition row_growth :: "int64 option \<Rightarrow> int64 \<Rightarrow> int64" where
  "row_growth prev cur = (case prev of None \<Rightarrow> cur | Some p \<Rightarrow> (let d = sub64 cur p in if d < 0 then cur else d))"

definition fold_status_row :: "growths \<times> (string \<rightharpoonup> client_status) \<Rightarrow> client_status \<Rightarrow> growths \<times> (string \<rightharpoonup> client_status)" where
  "fold_status_row st row =
     (case st of (perCN, sessionSeen) \<Rightarrow>
        (let prev = sessionSeen (cs_ClientID row);
             dRx = row_growth (map_option cs_BytesReceived prev) (cs_BytesReceived row);
             dTx = row_growth (map_option cs_BytesSent prev) (cs_BytesSent row);
             agg = (case perCN (cs_CommonName row) of None \<Rightarrow> no_status (cs_CommonName row) (cs_RealAddress row) | Some a \<Rightarrow> a);
             agg = add_bytes dRx dTx agg;
             agg = (if cs_RealAddress row \<noteq> [] then agg\<lparr>cs_RealAddress := cs_RealAddress row\<rparr> else agg)
         in (perCN(cs_CommonName row \<mapsto> agg), sessionSeen(cs_ClientID row \<mapsto> row))))"

definition end_growth :: "int64 option \<Rightarrow> int64 \<Rightarrow> int64" where
  "end_growth prev cur = (let d = (case prev of None \<Rightarrow> cur | Some p \<Rightarrow> sub64 cur p) in if d < 0 then 0 else d)"

definition fold_ended_session :: "growths \<times> (string \<rightharpoonup> client_status) \<Rightarrow> ended_session \<Rightarrow> growths \<times> (string \<rightharpoonup> client_status)" where
  "fold_ended_session st fin =
     (case st of (perCN, sessionSeen) \<Rightarrow>
        (let prev = sessionSeen (es_clientID fin);
             dRx = end_growth (map_option cs_BytesReceived prev) (es_rx fin);
             dTx = end_growth (map_option cs_BytesSent prev) (es_tx fin);
             sessionSeen = sessionSeen(es_clientID fin := None)
         in if dRx = 0 \<and> dTx = 0 then (perCN, sessionSeen)
            else
              (let agg = (case perCN (es_commonName fin) of None \<Rightarrow> no_status (es_commonName fin) [] | Some a \<Rightarrow> a)
               in (perCN(es_commonName fin \<mapsto> add_bytes dRx dTx agg), sessionSeen))))"

definition foldEndedSessionsLocked :: "growths \<Rightarrow> openvpn \<Rightarrow> growths \<times> openvpn" where
  "foldEndedSessionsLocked perCN ov =
     (case foldl fold_ended_session (perCN, ov_sessionSeen ov) (ov_endedSessions ov) of
        (perCN, sessionSeen) \<Rightarrow> (perCN, ov\<lparr>ov_sessionSeen := sessionSeen, ov_endedSessions := []\<rparr>))"

text \<open>One round of the loop that turns the growth of a user into a sample.\<close>

definition fold_growth :: "growths \<Rightarrow> sample list \<times> openvpn \<Rightarrow> string \<Rightarrow> sample list \<times> openvpn" where
  "fold_growth perCN st cn =
     (case st of (samples, ov) \<Rightarrow>
        (let growth = (case perCN cn of None \<Rightarrow> no_status cn [] | Some g \<Rightarrow> g);
             cum = (case ov_cnCumulative ov cn of None \<Rightarrow> no_status cn [] | Some c \<Rightarrow> c);
             cum = add_bytes (cs_BytesReceived growth) (cs_BytesSent growth) cum
         in (samples @ [\<lparr>sm_PublicKey = cn, sm_Email = cn, sm_Rx = cs_BytesReceived cum, sm_Tx = cs_BytesSent cum,
                         sm_EndpointIP = extractIP (cs_RealAddress growth)\<rparr>],
             ov\<lparr>ov_cnCumulative := (ov_cnCumulative ov)(cn \<mapsto> cum),
                ov_totalRx := add64 (ov_totalRx ov) (cs_BytesReceived growth),
                ov_totalTx := add64 (ov_totalTx ov) (cs_BytesSent growth)\<rparr>)))"

text \<open>The part of \<^verbatim>\<open>collectStats\<close> after the rows have arrived.\<close>

definition account_rows :: "ranger \<Rightarrow> gotime \<Rightarrow> client_status list \<Rightarrow> openvpn \<Rightarrow> openvpn" where
  "account_rows rg now rows ov =
     (case foldl fold_status_row (Map.empty, ov_sessionSeen ov) rows of
        (perCN, sessionSeen) \<Rightarrow>
          (case foldEndedSessionsLocked perCN (ov\<lparr>ov_sessionSeen := sessionSeen\<rparr>) of
             (perCN, ov) \<Rightarrow>
               (let ov = ov\<lparr>ov_sessionSeen := ov_sessionSeen ov |` (cs_ClientID ` set rows)\<rparr> in
                case foldl (fold_growth perCN) ([], ov) (keys_of rg 0 perCN) of
                  (samples, ov) \<Rightarrow>
                    if length samples > 0 then ov\<lparr>ov_tracker := UpdateStatsBatch samples now (ov_tracker ov)\<rparr> else ov)))"

definition collectStats :: "ranger \<Rightarrow> gotime \<Rightarrow> string list \<Rightarrow> openvpn \<Rightarrow> openvpn" where
  "collectStats rg now lines ov = (case requestStatus lines ov of (rows, ov) \<Rightarrow> account_rows rg now rows ov)"

datatype ov_tick = TickStats gotime "string list" | TickCleanup

fun statsLoop_tick :: "ranger \<Rightarrow> ov_tick \<Rightarrow> openvpn \<Rightarrow> openvpn" where
  "statsLoop_tick rg (TickStats now lines) ov = collectStats rg now lines ov"
| "statsLoop_tick rg TickCleanup ov = ov\<lparr>ov_tracker := CleanupDeletedEntries (ov_tracker ov)\<rparr>"

definition ov_GetStats :: "ranger \<Rightarrow> stat_request \<Rightarrow> openvpn \<Rightarrow> (string + stat list) \<times> openvpn" where
  "ov_GetStats rg request ov =
     (if ov_state ov \<noteq> OvRunning then (Inl ''openvpn not started'', ov)
      else
        (case sr_Type request of
           UserStat \<Rightarrow> (case GetStats [sr_Name request] (sr_Reset request) (ov_tracker ov) of (stats, t) \<Rightarrow> (Inr stats, ov\<lparr>ov_tracker := t\<rparr>))
         | UsersStat \<Rightarrow> (case GetUsersStats (keys_of rg 0 (ov_tracker ov)) (sr_Reset request) (ov_tracker ov) of
                           (stats, t) \<Rightarrow> (Inr stats, ov\<lparr>ov_tracker := t\<rparr>))
         | Outbound \<Rightarrow> (case Delta (ov_totalRx ov) (ov_totalTx ov) (sr_Reset request) (ov_interfaceStats ov) of
             ((dRx, dTx), t) \<Rightarrow> (Inr (BuildInterfaceStats (oc_InboundTag (ov_config ov)) ''outbound'' dRx dTx), ov\<lparr>ov_interfaceStats := t\<rparr>))
         | Outbounds \<Rightarrow> (case Delta (ov_totalRx ov) (ov_totalTx ov) (sr_Reset request) (ov_interfaceStats ov) of
             ((dRx, dTx), t) \<Rightarrow> (Inr (BuildInterfaceStats (oc_InboundTag (ov_config ov)) ''outbound'' dRx dTx), ov\<lparr>ov_interfaceStats := t\<rparr>))
         | _ \<Rightarrow> (Inl ''unsupported stat type for openvpn'', ov)))"

definition ov_GetUserOnlineStats :: "gotime \<Rightarrow> string \<Rightarrow> openvpn \<Rightarrow> string + online_stat" where
  "ov_GetUserOnlineStats now email ov =
     (if ov_state ov \<noteq> OvRunning then Inl ''openvpn not started''
      else Inr \<lparr>os_Name = email, os_Value = if AnyActiveSince [email] (now - 60000000000) (ov_tracker ov) then 1 else 0\<rparr>)"

definition ov_GetUserOnlineIpListStats :: "string \<Rightarrow> openvpn \<Rightarrow> string + online_ips" where
  "ov_GetUserOnlineIpListStats email ov =
     (if ov_state ov \<noteq> OvRunning then Inl ''openvpn not started''
      else Inr \<lparr>oi_Name = email, oi_Ips = Map.empty ++ EndpointActivity [email] (ov_tracker ov)\<rparr>)"

definition ov_GetSysStats :: "mem_stats \<Rightarrow> gotime \<Rightarrow> openvpn \<Rightarrow> string + backend_stats" where
  "ov_GetSysStats ms now ov =
     (if ov_state ov \<noteq> OvRunning then Inl ''openvpn not started'' else Inr (runtime_stats ms now (ov_startTime ov)))"


section \<open>Life of the server\<close>

definition startProcess :: "ov_env \<Rightarrow> string \<Rightarrow> openvpn \<Rightarrow> err \<times> openvpn" where
  "startProcess E confPath ov =
     (let ov = ov\<lparr>ov_version := oe_version E\<rparr> in
      case oe_exec E confPath of
        Some err \<Rightarrow> (Some (''start openvpn: '' @ err), ov)
      | None \<Rightarrow> (None, ov\<lparr>ov_process := True\<rparr>))"

definition stopProcess :: "openvpn \<Rightarrow> openvpn" where
  "stopProcess ov = ov\<lparr>ov_process := False\<rparr>"

definition connect_mgmt :: "ov_env \<Rightarrow> openvpn \<Rightarrow> err \<times> openvpn" where
  "connect_mgmt E ov =
     (case mgmt_connect E (mgmtSocketPath (ov_config ov)) newMgmtClient of (e, m) \<Rightarrow> (e, ov\<lparr>ov_mgmt := m\<rparr>))"

definition fresh_openvpn :: "ov_config \<Rightarrow> gotime \<Rightarrow> openvpn" where
  "fresh_openvpn c now =
     \<lparr>ov_config = c, ov_users = newUserStore (oc_InboundTag c), ov_mgmt = newMgmtClient, ov_tracker = newTracker,
      ov_interfaceStats = NewInterfaceCountersTracker, ov_totalRx = 0, ov_totalTx = 0, ov_sessionSeen = Map.empty,
      ov_cnCumulative = Map.empty, ov_endedSessions = [], ov_process = False, ov_startTime = now, ov_version = [],
      ov_state = OvStopped, ov_shutdownOnce = False, ov_hostRouting = False\<rparr>"

text \<open>The object is returned with the error too, to show what a failed start leaves running.\<close>

definition ov_New :: "ov_env \<Rightarrow> ranger \<Rightarrow> gotime \<Rightarrow> string \<Rightarrow> ov_config \<Rightarrow> user list \<Rightarrow> err \<times> openvpn" where
  "ov_New E rg now generatedPath c users =
     (let c = (if oc_workDir c = [] then c\<lparr>oc_workDir := path_join [generatedPath, ''openvpn'', oc_InboundTag c]\<rparr> else c);
          ov = fresh_openvpn c now;
          ov = ov\<lparr>ov_users := snd (replaceAll rg users (ov_users ov))\<rparr>
      in case fst (writeFiles E rg c) of
           Inl err \<Rightarrow> (Some err, ov)
         | Inr confPath \<Rightarrow>
            (case startProcess E confPath ov of
               (Some err, ov) \<Rightarrow> (Some err, ov)
             | (None, ov) \<Rightarrow>
                (case connect_mgmt E ov of
                   (Some err, ov) \<Rightarrow> (Some err, stopProcess ov)
                 | (None, ov) \<Rightarrow> (None, ov\<lparr>ov_hostRouting := oe_routed E (oc_ServerSubnet c), ov_state := OvRunning\<rparr>))))"

definition ov_Started :: "openvpn \<Rightarrow> bool" where
  "ov_Started ov \<longleftrightarrow> ov_state ov = OvRunning"

definition ov_Restart :: "ov_env \<Rightarrow> openvpn \<Rightarrow> err \<times> openvpn" where
  "ov_Restart E ov =
     (let confPath = path_join [oc_workDir (ov_config ov), ''server.conf'']; ov = stopProcess ov in
      case startProcess E confPath ov of
        (Some err, ov) \<Rightarrow> (Some err, ov)
      | (None, ov) \<Rightarrow> connect_mgmt E (on_mgmt mgmt_close ov))"

definition ov_Shutdown :: "openvpn \<Rightarrow> openvpn" where
  "ov_Shutdown ov =
     (if ov_shutdownOnce ov then ov
      else (stopProcess (on_mgmt mgmt_close ov))
             \<lparr>ov_shutdownOnce := True, ov_hostRouting := False, ov_state := OvStopped, ov_version := []\<rparr>)"

definition kill_user :: "string \<Rightarrow> openvpn \<Rightarrow> openvpn" where
  "kill_user cn ov = on_mgmt (mgmt_kill cn) ov"

fun ov_applyUsers :: "user list \<Rightarrow> openvpn \<Rightarrow> openvpn" where
  "ov_applyUsers [] ov = ov"
| "ov_applyUsers (u # us) ov =
     (case applyUser u (ov_users ov) of
        ((cn, changedSerial, removed), users) \<Rightarrow>
          (let ov = ov\<lparr>ov_users := users\<rparr> in
           if cn = [] then ov_applyUsers us ov
           else if removed then ov_applyUsers us (kill_user cn ov)
           else if changedSerial then ov_applyUsers us (kill_user cn ov)
           else ov_applyUsers us ov))"

definition ov_SyncUser :: "user \<Rightarrow> openvpn \<Rightarrow> err \<times> openvpn" where
  "ov_SyncUser u ov = (None, ov_applyUsers [u] ov)"

definition ov_SyncUsers :: "ranger \<Rightarrow> user list \<Rightarrow> openvpn \<Rightarrow> err \<times> openvpn" where
  "ov_SyncUsers rg us ov =
     (case replaceAll rg us (ov_users ov) of
        (removed, users) \<Rightarrow> (None, foldl (\<lambda>ov cn. kill_user cn ov) (ov\<lparr>ov_users := users\<rparr>) removed))"

definition ov_UpdateUsers :: "user list \<Rightarrow> openvpn \<Rightarrow> err \<times> openvpn" where
  "ov_UpdateUsers us ov = (None, ov_applyUsers us ov)"

definition ov_UpdateUsersAndRestart :: "ov_env \<Rightarrow> ranger \<Rightarrow> user list \<Rightarrow> openvpn \<Rightarrow> err \<times> openvpn" where
  "ov_UpdateUsersAndRestart E rg us ov = ov_Restart E (ov\<lparr>ov_users := snd (replaceAll rg us (ov_users ov))\<rparr>)"

text \<open>
  Several listeners are several servers. The second component is what was started and shut down again.
\<close>

fun start_listeners :: "ov_env \<Rightarrow> ranger \<Rightarrow> gotime \<Rightarrow> string \<Rightarrow> ov_config \<Rightarrow> user list \<Rightarrow> nat \<Rightarrow> listener list \<Rightarrow>
    openvpn list \<Rightarrow> (string + openvpn list) \<times> openvpn list" where
  "start_listeners E rg now path c users i [] started = (Inr started, [])"
| "start_listeners E rg now path c users i (l # ls) started =
     (case derive c path l i (length (oc_Listeners c)) of
        Inl err \<Rightarrow> (Inl err, map ov_Shutdown started)
      | Inr derived \<Rightarrow>
         (case ov_New E rg now path derived users of
            (Some err, _) \<Rightarrow>
              (Inl (''start openvpn listener '' @ li_Proto l @ ''/'' @ show_int (li_Port l) @ '': '' @ err), map ov_Shutdown started)
          | (None, instance1) \<Rightarrow> start_listeners E rg now path c users (Suc i) ls (started @ [instance1])))"

definition NewBackend :: "ov_env \<Rightarrow> ranger \<Rightarrow> gotime \<Rightarrow> string \<Rightarrow> ov_config \<Rightarrow> user list \<Rightarrow> (string + openvpn list) \<times> openvpn list" where
  "NewBackend E rg now path c users =
     (if length (oc_Listeners c) \<le> 1
      then (case ov_New E rg now path c users of (Some err, _) \<Rightarrow> (Inl err, []) | (None, ov) \<Rightarrow> (Inr [ov], []))
      else start_listeners E rg now path c users 0 (oc_Listeners c) [])"

end
