(* ===== verification/Openvpn_Billing.thy ===== *)
theory Openvpn_Billing
  imports Openvpn
begin

text \<open>
  The accounting of the OpenVPN backend. The daemon counts bytes per session and forgets a session that
  ends; the node polls the living sessions, takes the final totals of the ended ones from their
  disconnect events, and adds the growth up per user. Shown here: at every poll the counter of a user
  is the sum over all sessions the user ever had, each counted once and to its last byte, also when an
  answer of the daemon still lists a session whose end is already queued.
\<close>

section \<open>What the loops add up\<close>

fun cs_of :: "dir \<Rightarrow> client_status \<Rightarrow> int" where
  "cs_of Uplink cs = cs_BytesReceived cs"
| "cs_of Downlink cs = cs_BytesSent cs"

fun es_of :: "dir \<Rightarrow> ended_session \<Rightarrow> int" where
  "es_of Uplink es = es_rx es"
| "es_of Downlink es = es_tx es"

definition bytes_at :: "dir \<Rightarrow> growths \<Rightarrow> string \<Rightarrow> int" where
  "bytes_at d m cn = (case m cn of None \<Rightarrow> 0 | Some cs \<Rightarrow> cs_of d cs)"

lemma cs_of_simps [simp]:
  "cs_of d (no_status cn addr) = 0"
  "cs_of d (add_bytes rx tx cs) = add64 (cs_of d cs) (case d of Uplink \<Rightarrow> rx | Downlink \<Rightarrow> tx)"
  "cs_of d (cs\<lparr>cs_RealAddress := addr\<rparr>) = cs_of d cs"
  by (cases d; simp add: no_status_def add_bytes_def)+

lemma bytes_at_upd [simp]: "bytes_at d (m(cn \<mapsto> cs)) cn' = (if cn' = cn then cs_of d cs else bytes_at d m cn')"
  by (simp add: bytes_at_def)

lemma bytes_at_empty [simp]: "bytes_at d Map.empty cn = 0"
  by (simp add: bytes_at_def)

lemma bytes_at_default: "cs_of d (case m cn of None \<Rightarrow> no_status cn addr | Some a \<Rightarrow> a) = bytes_at d m cn"
  by (simp add: bytes_at_def split: option.split)

lemmas bytes_at_defaults = bytes_at_default bytes_at_default [of Uplink, simplified] bytes_at_default [of Downlink, simplified]

definition seen_of :: "dir \<Rightarrow> (string \<rightharpoonup> client_status) \<Rightarrow> string \<Rightarrow> int option" where
  "seen_of d seen cid = map_option (cs_of d) (seen cid)"

lemma seen_of_simps: "map_option cs_BytesReceived (seen cid) = seen_of Uplink seen cid" "map_option cs_BytesSent (seen cid) = seen_of Downlink seen cid"
  by (cases "seen cid"; simp add: seen_of_def)+

lemma wrap64_add64: "wrap64 (add64 a b) = wrap64 (a + b)" "wrap64 (add64 a b + c) = wrap64 (a + b + c)"
  by (simp_all add: add64_def wrap64_add_left wrap64_id)

lemma status_row_step:
  assumes "fold_status_row (m, seen) row = (m', seen')"
  shows "seen' = seen(cs_ClientID row \<mapsto> row)" "dom m' = insert (cs_CommonName row) (dom m)"
    "wrap64 (bytes_at d m' cn) = wrap64 (bytes_at d m cn + (if cs_CommonName row = cn then row_growth (seen_of d seen (cs_ClientID row)) (cs_of d row) else 0))"
proof -
  obtain agg where m': "m' = m(cs_CommonName row \<mapsto> agg)" and seen': "seen' = seen(cs_ClientID row \<mapsto> row)"
    and agg: "\<And>d. cs_of d agg = add64 (bytes_at d m (cs_CommonName row)) (row_growth (seen_of d seen (cs_ClientID row)) (cs_of d row))"
  proof -
    define a where "a = add_bytes (row_growth (seen_of Uplink seen (cs_ClientID row)) (cs_BytesReceived row))
      (row_growth (seen_of Downlink seen (cs_ClientID row)) (cs_BytesSent row))
      (case m (cs_CommonName row) of None \<Rightarrow> no_status (cs_CommonName row) (cs_RealAddress row) | Some a \<Rightarrow> a)"
    have a: "cs_of d a = add64 (bytes_at d m (cs_CommonName row)) (row_growth (seen_of d seen (cs_ClientID row)) (cs_of d row))" for d
      by (cases d) (simp_all add: a_def bytes_at_default)
    show thesis
      by (rule that [of "if cs_RealAddress row \<noteq> [] then a\<lparr>cs_RealAddress := cs_RealAddress row\<rparr> else a"])
        (use assms a in \<open>auto simp: fold_status_row_def Let_def seen_of_simps a_def\<close>)
  qed
  show "seen' = seen(cs_ClientID row \<mapsto> row)" "dom m' = insert (cs_CommonName row) (dom m)" by (simp_all add: seen' m')
  show "wrap64 (bytes_at d m' cn) = wrap64 (bytes_at d m cn + (if cs_CommonName row = cn then row_growth (seen_of d seen (cs_ClientID row)) (cs_of d row) else 0))"
    by (auto simp: m' agg wrap64_add64)
qed

lemma ended_step:
  assumes "fold_ended_session (m, seen) fin = (m', seen')"
  shows "seen' = seen(es_clientID fin := None)" "dom m' \<subseteq> insert (es_commonName fin) (dom m)"
    "wrap64 (bytes_at d m' cn) = wrap64 (bytes_at d m cn + (if es_commonName fin = cn then end_growth (seen_of d seen (es_clientID fin)) (es_of d fin) else 0))"
proof -
  let ?g = "\<lambda>d. end_growth (seen_of d seen (es_clientID fin)) (es_of d fin)"
  have zero: "?g d = 0" if "?g Uplink = 0" "?g Downlink = 0" for d using that by (cases d) auto
  let ?a = "add_bytes (?g Uplink) (?g Downlink) (case m (es_commonName fin) of None \<Rightarrow> no_status (es_commonName fin) [] | Some a \<Rightarrow> a)"
  have eq: "(m', seen') = (if ?g Uplink = 0 \<and> ?g Downlink = 0 then m else m(es_commonName fin \<mapsto> ?a), seen(es_clientID fin := None))"
    using assms by (auto simp: fold_ended_session_def Let_def seen_of_simps split: if_splits)
  then show "seen' = seen(es_clientID fin := None)" "dom m' \<subseteq> insert (es_commonName fin) (dom m)" by (auto split: if_splits)
  show "wrap64 (bytes_at d m' cn) = wrap64 (bytes_at d m cn + (if es_commonName fin = cn then ?g d else 0))"
    using eq zero [of d] by (cases d) (auto simp: bytes_at_defaults wrap64_add64)
qed


lemma status_rows:
  assumes "distinct (map cs_ClientID rows)" "foldl fold_status_row (m, seen) rows = (m', seen')"
  shows "seen' = seen ++ map_of (map (\<lambda>r. (cs_ClientID r, r)) rows) \<and> dom m' = dom m \<union> cs_CommonName ` set rows \<and>
    (\<forall>d cn. wrap64 (bytes_at d m' cn) =
       wrap64 (bytes_at d m cn + (\<Sum>r\<leftarrow>filter (\<lambda>r. cs_CommonName r = cn) rows. row_growth (seen_of d seen (cs_ClientID r)) (cs_of d r))))"
  using assms
proof (induction rows arbitrary: m seen)
  case (Cons r rows)
  obtain m1 seen1 where st: "fold_status_row (m, seen) r = (m1, seen1)" by fastforce
  note step = status_row_step [OF st]
  have new: "cs_ClientID r \<notin> cs_ClientID ` set rows" and dis: "distinct (map cs_ClientID rows)" using Cons.prems(1) by auto
  have ih: "seen' = seen1 ++ map_of (map (\<lambda>r. (cs_ClientID r, r)) rows) \<and> dom m' = dom m1 \<union> cs_CommonName ` set rows \<and>
    (\<forall>d cn. wrap64 (bytes_at d m' cn) =
       wrap64 (bytes_at d m1 cn + (\<Sum>r\<leftarrow>filter (\<lambda>r. cs_CommonName r = cn) rows. row_growth (seen_of d seen1 (cs_ClientID r)) (cs_of d r))))"
    by (rule Cons.IH [OF dis]) (use Cons.prems(2) st in simp)
  have same: "row_growth (seen_of d seen1 (cs_ClientID r')) (cs_of d r') = row_growth (seen_of d seen (cs_ClientID r')) (cs_of d r')"
    if "r' \<in> set rows" for d r'
    using new that by (simp add: step(1) seen_of_def) (metis (no_types) image_eqI)
  have sum: "(\<Sum>r\<leftarrow>filter (\<lambda>r. cs_CommonName r = cn) rows. row_growth (seen_of d seen1 (cs_ClientID r)) (cs_of d r)) =
      (\<Sum>r\<leftarrow>filter (\<lambda>r. cs_CommonName r = cn) rows. row_growth (seen_of d seen (cs_ClientID r)) (cs_of d r))" for d cn
    by (intro arg_cong [where f = sum_list] map_cong) (simp_all add: same)
  have notin: "map_of (map (\<lambda>r. (cs_ClientID r, r)) rows) (cs_ClientID r) = None"
    using new by (auto simp: map_of_eq_None_iff)
  have "seen' = seen ++ map_of (map (\<lambda>r. (cs_ClientID r, r)) (r # rows))"
    using ih notin by (auto simp: step(1) map_add_def fun_eq_iff split: option.splits)
  moreover have "dom m' = dom m \<union> cs_CommonName ` set (r # rows)" using ih step(2) by auto
  moreover have "wrap64 (bytes_at d m' cn) =
       wrap64 (bytes_at d m cn + (\<Sum>r\<leftarrow>filter (\<lambda>r. cs_CommonName r = cn) (r # rows). row_growth (seen_of d seen (cs_ClientID r)) (cs_of d r)))" for d cn
  proof -
    let ?s = "\<Sum>r\<leftarrow>filter (\<lambda>r. cs_CommonName r = cn) rows. row_growth (seen_of d seen (cs_ClientID r)) (cs_of d r)"
    have "wrap64 (bytes_at d m' cn) = wrap64 (wrap64 (bytes_at d m1 cn) + ?s)" using ih by (simp add: sum wrap64_add_left)
    also have "\<dots> = wrap64 (bytes_at d m cn + (if cs_CommonName r = cn then row_growth (seen_of d seen (cs_ClientID r)) (cs_of d r) else 0) + ?s)"
      unfolding step(3) wrap64_add_left ..
    finally show ?thesis by (simp add: add.assoc)
  qed
  ultimately show ?case by blast
qed (simp add: map_add_def)

lemma ended_rows:
  assumes "distinct (map es_clientID q)" "foldl fold_ended_session (m, seen) q = (m', seen')"
  shows "seen' = seen |` (- es_clientID ` set q) \<and> dom m' \<subseteq> dom m \<union> es_commonName ` set q \<and>
    (\<forall>d cn. wrap64 (bytes_at d m' cn) =
       wrap64 (bytes_at d m cn + (\<Sum>f\<leftarrow>filter (\<lambda>f. es_commonName f = cn) q. end_growth (seen_of d seen (es_clientID f)) (es_of d f))))"
  using assms
proof (induction q arbitrary: m seen)
  case (Cons r rows)
  obtain m1 seen1 where st: "fold_ended_session (m, seen) r = (m1, seen1)" by fastforce
  note step = ended_step [OF st]
  have new: "es_clientID r \<notin> es_clientID ` set rows" and dis: "distinct (map es_clientID rows)" using Cons.prems(1) by auto
  have ih: "seen' = seen1 |` (- es_clientID ` set rows) \<and> dom m' \<subseteq> dom m1 \<union> es_commonName ` set rows \<and>
    (\<forall>d cn. wrap64 (bytes_at d m' cn) =
       wrap64 (bytes_at d m1 cn + (\<Sum>r\<leftarrow>filter (\<lambda>r. es_commonName r = cn) rows. end_growth (seen_of d seen1 (es_clientID r)) (es_of d r))))"
    by (rule Cons.IH [OF dis]) (use Cons.prems(2) st in simp)
  have same: "end_growth (seen_of d seen1 (es_clientID r')) (es_of d r') = end_growth (seen_of d seen (es_clientID r')) (es_of d r')"
    if "r' \<in> set rows" for d r'
    using new that by (simp add: step(1) seen_of_def) (metis (no_types) image_eqI)
  have sum: "(\<Sum>r\<leftarrow>filter (\<lambda>r. es_commonName r = cn) rows. end_growth (seen_of d seen1 (es_clientID r)) (es_of d r)) =
      (\<Sum>r\<leftarrow>filter (\<lambda>r. es_commonName r = cn) rows. end_growth (seen_of d seen (es_clientID r)) (es_of d r))" for d cn
    by (intro arg_cong [where f = sum_list] map_cong) (simp_all add: same)
  have "seen' = seen |` (- es_clientID ` set (r # rows))"
    using ih by (auto simp: step(1) restrict_map_def fun_eq_iff)
  moreover have "dom m' \<subseteq> dom m \<union> es_commonName ` set (r # rows)"
    using ih [THEN conjunct2, THEN conjunct1] step(2) unfolding list.set image_insert by blast
  moreover have "wrap64 (bytes_at d m' cn) =
       wrap64 (bytes_at d m cn + (\<Sum>r\<leftarrow>filter (\<lambda>r. es_commonName r = cn) (r # rows). end_growth (seen_of d seen (es_clientID r)) (es_of d r)))" for d cn
  proof -
    let ?s = "\<Sum>r\<leftarrow>filter (\<lambda>r. es_commonName r = cn) rows. end_growth (seen_of d seen (es_clientID r)) (es_of d r)"
    have "wrap64 (bytes_at d m' cn) = wrap64 (wrap64 (bytes_at d m1 cn) + ?s)" using ih by (simp add: sum wrap64_add_left)
    also have "\<dots> = wrap64 (bytes_at d m cn + (if es_commonName r = cn then end_growth (seen_of d seen (es_clientID r)) (es_of d r) else 0) + ?s)"
      unfolding step(3) wrap64_add_left ..
    finally show ?thesis by (simp add: add.assoc)
  qed
  ultimately show ?case by blast
qed (simp add: restrict_map_def)

lemma growth_rounds:
  assumes "distinct ks" "foldl (fold_growth m) (samples, ov) ks = (samples', ov')"
  shows "(\<forall>d cn. bytes_at d (ov_cnCumulative ov') cn =
      (if cn \<in> set ks then add64 (bytes_at d (ov_cnCumulative ov) cn) (bytes_at d m cn) else bytes_at d (ov_cnCumulative ov) cn)) \<and>
    ov_sessionSeen ov' = ov_sessionSeen ov \<and> ov_endedSessions ov' = ov_endedSessions ov"
  using assms
proof (induction ks arbitrary: samples ov)
  case (Cons k ks)
  obtain s1 ov1 where st: "fold_growth m (samples, ov) k = (s1, ov1)" by fastforce
  have one: "bytes_at d (ov_cnCumulative ov1) cn =
      (if cn = k then add64 (bytes_at d (ov_cnCumulative ov) cn) (bytes_at d m cn) else bytes_at d (ov_cnCumulative ov) cn)" for d cn
  proof -
    have "(case d of Uplink \<Rightarrow> cs_BytesReceived x | Downlink \<Rightarrow> cs_BytesSent x) = cs_of d x" for x by (cases d) simp_all
    then show ?thesis using st by (auto simp: fold_growth_def Let_def bytes_at_default)
  qed
  have fields: "ov_sessionSeen ov1 = ov_sessionSeen ov" "ov_endedSessions ov1 = ov_endedSessions ov"
    using st by (auto simp: fold_growth_def Let_def)
  from Cons.IH [of s1 ov1] Cons.prems st one fields show ?case by auto
qed simp


lemma account_rows_facts:
  fixes ov :: openvpn
  assumes "range_order rg" "distinct (map cs_ClientID rows)" "distinct (map es_clientID (ov_endedSessions ov))"
    and "account_rows rg now rows ov = ov'"
  shows "ov_sessionSeen ov' = ((ov_sessionSeen ov ++ map_of (map (\<lambda>r. (cs_ClientID r, r)) rows))
        |` (cs_ClientID ` set rows - es_clientID ` set (ov_endedSessions ov)))"
    "ov_endedSessions ov' = []"
    "wrap64 (bytes_at d (ov_cnCumulative ov') cn) = wrap64 (bytes_at d (ov_cnCumulative ov) cn +
       (\<Sum>r\<leftarrow>filter (\<lambda>r. cs_CommonName r = cn) rows. row_growth (seen_of d (ov_sessionSeen ov) (cs_ClientID r)) (cs_of d r)) +
       (\<Sum>f\<leftarrow>filter (\<lambda>f. es_commonName f = cn) (ov_endedSessions ov).
          end_growth (seen_of d (ov_sessionSeen ov ++ map_of (map (\<lambda>r. (cs_ClientID r, r)) rows)) (es_clientID f)) (es_of d f)))"
    "in_i64 (bytes_at d (ov_cnCumulative ov) cn) \<Longrightarrow> in_i64 (bytes_at d (ov_cnCumulative ov') cn)"
proof -
  obtain m1 seen1 where rows: "foldl fold_status_row (Map.empty, ov_sessionSeen ov) rows = (m1, seen1)" by fastforce
  note r = status_rows [OF assms(2) rows]
  obtain m2 seen2 where ended: "foldl fold_ended_session (m1, seen1) (ov_endedSessions ov) = (m2, seen2)" by fastforce
  note e = ended_rows [OF assms(3) ended]
  define ov2 where "ov2 = ov\<lparr>ov_endedSessions := [], ov_sessionSeen := seen2 |` (cs_ClientID ` set rows)\<rparr>"
  obtain samples ov3 where g: "foldl (fold_growth m2) ([], ov2) (keys_of rg 0 m2) = (samples, ov3)" by fastforce
  have fin: "finite (dom m2)"
  proof -
    have "dom m2 \<subseteq> cs_CommonName ` set rows \<union> es_commonName ` set (ov_endedSessions ov)" using r e by auto
    then show ?thesis by (rule finite_subset) simp
  qed
  note ks = distinct_keys_of [OF assms(1) fin, of 0] set_keys_of [OF assms(1) fin, of 0]
  note gr = growth_rounds [OF ks(1) g]
  have ov': "ov' = ov3 \<or> ov' = ov3\<lparr>ov_tracker := UpdateStatsBatch samples now (ov_tracker ov3)\<rparr>"
    using assms(4) rows ended g by (auto simp: account_rows_def foldEndedSessionsLocked_def ov2_def Let_def split: if_splits)
  then have same: "ov_cnCumulative ov' = ov_cnCumulative ov3" "ov_sessionSeen ov' = ov_sessionSeen ov3" "ov_endedSessions ov' = ov_endedSessions ov3" by auto
  have s1: "seen1 = ov_sessionSeen ov ++ map_of (map (\<lambda>r. (cs_ClientID r, r)) rows)" using r by blast
  have s2: "seen2 = seen1 |` (- es_clientID ` set (ov_endedSessions ov))" using e by blast
  show "ov_sessionSeen ov' = ((ov_sessionSeen ov ++ map_of (map (\<lambda>r. (cs_ClientID r, r)) rows))
        |` (cs_ClientID ` set rows - es_clientID ` set (ov_endedSessions ov)))"
    using gr by (auto simp: same ov2_def s1 [symmetric] s2 restrict_map_def fun_eq_iff)
  show "ov_endedSessions ov' = []" using gr by (simp add: same ov2_def)
  have cum: "bytes_at d (ov_cnCumulative ov') cn = (if cn \<in> dom m2 then add64 (bytes_at d (ov_cnCumulative ov) cn) (bytes_at d m2 cn) else bytes_at d (ov_cnCumulative ov) cn)"
    using gr ks(2) by (simp add: same ov2_def)
  have "bytes_at d m2 cn = 0" if "cn \<notin> dom m2" using that by (auto simp: bytes_at_def split: option.split)
  then have "wrap64 (bytes_at d (ov_cnCumulative ov') cn) = wrap64 (bytes_at d (ov_cnCumulative ov) cn + bytes_at d m2 cn)"
    using cum by (simp add: wrap64_add64)
  also have "\<dots> = wrap64 (bytes_at d (ov_cnCumulative ov) cn + wrap64 (bytes_at d m2 cn))" by (simp add: wrap64_add_right)
  also have "wrap64 (bytes_at d m2 cn) = wrap64 (wrap64 (bytes_at d m1 cn) + (\<Sum>f\<leftarrow>filter (\<lambda>f. es_commonName f = cn) (ov_endedSessions ov).
          end_growth (seen_of d seen1 (es_clientID f)) (es_of d f)))" using e by (simp add: wrap64_add_left)
  also have "wrap64 (bytes_at d m1 cn) = wrap64 (\<Sum>r\<leftarrow>filter (\<lambda>r. cs_CommonName r = cn) rows. row_growth (seen_of d (ov_sessionSeen ov) (cs_ClientID r)) (cs_of d r))"
    using r by (simp add: bytes_at_def)
  finally show "wrap64 (bytes_at d (ov_cnCumulative ov') cn) = wrap64 (bytes_at d (ov_cnCumulative ov) cn +
       (\<Sum>r\<leftarrow>filter (\<lambda>r. cs_CommonName r = cn) rows. row_growth (seen_of d (ov_sessionSeen ov) (cs_ClientID r)) (cs_of d r)) +
       (\<Sum>f\<leftarrow>filter (\<lambda>f. es_commonName f = cn) (ov_endedSessions ov).
          end_growth (seen_of d (ov_sessionSeen ov ++ map_of (map (\<lambda>r. (cs_ClientID r, r)) rows)) (es_clientID f)) (es_of d f)))"
    unfolding s1 by (simp add: wrap64_add_left wrap64_add_right add.assoc)
  show "in_i64 (bytes_at d (ov_cnCumulative ov) cn) \<Longrightarrow> in_i64 (bytes_at d (ov_cnCumulative ov') cn)"
    using cum by auto
qed


section \<open>The daemon\<close>

text \<open>
  What the daemon knows: every session it ever had with the bytes it moved, and which are alive.
\<close>

record vpn_daemon =
  dm_hist :: "string \<rightharpoonup> client_status"
  dm_live :: "string set"

definition status_ok :: "client_status \<Rightarrow> bool" where
  "status_ok cs \<longleftrightarrow> (\<forall>d. 0 \<le> cs_of d cs \<and> cs_of d cs < 2 ^ 63)"

definition queued :: "openvpn \<Rightarrow> string set" where
  "queued ov = es_clientID ` set (ov_endedSessions ov)"

text \<open>
  \<open>row_of\<close>: a status row of a session, older than its present totals perhaps, but not older than what was
  last seen. An answer to \<^verbatim>\<open>status 3\<close> lists every session that was alive when it was made; since then
  sessions may have ended whose end is still queued, and others may have begun.
\<close>

definition row_of :: "vpn_daemon \<Rightarrow> openvpn \<Rightarrow> client_status \<Rightarrow> bool" where
  "row_of dm ov r \<longleftrightarrow> cs_ClientID r \<in> dm_live dm \<union> queued ov \<and>
     (\<exists>h. dm_hist dm (cs_ClientID r) = Some h \<and> cs_CommonName r = cs_CommonName h \<and>
        (\<forall>d. (case seen_of d (ov_sessionSeen ov) (cs_ClientID r) of None \<Rightarrow> 0 | Some p \<Rightarrow> p) \<le> cs_of d r \<and> cs_of d r \<le> cs_of d h))"

definition legal_rows :: "vpn_daemon \<Rightarrow> openvpn \<Rightarrow> client_status list \<Rightarrow> bool" where
  "legal_rows dm ov rows \<longleftrightarrow> distinct (map cs_ClientID rows) \<and> list_all (row_of dm ov) rows \<and>
     dom (ov_sessionSeen ov) \<inter> dm_live dm \<subseteq> cs_ClientID ` set rows"

definition accounting :: "openvpn \<Rightarrow> (string \<rightharpoonup> client_status) \<times> (string \<rightharpoonup> client_status) \<times> ended_session list" where
  "accounting ov = (ov_sessionSeen ov, ov_cnCumulative ov, ov_endedSessions ov)"

text \<open>
  Daemon and node together, for one life of the daemon: sessions begin under a fresh identifier, move
  bytes and end, which the node learns from the disconnect event; the node polls; and anything else
  the node does leaves the accounting alone.
\<close>

inductive vpn_run :: "vpn_daemon \<Rightarrow> openvpn \<Rightarrow> bool" where
  vpn_start: "vpn_run \<lparr>dm_hist = Map.empty, dm_live = {}\<rparr> (fresh_openvpn c now)"
| vpn_begin: "vpn_run dm ov \<Longrightarrow> dm_hist dm cid = None \<Longrightarrow> cid \<noteq> [] \<Longrightarrow> cn \<noteq> [] \<Longrightarrow>
    vpn_run (dm\<lparr>dm_hist := (dm_hist dm)(cid \<mapsto> (no_status cn addr)\<lparr>cs_ClientID := cid\<rparr>), dm_live := insert cid (dm_live dm)\<rparr>) ov"
| vpn_moves: "vpn_run dm ov \<Longrightarrow> cid \<in> dm_live dm \<Longrightarrow> dm_hist dm cid = Some h \<Longrightarrow> status_ok h' \<Longrightarrow>
    cs_CommonName h' = cs_CommonName h \<Longrightarrow> (\<And>d. cs_of d h \<le> cs_of d h') \<Longrightarrow>
    vpn_run (dm\<lparr>dm_hist := (dm_hist dm)(cid \<mapsto> h')\<rparr>) ov"
| vpn_ends: "vpn_run dm ov \<Longrightarrow> cid \<in> dm_live dm \<Longrightarrow> dm_hist dm cid = Some h \<Longrightarrow>
    vpn_run (dm\<lparr>dm_live := dm_live dm - {cid}\<rparr>) (recordSessionEnd cid (cs_CommonName h) (cs_BytesReceived h) (cs_BytesSent h) ov)"
| vpn_poll: "vpn_run dm ov \<Longrightarrow> range_order rg \<Longrightarrow> legal_rows dm ov rows \<Longrightarrow> vpn_run dm (account_rows rg now rows ov)"
| vpn_other: "vpn_run dm ov \<Longrightarrow> accounting ov' = accounting ov \<Longrightarrow> vpn_run dm ov'"

definition sessions_of :: "vpn_daemon \<Rightarrow> string \<Rightarrow> string set" where
  "sessions_of dm cn = {cid. \<exists>h. dm_hist dm cid = Some h \<and> cs_CommonName h = cn}"

definition moved_by :: "dir \<Rightarrow> vpn_daemon \<Rightarrow> string \<Rightarrow> int" where
  "moved_by d dm cid = (case dm_hist dm cid of None \<Rightarrow> 0 | Some h \<Rightarrow> cs_of d h)"

text \<open>How much of a session the node has counted.\<close>

definition counted :: "dir \<Rightarrow> vpn_daemon \<Rightarrow> openvpn \<Rightarrow> string \<Rightarrow> int" where
  "counted d dm ov cid =
     (case seen_of d (ov_sessionSeen ov) cid of
        Some p \<Rightarrow> p
      | None \<Rightarrow> if cid \<in> dm_live dm \<union> queued ov then 0 else moved_by d dm cid)"

definition vpn_inv :: "vpn_daemon \<Rightarrow> openvpn \<Rightarrow> bool" where
  "vpn_inv dm ov \<longleftrightarrow>
     finite (dom (dm_hist dm)) \<and> dm_live dm \<subseteq> dom (dm_hist dm) \<and> [] \<notin> dom (dm_hist dm) \<and>
     (\<forall>cid h. dm_hist dm cid = Some h \<longrightarrow> status_ok h \<and> cs_CommonName h \<noteq> []) \<and>
     distinct (map es_clientID (ov_endedSessions ov)) \<and> queued ov \<inter> dm_live dm = {} \<and>
     (\<forall>f \<in> set (ov_endedSessions ov). \<exists>h. dm_hist dm (es_clientID f) = Some h \<and> es_commonName f = cs_CommonName h \<and> (\<forall>d. es_of d f = cs_of d h)) \<and>
     dom (ov_sessionSeen ov) \<subseteq> dm_live dm \<union> queued ov \<and>
     (\<forall>cid d p. seen_of d (ov_sessionSeen ov) cid = Some p \<longrightarrow> 0 \<le> p \<and> p \<le> moved_by d dm cid) \<and>
     (\<forall>d cn. in_i64 (bytes_at d (ov_cnCumulative ov) cn) \<and>
        wrap64 (bytes_at d (ov_cnCumulative ov) cn) = wrap64 (\<Sum>cid\<in>sessions_of dm cn. counted d dm ov cid))"


section \<open>The invariant\<close>

lemma finite_sessions: "finite (dom (dm_hist dm)) \<Longrightarrow> finite (sessions_of dm cn)"
  by (rule finite_subset [of _ "dom (dm_hist dm)"]) (auto simp: sessions_of_def)

lemma vpn_invD:
  assumes "vpn_inv dm ov"
  shows "finite (dom (dm_hist dm))" "dm_live dm \<subseteq> dom (dm_hist dm)" "[] \<notin> dom (dm_hist dm)"
    "dm_hist dm cid = Some h \<Longrightarrow> status_ok h \<and> cs_CommonName h \<noteq> []"
    "distinct (map es_clientID (ov_endedSessions ov))" "queued ov \<inter> dm_live dm = {}"
    "f \<in> set (ov_endedSessions ov) \<Longrightarrow> \<exists>h. dm_hist dm (es_clientID f) = Some h \<and> es_commonName f = cs_CommonName h \<and> (\<forall>d. es_of d f = cs_of d h)"
    "dom (ov_sessionSeen ov) \<subseteq> dm_live dm \<union> queued ov"
    "seen_of d (ov_sessionSeen ov) cid = Some p \<Longrightarrow> 0 \<le> p \<and> p \<le> moved_by d dm cid"
    "in_i64 (bytes_at d (ov_cnCumulative ov) cn)"
    "wrap64 (bytes_at d (ov_cnCumulative ov) cn) = wrap64 (\<Sum>cid\<in>sessions_of dm cn. counted d dm ov cid)"
  using assms unfolding vpn_inv_def by blast+

lemma queued_known: "vpn_inv dm ov \<Longrightarrow> queued ov \<subseteq> dom (dm_hist dm)"
  using vpn_invD(7) unfolding queued_def by fastforce

lemma seen_None: "cid \<notin> dom m \<Longrightarrow> seen_of d m cid = None"
  by (auto simp: seen_of_def dom_def)

lemma vpn_inv_start: "vpn_inv \<lparr>dm_hist = Map.empty, dm_live = {}\<rparr> (fresh_openvpn c now)"
  by (simp add: vpn_inv_def fresh_openvpn_def queued_def sessions_of_def seen_of_def bytes_at_def in_i64_def)

lemma inv_begin:
  assumes "vpn_inv dm ov" "dm_hist dm cid = None" "cid \<noteq> []" "cn \<noteq> []"
    and "dm' = dm\<lparr>dm_hist := (dm_hist dm)(cid \<mapsto> (no_status cn addr)\<lparr>cs_ClientID := cid\<rparr>), dm_live := insert cid (dm_live dm)\<rparr>"
  shows "vpn_inv dm' ov"
proof -
  note D = vpn_invD [OF assms(1)]
  let ?h = "(no_status cn addr)\<lparr>cs_ClientID := cid\<rparr>"
  have h: "cs_of d ?h = 0" "cs_CommonName ?h = cn" for d by (cases d; simp add: no_status_def)+
  have new: "cid \<notin> dm_live dm" "cid \<notin> queued ov" using assms(2) D(2) queued_known [OF assms(1)] by auto
  have live: "dm_live dm' = insert cid (dm_live dm)" by (simp add: assms(5))
  have unseen: "seen_of d (ov_sessionSeen ov) cid = None" for d using D(8) new by (intro seen_None) auto
  have moved: "moved_by d dm' c = moved_by d dm c" if "c \<noteq> cid" for d c using that by (simp add: moved_by_def assms(5))
  have cnt: "counted d dm' ov c = (if c = cid then 0 else counted d dm ov c)" for d c
    using new unseen [of d] moved [of c d] live by (cases "c = cid") (simp_all add: counted_def split: option.split)
  have sess: "sessions_of dm' cn' = (if cn' = cn then insert cid (sessions_of dm cn') else sessions_of dm cn')" for cn'
    using assms(2) h(2) by (auto simp: sessions_of_def assms(5))
  have notin: "cid \<notin> sessions_of dm cn'" for cn' using assms(2) by (simp add: sessions_of_def)
  have sum: "(\<Sum>c\<in>sessions_of dm' cn'. counted d dm' ov c) = (\<Sum>c\<in>sessions_of dm cn'. counted d dm ov c)" for d cn'
  proof -
    have "(\<Sum>c\<in>sessions_of dm' cn'. counted d dm' ov c) = (\<Sum>c\<in>sessions_of dm cn'. counted d dm' ov c)"
      using notin finite_sessions [OF D(1)] by (simp add: sess cnt)
    also have "\<dots> = (\<Sum>c\<in>sessions_of dm cn'. counted d dm ov c)" using notin by (intro sum.cong) (auto simp: cnt)
    finally show ?thesis .
  qed
  show ?thesis
    unfolding vpn_inv_def sum
  proof (intro conjI allI impI ballI)
    fix f assume f: "f \<in> set (ov_endedSessions ov)"
    then have "es_clientID f \<noteq> cid" using new(2) by (auto simp: queued_def)
    with D(7) [OF f] show "\<exists>h. dm_hist dm' (es_clientID f) = Some h \<and> es_commonName f = cs_CommonName h \<and> (\<forall>d. es_of d f = cs_of d h)"
      by (simp add: assms(5))
  next
    fix c d p assume "seen_of d (ov_sessionSeen ov) c = Some p"
    moreover from this have "c \<noteq> cid" using unseen by auto
    ultimately show "0 \<le> p" "p \<le> moved_by d dm' c" using D(9) moved by auto
  qed (use D new h assms in \<open>auto simp: status_ok_def split: if_splits\<close>)
qed

lemma inv_moves:
  assumes "vpn_inv dm ov" "cid \<in> dm_live dm" "dm_hist dm cid = Some h" "status_ok h'" "cs_CommonName h' = cs_CommonName h"
    and "\<And>d. cs_of d h \<le> cs_of d h'" "dm' = dm\<lparr>dm_hist := (dm_hist dm)(cid \<mapsto> h')\<rparr>"
  shows "vpn_inv dm' ov"
proof -
  note D = vpn_invD [OF assms(1)]
  have moved: "moved_by d dm c \<le> moved_by d dm' c" "c \<noteq> cid \<Longrightarrow> moved_by d dm' c = moved_by d dm c" for d c
    using assms(3,6) by (auto simp: moved_by_def assms(7) split: option.split)
  have cnt: "counted d dm' ov c = counted d dm ov c" for d c
    using assms(2) moved(2) [of c d] by (cases "c = cid") (simp_all add: counted_def assms(7) split: option.split)
  have sess: "sessions_of dm' cn = sessions_of dm cn" for cn using assms(3,5) by (auto simp: sessions_of_def assms(7))
  show ?thesis
    unfolding vpn_inv_def sess cnt
  proof (intro conjI allI impI ballI)
    fix f assume f: "f \<in> set (ov_endedSessions ov)"
    then have "es_clientID f \<noteq> cid" using D(6) assms(2) by (auto simp: queued_def)
    with D(7) [OF f] show "\<exists>h. dm_hist dm' (es_clientID f) = Some h \<and> es_commonName f = cs_CommonName h \<and> (\<forall>d. es_of d f = cs_of d h)"
      by (simp add: assms(7))
  next
    fix c d p assume p: "seen_of d (ov_sessionSeen ov) c = Some p"
    show "0 \<le> p" "p \<le> moved_by d dm' c" using D(9) [OF p] moved(1) [of d c] by linarith+
  qed (use D assms in \<open>auto split: if_splits\<close>)
qed

lemma inv_ends:
  assumes "vpn_inv dm ov" "cid \<in> dm_live dm" "dm_hist dm cid = Some h" "dm' = dm\<lparr>dm_live := dm_live dm - {cid}\<rparr>"
    and "ov' = recordSessionEnd cid (cs_CommonName h) (cs_BytesReceived h) (cs_BytesSent h) ov"
  shows "vpn_inv dm' ov'"
proof -
  note D = vpn_invD [OF assms(1)]
  let ?f = "\<lparr>es_clientID = cid, es_commonName = cs_CommonName h, es_rx = cs_BytesReceived h, es_tx = cs_BytesSent h\<rparr>"
  have ne: "cid \<noteq> []" "cs_CommonName h \<noteq> []" using D(3) D(4) [OF assms(3)] assms(3) by auto
  have ov': "ov' = ov\<lparr>ov_endedSessions := ov_endedSessions ov @ [?f]\<rparr>" using ne by (simp add: assms(5) recordSessionEnd_def)
  have q: "queued ov' = insert cid (queued ov)" by (auto simp: ov' queued_def)
  have u: "dm_live dm' \<union> queued ov' = dm_live dm \<union> queued ov" using assms(2) by (auto simp: q assms(4))
  have mv: "moved_by d dm' c = moved_by d dm c" for d c by (simp add: moved_by_def assms(4))
  have cnt: "counted d dm' ov' c = counted d dm ov c" for d c
    unfolding counted_def u mv by (simp add: ov')
  have sess: "sessions_of dm' cn = sessions_of dm cn" for cn by (simp add: sessions_of_def assms(4))
  have f: "es_of d ?f = cs_of d h" for d by (cases d) simp_all
  have new: "cid \<notin> queued ov" using D(6) assms(2) by auto
  show ?thesis
    unfolding vpn_inv_def sess cnt u mv
    by (intro conjI allI impI ballI) (use D new f assms(3) q in \<open>auto simp: ov' assms(4) queued_def\<close>)
qed


lemma growth_exact:
  assumes "0 \<le> p" "p \<le> cur" "cur < 2 ^ 63"
  shows "row_growth (Some p) cur = cur - p" "end_growth (Some p) cur = cur - p"
proof -
  have "sub64 cur p = cur - p" using assms by (intro sub64_exact) (simp add: in_i64_def)
  then show "row_growth (Some p) cur = cur - p" "end_growth (Some p) cur = cur - p"
    using assms by (simp_all add: row_growth_def end_growth_def)
qed

lemma growth_new: "row_growth None cur = cur" "0 \<le> cur \<Longrightarrow> end_growth None cur = cur"
  by (simp_all add: row_growth_def end_growth_def)

lemma map_of_key: "map_of (map (\<lambda>x. (k x, x)) xs) c = Some x \<Longrightarrow> x \<in> set xs \<and> k x = c"
  by (auto dest: map_of_SomeD)

lemma map_of_key_None: "map_of (map (\<lambda>x. (k x, x)) xs) c = None \<longleftrightarrow> c \<notin> k ` set xs"
  by (simp add: map_of_eq_None_iff image_image)

lemma poll_seen:
  assumes "vpn_inv dm ov" "range_order rg" "distinct (map cs_ClientID rows)" "account_rows rg now rows ov = ov'"
  shows "ov_sessionSeen ov' c = (if c \<in> queued ov then None else map_of (map (\<lambda>r. (cs_ClientID r, r)) rows) c)"
proof -
  let ?R = "map_of (map (\<lambda>r. (cs_ClientID r, r)) rows)"
  note F = account_rows_facts(1) [OF assms(2,3) vpn_invD(5) [OF assms(1)] assms(4)]
  show ?thesis
  proof (cases "?R c")
    case None
    then have "c \<notin> cs_ClientID ` set rows" by (simp add: map_of_key_None)
    then show ?thesis using None by (simp add: F restrict_map_def)
  next
    case (Some r)
    then have "c \<in> cs_ClientID ` set rows" using map_of_key [OF Some] by auto
    then show ?thesis using Some by (auto simp: F restrict_map_def queued_def)
  qed
qed

text \<open>One session at one poll: what the rows and the queue add is what becomes counted.\<close>

definition new_bytes :: "dir \<Rightarrow> client_status list \<Rightarrow> openvpn \<Rightarrow> string \<Rightarrow> int" where
  "new_bytes d rows ov c =
     (case map_of (map (\<lambda>r. (cs_ClientID r, r)) rows) c of
        None \<Rightarrow> 0 | Some r \<Rightarrow> row_growth (seen_of d (ov_sessionSeen ov) (cs_ClientID r)) (cs_of d r)) +
     (case map_of (map (\<lambda>f. (es_clientID f, f)) (ov_endedSessions ov)) c of
        None \<Rightarrow> 0
      | Some f \<Rightarrow> end_growth (seen_of d (ov_sessionSeen ov ++ map_of (map (\<lambda>r. (cs_ClientID r, r)) rows)) (es_clientID f)) (es_of d f))"

lemma poll_session:
  assumes I: "vpn_inv dm ov" and rg: "range_order rg" and legal: "legal_rows dm ov rows"
    and ov': "account_rows rg now rows ov = ov'" and c: "dm_hist dm c = Some h"
  shows "counted d dm ov' c = counted d dm ov c + new_bytes d rows ov c"
proof -
  note D = vpn_invD [OF I]
  have dis: "distinct (map cs_ClientID rows)" and rows: "\<And>r. r \<in> set rows \<Longrightarrow> row_of dm ov r"
    and all: "dom (ov_sessionSeen ov) \<inter> dm_live dm \<subseteq> cs_ClientID ` set rows"
    using legal by (auto simp: legal_rows_def list_all_iff)
  note F = account_rows_facts [OF rg dis D(5) ov']
  let ?R = "map_of (map (\<lambda>r. (cs_ClientID r, r)) rows)" and ?Q = "map_of (map (\<lambda>f. (es_clientID f, f)) (ov_endedSessions ov))"
  have mv: "moved_by d dm c = cs_of d h" by (simp add: moved_by_def c)
  have range: "0 \<le> cs_of d h" "cs_of d h < 2 ^ 63" using D(4) [OF c] by (simp_all add: status_ok_def)
  have seen: "seen_of d (ov_sessionSeen ov) c = Some p \<Longrightarrow> 0 \<le> p \<and> p \<le> cs_of d h" for p using D(9) [of d c p] by (simp add: mv)
  have q': "queued ov' = {}" by (simp add: queued_def F(2))
  have Q: "?Q c = None \<longleftrightarrow> c \<notin> queued ov" by (simp add: map_of_key_None queued_def)
  have fin: "es_of d f = cs_of d h \<and> es_clientID f = c" if "?Q c = Some f" for f
    using D(7) [of f] map_of_key [OF that] c by auto
  have seen': "ov_sessionSeen ov' c = (if ?Q c \<noteq> None then None else ?R c)"
    using poll_seen [OF I rg dis ov'] Q by simp
  show ?thesis
  proof (cases "?R c")
    case (Some r)
    then have r: "r \<in> set rows" "cs_ClientID r = c" using map_of_key by fastforce+
    from rows [OF r(1)] c have ro: "c \<in> dm_live dm \<union> queued ov" "cs_of d r \<le> cs_of d h"
      and lo: "(case seen_of d (ov_sessionSeen ov) c of None \<Rightarrow> 0 | Some p \<Rightarrow> p) \<le> cs_of d r" by (auto simp: row_of_def r(2))
    have r0: "0 \<le> cs_of d r" using lo seen by (cases "seen_of d (ov_sessionSeen ov) c") (auto intro: order_trans)
    have cnt: "counted d dm ov c = (case seen_of d (ov_sessionSeen ov) c of None \<Rightarrow> 0 | Some p \<Rightarrow> p)"
      using ro(1) by (simp add: counted_def split: option.split)
    have rowg: "row_growth (seen_of d (ov_sessionSeen ov) c) (cs_of d r) = cs_of d r - counted d dm ov c"
      unfolding cnt using lo seen ro(2) range by (cases "seen_of d (ov_sessionSeen ov) c") (simp_all add: growth_exact growth_new)
    have s1: "seen_of d (ov_sessionSeen ov ++ ?R) c = Some (cs_of d r)" using Some by (simp add: seen_of_def)
    show ?thesis
    proof (cases "?Q c")
      case None
      then have "c \<in> dm_live dm" using ro Q by auto
      then show ?thesis using Some None rowg by (simp add: new_bytes_def r(2) counted_def seen_of_def seen')
    next
      case Q: (Some f)
      have "c \<notin> dm_live dm" using Q \<open>(?Q c = None) = (c \<notin> queued ov)\<close> D(6) by auto
      then have "counted d dm ov' c = cs_of d h" by (simp add: counted_def seen_of_def seen' Q q' mv)
      moreover have "end_growth (Some (cs_of d r)) (cs_of d h) = cs_of d h - cs_of d r" using growth_exact(2) r0 ro(2) range by blast
      ultimately show ?thesis using Some Q rowg s1 fin [OF Q] by (simp add: new_bytes_def r(2))
    qed
  next
    case None
    have s1: "seen_of d (ov_sessionSeen ov ++ ?R) c = seen_of d (ov_sessionSeen ov) c" using None by (simp add: seen_of_def map_add_def)
    have norow: "c \<notin> cs_ClientID ` set rows" using None by (simp add: map_of_key_None)
    show ?thesis
    proof (cases "?Q c")
      case Q0: None
      then have "c \<notin> queued ov" using Q by simp
      moreover have "seen_of d (ov_sessionSeen ov) c = None"
        using all norow D(8) calculation by (intro seen_None) auto
      ultimately show ?thesis using None Q0 by (simp add: new_bytes_def counted_def seen_of_def seen' q')
    next
      case Q1: (Some f)
      then have "c \<in> queued ov" using Q by auto
      then have "c \<notin> dm_live dm" using D(6) by auto
      then have "counted d dm ov' c = cs_of d h" by (simp add: counted_def seen_of_def seen' Q1 q' mv)
      moreover have "end_growth (seen_of d (ov_sessionSeen ov) c) (cs_of d h) = cs_of d h - counted d dm ov c"
        using seen range \<open>c \<in> queued ov\<close> by (cases "seen_of d (ov_sessionSeen ov) c") (simp_all add: counted_def growth_exact growth_new)
      ultimately show ?thesis using None Q1 s1 fin [OF Q1] by (simp add: new_bytes_def)
    qed
  qed
qed


lemma inv_poll:
  assumes I: "vpn_inv dm ov" and rg: "range_order rg" and legal: "legal_rows dm ov rows" and ov': "account_rows rg now rows ov = ov'"
  shows "vpn_inv dm ov'"
proof -
  note D = vpn_invD [OF I]
  have dis: "distinct (map cs_ClientID rows)" and rows: "\<And>r. r \<in> set rows \<Longrightarrow> row_of dm ov r"
    using legal by (auto simp: legal_rows_def list_all_iff)
  note F = account_rows_facts [OF rg dis D(5) ov']
  note seen' = poll_seen [OF I rg dis ov']
  have q': "queued ov' = {}" by (simp add: queued_def F(2))
  have known: "c \<in> dm_live dm \<and> (\<exists>h. dm_hist dm c = Some h \<and> (\<forall>d. 0 \<le> cs_of d r \<and> cs_of d r \<le> cs_of d h))"
    if "ov_sessionSeen ov' c = Some r" for c r
  proof -
    have r: "r \<in> set rows" "cs_ClientID r = c" "c \<notin> queued ov"
      using that map_of_key [of cs_ClientID rows c r] by (auto simp: seen' split: if_splits)
    have "0 \<le> (case seen_of d (ov_sessionSeen ov) c of None \<Rightarrow> 0 | Some p \<Rightarrow> p)" for d
      using D(9) [of d c] by (auto split: option.split)
    with rows [OF r(1)] r show ?thesis unfolding row_of_def by (metis (no_types, lifting) UnE order_trans)
  qed
  have bytes: "wrap64 (bytes_at d (ov_cnCumulative ov') cn) = wrap64 (\<Sum>c\<in>sessions_of dm cn. counted d dm ov' c)" for d cn
  proof -
    let ?S = "sessions_of dm cn"
    have fin: "finite ?S" using finite_sessions [OF D(1)] .
    have r: "cs_CommonName r = cn \<longleftrightarrow> cs_ClientID r \<in> ?S" if "r \<in> set rows" for r
      using rows [OF that] by (auto simp: row_of_def sessions_of_def)
    have f: "es_commonName f = cn \<longleftrightarrow> es_clientID f \<in> ?S" if "f \<in> set (ov_endedSessions ov)" for f
      using D(7) [OF that] by (auto simp: sessions_of_def)
    have R: "(\<Sum>r\<leftarrow>filter (\<lambda>r. cs_CommonName r = cn) rows. g r) =
        (\<Sum>c\<in>?S. case map_of (map (\<lambda>r. (cs_ClientID r, r)) rows) c of None \<Rightarrow> 0 | Some r \<Rightarrow> g r)" for g :: "client_status \<Rightarrow> int"
      by (rule sum_list_by_key [OF dis fin]) (rule r)
    have Q: "(\<Sum>f\<leftarrow>filter (\<lambda>f. es_commonName f = cn) (ov_endedSessions ov). g f) =
        (\<Sum>c\<in>?S. case map_of (map (\<lambda>f. (es_clientID f, f)) (ov_endedSessions ov)) c of None \<Rightarrow> 0 | Some f \<Rightarrow> g f)" for g :: "ended_session \<Rightarrow> int"
      by (rule sum_list_by_key [OF D(5) fin]) (rule f)
    have "wrap64 (bytes_at d (ov_cnCumulative ov') cn) = wrap64 (wrap64 (bytes_at d (ov_cnCumulative ov) cn) + (\<Sum>c\<in>?S. new_bytes d rows ov c))"
      unfolding F(3) R Q new_bytes_def sum.distrib by (simp add: wrap64_add_left add.assoc)
    also have "\<dots> = wrap64 (\<Sum>c\<in>?S. counted d dm ov c + new_bytes d rows ov c)"
      unfolding D(11) by (simp add: wrap64_add_left sum.distrib)
    also have "(\<Sum>c\<in>?S. counted d dm ov c + new_bytes d rows ov c) = (\<Sum>c\<in>?S. counted d dm ov' c)"
      using poll_session [OF I rg legal ov'] by (intro sum.cong) (auto simp: sessions_of_def)
    finally show ?thesis .
  qed
  show ?thesis
    unfolding vpn_inv_def
  proof (intro conjI allI impI ballI)
    show "dom (ov_sessionSeen ov') \<subseteq> dm_live dm \<union> queued ov'" using known by blast
  next
    fix c d p assume "seen_of d (ov_sessionSeen ov') c = Some p"
    then obtain r where r: "ov_sessionSeen ov' c = Some r" "p = cs_of d r" by (auto simp: seen_of_def)
    from known [OF r(1)] show "0 \<le> p" "p \<le> moved_by d dm c" by (auto simp: r(2) moved_by_def)
  next
    fix d cn show "in_i64 (bytes_at d (ov_cnCumulative ov') cn)" by (rule F(4) [OF D(10)])
  qed (use D bytes in \<open>auto simp: F(2) q'\<close>)
qed

lemma inv_other:
  assumes "vpn_inv dm ov" "accounting ov' = accounting ov"
  shows "vpn_inv dm ov'"
proof -
  have eq: "ov_sessionSeen ov' = ov_sessionSeen ov" "ov_cnCumulative ov' = ov_cnCumulative ov" "ov_endedSessions ov' = ov_endedSessions ov"
    using assms(2) by (simp_all add: accounting_def)
  then have "queued ov' = queued ov" by (simp add: queued_def)
  moreover from this eq have "counted d dm ov' c = counted d dm ov c" for d c by (simp add: counted_def)
  ultimately show ?thesis using assms(1) unfolding vpn_inv_def eq by simp
qed

lemma vpn_run_inv: "vpn_run dm ov \<Longrightarrow> vpn_inv dm ov"
proof (induction rule: vpn_run.induct)
  case (vpn_start c now)
  show ?case by (rule vpn_inv_start)
next
  case (vpn_begin dm ov cid cn addr)
  then show ?case using inv_begin by blast
next
  case (vpn_moves dm ov cid h h')
  then show ?case using inv_moves by blast
next
  case (vpn_ends dm ov cid h)
  then show ?case using inv_ends by blast
next
  case (vpn_poll dm ov rg rows now)
  then show ?case using inv_poll by blast
next
  case (vpn_other dm ov ov')
  then show ?case using inv_other by blast
qed

text \<open>The answer that lists every living session with its present totals.\<close>

definition fresh_rows :: "vpn_daemon \<Rightarrow> client_status list \<Rightarrow> bool" where
  "fresh_rows dm rows \<longleftrightarrow> distinct (map cs_ClientID rows) \<and> cs_ClientID ` set rows = dm_live dm \<and>
     list_all (\<lambda>r. case dm_hist dm (cs_ClientID r) of None \<Rightarrow> False | Some h \<Rightarrow> cs_CommonName r = cs_CommonName h \<and> (\<forall>d. cs_of d r = cs_of d h)) rows"

lemma fresh_rows_legal:
  assumes "vpn_inv dm ov" "fresh_rows dm rows"
  shows "legal_rows dm ov rows"
proof -
  note D = vpn_invD [OF assms(1)]
  have "row_of dm ov r" if mem: "r \<in> set rows" for r
  proof -
    obtain h where h: "dm_hist dm (cs_ClientID r) = Some h" "cs_CommonName r = cs_CommonName h" "\<And>d. cs_of d r = cs_of d h"
      using assms(2) mem by (cases "dm_hist dm (cs_ClientID r)") (auto simp: fresh_rows_def list_all_iff)
    have "(case seen_of d (ov_sessionSeen ov) (cs_ClientID r) of None \<Rightarrow> 0 | Some p \<Rightarrow> p) \<le> cs_of d h" for d
      using D(9) [of d "cs_ClientID r"] D(4) [OF h(1)] by (auto simp: moved_by_def h(1) status_ok_def split: option.split)
    with h mem assms(2) show ?thesis by (auto simp: row_of_def fresh_rows_def)
  qed
  with assms(2) show ?thesis by (auto simp: legal_rows_def list_all_iff fresh_rows_def)
qed

text \<open>
  C24: Within one life of the daemon, and as long as no poll accounts a row of a session whose end was
  accounted before: however sessions begin, move bytes and end, and however often the node polled
  (the answers may be behind the daemon and may list sessions whose end is still queued), after a poll
  with a present answer the counter the node keeps for a user is the sum of the bytes of every session
  that user ever had on this daemon, ended ones to their last byte, each exactly once, in 64-bit
  arithmetic. So no byte moved between two polls is lost when its session ends, and none is billed
  twice. Outside these two conditions the claim fails: \<open>stale_answer_bills_again\<close> shows a poll that
  times out and accounts the previous answer, \<open>restart_reuses_baseline\<close> a restarted daemon.
\<close>

theorem openvpn_counts_every_byte_once:
  assumes "vpn_run dm ov" "range_order rg" "fresh_rows dm rows" "account_rows rg now rows ov = ov'"
  shows "bytes_at d (ov_cnCumulative ov') cn = wrap64 (\<Sum>cid\<in>sessions_of dm cn. moved_by d dm cid)"
proof -
  note I = vpn_run_inv [OF assms(1)]
  note I' = inv_poll [OF I assms(2) fresh_rows_legal [OF I assms(3)] assms(4)]
  have dis: "distinct (map cs_ClientID rows)" using assms(3) by (simp add: fresh_rows_def)
  have q': "queued ov' = {}" using account_rows_facts(2) [OF assms(2) dis vpn_invD(5) [OF I] assms(4)] by (simp add: queued_def)
  have "counted d dm ov' c = moved_by d dm c" for c
  proof (cases "c \<in> dm_live dm")
    case True
    then have "c \<in> cs_ClientID ` set rows" using assms(3) by (simp add: fresh_rows_def)
    then obtain r where r: "r \<in> set rows" "cs_ClientID r = c" by blast
    then have "map_of (map (\<lambda>r. (cs_ClientID r, r)) rows) c = Some r" using dis by (intro map_of_is_SomeI) (auto simp: comp_def)
    moreover have "c \<notin> queued ov" using True vpn_invD(6) [OF I] by auto
    ultimately have "ov_sessionSeen ov' c = Some r" using poll_seen [OF I assms(2) dis assms(4)] by simp
    moreover have "cs_of d r = moved_by d dm c" using r assms(3) by (auto simp: fresh_rows_def list_all_iff moved_by_def split: option.splits)
    ultimately show ?thesis by (simp add: counted_def seen_of_def)
  next
    case False
    then have "seen_of d (ov_sessionSeen ov') c = None" using vpn_invD(8) [OF I'] q' by (intro seen_None) auto
    then show ?thesis using False by (simp add: counted_def q')
  qed
  then show ?thesis using vpn_invD(10,11) [OF I', of d cn] by (simp add: wrap64_id)
qed


definition demo_ov_config :: ov_config where
  "demo_ov_config = \<lparr>oc_InboundTag = ''ov'', oc_Port = 1194, oc_Proto = ''udp'', oc_Device = ''tun'', oc_ServerSubnet = ''10.8.0.0/16'', oc_DNS = [],
     oc_Cipher = ''AES-256-GCM'', oc_DataCiphers = [], oc_Auth = ''SHA256'', oc_Keepalive = ''10 60'', oc_MaxClients = 1024, oc_DuplicateCN = False,
     oc_Push = [], oc_ExtraServerDirectives = [], oc_CACert = ''c'', oc_ServerCert = ''s'', oc_ServerKey = ''k'', oc_TLSCryptKey = [],
     oc_Listeners = [], oc_workDir = ''/w''\<rparr>"

definition demo_row :: "string \<Rightarrow> string \<Rightarrow> int \<Rightarrow> int \<Rightarrow> client_status" where
  "demo_row cid cn rx tx = \<lparr>cs_CommonName = cn, cs_RealAddress = [], cs_VirtualAddr = [], cs_BytesReceived = rx, cs_BytesSent = tx, cs_ClientID = cid\<rparr>"

lemma demo_row_simps [simp]:
  "cs_CommonName (demo_row cid cn rx tx) = cn" "cs_RealAddress (demo_row cid cn rx tx) = []" "cs_ClientID (demo_row cid cn rx tx) = cid"
  "cs_BytesReceived (demo_row cid cn rx tx) = rx" "cs_BytesSent (demo_row cid cn rx tx) = tx"
  by (simp_all add: demo_row_def)

theorem openvpn_counts_every_byte_once_witness:
  "\<exists>dm ov. vpn_run dm ov \<and> dm_live dm = {} \<and>
     bytes_at Uplink (ov_cnCumulative (account_rows sorted_ranger 9 [] ov)) ''u'' = 5"
proof -
  let ?n = "(no_status ''u'' [])\<lparr>cs_ClientID := ''0''\<rparr>" and ?h = "demo_row ''0'' ''u'' 5 7"
  let ?ov = "fresh_openvpn demo_ov_config 0"
  have "vpn_run \<lparr>dm_hist = [''0'' \<mapsto> ?n], dm_live = {''0''}\<rparr> ?ov"
    using vpn_begin [OF vpn_start, of "''0''" "''u''" "[]" demo_ov_config 0] by simp
  moreover have "cs_of d ?n \<le> cs_of d ?h" for d by (cases d) (simp_all add: no_status_def)
  moreover have "status_ok ?h" by (simp add: status_ok_def all_dir)
  ultimately have "vpn_run \<lparr>dm_hist = [''0'' \<mapsto> ?h], dm_live = {''0''}\<rparr> ?ov"
    using vpn_moves [of "\<lparr>dm_hist = [''0'' \<mapsto> ?n], dm_live = {''0''}\<rparr>" ?ov "''0''" ?n ?h] by (simp add: no_status_def)
  from vpn_ends [OF this, of "''0''" ?h]
  have run: "vpn_run \<lparr>dm_hist = [''0'' \<mapsto> ?h], dm_live = {}\<rparr> (recordSessionEnd ''0'' ''u'' 5 7 ?ov)" by simp
  let ?dm = "\<lparr>dm_hist = [''0'' \<mapsto> ?h], dm_live = {}\<rparr>"
  have "fresh_rows ?dm []" by (simp add: fresh_rows_def)
  from openvpn_counts_every_byte_once [OF run range_order_sorted this refl, of Uplink 9 "''u''"]
  have "bytes_at Uplink (ov_cnCumulative (account_rows sorted_ranger 9 [] (recordSessionEnd ''0'' ''u'' 5 7 ?ov))) ''u'' = wrap64 5"
    by (simp add: sessions_of_def moved_by_def)
  with run show ?thesis by (intro exI [of _ ?dm]) (auto simp: wrap64_id in_i64_def)
qed



section \<open>Where bytes are counted wrongly\<close>

text \<open>
  A poll that times out uses the previous answer again. Harmless while the sessions in it live; but a
  session that ended in between has lost its baseline with its end, and the next time-out bills it from
  zero: here 150 bytes were moved and 250 are counted.
\<close>

definition stale_ov :: openvpn where
  "stale_ov = (fresh_openvpn demo_ov_config 0)\<lparr>ov_mgmt := newMgmtClient\<lparr>mg_lastStatus := [demo_row ''0'' ''u'' 100 0]\<rparr>\<rparr>"

text \<open>A poll without an answer accounts the rows of the last one.\<close>

lemma silent_poll:
  "collectStats rg now [] ov = account_rows rg now (mg_lastStatus (ov_mgmt ov)) (snd (requestStatus [] ov))"
  "mg_lastStatus (ov_mgmt (snd (requestStatus [] ov))) = mg_lastStatus (ov_mgmt ov)"
  "accounting (snd (requestStatus [] ov)) = accounting ov"
  by (simp_all add: collectStats_def requestStatus_def mgmt_run_def on_mgmt_def mgmt_send_def accounting_def)

lemma stale_answer_bills_again:
  fixes r defines "r \<equiv> demo_row ''0'' ''u'' 100 0"
  assumes "account_rows sorted_ranger 1 [r] stale_ov = ov1" "account_rows sorted_ranger 2 [r] (recordSessionEnd ''0'' ''u'' 150 0 ov1) = ov2"
    and "account_rows sorted_ranger 3 [r] ov2 = ov3"
  shows "bytes_at Uplink (ov_cnCumulative ov3) ''u'' = 250"
proof -
  have one: "distinct (map cs_ClientID [r])" by simp
  have dis: "distinct (map es_clientID (ov_endedSessions stale_ov))" by (simp add: stale_ov_def fresh_openvpn_def)
  note F1 = account_rows_facts [OF range_order_sorted one dis assms(2)]
  have s1: "ov_sessionSeen ov1 ''0'' = Some r" unfolding F1(1) by (simp add: stale_ov_def fresh_openvpn_def r_def)
  let ?e = "recordSessionEnd ''0'' ''u'' 150 0 ov1"
  have e: "ov_sessionSeen ?e = ov_sessionSeen ov1" "ov_cnCumulative ?e = ov_cnCumulative ov1"
    "ov_endedSessions ?e = [\<lparr>es_clientID = ''0'', es_commonName = ''u'', es_rx = 150, es_tx = 0\<rparr>]"
    by (simp_all add: recordSessionEnd_def F1(2))
  have dis2: "distinct (map es_clientID (ov_endedSessions ?e))" by (simp add: e)
  note F2 = account_rows_facts [OF range_order_sorted one dis2 assms(3)]
  have s2: "ov_sessionSeen ov2 ''0'' = None" unfolding F2(1) e by (simp add: r_def)
  have dis3: "distinct (map es_clientID (ov_endedSessions ov2))" by (simp add: F2(2))
  note F3 = account_rows_facts [OF range_order_sorted one dis3 assms(4)]
  have z: "bytes_at Uplink (ov_cnCumulative stale_ov) ''u'' = 0" by (simp add: stale_ov_def fresh_openvpn_def bytes_at_def)
  have g: "seen_of Uplink (ov_sessionSeen stale_ov) ''0'' = None" "seen_of Uplink (ov_sessionSeen ov1) ''0'' = Some 100"
    "seen_of Uplink (ov_sessionSeen ov2) ''0'' = None"
    using s1 s2 by (simp_all add: seen_of_def stale_ov_def fresh_openvpn_def r_def)
  have i: "in_i64 (bytes_at Uplink (ov_cnCumulative ov1) ''u'')" by (rule F1(4) [where d = Uplink and cn = "''u''"]) (simp add: z in_i64_def)
  then have i2: "in_i64 (bytes_at Uplink (ov_cnCumulative ov2) ''u'')" using F2(4) [where d = Uplink and cn = "''u''"] by (simp add: e)
  have b1: "bytes_at Uplink (ov_cnCumulative ov1) ''u'' = 100"
    using F1(3) [where d = Uplink and cn = "''u''"] i g by (simp add: z r_def growth_new stale_ov_def fresh_openvpn_def wrap64_id in_i64_def)
  have "bytes_at Uplink (ov_cnCumulative ov2) ''u'' = 150"
    using F2(3) [where d = Uplink and cn = "''u''"] i2 s1 by (simp add: e b1 r_def growth_exact wrap64_id in_i64_def seen_of_def)
  then show ?thesis
    using F3(3) [where d = Uplink and cn = "''u''"] F3(4) [where d = Uplink and cn = "''u''", OF i2] g by (simp add: F2(2) r_def growth_new wrap64_id in_i64_def)
qed

text \<open>
  The baselines outlive the daemon: after a restart identifiers are given out from the start again, and
  the first session of another user that gets a known one is billed only beyond the old total.
\<close>

lemma restart_reuses_baseline:
  assumes "ov_Restart E ov = (None, ov1)" "ov_sessionSeen ov ''0'' = Some (demo_row ''0'' ''a'' 1000 0)" "ov_endedSessions ov = []"
    and "ov_cnCumulative ov ''b'' = None" "account_rows sorted_ranger now [demo_row ''0'' ''b'' 1500 0] ov1 = ov2"
  shows "bytes_at Uplink (ov_cnCumulative ov2) ''b'' = 500"
proof -
  have same: "ov_sessionSeen ov1 = ov_sessionSeen ov" "ov_cnCumulative ov1 = ov_cnCumulative ov" "ov_endedSessions ov1 = ov_endedSessions ov"
    using assms(1) by (auto simp: ov_Restart_def startProcess_def stopProcess_def connect_mgmt_def on_mgmt_def Let_def split: option.splits prod.splits)
  have dis: "distinct (map cs_ClientID [demo_row ''0'' ''b'' 1500 0])" "distinct (map es_clientID (ov_endedSessions ov1))" by (simp_all add: same assms(3))
  note F = account_rows_facts [OF range_order_sorted dis assms(5)]
  have z: "bytes_at Uplink (ov_cnCumulative ov) ''b'' = 0" by (simp add: bytes_at_def assms(4))
  have "in_i64 (bytes_at Uplink (ov_cnCumulative ov2) ''b'')" by (rule F(4) [where d = Uplink and cn = "''b''"]) (simp add: same z in_i64_def)
  then show ?thesis using F(3) [where d = Uplink and cn = "''b''"] by (simp add: same assms z seen_of_def growth_exact wrap64_id in_i64_def)
qed

end
