(* ===== verification/Openvpn_Access.thy ===== *)
theory Openvpn_Access
  imports Openvpn_Billing
begin

text \<open>
  Who gets in: the node answers every connection the daemon announces exactly once, and admits it
  exactly when the certificate is on the allow list; a user who leaves the list is cut off; servers of
  one core hand out addresses from disjoint ranges.
\<close>

section \<open>The management dialogue\<close>

lemma Cut_at: "ch \<notin> set a \<Longrightarrow> Cut (a @ ch # b) [ch] = Some (a, b)"
  by (induction a) (auto simp: HasPrefix_def)

text \<open>What the daemon writes for a connecting or re-authenticating client, and for one that leaves.\<close>

definition env_lines :: "(string \<times> string) list \<Rightarrow> string list" where
  "env_lines env = map (\<lambda>(k, v). ''>CLIENT:ENV,'' @ k @ ''='' @ v) env @ [''>CLIENT:ENV,END'']"

definition connect_lines :: "bool \<Rightarrow> string \<Rightarrow> string \<Rightarrow> (string \<times> string) list \<Rightarrow> string list" where
  "connect_lines again cid kid env = ((if again then ''>CLIENT:REAUTH,'' else ''>CLIENT:CONNECT,'') @ cid @ '','' @ kid) # env_lines env"

definition disconnect_lines :: "string \<Rightarrow> (string \<times> string) list \<Rightarrow> string list" where
  "disconnect_lines cid env = (''>CLIENT:DISCONNECT,'' @ cid) # env_lines env"

definition env_map :: "(string \<rightharpoonup> string) \<Rightarrow> (string \<times> string) list \<Rightarrow> (string \<rightharpoonup> string)" where
  "env_map e env = foldl (\<lambda>m (k, v). m(k \<mapsto> v)) e env"

lemma handle_connect:
  assumes "CHR '','' \<notin> set cid"
  shows "handleLine ((if again then ''>CLIENT:REAUTH,'' else ''>CLIENT:CONNECT,'') @ cid @ '','' @ kid) ov =
    on_mgmt (\<lambda>m. m\<lparr>mg_pendingCID := cid, mg_pendingKID := kid, mg_pendingDisconnect := False, mg_pendingEnv := Some Map.empty\<rparr>) ov"
proof -
  have "event_args (''>CLIENT:REAUTH,'' @ cid @ '','' @ kid) = (cid, kid)" "event_args (''>CLIENT:CONNECT,'' @ cid @ '','' @ kid) = (cid, kid)"
    using Cut_at [of "CHR '',''" "''>CLIENT:REAUTH''" "cid @ '','' @ kid"] Cut_at [of "CHR '',''" "''>CLIENT:CONNECT''" "cid @ '','' @ kid"] Cut_at [OF assms, of kid]
    by (simp_all add: event_args_def)
  then show ?thesis by (cases again) (simp_all add: handleLine_def HasPrefix_def)
qed

lemma handle_disconnect:
  assumes "CHR '','' \<notin> set cid"
  shows "handleLine (''>CLIENT:DISCONNECT,'' @ cid) ov =
    on_mgmt (\<lambda>m. m\<lparr>mg_pendingCID := cid, mg_pendingKID := [], mg_pendingDisconnect := True, mg_pendingEnv := Some Map.empty\<rparr>) ov"
proof -
  have none: "Cut cid '','' = None" using assms by (induction cid) (auto simp: HasPrefix_def)
  have "fst (event_args (''>CLIENT:DISCONNECT,'' @ cid)) = cid"
    using Cut_at [of "CHR '',''" "''>CLIENT:DISCONNECT''" cid] none by (simp add: event_args_def)
  then show ?thesis by (simp add: handleLine_def HasPrefix_def)
qed

lemma handle_env:
  assumes "CHR ''='' \<notin> set k" "mg_pendingEnv (ov_mgmt ov) = Some e"
  shows "handleLine (''>CLIENT:ENV,'' @ k @ ''='' @ v) ov = on_mgmt (\<lambda>m. m\<lparr>mg_pendingEnv := Some (e(k \<mapsto> v))\<rparr>) ov"
proof -
  have "k @ ''='' @ v \<noteq> ''END''"
  proof
    assume "k @ ''='' @ v = ''END''"
    then have "CHR ''='' \<in> set ''END''" by (metis in_set_conv_decomp append_Cons append_Nil)
    then show False by simp
  qed
  then show ?thesis using Cut_at [OF assms(1), of v] assms(2) by (simp add: handleLine_def HasPrefix_def)
qed

lemma handle_end:
  "handleLine ''>CLIENT:ENV,END'' ov = (if mg_pendingDisconnect (ov_mgmt ov) then finishDisconnect ov else finishConnect ov)"
  by (simp add: handleLine_def HasPrefix_def)

definition reading :: "string \<Rightarrow> string \<Rightarrow> bool \<Rightarrow> (string \<rightharpoonup> string) \<Rightarrow> openvpn \<Rightarrow> openvpn" where
  "reading cid kid disc e ov = on_mgmt (\<lambda>m. m\<lparr>mg_pendingCID := cid, mg_pendingKID := kid, mg_pendingDisconnect := disc, mg_pendingEnv := Some e\<rparr>) ov"

lemma reading_simps [simp]:
  "mg_open (ov_mgmt (reading cid kid disc e ov)) = mg_open (ov_mgmt ov)"
  "mg_pendingEnv (ov_mgmt (reading cid kid disc e ov)) = Some e"
  "mg_pendingDisconnect (ov_mgmt (reading cid kid disc e ov)) = disc"
  "on_mgmt (\<lambda>m. m\<lparr>mg_pendingEnv := Some e'\<rparr>) (reading cid kid disc e ov) = reading cid kid disc e' ov"
  by (simp_all add: reading_def on_mgmt_def)

lemma mgmt_run_Cons: "mgmt_run (l # ls) ov = mgmt_run ls (if mg_open (ov_mgmt ov) then handleLine l ov else ov)"
  by (simp add: mgmt_run_def)

lemma run_env:
  assumes "list_all (\<lambda>(k, v). CHR ''='' \<notin> set k) env" "mg_open (ov_mgmt ov)"
  shows "mgmt_run (env_lines env) (reading cid kid disc e ov) =
    (if disc then finishDisconnect else finishConnect) (reading cid kid disc (env_map e env) ov)"
  using assms(1)
proof (induction env arbitrary: e)
  case Nil
  show ?case using assms(2) by (simp add: env_lines_def mgmt_run_def env_map_def handle_end)
next
  case (Cons kv env)
  obtain k v where kv: "kv = (k, v)" by fastforce
  have "handleLine (''>CLIENT:ENV,'' @ k @ ''='' @ v) (reading cid kid disc e ov) = reading cid kid disc (e(k \<mapsto> v)) ov"
    using Cons.prems handle_env [of k "reading cid kid disc e ov" e v] reading_simps(2,4) by (simp add: kv del: append.simps)
  moreover have "env_lines (kv # env) = (''>CLIENT:ENV,'' @ k @ ''='' @ v) # env_lines env" by (simp add: env_lines_def kv)
  ultimately have "mgmt_run (env_lines (kv # env)) (reading cid kid disc e ov) = mgmt_run (env_lines env) (reading cid kid disc (e(k \<mapsto> v)) ov)"
    using assms(2) by (simp add: mgmt_run_Cons del: append.simps)
  moreover have "env_map e (kv # env) = env_map (e(k \<mapsto> v)) env" by (simp add: env_map_def kv)
  ultimately show ?case using Cons.IH Cons.prems by (simp only: list.pred_inject kv)
qed

lemma run_connect:
  assumes "CHR '','' \<notin> set cid" "list_all (\<lambda>(k, v). CHR ''='' \<notin> set k) env" "mg_open (ov_mgmt ov)"
  shows "mgmt_run (connect_lines again cid kid env) ov = finishConnect (reading cid kid False (env_map Map.empty env) ov)"
proof -
  have "mgmt_run (connect_lines again cid kid env) ov = mgmt_run (env_lines env) (reading cid kid False Map.empty ov)"
    using assms(3) handle_connect [OF assms(1)] by (simp add: connect_lines_def mgmt_run_def reading_def)
  with run_env [OF assms(2,3)] show ?thesis by simp
qed

lemma run_disconnect:
  assumes "CHR '','' \<notin> set cid" "list_all (\<lambda>(k, v). CHR ''='' \<notin> set k) env" "mg_open (ov_mgmt ov)"
  shows "mgmt_run (disconnect_lines cid env) ov = finishDisconnect (reading cid [] True (env_map Map.empty env) ov)"
proof -
  have "mgmt_run (disconnect_lines cid env) ov = mgmt_run (env_lines env) (reading cid [] True Map.empty ov)"
    using assms(3) handle_disconnect [OF assms(1)] by (simp add: disconnect_lines_def mgmt_run_def reading_def)
  with run_env [OF assms(2,3)] show ?thesis by simp
qed

text \<open>The end of a session, as the daemon announces it, is the event the accounting starts from.\<close>

lemma disconnect_recorded:
  assumes "CHR '','' \<notin> set cid" "cid \<noteq> []" "list_all (\<lambda>(k, v). CHR ''='' \<notin> set k) env" "mg_open (ov_mgmt ov)" "env_map Map.empty env = e"
  shows "accounting (mgmt_run (disconnect_lines cid env) ov) =
    accounting (recordSessionEnd cid (getd [] e ''common_name'') (ParseInt64 (getd [] e ''bytes_received'')) (ParseInt64 (getd [] e ''bytes_sent'')) ov)"
  using assms(2) unfolding run_disconnect [OF assms(1,3,4)] assms(5)
  by (simp add: finishDisconnect_def reading_def on_mgmt_def accounting_def recordSessionEnd_def Let_def)

text \<open>
  C25: For every client the daemon announces, new or re-authenticating, with any environment, the node
  writes exactly one answer, with the identifiers of that announcement: the client is let in when the
  last common name in the environment has an entry on the allow list and that entry pins no serial or
  the very serial of the certificate, and is denied otherwise. The session is counted exactly if it was
  let in; neither the allow list nor the accounting changes.
\<close>

theorem openvpn_admits_listed:
  assumes "CHR '','' \<notin> set cid" "cid \<noteq> []" "list_all (\<lambda>(k, v). CHR ''='' \<notin> set k) env" "mg_open (ov_mgmt ov)"
    and "env_map Map.empty env = e" "mgmt_run (connect_lines again cid kid env) ov = ov'"
    and "allowed \<longleftrightarrow> (\<exists>entry. us_users (ov_users ov) (getd [] e ''common_name'') = Some entry \<and>
           (ue_serial entry = [] \<or> ue_serial entry = getd [] e ''tls_serial_0''))"
  shows "mg_sent (ov_mgmt ov') = mg_sent (ov_mgmt ov) @
      [if allowed then ''client-auth-nt '' @ cid @ '' '' @ kid else ''client-deny '' @ cid @ '' '' @ kid @ '' '' @ go_quote ''unauthorized''] \<and>
    us_users (ov_users ov') = us_users (ov_users ov) \<and> accounting ov' = accounting ov \<and>
    (if allowed then \<exists>ids. us_sessions (ov_users ov') (getd [] e ''common_name'') = Some ids \<and> cid \<in> ids
     else us_sessions (ov_users ov') = us_sessions (ov_users ov))"
proof -
  let ?r = "reading cid kid False e ov" and ?cn = "getd [] e ''common_name''" and ?ser = "getd [] e ''tls_serial_0''"
  obtain a reason users where tc: "tryConnect ?cn ?ser cid (ov_users ov) = ((a, reason), users)" by (metis prod.exhaust)
  have a: "a = allowed" "\<not> allowed \<Longrightarrow> reason = ''unauthorized''" "\<not> allowed \<Longrightarrow> users = ov_users ov"
    "us_users users = us_users (ov_users ov)" "allowed \<Longrightarrow> \<exists>ids. us_sessions users ?cn = Some ids \<and> cid \<in> ids"
    using tc assms(7) by (auto simp: tryConnect_def authorizedLocked_def Let_def split: if_splits option.splits)
  have "ov' = finishConnect ?r" using run_connect [OF assms(1,3,4)] assms(5,6) by simp
  then have ov': "ov' = on_mgmt (mgmt_send (if allowed then ''client-auth-nt '' @ cid @ '' '' @ kid
        else ''client-deny '' @ cid @ '' '' @ kid @ '' '' @ go_quote ''unauthorized''))
      (on_mgmt (\<lambda>m. m\<lparr>mg_pendingCID := [], mg_pendingKID := [], mg_pendingEnv := None\<rparr>) (?r)\<lparr>ov_users := users\<rparr>)"
    using assms(2) tc a(1,2) by (auto simp: finishConnect_def reading_def on_mgmt_def Let_def)
  show ?thesis unfolding ov' using assms(4) a by (simp add: on_mgmt_def reading_def mgmt_send_def accounting_def)
qed

definition demo_ov :: openvpn where
  "demo_ov = (fresh_openvpn demo_ov_config 0)\<lparr>ov_mgmt := newMgmtClient\<lparr>mg_open := True\<rparr>,
     ov_users := (newUserStore ''ov'')\<lparr>us_users := [''7'' \<mapsto> \<lparr>ue_serial = ''AB'', ue_fingerprint = []\<rparr>]\<rparr>\<rparr>"

definition demo_announced :: "string \<Rightarrow> (string \<times> string) list" where
  "demo_announced serial = [(''common_name'', ''7''), (''tls_serial_0'', serial)]"

lemma demo_announced_map: "env_map Map.empty (demo_announced serial) = [''common_name'' \<mapsto> ''7'', ''tls_serial_0'' \<mapsto> serial]"
    "list_all (\<lambda>(k, v). CHR ''='' \<notin> set k) (demo_announced serial)"
  by (simp_all add: demo_announced_def env_map_def)

text \<open>The user's own certificate is admitted, one with another serial is not.\<close>

theorem openvpn_admits_listed_witness:
  "mg_sent (ov_mgmt (mgmt_run (connect_lines False ''3'' ''1'' (demo_announced ''AB'')) demo_ov)) = [''client-auth-nt 3 1''] \<and>
   mg_sent (ov_mgmt (mgmt_run (connect_lines False ''3'' ''1'' (demo_announced ''CD'')) demo_ov)) =
     [''client-deny 3 1 '' @ go_quote ''unauthorized'']"
proof -
  have p: "CHR '','' \<notin> set ''3''" "''3'' \<noteq> []" "mg_open (ov_mgmt demo_ov)" by (simp_all add: demo_ov_def)
  have listed: "(serial = ''AB'') \<longleftrightarrow> (\<exists>entry. us_users (ov_users demo_ov) (getd [] [''common_name'' \<mapsto> ''7'', ''tls_serial_0'' \<mapsto> serial] ''common_name'') = Some entry \<and>
      (ue_serial entry = [] \<or> ue_serial entry = getd [] [''common_name'' \<mapsto> ''7'', ''tls_serial_0'' \<mapsto> serial] ''tls_serial_0''))" for serial
    by (auto simp: demo_ov_def)
  note use = openvpn_admits_listed [OF p(1,2) demo_announced_map(2) p(3) demo_announced_map(1) refl listed, of False "''1''"]
  show ?thesis using use [of "''AB''"] use [of "''CD''"] by (simp add: demo_ov_def newMgmtClient_def)
qed


section \<open>Revocation\<close>

text \<open>What a list of users says about one common name: its last entitled mention.\<close>

definition entitled :: "string \<Rightarrow> user list \<Rightarrow> string \<Rightarrow> user_entry option" where
  "entitled tag us cn =
     (case filter (\<lambda>u. GetOpenvpn (GetProxies u) \<noteq> None \<and> tag \<in> set (GetInbounds u) \<and> GetEmail u = cn \<and> cn \<noteq> []) us of
        [] \<Rightarrow> None | v # vs \<Rightarrow> Some (entry_of (last (v # vs))))"

lemma entitled_Cons:
  "entitled tag (u # us) cn =
     (case entitled tag us cn of
        Some en \<Rightarrow> Some en
      | None \<Rightarrow> if GetOpenvpn (GetProxies u) \<noteq> None \<and> tag \<in> set (GetInbounds u) \<and> GetEmail u = cn \<and> cn \<noteq> [] then Some (entry_of u) else None)"
  by (simp add: entitled_def split: list.split)

lemma next_users_entitled: "next_users s us m cn = (case entitled (us_inboundTag s) us cn of None \<Rightarrow> m cn | Some en \<Rightarrow> Some en)"
proof (induction us arbitrary: m)
  case Nil
  show ?case by (simp add: entitled_def)
next
  case (Cons u us)
  show ?case
    unfolding entitled_Cons next_users.simps wantsInterface_def
    by (cases "entitled (us_inboundTag s) us cn") (auto simp: Cons.IH split: if_splits)
qed

lemma kill_all:
  assumes "list_all (\<lambda>cn. cn \<noteq> []) cns" "mg_open (ov_mgmt ov)"
  shows "foldl (\<lambda>ov cn. kill_user cn ov) ov cns = on_mgmt (\<lambda>m. m\<lparr>mg_sent := mg_sent m @ map (\<lambda>cn. ''kill '' @ cn) cns\<rparr>) ov"
  using assms
proof (induction cns arbitrary: ov)
  case (Cons cn cns)
  have "kill_user cn ov = on_mgmt (\<lambda>m. m\<lparr>mg_sent := mg_sent m @ [''kill '' @ cn]\<rparr>) ov"
    using Cons.prems by (simp add: kill_user_def mgmt_kill_def mgmt_send_def on_mgmt_def)
  with Cons.IH [of "kill_user cn ov"] Cons.prems show ?case by (simp add: on_mgmt_def)
qed (simp add: on_mgmt_def)

text \<open>The allow list never holds the empty name.\<close>

definition store_named :: "openvpn \<Rightarrow> bool" where
  "store_named ov \<longleftrightarrow> finite (dom (us_users (ov_users ov))) \<and> [] \<notin> dom (us_users (ov_users ov))"

lemma entitled_named: "entitled tag us [] = None"
  by (simp add: entitled_def)

text \<open>A user update, one user at a time.\<close>

lemma apply_one:
  assumes "applyUser u s = ((cn, changed, removed), s')" "us_inboundTag s = tag"
  shows "us_inboundTag s' = tag" "cn = GetEmail u" "cn = [] \<Longrightarrow> s' = s"
    "cn \<noteq> [] \<Longrightarrow> us_users s' = (us_users s)(cn := entitled tag [u] cn)"
    "cn \<noteq> [] \<Longrightarrow> us_users s cn = Some en \<Longrightarrow> (case us_users s' cn of None \<Rightarrow> True | Some en' \<Rightarrow> ue_serial en' \<noteq> ue_serial en) \<Longrightarrow> removed \<or> changed"
  using assms by (auto simp: applyUser_def entitled_def wantsInterface_def Let_def split: if_splits)

definition cut_off :: "user_entry \<Rightarrow> user_entry option \<Rightarrow> bool" where
  "cut_off en now \<longleftrightarrow> (case now of None \<Rightarrow> True | Some en' \<Rightarrow> ue_serial en' \<noteq> ue_serial en)"

lemma applyUsers_spec:
  assumes "mg_open (ov_mgmt ov)" "us_inboundTag (ov_users ov) = tag" "ov_applyUsers us ov = ov'"
  shows "us_inboundTag (ov_users ov') = tag \<and> mg_open (ov_mgmt ov') \<and>
    (\<forall>cn. us_users (ov_users ov') cn = (if cn \<noteq> [] \<and> cn \<in> GetEmail ` set us then entitled tag [last (filter (\<lambda>u. GetEmail u = cn) us)] cn else us_users (ov_users ov) cn)) \<and>
    (\<exists>sent. mg_sent (ov_mgmt ov') = mg_sent (ov_mgmt ov) @ sent \<and>
       (\<forall>cn en. cn \<noteq> [] \<and> us_users (ov_users ov) cn = Some en \<and> cut_off en (us_users (ov_users ov') cn) \<longrightarrow> ''kill '' @ cn \<in> set sent))"
  using assms
proof (induction us arbitrary: ov)
  case Nil
  then show ?case by (auto simp: cut_off_def)
next
  case (Cons u us)
  obtain cn changed removed users where ap: "applyUser u (ov_users ov) = ((cn, changed, removed), users)" by (metis prod.exhaust)
  note A = apply_one [OF ap Cons.prems(2)]
  define ov1 where "ov1 = (if cn \<noteq> [] \<and> (removed \<or> changed) then kill_user cn (ov\<lparr>ov_users := users\<rparr>) else ov\<lparr>ov_users := users\<rparr>)"
  have next1: "ov_applyUsers us ov1 = ov'" using Cons.prems(3) by (auto simp: ap ov1_def Let_def split: if_splits)
  have ov1: "mg_open (ov_mgmt ov1)" "ov_users ov1 = users"
    "mg_sent (ov_mgmt ov1) = mg_sent (ov_mgmt ov) @ (if cn \<noteq> [] \<and> (removed \<or> changed) then [''kill '' @ cn] else [])"
    using Cons.prems(1) by (simp_all add: ov1_def kill_user_def mgmt_kill_def mgmt_send_def on_mgmt_def)
  have tag1: "us_inboundTag (ov_users ov1) = tag" using A(1) by (simp add: ov1)
  from Cons.IH [OF ov1(1) tag1 next1] obtain sent where
    ih: "us_inboundTag (ov_users ov') = tag" "mg_open (ov_mgmt ov')"
    "\<And>c. us_users (ov_users ov') c = (if c \<noteq> [] \<and> c \<in> GetEmail ` set us then entitled tag [last (filter (\<lambda>u. GetEmail u = c) us)] c else us_users users c)"
    "mg_sent (ov_mgmt ov') = mg_sent (ov_mgmt ov1) @ sent"
    "\<And>c en. c \<noteq> [] \<Longrightarrow> us_users users c = Some en \<Longrightarrow> cut_off en (us_users (ov_users ov') c) \<Longrightarrow> ''kill '' @ c \<in> set sent"
    by (auto simp: ov1(2))
  let ?sent = "(if cn \<noteq> [] \<and> (removed \<or> changed) then [''kill '' @ cn] else []) @ sent"
  have users: "us_users users c = (if c \<noteq> [] \<and> c = GetEmail u then entitled tag [u] c else us_users (ov_users ov) c)" for c
    using A(2,3,4) by (cases "cn = []") auto
  have fin: "us_users (ov_users ov') c =
      (if c \<noteq> [] \<and> c \<in> GetEmail ` set (u # us) then entitled tag [last (filter (\<lambda>u. GetEmail u = c) (u # us))] c else us_users (ov_users ov) c)" for c
  proof (cases "c \<in> GetEmail ` set us")
    case True
    then have "filter (\<lambda>u. GetEmail u = c) us \<noteq> []" by (auto simp: filter_empty_conv)
    with True show ?thesis unfolding ih(3) users by (simp add: users)
  next
    case False
    then have "filter (\<lambda>u. GetEmail u = c) us = []" by (auto simp: filter_empty_conv)
    with False show ?thesis unfolding ih(3) users by auto
  qed
  have killed: "''kill '' @ c \<in> set ?sent" if "c \<noteq> []" "us_users (ov_users ov) c = Some en" "cut_off en (us_users (ov_users ov') c)" for c en
  proof (cases "us_users users c")
    case None
    then have "c = cn" "cn \<noteq> []" using that A(2) by (auto simp: users split: if_splits)
    with A(5) [of en] that None show ?thesis by simp
  next
    case (Some en1)
    show ?thesis
    proof (cases "ue_serial en1 = ue_serial en")
      case True
      then have "cut_off en1 (us_users (ov_users ov') c)" using that(3) by (simp add: cut_off_def split: option.splits)
      with ih(5) [OF that(1) Some] show ?thesis by simp
    next
      case False
      then have "c = cn" "cn \<noteq> []" using that Some A(2) by (auto simp: users split: if_splits)
      with A(5) [of en] that Some False show ?thesis by simp
    qed
  qed
  have sent: "mg_sent (ov_mgmt ov') = mg_sent (ov_mgmt ov) @ ?sent" unfolding ih(4) ov1(3) append_assoc ..
  show ?case using ih(1,2) fin sent killed by blast
qed


lemma SyncUsers_spec:
  assumes "range_order rg" "store_named ov" "mg_open (ov_mgmt ov)" "us_inboundTag (ov_users ov) = tag" "ov_SyncUsers rg us ov = (e, ov')"
  shows "e = None \<and> us_users (ov_users ov') = entitled tag us \<and>
    (\<exists>sent. mg_sent (ov_mgmt ov') = mg_sent (ov_mgmt ov) @ sent \<and>
       set sent = (\<lambda>cn. ''kill '' @ cn) ` {cn \<in> dom (us_users (ov_users ov)). entitled tag us cn = None})"
proof -
  let ?ks = "keys_of rg 0 (us_users (ov_users ov))" and ?nxt = "next_users (ov_users ov) us Map.empty"
  let ?removed = "filter (\<lambda>cn. ?nxt cn = None) ?ks"
  have nxt: "?nxt = entitled tag us" by (rule ext) (simp add: next_users_entitled assms(4) split: option.split)
  have fin: "finite (dom (us_users (ov_users ov)))" using assms(2) by (simp add: store_named_def)
  have ks: "set ?ks = dom (us_users (ov_users ov))" using set_keys_of [OF assms(1) fin] .
  define users where "users = snd (replaceAll rg us (ov_users ov))"
  have ra: "replaceAll rg us (ov_users ov) = (?removed, users)" and u: "us_users users = ?nxt" by (simp_all add: users_def replaceAll_def Let_def)
  have ne: "list_all (\<lambda>cn. cn \<noteq> []) ?removed" using ks assms(2) by (auto simp: list_all_iff store_named_def)
  have "ov' = foldl (\<lambda>ov cn. kill_user cn ov) (ov\<lparr>ov_users := users\<rparr>) ?removed" "e = None" using assms(5) by (simp_all add: ov_SyncUsers_def ra)
  moreover have "mg_open (ov_mgmt (ov\<lparr>ov_users := users\<rparr>))" using assms(3) by simp
  ultimately have ov': "ov' = on_mgmt (\<lambda>m. m\<lparr>mg_sent := mg_sent m @ map (\<lambda>cn. ''kill '' @ cn) ?removed\<rparr>) (ov\<lparr>ov_users := users\<rparr>)"
    using kill_all [OF ne] by blast
  have "set (map (\<lambda>cn. ''kill '' @ cn) ?removed) = (\<lambda>cn. ''kill '' @ cn) ` {cn \<in> dom (us_users (ov_users ov)). entitled tag us cn = None}"
    using ks by (simp only: set_map set_filter nxt)
  then show ?thesis using \<open>e = None\<close> nxt u by (auto simp: ov' on_mgmt_def)
qed

text \<open>
  C26: After a full synchronisation the allow list is exactly what the users of the request are entitled
  to, and the node has told the daemon to kill the sessions of exactly the users who are no longer on
  it. After a partial one the users it names have what their last mention gives them, everybody else
  what they had, and every user whose former certificate is no longer good, because the user left or
  because another serial was issued, has been killed.
\<close>

theorem openvpn_revokes:
  assumes "range_order rg" "store_named ov" "mg_open (ov_mgmt ov)" "us_inboundTag (ov_users ov) = tag"
    and "ov_SyncUsers rg us ov = (e, full)" "ov_UpdateUsers us ov = (e', part)"
  shows "us_users (ov_users full) = entitled tag us \<and>
    (\<exists>sent. mg_sent (ov_mgmt full) = mg_sent (ov_mgmt ov) @ sent \<and>
       set sent = (\<lambda>cn. ''kill '' @ cn) ` {cn \<in> dom (us_users (ov_users ov)). entitled tag us cn = None}) \<and>
    (\<forall>cn. us_users (ov_users part) cn = (if cn \<noteq> [] \<and> cn \<in> GetEmail ` set us
       then entitled tag [last (filter (\<lambda>u. GetEmail u = cn) us)] cn else us_users (ov_users ov) cn)) \<and>
    (\<exists>sent. mg_sent (ov_mgmt part) = mg_sent (ov_mgmt ov) @ sent \<and>
       (\<forall>cn en. cn \<noteq> [] \<and> us_users (ov_users ov) cn = Some en \<and> cut_off en (us_users (ov_users part) cn) \<longrightarrow> ''kill '' @ cn \<in> set sent))"
proof -
  have "ov_applyUsers us ov = part" using assms(6) by (simp add: ov_UpdateUsers_def)
  from applyUsers_spec [OF assms(3,4) this] SyncUsers_spec [OF assms(1-5)] show ?thesis by blast
qed

theorem openvpn_revokes_witness:
  "\<exists>full part. ov_SyncUsers sorted_ranger [] demo_ov = (None, full) \<and> ov_UpdateUsers [] demo_ov = (None, part) \<and>
     us_users (ov_users full) ''7'' = None \<and> mg_sent (ov_mgmt full) \<noteq> [] \<and> us_users (ov_users part) ''7'' \<noteq> None"
proof -
  have s: "store_named demo_ov" "mg_open (ov_mgmt demo_ov)" "us_inboundTag (ov_users demo_ov) = ''ov''" "mg_sent (ov_mgmt demo_ov) = []"
    "us_users (ov_users demo_ov) = [''7'' \<mapsto> \<lparr>ue_serial = ''AB'', ue_fingerprint = []\<rparr>]"
    by (simp_all add: demo_ov_def store_named_def newUserStore_def newMgmtClient_def)
  obtain e full where f0: "ov_SyncUsers sorted_ranger [] demo_ov = (e, full)" by (metis prod.exhaust)
  then have f: "ov_SyncUsers sorted_ranger [] demo_ov = (None, full)" using SyncUsers_spec [OF range_order_sorted s(1-3) f0] by simp
  obtain part where p: "ov_UpdateUsers [] demo_ov = (None, part)" by (simp add: ov_UpdateUsers_def)
  from openvpn_revokes [OF range_order_sorted s(1-3) f p] obtain sent where r: "us_users (ov_users full) = entitled ''ov'' []"
    "mg_sent (ov_mgmt full) = mg_sent (ov_mgmt demo_ov) @ sent"
    "set sent = (\<lambda>cn. ''kill '' @ cn) ` {cn \<in> dom (us_users (ov_users demo_ov)). entitled ''ov'' [] cn = None}"
    "us_users (ov_users part) ''7'' = us_users (ov_users demo_ov) ''7''" by auto
  have en: "entitled ''ov'' [] cn = None" for cn by (simp add: entitled_def)
  have "''kill '' @ ''7'' \<in> set sent" unfolding r(3) using s(5) en by (intro imageI) simp
  then have "sent \<noteq> []" by auto
  with f p r(1,2,4) s(4,5) en show ?thesis by auto
qed

text \<open>
  A full synchronisation that gives a user another certificate does not end the session of the old one.
\<close>

lemma sync_keeps_reissued_session:
  assumes "range_order rg" "store_named ov" "mg_open (ov_mgmt ov)" "us_inboundTag (ov_users ov) = tag"
    and "us_users (ov_users ov) = [cn \<mapsto> en]" "entitled tag us cn = Some en'" "ov_SyncUsers rg us ov = (e, ov')"
  shows "us_users (ov_users ov') cn = Some en' \<and> mg_sent (ov_mgmt ov') = mg_sent (ov_mgmt ov)"
proof -
  from SyncUsers_spec [OF assms(1-4,7)] obtain sent where s: "us_users (ov_users ov') = entitled tag us" "mg_sent (ov_mgmt ov') = mg_sent (ov_mgmt ov) @ sent"
    "set sent = (\<lambda>cn. ''kill '' @ cn) ` {cn \<in> dom (us_users (ov_users ov)). entitled tag us cn = None}" by blast
  have "{cn \<in> dom (us_users (ov_users ov)). entitled tag us cn = None} = {}" using assms(5,6) by auto
  then have "sent = []" using s(3) by (simp only: image_empty set_empty)
  then show ?thesis using s(1,2) assms(6) by simp
qed

end
