(* ===== verification/Openvpn_Listeners.thy ===== *)
theory Openvpn_Listeners
  imports Openvpn_Access
begin

unbundle bit_operations_syntax

text \<open>
  One core, several servers: the split of the subnet gives every listener a range of its own inside the
  subnet, listeners of an accepted configuration never share an endpoint, and a core whose last
  listener fails to start leaves none of the others running.
\<close>

section \<open>Addresses as numbers\<close>

fun ip_value :: "ip \<Rightarrow> nat" where
  "ip_value [] = 0"
| "ip_value (b # bs) = b * 256 ^ length bs + ip_value bs"

lemma ip_value_bound: "list_all (\<lambda>b. b < 256) a \<Longrightarrow> ip_value a < 256 ^ length a"
proof (induction a)
  case (Cons b bs)
  then have "ip_value bs < 256 ^ length bs" "b + 1 \<le> 256" by simp_all
  then have "ip_value (b # bs) < (b + 1) * 256 ^ length bs" by simp
  also have "\<dots> \<le> 256 * 256 ^ length bs" using \<open>b + 1 \<le> 256\<close> by (intro mult_le_mono1)
  finally show ?case by simp
qed simp

lemma mask_byte_le: "mask_byte k b \<le> b"
  by (simp add: mask_byte_def)

lemma mask_ip_bytes: "list_all (\<lambda>b. b < 256) a \<Longrightarrow> list_all (\<lambda>b. b < 256) (mask_ip k a)"
proof (induction a arbitrary: k)
  case (Cons b a)
  have "mask_byte (min k 8) b < 256" using Cons.prems mask_byte_le [of "min k 8" b] by simp
  then show ?case using Cons by simp
qed simp

lemma mask_ip_0: "list_all (\<lambda>b. b < 256) a \<Longrightarrow> ip_value (mask_ip 0 a) = 0"
  by (induction a) (simp_all add: mask_byte_def)

lemma pow_256: "(256 :: nat) ^ n = 2 ^ (8 * n)"
  by (simp add: power_mult)

text \<open>The network number is a multiple of the size of the network.\<close>

lemma mask_ip_aligned:
  "list_all (\<lambda>b. b < 256) a \<Longrightarrow> k \<le> 8 * length a \<Longrightarrow> 2 ^ (8 * length a - k) dvd ip_value (mask_ip k a)"
proof (induction a arbitrary: k)
  case (Cons b a)
  let ?n = "8 * length a"
  show ?case
  proof (cases "8 \<le> k")
    case True
    have "2 ^ (?n - (k - 8)) dvd ip_value (mask_ip (k - 8) a)"
      by (rule Cons.IH) (use Cons.prems True in simp_all)
    moreover have "2 ^ (?n - (k - 8)) dvd (256 :: nat) ^ length a" unfolding pow_256 by (rule le_imp_power_dvd) simp
    moreover have "8 * length (b # a) - k = ?n - (k - 8)" using True by simp
    ultimately show ?thesis using True by (simp add: dvd_add dvd_mult)
  next
    case False
    have "2 ^ (8 - k) dvd mask_byte k b" unfolding mask_byte_def by (rule dvd_minus_mod)
    then have "2 ^ (8 - k) * 2 ^ ?n dvd mask_byte k b * 256 ^ length a" unfolding pow_256 by (rule mult_dvd_mono) simp
    moreover have "8 * length (b # a) - k = (8 - k) + ?n" using False by simp
    moreover have "ip_value (mask_ip k (b # a)) = mask_byte k b * 256 ^ length a"
      using Cons.prems False mask_ip_0 [of a] by simp
    ultimately show ?thesis by (simp only: power_add)
  qed
qed simp

lemma byte_bits:
  assumes "b < 256" "bit (push_bit k (of_nat b :: 32 word)) n"
  shows "k \<le> n \<and> n < k + 8"
proof -
  have "take_bit 8 (of_nat b :: 32 word) = of_nat b"
    using assms(1) by (simp add: take_bit_of_nat take_bit_nat_eq_self)
  then have "bit (take_bit 8 (of_nat b :: 32 word)) (n - k)" "k \<le> n" using assms(2) by (simp_all add: bit_push_bit_iff)
  then show ?thesis by (auto simp: bit_take_bit_iff)
qed

lemma ip4_word_value:
  assumes "length a = 4" "list_all (\<lambda>b. b < 256) a"
  shows "ip4_word a = of_nat (ip_value a)" "unat (ip4_word a) = ip_value a"
proof -
  obtain p q r s where a: "a = [p, q, r, s]" using assms(1) by (auto simp: numeral_eq_Suc length_Suc_conv)
  have b: "p < 256" "q < 256" "r < 256" "s < 256" using assms(2) by (simp_all add: a)
  let ?b = "\<lambda>k x. push_bit k (of_nat x) :: 32 word"
  note bits = byte_bits [OF b(1), of 24] byte_bits [OF b(2), of 16] byte_bits [OF b(3), of 8] byte_bits [OF b(4), of 0]
  have "?b 8 r + ?b 0 s = ?b 8 r OR ?b 0 s" by (rule disjunctive_add) (use bits in fastforce)
  moreover have "?b 16 q + (?b 8 r OR ?b 0 s) = ?b 16 q OR (?b 8 r OR ?b 0 s)"
    by (rule disjunctive_add) (unfold bit_or_iff, use bits in fastforce)
  moreover have "?b 24 p + (?b 16 q OR (?b 8 r OR ?b 0 s)) = ?b 24 p OR (?b 16 q OR (?b 8 r OR ?b 0 s))"
    by (rule disjunctive_add) (unfold bit_or_iff, use bits in fastforce)
  ultimately have "ip4_word a = ?b 24 p + (?b 16 q + (?b 8 r + ?b 0 s))" by (simp add: ip4_word_def a or.assoc)
  also have "\<dots> = of_nat (ip_value a)" by (simp add: a push_bit_eq_mult)
  finally show w: "ip4_word a = of_nat (ip_value a)" .
  have "ip_value a < 2 ^ 32" using ip_value_bound [OF assms(2)] assms(1) by simp
  then show "unat (ip4_word a) = ip_value a" unfolding w by (simp add: unat_of_nat take_bit_nat_eq_self)
qed


lemma word_ip4_value:
  assumes "v < 2 ^ 32"
  shows "word_ip4 (of_nat v) = [v div 2 ^ 24, v div 2 ^ 16 mod 256, v div 2 ^ 8 mod 256, v mod 256]"
proof -
  have b: "unat (ucast (drop_bit k (of_nat v :: 32 word)) :: 8 word) = v div 2 ^ k mod 256" for k
  proof -
    have "unat (of_nat v :: 32 word) = v" using assms by (simp add: unat_of_nat take_bit_nat_eq_self)
    then have "unat (drop_bit k (of_nat v :: 32 word)) = v div 2 ^ k" by (simp only: unat_drop_bit_eq) (simp only: drop_bit_eq_div)
    then show ?thesis by (simp add: unsigned_ucast_eq take_bit_eq_mod)
  qed
  have "v div 2 ^ 24 mod 256 = v div 2 ^ 24" using assms by simp
  then show ?thesis using b [of 0] by (simp add: word_ip4_def b)
qed

lemma bits_len_bound: "n < 2 ^ bits_len n"
proof (induction n rule: bits_len.induct)
  case (1 n)
  show ?case
  proof (cases "n = 0")
    case False
    then have "n div 2 < 2 ^ bits_len (n div 2)" using 1 by simp
    then have "n < 2 * 2 ^ bits_len (n div 2)" by linarith
    then show ?thesis using False by (subst bits_len.simps) simp
  qed simp
qed

lemma bits_len_least: "0 < n \<Longrightarrow> 2 ^ bits_len n \<le> 2 * n"
proof (induction n rule: bits_len.induct)
  case (1 n)
  show ?case
  proof (cases "n div 2 = 0")
    case True
    with 1(2) have "n = 1" by linarith
    then show ?thesis by (subst bits_len.simps) (simp add: bits_len.simps [of 0])
  next
    case False
    then have "2 ^ bits_len (n div 2) \<le> 2 * (n div 2)" using 1 by simp
    then have "2 * 2 ^ bits_len (n div 2) \<le> 2 * n" by linarith
    then show ?thesis using 1(2) by (subst bits_len.simps) simp
  qed
qed

text \<open>The bits taken for the split number at least the listeners, and one bit less would not.\<close>

lemma bitsNeeded_bound: "0 < n \<Longrightarrow> n \<le> 2 ^ bitsNeeded n"
  using bits_len_bound [of "n - 1"] by (auto simp: bitsNeeded_def)

lemma bitsNeeded_least: "1 < n \<Longrightarrow> 2 ^ bitsNeeded n < 2 * n"
  using bits_len_least [of "n - 1"] by (auto simp: bitsNeeded_def)


section \<open>Parsing\<close>

lemma parsePrefix4:
  assumes "parsePrefix s = Some (a, bits)" "length a = 4"
  shows "list_all (\<lambda>b. b < 256) a" "bits \<le> 32"
  using assms ParseAddr4 [of _ a] by (auto simp: parsePrefix_def split: option.splits prod.splits if_splits)


section \<open>Disjoint ranges\<close>

definition subnet_text :: "nat \<Rightarrow> nat \<Rightarrow> string" where
  "subnet_text v bits = show_ipv4 [v div 2 ^ 24, v div 2 ^ 16 mod 256, v div 2 ^ 8 mod 256, v mod 256] @ ''/'' @ show_nat bits"

lemma splitSubnet_block:
  assumes "splitSubnet cidr i n = Inr s" "i < n" "1 < n" "parsePrefix cidr = Some (a, bits)"
  defines "nb \<equiv> bits + bitsNeeded n" and "base \<equiv> ip_value (mask_ip bits a)"
  shows "s = subnet_text (base + i * 2 ^ (32 - nb)) nb" "nb \<le> 24" "(i + 1) * 2 ^ (32 - nb) \<le> 2 ^ (32 - bits)"
    "base + 2 ^ (32 - bits) \<le> 2 ^ 32" "2 ^ (32 - bits) dvd base"
proof -
  from assms(1,3,4) have a: "length a = 4" and nb: "nb \<le> 24"
    and s: "s = show_ipv4 (word_ip4 (split_start (mask_ip bits a) nb i)) @ ''/'' @ show_nat nb"
    by (auto simp: splitSubnet_def nb_def Let_def split: if_splits)
  note P = parsePrefix4 [OF assms(4) a]
  have m: "length (mask_ip bits a) = 4" "list_all (\<lambda>b. b < 256) (mask_ip bits a)" using a mask_ip_bytes [OF P(1)] by simp_all
  show dvd: "2 ^ (32 - bits) dvd base" using mask_ip_aligned [OF P(1), of bits] P(2) by (simp add: a base_def)
  have lt: "base < 2 ^ 32" using ip_value_bound [OF m(2)] m(1) by (simp add: base_def)
  show room: "base + 2 ^ (32 - bits) \<le> 2 ^ 32"
  proof -
    obtain q where q: "base = 2 ^ (32 - bits) * q" using dvd by blast
    have "(2 :: nat) ^ 32 = 2 ^ (32 - bits) * 2 ^ bits" using P(2) by (simp flip: power_add)
    with lt q have "2 ^ (32 - bits) * q < 2 ^ (32 - bits) * 2 ^ bits" by simp
    then have "q < 2 ^ bits" by (rule mult_less_cancel1 [THEN iffD1, THEN conjunct2])
    then have "2 ^ (32 - bits) * (q + 1) \<le> 2 ^ (32 - bits) * 2 ^ bits" by (intro mult_le_mono2) simp
    with q show ?thesis using \<open>2 ^ 32 = 2 ^ (32 - bits) * 2 ^ bits\<close> by simp
  qed
  have pow: "(2 :: nat) ^ (32 - bits) = 2 ^ bitsNeeded n * 2 ^ (32 - nb)" using nb by (simp add: nb_def flip: power_add)
  show fit: "(i + 1) * 2 ^ (32 - nb) \<le> 2 ^ (32 - bits)"
    unfolding pow using bitsNeeded_bound [of n] assms(2) by (intro mult_le_mono1) simp
  show "nb \<le> 24" by (rule nb)
  have "split_start (mask_ip bits a) nb i = of_nat (base + i * 2 ^ (32 - nb))"
    unfolding split_start_def ip4_word_value(1) [OF m] base_def by (simp add: push_bit_eq_mult mult.commute)
  moreover have "base + i * 2 ^ (32 - nb) < 2 ^ 32"
  proof -
    have "i * 2 ^ (32 - nb) < (i + 1) * 2 ^ (32 - nb)" by simp
    with fit room show ?thesis by linarith
  qed
  ultimately show "s = subnet_text (base + i * 2 ^ (32 - nb)) nb" by (simp only: s subnet_text_def word_ip4_value)
qed

text \<open>
  C27: Two listeners of one core never hand out the same address. Let the core's subnet be the IPv4
  prefix \<open>a/bits\<close> with network number \<open>base\<close>. Then listener \<open>i\<close> of \<open>n\<close> gets block number \<open>i\<close> of that
  subnet cut into blocks of one size, a /24 or larger, at least as many as there are listeners and fewer than
  twice as many; the blocks of two listeners do not overlap, both lie inside the core's subnet, and the
  subnet ends at or before \<open>2 ^ 32\<close>, so that the 32-bit arithmetic does not wrap.
\<close>

theorem listener_ranges_disjoint:
  assumes "splitSubnet cidr i n = Inr s" "splitSubnet cidr j n = Inr t" "i < n" "j < n" "i \<noteq> j"
  shows "\<exists>a bits nb. parsePrefix cidr = Some (a, bits) \<and> length a = 4 \<and> bits \<le> nb \<and> nb \<le> 24 \<and>
    n \<le> 2 ^ (nb - bits) \<and> 2 ^ (nb - bits) < 2 * n \<and>
    (let base = ip_value (mask_ip bits a); k = 2 ^ (32 - nb); lo = base + i * k; hi = base + j * k
     in s = subnet_text lo nb \<and> t = subnet_text hi nb \<and>
        {lo ..< lo + k} \<inter> {hi ..< hi + k} = {} \<and>
        {lo ..< lo + k} \<union> {hi ..< hi + k} \<subseteq> {base ..< base + 2 ^ (32 - bits)} \<and>
        base + 2 ^ (32 - bits) \<le> 2 ^ 32 \<and> k dvd lo \<and> k dvd hi)"
proof -
  have n: "1 < n" using assms(3-5) by linarith
  obtain a bits where p: "parsePrefix cidr = Some (a, bits)"
    using assms(1) n by (cases "parsePrefix cidr") (auto simp: splitSubnet_def)
  have a: "length a = 4" using assms(1) n p by (auto simp: splitSubnet_def Let_def split: if_splits)
  let ?nb = "bits + bitsNeeded n" and ?base = "ip_value (mask_ip bits a)"
  let ?k = "2 ^ (32 - ?nb) :: nat"
  note S = splitSubnet_block [OF assms(1,3) n p] and T = splitSubnet_block [OF assms(2,4) n p]
  have disj: "{?base + i * ?k ..< ?base + i * ?k + ?k} \<inter> {?base + j * ?k ..< ?base + j * ?k + ?k} = {}"
  proof (cases "i < j")
    case True
    then have "(i + 1) * ?k \<le> j * ?k" by (intro mult_le_mono1) simp
    then show ?thesis by auto
  next
    case False
    then have "(j + 1) * ?k \<le> i * ?k" using assms(5) by (intro mult_le_mono1) simp
    then show ?thesis by auto
  qed
  have "?k dvd 2 ^ (32 - bits)" by (rule le_imp_power_dvd) simp
  then have "?k dvd ?base" using S(5) dvd_trans by blast
  then have "?k dvd ?base + i * ?k" "?k dvd ?base + j * ?k" by simp_all
  moreover have "{?base + i * ?k ..< ?base + i * ?k + ?k} \<union> {?base + j * ?k ..< ?base + j * ?k + ?k} \<subseteq> {?base ..< ?base + 2 ^ (32 - bits)}"
    using S(3) T(3) by auto
  ultimately have "let base = ?base; k = ?k; lo = base + i * k; hi = base + j * k
     in s = subnet_text lo ?nb \<and> t = subnet_text hi ?nb \<and> {lo ..< lo + k} \<inter> {hi ..< hi + k} = {} \<and>
        {lo ..< lo + k} \<union> {hi ..< hi + k} \<subseteq> {base ..< base + 2 ^ (32 - bits)} \<and>
        base + 2 ^ (32 - bits) \<le> 2 ^ 32 \<and> k dvd lo \<and> k dvd hi"
    unfolding Let_def using disj S(1,4) T(1) by (intro conjI)
  moreover have "bits \<le> ?nb" "n \<le> 2 ^ (?nb - bits)" "2 ^ (?nb - bits) < 2 * n"
    using bitsNeeded_bound [of n] bitsNeeded_least [OF n] n by simp_all
  ultimately show ?thesis using p a S(2) by blast
qed


lemma demo_split: "splitSubnet ''10.8.0.0/16'' 0 2 = Inr ''10.8.0.0/17''" "splitSubnet ''10.8.0.0/16'' 1 2 = Inr ''10.8.128.0/17''"
  "parsePrefix ''10.8.0.0/16'' = Some ([10, 8, 0, 0], 16)"
  by code_simp+

theorem listener_ranges_disjoint_witness:
  "\<exists>lo hi. ''10.8.0.0/17'' = subnet_text lo 17 \<and> ''10.8.128.0/17'' = subnet_text hi 17 \<and>
     {lo ..< lo + 2 ^ 15} \<inter> {hi ..< hi + 2 ^ 15} = {} \<and>
     {lo ..< lo + 2 ^ 15} \<union> {hi ..< hi + 2 ^ 15} \<subseteq> {ip_value [10, 8, 0, 0] ..< ip_value [10, 8, 0, 0] + 2 ^ 16}"
proof -
  have "0 < (2 :: nat)" "1 < (2 :: nat)" "0 \<noteq> (1 :: nat)" by simp_all
  from listener_ranges_disjoint [OF demo_split(1,2) this] obtain a bits nb
    where p: "parsePrefix ''10.8.0.0/16'' = Some (a, bits)" and nb: "bits \<le> nb" "2 \<le> (2 :: nat) ^ (nb - bits)" "(2 :: nat) ^ (nb - bits) < 2 * 2"
      and r: "let base = ip_value (mask_ip bits a); k = 2 ^ (32 - nb); lo = base + 0 * k; hi = base + 1 * k
         in ''10.8.0.0/17'' = subnet_text lo nb \<and> ''10.8.128.0/17'' = subnet_text hi nb \<and> {lo ..< lo + k} \<inter> {hi ..< hi + k} = {} \<and>
            {lo ..< lo + k} \<union> {hi ..< hi + k} \<subseteq> {base ..< base + 2 ^ (32 - bits)} \<and>
            base + 2 ^ (32 - bits) \<le> 2 ^ 32 \<and> k dvd lo \<and> k dvd hi" by blast
  from p demo_split(3) have ab: "a = [10, 8, 0, 0]" "bits = 16" by simp_all
  have "nb - 16 \<noteq> 0" using nb(2) unfolding ab by (intro notI) simp
  moreover have "(2 :: nat) ^ (nb - 16) < 2 ^ 2" using nb(3) unfolding ab by simp
  then have "nb - 16 < 2" by (rule power_less_imp_less_exp [rotated]) simp
  ultimately have n17: "nb = 17" by linarith
  have m: "mask_ip 16 [10, 8, 0, 0] = [10, 8, 0, 0]" by code_simp
  have "32 - 17 = (15 :: nat)" "32 - 16 = (16 :: nat)" by simp_all
  with r show ?thesis unfolding ab n17 m Let_def by metis
qed


section \<open>Starting all listeners or none\<close>

definition up :: "openvpn \<Rightarrow> bool" where
  "up ov \<longleftrightarrow> ov_Started ov \<and> ov_process ov \<and> mg_open (ov_mgmt ov) \<and> \<not> ov_shutdownOnce ov"

definition released :: "openvpn \<Rightarrow> bool" where
  "released ov \<longleftrightarrow> \<not> ov_Started ov \<and> \<not> ov_process ov \<and> \<not> mg_open (ov_mgmt ov) \<and> \<not> ov_hostRouting ov"

lemma Shutdown_released: "up ov \<Longrightarrow> released (ov_Shutdown ov)"
  by (simp add: up_def released_def ov_Shutdown_def ov_Started_def stopProcess_def on_mgmt_def mgmt_close_def)

lemma New_cases:
  assumes "ov_New E rg now path c us = (e, ov)"
  shows "if e = None then up ov \<and> us_users (ov_users ov) = entitled (oc_InboundTag c) us \<and> ov_sessionSeen ov = Map.empty
    else \<not> ov_Started ov \<and> \<not> ov_process ov"
proof -
  have "us_users (snd (replaceAll rg us (newUserStore (oc_InboundTag c)))) = entitled (oc_InboundTag c) us"
    by (rule ext) (simp add: replaceAll_def next_users_entitled newUserStore_def Let_def split: option.split)
  then show ?thesis using assms
    by (auto simp: ov_New_def startProcess_def connect_mgmt_def mgmt_connect_def stopProcess_def fresh_openvpn_def up_def ov_Started_def Let_def
        split: sum.splits option.splits prod.splits if_splits)
qed

text \<open>\<open>starts i ov\<close>: listener \<open>i\<close> of the configuration, started on its own, comes up as \<open>ov\<close>.\<close>

definition starts :: "ov_env \<Rightarrow> ranger \<Rightarrow> gotime \<Rightarrow> string \<Rightarrow> ov_config \<Rightarrow> user list \<Rightarrow> nat \<Rightarrow> openvpn \<Rightarrow> bool" where
  "starts E rg now path c us i ov \<longleftrightarrow>
     (if length (oc_Listeners c) \<le> 1 then i = 0 \<and> ov_New E rg now path c us = (None, ov)
      else i < length (oc_Listeners c) \<and>
        (\<exists>d. derive c path (oc_Listeners c ! i) i (length (oc_Listeners c)) = Inr d \<and> ov_New E rg now path d us = (None, ov)))"

lemma starts_up:
  assumes "starts E rg now path c us i ov"
  shows "up ov \<and> us_users (ov_users ov) = entitled (oc_InboundTag c) us"
proof -
  from assms obtain d where "ov_New E rg now path d us = (None, ov)" "oc_InboundTag d = oc_InboundTag c"
    by (auto simp: starts_def derive_def Let_def split: if_splits sum.splits)
  with New_cases [OF this(1)] show ?thesis by simp
qed

lemma start_listeners_spec:
  assumes "start_listeners E rg now path c us i ls started = (r, downed)" "1 < length (oc_Listeners c)"
    and "i = length started" "ls = drop i (oc_Listeners c)" "\<forall>j < i. starts E rg now path c us j (started ! j)"
  shows "case r of
      Inl err \<Rightarrow> \<exists>ovs. length ovs < length (oc_Listeners c) \<and> (\<forall>j < length ovs. starts E rg now path c us j (ovs ! j)) \<and>
        (\<nexists>ov. starts E rg now path c us (length ovs) ov) \<and> downed = map ov_Shutdown ovs
    | Inr ovs \<Rightarrow> length ovs = length (oc_Listeners c) \<and> (\<forall>j < length ovs. starts E rg now path c us j (ovs ! j)) \<and> downed = []"
  using assms
proof (induction ls arbitrary: i started)
  case Nil
  have "length started \<le> length (oc_Listeners c)"
  proof (rule ccontr)
    assume "\<not> ?thesis"
    with Nil.prems(3,5) have "starts E rg now path c us (length (oc_Listeners c)) (started ! length (oc_Listeners c))" by simp
    then show False using Nil.prems(2) by (simp add: starts_def)
  qed
  moreover have "length (oc_Listeners c) \<le> length started" using Nil.prems(3,4) by simp
  moreover have "r = Inr started" "downed = []" using Nil.prems(1) by simp_all
  ultimately show ?case using Nil.prems(3,5) by simp
next
  case (Cons l ls)
  have i: "i < length (oc_Listeners c)" "l = oc_Listeners c ! i" "ls = drop (Suc i) (oc_Listeners c)"
    using Cons.prems(4) by (metis drop_eq_Nil list.distinct(1) not_less, metis nth_via_drop, metis list.inject Cons_nth_drop_Suc drop_eq_Nil linorder_not_le list.distinct(1))
  have fail: ?case if "\<nexists>ov. starts E rg now path c us i ov" "r = Inl err" "downed = map ov_Shutdown started" for err
    using that i(1) Cons.prems(3,5) by auto
  show ?case
  proof (cases "derive c path l i (length (oc_Listeners c))")
    case (Inl err)
    then have "\<nexists>ov. starts E rg now path c us i ov" using Cons.prems(2) i by (simp add: starts_def)
    moreover have "r = Inl err" "downed = map ov_Shutdown started" using Cons.prems(1) Inl by auto
    ultimately show ?thesis by (rule fail)
  next
    case (Inr d)
    obtain e ov where n: "ov_New E rg now path d us = (e, ov)" by fastforce
    have one: "starts E rg now path c us i ov' \<longleftrightarrow> ov_New E rg now path d us = (None, ov')" for ov'
      using Cons.prems(2) i Inr by (simp add: starts_def)
    show ?thesis
    proof (cases e)
      case None
      have "\<forall>j < Suc i. starts E rg now path c us j ((started @ [ov]) ! j)"
        using Cons.prems(3,5) one n None by (auto simp: less_Suc_eq nth_append)
      moreover have "start_listeners E rg now path c us (Suc i) ls (started @ [ov]) = (r, downed)"
        using Cons.prems(1) Inr n None by simp
      ultimately show ?thesis using Cons.IH [of "Suc i" "started @ [ov]"] Cons.prems(2,3) i(3) by simp
    next
      case (Some err)
      then have "\<nexists>ov. starts E rg now path c us i ov" using one n by simp
      moreover have "r = Inl (''start openvpn listener '' @ li_Proto l @ ''/'' @ show_int (li_Port l) @ '': '' @ err)"
        "downed = map ov_Shutdown started" using Cons.prems(1) Inr n Some by auto
      ultimately show ?thesis by (rule fail)
    qed
  qed
qed

text \<open>
  C28: A core comes up whole or not at all. When every listener starts, the core has all of them in the
  order of the configuration, each with its process, its management connection and the users of the
  request. When one fails, the error is returned and the listeners shut down are exactly those started
  before the first one that does not start; after it each has its process, connection and routing gone.
\<close>

theorem listeners_all_or_none:
  assumes "NewBackend E rg now path c us = (r, downed)"
  shows "case r of
      Inl err \<Rightarrow> \<exists>ovs. length ovs < max 1 (length (oc_Listeners c)) \<and>
        (\<forall>i < length ovs. starts E rg now path c us i (ovs ! i)) \<and> (\<nexists>ov. starts E rg now path c us (length ovs) ov) \<and>
        downed = map ov_Shutdown ovs \<and> list_all up ovs \<and> list_all released downed
    | Inr ovs \<Rightarrow> length ovs = max 1 (length (oc_Listeners c)) \<and> (\<forall>i < length ovs. starts E rg now path c us i (ovs ! i)) \<and>
        list_all up ovs \<and> list_all (\<lambda>ov. us_users (ov_users ov) = entitled (oc_InboundTag c) us) ovs \<and> downed = []"
proof -
  have all: "list_all up ovs \<and> list_all (\<lambda>ov. us_users (ov_users ov) = entitled (oc_InboundTag c) us) ovs \<and>
      list_all released (map ov_Shutdown ovs)" if "\<forall>i < length ovs. starts E rg now path c us i (ovs ! i)" for ovs
  proof -
    have "up ov \<and> us_users (ov_users ov) = entitled (oc_InboundTag c) us" if "ov \<in> set ovs" for ov
      using starts_up that \<open>\<forall>i < length ovs. starts E rg now path c us i (ovs ! i)\<close> by (metis in_set_conv_nth)
    then show ?thesis by (simp add: list_all_iff Shutdown_released)
  qed
  show ?thesis
  proof (cases "length (oc_Listeners c) \<le> 1")
    case True
    obtain e ov where n: "ov_New E rg now path c us = (e, ov)" by fastforce
    show ?thesis
    proof (cases e)
      case None
      then have "r = Inr [ov]" "downed = []" using assms True n by (auto simp: NewBackend_def)
      moreover have "\<forall>i < length [ov]. starts E rg now path c us i ([ov] ! i)" using True n None by (simp add: starts_def)
      ultimately show ?thesis using True all [of "[ov]"] by (simp add: max_def)
    next
      case (Some err)
      then have "r = Inl err" "downed = []" using assms True n by (auto simp: NewBackend_def)
      moreover have "\<nexists>ov. starts E rg now path c us 0 ov" using True n Some by (simp add: starts_def)
      ultimately show ?thesis by (auto intro!: exI [of _ "[]"])
    qed
  next
    case False
    then have "start_listeners E rg now path c us 0 (oc_Listeners c) [] = (r, downed)" using assms by (simp add: NewBackend_def)
    from start_listeners_spec [OF this] False have "case r of
      Inl err \<Rightarrow> \<exists>ovs. length ovs < length (oc_Listeners c) \<and> (\<forall>j < length ovs. starts E rg now path c us j (ovs ! j)) \<and>
        (\<nexists>ov. starts E rg now path c us (length ovs) ov) \<and> downed = map ov_Shutdown ovs
      | Inr ovs \<Rightarrow> length ovs = length (oc_Listeners c) \<and> (\<forall>j < length ovs. starts E rg now path c us j (ovs ! j)) \<and> downed = []" by simp
    moreover have "max 1 (length (oc_Listeners c)) = length (oc_Listeners c)" using False by simp
    ultimately show ?thesis using all by (cases r) (auto simp only: sum.case)
  qed
qed


text \<open>Two listeners of which the second has no directory to work in.\<close>

definition half_env :: ov_env where
  "half_env = \<lparr>oe_mkdir = (\<lambda>d. if d = ''/g/openvpn/ov/tcp443'' then Some ''read-only'' else None), oe_write = (\<lambda>_. None),
     oe_exec = (\<lambda>_. None), oe_dial = (\<lambda>_. None), oe_version = ''2.6.0'', oe_routed = (\<lambda>_. True)\<rparr>"

definition two_listeners :: ov_config where
  "two_listeners = demo_ov_config\<lparr>oc_Listeners := [\<lparr>li_Port = 1194, li_Proto = ''udp''\<rparr>, \<lparr>li_Port = 443, li_Proto = ''tcp''\<rparr>]\<rparr>"
lemma half_paths:
  "path_join [''/g'', ''openvpn'', ''ov'', ''udp1194''] = ''/g/openvpn/ov/udp1194''"
  "path_join [''/g'', ''openvpn'', ''ov'', ''tcp443''] = ''/g/openvpn/ov/tcp443''"
  "show_int 1194 = ''1194''" "show_int 443 = ''443''"
  "parseCIDR ''10.8.0.0/17'' = Inr (''10.8.0.0'', ''255.255.128.0'')"
  by code_simp+

lemma half_write: "\<exists>w. write_all half_env dir fs acc = (None, w)"
  by (induction fs arbitrary: acc) (auto simp: half_env_def)

lemma half_New:
  assumes "oc_workDir c = ''/g/openvpn/ov/udp1194''" "oc_ServerSubnet c = ''10.8.0.0/17''"
  shows "\<exists>ov. ov_New half_env rg now path c us = (None, ov)"
proof -
  have env: "oe_mkdir half_env ''/g/openvpn/ov/udp1194'' = None" "oe_write half_env f = None" "oe_exec half_env f = None"
    "oe_dial half_env = (\<lambda>_. None)" for f by (simp_all add: half_env_def)
  have dial: "connect_loop (\<lambda>_. None) [0..<50] [] = None" by (subst upt_conv_Cons) simp_all
  obtain conf where conf: "renderServerConf c = Inr conf" by (simp add: renderServerConf_def assms(2) half_paths(5))
  obtain w where w: "write_all half_env ''/g/openvpn/ov/udp1194'' (map (\<lambda>name. (name, getd [] (config_files c) name)) (keys_of rg 0 (config_files c))) [] = (None, w)"
    using half_write by blast
  obtain p where p: "fst (writeFiles half_env rg c) = Inr p"
    by (simp add: writeFiles_def assms(1) env w conf Let_def)
  show ?thesis
    by (simp add: ov_New_def assms(1) p env Let_def startProcess_def connect_mgmt_def mgmt_connect_def dial)
qed

lemma two_listeners_simps: "length (oc_Listeners two_listeners) = 2" "oc_ServerSubnet two_listeners = ''10.8.0.0/16''"
    "oc_Listeners two_listeners ! 0 = \<lparr>li_Port = 1194, li_Proto = ''udp''\<rparr>" "oc_InboundTag two_listeners = ''ov''"
    "oc_Listeners two_listeners ! 1 = \<lparr>li_Port = 443, li_Proto = ''tcp''\<rparr>"
  by (simp_all add: two_listeners_def demo_ov_config_def)

lemma half_derive:
  "\<exists>d. derive two_listeners ''/g'' (oc_Listeners two_listeners ! 0) 0 2 = Inr d \<and>
     oc_workDir d = ''/g/openvpn/ov/udp1194'' \<and> oc_ServerSubnet d = ''10.8.0.0/17''"
  "\<exists>d. derive two_listeners ''/g'' (oc_Listeners two_listeners ! 1) 1 2 = Inr d \<and> oc_workDir d = ''/g/openvpn/ov/tcp443''"
  unfolding derive_def two_listeners_simps demo_split
  by (simp_all add: two_listeners_simps half_paths)

lemma half_starts: "\<exists>ov. starts half_env sorted_ranger 0 ''/g'' two_listeners [] 0 ov"
    "\<nexists>ov. starts half_env sorted_ranger 0 ''/g'' two_listeners [] 1 ov"
proof -
  obtain d where "derive two_listeners ''/g'' (oc_Listeners two_listeners ! 0) 0 2 = Inr d"
    "oc_workDir d = ''/g/openvpn/ov/udp1194''" "oc_ServerSubnet d = ''10.8.0.0/17''" using half_derive(1) by blast
  with half_New [of d] show "\<exists>ov. starts half_env sorted_ranger 0 ''/g'' two_listeners [] 0 ov"
    unfolding starts_def two_listeners_simps(1) by auto
  obtain d' where d': "derive two_listeners ''/g'' (oc_Listeners two_listeners ! 1) 1 2 = Inr d'"
    "oc_workDir d' = ''/g/openvpn/ov/tcp443''" using half_derive(2) by blast
  have "oe_mkdir half_env ''/g/openvpn/ov/tcp443'' = Some ''read-only''" by (simp add: half_env_def)
  then have "fst (ov_New half_env sorted_ranger 0 ''/g'' d' []) \<noteq> None" by (simp add: ov_New_def d'(2) writeFiles_def Let_def)
  with d'(1) show "\<nexists>ov. starts half_env sorted_ranger 0 ''/g'' two_listeners [] 1 ov"
    unfolding starts_def two_listeners_simps(1) by auto
qed

theorem listeners_all_or_none_witness:
  "\<exists>err ov. NewBackend half_env sorted_ranger 0 ''/g'' two_listeners [] = (Inl err, [ov_Shutdown ov]) \<and> up ov \<and> released (ov_Shutdown ov)"
proof -
  obtain r downed where n: "NewBackend half_env sorted_ranger 0 ''/g'' two_listeners [] = (r, downed)" by fastforce
  note all = listeners_all_or_none [OF n]
  show ?thesis
  proof (cases r)
    case (Inr ovs)
    with all have "starts half_env sorted_ranger 0 ''/g'' two_listeners [] 1 (ovs ! 1)" by (simp add: two_listeners_simps(1))
    with half_starts(2) show ?thesis by blast
  next
    case (Inl err)
    from all [unfolded Inl sum.case two_listeners_simps(1)] obtain ovs where ovs: "length ovs < max 1 2"
      "\<nexists>ov. starts half_env sorted_ranger 0 ''/g'' two_listeners [] (length ovs) ov"
      "downed = map ov_Shutdown ovs" "list_all up ovs" "list_all released downed" by blast
    have "length ovs \<noteq> 0" using ovs(2) half_starts(1) by metis
    with ovs(1) have "length ovs = Suc 0" by linarith
    then obtain ov where "ovs = [ov]" by (auto simp: length_Suc_conv)
    with ovs n Inl show ?thesis by auto
  qed
qed

end
