(* ===== verification/Xray_Config.thy ===== *)
theory Xray_Config
  imports Node_Messages Go_Crypto Net_Ip
begin

text \<open>
  The configuration of the Xray backend (\<^verbatim>\<open>backend/xray/config.go\<close>, \<^verbatim>\<open>config_clone.go\<close>,
  \<^verbatim>\<open>user.go\<close>, \<^verbatim>\<open>api/account.go\<close>): inbounds with the accounts of their users, the
  changes a user list makes to them, and the API access, routing rules and policies the node adds.

  A decoded JSON value is a \<open>json\<close>, a number its JSON text. A routing rule is kept undecoded by the
  code; its type is a parameter, with the functions that decode and encode it. A pointer to an inbound
  is its position in the list of inbounds. The fields of xray-core's own configuration types the node
  does not touch are one opaque value. \<^verbatim>\<open>uuid.Parse\<close> is an argument that gives the canonical text.
\<close>

datatype json = JNull | JBool bool | JNum string | JStr string | JArr "json list" | JObj "string \<rightharpoonup> json"

fun as_string :: "json option \<Rightarrow> string option" where
  "as_string (Some (JStr s)) = Some s"
| "as_string _ = None"

fun as_list :: "json option \<Rightarrow> json list option" where
  "as_list (Some (JArr xs)) = Some xs"
| "as_list _ = None"

type_synonym jmap = "string \<rightharpoonup> json"

text \<open>Reading a Go map that may be nil.\<close>

definition at_key :: "jmap option \<Rightarrow> string \<Rightarrow> json option" where
  "at_key m k = Option.bind m (\<lambda>f. f k)"


section \<open>Accounts\<close>

text \<open>Every account has an e-mail and a level; the rest is the secret of its protocol.\<close>

datatype account =
    VmessAccount string "32 word" string
  | VlessAccount string "32 word" string string
  | TrojanAccount string "32 word" string
  | ShadowsocksAccount string "32 word" string
  | ShadowsocksTcpAccount string "32 word" string string
  | HysteriaAccount string "32 word" string

fun acc_GetEmail :: "account \<Rightarrow> string" where
  "acc_GetEmail (VmessAccount e l i) = e"
| "acc_GetEmail (VlessAccount e l i f) = e"
| "acc_GetEmail (TrojanAccount e l p) = e"
| "acc_GetEmail (ShadowsocksAccount e l p) = e"
| "acc_GetEmail (ShadowsocksTcpAccount e l p m) = e"
| "acc_GetEmail (HysteriaAccount e l a) = e"

fun acc_GetLevel :: "account \<Rightarrow> 32 word" where
  "acc_GetLevel (VmessAccount e l i) = l"
| "acc_GetLevel (VlessAccount e l i f) = l"
| "acc_GetLevel (TrojanAccount e l p) = l"
| "acc_GetLevel (ShadowsocksAccount e l p) = l"
| "acc_GetLevel (ShadowsocksTcpAccount e l p m) = l"
| "acc_GetLevel (HysteriaAccount e l a) = l"

definition CipherType_name :: "int \<Rightarrow> string" where
  "CipherType_name n =
     (if n = 5 then ''aes-128-gcm'' else if n = 6 then ''aes-256-gcm'' else if n = 7 then ''chacha20-poly1305''
      else if n = 8 then ''xchacha20-poly1305'' else if n = 9 then ''none'' else [])"

definition CipherType_value :: "string \<rightharpoonup> int" where
  "CipherType_value = map_of
     [(''aes-128-gcm'', 5), (''aes-256-gcm'', 6), (''chacha20-poly1305'', 7), (''chacha20-ietf-poly1305'', 7),
      (''xchacha20-poly1305'', 8), (''xchacha20-ietf-poly1305'', 8), (''none'', 9)]"

definition NewVmessAccount :: "(string \<Rightarrow> string option) \<Rightarrow> user \<Rightarrow> account option" where
  "NewVmessAccount uuid u = map_option (VmessAccount (GetEmail u) 0) (uuid (field vm_Id (GetVmess (GetProxies u))))"

definition NewVlessAccount :: "(string \<Rightarrow> string option) \<Rightarrow> user \<Rightarrow> account option" where
  "NewVlessAccount uuid u =
     map_option (\<lambda>i. VlessAccount (GetEmail u) 0 i (field vl_Flow (GetVless (GetProxies u))))
       (uuid (field vl_Id (GetVless (GetProxies u))))"

definition NewTrojanAccount :: "user \<Rightarrow> account" where
  "NewTrojanAccount u = TrojanAccount (GetEmail u) 0 (field tr_Password (GetTrojan (GetProxies u)))"

definition NewShadowsocksAccount :: "user \<Rightarrow> account" where
  "NewShadowsocksAccount u = ShadowsocksAccount (GetEmail u) 0 (field ss_Password (GetShadowsocks (GetProxies u)))"

definition NewShadowsocksTcpAccount :: "user \<Rightarrow> account" where
  "NewShadowsocksTcpAccount u =
     (let method = field ss_Method (GetShadowsocks (GetProxies u));
          method = (if CipherType_value method = None then CipherType_name 9 else method)
      in ShadowsocksTcpAccount (GetEmail u) 0 (field ss_Password (GetShadowsocks (GetProxies u))) method)"

definition NewHysteriaAccount :: "user \<Rightarrow> account" where
  "NewHysteriaAccount u = HysteriaAccount (GetEmail u) 0 (field hy_Auth (GetHysteria (GetProxies u)))"

record proxy_settings =
  pse_Vmess :: "account option"
  pse_Vless :: "account option"
  pse_Trojan :: "account option"
  pse_Shadowsocks :: "account option"
  pse_Shadowsocks2022 :: "account option"
  pse_Hysteria :: "account option"

definition setupUserAccount :: "(string \<Rightarrow> string option) \<Rightarrow> user \<Rightarrow> proxy_settings" where
  "setupUserAccount uuid u =
     (let p = GetProxies u in
      \<lparr>pse_Vmess = (if GetVmess p \<noteq> None then NewVmessAccount uuid u else None),
       pse_Vless = (if GetVless p \<noteq> None then NewVlessAccount uuid u else None),
       pse_Trojan = (if GetTrojan p \<noteq> None then Some (NewTrojanAccount u) else None),
       pse_Shadowsocks = (if GetShadowsocks p \<noteq> None then Some (NewShadowsocksTcpAccount u) else None),
       pse_Shadowsocks2022 = (if GetShadowsocks p \<noteq> None then Some (NewShadowsocksAccount u) else None),
       pse_Hysteria = (if GetHysteria p \<noteq> None then Some (NewHysteriaAccount u) else None)\<rparr>)"

text \<open>The code calls this on Shadowsocks 2022 accounts only.\<close>

fun checkShadowsocks2022 :: "string \<Rightarrow> account \<Rightarrow> account" where
  "checkShadowsocks2022 method (ShadowsocksAccount e l p) = ShadowsocksAccount e l (EnsureBase64Password p method)"
| "checkShadowsocks2022 method a = a"

text \<open>The JSON an account is written as, by the tags of its fields.\<close>

definition base_json :: "string \<Rightarrow> 32 word \<Rightarrow> jmap" where
  "base_json e l = [''email'' \<mapsto> JStr e, ''level'' \<mapsto> JNum (show_nat (unat l))]"

fun account_json :: "account \<Rightarrow> json" where
  "account_json (VmessAccount e l i) = JObj ((base_json e l)(''id'' \<mapsto> JStr i))"
| "account_json (VlessAccount e l i f) = JObj ((base_json e l)(''id'' \<mapsto> JStr i, ''flow'' \<mapsto> JStr f))"
| "account_json (TrojanAccount e l p) = JObj ((base_json e l)(''password'' \<mapsto> JStr p))"
| "account_json (ShadowsocksAccount e l p) = JObj ((base_json e l)(''password'' \<mapsto> JStr p))"
| "account_json (ShadowsocksTcpAccount e l p m) = JObj ((base_json e l)(''password'' \<mapsto> JStr p, ''method'' \<mapsto> JStr m))"
| "account_json (HysteriaAccount e l a) = JObj ((base_json e l)(''auth'' \<mapsto> JStr a))"


section \<open>Inbounds\<close>

record inbound =
  in_Tag :: string
  in_Listen :: string
  in_Port :: json
  in_Protocol :: string
  in_Settings :: "jmap option"
  in_rest :: json
  in_exclude :: bool
  in_clients :: "(string \<rightharpoonup> account) option"

definition in_method :: "inbound \<Rightarrow> string option" where
  "in_method i = as_string (at_key (in_Settings i) ''method'')"

definition is_2022 :: "inbound \<Rightarrow> bool" where
  "is_2022 i = (case in_method i of None \<Rightarrow> False | Some m \<Rightarrow> HasPrefix m ''2022-blake3'')"

definition the_clients :: "inbound \<Rightarrow> string \<rightharpoonup> account" where
  "the_clients i = (case in_clients i of None \<Rightarrow> Map.empty | Some c \<Rightarrow> c)"

definition inboundFlow :: "inbound \<Rightarrow> string" where
  "inboundFlow i = (case as_string (at_key (in_Settings i) ''flow'') of None \<Rightarrow> [] | Some f \<Rightarrow> f)"

fun accountForAPI :: "inbound \<Rightarrow> account \<Rightarrow> account" where
  "accountForAPI i (VlessAccount e l d f) =
     (let overrideFlow = inboundFlow i in
      if overrideFlow = [] then VlessAccount e l d f else VlessAccount e l d overrideFlow)"
| "accountForAPI i a = a"

definition isActiveInbound :: "inbound \<Rightarrow> string list \<Rightarrow> proxy_settings \<Rightarrow> account option" where
  "isActiveInbound i inbounds settings =
     (if in_Tag i \<in> set inbounds then
        (if in_Protocol i = ''vless'' then pse_Vless settings
         else if in_Protocol i = ''vmess'' then pse_Vmess settings
         else if in_Protocol i = ''trojan'' then pse_Trojan settings
         else if in_Protocol i = ''shadowsocks'' then
           (if is_2022 i then map_option (checkShadowsocks2022 (the (in_method i))) (pse_Shadowsocks2022 settings)
            else pse_Shadowsocks settings)
         else if in_Protocol i = ''hysteria'' then pse_Hysteria settings
         else None)
      else None)"

text \<open>The body of the loops of \<^verbatim>\<open>Inbound.syncUsers\<close>, one per protocol.\<close>

definition sync_client :: "(string \<Rightarrow> string option) \<Rightarrow> inbound \<Rightarrow> (string \<rightharpoonup> account) \<Rightarrow> user \<Rightarrow> (string \<rightharpoonup> account)" where
  "sync_client uuid i clients u =
     (let p = GetProxies u; mine = (in_Tag i \<in> set (GetInbounds u)) in
      if in_Protocol i = ''vmess'' then
        (if GetVmess p = None then clients
         else if mine then (case NewVmessAccount uuid u of None \<Rightarrow> clients | Some a \<Rightarrow> clients(GetEmail u \<mapsto> a))
         else clients)
      else if in_Protocol i = ''vless'' then
        (if GetVless p = None then clients
         else if mine then (case NewVlessAccount uuid u of None \<Rightarrow> clients | Some a \<Rightarrow> clients(GetEmail u \<mapsto> a))
         else clients)
      else if in_Protocol i = ''trojan'' then
        (if GetTrojan p = None then clients
         else if mine then clients(GetEmail u \<mapsto> NewTrojanAccount u) else clients)
      else if in_Protocol i = ''shadowsocks'' then
        (if GetShadowsocks p = None then clients
         else if mine then
           (if is_2022 i then clients(GetEmail u \<mapsto> checkShadowsocks2022 (the (in_method i)) (NewShadowsocksAccount u))
            else clients(GetEmail u \<mapsto> NewShadowsocksTcpAccount u))
         else clients)
      else if in_Protocol i = ''hysteria'' then
        (if GetHysteria p = None then clients
         else if mine then clients(GetEmail u \<mapsto> NewHysteriaAccount u) else clients)
      else clients)"

definition in_syncUsers :: "(string \<Rightarrow> string option) \<Rightarrow> user list \<Rightarrow> inbound \<Rightarrow> inbound" where
  "in_syncUsers uuid users i = i\<lparr>in_clients := Some (foldl (sync_client uuid i) Map.empty users)\<rparr>"

definition in_updateUser :: "account \<Rightarrow> inbound \<Rightarrow> inbound" where
  "in_updateUser a i =
     (let a = (case in_method i of None \<Rightarrow> a | Some method \<Rightarrow> checkShadowsocks2022 method a)
      in i\<lparr>in_clients := Some ((the_clients i)(acc_GetEmail a \<mapsto> a))\<rparr>)"

text \<open>Whether an account has the type an inbound keeps.\<close>

fun account_fits :: "inbound \<Rightarrow> account \<Rightarrow> bool" where
  "account_fits i (VmessAccount e l d) = (in_Protocol i = ''vmess'')"
| "account_fits i (VlessAccount e l d f) = (in_Protocol i = ''vless'')"
| "account_fits i (TrojanAccount e l p) = (in_Protocol i = ''trojan'')"
| "account_fits i (ShadowsocksAccount e l p) = (in_Protocol i = ''shadowsocks'' \<and> is_2022 i)"
| "account_fits i (ShadowsocksTcpAccount e l p m) = (in_Protocol i = ''shadowsocks'' \<and> \<not> is_2022 i)"
| "account_fits i (HysteriaAccount e l a) = (in_Protocol i = ''hysteria'')"

definition put_account :: "inbound \<Rightarrow> (string \<rightharpoonup> account) \<Rightarrow> account \<Rightarrow> (string \<rightharpoonup> account)" where
  "put_account i clients a =
     (if account_fits i a
      then clients(acc_GetEmail a \<mapsto> (if is_2022 i then checkShadowsocks2022 (the (in_method i)) a else a))
      else clients)"

definition in_updateUsers :: "account list \<Rightarrow> string list \<Rightarrow> inbound \<Rightarrow> inbound" where
  "in_updateUsers accounts removeEmails i =
     i\<lparr>in_clients := Some (foldl (\<lambda>c email. c(email := None)) (foldl (put_account i) (the_clients i) accounts) removeEmails)\<rparr>"

definition in_removeUser :: "string \<Rightarrow> inbound \<Rightarrow> inbound" where
  "in_removeUser email i = (case in_clients i of None \<Rightarrow> i | Some c \<Rightarrow> i\<lparr>in_clients := Some (c(email := None))\<rparr>)"


section \<open>The configuration\<close>

record log_config =
  lg_AccessLog :: string
  lg_ErrorLog :: string
  lg_LogLevel :: string
  lg_rest :: json

record 'r router_config =
  rt_RuleList :: "'r list"
  rt_rest :: json

record policy_level =
  pl_StatsUserUplink :: bool
  pl_StatsUserDownlink :: bool
  pl_rest :: json

record system_policy =
  sy_StatsInboundUplink :: bool
  sy_StatsInboundDownlink :: bool
  sy_StatsOutboundUplink :: bool
  sy_StatsOutboundDownlink :: bool

record policy_config =
  po_Levels :: "(nat \<rightharpoonup> policy_level option) option"
  po_System :: "system_policy option"

record api_config =
  ap_Tag :: string
  ap_Services :: "string list"

record 'r xray_config =
  xc_Log :: "log_config option"
  xc_Router :: "'r router_config option"
  xc_Inbounds :: "inbound list"
  xc_Outbounds :: json
  xc_Policy :: "policy_config option"
  xc_API :: "api_config option"
  xc_Metrics :: "jmap option"
  xc_Observatory :: "jmap option"
  xc_BurstObservatory :: "jmap option"
  xc_rest :: json

type_synonym 'r rule_codec = "('r \<Rightarrow> string + jmap) \<times> (jmap \<Rightarrow> string + 'r)"

text \<open>
  \<open>None\<close> is a panic: a \<^verbatim>\<open>null\<close> in the list of inbounds is dereferenced.
\<close>

definition init_inbound :: "string list \<Rightarrow> inbound \<Rightarrow> inbound" where
  "init_inbound exclude i =
     (let i = (if in_clients i = None then i\<lparr>in_clients := Some Map.empty\<rparr> else i)
      in if in_Tag i \<in> set exclude then i\<lparr>in_exclude := True\<rparr> else i)"

definition xray_NewConfig :: "(string \<Rightarrow> string + 'r xray_config \<times> inbound option list) \<Rightarrow> string \<Rightarrow> string list \<Rightarrow>
    (string + 'r xray_config) option" where
  "xray_NewConfig unmarshal config exclude =
     (case unmarshal config of
        Inl err \<Rightarrow> Some (Inl err)
      | Inr (c, inbounds) \<Rightarrow>
         map_option (\<lambda>is. Inr (c\<lparr>xc_Inbounds := map (init_inbound exclude) is\<rparr>)) (sequence_opt inbounds))"

definition cfg_syncUsers :: "(string \<Rightarrow> string option) \<Rightarrow> user list \<Rightarrow> 'r xray_config \<Rightarrow> 'r xray_config" where
  "cfg_syncUsers uuid users c =
     c\<lparr>xc_Inbounds := map (\<lambda>i. if in_exclude i then i else in_syncUsers uuid users i) (xc_Inbounds c)\<rparr>"

record inbound_update =
  iu_accounts :: "account list"
  iu_removeEmailSet :: "string set"

definition index_inbounds :: "inbound list \<Rightarrow> (string \<rightharpoonup> nat)" where
  "index_inbounds is =
     foldl (\<lambda>m n. if in_exclude (is ! n) then m else m(in_Tag (is ! n) \<mapsto> n)) Map.empty [0..<length is]"

text \<open>The rounds for one user, over all inbounds at once: each touches the update of its own tag only.\<close>

definition add_user_update :: "(string \<Rightarrow> string option) \<Rightarrow> inbound list \<Rightarrow> (string \<rightharpoonup> nat) \<Rightarrow> (string \<rightharpoonup> inbound_update) \<Rightarrow> user \<Rightarrow>
    (string \<rightharpoonup> inbound_update)" where
  "add_user_update uuid is byTag updates u =
     (let settings = setupUserAccount uuid u in
      (\<lambda>tag. case (byTag tag, updates tag) of
         (Some n, Some upd) \<Rightarrow>
           Some (case isActiveInbound (is ! n) (GetInbounds u) settings of
                   Some account \<Rightarrow> upd\<lparr>iu_accounts := iu_accounts upd @ [account]\<rparr>
                 | None \<Rightarrow> upd\<lparr>iu_removeEmailSet := insert (GetEmail u) (iu_removeEmailSet upd)\<rparr>)
       | _ \<Rightarrow> updates tag))"

definition buildInboundUpdates :: "(string \<Rightarrow> string option) \<Rightarrow> user list \<Rightarrow> 'r xray_config \<Rightarrow>
    (string \<rightharpoonup> nat) \<times> (string \<rightharpoonup> inbound_update)" where
  "buildInboundUpdates uuid users c =
     (let is = xc_Inbounds c; byTag = index_inbounds is;
          updates = (\<lambda>tag. map_option (\<lambda>n. \<lparr>iu_accounts = [], iu_removeEmailSet = {}\<rparr>) (byTag tag))
      in (byTag, foldl (add_user_update uuid is byTag) updates users))"

definition update_tag :: "ranger \<Rightarrow> (string \<rightharpoonup> nat) \<Rightarrow> (string \<rightharpoonup> inbound_update) \<Rightarrow> inbound list \<Rightarrow> string \<Rightarrow> inbound list" where
  "update_tag rg byTag updates is tag =
     (case (byTag tag, updates tag) of
        (Some n, Some upd) \<Rightarrow> is[n := in_updateUsers (iu_accounts upd) (rg 1 (iu_removeEmailSet upd)) (is ! n)]
      | _ \<Rightarrow> is)"

definition cfg_updateUsers :: "(string \<Rightarrow> string option) \<Rightarrow> ranger \<Rightarrow> user list \<Rightarrow> 'r xray_config \<Rightarrow> 'r xray_config" where
  "cfg_updateUsers uuid rg users c =
     (case buildInboundUpdates uuid users c of
        (byTag, updates) \<Rightarrow>
          c\<lparr>xc_Inbounds := foldl (update_tag rg byTag updates) (xc_Inbounds c) (keys_of rg 0 byTag)\<rparr>)"

text \<open>
  What is written for the process: the accounts of an inbound become the list \<open>clients\<close> of its
  settings. The log files are blanked in what is written only; exclusion and accounts are not written.
\<close>

definition known_protocol :: "inbound \<Rightarrow> bool" where
  "known_protocol i \<longleftrightarrow> in_Protocol i \<in> {''vmess'', ''vless'', ''trojan'', ''shadowsocks'', ''hysteria''}"

definition client_list :: "string list \<Rightarrow> inbound \<Rightarrow> account list" where
  "client_list order i = filter (account_fits i) (present (map (the_clients i) order))"

definition write_clients :: "ranger \<Rightarrow> nat \<Rightarrow> inbound \<Rightarrow> inbound" where
  "write_clients rg n i =
     (if in_exclude i then i
      else
        (let settings = (case in_Settings i of None \<Rightarrow> Map.empty | Some s \<Rightarrow> s) in
         if the_clients i = Map.empty then i\<lparr>in_Settings := Some (settings(''clients'' \<mapsto> JArr []))\<rparr>
         else if known_protocol i
         then i\<lparr>in_Settings := Some (settings(''clients'' \<mapsto> JArr (map account_json (client_list (keys_of rg n (the_clients i)) i))))\<rparr>
         else i\<lparr>in_Settings := Some settings\<rparr>))"

definition doc_of :: "'r xray_config \<Rightarrow> 'r xray_config" where
  "doc_of c = c\<lparr>xc_Inbounds := map (\<lambda>i. i\<lparr>in_exclude := False, in_clients := None\<rparr>) (xc_Inbounds c)\<rparr>"

definition ToBytes :: "ranger \<Rightarrow> 'r xray_config \<Rightarrow> 'r xray_config \<times> 'r xray_config" where
  "ToBytes rg c =
     (let is = xc_Inbounds c; c = c\<lparr>xc_Inbounds := map (\<lambda>n. write_clients rg n (is ! n)) [0..<length is]\<rparr>
      in (doc_of (c\<lparr>xc_Log := map_option (\<lambda>l. l\<lparr>lg_AccessLog := [], lg_ErrorLog := []\<rparr>) (xc_Log c)\<rparr>), c))"

definition GetLogFiles :: "'r xray_config \<Rightarrow> (string \<times> string) \<times> 'r xray_config" where
  "GetLogFiles c =
     (let l = (case xc_Log c of None \<Rightarrow> \<lparr>lg_AccessLog = [], lg_ErrorLog = [], lg_LogLevel = ''info'', lg_rest = JNull\<rparr> | Some l \<Rightarrow> l)
      in ((lg_AccessLog l, lg_ErrorLog l), c\<lparr>xc_Log := Some l\<rparr>))"

text \<open>
  A clone goes through JSON (\<open>reparse\<close>), which loses exclusion and accounts; they are taken from the
  last inbound of the original with the same tag.
\<close>

fun cloneAccount :: "account \<Rightarrow> account" where
  "cloneAccount a = a"

definition cloneClients :: "(string \<rightharpoonup> account) option \<Rightarrow> (string \<rightharpoonup> account)" where
  "cloneClients clients = (case clients of None \<Rightarrow> Map.empty | Some c \<Rightarrow> map_option cloneAccount \<circ> c)"

definition original_by_tag :: "inbound list \<Rightarrow> (string \<rightharpoonup> inbound)" where
  "original_by_tag is = map_of (rev (map (\<lambda>i. (in_Tag i, i)) is))"

definition restore_inbound :: "(string \<rightharpoonup> inbound) \<Rightarrow> inbound \<Rightarrow> inbound" where
  "restore_inbound originals i =
     (case originals (in_Tag i) of
        None \<Rightarrow> i\<lparr>in_clients := Some Map.empty\<rparr>
      | Some orig \<Rightarrow> i\<lparr>in_exclude := in_exclude orig, in_clients := Some (cloneClients (in_clients orig))\<rparr>)"

definition Clone :: "('r xray_config \<Rightarrow> string + 'r xray_config) \<Rightarrow> 'r xray_config \<Rightarrow> string + 'r xray_config" where
  "Clone reparse c =
     (case reparse (doc_of c) of
        Inl err \<Rightarrow> Inl err
      | Inr cloned \<Rightarrow> Inr (cloned\<lparr>xc_Inbounds := map (restore_inbound (original_by_tag (xc_Inbounds c))) (xc_Inbounds cloned)\<rparr>))"


section \<open>Rules, observatory and policy\<close>

definition privateCIDRs :: "string list" where
  "privateCIDRs = [''0.0.0.0/8'', ''10.0.0.0/8'', ''100.64.0.0/10'', ''127.0.0.0/8'', ''169.254.0.0/16'', ''172.16.0.0/12'',
     ''192.0.0.0/24'', ''192.168.0.0/16'', ''198.18.0.0/15'', ''224.0.0.0/4'', ''240.0.0.0/4'', ''::/128'', ''::1/128'',
     ''fc00::/7'', ''fe80::/10'']"

definition is_geoip_private :: "json \<Rightarrow> bool" where
  "is_geoip_private entry1 = (case as_string (Some entry1) of None \<Rightarrow> False | Some s \<Rightarrow> EqualFold s ''geoip:private'')"

definition replaceGeoIPPrivate :: "json \<Rightarrow> json \<times> bool" where
  "replaceGeoIPPrivate values =
     (case as_list (Some values) of
        None \<Rightarrow> (values, False)
      | Some xs \<Rightarrow>
         (if list_ex is_geoip_private xs
          then (JArr (concat (map (\<lambda>e. if is_geoip_private e then map JStr privateCIDRs else [e]) xs)), True)
          else (values, False)))"

definition replace_at :: "string \<Rightarrow> jmap \<times> bool \<Rightarrow> jmap \<times> bool" where
  "replace_at k st =
     (case st of (obj, ruleChanged) \<Rightarrow>
        (case obj k of
           None \<Rightarrow> (obj, ruleChanged)
         | Some v \<Rightarrow> (case replaceGeoIPPrivate v of (w, changed) \<Rightarrow> if changed then (obj(k \<mapsto> w), True) else (obj, ruleChanged))))"

fun normalizeGeoIPPrivateRules :: "'r rule_codec \<Rightarrow> 'r list \<Rightarrow> string + 'r list" where
  "normalizeGeoIPPrivateRules J [] = Inr []"
| "normalizeGeoIPPrivateRules J (raw # rules) =
     (case fst J raw of
        Inl err \<Rightarrow> Inl (''invalid JSON in rule: '' @ err)
      | Inr obj \<Rightarrow>
         (case replace_at ''source'' (replace_at ''ip'' (obj, False)) of
            (obj, ruleChanged) \<Rightarrow>
              (case (if ruleChanged then snd J obj else Inr raw) of
                 Inl err \<Rightarrow> Inl (''failed to marshal normalized rule: '' @ err)
               | Inr raw \<Rightarrow> map_sum id ((#) raw) (normalizeGeoIPPrivateRules J rules))))"

definition malformedDomainGuardRuleTag :: string where
  "malformedDomainGuardRuleTag = ''PG_NODE_MALFORMED_DOMAIN_GUARD''"

definition own_rule :: "string \<Rightarrow> jmap \<Rightarrow> bool" where
  "own_rule apiTag obj \<longleftrightarrow>
     as_string (obj ''outboundTag'') = Some apiTag \<or> as_string (obj ''ruleTag'') = Some malformedDomainGuardRuleTag"

fun filterRules :: "'r rule_codec \<Rightarrow> string \<Rightarrow> 'r list \<Rightarrow> string + 'r list" where
  "filterRules J apiTag [] = Inr []"
| "filterRules J apiTag (raw # rules) =
     (case fst J raw of
        Inl err \<Rightarrow> Inl (''invalid JSON in rule: '' @ err)
      | Inr obj \<Rightarrow> map_sum id (\<lambda>rs. if own_rule apiTag obj then rs else raw # rs) (filterRules J apiTag rules))"

text \<open>The interfaces of the host, as \<^verbatim>\<open>net.Interfaces\<close> reports them.\<close>

datatype iface_addr = AddrIPNet "ip option" | AddrIPAddr "ip option" | AddrOther

record host_iface =
  hi_Up :: bool
  hi_Addrs :: "iface_addr list option"

fun addr_ip :: "iface_addr \<Rightarrow> ip option" where
  "addr_ip (AddrIPNet a) = a"
| "addr_ip (AddrIPAddr a) = a"
| "addr_ip AddrOther = None"

definition IsUnspecified :: "ip \<Rightarrow> bool" where
  "IsUnspecified a \<longleftrightarrow> (a = replicate 4 0 \<or> a = replicate 16 0 \<or> a = replicate 10 0 @ [255, 255] @ replicate 4 0)"

definition iface_sources :: "host_iface \<Rightarrow> string list" where
  "iface_sources i =
     (if hi_Up i
      then (case hi_Addrs i of
              None \<Rightarrow> []
            | Some as \<Rightarrow> map IP_String (filter (\<lambda>a. \<not> IsUnspecified a) (present (map addr_ip as))))
      else [])"

definition apiRuleSources :: "string + host_iface list \<Rightarrow> string list" where
  "apiRuleSources ifaces =
     (case ifaces of
        Inl err \<Rightarrow> [''127.0.0.1'', ''::1'']
      | Inr ifs \<Rightarrow> sort (remdups ([''127.0.0.1'', ''::1''] @ concat (map iface_sources ifs))))"

definition loopbackListenAddress :: "int \<Rightarrow> string" where
  "loopbackListenAddress port = ''127.0.0.1:'' @ show_nat (unat (word_of_int port :: 16 word))"

definition put_outbound :: "(string \<rightharpoonup> string) \<Rightarrow> json \<Rightarrow> (string \<rightharpoonup> string)" where
  "put_outbound out outbound =
     (case outbound of
        JObj obj \<Rightarrow>
          (let tag = TrimSpace (case as_string (obj ''tag'') of None \<Rightarrow> [] | Some s \<Rightarrow> s);
               protocol = TrimSpace (case as_string (obj ''protocol'') of None \<Rightarrow> [] | Some s \<Rightarrow> s)
           in if tag = [] \<or> protocol = [] then out else out(tag \<mapsto> protocol))
      | _ \<Rightarrow> out)"

definition outboundProtocolByTag :: "'r xray_config \<Rightarrow> (string \<rightharpoonup> string)" where
  "outboundProtocolByTag c =
     (case as_list (Some (xc_Outbounds c)) of None \<Rightarrow> Map.empty | Some raws \<Rightarrow> foldl put_outbound Map.empty raws)"

definition blackholeOutboundTag :: "'r xray_config \<Rightarrow> string" where
  "blackholeOutboundTag c =
     (let m = outboundProtocolByTag c in
      case filter (\<lambda>tag. EqualFold (getd [] m tag) ''blackhole'') (sorted_list_of_set (dom m)) of [] \<Rightarrow> [] | tag # _ \<Rightarrow> tag)"

definition malformedDomainGuardRule :: "string \<Rightarrow> jmap" where
  "malformedDomainGuardRule outboundTag =
     [''domain'' \<mapsto> JArr [JStr ''regexp:^.{254,}$'', JStr (''regexp:(^|'' @ [byte 92] @ ''.)[^.]{64,}('' @ [byte 92] @ ''.|$)'')],
      ''outboundTag'' \<mapsto> JStr outboundTag, ''ruleTag'' \<mapsto> JStr malformedDomainGuardRuleTag, ''type'' \<mapsto> JStr ''field'']"

definition observatoryExcludedProtocols :: "string set" where
  "observatoryExcludedProtocols = {''blackhole'', ''dns'', ''loopback''}"

definition keep_selector :: "(string \<rightharpoonup> string) \<Rightarrow> json \<Rightarrow> bool" where
  "keep_selector byTag v =
     (case as_string (Some v) of
        None \<Rightarrow> False
      | Some tag \<Rightarrow> (case byTag (TrimSpace tag) of None \<Rightarrow> True | Some protocol \<Rightarrow> protocol \<notin> observatoryExcludedProtocols))"

definition sanitize_section :: "(string \<rightharpoonup> string) \<Rightarrow> jmap option \<Rightarrow> jmap option" where
  "sanitize_section byTag section1 =
     (case section1 of
        None \<Rightarrow> None
      | Some m \<Rightarrow> (case as_list (m ''subjectSelector'') of
                     None \<Rightarrow> Some m
                   | Some values \<Rightarrow> Some (m(''subjectSelector'' \<mapsto> JArr (filter (keep_selector byTag) values)))))"

definition sanitizeObservatorySelectors :: "'r xray_config \<Rightarrow> 'r xray_config" where
  "sanitizeObservatorySelectors c =
     (let byTag = outboundProtocolByTag c in
      if byTag = Map.empty then c
      else c\<lparr>xc_Observatory := sanitize_section byTag (xc_Observatory c),
             xc_BurstObservatory := sanitize_section byTag (xc_BurstObservatory c)\<rparr>)"

definition stats_level :: policy_level where
  "stats_level = \<lparr>pl_StatsUserUplink = True, pl_StatsUserDownlink = True, pl_rest = JNull\<rparr>"

text \<open>\<open>None\<close> is a panic: level 0 is \<^verbatim>\<open>null\<close> in the configuration.\<close>

definition check_levels :: "(nat \<rightharpoonup> policy_level option) option \<Rightarrow> (nat \<rightharpoonup> policy_level option) option" where
  "check_levels levels =
     (let m = (case levels of None \<Rightarrow> Map.empty | Some m \<Rightarrow> m) in
      case m 0 of
        None \<Rightarrow> Some (m(0 \<mapsto> Some stats_level))
      | Some None \<Rightarrow> None
      | Some (Some zero) \<Rightarrow> Some (m(0 \<mapsto> Some (zero\<lparr>pl_StatsUserDownlink := True, pl_StatsUserUplink := True\<rparr>))))"

definition checkPolicy :: "'r xray_config \<Rightarrow> 'r xray_config option" where
  "checkPolicy c =
     (let p = (case xc_Policy c of None \<Rightarrow> \<lparr>po_Levels = None, po_System = None\<rparr> | Some p \<Rightarrow> p);
          sys = (case po_System p of
                   None \<Rightarrow> \<lparr>sy_StatsInboundUplink = False, sy_StatsInboundDownlink = False,
                            sy_StatsOutboundUplink = True, sy_StatsOutboundDownlink = True\<rparr>
                 | Some s \<Rightarrow> s\<lparr>sy_StatsOutboundDownlink := True, sy_StatsOutboundUplink := True\<rparr>)
      in map_option (\<lambda>m. c\<lparr>xc_Policy := Some \<lparr>po_Levels = Some m, po_System = Some sys\<rparr>\<rparr>) (check_levels (po_Levels p)))"


section \<open>API access\<close>

text \<open>
  The loop that drops the API inbound shortens the slice it ranges over: it visits the \<open>n\<close> cells of the
  array as they are, while a removal moves the cells after \<open>i\<close> within the \<open>len\<close> cells that are left.
  Removing beyond them panics (\<open>None\<close>).
\<close>

function remove_api :: "nat \<Rightarrow> nat \<Rightarrow> inbound list \<Rightarrow> nat \<Rightarrow> inbound list option" where
  "remove_api n i arr len =
     (if n \<le> i then Some (take len arr)
      else if in_Tag (arr ! i) = ''API_INBOUND'' then
        (if len < Suc i then None
         else remove_api n (Suc i) (take i arr @ drop (Suc i) (take len arr) @ drop (len - 1) arr) (len - 1))
      else remove_api n (Suc i) arr len)"
  by pat_completeness auto
termination by (relation "measure (\<lambda>(n, i, arr, len). n - i)") auto

declare remove_api.simps [simp del]

definition api_inbound :: "int \<Rightarrow> inbound" where
  "api_inbound apiPort =
     \<lparr>in_Tag = ''API_INBOUND'', in_Listen = ''127.0.0.1'', in_Port = JNum (show_int apiPort), in_Protocol = ''dokodemo-door'',
      in_Settings = Some [''address'' \<mapsto> JStr ''127.0.0.1''], in_rest = JNull, in_exclude = False, in_clients = Some Map.empty\<rparr>"

definition api_rule :: "string list \<Rightarrow> jmap" where
  "api_rule sources = [''inboundTag'' \<mapsto> JArr [JStr ''API_INBOUND''], ''source'' \<mapsto> JArr (map JStr sources),
     ''outboundTag'' \<mapsto> JStr ''API'', ''type'' \<mapsto> JStr ''field'']"

definition prepend_rules :: "'r rule_codec \<Rightarrow> string + host_iface list \<Rightarrow> 'r xray_config \<Rightarrow> string + 'r list" where
  "prepend_rules J ifaces c =
     (case snd J (api_rule (apiRuleSources ifaces)) of
        Inl err \<Rightarrow> Inl err
      | Inr newRaw \<Rightarrow>
         (let blockTag = blackholeOutboundTag c in
          if blockTag = [] then Inr [newRaw]
          else (case snd J (malformedDomainGuardRule blockTag) of
                  Inl err \<Rightarrow> Inl err
                | Inr guardRaw \<Rightarrow> Inr [newRaw, guardRaw])))"

definition ApplyAPI :: "'r rule_codec \<Rightarrow> string + host_iface list \<Rightarrow> int \<Rightarrow> int \<Rightarrow> 'r xray_config \<Rightarrow>
    (string + 'r xray_config) option" where
  "ApplyAPI J ifaces apiPort metricPort c =
     (case remove_api (length (xc_Inbounds c)) 0 (xc_Inbounds c) (length (xc_Inbounds c)) of
        None \<Rightarrow> None
      | Some is \<Rightarrow>
         (let c = c\<lparr>xc_Inbounds := is, xc_API := Some \<lparr>ap_Tag = ''API'', ap_Services = [''HandlerService'', ''LoggerService'', ''StatsService'']\<rparr>,
                    xc_Metrics := Some [''tag'' \<mapsto> JStr ''metric'', ''listen'' \<mapsto> JStr (loopbackListenAddress metricPort)]\<rparr>;
              c = sanitizeObservatorySelectors c;
              router = (case xc_Router c of None \<Rightarrow> \<lparr>rt_RuleList = [], rt_rest = JNull\<rparr> | Some r \<Rightarrow> r)
          in case normalizeGeoIPPrivateRules J (rt_RuleList router) of
               Inl err \<Rightarrow> Some (Inl err)
             | Inr rules \<Rightarrow>
                (case filterRules J ''API'' rules of
                   Inl err \<Rightarrow> Some (Inl err)
                 | Inr kept \<Rightarrow>
                    (case checkPolicy c of
                       None \<Rightarrow> None
                     | Some c \<Rightarrow>
                        (let c = c\<lparr>xc_Inbounds := api_inbound apiPort # xc_Inbounds c\<rparr> in
                         Some (map_sum id (\<lambda>new. c\<lparr>xc_Router := Some (router\<lparr>rt_RuleList := new @ kept\<rparr>)\<rparr>)
                                (prepend_rules J ifaces c)))))))"

end
