(* ===== verification/Xray_Core.thy ===== *)
theory Xray_Core
  imports Xray_Config Backend_Composite
begin

text \<open>
  The Xray process and the backend over it (\<^verbatim>\<open>backend/xray/core.go\<close>, \<^verbatim>\<open>log.go\<close>,
  \<^verbatim>\<open>startup_diagnostics.go\<close>, \<^verbatim>\<open>xray.go\<close>, \<^verbatim>\<open>user.go\<close>, \<^verbatim>\<open>jobs.go\<close>,
  \<^verbatim>\<open>stats.go\<close>, \<^verbatim>\<open>latency.go\<close> and \<^verbatim>\<open>api\<close>). The process is a type variable;
  what the node asks of it, of the host and of the generated gRPC client is the record \<open>xray_env\<close>. A
  process whose exit was noticed keeps its place with a mark, as \<^verbatim>\<open>ProcessState\<close> does in the code.
  Log files, the terminal log and the clean-up of orphaned processes and socket files are left out.
\<close>


section \<open>A ring of log lines\<close>

record log_ring =
  lr_lines :: "string list"
  lr_next :: nat
  lr_full :: bool

definition newStartupLogRing :: "int \<Rightarrow> log_ring" where
  "newStartupLogRing n = \<lparr>lr_lines = replicate (if n \<le> 0 then 1 else nat n) [], lr_next = 0, lr_full = False\<rparr>"

definition ring_reset :: "log_ring \<Rightarrow> log_ring" where
  "ring_reset r = \<lparr>lr_lines = map (\<lambda>_. []) (lr_lines r), lr_next = 0, lr_full = False\<rparr>"

definition ring_add :: "string \<Rightarrow> log_ring \<Rightarrow> log_ring" where
  "ring_add line r =
     (if length (lr_lines r) = 0 then r
      else
        (let nxt = (lr_next r + 1) mod length (lr_lines r)
         in \<lparr>lr_lines = (lr_lines r)[lr_next r := line], lr_next = nxt, lr_full = (lr_full r \<or> nxt = 0)\<rparr>))"

definition ring_tail :: "int \<Rightarrow> log_ring \<Rightarrow> string list" where
  "ring_tail n r =
     (let count = (if lr_full r then length (lr_lines r) else lr_next r) in
      if count = 0 then []
      else
        (let n = (if n \<le> 0 \<or> n > int count then count else nat n);
             oldest = (if lr_full r then lr_next r else 0);
             start = count - n
         in map (\<lambda>i. lr_lines r ! ((oldest + start + i) mod length (lr_lines r))) [0..<n]))"


section \<open>Startup diagnostics\<close>

datatype log_phase = LogPhaseRuntime | LogPhaseStartup

record 'p core =
  co_version :: string
  co_process :: "('p \<times> bool) option"
  co_restarting :: bool
  co_stopping :: bool
  co_logsChan :: "string list"
  co_logsCap :: nat
  co_logPhase :: log_phase
  co_startupLogs :: "log_ring option"
  co_startupLogSize :: int
  co_startupFailure :: string
  co_diagnostics :: bool
  co_runtimeLogs :: log_ring
  co_unixSocketPaths :: "string list"
  co_logger :: bool
  co_cancelFunc :: bool

definition ClearStartupDiagnostics :: "'p core \<Rightarrow> 'p core" where
  "ClearStartupDiagnostics c = c\<lparr>co_startupFailure := [], co_startupLogs := map_option ring_reset (co_startupLogs c)\<rparr>"

definition EnableStartupDiagnostics :: "int \<Rightarrow> 'p core \<Rightarrow> 'p core" where
  "EnableStartupDiagnostics tailSize c =
     (let tailSize = (if tailSize \<le> 0 then co_startupLogSize c else tailSize);
          tailSize = (if tailSize \<le> 0 then 200 else tailSize);
          ring = (case co_startupLogs c of
                    None \<Rightarrow> newStartupLogRing tailSize
                  | Some r \<Rightarrow> if int (length (lr_lines r)) \<noteq> tailSize then newStartupLogRing tailSize else ring_reset r)
      in c\<lparr>co_startupLogs := Some ring, co_startupLogSize := tailSize, co_startupFailure := [], co_diagnostics := True\<rparr>)"

definition DisableStartupDiagnostics :: "'p core \<Rightarrow> 'p core" where
  "DisableStartupDiagnostics c = c\<lparr>co_startupLogs := None, co_startupFailure := [], co_diagnostics := False\<rparr>"

definition setStartupLogPhase :: "'p core \<Rightarrow> 'p core" where
  "setStartupLogPhase c = c\<lparr>co_logPhase := LogPhaseStartup\<rparr>"

definition SwitchToRuntimeLogPhase :: "'p core \<Rightarrow> 'p core" where
  "SwitchToRuntimeLogPhase c = DisableStartupDiagnostics (c\<lparr>co_logPhase := LogPhaseRuntime\<rparr>)"

definition isStartupFailureLog :: "string \<Rightarrow> bool" where
  "isStartupFailureLog line =
     (let lower = ToLower line in
      if Contains lower ''invalid request user id'' \<or> Contains lower ''rejected proxy/'' then False
      else list_ex (Contains lower)
        [''failed to start'', ''panic'', ''fatal'', ''permission denied'', ''no such file or directory'', ''cannot find'',
         ''failed to open'', ''failed to load'', ''failed to listen''])"

definition RecordStartupLog :: "string \<Rightarrow> 'p core \<Rightarrow> 'p core" where
  "RecordStartupLog line c =
     (if \<not> co_diagnostics c then c
      else c\<lparr>co_startupLogs := map_option (ring_add line) (co_startupLogs c),
             co_startupFailure := (if isStartupFailureLog line then line else co_startupFailure c)\<rparr>)"

definition LatestStartupFailure :: "'p core \<Rightarrow> string" where
  "LatestStartupFailure c = (if \<not> co_diagnostics c then [] else co_startupFailure c)"

definition StartupLogTail :: "int \<Rightarrow> 'p core \<Rightarrow> string list" where
  "StartupLogTail n c =
     (if \<not> co_diagnostics c then [] else (case co_startupLogs c of None \<Rightarrow> [] | Some r \<Rightarrow> ring_tail n r))"

definition RecordRuntimeLog :: "string \<Rightarrow> 'p core \<Rightarrow> 'p core" where
  "RecordRuntimeLog line c = c\<lparr>co_runtimeLogs := ring_add line (co_runtimeLogs c)\<rparr>"

definition RuntimeLogTail :: "int \<Rightarrow> 'p core \<Rightarrow> string list" where
  "RuntimeLogTail n c = ring_tail n (co_runtimeLogs c)"

text \<open>A line goes to the channel only when there is room.\<close>

definition offer_line :: "string \<Rightarrow> 'p core \<Rightarrow> 'p core" where
  "offer_line line c = (if length (co_logsChan c) < co_logsCap c then c\<lparr>co_logsChan := co_logsChan c @ [line]\<rparr> else c)"

definition captureStartupLogLine :: "string \<Rightarrow> 'p core \<Rightarrow> 'p core" where
  "captureStartupLogLine line c = offer_line line (RecordStartupLog line c)"

definition captureRuntimeLogLine :: "string \<Rightarrow> 'p core \<Rightarrow> 'p core" where
  "captureRuntimeLogLine line c = offer_line line (RecordRuntimeLog line c)"

definition recordProcessLog :: "string \<Rightarrow> 'p core \<Rightarrow> 'p core" where
  "recordProcessLog line c =
     (if co_logPhase c = LogPhaseStartup then captureStartupLogLine line c else captureRuntimeLogLine line c)"

definition captureProcessLogs :: "string list \<Rightarrow> 'p core \<Rightarrow> 'p core" where
  "captureProcessLogs lines c = foldl (\<lambda>c line. recordProcessLog line c) c lines"


section \<open>The process\<close>

datatype account_msg =
    VmessMsg string | VlessMsg string string | TrojanMsg string | Shadowsocks2022Msg string
  | ShadowsocksMsg string int | HysteriaMsg string

datatype user_operation = AddUserOperation "32 word" string account_msg | RemoveUserOperation string

record ('p, 'r) xray_env =
  xe_uuid :: "string \<Rightarrow> string option"
  xe_reparse :: "'r xray_config \<Rightarrow> string + 'r xray_config"
  xe_marshal :: "'r xray_config \<Rightarrow> err"
  xe_version :: "string + string"
  xe_debug :: "bool \<times> err"
  xe_pipe :: err
  xe_logfile :: err
  xe_exec :: "'r xray_config option \<Rightarrow> string + 'p"
  xe_packs :: "account_msg + user_operation \<Rightarrow> err"
  xe_alter :: "string \<Rightarrow> user_operation \<Rightarrow> 'p \<Rightarrow> err \<times> 'p"
  xe_unreachable :: string

definition co_Started :: "'p core \<Rightarrow> bool" where
  "co_Started c = (case co_process c of None \<Rightarrow> False | Some (p, exited) \<Rightarrow> \<not> exited)"

definition NewXRayCore :: "('p, 'r) xray_env \<Rightarrow> nat \<Rightarrow> int \<Rightarrow> string + 'p core" where
  "NewXRayCore E logBufferSize startupLogTailSize =
     (let size1 = (if startupLogTailSize \<le> 0 then 200 else startupLogTailSize) in
      map_sum id (\<lambda>version.
        \<lparr>co_version = version, co_process = None, co_restarting = False, co_stopping = False, co_logsChan = [],
         co_logsCap = logBufferSize, co_logPhase = LogPhaseRuntime, co_startupLogs = None, co_startupLogSize = size1,
         co_startupFailure = [], co_diagnostics = False, co_runtimeLogs = newStartupLogRing 10, co_unixSocketPaths = [],
         co_logger = False, co_cancelFunc = False\<rparr>)
        (xe_version E))"

definition socket_path :: "inbound \<Rightarrow> string option" where
  "socket_path i =
     (let listen = TrimSpace (in_Listen i) in
      if listen = [] then None
      else
        (let path = TrimSpace (case Cut listen '','' of None \<Rightarrow> listen | Some (b, a) \<Rightarrow> b)
         in if HasPrefix path ''/'' then Some path else None))"

fun collect_paths :: "string list \<Rightarrow> inbound list \<Rightarrow> string list" where
  "collect_paths paths [] = paths"
| "collect_paths paths (i # is) =
     (case socket_path i of
        None \<Rightarrow> collect_paths paths is
      | Some path \<Rightarrow> if path \<in> set paths then collect_paths paths is else collect_paths (paths @ [path]) is)"

definition collectUnixSocketPaths :: "'r xray_config \<Rightarrow> string list" where
  "collectUnixSocketPaths c = collect_paths [] (xc_Inbounds c)"

text \<open>
  The configuration comes back as \<^verbatim>\<open>GetLogFiles\<close> and \<^verbatim>\<open>ToBytes\<close> leave it. An error of the
  encoder is overwritten or dropped: the process is then started on an empty input. \<open>xe_debug\<close> is the
  debug flag and the outcome of writing the file for it; \<open>xe_pipe\<close> and \<open>xe_logfile\<close> are the outcomes
  of opening the output pipe and the log files.
\<close>

definition co_Start :: "('p, 'r) xray_env \<Rightarrow> ranger \<Rightarrow> 'r xray_config \<Rightarrow> 'p core \<Rightarrow> err \<times> 'r xray_config \<times> 'p core" where
  "co_Start E rg cfg c =
     (let (files, cfg) = GetLogFiles cfg; (doc, cfg) = ToBytes rg cfg;
          input = (if xe_marshal E doc = None then Some doc else None)
      in if fst (xe_debug E) \<and> snd (xe_debug E) \<noteq> None then (snd (xe_debug E), cfg, c)
         else if co_Started c then (Some ''xray is started already'', cfg, c)
         else
           (let c = c\<lparr>co_runtimeLogs := ring_reset (co_runtimeLogs c)\<rparr>;
                c = setStartupLogPhase (EnableStartupDiagnostics (co_startupLogSize c) c);
                c = c\<lparr>co_process := None\<rparr>
            in if xe_pipe E \<noteq> None then (xe_pipe E, cfg, c)
               else if xe_logfile E \<noteq> None then (xe_logfile E, cfg, c\<lparr>co_logger := True\<rparr>)
               else
                 (case xe_exec E input of
                    Inl err \<Rightarrow> (Some err, cfg, c\<lparr>co_logger := True\<rparr>)
                  | Inr p \<Rightarrow> (None, cfg, c\<lparr>co_process := Some (p, False), co_stopping := False,
                                       co_unixSocketPaths := collectUnixSocketPaths cfg, co_logger := True, co_cancelFunc := True\<rparr>))))"

text \<open>The watcher of a process that exits on its own; a process that was replaced or stopped is expected to.\<close>

definition handleProcessExit :: "string option \<Rightarrow> 'p core \<Rightarrow> 'p core" where
  "handleProcessExit e c =
     (if co_stopping c \<or> co_process c = None then c
      else
        (let message = ''xray process exited unexpectedly'';
             message = (case e of
                          None \<Rightarrow> message
                        | Some err \<Rightarrow>
                           (let message = message @ '': '' @ err in
                            if Contains (ToLower err) ''signal: killed''
                            then message @ '' (process was killed externally; check container/system OOM and memory limits)''
                            else message))
         in recordProcessLog message c))"

definition proc_exit :: "string option \<Rightarrow> 'p core \<Rightarrow> 'p core" where
  "proc_exit e c = handleProcessExit e (c\<lparr>co_process := map_option (\<lambda>(p, x). (p, True)) (co_process c)\<rparr>)"

definition co_Stop :: "'p core \<Rightarrow> 'p core" where
  "co_Stop c =
     (if \<not> co_Started c \<and> co_process c = None \<and> \<not> co_cancelFunc c \<and> \<not> co_logger c \<and> co_unixSocketPaths c = [] then c
      else SwitchToRuntimeLogPhase
             (c\<lparr>co_process := None, co_stopping := False, co_unixSocketPaths := [], co_logger := False, co_cancelFunc := False\<rparr>))"

definition co_Restart :: "('p, 'r) xray_env \<Rightarrow> ranger \<Rightarrow> 'r xray_config \<Rightarrow> 'p core \<Rightarrow> err \<times> 'r xray_config \<times> 'p core" where
  "co_Restart E rg cfg c =
     (if co_restarting c then (Some ''xray is already restarting'', cfg, c)
      else
        (case co_Start E rg cfg (co_Stop (c\<lparr>co_restarting := True\<rparr>)) of
           (e, cfg, c) \<Rightarrow> (e, cfg, c\<lparr>co_restarting := False\<rparr>)))"



section \<open>The API of the process\<close>

fun Message :: "account \<Rightarrow> account_msg" where
  "Message (VmessAccount e l i) = VmessMsg i"
| "Message (VlessAccount e l i f) = VlessMsg i f"
| "Message (TrojanAccount e l p) = TrojanMsg p"
| "Message (ShadowsocksAccount e l p) = Shadowsocks2022Msg p"
| "Message (ShadowsocksTcpAccount e l p m) = ShadowsocksMsg p (getd 0 CipherType_value m)"
| "Message (HysteriaAccount e l a) = HysteriaMsg a"

definition AlertInbound :: "('p, 'r) xray_env \<Rightarrow> string \<Rightarrow> user_operation \<Rightarrow> 'p core \<Rightarrow> err \<times> 'p core" where
  "AlertInbound E tag op1 c =
     (case co_process c of
        Some (p, False) \<Rightarrow> (case xe_alter E tag op1 p of (e, p) \<Rightarrow> (e, c\<lparr>co_process := Some (p, False)\<rparr>))
      | _ \<Rightarrow> (Some (xe_unreachable E), c))"

definition AddInboundUser :: "('p, 'r) xray_env \<Rightarrow> string \<Rightarrow> account \<Rightarrow> 'p core \<Rightarrow> err \<times> 'p core" where
  "AddInboundUser E tag a c =
     (case xe_packs E (Inl (Message a)) of
        Some err \<Rightarrow> (Some err, c)
      | None \<Rightarrow>
         (let op1 = AddUserOperation (acc_GetLevel a) (acc_GetEmail a) (Message a) in
          case xe_packs E (Inr op1) of Some err \<Rightarrow> (Some err, c) | None \<Rightarrow> AlertInbound E tag op1 c))"

definition RemoveInboundUser :: "('p, 'r) xray_env \<Rightarrow> string \<Rightarrow> string \<Rightarrow> 'p core \<Rightarrow> err \<times> 'p core" where
  "RemoveInboundUser E tag email c =
     (let op1 = RemoveUserOperation email in
      case xe_packs E (Inr op1) of Some err \<Rightarrow> (Some err, c) | None \<Rightarrow> AlertInbound E tag op1 c)"

definition parseStatName :: "string \<Rightarrow> (string \<times> string \<times> string) option" where
  "parseStatName raw =
     (let parts = Split raw ''>>>'' in
      if length parts < 4 then None
      else if parts ! 1 = [] \<or> parts ! 2 = [] \<or> parts ! 3 = [] then None
      else Some (parts ! 1, parts ! 2, parts ! 3))"

fun buildStatResponse :: "(string \<times> int64) list \<Rightarrow> stat list" where
  "buildStatResponse [] = []"
| "buildStatResponse ((raw, v) # stats) =
     (case parseStatName raw of
        None \<Rightarrow> buildStatResponse stats
      | Some (name, link, statType) \<Rightarrow> \<lparr>s_Name = name, s_Type = statType, s_Link = link, s_Value = v\<rparr> # buildStatResponse stats)"

text \<open>The counters the process reports, and resets, for a pattern are given by the query.\<close>

type_synonym stat_query = "string \<Rightarrow> bool \<Rightarrow> string + (string \<times> int64) list"

definition named_stats :: "stat_query \<Rightarrow> string \<Rightarrow> string \<Rightarrow> string \<Rightarrow> bool \<Rightarrow> string + stat list" where
  "named_stats query kind missing name reset =
     (if name = [] then Inl missing
      else map_sum id buildStatResponse (query (kind @ ''>>>'' @ name @ ''>>>'') reset))"

definition all_stats :: "stat_query \<Rightarrow> string \<Rightarrow> bool \<Rightarrow> string + stat list" where
  "all_stats query kind reset = map_sum id buildStatResponse (query (kind @ ''>>>'') reset)"

definition xray_GetStats :: "stat_query \<Rightarrow> stat_request \<Rightarrow> string + stat list" where
  "xray_GetStats query request =
     (case sr_Type request of
        Outbounds \<Rightarrow> all_stats query ''outbound'' (sr_Reset request)
      | Outbound \<Rightarrow> named_stats query ''outbound'' ''tag required'' (sr_Name request) (sr_Reset request)
      | Inbounds \<Rightarrow> all_stats query ''inbound'' (sr_Reset request)
      | Inbound \<Rightarrow> named_stats query ''inbound'' ''tag required'' (sr_Name request) (sr_Reset request)
      | UsersStat \<Rightarrow> all_stats query ''user'' (sr_Reset request)
      | UserStat \<Rightarrow> named_stats query ''user'' ''email required'' (sr_Name request) (sr_Reset request))"

definition xray_GetUserOnlineStats :: "(string \<Rightarrow> string + int64) \<Rightarrow> string \<Rightarrow> string + online_stat" where
  "xray_GetUserOnlineStats online email =
     (if email = [] then Inl ''email required''
      else map_sum id (\<lambda>v. \<lparr>os_Name = email, os_Value = v\<rparr>) (online (''user>>>'' @ email @ ''>>>online'')))"

definition xray_GetUserOnlineIpListStats :: "(string \<Rightarrow> string + (string \<rightharpoonup> int64)) \<Rightarrow> string \<Rightarrow> string + online_ips" where
  "xray_GetUserOnlineIpListStats online email =
     (if email = [] then Inl ''email required''
      else map_sum id (\<lambda>ips. \<lparr>oi_Name = email, oi_Ips = ips\<rparr>) (online (''user>>>'' @ email @ ''>>>online'')))"


section \<open>The backend\<close>

record ('p, 'r) xray =
  xr_config :: "'r xray_config"
  xr_core :: "'p core"
  xr_open :: bool
  xr_metricPort :: int
  xr_cancelled :: bool

text \<open>
  One user over all inbounds: the pair of position and inbound is visited in order; errors of the
  removal are dropped, those of the addition collected.
\<close>

definition sync_inbound :: "('p, 'r) xray_env \<Rightarrow> user_msg \<Rightarrow> proxy_settings \<Rightarrow> string \<times> ('p, 'r) xray \<Rightarrow> nat \<Rightarrow> string \<times> ('p, 'r) xray" where
  "sync_inbound E u settings st n =
     (case st of (errMessage, x) \<Rightarrow>
        (let i = xc_Inbounds (xr_config x) ! n in
         if in_exclude i then (errMessage, x)
         else
           (case RemoveInboundUser E (in_Tag i) (u_Email u) (xr_core x) of
              (_, co) \<Rightarrow>
                (let x = x\<lparr>xr_core := co\<rparr>;
                     put = (\<lambda>j x. x\<lparr>xr_config := (xr_config x)\<lparr>xc_Inbounds := (xc_Inbounds (xr_config x))[n := j]\<rparr>\<rparr>)
                 in case isActiveInbound i (u_Inbounds u) settings of
                      Some a \<Rightarrow>
                        (let i' = in_updateUser a i in
                         case AddInboundUser E (in_Tag i) (accountForAPI i' a) (xr_core x) of
                           (e, co) \<Rightarrow>
                             ((case e of None \<Rightarrow> errMessage | Some err \<Rightarrow> errMessage @ [byte 10] @ err), put i' (x\<lparr>xr_core := co\<rparr>)))
                    | None \<Rightarrow> (errMessage, put (in_removeUser (u_Email u) i) x)))))"

text \<open>\<open>None\<close> is a panic: the handler of a backend that was shut down is nil.\<close>

definition xray_SyncUser :: "('p, 'r) xray_env \<Rightarrow> user_msg \<Rightarrow> ('p, 'r) xray \<Rightarrow> (err \<times> ('p, 'r) xray) option" where
  "xray_SyncUser E u x =
     (if \<not> xr_open x \<and> \<not> list_all in_exclude (xc_Inbounds (xr_config x)) then None
      else
        (case foldl (sync_inbound E u (setupUserAccount (xe_uuid E) (Some u))) ([], x) [0..<length (xc_Inbounds (xr_config x))] of
           (errMessage, x) \<Rightarrow> Some (if errMessage \<noteq> [] then Some (''failed to add user:'' @ errMessage) else None, x)))"

definition remove_one :: "('p, 'r) xray_env \<Rightarrow> string \<Rightarrow> 'p core \<Rightarrow> string \<Rightarrow> 'p core" where
  "remove_one E tag c email = snd (RemoveInboundUser E tag email c)"

definition add_one :: "('p, 'r) xray_env \<Rightarrow> inbound \<Rightarrow> string \<times> 'p core \<Rightarrow> account \<Rightarrow> string \<times> 'p core" where
  "add_one E i st a =
     (case st of (errMessage, c) \<Rightarrow>
        (case AddInboundUser E (in_Tag i) (accountForAPI i a) (remove_one E (in_Tag i) c (acc_GetEmail a)) of
           (None, c) \<Rightarrow> (errMessage, c)
         | (Some err, c) \<Rightarrow> (errMessage @ [byte 10] @ err, c)))"

definition update_inbound :: "('p, 'r) xray_env \<Rightarrow> ranger \<Rightarrow> (string \<rightharpoonup> nat) \<Rightarrow> (string \<rightharpoonup> inbound_update) \<Rightarrow> string \<times> ('p, 'r) xray \<Rightarrow> string \<Rightarrow>
    string \<times> ('p, 'r) xray" where
  "update_inbound E rg byTag updates st tag =
     (case st of (errMessage, x) \<Rightarrow>
        (case (byTag tag, updates tag) of
           (Some n, Some upd) \<Rightarrow>
             (let removeEmails = rg 1 (iu_removeEmailSet upd); is = xc_Inbounds (xr_config x);
                  i = in_updateUsers (iu_accounts upd) removeEmails (is ! n);
                  co = foldl (remove_one E tag) (xr_core x) removeEmails
              in case foldl (add_one E i) (errMessage, co) (iu_accounts upd) of
                   (errMessage, co) \<Rightarrow> (errMessage, x\<lparr>xr_config := (xr_config x)\<lparr>xc_Inbounds := is[n := i]\<rparr>, xr_core := co\<rparr>))
         | _ \<Rightarrow> st))"

definition xray_UpdateUsers :: "('p, 'r) xray_env \<Rightarrow> ranger \<Rightarrow> user list \<Rightarrow> ('p, 'r) xray \<Rightarrow> (err \<times> ('p, 'r) xray) option" where
  "xray_UpdateUsers E rg users x =
     (if \<not> xr_open x \<and> users \<noteq> [] \<and> \<not> list_all in_exclude (xc_Inbounds (xr_config x)) then None
      else
        (case buildInboundUpdates (xe_uuid E) users (xr_config x) of
           (byTag, updates) \<Rightarrow>
             (case foldl (update_inbound E rg byTag updates) ([], x) (keys_of rg 0 updates) of
                (errMessage, x) \<Rightarrow> Some (if errMessage \<noteq> [] then Some (''failed to update users:'' @ errMessage) else None, x))))"


section \<open>Readiness, restart and health\<close>

text \<open>What happens to the core while \<^verbatim>\<open>checkXrayStatus\<close> waits, and the ticks it wakes up for.\<close>

datatype status_event = SLogs "string list" | SExit "string option" | SCancelled | SErrorTick | SApiTick "string + backend_stats"

definition extractStartupError :: "'p core \<Rightarrow> err" where
  "extractStartupError c =
     (let failure = LatestStartupFailure c in if failure = [] then None else Some (''failed to start xray: '' @ failure))"

definition startupErrorWithTail :: "'p core \<Rightarrow> int \<Rightarrow> string \<Rightarrow> string" where
  "startupErrorWithTail c tailSize reason =
     (let failure = LatestStartupFailure c in
      if failure \<noteq> [] then ''failed to start xray: '' @ failure
      else
        (let lines = StartupLogTail tailSize c in
         if length lines = 0 then reason
         else reason @ ''; no fatal xray startup log was detected. Recent xray logs:'' @ [byte 10] @ Join lines [byte 10]))"

definition api_tick :: "int \<Rightarrow> string + backend_stats \<Rightarrow> 'p core \<Rightarrow> err option \<times> 'p core" where
  "api_tick tailSize answer c =
     (case answer of
        Inr _ \<Rightarrow> (Some None, SwitchToRuntimeLogPhase c)
      | Inl _ \<Rightarrow>
         (case extractStartupError c of
            Some err \<Rightarrow> (Some (Some err), c)
          | None \<Rightarrow>
             (if \<not> co_Started c
              then (Some (Some (startupErrorWithTail c tailSize
                     (if co_stopping c then ''xray startup was interrupted by a stop/restart request before API became ready''
                      else ''xray process stopped before API became ready''))), c)
              else (None, c))))"

text \<open>\<open>None\<close> as a result: still waiting when the events end.\<close>

fun checkXrayStatus :: "int \<Rightarrow> status_event list \<Rightarrow> 'p core \<Rightarrow> err option \<times> 'p core" where
  "checkXrayStatus tailSize [] c = (None, c)"
| "checkXrayStatus tailSize (SLogs lines # es) c = checkXrayStatus tailSize es (captureProcessLogs lines c)"
| "checkXrayStatus tailSize (SExit e # es) c = checkXrayStatus tailSize es (proc_exit e c)"
| "checkXrayStatus tailSize (SCancelled # es) c = (Some (Some ''context cancelled''), c)"
| "checkXrayStatus tailSize (SErrorTick # es) c =
     (case extractStartupError c of Some err \<Rightarrow> (Some (Some err), c) | None \<Rightarrow> checkXrayStatus tailSize es c)"
| "checkXrayStatus tailSize (SApiTick answer # es) c =
     (case api_tick tailSize answer c of
        (Some verdict, c) \<Rightarrow> (Some verdict, c)
      | (None, c) \<Rightarrow> checkXrayStatus tailSize es c)"

definition restartCoreWithConfig :: "('p, 'r) xray_env \<Rightarrow> ranger \<Rightarrow> 'r xray_config \<Rightarrow> ('p, 'r) xray \<Rightarrow> err \<times> 'r xray_config \<times> ('p, 'r) xray" where
  "restartCoreWithConfig E rg cfg x =
     (case co_Restart E rg cfg (xr_core x) of (e, cfg, co) \<Rightarrow> (e, cfg, x\<lparr>xr_core := co\<rparr>))"

definition xray_Restart :: "('p, 'r) xray_env \<Rightarrow> ranger \<Rightarrow> ('p, 'r) xray \<Rightarrow> err \<times> ('p, 'r) xray" where
  "xray_Restart E rg x = (case restartCoreWithConfig E rg (xr_config x) x of (e, cfg, x) \<Rightarrow> (e, x\<lparr>xr_config := cfg\<rparr>))"

definition setConfig :: "'r xray_config \<Rightarrow> ('p, 'r) xray \<Rightarrow> ('p, 'r) xray" where
  "setConfig cfg x = x\<lparr>xr_config := cfg\<rparr>"

text \<open>
  The previous configuration is the one the backend holds, so what \<^verbatim>\<open>Start\<close> writes into it is
  seen there. The last component is \<open>None\<close> while the call waits.
\<close>

definition restorePreviousConfig :: "('p, 'r) xray_env \<Rightarrow> ranger \<Rightarrow> int \<Rightarrow> status_event list \<Rightarrow> ('p, 'r) xray \<Rightarrow> err option \<times> ('p, 'r) xray" where
  "restorePreviousConfig E rg tailSize es x =
     (case restartCoreWithConfig E rg (xr_config x) x of
        (Some err, cfg, x) \<Rightarrow> (Some (Some err), setConfig cfg x)
      | (None, cfg, x) \<Rightarrow>
         (case checkXrayStatus tailSize es (xr_core x) of (verdict, co) \<Rightarrow> (verdict, setConfig cfg (x\<lparr>xr_core := co\<rparr>))))"

definition restore_after :: "string \<Rightarrow> err option \<times> ('p, 'r) xray \<Rightarrow> err option \<times> ('p, 'r) xray" where
  "restore_after err r =
     (case r of
        (Some None, x) \<Rightarrow> (Some (Some err), x)
      | (Some (Some restoreErr), x) \<Rightarrow> (Some (Some (err @ ''; failed to restore previous xray config: '' @ restoreErr)), x)
      | (None, x) \<Rightarrow> (None, x))"

definition applyConfigWithRestart :: "('p, 'r) xray_env \<Rightarrow> ranger \<Rightarrow> int \<Rightarrow> status_event list \<Rightarrow> status_event list \<Rightarrow> 'r xray_config \<Rightarrow>
    ('p, 'r) xray \<Rightarrow> err option \<times> ('p, 'r) xray" where
  "applyConfigWithRestart E rg tailSize es es' candidate x =
     (case restartCoreWithConfig E rg candidate x of
        (Some err, _, x) \<Rightarrow> restore_after err (restorePreviousConfig E rg tailSize es' x)
      | (None, candidate, x) \<Rightarrow>
         (case checkXrayStatus tailSize es (xr_core x) of
            (None, co) \<Rightarrow> (None, x\<lparr>xr_core := co\<rparr>)
          | (Some (Some err), co) \<Rightarrow> restore_after err (restorePreviousConfig E rg tailSize es' (x\<lparr>xr_core := co\<rparr>))
          | (Some None, co) \<Rightarrow> (Some None, setConfig candidate (x\<lparr>xr_core := co\<rparr>))))"

definition xray_SyncUsers :: "('p, 'r) xray_env \<Rightarrow> ranger \<Rightarrow> int \<Rightarrow> status_event list \<Rightarrow> status_event list \<Rightarrow> user list \<Rightarrow>
    ('p, 'r) xray \<Rightarrow> err option \<times> ('p, 'r) xray" where
  "xray_SyncUsers E rg tailSize es es' users x =
     (case Clone (xe_reparse E) (xr_config x) of
        Inl err \<Rightarrow> (Some (Some err), x)
      | Inr candidate \<Rightarrow> applyConfigWithRestart E rg tailSize es es' (cfg_syncUsers (xe_uuid E) users candidate) x)"

definition xray_UpdateUsersAndRestart :: "('p, 'r) xray_env \<Rightarrow> ranger \<Rightarrow> int \<Rightarrow> status_event list \<Rightarrow> status_event list \<Rightarrow> user list \<Rightarrow>
    ('p, 'r) xray \<Rightarrow> err option \<times> ('p, 'r) xray" where
  "xray_UpdateUsersAndRestart E rg tailSize es es' users x =
     (case Clone (xe_reparse E) (xr_config x) of
        Inl err \<Rightarrow> (Some (Some err), x)
      | Inr candidate \<Rightarrow> applyConfigWithRestart E rg tailSize es es' (cfg_updateUsers (xe_uuid E) rg users candidate) x)"

definition xray_Shutdown :: "('p, 'r) xray \<Rightarrow> ('p, 'r) xray" where
  "xray_Shutdown x = x\<lparr>xr_cancelled := True, xr_core := co_Stop (xr_core x), xr_open := False\<rparr>"

text \<open>
  The constructor. The result of a failure is what is left behind: nothing, or the core it stopped.
  \<open>None\<close> alone is a panic of \<^verbatim>\<open>ApplyAPI\<close>; a \<open>None\<close> verdict waits.
\<close>

definition xray_New :: "('p, 'r) xray_env \<Rightarrow> ranger \<Rightarrow> 'r rule_codec \<Rightarrow> string + host_iface list \<Rightarrow> err \<Rightarrow> int \<Rightarrow> nat \<Rightarrow> status_event list \<Rightarrow>
    'r xray_config \<Rightarrow> user list \<Rightarrow> int \<Rightarrow> int \<Rightarrow> (err option \<times> ('p, 'r) xray option) option" where
  "xray_New E rg J ifaces handlerErr tailSize logBuffer es cfg users apiPort metricPort =
     (case ApplyAPI J ifaces apiPort metricPort cfg of
        None \<Rightarrow> None
      | Some (Inl err) \<Rightarrow> Some (Some (Some err), None)
      | Some (Inr cfg) \<Rightarrow>
         (let cfg = (if length users > 0 then cfg_syncUsers (xe_uuid E) users cfg else cfg) in
          case NewXRayCore E logBuffer tailSize of
            Inl err \<Rightarrow> Some (Some (Some err), None)
          | Inr c \<Rightarrow>
             (case co_Start E rg cfg c of
                (Some err, _, _) \<Rightarrow> Some (Some (Some err), None)
              | (None, cfg, c) \<Rightarrow>
                 (let x = \<lparr>xr_config = cfg, xr_core = c, xr_open = False, xr_metricPort = metricPort, xr_cancelled = False\<rparr> in
                  case handlerErr of
                    Some err \<Rightarrow> Some (Some (Some err), Some (xray_Shutdown x))
                  | None \<Rightarrow>
                     (case checkXrayStatus (if tailSize > 0 then tailSize else 200) es c of
                        (None, c) \<Rightarrow> Some (None, Some (x\<lparr>xr_core := c, xr_open := True\<rparr>))
                      | (Some (Some err), c) \<Rightarrow> Some (Some (Some err), Some (xray_Shutdown (x\<lparr>xr_core := c, xr_open := True\<rparr>)))
                      | (Some None, c) \<Rightarrow> Some (Some None, Some (x\<lparr>xr_core := c, xr_open := True\<rparr>)))))))"

text \<open>
  The health check. A round sees whether a restart is under way and what the API answers; the restart
  it decides on is a step of its own, since it has to wait for the backend's mutex.
\<close>

datatype health = HIdle nat | HRestart nat | HDone

datatype health_seen = SawRestarting | SawHealthy | SawCanceled | SawFailure

fun health_check :: "health_seen \<Rightarrow> health \<Rightarrow> ('p, 'r) xray \<Rightarrow> health" where
  "health_check seen (HIdle n) x =
     (if xr_cancelled x then HDone
      else (case seen of
              SawRestarting \<Rightarrow> HIdle 0
            | SawHealthy \<Rightarrow> HIdle 0
            | SawCanceled \<Rightarrow> HDone
            | SawFailure \<Rightarrow>
               (if \<not> co_Started (xr_core x) then HRestart (Suc n)
                else if 10 \<le> Suc n then HRestart (Suc n)
                else HIdle (Suc n))))"
| "health_check seen h x = h"

fun health_restart :: "('p, 'r) xray_env \<Rightarrow> ranger \<Rightarrow> health \<Rightarrow> ('p, 'r) xray \<Rightarrow> health \<times> ('p, 'r) xray" where
  "health_restart E rg (HRestart n) x =
     (case xray_Restart E rg x of (None, x) \<Rightarrow> (HIdle 0, x) | (Some err, x) \<Rightarrow> (HIdle n, x))"
| "health_restart E rg h x = (h, x)"


section \<open>Latency\<close>

record observatory_entry =
  ob_Alive :: bool
  ob_Delay :: int64
  ob_OutboundTag :: string
  ob_LastSeenTime :: int64
  ob_LastTryTime :: int64

definition shouldIncludeObservatoryOutbound :: "(string \<rightharpoonup> string) \<Rightarrow> string \<Rightarrow> bool" where
  "shouldIncludeObservatoryOutbound byTag tag =
     (case byTag tag of None \<Rightarrow> True | Some protocol \<Rightarrow> protocol \<notin> observatoryExcludedProtocols)"

definition entry_latency :: "(string \<rightharpoonup> observatory_entry) \<Rightarrow> string \<Rightarrow> latency" where
  "entry_latency obs key =
     (let e = getd \<lparr>ob_Alive = False, ob_Delay = 0, ob_OutboundTag = [], ob_LastSeenTime = 0, ob_LastTryTime = 0\<rparr> obs key
      in \<lparr>lt_Name = key, lt_Alive = ob_Alive e, lt_Delay = ob_Delay e,
          lt_Link = (if ob_OutboundTag e = [] then key else ob_OutboundTag e),
          lt_LastSeenTime = ob_LastSeenTime e, lt_LastTryTime = ob_LastTryTime e, lt_Source = ''xray-observatory''\<rparr>)"

definition xray_GetOutboundsLatency :: "ranger \<Rightarrow> (string \<Rightarrow> string + (string \<rightharpoonup> observatory_entry)) \<Rightarrow> string \<Rightarrow> ('p, 'r) xray \<Rightarrow> string + latency list" where
  "xray_GetOutboundsLatency rg metrics name x =
     (let byTag = outboundProtocolByTag (xr_config x) in
      if \<not> co_Started (xr_core x) then Inl ''xray not started''
      else
        (case metrics (''http://'' @ loopbackListenAddress (xr_metricPort x) @ ''/debug/vars'') of
           Inl err \<Rightarrow> Inl err
         | Inr obs \<Rightarrow>
            (if obs = Map.empty then Inl ''xray outbound latency is not available''
             else
               (let keys = filter (\<lambda>key. \<not> (name \<noteq> [] \<and> key \<noteq> name) \<and> shouldIncludeObservatoryOutbound byTag key) (keys_of rg 0 obs)
                in Inr (map (entry_latency obs) (sort keys))))))"

end
