(* ===== verification/Xray_Rules.thy ===== *)
theory Xray_Rules
  imports Xray_Core
begin

text \<open>
  What the node adds to an Xray configuration: its API inbound and rule, the guard against malformed
  domains, private address ranges spelled out, and user statistics. The user's own inbounds and rules
  keep their order, and a configuration that went through once is not changed by going through again.
\<close>

section \<open>Removing the API inbound\<close>

definition is_api :: "inbound \<Rightarrow> bool" where
  "is_api i \<longleftrightarrow> in_Tag i = ''API_INBOUND''"

lemma remove_api_skip:
  assumes "i \<le> k" "k \<le> n" "\<And>j. i \<le> j \<Longrightarrow> j < k \<Longrightarrow> \<not> is_api (arr ! j)"
  shows "remove_api n i arr len = remove_api n k arr len"
  using assms
proof (induction "k - i" arbitrary: i)
  case 0
  then show ?case by simp
next
  case (Suc d)
  then have "\<not> n \<le> i" "\<not> is_api (arr ! i)" "i < k" by auto
  then have "remove_api n i arr len = remove_api n (Suc i) arr len"
    by (subst remove_api.simps) (simp add: is_api_def)
  also have "\<dots> = remove_api n k arr len" using Suc by (intro Suc.hyps(1)) auto
  finally show ?case .
qed

lemma remove_api_rest:
  assumes "i \<le> n" "\<And>j. i \<le> j \<Longrightarrow> j < n \<Longrightarrow> \<not> is_api (arr ! j)"
  shows "remove_api n i arr len = Some (take len arr)"
  using remove_api_skip [of i n n arr len] assms by (subst (asm) (2) remove_api.simps) auto

lemma remove_api_absent: "\<forall>i \<in> set is. \<not> is_api i \<Longrightarrow> remove_api (length is) 0 is (length is) = Some is"
  using remove_api_rest [of 0 "length is" "is" "length is"] by simp

lemma remove_api_one:
  assumes "is_api x" "\<forall>i \<in> set a. \<not> is_api i" "\<forall>i \<in> set b. \<not> is_api i"
  shows "remove_api (length (a @ x # b)) 0 (a @ x # b) (length (a @ x # b)) = Some (a @ b)"
proof -
  let ?arr = "a @ x # b" and ?k = "length a"
  let ?n = "length (a @ x # b)"
  let ?arr' = "take ?k ?arr @ drop (Suc ?k) (take ?n ?arr) @ drop (?n - 1) ?arr"
  have "remove_api ?n 0 ?arr ?n = remove_api ?n ?k ?arr ?n"
    using assms(2) by (intro remove_api_skip) (auto simp: nth_append)
  also have "\<dots> = remove_api ?n (Suc ?k) ?arr' (?n - 1)"
    using assms(1) by (subst remove_api.simps) (simp add: is_api_def)
  also have "\<dots> = Some (take (?n - 1) ?arr')"
  proof (rule remove_api_rest)
    fix j assume j: "Suc ?k \<le> j" "j < ?n"
    show "\<not> is_api (?arr' ! j)"
    proof (cases "b = []")
      case True
      with j show ?thesis by simp
    next
      case False
      then have "drop (?n - 1) ?arr = [last b]"
        by (metis append_butlast_last_id append_is_Nil_conv diff_Suc_1 drop_eq_Nil2 last_ConsR last_appendR length_append_singleton
            list.distinct(1) append_eq_conv_conj le_refl)
      then have "?arr' = a @ b @ [last b]" by simp
      moreover have "\<forall>i \<in> set (b @ [last b]). \<not> is_api i" using assms(3) False by auto
      moreover have "(a @ b @ [last b]) ! j = (b @ [last b]) ! (j - ?k)" "j - ?k < length (b @ [last b])"
        using j by (auto simp: nth_append)
      ultimately show ?thesis by (metis nth_mem)
    qed
  qed simp
  also have "take (?n - 1) ?arr' = a @ b" by simp
  finally show ?thesis .
qed

lemma remove_api_filter:
  assumes "length (filter is_api is) \<le> 1"
  shows "remove_api (length is) 0 is (length is) = Some (filter (\<lambda>i. \<not> is_api i) is)"
proof (cases "\<exists>x \<in> set is. is_api x")
  case False
  then have "filter (\<lambda>i. \<not> is_api i) is = is" by (simp add: filter_id_conv)
  with False show ?thesis by (simp add: remove_api_absent)
next
  case True
  then obtain a x b where s: "is = a @ x # b" "is_api x" "\<forall>i \<in> set a. \<not> is_api i"
    by (metis split_list_first_prop)
  with assms have "\<forall>i \<in> set b. \<not> is_api i" by (simp add: filter_empty_conv)
  with s remove_api_one [of x a b] show ?thesis by (simp add: filter_id_conv)
qed

lemma filter_api_idem: "length (filter is_api (api_inbound p # filter (\<lambda>i. \<not> is_api i) is)) \<le> 1"
  by (simp add: api_inbound_def is_api_def filter_empty_conv)


section \<open>Routing rules\<close>

text \<open>Encoding an object of strings and lists succeeds, and decoding gives the object back.\<close>

definition codec_ok :: "'r rule_codec \<Rightarrow> bool" where
  "codec_ok J \<longleftrightarrow> (\<forall>obj. \<exists>raw. snd J obj = Inr raw \<and> fst J raw = Inr obj)"

definition rule_of :: "'r rule_codec \<Rightarrow> 'r \<Rightarrow> jmap" where
  "rule_of J raw = (case fst J raw of Inl _ \<Rightarrow> Map.empty | Inr obj \<Rightarrow> obj)"

text \<open>
  What the user's rules should read afterwards, said without the code's own helpers: in the lists under
  \<^verbatim>\<open>ip\<close> and \<^verbatim>\<open>source\<close> each entry \<^verbatim>\<open>geoip:private\<close>, in any case of its letters, gives way to the fifteen
  private and reserved networks, and every other entry and every other member stays.
\<close>

definition private_networks :: "json list" where
  "private_networks =
     [JStr ''0.0.0.0/8'', JStr ''10.0.0.0/8'', JStr ''100.64.0.0/10'', JStr ''127.0.0.0/8'', JStr ''169.254.0.0/16'',
      JStr ''172.16.0.0/12'', JStr ''192.0.0.0/24'', JStr ''192.168.0.0/16'', JStr ''198.18.0.0/15'', JStr ''224.0.0.0/4'',
      JStr ''240.0.0.0/4'', JStr ''::/128'', JStr ''::1/128'', JStr ''fc00::/7'', JStr ''fe80::/10'']"

fun names_private :: "json \<Rightarrow> bool" where
  "names_private (JStr s) \<longleftrightarrow> ToLower s = ''geoip:private''"
| "names_private _ \<longleftrightarrow> False"

primrec spell_entries :: "json list \<Rightarrow> json list" where
  "spell_entries [] = []"
| "spell_entries (x # xs) = (if names_private x then private_networks @ spell_entries xs else x # spell_entries xs)"

fun spell :: "json \<Rightarrow> json" where
  "spell (JArr xs) = JArr (spell_entries xs)"
| "spell v = v"

definition spelled_out :: "jmap \<Rightarrow> jmap" where
  "spelled_out obj = (\<lambda>k. if k = ''ip'' \<or> k = ''source'' then map_option spell (obj k) else obj k)"

definition nodes_own :: "jmap \<Rightarrow> bool" where
  "nodes_own obj \<longleftrightarrow> obj ''outboundTag'' = Some (JStr ''API'') \<or> obj ''ruleTag'' = Some (JStr ''PG_NODE_MALFORMED_DOMAIN_GUARD'')"

lemma nodes_own_eq: "nodes_own obj \<longleftrightarrow> own_rule ''API'' obj"
proof -
  have "as_string v = Some s \<longleftrightarrow> v = Some (JStr s)" for v s by (cases v rule: as_string.cases) auto
  then show ?thesis by (simp add: nodes_own_def own_rule_def malformedDomainGuardRuleTag_def)
qed

lemma names_private_eq: "names_private x \<longleftrightarrow> is_geoip_private x"
  by (cases x) (simp_all add: is_geoip_private_def EqualFold_def ToLower_def)

lemma spell_entries_eq: "spell_entries xs = concat (map (\<lambda>e. if is_geoip_private e then map JStr privateCIDRs else [e]) xs)"
  by (induction xs) (simp_all add: names_private_eq private_networks_def privateCIDRs_def)

lemma spell_entries_id: "\<not> list_ex is_geoip_private xs \<Longrightarrow> spell_entries xs = xs"
  by (induction xs) (simp_all add: names_private_eq)

lemma replaceGeoIPPrivate_spell: "fst (replaceGeoIPPrivate v) = spell v"
  by (cases v) (simp_all add: replaceGeoIPPrivate_def spell_entries_eq [symmetric] spell_entries_id)

definition private_free :: "json option \<Rightarrow> bool" where
  "private_free v = (case as_list v of None \<Rightarrow> True | Some xs \<Rightarrow> \<not> list_ex is_geoip_private xs)"

lemma as_list_Some: "as_list (Some v) = Some xs \<longleftrightarrow> v = JArr xs"
  by (cases v) auto

lemma cidrs_free: "\<not> list_ex is_geoip_private (map JStr privateCIDRs)"
  by (simp add: privateCIDRs_def is_geoip_private_def EqualFold_def ToLower_def)

lemma replaceGeoIPPrivate_free: "private_free (Some (fst (replaceGeoIPPrivate v)))"
proof (cases "as_list (Some v)")
  case None
  then show ?thesis by (simp add: replaceGeoIPPrivate_def private_free_def)
next
  case (Some xs)
  have "\<not> list_ex is_geoip_private (concat (map (\<lambda>e. if is_geoip_private e then map JStr privateCIDRs else [e]) xs))"
    using cidrs_free by (auto simp: list_ex_iff)
  with Some show ?thesis by (auto simp: replaceGeoIPPrivate_def private_free_def)
qed

lemma replaceGeoIPPrivate_same: "\<not> snd (replaceGeoIPPrivate v) \<Longrightarrow> fst (replaceGeoIPPrivate v) = v"
  by (auto simp: replaceGeoIPPrivate_def split: option.splits if_splits)

lemma replaceGeoIPPrivate_id: "private_free (Some v) \<Longrightarrow> replaceGeoIPPrivate v = (v, False)"
  by (auto simp: replaceGeoIPPrivate_def private_free_def split: option.splits)

lemma replace_at_fst: "fst (replace_at k (obj, b)) = (case obj k of None \<Rightarrow> obj | Some v \<Rightarrow> obj(k \<mapsto> fst (replaceGeoIPPrivate v)))"
proof (cases "obj k")
  case None
  then show ?thesis by (simp add: replace_at_def)
next
  case (Some v)
  obtain w ch where w: "replaceGeoIPPrivate v = (w, ch)" by fastforce
  moreover have "w = v" if "\<not> ch" using replaceGeoIPPrivate_same [of v] w that by simp
  ultimately show ?thesis using Some by (cases ch) (simp_all add: replace_at_def fun_upd_idem)
qed

lemma replace_at_snd: "\<not> snd (replace_at k (obj, b)) \<Longrightarrow> \<not> b \<and> fst (replace_at k (obj, b)) = obj"
  by (auto simp: replace_at_def split: option.splits prod.splits if_splits)

lemma replace_at_id: "private_free (obj k) \<Longrightarrow> replace_at k (obj, b) = (obj, b)"
  by (auto simp: replace_at_def replaceGeoIPPrivate_id split: option.splits)

lemma replace_at_free: "private_free (fst (replace_at k (obj, b)) k)"
proof (cases "obj k")
  case None
  then show ?thesis by (simp add: replace_at_fst private_free_def)
next
  case (Some v)
  then show ?thesis using replaceGeoIPPrivate_free [of v] by (simp add: replace_at_fst)
qed

lemma replace_at_other: "k' \<noteq> k \<Longrightarrow> fst (replace_at k (obj, b)) k' = obj k'"
  by (auto simp: replace_at_fst split: option.splits)

lemma spelled_out_eq: "fst (replace_at ''source'' (replace_at ''ip'' (obj, b))) = spelled_out obj"
proof -
  have "fst (replace_at k (obj, b)) = obj(k := map_option spell (obj k))" for k b and obj :: jmap
    by (simp add: replace_at_fst replaceGeoIPPrivate_spell fun_upd_idem split: option.split)
  then show ?thesis by (subst prod.collapse [symmetric]) (auto simp: spelled_out_def fun_eq_iff simp del: prod.collapse)
qed

lemma spell_free: "private_free (map_option spell v)"
  using replaceGeoIPPrivate_free by (cases v) (simp_all add: replaceGeoIPPrivate_spell private_free_def)

lemma spelled_out_free: "private_free (spelled_out obj ''ip'')" "private_free (spelled_out obj ''source'')"
  by (simp_all add: spelled_out_def spell_free)

lemma spelled_out_other: "k \<noteq> ''ip'' \<Longrightarrow> k \<noteq> ''source'' \<Longrightarrow> spelled_out obj k = obj k"
  by (simp add: spelled_out_def)

lemma own_spelled_out [simp]: "own_rule tag (spelled_out obj) = own_rule tag obj"
  by (simp add: own_rule_def spelled_out_other)

lemma normalize_step:
  assumes "codec_ok J" "fst J raw = Inr obj"
  obtains raw' where "normalizeGeoIPPrivateRules J (raw # rules) = map_sum id ((#) raw') (normalizeGeoIPPrivateRules J rules)"
    "fst J raw' = Inr (spelled_out obj)"
proof -
  obtain o2 ch where o2: "replace_at ''source'' (replace_at ''ip'' (obj, False)) = (o2, ch)" by fastforce
  then have so: "o2 = spelled_out obj" using spelled_out_eq [of obj False] by simp
  show ?thesis
  proof (cases ch)
    case True
    obtain raw' where "snd J o2 = Inr raw'" "fst J raw' = Inr o2" using assms(1) by (auto simp: codec_ok_def)
    with True o2 assms(2) so show ?thesis by (intro that [of raw']) simp_all
  next
    case False
    then have "o2 = obj" using o2 replace_at_snd by (metis fst_conv prod.collapse snd_conv)
    with False o2 assms(2) so show ?thesis by (intro that [of raw]) simp_all
  qed
qed

lemma normalize_spec:
  assumes "codec_ok J" "normalizeGeoIPPrivateRules J rules = Inr out"
  shows "map (rule_of J) out = map (\<lambda>raw. spelled_out (rule_of J raw)) rules \<and>
    list_all (\<lambda>raw. fst J raw = Inr (rule_of J raw)) out"
  using assms(2)
proof (induction rules arbitrary: out)
  case (Cons raw rules)
  then obtain obj where obj: "fst J raw = Inr obj" by (auto split: sum.splits)
  obtain raw' where raw': "normalizeGeoIPPrivateRules J (raw # rules) = map_sum id ((#) raw') (normalizeGeoIPPrivateRules J rules)"
    "fst J raw' = Inr (spelled_out obj)" using normalize_step [OF assms(1) obj] by blast
  from raw'(1) Cons.prems obtain out' where "normalizeGeoIPPrivateRules J rules = Inr out'" "out = raw' # out'"
    by (cases "normalizeGeoIPPrivateRules J rules") auto
  with Cons.IH raw'(2) obj show ?case by (simp add: rule_of_def)
qed simp

definition settled :: "'r rule_codec \<Rightarrow> 'r \<Rightarrow> bool" where
  "settled J raw \<longleftrightarrow> fst J raw = Inr (rule_of J raw) \<and> private_free (rule_of J raw ''ip'') \<and> private_free (rule_of J raw ''source'')"

lemma normalize_settled: "list_all (settled J) rules \<Longrightarrow> normalizeGeoIPPrivateRules J rules = Inr rules"
proof (induction rules)
  case (Cons raw rules)
  then have "replace_at ''source'' (replace_at ''ip'' (rule_of J raw, False)) = (rule_of J raw, False)"
    by (simp add: settled_def replace_at_id)
  with Cons show ?case by (simp add: settled_def)
qed simp

lemma normalize_append:
  "normalizeGeoIPPrivateRules J (xs @ ys) =
     (case normalizeGeoIPPrivateRules J xs of
        Inl e \<Rightarrow> Inl e
      | Inr xs' \<Rightarrow> map_sum id ((@) xs') (normalizeGeoIPPrivateRules J ys))"
proof (induction xs)
  case Nil
  show ?case by (cases "normalizeGeoIPPrivateRules J ys") simp_all
next
  case (Cons raw rules)
  show ?case
    by (cases "normalizeGeoIPPrivateRules J rules"; cases "normalizeGeoIPPrivateRules J ys")
      (simp_all add: Cons split: sum.split prod.split)
qed

lemma normalize_ok:
  assumes "codec_ok J" "list_all (\<lambda>raw. \<exists>obj. fst J raw = Inr obj) rules"
  shows "\<exists>out. normalizeGeoIPPrivateRules J rules = Inr out"
  using assms(2)
proof (induction rules)
  case (Cons raw rules)
  then obtain obj out where "fst J raw = Inr obj" "normalizeGeoIPPrivateRules J rules = Inr out" by auto
  then show ?case using normalize_step [OF assms(1), of raw obj rules] by (metis map_sum.simps(2))
qed simp

lemma filterRules_spec:
  "list_all (\<lambda>raw. fst J raw = Inr (rule_of J raw)) rules \<Longrightarrow>
   filterRules J tag rules = Inr (filter (\<lambda>raw. \<not> own_rule tag (rule_of J raw)) rules)"
  by (induction rules) auto



section \<open>What a successful preparation is made of\<close>

definition rules_in :: "'r xray_config \<Rightarrow> 'r list" where
  "rules_in c = (case xc_Router c of None \<Rightarrow> [] | Some r \<Rightarrow> rt_RuleList r)"

definition router_in :: "'r xray_config \<Rightarrow> 'r router_config" where
  "router_in c = (case xc_Router c of None \<Rightarrow> \<lparr>rt_RuleList = [], rt_rest = JNull\<rparr> | Some r \<Rightarrow> r)"

lemma rules_router: "rt_RuleList (router_in c) = rules_in c"
  by (simp add: rules_in_def router_in_def split: option.split)

definition checked_policy :: "policy_config option \<Rightarrow> policy_config option" where
  "checked_policy po =
     (let sys = (case Option.bind po po_System of
                   None \<Rightarrow> \<lparr>sy_StatsInboundUplink = False, sy_StatsInboundDownlink = False,
                            sy_StatsOutboundUplink = True, sy_StatsOutboundDownlink = True\<rparr>
                 | Some s \<Rightarrow> s\<lparr>sy_StatsOutboundDownlink := True, sy_StatsOutboundUplink := True\<rparr>)
      in map_option (\<lambda>m. \<lparr>po_Levels = Some m, po_System = Some sys\<rparr>) (check_levels (Option.bind po po_Levels)))"

lemma checkPolicy_alt: "checkPolicy c = map_option (\<lambda>p. c\<lparr>xc_Policy := Some p\<rparr>) (checked_policy (xc_Policy c))"
  by (cases "xc_Policy c") (simp_all add: checkPolicy_def checked_policy_def option.map_comp comp_def Let_def)

definition statistics_on :: "policy_config \<Rightarrow> bool" where
  "statistics_on p =
     (case (po_Levels p, po_System p) of
        (Some m, Some sys) \<Rightarrow>
          sy_StatsOutboundUplink sys \<and> sy_StatsOutboundDownlink sys \<and>
          (case m 0 of Some (Some level) \<Rightarrow> pl_StatsUserUplink level \<and> pl_StatsUserDownlink level | _ \<Rightarrow> False)
      | _ \<Rightarrow> False)"

lemma check_levels_on:
  "check_levels levels = Some m \<Longrightarrow> \<exists>level. m 0 = Some (Some level) \<and> pl_StatsUserUplink level \<and> pl_StatsUserDownlink level"
  by (auto simp: check_levels_def stats_level_def Let_def split: option.splits)

lemma check_levels_id:
  "m 0 = Some (Some level) \<Longrightarrow> pl_StatsUserUplink level \<Longrightarrow> pl_StatsUserDownlink level \<Longrightarrow> check_levels (Some m) = Some m"
  by (cases level) (simp add: check_levels_def fun_upd_idem)

lemma checked_policy_def2:
  "checked_policy po = Some p \<longleftrightarrow>
     (\<exists>m. check_levels (Option.bind po po_Levels) = Some m \<and> po_Levels p = Some m \<and>
        po_System p = Some (case Option.bind po po_System of
          None \<Rightarrow> \<lparr>sy_StatsInboundUplink = False, sy_StatsInboundDownlink = False,
                   sy_StatsOutboundUplink = True, sy_StatsOutboundDownlink = True\<rparr>
        | Some s \<Rightarrow> s\<lparr>sy_StatsOutboundDownlink := True, sy_StatsOutboundUplink := True\<rparr>))"
  by (cases po; cases p) (auto simp: checked_policy_def Let_def)

lemma checked_policy_on: "checked_policy po = Some p \<Longrightarrow> statistics_on p"
  by (auto simp: checked_policy_def2 statistics_on_def dest!: check_levels_on split: option.split)

lemma statistics_on_fixed:
  assumes "statistics_on p"
  shows "checked_policy (Some p) = Some p"
proof -
  obtain m sys level where f: "po_Levels p = Some m" "po_System p = Some sys" "m 0 = Some (Some level)"
    "sy_StatsOutboundUplink sys" "sy_StatsOutboundDownlink sys" "pl_StatsUserUplink level" "pl_StatsUserDownlink level"
    using assms by (auto simp: statistics_on_def split: option.splits)
  then have "sys\<lparr>sy_StatsOutboundDownlink := True, sy_StatsOutboundUplink := True\<rparr> = sys" by (cases sys) simp
  with f show ?thesis by (simp add: checked_policy_def2 check_levels_id)
qed

definition tidy :: "json \<Rightarrow> jmap option \<Rightarrow> jmap option" where
  "tidy outs s =
     (let byTag = (case as_list (Some outs) of None \<Rightarrow> Map.empty | Some raws \<Rightarrow> foldl put_outbound Map.empty raws)
      in if byTag = Map.empty then s else sanitize_section byTag s)"

lemma sanitize_alt: "sanitizeObservatorySelectors c =
    c\<lparr>xc_Observatory := tidy (xc_Outbounds c) (xc_Observatory c), xc_BurstObservatory := tidy (xc_Outbounds c) (xc_BurstObservatory c)\<rparr>"
  by (simp add: sanitizeObservatorySelectors_def tidy_def outboundProtocolByTag_def Let_def)

lemma tidy_idem [simp]: "tidy outs (tidy outs s) = tidy outs s"
  by (auto simp: tidy_def sanitize_section_def Let_def as_list_Some split: option.splits)

definition own_rules :: "string + host_iface list \<Rightarrow> 'r xray_config \<Rightarrow> jmap list" where
  "own_rules ifaces c = api_rule (apiRuleSources ifaces) #
     (if blackholeOutboundTag c = [] then [] else [malformedDomainGuardRule (blackholeOutboundTag c)])"

lemma blackhole_outbounds: "xc_Outbounds c = xc_Outbounds c' \<Longrightarrow> blackholeOutboundTag c = blackholeOutboundTag c'"
  by (simp add: blackholeOutboundTag_def outboundProtocolByTag_def)

lemma prepend_outbounds:
  assumes "xc_Outbounds c = xc_Outbounds c'"
  shows "prepend_rules J ifaces c = prepend_rules J ifaces c'"
  unfolding prepend_rules_def blackhole_outbounds [OF assms] ..

lemma prepend_rules_own:
  assumes "codec_ok J" "prepend_rules J ifaces c = Inr new"
  shows "map (rule_of J) new = own_rules ifaces c \<and> list_all (\<lambda>raw. fst J raw = Inr (rule_of J raw)) new"
proof -
  obtain a g where "snd J (api_rule (apiRuleSources ifaces)) = Inr a" "fst J a = Inr (api_rule (apiRuleSources ifaces))"
    "snd J (malformedDomainGuardRule (blackholeOutboundTag c)) = Inr g" "fst J g = Inr (malformedDomainGuardRule (blackholeOutboundTag c))"
    using assms(1) by (metis codec_ok_def)
  with assms(2) show ?thesis by (auto simp: prepend_rules_def own_rules_def rule_of_def Let_def split: if_splits)
qed

lemma own_rules_own: "list_all (own_rule ''API'') (own_rules ifaces c)"
  by (simp add: own_rules_def own_rule_def api_rule_def malformedDomainGuardRule_def)

abbreviation api_access :: "int \<Rightarrow> int \<Rightarrow> inbound list \<Rightarrow> 'r list \<Rightarrow> policy_config \<Rightarrow> 'r xray_config \<Rightarrow> 'r xray_config" where
  "api_access ap mp is rules pol c \<equiv>
     c\<lparr>xc_Router := Some (router_in c\<lparr>rt_RuleList := rules\<rparr>), xc_Inbounds := api_inbound ap # is, xc_Policy := Some pol,
       xc_API := Some \<lparr>ap_Tag = ''API'', ap_Services = [''HandlerService'', ''LoggerService'', ''StatsService'']\<rparr>,
       xc_Metrics := Some [''tag'' \<mapsto> JStr ''metric'', ''listen'' \<mapsto> JStr (loopbackListenAddress mp)],
       xc_Observatory := tidy (xc_Outbounds c) (xc_Observatory c), xc_BurstObservatory := tidy (xc_Outbounds c) (xc_BurstObservatory c)\<rparr>"

lemma map_sum_Inr: "map_sum f g s = Inr y \<longleftrightarrow> (\<exists>x. s = Inr x \<and> y = g x)"
  by (cases s) auto

lemma ApplyAPI_cases:
  "ApplyAPI J ifaces ap mp c = Some (Inr c') \<longleftrightarrow>
     (\<exists>is rules kept pol new.
        remove_api (length (xc_Inbounds c)) 0 (xc_Inbounds c) (length (xc_Inbounds c)) = Some is \<and>
        normalizeGeoIPPrivateRules J (rules_in c) = Inr rules \<and> filterRules J ''API'' rules = Inr kept \<and>
        checked_policy (xc_Policy c) = Some pol \<and> prepend_rules J ifaces c = Inr new \<and>
        c' = api_access ap mp is (new @ kept) pol c)"
proof -
  let ?d = "\<lambda>is. sanitizeObservatorySelectors (c\<lparr>xc_Inbounds := is,
      xc_API := Some \<lparr>ap_Tag = ''API'', ap_Services = [''HandlerService'', ''LoggerService'', ''StatsService'']\<rparr>,
      xc_Metrics := Some [''tag'' \<mapsto> JStr ''metric'', ''listen'' \<mapsto> JStr (loopbackListenAddress mp)]\<rparr>)"
  have d: "xc_Router (?d is) = xc_Router c" "xc_Policy (?d is) = xc_Policy c" "xc_Inbounds (?d is) = is"
    "xc_Outbounds (?d is) = xc_Outbounds c" "router_in (?d is) = router_in c" "rules_in (?d is) = rules_in c" for "is"
    by (simp_all add: sanitize_alt router_in_def rules_in_def)
  have p: "prepend_rules J ifaces (?d is\<lparr>xc_Policy := p, xc_Inbounds := b\<rparr>) = prepend_rules J ifaces c" for "is" p b
    by (rule prepend_outbounds) (simp add: d)
  have fin: "?d is\<lparr>xc_Policy := Some pol, xc_Inbounds := api_inbound ap # is, xc_Router := Some (router_in c\<lparr>rt_RuleList := l\<rparr>)\<rparr> =
    api_access ap mp is l pol c" for "is" pol l by (simp add: sanitize_alt)
  have all: "ApplyAPI J ifaces ap mp c = Some (Inr c') \<longleftrightarrow>
     (\<exists>is rules kept pol new.
        remove_api (length (xc_Inbounds c)) 0 (xc_Inbounds c) (length (xc_Inbounds c)) = Some is \<and>
        normalizeGeoIPPrivateRules J (rules_in c) = Inr rules \<and> filterRules J ''API'' rules = Inr kept \<and>
        checked_policy (xc_Policy c) = Some pol \<and> prepend_rules J ifaces c = Inr new \<and>
        c' = ?d is\<lparr>xc_Policy := Some pol, xc_Inbounds := api_inbound ap # is, xc_Router := Some (router_in c\<lparr>rt_RuleList := new @ kept\<rparr>)\<rparr>)"
    unfolding ApplyAPI_def Let_def router_in_def [symmetric] rules_router checkPolicy_alt
    by (auto simp: d p map_sum_Inr split: option.splits sum.splits)
  show ?thesis using all unfolding fin .
qed

section \<open>The theorem\<close>

lemma kept_rules:
  assumes "codec_ok J" "normalizeGeoIPPrivateRules J rules = Inr out" "filterRules J ''API'' out = Inr kept"
  shows "map (rule_of J) kept = filter (\<lambda>obj. \<not> own_rule ''API'' obj) (map (\<lambda>raw. spelled_out (rule_of J raw)) rules)"
    and "list_all (settled J) kept" and "\<forall>raw \<in> set kept. \<not> own_rule ''API'' (rule_of J raw)"
proof -
  have n: "map (rule_of J) out = map (\<lambda>raw. spelled_out (rule_of J raw)) rules" "list_all (\<lambda>raw. fst J raw = Inr (rule_of J raw)) out"
    using normalize_spec [OF assms(1,2)] by auto
  have k: "kept = filter (\<lambda>raw. \<not> own_rule ''API'' (rule_of J raw)) out"
    using filterRules_spec [OF n(2), of "''API''"] assms(3) by simp
  show "map (rule_of J) kept = filter (\<lambda>obj. \<not> own_rule ''API'' obj) (map (\<lambda>raw. spelled_out (rule_of J raw)) rules)"
    unfolding k n(1) [symmetric] by (simp add: filter_map comp_def)
  have "settled J raw" if "raw \<in> set out" for raw
  proof -
    have "rule_of J raw \<in> set (map (\<lambda>raw. spelled_out (rule_of J raw)) rules)" using that n(1) by (metis image_eqI list.set_map)
    then show ?thesis using that n(2) spelled_out_free by (auto simp: settled_def list_all_iff)
  qed
  then show "list_all (settled J) kept" by (simp add: k list_all_iff)
  show "\<forall>raw \<in> set kept. \<not> own_rule ''API'' (rule_of J raw)" by (simp add: k)
qed

lemma ApplyAPI_idem:
  assumes J: "codec_ok J" and one: "length (filter is_api (xc_Inbounds c)) \<le> 1"
    and r: "ApplyAPI J ifaces ap mp c = Some (Inr c')"
  shows "ApplyAPI J ifaces ap mp c' = Some (Inr c')"
proof -
  from r obtain "is" rules kept pol new where f:
    "remove_api (length (xc_Inbounds c)) 0 (xc_Inbounds c) (length (xc_Inbounds c)) = Some is"
    "normalizeGeoIPPrivateRules J (rules_in c) = Inr rules" "filterRules J ''API'' rules = Inr kept"
    "checked_policy (xc_Policy c) = Some pol" "prepend_rules J ifaces c = Inr new"
    "c' = api_access ap mp is (new @ kept) pol c" unfolding ApplyAPI_cases by blast
  have "is": "is = filter (\<lambda>i. \<not> is_api i) (xc_Inbounds c)" using f(1) remove_api_filter [OF one] by simp
  have rem: "remove_api (length (xc_Inbounds c')) 0 (xc_Inbounds c') (length (xc_Inbounds c')) = Some is"
    using remove_api_filter [OF filter_api_idem [of ap "xc_Inbounds c"]] by (simp add: f(6) "is" is_api_def api_inbound_def)
  note kept = kept_rules [OF J f(2,3)] and new = prepend_rules_own [OF J f(5)]
  have dec: "list_all (\<lambda>raw. \<exists>obj. fst J raw = Inr obj) new" using new by (auto simp: list_all_iff)
  obtain new' where new': "normalizeGeoIPPrivateRules J new = Inr new'" using normalize_ok [OF J dec] by blast
  then have norm: "normalizeGeoIPPrivateRules J (rules_in c') = Inr (new' @ kept)"
    by (simp add: f(6) rules_in_def normalize_append normalize_settled [OF kept(2)])
  have n': "map (rule_of J) new' = map (\<lambda>raw. spelled_out (rule_of J raw)) new" "list_all (\<lambda>raw. fst J raw = Inr (rule_of J raw)) new'"
    using normalize_spec [OF J new'] by auto
  have own: "own_rule ''API'' (rule_of J raw)" if "raw \<in> set new'" for raw
  proof -
    have "rule_of J raw \<in> set (map (\<lambda>raw. spelled_out (rule_of J raw)) new)" using that n'(1) by (metis image_eqI list.set_map)
    then obtain raw0 where "raw0 \<in> set new" "rule_of J raw = spelled_out (rule_of J raw0)" by auto
    moreover have "rule_of J raw0 \<in> set (own_rules ifaces c)" using new \<open>raw0 \<in> set new\<close> by (metis image_eqI list.set_map)
    ultimately show ?thesis using own_rules_own [of ifaces c] by (simp add: list_all_iff)
  qed
  have "filterRules J ''API'' (new' @ kept) = Inr (filter (\<lambda>raw. \<not> own_rule ''API'' (rule_of J raw)) (new' @ kept))"
    using n'(2) kept(2) by (intro filterRules_spec) (auto simp: list_all_iff settled_def)
  also have "filter (\<lambda>raw. \<not> own_rule ''API'' (rule_of J raw)) (new' @ kept) = kept"
    using own kept(3) by (simp add: filter_empty_conv filter_id_conv)
  finally have filt: "filterRules J ''API'' (new' @ kept) = Inr kept" .
  have pol: "checked_policy (xc_Policy c') = Some pol"
    using statistics_on_fixed [OF checked_policy_on [OF f(4)]] by (simp add: f(6))
  have pre: "prepend_rules J ifaces c' = Inr new"
    using f(5) prepend_outbounds [of c' c J ifaces] by (simp add: f(6))
  have "api_access ap mp is (new @ kept) pol c' = c'" by (simp add: f(6) router_in_def)
  with rem norm filt pol pre show ?thesis unfolding ApplyAPI_cases by metis
qed

text \<open>
  C31: Preparing a configuration that brings at most one API inbound of its own keeps the other inbounds
  in order behind the node's own one. The routing rules afterwards are the node's own, then the user's
  in their order, where each entry that names the private addresses is replaced by the fifteen networks
  it stands for and no rule is left that leads to the API or carries the guard's tag; traffic statistics of users and outbounds are on. Preparing the result again changes nothing, so
  a configuration can go through the node any number of times.
\<close>

theorem ApplyAPI_prepares:
  assumes "codec_ok J" "length (filter is_api (xc_Inbounds c)) \<le> 1" "ApplyAPI J ifaces ap mp c = Some (Inr c')"
  shows "xc_Inbounds c' = api_inbound ap # filter (\<lambda>i. \<not> is_api i) (xc_Inbounds c) \<and>
    map (rule_of J) (rules_in c') = own_rules ifaces c @
      filter (\<lambda>obj. \<not> nodes_own obj) (map (\<lambda>raw. spelled_out (rule_of J raw)) (rules_in c)) \<and>
    (\<exists>pol. xc_Policy c' = Some pol \<and> statistics_on pol) \<and>
    ApplyAPI J ifaces ap mp c' = Some (Inr c')"
proof -
  from assms(3) obtain "is" rules kept pol new where f:
    "remove_api (length (xc_Inbounds c)) 0 (xc_Inbounds c) (length (xc_Inbounds c)) = Some is"
    "normalizeGeoIPPrivateRules J (rules_in c) = Inr rules" "filterRules J ''API'' rules = Inr kept"
    "checked_policy (xc_Policy c) = Some pol" "prepend_rules J ifaces c = Inr new"
    "c' = api_access ap mp is (new @ kept) pol c" unfolding ApplyAPI_cases by blast
  have "rules_in c' = new @ kept" by (simp add: f(6) rules_in_def)
  then have "map (rule_of J) (rules_in c') = own_rules ifaces c @
      filter (\<lambda>obj. \<not> nodes_own obj) (map (\<lambda>raw. spelled_out (rule_of J raw)) (rules_in c))"
    using prepend_rules_own [OF assms(1) f(5)] kept_rules(1) [OF assms(1) f(2,3)] by (simp add: nodes_own_eq)
  moreover have "xc_Inbounds c' = api_inbound ap # filter (\<lambda>i. \<not> is_api i) (xc_Inbounds c)"
    using f(1,6) remove_api_filter [OF assms(2)] by simp
  moreover have "\<exists>pol. xc_Policy c' = Some pol \<and> statistics_on pol"
    using f(6) checked_policy_on [OF f(4)] by simp
  ultimately show ?thesis using ApplyAPI_idem [OF assms] by blast
qed


definition demo_codec :: "jmap rule_codec" where
  "demo_codec = (Inr, Inr)"

definition demo_inbound :: "string \<Rightarrow> string \<Rightarrow> inbound" where
  "demo_inbound tag protocol = \<lparr>in_Tag = tag, in_Listen = [], in_Port = JNum ''443'', in_Protocol = protocol, in_Settings = None,
     in_rest = JNull, in_exclude = False, in_clients = Some Map.empty\<rparr>"

definition demo_rule :: jmap where
  "demo_rule = [''ip'' \<mapsto> JArr [JStr ''GeoIP:private'', JStr ''1.1.1.1''], ''outboundTag'' \<mapsto> JStr ''direct'']"

definition demo_config :: "jmap xray_config" where
  "demo_config = \<lparr>xc_Log = None, xc_Router = Some \<lparr>rt_RuleList = [demo_rule], rt_rest = JNull\<rparr>,
     xc_Inbounds = [demo_inbound ''vl'' ''vless'', demo_inbound ''API_INBOUND'' ''dokodemo-door'', demo_inbound ''tr'' ''trojan''],
     xc_Outbounds = JNull, xc_Policy = None, xc_API = None, xc_Metrics = None, xc_Observatory = None, xc_BurstObservatory = None,
     xc_rest = JNull\<rparr>"

lemma demo_codec_ok: "codec_ok demo_codec"
  by (simp add: codec_ok_def demo_codec_def)

lemma demo_one_api: "length (filter is_api (xc_Inbounds demo_config)) \<le> 1"
  by (simp add: demo_config_def demo_inbound_def is_api_def)

lemma demo_prepared: "\<exists>c'. ApplyAPI demo_codec (Inl []) 1 2 demo_config = Some (Inr c')"
proof -
  have black: "blackholeOutboundTag demo_config = []"
    by (simp add: blackholeOutboundTag_def outboundProtocolByTag_def demo_config_def)
  obtain rules where rules: "normalizeGeoIPPrivateRules demo_codec (rules_in demo_config) = Inr rules"
    using normalize_ok [OF demo_codec_ok, of "rules_in demo_config"] by (auto simp: demo_codec_def list_all_iff)
  have "list_all (\<lambda>raw. fst demo_codec raw = Inr (rule_of demo_codec raw)) rules"
    using normalize_spec [OF demo_codec_ok rules] by simp
  note kept = filterRules_spec [OF this, of "''API''"]
  have "\<exists>pol. checked_policy (xc_Policy demo_config) = Some pol"
    by (simp add: checked_policy_def demo_config_def check_levels_def Let_def)
  moreover have "\<exists>new. prepend_rules demo_codec (Inl []) demo_config = Inr new"
    by (simp add: prepend_rules_def black demo_codec_def)
  ultimately show ?thesis unfolding ApplyAPI_cases using remove_api_filter [OF demo_one_api] rules kept by metis
qed

theorem ApplyAPI_prepares_witness:
  "\<exists>c'. ApplyAPI demo_codec (Inl []) 1 2 demo_config = Some (Inr c') \<and>
     map in_Tag (xc_Inbounds c') = [''API_INBOUND'', ''vl'', ''tr''] \<and> length (rules_in c') = 2 \<and>
     rule_of demo_codec (rules_in c' ! 1) =
       [''ip'' \<mapsto> JArr (private_networks @ [JStr ''1.1.1.1'']), ''outboundTag'' \<mapsto> JStr ''direct''] \<and>
     ApplyAPI demo_codec (Inl []) 1 2 c' = Some (Inr c')"
proof -
  obtain c' where c': "ApplyAPI demo_codec (Inl []) 1 2 demo_config = Some (Inr c')" using demo_prepared by blast
  note t = ApplyAPI_prepares [OF demo_codec_ok demo_one_api c']
  have "rules_in demo_config = [demo_rule]" by (simp add: rules_in_def demo_config_def)
  moreover have low: "ToLower ''GeoIP:private'' = ''geoip:private''" "ToLower ''1.1.1.1'' \<noteq> ''geoip:private''" by code_simp+
  moreover have "spelled_out (rule_of demo_codec demo_rule) =
      [''ip'' \<mapsto> JArr (private_networks @ [JStr ''1.1.1.1'']), ''outboundTag'' \<mapsto> JStr ''direct'']"
    using low by (auto simp: spelled_out_def demo_rule_def rule_of_def demo_codec_def fun_eq_iff)
  moreover have "\<not> nodes_own [''ip'' \<mapsto> JArr (private_networks @ [JStr ''1.1.1.1'']), ''outboundTag'' \<mapsto> JStr ''direct'']"
    by (simp add: nodes_own_def)
  moreover have "blackholeOutboundTag demo_config = []"
    by (simp add: blackholeOutboundTag_def outboundProtocolByTag_def demo_config_def)
  ultimately have all: "map (rule_of demo_codec) (rules_in c') = [api_rule (apiRuleSources (Inl [])),
      [''ip'' \<mapsto> JArr (private_networks @ [JStr ''1.1.1.1'']), ''outboundTag'' \<mapsto> JStr ''direct'']]"
    using conjunct1 [OF conjunct2 [OF t]] by (simp add: own_rules_def del: fun_upd_apply)
  then have "length (map (rule_of demo_codec) (rules_in c')) = 2" by simp
  then have two: "length (rules_in c') = 2" by simp
  moreover have "rule_of demo_codec (rules_in c' ! 1) = map (rule_of demo_codec) (rules_in c') ! 1" by (simp add: two)
  then have "rule_of demo_codec (rules_in c' ! 1) =
      [''ip'' \<mapsto> JArr (private_networks @ [JStr ''1.1.1.1'']), ''outboundTag'' \<mapsto> JStr ''direct'']" by (simp add: all)
  moreover have "map in_Tag (xc_Inbounds c') = [''API_INBOUND'', ''vl'', ''tr'']"
    using conjunct1 [OF t] by (simp add: demo_config_def demo_inbound_def is_api_def api_inbound_def)
  moreover have "ApplyAPI demo_codec (Inl []) 1 2 c' = Some (Inr c')" using t by (elim conjE)
  ultimately show ?thesis using c' by (intro exI [of _ c'] conjI)
qed

text \<open>
  Two API inbounds break the loop: when the last inbound is one of them the node panics, and when two
  follow each other one of them stays.
\<close>

lemma second_api_inbound_panics:
  "remove_api 2 0 [demo_inbound ''API_INBOUND'' p, demo_inbound ''API_INBOUND'' q] 2 = None"
  by (simp add: remove_api.simps demo_inbound_def)

lemma second_api_inbound_stays:
  "remove_api 3 0 [demo_inbound ''API_INBOUND'' p, demo_inbound ''API_INBOUND'' q, demo_inbound ''vl'' r] 3 =
     Some [demo_inbound ''API_INBOUND'' q, demo_inbound ''vl'' r]"
  by (simp add: remove_api.simps demo_inbound_def)

end
