(* ===== verification/Xray_Users.thy ===== *)
theory Xray_Users
  imports Xray_Rules
begin

text \<open>
  The users of the Xray backend: what a user is entitled to at an inbound, that a synchronisation
  through the API leaves the configuration and the running process with exactly that, and that one with
  a restart either runs the new configuration or leaves the old one in place.
\<close>

section \<open>What a user is entitled to\<close>

text \<open>
  Nothing at an inbound that is not listed for the user; otherwise the account of the inbound's
  protocol, with the user's e-mail and the secret the user has for that protocol, if there is one (for
  Vless and Vmess: one that is an identifier).
\<close>

definition entitled_account :: "(string \<Rightarrow> string option) \<Rightarrow> inbound \<Rightarrow> user \<Rightarrow> account option" where
  "entitled_account uuid i u =
     (if in_Tag i \<notin> set (GetInbounds u) then None
      else if in_Protocol i = ''vless'' then
        (case GetVless (GetProxies u) of
           None \<Rightarrow> None
         | Some v \<Rightarrow> (case uuid (vl_Id v) of None \<Rightarrow> None | Some d \<Rightarrow> Some (VlessAccount (GetEmail u) 0 d (vl_Flow v))))
      else if in_Protocol i = ''vmess'' then
        (case GetVmess (GetProxies u) of
           None \<Rightarrow> None
         | Some v \<Rightarrow> (case uuid (vm_Id v) of None \<Rightarrow> None | Some d \<Rightarrow> Some (VmessAccount (GetEmail u) 0 d)))
      else if in_Protocol i = ''trojan'' then
        (case GetTrojan (GetProxies u) of None \<Rightarrow> None | Some t \<Rightarrow> Some (TrojanAccount (GetEmail u) 0 (tr_Password t)))
      else if in_Protocol i = ''shadowsocks'' then
        (case GetShadowsocks (GetProxies u) of
           None \<Rightarrow> None
         | Some k \<Rightarrow>
            (if is_2022 i then Some (ShadowsocksAccount (GetEmail u) 0 (EnsureBase64Password (ss_Password k) (the (in_method i))))
             else Some (ShadowsocksTcpAccount (GetEmail u) 0 (ss_Password k)
                    (if CipherType_value (ss_Method k) = None then CipherType_name 9 else ss_Method k))))
      else if in_Protocol i = ''hysteria'' then
        (case GetHysteria (GetProxies u) of None \<Rightarrow> None | Some h \<Rightarrow> Some (HysteriaAccount (GetEmail u) 0 (hy_Auth h)))
      else None)"

text \<open>The code gets there by way of the accounts of all protocols.\<close>

lemma entitled_account_eq: "entitled_account uuid i u = isActiveInbound i (GetInbounds u) (setupUserAccount uuid u)"
  by (auto simp: entitled_account_def isActiveInbound_def setupUserAccount_def NewVmessAccount_def NewVlessAccount_def
      NewTrojanAccount_def NewShadowsocksAccount_def NewShadowsocksTcpAccount_def NewHysteriaAccount_def field_def Let_def
      split: option.split)

text \<open>For Shadowsocks 2022 the cipher has a fixed key length, so that a prepared key is not prepared again.\<close>

definition sound_method :: "inbound \<Rightarrow> bool" where
  "sound_method i \<longleftrightarrow> (is_2022 i \<longrightarrow> fixed_key (the (in_method i)))"

lemmas account_defs = NewVmessAccount_def NewVlessAccount_def NewTrojanAccount_def NewShadowsocksAccount_def
  NewShadowsocksTcpAccount_def NewHysteriaAccount_def

lemma entitled_account_fits:
  assumes "entitled_account uuid i u = Some a"
  shows "acc_GetEmail a = GetEmail u" and "account_fits i a"
  using assms
  by (auto simp: entitled_account_eq isActiveInbound_def setupUserAccount_def account_defs Let_def split: if_splits)

lemma entitled_account_stored:
  assumes "entitled_account uuid i u = Some a" "sound_method i" "in_method i = Some method"
  shows "checkShadowsocks2022 method a = a"
proof (cases "in_Protocol i = ''shadowsocks'' \<and> is_2022 i")
  case True
  then have "a = checkShadowsocks2022 method (NewShadowsocksAccount u)" "fixed_key method"
    using assms by (auto simp: entitled_account_eq isActiveInbound_def setupUserAccount_def sound_method_def Let_def split: if_splits)
  then show ?thesis by (simp add: NewShadowsocksAccount_def EnsureBase64Password_idem)
next
  case False
  with entitled_account_fits(2) [OF assms(1)] show ?thesis by (cases a) auto
qed

lemma sync_client_entitled:
  "sync_client uuid i clients u =
     (case entitled_account uuid i u of None \<Rightarrow> clients | Some a \<Rightarrow> clients(GetEmail u \<mapsto> a))"
  by (simp add: sync_client_def entitled_account_eq isActiveInbound_def setupUserAccount_def Let_def)

text \<open>What a list of users leaves of a table, the last mention of an e-mail counting.\<close>

fun granted :: "(string \<Rightarrow> string option) \<Rightarrow> inbound \<Rightarrow> user list \<Rightarrow> string \<rightharpoonup> account option" where
  "granted uuid i [] = Map.empty"
| "granted uuid i (u # us) = [GetEmail u \<mapsto> entitled_account uuid i u] ++ granted uuid i us"

definition changed :: "(string \<rightharpoonup> 'a option) \<Rightarrow> (string \<rightharpoonup> 'a) \<Rightarrow> (string \<rightharpoonup> 'a)" where
  "changed d m = (\<lambda>e. case d e of None \<Rightarrow> m e | Some r \<Rightarrow> r)"

lemma changed_empty [simp]: "changed Map.empty m = m"
  by (simp add: changed_def)

lemma changed_single: "changed [e \<mapsto> r] m = m(e := r)"
  by (auto simp: changed_def)

lemma changed_add: "changed (d ++ d') m = changed d' (changed d m)"
  by (auto simp: changed_def map_add_def split: option.split)

lemma granted_distinct:
  assumes "distinct (map GetEmail users)" "u \<in> set users"
  shows "granted uuid i users (GetEmail u) = Some (entitled_account uuid i u)"
  using assms
proof (induction users)
  case (Cons v vs)
  have out: "granted uuid i vs e = None" if "e \<notin> set (map GetEmail vs)" for vs e
    using that by (induction vs) (auto simp: map_add_def split: option.splits)
  from Cons show ?case using out [of "GetEmail v" vs] by (auto simp: map_add_def)
qed simp

lemma granted_None: "granted uuid i users e = None \<longleftrightarrow> e \<notin> GetEmail ` set users"
  by (induction users) (auto simp: map_add_def split: option.splits)


section \<open>A pass over the inbounds\<close>

text \<open>
  What the API of the process documents: it has a table of users per inbound (\<open>held\<close>); an accepted
  addition puts the user there, an accepted removal takes the user away, and a call that reports an
  error has changed nothing.
\<close>

type_synonym 'p tables = "'p \<Rightarrow> string \<Rightarrow> string \<rightharpoonup> account_msg"

definition api_law :: "('p, 'r) xray_env \<Rightarrow> 'p tables \<Rightarrow> bool" where
  "api_law E held \<longleftrightarrow>
     (\<forall>tag email p e p'. xe_alter E tag (RemoveUserOperation email) p = (e, p') \<longrightarrow>
        held p' = (if e = None then (held p)(tag := (held p tag)(email := None)) else held p)) \<and>
     (\<forall>tag level email m p e p'. xe_alter E tag (AddUserOperation level email m) p = (e, p') \<longrightarrow>
        held p' = (if e = None then (held p)(tag := (held p tag)(email \<mapsto> m)) else held p)) \<and>
     (\<forall>email. xe_packs E (Inr (RemoveUserOperation email)) = None)"

text \<open>
  The node drops the answer to a removal. What it relies on without looking is that a removal fails
  only for want of the user.
\<close>

definition removals_heard :: "('p, 'r) xray_env \<Rightarrow> 'p tables \<Rightarrow> bool" where
  "removals_heard E held \<longleftrightarrow> (\<forall>tag email p. fst (xe_alter E tag (RemoveUserOperation email) p) \<noteq> None \<longrightarrow> held p tag email = None)"

definition api_effective :: "('p, 'r) xray_env \<Rightarrow> 'p tables \<Rightarrow> bool" where
  "api_effective E held \<longleftrightarrow>
     (\<forall>tag email p e p'. xe_alter E tag (RemoveUserOperation email) p = (e, p') \<longrightarrow> held p' = (held p)(tag := (held p tag)(email := None))) \<and>
     (\<forall>tag level email m p e p'. xe_alter E tag (AddUserOperation level email m) p = (e, p') \<longrightarrow>
        held p' = (if e = None then (held p)(tag := (held p tag)(email \<mapsto> m)) else held p)) \<and>
     (\<forall>email. xe_packs E (Inr (RemoveUserOperation email)) = None)"

lemma api_effectiveI:
  assumes "api_law E held" "removals_heard E held"
  shows "api_effective E held"
proof -
  have "held p' = (held p)(tag := (held p tag)(email := None))" if r: "xe_alter E tag (RemoveUserOperation email) p = (e, p')" for tag email p e p'
  proof (cases e)
    case None
    then show ?thesis using assms(1) r unfolding api_law_def by metis
  next
    case (Some err)
    then have "held p' = held p" using assms(1) r unfolding api_law_def by (metis option.distinct(1))
    moreover have "held p tag email = None" using assms(2) r Some unfolding removals_heard_def by (metis fst_conv option.distinct(1))
    ultimately show ?thesis by (simp add: fun_upd_idem)
  qed
  then show ?thesis using assms(1) unfolding api_law_def api_effective_def by blast
qed

definition held_in :: "'p tables \<Rightarrow> 'p core \<Rightarrow> string \<Rightarrow> string \<rightharpoonup> account_msg" where
  "held_in held c = (case co_process c of None \<Rightarrow> (\<lambda>_ _. None) | Some (p, _) \<Rightarrow> held p)"

lemma Started_process: "co_Started c \<Longrightarrow> \<exists>p. co_process c = Some (p, False)"
  by (auto simp: co_Started_def split: option.splits)

lemma RemoveInboundUser_held:
  assumes "api_effective E held" "co_Started c" "RemoveInboundUser E tag email c = (e, c')"
  shows "co_Started c' \<and> held_in held c' = (held_in held c)(tag := (held_in held c tag)(email := None))"
proof -
  obtain p where p: "co_process c = Some (p, False)" using Started_process [OF assms(2)] by blast
  obtain e1 p' where a: "xe_alter E tag (RemoveUserOperation email) p = (e1, p')" by fastforce
  with assms p have "c' = c\<lparr>co_process := Some (p', False)\<rparr>"
    by (auto simp: RemoveInboundUser_def AlertInbound_def api_effective_def Let_def)
  moreover have "held p' = (held p)(tag := (held p tag)(email := None))" using assms(1) a unfolding api_effective_def by blast
  ultimately show ?thesis by (simp add: held_in_def co_Started_def p)
qed

lemma AddInboundUser_held:
  assumes "api_effective E held" "co_Started c" "AddInboundUser E tag a c = (e, c')"
  shows "co_Started c'"
    and "e = None \<Longrightarrow> held_in held c' = (held_in held c)(tag := (held_in held c tag)(acc_GetEmail a \<mapsto> Message a))"
proof -
  obtain p where p: "co_process c = Some (p, False)" using Started_process [OF assms(2)] by blast
  obtain e1 p' where alt: "xe_alter E tag (AddUserOperation (acc_GetLevel a) (acc_GetEmail a) (Message a)) p = (e1, p')" by fastforce
  have h: "held p' = (if e1 = None then (held p)(tag := (held p tag)(acc_GetEmail a \<mapsto> Message a)) else held p)"
    using assms(1) alt unfolding api_effective_def by blast
  have c: "(c' = c \<and> e \<noteq> None) \<or> (c' = c\<lparr>co_process := Some (p', False)\<rparr> \<and> e = e1)"
    using assms(3) p alt by (auto simp: AddInboundUser_def AlertInbound_def Let_def split: option.splits)
  then show "co_Started c'" using assms(2) by (auto simp: co_Started_def)
  show "held_in held c' = (held_in held c)(tag := (held_in held c tag)(acc_GetEmail a \<mapsto> Message a))" if "e = None"
    using c that h by (auto simp: held_in_def p)
qed

abbreviation inbounds_of :: "('p, 'r) xray \<Rightarrow> inbound list" where
  "inbounds_of x \<equiv> xc_Inbounds (xr_config x)"

definition same_inbound :: "inbound \<Rightarrow> inbound \<Rightarrow> bool" where
  "same_inbound i j \<longleftrightarrow> j = i\<lparr>in_clients := in_clients j\<rparr>"

lemma same_inbound_attrs:
  "same_inbound i j \<Longrightarrow> in_Tag j = in_Tag i \<and> in_exclude j = in_exclude i \<and> in_Protocol j = in_Protocol i \<and> in_Settings j = in_Settings i"
  by (cases i; cases j) (simp add: same_inbound_def)

lemma same_inbound_refl [simp]: "same_inbound i i"
  by (simp add: same_inbound_def)

definition sent :: "inbound \<Rightarrow> account option \<Rightarrow> account_msg option" where
  "sent i r = map_option (\<lambda>a. Message (accountForAPI i a)) r"

text \<open>
  One step of a pass: an inbound of which the node manages the users is changed as the users ask, in
  the configuration and in the process; nothing else is touched.
\<close>

definition inbound_changed :: "'p tables \<Rightarrow> (inbound \<Rightarrow> string \<rightharpoonup> account option) \<Rightarrow> nat \<Rightarrow> ('p, 'r) xray \<Rightarrow> ('p, 'r) xray \<Rightarrow> bool" where
  "inbound_changed held change n x x' \<longleftrightarrow>
     (let i = inbounds_of x ! n in
      if in_exclude i then x' = x
      else co_Started (xr_core x') \<and>
        (\<exists>j. inbounds_of x' = (inbounds_of x)[n := j] \<and> same_inbound i j \<and> the_clients j = changed (change i) (the_clients i)) \<and>
        held_in held (xr_core x') = (held_in held (xr_core x))
          (in_Tag i := changed (\<lambda>e. map_option (sent i) (change i e)) (held_in held (xr_core x) (in_Tag i))))"

text \<open>What a whole pass leaves at one position.\<close>

definition pass_at :: "'p tables \<Rightarrow> ('k \<Rightarrow> nat) \<Rightarrow> (inbound \<Rightarrow> string \<rightharpoonup> account option) \<Rightarrow> 'k set \<Rightarrow> ('p, 'r) xray \<Rightarrow> ('p, 'r) xray \<Rightarrow> nat \<Rightarrow> bool" where
  "pass_at held pos change K x x' n \<longleftrightarrow>
     (let i = inbounds_of x ! n; j = inbounds_of x' ! n in
      if n \<in> pos ` K \<and> \<not> in_exclude i
      then same_inbound i j \<and> the_clients j = changed (change i) (the_clients i) \<and>
        held_in held (xr_core x') (in_Tag i) = changed (\<lambda>e. map_option (sent i) (change i e)) (held_in held (xr_core x) (in_Tag i))
      else j = i \<and> (\<not> in_exclude i \<longrightarrow> held_in held (xr_core x') (in_Tag i) = held_in held (xr_core x) (in_Tag i)))"

locale inbound_pass =
  fixes E :: "('p, 'r) xray_env" and held :: "'p tables"
    and step :: "string \<times> ('p, 'r) xray \<Rightarrow> 'k \<Rightarrow> string \<times> ('p, 'r) xray"
    and pos :: "'k \<Rightarrow> nat"
    and change :: "inbound \<Rightarrow> string \<rightharpoonup> account option"
    and fine :: "'k \<Rightarrow> inbound \<Rightarrow> bool"
  assumes step_ok: "api_effective E held \<Longrightarrow> co_Started (xr_core x) \<Longrightarrow> pos k < length (inbounds_of x) \<Longrightarrow> fine k (inbounds_of x ! pos k) \<Longrightarrow>
      step (e, x) k = ([], x') \<Longrightarrow> e = [] \<and> inbound_changed held change (pos k) x x'"
    and step_error: "e \<noteq> [] \<Longrightarrow> fst (step (e, x) k) \<noteq> []"
    and change_same: "same_inbound i j \<Longrightarrow> change j = change i"
    and fine_same: "same_inbound i j \<Longrightarrow> fine k j = fine k i"
begin

lemma pass_error: "e \<noteq> [] \<Longrightarrow> fst (foldl step (e, x) ks) \<noteq> []"
proof (induction ks arbitrary: e x)
  case (Cons k ks)
  obtain e' x' where s: "step (e, x) k = (e', x')" by fastforce
  with step_error [OF Cons.prems, of x k] have "e' \<noteq> []" by simp
  with Cons.IH s show ?case by simp
qed simp


lemma changed_inbounds:
  assumes "inbound_changed held change n x x1" "co_Started (xr_core x)"
  shows "co_Started (xr_core x1)" and "length (inbounds_of x1) = length (inbounds_of x)"
    and "m < length (inbounds_of x) \<Longrightarrow> same_inbound (inbounds_of x ! m) (inbounds_of x1 ! m)"
proof -
  show "co_Started (xr_core x1)" using assms by (auto simp: inbound_changed_def Let_def split: if_splits)
  show "length (inbounds_of x1) = length (inbounds_of x)" using assms(1) by (auto simp: inbound_changed_def Let_def split: if_splits)
  show "same_inbound (inbounds_of x ! m) (inbounds_of x1 ! m)" if "m < length (inbounds_of x)"
    using assms(1) that by (cases "m = n") (auto simp: inbound_changed_def Let_def split: if_splits)
qed

lemma pass_compose:
  assumes ch: "inbound_changed held change (pos k) x x1" and n: "n < length (inbounds_of x)" and k: "pos k < length (inbounds_of x)"
    and new: "pos k \<notin> pos ` K" and ih: "pass_at held pos change K x1 x' n"
    and tags: "\<not> in_exclude (inbounds_of x ! n) \<Longrightarrow> \<not> in_exclude (inbounds_of x ! pos k) \<Longrightarrow>
      in_Tag (inbounds_of x ! n) = in_Tag (inbounds_of x ! pos k) \<Longrightarrow> n = pos k"
  shows "pass_at held pos change (insert k K) x x' n"
proof (cases "in_exclude (inbounds_of x ! pos k)")
  case True
  with ch have "x1 = x" by (simp add: inbound_changed_def Let_def)
  with ih True show ?thesis by (auto simp: pass_at_def Let_def)
next
  case False
  let ?i = "inbounds_of x ! pos k"
  from False ch obtain j where j: "inbounds_of x1 = (inbounds_of x)[pos k := j]" "same_inbound ?i j"
    "the_clients j = changed (change ?i) (the_clients ?i)"
    "held_in held (xr_core x1) = (held_in held (xr_core x))
       (in_Tag ?i := changed (\<lambda>e. map_option (sent ?i) (change ?i e)) (held_in held (xr_core x) (in_Tag ?i)))"
    by (auto simp: inbound_changed_def Let_def)
  show ?thesis
  proof (cases "n = pos k")
    case True
    then have "inbounds_of x1 ! n = j" "n \<notin> pos ` K" using n new by (simp_all add: j(1))
    then have "inbounds_of x' ! n = j" "held_in held (xr_core x') (in_Tag j) = held_in held (xr_core x1) (in_Tag j)"
      using ih True False same_inbound_attrs [OF j(2)] by (auto simp: pass_at_def Let_def)
    then show ?thesis using True False j(2,3,4) same_inbound_attrs [OF j(2)] by (simp add: pass_at_def Let_def)
  next
    case other: False
    have "held_in held (xr_core x1) (in_Tag (inbounds_of x ! n)) = held_in held (xr_core x) (in_Tag (inbounds_of x ! n))"
      if "\<not> in_exclude (inbounds_of x ! n)"
      using tags [OF that False] other by (auto simp: j(4))
    moreover have "inbounds_of x1 ! n = inbounds_of x ! n" using other by (simp add: j(1))
    ultimately show ?thesis using ih other by (simp add: pass_at_def Let_def image_iff)
  qed
qed

lemma pass_ok:
  assumes "api_effective E held" "co_Started (xr_core x)" "foldl step ([], x) ks = ([], x')" "distinct (map pos ks)"
    and "\<And>k. k \<in> set ks \<Longrightarrow> pos k < length (inbounds_of x) \<and> fine k (inbounds_of x ! pos k)"
    and "\<And>m n. m < length (inbounds_of x) \<Longrightarrow> n < length (inbounds_of x) \<Longrightarrow> \<not> in_exclude (inbounds_of x ! m) \<Longrightarrow>
      \<not> in_exclude (inbounds_of x ! n) \<Longrightarrow> in_Tag (inbounds_of x ! m) = in_Tag (inbounds_of x ! n) \<Longrightarrow> m = n"
  shows "co_Started (xr_core x') \<and> length (inbounds_of x') = length (inbounds_of x) \<and> (\<forall>n < length (inbounds_of x). pass_at held pos change (set ks) x x' n)"
  using assms(2-)
proof (induction ks arbitrary: x)
  case Nil
  then show ?case by (simp add: pass_at_def)
next
  case (Cons k ks)
  obtain e1 x1 where s: "step ([], x) k = (e1, x1)" by fastforce
  have rest: "foldl step (e1, x1) ks = ([], x')" using Cons.prems(2) s by simp
  then have "e1 = []" using pass_error [of e1 x1 ks] by auto
  note s = s [unfolded this] and rest = rest [unfolded this]
  have k: "pos k < length (inbounds_of x)" "fine k (inbounds_of x ! pos k)" using Cons.prems(4) by auto
  have ch: "inbound_changed held change (pos k) x x1" using step_ok [OF assms(1) Cons.prems(1) k s] by simp
  note x1 = changed_inbounds [OF ch Cons.prems(1)]
  have attrs: "in_Tag (inbounds_of x1 ! n) = in_Tag (inbounds_of x ! n)" "in_exclude (inbounds_of x1 ! n) = in_exclude (inbounds_of x ! n)"
    "fine k' (inbounds_of x1 ! n) = fine k' (inbounds_of x ! n)" if "n < length (inbounds_of x)" for n k'
    using same_inbound_attrs [OF x1(3) [OF that]] fine_same [OF x1(3) [OF that]] by simp_all
  have "co_Started (xr_core x') \<and> length (inbounds_of x') = length (inbounds_of x1) \<and>
      (\<forall>n < length (inbounds_of x1). pass_at held pos change (set ks) x1 x' n)"
  proof (rule Cons.IH [OF x1(1) rest])
    show "distinct (map pos ks)" using Cons.prems(3) by simp
    show "pos k' < length (inbounds_of x1) \<and> fine k' (inbounds_of x1 ! pos k')" if "k' \<in> set ks" for k'
      using Cons.prems(4) [of k'] that attrs by (simp add: x1(2))
    show "m = n" if "m < length (inbounds_of x1)" "n < length (inbounds_of x1)" "\<not> in_exclude (inbounds_of x1 ! m)"
      "\<not> in_exclude (inbounds_of x1 ! n)" "in_Tag (inbounds_of x1 ! m) = in_Tag (inbounds_of x1 ! n)" for m n
      using Cons.prems(5) [of m n] that attrs [of m] attrs [of n] by (simp add: x1(2))
  qed
  moreover have "pos k \<notin> pos ` set ks" using Cons.prems(3) by auto
  ultimately show ?case using pass_compose [OF ch _ k(1)] Cons.prems(5) k(1) by (simp add: x1(2))
qed

end



section \<open>One user\<close>

lemma accountForAPI_email [simp]: "acc_GetEmail (accountForAPI i a) = acc_GetEmail a"
  by (cases a) (simp_all add: Let_def)

lemma accountForAPI_same: "same_inbound i j \<Longrightarrow> accountForAPI j a = accountForAPI i a"
  using same_inbound_attrs [of i j] by (cases a) (simp_all add: inboundFlow_def)

lemma in_method_same: "same_inbound i j \<Longrightarrow> in_method j = in_method i \<and> is_2022 j = is_2022 i"
  using same_inbound_attrs [of i j] by (simp add: in_method_def is_2022_def)

lemma entitled_same: "same_inbound i j \<Longrightarrow> entitled_account uuid j u = entitled_account uuid i u"
  using same_inbound_attrs [of i j] in_method_same [of i j] by (simp add: entitled_account_eq isActiveInbound_def)

lemma sound_same: "same_inbound i j \<Longrightarrow> sound_method j = sound_method i"
  using in_method_same [of i j] by (simp add: sound_method_def)

lemma granted_same: "same_inbound i j \<Longrightarrow> granted uuid j users = granted uuid i users"
  by (induction users) (simp_all add: entitled_same)

lemma in_removeUser_clients: "same_inbound i (in_removeUser email i) \<and> the_clients (in_removeUser email i) = (the_clients i)(email := None)"
  by (auto simp: in_removeUser_def same_inbound_def the_clients_def split: option.split)

lemma in_updateUser_clients:
  assumes "entitled_account uuid i u = Some a" "sound_method i"
  shows "same_inbound i (in_updateUser a i) \<and> the_clients (in_updateUser a i) = (the_clients i)(GetEmail u \<mapsto> a)"
  using entitled_account_stored [OF assms] entitled_account_fits(1) [OF assms(1)]
  by (auto simp: in_updateUser_def same_inbound_def the_clients_def Let_def split: option.splits)

lemma sync_inbound_ok:
  assumes law: "api_effective E held" and up: "co_Started (xr_core x)" and n: "n < length (inbounds_of x)"
    and sound: "sound_method (inbounds_of x ! n)"
    and r: "sync_inbound E u (setupUserAccount (xe_uuid E) (Some u)) (e, x) n = ([], x')"
  shows "e = [] \<and> inbound_changed held (\<lambda>i. granted (xe_uuid E) i [Some u]) n x x'"
proof (cases "in_exclude (inbounds_of x ! n)")
  case True
  with r show ?thesis by (auto simp: sync_inbound_def inbound_changed_def Let_def)
next
  case False
  let ?i = "inbounds_of x ! n" and ?e = "u_Email u"
  have em: "GetEmail (Some u) = ?e" "GetInbounds (Some u) = u_Inbounds u" by (simp_all add: msg_defs)
  obtain e0 co where rm: "RemoveInboundUser E (in_Tag ?i) ?e (xr_core x) = (e0, co)" by fastforce
  note h0 = RemoveInboundUser_held [OF law up rm]
  show ?thesis
  proof (cases "entitled_account (xe_uuid E) ?i (Some u)")
    case None
    then have act: "isActiveInbound ?i (u_Inbounds u) (setupUserAccount (xe_uuid E) (Some u)) = None"
      by (simp add: entitled_account_eq em)
    with r rm False have "e = []" "x' = x\<lparr>xr_core := co, xr_config := (xr_config x)\<lparr>xc_Inbounds := (inbounds_of x)[n := in_removeUser ?e ?i]\<rparr>\<rparr>"
      by (simp_all add: sync_inbound_def Let_def)
    moreover have "changed [?e \<mapsto> (None :: account option)] m = m(?e := None)" for m by (rule changed_single)
    moreover have "changed (\<lambda>e. map_option (sent ?i) ([?e \<mapsto> None] e)) m = m(?e := None)" for m
      by (auto simp: changed_def sent_def)
    ultimately show ?thesis using False None h0 in_removeUser_clients [of ?i ?e]
      by (auto simp: inbound_changed_def Let_def em)
  next
    case (Some a)
    then have act: "isActiveInbound ?i (u_Inbounds u) (setupUserAccount (xe_uuid E) (Some u)) = Some a"
      by (simp add: entitled_account_eq em)
    note up_i = in_updateUser_clients [OF Some sound, unfolded em]
    obtain e1 co2 where ad: "AddInboundUser E (in_Tag ?i) (accountForAPI (in_updateUser a ?i) a) co = (e1, co2)" by fastforce
    with r rm False act have x': "e = []" "e1 = None"
      "x' = x\<lparr>xr_core := co2, xr_config := (xr_config x)\<lparr>xc_Inbounds := (inbounds_of x)[n := in_updateUser a ?i]\<rparr>\<rparr>"
      by (auto simp: sync_inbound_def Let_def split: option.splits)
    note h1 = AddInboundUser_held [OF law conjunct1 [OF h0] ad]
    have "acc_GetEmail a = ?e" using entitled_account_fits(1) [OF Some] by (simp add: em)
    then have "held_in held co2 = (held_in held co)(in_Tag ?i := (held_in held co (in_Tag ?i))(?e \<mapsto> Message (accountForAPI ?i a)))"
      using h1(2) [OF x'(2)] accountForAPI_same [OF conjunct1 [OF up_i]] by simp
    moreover have "changed (\<lambda>e. map_option (sent ?i) ([?e \<mapsto> Some a] e)) m = m(?e \<mapsto> Message (accountForAPI ?i a))" for m
      by (auto simp: changed_def sent_def)
    ultimately show ?thesis using False Some h0 h1(1) up_i x'
      by (auto simp: inbound_changed_def Let_def em changed_single)
  qed
qed

lemma sync_inbound_error: "e \<noteq> [] \<Longrightarrow> fst (sync_inbound E u s (e, x) n) \<noteq> []"
  by (auto simp: sync_inbound_def Let_def split: prod.split option.split)

interpretation sync_pass: inbound_pass E held "sync_inbound E u (setupUserAccount (xe_uuid E) (Some u))" "\<lambda>n. n"
    "\<lambda>i. granted (xe_uuid E) i [Some u]" "\<lambda>n. sound_method"
  for E held u
  by unfold_locales (use sync_inbound_ok sync_inbound_error granted_same sound_same in blast)+



section \<open>Several users\<close>

text \<open>The update of an inbound that a list of users asks for.\<close>

definition update_for :: "(string \<Rightarrow> string option) \<Rightarrow> inbound \<Rightarrow> user list \<Rightarrow> inbound_update" where
  "update_for uuid i users =
     \<lparr>iu_accounts = List.map_filter (entitled_account uuid i) users,
      iu_removeEmailSet = {GetEmail u | u. u \<in> set users \<and> entitled_account uuid i u = None}\<rparr>"

lemma update_for_accounts:
  assumes "a \<in> set (iu_accounts (update_for uuid i users))"
  obtains u where "u \<in> set users" "entitled_account uuid i u = Some a" "acc_GetEmail a = GetEmail u"
  using assms entitled_account_fits(1) by (auto simp: update_for_def map_filter_def)

lemma distinct_account_emails:
  "distinct (map GetEmail users) \<Longrightarrow> distinct (map acc_GetEmail (iu_accounts (update_for uuid i users)))"
proof (induction users)
  case (Cons u us)
  have "GetEmail u \<notin> acc_GetEmail ` set (iu_accounts (update_for uuid i us))"
    using Cons.prems by (auto elim!: update_for_accounts)
  with Cons show ?case
    using entitled_account_fits(1) [of uuid i u]
    by (cases "entitled_account uuid i u") (simp_all add: update_for_def List.map_filter_simps)
qed (simp add: update_for_def List.map_filter_simps)

lemma foldl_upd: "foldl (\<lambda>m x. m(f x \<mapsto> g x)) m xs = m ++ map_of (rev (map (\<lambda>x. (f x, g x)) xs))"
  by (induction xs arbitrary: m) simp_all

lemma foldl_del: "foldl (\<lambda>m e. m(e := None)) m es = m |` (- set es)"
proof (induction es arbitrary: m)
  case Nil
  show ?case by (simp add: restrict_map_def)
next
  case (Cons e es)
  then show ?case by (auto simp: restrict_map_def)
qed

text \<open>Putting the accounts in and the removed users out, in either order, leaves what was granted.\<close>

lemma granted_update:
  assumes "distinct (map GetEmail users)" "R = iu_removeEmailSet (update_for uuid i users)" "accs = iu_accounts (update_for uuid i users)"
  shows "(m ++ map_of (rev (map (\<lambda>a. (acc_GetEmail a, g a)) accs))) |` (- R) =
      changed (\<lambda>e. map_option (map_option g) (granted uuid i users e)) m"
    and "(m |` (- R)) ++ map_of (rev (map (\<lambda>a. (acc_GetEmail a, g a)) accs)) =
      changed (\<lambda>e. map_option (map_option g) (granted uuid i users e)) m"
proof -
  let ?A = "map_of (rev (map (\<lambda>a. (acc_GetEmail a, g a)) accs))"
  have A: "?A e = Some v \<longleftrightarrow> (\<exists>a \<in> set accs. acc_GetEmail a = e \<and> g a = v)" for e v
    using map_of_rev_distinct [of acc_GetEmail accs g] distinct_account_emails [OF assms(1)] assms(3) by (simp add: rev_map)
  have in_accs: "a \<in> set accs \<longleftrightarrow> (\<exists>u \<in> set users. entitled_account uuid i u = Some a)" for a
    using assms(3) by (force simp: update_for_def map_filter_def)
  have R: "e \<in> R \<longleftrightarrow> (\<exists>u \<in> set users. GetEmail u = e \<and> entitled_account uuid i u = None)" for e
    using assms(2) by (auto simp: update_for_def)
  have email: "acc_GetEmail a = GetEmail u" if "entitled_account uuid i u = Some a" for u a
    using entitled_account_fits(1) [OF that] .
  have out: "?A e = None \<and> e \<notin> R" if none: "granted uuid i users e = None" for e
  proof -
    have e: "e \<notin> GetEmail ` set users" using none granted_None by metis
    have "?A e \<noteq> Some v" for v
    proof
      assume "?A e = Some v"
      then obtain a where "a \<in> set accs" "acc_GetEmail a = e" using A by blast
      with in_accs [of a] email e show False by blast
    qed
    then have "?A e = None" by (metis not_Some_eq)
    moreover have "e \<notin> R" using e by (auto simp: R)
    ultimately show ?thesis ..
  qed
  have uniq: "v = u" if "u \<in> set users" "v \<in> set users" "GetEmail v = GetEmail u" for u v
    using that assms(1) by (metis distinct_map inj_onD)
  have none: "?A (GetEmail u) = None" if u: "u \<in> set users" "entitled_account uuid i u = None" for u
  proof -
    have "?A (GetEmail u) \<noteq> Some v" for v
    proof
      assume "?A (GetEmail u) = Some v"
      then obtain a where "a \<in> set accs" "acc_GetEmail a = GetEmail u" using A by blast
      then obtain w where "w \<in> set users" "entitled_account uuid i w = Some a" "GetEmail w = GetEmail u"
        using in_accs [of a] email by metis
      with uniq [OF u(1)] u(2) show False by fastforce
    qed
    then show ?thesis by (metis not_Some_eq)
  qed
  have some: "?A (GetEmail u) = Some (g a) \<and> GetEmail u \<notin> R" if u: "u \<in> set users" "entitled_account uuid i u = Some a" for u a
  proof -
    have "?A (GetEmail u) = Some (g a)" using A in_accs email u by blast
    moreover have "GetEmail u \<notin> R" using R uniq [OF u(1)] u(2) by fastforce
    ultimately show ?thesis ..
  qed
  have eqs: "((m ++ ?A) |` (- R)) e = changed (\<lambda>e. map_option (map_option g) (granted uuid i users e)) m e \<and>
      ((m |` (- R)) ++ ?A) e = changed (\<lambda>e. map_option (map_option g) (granted uuid i users e)) m e" for e
  proof (cases "granted uuid i users e")
    case None
    with out show ?thesis by (simp add: changed_def map_add_def restrict_map_def)
  next
    case (Some r)
    then obtain u where u: "u \<in> set users" "e = GetEmail u" by (metis granted_None imageE option.distinct(1))
    have gr: "granted uuid i users e = Some (entitled_account uuid i u)" unfolding u(2) by (rule granted_distinct [OF assms(1) u(1)])
    show ?thesis
    proof (cases "entitled_account uuid i u")
      case None
      moreover have "e \<in> R" unfolding R using u None by blast
      ultimately show ?thesis using none [OF u(1) None] u(2) gr by (simp add: changed_def map_add_def restrict_map_def)
    next
      case (Some a)
      then show ?thesis using some [OF u(1) Some] u(2) gr by (simp add: changed_def map_add_def restrict_map_def)
    qed
  qed
  show "(m ++ ?A) |` (- R) = changed (\<lambda>e. map_option (map_option g) (granted uuid i users e)) m"
    and "(m |` (- R)) ++ ?A = changed (\<lambda>e. map_option (map_option g) (granted uuid i users e)) m"
    using eqs by blast+
qed

lemma in_updateUsers_clients:
  assumes "distinct (map GetEmail users)" "sound_method i" "range_order rg"
    and upd: "upd = update_for uuid i users"
  shows "same_inbound i (in_updateUsers (iu_accounts upd) (rg 1 (iu_removeEmailSet upd)) i) \<and>
    the_clients (in_updateUsers (iu_accounts upd) (rg 1 (iu_removeEmailSet upd)) i) = changed (granted uuid i users) (the_clients i)"
proof -
  have fin: "finite (iu_removeEmailSet upd)" by (simp add: upd update_for_def)
  then have es: "set (rg 1 (iu_removeEmailSet upd)) = iu_removeEmailSet upd" using assms(3) by (simp add: range_order_def)
  have put: "put_account i m a = m(acc_GetEmail a \<mapsto> a)" if a: "a \<in> set (iu_accounts upd)" for m a
  proof -
    obtain u where u: "entitled_account uuid i u = Some a" using a upd by (auto elim: update_for_accounts)
    have "checkShadowsocks2022 (the (in_method i)) a = a" if "is_2022 i"
      using entitled_account_stored [OF u assms(2)] that by (auto simp: is_2022_def split: option.splits)
    then show ?thesis using entitled_account_fits(2) [OF u] by (simp add: put_account_def)
  qed
  have "foldl (put_account i) m (iu_accounts upd) = foldl (\<lambda>m a. m(acc_GetEmail a \<mapsto> a)) m (iu_accounts upd)" for m
    by (rule foldl_cong) (simp_all add: put)
  then have "the_clients (in_updateUsers (iu_accounts upd) (rg 1 (iu_removeEmailSet upd)) i) =
      (the_clients i ++ map_of (rev (map (\<lambda>a. (acc_GetEmail a, a)) (iu_accounts upd)))) |` (- iu_removeEmailSet upd)"
    by (simp add: in_updateUsers_def the_clients_def [of "i\<lparr>in_clients := c\<rparr>" for c] foldl_upd foldl_del es [simplified])
  also have "\<dots> = changed (\<lambda>e. map_option (map_option (\<lambda>a. a)) (granted uuid i users e)) (the_clients i)"
    unfolding upd by (rule granted_update(1) [OF assms(1) refl refl])
  also have "(\<lambda>e. map_option (map_option (\<lambda>a. a)) (granted uuid i users e)) = granted uuid i users"
  proof
    fix e show "map_option (map_option (\<lambda>a. a)) (granted uuid i users e) = granted uuid i users e"
      by (cases "granted uuid i users e") (simp_all add: option.map_ident)
  qed
  finally show ?thesis by (simp add: same_inbound_def in_updateUsers_def)
qed


lemma remove_all_held:
  assumes "api_effective E held" "co_Started c"
  shows "co_Started (foldl (remove_one E tag) c es) \<and>
    held_in held (foldl (remove_one E tag) c es) = (held_in held c)(tag := held_in held c tag |` (- set es))"
  using assms(2)
proof (induction es arbitrary: c)
  case Nil
  then show ?case by (simp add: restrict_map_def)
next
  case (Cons e es)
  obtain r c1 where r: "RemoveInboundUser E tag e c = (r, c1)" by fastforce
  note h = RemoveInboundUser_held [OF assms(1) Cons.prems r]
  have c1: "foldl (remove_one E tag) c (e # es) = foldl (remove_one E tag) c1 es" by (simp add: remove_one_def r)
  have restr: "(m(e := None)) |` (- set es) = m |` (- set (e # es))" for m :: "string \<rightharpoonup> account_msg"
    by (auto simp: restrict_map_def)
  have "held_in held (foldl (remove_one E tag) c1 es) = (held_in held c1)(tag := held_in held c1 tag |` (- set es))"
    using Cons.IH h by blast
  also have "\<dots> = (held_in held c)(tag := held_in held c tag |` (- set (e # es)))"
    unfolding conjunct2 [OF h] fun_upd_same fun_upd_upd restr ..
  finally show ?case unfolding c1 using Cons.IH [of c1] h by blast
qed

lemma add_one_error: "e \<noteq> [] \<Longrightarrow> fst (foldl (add_one E i) (e, c) accs) \<noteq> []"
proof (induction accs arbitrary: e c)
  case (Cons a accs)
  obtain e1 c1 where s: "add_one E i (e, c) a = (e1, c1)" by fastforce
  with Cons.prems have "e1 \<noteq> []" by (auto simp: add_one_def split: prod.splits option.splits)
  with Cons.IH s show ?case by simp
qed simp

lemma add_all_held:
  assumes "api_effective E held" "co_Started c" "foldl (add_one E i) (e, c) accs = ([], c')"
  shows "e = [] \<and> co_Started c' \<and> held_in held c' = (held_in held c)
    (in_Tag i := held_in held c (in_Tag i) ++ map_of (rev (map (\<lambda>a. (acc_GetEmail a, Message (accountForAPI i a))) accs)))"
  using assms(2-)
proof (induction accs arbitrary: e c)
  case (Cons a accs)
  obtain e1 c1 where s: "add_one E i (e, c) a = (e1, c1)" by fastforce
  let ?c0 = "remove_one E (in_Tag i) c (acc_GetEmail a)"
  have c0: "co_Started ?c0" "held_in held ?c0 = (held_in held c)(in_Tag i := (held_in held c (in_Tag i))(acc_GetEmail a := None))"
    using RemoveInboundUser_held [OF assms(1) Cons.prems(1)] by (metis remove_one_def prod.collapse)+
  obtain r c2 where ad: "AddInboundUser E (in_Tag i) (accountForAPI i a) ?c0 = (r, c2)" by fastforce
  note h = AddInboundUser_held [OF assms(1) c0(1) ad]
  have rest: "foldl (add_one E i) (e1, c1) accs = ([], c')" using Cons.prems(2) s by simp
  then have "e1 = []" using add_one_error [of e1 E i c1 accs] by auto
  with s ad have c1: "e = []" "r = None" "c1 = c2" by (auto simp: add_one_def split: option.splits)
  with h c0(2) have h1: "held_in held c1 = (held_in held c)(in_Tag i := (held_in held c (in_Tag i))(acc_GetEmail a \<mapsto> Message (accountForAPI i a)))"
    by simp
  have up: "co_Started c1" using h(1) c1(3) by simp
  have "held_in held c' = (held_in held c1)(in_Tag i := held_in held c1 (in_Tag i) ++
      map_of (rev (map (\<lambda>a. (acc_GetEmail a, Message (accountForAPI i a))) accs)))"
    using Cons.IH [OF up rest] by blast
  also have "\<dots> = (held_in held c)(in_Tag i := (held_in held c (in_Tag i))(acc_GetEmail a \<mapsto> Message (accountForAPI i a)) ++
      map_of (rev (map (\<lambda>a. (acc_GetEmail a, Message (accountForAPI i a))) accs)))"
    unfolding h1 fun_upd_same fun_upd_upd ..
  also have "(held_in held c (in_Tag i))(acc_GetEmail a \<mapsto> Message (accountForAPI i a)) ++
      map_of (rev (map (\<lambda>a. (acc_GetEmail a, Message (accountForAPI i a))) accs)) =
    held_in held c (in_Tag i) ++ map_of (rev (map (\<lambda>a. (acc_GetEmail a, Message (accountForAPI i a))) (a # accs)))"
    by (simp add: map_add_assoc [symmetric])
  finally show ?case using Cons.IH [OF up rest] c1(1) by blast
qed simp

text \<open>The updates are those the users ask for, and every tag is that of the inbound at its position.\<close>

definition fits_update :: "(string \<Rightarrow> string option) \<Rightarrow> ranger \<Rightarrow> user list \<Rightarrow> (string \<rightharpoonup> nat) \<Rightarrow> (string \<rightharpoonup> inbound_update) \<Rightarrow>
    string \<Rightarrow> inbound \<Rightarrow> bool" where
  "fits_update uuid rg users byTag updates tag i \<longleftrightarrow>
     range_order rg \<and> distinct (map GetEmail users) \<and> sound_method i \<and> \<not> in_exclude i \<and> in_Tag i = tag \<and> byTag tag \<noteq> None \<and>
     updates tag = Some (update_for uuid i users)"

lemma update_inbound_ok:
  assumes law: "api_effective E held" and up: "co_Started (xr_core x)" and n: "the (byTag tag) < length (inbounds_of x)"
    and fits: "fits_update (xe_uuid E) rg users byTag updates tag (inbounds_of x ! the (byTag tag))"
    and r: "update_inbound E rg byTag updates (e, x) tag = ([], x')"
  shows "e = [] \<and> inbound_changed held (\<lambda>i. granted (xe_uuid E) i users) (the (byTag tag)) x x'"
proof -
  obtain n where byTag: "byTag tag = Some n" using fits by (auto simp: fits_update_def)
  let ?i = "inbounds_of x ! n"
  let ?upd = "update_for (xe_uuid E) ?i users"
  let ?es = "rg 1 (iu_removeEmailSet ?upd)"
  let ?j = "in_updateUsers (iu_accounts ?upd) ?es ?i"
  have f: "range_order rg" "distinct (map GetEmail users)" "sound_method ?i" "\<not> in_exclude ?i" "in_Tag ?i = tag" "updates tag = Some ?upd"
    using fits byTag by (auto simp: fits_update_def)
  note j = in_updateUsers_clients [OF f(2,3,1) refl, of "xe_uuid E"]
  have api: "accountForAPI ?j a = accountForAPI ?i a" for a by (rule accountForAPI_same [OF conjunct1 [OF j]])
  have tag: "in_Tag ?j = tag" using same_inbound_attrs [OF conjunct1 [OF j]] f(5) by blast
  have "finite (iu_removeEmailSet ?upd)" by (simp add: update_for_def)
  then have es: "set ?es = iu_removeEmailSet ?upd" using f(1) by (simp add: range_order_def)
  obtain e' co where ad: "foldl (add_one E ?j) (e, foldl (remove_one E tag) (xr_core x) ?es) (iu_accounts ?upd) = (e', co)" by fastforce
  with r byTag f(6) have x': "e' = []" "x' = x\<lparr>xr_config := (xr_config x)\<lparr>xc_Inbounds := (inbounds_of x)[n := ?j]\<rparr>, xr_core := co\<rparr>"
    by (simp_all add: update_inbound_def Let_def)
  note rm = remove_all_held [OF law up, of tag ?es]
  note add = add_all_held [OF law conjunct1 [OF rm] ad [unfolded x'(1)]]
  have "held_in held co = (held_in held (foldl (remove_one E tag) (xr_core x) ?es))(in_Tag ?j :=
      held_in held (foldl (remove_one E tag) (xr_core x) ?es) (in_Tag ?j) ++
      map_of (rev (map (\<lambda>a. (acc_GetEmail a, Message (accountForAPI ?j a))) (iu_accounts ?upd))))"
    using add by blast
  also have "\<dots> = (held_in held (xr_core x))(tag := (held_in held (xr_core x) tag |` (- iu_removeEmailSet ?upd)) ++
      map_of (rev (map (\<lambda>a. (acc_GetEmail a, Message (accountForAPI ?i a))) (iu_accounts ?upd))))"
    unfolding tag conjunct2 [OF rm] fun_upd_same fun_upd_upd es api ..
  also have "\<dots> = (held_in held (xr_core x))(tag := changed (\<lambda>e. map_option (sent ?i) (granted (xe_uuid E) ?i users e)) (held_in held (xr_core x) tag))"
    unfolding granted_update(2) [OF f(2) refl refl] sent_def [abs_def] ..
  finally have h: "held_in held co = (held_in held (xr_core x))
      (tag := changed (\<lambda>e. map_option (sent ?i) (granted (xe_uuid E) ?i users e)) (held_in held (xr_core x) tag))" .
  have "inbounds_of x' = (inbounds_of x)[n := ?j]" "xr_core x' = co" by (simp_all add: x'(2))
  with h j add f(4,5) byTag show ?thesis unfolding inbound_changed_def Let_def byTag option.sel by auto
qed

lemma update_inbound_error: "e \<noteq> [] \<Longrightarrow> fst (update_inbound E rg byTag updates (e, x) tag) \<noteq> []"
  by (cases "byTag tag"; cases "updates tag") (simp_all add: update_inbound_def Let_def case_prod_unfold add_one_error)

lemma update_for_same: "same_inbound i j \<Longrightarrow> update_for uuid j users = update_for uuid i users"
  unfolding update_for_def by (simp add: entitled_same [THEN ext])

lemma fits_update_same: "same_inbound i j \<Longrightarrow> fits_update uuid rg users byTag updates tag j = fits_update uuid rg users byTag updates tag i"
  by (simp add: fits_update_def update_for_same sound_same same_inbound_attrs)

interpretation update_pass: inbound_pass E held "update_inbound E rg byTag updates" "\<lambda>tag. the (byTag tag)"
    "\<lambda>i. granted (xe_uuid E) i users" "fits_update (xe_uuid E) rg users byTag updates"
  for E held rg byTag updates users
proof (unfold_locales, goal_cases)
  case (1 x k e x')
  then show ?case by (rule update_inbound_ok)
next
  case (2 e x k)
  then show ?case by (rule update_inbound_error)
next
  case (3 i j)
  then show ?case by (rule granted_same)
next
  case (4 i j k)
  then show ?case by (rule fits_update_same)
qed



section \<open>Updates through the API\<close>

text \<open>The inbounds whose users the node manages have tags of their own.\<close>

definition tags_ok :: "inbound list \<Rightarrow> bool" where
  "tags_ok is \<longleftrightarrow>
     (\<forall>m < length is. \<forall>n < length is. \<not> in_exclude (is ! m) \<longrightarrow> \<not> in_exclude (is ! n) \<longrightarrow> in_Tag (is ! m) = in_Tag (is ! n) \<longrightarrow> m = n)"

lemma index_inbounds_Some:
  assumes "tags_ok is"
  shows "index_inbounds is tag = Some n \<longleftrightarrow> n < length is \<and> \<not> in_exclude (is ! n) \<and> in_Tag (is ! n) = tag"
proof -
  define ix where "ix k = foldl (\<lambda>m n. if in_exclude (is ! n) then m else m(in_Tag (is ! n) \<mapsto> n)) Map.empty [0..<k]" for k
  have "ix k tag = Some n \<longleftrightarrow> n < k \<and> \<not> in_exclude (is ! n) \<and> in_Tag (is ! n) = tag" if "k \<le> length is" for k
    using that
  proof (induction k)
    case 0
    show ?case by (simp add: ix_def)
  next
    case (Suc k)
    have step: "ix (Suc k) = (if in_exclude (is ! k) then ix k else (ix k)(in_Tag (is ! k) \<mapsto> k))" by (simp add: ix_def)
    have "n = k" if "\<not> in_exclude (is ! k)" "in_Tag (is ! k) = tag" "n < k" "\<not> in_exclude (is ! n)" "in_Tag (is ! n) = tag"
      using assms Suc.prems that unfolding tags_ok_def by (metis Suc_le_lessD less_trans)
    with Suc show ?case by (auto simp: step less_Suc_eq)
  qed
  then show ?thesis by (simp add: ix_def index_inbounds_def)
qed

lemma add_user_updates:
  assumes "byTag tag = Some n" "upds tag = Some u0"
  shows "foldl (add_user_update uuid is byTag) upds users tag =
    Some \<lparr>iu_accounts = iu_accounts u0 @ List.map_filter (entitled_account uuid (is ! n)) users,
          iu_removeEmailSet = iu_removeEmailSet u0 \<union> {GetEmail u | u. u \<in> set users \<and> entitled_account uuid (is ! n) u = None}\<rparr>"
  using assms(2)
proof (induction users arbitrary: upds u0)
  case Nil
  then show ?case by (simp add: List.map_filter_simps)
next
  case (Cons u us)
  let ?r = "entitled_account uuid (is ! n) u"
  let ?u1 = "case ?r of Some a \<Rightarrow> u0\<lparr>iu_accounts := iu_accounts u0 @ [a]\<rparr> | None \<Rightarrow> u0\<lparr>iu_removeEmailSet := insert (GetEmail u) (iu_removeEmailSet u0)\<rparr>"
  have "add_user_update uuid is byTag upds u tag = Some ?u1"
    using assms(1) Cons.prems by (simp add: add_user_update_def entitled_account_eq Let_def)
  from Cons.IH [of "add_user_update uuid is byTag upds u" ?u1, OF this] show ?case
    by (cases ?r) (auto simp: List.map_filter_simps)
qed

lemma buildInboundUpdates_spec:
  assumes "tags_ok (xc_Inbounds c)" "buildInboundUpdates uuid users c = (byTag, updates)"
  shows "byTag = index_inbounds (xc_Inbounds c)" and "dom updates = dom byTag" and "finite (dom byTag)"
    and "byTag tag = Some n \<Longrightarrow> updates tag = Some (update_for uuid (xc_Inbounds c ! n) users)"
proof -
  show b: "byTag = index_inbounds (xc_Inbounds c)" using assms(2) by (simp add: buildInboundUpdates_def Let_def)
  have u: "updates = foldl (add_user_update uuid (xc_Inbounds c) byTag)
      (\<lambda>tag. map_option (\<lambda>n. \<lparr>iu_accounts = [], iu_removeEmailSet = {}\<rparr>) (byTag tag)) users"
    using assms(2) b by (simp add: buildInboundUpdates_def Let_def)
  show s: "updates tag = Some (update_for uuid (xc_Inbounds c ! n) users)" if "byTag tag = Some n" for tag n
    using add_user_updates [of byTag tag n _ "\<lparr>iu_accounts = [], iu_removeEmailSet = {}\<rparr>" uuid "xc_Inbounds c" users] that
    by (simp add: u update_for_def)
  have none: "foldl (add_user_update uuid is byTag) upds users tag = None" if "byTag tag = None" "upds tag = None" for "is" upds tag
    using that by (induction users arbitrary: upds) (simp_all add: add_user_update_def Let_def)
  show "dom updates = dom byTag" using s none u by (auto simp: dom_def) (metis not_None_eq option.simps(8))
  have "dom byTag \<subseteq> in_Tag ` set (xc_Inbounds c)" using index_inbounds_Some [OF assms(1)] b by fastforce
  then show "finite (dom byTag)" by (rule finite_subset) simp
qed

text \<open>What is left at one inbound, in the terms of a pass.\<close>

definition delivered :: "('p, 'r) xray_env \<Rightarrow> 'p tables \<Rightarrow> user list \<Rightarrow> ('p, 'r) xray \<Rightarrow> ('p, 'r) xray \<Rightarrow> nat \<Rightarrow> bool" where
  "delivered E held users x x' n \<longleftrightarrow>
     (let i = inbounds_of x ! n; j = inbounds_of x' ! n; g = granted (xe_uuid E) i users in
      (in_exclude i \<longrightarrow> j = i) \<and>
      (\<not> in_exclude i \<longrightarrow> same_inbound i j \<and> the_clients j = changed g (the_clients i) \<and>
         held_in held (xr_core x') (in_Tag i) = changed (\<lambda>e. map_option (sent i) (g e)) (held_in held (xr_core x) (in_Tag i))))"

lemma pass_delivered:
  "pass_at held pos (\<lambda>i. granted (xe_uuid E) i users) K x x' n \<Longrightarrow> (\<not> in_exclude (inbounds_of x ! n) \<Longrightarrow> n \<in> pos ` K) \<Longrightarrow>
   delivered E held users x x' n"
  by (auto simp: pass_at_def delivered_def Let_def split: if_splits)

lemma tags_okD:
  "tags_ok is \<Longrightarrow> m < length is \<Longrightarrow> n < length is \<Longrightarrow> \<not> in_exclude (is ! m) \<Longrightarrow> \<not> in_exclude (is ! n) \<Longrightarrow>
   in_Tag (is ! m) = in_Tag (is ! n) \<Longrightarrow> m = n"
  unfolding tags_ok_def by blast

lemma UpdateUsers_delivered:
  assumes "api_effective E held" "range_order rg" "co_Started (xr_core x)" "tags_ok (inbounds_of x)" "list_all sound_method (inbounds_of x)"
    and "distinct (map GetEmail users)" "xray_UpdateUsers E rg users x = Some (None, x')" "n < length (inbounds_of x)"
  shows "delivered E held users x x' n"
proof -
  from assms(7) obtain byTag updates where b: "buildInboundUpdates (xe_uuid E) users (xr_config x) = (byTag, updates)"
    and run: "foldl (update_inbound E rg byTag updates) ([], x) (keys_of rg 0 updates) = ([], x')"
    by (auto simp: xray_UpdateUsers_def split: if_splits prod.splits)
  note B = buildInboundUpdates_spec [OF assms(4) b]
  have ix: "byTag tag = Some k \<longleftrightarrow> k < length (inbounds_of x) \<and> \<not> in_exclude (inbounds_of x ! k) \<and> in_Tag (inbounds_of x ! k) = tag" for tag k
    unfolding B(1) by (rule index_inbounds_Some [OF assms(4)])
  have keys: "set (keys_of rg 0 updates) = dom byTag" "distinct (keys_of rg 0 updates)"
    using assms(2) B(2,3) by (simp_all add: gomap_simps)
  have "inj_on (\<lambda>tag. the (byTag tag)) (dom byTag)"
  proof (rule inj_onI)
    fix s t assume st: "s \<in> dom byTag" "t \<in> dom byTag" "the (byTag s) = the (byTag t)"
    then obtain k where "byTag s = Some k" "byTag t = Some k" by auto
    then show "s = t" using ix [of s k] ix [of t k] by simp
  qed
  then have dist: "distinct (map (\<lambda>tag. the (byTag tag)) (keys_of rg 0 updates))" using keys by (simp add: distinct_map)
  have fits: "the (byTag tag) < length (inbounds_of x) \<and> fits_update (xe_uuid E) rg users byTag updates tag (inbounds_of x ! the (byTag tag))"
    if mem: "tag \<in> set (keys_of rg 0 updates)" for tag
  proof -
    obtain k where k: "byTag tag = Some k" using mem unfolding keys(1) by blast
    then show ?thesis using B(4) [OF k] ix [of tag k] assms(2,5,6) by (simp add: fits_update_def list_all_length)
  qed
  have all: "co_Started (xr_core x') \<and> length (inbounds_of x') = length (inbounds_of x) \<and> (\<forall>n < length (inbounds_of x).
      pass_at held (\<lambda>tag. the (byTag tag)) (\<lambda>i. granted (xe_uuid E) i users) (set (keys_of rg 0 updates)) x x' n)"
    by (rule update_pass.pass_ok [OF assms(1,3) run dist]) (fact fits, fact tags_okD [OF assms(4)])
  have "pass_at held (\<lambda>tag. the (byTag tag)) (\<lambda>i. granted (xe_uuid E) i users) (set (keys_of rg 0 updates)) x x' n"
    using all assms(8) by simp
  then show ?thesis
  proof (rule pass_delivered)
    assume "\<not> in_exclude (inbounds_of x ! n)"
    then have "byTag (in_Tag (inbounds_of x ! n)) = Some n" using ix assms(8) by blast
    then show "n \<in> (\<lambda>tag. the (byTag tag)) ` set (keys_of rg 0 updates)" unfolding keys(1) by force
  qed
qed

lemma SyncUser_delivered:
  assumes "api_effective E held" "co_Started (xr_core x)" "tags_ok (inbounds_of x)" "list_all sound_method (inbounds_of x)"
    and "xray_SyncUser E u x = Some (None, x')" "n < length (inbounds_of x)"
  shows "delivered E held [Some u] x x' n"
proof -
  have run: "foldl (sync_inbound E u (setupUserAccount (xe_uuid E) (Some u))) ([], x) [0..<length (inbounds_of x)] = ([], x')"
    using assms(5) by (auto simp: xray_SyncUser_def split: if_splits prod.splits)
  have all: "co_Started (xr_core x') \<and> length (inbounds_of x') = length (inbounds_of x) \<and> (\<forall>n < length (inbounds_of x).
      pass_at held (\<lambda>n. n) (\<lambda>i. granted (xe_uuid E) i [Some u]) (set [0..<length (inbounds_of x)]) x x' n)"
  proof (rule sync_pass.pass_ok [OF assms(1,2) run])
    show "distinct (map (\<lambda>n. n) [0..<length (inbounds_of x)])" by simp
    show "k < length (inbounds_of x) \<and> sound_method (inbounds_of x ! k)" if "k \<in> set [0..<length (inbounds_of x)]" for k
      using that assms(4) by (simp add: list_all_length)
  qed (fact tags_okD [OF assms(3)])
  have "pass_at held (\<lambda>n. n) (\<lambda>i. granted (xe_uuid E) i [Some u]) (set [0..<length (inbounds_of x)]) x x' n"
    using all assms(6) by simp
  then show ?thesis by (rule pass_delivered) (simp add: assms(6))
qed

text \<open>
  C29: Provided the process refuses a removal only when it does not have the user, a user update over
  the API that reports success, of one user or of a list, leaves every inbound the node manages with
  exactly what each user of the request is entitled to there, in the configuration the next restart uses
  and in the running process alike: the account of the inbound's protocol with the user's own secret, or
  none for a user who lost the inbound or has no secret for it. Users the request does not name keep what they have, and
  inbounds excluded from management are not touched. (Without the condition a user who lost an inbound
  may keep it: \<open>refused_removal_unnoticed\<close>.)
\<close>

theorem xray_api_delivers:
  assumes "api_law E held" "removals_heard E held" "range_order rg" "co_Started (xr_core x)" "tags_ok (inbounds_of x)" "list_all sound_method (inbounds_of x)"
    and "distinct (map GetEmail users)"
    and "xray_UpdateUsers E rg users x = Some (None, x') \<or> (\<exists>u. users = [Some u] \<and> xray_SyncUser E u x = Some (None, x'))"
    and "n < length (inbounds_of x)" "i = inbounds_of x ! n" "j = inbounds_of x' ! n"
  shows "same_inbound i j \<and> (in_exclude i \<longrightarrow> j = i) \<and>
    (\<not> in_exclude i \<longrightarrow>
      (\<forall>u \<in> set users. the_clients j (GetEmail u) = entitled_account (xe_uuid E) i u \<and>
         held_in held (xr_core x') (in_Tag i) (GetEmail u) = sent i (entitled_account (xe_uuid E) i u)) \<and>
      (\<forall>e. e \<notin> GetEmail ` set users \<longrightarrow> the_clients j e = the_clients i e \<and>
         held_in held (xr_core x') (in_Tag i) e = held_in held (xr_core x) (in_Tag i) e))"
proof -
  let ?g = "granted (xe_uuid E) i users"
  note eff = api_effectiveI [OF assms(1,2)]
  have "delivered E held users x x' n"
    using assms(8) UpdateUsers_delivered [OF eff assms(3-7) _ assms(9)] SyncUser_delivered [OF eff assms(4,5,6) _ assms(9)] by blast
  then have d: "in_exclude i \<longrightarrow> j = i" "\<not> in_exclude i \<longrightarrow> same_inbound i j \<and> the_clients j = changed ?g (the_clients i) \<and>
      held_in held (xr_core x') (in_Tag i) = changed (\<lambda>e. map_option (sent i) (?g e)) (held_in held (xr_core x) (in_Tag i))"
    unfolding delivered_def Let_def assms(10,11) by blast+
  have "changed ?g m (GetEmail u) = entitled_account (xe_uuid E) i u \<and>
      changed (\<lambda>e. map_option (sent i) (?g e)) h (GetEmail u) = sent i (entitled_account (xe_uuid E) i u)" if "u \<in> set users" for u m h
    using granted_distinct [OF assms(7) that, of "xe_uuid E" i] by (simp add: changed_def)
  moreover have "changed ?g m e = m e \<and> changed (\<lambda>e. map_option (sent i) (?g e)) h e = h e" if "e \<notin> GetEmail ` set users" for e m h
  proof -
    have "?g e = None" using that granted_None by metis
    then show ?thesis by (simp add: changed_def)
  qed
  ultimately show ?thesis using d by (cases "in_exclude i") simp_all
qed


text \<open>A process that keeps its tables as documented, one that refuses removals, and a backend over them.\<close>

type_synonym demo_process = "string \<Rightarrow> string \<rightharpoonup> account_msg"

fun demo_alter :: "bool \<Rightarrow> string \<Rightarrow> user_operation \<Rightarrow> demo_process \<Rightarrow> err \<times> demo_process" where
  "demo_alter obeys tag (AddUserOperation l email m) p = (None, p(tag := (p tag)(email \<mapsto> m)))"
| "demo_alter obeys tag (RemoveUserOperation email) p = 
     (if \<not> obeys then (Some ''deadline exceeded'', p)
      else if p tag email = None then (Some ''user not found'', p)
      else (None, p(tag := (p tag)(email := None))))"

definition demo_xe :: "bool \<Rightarrow> (demo_process, jmap) xray_env" where
  "demo_xe obeys = \<lparr>xe_uuid = Some, xe_reparse = Inr, xe_marshal = (\<lambda>_. None), xe_version = Inr ''25.1.1'', xe_debug = (False, None), xe_pipe = None,
     xe_logfile = None, xe_exec = (\<lambda>_. Inr (\<lambda>_ _. None)), xe_packs = (\<lambda>_. None), xe_alter = demo_alter obeys, xe_unreachable = ''unavailable''\<rparr>"

definition demo_xray :: "demo_process \<Rightarrow> (demo_process, jmap) xray" where
  "demo_xray p = \<lparr>xr_config = demo_config\<lparr>xc_Inbounds := [demo_inbound ''tr'' ''trojan'']\<rparr>,
     xr_core = \<lparr>co_version = [], co_process = Some (p, False), co_restarting = False, co_stopping = False, co_logsChan = [],
       co_logsCap = 1, co_logPhase = LogPhaseRuntime, co_startupLogs = None, co_startupLogSize = 1, co_startupFailure = [], co_diagnostics = False,
       co_runtimeLogs = newStartupLogRing 1, co_unixSocketPaths = [], co_logger = True, co_cancelFunc = True\<rparr>,
     xr_open = True, xr_metricPort = 1, xr_cancelled = False\<rparr>"

definition demo_trojan :: user_msg where
  "demo_trojan = \<lparr>u_Email = ''a'', u_Proxies = Some (no_proxies\<lparr>px_Trojan := Some \<lparr>tr_Password = ''s''\<rparr>\<rparr>), u_Inbounds = [''tr'']\<rparr>"

lemma demo_api_law: "api_law (demo_xe True) (\<lambda>p. p)" "removals_heard (demo_xe True) (\<lambda>p. p)"
  by (auto simp: api_law_def removals_heard_def demo_xe_def split: if_splits)

lemmas demo_xray_defs = demo_xray_def demo_config_def demo_inbound_def demo_xe_def demo_trojan_def

lemma demo_sync_runs: "\<exists>x'. xray_SyncUser (demo_xe True) demo_trojan (demo_xray (\<lambda>_ _. None)) = Some (None, x')"
  by (simp add: xray_SyncUser_def sync_inbound_def demo_xray_defs RemoveInboundUser_def AddInboundUser_def AlertInbound_def
      isActiveInbound_def setupUserAccount_def account_defs msg_defs in_method_def at_key_def Let_def)

theorem xray_api_delivers_witness:
  "\<exists>x'. xray_SyncUser (demo_xe True) demo_trojan (demo_xray (\<lambda>_ _. None)) = Some (None, x') \<and>
     the_clients (inbounds_of x' ! 0) ''a'' = Some (TrojanAccount ''a'' 0 ''s'') \<and>
     held_in (\<lambda>p. p) (xr_core x') ''tr'' ''a'' = Some (TrojanMsg ''s'')"
proof -
  let ?x = "demo_xray (\<lambda>_ _. None)"
  obtain x' where x': "xray_SyncUser (demo_xe True) demo_trojan ?x = Some (None, x')" using demo_sync_runs by blast
  have i: "inbounds_of ?x ! 0 = demo_inbound ''tr'' ''trojan''" "0 < length (inbounds_of ?x)" by (simp_all add: demo_xray_def)
  have pre: "co_Started (xr_core ?x)" "tags_ok (inbounds_of ?x)" "list_all sound_method (inbounds_of ?x)"
    by (simp_all add: demo_xray_defs co_Started_def tags_ok_def sound_method_def is_2022_def in_method_def at_key_def)
  have "entitled_account (xe_uuid (demo_xe True)) (demo_inbound ''tr'' ''trojan'') (Some demo_trojan) = Some (TrojanAccount ''a'' 0 ''s'')"
    by (simp add: entitled_account_eq isActiveInbound_def setupUserAccount_def account_defs msg_defs demo_trojan_def demo_inbound_def Let_def)
  moreover have "GetEmail (Some demo_trojan) = ''a''" "in_Tag (demo_inbound ''tr'' ''trojan'') = ''tr''" "\<not> in_exclude (demo_inbound ''tr'' ''trojan'')"
    by (simp_all add: msg_defs demo_trojan_def demo_inbound_def)
  ultimately show ?thesis
    using xray_api_delivers [OF demo_api_law range_order_sorted pre, of "[Some demo_trojan]" x' 0 "demo_inbound ''tr'' ''trojan''" "inbounds_of x' ! 0"] x' i
    by (auto simp: sent_def)
qed

text \<open>
  The node drops the answer to a removal. When the process does not carry one out, the user who lost
  the inbound keeps access although the call reports success.
\<close>

lemma refused_removal_unnoticed:
  "\<exists>x'. xray_SyncUser (demo_xe False) (demo_trojan\<lparr>u_Inbounds := []\<rparr>) (demo_xray (\<lambda>tag. [''a'' \<mapsto> TrojanMsg ''s''])) = Some (None, x') \<and>
     held_in (\<lambda>p. p) (xr_core x') ''tr'' ''a'' = Some (TrojanMsg ''s'')"
  by (simp add: xray_SyncUser_def sync_inbound_def demo_xray_defs RemoveInboundUser_def AlertInbound_def isActiveInbound_def held_in_def Let_def)

end
