(* ===== verification/Xray_Logs.thy ===== *)
theory Xray_Logs
  imports Xray_Core
begin

text \<open>
  The log ring of the Xray backend as a refinement of the list of all lines it was given: whatever was
  added before, the tail of the ring is the end of that list.
\<close>

text \<open>The lines a ring of a given capacity still holds after a history of lines.\<close>

definition recent :: "nat \<Rightarrow> 'a list \<Rightarrow> 'a list" where
  "recent k hist = drop (length hist - k) hist"

definition ring_holds :: "log_ring \<Rightarrow> string list \<Rightarrow> bool" where
  "ring_holds r hist \<longleftrightarrow>
     (let cap = length (lr_lines r) in
      0 < cap \<and> lr_next r = length hist mod cap \<and> lr_full r = (cap \<le> length hist) \<and>
      (\<forall>j < length hist. length hist \<le> j + cap \<longrightarrow> lr_lines r ! (j mod cap) = hist ! j))"

lemma ring_holds_new: "ring_holds (newStartupLogRing n) []"
  by (simp add: ring_holds_def newStartupLogRing_def)

lemma ring_holds_reset: "ring_holds r hist \<Longrightarrow> ring_holds (ring_reset r) []"
  by (simp add: ring_holds_def ring_reset_def Let_def)

lemma mod_neq_near:
  fixes j n cap :: nat
  assumes "j < n" "n < j + cap"
  shows "j mod cap \<noteq> n mod cap"
proof
  assume "j mod cap = n mod cap"
  then have "cap dvd n - j" using assms by (metis less_imp_le mod_eq_dvd_iff_nat)
  with assms show False by (auto dest: dvd_imp_le)
qed

lemma ring_holds_add:
  assumes "ring_holds r hist"
  shows "ring_holds (ring_add line r) (hist @ [line])"
proof -
  let ?cap = "length (lr_lines r)" and ?n = "length hist"
  have h: "0 < ?cap" "lr_next r = ?n mod ?cap" "lr_full r = (?cap \<le> ?n)"
    "\<And>j. j < ?n \<Longrightarrow> ?n \<le> j + ?cap \<Longrightarrow> lr_lines r ! (j mod ?cap) = hist ! j"
    using assms by (auto simp: ring_holds_def Let_def)
  have nxt: "(lr_next r + 1) mod ?cap = Suc ?n mod ?cap" by (simp add: h(2) mod_Suc_eq)
  have full: "(lr_full r \<or> Suc ?n mod ?cap = 0) = (?cap \<le> Suc ?n)"
  proof -
    have "Suc ?n mod ?cap \<noteq> 0" if "Suc ?n < ?cap" using that by simp
    moreover have "Suc ?n mod ?cap = 0" if "Suc ?n = ?cap" using that by simp
    ultimately show ?thesis unfolding h(3) by (metis le_Suc_eq not_le)
  qed
  have cells: "((lr_lines r)[lr_next r := line]) ! (j mod ?cap) = (hist @ [line]) ! j"
    if "j < Suc ?n" "Suc ?n \<le> j + ?cap" for j
  proof (cases "j = ?n")
    case True
    then show ?thesis using h(1,2) by simp
  next
    case False
    with that have "j < ?n" "?n < j + ?cap" by auto
    then show ?thesis using mod_neq_near [of j ?n ?cap] h by (simp add: nth_append)
  qed
  show ?thesis using h(1) nxt full cells by (simp add: ring_holds_def ring_add_def Let_def)
qed

lemma ring_holds_run: "ring_holds (foldl (\<lambda>r line. ring_add line r) (newStartupLogRing n) ls) ls"
proof (induction ls rule: rev_induct)
  case Nil
  show ?case by (simp add: ring_holds_new)
next
  case (snoc l ls)
  then show ?case by (simp add: ring_holds_add)
qed

lemma length_ring_add [simp]: "length (lr_lines (ring_add line r)) = length (lr_lines r)"
  by (simp add: ring_add_def Let_def)

lemma length_ring_run: "length (lr_lines (foldl (\<lambda>r line. ring_add line r) (newStartupLogRing n) ls)) = (if n \<le> 0 then 1 else nat n)"
proof (induction ls rule: rev_induct)
  case Nil
  show ?case by (simp add: newStartupLogRing_def)
next
  case (snoc l ls)
  then show ?case by simp
qed

text \<open>How many lines a call asks for, and gets.\<close>

definition wanted :: "int \<Rightarrow> nat \<Rightarrow> nat" where
  "wanted n cnt = (if n \<le> 0 \<or> n > int cnt then cnt else nat n)"

lemma ring_tail_recent:
  assumes "ring_holds r hist"
  shows "ring_tail n r = recent (wanted n (min (length (lr_lines r)) (length hist))) hist"
proof -
  let ?cap = "length (lr_lines r)" and ?n = "length hist"
  define cnt where "cnt = min ?cap ?n"
  define m where "m = wanted n cnt"
  have h: "0 < ?cap" "lr_next r = ?n mod ?cap" "lr_full r = (?cap \<le> ?n)"
    "\<And>j. j < ?n \<Longrightarrow> ?n \<le> j + ?cap \<Longrightarrow> lr_lines r ! (j mod ?cap) = hist ! j"
    using assms by (auto simp: ring_holds_def Let_def)
  have c: "(if lr_full r then ?cap else lr_next r) = cnt" using h by (auto simp: cnt_def)
  have m: "m \<le> cnt" by (auto simp: m_def wanted_def)
  define oldest where "oldest = (if lr_full r then lr_next r else 0)"
  have cell: "lr_lines r ! ((oldest + (cnt - m) + i) mod ?cap) = hist ! (?n - m + i)" if i: "i < m" for i
  proof -
    have "(oldest + (cnt - m) + i) mod ?cap = (?n - m + i) mod ?cap"
    proof (cases "?cap \<le> ?n")
      case True
      then have "cnt = ?cap" "oldest = ?n mod ?cap" using h(2,3) by (simp_all add: cnt_def oldest_def)
      moreover have "(?n + (?cap - m) + i) mod ?cap = (?n - m + i) mod ?cap"
      proof -
        have "?n + (?cap - m) + i = (?n - m + i) + ?cap" using m True \<open>cnt = ?cap\<close> by simp
        then show ?thesis by (simp only: mod_add_self2)
      qed
      ultimately show ?thesis by (metis mod_add_left_eq)
    next
      case False
      then show ?thesis using h(3) by (simp add: cnt_def oldest_def)
    qed
    moreover have "?n \<le> ?n - m + i + ?cap" "?n - m + i < ?n" using m i by (auto simp: cnt_def)
    ultimately show ?thesis using h(4) by metis
  qed
  have "ring_tail n r = map (\<lambda>i. hist ! (?n - m + i)) [0..<m]"
  proof (cases "cnt = 0")
    case True
    then show ?thesis using c m by (simp add: ring_tail_def)
  next
    case False
    have "ring_tail n r = map (\<lambda>i. lr_lines r ! ((oldest + (cnt - m) + i) mod ?cap)) [0..<m]"
      using False by (simp add: ring_tail_def c Let_def m_def wanted_def oldest_def)
    then show ?thesis using cell by simp
  qed
  also have "\<dots> = drop (?n - m) hist"
    using m by (intro nth_equalityI) (auto simp: cnt_def)
  finally show ?thesis by (simp add: recent_def m_def cnt_def)
qed

text \<open>
  Whatever lines the process has written, the tail the node shows of a log ring is the end of them,
  in order: as many as asked for, up to the size of the ring, and everything the ring still has when
  none or too many are asked for.
\<close>

lemma log_ring_keeps_last:
  "ring_tail n (foldl (\<lambda>r line. ring_add line r) (newStartupLogRing k) ls) =
     recent (wanted n (min (if k \<le> 0 then 1 else nat k) (length ls))) ls"
  using ring_tail_recent [OF ring_holds_run] by (simp only: length_ring_run)

end
