(* ===== verification/Xray_Restart.thy ===== *)
theory Xray_Restart
  imports Xray_Users Xray_Logs
begin

text \<open>
  Restarts of the Xray process: what a start runs and lists for a synchronised set of users, a core
  that died comes back, and a running one is left alone until its API failed ten times in a row.
\<close>

section \<open>What a start runs\<close>

text \<open>The document a configuration is written as, and that the process runs it.\<close>

definition written :: "'r xray_config \<Rightarrow> 'r xray_config" where
  "written c = doc_of (c\<lparr>xc_Log := map_option (\<lambda>l. l\<lparr>lg_AccessLog := [], lg_ErrorLog := []\<rparr>) (xc_Log c)\<rparr>)"

definition runs_config :: "('p, 'r) xray_env \<Rightarrow> ('p, 'r) xray \<Rightarrow> bool" where
  "runs_config E x \<longleftrightarrow> (\<exists>p b. co_process (xr_core x) = Some (p, b) \<and> xe_exec E (Some (written (xr_config x))) = Inr p)"

text \<open>What the node keeps of its inbounds besides what it writes into their settings.\<close>

definition accounts_of :: "'r xray_config \<Rightarrow> (string \<times> bool \<times> string \<times> (string \<rightharpoonup> account) option) list" where
  "accounts_of c = map (\<lambda>i. (in_Tag i, in_exclude i, in_Protocol i, in_clients i)) (xc_Inbounds c)"

lemma accounts_of_length: "accounts_of c = accounts_of c' \<Longrightarrow> length (xc_Inbounds c) = length (xc_Inbounds c')"
  unfolding accounts_of_def by (drule arg_cong [of _ _ length]) simp

lemma write_clients_attrs:
  "in_Tag (write_clients rg n i) = in_Tag i" "in_exclude (write_clients rg n i) = in_exclude i"
  "in_Protocol (write_clients rg n i) = in_Protocol i" "in_clients (write_clients rg n i) = in_clients i"
  by (simp_all add: write_clients_def Let_def)

definition prepared :: "ranger \<Rightarrow> 'r xray_config \<Rightarrow> 'r xray_config" where
  "prepared rg cfg = snd (ToBytes rg (snd (GetLogFiles cfg)))"

lemma prepared_inbounds:
  "xc_Inbounds (prepared rg cfg) = map (\<lambda>n. write_clients rg n (xc_Inbounds cfg ! n)) [0..<length (xc_Inbounds cfg)]"
  by (simp add: prepared_def ToBytes_def GetLogFiles_def Let_def)

lemma accounts_prepared [simp]: "accounts_of (prepared rg cfg) = accounts_of cfg"
  by (rule nth_equalityI) (simp_all add: accounts_of_def prepared_inbounds write_clients_attrs)

lemma ToBytes_written: "fst (ToBytes rg (snd (GetLogFiles cfg))) = written (prepared rg cfg)"
  by (simp add: prepared_def ToBytes_def written_def Let_def)

lemma co_Start_config: "co_Start E rg cfg c = (e, cfg', c') \<Longrightarrow> cfg' = prepared rg cfg"
  by (auto simp: co_Start_def prepared_def Let_def case_prod_unfold split: if_splits sum.splits)

definition marshals :: "('p, 'r) xray_env \<Rightarrow> bool" where
  "marshals E \<longleftrightarrow> (\<forall>d. xe_marshal E d = None)"

lemma co_Start_runs:
  assumes "marshals E" "co_Start E rg cfg c = (None, cfg', c')"
  shows "\<exists>p. co_process c' = Some (p, False) \<and> xe_exec E (Some (written cfg')) = Inr p"
  using assms ToBytes_written [of rg cfg] co_Start_config [OF assms(2)]
  by (auto simp: co_Start_def marshals_def Let_def case_prod_unfold split: if_splits sum.splits)

lemma co_Restart_config: "co_Restart E rg cfg c = (e, cfg', c') \<Longrightarrow> accounts_of cfg' = accounts_of cfg"
  by (auto simp: co_Restart_def dest!: co_Start_config split: if_splits prod.splits)

lemma co_Restart_runs:
  assumes "marshals E" "co_Restart E rg cfg c = (None, cfg', c')"
  shows "cfg' = prepared rg cfg" and "\<exists>p. co_process c' = Some (p, False) \<and> xe_exec E (Some (written cfg')) = Inr p"
proof -
  obtain c1 where s: "co_Start E rg cfg (co_Stop (c\<lparr>co_restarting := True\<rparr>)) = (None, cfg', c1)" "c' = c1\<lparr>co_restarting := False\<rparr>"
    using assms(2) by (auto simp: co_Restart_def split: if_splits prod.splits)
  show "cfg' = prepared rg cfg" by (rule co_Start_config [OF s(1)])
  show "\<exists>p. co_process c' = Some (p, False) \<and> xe_exec E (Some (written cfg')) = Inr p" using co_Start_runs [OF assms(1) s(1)] s(2) by simp
qed

text \<open>Waiting for the API changes logs and notices exits, but never which process there is.\<close>

definition which :: "'p core \<Rightarrow> 'p option" where
  "which c = map_option fst (co_process c)"

lemma which_simps [simp]:
  "which (recordProcessLog l c) = which c" "which (SwitchToRuntimeLogPhase c) = which c"
  by (simp_all add: which_def recordProcessLog_def captureStartupLogLine_def captureRuntimeLogLine_def offer_line_def
      RecordStartupLog_def RecordRuntimeLog_def SwitchToRuntimeLogPhase_def DisableStartupDiagnostics_def)

lemma which_captures [simp]: "which (captureProcessLogs lines c) = which c"
  unfolding captureProcessLogs_def by (induction lines arbitrary: c) simp_all

lemma which_exit [simp]: "which (proc_exit e c) = which c"
proof -
  have "which (handleProcessExit e c) = which c" for c :: "'a core" by (simp add: handleProcessExit_def Let_def split: option.split)
  then show ?thesis by (simp add: proc_exit_def which_def option.map_comp comp_def case_prod_unfold)
qed

lemma which_status: "checkXrayStatus ts es c = (v, c') \<Longrightarrow> which c' = which c"
proof (induction ts es c arbitrary: c' rule: checkXrayStatus.induct)
  case (6 ts answer es c)
  obtain v1 c1 where a: "api_tick ts answer c = (v1, c1)" by fastforce
  then have "which c1 = which c" by (auto simp: api_tick_def split: sum.splits option.splits if_splits)
  with 6 a show ?case by (cases v1) auto
qed (auto split: option.splits)

lemma which_runs: "which (xr_core x) = Some p \<Longrightarrow> xe_exec E (Some (written (xr_config x))) = Inr p \<Longrightarrow> runs_config E x"
  by (auto simp: which_def runs_config_def)


section \<open>Synchronisation with a restart\<close>

definition restore_failed :: "string \<Rightarrow> bool" where
  "restore_failed e \<longleftrightarrow> (\<exists>a b. e = a @ ''; failed to restore previous xray config: '' @ b)"

definition reparses :: "('p, 'r) xray_env \<Rightarrow> bool" where
  "reparses E \<longleftrightarrow> (\<forall>d d'. xe_reparse E d = Inr d' \<longrightarrow> d' = d)"

lemma original_by_tag_nth:
  assumes "distinct (map in_Tag is)" "n < length is"
  shows "original_by_tag is (in_Tag (is ! n)) = Some (is ! n)"
  using map_of_rev_distinct [of in_Tag "is" "\<lambda>i. i" "in_Tag (is ! n)" "is ! n"] assms nth_mem [OF assms(2)]
  by (simp add: original_by_tag_def rev_map)

lemma cloneAccount_id: "cloneAccount = (\<lambda>a. a)"
  by (rule ext) simp

lemma cloneClients_same: "cloneClients (in_clients i) = the_clients i"
  by (auto simp: cloneClients_def the_clients_def comp_def cloneAccount_id option.map_ident split: option.split)

lemma Clone_spec:
  assumes "reparses E" "distinct (map in_Tag (xc_Inbounds c))" "Clone (xe_reparse E) c = Inr cand"
  shows "xc_Inbounds cand = map (\<lambda>i. i\<lparr>in_clients := Some (the_clients i)\<rparr>) (xc_Inbounds c)"
proof -
  have cand: "cand = (doc_of c)\<lparr>xc_Inbounds := map (restore_inbound (original_by_tag (xc_Inbounds c))) (xc_Inbounds (doc_of c))\<rparr>"
    using assms(1,3) by (auto simp: Clone_def reparses_def split: sum.splits)
  show ?thesis
  proof (rule nth_equalityI)
    show "length (xc_Inbounds cand) = length (map (\<lambda>i. i\<lparr>in_clients := Some (the_clients i)\<rparr>) (xc_Inbounds c))"
      by (simp add: cand doc_of_def)
    fix n assume "n < length (xc_Inbounds cand)"
    then have n: "n < length (xc_Inbounds c)" by (simp add: cand doc_of_def)
    let ?i = "xc_Inbounds c ! n"
    have "xc_Inbounds cand ! n = restore_inbound (original_by_tag (xc_Inbounds c)) (?i\<lparr>in_exclude := False, in_clients := None\<rparr>)"
      using n by (simp add: cand doc_of_def)
    also have "\<dots> = ?i\<lparr>in_clients := Some (the_clients ?i)\<rparr>"
      using original_by_tag_nth [OF assms(2) n] by (simp add: restore_inbound_def cloneClients_same)
    finally show "xc_Inbounds cand ! n = map (\<lambda>i. i\<lparr>in_clients := Some (the_clients i)\<rparr>) (xc_Inbounds c) ! n" using n by simp
  qed
qed

text \<open>After a full synchronisation an inbound has the entitled accounts of the list, and no others.\<close>

definition entitled_to :: "(string \<Rightarrow> string option) \<Rightarrow> inbound \<Rightarrow> user list \<Rightarrow> (string \<rightharpoonup> account)" where
  "entitled_to uuid i users = changed (granted uuid i users) Map.empty"

lemma sync_all:
  "distinct (map GetEmail users) \<Longrightarrow>
   foldl (sync_client uuid i) m users = (\<lambda>e. case granted uuid i users e of Some (Some a) \<Rightarrow> Some a | _ \<Rightarrow> m e)"
proof (induction users arbitrary: m)
  case (Cons u us)
  have out: "granted uuid i us (GetEmail u) = None" using Cons.prems granted_None by (metis distinct.simps(2) list.set_map list.simps(9))
  have "foldl (sync_client uuid i) m (u # us) =
      (\<lambda>e. case granted uuid i us e of Some (Some a) \<Rightarrow> Some a | _ \<Rightarrow> sync_client uuid i m u e)"
    using Cons by simp
  also have "\<dots> = (\<lambda>e. case granted uuid i (u # us) e of Some (Some a) \<Rightarrow> Some a | _ \<Rightarrow> m e)"
  proof
    fix e
    show "(case granted uuid i us e of Some (Some a) \<Rightarrow> Some a | _ \<Rightarrow> sync_client uuid i m u e) =
      (case granted uuid i (u # us) e of Some (Some a) \<Rightarrow> Some a | _ \<Rightarrow> m e)"
      using out by (cases "e = GetEmail u")
        (auto simp: sync_client_entitled map_add_def split: option.splits)
  qed
  finally show ?case .
qed simp

lemma in_syncUsers_clients:
  assumes "distinct (map GetEmail users)"
  shows "the_clients (in_syncUsers uuid users i) = entitled_to uuid i users"
  by (auto simp: in_syncUsers_def the_clients_def sync_all [OF assms] entitled_to_def changed_def split: option.split)

lemma entitled_to_granted: "entitled_to uuid i users e = Some a \<longleftrightarrow> granted uuid i users e = Some (Some a)"
  by (auto simp: entitled_to_def changed_def split: option.splits)

lemma granted_user: "granted uuid i users e = Some r \<Longrightarrow> \<exists>u \<in> set users. e = GetEmail u"
  using granted_None [of uuid i users e] by auto

lemma entitled_to_fits:
  assumes "distinct (map GetEmail users)" "entitled_to uuid i users e = Some a"
  shows "account_fits i a" and "acc_GetEmail a = e"
proof -
  have g: "granted uuid i users e = Some (Some a)" using assms(2) by (simp only: entitled_to_granted)
  obtain u where u: "u \<in> set users" "e = GetEmail u" using granted_user [OF g] by blast
  have "entitled_account uuid i u = Some a" using granted_distinct [OF assms(1) u(1), of uuid i] g u(2) by simp
  then show "account_fits i a" "acc_GetEmail a = e" using entitled_account_fits u(2) by simp_all
qed

lemma finite_entitled_to: "finite (dom (entitled_to uuid i users))"
proof (rule finite_subset)
  show "dom (entitled_to uuid i users) \<subseteq> GetEmail ` set users"
  proof
    fix e assume "e \<in> dom (entitled_to uuid i users)"
    then obtain a where "entitled_to uuid i users e = Some a" by blast
    then have "granted uuid i users e = Some (Some a)" by (simp only: entitled_to_granted)
    from granted_user [OF this] show "e \<in> GetEmail ` set users" by blast
  qed
qed simp

text \<open>The accounts are in the list the process is started with, each once.\<close>

definition lists_accounts :: "inbound \<Rightarrow> (string \<rightharpoonup> account) \<Rightarrow> bool" where
  "lists_accounts i m \<longleftrightarrow>
     (\<exists>xs. at_key (in_Settings i) ''clients'' = Some (JArr (map account_json xs)) \<and> distinct xs \<and> set xs = ran m)"

lemma present_some: "(\<And>k. k \<in> set ks \<Longrightarrow> m k \<noteq> None) \<Longrightarrow> present (map m ks) = map (\<lambda>k. the (m k)) ks"
proof (induction ks)
  case (Cons k ks)
  then obtain v where "m k = Some v" by fastforce
  with Cons show ?case by simp
qed simp

lemma fits_known: "account_fits i a \<Longrightarrow> known_protocol i"
  by (cases a) (auto simp: known_protocol_def)

lemma write_clients_lists:
  assumes "range_order rg" "\<not> in_exclude i" "finite (dom (the_clients i))"
    and fits: "\<And>e a. the_clients i e = Some a \<Longrightarrow> account_fits i a \<and> acc_GetEmail a = e"
  shows "lists_accounts (write_clients rg n i) (the_clients i)"
proof (cases "the_clients i = Map.empty")
  case True
  then show ?thesis using assms(2) by (simp add: lists_accounts_def write_clients_def at_key_def Let_def exI [of _ "[]"])
next
  case False
  then have known: "known_protocol i" using fits fits_known by (metis ext not_None_eq)
  let ?ks = "keys_of rg n (the_clients i)"
  let ?xs = "client_list ?ks i"
  have ks: "set ?ks = dom (the_clients i)" "distinct ?ks" using assms(1,3) by (simp_all add: gomap_simps)
  have "present (map (the_clients i) ?ks) = map (\<lambda>k. the (the_clients i k)) ?ks" by (rule present_some) (auto simp: ks(1) dom_def)
  moreover have "account_fits i (the (the_clients i k))" if "k \<in> set ?ks" for k using that fits by (auto simp: ks(1))
  ultimately have xs: "?xs = map (\<lambda>k. the (the_clients i k)) ?ks" by (simp add: client_list_def filter_id_conv)
  have "inj_on (\<lambda>k. the (the_clients i k)) (dom (the_clients i))" by (rule inj_onI) (metis domD fits option.sel)
  then have "distinct ?xs" using ks by (simp add: xs distinct_map)
  moreover have "set ?xs = ran (the_clients i)" by (force simp: xs ks(1) ran_def image_iff)
  moreover have "at_key (in_Settings (write_clients rg n i)) ''clients'' = Some (JArr (map account_json ?xs))"
    using assms(2) False known by (simp add: write_clients_def at_key_def Let_def)
  ultimately show ?thesis unfolding lists_accounts_def by blast
qed


lemma synced_inbound:
  assumes "reparses E" "range_order rg" "distinct (map in_Tag (inbounds_of x))" "distinct (map GetEmail users)"
    and "Clone (xe_reparse E) (xr_config x) = Inr cand" "n < length (inbounds_of x)"
    and "i = inbounds_of x ! n" "j = xc_Inbounds (prepared rg (cfg_syncUsers (xe_uuid E) users cand)) ! n"
  shows "in_Tag j = in_Tag i \<and> in_exclude j = in_exclude i \<and> (in_exclude i \<longrightarrow> the_clients j = the_clients i) \<and>
    (\<not> in_exclude i \<longrightarrow> the_clients j = entitled_to (xe_uuid E) i users \<and> lists_accounts j (entitled_to (xe_uuid E) i users))"
proof -
  let ?c = "i\<lparr>in_clients := Some (the_clients i)\<rparr>"
  let ?s = "if in_exclude i then ?c else in_syncUsers (xe_uuid E) users ?c"
  have inb: "xc_Inbounds (cfg_syncUsers (xe_uuid E) users cand) ! n = ?s"
    using Clone_spec [OF assms(1,3,5)] assms(6,7) by (simp add: cfg_syncUsers_def)
  have j: "j = write_clients rg n ?s"
    using assms(6,8) inb Clone_spec [OF assms(1,3,5)] by (simp add: prepared_inbounds cfg_syncUsers_def)
  have same: "same_inbound i ?c" by (simp add: same_inbound_def)
  have ent: "entitled_to (xe_uuid E) ?c users = entitled_to (xe_uuid E) i users" by (simp only: entitled_to_def granted_same [OF same])
  have cl: "the_clients j = the_clients ?s" by (simp add: j the_clients_def write_clients_attrs)
  have "the_clients ?c = the_clients i" by (simp add: the_clients_def)
  moreover have sync: "the_clients (in_syncUsers (xe_uuid E) users ?c) = entitled_to (xe_uuid E) i users"
    using in_syncUsers_clients [OF assms(4)] ent by simp
  moreover have "lists_accounts (write_clients rg n (in_syncUsers (xe_uuid E) users ?c)) (entitled_to (xe_uuid E) i users)" if "\<not> in_exclude i"
  proof -
    let ?i' = "in_syncUsers (xe_uuid E) users ?c"
    have "same_inbound i ?i'" by (simp add: same_inbound_def in_syncUsers_def)
    then have "account_fits ?i' a = account_fits i a" for a
      using same_inbound_attrs [of i ?i'] in_method_same [of i ?i'] by (cases a) simp_all
    then have "lists_accounts (write_clients rg n ?i') (the_clients ?i')"
      using entitled_to_fits [OF assms(4)] finite_entitled_to that assms(2)
      by (intro write_clients_lists) (simp_all add: sync, simp add: in_syncUsers_def)
    then show ?thesis by (simp only: sync)
  qed
  ultimately show ?thesis unfolding cl by (simp add: j write_clients_attrs in_syncUsers_def)
qed


section \<open>Health\<close>

text \<open>The rounds of the health check while the core is down, each with what the host lets it do.\<close>

definition can_start :: "('p, 'r) xray_env \<Rightarrow> bool" where
  "can_start E \<longleftrightarrow> \<not> (fst (xe_debug E) \<and> snd (xe_debug E) \<noteq> None) \<and> xe_pipe E = None \<and> xe_logfile E = None \<and> (\<forall>d. \<exists>p. xe_exec E d = Inr p)"

definition cannot_start :: "('p, 'r) xray_env \<Rightarrow> bool" where
  "cannot_start E \<longleftrightarrow> (fst (xe_debug E) \<and> snd (xe_debug E) \<noteq> None) \<or> xe_pipe E \<noteq> None \<or> xe_logfile E \<noteq> None \<or> (\<forall>d. \<exists>e. xe_exec E d = Inl e)"

definition health_round :: "ranger \<Rightarrow> health \<times> ('p, 'r) xray \<Rightarrow> ('p, 'r) xray_env \<Rightarrow> health \<times> ('p, 'r) xray" where
  "health_round rg st E = (case st of (h, x) \<Rightarrow> health_restart E rg (health_check SawFailure h x) x)"

lemma co_Stop_down: "\<not> co_Started (co_Stop c)" "co_restarting (co_Stop c) = co_restarting c"
  by (auto simp: co_Stop_def co_Started_def SwitchToRuntimeLogPhase_def DisableStartupDiagnostics_def split: option.splits)

lemma co_Start_cannot: "cannot_start E \<Longrightarrow> \<not> co_Started c \<Longrightarrow> co_Start E rg cfg c = (e, cfg', c') \<Longrightarrow> e \<noteq> None \<and> \<not> co_Started c'"
  by (auto simp: cannot_start_def co_Start_def Let_def case_prod_unfold co_Started_def setStartupLogPhase_def EnableStartupDiagnostics_def
      split: if_splits sum.splits) (metis Inl_Inr_False)+

lemma co_Start_can: "can_start E \<Longrightarrow> \<not> co_Started c \<Longrightarrow> co_Start E rg cfg c = (e, cfg', c') \<Longrightarrow> e = None \<and> co_Started c'"
  by (auto simp: can_start_def co_Start_def Let_def case_prod_unfold co_Started_def split: if_splits sum.splits) (metis Inl_Inr_False)+

lemma restart_outcome:
  assumes "\<not> co_restarting (xr_core x)" "xray_Restart E rg x = (e, x')"
  shows "(cannot_start E \<longrightarrow> e \<noteq> None \<and> \<not> co_Started (xr_core x')) \<and> (can_start E \<longrightarrow> e = None \<and> co_Started (xr_core x')) \<and>
    \<not> co_restarting (xr_core x') \<and> accounts_of (xr_config x') = accounts_of (xr_config x) \<and> xr_cancelled x' = xr_cancelled x \<and>
    (marshals E \<longrightarrow> e = None \<longrightarrow> runs_config E x')"
proof -
  let ?c = "co_Stop ((xr_core x)\<lparr>co_restarting := True\<rparr>)"
  obtain cfg c1 where s: "co_Start E rg (xr_config x) ?c = (e, cfg, c1)"
    and x': "x' = x\<lparr>xr_core := c1\<lparr>co_restarting := False\<rparr>, xr_config := cfg\<rparr>"
    using assms by (auto simp: xray_Restart_def restartCoreWithConfig_def co_Restart_def split: prod.splits)
  have "\<exists>p. co_process c1 = Some (p, False) \<and> xe_exec E (Some (written cfg)) = Inr p" if "marshals E" "e = None"
    using co_Start_runs [OF that(1)] s that(2) by blast
  then have "marshals E \<longrightarrow> e = None \<longrightarrow> runs_config E x'" by (auto simp: runs_config_def x')
  moreover have "co_Started (c1\<lparr>co_restarting := False\<rparr>) = co_Started c1" by (simp add: co_Started_def)
  ultimately show ?thesis
    using co_Start_cannot [OF _ co_Stop_down(1) s] co_Start_can [OF _ co_Stop_down(1) s] co_Start_config [OF s] by (simp add: x')
qed

definition down :: "('p, 'r) xray \<Rightarrow> bool" where
  "down x \<longleftrightarrow> \<not> co_Started (xr_core x) \<and> \<not> co_restarting (xr_core x) \<and> \<not> xr_cancelled x"

lemma failing_checks:
  assumes "list_all cannot_start Es" "down x"
  shows "\<exists>k x'. foldl (health_round rg) (HIdle n, x) Es = (HIdle k, x') \<and> down x' \<and> accounts_of (xr_config x') = accounts_of (xr_config x)"
  using assms
proof (induction Es arbitrary: n x)
  case (Cons E Es)
  obtain e x1 where r: "xray_Restart E rg x = (e, x1)" by fastforce
  from Cons.prems have d: "\<not> co_restarting (xr_core x)" "\<not> co_Started (xr_core x)" "\<not> xr_cancelled x" "cannot_start E" by (simp_all add: down_def)
  note o1 = restart_outcome [OF d(1) r]
  then obtain err where e: "e = Some err" using d(4) by auto
  have "health_round rg (HIdle n, x) E = (HIdle (Suc n), x1)" using d r e by (simp add: health_round_def)
  moreover have "down x1" using o1 d by (simp add: down_def)
  ultimately show ?case using Cons.IH [of x1 "Suc n"] Cons.prems(1) o1 by auto
qed auto

text \<open>A core that answers is left alone; failures are counted until they make ten in a row.\<close>

fun failures_in_a_row :: "health_seen list \<Rightarrow> nat" where
  "failures_in_a_row [] = 0"
| "failures_in_a_row (SawFailure # ss) = Suc (failures_in_a_row ss)"
| "failures_in_a_row (s # ss) = 0"

definition health_rounds :: "('p, 'r) xray \<Rightarrow> health_seen list \<Rightarrow> health" where
  "health_rounds x seen = foldl (\<lambda>h s. health_check s h x) (HIdle 0) seen"

lemma health_patience:
  assumes "co_Started (xr_core x)" "\<not> xr_cancelled x" "SawCanceled \<notin> set seen"
    and "\<forall>k \<le> length seen. failures_in_a_row (rev (take k seen)) < 10"
  shows "health_rounds x seen = HIdle (failures_in_a_row (rev seen))"
  using assms(3,4)
proof (induction seen rule: rev_induct)
  case Nil
  show ?case by (simp add: health_rounds_def)
next
  case (snoc s ss)
  have "failures_in_a_row (rev (take k ss)) < 10" if "k \<le> length ss" for k
    using snoc.prems(2) that by (auto dest: spec [of _ k])
  then have ih: "health_rounds x ss = HIdle (failures_in_a_row (rev ss))" using snoc by simp
  have "failures_in_a_row (rev (ss @ [s])) < 10" using snoc.prems(2) by (auto dest: spec [of _ "length (ss @ [s])"])
  then show ?case using ih assms(1,2) snoc.prems(1) by (cases s) (simp_all add: health_rounds_def)
qed

text \<open>
  C32: The health check brings an Xray core back: however many attempts fail first, the first round in
  which the host can start the process leaves it running on the configuration the backend holds, with
  the accounts untouched. A core that runs is not restarted as long as its API does not fail ten times
  in a row; at the tenth failure in a row it is.
\<close>

theorem xray_recovers:
  assumes "down x" "list_all cannot_start Es" "can_start E" "marshals E"
    and "co_Started (xr_core y)" "\<not> xr_cancelled y" "SawCanceled \<notin> set seen" "\<forall>k \<le> length seen. failures_in_a_row (rev (take k seen)) < 10"
  shows "(\<exists>x'. foldl (health_round rg) (HIdle n, x) (Es @ [E]) = (HIdle 0, x') \<and> co_Started (xr_core x') \<and> runs_config E x' \<and>
      accounts_of (xr_config x') = accounts_of (xr_config x)) \<and>
    health_rounds y seen = HIdle (failures_in_a_row (rev seen)) \<and>
    health_check SawFailure (health_rounds y seen) y =
      (if failures_in_a_row (rev seen) = 9 then HRestart 10 else HIdle (Suc (failures_in_a_row (rev seen))))"
proof -
  obtain k x1 where f: "foldl (health_round rg) (HIdle n, x) Es = (HIdle k, x1)" "down x1" "accounts_of (xr_config x1) = accounts_of (xr_config x)"
    using failing_checks [OF assms(2,1)] by blast
  obtain e x2 where r: "xray_Restart E rg x1 = (e, x2)" by fastforce
  have d: "\<not> co_restarting (xr_core x1)" "\<not> co_Started (xr_core x1)" "\<not> xr_cancelled x1" using f(2) by (simp_all add: down_def)
  note o1 = restart_outcome [OF d(1) r]
  have "foldl (health_round rg) (HIdle n, x) (Es @ [E]) = (HIdle 0, x2)" using f(1) d r o1 assms(3) by (simp add: health_round_def)
  then have "\<exists>x'. foldl (health_round rg) (HIdle n, x) (Es @ [E]) = (HIdle 0, x') \<and> co_Started (xr_core x') \<and> runs_config E x' \<and>
      accounts_of (xr_config x') = accounts_of (xr_config x)" using o1 assms(3,4) f(3) by auto
  moreover note p = health_patience [OF assms(5-8)]
  moreover have "failures_in_a_row (rev seen) < 10" using assms(8) by (auto dest: spec [of _ "length seen"])
  ultimately show ?thesis using assms(5,6) by auto
qed


section \<open>Concrete backends\<close>

lemma apply_succeeds:
  assumes "can_start E" "\<not> co_restarting (xr_core x)"
  shows "\<exists>x'. applyConfigWithRestart E rg ts [SApiTick (Inr s)] es' cand x = (Some None, x')"
proof -
  obtain e cfg c1 where st: "co_Start E rg cand (co_Stop ((xr_core x)\<lparr>co_restarting := True\<rparr>)) = (e, cfg, c1)" by (metis prod_cases3)
  have "e = None" using co_Start_can [OF assms(1) co_Stop_down(1) st] by simp
  then show ?thesis using st assms(2) by (simp add: applyConfigWithRestart_def restartCoreWithConfig_def co_Restart_def api_tick_def)
qed

lemma demo_xe_ok: "marshals (demo_xe b)" "reparses (demo_xe b)" "can_start (demo_xe b)"
  by (simp_all add: marshals_def reparses_def can_start_def demo_xe_def)

definition dead_xray :: "(demo_process, jmap) xray" where
  "dead_xray = (demo_xray (\<lambda>_ _. None))\<lparr>xr_core := proc_exit None (xr_core (demo_xray (\<lambda>_ _. None)))\<rparr>"

lemma dead_xray_down: "down dead_xray"
  by (simp add: down_def dead_xray_def demo_xray_def proc_exit_def handleProcessExit_def recordProcessLog_def captureRuntimeLogLine_def
      offer_line_def RecordRuntimeLog_def co_Started_def Let_def)

theorem xray_recovers_witness:
  "\<exists>x'. foldl (health_round sorted_ranger) (HIdle 0, dead_xray) [(demo_xe True)\<lparr>xe_pipe := Some ''no pipe''\<rparr>, demo_xe True] = (HIdle 0, x') \<and>
     co_Started (xr_core x') \<and> health_check SawFailure (health_rounds (demo_xray (\<lambda>_ _. None)) (replicate 9 SawFailure)) (demo_xray (\<lambda>_ _. None)) = HRestart 10"
proof -
  have pre: "list_all cannot_start [(demo_xe True)\<lparr>xe_pipe := Some ''no pipe''\<rparr>]" "co_Started (xr_core (demo_xray (\<lambda>_ _. None)))"
    "\<not> xr_cancelled (demo_xray (\<lambda>_ _. None))" "SawCanceled \<notin> set (replicate 9 SawFailure)"
    by (simp_all add: cannot_start_def demo_xe_def demo_xray_def co_Started_def)
  have row: "failures_in_a_row (replicate k SawFailure) = k" for k by (induction k) simp_all
  have "\<forall>k \<le> length (replicate 9 SawFailure). failures_in_a_row (rev (take k (replicate 9 SawFailure))) < 10" by (simp add: row)
  from xray_recovers [OF dead_xray_down pre(1) demo_xe_ok(3,1) pre(2-4) this, of sorted_ranger 0 True] show ?thesis by (auto simp: row)
qed


section \<open>Where the health check interferes\<close>

text \<open>
  The health check restarts on the configuration the backend holds, also while a synchronisation waits
  for its candidate to become ready. The API it then finds ready is that of the old configuration, and
  the backend takes the candidate for running.
\<close>

lemma health_restart_undoes_sync:
  assumes "marshals E" "restartCoreWithConfig E rg cand x = (None, cand', x1)" "xray_Restart E rg x1 = (None, x2)"
    and "checkXrayStatus ts [SApiTick (Inr s)] (xr_core x2) = (v, co)" "x3 = setConfig cand' (x2\<lparr>xr_core := co\<rparr>)"
  shows "v = Some None \<and> xr_config x3 = cand' \<and>
    (\<exists>p b old. co_process (xr_core x3) = Some (p, b) \<and> xe_exec E (Some (written old)) = Inr p \<and> accounts_of old = accounts_of (xr_config x))"
proof -
  have x1: "xr_config x1 = xr_config x" using assms(2) by (auto simp: restartCoreWithConfig_def split: prod.splits)
  have "\<not> co_restarting (xr_core x1)" using assms(2) by (auto simp: restartCoreWithConfig_def co_Restart_def split: if_splits prod.splits)
  from restart_outcome [OF this assms(3)] assms(1) have "runs_config E x2" "accounts_of (xr_config x2) = accounts_of (xr_config x)"
    by (simp_all add: x1)
  moreover have "v = Some None" "co_process co = co_process (xr_core x2)"
    using assms(4) by (auto simp: api_tick_def SwitchToRuntimeLogPhase_def DisableStartupDiagnostics_def)
  ultimately show ?thesis unfolding runs_config_def by (auto simp: assms(5) setConfig_def)
qed

text \<open>
  A restart the health check has decided on waits for the mutex of the backend. When a shutdown holds
  it, the core is started again after it was shut down, and nothing stops it any more.
\<close>

lemma health_revives_after_shutdown:
  assumes "can_start E" "\<not> co_restarting (xr_core x)"
  shows "\<exists>x'. health_restart E rg (HRestart k) (xray_Shutdown x) = (HIdle 0, x') \<and> co_Started (xr_core x') \<and> xr_cancelled x'"
proof -
  obtain e x' where r: "xray_Restart E rg (xray_Shutdown x) = (e, x')" by fastforce
  have "\<not> co_restarting (xr_core (xray_Shutdown x))" using assms(2) by (simp add: xray_Shutdown_def co_Stop_down)
  from restart_outcome [OF this r] assms(1) show ?thesis using r by (auto simp: xray_Shutdown_def)
qed

end
