(* ===== verification/Xray_Interleaving.thy ===== *)
theory Xray_Interleaving
  imports Xray_Restart
begin

text \<open>
  A full synchronisation of the Xray users beside the health check. The synchronisation gives up the
  mutex of the backend between the restart, the wait for the API and the storing of the configuration,
  and the health check may restart the process there. The two are the threads of one step relation.
\<close>

section \<open>The call and the health check as threads\<close>

text \<open>
  Where the call is: before the copy of the configuration, with its candidate, waiting for the candidate
  to become ready, about to store it, about to go back, waiting for the old configuration, or back.
  The health check reads \<^verbatim>\<open>x.config\<close> before it asks for the mutex: it holds the configuration of the
  backend, or one the backend has replaced in the meantime.
\<close>

datatype 'r call_at = At_Begin | At_Candidate "'r xray_config" | At_Wait "'r xray_config" | At_Store "'r xray_config"
  | At_Restore string | At_Restored string | At_End err

datatype 'r health_holds = Holds_None | Holds_Current | Holds_Replaced "'r xray_config"

record ('p, 'r) sync_run =
  sr_at :: "'r call_at"
  sr_x :: "('p, 'r) xray"
  sr_health :: "'r health_holds"
  sr_hit :: bool

abbreviation sr_cfg :: "('p, 'r) sync_run \<Rightarrow> 'r xray_config" where
  "sr_cfg s \<equiv> xr_config (sr_x s)"

abbreviation sr_core :: "('p, 'r) sync_run \<Rightarrow> 'p core" where
  "sr_core s \<equiv> xr_core (sr_x s)"

definition moves :: "'r call_at \<Rightarrow> ('p, 'r) xray \<Rightarrow> ('p, 'r) sync_run \<Rightarrow> ('p, 'r) sync_run" where
  "moves a x s = s\<lparr>sr_at := a, sr_x := x\<rparr>"

definition stores :: "'r xray_config \<Rightarrow> ('p, 'r) sync_run \<Rightarrow> ('p, 'r) sync_run" where
  "stores cfg s = s\<lparr>sr_at := At_End None, sr_x := setConfig cfg (sr_x s),
     sr_health := (case sr_health s of Holds_Current \<Rightarrow> Holds_Replaced (sr_cfg s) | h \<Rightarrow> h)\<rparr>"

definition under_way :: "('p, 'r) sync_run \<Rightarrow> bool" where
  "under_way s \<longleftrightarrow> sr_at s \<noteq> At_Begin \<and> (\<forall>r. sr_at s \<noteq> At_End r)"

text \<open>The error of a call that went back to the old configuration, from the failure and how going back ended.\<close>

definition back_after :: "string \<Rightarrow> err \<Rightarrow> string" where
  "back_after err v = (case v of None \<Rightarrow> err | Some e \<Rightarrow> err @ ''; failed to restore previous xray config: '' @ e)"

text \<open>
  A step of either thread. \<open>change\<close> is what the call does to its copy; the health check may run into
  any condition \<open>E'\<close> of the host. A restart of the health check marks the run.
\<close>

inductive sync_step :: "('p, 'r) xray_env \<Rightarrow> ranger \<Rightarrow> int \<Rightarrow> ('r xray_config \<Rightarrow> 'r xray_config) \<Rightarrow>
    ('p, 'r) sync_run \<Rightarrow> ('p, 'r) sync_run \<Rightarrow> bool"
  for E :: "('p, 'r) xray_env" and rg :: ranger and ts :: int and change :: "'r xray_config \<Rightarrow> 'r xray_config" where
  copy_fails: "sr_at s = At_Begin \<Longrightarrow> Clone (xe_reparse E) (sr_cfg s) = Inl err \<Longrightarrow>
    sync_step E rg ts change s (moves (At_End (Some err)) (sr_x s) s)"
| copies: "sr_at s = At_Begin \<Longrightarrow> Clone (xe_reparse E) (sr_cfg s) = Inr cand \<Longrightarrow>
    sync_step E rg ts change s (moves (At_Candidate (change cand)) (sr_x s) s)"
| restarts: "sr_at s = At_Candidate cand \<Longrightarrow> restartCoreWithConfig E rg cand (sr_x s) = (None, cand', x) \<Longrightarrow>
    sync_step E rg ts change s (moves (At_Wait cand') x s)"
| restart_fails: "sr_at s = At_Candidate cand \<Longrightarrow> restartCoreWithConfig E rg cand (sr_x s) = (Some err, cand', x) \<Longrightarrow>
    sync_step E rg ts change s (moves (At_Restore err) x s)"
| waits: "sr_at s = At_Wait cand \<Longrightarrow> checkXrayStatus ts [ev] (sr_core s) = (None, co) \<Longrightarrow>
    sync_step E rg ts change s (moves (At_Wait cand) ((sr_x s)\<lparr>xr_core := co\<rparr>) s)"
| is_ready: "sr_at s = At_Wait cand \<Longrightarrow> checkXrayStatus ts [ev] (sr_core s) = (Some None, co) \<Longrightarrow>
    sync_step E rg ts change s (moves (At_Store cand) ((sr_x s)\<lparr>xr_core := co\<rparr>) s)"
| not_ready: "sr_at s = At_Wait cand \<Longrightarrow> checkXrayStatus ts [ev] (sr_core s) = (Some (Some err), co) \<Longrightarrow>
    sync_step E rg ts change s (moves (At_Restore err) ((sr_x s)\<lparr>xr_core := co\<rparr>) s)"
| stored: "sr_at s = At_Store cand \<Longrightarrow> sync_step E rg ts change s (stores cand s)"
| goes_back: "sr_at s = At_Restore err \<Longrightarrow> restartCoreWithConfig E rg (sr_cfg s) (sr_x s) = (None, cfg, x) \<Longrightarrow>
    sync_step E rg ts change s (moves (At_Restored err) (setConfig cfg x) s)"
| going_back_fails: "sr_at s = At_Restore err \<Longrightarrow> restartCoreWithConfig E rg (sr_cfg s) (sr_x s) = (Some e, cfg, x) \<Longrightarrow>
    sync_step E rg ts change s (moves (At_End (Some (back_after err (Some e)))) (setConfig cfg x) s)"
| waits_back: "sr_at s = At_Restored err \<Longrightarrow> checkXrayStatus ts [ev] (sr_core s) = (None, co) \<Longrightarrow>
    sync_step E rg ts change s (moves (At_Restored err) ((sr_x s)\<lparr>xr_core := co\<rparr>) s)"
| is_back: "sr_at s = At_Restored err \<Longrightarrow> checkXrayStatus ts [ev] (sr_core s) = (Some None, co) \<Longrightarrow>
    sync_step E rg ts change s (moves (At_End (Some (back_after err None))) ((sr_x s)\<lparr>xr_core := co\<rparr>) s)"
| not_back: "sr_at s = At_Restored err \<Longrightarrow> checkXrayStatus ts [ev] (sr_core s) = (Some (Some e), co) \<Longrightarrow>
    sync_step E rg ts change s
      (moves (At_End (Some (back_after err (Some e)))) ((sr_x s)\<lparr>xr_core := co\<rparr>) s)"
| health_reads: "under_way s \<Longrightarrow> sr_health s = Holds_None \<Longrightarrow> sync_step E rg ts change s (s\<lparr>sr_health := Holds_Current\<rparr>)"
| health_restarts: "under_way s \<Longrightarrow> sr_health s = Holds_Current \<Longrightarrow> xray_Restart E' rg (sr_x s) = (e, x) \<Longrightarrow>
    sync_step E rg ts change s (s\<lparr>sr_x := x, sr_health := Holds_None, sr_hit := True\<rparr>)"
| health_restarts_old: "under_way s \<Longrightarrow> sr_health s = Holds_Replaced cfg \<Longrightarrow> restartCoreWithConfig E' rg cfg (sr_x s) = (e, cfg', x) \<Longrightarrow>
    sync_step E rg ts change s (s\<lparr>sr_x := x, sr_health := Holds_None, sr_hit := True\<rparr>)"

definition call_begins :: "('p, 'r) xray \<Rightarrow> 'r health_holds \<Rightarrow> ('p, 'r) sync_run" where
  "call_begins x h = \<lparr>sr_at = At_Begin, sr_x = x, sr_health = h, sr_hit = False\<rparr>"

abbreviation sync_steps :: "('p, 'r) xray_env \<Rightarrow> ranger \<Rightarrow> int \<Rightarrow> ('r xray_config \<Rightarrow> 'r xray_config) \<Rightarrow>
    ('p, 'r) sync_run \<Rightarrow> ('p, 'r) sync_run \<Rightarrow> bool" where
  "sync_steps E rg ts change \<equiv> (sync_step E rg ts change)\<^sup>*\<^sup>*"


section \<open>The sequential call is one of the runs\<close>

text \<open>
  Every event of a wait is a step, so a call that nothing interferes with is a run in which the health
  check does not move.
\<close>

lemma checkXrayStatus_step:
  "checkXrayStatus ts (ev # es) c =
     (case checkXrayStatus ts [ev] c of (None, c) \<Rightarrow> checkXrayStatus ts es c | (Some v, c) \<Rightarrow> (Some v, c))"
  by (cases ev) (simp_all split: option.splits prod.splits)

lemma moves_simps [simp]:
  "sr_at (moves a x s) = a" "sr_x (moves a x s) = x" "sr_hit (moves a x s) = sr_hit s" "sr_health (moves a x s) = sr_health s"
  "moves a x (moves a' x' s) = moves a x s"
  by (simp_all add: moves_def)

lemma wait_steps:
  "checkXrayStatus ts es (xr_core x) = (Some v, co) \<Longrightarrow>
   sync_steps E rg ts change (moves (At_Wait cand) x s)
     (moves (case v of None \<Rightarrow> At_Store cand | Some err \<Rightarrow> At_Restore err) (x\<lparr>xr_core := co\<rparr>) s)"
proof (induction es arbitrary: x)
  case (Cons ev es)
  obtain v1 co1 where st: "checkXrayStatus ts [ev] (xr_core x) = (v1, co1)" by fastforce
  let ?s = "moves (At_Wait cand) x s"
  show ?case
  proof (cases v1)
    case None
    have "sync_step E rg ts change ?s (moves (At_Wait cand) ((sr_x ?s)\<lparr>xr_core := co1\<rparr>) ?s)"
      using st None by (intro waits [of _ _ _ ev]) simp_all
    then have "sync_step E rg ts change ?s (moves (At_Wait cand) (x\<lparr>xr_core := co1\<rparr>) s)" by simp
    moreover have "sync_steps E rg ts change (moves (At_Wait cand) (x\<lparr>xr_core := co1\<rparr>) s)
      (moves (case v of None \<Rightarrow> At_Store cand | Some err \<Rightarrow> At_Restore err) (x\<lparr>xr_core := co1, xr_core := co\<rparr>) s)"
      using Cons.prems [unfolded checkXrayStatus_step [of ts ev es]] st None by (intro Cons.IH) simp
    ultimately show ?thesis by simp
  next
    case (Some w)
    then have w: "w = v" "co1 = co" using Cons.prems [unfolded checkXrayStatus_step [of ts ev es]] st by simp_all
    have "sync_step E rg ts change ?s
      (moves (case v of None \<Rightarrow> At_Store cand | Some err \<Rightarrow> At_Restore err) ((sr_x ?s)\<lparr>xr_core := co\<rparr>) ?s)"
      using is_ready [of ?s cand ts ev co E rg change] not_ready [of ?s cand ts ev _ co E rg change] st Some w by (cases v) simp_all
    then show ?thesis by (intro r_into_rtranclp) simp
  qed
qed simp

lemma wait_back_steps:
  "checkXrayStatus ts es (xr_core x) = (Some v, co) \<Longrightarrow>
   sync_steps E rg ts change (moves (At_Restored err) x s) (moves (At_End (Some (back_after err v))) (x\<lparr>xr_core := co\<rparr>) s)"
proof (induction es arbitrary: x)
  case (Cons ev es)
  obtain v1 co1 where st: "checkXrayStatus ts [ev] (xr_core x) = (v1, co1)" by fastforce
  let ?s = "moves (At_Restored err) x s"
  show ?case
  proof (cases v1)
    case None
    have "sync_step E rg ts change ?s (moves (At_Restored err) ((sr_x ?s)\<lparr>xr_core := co1\<rparr>) ?s)"
      using st None by (intro waits_back [of _ _ _ ev]) simp_all
    then have "sync_step E rg ts change ?s (moves (At_Restored err) (x\<lparr>xr_core := co1\<rparr>) s)" by simp
    moreover have "sync_steps E rg ts change (moves (At_Restored err) (x\<lparr>xr_core := co1\<rparr>) s)
      (moves (At_End (Some (back_after err v))) (x\<lparr>xr_core := co1, xr_core := co\<rparr>) s)"
      using Cons.prems [unfolded checkXrayStatus_step [of ts ev es]] st None by (intro Cons.IH) simp
    ultimately show ?thesis by simp
  next
    case (Some w)
    then have w: "w = v" "co1 = co" using Cons.prems [unfolded checkXrayStatus_step [of ts ev es]] st by simp_all
    have "sync_step E rg ts change ?s (moves (At_End (Some (back_after err v))) ((sr_x ?s)\<lparr>xr_core := co\<rparr>) ?s)"
      using is_back [of ?s err ts ev co E rg change] not_back [of ?s err ts ev _ co E rg change] st Some w by (cases v) simp_all
    then show ?thesis by (intro r_into_rtranclp) simp
  qed
qed simp

lemma restore_steps:
  assumes "restore_after err (restorePreviousConfig E rg ts es x) = (Some r, x')"
  shows "sync_steps E rg ts change (moves (At_Restore err) x s) (moves (At_End r) x' s)"
proof -
  let ?s = "moves (At_Restore err) x s"
  obtain e cfg y where rs: "restartCoreWithConfig E rg (xr_config x) x = (e, cfg, y)" by (metis prod_cases3)
  show ?thesis
  proof (cases e)
    case (Some f)
    then have "r = Some (back_after err (Some f))" "x' = setConfig cfg y"
      using assms rs by (simp_all add: restorePreviousConfig_def restore_after_def back_after_def)
    then show ?thesis using going_back_fails [of ?s err E rg f cfg y ts change] rs Some by (intro r_into_rtranclp) simp
  next
    case None
    obtain v co where st: "checkXrayStatus ts es (xr_core y) = (v, co)" by fastforce
    obtain w where w: "v = Some w" "r = Some (back_after err w)" "x' = setConfig cfg (y\<lparr>xr_core := co\<rparr>)"
      using assms rs None st
      by (cases v) (auto simp: restorePreviousConfig_def restore_after_def back_after_def split: option.splits)
    have "sync_step E rg ts change ?s (moves (At_Restored err) (setConfig cfg y) s)"
      using goes_back [of ?s err E rg cfg y ts change] rs None by simp
    moreover have "sync_steps E rg ts change (moves (At_Restored err) (setConfig cfg y) s)
        (moves (At_End (Some (back_after err w))) ((setConfig cfg y)\<lparr>xr_core := co\<rparr>) s)"
      using st w(1) by (intro wait_back_steps) (simp add: setConfig_def)
    moreover have "(setConfig cfg y)\<lparr>xr_core := co\<rparr> = setConfig cfg (y\<lparr>xr_core := co\<rparr>)" by (simp add: setConfig_def)
    ultimately show ?thesis unfolding w by (metis converse_rtranclp_into_rtranclp)
  qed
qed

lemma apply_steps:
  assumes "applyConfigWithRestart E rg ts es es' cand x = (Some r, x')" "sr_health s = Holds_None"
  shows "sync_steps E rg ts change (moves (At_Candidate cand) x s) (moves (At_End r) x' s)"
proof -
  let ?s = "moves (At_Candidate cand) x s"
  obtain e cfg y where rs: "restartCoreWithConfig E rg cand x = (e, cfg, y)" by (metis prod_cases3)
  show ?thesis
  proof (cases e)
    case (Some f)
    have "sync_step E rg ts change ?s (moves (At_Restore f) y s)" using restart_fails [of ?s cand E rg f cfg y ts change] rs Some by simp
    moreover have "sync_steps E rg ts change (moves (At_Restore f) y s) (moves (At_End r) x' s)"
      using assms(1) rs Some by (intro restore_steps [where es = es']) (simp add: applyConfigWithRestart_def)
    ultimately show ?thesis by simp
  next
    case None
    obtain v co where st: "checkXrayStatus ts es (xr_core y) = (v, co)" by fastforce
    have one: "sync_step E rg ts change ?s (moves (At_Wait cfg) y s)" using restarts [of ?s cand E rg cfg y ts change] rs None by simp
    obtain w where w: "v = Some w" using assms(1) rs None st by (cases v) (simp_all add: applyConfigWithRestart_def)
    note two = wait_steps [OF st [unfolded w], of E rg change cfg s]
    show ?thesis
    proof (cases w)
      case None
      then have "r = None" "x' = setConfig cfg (y\<lparr>xr_core := co\<rparr>)"
        using assms(1) rs \<open>e = None\<close> st w by (simp_all add: applyConfigWithRestart_def)
      then have "stores cfg (moves (At_Store cfg) (y\<lparr>xr_core := co\<rparr>) s) = moves (At_End r) x' s"
        using assms(2) by (simp add: stores_def moves_def)
      moreover have "sync_step E rg ts change (moves (At_Store cfg) (y\<lparr>xr_core := co\<rparr>) s)
          (stores cfg (moves (At_Store cfg) (y\<lparr>xr_core := co\<rparr>) s))" by (intro stored) simp
      ultimately have "sync_step E rg ts change (moves (At_Store cfg) (y\<lparr>xr_core := co\<rparr>) s) (moves (At_End r) x' s)" by simp
      with two None have "sync_steps E rg ts change (moves (At_Wait cfg) y s) (moves (At_End r) x' s)" by simp
      with one show ?thesis by (rule converse_rtranclp_into_rtranclp)
    next
      case (Some f)
      then have "sync_steps E rg ts change (moves (At_Restore f) (y\<lparr>xr_core := co\<rparr>) s) (moves (At_End r) x' s)"
        using assms(1) rs \<open>e = None\<close> st w by (intro restore_steps [where es = es']) (simp add: applyConfigWithRestart_def)
      with two Some have "sync_steps E rg ts change (moves (At_Wait cfg) y s) (moves (At_End r) x' s)" by simp
      with one show ?thesis by (rule converse_rtranclp_into_rtranclp)
    qed
  qed
qed

lemma xray_SyncUsers_run:
  assumes "xray_SyncUsers E rg ts es es' users x = (Some r, x')"
  shows "\<exists>s. sync_steps E rg ts (cfg_syncUsers (xe_uuid E) users) (call_begins x Holds_None) s \<and> sr_at s = At_End r \<and> sr_x s = x' \<and> \<not> sr_hit s"
proof (cases "Clone (xe_reparse E) (xr_config x)")
  case (Inl err)
  then show ?thesis using assms copy_fails [of "call_begins x Holds_None" E err]
    by (intro exI [of _ "moves (At_End r) x' (call_begins x Holds_None)"]) (auto simp: xray_SyncUsers_def call_begins_def)
next
  case (Inr cand)
  let ?s = "call_begins x Holds_None" and ?f = "cfg_syncUsers (xe_uuid E) users"
  have "sync_step E rg ts ?f ?s (moves (At_Candidate (?f cand)) x ?s)"
    using copies [of ?s E cand rg ts ?f] Inr by (simp add: call_begins_def)
  moreover have "sync_steps E rg ts ?f (moves (At_Candidate (?f cand)) x ?s) (moves (At_End r) x' ?s)"
    using assms Inr by (intro apply_steps [where es = es and es' = es']) (simp_all add: xray_SyncUsers_def call_begins_def)
  ultimately show ?thesis by (intro exI [of _ "moves (At_End r) x' ?s"]) (auto simp: call_begins_def)
qed


section \<open>What every run keeps\<close>

definition runs_written :: "('p, 'r) xray_env \<Rightarrow> 'r xray_config \<Rightarrow> 'p core \<Rightarrow> bool" where
  "runs_written E cfg co \<longleftrightarrow> (\<exists>p. which co = Some p \<and> xe_exec E (Some (written cfg)) = Inr p)"

lemma runs_config_written: "runs_config E x \<longleftrightarrow> runs_written E (xr_config x) (xr_core x)"
  by (auto simp: runs_config_def runs_written_def which_def)

lemma runs_written_waits: "checkXrayStatus ts es co = (v, co') \<Longrightarrow> runs_written E cfg co' = runs_written E cfg co"
  using which_status [of ts es co v co'] by (simp add: runs_written_def)

lemma restartCore_spec:
  assumes "restartCoreWithConfig E rg cfg x = (e, cfg', x')"
  shows "accounts_of cfg' = accounts_of cfg" "xr_config x' = xr_config x"
    and "marshals E \<Longrightarrow> e = None \<Longrightarrow> cfg' = prepared rg cfg \<and> runs_written E cfg' (xr_core x')"
proof -
  obtain co where r: "co_Restart E rg cfg (xr_core x) = (e, cfg', co)" "x' = x\<lparr>xr_core := co\<rparr>"
    using assms by (auto simp: restartCoreWithConfig_def split: prod.splits)
  show "accounts_of cfg' = accounts_of cfg" by (rule co_Restart_config [OF r(1)])
  show "xr_config x' = xr_config x" by (simp add: r(2))
  show "cfg' = prepared rg cfg \<and> runs_written E cfg' (xr_core x')" if "marshals E" "e = None"
    using co_Restart_runs [OF that(1) r(1) [unfolded that(2)]] r(2) by (auto simp: runs_written_def which_def)
qed

definition candidate_of :: "('p, 'r) xray_env \<Rightarrow> ('r xray_config \<Rightarrow> 'r xray_config) \<Rightarrow> ('p, 'r) xray \<Rightarrow> 'r xray_config \<Rightarrow> bool" where
  "candidate_of E change x cfg \<longleftrightarrow> (\<exists>cand. Clone (xe_reparse E) (xr_config x) = Inr cand \<and> cfg = change cand)"

definition on_course :: "('p, 'r) xray_env \<Rightarrow> ranger \<Rightarrow> ('r xray_config \<Rightarrow> 'r xray_config) \<Rightarrow> ('p, 'r) xray \<Rightarrow> ('p, 'r) sync_run \<Rightarrow> bool" where
  "on_course E rg change x0 s \<longleftrightarrow>
     (sr_at s \<noteq> At_End None \<longrightarrow> accounts_of (sr_cfg s) = accounts_of (xr_config x0)) \<and>
     (case sr_at s of
        At_Begin \<Rightarrow> sr_x s = x0
      | At_Candidate cand \<Rightarrow> candidate_of E change x0 cand
      | At_Wait cand \<Rightarrow> (\<exists>c. candidate_of E change x0 c \<and> cand = prepared rg c) \<and> (\<not> sr_hit s \<longrightarrow> runs_written E cand (sr_core s))
      | At_Store cand \<Rightarrow> (\<exists>c. candidate_of E change x0 c \<and> cand = prepared rg c) \<and> (\<not> sr_hit s \<longrightarrow> runs_written E cand (sr_core s))
      | At_Restore err \<Rightarrow> True
      | At_Restored err \<Rightarrow> \<not> sr_hit s \<longrightarrow> runs_config E (sr_x s)
      | At_End None \<Rightarrow> (\<exists>c. candidate_of E change x0 c \<and> sr_cfg s = prepared rg c) \<and> (\<not> sr_hit s \<longrightarrow> runs_config E (sr_x s))
      | At_End (Some e) \<Rightarrow> \<not> sr_hit s \<longrightarrow> runs_config E (sr_x s) \<or> restore_failed e \<or> sr_x s = x0)"

lemma restore_failedI: "restore_failed (back_after err (Some e))"
  unfolding restore_failed_def back_after_def option.case by blast

lemma xray_Restart_accounts: "xray_Restart E rg x = (e, x') \<Longrightarrow> accounts_of (xr_config x') = accounts_of (xr_config x)"
  using restartCore_spec(1) by (fastforce simp: xray_Restart_def split: prod.splits)

lemma on_course_health:
  assumes "on_course E rg change x0 s" "under_way s" "accounts_of (xr_config x) = accounts_of (sr_cfg s)"
  shows "on_course E rg change x0 (s\<lparr>sr_x := x, sr_health := h, sr_hit := True\<rparr>)"
  using assms by (auto simp: on_course_def under_way_def split: call_at.splits option.splits)

lemma on_course_step:
  assumes "sync_step E rg ts change s s'" "marshals E" "on_course E rg change x0 s"
  shows "on_course E rg change x0 s'"
  using assms(1)
proof cases
  case (restarts cand cand' x)
  then show ?thesis using restartCore_spec [OF restarts(3)] assms(2,3) by (auto simp: on_course_def)
next
  case (restart_fails cand err cand' x)
  then show ?thesis using restartCore_spec [OF restart_fails(3)] assms(3) by (simp add: on_course_def)
next
  case (goes_back err cfg x)
  then show ?thesis using restartCore_spec [OF goes_back(3)] assms(2,3) by (auto simp: on_course_def setConfig_def runs_config_written)
next
  case (going_back_fails err e cfg x)
  then show ?thesis using restartCore_spec(1) [OF going_back_fails(3)] assms(3) by (simp add: on_course_def setConfig_def restore_failedI)
next
  case (health_restarts E' e x)
  then show ?thesis using xray_Restart_accounts [OF health_restarts(4)] assms(3) by (simp add: on_course_health)
next
  case (health_restarts_old cfg E' e cfg' x)
  then show ?thesis using restartCore_spec(2) [OF health_restarts_old(4)] assms(3) by (simp add: on_course_health)
next
  case (not_back err ev e co)
  then show ?thesis using assms(3) by (simp add: on_course_def restore_failedI)
next
  case (stored cand)
  then show ?thesis using assms(3) by (auto simp: on_course_def stores_def setConfig_def runs_config_written)
next
  case health_reads
  then show ?thesis using assms(3) by (cases "sr_at s") (auto simp: on_course_def split: option.splits)
qed (use assms(3) in \<open>auto simp: on_course_def candidate_of_def runs_config_written runs_written_waits\<close>)

lemma on_course_steps:
  assumes "sync_steps E rg ts change s s'" "marshals E" "on_course E rg change x0 s"
  shows "on_course E rg change x0 s'"
  using assms by (induction rule: rtranclp_induct) (auto intro: on_course_step)

lemma on_course_begins: "on_course E rg change x (call_begins x h)"
  by (simp add: on_course_def call_begins_def)

section \<open>Synchronisation takes effect or is undone\<close>

text \<open>
  C30: A full synchronisation of the users, beside a health check that may restart the process between
  any two of its steps. When the call reports success, the configuration the backend holds gives every
  managed inbound the accounts its users are entitled to and no others, and lists each of them once in
  what a start writes; when it reports an error, the accounts are those of before. If no restart of the
  health check fell into the call, then after a success the process was started on exactly that
  configuration, and after an error it runs the configuration the backend holds unless the error says
  that restoring it failed or nothing was changed at all.
\<close>

theorem xray_sync_or_restore:
  assumes "marshals E" "reparses E" "range_order rg" "distinct (map in_Tag (inbounds_of x))" "distinct (map GetEmail users)"
    and "sync_steps E rg ts (cfg_syncUsers (xe_uuid E) users) (call_begins x h) s" "sr_at s = At_End r"
  shows "(r = None \<longrightarrow> (\<not> sr_hit s \<longrightarrow> runs_config E (sr_x s)) \<and> length (inbounds_of (sr_x s)) = length (inbounds_of x) \<and>
      (\<forall>n < length (inbounds_of x). let i = inbounds_of x ! n; j = inbounds_of (sr_x s) ! n in
         in_Tag j = in_Tag i \<and> in_exclude j = in_exclude i \<and> (in_exclude i \<longrightarrow> the_clients j = the_clients i) \<and>
         (\<not> in_exclude i \<longrightarrow> the_clients j = entitled_to (xe_uuid E) i users \<and> lists_accounts j (entitled_to (xe_uuid E) i users)))) \<and>
    (\<forall>e. r = Some e \<longrightarrow> accounts_of (sr_cfg s) = accounts_of (xr_config x) \<and>
      (\<not> sr_hit s \<longrightarrow> runs_config E (sr_x s) \<or> restore_failed e \<or> sr_x s = x))"
proof -
  have course: "on_course E rg (cfg_syncUsers (xe_uuid E) users) x s"
    by (rule on_course_steps [OF assms(6,1) on_course_begins])
  show ?thesis
  proof (cases r)
    case None
    then obtain cand where c: "Clone (xe_reparse E) (xr_config x) = Inr cand"
      "sr_cfg s = prepared rg (cfg_syncUsers (xe_uuid E) users cand)" "\<not> sr_hit s \<longrightarrow> runs_config E (sr_x s)"
      using course assms(7) by (auto simp: on_course_def candidate_of_def)
    have "length (inbounds_of (sr_x s)) = length (inbounds_of x)"
      using Clone_spec [OF assms(2,4) c(1)] by (simp add: c(2) prepared_inbounds cfg_syncUsers_def)
    then show ?thesis using None c(2,3) synced_inbound [OF assms(2-5) c(1) _ refl refl] by (simp add: Let_def)
  next
    case (Some e)
    then show ?thesis using course assms(7) by (simp add: on_course_def)
  qed
qed

theorem xray_sync_or_restore_witness:
  "\<exists>s. sync_steps (demo_xe True) sorted_ranger 200 (cfg_syncUsers (xe_uuid (demo_xe True)) [Some demo_trojan])
       (call_begins (demo_xray (\<lambda>_ _. None)) Holds_None) s \<and> sr_at s = At_End None \<and>
     runs_config (demo_xe True) (sr_x s) \<and> the_clients (inbounds_of (sr_x s) ! 0) ''a'' = Some (TrojanAccount ''a'' 0 ''s'')"
proof -
  let ?x = "demo_xray (\<lambda>_ _. None)" and ?i = "demo_inbound ''tr'' ''trojan''"
  have d: "distinct (map in_Tag (inbounds_of ?x))" "inbounds_of ?x ! 0 = ?i" "length (inbounds_of ?x) = 1" "\<not> co_restarting (xr_core ?x)"
    "\<not> in_exclude ?i" "distinct (map GetEmail [Some demo_trojan])"
    by (simp_all add: demo_xray_def demo_inbound_def)
  obtain cand where "Clone (xe_reparse (demo_xe True)) (xr_config ?x) = Inr cand" by (simp add: Clone_def demo_xe_def)
  then obtain x' where r: "xray_SyncUsers (demo_xe True) sorted_ranger 200 [SApiTick (Inr no_backend_stats)] [] [Some demo_trojan] ?x = (Some None, x')"
    using apply_succeeds [OF demo_xe_ok(3) d(4)] by (metis (no_types, lifting) xray_SyncUsers_def sum.simps(6))
  obtain s where s: "sync_steps (demo_xe True) sorted_ranger 200 (cfg_syncUsers (xe_uuid (demo_xe True)) [Some demo_trojan]) (call_begins ?x Holds_None) s"
    "sr_at s = At_End None" "sr_x s = x'" "\<not> sr_hit s" using xray_SyncUsers_run [OF r] by blast
  note t = xray_sync_or_restore [OF demo_xe_ok(1,2) range_order_sorted d(1,6) s(1,2)]
  have "entitled_account (xe_uuid (demo_xe True)) ?i (Some demo_trojan) = Some (TrojanAccount ''a'' 0 ''s'')" "GetEmail (Some demo_trojan) = ''a''"
    by (simp_all add: entitled_account_eq isActiveInbound_def setupUserAccount_def account_defs msg_defs demo_trojan_def demo_inbound_def Let_def)
  then have "entitled_to (xe_uuid (demo_xe True)) ?i [Some demo_trojan] ''a'' = Some (TrojanAccount ''a'' 0 ''s'')"
    by (simp add: entitled_to_def changed_def)
  then have "the_clients (inbounds_of (sr_x s) ! 0) ''a'' = Some (TrojanAccount ''a'' 0 ''s'')" using t d(2,3,5) by (simp add: Let_def)
  moreover have "runs_config (demo_xe True) (sr_x s)" using t s(4) by simp
  ultimately show ?thesis using s(1,2) by blast
qed

end
