(* ===== verification/Ipsec.thy ===== *)
theory Ipsec
  imports Node_Prelude
begin

text \<open>
  The strongSwan daemon all IPsec cores of a node share (\<^verbatim>\<open>backend/ipsec/charon.go\<close>). It is counted: the
  first \<^verbatim>\<open>Acquire\<close> starts it, the last \<^verbatim>\<open>Release\<close> stops it. The manager is the record \<open>charon\<close>; its
  field \<open>ch_alive\<close> says whether the process it started still runs, which the code does not look at again.
  Files, processes and the control socket answer through the record \<open>ipsec_env\<close>.
\<close>

record charon =
  ch_refs :: nat
  ch_process :: bool
  ch_alive :: bool

definition charon_none :: charon where
  "charon_none = \<lparr>ch_refs = 0, ch_process = False, ch_alive = False\<rparr>"

text \<open>
  \<open>ie_polls\<close> holds one entry for every round of the wait that begins before the deadline: whether the
  socket could be dialled, and whether the process had ended by the end of the round.
\<close>

record ipsec_env =
  ie_exists :: "string \<Rightarrow> bool"
  ie_start :: err
  ie_polls :: "(bool \<times> bool) list"
  ie_load :: "(string \<times> string) option"

definition firstExisting :: "(string \<Rightarrow> bool) \<Rightarrow> string list \<Rightarrow> string" where
  "firstExisting ex candidates = (case filter ex candidates of p # _ \<Rightarrow> p | [] \<Rightarrow> candidates ! 0)"

definition charonBinary :: "(string \<Rightarrow> bool) \<Rightarrow> string" where
  "charonBinary ex = firstExisting ex [''/usr/lib/ipsec/charon'', ''/usr/lib/strongswan/charon'', ''/usr/libexec/ipsec/charon'']"

definition swanctlBinary :: "(string \<Rightarrow> bool) \<Rightarrow> string" where
  "swanctlBinary ex = firstExisting ex [''/usr/sbin/swanctl'', ''/usr/bin/swanctl'']"

text \<open>The binaries are looked up once; \<open>ie_exists\<close> answers for that moment and for the check alike.\<close>

definition ipsec_CheckDeps :: "ipsec_env \<Rightarrow> err" where
  "ipsec_CheckDeps E =
     (case filter (\<lambda>p. \<not> ie_exists E p) [charonBinary (ie_exists E), swanctlBinary (ie_exists E)] of
        [] \<Rightarrow> None
      | p # _ \<Rightarrow> Some (''strongSwan is not installed on this node (missing '' @ p @ '')''))"

fun waitForSocket :: "(bool \<times> bool) list \<Rightarrow> err" where
  "waitForSocket [] = Some ''timed out waiting for the charon VICI socket''"
| "waitForSocket ((dialled, exited) # rest) =
     (if dialled then None
      else if exited then Some ''charon exited before the VICI socket was ready''
      else waitForSocket rest)"

definition startLocked :: "ipsec_env \<Rightarrow> charon \<Rightarrow> err \<times> charon" where
  "startLocked E m =
     (case ie_start E of
        Some e \<Rightarrow> (Some (''start charon: '' @ e), m)
      | None \<Rightarrow>
         (let m = m\<lparr>ch_process := True, ch_alive := True\<rparr> in
          case waitForSocket (ie_polls E) of
            Some e \<Rightarrow> (Some e, m\<lparr>ch_process := False, ch_alive := False\<rparr>)
          | None \<Rightarrow> (None, m)))"

definition ipsec_acquire :: "ipsec_env \<Rightarrow> charon \<Rightarrow> err \<times> charon" where
  "ipsec_acquire E m =
     (if ch_refs m > 0 then (None, m\<lparr>ch_refs := ch_refs m + 1\<rparr>)
      else case ipsec_CheckDeps E of
        Some e \<Rightarrow> (Some e, m)
      | None \<Rightarrow>
         (case startLocked E m of
            (Some e, m) \<Rightarrow> (Some e, m)
          | (None, m) \<Rightarrow> (None, m\<lparr>ch_refs := 1\<rparr>)))"

definition ipsec_release :: "charon \<Rightarrow> charon" where
  "ipsec_release m =
     (if ch_refs m = 0 then m
      else
        (let m = m\<lparr>ch_refs := ch_refs m - 1\<rparr> in
         if ch_refs m > 0 then m else m\<lparr>ch_process := False, ch_alive := (if ch_process m then False else ch_alive m)\<rparr>))"

definition ipsec_Running :: "charon \<Rightarrow> bool" where
  "ipsec_Running m \<longleftrightarrow> ch_refs m > 0 \<and> ch_process m"

definition ipsec_loadAll :: "ipsec_env \<Rightarrow> err" where
  "ipsec_loadAll E = map_option (\<lambda>(e, out). ''swanctl --load-all: '' @ e @ '': '' @ TrimSpace out) (ie_load E)"

text \<open>The daemon dies without being asked to.\<close>

definition charon_crash :: "charon \<Rightarrow> charon" where
  "charon_crash m = m\<lparr>ch_alive := False\<rparr>"


section \<open>Facts\<close>

text \<open>What holds of the manager between calls: a process exactly while somebody holds it.\<close>

definition charon_ok :: "charon \<Rightarrow> bool" where
  "charon_ok m \<longleftrightarrow> (ch_process m \<longleftrightarrow> ch_refs m > 0) \<and> (ch_alive m \<longrightarrow> ch_process m)"

lemma charon_ok_none [simp]: "charon_ok charon_none"
  by (simp add: charon_ok_def charon_none_def)

lemma acquire_cases:
  assumes "charon_ok m" "ipsec_acquire E m = (e, m')"
  shows "charon_ok m' \<and> ch_refs m' = (if e = None then ch_refs m + 1 else ch_refs m) \<and>
     (e \<noteq> None \<longrightarrow> ch_refs m = 0 \<and> m' = m) \<and> (ch_refs m = 0 \<longrightarrow> e = None \<longrightarrow> ch_alive m')"
proof (cases "ch_refs m > 0")
  case True
  with assms show ?thesis by (auto simp: ipsec_acquire_def charon_ok_def)
next
  case False
  with assms(1) have "ch_refs m = 0" "\<not> ch_process m" "\<not> ch_alive m" by (auto simp: charon_ok_def)
  then show ?thesis using assms(2)
    by (cases m) (auto simp: ipsec_acquire_def startLocked_def charon_ok_def Let_def split: option.splits prod.splits)
qed

lemma release_refs: "ch_refs (ipsec_release m) = ch_refs m - 1"
  by (simp add: ipsec_release_def Let_def)

lemma release_ok: "charon_ok m \<Longrightarrow> charon_ok (ipsec_release m)"
  by (auto simp: ipsec_release_def charon_ok_def Let_def)

lemma release_last_stops: "charon_ok m \<Longrightarrow> ch_refs m \<le> 1 \<Longrightarrow> \<not> ch_alive (ipsec_release m)"
  by (auto simp: ipsec_release_def charon_ok_def Let_def)

lemma release_alive: "ch_refs m > 1 \<Longrightarrow> ch_alive (ipsec_release m) = ch_alive m"
  by (simp add: ipsec_release_def Let_def)

lemma crash_ok: "charon_ok m \<Longrightarrow> charon_ok (charon_crash m)" "ch_refs (charon_crash m) = ch_refs m"
  by (simp_all add: charon_ok_def charon_crash_def)

text \<open>
  A daemon that died is not noticed: it is still reported as running, and the next core to ask for it
  is told that it has it.
\<close>

lemma dead_daemon_reported_running:
  assumes "charon_ok m" "ch_refs m > 0"
  shows "ipsec_Running (charon_crash m) \<and> fst (ipsec_acquire E (charon_crash m)) = None \<and>
     \<not> ch_alive (snd (ipsec_acquire E (charon_crash m)))"
  using assms by (simp add: ipsec_Running_def charon_crash_def ipsec_acquire_def charon_ok_def)

end
