(* ===== verification/L2tp.thy ===== *)
theory L2tp
  imports Go_Text Ipsec Stats_Tracker Backend_Composite Net_Ip
begin

text \<open>
  The L2TP/IPsec backend (\<^verbatim>\<open>backend/l2tp\<close>): its configuration, the users with their CHAP credentials, the
  records the hooks of pppd leave for sessions that begin and end, the files written for strongSwan, xl2tpd
  and pppd, the accounting of traffic, and the life of the server on the shared IPsec daemon.

  What the node changes on the host is the record \<open>l2_host\<close>: the two directories of session records, the
  files it writes, the processes it signalled and the state of the shared daemon. What the host answers is
  the record \<open>l2_env\<close>. Log lines are left out.
\<close>

section \<open>Configuration\<close>

record l2_config =
  lc_InboundTag :: string
  lc_ServerAddr :: string
  lc_PSK :: string
  lc_Pool :: string
  lc_LocalIP :: string
  lc_EgressInterface :: string
  lc_DNS :: "string list"
  lc_IKEProposals :: "string list"
  lc_ESPProposals :: "string list"
  lc_workDir :: string

definition firstHost :: "string \<Rightarrow> string" where
  "firstHost pool =
     (let cidr = takeWhile (\<lambda>ch. ch \<noteq> CHR ''/'') (TrimSpace pool);
          parts = Split cidr ''.''
      in if length parts \<noteq> 4 then cidr else Join (parts[3 := ''1'']) ''.'')"

definition l2_defaults :: "l2_config \<Rightarrow> l2_config" where
  "l2_defaults c = c\<lparr>lc_LocalIP := (if lc_LocalIP c = [] then firstHost (lc_Pool c) else lc_LocalIP c),
     lc_DNS := (if lc_DNS c = [] then [''1.1.1.1'', ''8.8.8.8''] else lc_DNS c),
     lc_IKEProposals := (if lc_IKEProposals c = [] then [''aes256-sha1-modp2048'', ''aes128-sha1-modp1024'', ''3des-sha1-modp1024'']
                         else lc_IKEProposals c),
     lc_ESPProposals := (if lc_ESPProposals c = [] then [''aes256-sha1'', ''aes128-sha1'', ''3des-sha1''] else lc_ESPProposals c)\<rparr>"

definition l2_NewConfig :: "(string \<Rightarrow> string + l2_config) \<Rightarrow> string \<Rightarrow> string + l2_config" where
  "l2_NewConfig unmarshal configStr =
     (if TrimSpace configStr = [] then Inl ''l2tp config string must not be empty''
      else case unmarshal configStr of
        Inl e \<Rightarrow> Inl (''failed to parse l2tp config: '' @ e)
      | Inr cfg \<Rightarrow>
         (if lc_InboundTag cfg = [] then Inl ''inbound_tag is required''
          else if lc_PSK cfg = [] then Inl ''psk is required''
          else if lc_Pool cfg = [] then Inl ''pool is required''
          else Inr (l2_defaults cfg)))"


section \<open>Users\<close>

record l2_entry =
  le_password :: string

record l2_users =
  lu_inboundTag :: string
  lu_users :: "string \<rightharpoonup> l2_entry"

definition l2_newUserStore :: "string \<Rightarrow> l2_users" where
  "l2_newUserStore inboundTag = \<lparr>lu_inboundTag = inboundTag, lu_users = Map.empty\<rparr>"

definition credsFor :: "user \<Rightarrow> (string \<times> string) option" where
  "credsFor u =
     (case GetIkev2 (GetProxies u) of
        None \<Rightarrow> None
      | Some ik \<Rightarrow> (if ik_Username ik = [] \<or> ik_Password ik = [] then None else Some (ik_Username ik, ik_Password ik)))"

definition l2_wantsInterface :: "l2_users \<Rightarrow> user \<Rightarrow> bool" where
  "l2_wantsInterface s u \<longleftrightarrow> (if credsFor u = None then False else lu_inboundTag s \<in> set (GetInbounds u))"

fun l2_next_users :: "l2_users \<Rightarrow> user list \<Rightarrow> (string \<rightharpoonup> l2_entry) \<Rightarrow> (string \<rightharpoonup> l2_entry)" where
  "l2_next_users s [] m = m"
| "l2_next_users s (u # us) m =
     (if \<not> l2_wantsInterface s u then l2_next_users s us m
      else case credsFor u of
        None \<Rightarrow> l2_next_users s us (m([] \<mapsto> \<lparr>le_password = []\<rparr>))
      | Some (username, password) \<Rightarrow> l2_next_users s us (m(username \<mapsto> \<lparr>le_password = password\<rparr>)))"

definition l2_replaceAll :: "ranger \<Rightarrow> user list \<Rightarrow> l2_users \<Rightarrow> string list \<times> l2_users" where
  "l2_replaceAll rg users s =
     (let nxt = l2_next_users s users Map.empty
      in (filter (\<lambda>username. nxt username = None) (keys_of rg 0 (lu_users s)), s\<lparr>lu_users := nxt\<rparr>))"

text \<open>The result is the name, whether its entry changed and whether it was removed.\<close>

definition l2_applyUser :: "user \<Rightarrow> l2_users \<Rightarrow> (string \<times> bool \<times> bool) \<times> l2_users" where
  "l2_applyUser u s =
     (if \<not> l2_wantsInterface s u then
        (let username = GetEmail u in
         if username = [] then (([], False, False), s)
         else ((username, False, lu_users s username \<noteq> None), s\<lparr>lu_users := (lu_users s)(username := None)\<rparr>))
      else
        (let (username, password) = (case credsFor u of None \<Rightarrow> ([], []) | Some c \<Rightarrow> c);
             e = \<lparr>le_password = password\<rparr>
         in ((username, lu_users s username \<noteq> Some e, False), s\<lparr>lu_users := (lu_users s)(username \<mapsto> e)\<rparr>)))"


section \<open>The host\<close>

text \<open>
  An entry of a directory in the order of names, with the text of a file that can be opened. A write either
  succeeds or fails and leaves some text behind.
\<close>

record dir_entry =
  de_Name :: string
  de_IsDir :: bool
  de_Content :: "string option"

datatype write_outcome = WOk | WFail string "string option"

record l2_env =
  lx_ipsec :: ipsec_env
  lx_comm :: "int \<Rightarrow> string option"
  lx_exists :: "string \<Rightarrow> bool"
  lx_read :: "string \<Rightarrow> string option"
  lx_open :: "string \<Rightarrow> err"
  lx_mkdir :: "string \<Rightarrow> err"
  lx_write :: "string \<Rightarrow> write_outcome"
  lx_remove :: "string \<Rightarrow> bool"
  lx_exec :: err
  lx_routed :: bool

record l2_host =
  lh_sessions :: "dir_entry list option"
  lh_finals :: "dir_entry list option"
  lh_files :: "string \<rightharpoonup> string"
  lh_signals :: "int list"
  lh_charon :: charon

definition l2_put :: "l2_env \<Rightarrow> string \<Rightarrow> string \<Rightarrow> l2_host \<Rightarrow> err \<times> l2_host" where
  "l2_put E path content h =
     (case lx_write E path of
        WOk \<Rightarrow> (None, h\<lparr>lh_files := (lh_files h)(path \<mapsto> content)\<rparr>)
      | WFail e left \<Rightarrow> (Some e, h\<lparr>lh_files := (lh_files h)(path := left)\<rparr>))"

definition l2_rm :: "l2_env \<Rightarrow> string \<Rightarrow> l2_host \<Rightarrow> l2_host" where
  "l2_rm E path h = (if lx_remove E path then h\<lparr>lh_files := (lh_files h)(path := None)\<rparr> else h)"

text \<open>The next step of a sequence that stops at the first error.\<close>

definition andthen :: "err \<times> 'h \<Rightarrow> ('h \<Rightarrow> err \<times> 'h) \<Rightarrow> err \<times> 'h" where
  "andthen r f = (case r of (Some e, h) \<Rightarrow> (Some e, h) | (None, h) \<Rightarrow> f h)"


section \<open>Sessions\<close>

definition sessionStateDir :: string where
  "sessionStateDir = ''/run/pg-l2tp/sessions''"

definition sessionFinalDir :: string where
  "sessionFinalDir = ''/run/pg-l2tp/final''"

definition chapSecretsPath :: string where
  "chapSecretsPath = ''/etc/ppp/chap-secrets''"

record l2_session =
  ls_user :: string
  ls_ifname :: string
  ls_tunnelIP :: string
  ls_clientIP :: string
  ls_tag :: string
  ls_pid :: int64
  ls_started :: int64

definition processIsPppd :: "l2_env \<Rightarrow> int \<Rightarrow> bool" where
  "processIsPppd E pid = (case lx_comm E pid of None \<Rightarrow> False | Some comm \<Rightarrow> Contains comm ''pppd'')"

definition sessionIsAlive :: "l2_env \<Rightarrow> l2_session \<Rightarrow> bool" where
  "sessionIsAlive E s =
     (if ls_pid s > 0 then processIsPppd E (ls_pid s) else lx_exists E (path_join [''/sys/class/net'', ls_ifname s]))"

definition session_line :: "l2_session \<Rightarrow> string \<Rightarrow> l2_session" where
  "session_line s line =
     (case Cut (TrimSpace line) ''='' of
        None \<Rightarrow> s
      | Some (k, v) \<Rightarrow>
         (if k = ''user'' then s\<lparr>ls_user := v\<rparr>
          else if k = ''tunnel_ip'' then s\<lparr>ls_tunnelIP := v\<rparr>
          else if k = ''client'' then s\<lparr>ls_clientIP := v\<rparr>
          else if k = ''tag'' then s\<lparr>ls_tag := v\<rparr>
          else if k = ''pid'' then s\<lparr>ls_pid := ParseInt64 v\<rparr>
          else if k = ''started'' then s\<lparr>ls_started := ParseInt64 v\<rparr>
          else s))"

definition no_session :: "string \<Rightarrow> l2_session" where
  "no_session ifname = \<lparr>ls_user = [], ls_ifname = ifname, ls_tunnelIP = [], ls_clientIP = [], ls_tag = [], ls_pid = 0, ls_started = 0\<rparr>"

definition parseSessionFile :: "string option \<Rightarrow> string \<Rightarrow> l2_session" where
  "parseSessionFile content ifname =
     (case content of
        None \<Rightarrow> no_session ifname
      | Some text \<Rightarrow> foldl session_line (no_session ifname) (fst (scan_lines text)))"

text \<open>The sessions of the entries and the entries that stay.\<close>

fun read_entries :: "l2_env \<Rightarrow> dir_entry list \<Rightarrow> l2_session list \<times> dir_entry list" where
  "read_entries E [] = ([], [])"
| "read_entries E (e # es) =
     (case read_entries E es of (out, kept) \<Rightarrow>
        (if de_IsDir e then (out, e # kept)
         else
           (let path = path_join [sessionStateDir, de_Name e]; s = parseSessionFile (de_Content e) (de_Name e)
            in if ls_user s = [] \<or> ls_ifname s = [] then (out, e # kept)
               else if \<not> sessionIsAlive E s then (out, if lx_remove E path then kept else e # kept)
               else (s # out, e # kept))))"

definition readSessions :: "l2_env \<Rightarrow> l2_host \<Rightarrow> l2_session list \<times> l2_host" where
  "readSessions E h =
     (case lh_sessions h of
        None \<Rightarrow> ([], h)
      | Some es \<Rightarrow> (case read_entries E es of (out, kept) \<Rightarrow> (out, h\<lparr>lh_sessions := Some kept\<rparr>)))"

record l2_final =
  fr_path :: string
  fr_user :: string
  fr_tag :: string
  fr_ifname :: string
  fr_rx :: int64
  fr_tx :: int64

definition final_line :: "l2_final \<Rightarrow> string \<Rightarrow> l2_final" where
  "final_line r line =
     (case Cut (TrimSpace line) ''='' of
        None \<Rightarrow> r
      | Some (k, v) \<Rightarrow>
         (if k = ''user'' then r\<lparr>fr_user := v\<rparr>
          else if k = ''tag'' then r\<lparr>fr_tag := v\<rparr>
          else if k = ''ifname'' then r\<lparr>fr_ifname := v\<rparr>
          else if k = ''rx'' then r\<lparr>fr_rx := ParseInt64 v\<rparr>
          else if k = ''tx'' then r\<lparr>fr_tx := ParseInt64 v\<rparr>
          else r))"

definition parseFinalRecord :: "string option \<Rightarrow> string \<Rightarrow> l2_final \<times> bool" where
  "parseFinalRecord content path =
     (let r = \<lparr>fr_path = path, fr_user = [], fr_tag = [], fr_ifname = [], fr_rx = 0, fr_tx = 0\<rparr> in
      case content of
        None \<Rightarrow> (r, False)
      | Some text \<Rightarrow> (let r = foldl final_line r (fst (scan_lines text)) in (r, fr_user r \<noteq> [] \<and> fr_ifname r \<noteq> [])))"

fun final_entries :: "l2_env \<Rightarrow> dir_entry list \<Rightarrow> l2_final list \<times> dir_entry list" where
  "final_entries E [] = ([], [])"
| "final_entries E (e # es) =
     (case final_entries E es of (out, kept) \<Rightarrow>
        (if de_IsDir e then (out, e # kept)
         else
           (let path = path_join [sessionFinalDir, de_Name e] in
            case parseFinalRecord (de_Content e) path of
              (r, ok) \<Rightarrow> if \<not> ok then (out, if lx_remove E path then kept else e # kept) else (r # out, e # kept))))"

definition readFinalRecords :: "l2_env \<Rightarrow> l2_host \<Rightarrow> l2_final list \<times> l2_host" where
  "readFinalRecords E h =
     (case lh_finals h of
        None \<Rightarrow> ([], h)
      | Some es \<Rightarrow> (case final_entries E es of (out, kept) \<Rightarrow> (sort_key fr_path out, h\<lparr>lh_finals := Some kept\<rparr>)))"

definition readCounter :: "l2_env \<Rightarrow> string \<Rightarrow> int64" where
  "readCounter E path = (case lx_read E path of None \<Rightarrow> 0 | Some b \<Rightarrow> ParseInt64 (TrimSpace b))"

definition ifaceBytes :: "l2_env \<Rightarrow> string \<Rightarrow> int64 \<times> int64" where
  "ifaceBytes E ifname =
     (let base = path_join [''/sys/class/net'', ifname, ''statistics'']
      in (readCounter E (path_join [base, ''rx_bytes'']), readCounter E (path_join [base, ''tx_bytes''])))"


section \<open>Server files\<close>

definition confFileName :: "l2_config \<Rightarrow> string" where
  "confFileName c = ''pg-l2tp-'' @ lc_InboundTag c @ ''.conf''"

definition swanctl_path :: "l2_config \<Rightarrow> string" where
  "swanctl_path c = path_join [''/etc/swanctl'', ''conf.d'', confFileName c]"

definition xl2tpdConfPath :: "l2_config \<Rightarrow> string" where
  "xl2tpdConfPath c = path_join [lc_workDir c, ''xl2tpd.conf'']"

definition pppOptionsPath :: "l2_config \<Rightarrow> string" where
  "pppOptionsPath c = path_join [lc_workDir c, ''ppp-options'']"

definition ipUpScriptPath :: "l2_config \<Rightarrow> string" where
  "ipUpScriptPath c = path_join [lc_workDir c, ''ip-up'']"

definition ipDownScriptPath :: "l2_config \<Rightarrow> string" where
  "ipDownScriptPath c = path_join [lc_workDir c, ''ip-down'']"

definition text_of :: "string list \<Rightarrow> string" where
  "text_of ls = concat (map (\<lambda>l. l @ nl) ls)"

definition ip_up_script :: "l2_config \<Rightarrow> string" where
  \<open>ip_up_script c = text_of
     [''#!/bin/sh'',
      ''# PasarGuard L2TP session accounting hook (managed; do not edit).'',
      ''IF="${IFNAME:-$PPP_IFACE}"'',
      ''REMOTE="${IPREMOTE:-$PPP_REMOTE}"'',
      ''[ -n "$PEERNAME" ] || exit 0'',
      ''[ -n "$IF" ] || exit 0'',
      ''d='' @ sessionStateDir,
      ''mkdir -p "$d"; umask 077'',
      ''{'',
      ''  echo "user=$PEERNAME"'',
      ''  echo "tunnel_ip=$REMOTE"'',
      ''  echo "client=$REMOTENUMBER"'',
      ''  echo "tag='' @ lc_InboundTag c @ ''"'',
      ''  echo "pid=${PPPD_PID:-0}"'',
      ''  echo "started=$(date +%s)"'',
      ''} > "$d/$IF"'']\<close>

definition ip_down_script :: string where
  \<open>ip_down_script = text_of
     [''#!/bin/sh'',
      ''# PasarGuard L2TP session accounting hook (managed; do not edit).'',
      ''IF="${IFNAME:-$PPP_IFACE}"'',
      ''[ -n "$IF" ] || exit 0'',
      ''d='' @ sessionStateDir,
      ''f="$d/$IF"'',
      ''if [ -f "$f" ]; then'',
      ''  user=$(sed -n 's/^user=//p' "$f")'',
      ''  tag=$(sed -n 's/^tag=//p' "$f")'',
      ''  s=/sys/class/net/$IF/statistics'',
      ''  rx=$(cat "$s/rx_bytes" 2>/dev/null)'',
      ''  tx=$(cat "$s/tx_bytes" 2>/dev/null)'',
      ''  [ -n "$rx" ] || rx="${BYTES_RCVD:-0}"'',
      ''  [ -n "$tx" ] || tx="${BYTES_SENT:-0}"'',
      ''  fin='' @ sessionFinalDir,
      ''  mkdir -p "$fin"; umask 077'',
      ''  {'',
      ''    echo "user=$user"'',
      ''    echo "tag=$tag"'',
      ''    echo "ifname=$IF"'',
      ''    echo "rx=$rx"'',
      ''    echo "tx=$tx"'',
      ''  } > "$fin/$IF.$$.$(date +%s)"'',
      ''fi'',
      ''rm -f "$f"'',
      ''exit 0'']\<close>

fun write_scripts :: "l2_env \<Rightarrow> l2_config \<Rightarrow> (string \<rightharpoonup> string) \<Rightarrow> string list \<Rightarrow> l2_host \<Rightarrow> err \<times> l2_host" where
  "write_scripts E c scripts [] h = (None, h)"
| "write_scripts E c scripts (path # paths) h =
     andthen (lx_mkdir E (lc_workDir c), h) (\<lambda>h.
     andthen (l2_put E path (getd [] scripts path) h) (write_scripts E c scripts paths))"

definition make_dir :: "dir_entry list option \<Rightarrow> dir_entry list option" where
  "make_dir d = (case d of None \<Rightarrow> Some [] | Some es \<Rightarrow> Some es)"

definition writeIPScripts :: "l2_env \<Rightarrow> ranger \<Rightarrow> l2_config \<Rightarrow> l2_host \<Rightarrow> err \<times> l2_host" where
  "writeIPScripts E rg c h =
     (let scripts = [ipUpScriptPath c \<mapsto> ip_up_script c, ipDownScriptPath c \<mapsto> ip_down_script] in
      andthen (write_scripts E c scripts (keys_of rg 0 scripts) h) (\<lambda>h.
      case lx_mkdir E sessionFinalDir of
        Some e \<Rightarrow> (Some e, h)
      | None \<Rightarrow>
         (let h = h\<lparr>lh_finals := make_dir (lh_finals h)\<rparr> in
          case lx_mkdir E sessionStateDir of
            Some e \<Rightarrow> (Some e, h)
          | None \<Rightarrow> (None, h\<lparr>lh_sessions := make_dir (lh_sessions h)\<rparr>))))"

definition swanctl_conf :: "l2_config \<Rightarrow> string" where
  "swanctl_conf c = text_of
     [''connections {'',
      ''    '' @ lc_InboundTag c @ ''-l2tp {'',
      ''        version = 1'',
      ''        proposals = '' @ Join (lc_IKEProposals c) '','',
      ''        encap = yes'',
      ''        rekey_time = 0'',
      ''        fragmentation = yes'',
      ''        local {'',
      ''            auth = psk'',
      ''        }'',
      ''        remote {'',
      ''            auth = psk'',
      ''        }'',
      ''        children {'',
      ''            '' @ lc_InboundTag c @ ''-l2tp {'',
      ''                esp_proposals = '' @ Join (lc_ESPProposals c) '','',
      ''                local_ts = dynamic[udp/l2tp]'',
      ''                remote_ts = dynamic[udp]'',
      ''                mode = transport'',
      ''                rekey_time = 0'',
      ''                dpd_action = clear'',
      ''            }'',
      ''        }'',
      ''    }'',
      ''}'',
      [],
      ''secrets {'',
      ''    ike-'' @ lc_InboundTag c @ ''-l2tp {'',
      ''        secret = '' @ go_quote (lc_PSK c),
      ''    }'',
      ''}'']"

definition writeSwanctl :: "l2_env \<Rightarrow> l2_config \<Rightarrow> l2_host \<Rightarrow> err \<times> l2_host" where
  "writeSwanctl E c h = l2_put E (swanctl_path c) (swanctl_conf c) h"


section \<open>The address range of clients\<close>

text \<open>\<^verbatim>\<open>IP.Mask\<close>; an empty result stands for nil.\<close>

definition IP_Mask :: "ip \<Rightarrow> ip \<Rightarrow> ip" where
  "IP_Mask m a =
     (let m = (if length m = 16 \<and> length a = 4 \<and> list_all (\<lambda>b. b = 255) (take 12 m) then drop 12 m else m)
      in if length a \<noteq> length m then [] else map (\<lambda>(x, y). and x y) (zip a m))"

text \<open>Both loops run from the last byte to the first.\<close>

fun inc_bytes :: "nat list \<Rightarrow> nat list" where
  "inc_bytes [] = []"
| "inc_bytes (b # bs) = (if b = 255 then 0 # inc_bytes bs else (b + 1) # bs)"

fun dec_bytes :: "nat list \<Rightarrow> nat list" where
  "dec_bytes [] = []"
| "dec_bytes (b # bs) = (if b \<noteq> 0 then (b - 1) # bs else 255 # dec_bytes bs)"

definition ip_inc :: "ip \<Rightarrow> ip" where
  "ip_inc a = rev (inc_bytes (rev a))"

definition ip_dec :: "ip \<Rightarrow> ip" where
  "ip_dec a = rev (dec_bytes (rev a))"

fun bytesCompare :: "ip \<Rightarrow> ip \<Rightarrow> int" where
  "bytesCompare (a # as) (b # bs) = (if a \<noteq> b then (if a < b then - 1 else 1) else bytesCompare as bs)"
| "bytesCompare _ _ = 0"

definition poolRange :: "string \<Rightarrow> string \<Rightarrow> string \<times> string" where
  "poolRange pool localIP =
     (case ParseCIDR (TrimSpace pool) of
        None \<Rightarrow> (localIP, localIP)
      | Some n \<Rightarrow>
         (case To4 (n_IP n) of
            None \<Rightarrow> (localIP, localIP)
          | Some ip4 \<Rightarrow>
             (let m = mask_ip (n_Ones n) (replicate (n_MaskLen n) 255);
                  network = IP_Mask m ip4;
                  bcast = map (\<lambda>i. or (network ! i) (255 - m ! i)) [0..<4];
                  start = ip_inc (ip_inc network);
                  stop = ip_dec bcast
              in if bytesCompare start stop > 0 then (localIP, localIP) else (IP_String start, IP_String stop))))"

definition xl2tpd_conf :: "l2_config \<Rightarrow> string" where
  "xl2tpd_conf c =
     (let (start, stop) = poolRange (lc_Pool c) (lc_LocalIP c) in text_of
     [''[global]'',
      ''port = 1701'',
      ''access control = no'',
      [],
      ''[lns default]'',
      ''ip range = '' @ start @ ''-'' @ stop,
      ''local ip = '' @ lc_LocalIP c,
      ''require chap = yes'',
      ''refuse pap = yes'',
      ''require authentication = yes'',
      ''name = '' @ lc_InboundTag c,
      ''pppoptfile = '' @ pppOptionsPath c,
      ''length bit = yes''])"

definition writeXl2tpdConf :: "l2_env \<Rightarrow> l2_config \<Rightarrow> l2_host \<Rightarrow> err \<times> l2_host" where
  "writeXl2tpdConf E c h = l2_put E (xl2tpdConfPath c) (xl2tpd_conf c) h"

definition ppp_options :: "l2_config \<Rightarrow> string" where
  "ppp_options c = text_of
     ([''require-mschap-v2''] @
      map (\<lambda>d. ''ms-dns '' @ d) (lc_DNS c) @
      [''asyncmap 0'', ''auth'', ''hide-password'', ''name '' @ lc_InboundTag c, ''proxyarp'', ''lcp-echo-interval 30'',
       ''lcp-echo-failure 4'', ''nodefaultroute'', ''mtu 1400'', ''mru 1400'', ''noccp'', ''noipv6'', ''novj'', ''novjccomp'',
       ''connect-delay 5000'', ''ip-up-script '' @ ipUpScriptPath c, ''ip-down-script '' @ ipDownScriptPath c])"

definition writePPPOptions :: "l2_env \<Rightarrow> l2_config \<Rightarrow> l2_host \<Rightarrow> err \<times> l2_host" where
  "writePPPOptions E c h = l2_put E (pppOptionsPath c) (ppp_options c) h"


section \<open>Credentials\<close>

text \<open>Comments, blank lines and entries whose second field is not the tag of this core.\<close>

definition foreign_line :: "string \<Rightarrow> string \<Rightarrow> bool" where
  "foreign_line tag line \<longleftrightarrow>
     (let fields = Fields line; trimmed = TrimSpace line
      in trimmed = [] \<or> HasPrefix trimmed ''#'' \<or> length fields < 2 \<or> fields ! 1 \<noteq> tag)"

definition chapSecretsWithoutTag :: "l2_env \<Rightarrow> l2_config \<Rightarrow> l2_host \<Rightarrow> string + string list" where
  "chapSecretsWithoutTag E c h =
     (case lx_open E chapSecretsPath of
        Some e \<Rightarrow> Inl e
      | None \<Rightarrow>
         (case lh_files h chapSecretsPath of
            None \<Rightarrow> Inr []
          | Some text \<Rightarrow>
             (case scan_lines text of (ls, long) \<Rightarrow>
                (if long then Inl ''bufio.Scanner: token too long'' else Inr (filter (foreign_line (lc_InboundTag c)) ls)))))"

definition chap_line :: "string \<Rightarrow> string \<Rightarrow> l2_entry \<Rightarrow> string" where
  "chap_line tag username e = go_quote username @ '' '' @ tag @ '' '' @ go_quote (le_password e) @ '' *''"

definition writeChapSecrets :: "l2_env \<Rightarrow> ranger \<Rightarrow> l2_config \<Rightarrow> l2_users \<Rightarrow> l2_host \<Rightarrow> err \<times> l2_host" where
  "writeChapSecrets E rg c us h =
     (case chapSecretsWithoutTag E c h of
        Inl e \<Rightarrow> (Some e, h)
      | Inr kept \<Rightarrow>
         l2_put E chapSecretsPath
           (text_of (kept @ map (\<lambda>name. chap_line (lc_InboundTag c) name (getd \<lparr>le_password = []\<rparr> (lu_users us) name))
                                (keys_of rg 1 (lu_users us)))) h)"

definition removeChapSecrets :: "l2_env \<Rightarrow> l2_config \<Rightarrow> l2_host \<Rightarrow> l2_host" where
  "removeChapSecrets E c h =
     (case chapSecretsWithoutTag E c h of
        Inl e \<Rightarrow> h
      | Inr kept \<Rightarrow> snd (l2_put E chapSecretsPath (Join kept nl @ nl) h))"

definition writeConfig :: "l2_env \<Rightarrow> ranger \<Rightarrow> l2_config \<Rightarrow> l2_users \<Rightarrow> l2_host \<Rightarrow> err \<times> l2_host" where
  "writeConfig E rg c us h =
     andthen (lx_mkdir E (lc_workDir c), h) (\<lambda>h.
     andthen (lx_mkdir E (path_join [''/etc/swanctl'', ''conf.d'']), h) (\<lambda>h.
     andthen (writeSwanctl E c h) (\<lambda>h.
     andthen (writeXl2tpdConf E c h) (\<lambda>h.
     andthen (writePPPOptions E c h) (\<lambda>h.
     andthen (writeIPScripts E rg c h)
       (writeChapSecrets E rg c us))))))"


section \<open>State\<close>

text \<open>\<open>l2_hostRouting\<close> says whether the forwarding rules of this core are on the host.\<close>

datatype l2_lifecycle = L2Stopped | L2Running

record l2tp =
  l2_config :: l2_config
  l2_users :: l2_users
  l2_tracker :: tracker
  l2_interfaceStats :: iface_counters
  l2_totalRx :: int64
  l2_totalTx :: int64
  l2_ifSeen :: "string \<rightharpoonup> int64 \<times> int64"
  l2_cumRx :: "string \<rightharpoonup> int64"
  l2_cumTx :: "string \<rightharpoonup> int64"
  l2_onlineIPs :: "string \<rightharpoonup> (string \<rightharpoonup> int64)"
  l2_process :: bool
  l2_startTime :: gotime
  l2_state :: l2_lifecycle
  l2_shutdownOnce :: bool
  l2_hostRouting :: bool


section \<open>Accounting\<close>

text \<open>What the loops of a poll change together.\<close>

record l2_round =
  rd_ifSeen :: "string \<rightharpoonup> int64 \<times> int64"
  rd_growthRx :: "string \<rightharpoonup> int64"
  rd_growthTx :: "string \<rightharpoonup> int64"
  rd_perUser :: "string \<rightharpoonup> l2_session list"

definition mine :: "l2_config \<Rightarrow> string \<Rightarrow> bool" where
  "mine c tag \<longleftrightarrow> \<not> (tag \<noteq> [] \<and> tag \<noteq> lc_InboundTag c)"

definition per_user :: "l2_session list \<Rightarrow> (string \<rightharpoonup> l2_session list)" where
  "per_user ss = foldl (\<lambda>m s. m(ls_user s \<mapsto> getd [] m (ls_user s) @ [s])) Map.empty ss"

definition settle_final :: "l2_round \<Rightarrow> l2_final \<Rightarrow> l2_round" where
  "settle_final r rec =
     (let (dRx, dTx) = (case rd_ifSeen r (fr_ifname rec) of
             None \<Rightarrow> (fr_rx rec, fr_tx rec)
           | Some (lrx, ltx) \<Rightarrow> (sub64 (fr_rx rec) lrx, sub64 (fr_tx rec) ltx));
          dRx = (if dRx < 0 then 0 else dRx);
          dTx = (if dTx < 0 then 0 else dTx);
          u = fr_user rec
      in \<lparr>rd_ifSeen = (rd_ifSeen r)(fr_ifname rec := None),
          rd_growthRx = (rd_growthRx r)(u \<mapsto> add64 (getd 0 (rd_growthRx r) u) dRx),
          rd_growthTx = (rd_growthTx r)(u \<mapsto> add64 (getd 0 (rd_growthTx r) u) dTx),
          rd_perUser = (if rd_perUser r u = None then (rd_perUser r)(u \<mapsto> []) else rd_perUser r)\<rparr>)"

definition count_live :: "(string \<Rightarrow> int64 \<times> int64) \<Rightarrow> l2_round \<Rightarrow> l2_session \<Rightarrow> l2_round" where
  "count_live bytes r s =
     (let (rx, tx) = bytes (ls_ifname s);
          (lrx, ltx) = getd (0, 0) (rd_ifSeen r) (ls_ifname s);
          dRx = sub64 rx lrx;
          dTx = sub64 tx ltx;
          dRx = (if dRx < 0 then rx else dRx);
          dTx = (if dTx < 0 then tx else dTx);
          u = ls_user s
      in r\<lparr>rd_ifSeen := (rd_ifSeen r)(ls_ifname s \<mapsto> (rx, tx)),
           rd_growthRx := (rd_growthRx r)(u \<mapsto> add64 (getd 0 (rd_growthRx r) u) dRx),
           rd_growthTx := (rd_growthTx r)(u \<mapsto> add64 (getd 0 (rd_growthTx r) u) dTx)\<rparr>)"

text \<open>The addresses of the sessions of one user, and the first of them.\<close>

definition session_ip :: "l2_session \<Rightarrow> string" where
  "session_ip s = (if ls_clientIP s = [] then ls_tunnelIP s else ls_clientIP s)"

definition online_of :: "gotime \<Rightarrow> l2_session list \<Rightarrow> (string \<rightharpoonup> int64) \<times> string" where
  "online_of now ss =
     foldl (\<lambda>(ips, endpoint) s. let ip = session_ip s in
        if ip \<noteq> [] then (ips(ip \<mapsto> unix_time now), if endpoint = [] then ip else endpoint) else (ips, endpoint))
       (Map.empty, []) ss"

definition add_user :: "gotime \<Rightarrow> l2_round \<Rightarrow> sample list \<times> (string \<rightharpoonup> (string \<rightharpoonup> int64)) \<times> l2tp \<Rightarrow> string \<Rightarrow>
    sample list \<times> (string \<rightharpoonup> (string \<rightharpoonup> int64)) \<times> l2tp" where
  "add_user now r st u =
     (case st of (samples, online, l2) \<Rightarrow>
        (let gRx = getd 0 (rd_growthRx r) u; gTx = getd 0 (rd_growthTx r) u;
             cRx = add64 (getd 0 (l2_cumRx l2) u) gRx; cTx = add64 (getd 0 (l2_cumTx l2) u) gTx;
             (ips, endpoint) = online_of now (getd [] (rd_perUser r) u)
         in (samples @ [\<lparr>sm_PublicKey = u, sm_Email = u, sm_Rx = cRx, sm_Tx = cTx, sm_EndpointIP = endpoint\<rparr>],
             online(u \<mapsto> ips),
             l2\<lparr>l2_cumRx := (l2_cumRx l2)(u \<mapsto> cRx), l2_cumTx := (l2_cumTx l2)(u \<mapsto> cTx),
                l2_totalRx := add64 (l2_totalRx l2) gRx, l2_totalTx := add64 (l2_totalTx l2) gTx\<rparr>)))"

text \<open>The part of \<^verbatim>\<open>poll\<close> under the mutex and the hand-over to the tracker.\<close>

definition account_sessions :: "ranger \<Rightarrow> gotime \<Rightarrow> (string \<Rightarrow> int64 \<times> int64) \<Rightarrow> l2_session list \<Rightarrow> l2_final list \<Rightarrow> l2tp \<Rightarrow> l2tp" where
  "account_sessions rg now bytes sessions finals l2 =
     (let r = \<lparr>rd_ifSeen = l2_ifSeen l2, rd_growthRx = Map.empty, rd_growthTx = Map.empty, rd_perUser = per_user sessions\<rparr>;
          r = foldl settle_final r finals;
          r = foldl (count_live bytes) r sessions;
          l2 = l2\<lparr>l2_ifSeen := rd_ifSeen r |` (ls_ifname ` set sessions)\<rparr>
      in case foldl (add_user now r) ([], Map.empty, l2) (keys_of rg 0 (rd_perUser r)) of
           (samples, online, l2) \<Rightarrow>
             (let l2 = l2\<lparr>l2_onlineIPs := online\<rparr>
              in if length samples > 0 then l2\<lparr>l2_tracker := UpdateStatsBatch samples now (l2_tracker l2)\<rparr> else l2))"

definition drop_finals :: "l2_env \<Rightarrow> l2_final list \<Rightarrow> l2_host \<Rightarrow> l2_host" where
  "drop_finals E finals h =
     h\<lparr>lh_finals := map_option (filter (\<lambda>e.
         \<not> (path_join [sessionFinalDir, de_Name e] \<in> fr_path ` set finals \<and> lx_remove E (path_join [sessionFinalDir, de_Name e])))) (lh_finals h)\<rparr>"

definition l2_poll :: "l2_env \<Rightarrow> ranger \<Rightarrow> gotime \<Rightarrow> l2tp \<Rightarrow> l2_host \<Rightarrow> l2tp \<times> l2_host" where
  "l2_poll E rg now l2 h =
     (case readSessions E h of (ss, h) \<Rightarrow>
        (case readFinalRecords E h of (fs, h) \<Rightarrow>
           (let sessions = filter (\<lambda>s. mine (l2_config l2) (ls_tag s)) ss;
                finals = filter (\<lambda>r. mine (l2_config l2) (fr_tag r)) fs
            in (account_sessions rg now (ifaceBytes E) sessions finals l2, drop_finals E finals h))))"

definition l2_GetStats :: "ranger \<Rightarrow> stat_request \<Rightarrow> l2tp \<Rightarrow> (string + stat list) \<times> l2tp" where
  "l2_GetStats rg request l2 =
     (if l2_state l2 \<noteq> L2Running then (Inl ''l2tp not started'', l2)
      else
        (case sr_Type request of
           UserStat \<Rightarrow> (case GetStats [sr_Name request] (sr_Reset request) (l2_tracker l2) of (stats, t) \<Rightarrow> (Inr stats, l2\<lparr>l2_tracker := t\<rparr>))
         | UsersStat \<Rightarrow> (case GetUsersStats (keys_of rg 0 (l2_tracker l2)) (sr_Reset request) (l2_tracker l2) of
                           (stats, t) \<Rightarrow> (Inr stats, l2\<lparr>l2_tracker := t\<rparr>))
         | Outbound \<Rightarrow> (case Delta (l2_totalRx l2) (l2_totalTx l2) (sr_Reset request) (l2_interfaceStats l2) of
             ((dRx, dTx), t) \<Rightarrow> (Inr (BuildInterfaceStats (lc_InboundTag (l2_config l2)) ''outbound'' dRx dTx), l2\<lparr>l2_interfaceStats := t\<rparr>))
         | Outbounds \<Rightarrow> (case Delta (l2_totalRx l2) (l2_totalTx l2) (sr_Reset request) (l2_interfaceStats l2) of
             ((dRx, dTx), t) \<Rightarrow> (Inr (BuildInterfaceStats (lc_InboundTag (l2_config l2)) ''outbound'' dRx dTx), l2\<lparr>l2_interfaceStats := t\<rparr>))
         | _ \<Rightarrow> (Inl ''unsupported stat type for l2tp'', l2)))"

definition l2_GetUserOnlineStats :: "gotime \<Rightarrow> string \<Rightarrow> l2tp \<Rightarrow> string + online_stat" where
  "l2_GetUserOnlineStats now email l2 =
     (if l2_state l2 \<noteq> L2Running then Inl ''l2tp not started''
      else Inr \<lparr>os_Name = email, os_Value = if AnyActiveSince [email] (now - 60000000000) (l2_tracker l2) then 1 else 0\<rparr>)"

definition l2_GetUserOnlineIpListStats :: "string \<Rightarrow> l2tp \<Rightarrow> string + online_ips" where
  "l2_GetUserOnlineIpListStats email l2 =
     (if l2_state l2 \<noteq> L2Running then Inl ''l2tp not started''
      else Inr \<lparr>oi_Name = email, oi_Ips = getd Map.empty (l2_onlineIPs l2) email\<rparr>)"

definition l2_GetSysStats :: "mem_stats \<Rightarrow> gotime \<Rightarrow> l2tp \<Rightarrow> string + backend_stats" where
  "l2_GetSysStats ms now l2 =
     (if l2_state l2 \<noteq> L2Running then Inl ''l2tp not started'' else Inr (runtime_stats ms now (l2_startTime l2)))"


section \<open>Life of the server\<close>

definition l2_CheckDeps :: "l2_env \<Rightarrow> err" where
  "l2_CheckDeps E =
     (case ipsec_CheckDeps (lx_ipsec E) of
        Some e \<Rightarrow> Some e
      | None \<Rightarrow>
         (case filter (\<lambda>p. \<not> lx_exists E p) [''/usr/sbin/xl2tpd'', ''/usr/sbin/pppd''] of
            [] \<Rightarrow> None
          | p # _ \<Rightarrow> Some (''xl2tpd/ppp is not installed on this node (missing '' @ p @ '')'')))"

definition release_charon :: "l2_host \<Rightarrow> l2_host" where
  "release_charon h = h\<lparr>lh_charon := ipsec_release (lh_charon h)\<rparr>"

definition l2_start :: "l2_env \<Rightarrow> ranger \<Rightarrow> l2tp \<Rightarrow> l2_host \<Rightarrow> err \<times> l2tp \<times> l2_host" where
  "l2_start E rg l2 h =
     (case writeConfig E rg (l2_config l2) (l2_users l2) h of
        (Some e, h) \<Rightarrow> (Some (''write l2tp config: '' @ e), l2, h)
      | (None, h) \<Rightarrow>
         (let l2 = l2\<lparr>l2_hostRouting := lx_routed E\<rparr> in
          case ipsec_acquire (lx_ipsec E) (lh_charon h) of
            (Some e, ch) \<Rightarrow> (Some (''start charon: '' @ e), l2, h\<lparr>lh_charon := ch\<rparr>)
          | (None, ch) \<Rightarrow>
             (let h = h\<lparr>lh_charon := ch\<rparr> in
              case ipsec_loadAll (lx_ipsec E) of
                Some e \<Rightarrow> (Some (''swanctl load: '' @ e), l2, release_charon h)
              | None \<Rightarrow>
                 (case lx_exec E of
                    Some e \<Rightarrow> (Some (''start xl2tpd: '' @ e), l2, release_charon h)
                  | None \<Rightarrow> (None, l2\<lparr>l2_process := True, l2_state := L2Running\<rparr>, h)))))"

definition fresh_l2tp :: "l2_config \<Rightarrow> gotime \<Rightarrow> l2tp" where
  "fresh_l2tp c now =
     \<lparr>l2_config = c, l2_users = l2_newUserStore (lc_InboundTag c), l2_tracker = newTracker,
      l2_interfaceStats = NewInterfaceCountersTracker, l2_totalRx = 0, l2_totalTx = 0, l2_ifSeen = Map.empty,
      l2_cumRx = Map.empty, l2_cumTx = Map.empty, l2_onlineIPs = Map.empty, l2_process = False, l2_startTime = now,
      l2_state = L2Stopped, l2_shutdownOnce = False, l2_hostRouting = False\<rparr>"

text \<open>The object is returned with the error too, to show what a failed start leaves behind.\<close>

definition l2_New :: "l2_env \<Rightarrow> ranger \<Rightarrow> gotime \<Rightarrow> string \<Rightarrow> l2_config \<Rightarrow> user list \<Rightarrow> l2_host \<Rightarrow> err \<times> l2tp \<times> l2_host" where
  "l2_New E rg now generatedPath c users h =
     (let c = c\<lparr>lc_workDir := path_join [generatedPath, ''l2tp'', lc_InboundTag c]\<rparr>;
          l2 = fresh_l2tp c now;
          l2 = l2\<lparr>l2_users := snd (l2_replaceAll rg users (l2_users l2))\<rparr>
      in l2_start E rg l2 h)"

definition l2_Started :: "l2tp \<Rightarrow> bool" where
  "l2_Started l2 \<longleftrightarrow> l2_state l2 = L2Running"

definition l2_Shutdown :: "l2_env \<Rightarrow> l2tp \<Rightarrow> l2_host \<Rightarrow> l2tp \<times> l2_host" where
  "l2_Shutdown E l2 h =
     (if l2_shutdownOnce l2 then (l2, h)
      else
        (let c = l2_config l2;
             h = l2_rm E (swanctl_path c) h;
             h = removeChapSecrets E c h
         in (l2\<lparr>l2_shutdownOnce := True, l2_state := L2Stopped, l2_process := False, l2_hostRouting := False\<rparr>, release_charon h)))"

definition l2_Restart :: "l2_env \<Rightarrow> ranger \<Rightarrow> l2tp \<Rightarrow> l2_host \<Rightarrow> err \<times> l2tp \<times> l2_host" where
  "l2_Restart E rg l2 h =
     (case l2_Shutdown E l2 h of (l2, h) \<Rightarrow> l2_start E rg (l2\<lparr>l2_shutdownOnce := False\<rparr>) h)"

definition killSessions :: "l2_env \<Rightarrow> string list \<Rightarrow> l2_config \<Rightarrow> l2_host \<Rightarrow> l2_host" where
  "killSessions E usernames c h =
     (if length usernames = 0 then h
      else case readSessions E h of (ss, h) \<Rightarrow>
        h\<lparr>lh_signals := lh_signals h @ map ls_pid (filter (\<lambda>s.
            ls_user s \<in> set usernames \<and> ls_pid s > 0 \<and> mine c (ls_tag s) \<and> processIsPppd E (ls_pid s)) ss)\<rparr>)"

definition reloadUsers :: "l2_env \<Rightarrow> ranger \<Rightarrow> l2tp \<Rightarrow> l2_host \<Rightarrow> err \<times> l2_host" where
  "reloadUsers E rg l2 h = writeChapSecrets E rg (l2_config l2) (l2_users l2) h"

fun apply_each :: "user list \<Rightarrow> l2_users \<Rightarrow> string list \<times> l2_users" where
  "apply_each [] s = ([], s)"
| "apply_each (u # us) s =
     (case l2_applyUser u s of
        ((username, _, removed), s) \<Rightarrow>
          (case apply_each us s of (revoked, s) \<Rightarrow> (if removed then username # revoked else revoked, s)))"

definition l2_applyUsers :: "l2_env \<Rightarrow> ranger \<Rightarrow> user list \<Rightarrow> l2tp \<Rightarrow> l2_host \<Rightarrow> err \<times> l2tp \<times> l2_host" where
  "l2_applyUsers E rg us l2 h =
     (case apply_each us (l2_users l2) of
        (revoked, s) \<Rightarrow>
          (let l2 = l2\<lparr>l2_users := s\<rparr> in
           case reloadUsers E rg l2 h of (e, h) \<Rightarrow> (e, l2, killSessions E revoked (l2_config l2) h)))"

definition l2_SyncUser :: "l2_env \<Rightarrow> ranger \<Rightarrow> user \<Rightarrow> l2tp \<Rightarrow> l2_host \<Rightarrow> err \<times> l2tp \<times> l2_host" where
  "l2_SyncUser E rg u l2 h = l2_applyUsers E rg [u] l2 h"

definition l2_SyncUsers :: "l2_env \<Rightarrow> ranger \<Rightarrow> user list \<Rightarrow> l2tp \<Rightarrow> l2_host \<Rightarrow> err \<times> l2tp \<times> l2_host" where
  "l2_SyncUsers E rg us l2 h =
     (case l2_replaceAll rg us (l2_users l2) of
        (removed, s) \<Rightarrow>
          (let l2 = l2\<lparr>l2_users := s\<rparr> in
           case reloadUsers E rg l2 h of (e, h) \<Rightarrow> (e, l2, killSessions E removed (l2_config l2) h)))"

definition l2_UpdateUsers :: "l2_env \<Rightarrow> ranger \<Rightarrow> user list \<Rightarrow> l2tp \<Rightarrow> l2_host \<Rightarrow> err \<times> l2tp \<times> l2_host" where
  "l2_UpdateUsers E rg us l2 h = l2_applyUsers E rg us l2 h"

definition l2_UpdateUsersAndRestart :: "l2_env \<Rightarrow> ranger \<Rightarrow> user list \<Rightarrow> l2tp \<Rightarrow> l2_host \<Rightarrow> err \<times> l2tp \<times> l2_host" where
  "l2_UpdateUsersAndRestart E rg us l2 h = l2_Restart E rg (l2\<lparr>l2_users := snd (l2_replaceAll rg us (l2_users l2))\<rparr>) h"

end
