(* ===== verification/Plain_Text.thy ===== *)
theory Plain_Text
  imports Go_Text
begin

text \<open>
  Names made of graphic ASCII characters pass through the text formats of the node unchanged: trimming
  leaves them alone, a field is read back as it was written, and so are numbers. The backends that keep
  their users in files rely on it.
\<close>

definition graphic :: "char \<Rightarrow> bool" where
  "graphic ch \<longleftrightarrow> 33 \<le> (of_char ch :: nat) \<and> (of_char ch :: nat) \<le> 126"

lemma byte_inject: "m < 256 \<Longrightarrow> n < 256 \<Longrightarrow> byte m = byte n \<longleftrightarrow> m = n"
  by (metis of_char_byte)

lemma byte_neq_graphic: "graphic ch \<Longrightarrow> n < 33 \<or> 126 < n \<Longrightarrow> n < 256 \<Longrightarrow> byte n \<noteq> ch"
  using of_char_byte [of n] by (auto simp: graphic_def)

lemma space_at_other:
  assumes "\<forall>p\<in>set ps. p = [] \<or> hd p \<noteq> ch"
  shows "space_at ps (ch # s) = 0"
  using assms
proof (induction ps)
  case (Cons p ps)
  then show ?case by (cases p) auto
qed simp

lemma space_at_graphic:
  assumes "graphic ch"
  shows "space_at go_spaces (ch # s) = 0" "space_at (map rev go_spaces) (ch # s) = 0"
proof -
  note n = byte_neq_graphic [OF assms]
  show "space_at go_spaces (ch # s) = 0"
    by (rule space_at_other) (simp add: go_spaces_def n)
  show "space_at (map rev go_spaces) (ch # s) = 0"
    by (rule space_at_other) (simp add: go_spaces_def n)
qed

lemma space_at_space: "space_at go_spaces (CHR '' '' # s) = 1"
proof -
  have "byte 32 = CHR '' ''" by code_simp
  then show ?thesis by (simp add: go_spaces_def)
qed

lemma trim_left_graphic: "graphic ch \<Longrightarrow> trim_left go_spaces (ch # s) = ch # s" "graphic ch \<Longrightarrow> trim_left (map rev go_spaces) (ch # s) = ch # s"
  by (subst trim_left.simps, simp add: space_at_graphic)+

text \<open>A text that begins and ends with a graphic character is trimmed already.\<close>

lemma TrimSpace_graphic:
  assumes "s \<noteq> []" "graphic (hd s)" "graphic (last s)"
  shows "TrimSpace s = s"
proof -
  have "trim_left go_spaces s = s" using trim_left_graphic(1) [of "hd s" "tl s"] assms by simp
  moreover have "rev s = last s # rev (butlast s)" using assms(1) by (cases s rule: rev_cases) simp_all
  then have "trim_left (map rev go_spaces) (rev s) = rev s" by (metis trim_left_graphic(2) assms(3))
  ultimately show ?thesis by (simp add: TrimSpace_def)
qed

text \<open>One field up to the next blank.\<close>

lemma take_field_run:
  assumes "list_all graphic w"
  shows "take_field acc (w @ CHR '' '' # s) = (if acc = [] \<and> w = [] then [] else [rev acc @ w]) @ take_field [] s"
  using assms
proof (induction w arbitrary: acc)
  case Nil
  show ?case by (subst take_field.simps) (simp add: space_at_space)
next
  case (Cons ch w)
  have "take_field acc ((ch # w) @ CHR '' '' # s) = take_field (ch # acc) (w @ CHR '' '' # s)"
    using Cons.prems by (subst take_field.simps) (simp add: space_at_graphic)
  also have "\<dots> = [rev (ch # acc) @ w] @ take_field [] s" using Cons by simp
  finally show ?case by simp
qed

lemma Fields_word: "list_all graphic w \<Longrightarrow> w \<noteq> [] \<Longrightarrow> Fields (w @ CHR '' '' # s) = w # Fields s"
  using take_field_run [of w "[]" s] by (simp add: Fields_def)

text \<open>Lines of the form \<open>key=value\<close>.\<close>

lemma graphic_eq: "graphic (CHR ''='')"
  by (simp add: graphic_def of_char_def)

lemma Cut_eq: "CHR ''='' \<notin> set k \<Longrightarrow> Cut (k @ CHR ''='' # v) ''='' = Some (k, v)"
  by (induction k) (auto simp: HasPrefix_def)

lemma key_value_line:
  assumes "k \<noteq> []" "graphic (hd k)" "CHR ''='' \<notin> set k" "list_all graphic v"
  shows "Cut (TrimSpace (k @ CHR ''='' # v)) ''='' = Some (k, v)"
proof -
  have "TrimSpace (k @ CHR ''='' # v) = k @ CHR ''='' # v"
  proof (rule TrimSpace_graphic)
    show "graphic (last (k @ CHR ''='' # v))"
      using assms(4) by (cases "v = []") (simp_all add: graphic_eq list_all_iff)
  qed (use assms in simp_all)
  with Cut_eq [OF assms(3)] show ?thesis by simp
qed

lemma graphic_plain_line:
  assumes "list_all graphic l" "length l < 65536"
  shows "plain_line l"
proof -
  have "byte 10 \<notin> set l" "\<forall>ch\<in>set l. ch \<noteq> byte 13"
    using assms(1) byte_neq_graphic [of _ 10] byte_neq_graphic [of _ 13] by (auto simp: list_all_iff)
  with assms(2) show ?thesis by (auto simp: plain_line_def)
qed

text \<open>Numbers.\<close>

lemma digit_graphic: "is_digit ch \<Longrightarrow> graphic ch"
  by (simp add: is_digit_def graphic_def)

lemma show_nat_graphic: "list_all graphic (show_nat n)"
  using parse_show_nat [of n] by (simp add: list_all_iff digit_graphic)

lemma show_int_graphic: "0 \<le> i \<Longrightarrow> list_all graphic (show_int i)"
  by (simp add: show_int_def show_nat_graphic)

lemma ParseInt64_show_int:
  assumes "0 \<le> i" "i < 2 ^ 63"
  shows "ParseInt64 (show_int i) = i"
proof -
  obtain ch cs where s: "show_nat (nat i) = ch # cs" using parse_show_nat [of "nat i"] by (cases "show_nat (nat i)") auto
  have "is_digit ch" using parse_show_nat [of "nat i"] by (simp add: s)
  then have ne: "ch \<noteq> CHR ''-''" "ch \<noteq> CHR ''+''" by (auto simp: is_digit_def of_char_def)
  have "parse_nat (ch # cs) = Some i" using parse_show_nat [of "nat i"] assms(1) unfolding s by (simp add: parse_nat_def)
  then show ?thesis using assms ne by (simp add: show_int_def s ParseInt64_def min_def)
qed

text \<open>Quoting a graphic name gives a graphic field.\<close>

lemma quote_char_graphic:
  assumes "graphic ch"
  shows "list_all graphic (quote_char ch)"
proof -
  have g: "graphic (byte 92)" "graphic (byte 34)" by (simp_all add: graphic_def)
  show ?thesis using assms unfolding quote_char_def Let_def by (auto simp: g) (auto simp: graphic_def)
qed

lemma go_quote_graphic: "list_all graphic s \<Longrightarrow> list_all graphic (go_quote s)"
proof -
  have "graphic (byte 34)" by (simp add: graphic_def)
  then show "list_all graphic s \<Longrightarrow> list_all graphic (go_quote s)"
    using quote_char_graphic by (auto simp: go_quote_def list_all_iff)
qed

lemma go_quote_ne: "go_quote s \<noteq> []"
  by (simp add: go_quote_def)

text \<open>A quoted text has no newline in it, whatever it quotes.\<close>

lemma quote_no_newline: "byte 10 \<notin> set (go_quote s)"
proof -
  have c: "list_all (\<lambda>x. (of_char x :: nat) \<noteq> 10) (quote_char ch)" for ch
  proof -
    have letters: "list_all (\<lambda>x. (of_char x :: nat) \<noteq> 10) ''abfnrtvx''" by code_simp
    have h: "(of_char (if m < 10 then byte (48 + m) else byte (87 + m)) :: nat) \<noteq> 10" if "m < 16" for m :: nat
      using that by simp
    have "(of_char ch :: nat) < 32 \<or> (of_char ch :: nat) = 127 \<Longrightarrow> (of_char ch :: nat) div 16 < 16" by auto
    then show ?thesis
      unfolding quote_char_def Let_def using letters h [of "of_char ch div 16"] h [of "of_char ch mod 16"] by simp
  qed
  have "byte 10 \<notin> set (quote_char ch)" for ch using c [of ch] unfolding list_all_iff by force
  then show ?thesis by (auto simp: go_quote_def byte_inject)
qed

end
