(* ===== verification/L2tp_Billing.thy ===== *)
theory L2tp_Billing
  imports L2tp Plain_Text
begin

text \<open>
  The accounting of the L2TP backend. The kernel counts bytes per PPP interface; an interface goes with its
  session and its name is given to the next one. The node polls the interfaces of living sessions and takes
  the totals of ended ones from the records of the ip-down hook. Shown here: what a hook writes is read
  back as it was written, the polls read and remove what the hooks left in the two directories, and at every
  poll the counter of a user is the sum over all sessions the user ever had, each byte counted once,
  although interface names are used again and again.
\<close>

section \<open>The loops of a poll\<close>

fun fr_of :: "dir \<Rightarrow> l2_final \<Rightarrow> int" where
  "fr_of Uplink r = fr_rx r"
| "fr_of Downlink r = fr_tx r"

fun growth_of :: "dir \<Rightarrow> l2_round \<Rightarrow> (string \<rightharpoonup> int64)" where
  "growth_of Uplink r = rd_growthRx r"
| "growth_of Downlink r = rd_growthTx r"

fun cum_of :: "dir \<Rightarrow> l2tp \<Rightarrow> (string \<rightharpoonup> int64)" where
  "cum_of Uplink l2 = l2_cumRx l2"
| "cum_of Downlink l2 = l2_cumTx l2"

type_synonym baselines = "string \<rightharpoonup> int64 \<times> int64"

definition base_at :: "dir \<Rightarrow> baselines \<Rightarrow> string \<Rightarrow> int" where
  "base_at d seen ifn = dir_of d (getd (0, 0) seen ifn)"

lemma base_at_upd [simp]:
  "base_at d (seen(i := x)) j = (if j = i then (case x of None \<Rightarrow> 0 | Some b \<Rightarrow> dir_of d b) else base_at d seen j)"
  by (cases d; simp add: base_at_def split: option.split)

lemma base_at_empty [simp]: "base_at d Map.empty i = 0"
  by (cases d) (simp_all add: base_at_def)

text \<open>What the records of ended sessions still owe to a user, in the order they are settled in.\<close>

fun owed :: "dir \<Rightarrow> string \<Rightarrow> baselines \<Rightarrow> l2_final list \<Rightarrow> int" where
  "owed d u seen [] = 0"
| "owed d u seen (r # rs) =
     (if fr_user r = u then fr_of d r - base_at d seen (fr_ifname r) else 0) + owed d u (seen(fr_ifname r := None)) rs"

definition between :: "int \<Rightarrow> int \<Rightarrow> bool" where
  "between lo hi \<longleftrightarrow> 0 \<le> lo \<and> lo \<le> hi \<and> hi < 2 ^ 63"

fun settles :: "baselines \<Rightarrow> l2_final list \<Rightarrow> bool" where
  "settles seen [] = True"
| "settles seen (r # rs) \<longleftrightarrow>
     between (base_at Uplink seen (fr_ifname r)) (fr_rx r) \<and> between (base_at Downlink seen (fr_ifname r)) (fr_tx r) \<and>
     settles (seen(fr_ifname r := None)) rs"

lemma sub64_between: "between lo hi \<Longrightarrow> sub64 hi lo = hi - lo \<and> \<not> hi - lo < 0"
  by (simp add: between_def sub64_nonneg)

lemma settle_step:
  assumes "between (base_at Uplink (rd_ifSeen r) (fr_ifname x)) (fr_rx x)" "between (base_at Downlink (rd_ifSeen r) (fr_ifname x)) (fr_tx x)"
  shows "rd_ifSeen (settle_final r x) = (rd_ifSeen r)(fr_ifname x := None)"
    "dom (rd_perUser (settle_final r x)) = insert (fr_user x) (dom (rd_perUser r))"
    "wrap64 (getd 0 (growth_of d (settle_final r x)) u) =
       wrap64 (getd 0 (growth_of d r) u + (if fr_user x = u then fr_of d x - base_at d (rd_ifSeen r) (fr_ifname x) else 0))"
proof -
  obtain lrx ltx where b: "getd (0, 0) (rd_ifSeen r) (fr_ifname x) = (lrx, ltx)" by fastforce
  have bb: "between lrx (fr_rx x)" "between ltx (fr_tx x)" using assms by (simp_all add: base_at_def b)
  have pick: "(case rd_ifSeen r (fr_ifname x) of None \<Rightarrow> (fr_rx x, fr_tx x) | Some (l, m) \<Rightarrow> (sub64 (fr_rx x) l, sub64 (fr_tx x) m)) =
      (fr_rx x - lrx, fr_tx x - ltx)"
    using b sub64_between [OF bb(1)] sub64_between [OF bb(2)] by (auto split: option.splits)
  have eq: "settle_final r x = \<lparr>rd_ifSeen = (rd_ifSeen r)(fr_ifname x := None),
      rd_growthRx = (rd_growthRx r)(fr_user x \<mapsto> add64 (getd 0 (rd_growthRx r) (fr_user x)) (fr_rx x - lrx)),
      rd_growthTx = (rd_growthTx r)(fr_user x \<mapsto> add64 (getd 0 (rd_growthTx r) (fr_user x)) (fr_tx x - ltx)),
      rd_perUser = (if rd_perUser r (fr_user x) = None then (rd_perUser r)(fr_user x \<mapsto> []) else rd_perUser r)\<rparr>"
    unfolding settle_final_def pick using sub64_between [OF bb(1)] sub64_between [OF bb(2)] by (simp add: Let_def)
  show "rd_ifSeen (settle_final r x) = (rd_ifSeen r)(fr_ifname x := None)" by (simp add: eq)
  show "dom (rd_perUser (settle_final r x)) = insert (fr_user x) (dom (rd_perUser r))" by (auto simp: eq)
  show "wrap64 (getd 0 (growth_of d (settle_final r x)) u) =
       wrap64 (getd 0 (growth_of d r) u + (if fr_user x = u then fr_of d x - base_at d (rd_ifSeen r) (fr_ifname x) else 0))"
    by (cases d) (auto simp: eq base_at_def b add64_def wrap64_id)
qed

lemma settle_all:
  assumes "settles (rd_ifSeen r) xs"
  shows "rd_ifSeen (foldl settle_final r xs) = rd_ifSeen r |` (- fr_ifname ` set xs) \<and>
    dom (rd_perUser (foldl settle_final r xs)) = fr_user ` set xs \<union> dom (rd_perUser r) \<and>
    (\<forall>d u. wrap64 (getd 0 (growth_of d (foldl settle_final r xs)) u) = wrap64 (getd 0 (growth_of d r) u + owed d u (rd_ifSeen r) xs))"
  using assms
proof (induction xs arbitrary: r)
  case (Cons x xs)
  note st = settle_step [of r x]
  have b: "between (base_at Uplink (rd_ifSeen r) (fr_ifname x)) (fr_rx x)" "between (base_at Downlink (rd_ifSeen r) (fr_ifname x)) (fr_tx x)"
    using Cons.prems by auto
  note IH = Cons.IH [of "settle_final r x", unfolded st(1) [OF b] st(2) [OF b]]
  have "settles ((rd_ifSeen r)(fr_ifname x := None)) xs" using Cons.prems by simp
  note ih = IH [OF this]
  have "wrap64 (getd 0 (growth_of d (foldl settle_final r (x # xs))) u) = wrap64 (getd 0 (growth_of d r) u + owed d u (rd_ifSeen r) (x # xs))" for d u
  proof -
    have "wrap64 (getd 0 (growth_of d (foldl settle_final r (x # xs))) u) =
        wrap64 (wrap64 (getd 0 (growth_of d (settle_final r x)) u) + owed d u ((rd_ifSeen r)(fr_ifname x := None)) xs)"
      unfolding wrap64_add_left foldl.simps by (rule ih [THEN conjunct2, THEN conjunct2, rule_format])
    also have "\<dots> = wrap64 (getd 0 (growth_of d r) u + owed d u (rd_ifSeen r) (x # xs))"
      unfolding st(3) [OF b] wrap64_add_left owed.simps by (simp add: add.assoc)
    finally show ?thesis .
  qed
  moreover have "(rd_ifSeen r)(fr_ifname x := None) |` (- fr_ifname ` set xs) = rd_ifSeen r |` (- fr_ifname ` set (x # xs))"
    by (auto simp: restrict_map_def)
  then have "rd_ifSeen (foldl settle_final r (x # xs)) = rd_ifSeen r |` (- fr_ifname ` set (x # xs))"
    unfolding foldl.simps using ih [THEN conjunct1] by (rule trans [rotated])
  moreover have "dom (rd_perUser (foldl settle_final r (x # xs))) = fr_user ` set (x # xs) \<union> dom (rd_perUser r)" using ih by auto
  ultimately show ?case by blast
qed (simp add: restrict_map_def)

lemma count_step:
  assumes "\<And>d. between (base_at d (rd_ifSeen r) (ls_ifname s)) (dir_of d (bytes (ls_ifname s)))"
  shows "rd_ifSeen (count_live bytes r s) = (rd_ifSeen r)(ls_ifname s \<mapsto> bytes (ls_ifname s))"
    "rd_perUser (count_live bytes r s) = rd_perUser r"
    "wrap64 (getd 0 (growth_of d (count_live bytes r s)) u) =
       wrap64 (getd 0 (growth_of d r) u +
         (if ls_user s = u then dir_of d (bytes (ls_ifname s)) - base_at d (rd_ifSeen r) (ls_ifname s) else 0))"
proof -
  obtain lrx ltx rx tx where b: "getd (0, 0) (rd_ifSeen r) (ls_ifname s) = (lrx, ltx)" "bytes (ls_ifname s) = (rx, tx)" by fastforce
  have bb: "between lrx rx" "between ltx tx" using assms [of Uplink] assms [of Downlink] by (simp_all add: base_at_def b)
  note d = sub64_between [OF bb(1)] sub64_between [OF bb(2)]
  have eq: "count_live bytes r s = r\<lparr>rd_ifSeen := (rd_ifSeen r)(ls_ifname s \<mapsto> (rx, tx)),
      rd_growthRx := (rd_growthRx r)(ls_user s \<mapsto> add64 (getd 0 (rd_growthRx r) (ls_user s)) (rx - lrx)),
      rd_growthTx := (rd_growthTx r)(ls_user s \<mapsto> add64 (getd 0 (rd_growthTx r) (ls_user s)) (tx - ltx))\<rparr>"
    using d by (simp add: count_live_def Let_def b)
  show "rd_ifSeen (count_live bytes r s) = (rd_ifSeen r)(ls_ifname s \<mapsto> bytes (ls_ifname s))" "rd_perUser (count_live bytes r s) = rd_perUser r"
    by (simp_all add: eq b)
  show "wrap64 (getd 0 (growth_of d (count_live bytes r s)) u) =
       wrap64 (getd 0 (growth_of d r) u +
         (if ls_user s = u then dir_of d (bytes (ls_ifname s)) - base_at d (rd_ifSeen r) (ls_ifname s) else 0))"
    by (cases d) (auto simp: eq base_at_def b add64_def wrap64_id)
qed

text \<open>What living sessions have moved beyond their baselines.\<close>

definition live_growth :: "dir \<Rightarrow> string \<Rightarrow> (string \<Rightarrow> int \<times> int) \<Rightarrow> baselines \<Rightarrow> l2_session list \<Rightarrow> int" where
  "live_growth d u bytes seen ss =
     (\<Sum>s\<leftarrow>filter (\<lambda>s. ls_user s = u) ss. dir_of d (bytes (ls_ifname s)) - base_at d seen (ls_ifname s))"

lemma count_all:
  assumes "distinct (map ls_ifname ss)" "\<And>s d. s \<in> set ss \<Longrightarrow> between (base_at d (rd_ifSeen r) (ls_ifname s)) (dir_of d (bytes (ls_ifname s)))"
  shows "rd_ifSeen (foldl (count_live bytes) r ss) = (\<lambda>i. if i \<in> ls_ifname ` set ss then Some (bytes i) else rd_ifSeen r i) \<and>
    rd_perUser (foldl (count_live bytes) r ss) = rd_perUser r \<and>
    (\<forall>d u. wrap64 (getd 0 (growth_of d (foldl (count_live bytes) r ss)) u) =
       wrap64 (getd 0 (growth_of d r) u + live_growth d u bytes (rd_ifSeen r) ss))"
  using assms
proof (induction ss arbitrary: r)
  case (Cons s ss)
  have b: "between (base_at d (rd_ifSeen r) (ls_ifname s)) (dir_of d (bytes (ls_ifname s)))" for d using Cons.prems(2) by simp
  note st = count_step [of r s bytes, OF b]
  let ?r = "count_live bytes r s"
  have new: "ls_ifname s \<notin> ls_ifname ` set ss" and dis: "distinct (map ls_ifname ss)" using Cons.prems(1) by auto
  have same: "base_at d (rd_ifSeen ?r) (ls_ifname x) = base_at d (rd_ifSeen r) (ls_ifname x)" if mem: "x \<in> set ss" for d x
  proof -
    have "ls_ifname x \<noteq> ls_ifname s" using new mem by (metis image_eqI)
    then show ?thesis by (simp add: st(1))
  qed
  have ih: "rd_ifSeen (foldl (count_live bytes) ?r ss) = (\<lambda>i. if i \<in> ls_ifname ` set ss then Some (bytes i) else rd_ifSeen ?r i) \<and>
    rd_perUser (foldl (count_live bytes) ?r ss) = rd_perUser ?r \<and>
    (\<forall>d u. wrap64 (getd 0 (growth_of d (foldl (count_live bytes) ?r ss)) u) =
       wrap64 (getd 0 (growth_of d ?r) u + live_growth d u bytes (rd_ifSeen ?r) ss))"
  proof (rule Cons.IH [OF dis])
    fix x d assume "x \<in> set ss"
    then show "between (base_at d (rd_ifSeen ?r) (ls_ifname x)) (dir_of d (bytes (ls_ifname x)))"
      using Cons.prems(2) by (simp add: same)
  qed
  have lg: "live_growth d u bytes (rd_ifSeen ?r) ss = live_growth d u bytes (rd_ifSeen r) ss" for d u
    unfolding live_growth_def by (intro arg_cong [where f = sum_list] map_cong) (simp_all add: same)
  have "wrap64 (getd 0 (growth_of d (foldl (count_live bytes) r (s # ss))) u) =
      wrap64 (getd 0 (growth_of d r) u + live_growth d u bytes (rd_ifSeen r) (s # ss))" for d u
  proof -
    have "wrap64 (getd 0 (growth_of d (foldl (count_live bytes) r (s # ss))) u) =
        wrap64 (wrap64 (getd 0 (growth_of d ?r) u) + live_growth d u bytes (rd_ifSeen r) ss)"
      using ih by (simp add: lg wrap64_add_left)
    also have "\<dots> = wrap64 (getd 0 (growth_of d r) u + live_growth d u bytes (rd_ifSeen r) (s # ss))"
      using st(3) [where d = d and u = u] by (auto simp: wrap64_add_left live_growth_def add.assoc)
    finally show ?thesis .
  qed
  moreover have "rd_ifSeen (foldl (count_live bytes) r (s # ss)) = (\<lambda>i. if i \<in> ls_ifname ` set (s # ss) then Some (bytes i) else rd_ifSeen r i)"
    using ih st(1) by (auto simp: fun_eq_iff)
  ultimately show ?case using ih st(2) by simp
qed (simp add: live_growth_def)

lemma dom_per_user: "dom (per_user ss) = ls_user ` set ss"
proof -
  have "dom (foldl (\<lambda>m s. m(ls_user s \<mapsto> getd [] m (ls_user s) @ [s])) m ss) = ls_user ` set ss \<union> dom m" for m
    by (induction ss arbitrary: m) auto
  then show ?thesis by (simp add: per_user_def)
qed

lemma add_users:
  assumes "distinct ks" "foldl (add_user now r) (samples, online, l2) ks = (samples', online', l2')"
  shows "(\<forall>d u. getd 0 (cum_of d l2') u =
      (if u \<in> set ks then add64 (getd 0 (cum_of d l2) u) (getd 0 (growth_of d r) u) else getd 0 (cum_of d l2) u)) \<and>
    l2_ifSeen l2' = l2_ifSeen l2"
  using assms
proof (induction ks arbitrary: samples online l2)
  case (Cons k ks)
  obtain s1 o1 l21 where st: "add_user now r (samples, online, l2) k = (s1, o1, l21)" by (metis prod_cases3)
  have "getd 0 (cum_of d l21) u = (if u = k then add64 (getd 0 (cum_of d l2) u) (getd 0 (growth_of d r) u) else getd 0 (cum_of d l2) u)" for d u
    using st by (cases d) (auto simp: add_user_def Let_def split: prod.splits)
  moreover have "l2_ifSeen l21 = l2_ifSeen l2" using st by (auto simp: add_user_def Let_def split: prod.splits)
  ultimately show ?case using Cons.IH [of s1 o1 l21] Cons.prems st by auto
qed simp

lemma owed_other: "u \<notin> fr_user ` set xs \<Longrightarrow> owed d u seen xs = 0"
  by (induction xs arbitrary: seen) auto

lemma live_growth_other: "u \<notin> ls_user ` set ss \<Longrightarrow> live_growth d u bytes seen ss = 0"
proof -
  assume "u \<notin> ls_user ` set ss"
  then have "filter (\<lambda>s. ls_user s = u) ss = []" by (auto simp: filter_empty_conv)
  then show ?thesis by (simp add: live_growth_def)
qed

text \<open>A poll in terms of the round it makes.\<close>

definition poll_round :: "(string \<Rightarrow> int64 \<times> int64) \<Rightarrow> l2_session list \<Rightarrow> l2_final list \<Rightarrow> baselines \<Rightarrow> l2_round" where
  "poll_round bytes ss finals seen = foldl (count_live bytes) (foldl settle_final
     \<lparr>rd_ifSeen = seen, rd_growthRx = Map.empty, rd_growthTx = Map.empty, rd_perUser = per_user ss\<rparr> finals) ss"

lemma account_round:
  assumes "range_order rg" "finite (dom (rd_perUser (poll_round bytes ss finals (l2_ifSeen l2))))"
  shows "l2_ifSeen (account_sessions rg now bytes ss finals l2) = rd_ifSeen (poll_round bytes ss finals (l2_ifSeen l2)) |` (ls_ifname ` set ss)"
    "getd 0 (cum_of d (account_sessions rg now bytes ss finals l2)) u =
       (if u \<in> dom (rd_perUser (poll_round bytes ss finals (l2_ifSeen l2)))
        then add64 (getd 0 (cum_of d l2) u) (getd 0 (growth_of d (poll_round bytes ss finals (l2_ifSeen l2))) u) else getd 0 (cum_of d l2) u)"
proof -
  define r where "r = poll_round bytes ss finals (l2_ifSeen l2)"
  note ks = distinct_keys_of [OF assms, of 0, folded r_def] set_keys_of [OF assms, of 0, folded r_def]
  define l20 where "l20 = l2\<lparr>l2_ifSeen := rd_ifSeen r |` (ls_ifname ` set ss)\<rparr>"
  obtain samples online l21 where f: "foldl (add_user now r) ([], Map.empty, l20) (keys_of rg 0 (rd_perUser r)) = (samples, online, l21)"
    by (metis prod_cases3)
  note A = add_users [OF ks(1) f]
  have l2': "l2_ifSeen (account_sessions rg now bytes ss finals l2) = l2_ifSeen l21" "cum_of d (account_sessions rg now bytes ss finals l2) = cum_of d l21" for d
    using f unfolding account_sessions_def Let_def poll_round_def [symmetric] r_def [symmetric] l20_def [symmetric]
    by (cases d; simp)+
  have cum0: "cum_of d l20 = cum_of d l2" by (cases d) (simp_all add: l20_def)
  show "l2_ifSeen (account_sessions rg now bytes ss finals l2) = rd_ifSeen (poll_round bytes ss finals (l2_ifSeen l2)) |` (ls_ifname ` set ss)"
    using A by (simp add: l2' l20_def r_def)
  show "getd 0 (cum_of d (account_sessions rg now bytes ss finals l2)) u =
       (if u \<in> dom (rd_perUser (poll_round bytes ss finals (l2_ifSeen l2)))
        then add64 (getd 0 (cum_of d l2) u) (getd 0 (growth_of d (poll_round bytes ss finals (l2_ifSeen l2))) u) else getd 0 (cum_of d l2) u)"
    unfolding l2' cum0 [symmetric] r_def [symmetric] ks(2) [symmetric] using A by blast
qed

lemma account_facts:
  fixes l2 :: l2tp
  defines "seen \<equiv> l2_ifSeen l2"
  assumes rg: "range_order rg" and fin: "settles seen finals" and dis: "distinct (map ls_ifname ss)"
    and live: "\<And>s d. s \<in> set ss \<Longrightarrow> between (base_at d (seen |` (- fr_ifname ` set finals)) (ls_ifname s)) (dir_of d (bytes (ls_ifname s)))"
    and acc: "account_sessions rg now bytes ss finals l2 = l2'"
  shows "l2_ifSeen l2' = (\<lambda>i. if i \<in> ls_ifname ` set ss then Some (bytes i) else None)"
    "wrap64 (getd 0 (cum_of d l2') u) =
       wrap64 (getd 0 (cum_of d l2) u + (owed d u seen finals + live_growth d u bytes (seen |` (- fr_ifname ` set finals)) ss))"
    "in_i64 (getd 0 (cum_of d l2) u) \<Longrightarrow> in_i64 (getd 0 (cum_of d l2') u)"
proof -
  define r0 where "r0 = \<lparr>rd_ifSeen = seen, rd_growthRx = Map.empty, rd_growthTx = Map.empty, rd_perUser = per_user ss\<rparr>"
  define r1 where "r1 = foldl settle_final r0 finals"
  define r2 where "r2 = foldl (count_live bytes) r1 ss"
  have r2: "poll_round bytes ss finals (l2_ifSeen l2) = r2" by (simp add: poll_round_def r2_def r1_def r0_def seen_def)
  have s0: "rd_ifSeen r0 = seen" and g0: "growth_of d r0 = Map.empty" for d by (cases d; simp add: r0_def)+
  note S = settle_all [of r0 finals, unfolded s0, OF fin, folded r1_def]
  have s1: "rd_ifSeen r1 = seen |` (- fr_ifname ` set finals)" using S by blast
  note C = count_all [OF dis, of r1 bytes, unfolded s1, OF live, folded r2_def]
  have p2: "dom (rd_perUser r2) = fr_user ` set finals \<union> ls_user ` set ss" using S C by (simp add: r0_def dom_per_user)
  note A = account_round [OF rg, of bytes ss finals l2, unfolded r2 p2 acc]
  have g: "wrap64 (getd 0 (growth_of d r2) u) = wrap64 (owed d u seen finals + live_growth d u bytes (seen |` (- fr_ifname ` set finals)) ss)" for d u
  proof -
    have "wrap64 (getd 0 (growth_of d r2) u) = wrap64 (wrap64 (getd 0 (growth_of d r1) u) + live_growth d u bytes (seen |` (- fr_ifname ` set finals)) ss)"
      unfolding wrap64_add_left using C by blast
    also have "wrap64 (getd 0 (growth_of d r1) u) = wrap64 (owed d u seen finals)" using S by (simp add: g0)
    finally show ?thesis unfolding wrap64_add_left .
  qed
  show "l2_ifSeen l2' = (\<lambda>i. if i \<in> ls_ifname ` set ss then Some (bytes i) else None)"
  proof -
    have "rd_ifSeen r2 = (\<lambda>i. if i \<in> ls_ifname ` set ss then Some (bytes i) else (seen |` (- fr_ifname ` set finals)) i)" using C by blast
    then show ?thesis using A(1) [of now] acc by (simp add: restrict_map_def fun_eq_iff)
  qed
  have c: "getd 0 (cum_of d l2') u = (if u \<in> fr_user ` set finals \<union> ls_user ` set ss then add64 (getd 0 (cum_of d l2) u) (getd 0 (growth_of d r2) u)
      else getd 0 (cum_of d l2) u)" for d u
    using A(2) [of d now u] acc by simp
  show "in_i64 (getd 0 (cum_of d l2) u) \<Longrightarrow> in_i64 (getd 0 (cum_of d l2') u)" by (simp add: c)
  show "wrap64 (getd 0 (cum_of d l2') u) =
       wrap64 (getd 0 (cum_of d l2) u + (owed d u seen finals + live_growth d u bytes (seen |` (- fr_ifname ` set finals)) ss))"
  proof (cases "u \<in> fr_user ` set finals \<union> ls_user ` set ss")
    case True
    then have "wrap64 (getd 0 (cum_of d l2') u) = wrap64 (getd 0 (cum_of d l2) u + wrap64 (getd 0 (growth_of d r2) u))"
      by (simp add: c add64_def wrap64_id wrap64_add_right)
    then show ?thesis unfolding g wrap64_add_right .
  next
    case False
    then show ?thesis by (simp add: c owed_other live_growth_other)
  qed
qed


section \<open>Sessions over time\<close>

text \<open>
  The sessions of one core: those alive by interface with the bytes they moved, the records of ended ones
  that are not settled yet, in the order of their file names, and what each user has moved so far.
\<close>

record ppp =
  pp_live :: "string \<rightharpoonup> l2_session \<times> int \<times> int"
  pp_done :: "l2_final list"
  pp_moved :: "dir \<Rightarrow> string \<Rightarrow> int"

definition ppp_none :: ppp where
  "ppp_none = \<lparr>pp_live = Map.empty, pp_done = [], pp_moved = (\<lambda>d u. 0)\<rparr>"

definition final_of :: "string \<Rightarrow> l2_session \<Rightarrow> int \<times> int \<Rightarrow> l2_final" where
  "final_of path s b = \<lparr>fr_path = path, fr_user = ls_user s, fr_tag = ls_tag s, fr_ifname = ls_ifname s, fr_rx = fst b, fr_tx = snd b\<rparr>"

lemma final_of_simps [simp]:
  "fr_path (final_of path s b) = path" "fr_user (final_of path s b) = ls_user s" "fr_ifname (final_of path s b) = ls_ifname s"
  "fr_tag (final_of path s b) = ls_tag s" "fr_of d (final_of path s b) = dir_of d b"
  "fr_rx (final_of path s b) = fst b" "fr_tx (final_of path s b) = snd b"
  by (cases d; simp add: final_of_def)+

text \<open>What the two directories hold when a poll reads them.\<close>

definition dirs_show :: "l2_env \<Rightarrow> l2_config \<Rightarrow> ppp \<Rightarrow> l2_session list \<Rightarrow> l2_final list \<Rightarrow> l2_host \<Rightarrow> bool" where
  "dirs_show E c w ss fs h \<longleftrightarrow> fst (readSessions E h) = ss \<and> fst (readFinalRecords E (snd (readSessions E h))) = fs \<and>
     distinct (map ls_ifname (filter (\<lambda>s. mine c (ls_tag s)) ss)) \<and>
     map_of (map (\<lambda>s. (ls_ifname s, s)) (filter (\<lambda>s. mine c (ls_tag s)) ss)) = (\<lambda>i. map_option fst (pp_live w i)) \<and>
     filter (\<lambda>r. mine c (fr_tag r)) fs = pp_done w \<and>
     (\<forall>i\<in>dom (pp_live w). map_option snd (pp_live w i) = Some (ifaceBytes E i))"

inductive ppp_run :: "l2_config \<Rightarrow> ppp \<Rightarrow> l2tp \<Rightarrow> bool" for c where
  ppp_start: "ppp_run c ppp_none (fresh_l2tp c now)"
| ppp_begin: "ppp_run c w l2 \<Longrightarrow> pp_live w (ls_ifname s) = None \<Longrightarrow>
    ppp_run c (w\<lparr>pp_live := (pp_live w)(ls_ifname s \<mapsto> (s, 0, 0))\<rparr>) l2"
| ppp_moves: "ppp_run c w l2 \<Longrightarrow> pp_live w i = Some (s, b) \<Longrightarrow> (\<And>d. dir_of d b \<le> dir_of d b' \<and> dir_of d b' < 2 ^ 63) \<Longrightarrow>
    ppp_run c (w\<lparr>pp_live := (pp_live w)(i \<mapsto> (s, b')),
                  pp_moved := (\<lambda>d u. pp_moved w d u + (if ls_user s = u then dir_of d b' - dir_of d b else 0))\<rparr>) l2"
| ppp_ends: "ppp_run c w l2 \<Longrightarrow> pp_live w i = Some (s, b) \<Longrightarrow> pp_done w = xs @ ys \<Longrightarrow> i \<notin> fr_ifname ` set ys \<Longrightarrow>
    ppp_run c (w\<lparr>pp_live := (pp_live w)(i := None), pp_done := xs @ final_of path s b # ys\<rparr>) l2"
| ppp_poll: "ppp_run c w l2 \<Longrightarrow> range_order rg \<Longrightarrow> l2_config l2 = c \<Longrightarrow> dirs_show E c w ss fs h \<Longrightarrow> l2_poll E rg now l2 h = (l2', h') \<Longrightarrow>
    ppp_run c (w\<lparr>pp_done := []\<rparr>) l2'"
| ppp_other: "ppp_run c w l2 \<Longrightarrow> l2_ifSeen l2' = l2_ifSeen l2 \<Longrightarrow> l2_cumRx l2' = l2_cumRx l2 \<Longrightarrow> l2_cumTx l2' = l2_cumTx l2 \<Longrightarrow> ppp_run c w l2'"

text \<open>The baselines that living sessions are measured against, and what is still to be counted for them.\<close>

definition live_base :: "ppp \<Rightarrow> l2tp \<Rightarrow> baselines" where
  "live_base w l2 = l2_ifSeen l2 |` (- fr_ifname ` set (pp_done w))"

definition live_part :: "dir \<Rightarrow> string \<Rightarrow> baselines \<Rightarrow> ppp \<Rightarrow> string \<Rightarrow> int" where
  "live_part d u seen w i = (case pp_live w i of None \<Rightarrow> 0 | Some (s, b) \<Rightarrow> if ls_user s = u then dir_of d b - base_at d seen i else 0)"

definition ppp_inv :: "ppp \<Rightarrow> l2tp \<Rightarrow> bool" where
  "ppp_inv w l2 \<longleftrightarrow> finite (dom (pp_live w)) \<and> dom (l2_ifSeen l2) \<subseteq> dom (pp_live w) \<union> fr_ifname ` set (pp_done w) \<and>
     settles (l2_ifSeen l2) (pp_done w) \<and>
     (\<forall>i s b. pp_live w i = Some (s, b) \<longrightarrow> ls_ifname s = i \<and> (\<forall>d. between (base_at d (live_base w l2) i) (dir_of d b))) \<and>
     (\<forall>d u. in_i64 (getd 0 (cum_of d l2) u)) \<and>
     (\<forall>d u. wrap64 (getd 0 (cum_of d l2) u + (owed d u (l2_ifSeen l2) (pp_done w) + (\<Sum>i\<in>dom (pp_live w). live_part d u (live_base w l2) w i))) =
            wrap64 (pp_moved w d u))"

lemma ppp_invD:
  assumes "ppp_inv w l2"
  shows "finite (dom (pp_live w))" "dom (l2_ifSeen l2) \<subseteq> dom (pp_live w) \<union> fr_ifname ` set (pp_done w)"
    "settles (l2_ifSeen l2) (pp_done w)" "pp_live w i = Some (s, b) \<Longrightarrow> ls_ifname s = i"
    "pp_live w i = Some (s, b) \<Longrightarrow> between (base_at d (live_base w l2) i) (dir_of d b)"
    "in_i64 (getd 0 (cum_of d l2) u)"
    "wrap64 (getd 0 (cum_of d l2) u + (owed d u (l2_ifSeen l2) (pp_done w) + (\<Sum>i\<in>dom (pp_live w). live_part d u (live_base w l2) w i))) =
       wrap64 (pp_moved w d u)"
  using assms unfolding ppp_inv_def by blast+

text \<open>A record put in behind all others of its interface.\<close>

lemma base_at_restrict: "base_at d (seen |` A) i = (if i \<in> A then base_at d seen i else 0)"
  by (cases d) (simp_all add: base_at_def getd_def restrict_map_def)

lemma owed_cong: "(\<And>i. i \<in> fr_ifname ` set xs \<Longrightarrow> seen i = seen' i) \<Longrightarrow> owed d u seen xs = owed d u seen' xs"
proof (induction xs arbitrary: seen seen')
  case (Cons x xs)
  have "base_at d seen (fr_ifname x) = base_at d seen' (fr_ifname x)" using Cons.prems by (simp add: base_at_def getd_def)
  moreover have "owed d u (seen(fr_ifname x := None)) xs = owed d u (seen'(fr_ifname x := None)) xs"
    by (rule Cons.IH) (use Cons.prems in auto)
  ultimately show ?case by simp
qed simp

lemma settles_cong: "(\<And>i. i \<in> fr_ifname ` set xs \<Longrightarrow> seen i = seen' i) \<Longrightarrow> settles seen xs = settles seen' xs"
proof (induction xs arbitrary: seen seen')
  case (Cons x xs)
  have "base_at d seen (fr_ifname x) = base_at d seen' (fr_ifname x)" for d using Cons.prems by (simp add: base_at_def getd_def)
  moreover have "settles (seen(fr_ifname x := None)) xs = settles (seen'(fr_ifname x := None)) xs"
    by (rule Cons.IH) (use Cons.prems in auto)
  ultimately show ?case by simp
qed simp

lemma owed_insert:
  assumes "fr_ifname r \<notin> fr_ifname ` set ys"
  shows "owed d u seen (xs @ r # ys) = owed d u seen (xs @ ys) +
     (if fr_user r = u then fr_of d r - base_at d (seen |` (- fr_ifname ` set (xs @ ys))) (fr_ifname r) else 0)"
proof (induction xs arbitrary: seen)
  case Nil
  have "owed d u (seen(fr_ifname r := None)) ys = owed d u seen ys" by (rule owed_cong) (metis assms fun_upd_other)
  then show ?case using assms by (simp add: base_at_restrict)
next
  case (Cons x xs)
  show ?case unfolding append_Cons owed.simps(2) [of d u seen x] Cons.IH by (auto simp: base_at_restrict)
qed

lemma settles_insert:
  assumes "fr_ifname r \<notin> fr_ifname ` set ys"
  shows "settles seen (xs @ r # ys) \<longleftrightarrow> settles seen (xs @ ys) \<and>
     (\<forall>d. between (base_at d (seen |` (- fr_ifname ` set (xs @ ys))) (fr_ifname r)) (fr_of d r))"
proof (induction xs arbitrary: seen)
  case Nil
  have "settles (seen(fr_ifname r := None)) ys = settles seen ys" by (rule settles_cong) (metis assms fun_upd_other)
  then show ?case using assms by (auto simp: base_at_restrict all_dir)
next
  case (Cons x xs)
  show ?case unfolding append_Cons settles.simps(2) [of seen x] Cons.IH by (auto simp: base_at_restrict all_dir)
qed

text \<open>The sum over living sessions when one entry changes.\<close>

lemma part_sum_upd:
  assumes "finite (dom (pp_live w))" "\<And>j. j \<noteq> i \<Longrightarrow> pp_live w' j = pp_live w j" "\<And>j. j \<noteq> i \<Longrightarrow> base_at d seen' j = base_at d seen j"
  shows "(\<Sum>j\<in>dom (pp_live w'). live_part d u seen' w' j) = (\<Sum>j\<in>dom (pp_live w). live_part d u seen w j) + (live_part d u seen' w' i - live_part d u seen w i)"
proof -
  let ?S = "insert i (dom (pp_live w))"
  have sub: "dom (pp_live w') \<subseteq> ?S" using assms(2) by (auto simp: domIff)
  have "(\<Sum>j\<in>dom (pp_live w'). live_part d u seen' w' j) = (\<Sum>j\<in>?S. live_part d u seen' w' j)"
    by (rule sum.mono_neutral_left) (use assms(1) sub in \<open>auto simp: live_part_def domIff split: option.split\<close>)
  also have "\<dots> = live_part d u seen' w' i + (\<Sum>j\<in>?S - {i}. live_part d u seen' w' j)" using assms(1) by (simp add: sum.remove [of _ i])
  also have "(\<Sum>j\<in>?S - {i}. live_part d u seen' w' j) = (\<Sum>j\<in>?S - {i}. live_part d u seen w j)"
    by (rule sum.cong) (use assms(2,3) in \<open>auto simp: live_part_def split: option.split\<close>)
  also have "\<dots> = (\<Sum>j\<in>?S. live_part d u seen w j) - live_part d u seen w i" using assms(1) by (simp add: sum.remove [of ?S i])
  also have "(\<Sum>j\<in>?S. live_part d u seen w j) = (\<Sum>j\<in>dom (pp_live w). live_part d u seen w j)"
    by (rule sum.mono_neutral_right) (use assms(1) in \<open>auto simp: live_part_def domIff split: option.split\<close>)
  finally show ?thesis by simp
qed

lemma inv_ppp_start: "ppp_inv ppp_none (fresh_l2tp c now)"
proof -
  have "cum_of d (fresh_l2tp c now) = Map.empty" for d by (cases d) (simp_all add: fresh_l2tp_def)
  then show ?thesis by (simp add: ppp_inv_def ppp_none_def fresh_l2tp_def in_i64_def wrap64_id)
qed

lemma inv_ppp_begin:
  assumes I: "ppp_inv w l2" and new: "pp_live w (ls_ifname s) = None"
  shows "ppp_inv (w\<lparr>pp_live := (pp_live w)(ls_ifname s \<mapsto> (s, 0, 0))\<rparr>) l2" (is "ppp_inv ?w l2")
proof -
  note D = ppp_invD [OF I]
  have lb: "live_base ?w l2 = live_base w l2" by (simp add: live_base_def)
  have zero: "base_at d (live_base w l2) (ls_ifname s) = 0" for d
    using D(2) new by (auto simp: live_base_def base_at_restrict) (auto simp: base_at_def getd_def domIff subset_iff split: option.split; cases d; force)
  have "live_part d u (live_base w l2) ?w (ls_ifname s) = 0" "live_part d u (live_base w l2) w (ls_ifname s) = 0" for d u
    by (cases d; simp add: live_part_def zero new)+
  then have sum: "(\<Sum>j\<in>dom (pp_live ?w). live_part d u (live_base w l2) ?w j) = (\<Sum>j\<in>dom (pp_live w). live_part d u (live_base w l2) w j)" for d u
    using part_sum_upd [OF D(1), of "ls_ifname s" ?w d "live_base w l2" "live_base w l2" u] by simp
  have bt: "between (base_at d (live_base w l2) (ls_ifname s)) (dir_of d (0, 0))" for d by (cases d) (simp_all add: zero between_def)
  show ?thesis
    unfolding ppp_inv_def lb sum using D bt by (auto simp: split: if_splits)
qed

lemma inv_ppp_moves:
  assumes I: "ppp_inv w l2" and i: "pp_live w i = Some (s, b)" and grow: "\<And>d. dir_of d b \<le> dir_of d b' \<and> dir_of d b' < 2 ^ 63"
  shows "ppp_inv (w\<lparr>pp_live := (pp_live w)(i \<mapsto> (s, b')),
     pp_moved := (\<lambda>d u. pp_moved w d u + (if ls_user s = u then dir_of d b' - dir_of d b else 0))\<rparr>) l2" (is "ppp_inv ?w l2")
proof -
  note D = ppp_invD [OF I]
  have lb: "live_base ?w l2 = live_base w l2" by (simp add: live_base_def)
  have sum: "(\<Sum>j\<in>dom (pp_live ?w). live_part d u (live_base w l2) ?w j) =
      (\<Sum>j\<in>dom (pp_live w). live_part d u (live_base w l2) w j) + (if ls_user s = u then dir_of d b' - dir_of d b else 0)" for d u
    using part_sum_upd [OF D(1), of i ?w d "live_base w l2" "live_base w l2" u] by (simp add: live_part_def i)
  have bt: "between (base_at d (live_base w l2) i) (dir_of d b')" for d using D(5) [OF i, of d] grow [of d] by (simp add: between_def)
  have "wrap64 (getd 0 (cum_of d l2) u + (owed d u (l2_ifSeen l2) (pp_done ?w) + (\<Sum>j\<in>dom (pp_live ?w). live_part d u (live_base w l2) ?w j))) =
      wrap64 (pp_moved ?w d u)" (is "wrap64 ?lhs = _") for d u
  proof -
    let ?g = "if ls_user s = u then dir_of d b' - dir_of d b else 0"
    let ?A = "getd 0 (cum_of d l2) u + (owed d u (l2_ifSeen l2) (pp_done w) + (\<Sum>j\<in>dom (pp_live w). live_part d u (live_base w l2) w j))"
    have "?lhs = ?A + ?g" unfolding sum by simp
    then have "wrap64 ?lhs = wrap64 (wrap64 ?A + ?g)" by (simp only: wrap64_add_left)
    also have "\<dots> = wrap64 (pp_moved w d u + ?g)" unfolding D(7) wrap64_add_left ..
    finally show ?thesis by simp
  qed
  moreover have "finite (dom (pp_live ?w))" "dom (pp_live ?w) = dom (pp_live w)" using D(1) i by auto
  moreover have "ls_ifname s' = j \<and> (\<forall>d. between (base_at d (live_base w l2) j) (dir_of d b''))" if "pp_live ?w j = Some (s', b'')" for j s' b''
    using that D(4) [of j s' b''] D(5) [of j s' b''] D(4) [OF i] bt by (auto split: if_splits)
  ultimately show ?thesis unfolding ppp_inv_def lb using D(2,3,6) by auto
qed

lemma inv_ppp_ends:
  assumes I: "ppp_inv w l2" and i: "pp_live w i = Some (s, b)" and dn: "pp_done w = xs @ ys" and later: "i \<notin> fr_ifname ` set ys"
  shows "ppp_inv (w\<lparr>pp_live := (pp_live w)(i := None), pp_done := xs @ final_of path s b # ys\<rparr>) l2" (is "ppp_inv ?w l2")
proof -
  note D = ppp_invD [OF I]
  note si = D(4) [OF i]
  let ?seen = "l2_ifSeen l2"
  have lb: "live_base ?w l2 = (live_base w l2)(i := None)"
    by (auto simp: live_base_def dn restrict_map_def fun_eq_iff si)
  have base: "base_at d (?seen |` (- fr_ifname ` set (xs @ ys))) i = base_at d (live_base w l2) i" for d
    by (simp add: live_base_def dn)
  have sum: "(\<Sum>j\<in>dom (pp_live ?w). live_part d u (live_base ?w l2) ?w j) =
      (\<Sum>j\<in>dom (pp_live w). live_part d u (live_base w l2) w j) - (if ls_user s = u then dir_of d b - base_at d (live_base w l2) i else 0)" for d u
    using part_sum_upd [OF D(1), of i ?w d "live_base ?w l2" "live_base w l2" u] by (simp add: live_part_def i lb)
  have nin: "fr_ifname (final_of path s b) \<notin> fr_ifname ` set ys" using later by (simp add: si)
  have owed: "owed d u ?seen (pp_done ?w) = owed d u ?seen (pp_done w) + (if ls_user s = u then dir_of d b - base_at d (live_base w l2) i else 0)" for d u
    using owed_insert [OF nin, of d u ?seen xs] by (simp add: si dn live_base_def)
  have "settles ?seen (pp_done ?w)"
    using settles_insert [OF nin, of ?seen xs] D(3) D(5) [OF i] by (simp add: si dn live_base_def)
  moreover have "getd 0 (cum_of d l2) u + (owed d u ?seen (pp_done ?w) + (\<Sum>j\<in>dom (pp_live ?w). live_part d u (live_base ?w l2) ?w j)) =
      getd 0 (cum_of d l2) u + (owed d u ?seen (pp_done w) + (\<Sum>j\<in>dom (pp_live w). live_part d u (live_base w l2) w j))" for d u
    unfolding owed sum by simp
  moreover have "ls_ifname s' = j \<and> (\<forall>d. between (base_at d (live_base ?w l2) j) (dir_of d b''))" if "pp_live ?w j = Some (s', b'')" for j s' b''
    using that D(4) [of j s' b''] D(5) [of j s' b''] by (auto simp: lb split: if_splits)
  moreover have "dom ?seen \<subseteq> dom (pp_live ?w) \<union> fr_ifname ` set (pp_done ?w)" "finite (dom (pp_live ?w))"
    using D(1,2) by (auto simp: dn si)
  ultimately show ?thesis unfolding ppp_inv_def using D(6,7) by auto
qed

text \<open>A poll that finds the hooks' records as they were left counts everything.\<close>

lemma dirs_showD:
  assumes I: "ppp_inv w l2" and dirs: "dirs_show E c w ss fs h"
  defines "own \<equiv> filter (\<lambda>s. mine c (ls_tag s)) ss"
  shows "distinct (map ls_ifname own)" "ls_ifname ` set own = dom (pp_live w)"
    "s \<in> set own \<Longrightarrow> pp_live w (ls_ifname s) = Some (s, ifaceBytes E (ls_ifname s))"
    "pp_live w i = Some (s, b) \<Longrightarrow> b = ifaceBytes E i \<and> s \<in> set own"
proof -
  note D = ppp_invD [OF I]
  have m: "map_of (map (\<lambda>s. (ls_ifname s, s)) own) = (\<lambda>i. map_option fst (pp_live w i))" and dis: "distinct (map ls_ifname own)"
    and b: "\<forall>i\<in>dom (pp_live w). map_option snd (pp_live w i) = Some (ifaceBytes E i)"
    using dirs unfolding dirs_show_def own_def by blast+
  show "distinct (map ls_ifname own)" by (rule dis)
  show live: "pp_live w (ls_ifname s) = Some (s, ifaceBytes E (ls_ifname s))" if mem: "s \<in> set own" for s
  proof -
    have "map_of (map (\<lambda>s. (ls_ifname s, s)) own) (ls_ifname s) = Some s"
      using dis mem by (intro map_of_is_SomeI) (auto simp: comp_def)
    then obtain b' where "pp_live w (ls_ifname s) = Some (s, b')" unfolding m by fastforce
    with b show ?thesis by force
  qed
  show "b = ifaceBytes E i \<and> s \<in> set own" if i: "pp_live w i = Some (s, b)" for i s b
  proof
    show "b = ifaceBytes E i" using assms(2) i unfolding dirs_show_def by force
    have "map_of (map (\<lambda>s. (ls_ifname s, s)) own) i = Some s" unfolding m using i by simp
    from map_of_SomeD [OF this] show "s \<in> set own" by auto
  qed
  then show "ls_ifname ` set own = dom (pp_live w)" using live D(4) by (fastforce simp: domIff)
qed

lemma inv_ppp_poll:
  assumes I: "ppp_inv w l2" and rg: "range_order rg" and c: "l2_config l2 = c" and dirs: "dirs_show E c w ss fs h"
    and poll: "l2_poll E rg now l2 h = (l2', h')"
  shows "ppp_inv (w\<lparr>pp_done := []\<rparr>) l2'" "wrap64 (getd 0 (cum_of d l2') u) = wrap64 (pp_moved w d u)"
proof -
  note D = ppp_invD [OF I]
  define own where "own = filter (\<lambda>s. mine c (ls_tag s)) ss"
  note S = dirs_showD [OF I dirs, folded own_def]
  have l2': "account_sessions rg now (ifaceBytes E) own (pp_done w) l2 = l2'"
    using poll dirs by (auto simp: l2_poll_def dirs_show_def own_def c Let_def split: prod.splits)
  have bt: "between (base_at d (l2_ifSeen l2 |` (- fr_ifname ` set (pp_done w))) (ls_ifname s)) (dir_of d (ifaceBytes E (ls_ifname s)))"
    if "s \<in> set own" for s d using D(5) [OF S(3) [OF that], of d] by (simp add: live_base_def)
  note F = account_facts [OF rg D(3) S(1) bt l2']
  have seen': "l2_ifSeen l2' = (\<lambda>i. if i \<in> dom (pp_live w) then Some (ifaceBytes E i) else None)" using F(1) S(2) by simp
  have growth: "live_growth d u (ifaceBytes E) (live_base w l2) own = (\<Sum>i\<in>dom (pp_live w). live_part d u (live_base w l2) w i)" for d u
  proof -
    let ?S = "{i \<in> dom (pp_live w). case pp_live w i of None \<Rightarrow> False | Some (s, b) \<Rightarrow> ls_user s = u}"
    have P: "ls_user s = u \<longleftrightarrow> ls_ifname s \<in> ?S" if "s \<in> set own" for s using S(3) [OF that] by auto
    have "live_growth d u (ifaceBytes E) (live_base w l2) own = (\<Sum>i\<in>?S. case map_of (map (\<lambda>s. (ls_ifname s, s)) own) i of None \<Rightarrow> 0
        | Some s \<Rightarrow> dir_of d (ifaceBytes E (ls_ifname s)) - base_at d (live_base w l2) (ls_ifname s))"
      unfolding live_growth_def by (rule sum_list_by_key [OF S(1) _ P]) (use D(1) in auto)
    also have "\<dots> = (\<Sum>i\<in>?S. live_part d u (live_base w l2) w i)"
    proof (rule sum.cong [OF refl])
      fix i assume "i \<in> ?S"
      then obtain s b where i: "pp_live w i = Some (s, b)" "ls_user s = u" by auto
      then have "s \<in> set own" "ls_ifname s = i" "b = ifaceBytes E i" using S(4) D(4) by blast+
      then have "map_of (map (\<lambda>s. (ls_ifname s, s)) own) i = Some s" using S(1) by (intro map_of_is_SomeI) (auto simp: comp_def)
      then show "(case map_of (map (\<lambda>s. (ls_ifname s, s)) own) i of None \<Rightarrow> 0
          | Some s \<Rightarrow> dir_of d (ifaceBytes E (ls_ifname s)) - base_at d (live_base w l2) (ls_ifname s)) = live_part d u (live_base w l2) w i"
        using i \<open>ls_ifname s = i\<close> \<open>b = ifaceBytes E i\<close> by (simp add: live_part_def)
    qed
    also have "\<dots> = (\<Sum>i\<in>dom (pp_live w). live_part d u (live_base w l2) w i)"
      by (rule sum.mono_neutral_left) (use D(1) in \<open>auto simp: live_part_def split: option.splits\<close>)
    finally show ?thesis .
  qed
  have cum: "wrap64 (getd 0 (cum_of d l2') u) = wrap64 (pp_moved w d u)" for d u
    using F(2) [of d u] D(7) [of d u] unfolding live_base_def [symmetric] growth by simp
  show "wrap64 (getd 0 (cum_of d l2') u) = wrap64 (pp_moved w d u)" by (rule cum)
  let ?w = "w\<lparr>pp_done := []\<rparr>"
  have lb: "live_base ?w l2' = l2_ifSeen l2'" by (simp add: live_base_def restrict_map_def)
  have base: "base_at d (l2_ifSeen l2') i = dir_of d b" if "pp_live w i = Some (s, b)" for d i s b
    using that S(4) [OF that] by (auto simp: seen' base_at_def getd_def domIff)
  have zero: "(\<Sum>i\<in>dom (pp_live ?w). live_part d u (l2_ifSeen l2') ?w i) = 0" for d u
    by (rule sum.neutral) (auto simp: live_part_def base)
  have "ls_ifname s = i \<and> (\<forall>d. between (base_at d (l2_ifSeen l2') i) (dir_of d b))" if i: "pp_live w i = Some (s, b)" for i s b
    using D(4) [OF i] D(5) [OF i] base [OF i] by (auto simp: between_def) (meson order_trans)
  moreover have "in_i64 (getd 0 (cum_of d l2') u)" for d u by (rule F(3) [OF _ D(6)])
  moreover have "dom (l2_ifSeen l2') \<subseteq> dom (pp_live w)" by (auto simp: seen' split: if_splits)
  ultimately show "ppp_inv ?w l2'" unfolding ppp_inv_def lb zero using D(1) cum by auto
qed

lemma ppp_run_inv: "ppp_run c w l2 \<Longrightarrow> ppp_inv w l2"
proof (induction rule: ppp_run.induct)
  case (ppp_other w l2 l2')
  then have "cum_of d l2' = cum_of d l2" for d by (cases d) simp_all
  with ppp_other show ?case by (simp add: ppp_inv_def live_base_def)
qed (blast intro: inv_ppp_start inv_ppp_begin inv_ppp_moves inv_ppp_ends inv_ppp_poll)+


section \<open>The records of the hooks\<close>

text \<open>What the scripts of \<open>ip_up_script\<close> and \<open>ip_down_script\<close> echo into their files.\<close>

definition up_record :: "l2_session \<Rightarrow> string" where
  "up_record s = text_of [''user='' @ ls_user s, ''tunnel_ip='' @ ls_tunnelIP s, ''client='' @ ls_clientIP s, ''tag='' @ ls_tag s,
     ''pid='' @ show_int (ls_pid s), ''started='' @ show_int (ls_started s)]"

definition down_record :: "l2_final \<Rightarrow> string" where
  "down_record r = text_of [''user='' @ fr_user r, ''tag='' @ fr_tag r, ''ifname='' @ fr_ifname r, ''rx='' @ show_int (fr_rx r),
     ''tx='' @ show_int (fr_tx r)]"

definition text_ok :: "string \<Rightarrow> bool" where
  "text_ok v \<longleftrightarrow> list_all graphic v \<and> length v < 65000"

definition number_ok :: "int \<Rightarrow> bool" where
  "number_ok n \<longleftrightarrow> 0 \<le> n \<and> n < 2 ^ 63 \<and> length (show_int n) < 65000"

definition session_ok :: "l2_session \<Rightarrow> bool" where
  "session_ok s \<longleftrightarrow> list_all text_ok [ls_user s, ls_tunnelIP s, ls_clientIP s, ls_tag s] \<and> list_all number_ok [ls_pid s, ls_started s]"

definition final_ok :: "l2_final \<Rightarrow> bool" where
  "final_ok r \<longleftrightarrow> list_all text_ok [fr_user r, fr_tag r, fr_ifname r] \<and> list_all number_ok [fr_rx r, fr_tx r] \<and> fr_user r \<noteq> [] \<and> fr_ifname r \<noteq> []"

lemma number_ok_text: "number_ok n \<Longrightarrow> text_ok (show_int n) \<and> ParseInt64 (show_int n) = n"
  by (simp add: number_ok_def text_ok_def show_int_graphic ParseInt64_show_int)

lemma graphic_keys:
  "list_all graphic ''user=tunnel_ipclienttagpidstartedifnamerxtx''"
  by code_simp

lemma key_value_plain:
  assumes "list_all graphic k" "length k < 100" "text_ok v"
  shows "plain_line (k @ v)"
  using assms by (intro graphic_plain_line) (auto simp: text_ok_def)

lemma session_lines:
  assumes "text_ok v"
  shows "session_line s (''user='' @ v) = s\<lparr>ls_user := v\<rparr>" "session_line s (''tunnel_ip='' @ v) = s\<lparr>ls_tunnelIP := v\<rparr>"
    "session_line s (''client='' @ v) = s\<lparr>ls_clientIP := v\<rparr>" "session_line s (''tag='' @ v) = s\<lparr>ls_tag := v\<rparr>"
    "session_line s (''pid='' @ v) = s\<lparr>ls_pid := ParseInt64 v\<rparr>" "session_line s (''started='' @ v) = s\<lparr>ls_started := ParseInt64 v\<rparr>"
  using key_value_line [of "''user''" v] key_value_line [of "''tunnel_ip''" v] key_value_line [of "''client''" v]
    key_value_line [of "''tag''" v] key_value_line [of "''pid''" v] key_value_line [of "''started''" v] assms graphic_keys
  by (simp_all add: session_line_def text_ok_def)

lemma final_lines:
  assumes "text_ok v"
  shows "final_line r (''user='' @ v) = r\<lparr>fr_user := v\<rparr>" "final_line r (''tag='' @ v) = r\<lparr>fr_tag := v\<rparr>"
    "final_line r (''ifname='' @ v) = r\<lparr>fr_ifname := v\<rparr>" "final_line r (''rx='' @ v) = r\<lparr>fr_rx := ParseInt64 v\<rparr>"
    "final_line r (''tx='' @ v) = r\<lparr>fr_tx := ParseInt64 v\<rparr>"
  using key_value_line [of "''user''" v] key_value_line [of "''tag''" v] key_value_line [of "''ifname''" v]
    key_value_line [of "''rx''" v] key_value_line [of "''tx''" v] assms graphic_keys
  by (simp_all add: final_line_def text_ok_def)

lemma parse_up_record:
  assumes "session_ok s"
  shows "parseSessionFile (Some (up_record s)) (ls_ifname s) = s"
proof -
  let ?ls = "[''user='' @ ls_user s, ''tunnel_ip='' @ ls_tunnelIP s, ''client='' @ ls_clientIP s, ''tag='' @ ls_tag s,
     ''pid='' @ show_int (ls_pid s), ''started='' @ show_int (ls_started s)]"
  have ok: "text_ok (ls_user s)" "text_ok (ls_tunnelIP s)" "text_ok (ls_clientIP s)" "text_ok (ls_tag s)" "number_ok (ls_pid s)" "number_ok (ls_started s)"
    using assms by (simp_all add: session_ok_def)
  note num = number_ok_text [OF ok(5)] number_ok_text [OF ok(6)]
  have "list_all plain_line ?ls"
    using key_value_plain [of "''user=''", OF _ _ ok(1)] key_value_plain [of "''tunnel_ip=''", OF _ _ ok(2)] key_value_plain [of "''client=''", OF _ _ ok(3)]
      key_value_plain [of "''tag=''", OF _ _ ok(4)] key_value_plain [of "''pid=''" "show_int (ls_pid s)"] key_value_plain [of "''started=''" "show_int (ls_started s)"]
      num graphic_keys by simp
  then have "fst (scan_lines (up_record s)) = ?ls" unfolding up_record_def text_of_def by (simp only: scan_text fst_conv)
  then have "parseSessionFile (Some (up_record s)) (ls_ifname s) = foldl session_line (no_session (ls_ifname s)) ?ls" by (simp add: parseSessionFile_def)
  also have "\<dots> = s"
    unfolding foldl.simps using num by (simp add: session_lines ok no_session_def del: append.simps)
  finally show ?thesis .
qed

lemma parse_down_record:
  assumes "final_ok r"
  shows "parseFinalRecord (Some (down_record r)) (fr_path r) = (r, True)"
proof -
  let ?ls = "[''user='' @ fr_user r, ''tag='' @ fr_tag r, ''ifname='' @ fr_ifname r, ''rx='' @ show_int (fr_rx r), ''tx='' @ show_int (fr_tx r)]"
  have ok: "text_ok (fr_user r)" "text_ok (fr_tag r)" "text_ok (fr_ifname r)" "number_ok (fr_rx r)" "number_ok (fr_tx r)" "fr_user r \<noteq> []" "fr_ifname r \<noteq> []"
    using assms by (simp_all add: final_ok_def)
  note num = number_ok_text [OF ok(4)] number_ok_text [OF ok(5)]
  have "list_all plain_line ?ls"
    using key_value_plain [of "''user=''", OF _ _ ok(1)] key_value_plain [of "''tag=''", OF _ _ ok(2)] key_value_plain [of "''ifname=''", OF _ _ ok(3)]
      key_value_plain [of "''rx=''" "show_int (fr_rx r)"] key_value_plain [of "''tx=''" "show_int (fr_tx r)"] num graphic_keys by simp
  then have lines: "fst (scan_lines (down_record r)) = ?ls" unfolding down_record_def text_of_def by (simp only: scan_text fst_conv)
  have "foldl final_line \<lparr>fr_path = fr_path r, fr_user = [], fr_tag = [], fr_ifname = [], fr_rx = 0, fr_tx = 0\<rparr> ?ls = r"
    unfolding foldl.simps using num by (simp add: final_lines ok del: append.simps)
  then show ?thesis using ok by (simp add: parseFinalRecord_def lines Let_def)
qed


section \<open>The directories over time\<close>

text \<open>
  The two directories as the hooks and the node change them. What a poll makes of an entry does not depend
  on the entries around it: the sessions of the first directory and the records of the second.
\<close>

definition entries_of :: "dir_entry list option \<Rightarrow> dir_entry list" where
  "entries_of dir1 = (case dir1 of None \<Rightarrow> [] | Some es \<Rightarrow> es)"

definition session_in :: "dir_entry \<Rightarrow> l2_session option" where
  "session_in e = (let s = parseSessionFile (de_Content e) (de_Name e) in
     if de_IsDir e \<or> ls_user s = [] \<or> ls_ifname s = [] then None else Some s)"

definition final_in :: "dir_entry \<Rightarrow> l2_final option" where
  "final_in e = (case parseFinalRecord (de_Content e) (path_join [sessionFinalDir, de_Name e]) of
     (r, ok) \<Rightarrow> if de_IsDir e \<or> \<not> ok then None else Some r)"

definition own_sessions :: "l2_config \<Rightarrow> dir_entry list \<Rightarrow> l2_session list" where
  "own_sessions c es = filter (\<lambda>s. mine c (ls_tag s)) (List.map_filter session_in es)"

definition own_finals :: "l2_config \<Rightarrow> dir_entry list \<Rightarrow> l2_final list" where
  "own_finals c es = filter (\<lambda>r. mine c (fr_tag r)) (List.map_filter final_in es)"

lemma map_filter_simps' [simp]:
  "List.map_filter f [] = []" "List.map_filter f (x # xs) = (case f x of None \<Rightarrow> List.map_filter f xs | Some y \<Rightarrow> y # List.map_filter f xs)"
  "List.map_filter f (xs @ ys) = List.map_filter f xs @ List.map_filter f ys"
  by (simp_all add: List.map_filter_def split: option.split)

lemma parse_session_ifname: "ls_ifname (parseSessionFile content i) = i"
proof -
  have "ls_ifname (foldl session_line s ls) = ls_ifname s" for s ls
    by (induction ls arbitrary: s) (simp_all add: session_line_def split: option.split prod.split)
  then show ?thesis by (simp add: parseSessionFile_def no_session_def split: option.split)
qed

lemma parse_final_path: "fr_path (fst (parseFinalRecord content path)) = path"
proof -
  have "fr_path (foldl final_line r ls) = fr_path r" for r ls
    by (induction ls arbitrary: r) (simp_all add: final_line_def split: option.split prod.split)
  then show ?thesis by (simp add: parseFinalRecord_def Let_def split: option.split)
qed

lemma read_entries_sessions: "fst (read_entries E es) = filter (sessionIsAlive E) (List.map_filter session_in es)"
  by (induction es) (simp_all add: session_in_def Let_def case_prod_unfold)

lemma final_entries_records: "fst (final_entries E es) = List.map_filter final_in es"
  by (induction es) (simp_all add: final_in_def Let_def case_prod_unfold)

lemma final_entries_kept: "List.map_filter final_in (snd (final_entries E es)) = List.map_filter final_in es"
  by (induction es) (simp_all add: final_in_def Let_def case_prod_unfold)

lemma read_entries_kept:
  "list_all (sessionIsAlive E) (own_sessions c es) \<Longrightarrow> own_sessions c (snd (read_entries E es)) = own_sessions c es"
  by (induction es) (auto simp: own_sessions_def session_in_def Let_def case_prod_unfold split: if_splits)

lemma own_sessions_without: "own_sessions c (filter (\<lambda>e. de_Name e \<noteq> i) es) = filter (\<lambda>s. ls_ifname s \<noteq> i) (own_sessions c es)"
  by (induction es) (auto simp: own_sessions_def session_in_def Let_def parse_session_ifname)

text \<open>
  What the hooks do: the one of a session that comes up writes the file named after the interface, the one
  of a session that ends leaves its record under a name of its own and takes that file away. A directory
  lists a new file anywhere.
\<close>

definition file_put :: "dir_entry \<Rightarrow> dir_entry list \<Rightarrow> dir_entry list \<Rightarrow> bool" where
  "file_put e es es' \<longleftrightarrow> (\<exists>xs ys. filter (\<lambda>x. de_Name x \<noteq> de_Name e) es = xs @ ys \<and> es' = xs @ e # ys)"

definition hook_up :: "l2_session \<Rightarrow> l2_host \<Rightarrow> l2_host \<Rightarrow> bool" where
  "hook_up s h h' \<longleftrightarrow> (\<exists>es'. file_put \<lparr>de_Name = ls_ifname s, de_IsDir = False, de_Content = Some (up_record s)\<rparr> (entries_of (lh_sessions h)) es' \<and>
     h' = h\<lparr>lh_sessions := Some es'\<rparr>)"

definition hook_down :: "string \<Rightarrow> l2_session \<Rightarrow> int \<times> int \<Rightarrow> l2_host \<Rightarrow> l2_host \<Rightarrow> bool" where
  "hook_down name s b h h' \<longleftrightarrow>
     (\<exists>es'. file_put \<lparr>de_Name = name, de_IsDir = False, de_Content = Some (down_record (final_of (path_join [sessionFinalDir, name]) s b))\<rparr>
          (entries_of (lh_finals h)) es' \<and>
        h' = h\<lparr>lh_finals := Some es', lh_sessions := map_option (filter (\<lambda>e. de_Name e \<noteq> ls_ifname s)) (lh_sessions h)\<rparr>)"

text \<open>
  The name a record is left under is new, and it sorts behind those of the records of the same interface
  that wait to be counted.
\<close>

definition sorts_last :: "string \<Rightarrow> string \<Rightarrow> dir_entry list \<Rightarrow> bool" where
  "sorts_last name i es \<longleftrightarrow> list_all (\<lambda>e. de_Name e \<noteq> name \<and>
     (case final_in e of None \<Rightarrow> True
      | Some r \<Rightarrow> fr_path r \<noteq> path_join [sessionFinalDir, name] \<and> (fr_ifname r = i \<longrightarrow> fr_path r < path_join [sessionFinalDir, name]))) es"

text \<open>
  The history of one core: living sessions with the bytes they moved so far, what each user has moved, and
  the host. At a poll the interfaces of the living sessions show their counters, their processes are alive,
  and a record can be removed. Everything else that happens leaves the core's own files and counters alone.
\<close>

record ppp_world =
  pw_live :: "string \<rightharpoonup> l2_session \<times> int \<times> int"
  pw_moved :: "dir \<Rightarrow> string \<Rightarrow> int"
  pw_host :: l2_host

abbreviation session_dir :: "ppp_world \<Rightarrow> dir_entry list" where
  "session_dir W \<equiv> entries_of (lh_sessions (pw_host W))"

abbreviation final_dir :: "ppp_world \<Rightarrow> dir_entry list" where
  "final_dir W \<equiv> entries_of (lh_finals (pw_host W))"

definition host_shows :: "l2_env \<Rightarrow> l2_config \<Rightarrow> ppp_world \<Rightarrow> bool" where
  "host_shows E c W \<longleftrightarrow>
     (\<forall>i s b. pw_live W i = Some (s, b) \<longrightarrow> ifaceBytes E i = b \<and> sessionIsAlive E s) \<and>
     (\<forall>r \<in> set (own_finals c (final_dir W)). lx_remove E (fr_path r))"

inductive l2_run :: "l2_config \<Rightarrow> ppp_world \<Rightarrow> l2tp \<Rightarrow> bool" for c where
  run_start: "own_sessions c (entries_of (lh_sessions h)) = [] \<Longrightarrow> own_finals c (entries_of (lh_finals h)) = [] \<Longrightarrow>
    l2_run c \<lparr>pw_live = Map.empty, pw_moved = (\<lambda>d u. 0), pw_host = h\<rparr> (fresh_l2tp c now)"
| run_begin: "l2_run c W l2 \<Longrightarrow> pw_live W (ls_ifname s) = None \<Longrightarrow> session_ok s \<Longrightarrow> ls_user s \<noteq> [] \<Longrightarrow> ls_ifname s \<noteq> [] \<Longrightarrow>
    mine c (ls_tag s) \<Longrightarrow> hook_up s (pw_host W) h' \<Longrightarrow>
    l2_run c (W\<lparr>pw_live := (pw_live W)(ls_ifname s \<mapsto> (s, 0, 0)), pw_host := h'\<rparr>) l2"
| run_moves: "l2_run c W l2 \<Longrightarrow> pw_live W i = Some (s, b) \<Longrightarrow> (\<And>d. dir_of d b \<le> dir_of d b' \<and> dir_of d b' < 2 ^ 63) \<Longrightarrow>
    l2_run c (W\<lparr>pw_live := (pw_live W)(i \<mapsto> (s, b')),
                 pw_moved := (\<lambda>d u. pw_moved W d u + (if ls_user s = u then dir_of d b' - dir_of d b else 0))\<rparr>) l2"
| run_ends: "l2_run c W l2 \<Longrightarrow> pw_live W i = Some (s, b) \<Longrightarrow> final_ok (final_of (path_join [sessionFinalDir, name]) s b) \<Longrightarrow>
    sorts_last name i (final_dir W) \<Longrightarrow> hook_down name s b (pw_host W) h' \<Longrightarrow>
    l2_run c (W\<lparr>pw_live := (pw_live W)(i := None), pw_host := h'\<rparr>) l2"
| run_poll: "l2_run c W l2 \<Longrightarrow> range_order rg \<Longrightarrow> l2_config l2 = c \<Longrightarrow> host_shows E c W \<Longrightarrow> l2_poll E rg now l2 (pw_host W) = (l2', h') \<Longrightarrow>
    l2_run c (W\<lparr>pw_host := h'\<rparr>) l2'"
| run_other: "l2_run c W l2 \<Longrightarrow> l2_ifSeen l2' = l2_ifSeen l2 \<Longrightarrow> l2_cumRx l2' = l2_cumRx l2 \<Longrightarrow> l2_cumTx l2' = l2_cumTx l2 \<Longrightarrow>
    own_sessions c (entries_of (lh_sessions h')) = own_sessions c (session_dir W) \<Longrightarrow>
    own_finals c (entries_of (lh_finals h')) = own_finals c (final_dir W) \<Longrightarrow> l2_run c (W\<lparr>pw_host := h'\<rparr>) l2'"

text \<open>The abstract history of such a run: the records wait in the order the node will read them in.\<close>

definition ppp_of :: "l2_config \<Rightarrow> ppp_world \<Rightarrow> ppp" where
  "ppp_of c W = \<lparr>pp_live = pw_live W, pp_done = sort_key fr_path (own_finals c (final_dir W)), pp_moved = pw_moved W\<rparr>"

lemma ppp_of_simps [simp]:
  "pp_live (ppp_of c W) = pw_live W" "pp_done (ppp_of c W) = sort_key fr_path (own_finals c (final_dir W))" "pp_moved (ppp_of c W) = pw_moved W"
  by (simp_all add: ppp_of_def)

definition files_kept :: "l2_config \<Rightarrow> ppp_world \<Rightarrow> bool" where
  "files_kept c W \<longleftrightarrow> distinct (map ls_ifname (own_sessions c (session_dir W))) \<and>
     map_of (map (\<lambda>s. (ls_ifname s, s)) (own_sessions c (session_dir W))) = (\<lambda>i. map_option fst (pw_live W i))"

lemma insort_split:
  "\<exists>as bs. zs = as @ bs \<and> insort_key f r zs = as @ r # bs \<and> (sorted (map f zs) \<longrightarrow> (\<forall>z \<in> set bs. f r \<le> f z))"
proof (induction zs)
  case (Cons z zs)
  then obtain as bs where ab: "zs = as @ bs" "insort_key f r zs = as @ r # bs" "sorted (map f zs) \<longrightarrow> (\<forall>z \<in> set bs. f r \<le> f z)" by blast
  show ?case
  proof (cases "f r \<le> f z")
    case True
    then show ?thesis by (intro exI [of _ "[]"] exI [of _ "z # zs"]) auto
  next
    case False
    then show ?thesis using ab by (intro exI [of _ "z # as"] exI [of _ bs]) auto
  qed
qed (simp add: exI [of _ "[]"])

lemma sort_key_insert:
  assumes "f r \<notin> f ` set (xs @ ys)"
  shows "sort_key f (xs @ r # ys) = insort_key f r (sort_key f (xs @ ys))"
proof -
  have "sort_key f (xs @ r # ys) = sort_key f (r # xs @ ys)"
  proof (rule properties_for_sort_key)
    show "mset (sort_key f (r # xs @ ys)) = mset (xs @ r # ys)" by simp
    show "sorted (map f (sort_key f (r # xs @ ys)))" by (rule sorted_sort_key)
    fix k assume "k \<in> set (sort_key f (r # xs @ ys))"
    have "filter (\<lambda>x. f k = f x) (sort_key f (r # xs @ ys)) = filter (\<lambda>x. f k = f x) (r # xs @ ys)"
      using sort_key_stable [of f "f k" "r # xs @ ys"] unfolding eq_commute [of _ "f k"] .
    also have "\<dots> = filter (\<lambda>x. f k = f x) (xs @ r # ys)"
    proof (cases "f k = f r")
      case True
      then have "filter (\<lambda>x. f k = f x) xs = []" "filter (\<lambda>x. f k = f x) ys = []" using assms by (auto simp: filter_empty_conv)
      with True show ?thesis by simp
    qed simp
    finally show "filter (\<lambda>x. f k = f x) (sort_key f (r # xs @ ys)) = filter (\<lambda>x. f k = f x) (xs @ r # ys)" .
  qed
  then show ?thesis by simp
qed

lemma own_sessions_put:
  assumes "file_put e es es'" "session_in e = Some s" "mine c (ls_tag s)"
  shows "\<exists>xs ys. filter (\<lambda>s. ls_ifname s \<noteq> de_Name e) (own_sessions c es) = xs @ ys \<and> own_sessions c es' = xs @ s # ys"
proof -
  obtain as bs where ab: "filter (\<lambda>x. de_Name x \<noteq> de_Name e) es = as @ bs" "es' = as @ e # bs" using assms(1) by (auto simp: file_put_def)
  have "filter (\<lambda>s. ls_ifname s \<noteq> de_Name e) (own_sessions c es) = own_sessions c as @ own_sessions c bs"
    unfolding own_sessions_without [symmetric] ab(1) by (simp add: own_sessions_def)
  moreover have "own_sessions c es' = own_sessions c as @ s # own_sessions c bs" using assms(2,3) by (simp add: ab(2) own_sessions_def)
  ultimately show ?thesis by blast
qed

lemma own_finals_put:
  assumes "file_put e es es'" "list_all (\<lambda>x. de_Name x \<noteq> de_Name e) es" "final_in e = Some r" "mine c (fr_tag r)"
  shows "\<exists>xs ys. own_finals c es = xs @ ys \<and> own_finals c es' = xs @ r # ys"
proof -
  have "filter (\<lambda>x. de_Name x \<noteq> de_Name e) es = es" using assms(2) by (simp add: list_all_iff filter_id_conv)
  then obtain as bs where ab: "es = as @ bs" "es' = as @ e # bs" using assms(1) by (auto simp: file_put_def)
  then have "own_finals c es = own_finals c as @ own_finals c bs" "own_finals c es' = own_finals c as @ r # own_finals c bs"
    using assms(3,4) by (simp_all add: own_finals_def)
  then show ?thesis by blast
qed

lemma map_of_mid: "k s \<notin> k ` set xs \<Longrightarrow> map_of (map (\<lambda>s. (k s, s)) (xs @ s # ys)) = (map_of (map (\<lambda>s. (k s, s)) (xs @ ys)))(k s \<mapsto> s)"
  by (induction xs) (auto simp: fun_upd_twist)

lemma run_begin_files:
  assumes "files_kept c W" "pw_live W (ls_ifname s) = None" "session_ok s" "ls_user s \<noteq> []" "ls_ifname s \<noteq> []" "mine c (ls_tag s)"
    and "hook_up s (pw_host W) h'"
  shows "files_kept c (W\<lparr>pw_live := (pw_live W)(ls_ifname s \<mapsto> (s, 0, 0)), pw_host := h'\<rparr>)" "lh_finals h' = lh_finals (pw_host W)"
proof -
  let ?e = "\<lparr>de_Name = ls_ifname s, de_IsDir = False, de_Content = Some (up_record s)\<rparr>"
  obtain es' where es': "file_put ?e (session_dir W) es'" "h' = (pw_host W)\<lparr>lh_sessions := Some es'\<rparr>" using assms(7) by (auto simp: hook_up_def)
  have "session_in ?e = Some s" using parse_up_record [OF assms(3)] assms(4,5) by (simp add: session_in_def Let_def)
  from own_sessions_put [OF es'(1) this assms(6)] obtain xs ys where
    xy: "filter (\<lambda>x. ls_ifname x \<noteq> ls_ifname s) (own_sessions c (session_dir W)) = xs @ ys" "own_sessions c es' = xs @ s # ys" by auto
  have m: "map_of (map (\<lambda>s. (ls_ifname s, s)) (own_sessions c (session_dir W))) = (\<lambda>i. map_option fst (pw_live W i))"
    "distinct (map ls_ifname (own_sessions c (session_dir W)))" using assms(1) by (simp_all add: files_kept_def)
  have new: "ls_ifname s \<notin> ls_ifname ` set (own_sessions c (session_dir W))"
    using fun_cong [OF m(1), of "ls_ifname s"] assms(2) by (simp add: map_of_eq_None_iff image_image)
  then have own: "own_sessions c (session_dir W) = xs @ ys" using xy(1) by (metis (mono_tags, lifting) filter_True image_eqI)
  have "map_of (map (\<lambda>s. (ls_ifname s, s)) (xs @ s # ys)) = (map_of (map (\<lambda>s. (ls_ifname s, s)) (xs @ ys)))(ls_ifname s \<mapsto> s)"
    using new by (intro map_of_mid) (auto simp: own)
  also have "\<dots> = (\<lambda>i. map_option fst (((pw_live W)(ls_ifname s \<mapsto> (s, 0, 0))) i))"
    unfolding m(1) [unfolded own] by (auto simp: fun_eq_iff)
  finally show "files_kept c (W\<lparr>pw_live := (pw_live W)(ls_ifname s \<mapsto> (s, 0, 0)), pw_host := h'\<rparr>)"
    using m(2) new unfolding own by (auto simp: files_kept_def es'(2) entries_of_def [of "Some _"] xy(2))
  show "lh_finals h' = lh_finals (pw_host W)" by (simp add: es'(2))
qed

lemma run_ends_files:
  assumes "files_kept c W" "pw_live W i = Some (s, b)" "ls_ifname s = i" "final_ok (final_of (path_join [sessionFinalDir, name]) s b)"
    and "sorts_last name i (final_dir W)" "hook_down name s b (pw_host W) h'"
  shows "files_kept c (W\<lparr>pw_live := (pw_live W)(i := None), pw_host := h'\<rparr>)"
    "\<exists>as bs. sort_key fr_path (own_finals c (final_dir W)) = as @ bs \<and> i \<notin> fr_ifname ` set bs \<and>
       sort_key fr_path (own_finals c (entries_of (lh_finals h'))) = as @ final_of (path_join [sessionFinalDir, name]) s b # bs"
proof -
  let ?r = "final_of (path_join [sessionFinalDir, name]) s b"
  let ?e = "\<lparr>de_Name = name, de_IsDir = False, de_Content = Some (down_record ?r)\<rparr>"
  obtain es' where es': "file_put ?e (final_dir W) es'"
    "h' = (pw_host W)\<lparr>lh_finals := Some es', lh_sessions := map_option (filter (\<lambda>e. de_Name e \<noteq> ls_ifname s)) (lh_sessions (pw_host W))\<rparr>"
    using assms(6) by (auto simp: hook_down_def)
  have m: "map_of (map (\<lambda>s. (ls_ifname s, s)) (own_sessions c (session_dir W))) = (\<lambda>i. map_option fst (pw_live W i))"
    "distinct (map ls_ifname (own_sessions c (session_dir W)))" using assms(1) by (simp_all add: files_kept_def)
  have "entries_of (lh_sessions h') = filter (\<lambda>e. de_Name e \<noteq> i) (session_dir W)"
    by (simp add: es'(2) entries_of_def assms(3) split: option.split)
  then have own: "own_sessions c (entries_of (lh_sessions h')) = filter (\<lambda>s. ls_ifname s \<noteq> i) (own_sessions c (session_dir W))"
    by (simp add: own_sessions_without)
  have without: "map_of (map (\<lambda>s. (ls_ifname s, s)) (filter (\<lambda>s. ls_ifname s \<noteq> i) zs)) = (map_of (map (\<lambda>s. (ls_ifname s, s)) zs))(i := None)" for zs
    by (induction zs) (auto simp: fun_eq_iff)
  have "map_of (map (\<lambda>s. (ls_ifname s, s)) (filter (\<lambda>s. ls_ifname s \<noteq> i) (own_sessions c (session_dir W)))) =
      (\<lambda>j. map_option fst (((pw_live W)(i := None)) j))" unfolding without m(1) by (simp add: fun_eq_iff)
  then show "files_kept c (W\<lparr>pw_live := (pw_live W)(i := None), pw_host := h'\<rparr>)"
    using m(2) by (simp add: files_kept_def own distinct_map_filter)
  have "s \<in> set (own_sessions c (session_dir W))"
    using fun_cong [OF m(1), of i] assms(2) by (auto dest!: map_of_SomeD)
  then have mine: "mine c (fr_tag ?r)" by (simp add: own_sessions_def)
  have "final_in ?e = Some ?r" using parse_down_record [OF assms(4)] by (simp add: final_in_def)
  moreover have "list_all (\<lambda>x. de_Name x \<noteq> de_Name ?e) (final_dir W)" using assms(5) by (auto simp: sorts_last_def list_all_iff)
  ultimately obtain xs ys where xy: "own_finals c (final_dir W) = xs @ ys" "own_finals c es' = xs @ ?r # ys"
    using own_finals_put [OF es'(1) _ _ mine] by blast
  have pend: "fr_path z \<noteq> fr_path ?r \<and> (fr_ifname z = i \<longrightarrow> fr_path z < fr_path ?r)" if "z \<in> set (xs @ ys)" for z
  proof -
    have "z \<in> set (List.map_filter final_in (final_dir W))" using that unfolding xy(1) [symmetric] own_finals_def by simp
    then obtain e where "e \<in> set (final_dir W)" "final_in e = Some z" by (auto simp: List.map_filter_def)
    then show ?thesis using assms(5) by (auto simp: sorts_last_def list_all_iff)
  qed
  then have "fr_path ?r \<notin> fr_path ` set (xs @ ys)" by (metis imageE)
  note ins = sort_key_insert [OF this]
  obtain as bs where ab: "sort_key fr_path (xs @ ys) = as @ bs" "insort_key fr_path ?r (sort_key fr_path (xs @ ys)) = as @ ?r # bs"
    "\<forall>z \<in> set bs. fr_path ?r \<le> fr_path z"
    using insort_split [of "sort_key fr_path (xs @ ys)" fr_path ?r] sorted_sort_key [of fr_path "xs @ ys"] by blast
  have "i \<notin> fr_ifname ` set bs"
  proof
    assume "i \<in> fr_ifname ` set bs"
    then obtain z where z: "z \<in> set bs" "fr_ifname z = i" by blast
    have "z \<in> set (sort_key fr_path (xs @ ys))" using z(1) unfolding ab(1) by simp
    then have "fr_path z < fr_path ?r" using pend z(2) by simp
    then show False using ab(3) z(1) by (meson leD)
  qed
  moreover have "sort_key fr_path (own_finals c (entries_of (lh_finals h'))) = as @ ?r # bs"
    using ins ab(2) by (simp add: es'(2) entries_of_def xy(2))
  ultimately show "\<exists>as bs. sort_key fr_path (own_finals c (final_dir W)) = as @ bs \<and> i \<notin> fr_ifname ` set bs \<and>
       sort_key fr_path (own_finals c (entries_of (lh_finals h'))) = as @ ?r # bs"
    using ab(1) xy(1) by metis
qed

lemma reads_own:
  assumes "files_kept c W" "host_shows E c W"
  shows "filter (\<lambda>s. mine c (ls_tag s)) (fst (readSessions E (pw_host W))) = own_sessions c (session_dir W)"
    "filter (\<lambda>r. mine c (fr_tag r)) (fst (readFinalRecords E (snd (readSessions E (pw_host W))))) = sort_key fr_path (own_finals c (final_dir W))"
    "list_all (sessionIsAlive E) (own_sessions c (session_dir W))"
proof -
  have "sessionIsAlive E s" if "s \<in> set (own_sessions c (session_dir W))" for s
  proof -
    have "map_of (map (\<lambda>s. (ls_ifname s, s)) (own_sessions c (session_dir W))) (ls_ifname s) = Some s"
      using assms(1) that by (intro map_of_is_SomeI) (auto simp: files_kept_def comp_def)
    then obtain b where "pw_live W (ls_ifname s) = Some (s, b)" using assms(1) by (auto simp: files_kept_def)
    then show ?thesis using assms(2) unfolding host_shows_def by blast
  qed
  then show alive: "list_all (sessionIsAlive E) (own_sessions c (session_dir W))" by (simp add: list_all_iff)
  have "fst (readSessions E (pw_host W)) = filter (sessionIsAlive E) (List.map_filter session_in (session_dir W))"
    by (simp add: readSessions_def entries_of_def read_entries_sessions case_prod_unfold split: option.split)
  then show "filter (\<lambda>s. mine c (ls_tag s)) (fst (readSessions E (pw_host W))) = own_sessions c (session_dir W)"
    using alive by (auto simp: own_sessions_def list_all_iff intro: filter_cong)
  have "lh_finals (snd (readSessions E (pw_host W))) = lh_finals (pw_host W)"
    by (simp add: readSessions_def case_prod_unfold split: option.split)
  then have "fst (readFinalRecords E (snd (readSessions E (pw_host W)))) = sort_key fr_path (List.map_filter final_in (final_dir W))"
    by (simp add: readFinalRecords_def entries_of_def final_entries_records case_prod_unfold split: option.split)
  then show "filter (\<lambda>r. mine c (fr_tag r)) (fst (readFinalRecords E (snd (readSessions E (pw_host W))))) = sort_key fr_path (own_finals c (final_dir W))"
    by (simp add: own_finals_def filter_sort)
qed

lemma dirs_shown:
  assumes "files_kept c W" "host_shows E c W"
  shows "dirs_show E c (ppp_of c W) (fst (readSessions E (pw_host W))) (fst (readFinalRecords E (snd (readSessions E (pw_host W))))) (pw_host W)"
  unfolding dirs_show_def reads_own [OF assms] using assms by (auto simp: files_kept_def host_shows_def)


text \<open>After a poll no record of the core is left, and the files of its sessions are those of before.\<close>

lemma poll_files:
  assumes "files_kept c W" "host_shows E c W" "l2_config l2 = c" "l2_poll E rg now l2 (pw_host W) = (l2', h')"
  shows "own_sessions c (entries_of (lh_sessions h')) = own_sessions c (session_dir W)" "own_finals c (entries_of (lh_finals h')) = []"
proof -
  note R = reads_own [OF assms(1,2)]
  let ?h1 = "snd (readSessions E (pw_host W))"
  let ?h2 = "snd (readFinalRecords E ?h1)"
  let ?fs = "sort_key fr_path (own_finals c (final_dir W))"
  have h': "h' = drop_finals E ?fs ?h2" using assms(4) R(2) by (simp add: l2_poll_def case_prod_unfold Let_def assms(3))
  have "lh_sessions ?h2 = lh_sessions ?h1" by (simp add: readFinalRecords_def case_prod_unfold split: option.split)
  then have "entries_of (lh_sessions h') = snd (read_entries E (session_dir W)) \<or> entries_of (lh_sessions h') = session_dir W"
    by (auto simp: h' drop_finals_def readSessions_def entries_of_def case_prod_unfold split: option.splits)
  then show "own_sessions c (entries_of (lh_sessions h')) = own_sessions c (session_dir W)" using read_entries_kept [OF R(3)] by auto
  have f1: "lh_finals ?h1 = lh_finals (pw_host W)" by (simp add: readSessions_def case_prod_unfold split: option.split)
  have "List.map_filter final_in (entries_of (lh_finals ?h2)) = List.map_filter final_in (final_dir W)"
    by (simp add: readFinalRecords_def f1 entries_of_def final_entries_kept case_prod_unfold split: option.split)
  then have f2: "own_finals c (entries_of (lh_finals ?h2)) = own_finals c (final_dir W)" by (simp add: own_finals_def)
  have es: "entries_of (lh_finals h') = filter (\<lambda>e. \<not> (path_join [sessionFinalDir, de_Name e] \<in> fr_path ` set ?fs \<and>
      lx_remove E (path_join [sessionFinalDir, de_Name e]))) (entries_of (lh_finals ?h2))"
    by (simp add: h' drop_finals_def entries_of_def split: option.split)
  have gone: False if "e \<in> set (entries_of (lh_finals h'))" "final_in e = Some r" "mine c (fr_tag r)" for e r
  proof -
    have "e \<in> set (entries_of (lh_finals ?h2))" using that(1) by (simp add: es)
    then have "r \<in> set (own_finals c (entries_of (lh_finals ?h2)))" using that(2,3) by (force simp: own_finals_def List.map_filter_def)
    then have r: "r \<in> set (own_finals c (final_dir W))" by (simp only: f2)
    have "fr_path r = path_join [sessionFinalDir, de_Name e]"
      using that(2) parse_final_path [of "de_Content e" "path_join [sessionFinalDir, de_Name e]"] by (auto simp: final_in_def split: prod.splits if_splits)
    moreover have "lx_remove E (fr_path r)" using assms(2) r by (simp add: host_shows_def)
    ultimately show False using that(1) r by (simp add: es) (metis image_eqI)
  qed
  show "own_finals c (entries_of (lh_finals h')) = []"
    by (auto simp: own_finals_def filter_empty_conv List.map_filter_def dest: gone)
qed

lemma l2_run_sim: "l2_run c W l2 \<Longrightarrow> ppp_run c (ppp_of c W) l2 \<and> files_kept c W"
proof (induction rule: l2_run.induct)
  case (run_start h now)
  have "ppp_of c \<lparr>pw_live = Map.empty, pw_moved = (\<lambda>d u. 0), pw_host = h\<rparr> = ppp_none"
    using run_start(2) by (simp add: ppp_of_def ppp_none_def)
  then show ?case using run_start ppp_start [of c now] by (simp add: files_kept_def)
next
  case (run_begin W l2 s h')
  note f = run_begin_files [OF conjunct2 [OF run_begin.IH] run_begin.hyps(2-7)]
  have "ppp_of c (W\<lparr>pw_live := (pw_live W)(ls_ifname s \<mapsto> (s, 0, 0)), pw_host := h'\<rparr>) =
      (ppp_of c W)\<lparr>pp_live := (pp_live (ppp_of c W))(ls_ifname s \<mapsto> (s, 0, 0))\<rparr>" by (simp add: ppp_of_def f(2))
  then show ?case using run_begin.IH run_begin.hyps(2) f(1) ppp_begin [of c "ppp_of c W" l2 s] by simp
next
  case (run_moves W l2 i s b b')
  let ?W = "W\<lparr>pw_live := (pw_live W)(i \<mapsto> (s, b')), pw_moved := (\<lambda>d u. pw_moved W d u + (if ls_user s = u then dir_of d b' - dir_of d b else 0))\<rparr>"
  have eq: "ppp_of c ?W = (ppp_of c W)\<lparr>pp_live := (pp_live (ppp_of c W))(i \<mapsto> (s, b')),
      pp_moved := (\<lambda>d u. pp_moved (ppp_of c W) d u + (if ls_user s = u then dir_of d b' - dir_of d b else 0))\<rparr>" by (simp add: ppp_of_def)
  have "(\<lambda>j. map_option fst (pw_live ?W j)) = (\<lambda>j. map_option fst (pw_live W j))" using run_moves.hyps(2) by (auto simp: fun_eq_iff)
  then have "files_kept c ?W" using run_moves.IH by (simp add: files_kept_def)
  moreover have "ppp_run c (ppp_of c ?W) l2" unfolding eq
    by (rule ppp_moves [OF conjunct1 [OF run_moves.IH] _ run_moves.hyps(3)]) (simp add: run_moves.hyps(2))
  ultimately show ?case by blast
next
  case (run_ends W l2 i s b name h')
  have "ls_ifname s = i" using ppp_invD(4) [OF ppp_run_inv [OF conjunct1 [OF run_ends.IH]]] run_ends.hyps(2) by simp
  note f = run_ends_files [OF conjunct2 [OF run_ends.IH] run_ends.hyps(2) this run_ends.hyps(3-5)]
  obtain as bs where ab: "sort_key fr_path (own_finals c (final_dir W)) = as @ bs" "i \<notin> fr_ifname ` set bs"
    "sort_key fr_path (own_finals c (entries_of (lh_finals h'))) = as @ final_of (path_join [sessionFinalDir, name]) s b # bs" using f(2) by blast
  have "ppp_of c (W\<lparr>pw_live := (pw_live W)(i := None), pw_host := h'\<rparr>) =
      (ppp_of c W)\<lparr>pp_live := (pp_live (ppp_of c W))(i := None), pp_done := as @ final_of (path_join [sessionFinalDir, name]) s b # bs\<rparr>"
    by (simp add: ppp_of_def ab(3))
  then show ?case using run_ends.IH run_ends.hyps(2) f(1) ab(1,2) ppp_ends [of c "ppp_of c W" l2 i s b as bs] by simp
next
  case (run_poll W l2 rg E now l2' h')
  note k = conjunct2 [OF run_poll.IH]
  note f = poll_files [OF k run_poll.hyps(4,3,5)]
  have "ppp_of c (W\<lparr>pw_host := h'\<rparr>) = (ppp_of c W)\<lparr>pp_done := []\<rparr>" by (simp add: ppp_of_def f(2))
  then show ?case
    using ppp_poll [OF conjunct1 [OF run_poll.IH] run_poll.hyps(2,3) dirs_shown [OF k run_poll.hyps(4)] run_poll.hyps(5)] k f(1)
    by (simp add: files_kept_def)
next
  case (run_other W l2 l2' h')
  have "ppp_of c (W\<lparr>pw_host := h'\<rparr>) = ppp_of c W" by (simp add: ppp_of_def run_other.hyps(6))
  then show ?case using run_other.IH run_other.hyps(2-5) ppp_other [of c "ppp_of c W" l2 l2'] by (simp add: files_kept_def)
qed


section \<open>Billing\<close>

text \<open>
  C33: However sessions of one core begin, move bytes and end, and however often the name of an interface
  passes from one session to the next between two polls, with the hooks writing their files and the polls
  reading and removing them: a poll leaves the counter of every user at the sum of the bytes of all
  sessions that user ever had, ended ones to their last byte, each exactly once, in 64-bit arithmetic. A poll
  finds the counters of the living interfaces, can remove the records, and does not fall between the end of
  an interface and the end of its hook; and the file name of a record sorts behind those of earlier records
  of its interface that are still to be counted.
\<close>

theorem l2tp_counts_every_byte_once:
  assumes "l2_run c W l2" "range_order rg" "l2_config l2 = c" "host_shows E c W" "l2_poll E rg now l2 (pw_host W) = (l2', h')"
  shows "getd 0 (cum_of d l2') u = wrap64 (pw_moved W d u)"
proof -
  note S = l2_run_sim [OF assms(1)]
  note I = ppp_run_inv [OF conjunct1 [OF S]]
  from inv_ppp_poll [OF I assms(2,3) dirs_shown [OF conjunct2 [OF S] assms(4)] assms(5)]
  have "in_i64 (getd 0 (cum_of d l2') u)" "wrap64 (getd 0 (cum_of d l2') u) = wrap64 (pw_moved W d u)"
    by (auto dest: ppp_invD(6))
  then show ?thesis by (simp add: wrap64_id)
qed

definition demo_l2_config :: l2_config where
  "demo_l2_config = \<lparr>lc_InboundTag = ''t'', lc_ServerAddr = [], lc_PSK = ''k'', lc_Pool = ''10.31.0.0/24'', lc_LocalIP = ''10.31.0.1'',
     lc_EgressInterface = [], lc_DNS = [], lc_IKEProposals = [], lc_ESPProposals = [], lc_workDir = ''/w''\<rparr>"

definition demo_session :: "string \<Rightarrow> l2_session" where
  "demo_session u = \<lparr>ls_user = u, ls_ifname = ''ppp0'', ls_tunnelIP = ''10.31.0.2'', ls_clientIP = [], ls_tag = ''t'', ls_pid = 1, ls_started = 0\<rparr>"

definition demo_l2_env :: l2_env where
  "demo_l2_env = \<lparr>lx_ipsec = \<lparr>ie_exists = (\<lambda>p. True), ie_start = None, ie_polls = [(True, False)], ie_load = None\<rparr>,
     lx_comm = (\<lambda>pid. Some ''pppd''), lx_exists = (\<lambda>p. True),
     lx_read = (\<lambda>p. Some ''7''), lx_open = (\<lambda>p. None), lx_mkdir = (\<lambda>p. None),
     lx_write = (\<lambda>p. WOk), lx_remove = (\<lambda>p. True), lx_exec = None, lx_routed = True\<rparr>"

definition demo_final :: l2_final where
  "demo_final = final_of (path_join [sessionFinalDir, ''ppp0.9.1'']) (demo_session ''u'') (5, 3)"

definition demo_l2_host :: l2_host where
  "demo_l2_host = \<lparr>lh_sessions = Some [\<lparr>de_Name = ''ppp0'', de_IsDir = False, de_Content = Some (up_record (demo_session ''v''))\<rparr>],
     lh_finals = Some [\<lparr>de_Name = ''ppp0.9.1'', de_IsDir = False, de_Content = Some (down_record demo_final)\<rparr>],
     lh_files = Map.empty, lh_signals = [], lh_charon = charon_none\<rparr>"

lemma number_ok_digit: "0 \<le> n \<Longrightarrow> n < 10 \<Longrightarrow> number_ok n"
  by (simp add: number_ok_def show_int_def show_nat.simps)

lemma demo_texts: "list_all text_ok [''u'', ''v'', ''t'', ''ppp0'', ''10.31.0.2'', []]"
proof -
  have "list_all graphic ''uvtppp010.31.0.2''" by code_simp
  then show ?thesis by (simp add: text_ok_def)
qed

lemma demo_ok: "session_ok (demo_session ''u'')" "session_ok (demo_session ''v'')" "final_ok demo_final"
  using demo_texts by (simp_all add: session_ok_def final_ok_def demo_final_def demo_session_def number_ok_digit)

lemma demo_alive: "sessionIsAlive demo_l2_env (demo_session x)"
  by (simp add: sessionIsAlive_def processIsPppd_def demo_l2_env_def demo_session_def HasPrefix_def)

lemma demo_reads: "fst (readSessions demo_l2_env demo_l2_host) = [demo_session ''v'']"
proof -
  have "parseSessionFile (Some (up_record (demo_session ''v''))) ''ppp0'' = demo_session ''v''"
    using parse_up_record [OF demo_ok(2)] by (simp add: demo_session_def)
  moreover have "ls_user (demo_session ''v'') \<noteq> []" "ls_ifname (demo_session ''v'') \<noteq> []" by (simp_all add: demo_session_def)
  ultimately show ?thesis using demo_alive [of "''v''"] by (simp add: readSessions_def demo_l2_host_def Let_def)
qed

lemma demo_iface: "ifaceBytes demo_l2_env i = (7, 7)"
proof -
  have "graphic (CHR ''7'')" by (simp add: graphic_def)
  then have "TrimSpace ''7'' = ''7''" by (simp add: TrimSpace_graphic)
  moreover have "ParseInt64 ''7'' = 7" by code_simp
  ultimately show ?thesis by (simp add: ifaceBytes_def readCounter_def demo_l2_env_def Let_def)
qed

lemma l2_poll_config:
  assumes "l2_poll E rg now l2 h = (l2', h')" "l2_config l2 = c"
  shows "l2_config l2' = c"
proof -
  have "l2_config (snd (snd (foldl (add_user now r) st ks))) = l2_config (snd (snd st))" for r st ks
    by (induction ks arbitrary: st) (simp_all add: add_user_def Let_def case_prod_unfold)
  then show ?thesis using assms by (auto simp: l2_poll_def account_sessions_def Let_def case_prod_unfold)
qed

theorem l2tp_counts_every_byte_once_witness:
  "\<exists>W l2 l2' h' l2'' h''. l2_run demo_l2_config W l2 \<and> l2_poll demo_l2_env sorted_ranger 9 l2 (pw_host W) = (l2', h') \<and>
     getd 0 (cum_of Uplink l2') ''u'' = 5 \<and> getd 0 (cum_of Uplink l2') ''v'' = 7 \<and>
     l2_poll demo_l2_env sorted_ranger 10 l2' h' = (l2'', h'') \<and> getd 0 (cum_of Uplink l2'') ''u'' = 5"
proof -
  let ?u = "demo_session ''u''" and ?v = "demo_session ''v''" and ?l2 = "fresh_l2tp demo_l2_config 0" and ?c = demo_l2_config
  have n: "ls_ifname (demo_session x) = ''ppp0''" "ls_user (demo_session x) = x" "ls_tag (demo_session x) = ''t''" for x by (simp_all add: demo_session_def)
  have mine: "mine ?c ''t''" by (simp add: mine_def demo_l2_config_def)
  let ?up = "\<lambda>x. \<lparr>de_Name = ''ppp0'', de_IsDir = False, de_Content = Some (up_record (demo_session x))\<rparr>"
  let ?down = "\<lparr>de_Name = ''ppp0.9.1'', de_IsDir = False, de_Content = Some (down_record demo_final)\<rparr>"
  let ?h0 = "\<lparr>lh_sessions = None, lh_finals = None, lh_files = Map.empty, lh_signals = [], lh_charon = charon_none\<rparr>"
  let ?h1 = "?h0\<lparr>lh_sessions := Some [?up ''u'']\<rparr>"
  let ?h2 = "?h1\<lparr>lh_finals := Some [?down], lh_sessions := Some []\<rparr>"
  let ?h3 = "?h2\<lparr>lh_sessions := Some [?up ''v'']\<rparr>"
  let ?W0 = "\<lparr>pw_live = Map.empty, pw_moved = (\<lambda>d u. 0), pw_host = ?h0\<rparr>"
  have w0: "l2_run ?c ?W0 ?l2" by (rule run_start) (simp_all add: entries_of_def own_sessions_def own_finals_def)
  let ?W1 = "?W0\<lparr>pw_live := (pw_live ?W0)(ls_ifname ?u \<mapsto> (?u, 0, 0)), pw_host := ?h1\<rparr>"
  have up1: "hook_up ?u (pw_host ?W0) ?h1" by (simp add: hook_up_def file_put_def n entries_of_def)
  have w1: "l2_run ?c ?W1 ?l2" by (rule run_begin [OF w0 _ demo_ok(1) _ _ _ up1]) (simp_all add: n mine)
  let ?W2 = "?W1\<lparr>pw_live := (pw_live ?W1)(''ppp0'' \<mapsto> (?u, 5, 3)),
      pw_moved := (\<lambda>d x. pw_moved ?W1 d x + (if ls_user ?u = x then dir_of d (5, 3) - dir_of d (0, 0) else 0))\<rparr>"
  have w2: "l2_run ?c ?W2 ?l2"
  proof (rule run_moves [OF w1])
    show "dir_of d (0, 0) \<le> dir_of d (5, 3) \<and> dir_of d (5, 3) < 2 ^ 63" for d by (cases d) simp_all
  qed (simp add: n)
  let ?W3 = "?W2\<lparr>pw_live := (pw_live ?W2)(''ppp0'' := None), pw_host := ?h2\<rparr>"
  have down: "hook_down ''ppp0.9.1'' ?u (5, 3) (pw_host ?W2) ?h2" by (simp add: hook_down_def file_put_def n entries_of_def demo_final_def)
  have w3: "l2_run ?c ?W3 ?l2"
    by (rule run_ends [OF w2 _ _ _ down]) (use demo_ok(3) in \<open>simp_all add: n sorts_last_def entries_of_def demo_final_def\<close>)
  let ?W4 = "?W3\<lparr>pw_live := (pw_live ?W3)(ls_ifname ?v \<mapsto> (?v, 0, 0)), pw_host := ?h3\<rparr>"
  have up4: "hook_up ?v (pw_host ?W3) ?h3" by (simp add: hook_up_def file_put_def n entries_of_def)
  have w4: "l2_run ?c ?W4 ?l2" by (rule run_begin [OF w3 _ demo_ok(2) _ _ _ up4]) (simp_all add: n mine)
  let ?W5 = "?W4\<lparr>pw_live := (pw_live ?W4)(''ppp0'' \<mapsto> (?v, 7, 7)),
      pw_moved := (\<lambda>d x. pw_moved ?W4 d x + (if ls_user ?v = x then dir_of d (7, 7) - dir_of d (0, 0) else 0))\<rparr>"
  have w5: "l2_run ?c ?W5 ?l2"
  proof (rule run_moves [OF w4])
    show "dir_of d (0, 0) \<le> dir_of d (7, 7) \<and> dir_of d (7, 7) < 2 ^ 63" for d by (cases d) simp_all
  qed (simp add: n)
  have shows1: "host_shows demo_l2_env ?c W" if "pw_live W = pw_live ?W5" for W
    unfolding host_shows_def that using demo_alive by (simp add: demo_iface n) (simp add: demo_l2_env_def)
  obtain l2' h' where p: "l2_poll demo_l2_env sorted_ranger 9 ?l2 (pw_host ?W5) = (l2', h')" by fastforce
  obtain l2'' h'' where q: "l2_poll demo_l2_env sorted_ranger 10 l2' h' = (l2'', h'')" by fastforce
  have c: "l2_config ?l2 = ?c" by (simp add: fresh_l2tp_def)
  note bill = l2tp_counts_every_byte_once [OF w5 range_order_sorted c shows1 [OF refl] p, of Uplink]
  have w6: "l2_run ?c (?W5\<lparr>pw_host := h'\<rparr>) l2'" by (rule run_poll [OF w5 range_order_sorted c shows1 [OF refl] p])
  have c': "l2_config l2' = ?c" using p c by (rule l2_poll_config)
  have q': "l2_poll demo_l2_env sorted_ranger 10 l2' (pw_host (?W5\<lparr>pw_host := h'\<rparr>)) = (l2'', h'')" using q by simp
  note again = l2tp_counts_every_byte_once [OF w6 range_order_sorted c' shows1 q', of Uplink]
  have "getd 0 (cum_of Uplink l2') ''u'' = 5" "getd 0 (cum_of Uplink l2') ''v'' = 7" unfolding bill by (simp_all add: n wrap64_id in_i64_def)
  moreover have "getd 0 (cum_of Uplink l2'') ''u'' = 5" using again [of "''u''"] by (simp add: n wrap64_id in_i64_def)
  ultimately show ?thesis using w5 p q by blast
qed

text \<open>
  What the hook of pppd writes when a session comes up, and what it writes when the session ends, is read
  back by the node as it was written, for names of graphic characters and numbers of 63 bits.
\<close>

lemma hook_records_round_trip:
  assumes "session_ok s" "final_ok r"
  shows "parseSessionFile (Some (up_record s)) (ls_ifname s) = s \<and> parseFinalRecord (Some (down_record r)) (fr_path r) = (r, True)"
  using parse_up_record [OF assms(1)] parse_down_record [OF assms(2)] by blast

lemma hook_records_round_trip_witness:
  "parseSessionFile (Some (up_record (demo_session ''u''))) ''ppp0'' = demo_session ''u'' \<and>
   fr_rx (fst (parseFinalRecord (Some (down_record demo_final)) (fr_path demo_final))) = 5"
proof -
  from hook_records_round_trip [OF demo_ok(1,3)] show ?thesis by (simp add: demo_session_def demo_final_def)
qed


section \<open>Where bytes are counted wrongly\<close>

text \<open>
  The records are sorted by their file names, and in these the number of the hook's process comes before the
  time. When two sessions on one interface ended since the last poll and the process numbers sort the other
  way round (10 before 9), the second is settled against the baseline of the first: here 80 bytes were
  moved since the poll and 150 are counted.
\<close>

definition known_l2tp :: l2tp where
  "known_l2tp = (fresh_l2tp demo_l2_config 0)\<lparr>l2_ifSeen := [''ppp0'' \<mapsto> (100, 0)], l2_cumRx := [''u'' \<mapsto> 100]\<rparr>"

definition ended_at :: "string \<Rightarrow> int \<Rightarrow> l2_final" where
  "ended_at name rx = final_of (path_join [sessionFinalDir, name]) (demo_session ''u'') (rx, 0)"

lemma ended_at_fields [simp]:
  "fr_user (ended_at name rx) = ''u''" "fr_ifname (ended_at name rx) = ''ppp0''" "fr_rx (ended_at name rx) = rx" "fr_tx (ended_at name rx) = 0"
  by (simp_all add: ended_at_def demo_session_def)

lemma final_records_out_of_order:
  fixes bytes now
  defines "billed fs \<equiv> getd 0 (l2_cumRx (account_sessions sorted_ranger now bytes [] fs known_l2tp)) ''u''"
  shows "sort_key fr_path [ended_at ''ppp0.9.1'' 150, ended_at ''ppp0.10.2'' 30] = [ended_at ''ppp0.10.2'' 30, ended_at ''ppp0.9.1'' 150]"
    "billed [ended_at ''ppp0.9.1'' 150, ended_at ''ppp0.10.2'' 30] = 180" "billed [ended_at ''ppp0.10.2'' 30, ended_at ''ppp0.9.1'' 150] = 250"
proof -
  show "sort_key fr_path [ended_at ''ppp0.9.1'' 150, ended_at ''ppp0.10.2'' 30] = [ended_at ''ppp0.10.2'' 30, ended_at ''ppp0.9.1'' 150]" by code_simp
  have k: "l2_ifSeen known_l2tp = [''ppp0'' \<mapsto> (100, 0)]" "getd 0 (l2_cumRx known_l2tp) ''u'' = 100" by (simp_all add: known_l2tp_def)
  have r: "dom (rd_perUser (poll_round bytes [] [ended_at n1 x1, ended_at n2 x2] [''ppp0'' \<mapsto> (100, 0)])) = {''u''}" for n1 x1 n2 x2
    by (simp add: poll_round_def per_user_def settle_final_def Let_def)
  have b: "billed [ended_at n1 x1, ended_at n2 x2] =
      add64 100 (getd 0 (rd_growthRx (poll_round bytes [] [ended_at n1 x1, ended_at n2 x2] [''ppp0'' \<mapsto> (100, 0)])) ''u'')" for n1 x1 n2 x2
    using account_round(2) [OF range_order_sorted, of bytes "[]" "[ended_at n1 x1, ended_at n2 x2]" known_l2tp Uplink now "''u''"]
    by (simp add: r k billed_def)
  show "billed [ended_at ''ppp0.9.1'' 150, ended_at ''ppp0.10.2'' 30] = 180" "billed [ended_at ''ppp0.10.2'' 30, ended_at ''ppp0.9.1'' 150] = 250"
    unfolding b by (simp_all add: poll_round_def settle_final_def Let_def sub64_def add64_def wrap64_def)
qed

text \<open>
  A counter that cannot be read counts as zero and becomes the baseline. A poll between the end of an
  interface and the end of the hook therefore forgets what was counted, and the record bills the session
  again from the start: here 150 bytes were moved and 250 are counted.
\<close>

lemma vanished_interface_bills_again:
  assumes "account_sessions sorted_ranger t1 (\<lambda>i. (0, 0)) [demo_session ''u''] [] known_l2tp = l2"
  shows "getd 0 (l2_cumRx (account_sessions sorted_ranger t2 bytes [] [ended_at ''ppp0.9.1'' 150] l2)) ''u'' = 250"
proof -
  have k: "l2_ifSeen known_l2tp = [''ppp0'' \<mapsto> (100, 0)]" "getd 0 (l2_cumRx known_l2tp) ''u'' = 100" by (simp_all add: known_l2tp_def)
  let ?r = "poll_round (\<lambda>i. (0, 0)) [demo_session ''u''] [] (l2_ifSeen known_l2tp)"
  have r: "rd_ifSeen ?r = [''ppp0'' \<mapsto> (0, 0)]" "getd 0 (rd_growthRx ?r) ''u'' = 0" "dom (rd_perUser ?r) = {''u''}"
    by (simp_all add: poll_round_def count_live_def per_user_def k demo_session_def Let_def sub64_def add64_def wrap64_def)
  have s1: "l2_ifSeen l2 = [''ppp0'' \<mapsto> (0, 0)]"
    using account_round(1) [OF range_order_sorted, of "\<lambda>i. (0, 0)" "[demo_session ''u'']" "[]" known_l2tp t1]
    unfolding assms r by (simp add: demo_session_def restrict_map_def fun_eq_iff)
  have s2: "getd 0 (l2_cumRx l2) ''u'' = 100"
    using account_round(2) [OF range_order_sorted, of "\<lambda>i. (0, 0)" "[demo_session ''u'']" "[]" known_l2tp Uplink t1 "''u''"]
    unfolding assms by (simp add: k(2) r add64_def wrap64_def)
  let ?q = "poll_round bytes [] [ended_at ''ppp0.9.1'' 150] (l2_ifSeen l2)"
  have q: "getd 0 (rd_growthRx ?q) ''u'' = 150" "dom (rd_perUser ?q) = {''u''}"
    by (simp_all add: poll_round_def settle_final_def per_user_def s1 Let_def sub64_def add64_def wrap64_def)
  show ?thesis
    using account_round(2) [OF range_order_sorted, of bytes "[]" "[ended_at ''ppp0.9.1'' 150]" l2 Uplink t2 "''u''"]
    by (simp add: q s2 add64_def wrap64_def)
qed

end
