(* ===== verification/L2tp_Access.thy ===== *)
theory L2tp_Access
  imports L2tp_Billing
begin

text \<open>
  Who may log in. pppd asks the file \<^verbatim>\<open>chap-secrets\<close>, which all cores of a node share; a core owns the
  lines that carry its tag. Shown here: after a synchronisation the lines of the core are exactly those of
  the users entitled to it, no other line is touched, and the sessions of users who lost access are told to
  end. Below it are the two ways in which a user keeps access that was taken away.
\<close>

section \<open>The users asked for\<close>

definition wanted :: "string \<Rightarrow> user list \<Rightarrow> (string \<times> string) list" where
  "wanted tag us = present (map (\<lambda>u. if tag \<in> set (GetInbounds u) then credsFor u else None) us)"

definition l2_entitled :: "string \<Rightarrow> user list \<Rightarrow> (string \<rightharpoonup> l2_entry)" where
  "l2_entitled tag us = (\<lambda>name. map_option (\<lambda>p. \<lparr>le_password = p\<rparr>) (map_of (rev (wanted tag us)) name))"

lemma wants_tag: "l2_wantsInterface s u \<longleftrightarrow> credsFor u \<noteq> None \<and> lu_inboundTag s \<in> set (GetInbounds u)"
  by (simp add: l2_wantsInterface_def)

lemma l2_next_users_entitled: "l2_next_users s us m = m ++ l2_entitled (lu_inboundTag s) us"
proof (induction us arbitrary: m)
  case Nil
  show ?case by (simp add: l2_entitled_def wanted_def map_add_def)
next
  case (Cons u us)
  show ?case
  proof (cases "l2_wantsInterface s u")
    case False
    then have "wanted (lu_inboundTag s) (u # us) = wanted (lu_inboundTag s) us" by (cases "credsFor u") (auto simp: wanted_def wants_tag)
    with False Cons show ?thesis by (simp add: l2_entitled_def)
  next
    case True
    then obtain n p where c: "credsFor u = Some (n, p)" by (auto simp: wants_tag)
    then have "wanted (lu_inboundTag s) (u # us) = (n, p) # wanted (lu_inboundTag s) us" using True by (simp add: wanted_def wants_tag)
    then have "l2_entitled (lu_inboundTag s) (u # us) = [n \<mapsto> \<lparr>le_password = p\<rparr>] ++ l2_entitled (lu_inboundTag s) us"
      by (auto simp: l2_entitled_def map_add_def fun_eq_iff split: option.splits)
    with True c Cons show ?thesis by (simp add: map_add_def fun_eq_iff split: option.split)
  qed
qed

lemma finite_entitled: "finite (dom (l2_entitled tag us))"
proof -
  have "dom (l2_entitled tag us) = dom (map_of (rev (wanted tag us)))" by (auto simp: l2_entitled_def)
  then show ?thesis by (simp only: finite_dom_map_of)
qed

text \<open>Users whose login name is the name the panel knows them by.\<close>

definition named_user :: "user \<Rightarrow> bool" where
  "named_user u \<longleftrightarrow> (case credsFor u of None \<Rightarrow> True | Some (n, p) \<Rightarrow> n = GetEmail u)"

lemma entitled_single: "named_user u \<Longrightarrow> n \<noteq> GetEmail u \<Longrightarrow> l2_entitled tag [u] n = None"
  by (auto simp: l2_entitled_def wanted_def named_user_def split: option.splits if_splits)

lemma applyUser_named:
  assumes "named_user u" "l2_applyUser u s = ((name, ch, removed), s')"
  shows "lu_inboundTag s' = lu_inboundTag s"
    "lu_users s' n = (if n \<noteq> [] \<and> n = GetEmail u then l2_entitled (lu_inboundTag s) [u] n else lu_users s n)"
    "n \<noteq> [] \<Longrightarrow> lu_users s n \<noteq> None \<Longrightarrow> lu_users s' n = None \<Longrightarrow> removed \<and> name = n"
    "removed \<Longrightarrow> lu_users s name \<noteq> None \<and> lu_users s' name = None"
proof -
  have ne: "credsFor u = Some (n, p) \<Longrightarrow> n \<noteq> []" for n p by (auto simp: credsFor_def split: option.splits if_splits)
  show "lu_inboundTag s' = lu_inboundTag s"
    using assms(2) by (auto simp: l2_applyUser_def Let_def split: if_splits option.splits prod.splits)
  show "lu_users s' n = (if n \<noteq> [] \<and> n = GetEmail u then l2_entitled (lu_inboundTag s) [u] n else lu_users s n)"
    "n \<noteq> [] \<Longrightarrow> lu_users s n \<noteq> None \<Longrightarrow> lu_users s' n = None \<Longrightarrow> removed \<and> name = n"
    "removed \<Longrightarrow> lu_users s name \<noteq> None \<and> lu_users s' name = None"
    using assms ne by (auto simp: l2_applyUser_def wants_tag named_user_def l2_entitled_def wanted_def Let_def split: if_splits option.splits prod.splits)
qed

lemma apply_each_named:
  assumes "\<forall>u\<in>set us. named_user u" "apply_each us s = (revoked, s')"
  shows "lu_inboundTag s' = lu_inboundTag s \<and>
    (\<forall>n. lu_users s' n = (if n \<noteq> [] \<and> n \<in> GetEmail ` set us then l2_entitled (lu_inboundTag s) [last (filter (\<lambda>u. GetEmail u = n) us)] n else lu_users s n)) \<and>
    (\<forall>n. n \<noteq> [] \<and> lu_users s n \<noteq> None \<and> lu_users s' n = None \<longrightarrow> n \<in> set revoked)"
  using assms
proof (induction us arbitrary: s revoked)
  case (Cons u us)
  obtain name ch removed s1 where st: "l2_applyUser u s = ((name, ch, removed), s1)" by (metis prod.exhaust)
  obtain rv where ap: "apply_each us s1 = (rv, s')" and rv: "revoked = (if removed then name # rv else rv)"
    using Cons.prems(2) st by (auto split: prod.splits)
  have u: "named_user u" using Cons.prems(1) by simp
  note A = applyUser_named [OF u st]
  have ih: "lu_inboundTag s' = lu_inboundTag s1 \<and>
    (\<forall>n. lu_users s' n = (if n \<noteq> [] \<and> n \<in> GetEmail ` set us then l2_entitled (lu_inboundTag s1) [last (filter (\<lambda>u. GetEmail u = n) us)] n else lu_users s1 n)) \<and>
    (\<forall>n. n \<noteq> [] \<and> lu_users s1 n \<noteq> None \<and> lu_users s' n = None \<longrightarrow> n \<in> set rv)"
    by (rule Cons.IH [OF _ ap]) (use Cons.prems(1) in simp)
  have nil: "filter (\<lambda>u. GetEmail u = n) us = [] \<longleftrightarrow> n \<notin> GetEmail ` set us" for n by (auto simp: filter_empty_conv)
  have "lu_users s' n = (if n \<noteq> [] \<and> n \<in> GetEmail ` set (u # us) then l2_entitled (lu_inboundTag s) [last (filter (\<lambda>u. GetEmail u = n) (u # us))] n
      else lu_users s n)" for n
    using ih A(1) A(2) [of n] nil [of n] by (cases "n \<in> GetEmail ` set us") auto
  moreover have "n \<in> set revoked" if "n \<noteq> []" "lu_users s n \<noteq> None" "lu_users s' n = None" for n
    using ih A(3) [of n] that rv by (cases "lu_users s1 n") auto
  moreover have "lu_inboundTag s' = lu_inboundTag s" using ih A(1) by simp
  ultimately show ?case by blast
qed auto


section \<open>The file of credentials\<close>

definition chap_lines :: "l2_host \<Rightarrow> string list" where
  "chap_lines h = fst (scan_lines (getd [] (lh_files h) chapSecretsPath))"

definition chap_plain :: "l2_host \<Rightarrow> bool" where
  "chap_plain h \<longleftrightarrow> list_all plain_line (chap_lines h)"

text \<open>Names, tags and passwords that fit into a line; nothing is asked of the password but its length.\<close>

definition entry_fits :: "string \<Rightarrow> string \<Rightarrow> l2_entry \<Rightarrow> bool" where
  "entry_fits tag name e \<longleftrightarrow> list_all graphic name \<and> list_all graphic tag \<and> tag \<noteq> [] \<and> length (chap_line tag name e) < 65536"

lemma chap_line_own:
  assumes "entry_fits tag name e"
  shows "\<not> foreign_line tag (chap_line tag name e)" "plain_line (chap_line tag name e)"
proof -
  have g: "list_all graphic (go_quote name)" "list_all graphic tag" "tag \<noteq> []" using assms by (simp_all add: entry_fits_def go_quote_graphic)
  define rest where "rest = go_quote (le_password e) @ '' *''"
  have line: "chap_line tag name e = go_quote name @ CHR '' '' # tag @ CHR '' '' # rest" by (simp add: chap_line_def rest_def)
  have f: "Fields (chap_line tag name e) = go_quote name # tag # Fields rest"
    unfolding line by (simp add: Fields_word g go_quote_ne)
  have q: "graphic (byte 34)" by (simp add: graphic_def)
  have star: "graphic (CHR ''*'')" by (simp add: graphic_def)
  have hd: "hd (chap_line tag name e) = byte 34" by (simp add: line go_quote_def)
  have ne: "chap_line tag name e \<noteq> []" by (simp add: line)
  have last: "last (chap_line tag name e) = CHR ''*''" by (simp add: line rest_def)
  have t: "TrimSpace (chap_line tag name e) = chap_line tag name e" using ne by (simp add: TrimSpace_graphic hd last q star)
  have "byte 34 \<noteq> CHR ''#''" by code_simp
  then have "\<not> HasPrefix (chap_line tag name e) ''#''" using hd ne by (cases "chap_line tag name e") (auto simp: HasPrefix_def)
  then show "\<not> foreign_line tag (chap_line tag name e)" using ne by (simp add: foreign_line_def t f Let_def)
  have "byte 10 \<notin> set (chap_line tag name e)"
  proof -
    have "byte 10 \<notin> set x" if "list_all graphic x" for x using that byte_neq_graphic [of _ 10] by (auto simp: list_all_iff)
    moreover have "byte 10 \<notin> set '' *''" by code_simp
    ultimately show ?thesis unfolding line rest_def using g quote_no_newline [of "le_password e"] by auto
  qed
  moreover have "byte 13 \<noteq> CHR ''*''" by code_simp
  ultimately show "plain_line (chap_line tag name e)" using assms by (simp add: plain_line_def last entry_fits_def)
qed

lemma writeChapSecrets_spec:
  assumes "range_order rg" "finite (dom (lu_users s))" "chap_plain h" "lc_InboundTag c = tag"
    and fits: "\<And>n e. lu_users s n = Some e \<Longrightarrow> entry_fits tag n e"
    and ok: "writeChapSecrets E rg c s h = (None, h')"
  shows "filter (foreign_line tag) (chap_lines h') = filter (foreign_line tag) (chap_lines h)"
    "set (filter (\<lambda>l. \<not> foreign_line tag l) (chap_lines h')) = {chap_line tag n e | n e. lu_users s n = Some e}"
    "h' = h\<lparr>lh_files := lh_files h'\<rparr>"
proof -
  let ?own = "map (\<lambda>n. chap_line tag n (getd \<lparr>le_password = []\<rparr> (lu_users s) n)) (keys_of rg 1 (lu_users s))"
  obtain kept where kept: "chapSecretsWithoutTag E c h = Inr kept" using ok by (auto simp: writeChapSecrets_def split: sum.splits)
  have k: "kept = filter (foreign_line tag) (chap_lines h)"
  proof (cases "lh_files h chapSecretsPath")
    case None
    have "scan_lines [] = ([], False)" using scan_text [of "[]"] by simp
    with None kept show ?thesis by (auto simp: chapSecretsWithoutTag_def chap_lines_def split: option.splits)
  next
    case (Some txt')
    with kept assms(4) show ?thesis by (auto simp: chapSecretsWithoutTag_def chap_lines_def split: option.splits prod.splits if_splits)
  qed
  note ks = set_keys_of [OF assms(1,2), of 1]
  have own: "x \<in> set ?own \<longleftrightarrow> (\<exists>n e. x = chap_line tag n e \<and> lu_users s n = Some e)" for x
  proof -
    have "set ?own = (\<lambda>n. chap_line tag n (getd \<lparr>le_password = []\<rparr> (lu_users s) n)) ` dom (lu_users s)" unfolding set_map ks ..
    then have "x \<in> set ?own \<longleftrightarrow> (\<exists>n\<in>dom (lu_users s). x = chap_line tag n (getd \<lparr>le_password = []\<rparr> (lu_users s) n))" by (simp only: image_iff)
    also have "\<dots> \<longleftrightarrow> (\<exists>n e. x = chap_line tag n e \<and> lu_users s n = Some e)"
    proof (intro iffI; elim bexE exE conjE)
      fix n e assume "x = chap_line tag n e" "lu_users s n = Some e"
      then show "\<exists>n\<in>dom (lu_users s). x = chap_line tag n (getd \<lparr>le_password = []\<rparr> (lu_users s) n)" by (intro bexI [of _ n]) auto
    next
      fix n assume "n \<in> dom (lu_users s)" "x = chap_line tag n (getd \<lparr>le_password = []\<rparr> (lu_users s) n)"
      then show "\<exists>n e. x = chap_line tag n e \<and> lu_users s n = Some e" by (intro exI [of _ n]) auto
    qed
    finally show ?thesis .
  qed
  have ours: "plain_line x \<and> \<not> foreign_line tag x" if mem: "x \<in> set ?own" for x
  proof -
    from mem own obtain n e where "x = chap_line tag n e" "lu_users s n = Some e" by blast
    then show ?thesis using chap_line_own [OF fits] by simp
  qed
  have "list_all plain_line (kept @ ?own)"
  proof -
    have "list_all plain_line kept" using assms(3) by (auto simp: k chap_plain_def list_all_iff)
    moreover have "\<forall>x\<in>set ?own. plain_line x" using ours by blast
    ultimately show ?thesis by (simp only: list_all_append) (simp only: list_all_iff)
  qed
  then have scan: "scan_lines (text_of (kept @ ?own)) = (kept @ ?own, False)" unfolding text_of_def by (rule scan_text)
  have h': "h' = h\<lparr>lh_files := (lh_files h)(chapSecretsPath \<mapsto> text_of (kept @ ?own))\<rparr>"
    using ok kept assms(4) by (auto simp: writeChapSecrets_def l2_put_def split: write_outcome.splits)
  then have ls: "chap_lines h' = kept @ ?own" by (simp add: chap_lines_def scan [simplified])
  have "filter (foreign_line tag) ?own = []" using ours by (simp only: filter_empty_conv) blast
  then show "filter (foreign_line tag) (chap_lines h') = filter (foreign_line tag) (chap_lines h)" unfolding ls by (simp add: k)
  have "filter (\<lambda>l. \<not> foreign_line tag l) kept = []" by (auto simp: k filter_empty_conv)
  moreover have "filter (\<lambda>l. \<not> foreign_line tag l) ?own = ?own" using ours by (simp only: filter_id_conv) blast
  ultimately have "set (filter (\<lambda>l. \<not> foreign_line tag l) (chap_lines h')) = set ?own" unfolding ls filter_append by (simp only: append_Nil)
  then show "set (filter (\<lambda>l. \<not> foreign_line tag l) (chap_lines h')) = {chap_line tag n e | n e. lu_users s n = Some e}"
    by (intro set_eqI) (simp only: own mem_Collect_eq)
  show "h' = h\<lparr>lh_files := lh_files h'\<rparr>" by (simp add: h')
qed


section \<open>Sessions of users who lost access\<close>

text \<open>The processes told to end: those of living sessions of the given names that belong to this core.\<close>

definition told_to_end :: "l2_env \<Rightarrow> l2_config \<Rightarrow> string set \<Rightarrow> l2_host \<Rightarrow> int set" where
  "told_to_end E c names h = ls_pid ` {s \<in> set (fst (readSessions E h)). ls_user s \<in> names \<and> 0 < ls_pid s \<and> mine c (ls_tag s)}"

lemma read_entries_alive: "s \<in> set (fst (read_entries E es)) \<Longrightarrow> sessionIsAlive E s"
  by (induction es) (auto simp: Let_def split: prod.splits if_splits)

lemma killSessions_spec:
  assumes "killSessions E names c h = h'"
  shows "\<exists>sent. lh_signals h' = lh_signals h @ sent \<and> set sent = told_to_end E c (set names) h" "lh_files h' = lh_files h"
proof -
  have alive: "processIsPppd E (ls_pid s)" if "s \<in> set (fst (readSessions E h))" "0 < ls_pid s" for s
  proof -
    have "sessionIsAlive E s"
      using that(1) by (auto simp: readSessions_def split: option.splits prod.splits) (metis fst_conv read_entries_alive)
    with that(2) show ?thesis by (simp add: sessionIsAlive_def)
  qed
  obtain ss h1 where r: "readSessions E h = (ss, h1)" by fastforce
  have h1: "lh_signals h1 = lh_signals h" "lh_files h1 = lh_files h" using r by (auto simp: readSessions_def split: option.splits prod.splits)
  show "lh_files h' = lh_files h" using assms by (auto simp: killSessions_def r h1 split: if_splits)
  show "\<exists>sent. lh_signals h' = lh_signals h @ sent \<and> set sent = told_to_end E c (set names) h"
  proof (cases "length names = 0")
    case True
    with assms show ?thesis by (simp add: killSessions_def told_to_end_def)
  next
    case False
    let ?sent = "map ls_pid (filter (\<lambda>s. ls_user s \<in> set names \<and> ls_pid s > 0 \<and> mine c (ls_tag s) \<and> processIsPppd E (ls_pid s)) ss)"
    have "lh_signals h' = lh_signals h @ ?sent" using assms False by (auto simp: killSessions_def r h1)
    moreover have "set ?sent = told_to_end E c (set names) h" using alive unfolding r fst_conv by (auto simp: told_to_end_def r)
    ultimately show ?thesis by blast
  qed
qed

text \<open>Reading the sessions does not depend on the files of credentials.\<close>

lemma told_to_end_files: "told_to_end E c names (h\<lparr>lh_files := fs\<rparr>) = told_to_end E c names h"
  by (simp add: told_to_end_def readSessions_def split: option.split prod.split)

text \<open>What both kinds of update do after the users have changed.\<close>

lemma reload_and_kill:
  assumes "range_order rg" "finite (dom (lu_users (l2_users l2)))" "chap_plain h" "lc_InboundTag (l2_config l2) = tag"
    and "\<And>n e. lu_users (l2_users l2) n = Some e \<Longrightarrow> entry_fits tag n e"
    and "reloadUsers E rg l2 h = (None, h1)" "killSessions E names (l2_config l2) h1 = h'"
  shows "filter (foreign_line tag) (chap_lines h') = filter (foreign_line tag) (chap_lines h)"
    "set (filter (\<lambda>l. \<not> foreign_line tag l) (chap_lines h')) = {chap_line tag n e | n e. lu_users (l2_users l2) n = Some e}"
    "\<exists>sent. lh_signals h' = lh_signals h @ sent \<and> set sent = told_to_end E (l2_config l2) (set names) h"
proof -
  note W = writeChapSecrets_spec [OF assms(1-5) assms(6) [unfolded reloadUsers_def]]
  note K = killSessions_spec [OF assms(7)]
  have c: "chap_lines h' = chap_lines h1" using K(2) by (simp add: chap_lines_def)
  show "filter (foreign_line tag) (chap_lines h') = filter (foreign_line tag) (chap_lines h)"
    "set (filter (\<lambda>l. \<not> foreign_line tag l) (chap_lines h')) = {chap_line tag n e | n e. lu_users (l2_users l2) n = Some e}"
    using W(1,2) by (simp_all add: c)
  obtain fs where "h1 = h\<lparr>lh_files := fs\<rparr>" using W(3) by blast
  then have "lh_signals h1 = lh_signals h" "told_to_end E cc ns h1 = told_to_end E cc ns h" for cc ns
    by (simp_all add: told_to_end_files)
  then show "\<exists>sent. lh_signals h' = lh_signals h @ sent \<and> set sent = told_to_end E (l2_config l2) (set names) h" using K(1) by simp
qed

text \<open>A store of this core that has been filled by user lists.\<close>

definition store_ok :: "string \<Rightarrow> l2tp \<Rightarrow> bool" where
  "store_ok tag l2 \<longleftrightarrow> finite (dom (lu_users (l2_users l2))) \<and> lu_inboundTag (l2_users l2) = tag \<and> lc_InboundTag (l2_config l2) = tag"

text \<open>The lines of the core are those of the given users, and no other line has changed.\<close>

definition file_holds :: "string \<Rightarrow> (string \<rightharpoonup> l2_entry) \<Rightarrow> l2_host \<Rightarrow> l2_host \<Rightarrow> bool" where
  "file_holds tag m h h' \<longleftrightarrow> filter (foreign_line tag) (chap_lines h') = filter (foreign_line tag) (chap_lines h) \<and>
     set (filter (\<lambda>l. \<not> foreign_line tag l) (chap_lines h')) = {chap_line tag n e | n e. m n = Some e}"

definition all_fit :: "string \<Rightarrow> (string \<rightharpoonup> l2_entry) \<Rightarrow> bool" where
  "all_fit tag m \<longleftrightarrow> (\<forall>n\<in>dom m. case m n of None \<Rightarrow> True | Some e \<Rightarrow> entry_fits tag n e)"

lemma SyncUsers_facts:
  assumes "range_order rg" "store_ok tag l2" "chap_plain h" "all_fit tag (l2_entitled tag us)" "l2_SyncUsers E rg us l2 h = (None, l2', h')"
  shows "lu_users (l2_users l2') = l2_entitled tag us" "file_holds tag (l2_entitled tag us) h h'"
    "\<exists>sent. lh_signals h' = lh_signals h @ sent \<and>
       set sent = told_to_end E (l2_config l2) (dom (lu_users (l2_users l2)) - dom (l2_entitled tag us)) h"
proof -
  have st: "finite (dom (lu_users (l2_users l2)))" "lu_inboundTag (l2_users l2) = tag" "lc_InboundTag (l2_config l2) = tag"
    using assms(2) by (simp_all add: store_ok_def)
  let ?names = "filter (\<lambda>n. l2_entitled tag us n = None) (keys_of rg 0 (lu_users (l2_users l2)))"
  let ?l2 = "l2\<lparr>l2_users := (l2_users l2)\<lparr>lu_users := l2_entitled tag us\<rparr>\<rparr>"
  have rep: "l2_replaceAll rg us (l2_users l2) = (?names, (l2_users l2)\<lparr>lu_users := l2_entitled tag us\<rparr>)"
    by (simp add: l2_replaceAll_def l2_next_users_entitled st(2) Let_def)
  obtain h1 where h1: "reloadUsers E rg ?l2 h = (None, h1)" "l2' = ?l2" "killSessions E ?names (l2_config ?l2) h1 = h'"
    using assms(5) by (auto simp: l2_SyncUsers_def rep Let_def split: prod.splits)
  have fits: "entry_fits tag n e" if "lu_users (l2_users ?l2) n = Some e" for n e
    using assms(4) that by (force simp: all_fit_def)
  have fin: "finite (dom (lu_users (l2_users ?l2)))" by (simp add: finite_entitled)
  have tg: "lc_InboundTag (l2_config ?l2) = tag" by (simp add: st(3))
  note R = reload_and_kill [OF assms(1) fin assms(3) tg fits h1(1,3)]
  show "lu_users (l2_users l2') = l2_entitled tag us" by (simp add: h1(2))
  show "file_holds tag (l2_entitled tag us) h h'" using R(1,2) by (simp add: file_holds_def)
  have "set ?names = dom (lu_users (l2_users l2)) - dom (l2_entitled tag us)" by (auto simp: set_keys_of [OF assms(1) st(1)])
  then show "\<exists>sent. lh_signals h' = lh_signals h @ sent \<and>
       set sent = told_to_end E (l2_config l2) (dom (lu_users (l2_users l2)) - dom (l2_entitled tag us)) h" using R(3) by simp
qed

text \<open>What a partial update leaves in the store.\<close>

definition updated :: "string \<Rightarrow> user list \<Rightarrow> (string \<rightharpoonup> l2_entry) \<Rightarrow> (string \<rightharpoonup> l2_entry)" where
  "updated tag us m = (\<lambda>n. if n \<noteq> [] \<and> n \<in> GetEmail ` set us then l2_entitled tag [last (filter (\<lambda>u. GetEmail u = n) us)] n else m n)"

lemma UpdateUsers_facts:
  assumes "range_order rg" "store_ok tag l2" "chap_plain h" "\<forall>u\<in>set us. named_user u"
    and "all_fit tag (updated tag us (lu_users (l2_users l2)))" "l2_UpdateUsers E rg us l2 h = (None, l2', h')"
  shows "lu_users (l2_users l2') = updated tag us (lu_users (l2_users l2))" "file_holds tag (lu_users (l2_users l2')) h h'"
    "told_to_end E (l2_config l2) (dom (lu_users (l2_users l2)) - insert [] (dom (lu_users (l2_users l2')))) h \<subseteq> set (lh_signals h')"
proof -
  have st: "finite (dom (lu_users (l2_users l2)))" "lu_inboundTag (l2_users l2) = tag" "lc_InboundTag (l2_config l2) = tag"
    using assms(2) by (simp_all add: store_ok_def)
  obtain names s where ap: "apply_each us (l2_users l2) = (names, s)" by fastforce
  note A = apply_each_named [OF assms(4) ap, unfolded st(2)]
  have s: "lu_users s = updated tag us (lu_users (l2_users l2))" using A by (simp add: updated_def fun_eq_iff)
  let ?l2 = "l2\<lparr>l2_users := s\<rparr>"
  obtain h1 where h1: "reloadUsers E rg ?l2 h = (None, h1)" "l2' = ?l2" "killSessions E names (l2_config ?l2) h1 = h'"
    using assms(6) by (auto simp: l2_UpdateUsers_def l2_applyUsers_def ap Let_def split: prod.splits)
  have fin: "finite (dom (lu_users (l2_users ?l2)))"
  proof -
    have "dom (lu_users s) \<subseteq> GetEmail ` set us \<union> dom (lu_users (l2_users l2))" by (auto simp: s updated_def split: if_splits)
    then show ?thesis using st(1) by (simp add: finite_subset)
  qed
  have fits: "entry_fits tag n e" if "lu_users (l2_users ?l2) n = Some e" for n e
    using assms(5) that by (force simp: all_fit_def s)
  have tg: "lc_InboundTag (l2_config ?l2) = tag" by (simp add: st(3))
  note R = reload_and_kill [OF assms(1) fin assms(3) tg fits h1(1,3)]
  show "lu_users (l2_users l2') = updated tag us (lu_users (l2_users l2))" by (simp add: h1(2) s)
  show "file_holds tag (lu_users (l2_users l2')) h h'" using R(1,2) by (simp add: file_holds_def h1(2))
  have "dom (lu_users (l2_users l2)) - insert [] (dom (lu_users s)) \<subseteq> set names" using A by (auto simp: domIff)
  then have "told_to_end E (l2_config l2) (dom (lu_users (l2_users l2)) - insert [] (dom (lu_users s))) h \<subseteq> told_to_end E (l2_config ?l2) (set names) h"
    by (auto simp: told_to_end_def)
  then show "told_to_end E (l2_config l2) (dom (lu_users (l2_users l2)) - insert [] (dom (lu_users (l2_users l2')))) h \<subseteq> set (lh_signals h')"
    using R(3) by (auto simp: h1(2))
qed

text \<open>
  C34: For users whose login names consist of graphic characters, under a tag of such characters, and a
  credentials file of plain lines. After a synchronisation that reports no error, the file pppd checks logins
  against holds, among the lines whose second field is the tag of the core, exactly one login for every user
  the list entitles to it, with the password of the list; every other line, of other cores or written by
  hand, is as it was; and exactly the living sessions of users who lost access are told to end. After a
  partial update that reports no error, where every listed user's login name is the name the panel knows
  the user by, the named users have what the last entry about them says, the others what they had, and the
  same holds of the file and of the sessions of those who lost access.
\<close>

theorem l2tp_revokes:
  assumes "range_order rg" "store_ok tag l2" "chap_plain h"
  shows "(all_fit tag (l2_entitled tag us) \<and> l2_SyncUsers E rg us l2 h = (None, full, h1) \<longrightarrow>
      lu_users (l2_users full) = l2_entitled tag us \<and> file_holds tag (l2_entitled tag us) h h1 \<and>
      (\<exists>sent. lh_signals h1 = lh_signals h @ sent \<and>
         set sent = told_to_end E (l2_config l2) (dom (lu_users (l2_users l2)) - dom (l2_entitled tag us)) h)) \<and>
    ((\<forall>u\<in>set us. named_user u) \<and> all_fit tag (updated tag us (lu_users (l2_users l2))) \<and> l2_UpdateUsers E rg us l2 h = (None, part', h2) \<longrightarrow>
      lu_users (l2_users part') = updated tag us (lu_users (l2_users l2)) \<and> file_holds tag (lu_users (l2_users part')) h h2 \<and>
      told_to_end E (l2_config l2) (dom (lu_users (l2_users l2)) - insert [] (dom (lu_users (l2_users part')))) h \<subseteq> set (lh_signals h2))"
proof (intro conjI impI; elim conjE)
  assume f: "all_fit tag (l2_entitled tag us)" "l2_SyncUsers E rg us l2 h = (None, full, h1)"
  note F = SyncUsers_facts [OF assms f]
  show "lu_users (l2_users full) = l2_entitled tag us" "file_holds tag (l2_entitled tag us) h h1"
    "\<exists>sent. lh_signals h1 = lh_signals h @ sent \<and>
       set sent = told_to_end E (l2_config l2) (dom (lu_users (l2_users l2)) - dom (l2_entitled tag us)) h" by (fact F)+
next
  assume p: "\<forall>u\<in>set us. named_user u" "all_fit tag (updated tag us (lu_users (l2_users l2)))" "l2_UpdateUsers E rg us l2 h = (None, part', h2)"
  note P = UpdateUsers_facts [OF assms p]
  show "lu_users (l2_users part') = updated tag us (lu_users (l2_users l2))" "file_holds tag (lu_users (l2_users part')) h h2"
    "told_to_end E (l2_config l2) (dom (lu_users (l2_users l2)) - insert [] (dom (lu_users (l2_users part')))) h \<subseteq> set (lh_signals h2)"
    by (fact P)+
qed

definition l2_user :: "string \<Rightarrow> string \<Rightarrow> string \<Rightarrow> string list \<Rightarrow> user" where
  "l2_user email name pw tags = Some \<lparr>u_Email = email, u_Proxies = Some (no_proxies\<lparr>px_Ikev2 := Some \<lparr>ik_Username = name, ik_Password = pw\<rparr>\<rparr>), u_Inbounds = tags\<rparr>"

lemma l2_user_creds: "name \<noteq> [] \<Longrightarrow> pw \<noteq> [] \<Longrightarrow> credsFor (l2_user email name pw tags) = Some (name, pw)"
    "GetEmail (l2_user email name pw tags) = email" "GetInbounds (l2_user email name pw tags) = tags"
  by (simp_all add: l2_user_def credsFor_def msg_defs)

definition demo_l2tp :: l2tp where
  "demo_l2tp = (fresh_l2tp demo_l2_config 0)\<lparr>l2_users := \<lparr>lu_inboundTag = ''t'', lu_users = [''v'' \<mapsto> \<lparr>le_password = ''p''\<rparr>]\<rparr>\<rparr>"

theorem l2tp_revokes_witness:
  "\<exists>full h1 part' h2. l2_SyncUsers demo_l2_env sorted_ranger [l2_user ''v'' ''v'' ''p'' []] demo_l2tp demo_l2_host = (None, full, h1) \<and>
     l2_UpdateUsers demo_l2_env sorted_ranger [l2_user ''v'' ''v'' ''p'' []] demo_l2tp demo_l2_host = (None, part', h2) \<and>
     lu_users (l2_users full) = Map.empty \<and> lh_signals h1 \<noteq> [] \<and> lu_users (l2_users part') ''v'' = None \<and> 1 \<in> set (lh_signals h2)"
proof -
  let ?us = "[l2_user ''v'' ''v'' ''p'' []]" and ?l2 = demo_l2tp and ?h = demo_l2_host and ?E = demo_l2_env
  have none: "l2_entitled ''t'' ?us = Map.empty" by (simp add: l2_entitled_def wanted_def l2_user_creds)
  have old: "lu_users (l2_users ?l2) = [''v'' \<mapsto> \<lparr>le_password = ''p''\<rparr>]" by (simp add: demo_l2tp_def)
  have upd: "updated ''t'' ?us (lu_users (l2_users ?l2)) = Map.empty" by (auto simp: updated_def old none l2_user_creds fun_eq_iff)
  have st: "store_ok ''t'' ?l2" by (simp add: store_ok_def demo_l2tp_def fresh_l2tp_def demo_l2_config_def)
  have scan: "scan_lines [] = ([], False)" using scan_text [of "[]"] by simp
  have ch: "chap_plain ?h" by (simp add: chap_plain_def chap_lines_def demo_l2_host_def scan)
  have fit: "all_fit ''t'' Map.empty" by (simp add: all_fit_def)
  have nm: "\<forall>u\<in>set ?us. named_user u" by (simp add: named_user_def l2_user_creds)
  have w: "fst (writeChapSecrets ?E sorted_ranger c s ?h) = None" for c s
    by (simp add: writeChapSecrets_def chapSecretsWithoutTag_def demo_l2_env_def demo_l2_host_def l2_put_def)
  obtain e full h1 where f0: "l2_SyncUsers ?E sorted_ranger ?us ?l2 ?h = (e, full, h1)" by (metis prod_cases3)
  have e: "e = None" using f0 w by (auto simp: l2_SyncUsers_def reloadUsers_def Let_def split: prod.splits) (metis fst_conv)
  obtain e' part' h2 where p0: "l2_UpdateUsers ?E sorted_ranger ?us ?l2 ?h = (e', part', h2)" by (metis prod_cases3)
  have e': "e' = None" using p0 w by (auto simp: l2_UpdateUsers_def l2_applyUsers_def reloadUsers_def Let_def split: prod.splits) (metis fst_conv)
  note f = f0 [unfolded e] and p = p0 [unfolded e']
  have v: "ls_user (demo_session ''v'') = ''v''" "ls_tag (demo_session ''v'') = ''t''" "ls_pid (demo_session ''v'') = 1" "mine (l2_config ?l2) ''t''"
    by (simp_all add: demo_session_def mine_def demo_l2tp_def fresh_l2tp_def demo_l2_config_def)
  have "{s \<in> set (fst (readSessions ?E ?h)). ls_user s \<in> {''v''} \<and> 0 < ls_pid s \<and> mine (l2_config ?l2) (ls_tag s)} = {demo_session ''v''}"
    unfolding demo_reads by (auto simp: v)
  then have pid: "told_to_end ?E (l2_config ?l2) {''v''} ?h = {1}" unfolding told_to_end_def by (simp add: v)
  note L = l2tp_revokes [OF range_order_sorted st ch, of ?us ?E full h1 part' h2, unfolded none upd]
  note L1 = mp [OF conjunct1 [OF L] conjI [OF fit f]] and L2 = mp [OF conjunct2 [OF L] conjI [OF nm conjI [OF fit p]]]
  have full: "lu_users (l2_users full) = Map.empty" by (rule L1 [THEN conjunct1])
  have part: "lu_users (l2_users part') = Map.empty" by (rule L2 [THEN conjunct1])
  have killed: "told_to_end ?E (l2_config ?l2) (dom (lu_users (l2_users ?l2)) - insert [] (dom (lu_users (l2_users part')))) ?h \<subseteq> set (lh_signals h2)"
    by (rule L2 [THEN conjunct2, THEN conjunct2])
  obtain sent where sent: "lh_signals h1 = lh_signals ?h @ sent"
    "set sent = told_to_end ?E (l2_config ?l2) (dom (lu_users (l2_users ?l2))) ?h"
    using L1 [THEN conjunct2, THEN conjunct2] unfolding dom_empty Diff_empty by blast
  have "set sent = {1}" using sent(2) by (simp add: old pid)
  then have "lh_signals h1 \<noteq> []" using sent(1) by auto
  moreover have "dom (lu_users (l2_users ?l2)) - insert [] (dom (lu_users (l2_users part'))) = {''v''}" by (simp add: old part)
  then have "1 \<in> set (lh_signals h2)" using killed pid by simp
  ultimately show ?thesis using f p full part by auto
qed


section \<open>Where access is kept\<close>

text \<open>
  A name with a blank in it is quoted, but the line is taken apart at blanks: the second field is not the
  tag, the line counts as somebody else's and stays when the user is removed.
\<close>

lemma spaced_name_keeps_access:
  assumes "list_all graphic a" "list_all graphic b" "byte 34 \<notin> set tag"
  shows "foreign_line tag (chap_line tag (a @ '' '' @ b) e)"
proof -
  let ?q = "\<lambda>s. concat (map quote_char s)"
  have blank: "quote_char (CHR '' '') = '' ''" by (simp add: quote_char_def)
  have g: "list_all graphic (byte 34 # ?q a)" "list_all graphic (?q b @ [byte 34])"
    using assms(1,2) go_quote_graphic [of a] go_quote_graphic [of b] by (simp_all add: go_quote_def)
  define rest where "rest = tag @ '' '' @ go_quote (le_password e) @ '' *''"
  have "chap_line tag (a @ '' '' @ b) e = (byte 34 # ?q a) @ CHR '' '' # (?q b @ [byte 34]) @ CHR '' '' # rest"
    by (simp add: chap_line_def go_quote_def blank rest_def)
  then have "Fields (chap_line tag (a @ '' '' @ b) e) = (byte 34 # ?q a) # (?q b @ [byte 34]) # Fields rest"
    using Fields_word [OF g(1)] Fields_word [OF g(2)] by simp
  moreover have "?q b @ [byte 34] \<noteq> tag" using assms(3) by auto
  ultimately show ?thesis by (simp add: foreign_line_def Let_def)
qed

text \<open>
  A partial update removes a user by the panel's name. A user whose login name is another one keeps it
  when access is taken away.
\<close>

lemma removed_by_wrong_name:
  assumes "credsFor u = Some (name, pw)" "lu_inboundTag s \<notin> set (GetInbounds u)" "GetEmail u \<noteq> name"
  shows "lu_users (snd (l2_applyUser u s)) name = lu_users s name"
  using assms by (simp add: l2_applyUser_def wants_tag Let_def)

end
