(* ===== verification/L2tp_Life.thy ===== *)
theory L2tp_Life
  imports L2tp_Access
begin

text \<open>
  Several L2TP cores on one node. They share the IPsec daemon by counting references. Shown here: in every
  state the cores can reach together, the count is the number of running cores, less at most one for every
  call to a core whose restart failed: such a core gives back a reference it does not hold. So the daemon
  never outlives the last core, and without such calls it is stopped with the last core and not before.
\<close>

section \<open>What a start and a stop do to the daemon\<close>

lemma andthen_cases: "andthen r f = (case fst r of Some e \<Rightarrow> r | None \<Rightarrow> f (snd r))"
  by (cases r) (simp add: andthen_def split: option.split)

lemma andthen_charon:
  assumes "lh_charon (snd r) = ch" "\<And>h. lh_charon h = ch \<Longrightarrow> lh_charon (snd (f h)) = ch"
  shows "lh_charon (snd (andthen r f)) = ch"
  using assms by (simp add: andthen_cases split: option.split)

lemma put_charon: "lh_charon (snd (l2_put E path content h)) = lh_charon h"
  by (simp add: l2_put_def split: write_outcome.split)

lemma scripts_charon: "lh_charon (snd (write_scripts E c scripts paths h)) = lh_charon h"
proof (induction paths arbitrary: h)
  case (Cons p ps)
  show ?case
    unfolding write_scripts.simps
    by (intro andthen_charon) (simp_all add: put_charon Cons.IH)
qed simp

lemma writeChapSecrets_charon: "lh_charon (snd (writeChapSecrets E rg c s h)) = lh_charon h"
  by (simp add: writeChapSecrets_def put_charon split: sum.split)

lemma writeConfig_charon: "lh_charon (snd (writeConfig E rg c s h)) = lh_charon h"
proof -
  have ip: "lh_charon (snd (writeIPScripts E rg c h)) = lh_charon h" for h
    unfolding writeIPScripts_def Let_def
    by (intro andthen_charon) (simp_all add: scripts_charon split: option.split)
  show ?thesis
    unfolding writeConfig_def writeSwanctl_def writeXl2tpdConf_def writePPPOptions_def
    by (intro andthen_charon) (simp_all add: put_charon ip writeChapSecrets_charon)
qed

lemma start_facts:
  assumes "charon_ok (lh_charon h)" "l2_start E rg l2 h = (e, l2', h')"
  shows "charon_ok (lh_charon h') \<and> ch_refs (lh_charon h') = (if e = None then ch_refs (lh_charon h) + 1 else ch_refs (lh_charon h)) \<and>
    l2_state l2' = (if e = None then L2Running else l2_state l2) \<and> l2_shutdownOnce l2' = l2_shutdownOnce l2"
proof -
  obtain we h1 where w: "writeConfig E rg (l2_config l2) (l2_users l2) h = (we, h1)" by fastforce
  have h1: "lh_charon h1 = lh_charon h" using writeConfig_charon [of E rg "l2_config l2" "l2_users l2" h] by (simp add: w)
  obtain ae ch where a: "ipsec_acquire (lx_ipsec E) (lh_charon h) = (ae, ch)" by fastforce
  note A = acquire_cases [OF assms(1) a]
  show ?thesis
  proof (cases we)
    case (Some x)
    then show ?thesis using assms h1 by (auto simp: l2_start_def w)
  next
    case None
    then show ?thesis
      using assms(2) A release_ok [of ch] release_refs [of ch]
      by (auto simp: l2_start_def w h1 a release_charon_def Let_def assms(1) split: option.splits if_splits)
  qed
qed

lemma removeChap_charon: "lh_charon (removeChapSecrets E c h) = lh_charon h"
  by (simp add: removeChapSecrets_def put_charon split: sum.split)

lemma shutdown_facts:
  assumes "l2_Shutdown E l2 h = (l2', h')"
  shows "l2_shutdownOnce l2'" "l2_shutdownOnce l2 \<Longrightarrow> l2' = l2 \<and> h' = h"
    "\<not> l2_shutdownOnce l2 \<Longrightarrow> l2_state l2' = L2Stopped \<and> lh_charon h' = ipsec_release (lh_charon h)"
  using assms by (auto simp: l2_Shutdown_def release_charon_def removeChap_charon l2_rm_def Let_def split: if_splits)


section \<open>Cores together\<close>

text \<open>A core whose last restart failed: it does not run and has not been shut down since.\<close>

definition stranded :: "l2tp \<Rightarrow> bool" where
  "stranded l2 \<longleftrightarrow> \<not> l2_Started l2 \<and> \<not> l2_shutdownOnce l2"

definition taken :: "l2tp \<Rightarrow> nat \<Rightarrow> nat" where
  "taken l2 n = (if stranded l2 then Suc n else n)"

text \<open>The cores and the host, with the number of calls that shut such a core down again.\<close>

inductive ipsec_run :: "(nat \<rightharpoonup> l2tp) \<Rightarrow> l2_host \<Rightarrow> nat \<Rightarrow> bool" where
  ir_boot: "lh_charon h = charon_none \<Longrightarrow> ipsec_run Map.empty h 0"
| ir_new: "ipsec_run m h n \<Longrightarrow> m k = None \<Longrightarrow> l2_New E rg now path c us h = (e, l2, h') \<Longrightarrow> ipsec_run (if e = None then m(k \<mapsto> l2) else m) h' n"
| ir_shutdown: "ipsec_run m h n \<Longrightarrow> m k = Some l2 \<Longrightarrow> l2_Shutdown E l2 h = (l2', h') \<Longrightarrow> ipsec_run (m(k \<mapsto> l2')) h' (taken l2 n)"
| ir_restart: "ipsec_run m h n \<Longrightarrow> m k = Some l2 \<Longrightarrow> l2_Restart E rg l2 h = (e, l2', h') \<Longrightarrow> ipsec_run (m(k \<mapsto> l2')) h' (taken l2 n)"
| ir_users_restart: "ipsec_run m h n \<Longrightarrow> m k = Some l2 \<Longrightarrow> l2_UpdateUsersAndRestart E rg us l2 h = (e, l2', h') \<Longrightarrow>
    ipsec_run (m(k \<mapsto> l2')) h' (taken l2 n)"
| ir_sync: "ipsec_run m h n \<Longrightarrow> m k = Some l2 \<Longrightarrow> l2_SyncUsers E rg us l2 h = (e, l2', h') \<Longrightarrow> ipsec_run (m(k \<mapsto> l2')) h' n"
| ir_update: "ipsec_run m h n \<Longrightarrow> m k = Some l2 \<Longrightarrow> l2_UpdateUsers E rg us l2 h = (e, l2', h') \<Longrightarrow> ipsec_run (m(k \<mapsto> l2')) h' n"
| ir_poll: "ipsec_run m h n \<Longrightarrow> m k = Some l2 \<Longrightarrow> l2_poll E rg now l2 h = (l2', h') \<Longrightarrow> ipsec_run (m(k \<mapsto> l2')) h' n"
| ir_forget: "ipsec_run m h n \<Longrightarrow> m k = Some l2 \<Longrightarrow> l2_shutdownOnce l2 \<Longrightarrow> ipsec_run (m(k := None)) h n"
| ir_crash: "ipsec_run m h n \<Longrightarrow> ipsec_run m (h\<lparr>lh_charon := charon_crash (lh_charon h)\<rparr>) n"

definition running :: "(nat \<rightharpoonup> l2tp) \<Rightarrow> nat set" where
  "running m = {k \<in> dom m. case m k of None \<Rightarrow> False | Some l2 \<Rightarrow> l2_Started l2}"

definition short :: "nat \<Rightarrow> nat \<Rightarrow> nat \<Rightarrow> bool" where
  "short n refs cores \<longleftrightarrow> refs \<le> cores \<and> cores \<le> refs + n"

definition ipsec_inv :: "(nat \<rightharpoonup> l2tp) \<Rightarrow> l2_host \<Rightarrow> nat \<Rightarrow> bool" where
  "ipsec_inv m h n \<longleftrightarrow> finite (dom m) \<and> charon_ok (lh_charon h) \<and> short n (ch_refs (lh_charon h)) (card (running m)) \<and>
     (\<forall>k\<in>dom m. case m k of None \<Rightarrow> True | Some l2 \<Rightarrow> l2_Started l2 \<longrightarrow> \<not> l2_shutdownOnce l2)"

lemma running_upd: "running (m(k \<mapsto> l2)) = (if l2_Started l2 then insert k (running m) else running m - {k})"
  by (auto simp: running_def)

lemma running_del: "running (m(k := None)) = running m - {k}"
  by (auto simp: running_def)

lemma finite_running: "finite (dom m) \<Longrightarrow> finite (running m)"
  by (simp add: running_def)

lemma mem_running: "m k = Some l2 \<Longrightarrow> k \<in> running m \<longleftrightarrow> l2_Started l2"
  by (auto simp: running_def)

lemma running_not_once:
  assumes "ipsec_inv m h n" "m k = Some l2" "l2_Started l2"
  shows "\<not> l2_shutdownOnce l2"
proof -
  have "\<forall>k\<in>dom m. case m k of None \<Rightarrow> True | Some l2 \<Rightarrow> l2_Started l2 \<longrightarrow> \<not> l2_shutdownOnce l2" using assms(1) by (simp add: ipsec_inv_def)
  from bspec [OF this, of k] assms(2,3) show ?thesis by auto
qed

text \<open>A core is replaced by one that runs or not; the count follows.\<close>

lemma inv_replace:
  assumes I: "ipsec_inv m h n" and ok: "charon_ok (lh_charon h')" and once: "l2_Started l2' \<Longrightarrow> \<not> l2_shutdownOnce l2'"
    and refs: "short n' (ch_refs (lh_charon h')) (card (running m - {k}) + (if l2_Started l2' then 1 else 0))"
  shows "ipsec_inv (m(k \<mapsto> l2')) h' n'"
proof -
  have fin: "finite (running m)" using I by (simp add: ipsec_inv_def finite_running)
  have "card (running (m(k \<mapsto> l2'))) = card (running m - {k}) + (if l2_Started l2' then 1 else 0)"
  proof (cases "l2_Started l2'")
    case True
    then show ?thesis using fin by (simp add: running_upd card.insert_remove)
  qed (simp add: running_upd)
  then show ?thesis using assms by (auto simp: ipsec_inv_def split: option.splits)
qed

lemma card_without:
  assumes "ipsec_inv m h n" "m k = Some l2"
  shows "short n (ch_refs (lh_charon h)) (card (running m - {k}) + (if l2_Started l2 then 1 else 0))"
proof -
  have fin: "finite (running m)" and r: "short n (ch_refs (lh_charon h)) (card (running m))"
    using assms(1) by (simp_all add: ipsec_inv_def finite_running)
  show ?thesis using r card.remove [OF fin, of k] mem_running [of m k l2, OF assms(2)] by auto
qed

text \<open>Nothing but starts, stops and crashes touches the daemon.\<close>

lemma inv_same:
  assumes "ipsec_inv m h n" "m k = Some l2" "lh_charon h' = lh_charon h" "l2_state l2' = l2_state l2" "l2_shutdownOnce l2' = l2_shutdownOnce l2"
  shows "ipsec_inv (m(k \<mapsto> l2')) h' n"
proof (rule inv_replace [OF assms(1)])
  show "short n (ch_refs (lh_charon h')) (card (running m - {k}) + (if l2_Started l2' then 1 else 0))"
    using card_without [OF assms(1,2)] by (simp add: assms(3,4) l2_Started_def)
  show "l2_Started l2' \<Longrightarrow> \<not> l2_shutdownOnce l2'" using running_not_once [OF assms(1,2)] assms(4,5) by (simp add: l2_Started_def)
  show "charon_ok (lh_charon h')" using assms(1,3) by (simp add: ipsec_inv_def)
qed

lemma ipsec_shutdown:
  assumes "ipsec_inv m h n" "m k = Some l2" "l2_Shutdown E l2 h = (l2', h')"
  shows "ipsec_inv (m(k \<mapsto> l2')) h' (taken l2 n)" "\<not> l2_Started l2'" "l2_shutdownOnce l2'"
proof -
  note S = shutdown_facts [OF assms(3)]
  have ok: "charon_ok (lh_charon h)" using assms(1) by (simp add: ipsec_inv_def)
  note once = running_not_once [OF assms(1,2)]
  note c = card_without [OF assms(1,2)]
  show "l2_shutdownOnce l2'" by (rule S(1))
  show stop: "\<not> l2_Started l2'" using S(2,3) once by (cases "l2_shutdownOnce l2") (auto simp: l2_Started_def)
  show "ipsec_inv (m(k \<mapsto> l2')) h' (taken l2 n)"
  proof (rule inv_replace [OF assms(1)])
    show "charon_ok (lh_charon h')" using S(2,3) ok by (cases "l2_shutdownOnce l2") (auto simp: release_ok)
    show "short (taken l2 n) (ch_refs (lh_charon h')) (card (running m - {k}) + (if l2_Started l2' then 1 else 0))"
    proof (cases "l2_shutdownOnce l2")
      case True
      then show ?thesis using S(2) c stop by (simp add: taken_def stranded_def)
    next
      case False
      then show ?thesis using S(3) c stop by (auto simp: taken_def stranded_def short_def release_refs)
    qed
  qed (use stop in simp)
qed

lemma ipsec_restart:
  assumes "ipsec_inv m h n" "m k = Some l2" "l2_Restart E rg l2 h = (e, l2', h')"
  shows "ipsec_inv (m(k \<mapsto> l2')) h' (taken l2 n)"
proof -
  obtain l21 h1 where s: "l2_Shutdown E l2 h = (l21, h1)" by fastforce
  note S = ipsec_shutdown [OF assms(1,2) s]
  have st: "l2_start E rg (l21\<lparr>l2_shutdownOnce := False\<rparr>) h1 = (e, l2', h')" using assms(3) by (simp add: l2_Restart_def s)
  have ok: "charon_ok (lh_charon h1)" using S(1) by (simp add: ipsec_inv_def)
  note F = start_facts [OF ok st]
  have c: "short (taken l2 n) (ch_refs (lh_charon h1)) (card (running m - {k}))" using S(1,2) by (simp add: ipsec_inv_def running_upd)
  show ?thesis
    by (rule inv_replace [OF assms(1)]) (use F c S(2) in \<open>auto simp: l2_Started_def short_def\<close>)
qed

lemma killSessions_charon: "lh_charon (killSessions E names c h) = lh_charon h"
  by (auto simp: killSessions_def readSessions_def split: prod.splits option.splits)

lemma users_same:
  "l2_SyncUsers E rg us l2 h = (e, l2', h') \<Longrightarrow> lh_charon h' = lh_charon h \<and> l2_state l2' = l2_state l2 \<and> l2_shutdownOnce l2' = l2_shutdownOnce l2"
  "l2_UpdateUsers E rg us l2 h = (e, l2', h') \<Longrightarrow> lh_charon h' = lh_charon h \<and> l2_state l2' = l2_state l2 \<and> l2_shutdownOnce l2' = l2_shutdownOnce l2"
proof -
  have w: "writeChapSecrets E rg c s h = (e, h1) \<Longrightarrow> lh_charon h1 = lh_charon h" for c s h1 e
    using writeChapSecrets_charon [of E rg c s h] by simp
  show "l2_SyncUsers E rg us l2 h = (e, l2', h') \<Longrightarrow> lh_charon h' = lh_charon h \<and> l2_state l2' = l2_state l2 \<and> l2_shutdownOnce l2' = l2_shutdownOnce l2"
    by (auto simp: l2_SyncUsers_def reloadUsers_def killSessions_charon Let_def split: prod.splits dest: w)
  show "l2_UpdateUsers E rg us l2 h = (e, l2', h') \<Longrightarrow> lh_charon h' = lh_charon h \<and> l2_state l2' = l2_state l2 \<and> l2_shutdownOnce l2' = l2_shutdownOnce l2"
    by (auto simp: l2_UpdateUsers_def l2_applyUsers_def reloadUsers_def killSessions_charon Let_def split: prod.splits dest: w)
qed

lemma add_user_same:
  "foldl (add_user now r) (samples, online, l2) js = (samples', online', l2') \<Longrightarrow>
     l2_state l2' = l2_state l2 \<and> l2_shutdownOnce l2' = l2_shutdownOnce l2"
proof (induction js arbitrary: samples online l2)
  case (Cons k js)
  obtain s1 o1 l21 where st: "add_user now r (samples, online, l2) k = (s1, o1, l21)" by (metis prod_cases3)
  have "l2_state l21 = l2_state l2" "l2_shutdownOnce l21 = l2_shutdownOnce l2" using st by (auto simp: add_user_def Let_def split: prod.splits)
  with Cons.IH [of s1 o1 l21] Cons.prems st show ?case by simp
qed simp

lemma poll_same:
  assumes "l2_poll E rg now l2 h = (l2', h')"
  shows "lh_charon h' = lh_charon h \<and> l2_state l2' = l2_state l2 \<and> l2_shutdownOnce l2' = l2_shutdownOnce l2"
proof -
  have acc: "l2_state (account_sessions rg now b ss fs l2) = l2_state l2 \<and> l2_shutdownOnce (account_sessions rg now b ss fs l2) = l2_shutdownOnce l2" for b ss fs
    by (auto simp: account_sessions_def Let_def dest!: add_user_same split: prod.splits if_splits)
  show ?thesis
    using assms acc by (auto simp: l2_poll_def readSessions_def readFinalRecords_def drop_finals_def Let_def split: prod.splits option.splits)
qed

lemma ipsec_run_inv: "ipsec_run m h n \<Longrightarrow> ipsec_inv m h n"
proof (induction rule: ipsec_run.induct)
  case (ir_boot h)
  then show ?case by (simp add: ipsec_inv_def running_def short_def charon_none_def charon_ok_def)
next
  case (ir_new m h n k E rg now path c us e l2 h')
  have ok: "charon_ok (lh_charon h)" and c: "short n (ch_refs (lh_charon h)) (card (running m))" using ir_new.IH by (simp_all add: ipsec_inv_def)
  have fresh: "k \<notin> running m" using ir_new.hyps by (auto simp: running_def)
  obtain l20 where st: "l2_start E rg l20 h = (e, l2, h')" "\<not> l2_shutdownOnce l20" "l2_state l20 = L2Stopped"
    using ir_new.hyps by (auto simp: l2_New_def fresh_l2tp_def Let_def)
  note F = start_facts [OF ok st(1)]
  show ?case
  proof (cases e)
    case None
    have "ipsec_inv (m(k \<mapsto> l2)) h' n"
      by (rule inv_replace [OF ir_new.IH]) (use F None c st fresh in \<open>auto simp: l2_Started_def short_def\<close>)
    with None show ?thesis by (simp only: if_True simp_thms)
  next
    case (Some x)
    then show ?thesis using F c ir_new.IH by (simp add: ipsec_inv_def)
  qed
next
  case (ir_users_restart m h n k l2 E rg us e l2' h')
  let ?l2 = "l2\<lparr>l2_users := snd (l2_replaceAll rg us (l2_users l2))\<rparr>"
  have I: "ipsec_inv (m(k \<mapsto> ?l2)) h n" by (rule inv_same [OF ir_users_restart.IH ir_users_restart.hyps(2)]) simp_all
  have st: "taken ?l2 n = taken l2 n" by (simp add: taken_def stranded_def l2_Started_def)
  have "ipsec_inv ((m(k \<mapsto> ?l2))(k \<mapsto> l2')) h' (taken ?l2 n)"
    by (rule ipsec_restart [OF I _ ir_users_restart.hyps(3) [unfolded l2_UpdateUsersAndRestart_def]]) simp
  then show ?case unfolding fun_upd_upd st .
next
  case (ir_forget m h n k l2)
  then have "\<not> l2_Started l2" using running_not_once by blast
  then have "k \<notin> running m" using ir_forget.hyps by (simp add: mem_running)
  then have r: "running (m(k := None)) = running m" by (simp add: running_del)
  show ?case
    using ir_forget.IH unfolding ipsec_inv_def r by (auto split: option.splits)
next
  case (ir_crash m h n)
  then show ?case by (simp add: ipsec_inv_def crash_ok)
next
  case (ir_shutdown m h n k l2 E l2' h')
  show ?case by (rule ipsec_shutdown(1) [OF ir_shutdown.IH ir_shutdown.hyps(2-3)])
next
  case (ir_restart m h n k l2 E rg e l2' h')
  show ?case by (rule ipsec_restart [OF ir_restart.IH ir_restart.hyps(2-3)])
next
  case (ir_sync m h n k l2 E rg us e l2' h')
  show ?case by (rule inv_same [OF ir_sync.IH ir_sync.hyps(2)]) (use users_same(1) [OF ir_sync.hyps(3)] in simp_all)
next
  case (ir_update m h n k l2 E rg us e l2' h')
  show ?case by (rule inv_same [OF ir_update.IH ir_update.hyps(2)]) (use users_same(2) [OF ir_update.hyps(3)] in simp_all)
next
  case (ir_poll m h n k l2 E rg now l2' h')
  show ?case by (rule inv_same [OF ir_poll.IH ir_poll.hyps(2)]) (use poll_same [OF ir_poll.hyps(3)] in simp_all)
qed

text \<open>
  C35: However L2TP cores are created, shut down, restarted, given users and polled on one node, and whenever
  the IPsec daemon dies: there are never more references to the daemon than running cores, so no daemon
  outlives the last of them, and at most as many are missing as calls were made that shut down or restarted
  a core whose last restart had failed. Without such a call the number of references is the number of
  running cores: the daemon is held exactly while a core runs. Shutting one core down leaves the daemon to
  the others when more of them run than references are missing.
\<close>

theorem charon_shared:
  assumes "ipsec_run m h n"
  shows "ch_refs (lh_charon h) \<le> card (running m) \<and> card (running m) \<le> ch_refs (lh_charon h) + n \<and>
    (running m = {} \<longrightarrow> \<not> ipsec_Running (lh_charon h) \<and> \<not> ch_alive (lh_charon h)) \<and>
    (n = 0 \<and> running m \<noteq> {} \<longrightarrow> ipsec_Running (lh_charon h)) \<and>
    (\<forall>k l2 E. m k = Some l2 \<and> taken l2 n < card (running m - {k}) \<longrightarrow>
       ch_alive (lh_charon (snd (l2_Shutdown E l2 h))) = ch_alive (lh_charon h))"
proof -
  have I: "ipsec_inv m h n" by (rule ipsec_run_inv [OF assms])
  then have fin: "finite (running m)" and ok: "charon_ok (lh_charon h)" and c: "short n (ch_refs (lh_charon h)) (card (running m))"
    by (simp_all add: ipsec_inv_def finite_running)
  have none: "running m = {} \<longrightarrow> ch_refs (lh_charon h) = 0" using c by (auto simp: short_def)
  have some: "n = 0 \<and> running m \<noteq> {} \<longrightarrow> 0 < ch_refs (lh_charon h)" using c fin by (auto simp: short_def card_gt_0_iff)
  have others: "ch_alive (lh_charon (snd (l2_Shutdown E l2 h))) = ch_alive (lh_charon h)"
    if k: "m k = Some l2" and more: "taken l2 n < card (running m - {k})" for k l2 E
  proof -
    obtain l2' h' where s: "l2_Shutdown E l2 h = (l2', h')" by fastforce
    note S = shutdown_facts [OF s]
    show ?thesis
    proof (cases "l2_shutdownOnce l2")
      case True
      then show ?thesis using S(2) s by simp
    next
      case False
      then have "ch_refs (lh_charon h) > 1"
        using card_without [OF I k] more by (auto simp: short_def taken_def stranded_def split: if_splits)
      then show ?thesis using False S(3) s by (simp add: release_alive)
    qed
  qed
  show ?thesis using c none some ok others by (auto simp: short_def ipsec_Running_def charon_ok_def)
qed

definition demo_l2_work :: l2_config where
  "demo_l2_work = demo_l2_config\<lparr>lc_workDir := path_join [''/g'', ''l2tp'', ''t'']\<rparr>"

lemma demo_put: "l2_put demo_l2_env p x h = (None, h\<lparr>lh_files := (lh_files h)(p \<mapsto> x)\<rparr>)"
  by (simp add: l2_put_def demo_l2_env_def)

lemma demo_scripts:
  assumes "chapSecretsPath \<notin> set paths"
  shows "\<exists>h'. write_scripts demo_l2_env c scripts paths h = (None, h') \<and> lh_files h' chapSecretsPath = lh_files h chapSecretsPath"
  using assms
proof (induction paths arbitrary: h)
  case (Cons p ps)
  have "lx_mkdir demo_l2_env d = None" for d by (simp add: demo_l2_env_def)
  then have "write_scripts demo_l2_env c scripts (p # ps) h = write_scripts demo_l2_env c scripts ps (h\<lparr>lh_files := (lh_files h)(p \<mapsto> getd [] scripts p)\<rparr>)"
    by (simp add: andthen_def demo_put)
  with Cons.IH [of "h\<lparr>lh_files := (lh_files h)(p \<mapsto> getd [] scripts p)\<rparr>"] Cons.prems show ?case by simp
qed simp

lemma demo_paths: "chapSecretsPath \<notin> {swanctl_path demo_l2_work, xl2tpdConfPath demo_l2_work, pppOptionsPath demo_l2_work,
    ipUpScriptPath demo_l2_work, ipDownScriptPath demo_l2_work}"
  by code_simp

lemma demo_writeConfig:
  assumes "lh_files h chapSecretsPath = None"
  shows "fst (writeConfig demo_l2_env sorted_ranger demo_l2_work s h) = None"
proof -
  let ?c = demo_l2_work and ?E = demo_l2_env
  let ?scripts = "[ipUpScriptPath ?c \<mapsto> ip_up_script ?c, ipDownScriptPath ?c \<mapsto> ip_down_script]"
  have mk: "lx_mkdir ?E d = None" "lx_open ?E d = None" for d by (simp_all add: demo_l2_env_def)
  have fin: "finite (dom ?scripts)" by simp
  have "set (keys_of sorted_ranger 0 ?scripts) = dom ?scripts" by (rule set_keys_of [OF range_order_sorted fin])
  then have ks: "chapSecretsPath \<notin> set (keys_of sorted_ranger 0 ?scripts)" using demo_paths by auto
  define h3 where "h3 = h\<lparr>lh_files := (lh_files h)(swanctl_path ?c \<mapsto> swanctl_conf ?c, xl2tpdConfPath ?c \<mapsto> xl2tpd_conf ?c, pppOptionsPath ?c \<mapsto> ppp_options ?c)\<rparr>"
  obtain h4 where h4: "write_scripts ?E ?c ?scripts (keys_of sorted_ranger 0 ?scripts) h3 = (None, h4)" "lh_files h4 chapSecretsPath = lh_files h3 chapSecretsPath"
    using demo_scripts [OF ks] by blast
  have h3c: "lh_files h3 chapSecretsPath = None" using demo_paths assms by (simp add: h3_def)
  have "writeConfig ?E sorted_ranger ?c s h = andthen (writeIPScripts ?E sorted_ranger ?c h3) (writeChapSecrets ?E sorted_ranger ?c s)"
    by (simp add: writeConfig_def writeSwanctl_def writeXl2tpdConf_def writePPPOptions_def andthen_def mk demo_put h3_def)
  moreover obtain h5 where h5: "writeIPScripts ?E sorted_ranger ?c h3 = (None, h5)" "lh_files h5 = lh_files h4"
    using h4(1) by (simp add: writeIPScripts_def andthen_def mk Let_def)
  moreover have "fst (writeChapSecrets ?E sorted_ranger ?c s h5) = None"
    using h4(2) h3c h5(2) by (simp add: writeChapSecrets_def chapSecretsWithoutTag_def mk demo_put)
  ultimately show ?thesis by (simp add: andthen_def)
qed

lemma demo_New:
  assumes "lh_files h chapSecretsPath = None" "lh_charon h = charon_none"
  shows "\<exists>l2 h'. l2_New demo_l2_env sorted_ranger 0 ''/g'' demo_l2_config [] h = (None, l2, h') \<and> l2_Started l2"
proof -
  have w: "demo_l2_config\<lparr>lc_workDir := path_join [''/g'', ''l2tp'', lc_InboundTag demo_l2_config]\<rparr> = demo_l2_work"
    by (simp add: demo_l2_work_def demo_l2_config_def)
  define l2 where "l2 = (fresh_l2tp demo_l2_work 0)\<lparr>l2_users := snd (l2_replaceAll sorted_ranger [] (l2_users (fresh_l2tp demo_l2_work 0)))\<rparr>"
  have conf: "l2_config l2 = demo_l2_work" by (simp add: l2_def fresh_l2tp_def)
  obtain h1 where h1: "writeConfig demo_l2_env sorted_ranger demo_l2_work (l2_users l2) h = (None, h1)"
    using demo_writeConfig [OF assms(1), of "l2_users l2"] by (metis prod.collapse)
  have ch: "lh_charon h1 = charon_none" using writeConfig_charon [of demo_l2_env sorted_ranger demo_l2_work "l2_users l2" h] assms(2) by (simp add: h1)
  obtain c where a: "ipsec_acquire (lx_ipsec demo_l2_env) charon_none = (None, c)"
    by (simp add: ipsec_acquire_def charon_none_def ipsec_CheckDeps_def startLocked_def demo_l2_env_def)
  have up: "ipsec_loadAll (lx_ipsec demo_l2_env) = None" "lx_exec demo_l2_env = None" by (simp_all add: ipsec_loadAll_def demo_l2_env_def)
  have "\<exists>l2' h'. l2_start demo_l2_env sorted_ranger l2 h = (None, l2', h') \<and> l2_Started l2'"
    by (simp add: l2_start_def conf h1 ch a up l2_Started_def Let_def)
  then show ?thesis by (simp add: l2_New_def w l2_def Let_def)
qed

theorem charon_shared_witness:
  "\<exists>m h. ipsec_run m h 0 \<and> running m = {0} \<and> ch_refs (lh_charon h) = 1 \<and> ipsec_Running (lh_charon h)"
proof -
  have h: "lh_files demo_l2_host chapSecretsPath = None" "lh_charon demo_l2_host = charon_none" by (simp_all add: demo_l2_host_def)
  obtain l2 h' where n: "l2_New demo_l2_env sorted_ranger 0 ''/g'' demo_l2_config [] demo_l2_host = (None, l2, h')" and st: "l2_Started l2"
    using demo_New [OF h] by blast
  have run: "ipsec_run [0 \<mapsto> l2] h' 0" using ir_new [OF ir_boot [OF h(2)] _ n, of 0] by simp
  have "running [0 \<mapsto> l2] = {0}" using st by (simp add: running_upd) (simp add: running_def)
  with charon_shared [OF run] run show ?thesis by (intro exI [of _ "[0 \<mapsto> l2]"] exI [of _ h']) auto
qed


section \<open>What goes wrong\<close>

text \<open>
  Restarting gives the reference back first. When the start after it fails, the core holds none but can be
  shut down again, and then gives back the reference of another core: here two cores ran, the second one's
  restart failed, and shutting it down stops the daemon under the first.
\<close>

lemma failed_restart_takes_reference:
  assumes "charon_ok (lh_charon h)" "ch_refs (lh_charon h) = 2" "\<not> l2_shutdownOnce l2"
    and "l2_Restart E rg l2 h = (Some e, l2', h1)" "l2_Shutdown E' l2' h1 = (l2'', h2)"
  shows "ch_refs (lh_charon h1) = 1 \<and> ch_refs (lh_charon h2) = 0 \<and> \<not> ch_alive (lh_charon h2)"
proof -
  obtain l21 h0 where s: "l2_Shutdown E l2 h = (l21, h0)" by fastforce
  have h0: "lh_charon h0 = ipsec_release (lh_charon h)" using shutdown_facts(3) [OF s] assms(3) by simp
  have st: "l2_start E rg (l21\<lparr>l2_shutdownOnce := False\<rparr>) h0 = (Some e, l2', h1)" using assms(4) by (simp add: l2_Restart_def s)
  have ok: "charon_ok (lh_charon h0)" by (simp add: h0 release_ok assms(1))
  note F = start_facts [OF ok st]
  then have r1: "ch_refs (lh_charon h1) = 1" by (simp add: h0 release_refs assms(2))
  have "\<not> l2_shutdownOnce l2'" using F by simp
  then have "lh_charon h2 = ipsec_release (lh_charon h1)" using shutdown_facts(3) [OF assms(5)] by simp
  then show ?thesis using r1 F release_last_stops [of "lh_charon h1"] by (simp add: release_refs)
qed

text \<open>A start that fails after the files are written leaves them and the forwarding rules behind.\<close>

lemma failed_start_leaves_rules:
  assumes "writeConfig E rg (l2_config l2) (l2_users l2) h = (None, h1)" "ipsec_acquire (lx_ipsec E) (lh_charon h1) = (None, ch)"
    and "lx_exec E = Some x" "l2_start E rg l2 h = (e, l2', h')"
  shows "e \<noteq> None \<and> lh_files h' = lh_files h1 \<and> l2_hostRouting l2' = lx_routed E"
  using assms by (auto simp: l2_start_def release_charon_def Let_def split: option.splits)

end
