(* ===== verification/L2tp_Pool.thy ===== *)
theory L2tp_Pool
  imports L2tp_Life
begin

text \<open>
  The addresses xl2tpd hands out. Shown here: for a pool of at least four addresses the byte-wise arithmetic
  of \<^verbatim>\<open>poolRange\<close> computes the range from the third address of the network to the one before the
  broadcast address, without a carry getting lost.
\<close>

section \<open>Addresses as numbers\<close>

fun ip_val :: "ip \<Rightarrow> nat" where
  "ip_val [] = 0"
| "ip_val (b # bs) = b * 256 ^ length bs + ip_val bs"

definition bytes_ok :: "ip \<Rightarrow> bool" where
  "bytes_ok a \<longleftrightarrow> list_all (\<lambda>b. b < 256) a"

lemma ip_val_less: "bytes_ok a \<Longrightarrow> ip_val a < 256 ^ length a"
proof (induction a)
  case (Cons b bs)
  then have b: "b < 256" "ip_val bs < 256 ^ length bs" by (simp_all add: bytes_ok_def)
  have "b * 256 ^ length bs + ip_val bs < (b + 1) * 256 ^ length bs" using b(2) by simp
  also have "\<dots> \<le> 256 * 256 ^ length bs" using b(1) by (intro mult_right_mono) simp_all
  finally show ?case by simp
qed simp

lemma ip_val_append: "ip_val (a @ b) = ip_val a * 256 ^ length b + ip_val b"
  by (induction a) (simp_all add: power_add algebra_simps)

lemma inc_bytes_ok:
  assumes "bytes_ok bs" "ip_val (rev bs) + 1 < 256 ^ length bs"
  shows "bytes_ok (inc_bytes bs) \<and> length (inc_bytes bs) = length bs \<and> ip_val (rev (inc_bytes bs)) = ip_val (rev bs) + 1"
  using assms
proof (induction bs)
  case (Cons b bs)
  have b: "b < 256" "bytes_ok bs" using Cons.prems(1) by (simp_all add: bytes_ok_def)
  show ?case
  proof (cases "b = 255")
    case False
    then show ?thesis using b by (auto simp: bytes_ok_def ip_val_append)
  next
    case True
    have "ip_val (rev bs) * 256 + 256 < 256 * 256 ^ length bs" using Cons.prems(2) True by (simp add: ip_val_append)
    then have "ip_val (rev bs) + 1 < 256 ^ length bs" by simp
    from Cons.IH [OF b(2) this] True show ?thesis by (simp add: bytes_ok_def ip_val_append)
  qed
qed simp

lemma dec_bytes_ok:
  assumes "bytes_ok bs" "0 < ip_val (rev bs)"
  shows "bytes_ok (dec_bytes bs) \<and> length (dec_bytes bs) = length bs \<and> ip_val (rev (dec_bytes bs)) = ip_val (rev bs) - 1"
  using assms
proof (induction bs)
  case (Cons b bs)
  have b: "b < 256" "bytes_ok bs" using Cons.prems(1) by (simp_all add: bytes_ok_def)
  show ?case
  proof (cases "b = 0")
    case False
    then show ?thesis using b by (auto simp: bytes_ok_def ip_val_append)
  next
    case True
    have pos: "0 < ip_val (rev bs)" using Cons.prems(2) True by (simp add: ip_val_append)
    from Cons.IH [OF b(2) pos] True pos show ?thesis by (simp add: bytes_ok_def ip_val_append)
  qed
qed simp

lemma ip_inc_val: "bytes_ok a \<Longrightarrow> ip_val a + 1 < 256 ^ length a \<Longrightarrow> bytes_ok (ip_inc a) \<and> length (ip_inc a) = length a \<and> ip_val (ip_inc a) = ip_val a + 1"
  using inc_bytes_ok [of "rev a"] by (simp add: ip_inc_def bytes_ok_def list_all_iff)

lemma ip_dec_val: "bytes_ok a \<Longrightarrow> 0 < ip_val a \<Longrightarrow> bytes_ok (ip_dec a) \<and> length (ip_dec a) = length a \<and> ip_val (ip_dec a) = ip_val a - 1"
  using dec_bytes_ok [of "rev a"] by (simp add: ip_dec_def bytes_ok_def list_all_iff)

lemma bytesCompare_val:
  assumes "length a = length b" "bytes_ok a" "bytes_ok b"
  shows "bytesCompare a b > 0 \<longleftrightarrow> ip_val a > ip_val b"
  using assms
proof (induction a b rule: list_induct2)
  case (Cons x xs y ys)
  have v: "ip_val xs < 256 ^ length xs" "ip_val ys < 256 ^ length xs"
    using Cons.prems Cons.hyps ip_val_less [of xs] ip_val_less [of ys] by (simp_all add: bytes_ok_def)
  have lt: "p * 256 ^ length xs + ip_val zs < q * 256 ^ length xs" if "p < q" "ip_val zs < 256 ^ length xs" for p q :: nat and zs
  proof -
    have "p * 256 ^ length xs + ip_val zs < (p + 1) * 256 ^ length xs" using that(2) by simp
    also have "\<dots> \<le> q * 256 ^ length xs" using that(1) by (intro mult_right_mono) simp_all
    finally show ?thesis .
  qed
  show ?case
    using Cons lt [of x y xs] lt [of y x ys] v by (cases x y rule: linorder_cases) (auto simp: bytes_ok_def)
qed simp


section \<open>The broadcast address\<close>

lemma mask_byte_bits:
  assumes "k \<le> 8" "b < 256"
  shows "and (mask_byte k b) (mask_byte k 255) = mask_byte k b" "or (mask_byte k b) (255 - mask_byte k 255) = mask_byte k b + (2 ^ (8 - k) - 1)"
    "mask_byte k b + (2 ^ (8 - k) - 1) < 256"
proof -
  define j where "j = 8 - k"
  have pow: "(2 :: nat) ^ k * 2 ^ j = 256" using assms(1) by (simp add: j_def flip: power_add)
  have m: "mask_byte k x = push_bit j (drop_bit j x)" for x :: nat
    by (simp add: mask_byte_def j_def push_bit_eq_mult drop_bit_eq_div minus_mod_eq_div_mult)
  have x: "drop_bit j b < 2 ^ k" using assms(2) pow by (simp add: drop_bit_eq_div div_less_iff_less_mult)
  have d: "drop_bit j (255 :: nat) = 2 ^ k - 1"
  proof -
    have "(255 :: nat) = (2 ^ k - 1) * 2 ^ j + (2 ^ j - 1)"
    proof -
      have "(2 :: nat) ^ k * 2 ^ j = (2 ^ k - 1) * 2 ^ j + 2 ^ j" by (simp add: diff_mult_distrib)
      then show ?thesis using pow by (simp add: le_add_diff_inverse)
    qed
    moreover have "((2 ^ k - 1) * 2 ^ j + (2 ^ j - 1)) div 2 ^ j = (2 :: nat) ^ k - 1" by (subst div_mult_self3) simp_all
    ultimately have "(255 :: nat) div 2 ^ j = 2 ^ k - 1" by simp
    then show ?thesis by (simp add: drop_bit_eq_div)
  qed
  have "and (drop_bit j b) (2 ^ k - 1) = drop_bit j b"
    using x by (metis take_bit_eq_mask mask_eq_exp_minus_1 take_bit_nat_eq_self)
  then show "and (mask_byte k b) (mask_byte k 255) = mask_byte k b" by (simp only: m d flip: push_bit_and)
  have low: "255 - mask_byte k 255 = (mask j :: nat)"
  proof -
    have "mask_byte k 255 = (2 ^ k - 1) * 2 ^ j" by (simp add: m d push_bit_eq_mult)
    also have "\<dots> = 256 - 2 ^ j" using pow by (simp add: diff_mult_distrib)
    finally have "mask_byte k 255 = 256 - 2 ^ j" .
    moreover have "(2 :: nat) ^ j \<le> 2 ^ k * 2 ^ j" "(0 :: nat) < 2 ^ j" by simp_all
    ultimately show ?thesis unfolding pow mask_eq_exp_minus_1 by linarith
  qed
  have "and (mask_byte k b) (mask j) = 0" unfolding m by (rule bit_eqI) (auto simp: bit_simps)
  then have "or (mask_byte k b) (mask j) = mask_byte k b + mask j" by (rule disjunctive_add_eq_or [symmetric])
  then show "or (mask_byte k b) (255 - mask_byte k 255) = mask_byte k b + (2 ^ (8 - k) - 1)" by (simp only: low mask_eq_exp_minus_1 j_def)
  have "mask_byte k b + 2 ^ j \<le> 256"
  proof -
    have "mask_byte k b + 2 ^ j = (drop_bit j b + 1) * 2 ^ j" by (simp add: m push_bit_eq_mult)
    also have "\<dots> \<le> 2 ^ k * 2 ^ j" using x by (intro mult_right_mono) simp_all
    finally show ?thesis by (simp add: pow)
  qed
  moreover have "(0 :: nat) < 2 ^ j" by simp
  ultimately show "mask_byte k b + (2 ^ (8 - k) - 1) < 256" unfolding j_def by linarith
qed

text \<open>Network number and broadcast address, byte by byte along a mask of \<open>ones\<close> leading ones.\<close>

definition bcast_of :: "ip \<Rightarrow> ip \<Rightarrow> ip" where
  "bcast_of m network = map (\<lambda>(x, y). or x (255 - y)) (zip network m)"

lemma mask_zip:
  assumes "bytes_ok a"
  shows "map (\<lambda>(x, y). and x y) (zip (mask_ip ones a) (mask_ip ones (replicate (length a) 255))) = mask_ip ones a"
  using assms
proof (induction a arbitrary: ones)
  case (Cons b bs)
  then show ?case using mask_byte_bits(1) [of "min ones 8" b] by (simp add: bytes_ok_def)
qed simp

lemma bcast_val:
  assumes "bytes_ok a" "ones \<le> 8 * length a"
  shows "bytes_ok (bcast_of (mask_ip ones (replicate (length a) 255)) (mask_ip ones a)) \<and>
    ip_val (bcast_of (mask_ip ones (replicate (length a) 255)) (mask_ip ones a)) + 1 = ip_val (mask_ip ones a) + 2 ^ (8 * length a - ones)"
  using assms
proof (induction a arbitrary: ones)
  case (Cons b bs)
  let ?k = "min ones 8" and ?L = "length bs"
  have b: "b < 256" "bytes_ok bs" using Cons.prems(1) by (simp_all add: bytes_ok_def)
  note B = mask_byte_bits [of ?k b, simplified min.cobounded2, OF _ b(1)]
  let ?rest = "bcast_of (mask_ip (ones - 8) (replicate ?L 255)) (mask_ip (ones - 8) bs)"
  have IH: "bytes_ok ?rest" "ip_val ?rest + 1 = ip_val (mask_ip (ones - 8) bs) + 2 ^ (8 * ?L - (ones - 8))"
    using Cons.IH [of "ones - 8"] b(2) Cons.prems(2) by simp_all
  have len: "length ?rest = ?L" by (simp add: bcast_of_def)
  have eq: "bcast_of (mask_ip ones (replicate (length (b # bs)) 255)) (mask_ip ones (b # bs)) = (mask_byte ?k b + (2 ^ (8 - ?k) - 1)) # ?rest"
    using mask_byte_bits(2) [of ?k b] b(1) by (simp add: bcast_of_def)
  have pow: "(2 ^ (8 - ?k) - 1) * 256 ^ ?L + 2 ^ (8 * ?L - (ones - 8)) = (2 :: nat) ^ (8 * length (b # bs) - ones)"
  proof (cases "ones \<le> 8")
    case True
    have p: "(256 :: nat) ^ ?L = 2 ^ (8 * ?L)" by (simp add: power_mult)
    have "(2 ^ (8 - ones) - 1) * (256 :: nat) ^ ?L + 256 ^ ?L = 2 ^ (8 - ones) * 256 ^ ?L" by (simp add: diff_mult_distrib)
    also have "\<dots> = 2 ^ (8 - ones + 8 * ?L)" by (simp only: p power_add)
    finally show ?thesis using True by (simp add: p add.commute)
  next
    case False
    then show ?thesis by simp
  qed
  have "ip_val (bcast_of (mask_ip ones (replicate (length (b # bs)) 255)) (mask_ip ones (b # bs))) + 1 =
      (mask_byte ?k b + (2 ^ (8 - ?k) - 1)) * 256 ^ ?L + (ip_val ?rest + 1)" unfolding eq by (simp add: len)
  also have "\<dots> = mask_byte ?k b * 256 ^ ?L + ip_val (mask_ip (ones - 8) bs) + ((2 ^ (8 - ?k) - 1) * 256 ^ ?L + 2 ^ (8 * ?L - (ones - 8)))"
    unfolding IH(2) add_mult_distrib by (simp only: ac_simps)
  also have "\<dots> = ip_val (mask_ip ones (b # bs)) + 2 ^ (8 * length (b # bs) - ones)" unfolding pow by simp
  finally show ?case using eq IH(1) mask_byte_bits(3) [of ?k b] b(1) by (simp add: bytes_ok_def)
qed (simp add: bcast_of_def bytes_ok_def)


section \<open>Members of a network\<close>

lemma ip_val_inject: "length a = length b \<Longrightarrow> bytes_ok a \<Longrightarrow> bytes_ok b \<Longrightarrow> ip_val a = ip_val b \<Longrightarrow> a = b"
proof (induction a b rule: list_induct2)
  case (Cons x xs y ys)
  have v: "ip_val xs < 256 ^ length xs" "ip_val ys < 256 ^ length xs"
    using Cons.prems Cons.hyps ip_val_less [of xs] ip_val_less [of ys] by (simp_all add: bytes_ok_def)
  have e: "x * 256 ^ length xs + ip_val xs = y * 256 ^ length xs + ip_val ys" using Cons.prems(3) Cons.hyps by simp
  have "x = (x * 256 ^ length xs + ip_val xs) div 256 ^ length xs" using v by simp
  also have "\<dots> = y" unfolding e using v by simp
  finally have "x = y" .
  with e Cons show ?case by (simp add: bytes_ok_def)
qed simp

lemma bytes_ok_mask: "bytes_ok a \<Longrightarrow> bytes_ok (mask_ip ones a)"
proof (induction a arbitrary: ones)
  case (Cons b bs)
  have "mask_byte k b \<le> b" for k by (simp add: mask_byte_def)
  with Cons show ?case by (auto simp: bytes_ok_def intro: le_less_trans)
qed (simp add: bytes_ok_def)

lemma mask_ip_zero: "bytes_ok a \<Longrightarrow> ip_val (mask_ip 0 a) = 0"
  by (induction a) (auto simp: bytes_ok_def mask_byte_def)

lemma mask_val:
  assumes "bytes_ok a" "ones \<le> 8 * length a"
  shows "ip_val (mask_ip ones a) = ip_val a div 2 ^ (8 * length a - ones) * 2 ^ (8 * length a - ones)"
  using assms
proof (induction a arbitrary: ones)
  case (Cons b bs)
  let ?L = "length bs"
  have b: "b < 256" "bytes_ok bs" using Cons.prems(1) by (simp_all add: bytes_ok_def)
  have v: "ip_val bs < 256 ^ ?L" by (rule ip_val_less [OF b(2)])
  have p: "(256 :: nat) ^ ?L = 2 ^ (8 * ?L)" by (simp add: power_mult)
  show ?case
  proof (cases "ones \<ge> 8")
    case True
    let ?h = "8 * ?L - (ones - 8)"
    have h: "8 * length (b # bs) - ones = ?h" using True by simp
    have d: "(2 :: nat) ^ ?h dvd 256 ^ ?L" unfolding p by (rule le_imp_power_dvd) simp
    have m8: "mask_byte 8 b = b" by (simp add: mask_byte_def)
    have "ip_val (mask_ip ones (b # bs)) = b * 256 ^ ?L + ip_val bs div 2 ^ ?h * 2 ^ ?h"
      using True Cons.IH [of "ones - 8"] b(2) Cons.prems(2) by (simp add: m8 min_def)
    also have "\<dots> = (b * 256 ^ ?L + ip_val bs) div 2 ^ ?h * 2 ^ ?h"
    proof -
      have "(b * 256 ^ ?L + ip_val bs) div 2 ^ ?h = b * 256 ^ ?L div 2 ^ ?h + ip_val bs div 2 ^ ?h" using d by (simp add: div_plus_div_distrib_dvd_left)
      moreover have "b * 256 ^ ?L div 2 ^ ?h * 2 ^ ?h = b * 256 ^ ?L" using d by (simp add: dvd_div_mult_self)
      ultimately show ?thesis by (simp add: add_mult_distrib)
    qed
    finally show ?thesis by (simp only: h ip_val.simps)
  next
    case False
    let ?h = "8 - ones"
    have h: "2 ^ (8 * length (b # bs) - ones) = (2 :: nat) ^ ?h * 256 ^ ?L" using False by (simp add: p flip: power_add)
    have "ip_val (mask_ip ones (b # bs)) = mask_byte ones b * 256 ^ ?L" using False by (simp add: mask_ip_zero [OF b(2)] min_def)
    also have "mask_byte ones b = b div 2 ^ ?h * 2 ^ ?h" by (simp add: mask_byte_def minus_mod_eq_div_mult)
    also have "b div 2 ^ ?h * 2 ^ ?h * 256 ^ ?L = b div 2 ^ ?h * (2 ^ ?h * 256 ^ ?L)" by (simp only: mult.assoc)
    also have "b div 2 ^ ?h = (b * 256 ^ ?L + ip_val bs) div (2 ^ ?h * 256 ^ ?L)"
    proof -
      have "(b * 256 ^ ?L + ip_val bs) div (2 ^ ?h * 256 ^ ?L) = (b * 256 ^ ?L + ip_val bs) div 256 ^ ?L div 2 ^ ?h"
        by (simp only: mult.commute [of "2 ^ ?h"] div_mult2_eq)
      then show ?thesis using v by simp
    qed
    finally show ?thesis by (simp only: h ip_val.simps)
  qed
qed simp

lemma between_is_member:
  assumes "bytes_ok a" "bytes_ok x" "length x = length a" "ones \<le> 8 * length a" "mask_ip ones a = a"
    and "ip_val a \<le> ip_val x" "ip_val x < ip_val a + 2 ^ (8 * length a - ones)"
  shows "mask_ip ones x = a"
proof -
  let ?p = "2 ^ (8 * length a - ones) :: nat"
  have a: "ip_val a = ip_val a div ?p * ?p" using mask_val [OF assms(1,4)] assms(5) by simp
  have "ip_val x div ?p = ip_val a div ?p"
    using assms(6,7) a by (metis add.commute div_nat_eqI mult.commute mult_Suc_right)
  then have "ip_val (mask_ip ones x) = ip_val a" using mask_val [OF assms(2), of ones] assms(3,4) a by simp
  then show ?thesis using assms(1-3) by (intro ip_val_inject) (simp_all add: bytes_ok_mask)
qed


section \<open>The range\<close>

lemma ParseCIDR_v4:
  assumes "ParseCIDR s = Some n" "n_MaskLen n = 4"
  shows "length (n_IP n) = 4" "bytes_ok (n_IP n)" "mask_ip (n_Ones n) (n_IP n) = n_IP n" "n_Ones n \<le> 32"
proof -
  obtain addr bits a b where c: "Cut s ''/'' = Some (addr, bits)" "ParseAddr addr = Some a" "parse_nat bits = Some b" "b \<le> 8 * int (length a)"
    and n: "n = \<lparr>n_IP = mask_ip (nat b) a, n_Ones = nat b, n_MaskLen = length a\<rparr>"
    using assms(1) by (auto simp: ParseCIDR_def split: option.splits if_splits)
  have len: "length a = 4" using assms(2) by (simp add: n)
  show "length (n_IP n) = 4" "n_Ones n \<le> 32" using len c(4) by (simp_all add: n)
  show "bytes_ok (n_IP n)" using ParseAddr4 [OF c(2) len, folded bytes_ok_def] by (simp add: n bytes_ok_mask)
  show "mask_ip (n_Ones n) (n_IP n) = n_IP n" by (simp add: n mask_ip_mask_ip)
qed

lemma poolRange_v4:
  assumes "ParseCIDR (TrimSpace pool) = Some n" "n_MaskLen n = 4" "n_Ones n \<le> 30"
  obtains a b where "poolRange pool localIP = (show_ipv4 a, show_ipv4 b)" "length a = 4" "length b = 4" "bytes_ok a" "bytes_ok b"
    "ip_val a = ip_val (n_IP n) + 2" "ip_val b + 2 = ip_val (n_IP n) + 2 ^ (32 - n_Ones n)" "ip_val a \<le> ip_val b"
proof -
  note C = ParseCIDR_v4 [OF assms(1,2)]
  let ?net = "n_IP n" and ?m = "mask_ip (n_Ones n) (replicate 4 255)" and ?p = "2 ^ (32 - n_Ones n) :: nat"
  have t4: "To4 x = Some x" if "length x = 4" for x using that by (simp add: To4_def)
  have network: "IP_Mask ?m ?net = ?net" using mask_zip [OF C(2), of "n_Ones n"] C(1,3) by (simp add: IP_Mask_def)
  have bcast: "map (\<lambda>i. or (?net ! i) (255 - ?m ! i)) [0..<4] = bcast_of ?m ?net" by (rule nth_equalityI) (simp_all add: bcast_of_def C(1))
  have B: "bytes_ok (bcast_of ?m ?net)" "ip_val (bcast_of ?m ?net) + 1 = ip_val ?net + ?p"
    using bcast_val [OF C(2), of "n_Ones n"] C by simp_all
  have bl: "length (bcast_of ?m ?net) = 4" by (simp add: bcast_of_def C(1))
  have "(2 :: nat) ^ 2 \<le> ?p" using assms(3) by (intro power_increasing) simp_all
  then have p4: "4 \<le> ?p" by simp
  have bmax: "ip_val (bcast_of ?m ?net) < 256 ^ 4" using ip_val_less [OF B(1)] bl by simp
  have one: "ip_val ?net + 1 < 256 ^ length ?net" using B(2) bmax p4 C(1) by simp
  note I1 = ip_inc_val [OF C(2) one]
  have two: "ip_val (ip_inc ?net) + 1 < 256 ^ length (ip_inc ?net)" using B(2) bmax p4 C(1) I1 by simp
  have I2: "bytes_ok (ip_inc (ip_inc ?net))" "length (ip_inc (ip_inc ?net)) = 4" "ip_val (ip_inc (ip_inc ?net)) = ip_val ?net + 2"
    using ip_inc_val [OF _ two] I1 C(1) by simp_all
  have D: "bytes_ok (ip_dec (bcast_of ?m ?net))" "length (ip_dec (bcast_of ?m ?net)) = 4" "ip_val (ip_dec (bcast_of ?m ?net)) + 2 = ip_val ?net + ?p"
    using ip_dec_val [OF B(1)] B(2) p4 bl by simp_all
  have le: "ip_val (ip_inc (ip_inc ?net)) \<le> ip_val (ip_dec (bcast_of ?m ?net))" using I2(3) D(3) p4 by simp
  have cmp: "\<not> bytesCompare (ip_inc (ip_inc ?net)) (ip_dec (bcast_of ?m ?net)) > 0"
    using bytesCompare_val [of "ip_inc (ip_inc ?net)" "ip_dec (bcast_of ?m ?net)"] I2 D le by simp
  have "poolRange pool localIP = (show_ipv4 (ip_inc (ip_inc ?net)), show_ipv4 (ip_dec (bcast_of ?m ?net)))"
    using cmp unfolding poolRange_def assms(1) option.case t4 [OF C(1)] assms(2) network Let_def bcast by (simp add: IP_String_def t4 I2 D)
  then show thesis by (rule that [OF _ I2(2) D(2) I2(1) D(1) I2(3) D(3) le])
qed

text \<open>
  C36: For an IPv4 pool of at least four addresses (a prefix of at most 30 bits) and a local address of the
  server that is the first host of the pool, or outside the pool: the range given to xl2tpd runs from the
  third address of the network to the one before the broadcast address, and is not empty. Every address in
  it is an address of the pool, and none is the network number, the broadcast address or the server's own
  address; the 32-bit carries of the byte-wise increments are right.
\<close>

theorem pool_range_bounds:
  assumes "ParseCIDR (TrimSpace pool) = Some n" "n_MaskLen n = 4" "n_Ones n \<le> 30"
    and "length own = 4" "bytes_ok own" "ip_val own = ip_val (n_IP n) + 1 \<or> own \<notin> net_members n"
  shows "\<exists>a b. poolRange pool (show_ipv4 own) = (show_ipv4 a, show_ipv4 b) \<and> length a = 4 \<and> length b = 4 \<and> ip_val a \<le> ip_val b \<and>
    ip_val a = ip_val (n_IP n) + 2 \<and> ip_val b + 2 = ip_val (n_IP n) + 2 ^ (32 - n_Ones n) \<and>
    (\<forall>x. length x = 4 \<and> bytes_ok x \<and> ip_val a \<le> ip_val x \<and> ip_val x \<le> ip_val b \<longrightarrow>
       x \<in> net_members n \<and> x \<noteq> own \<and> x \<noteq> n_IP n \<and> ip_val x + 1 \<noteq> ip_val (n_IP n) + 2 ^ (32 - n_Ones n))"
proof -
  note C = ParseCIDR_v4 [OF assms(1,2)]
  obtain a b where R: "poolRange pool (show_ipv4 own) = (show_ipv4 a, show_ipv4 b)" "length a = 4" "length b = 4"
    "ip_val a = ip_val (n_IP n) + 2" "ip_val b + 2 = ip_val (n_IP n) + 2 ^ (32 - n_Ones n)" "ip_val a \<le> ip_val b"
    by (rule poolRange_v4 [OF assms(1-3), of "show_ipv4 own"])
  have "x \<in> net_members n \<and> x \<noteq> own \<and> x \<noteq> n_IP n \<and> ip_val x + 1 \<noteq> ip_val (n_IP n) + 2 ^ (32 - n_Ones n)"
    if "length x = 4" "bytes_ok x" "ip_val a \<le> ip_val x" "ip_val x \<le> ip_val b" for x
  proof -
    have "mask_ip (n_Ones n) x = n_IP n"
      by (rule between_is_member [OF C(2) that(2)]) (use that R C in auto)
    then have "x \<in> net_members n" using that C by (simp add: net_members_def)
    then show ?thesis using that R(4,5) assms(6) by auto
  qed
  with R show ?thesis by blast
qed

lemma demo_pool: "ParseCIDR (TrimSpace ''10.31.0.0/24'') = Some \<lparr>n_IP = [10, 31, 0, 0], n_Ones = 24, n_MaskLen = 4\<rparr>"
proof -
  have "graphic (CHR ''1'')" "graphic (CHR ''4'')" by (simp_all add: graphic_def)
  then have "TrimSpace ''10.31.0.0/24'' = ''10.31.0.0/24''" by (simp add: TrimSpace_graphic)
  moreover have "ParseCIDR ''10.31.0.0/24'' = Some \<lparr>n_IP = [10, 31, 0, 0], n_Ones = 24, n_MaskLen = 4\<rparr>" by code_simp
  ultimately show ?thesis by simp
qed

theorem pool_range_bounds_witness:
  "\<exists>a b. poolRange ''10.31.0.0/24'' (show_ipv4 [10, 31, 0, 1]) = (show_ipv4 a, show_ipv4 b) \<and> ip_val a = ip_val [10, 31, 0, 2] \<and>
     ip_val b = ip_val [10, 31, 0, 254]"
proof -
  have own: "length [10, 31, 0, 1] = 4" "bytes_ok [10, 31, 0, 1]"
    "ip_val [10, 31, 0, 1] = ip_val (n_IP \<lparr>n_IP = [10, 31, 0, 0], n_Ones = 24, n_MaskLen = 4\<rparr>) + 1 \<or>
     [10, 31, 0, 1] \<notin> net_members \<lparr>n_IP = [10, 31, 0, 0], n_Ones = 24, n_MaskLen = 4\<rparr>" by (simp_all add: bytes_ok_def)
  obtain a b where R: "poolRange ''10.31.0.0/24'' (show_ipv4 [10, 31, 0, 1]) = (show_ipv4 a, show_ipv4 b)" "ip_val a = ip_val [10, 31, 0, 0] + 2"
    "ip_val b + 2 = ip_val [10, 31, 0, 0] + 2 ^ (32 - 24)"
    using pool_range_bounds [OF demo_pool _ _ own] by auto
  then show ?thesis by (intro exI [of _ a] exI [of _ b]) simp
qed

text \<open>
  The address of the server is left out only when it is the first host. A configured one anywhere else in
  the pool is in the range and is handed out to a client. The default is not the first host of the pool
  either, but the address that ends in 1: for a pool that starts elsewhere it lies outside.
\<close>

lemma local_ip_not_excluded:
  assumes "ParseCIDR (TrimSpace pool) = Some n" "n_MaskLen n = 4" "n_Ones n \<le> 30"
  shows "poolRange pool localIP = poolRange pool other"
proof -
  obtain a b where "poolRange pool localIP = (show_ipv4 a, show_ipv4 b)" "length a = 4" "length b = 4" "bytes_ok a" "bytes_ok b"
    "ip_val a = ip_val (n_IP n) + 2" "ip_val b + 2 = ip_val (n_IP n) + 2 ^ (32 - n_Ones n)" "ip_val a \<le> ip_val b"
    by (rule poolRange_v4 [OF assms])
  moreover obtain a' b' where "poolRange pool other = (show_ipv4 a', show_ipv4 b')" "length a' = 4" "length b' = 4" "bytes_ok a'" "bytes_ok b'"
    "ip_val a' = ip_val (n_IP n) + 2" "ip_val b' + 2 = ip_val (n_IP n) + 2 ^ (32 - n_Ones n)" "ip_val a' \<le> ip_val b'"
    by (rule poolRange_v4 [OF assms])
  moreover from calculation have "a = a'" "b = b'" by (auto intro: ip_val_inject)
  ultimately show ?thesis by simp
qed

lemma first_host_outside_pool: "firstHost ''10.0.0.128/25'' = ''10.0.0.1''"
proof -
  have "graphic (CHR ''1'')" "graphic (CHR ''5'')" by (simp_all add: graphic_def)
  then have "TrimSpace ''10.0.0.128/25'' = ''10.0.0.128/25''" by (simp add: TrimSpace_graphic)
  moreover have "Split ''10.0.0.128'' ''.'' = [''10'', ''0'', ''0'', ''128'']" by code_simp
  ultimately show ?thesis by (simp add: firstHost_def Let_def)
qed

end
