(* ===== verification/Host_Tools.thy ===== *)
theory Host_Tools
  imports Go_Text
begin

text \<open>
  The host as the routing code sees it: commands it runs, files under \<^verbatim>\<open>/proc\<close>, environment
  variables and network interfaces. The state \<open>'s\<close> is all a command can change; the programs
  \<^verbatim>\<open>nft\<close>, \<^verbatim>\<open>ip\<close> and \<^verbatim>\<open>iptables\<close> are the function \<open>hx_exec\<close>.
\<close>

record base_chain =
  family :: string
  table :: string
  bc_name :: string

record nft_chain =
  lc_Family :: string
  lc_Table :: string
  lc_Name :: string
  lc_Hook :: string

record net_iface =
  ni_Name :: string
  ni_Up :: bool
  ni_Loopback :: bool
  ni_MTU :: int64

text \<open>
  \<open>hx_exec\<close> gives the host afterwards, the combined output and the error of one command; \<open>hx_items\<close>
  decodes the ruleset \<^verbatim>\<open>nft -j\<close> prints into the raw text under the key \<^verbatim>\<open>chain\<close> of
  every item that has one, \<open>hx_chain\<close> decodes such a text.
\<close>

record 's host_env =
  hx_exec :: "string \<Rightarrow> string list \<Rightarrow> 's \<Rightarrow> 's \<times> string \<times> err"
  hx_items :: "string \<Rightarrow> string + string option list"
  hx_chain :: "string \<Rightarrow> string + nft_chain"
  hx_read :: "string \<Rightarrow> 's \<Rightarrow> string + string"
  hx_write :: "string \<Rightarrow> string \<Rightarrow> 's \<Rightarrow> 's \<times> err"
  hx_getenv :: "string \<Rightarrow> string"
  hx_ifaces :: "'s \<Rightarrow> string + net_iface list"

text \<open>The wrappers \<^verbatim>\<open>runNFT\<close>, \<^verbatim>\<open>runIP\<close>, \<^verbatim>\<open>runIptables\<close> and \<^verbatim>\<open>runCmd\<close> differ in the program they name.\<close>

definition runCmd :: "'s host_env \<Rightarrow> string \<Rightarrow> string list \<Rightarrow> 's \<Rightarrow> 's \<times> err" where
  "runCmd E name args s =
     (case hx_exec E name args s of
        (s', out, Some e) \<Rightarrow> (s', Some (name @ '' '' @ Join args '' '' @ '': '' @ e @ '': '' @ TrimSpace out))
      | (s', out, None) \<Rightarrow> (s', None))"

definition runNFT :: "'s host_env \<Rightarrow> string list \<Rightarrow> 's \<Rightarrow> 's \<times> err" where
  "runNFT E = runCmd E ''nft''"

definition runIptables :: "'s host_env \<Rightarrow> string list \<Rightarrow> 's \<Rightarrow> 's \<times> err" where
  "runIptables E = runCmd E ''iptables''"

definition runIP :: "'s host_env \<Rightarrow> string list \<Rightarrow> 's \<Rightarrow> 's \<times> err" where
  "runIP E = runCmd E ''ip''"

definition ipv4ForwardPath :: string where
  "ipv4ForwardPath = ''/proc/sys/net/ipv4/ip_forward''"

definition ensureIPv4Forwarding :: "'s host_env \<Rightarrow> 's \<Rightarrow> 's \<times> err" where
  "ensureIPv4Forwarding E s =
     (case hx_read E ipv4ForwardPath s of
        Inl e \<Rightarrow> (s, Some (''read '' @ ipv4ForwardPath @ '': '' @ e))
      | Inr out \<Rightarrow>
         (if TrimSpace out = ''1'' then (s, None)
          else (case hx_write E ipv4ForwardPath (''1'' @ nl) s of
                  (s', Some e) \<Rightarrow> (s', Some (''write '' @ ipv4ForwardPath @ '': '' @ e))
                | (s', None) \<Rightarrow> (s', None))))"

text \<open>One command after another, unless the first fails.\<close>

definition and_then :: "('s \<Rightarrow> 's \<times> err) \<Rightarrow> ('s \<Rightarrow> 's \<times> err) \<Rightarrow> 's \<Rightarrow> 's \<times> err" where
  "and_then f g s = (case f s of (s', Some e) \<Rightarrow> (s', Some e) | (s', None) \<Rightarrow> g s')"

lemma runCmd_cases:
  assumes "runCmd E name args s = (s', e)"
  obtains out e' where "hx_exec E name args s = (s', out, e')" "e = None \<longleftrightarrow> e' = None"
  using assms by (auto simp: runCmd_def split: prod.splits option.splits)

end
