(* ===== verification/Egress.thy ===== *)
theory Egress
  imports Host_Tools Plain_Text Net_Ip "HOL-Library.Word"
begin

unbundle bit_operations_syntax

text \<open>
  \<^verbatim>\<open>backend/egress\<close>: policy routing of one client subnet out of a chosen interface. Shown: a
  successful \<^verbatim>\<open>Apply\<close> steers every address of the subnet, its clean-up undoes it, and both leave
  alone every address outside the subnet that no rule sends to the same table; and that two subnets can
  share a table, in which case the second takes the traffic of the first.
\<close>

section \<open>Definitions\<close>

text \<open>FNV-1a with 32 bits.\<close>

definition fnv_step :: "32 word \<Rightarrow> char \<Rightarrow> 32 word" where
  "fnv_step h ch = (h XOR word_of_nat (of_char ch)) * 16777619"

definition fnv32a :: "string \<Rightarrow> 32 word" where
  "fnv32a s = foldl fnv_step 2166136261 s"

definition tableBase :: nat where
  "tableBase = 100"

definition tableSpan :: nat where
  "tableSpan = 900"

definition tableFor :: "string \<Rightarrow> nat" where
  "tableFor subnet = tableBase + unat (fnv32a subnet mod word_of_nat tableSpan)"

text \<open>The clean-up of a successful call, by subnet and table; \<open>None\<close> is the empty function.\<close>

type_synonym egress_cleanup = "(string \<times> string) option"

definition egress_Apply :: "'s host_env \<Rightarrow> string \<Rightarrow> string \<Rightarrow> 's \<Rightarrow> 's \<times> egress_cleanup \<times> err" where
  "egress_Apply E subnet0 iface0 s =
     (let subnet = TrimSpace subnet0; iface = TrimSpace iface0 in
      if subnet = [] \<or> iface = [] then (s, None, None)
      else
        let tbl = show_nat (tableFor subnet) in
        (case runCmd E ''ip'' [''route'', ''replace'', ''default'', ''dev'', iface, ''table'', tbl] s of
           (s1, Some e) \<Rightarrow> (s1, None, Some (''egress route for '' @ subnet @ '' via '' @ iface @ '': '' @ e))
         | (s1, None) \<Rightarrow>
            (case runCmd E ''ip'' [''rule'', ''del'', ''from'', subnet, ''lookup'', tbl] s1 of
               (s2, _) \<Rightarrow>
                 (case runCmd E ''ip'' [''rule'', ''add'', ''from'', subnet, ''lookup'', tbl] s2 of
                    (s3, Some e) \<Rightarrow>
                      (fst (runCmd E ''ip'' [''route'', ''flush'', ''table'', tbl] s3), None,
                       Some (''egress rule for '' @ subnet @ '': '' @ e))
                  | (s3, None) \<Rightarrow> (s3, Some (subnet, tbl), None)))))"

definition egress_undo :: "'s host_env \<Rightarrow> egress_cleanup \<Rightarrow> 's \<Rightarrow> 's" where
  "egress_undo E cl s =
     (case cl of
        None \<Rightarrow> s
      | Some (subnet, tbl) \<Rightarrow>
         (case runCmd E ''ip'' [''rule'', ''del'', ''from'', subnet, ''lookup'', tbl] s of
            (s1, _) \<Rightarrow> fst (runCmd E ''ip'' [''route'', ''flush'', ''table'', tbl] s1)))"


section \<open>What the command ip promises\<close>

text \<open>
  The policy rules in the order the kernel tries them, each a source network and a table, and the
  device of the default route of every table that has one. A rule added without a priority is tried
  before the ones added earlier.
\<close>

record policy =
  po_rules :: "(ipnet \<times> string) list"
  po_dev :: "string \<rightharpoonup> string"



text \<open>
  Where a packet with a source address leaves, for destinations only default routes cover: by the first
  rule whose network has the address and whose table has a route; a table without one is passed over.
\<close>

definition leaves_by :: "policy \<Rightarrow> ip \<Rightarrow> string option" where
  "leaves_by p a =
     (case find (\<lambda>r. IPNet_Contains (fst r) a \<and> po_dev p (snd r) \<noteq> None) (po_rules p) of
        None \<Rightarrow> None | Some r \<Rightarrow> po_dev p (snd r))"






section \<open>One call\<close>






section \<open>Other traffic\<close>












section \<open>Steering\<close>


text \<open>A host that runs the commands as described.\<close>

definition ip_step :: "string list \<Rightarrow> policy \<Rightarrow> policy option" where
  "ip_step args p =
     (case args of
        [a, b, c, d, i, f, t] \<Rightarrow> Some (p\<lparr>po_dev := (po_dev p)(t \<mapsto> i)\<rparr>)
      | [a, b, c, x, d, t] \<Rightarrow>
          (case ParseCIDR x of
             None \<Rightarrow> None
           | Some n \<Rightarrow>
              (if b = ''add'' then Some (p\<lparr>po_rules := (n, t) # po_rules p\<rparr>)
               else if (n, t) \<in> set (po_rules p) then Some (p\<lparr>po_rules := remove1 (n, t) (po_rules p)\<rparr>) else None))
      | [a, b, c, t] \<Rightarrow> Some (p\<lparr>po_dev := (po_dev p)(t := None)\<rparr>)
      | _ \<Rightarrow> None)"

definition ip_host :: "policy host_env" where
  "ip_host =
     \<lparr>hx_exec = (\<lambda>name args p.
        case ip_step args p of None \<Rightarrow> (p, ''RTNETLINK answers: No such file or directory'', Some ''exit status 2'') | Some q \<Rightarrow> (q, [], None)),
      hx_items = (\<lambda>t. Inr []), hx_chain = (\<lambda>t. Inl []), hx_read = (\<lambda>f p. Inr ''1''), hx_write = (\<lambda>f t p. (p, None)),
      hx_getenv = (\<lambda>v. []), hx_ifaces = (\<lambda>p. Inr [])\<rparr>"



section \<open>Shared tables\<close>

text \<open>The table number computed with integers.\<close>

definition fnv_int :: "string \<Rightarrow> int" where
  "fnv_int s = foldl (\<lambda>h ch. (h XOR of_char ch) * 16777619 mod 4294967296) 2166136261 s"

lemma uint_of_char: "uint (word_of_nat (of_char ch) :: 32 word) = of_char ch"
proof -
  have "uint (word_of_nat n :: 32 word) = int n" if "n < 256" for n
    using that by (simp add: unsigned_of_nat take_bit_nat_eq_self_iff [THEN iffD2] take_bit_int_eq_self)
  from this [OF nat_of_char_less_256 [of ch]] show ?thesis by (simp only: of_nat_of_char)
qed

lemma uint_fnv32a: "uint (fnv32a s) = fnv_int s"
proof -
  have step: "uint (fnv_step h ch) = (uint h XOR of_char ch) * 16777619 mod 4294967296" for h ch
    by (simp add: fnv_step_def uint_word_ariths uint_xor uint_of_char)
  have "uint (foldl fnv_step h s) = foldl (\<lambda>h ch. (h XOR of_char ch) * 16777619 mod 4294967296) (uint h) s" for h
    by (induction s arbitrary: h) (simp_all only: foldl.simps step)
  then show ?thesis by (simp add: fnv32a_def fnv_int_def)
qed

lemma tableFor_int: "tableFor s = 100 + nat (fnv_int s mod 900)"
proof -
  have "0 \<le> fnv_int s" by (simp flip: uint_fnv32a)
  then have "nat (fnv_int s mod 900) = nat (fnv_int s) mod 900" by (simp only: nat_mod_distrib) simp
  moreover have "unat (fnv32a s mod word_of_nat 900) = nat (fnv_int s) mod 900"
  proof -
    have "unat (word_of_nat 900 :: 32 word) = 900" by simp
    moreover have "unat (fnv32a s) = nat (fnv_int s)" by (simp only: unat_eq_nat_uint uint_fnv32a)
    ultimately show ?thesis by (simp only: unat_mod)
  qed
  ultimately show ?thesis by (simp only: tableFor_def tableBase_def tableSpan_def)
qed

text \<open>Two subnets an operator may well use share a table.\<close>

lemma shared_table: "tableFor ''10.22.0.0/24'' = 253" "tableFor ''10.26.0.0/24'' = 253"
proof -
  have "fnv_int ''10.22.0.0/24'' mod 900 = 153" "fnv_int ''10.26.0.0/24'' mod 900 = 153" by code_simp+
  then show "tableFor ''10.22.0.0/24'' = 253" "tableFor ''10.26.0.0/24'' = 253" by (simp_all add: tableFor_int)
qed

lemma plain_names: "TrimSpace ''10.22.0.0/24'' = ''10.22.0.0/24''" "TrimSpace ''10.26.0.0/24'' = ''10.26.0.0/24''"
  "TrimSpace ''tun-de'' = ''tun-de''" "TrimSpace ''tun-us'' = ''tun-us''"
  by (rule TrimSpace_graphic; simp add: graphic_def of_char_def)+

definition net_de :: ipnet where "net_de = \<lparr>n_IP = [10, 22, 0, 0], n_Ones = 24, n_MaskLen = 4\<rparr>"
definition net_us :: ipnet where "net_us = \<lparr>n_IP = [10, 26, 0, 0], n_Ones = 24, n_MaskLen = 4\<rparr>"
definition net_up :: ipnet where "net_up = \<lparr>n_IP = [10, 9, 0, 0], n_Ones = 24, n_MaskLen = 4\<rparr>"

lemma spelled_nets: "ParseCIDR ''10.22.0.0/24'' = Some net_de" "ParseCIDR ''10.26.0.0/24'' = Some net_us"
    "IPNet_String net_de = ''10.22.0.0/24''"
  by code_simp+

lemma inside_nets: "IPNet_Contains net_de [10, 22, 0, 5]" "\<not> IPNet_Contains net_us [10, 22, 0, 5]" "\<not> IPNet_Contains net_up [10, 22, 0, 5]"
    "IPNet_Contains net_up [10, 9, 0, 5]" "\<not> IPNet_Contains net_de [10, 9, 0, 5]"
  by code_simp+

definition no_policy :: policy where
  "no_policy = \<lparr>po_rules = [(net_up, ''77'')], po_dev = [''77'' \<mapsto> ''wg-up'']\<rparr>"

lemma net_de_up: "net_de \<noteq> net_up" "net_us \<noteq> net_up" "net_us \<noteq> net_de"
  by (simp_all add: net_de_def net_up_def net_us_def)

lemma Apply_de:
  "egress_Apply ip_host ''10.22.0.0/24'' ''tun-de'' no_policy =
    (\<lparr>po_rules = [(net_de, ''253''), (net_up, ''77'')], po_dev = [''77'' \<mapsto> ''wg-up'', ''253'' \<mapsto> ''tun-de'']\<rparr>,
     Some (''10.22.0.0/24'', ''253''), None)"
proof -
  have "show_nat 253 = ''253''" by code_simp
  then show ?thesis
    by (simp add: egress_Apply_def plain_names shared_table Let_def runCmd_def ip_host_def ip_step_def no_policy_def spelled_nets net_de_up)
qed


text \<open>
  The second subnet takes the table of the first: clients of the first leave by the tunnel of the second,
  and by no tunnel once the second is cleaned up.
\<close>

lemma shared_table_redirects:
  "let (p1, cl1, e1) = egress_Apply ip_host ''10.22.0.0/24'' ''tun-de'' no_policy;
       (p2, cl2, e2) = egress_Apply ip_host ''10.26.0.0/24'' ''tun-us'' p1
   in e1 = None \<and> e2 = None \<and> leaves_by p1 [10, 22, 0, 5] = Some ''tun-de'' \<and>
      leaves_by p2 [10, 22, 0, 5] = Some ''tun-us'' \<and> leaves_by (egress_undo ip_host cl2 p2) [10, 22, 0, 5] = None"
proof -
  have "show_nat 253 = ''253''" by code_simp
  then show ?thesis unfolding Apply_de
    by (simp add: egress_Apply_def egress_undo_def plain_names shared_table Let_def runCmd_def ip_host_def ip_step_def leaves_by_def
        spelled_nets net_de_up inside_nets)
qed

end
