(* ===== verification/Host_Firewall.thy ===== *)
theory Host_Firewall
  imports Host_Tools
begin

text \<open>
  \<^verbatim>\<open>backend/hostroute\<close>: the rules a tunnel backend needs in the host's firewall. The accept rules
  of \<^verbatim>\<open>forward_linux.go\<close> and the clamping of the TCP segment size of \<^verbatim>\<open>mss_linux.go\<close>.
  Every rule carries its owner in a comment, by which it is found again.
\<close>

section \<open>Accept rules\<close>

definition commentPrefix :: string where
  "commentPrefix = ''pg_node_fwd ''"

definition direction :: "bool \<Rightarrow> string" where
  "direction outbound = (if outbound then ''outbound'' else ''return'')"

definition ruleComment :: "string \<Rightarrow> string \<Rightarrow> bool \<Rightarrow> string" where
  "ruleComment ownerID subnet outbound =
     commentPrefix @ ''owner='' @ ownerID @ '' type=forward subnet='' @ subnet @ '' direction='' @ direction outbound"

definition ownerComment :: "string \<Rightarrow> string" where
  "ownerComment ownerID = commentPrefix @ ''owner='' @ ownerID @ '' ''"

definition chain_args :: "base_chain \<Rightarrow> string list" where
  "chain_args chain = [family chain, table chain, bc_name chain]"

definition insertAcceptRule :: "'s host_env \<Rightarrow> base_chain \<Rightarrow> string \<Rightarrow> string \<Rightarrow> bool \<Rightarrow> 's \<Rightarrow> 's \<times> err" where
  "insertAcceptRule E chain subnet ownerID outbound =
     runNFT E ([''insert'', ''rule''] @ chain_args chain @
       (if outbound then [''ip'', ''saddr'', subnet, ''accept'']
        else [''ip'', ''daddr'', subnet, ''ct'', ''state'', ''established,related'', ''accept'']) @
       [''comment'', go_quote (ruleComment ownerID subnet outbound)])"

fun forward_chains :: "'s host_env \<Rightarrow> string option list \<Rightarrow> string + base_chain list" where
  "forward_chains E [] = Inr []"
| "forward_chains E (None # items) = forward_chains E items"
| "forward_chains E (Some raw # items) =
     (case hx_chain E raw of
        Inl e \<Rightarrow> Inl (''parse nft chain: '' @ e)
      | Inr c \<Rightarrow>
         (if lc_Hook c \<noteq> ''forward'' \<or> (lc_Family c \<noteq> ''ip'' \<and> lc_Family c \<noteq> ''inet'') then forward_chains E items
          else map_sum (\<lambda>e. e) (\<lambda>cs. \<lparr>family = lc_Family c, table = lc_Table c, bc_name = lc_Name c\<rparr> # cs) (forward_chains E items)))"

definition parseForwardBaseChains :: "'s host_env \<Rightarrow> string \<Rightarrow> string + base_chain list" where
  "parseForwardBaseChains E data =
     (case hx_items E data of
        Inl e \<Rightarrow> Inl (''parse nft ruleset: '' @ e)
      | Inr items \<Rightarrow> forward_chains E items)"

definition forwardBaseChains :: "'s host_env \<Rightarrow> 's \<Rightarrow> 's \<times> (string + base_chain list)" where
  "forwardBaseChains E s =
     (case hx_exec E ''nft'' [''-j'', ''list'', ''ruleset''] s of
        (s', out, Some e) \<Rightarrow> (s', Inl (''nft -j list ruleset: '' @ e @ '': '' @ TrimSpace out))
      | (s', out, None) \<Rightarrow> (s', parseForwardBaseChains E out))"

definition line_handle :: "string \<Rightarrow> string \<Rightarrow> string list" where
  "line_handle prfx line =
     (if \<not> Contains line prfx then []
      else (case Cut line ''# handle '' of
              None \<Rightarrow> []
            | Some (before, handle) \<Rightarrow>
               (if TrimSpace before = [] then []
                else (case Fields handle of [] \<Rightarrow> [] | f # fs \<Rightarrow> [f]))))"

definition ruleHandlesWithComment :: "string \<Rightarrow> string \<Rightarrow> string list" where
  "ruleHandlesWithComment data prfx = concat (map (line_handle prfx) (Split data nl))"

fun delete_handles :: "'s host_env \<Rightarrow> base_chain \<Rightarrow> string list \<Rightarrow> 's \<Rightarrow> 's \<times> err" where
  "delete_handles E chain [] s = (s, None)"
| "delete_handles E chain (handle # hs) s =
     and_then (runNFT E ([''delete'', ''rule''] @ chain_args chain @ [''handle'', handle])) (delete_handles E chain hs) s"

definition removeRulesWithComment :: "'s host_env \<Rightarrow> base_chain \<Rightarrow> string \<Rightarrow> 's \<Rightarrow> 's \<times> err" where
  "removeRulesWithComment E chain prfx s =
     (case hx_exec E ''nft'' ([''-a'', ''list'', ''chain''] @ chain_args chain) s of
        (s', out, Some e) \<Rightarrow>
          (s', Some (''nft -a list chain '' @ Join (chain_args chain) '' '' @ '': '' @ e @ '': '' @ TrimSpace out))
      | (s', out, None) \<Rightarrow> delete_handles E chain (ruleHandlesWithComment out prfx) s')"

definition installed_line :: "base_chain \<Rightarrow> bool \<Rightarrow> string" where
  "installed_line chain outbound = Join (chain_args chain) ''/'' @ '' '' @ direction outbound"

definition accept_in_chain :: "'s host_env \<Rightarrow> string \<Rightarrow> string \<Rightarrow> base_chain \<Rightarrow> 's \<Rightarrow> 's \<times> err" where
  "accept_in_chain E subnet ownerID chain =
     and_then (removeRulesWithComment E chain (ownerComment ownerID))
       (and_then (insertAcceptRule E chain subnet ownerID False) (insertAcceptRule E chain subnet ownerID True))"

fun each_chain :: "(base_chain \<Rightarrow> 's \<Rightarrow> 's \<times> err) \<Rightarrow> base_chain list \<Rightarrow> 's \<Rightarrow> 's \<times> err" where
  "each_chain f [] s = (s, None)"
| "each_chain f (c # cs) s = and_then (f c) (each_chain f cs) s"

definition EnsureForwardAcceptForSubnet :: "'s host_env \<Rightarrow> string \<Rightarrow> string \<Rightarrow> 's \<Rightarrow> 's \<times> (string + string list)" where
  "EnsureForwardAcceptForSubnet E subnet0 ownerID s =
     (let subnet = TrimSpace subnet0 in
      if subnet = [] then (s, Inl ''empty subnet'')
      else (case forwardBaseChains E s of
              (s1, Inl e) \<Rightarrow> (s1, Inl e)
            | (s1, Inr bases) \<Rightarrow>
               (if bases = [] then (s1, Inr [])
                else (case each_chain (accept_in_chain E subnet ownerID) bases s1 of
                        (s2, Some e) \<Rightarrow> (s2, Inl e)
                      | (s2, None) \<Rightarrow>
                         (s2, Inr (concat (map (\<lambda>c. map (installed_line c) [False, True]) bases)))))))"

definition RemoveForwardRules :: "'s host_env \<Rightarrow> string \<Rightarrow> 's \<Rightarrow> 's \<times> err" where
  "RemoveForwardRules E ownerID s =
     (case forwardBaseChains E s of
        (s1, Inl e) \<Rightarrow> (s1, Some e)
      | (s1, Inr bases) \<Rightarrow> each_chain (\<lambda>c. removeRulesWithComment E c (ownerComment ownerID)) bases s1)"


section \<open>Segment size\<close>

definition mssTable :: string where
  "mssTable = ''pg_node_mss''"

definition mssChain :: string where
  "mssChain = ''clamp''"

definition mssCommentPrefix :: string where
  "mssCommentPrefix = ''pg_node_mss ''"

definition mssHeadroom :: int64 where
  "mssHeadroom = 160"

definition mssFloor :: int64 where
  "mssFloor = 536"

definition mtuCeiling :: int64 where
  "mtuCeiling = 1500"

definition mss_chain :: base_chain where
  "mss_chain = \<lparr>family = ''ip'', table = mssTable, bc_name = mssChain\<rparr>"

definition mssForMTU :: "int64 \<Rightarrow> int64" where
  "mssForMTU mtu =
     (let mtu = (if mtu > mtuCeiling then mtuCeiling else mtu);
          mss = sub64 mtu mssHeadroom
      in if mss < mssFloor then mssFloor else mss)"

definition eligibleForMTU :: "string \<Rightarrow> bool \<Rightarrow> bool \<Rightarrow> bool" where
  "eligibleForMTU name up loopback \<longleftrightarrow>
     up \<and> \<not> loopback \<and>
     \<not> list_ex (HasPrefix name) [''docker'', ''br-'', ''veth'', ''virbr'', ''cni'', ''flannel'', ''kube'']"

definition mtu_step :: "int64 \<Rightarrow> net_iface \<Rightarrow> int64" where
  "mtu_step smallest i =
     (if \<not> eligibleForMTU (ni_Name i) (ni_Up i) (ni_Loopback i) \<or> ni_MTU i \<le> 0 then smallest
      else if smallest = 0 \<or> ni_MTU i < smallest then ni_MTU i else smallest)"

definition smallestForwardingMTU :: "'s host_env \<Rightarrow> 's \<Rightarrow> string + int64" where
  "smallestForwardingMTU E s =
     (case hx_ifaces E s of
        Inl e \<Rightarrow> Inl (''list interfaces: '' @ e)
      | Inr ifaces \<Rightarrow>
         (let smallest = foldl mtu_step 0 ifaces in
          if smallest = 0 then Inl ''no usable interface found'' else Inr smallest))"

definition PathMSS :: "'s host_env \<Rightarrow> 's \<Rightarrow> string + int64" where
  "PathMSS E s = map_sum (\<lambda>e. e) mssForMTU (smallestForwardingMTU E s)"

definition ensureMSSChain :: "'s host_env \<Rightarrow> 's \<Rightarrow> 's \<times> err" where
  "ensureMSSChain E =
     and_then (runNFT E [''add'', ''table'', ''ip'', mssTable])
       (runNFT E [''add'', ''chain'', ''ip'', mssTable, mssChain,
                  ''{ type filter hook forward priority mangle - 10 ; policy accept ; }''])"

definition mssChainExists :: "'s host_env \<Rightarrow> 's \<Rightarrow> 's \<times> bool" where
  "mssChainExists E s =
     (case hx_exec E ''nft'' [''list'', ''chain'', ''ip'', mssTable, mssChain] s of (s', out, e) \<Rightarrow> (s', e = None))"

definition mss_comment :: "string \<Rightarrow> string \<Rightarrow> string \<Rightarrow> bool \<Rightarrow> int64 \<Rightarrow> string" where
  "mss_comment ownerID what target client mss =
     mssCommentPrefix @ ''owner='' @ ownerID @ '' '' @ what @ ''='' @ target @ '' direction='' @
     (if client then ''from-client'' else ''to-client'') @ '' mss='' @ show_int mss"

definition mss_args :: "string list \<Rightarrow> int64 \<Rightarrow> string \<Rightarrow> string list" where
  "mss_args match mss comment =
     [''add'', ''rule'', ''ip'', mssTable, mssChain] @ match @
     [''tcp'', ''flags'', ''syn'', ''/'', ''syn,rst'', ''tcp'', ''option'', ''maxseg'', ''size'', ''set'', show_int mss,
      ''comment'', go_quote comment]"

definition addMSSRule :: "'s host_env \<Rightarrow> string \<Rightarrow> string \<Rightarrow> int64 \<Rightarrow> bool \<Rightarrow> 's \<Rightarrow> 's \<times> err" where
  "addMSSRule E subnet ownerID mss saddr =
     runNFT E (mss_args [''ip'', if saddr then ''saddr'' else ''daddr'', subnet] mss
                        (mss_comment ownerID ''subnet'' subnet saddr mss))"

definition addMSSIfaceRule :: "'s host_env \<Rightarrow> string \<Rightarrow> string \<Rightarrow> int64 \<Rightarrow> bool \<Rightarrow> 's \<Rightarrow> 's \<times> err" where
  "addMSSIfaceRule E iface ownerID mss inbound =
     runNFT E (mss_args [if inbound then ''iifname'' else ''oifname'', go_quote iface] mss
                        (mss_comment ownerID ''iface'' iface inbound mss))"

definition mssOwnerComment :: "string \<Rightarrow> string" where
  "mssOwnerComment ownerID = mssCommentPrefix @ ''owner='' @ ownerID @ '' ''"

definition removeMSSRules :: "'s host_env \<Rightarrow> string \<Rightarrow> 's \<Rightarrow> 's \<times> err" where
  "removeMSSRules E ownerID = removeRulesWithComment E mss_chain (mssOwnerComment ownerID)"

text \<open>
  The package variable \<^verbatim>\<open>appliedMSS\<close> is passed along. Both \<^verbatim>\<open>Ensure\<close> functions are the
  same but for the function that adds a rule.
\<close>

type_synonym applied = "string \<rightharpoonup> int64"

definition clamp_rules :: "'s host_env \<Rightarrow> string \<Rightarrow> (bool \<Rightarrow> 's \<Rightarrow> 's \<times> err) \<Rightarrow> 's \<Rightarrow> 's \<times> err" where
  "clamp_rules E ownerID add =
     and_then (ensureMSSChain E) (and_then (removeMSSRules E ownerID) (and_then (add True) (add False)))"

definition ensure_clamp :: "'s host_env \<Rightarrow> string \<Rightarrow> (int64 \<Rightarrow> bool \<Rightarrow> 's \<Rightarrow> 's \<times> err) \<Rightarrow> applied \<times> 's \<Rightarrow> (applied \<times> 's) \<times> (string + int64)" where
  "ensure_clamp E ownerID add st =
     (case st of (applied, s) \<Rightarrow>
       (case PathMSS E s of
          Inl e \<Rightarrow> (st, Inl e)
        | Inr mss \<Rightarrow>
           (case (if getd 0 applied ownerID = mss then mssChainExists E s else (s, False)) of
              (s1, True) \<Rightarrow> ((applied, s1), Inr mss)
            | (s1, False) \<Rightarrow>
               (case clamp_rules E ownerID (add mss) s1 of
                  (s2, Some e) \<Rightarrow> ((applied, s2), Inl e)
                | (s2, None) \<Rightarrow> ((applied(ownerID \<mapsto> mss), s2), Inr mss)))))"

definition EnsureMSSClampForSubnet :: "'s host_env \<Rightarrow> string \<Rightarrow> string \<Rightarrow> applied \<times> 's \<Rightarrow> (applied \<times> 's) \<times> (string + int64)" where
  "EnsureMSSClampForSubnet E subnet0 ownerID st =
     (let subnet = TrimSpace subnet0 in
      if subnet = [] then (st, Inl ''empty subnet'')
      else ensure_clamp E ownerID (addMSSRule E subnet ownerID) st)"

definition EnsureMSSClampForInterface :: "'s host_env \<Rightarrow> string \<Rightarrow> string \<Rightarrow> applied \<times> 's \<Rightarrow> (applied \<times> 's) \<times> (string + int64)" where
  "EnsureMSSClampForInterface E iface0 ownerID st =
     (let iface = TrimSpace iface0 in
      if iface = [] then (st, Inl ''empty interface'')
      else ensure_clamp E ownerID (addMSSIfaceRule E iface ownerID) st)"

definition RemoveMSSClamp :: "'s host_env \<Rightarrow> string \<Rightarrow> applied \<times> 's \<Rightarrow> (applied \<times> 's) \<times> err" where
  "RemoveMSSClamp E ownerID st =
     (case st of (applied, s) \<Rightarrow>
       (case mssChainExists E s of
          (s1, False) \<Rightarrow> ((applied(ownerID := None), s1), None)
        | (s1, True) \<Rightarrow> (case removeMSSRules E ownerID s1 of (s2, e) \<Rightarrow> ((applied(ownerID := None), s2), e))))"

text \<open>
  One tick of the refresher: the value it last saw, the state, and the log line it writes.
\<close>

definition refresher_tick ::
  "(applied \<times> 's \<Rightarrow> (applied \<times> 's) \<times> (string + int64)) \<Rightarrow> string \<Rightarrow> int64 \<times> applied \<times> 's \<Rightarrow> (int64 \<times> applied \<times> 's) \<times> string option" where
  "refresher_tick apply_clamp target r =
     (case r of (last_mss, st) \<Rightarrow>
       (case apply_clamp st of
          (st', Inl e) \<Rightarrow> ((last_mss, st'), None)
        | (st', Inr mss) \<Rightarrow>
           ((mss, st'),
            if mss \<noteq> last_mss then
              Some (''MSS clamp for '' @ target @ '' updated '' @ show_int last_mss @ '' -> '' @ show_int mss @ '' (path MTU changed)'')
            else None)))"

text \<open>The refresher starts from the value applied last, zero when there is none.\<close>

definition refresher_start :: "string \<Rightarrow> applied \<times> 's \<Rightarrow> int64 \<times> applied \<times> 's" where
  "refresher_start ownerID st = (getd 0 (fst st) ownerID, st)"

end
