(* ===== verification/Text_Search.thy ===== *)
theory Text_Search
  imports Plain_Text
begin

text \<open>
  Searching and splitting text: \<^verbatim>\<open>strings.Contains\<close>, \<^verbatim>\<open>strings.Cut\<close> and
  \<^verbatim>\<open>strings.Split\<close> across a separating character, and words between blanks.
\<close>

section \<open>Containment\<close>

lemma HasPrefix_append: "HasPrefix s p \<longleftrightarrow> (\<exists>q. s = p @ q)"
  by (metis HasPrefix_def append_eq_conv_conj append_take_drop_id)

lemma Contains_iff: "Contains s t \<longleftrightarrow> (\<exists>p q. s = p @ t @ q)"
proof (induction s)
  case (Cons c s)
  have "(\<exists>p q. c # s = p @ t @ q) \<longleftrightarrow> (\<exists>q. c # s = t @ q) \<or> (\<exists>p q. s = p @ t @ q)"
    by (metis append_Cons append_Nil neq_Nil_conv list.inject)
  then show ?case using Cons by (simp add: HasPrefix_append)
qed auto

lemma Contains_trans: "Contains s t \<Longrightarrow> Contains t u \<Longrightarrow> Contains s u"
  unfolding Contains_iff by (metis append.assoc)

lemma Contains_append: "Contains (p @ t @ q) t"
  unfolding Contains_iff by blast

lemma HasPrefix_sep: "x \<notin> set t \<Longrightarrow> HasPrefix (a @ x # b) t \<longleftrightarrow> HasPrefix a t"
proof (induction a arbitrary: t)
  case Nil
  then show ?case by (cases t) (auto simp: HasPrefix_def)
next
  case (Cons c a)
  then show ?case by (cases t) (auto simp: HasPrefix_def)
qed

text \<open>A text without a character is found on one side of it.\<close>

lemma Contains_sep: "x \<notin> set t \<Longrightarrow> Contains (a @ x # b) t \<longleftrightarrow> Contains a t \<or> Contains b t"
proof (induction a)
  case Nil
  then show ?case using HasPrefix_sep [of x t "[]" b] by (cases t) (auto simp: HasPrefix_def)
next
  case (Cons c a)
  then show ?case using HasPrefix_sep [of x t "c # a" b] by auto
qed

lemma Contains_char: "x \<in> set t \<Longrightarrow> x \<notin> set s \<Longrightarrow> \<not> Contains s t"
  unfolding Contains_iff by auto

lemma Cut_sep: "x \<notin> set a \<Longrightarrow> Cut (a @ x # u @ b) (x # u) = Some (a, b)"
  by (induction a) (auto simp: HasPrefix_def)


section \<open>Splitting\<close>

lemma Cut_char_None: "x \<notin> set l \<Longrightarrow> Cut l [x] = None"
  by (induction l) (auto simp: HasPrefix_def)

lemma Split_single: "x \<notin> set l \<Longrightarrow> Split l [x] = [l]"
  by (subst Split.simps) (simp add: Cut_char_None)

lemma Split_cons: "x \<notin> set l \<Longrightarrow> Split (l @ x # s) [x] = l # Split s [x]"
  using Cut_sep [of x l "[]" s] by (subst Split.simps) simp

lemma Split_append: "Split (a @ x # b) [x] = Split a [x] @ Split b [x]"
proof (induction "length a" arbitrary: a rule: less_induct)
  case less
  show ?case
  proof (cases "x \<in> set a")
    case True
    then obtain l r where a: "a = l @ x # r" "x \<notin> set l" by (meson split_list_first)
    have "Split (r @ x # b) [x] = Split r [x] @ Split b [x]" by (rule less) (simp add: a)
    then show ?thesis using Split_cons [OF a(2)] by (simp add: a(1))
  next
    case False
    then show ?thesis by (simp add: Split_cons Split_single)
  qed
qed

lemma Split_Join: "ws \<noteq> [] \<Longrightarrow> \<forall>w\<in>set ws. x \<notin> set w \<Longrightarrow> Split (Join ws [x]) [x] = ws"
  by (induction ws "[x]" rule: Join.induct) (auto simp: Split_single Split_cons)

text \<open>A word between two blanks is one of the words of the text.\<close>

lemma Contains_word:
  assumes "Contains (Join ws '' '') (u @ '' '' @ w @ '' '')" "ws \<noteq> []" "\<forall>v\<in>set ws. CHR '' '' \<notin> set v" "CHR '' '' \<notin> set w"
  shows "w \<in> set ws"
proof -
  obtain p q where "Join ws '' '' = p @ (u @ '' '' @ w @ '' '') @ q" using assms(1) by (auto simp: Contains_iff)
  then have "Join ws '' '' = (p @ u) @ CHR '' '' # (w @ CHR '' '' # q)" by simp
  then have "Split (Join ws '' '') '' '' = Split (p @ u) '' '' @ w # Split q '' ''"
    by (simp only: Split_append Split_single [OF assms(4)]) simp
  then show ?thesis using Split_Join [OF assms(2,3)] by simp
qed


section \<open>White space\<close>

lemma space_at_take: "space_at ps s \<noteq> 0 \<Longrightarrow> take (space_at ps s) s \<in> set ps"
  by (induction ps) (auto split: if_splits)

lemma no_space_graphic: "p \<in> set go_spaces \<union> set (map rev go_spaces) \<Longrightarrow> ch \<in> set p \<Longrightarrow> \<not> graphic ch"
  by (auto simp: go_spaces_def graphic_def)

lemma trim_left_keeps:
  assumes "graphic ch" "ch \<in> set s" "set ps \<subseteq> set go_spaces \<union> set (map rev go_spaces)"
  shows "ch \<in> set (trim_left ps s)"
  using assms
proof (induction ps s rule: trim_left.induct)
  case (1 ps s)
  show ?case
  proof (cases "space_at ps s = 0")
    case True
    then show ?thesis using 1(3) by (subst trim_left.simps) simp
  next
    case False
    have "ch \<notin> set (take (space_at ps s) s)" using no_space_graphic space_at_take [OF False] 1(2,4) by blast
    moreover have "ch \<in> set (take (space_at ps s) s) \<union> set (drop (space_at ps s) s)"
      using 1(3) by (metis append_take_drop_id set_append)
    ultimately have "ch \<in> set (trim_left ps (drop (space_at ps s) s))" using 1 False by blast
    then show ?thesis using False by (subst trim_left.simps) simp
  qed
qed

lemma TrimSpace_nonempty:
  assumes "graphic ch" "ch \<in> set s"
  shows "TrimSpace s \<noteq> []"
proof -
  have "ch \<in> set (trim_left go_spaces s)" by (rule trim_left_keeps [OF assms]) simp
  then have "ch \<in> set (trim_left (map rev go_spaces) (rev (trim_left go_spaces s)))"
    by (intro trim_left_keeps assms(1)) simp_all
  then show ?thesis by (auto simp: TrimSpace_def)
qed

lemma take_field_end: "list_all graphic w \<Longrightarrow> take_field acc w = (if acc = [] \<and> w = [] then [] else [rev acc @ w])"
proof (induction w arbitrary: acc)
  case Nil
  then show ?case by (subst take_field.simps) simp
next
  case (Cons c w)
  then show ?case by (subst take_field.simps) (simp add: space_at_graphic)
qed

lemma Fields_single: "list_all graphic w \<Longrightarrow> w \<noteq> [] \<Longrightarrow> Fields w = [w]"
  by (simp add: Fields_def take_field_end)

end
