(* ===== verification/Host_Rules.thy ===== *)
theory Host_Rules
  imports Host_Firewall Text_Search
begin

text \<open>
  Who owns a rule of the host's firewall. \<open>nft_law\<close> states what the program \<^verbatim>\<open>nft\<close> promises
  about a ruleset. The locale \<open>tagged_rules\<close> is the contract of a family of rule comments: a comment
  names its owner and no other. Within it the removal and replacement of an owner's rules are shown
  to leave every other rule alone.
\<close>

section \<open>Rules and their listing\<close>

record nft_rule =
  nr_handle :: string
  nr_spec :: "string list"
  nr_comment :: "string option"

type_synonym ruleset = "base_chain \<rightharpoonup> nft_rule list"

definition quote_mark :: char where
  "quote_mark = byte 34"

definition hash :: char where
  "hash = CHR ''#''"

text \<open>Text a comment can hold without being changed by the quoting of either program.\<close>

definition plain_char :: "char \<Rightarrow> bool" where
  "plain_char ch \<longleftrightarrow> graphic ch \<and> ch \<noteq> quote_mark \<and> ch \<noteq> byte 92 \<and> ch \<noteq> hash"

definition plain_word :: "string \<Rightarrow> bool" where
  "plain_word w \<longleftrightarrow> w \<noteq> [] \<and> list_all plain_char w"

definition plain_text :: "string \<Rightarrow> bool" where
  "plain_text t \<longleftrightarrow> list_all (\<lambda>ch. plain_char ch \<or> ch = CHR '' '') t"

text \<open>A rule as \<^verbatim>\<open>nft -a list chain\<close> prints it: its statement, its comment, its handle.\<close>

definition rule_line :: "string \<Rightarrow> nft_rule \<Rightarrow> string" where
  "rule_line b r =
     b @ (case nr_comment r of None \<Rightarrow> [] | Some t \<Rightarrow> '' comment '' @ [quote_mark] @ t @ [quote_mark]) @ '' # handle '' @ nr_handle r"

definition listing :: "string \<Rightarrow> nft_rule list \<Rightarrow> bool" where
  "listing out rs \<longleftrightarrow>
     (\<exists>top bs bottom. Split out nl = top @ map2 rule_line bs rs @ bottom \<and> length bs = length rs \<and>
        (\<forall>l\<in>set top \<union> set bottom. \<not> Contains l ''owner='') \<and>
        (\<forall>b\<in>set bs. hash \<notin> set b \<and> \<not> Contains b ''owner=''))"

definition tidy_rule :: "nft_rule \<Rightarrow> bool" where
  "tidy_rule r \<longleftrightarrow> nr_handle r \<noteq> [] \<and> list_all is_digit (nr_handle r) \<and>
     (case nr_comment r of None \<Rightarrow> True | Some t \<Rightarrow> byte 10 \<notin> set t \<and> (Contains t ''owner='' \<longrightarrow> hash \<notin> set t))"

definition tidy_rules :: "ruleset \<Rightarrow> bool" where
  "tidy_rules R \<longleftrightarrow> (\<forall>c rs. R c = Some rs \<longrightarrow> distinct (map nr_handle rs) \<and> list_all tidy_rule rs)"

definition carries :: "string \<Rightarrow> nft_rule \<Rightarrow> bool" where
  "carries tag r \<longleftrightarrow> (case nr_comment r of None \<Rightarrow> False | Some t \<Rightarrow> Contains t tag)"

text \<open>
  Each command names a chain. A command that fails has changed nothing. Handles are numbers and are
  given once.
\<close>

definition put_rule :: "(nft_rule \<Rightarrow> nft_rule list \<Rightarrow> nft_rule list) \<Rightarrow> base_chain \<Rightarrow> string list \<Rightarrow> string \<Rightarrow> ruleset \<Rightarrow> ruleset \<Rightarrow> bool" where
  "put_rule place c spec t R R' \<longleftrightarrow>
     (\<exists>rs h. R c = Some rs \<and> h \<notin> nr_handle ` set rs \<and> h \<noteq> [] \<and> list_all is_digit h \<and>
             R' = R(c \<mapsto> place \<lparr>nr_handle = h, nr_spec = spec, nr_comment = Some t\<rparr> rs))"

definition at_end :: "nft_rule \<Rightarrow> nft_rule list \<Rightarrow> nft_rule list" where
  "at_end r rs = rs @ [r]"

definition nft_law :: "'s host_env \<Rightarrow> ('s \<Rightarrow> ruleset) \<Rightarrow> bool" where
  "nft_law E view \<longleftrightarrow>
     (\<forall>args s s' out e. hx_exec E ''nft'' args s = (s', out, e) \<longrightarrow> e \<noteq> None \<longrightarrow> view s' = view s) \<and>
     (\<forall>c s s' out. hx_exec E ''nft'' ([''-a'', ''list'', ''chain''] @ chain_args c) s = (s', out, None) \<longrightarrow>
        view s' = view s \<and> (tidy_rules (view s) \<longrightarrow> (\<exists>rs. view s c = Some rs \<and> listing out rs))) \<and>
     (\<forall>s s' out. hx_exec E ''nft'' [''-j'', ''list'', ''ruleset''] s = (s', out, None) \<longrightarrow> view s' = view s) \<and>
     (\<forall>c s s' out. hx_exec E ''nft'' ([''list'', ''chain''] @ chain_args c) s = (s', out, None) \<longrightarrow> view s' = view s) \<and>
     (\<forall>c h s s' out. hx_exec E ''nft'' ([''delete'', ''rule''] @ chain_args c @ [''handle'', h]) s = (s', out, None) \<longrightarrow>
        (\<exists>rs. view s c = Some rs \<and> view s' = (view s)(c \<mapsto> filter (\<lambda>r. nr_handle r \<noteq> h) rs))) \<and>
     (\<forall>c spec t s s' out. hx_exec E ''nft'' ([''insert'', ''rule''] @ chain_args c @ spec @ [''comment'', go_quote t]) s = (s', out, None) \<longrightarrow>
        plain_text t \<longrightarrow> put_rule Cons c spec t (view s) (view s')) \<and>
     (\<forall>c spec t s s' out. hx_exec E ''nft'' ([''add'', ''rule''] @ chain_args c @ spec @ [''comment'', go_quote t]) s = (s', out, None) \<longrightarrow>
        plain_text t \<longrightarrow> put_rule at_end c spec t (view s) (view s')) \<and>
     (\<forall>f t s s' out. hx_exec E ''nft'' [''add'', ''table'', f, t] s = (s', out, None) \<longrightarrow> view s' = view s) \<and>
     (\<forall>c spec s s' out. hx_exec E ''nft'' ([''add'', ''chain''] @ chain_args c @ spec) s = (s', out, None) \<longrightarrow>
        view s' = (if view s c = None then (view s)(c \<mapsto> []) else view s))"


section \<open>Finding an owner's rules\<close>

declare Contains.simps [simp del]

lemma plain_char_cases: "plain_char ch \<Longrightarrow> ch \<noteq> CHR '' '' \<and> ch \<noteq> quote_mark \<and> ch \<noteq> hash \<and> ch \<noteq> byte 10"
  using byte_neq_graphic [of ch 10] by (auto simp: plain_char_def graphic_def of_char_def)

lemma plain_text_chars:
  assumes "plain_text t"
  shows "quote_mark \<notin> set t" "hash \<notin> set t" "byte 10 \<notin> set t"
proof -
  have b: "byte 34 \<noteq> CHR '' ''" "hash \<noteq> CHR '' ''" "byte 10 \<noteq> CHR '' ''"
    by (simp_all add: hash_def byte_def char_of_def)
  show "quote_mark \<notin> set t" "hash \<notin> set t" "byte 10 \<notin> set t"
    using assms plain_char_cases b by (auto simp: plain_text_def list_all_iff quote_mark_def)
qed

lemma plain_word_text: "plain_word w \<Longrightarrow> plain_text w"
  by (auto simp: plain_word_def plain_text_def list_all_iff)

lemma plain_text_append [simp]: "plain_text (a @ b) \<longleftrightarrow> plain_text a \<and> plain_text b"
  by (simp add: plain_text_def)

lemma digits_chars:
  assumes "list_all is_digit h"
  shows "CHR ''='' \<notin> set h" "list_all graphic h"
  using assms digit_graphic by (auto simp: list_all_iff is_digit_def of_char_def)

lemma owner_chars: "CHR '' '' \<notin> set ''owner=''" "hash \<notin> set ''owner=''" "quote_mark \<notin> set ''owner=''"
  by (simp_all add: hash_def quote_mark_def byte_def char_of_def)

text \<open>A tag of an owner: it has the word that names owners and could stand in a comment.\<close>

definition owner_tag :: "string \<Rightarrow> bool" where
  "owner_tag tag \<longleftrightarrow> plain_text tag \<and> Contains tag ''owner=''"

lemma handle_part: "list_all is_digit h \<Longrightarrow> \<not> Contains ('' # handle '' @ h) ''owner=''"
  by (rule Contains_char [of "CHR ''=''"]) (auto dest: digits_chars)

lemma line_has_tag:
  assumes "owner_tag tag" "tidy_rule r" "\<not> Contains b ''owner=''"
  shows "Contains (rule_line b r) tag \<longleftrightarrow> carries tag r"
proof -
  have q: "quote_mark \<notin> set tag" using assms(1) plain_text_chars(1) by (simp add: owner_tag_def)
  have h: "\<not> Contains ('' # handle '' @ nr_handle r) tag"
    using handle_part [of "nr_handle r"] Contains_trans [of _ tag "''owner=''"] assms(1,2) unfolding owner_tag_def tidy_rule_def by blast
  have b: "\<not> Contains (b @ CHR '' '' # rest) tag" if "CHR ''='' \<notin> set rest" for rest
  proof -
    have "\<not> Contains (b @ CHR '' '' # rest) ''owner=''"
      using Contains_sep [OF owner_chars(1)] assms(3) Contains_char [of "CHR ''=''"] that by simp
    then show ?thesis using Contains_trans assms(1) unfolding owner_tag_def by blast
  qed
  show ?thesis
  proof (cases "nr_comment r")
    case None
    have "CHR ''='' \<notin> set (''# handle '' @ nr_handle r)" using assms(2) digits_chars(1) by (auto simp: tidy_rule_def)
    then show ?thesis using b [of "''# handle '' @ nr_handle r"] None by (simp add: rule_line_def carries_def)
  next
    case (Some t)
    have "rule_line b r = (b @ '' comment '') @ quote_mark # t @ quote_mark # '' # handle '' @ nr_handle r"
      using Some by (simp add: rule_line_def)
    then have "Contains (rule_line b r) tag \<longleftrightarrow> Contains (b @ '' comment '') tag \<or> Contains t tag \<or> Contains ('' # handle '' @ nr_handle r) tag"
      by (simp only: Contains_sep [OF q])
    then show ?thesis using b [of "''comment ''"] h Some by (simp add: carries_def)
  qed
qed

lemma line_handle_rule:
  assumes "owner_tag tag" "tidy_rule r" "\<not> Contains b ''owner=''" "hash \<notin> set b"
  shows "line_handle tag (rule_line b r) = (if carries tag r then [nr_handle r] else [])"
proof (cases "carries tag r")
  case True
  then obtain t where t: "nr_comment r = Some t" "Contains t tag" by (auto simp: carries_def split: option.splits)
  have "Contains t ''owner=''" using Contains_trans [OF t(2)] assms(1) by (simp add: owner_tag_def)
  then have h: "hash \<notin> set t" "nr_handle r \<noteq> []" "list_all graphic (nr_handle r)"
    using assms(2) t(1) digits_chars(2) by (auto simp: tidy_rule_def)
  let ?a = "b @ '' comment '' @ [quote_mark] @ t @ [quote_mark] @ '' ''"
  have l: "rule_line b r = ?a @ hash # '' handle '' @ nr_handle r" using t(1) by (simp add: rule_line_def hash_def)
  have "hash \<notin> set ?a" using h(1) assms(4) by (auto simp: hash_def quote_mark_def byte_def char_of_def)
  then have "Cut (rule_line b r) ''# handle '' = Some (?a, nr_handle r)"
    using Cut_sep [of hash ?a "'' handle ''" "nr_handle r"] by (simp only: l) (simp add: hash_def)
  moreover have "TrimSpace ?a \<noteq> []" by (rule TrimSpace_nonempty [of "CHR ''c''"]) (auto simp: graphic_def of_char_def)
  ultimately show ?thesis
    using True line_has_tag [OF assms(1-3)] Fields_single [OF h(3,2)] by (simp add: line_handle_def)
next
  case False
  then show ?thesis using line_has_tag [OF assms(1-3)] by (simp add: line_handle_def)
qed

lemma handles_listed:
  assumes "listing out rs" "owner_tag tag" "list_all tidy_rule rs"
  shows "ruleHandlesWithComment out tag = map nr_handle (filter (carries tag) rs)"
proof -
  obtain top bs bottom where l: "Split out nl = top @ map2 rule_line bs rs @ bottom" "length bs = length rs"
      "\<forall>l\<in>set top \<union> set bottom. \<not> Contains l ''owner=''" "\<forall>b\<in>set bs. hash \<notin> set b \<and> \<not> Contains b ''owner=''"
    using assms(1) unfolding listing_def by blast
  have no: "concat (map (line_handle tag) ls) = []" if "set ls \<subseteq> set top \<union> set bottom" for ls
    using that l(3) Contains_trans [of _ tag "''owner=''"] assms(2) by (auto simp: line_handle_def owner_tag_def)
  have "concat (map (line_handle tag) (map2 rule_line bs rs)) = map nr_handle (filter (carries tag) rs)"
    using l(2) l(4) assms(3)
    by (induction bs rs rule: list_induct2) (simp_all add: line_handle_rule [OF assms(2)])
  moreover have "concat (map (line_handle tag) top) = []" "concat (map (line_handle tag) bottom) = []" by (rule no, simp)+
  ultimately show ?thesis by (simp only: ruleHandlesWithComment_def l(1) map_append concat_append append_Nil append_Nil2)
qed


section \<open>Commands that touch one owner's rules\<close>

text \<open>The rules of a chain without the tag, and what the rules with it say. A chain that is not there has no rules.\<close>

definition others :: "string \<Rightarrow> nft_rule list option \<Rightarrow> nft_rule list" where
  "others tag c = filter (\<lambda>r. \<not> carries tag r) (case c of None \<Rightarrow> [] | Some rs \<Rightarrow> rs)"

definition owned :: "string \<Rightarrow> nft_rule list option \<Rightarrow> (string list \<times> string option) list" where
  "owned tag c = map (\<lambda>r. (nr_spec r, nr_comment r)) (filter (carries tag) (case c of None \<Rightarrow> [] | Some rs \<Rightarrow> rs))"

text \<open>A step on one chain that changes rules with the tag only.\<close>

definition kept :: "string \<Rightarrow> base_chain \<Rightarrow> ruleset \<Rightarrow> ruleset \<Rightarrow> bool" where
  "kept tag c R R' \<longleftrightarrow> tidy_rules R' \<and> others tag (R' c) = others tag (R c) \<and> (\<forall>c'. c' \<noteq> c \<longrightarrow> R' c' = R c')"

lemma kept_refl: "tidy_rules R \<Longrightarrow> kept tag c R R"
  by (simp add: kept_def)

lemma kept_trans: "kept tag c R S \<Longrightarrow> kept tag c S T \<Longrightarrow> kept tag c R T"
  by (simp add: kept_def)

lemma tidy_upd: "tidy_rules R \<Longrightarrow> distinct (map nr_handle rs) \<Longrightarrow> list_all tidy_rule rs \<Longrightarrow> tidy_rules (R(c \<mapsto> rs))"
  by (simp add: tidy_rules_def)

lemma nft_failed: "nft_law E view \<Longrightarrow> hx_exec E ''nft'' args s = (s', out, e) \<Longrightarrow> e \<noteq> None \<Longrightarrow> view s' = view s"
  unfolding nft_law_def by (elim conjE) metis

lemma nft_list:
  assumes "nft_law E view" "hx_exec E ''nft'' ([''-a'', ''list'', ''chain''] @ chain_args c) s = (s', out, None)"
  shows "view s' = view s \<and> (tidy_rules (view s) \<longrightarrow> (\<exists>rs. view s c = Some rs \<and> listing out rs))"
  using assms unfolding nft_law_def by (elim conjE) metis

lemma nft_add_table:
  assumes "nft_law E view" "hx_exec E ''nft'' [''add'', ''table'', f, t] s = (s', out, None)"
  shows "view s' = view s"
  using assms unfolding nft_law_def by blast

lemma nft_add_chain:
  assumes "nft_law E view" "hx_exec E ''nft'' ([''add'', ''chain''] @ chain_args c @ spec) s = (s', out, None)"
  shows "view s' = (if view s c = None then (view s)(c \<mapsto> []) else view s)"
  using assms unfolding nft_law_def by blast

lemma runNFT_failed: "nft_law E view \<Longrightarrow> runNFT E args s = (s', Some e) \<Longrightarrow> view s' = view s"
  unfolding runNFT_def by (metis runCmd_cases nft_failed option.distinct(1))

lemma runNFT_done:
  assumes "runNFT E args s = (s', None)"
  obtains out where "hx_exec E ''nft'' args s = (s', out, None)"
  using assms unfolding runNFT_def by (metis runCmd_cases)

lemma nft_delete:
  assumes "nft_law E view" "runNFT E ([''delete'', ''rule''] @ chain_args c @ [''handle'', h]) s = (s', None)"
  obtains rs where "view s c = Some rs" "view s' = (view s)(c \<mapsto> filter (\<lambda>r. nr_handle r \<noteq> h) rs)"
  using assms(1) runNFT_done [OF assms(2)] unfolding nft_law_def by metis

lemma nft_insert:
  assumes "nft_law E view" "runNFT E ([''insert'', ''rule''] @ chain_args c @ spec @ [''comment'', go_quote t]) s = (s', None)" "plain_text t"
  shows "put_rule Cons c spec t (view s) (view s')"
  using assms(1,3) runNFT_done [OF assms(2)] unfolding nft_law_def by metis

lemma nft_add:
  assumes "nft_law E view" "runNFT E ([''add'', ''rule''] @ chain_args c @ spec @ [''comment'', go_quote t]) s = (s', None)" "plain_text t"
  shows "put_rule at_end c spec t (view s) (view s')"
  using assms(1,3) runNFT_done [OF assms(2)] unfolding nft_law_def by metis

lemma delete_handles_view:
  assumes "nft_law E view" "delete_handles E c hs s = (s', e)" "view s c = Some rs"
  shows "\<exists>H\<subseteq>set hs. view s' = (view s)(c \<mapsto> filter (\<lambda>r. nr_handle r \<notin> H) rs) \<and> (e = None \<longrightarrow> H = set hs)"
  using assms(2,3)
proof (induction hs arbitrary: s rs)
  case Nil
  then show ?case by (auto simp: map_upd_triv)
next
  case (Cons h hs)
  obtain s1 e1 where r: "runNFT E ([''delete'', ''rule''] @ chain_args c @ [''handle'', h]) s = (s1, e1)" by fastforce
  show ?case
  proof (cases e1)
    case None
    then obtain rs' where d: "view s c = Some rs'" "view s1 = (view s)(c \<mapsto> filter (\<lambda>r. nr_handle r \<noteq> h) rs')"
      using nft_delete [OF assms(1)] r by blast
    have "delete_handles E c hs s1 = (s', e)" using Cons.prems(1) r None by (simp add: and_then_def)
    moreover have "view s1 c = Some (filter (\<lambda>r. nr_handle r \<noteq> h) rs)" using d Cons.prems(2) by simp
    ultimately obtain H where
      H: "H \<subseteq> set hs" "view s' = (view s1)(c \<mapsto> filter (\<lambda>r. nr_handle r \<notin> H) (filter (\<lambda>r. nr_handle r \<noteq> h) rs))" "e = None \<longrightarrow> H = set hs"
      using Cons.IH by blast
    have "view s' = (view s)(c \<mapsto> filter (\<lambda>r. nr_handle r \<notin> insert h H) rs)"
      unfolding H(2) d(2) fun_upd_upd filter_filter by (simp add: conj_commute)
    then show ?thesis using H(1,3) by (intro exI [of _ "insert h H"]) auto
  next
    case (Some e2)
    then have "s' = s1" "e = Some e2" "view s1 = view s" using Cons.prems(1) r runNFT_failed [OF assms(1)] by (auto simp: and_then_def)
    then show ?thesis using Cons.prems(2) by (intro exI [of _ "{}"]) (simp add: map_upd_triv)
  qed
qed

lemma filter_tidy: "tidy_rules R \<Longrightarrow> R c = Some rs \<Longrightarrow> tidy_rules (R(c \<mapsto> filter P rs))"
  by (rule tidy_upd) (auto simp: tidy_rules_def distinct_map_filter list_all_iff)

lemma removal:
  assumes law: "nft_law E view" and t: "tidy_rules (view s)" "owner_tag tag" and r: "removeRulesWithComment E c tag s = (s', e)"
  shows "kept tag c (view s) (view s')" "e = None \<Longrightarrow> owned tag (view s' c) = []"
proof -
  obtain s1 out e1 where x: "hx_exec E ''nft'' ([''-a'', ''list'', ''chain''] @ chain_args c) s = (s1, out, e1)" by (metis prod_cases3)
  have "kept tag c (view s) (view s') \<and> (e = None \<longrightarrow> owned tag (view s' c) = [])"
  proof (cases e1)
    case None
    have x': "hx_exec E ''nft'' ([''-a'', ''list'', ''chain''] @ chain_args c) s = (s1, out, None)" using x None by simp
    have v1: "view s1 = view s" using nft_list [OF law x'] by simp
    obtain rs where rs: "view s c = Some rs" "listing out rs" using nft_list [OF law x'] t(1) by blast
    have tr: "list_all tidy_rule rs" "distinct (map nr_handle rs)" using t(1) rs(1) by (auto simp: tidy_rules_def)
    have hs: "ruleHandlesWithComment out tag = map nr_handle (filter (carries tag) rs)" by (rule handles_listed [OF rs(2) t(2) tr(1)])
    have "delete_handles E c (map nr_handle (filter (carries tag) rs)) s1 = (s', e)"
      using r x None by (simp add: removeRulesWithComment_def hs)
    from delete_handles_view [OF law this] obtain H where
      H: "H \<subseteq> set (map nr_handle (filter (carries tag) rs))" "view s' = (view s)(c \<mapsto> filter (\<lambda>r. nr_handle r \<notin> H) rs)"
         "e = None \<longrightarrow> H = set (map nr_handle (filter (carries tag) rs))" using rs(1) v1 by auto
    have mem: "carries tag r" if "r \<in> set rs" "nr_handle r \<in> H" for r
      using that H(1) tr(2) by (auto simp: distinct_map inj_on_def)
    have "filter (\<lambda>r. \<not> carries tag r) (filter (\<lambda>r. nr_handle r \<notin> H) rs) = filter (\<lambda>r. \<not> carries tag r) rs"
      using mem by (auto intro: filter_cong)
    then have k: "kept tag c (view s) (view s')"
      unfolding kept_def H(2) using filter_tidy [OF t(1) rs(1)] by (simp add: others_def rs(1))
    have "filter (\<lambda>r. nr_handle r \<notin> H) rs = filter (\<lambda>r. \<not> carries tag r) rs" if "e = None"
    proof (rule filter_cong [OF refl])
      fix r assume "r \<in> set rs"
      then show "(nr_handle r \<notin> H) = (\<not> carries tag r)" using mem [of r] H(3) that by auto
    qed
    then show ?thesis using k by (simp add: H(2) owned_def others_def)
  next
    case (Some e2)
    then have "view s1 = view s" "s' = s1" "e \<noteq> None" using nft_failed [OF law x] x r by (auto simp: removeRulesWithComment_def)
    then show ?thesis using kept_refl [OF t(1)] by auto
  qed
  then show "kept tag c (view s) (view s')" "e = None \<Longrightarrow> owned tag (view s' c) = []" by auto
qed

lemma at_end_not_Cons: "at_end \<noteq> Cons"
proof
  assume "at_end = Cons"
  then have "at_end r [r'] = [r, r']" for r r' by simp
  from this [of "\<lparr>nr_handle = [], nr_spec = [], nr_comment = None\<rparr>" "\<lparr>nr_handle = ''1'', nr_spec = [], nr_comment = None\<rparr>"]
  show False by (simp add: at_end_def)
qed

lemma put_kept:
  assumes "put_rule place c spec t R R'" "place = Cons \<or> place = at_end" "tidy_rules R" "plain_text t" "Contains t tag"
  shows "kept tag c R R'"
    "owned tag (R' c) = (if place = Cons then (spec, Some t) # owned tag (R c) else owned tag (R c) @ [(spec, Some t)])"
proof -
  obtain rs h where p: "R c = Some rs" "h \<notin> nr_handle ` set rs" "h \<noteq> []" "list_all is_digit h"
      "R' = R(c \<mapsto> place \<lparr>nr_handle = h, nr_spec = spec, nr_comment = Some t\<rparr> rs)" using assms(1) unfolding put_rule_def by blast
  let ?r = "\<lparr>nr_handle = h, nr_spec = spec, nr_comment = Some t\<rparr>"
  have r: "tidy_rule ?r" "carries tag ?r" using p(3,4) plain_text_chars [OF assms(4)] assms(5) by (auto simp: tidy_rule_def carries_def)
  have rs: "distinct (map nr_handle rs)" "list_all tidy_rule rs" using assms(3) p(1) by (auto simp: tidy_rules_def)
  have "tidy_rules R'" unfolding p(5) using assms(2) p(2) r(1) rs by (intro tidy_upd [OF assms(3)]) (auto simp: at_end_def)
  then show "kept tag c R R'" using assms(2) r(2) p(1) by (auto simp: kept_def others_def p(5) at_end_def)
  from at_end_not_Cons show "owned tag (R' c) = (if place = Cons then (spec, Some t) # owned tag (R c) else owned tag (R c) @ [(spec, Some t)])"
    using assms(2) r(2) by (auto simp: owned_def p(1,5) at_end_def)
qed

lemma each_chain_kept:
  assumes f: "\<And>c s s' e. f c s = (s', e) \<Longrightarrow> tidy_rules (view s) \<Longrightarrow> kept tag c (view s) (view s') \<and> (e = None \<longrightarrow> Q c (view s' c))"
    and "each_chain f cs s = (s', e)" "tidy_rules (view s)"
  shows "tidy_rules (view s') \<and> (\<forall>c. others tag (view s' c) = others tag (view s c)) \<and> (\<forall>c. c \<notin> set cs \<longrightarrow> view s' c = view s c) \<and>
         (e = None \<longrightarrow> (\<forall>c\<in>set cs. Q c (view s' c)))"
  using assms(2,3)
proof (induction cs arbitrary: s)
  case (Cons c cs)
  obtain s1 e1 where r: "f c s = (s1, e1)" by fastforce
  note F = f [OF r Cons.prems(2)]
  have o: "others tag (view s1 c') = others tag (view s c')" for c' using F unfolding kept_def by (cases "c' = c") simp_all
  show ?case
  proof (cases e1)
    case None
    then have "each_chain f cs s1 = (s', e)" using Cons.prems(1) r by (simp add: and_then_def)
    from Cons.IH [OF this] F have I: "tidy_rules (view s')" "\<forall>c. others tag (view s' c) = others tag (view s1 c)" "\<forall>c. c \<notin> set cs \<longrightarrow> view s' c = view s1 c"
      "e = None \<longrightarrow> (\<forall>c\<in>set cs. Q c (view s' c))" unfolding kept_def by blast+
    have "Q c (view s' c)" if "e = None" using I(3,4) F None that by (cases "c \<in> set cs") simp_all
    then show ?thesis using I o F unfolding kept_def by auto
  next
    case (Some e2)
    then have "s' = s1" "e = Some e2" using Cons.prems(1) r by (auto simp: and_then_def)
    then show ?thesis using F o unfolding kept_def by auto
  qed
qed simp

end
