(* ===== verification/Host_Owners.thy ===== *)
theory Host_Owners
  imports Host_Rules
begin

text \<open>
  The contract of rule comments and its consequences. The accept rules and the clamp rules of
  \<^verbatim>\<open>backend/hostroute\<close> interpret it; \<open>Wireguard_Routing\<close> does for the rules of the WireGuard core.
\<close>

section \<open>Steps on a chain\<close>

text \<open>
  \<open>acts view tag c g f\<close>: whatever its outcome, \<open>f\<close> keeps all rules without the tag and all other chains,
  and when it succeeds it does \<open>g\<close> to what the rules with the tag say.
\<close>

definition acts :: "('s \<Rightarrow> ruleset) \<Rightarrow> string \<Rightarrow> base_chain \<Rightarrow>
    ((string list \<times> string option) list \<Rightarrow> (string list \<times> string option) list) \<Rightarrow> ('s \<Rightarrow> 's \<times> err) \<Rightarrow> bool" where
  "acts view tag c g f \<longleftrightarrow>
     (\<forall>s s' e. f s = (s', e) \<longrightarrow> tidy_rules (view s) \<longrightarrow>
        kept tag c (view s) (view s') \<and> (e = None \<longrightarrow> owned tag (view s' c) = g (owned tag (view s c))))"

lemma acts_and_then:
  assumes "acts view tag c g f" "acts view tag c g' f'"
  shows "acts view tag c (\<lambda>m. g' (g m)) (and_then f f')"
  unfolding acts_def
proof (intro allI impI)
  fix s s' e
  assume r: "and_then f f' s = (s', e)" and t: "tidy_rules (view s)"
  obtain s1 e1 where 1: "f s = (s1, e1)" by fastforce
  have k: "kept tag c (view s) (view s1)" "e1 = None \<longrightarrow> owned tag (view s1 c) = g (owned tag (view s c))"
    using assms(1) 1 t unfolding acts_def by blast+
  show "kept tag c (view s) (view s') \<and> (e = None \<longrightarrow> owned tag (view s' c) = g' (g (owned tag (view s c))))"
  proof (cases e1)
    case None
    then have "f' s1 = (s', e)" using r 1 by (simp add: and_then_def)
    moreover have "tidy_rules (view s1)" using k(1) by (simp add: kept_def)
    ultimately have "kept tag c (view s1) (view s')" "e = None \<longrightarrow> owned tag (view s' c) = g' (owned tag (view s1 c))"
      using assms(2) unfolding acts_def by blast+
    then show ?thesis using kept_trans [OF k(1)] k(2) None by simp
  next
    case (Some e2)
    then show ?thesis using r 1 k(1) by (auto simp: and_then_def)
  qed
qed

lemma acts_done: "acts view tag c g f \<Longrightarrow> f s = (s', e) \<Longrightarrow> tidy_rules (view s) \<Longrightarrow>
    kept tag c (view s) (view s') \<and> (e = None \<longrightarrow> owned tag (view s' c) = g (owned tag (view s c)))"
  by (auto simp: acts_def)


text \<open>Making a table or a chain changes no rule.\<close>

lemma add_table_acts:
  assumes "nft_law E view"
  shows "acts view tag c (\<lambda>m. m) (runNFT E [''add'', ''table'', f, t])"
  unfolding acts_def
proof (intro allI impI)
  fix s s' e
  assume r: "runNFT E [''add'', ''table'', f, t] s = (s', e)" and t: "tidy_rules (view s)"
  have "view s' = view s"
  proof (cases e)
    case None
    obtain out where "hx_exec E ''nft'' [''add'', ''table'', f, t] s = (s', out, None)" by (rule runNFT_done [OF r [unfolded None]])
    then show ?thesis by (rule nft_add_table [OF assms])
  qed (use runNFT_failed [OF assms] r in blast)
  then show "kept tag c (view s) (view s') \<and> (e = None \<longrightarrow> owned tag (view s' c) = owned tag (view s c))"
    using kept_refl [OF t] by simp
qed

lemma add_chain_acts:
  assumes "nft_law E view"
  shows "acts view tag c (\<lambda>m. m) (runNFT E ([''add'', ''chain''] @ chain_args c @ spec))"
  unfolding acts_def
proof (intro allI impI)
  fix s s' e
  assume r: "runNFT E ([''add'', ''chain''] @ chain_args c @ spec) s = (s', e)" and t: "tidy_rules (view s)"
  show "kept tag c (view s) (view s') \<and> (e = None \<longrightarrow> owned tag (view s' c) = owned tag (view s c))"
  proof (cases e)
    case None
    obtain out where "hx_exec E ''nft'' ([''add'', ''chain''] @ chain_args c @ spec) s = (s', out, None)"
      by (rule runNFT_done [OF r [unfolded None]])
    then have "view s' = (if view s c = None then (view s)(c \<mapsto> []) else view s)" by (rule nft_add_chain [OF assms])
    then show ?thesis using kept_refl [OF t] tidy_upd [OF t, of "[]"] by (auto simp: kept_def others_def owned_def)
  next
    case (Some x)
    then show ?thesis using runNFT_failed [OF assms] r kept_refl [OF t] by simp
  qed
qed


section \<open>Tagged rules\<close>

text \<open>
  \<open>tag ow\<close> is what marks the rules of an owner, \<open>says ow t\<close> that \<open>t\<close> is a comment the code writes for it.
\<close>

locale tagged_rules =
  fixes tag :: "string \<Rightarrow> string" and says :: "string \<Rightarrow> string \<Rightarrow> bool"
  assumes tag_ok: "plain_word ow \<Longrightarrow> owner_tag (tag ow)"
    and says_own: "plain_word ow \<Longrightarrow> says ow t \<Longrightarrow> plain_text t \<and> Contains t (tag ow)"
    and says_only: "plain_word ow \<Longrightarrow> plain_word ow' \<Longrightarrow> says ow' t \<Longrightarrow> Contains t (tag ow) \<Longrightarrow> ow' = ow"
begin

lemma remove_acts:
  "nft_law E view \<Longrightarrow> plain_word ow \<Longrightarrow> acts view (tag ow) c (\<lambda>m. []) (removeRulesWithComment E c (tag ow))"
  unfolding acts_def by (intro allI impI conjI) (erule (1) removal [OF _ _ tag_ok], assumption+)+

lemma insert_acts:
  assumes "nft_law E view" "plain_word ow" "says ow t"
  shows "acts view (tag ow) c (Cons (spec, Some t)) (runNFT E ([''insert'', ''rule''] @ chain_args c @ spec @ [''comment'', go_quote t]))"
  unfolding acts_def
proof (intro allI impI)
  fix s s' e
  assume r: "runNFT E ([''insert'', ''rule''] @ chain_args c @ spec @ [''comment'', go_quote t]) s = (s', e)" and t: "tidy_rules (view s)"
  note w = says_own [OF assms(2,3)]
  show "kept (tag ow) c (view s) (view s') \<and> (e = None \<longrightarrow> owned (tag ow) (view s' c) = (spec, Some t) # owned (tag ow) (view s c))"
  proof (cases e)
    case None
    then have "put_rule Cons c spec t (view s) (view s')" using nft_insert [OF assms(1)] r w by blast
    then show ?thesis using put_kept [OF _ _ t] w by simp
  next
    case (Some x)
    then show ?thesis using runNFT_failed [OF assms(1)] r kept_refl [OF t] by simp
  qed
qed

lemma add_acts:
  assumes "nft_law E view" "plain_word ow" "says ow t"
  shows "acts view (tag ow) c (\<lambda>m. m @ [(spec, Some t)]) (runNFT E ([''add'', ''rule''] @ chain_args c @ spec @ [''comment'', go_quote t]))"
  unfolding acts_def
proof (intro allI impI)
  fix s s' e
  assume r: "runNFT E ([''add'', ''rule''] @ chain_args c @ spec @ [''comment'', go_quote t]) s = (s', e)" and t: "tidy_rules (view s)"
  note w = says_own [OF assms(2,3)]
  show "kept (tag ow) c (view s) (view s') \<and> (e = None \<longrightarrow> owned (tag ow) (view s' c) = owned (tag ow) (view s c) @ [(spec, Some t)])"
  proof (cases e)
    case None
    then have "put_rule at_end c spec t (view s) (view s')" using nft_add [OF assms(1)] r w by blast
    then show ?thesis using put_kept [OF _ _ t] w at_end_not_Cons by auto
  next
    case (Some x)
    then show ?thesis using runNFT_failed [OF assms(1)] r kept_refl [OF t] by simp
  qed
qed

lemma replace_acts:
  assumes "nft_law E view" "plain_word ow" "says ow t" "says ow t'"
  shows "acts view (tag ow) c (\<lambda>m. [(spec', Some t'), (spec, Some t)])
    (and_then (removeRulesWithComment E c (tag ow))
      (and_then (runNFT E ([''insert'', ''rule''] @ chain_args c @ spec @ [''comment'', go_quote t]))
                (runNFT E ([''insert'', ''rule''] @ chain_args c @ spec' @ [''comment'', go_quote t']))))"
  using acts_and_then [OF remove_acts [OF assms(1,2)] acts_and_then [OF insert_acts [OF assms(1,2,3)] insert_acts [OF assms(1,2,4)]]]
  by simp

text \<open>The rules of another owner are not among those with the tag.\<close>

lemma foreign_rule:
  assumes "plain_word ow" "plain_word ow'" "ow' \<noteq> ow" "says ow' t" "nr_comment r = Some t"
  shows "\<not> carries (tag ow) r"
  using says_only [OF assms(1,2,4)] assms(3,5) by (auto simp: carries_def)

end


section \<open>Accept rules\<close>

lemma no_blank: "plain_word w \<Longrightarrow> CHR '' '' \<notin> set w"
  using plain_char_cases by (auto simp: plain_word_def list_all_iff)

text \<open>A comment of blank-separated words has the tag of an owner only when one word names that owner.\<close>

lemma tag_word:
  assumes "Contains (Join ws '' '') (u @ '' owner='' @ ow @ '' '')" "ws \<noteq> []" "\<forall>v\<in>set ws. CHR '' '' \<notin> set v" "plain_word ow"
  shows "''owner='' @ ow \<in> set ws"
  using Contains_word [of ws u "''owner='' @ ow"] assms no_blank [OF assms(4)] by simp

definition accept_says :: "string \<Rightarrow> string \<Rightarrow> bool" where
  "accept_says ow t \<longleftrightarrow> (\<exists>subnet outbound. plain_word subnet \<and> t = ruleComment ow subnet outbound)"

lemma accept_words:
  "ruleComment ow subnet outbound =
     Join [''pg_node_fwd'', ''owner='' @ ow, ''type=forward'', ''subnet='' @ subnet, ''direction='' @ direction outbound] '' ''"
  by (simp add: ruleComment_def commentPrefix_def)

lemma plain_literals:
  "plain_text ''pg_node_fwd ''" "plain_text ''pg_node_mss ''" "plain_text ''pg_node_wg ''" "plain_text ''owner=''" "plain_text '' ''"
  "plain_text '' type=forward subnet=''" "plain_text '' direction=''" "plain_text ''return''" "plain_text ''outbound''"
  by (simp_all add: plain_text_def plain_char_def graphic_def of_char_def quote_mark_def hash_def byte_def char_of_def)

interpretation accept: tagged_rules ownerComment accept_says
proof
  fix ow ow' t :: string
  assume w: "plain_word ow"
  show "owner_tag (ownerComment ow)"
    unfolding owner_tag_def ownerComment_def commentPrefix_def
    by (simp only: Contains_append plain_text_append plain_literals plain_word_text [OF w] simp_thms)
  show "plain_text t \<and> Contains t (ownerComment ow)" if says: "accept_says ow t"
  proof -
    obtain subnet outbound where t: "plain_word subnet" "t = ruleComment ow subnet outbound" using says by (auto simp: accept_says_def)
    have "Contains t (ownerComment ow)" unfolding t(2)
      using Contains_append [of "[]" "ownerComment ow" "''type=forward subnet='' @ subnet @ '' direction='' @ direction outbound"]
      by (simp add: ruleComment_def ownerComment_def)
    moreover have "plain_text t"
      unfolding t(2) ruleComment_def commentPrefix_def direction_def
      by (simp only: plain_text_append plain_literals plain_word_text [OF w] plain_word_text [OF t(1)] simp_thms split: if_split)
    ultimately show ?thesis by simp
  qed
  show "ow' = ow" if says: "plain_word ow'" "accept_says ow' t" "Contains t (ownerComment ow)"
  proof -
    obtain subnet outbound where t: "plain_word subnet" "t = ruleComment ow' subnet outbound" using says(2) by (auto simp: accept_says_def)
    have "''owner='' @ ow \<in> set [''pg_node_fwd'', ''owner='' @ ow', ''type=forward'', ''subnet='' @ subnet, ''direction='' @ direction outbound]"
      by (rule tag_word [of _ "''pg_node_fwd''"])
        (use says(3) w no_blank [OF says(1)] no_blank [OF t(1)] in \<open>simp_all add: t(2) accept_words ownerComment_def commentPrefix_def direction_def\<close>)
    then show ?thesis by auto
  qed
qed

lemma base_chains_view:
  assumes "nft_law E view" "forwardBaseChains E s = (s', r)"
  shows "view s' = view s"
proof -
  obtain s1 out e where x: "hx_exec E ''nft'' [''-j'', ''list'', ''ruleset''] s = (s1, out, e)" by (metis prod_cases3)
  have "view s1 = view s"
  proof (cases e)
    case None
    then show ?thesis using assms(1) x unfolding nft_law_def by (elim conjE) metis
  qed (use nft_failed [OF assms(1) x] in simp)
  moreover have "s' = s1" using assms(2) x by (auto simp: forwardBaseChains_def split: option.splits)
  ultimately show ?thesis by simp
qed

definition accept_spec :: "string \<Rightarrow> bool \<Rightarrow> string list" where
  "accept_spec subnet outbound =
     (if outbound then [''ip'', ''saddr'', subnet, ''accept'']
      else [''ip'', ''daddr'', subnet, ''ct'', ''state'', ''established,related'', ''accept''])"

definition accept_rule :: "string \<Rightarrow> string \<Rightarrow> bool \<Rightarrow> string list \<times> string option" where
  "accept_rule ow subnet outbound = (accept_spec subnet outbound, Some (ruleComment ow subnet outbound))"

lemma insertAcceptRule_spec:
  "insertAcceptRule E c subnet ow d =
     runNFT E ([''insert'', ''rule''] @ chain_args c @ accept_spec subnet d @ [''comment'', go_quote (ruleComment ow subnet d)])"
  by (simp add: insertAcceptRule_def accept_spec_def)

lemma accept_in_chain_acts:
  assumes "nft_law E view" "plain_word ow" "plain_word subnet"
  shows "acts view (ownerComment ow) c (\<lambda>m. [accept_rule ow subnet True, accept_rule ow subnet False]) (accept_in_chain E subnet ow c)"
proof -
  have "accept_says ow (ruleComment ow subnet d)" for d using assms(3) by (auto simp: accept_says_def)
  from accept.replace_acts [OF assms(1,2) this [of False] this [of True]] show ?thesis
    unfolding accept_in_chain_def insertAcceptRule_spec accept_rule_def by blast
qed

end
