(* ===== verification/Host_Example.thy ===== *)
theory Host_Example
  imports Host_Owners
begin

text \<open>
  A host that runs the commands of \<^verbatim>\<open>nft\<close> as \<open>nft_law\<close> describes them, for the witnesses: every
  chain exists, a command never fails, and a new rule gets a handle longer than all others of its chain.
\<close>

definition unquote :: "string \<Rightarrow> string" where
  "unquote q = butlast (tl q)"

definition fresh_handle :: "nft_rule list \<Rightarrow> string" where
  "fresh_handle rs = replicate (Suc (sum_list (map (\<lambda>r. length (nr_handle r)) rs))) (CHR ''1'')"

definition new_rule :: "string list \<Rightarrow> nft_rule list \<Rightarrow> nft_rule" where
  "new_rule rest rs = \<lparr>nr_handle = fresh_handle rs, nr_spec = butlast (butlast rest), nr_comment = Some (unquote (last rest))\<rparr>"

definition nft_do :: "string list \<Rightarrow> (base_chain \<Rightarrow> nft_rule list) \<Rightarrow> (base_chain \<Rightarrow> nft_rule list)" where
  "nft_do args s =
     (case args of
        a # b # f # t # n # rest \<Rightarrow>
         (let c = \<lparr>family = f, table = t, bc_name = n\<rparr> in
          if [a, b] = [''insert'', ''rule''] then s(c := new_rule rest (s c) # s c)
          else if [a, b] = [''add'', ''rule''] then s(c := at_end (new_rule rest (s c)) (s c))
          else if [a, b] = [''delete'', ''rule''] then s(c := filter (\<lambda>r. nr_handle r \<noteq> last rest) (s c))
          else s)
      | _ \<Rightarrow> s)"

definition nft_print :: "string list \<Rightarrow> (base_chain \<Rightarrow> nft_rule list) \<Rightarrow> string" where
  "nft_print args s =
     (case args of
        [a, b, d, f, t, n] \<Rightarrow>
          if [a, b, d] = [''-a'', ''list'', ''chain''] then
            Join (''chain {'' # map (rule_line ''rule'') (s \<lparr>family = f, table = t, bc_name = n\<rparr>) @ [''}'']) nl
          else []
      | _ \<Rightarrow> [])"

definition nft_host :: "net_iface list \<Rightarrow> (base_chain \<Rightarrow> nft_rule list) host_env" where
  "nft_host ifaces =
     \<lparr>hx_exec = (\<lambda>name args s. if name = ''nft'' then (nft_do args s, nft_print args s, None) else (s, [], None)),
      hx_items = (\<lambda>t. Inr [None, Some ''chain'']),
      hx_chain = (\<lambda>t. Inr \<lparr>lc_Family = ''ip'', lc_Table = ''filter'', lc_Name = ''FORWARD'', lc_Hook = ''forward''\<rparr>),
      hx_read = (\<lambda>f s. Inr ''1''), hx_write = (\<lambda>f t s. (s, None)), hx_getenv = (\<lambda>v. []), hx_ifaces = (\<lambda>s. Inr ifaces)\<rparr>"

definition nft_view :: "(base_chain \<Rightarrow> nft_rule list) \<Rightarrow> ruleset" where
  "nft_view s c = Some (s c)"

lemma chain_again: "\<lparr>family = family c, table = table c, bc_name = bc_name c\<rparr> = c"
  by (cases c) simp

lemma fresh_handle_fresh: "fresh_handle rs \<notin> nr_handle ` set rs"
proof
  assume "fresh_handle rs \<in> nr_handle ` set rs"
  then obtain r where r: "r \<in> set rs" "nr_handle r = fresh_handle rs" by force
  have "length (nr_handle r) \<le> sum_list (map (\<lambda>r. length (nr_handle r)) rs)" using r(1) by (intro member_le_sum_list) auto
  then show False by (simp add: r(2) fresh_handle_def)
qed

lemma fresh_handle_digits: "fresh_handle rs \<noteq> []" "list_all is_digit (fresh_handle rs)"
  by (simp_all add: fresh_handle_def is_digit_def of_char_def list_all_iff)

lemma go_quote_plain:
  assumes "plain_text t"
  shows "go_quote t = [quote_mark] @ t @ [quote_mark]"
proof -
  have "quote_char ch = [ch]" if "ch \<in> set t" for ch
  proof -
    have "plain_char ch \<or> ch = CHR '' ''" using assms that by (auto simp: plain_text_def list_all_iff)
    then have "32 \<le> (of_char ch :: nat) \<and> (of_char ch :: nat) \<le> 126 \<and> of_char ch \<noteq> (34 :: nat) \<and> of_char ch \<noteq> (92 :: nat)"
    proof
      assume "plain_char ch"
      moreover have "of_char ch \<noteq> (k :: nat)" if "ch \<noteq> byte k" for k using that by (auto simp: byte_def)
      ultimately show ?thesis by (auto simp: plain_char_def graphic_def quote_mark_def)
    qed (simp add: of_char_def)
    then show ?thesis by (simp add: quote_char_def Let_def)
  qed
  then have "concat (map quote_char t) = t" by (induction t) auto
  then show ?thesis by (simp add: go_quote_def quote_mark_def)
qed

lemma byte_marks: "byte 10 = CHR 0x0A" "byte 34 = CHR 0x22"
  by code_simp+

lemma rule_line_newline:
  assumes "tidy_rule r"
  shows "byte 10 \<notin> set (rule_line ''rule'' r)"
proof -
  have "byte 10 \<notin> set (nr_handle r)" using assms by (auto simp: tidy_rule_def list_all_iff is_digit_def)
  then show ?thesis using assms
    by (auto simp: rule_line_def tidy_rule_def quote_mark_def byte_marks split: option.splits)
qed

lemma nft_print_listing:
  assumes "tidy_rules (nft_view s)"
  shows "listing (nft_print ([''-a'', ''list'', ''chain''] @ chain_args c) s) (s c)"
proof -
  let ?ls = "''chain {'' # map (rule_line ''rule'') (s c) @ [''}'']"
  have "list_all tidy_rule (s c)" using assms by (auto simp: tidy_rules_def nft_view_def)
  then have "\<forall>l\<in>set ?ls. byte 10 \<notin> set l" using rule_line_newline by (auto simp: list_all_iff byte_marks)
  then have "Split (Join ?ls nl) nl = ?ls" unfolding nl_def by (intro Split_Join) simp_all
  moreover have "nft_print ([''-a'', ''list'', ''chain''] @ chain_args c) s = Join ?ls nl" by (simp add: nft_print_def chain_args_def chain_again)
  moreover have "map (rule_line ''rule'') rs = map2 rule_line (replicate (length rs) ''rule'') rs" for rs by (induction rs) simp_all
  ultimately show ?thesis unfolding listing_def
    by (intro exI [of _ "[''chain {'']"] exI [of _ "replicate (length (s c)) ''rule''"] exI [of _ "[''}'']"])
      (auto simp: Contains_char [of "CHR ''=''"] hash_def)
qed

lemma nft_host_law: "nft_law (nft_host ifaces) nft_view"
proof -
  have put: "put_rule place c spec t (nft_view s) (nft_view (s(c := place (new_rule (spec @ [''comment'', go_quote t]) (s c)) (s c))))"
    if "plain_text t" for place c spec t s
  proof -
    have "new_rule (spec @ [''comment'', go_quote t]) rs = \<lparr>nr_handle = fresh_handle rs, nr_spec = spec, nr_comment = Some t\<rparr>" for rs
      by (simp add: new_rule_def unquote_def go_quote_plain [OF that] butlast_append)
    then show ?thesis unfolding put_rule_def
      by (intro exI [of _ "s c"] exI [of _ "fresh_handle (s c)"]) (auto simp: nft_view_def fresh_handle_fresh fresh_handle_digits)
  qed
  have D: "nft_do ([''insert'', ''rule''] @ chain_args c @ rest) s = s(c := new_rule rest (s c) # s c)"
    "nft_do ([''add'', ''rule''] @ chain_args c @ rest) s = s(c := at_end (new_rule rest (s c)) (s c))"
    "nft_do ([''delete'', ''rule''] @ chain_args c @ rest) s = s(c := filter (\<lambda>r. nr_handle r \<noteq> last rest) (s c))"
    "nft_do ([''add'', ''chain''] @ chain_args c @ rest) s = s" "nft_do ([''list'', ''chain''] @ chain_args c) s = s"
    "nft_do ([''-a'', ''list'', ''chain''] @ chain_args c) s = s" "nft_do [''-j'', ''list'', ''ruleset''] s = s" "nft_do [''add'', ''table'', f, t] s = s"
    for c rest s f t by (simp_all add: nft_do_def chain_args_def chain_again)
  have V: "nft_view (s(c := rs)) = (nft_view s)(c \<mapsto> rs)" for s c rs by (auto simp: nft_view_def fun_eq_iff)
  have N: "nft_view s c = Some (s c)" for s c by (simp add: nft_view_def)
  have X: "hx_exec (nft_host ifaces) ''nft'' args s = (s', out, e) \<longleftrightarrow> s' = nft_do args s \<and> out = nft_print args s \<and> e = None" for args s s' out e
    by (auto simp: nft_host_def)
  show ?thesis unfolding nft_law_def X
    by (intro conjI allI impI; elim conjE; hypsubst)
      (simp_all only: D V N put [unfolded V], simp_all add: nft_print_listing [simplified])
qed

text \<open>A rule of another core is in the chain already.\<close>

definition forward_chain :: base_chain where
  "forward_chain = \<lparr>family = ''ip'', table = ''filter'', bc_name = ''FORWARD''\<rparr>"

definition nft_start :: "base_chain \<Rightarrow> nft_rule list" where
  "nft_start c = (if c = forward_chain
     then [\<lparr>nr_handle = ''7'', nr_spec = accept_spec ''10.30.0.0/24'' True, nr_comment = Some (ruleComment ''openvpn_10'' ''10.30.0.0/24'' True)\<rparr>] else [])"

lemma plain_examples: "plain_word ''openvpn_10''" "plain_word ''10.30.0.0/24''" "plain_word ''l2tp_10''" "plain_word ''10.40.0.0/24''"
  by (simp_all add: plain_word_def plain_char_def graphic_def of_char_def quote_mark_def hash_def byte_marks) code_simp+

lemma nft_start_tidy: "tidy_rules (nft_view nft_start)"
proof -
  have "accept_says ''openvpn_10'' (ruleComment ''openvpn_10'' ''10.30.0.0/24'' True)" using plain_examples by (auto simp: accept_says_def)
  from plain_text_chars [OF conjunct1 [OF accept.says_own [OF plain_examples(1) this]]] show ?thesis
    by (auto simp: tidy_rules_def nft_view_def nft_start_def tidy_rule_def is_digit_def of_char_def split: if_splits)
qed

lemma nft_host_never_fails:
  "snd (delete_handles (nft_host ifaces) c hs s) = None"
  "snd (removeRulesWithComment (nft_host ifaces) c tag s) = None"
  "snd (insertAcceptRule (nft_host ifaces) c subnet ow d s) = None"
proof -
  have R: "snd (runNFT (nft_host ifaces) args s) = None" for args s by (simp add: runNFT_def runCmd_def nft_host_def)
  show "snd (delete_handles (nft_host ifaces) c hs s) = None" for hs s
    by (induction hs arbitrary: s) (auto simp: and_then_def R split: prod.split option.split dest: arg_cong [of _ _ snd])
  then show "snd (removeRulesWithComment (nft_host ifaces) c tag s) = None"
    by (simp add: removeRulesWithComment_def nft_host_def)
  show "snd (insertAcceptRule (nft_host ifaces) c subnet ow d s) = None" by (simp add: insertAcceptRule_def R)
qed

end
