(* ===== verification/Host_Forward.thy ===== *)
theory Host_Forward
  imports Host_Example
begin

text \<open>
  Properties of \<^verbatim>\<open>backend/hostroute\<close>: the accept rules stay with their owner, the segment size
  follows the narrowest interface, and the clamp rules carry it.
\<close>

section \<open>Accept rules\<close>

text \<open>
  C37: For a host whose nft keeps its promises, EnsureForwardAcceptForSubnet and RemoveForwardRules change
  no rule but those tagged with their owner, whether they succeed or fail half-way, and the rules the code
  writes for any other owner are not among these. On success the owner has, in every chain hooked to
  forward, exactly the rule for outgoing packets and the rule for replies, in this order, or no rule
  any more.
\<close>

theorem forward_rules_owned:
  assumes law: "nft_law E view" and tidy_rules: "tidy_rules (view s)" and w: "plain_word ow" "plain_word (TrimSpace subnet)"
    and bases: "forwardBaseChains E s = (s0, Inr cs)"
    and ensured: "EnsureForwardAcceptForSubnet E subnet ow s = (s1, r)" and removed: "RemoveForwardRules E ow s = (s2, e)"
    and foreign: "plain_word ow'" "ow' \<noteq> ow" "accept_says ow' t" "nr_comment rule = Some t"
  shows "(\<forall>c. others (ownerComment ow) (view s1 c) = others (ownerComment ow) (view s c)) \<and>
         (\<forall>c. others (ownerComment ow) (view s2 c) = others (ownerComment ow) (view s c)) \<and>
         \<not> carries (ownerComment ow) rule \<and>
         (isl r \<or> list_all (\<lambda>c. owned (ownerComment ow) (view s1 c) =
            [accept_rule ow (TrimSpace subnet) True, accept_rule ow (TrimSpace subnet) False]) cs) \<and>
         (e \<noteq> None \<or> list_all (\<lambda>c. owned (ownerComment ow) (view s2 c) = []) cs) \<and>
         tidy_rules (view s1) \<and> tidy_rules (view s2)"
proof -
  let ?x = "TrimSpace subnet" and ?tag = "ownerComment ow"
  have v: "view s0 = view s" by (rule base_chains_view [OF law bases])
  have t0: "tidy_rules (view s0)" using tidy_rules v by simp
  have ne: "?x \<noteq> []" using w(2) by (simp add: plain_word_def)
  obtain s1' e1 where run: "each_chain (accept_in_chain E ?x ow) cs s0 = (s1', e1)" by fastforce
  have r: "s1 = s1'" "isl r \<longleftrightarrow> e1 \<noteq> None"
    using ensured bases ne run by (auto simp: EnsureForwardAcceptForSubnet_def Let_def split: if_splits option.splits)
  have A: "tidy_rules (view s1') \<and> (\<forall>c. others ?tag (view s1' c) = others ?tag (view s0 c)) \<and> (\<forall>c. c \<notin> set cs \<longrightarrow> view s1' c = view s0 c) \<and>
      (e1 = None \<longrightarrow> (\<forall>c\<in>set cs. owned ?tag (view s1' c) = [accept_rule ow ?x True, accept_rule ow ?x False]))"
    by (rule each_chain_kept [where view = view, OF _ run t0]) (rule acts_done [OF accept_in_chain_acts [OF law w]])
  have run2: "each_chain (\<lambda>c. removeRulesWithComment E c ?tag) cs s0 = (s2, e)"
    using removed bases by (simp add: RemoveForwardRules_def)
  have B: "tidy_rules (view s2) \<and> (\<forall>c. others ?tag (view s2 c) = others ?tag (view s0 c)) \<and> (\<forall>c. c \<notin> set cs \<longrightarrow> view s2 c = view s0 c) \<and>
      (e = None \<longrightarrow> (\<forall>c\<in>set cs. owned ?tag (view s2 c) = []))"
    by (rule each_chain_kept [where view = view, OF _ run2 t0]) (rule acts_done [OF accept.remove_acts [OF law w(1)]])
  show ?thesis
    using A B v r accept.foreign_rule [OF w(1) foreign] by (auto simp: list_all_iff)
qed

lemma forward_example:
  "forwardBaseChains (nft_host ifaces) nft_start = (nft_start, Inr [forward_chain])"
  by (simp add: forwardBaseChains_def parseForwardBaseChains_def nft_host_def nft_do_def forward_chain_def)

lemma trim_example: "TrimSpace ''10.40.0.0/24'' = ''10.40.0.0/24''"
  by (rule TrimSpace_graphic) (simp_all add: graphic_def of_char_def)

lemma ensure_example: "\<not> isl (snd (EnsureForwardAcceptForSubnet (nft_host ifaces) ''10.40.0.0/24'' ow nft_start))"
proof -
  have "snd (accept_in_chain (nft_host ifaces) subnet ow c s) = None" for subnet c s
    unfolding accept_in_chain_def and_then_def
    using nft_host_never_fails by (auto split: prod.split option.split dest: arg_cong [of _ _ snd])
  then have "snd (each_chain (accept_in_chain (nft_host ifaces) subnet ow) [forward_chain] nft_start) = None" for subnet
    by (auto simp: and_then_def split: prod.split option.split dest: arg_cong [of _ _ snd])
  then show ?thesis
    by (auto simp: EnsureForwardAcceptForSubnet_def Let_def forward_example trim_example split: prod.split option.split dest: arg_cong [of _ _ snd])
qed

theorem forward_rules_owned_witness:
  "owned (ownerComment ''l2tp_10'') (nft_view (fst (EnsureForwardAcceptForSubnet (nft_host []) ''10.40.0.0/24'' ''l2tp_10'' nft_start)) forward_chain) =
     [accept_rule ''l2tp_10'' ''10.40.0.0/24'' True, accept_rule ''l2tp_10'' ''10.40.0.0/24'' False] \<and>
   others (ownerComment ''l2tp_10'') (nft_view (fst (EnsureForwardAcceptForSubnet (nft_host []) ''10.40.0.0/24'' ''l2tp_10'' nft_start)) forward_chain) =
     nft_start forward_chain"
proof -
  let ?en = "EnsureForwardAcceptForSubnet (nft_host []) ''10.40.0.0/24'' ''l2tp_10'' nft_start"
  have f: "accept_says ''openvpn_10'' (ruleComment ''openvpn_10'' ''10.30.0.0/24'' True)" using plain_examples by (auto simp: accept_says_def)
  have w: "plain_word (TrimSpace ''10.40.0.0/24'')" using plain_examples(4) trim_example by simp
  let ?rule = "\<lparr>nr_handle = ''7'', nr_spec = accept_spec ''10.30.0.0/24'' True, nr_comment = Some (ruleComment ''openvpn_10'' ''10.30.0.0/24'' True)\<rparr>"
  have "\<not> carries (ownerComment ''l2tp_10'') ?rule" by (rule accept.foreign_rule [OF plain_examples(3,1) _ f]) simp_all
  then have o: "others (ownerComment ''l2tp_10'') (nft_view nft_start forward_chain) = nft_start forward_chain"
    by (simp add: others_def nft_view_def nft_start_def)
  show ?thesis
    using forward_rules_owned [OF nft_host_law [of "[]"] nft_start_tidy plain_examples(3) w forward_example prod.collapse [symmetric]
        prod.collapse [symmetric] plain_examples(1) _ f, of ?rule] ensure_example [of "[]" "''l2tp_10''"] o
    by (simp add: trim_example)
qed


section \<open>Segment size\<close>

text \<open>The sizes of the interfaces that can carry forwarded traffic.\<close>

definition usable_mtus :: "net_iface list \<Rightarrow> int64 list" where
  "usable_mtus ifaces = map ni_MTU (filter (\<lambda>i. eligibleForMTU (ni_Name i) (ni_Up i) (ni_Loopback i) \<and> 0 < ni_MTU i) ifaces)"

lemma mtu_fold:
  "0 < m \<Longrightarrow> foldl mtu_step m ifaces = Min (set (m # usable_mtus ifaces))"
proof (induction ifaces arbitrary: m)
  case (Cons i ifs)
  show ?case
  proof (cases "eligibleForMTU (ni_Name i) (ni_Up i) (ni_Loopback i) \<and> 0 < ni_MTU i")
    case True
    then have "foldl mtu_step m (i # ifs) = foldl mtu_step (min m (ni_MTU i)) ifs" using Cons.prems by (simp add: mtu_step_def min_def)
    also have "\<dots> = Min (insert (min m (ni_MTU i)) (set (usable_mtus ifs)))" using Cons True by simp
    also have "\<dots> = Min (insert m (insert (ni_MTU i) (set (usable_mtus ifs))))"
      by (cases "usable_mtus ifs = []") (simp_all add: min.assoc)
    finally show ?thesis using True by (simp add: usable_mtus_def)
  next
    case False
    then show ?thesis using Cons by (auto simp: mtu_step_def usable_mtus_def)
  qed
qed (simp add: usable_mtus_def)

lemma smallest_mtu: "foldl mtu_step 0 ifaces = (if usable_mtus ifaces = [] then 0 else Min (set (usable_mtus ifaces)))"
proof (induction ifaces)
  case (Cons i ifs)
  show ?case
  proof (cases "eligibleForMTU (ni_Name i) (ni_Up i) (ni_Loopback i) \<and> 0 < ni_MTU i")
    case True
    then have "mtu_step 0 i = ni_MTU i" by (simp add: mtu_step_def)
    then show ?thesis using True mtu_fold [of "ni_MTU i" "ifs"] by (simp add: usable_mtus_def)
  next
    case False
    then show ?thesis using Cons by (auto simp: mtu_step_def usable_mtus_def)
  qed
qed (simp add: usable_mtus_def)

lemma mssForMTU_value: "0 < mtu \<Longrightarrow> mssForMTU mtu = max 536 (min 1500 mtu - 160)"
  by (auto simp: mssForMTU_def Let_def mtuCeiling_def mssHeadroom_def mssFloor_def sub64_def wrap64_def)

text \<open>
  C40: The segment size is the smallest MTU of the interfaces that are up and carry forwarded traffic,
  capped at 1500, less the headroom, and never below the floor; without such an interface there is an
  error and no clamp. So it is between 536 and 1340, and unless it is the floor a segment leaves 160
  bytes of headroom on every such interface.
\<close>

theorem path_mss_narrowest:
  assumes "hx_ifaces E s = Inr ifaces"
  shows "PathMSS E s = (if usable_mtus ifaces = [] then Inl ''no usable interface found''
           else Inr (max 536 (min 1500 (Min (set (usable_mtus ifaces))) - 160))) \<and>
         (case PathMSS E s of Inl e \<Rightarrow> True
          | Inr mss \<Rightarrow> 536 \<le> mss \<and> mss \<le> 1340 \<and> (mss = 536 \<or> list_all (\<lambda>mtu. mss + 160 \<le> mtu) (usable_mtus ifaces)))"
proof -
  have P: "PathMSS E s = (if usable_mtus ifaces = [] then Inl ''no usable interface found''
           else Inr (max 536 (min 1500 (Min (set (usable_mtus ifaces))) - 160)))"
  proof (cases "usable_mtus ifaces = []")
    case True
    then show ?thesis by (simp add: PathMSS_def smallestForwardingMTU_def assms smallest_mtu)
  next
    case False
    then have "Min (set (usable_mtus ifaces)) \<in> set (usable_mtus ifaces)" by (intro Min_in) simp_all
    then have p: "0 < Min (set (usable_mtus ifaces))" by (auto simp: usable_mtus_def)
    then have "Min (set (usable_mtus ifaces)) \<noteq> 0" by linarith
    then have "smallestForwardingMTU E s = Inr (Min (set (usable_mtus ifaces)))"
      using False by (simp add: smallestForwardingMTU_def assms smallest_mtu Let_def)
    then show ?thesis using False mssForMTU_value [OF p] by (simp add: PathMSS_def)
  qed
  let ?m = "Min (set (usable_mtus ifaces))"
  have "max 536 (min 1500 ?m - 160) = 536 \<or> list_all (\<lambda>mtu. max 536 (min 1500 ?m - 160) + 160 \<le> mtu) (usable_mtus ifaces)"
  proof (cases "max 536 (min 1500 ?m - 160) = 536")
    case False
    then have "max 536 (min 1500 ?m - 160) + 160 \<le> ?m" by linarith
    moreover have "?m \<le> mtu" if "mtu \<in> set (usable_mtus ifaces)" for mtu using that by simp
    ultimately show ?thesis unfolding list_all_iff by (meson order_trans)
  qed simp
  then show ?thesis unfolding P by simp
qed

definition example_ifaces :: "net_iface list" where
  "example_ifaces =
     [\<lparr>ni_Name = ''lo'', ni_Up = True, ni_Loopback = True, ni_MTU = 65536\<rparr>,
      \<lparr>ni_Name = ''eth0'', ni_Up = True, ni_Loopback = False, ni_MTU = 1500\<rparr>,
      \<lparr>ni_Name = ''docker0'', ni_Up = True, ni_Loopback = False, ni_MTU = 1000\<rparr>,
      \<lparr>ni_Name = ''tun-de'', ni_Up = True, ni_Loopback = False, ni_MTU = 1320\<rparr>]"

theorem path_mss_narrowest_witness: "PathMSS (nft_host example_ifaces) nft_start = Inr 1160"
proof -
  have "usable_mtus example_ifaces = [1500, 1320]"
    by (simp add: usable_mtus_def example_ifaces_def eligibleForMTU_def HasPrefix_def)
  then show ?thesis using path_mss_narrowest [of "nft_host example_ifaces" nft_start example_ifaces] by (simp add: nft_host_def)
qed

end
