(* ===== verification/Host_Clamp.thy ===== *)
theory Host_Clamp
  imports Host_Forward
begin

text \<open>
  The clamp rules interpret \<open>tagged_rules\<close> too. A call that installs them leaves exactly the two rules with
  the size of the path; a call that fails half-way can leave none, and the next one does not notice.
\<close>

definition mss_says :: "string \<Rightarrow> string \<Rightarrow> bool" where
  "mss_says ow t \<longleftrightarrow> (\<exists>what target client mss. what \<in> {''subnet'', ''iface''} \<and> plain_word target \<and> 0 \<le> mss \<and>
     t = mss_comment ow what target client mss)"

lemma mss_words:
  "mss_comment ow what target client mss =
     Join [''pg_node_mss'', ''owner='' @ ow, what @ ''='' @ target, ''direction='' @ (if client then ''from-client'' else ''to-client''), ''mss='' @ show_int mss] '' ''"
  by (simp add: mss_comment_def mssCommentPrefix_def)

lemma mss_literals:
  "plain_text ''subnet''" "plain_text ''iface''" "plain_text ''=''" "plain_text ''from-client''" "plain_text ''to-client''" "plain_text '' mss=''"
  by (simp_all add: plain_text_def plain_char_def graphic_def of_char_def quote_mark_def hash_def byte_marks) (code_simp+)?

lemma digit_plain: "is_digit ch \<Longrightarrow> plain_char ch"
proof -
  assume d: "is_digit ch"
  have "of_char hash = (35 :: nat)" by (simp add: hash_def of_char_def)
  then show ?thesis using digit_graphic [OF d] d by (auto simp: plain_char_def is_digit_def quote_mark_def)
qed

lemma show_int_plain: "0 \<le> i \<Longrightarrow> plain_word (show_int i)"
  using parse_show_nat [of "nat i"] digit_plain by (auto simp: show_int_def plain_word_def list_all_iff)

interpretation clamp: tagged_rules mssOwnerComment mss_says
proof
  fix ow ow' t :: string
  assume w: "plain_word ow"
  show "owner_tag (mssOwnerComment ow)"
    unfolding owner_tag_def mssOwnerComment_def mssCommentPrefix_def
    by (simp only: Contains_append plain_text_append plain_literals plain_word_text [OF w] simp_thms)
  show "plain_text t \<and> Contains t (mssOwnerComment ow)" if says: "mss_says ow t"
  proof -
    obtain what target client mss where t: "what \<in> {''subnet'', ''iface''}" "plain_word target" "0 \<le> mss" "t = mss_comment ow what target client mss"
      using says by (auto simp: mss_says_def)
    have "Contains t (mssOwnerComment ow)" unfolding t(4)
      using Contains_append [of "[]" "mssOwnerComment ow" "what @ ''='' @ target @ '' direction='' @ (if client then ''from-client'' else ''to-client'') @ '' mss='' @ show_int mss"]
      by (simp add: mss_comment_def mssOwnerComment_def)
    moreover have "plain_text what" using t(1) mss_literals by auto
    then have "plain_text t"
      unfolding t(4) mss_comment_def mssCommentPrefix_def
      by (simp only: plain_text_append plain_literals mss_literals plain_word_text [OF w] plain_word_text [OF t(2)]
          plain_word_text [OF show_int_plain [OF t(3)]] simp_thms split: if_split)
    ultimately show ?thesis by simp
  qed
  show "ow' = ow" if says: "plain_word ow'" "mss_says ow' t" "Contains t (mssOwnerComment ow)"
  proof -
    obtain what target client mss where t: "what \<in> {''subnet'', ''iface''}" "plain_word target" "0 \<le> mss" "t = mss_comment ow' what target client mss"
      using says(2) by (auto simp: mss_says_def)
    have "''owner='' @ ow \<in> set [''pg_node_mss'', ''owner='' @ ow', what @ ''='' @ target, ''direction='' @ (if client then ''from-client'' else ''to-client''), ''mss='' @ show_int mss]"
      by (rule tag_word [of _ "''pg_node_mss''"])
        (use says(3) w no_blank [OF says(1)] no_blank [OF t(2)] no_blank [OF show_int_plain [OF t(3)]] t(1) in
          \<open>auto simp: t(4) mss_words mssOwnerComment_def mssCommentPrefix_def\<close>)
    then show ?thesis using t(1) by auto
  qed
qed

definition clamp_rule :: "string list \<Rightarrow> string \<Rightarrow> string \<Rightarrow> string \<Rightarrow> bool \<Rightarrow> int64 \<Rightarrow> string list \<times> string option" where
  "clamp_rule match ow what target client mss =
     (match @ [''tcp'', ''flags'', ''syn'', ''/'', ''syn,rst'', ''tcp'', ''option'', ''maxseg'', ''size'', ''set'', show_int mss],
      Some (mss_comment ow what target client mss))"

lemma mss_args_spec:
  "mss_args match mss (mss_comment ow what target client mss) =
     [''add'', ''rule''] @ chain_args mss_chain @ fst (clamp_rule match ow what target client mss) @ [''comment'', go_quote (mss_comment ow what target client mss)]"
  by (simp add: mss_args_def chain_args_def mss_chain_def clamp_rule_def)

lemma ensureMSSChain_acts:
  assumes "nft_law E view"
  shows "acts view tag mss_chain (\<lambda>m. m) (ensureMSSChain E)"
proof -
  have c: "[''add'', ''chain'', ''ip'', mssTable, mssChain, x] = [''add'', ''chain''] @ chain_args mss_chain @ [x]" for x
    by (simp add: chain_args_def mss_chain_def)
  show ?thesis unfolding ensureMSSChain_def c using acts_and_then [OF add_table_acts [OF assms] add_chain_acts [OF assms]] .
qed

lemma clamp_rules_acts:
  assumes "nft_law E view" "plain_word ow" "plain_word target" "0 \<le> mss" "what \<in> {''subnet'', ''iface''}"
    and add: "\<And>client. add client = runNFT E (mss_args (match client) mss (mss_comment ow what target client mss))"
  shows "acts view (mssOwnerComment ow) mss_chain
    (\<lambda>m. [clamp_rule (match True) ow what target True mss, clamp_rule (match False) ow what target False mss]) (clamp_rules E ow add)"
proof -
  have says: "mss_says ow (mss_comment ow what target client mss)" for client using assms(3-5) by (auto simp: mss_says_def)
  have rule: "clamp_rule mt ow what target client mss = (fst (clamp_rule mt ow what target client mss), Some (mss_comment ow what target client mss))" for mt client
    by (simp add: clamp_rule_def)
  have a: "acts view (mssOwnerComment ow) mss_chain (\<lambda>m. m @ [clamp_rule (match client) ow what target client mss]) (add client)" for client
    using clamp.add_acts [OF assms(1,2) says [of client], of mss_chain "fst (clamp_rule (match client) ow what target client mss)"]
    unfolding add mss_args_spec rule [symmetric] .
  show ?thesis
    unfolding clamp_rules_def removeMSSRules_def
    using acts_and_then [OF ensureMSSChain_acts [OF assms(1)] acts_and_then [OF clamp.remove_acts [OF assms(1,2)] acts_and_then [OF a a]]]
    by simp
qed

text \<open>A clamp that was installed, not skipped, leaves exactly its two rules and touches no other.\<close>

lemma EnsureMSSClampForSubnet_installs:
  assumes "nft_law E view" "tidy_rules (view s)" "plain_word ow" "plain_word (TrimSpace subnet)" "PathMSS E s = Inr mss" "getd 0 applied ow \<noteq> mss" "0 \<le> mss"
    and run: "EnsureMSSClampForSubnet E subnet ow (applied, s) = ((applied', s'), r)"
  shows "kept (mssOwnerComment ow) mss_chain (view s) (view s')"
    "r = Inr mss \<and> applied' = applied(ow \<mapsto> mss) \<and> owned (mssOwnerComment ow) (view s' mss_chain) =
       [clamp_rule [''ip'', ''saddr'', TrimSpace subnet] ow ''subnet'' (TrimSpace subnet) True mss,
        clamp_rule [''ip'', ''daddr'', TrimSpace subnet] ow ''subnet'' (TrimSpace subnet) False mss] \<or>
     isl r \<and> applied' = applied"
proof -
  let ?x = "TrimSpace subnet"
  obtain s1 e where c: "clamp_rules E ow (addMSSRule E ?x ow mss) s = (s1, e)" by fastforce
  have A: "kept (mssOwnerComment ow) mss_chain (view s) (view s1)"
    "e = None \<longrightarrow> owned (mssOwnerComment ow) (view s1 mss_chain) =
       [clamp_rule [''ip'', ''saddr'', ?x] ow ''subnet'' ?x True mss, clamp_rule [''ip'', ''daddr'', ?x] ow ''subnet'' ?x False mss]"
    using acts_done [OF clamp_rules_acts [OF assms(1,3,4,7), of "''subnet''" _ "\<lambda>b. [''ip'', if b then ''saddr'' else ''daddr'', ?x]"] c assms(2)]
    by (simp_all add: addMSSRule_def)
  have "?x \<noteq> []" using assms(4) by (simp add: plain_word_def)
  then have "s' = s1 \<and> applied' = (if e = None then applied(ow \<mapsto> mss) else applied) \<and> (case e of None \<Rightarrow> r = Inr mss | Some x \<Rightarrow> r = Inl x)"
    using run c assms(5,6) by (auto simp: EnsureMSSClampForSubnet_def ensure_clamp_def Let_def split: option.splits)
  then show "kept (mssOwnerComment ow) mss_chain (view s) (view s')"
    "r = Inr mss \<and> applied' = applied(ow \<mapsto> mss) \<and> owned (mssOwnerComment ow) (view s' mss_chain) =
       [clamp_rule [''ip'', ''saddr'', ?x] ow ''subnet'' ?x True mss, clamp_rule [''ip'', ''daddr'', ?x] ow ''subnet'' ?x False mss] \<or>
     isl r \<and> applied' = applied"
    using A by (auto split: option.splits)
qed

text \<open>
  A call that fails keeps the size recorded before, although the rules with it are gone. When the path
  gets its old size back the next call compares with the record and reports success without a rule.
\<close>

lemma failed_clamp_forgotten:
  assumes "PathMSS E s = Inr mss" "getd 0 applied ow = old" "old \<noteq> mss" "TrimSpace subnet \<noteq> []"
    and failed: "clamp_rules E ow (addMSSRule E (TrimSpace subnet) ow mss) s = (s1, Some e)"
    and restored: "PathMSS E s2 = Inr old" "mssChainExists E s2 = (s2, True)"
  shows "EnsureMSSClampForSubnet E subnet ow (applied, s) = ((applied, s1), Inl e)"
    "EnsureMSSClampForSubnet E subnet ow (applied, s2) = ((applied, s2), Inr old)"
  using assms by (simp_all add: EnsureMSSClampForSubnet_def ensure_clamp_def Let_def)

text \<open>
  Stopping the refresher does not wait for a tick under way: a tick that comes after RemoveMSSClamp
  installs the rules of the stopped core again.
\<close>

lemma late_tick_restores_rules:
  assumes "nft_law E view" "tidy_rules (view s)" "plain_word ow" "plain_word (TrimSpace subnet)"
    and removed: "RemoveMSSClamp E ow (applied, s) = ((applied1, s1), None)" and t1: "tidy_rules (view s1)"
    and path: "PathMSS E s1 = Inr mss" "0 < mss"
    and tick: "refresher_tick (EnsureMSSClampForSubnet E subnet ow) subnet (mss, applied1, s1) = ((last_mss, applied2, s2), line)"
    and installed: "applied2 ow \<noteq> None"
  shows "length (owned (mssOwnerComment ow) (view s2 mss_chain)) = 2"
proof -
  have a1: "applied1 ow = None" using removed by (auto simp: RemoveMSSClamp_def split: prod.splits bool.splits)
  obtain st r where e: "EnsureMSSClampForSubnet E subnet ow (applied1, s1) = (st, r)" by fastforce
  have "st = (applied2, s2)" using tick e by (auto simp: refresher_tick_def split: sum.splits)
  then have e': "EnsureMSSClampForSubnet E subnet ow (applied1, s1) = ((applied2, s2), r)" using e by simp
  have "getd 0 applied1 ow \<noteq> mss" using a1 path(2) by (simp add: getd_def)
  from EnsureMSSClampForSubnet_installs(2) [OF assms(1) t1 assms(3,4) path(1) this _ e'] show ?thesis
    using path(2) installed a1 by auto
qed

end
