(* ===== verification/Host_Routing.thy ===== *)
theory Host_Routing
  imports Egress Host_Clamp Go_Crypto
begin

text \<open>
  What a tunnel backend sets up on the host when it starts and takes down when it stops:
  \<^verbatim>\<open>nat_linux.go\<close> of the L2TP and OpenVPN backends, and \<^verbatim>\<open>host_routing_linux.go\<close> with
  \<^verbatim>\<open>defaultroute_linux.go\<close> of the WireGuard backend. A clean-up function is the record of what it
  closes over. Log lines are left out, so errors the code only logs are dropped.
\<close>

section \<open>L2TP and OpenVPN\<close>

definition routing_off :: "string \<Rightarrow> bool" where
  "routing_off setting \<longleftrightarrow> (let v = TrimSpace setting in v = ''0'' \<or> EqualFold v ''false'')"

definition owner_part :: "string \<Rightarrow> string" where
  "owner_part subnet = map (\<lambda>ch. if ch \<in> {CHR ''/'', CHR ''.'', CHR '':''} then CHR ''_'' else ch) subnet"

definition nat_masquerade :: "'s host_env \<Rightarrow> string \<Rightarrow> string \<Rightarrow> string \<Rightarrow> 's \<Rightarrow> 's \<times> err" where
  "nat_masquerade E subnet outIf action =
     runIptables E ([''-t'', ''nat'', action, ''POSTROUTING'', ''-s'', subnet] @
       (if outIf \<noteq> [] then [''-o'', outIf] else []) @ [''-j'', ''MASQUERADE''])"

text \<open>The rule is added when the check does not find it.\<close>

definition nat_masquerade_ensure :: "'s host_env \<Rightarrow> string \<Rightarrow> string \<Rightarrow> 's \<Rightarrow> 's" where
  "nat_masquerade_ensure E subnet outIf s =
     (case nat_masquerade E subnet outIf ''-C'' s of
        (s1, None) \<Rightarrow> s1
      | (s1, Some e) \<Rightarrow> fst (nat_masquerade E subnet outIf ''-A'' s1))"

definition l2_forwardOwnerID :: "string \<Rightarrow> string" where
  "l2_forwardOwnerID pool = ''l2tp_'' @ owner_part pool"

record l2_routing =
  lr_pool :: string
  lr_outIf :: string
  lr_egress :: egress_cleanup
  lr_owner :: string

definition l2_applyHostRouting :: "'s host_env \<Rightarrow> string \<Rightarrow> string \<Rightarrow> applied \<times> 's \<Rightarrow> (applied \<times> 's) \<times> l2_routing option" where
  "l2_applyHostRouting E pool egressIface st =
     (if routing_off (hx_getenv E ''PG_NODE_L2TP_HOST_ROUTING'') \<or> TrimSpace pool = [] then (st, None)
      else
        (case st of (applied, s) \<Rightarrow>
          let s1 = fst (ensureIPv4Forwarding E s);
              outIf = (let o1 = TrimSpace egressIface in
                       if o1 = [] then TrimSpace (hx_getenv E ''PG_NODE_L2TP_NAT_OUTPUT_INTERFACE'') else o1);
              (s2, egressCleanup, _) = egress_Apply E pool egressIface s1;
              s3 = nat_masquerade_ensure E pool outIf s2;
              owner = l2_forwardOwnerID pool;
              s4 = fst (EnsureForwardAcceptForSubnet E pool owner s3)
          in (fst (EnsureMSSClampForSubnet E pool owner (applied, s4)),
              Some \<lparr>lr_pool = pool, lr_outIf = outIf, lr_egress = egressCleanup, lr_owner = owner\<rparr>)))"

definition l2_routing_cleanup :: "'s host_env \<Rightarrow> l2_routing \<Rightarrow> applied \<times> 's \<Rightarrow> applied \<times> 's" where
  "l2_routing_cleanup E r st =
     (case st of (applied, s) \<Rightarrow>
       let s1 = egress_undo E (lr_egress r) s;
           s2 = fst (nat_masquerade E (lr_pool r) (lr_outIf r) ''-D'' s1);
           s3 = fst (RemoveForwardRules E (lr_owner r) s2)
       in fst (RemoveMSSClamp E (lr_owner r) (applied, s3)))"

definition ov_forwardOwnerID :: "string \<Rightarrow> string" where
  "ov_forwardOwnerID subnet = ''openvpn_'' @ owner_part subnet"

record ov_routing =
  or_subnet :: string
  or_outIf :: string
  or_owner :: string

definition ov_applyHostRouting :: "'s host_env \<Rightarrow> string \<Rightarrow> 's \<Rightarrow> 's \<times> ov_routing option" where
  "ov_applyHostRouting E serverSubnet s =
     (if routing_off (hx_getenv E ''PG_NODE_OPENVPN_HOST_ROUTING'') \<or> TrimSpace serverSubnet = [] then (s, None)
      else
        let s1 = fst (ensureIPv4Forwarding E s);
            outIf = TrimSpace (hx_getenv E ''PG_NODE_OPENVPN_NAT_OUTPUT_INTERFACE'');
            s2 = nat_masquerade_ensure E serverSubnet outIf s1;
            owner = ov_forwardOwnerID serverSubnet
        in (fst (EnsureForwardAcceptForSubnet E serverSubnet owner s2),
            Some \<lparr>or_subnet = serverSubnet, or_outIf = outIf, or_owner = owner\<rparr>))"

definition ov_routing_cleanup :: "'s host_env \<Rightarrow> ov_routing \<Rightarrow> 's \<Rightarrow> 's" where
  "ov_routing_cleanup E r s = fst (RemoveForwardRules E (or_owner r) (fst (nat_masquerade E (or_subnet r) (or_outIf r) ''-D'' s)))"


section \<open>WireGuard\<close>

subsection \<open>The interface of the default route\<close>

fun default_row :: "string list \<Rightarrow> string option" where
  "default_row [] = None"
| "default_row (line # ls) =
     (case Fields line of
        iface # dest # _ \<Rightarrow> if iface = ''Iface'' then default_row ls else if dest = ''00000000'' then Some iface else default_row ls
      | _ \<Rightarrow> default_row ls)"

definition parseDefaultIfaceFromProcNetRoute :: "string \<Rightarrow> string option" where
  "parseDefaultIfaceFromProcNetRoute data = default_row (Split data nl)"

text \<open>\<open>routes\<close> decodes the devices in the output of ip; \<open>hx_exec\<close> gives its standard output here.\<close>

definition linuxDefaultRouteInterfaceIPv4 :: "'s host_env \<Rightarrow> (string \<Rightarrow> string + string list) \<Rightarrow> 's \<Rightarrow> 's \<times> string option" where
  "linuxDefaultRouteInterfaceIPv4 E routes s =
     (case hx_exec E ''ip'' [''-4'', ''-j'', ''route'', ''show'', ''default''] s of (s1, out, e) \<Rightarrow>
       (let found = (if e = None then
                       (case routes (TrimSpace out) of
                          Inr (dev # _) \<Rightarrow> if TrimSpace dev \<noteq> [] then Some (TrimSpace dev) else None
                        | _ \<Rightarrow> None)
                     else None)
        in case found of
             Some dev \<Rightarrow> (s1, Some dev)
           | None \<Rightarrow> (s1, case hx_read E ''/proc/net/route'' s1 of Inl e \<Rightarrow> None | Inr t \<Rightarrow> parseDefaultIfaceFromProcNetRoute t)))"


subsection \<open>The owner of a start\<close>

text \<open>
  The width of the first rune of a text in UTF-8; a byte that starts no rune counts alone.
\<close>

definition within :: "nat \<Rightarrow> nat \<Rightarrow> nat \<Rightarrow> bool" where
  "within l u b \<longleftrightarrow> l \<le> b \<and> b \<le> u"

fun rune_width :: "nat list \<Rightarrow> nat" where
  "rune_width bs =
     (let cont = within 128 191 in
      case bs of
        a # b # rest \<Rightarrow>
          if within 194 223 a then (if cont b then 2 else 1)
          else if within 224 239 a then
            (if within (if a = 224 then 160 else 128) (if a = 237 then 159 else 191) b \<and> rest \<noteq> [] \<and> cont (hd rest) then 3 else 1)
          else if within 240 244 a then
            (if within (if a = 240 then 144 else 128) (if a = 244 then 143 else 191) b \<and> length rest \<ge> 2 \<and> cont (hd rest) \<and> cont (rest ! 1) then 4 else 1)
          else 1
      | _ \<Rightarrow> 1)"

declare rune_width.simps [simp del]

lemma rune_width_pos: "0 < rune_width bs"
  by (subst rune_width.simps) (simp add: Let_def split: list.split)

definition owner_char :: "char \<Rightarrow> bool" where
  "owner_char ch \<longleftrightarrow>
     (let n = (of_char ch :: nat) in within 97 122 n \<or> within 65 90 n \<or> within 48 57 n \<or> ch \<in> {CHR ''_'', CHR ''-'', CHR ''.''})"

function owner_runes :: "string \<Rightarrow> string" where
  "owner_runes s =
     (if s = [] then []
      else (if owner_char (hd s) then hd s else CHR ''_'') # owner_runes (drop (rune_width (map of_char s)) s))"
  by pat_completeness auto
termination by (relation "measure length") (use rune_width_pos in auto)

declare owner_runes.simps [simp del]

definition sanitizeNFTOwnerPart :: "string \<Rightarrow> string" where
  "sanitizeNFTOwnerPart s0 =
     (let s = TrimSpace s0 in
      if s = [] then ''wg'' else let b = owner_runes s in if b = [] then ''wg'' else b)"

text \<open>\<open>rnd\<close> is the result of \<^verbatim>\<open>rand.Read\<close>: eight bytes, or \<open>None\<close> for an error.\<close>

definition newHostRoutingOwnerID :: "int \<Rightarrow> nat list option \<Rightarrow> gotime \<Rightarrow> string \<Rightarrow> string" where
  "newHostRoutingOwnerID pid rnd now wgIface =
     sanitizeNFTOwnerPart wgIface @ ''_'' @ show_int pid @ ''_'' @
     (case rnd of None \<Rightarrow> show_int now | Some bs \<Rightarrow> hex_bytes bs)"


subsection \<open>Rules\<close>

definition nftRuleCommentPrefix :: string where
  "nftRuleCommentPrefix = ''pg_node_wg ''"

definition nftOwnerCommentPrefix :: "string \<Rightarrow> string" where
  "nftOwnerCommentPrefix ownerID = nftRuleCommentPrefix @ ''owner='' @ ownerID @ '' ''"

definition nftForwardRuleComment :: "string \<Rightarrow> string \<Rightarrow> string \<Rightarrow> bool \<Rightarrow> string" where
  "nftForwardRuleComment ownerID wgIface outputIface outbound =
     nftRuleCommentPrefix @ ''owner='' @ ownerID @ '' type=forward iface='' @ wgIface @ '' out='' @ outputIface @
     '' direction='' @ (if outbound then ''outbound'' else ''return'')"

definition nftNATRuleComment :: "string \<Rightarrow> string \<Rightarrow> string \<Rightarrow> bool \<Rightarrow> string" where
  "nftNATRuleComment ownerID wgIface outputIface egressOnly =
     nftRuleCommentPrefix @ ''owner='' @ ownerID @ '' type=nat iface='' @ wgIface @ '' out='' @ outputIface @
     '' scope='' @ (if egressOnly then ''egress'' else ''interface'')"

definition nftMasqueradeRuleArgs :: "string \<Rightarrow> string \<Rightarrow> bool \<Rightarrow> string list" where
  "nftMasqueradeRuleArgs wgIface outputIface egressOnly =
     (if egressOnly then [''oifname'', go_quote outputIface, ''masquerade'']
      else [''iifname'', go_quote wgIface, ''oifname'', go_quote outputIface, ''masquerade''])"

definition nat_chain :: base_chain where
  "nat_chain = \<lparr>family = ''ip'', table = ''pg_node_wg_nat'', bc_name = ''postrouting''\<rparr>"

definition nftAlreadyExists :: "string \<Rightarrow> bool" where
  "nftAlreadyExists e \<longleftrightarrow> Contains e ''File exists''"

text \<open>A command whose error is ignored when it says the wanted state was there.\<close>

definition forgive :: "(string \<Rightarrow> bool) \<Rightarrow> ('s \<Rightarrow> 's \<times> err) \<Rightarrow> 's \<Rightarrow> 's \<times> err" where
  "forgive known f s = (case f s of (s', Some e) \<Rightarrow> (s', if known e then None else Some e) | (s', None) \<Rightarrow> (s', None))"

text \<open>
  \<^verbatim>\<open>removeNFTRulesWithCommentPrefix\<close> and \<^verbatim>\<open>nftForwardBaseChains\<close> are the code of
  \<^verbatim>\<open>removeRulesWithComment\<close> and \<^verbatim>\<open>forwardBaseChains\<close> once more.
\<close>

definition removeNFTRulesWithCommentPrefix :: "'s host_env \<Rightarrow> base_chain \<Rightarrow> string \<Rightarrow> 's \<Rightarrow> 's \<times> err" where
  "removeNFTRulesWithCommentPrefix = removeRulesWithComment"

definition nftForwardBaseChains :: "'s host_env \<Rightarrow> 's \<Rightarrow> 's \<times> (string + base_chain list)" where
  "nftForwardBaseChains = forwardBaseChains"

definition ensureNFTMasquerade :: "'s host_env \<Rightarrow> string \<Rightarrow> string \<Rightarrow> bool \<Rightarrow> string \<Rightarrow> 's \<Rightarrow> 's \<times> err" where
  "ensureNFTMasquerade E wgIface outputIface egressOnly ownerID =
     and_then (forgive nftAlreadyExists (runNFT E [''add'', ''table'', family nat_chain, table nat_chain]))
       (and_then (forgive nftAlreadyExists (runNFT E ([''add'', ''chain''] @ chain_args nat_chain @
          [''{'', ''type'', ''nat'', ''hook'', ''postrouting'', ''priority'', ''100'', '';'', ''policy'', ''accept'', '';'', ''}''])))
         (and_then (removeNFTRulesWithCommentPrefix E nat_chain (nftOwnerCommentPrefix ownerID))
           (runNFT E ([''add'', ''rule''] @ chain_args nat_chain @ nftMasqueradeRuleArgs wgIface outputIface egressOnly @
              [''comment'', go_quote (nftNATRuleComment ownerID wgIface outputIface egressOnly)]))))"

definition insertNFTForwardRule :: "'s host_env \<Rightarrow> base_chain \<Rightarrow> string \<Rightarrow> string \<Rightarrow> string \<Rightarrow> bool \<Rightarrow> 's \<Rightarrow> 's \<times> err" where
  "insertNFTForwardRule E chain wgIface outputIface ownerID outbound =
     runNFT E ([''insert'', ''rule''] @ chain_args chain @
       (if outbound then [''iifname'', go_quote wgIface, ''oifname'', go_quote outputIface, ''accept'']
        else [''iifname'', go_quote outputIface, ''oifname'', go_quote wgIface, ''ct'', ''state'', ''established,related'', ''accept'']) @
       [''comment'', go_quote (nftForwardRuleComment ownerID wgIface outputIface outbound)])"

definition wg_accept_in_chain :: "'s host_env \<Rightarrow> string \<Rightarrow> string \<Rightarrow> string \<Rightarrow> base_chain \<Rightarrow> 's \<Rightarrow> 's \<times> err" where
  "wg_accept_in_chain E wgIface outputIface ownerID chain =
     and_then (removeNFTRulesWithCommentPrefix E chain (nftOwnerCommentPrefix ownerID))
       (and_then (insertNFTForwardRule E chain wgIface outputIface ownerID False)
                 (insertNFTForwardRule E chain wgIface outputIface ownerID True))"

definition ensureNFTForwarding :: "'s host_env \<Rightarrow> string \<Rightarrow> string \<Rightarrow> string \<Rightarrow> 's \<Rightarrow> 's \<times> err" where
  "ensureNFTForwarding E wgIface outputIface ownerID s =
     (case nftForwardBaseChains E s of
        (s1, Inl e) \<Rightarrow> (s1, Some e)
      | (s1, Inr bases) \<Rightarrow> each_chain (wg_accept_in_chain E wgIface outputIface ownerID) bases s1)"

text \<open>All errors are collected; \<^verbatim>\<open>errors.Join\<close> of them is an error when there is one.\<close>

definition join_errors :: "err list \<Rightarrow> err" where
  "join_errors es = (let ms = present es in if ms = [] then None else Some (Join ms nl))"

fun collect_each :: "('c \<Rightarrow> 's \<Rightarrow> 's \<times> err) \<Rightarrow> 'c list \<Rightarrow> 's \<Rightarrow> 's \<times> err list" where
  "collect_each f [] s = (s, [])"
| "collect_each f (c # cs) s = (case f c s of (s', e) \<Rightarrow> (case collect_each f cs s' of (s'', es) \<Rightarrow> (s'', e # es)))"

definition cleanupLinuxHostRouting :: "'s host_env \<Rightarrow> string \<Rightarrow> 's \<Rightarrow> 's \<times> err" where
  "cleanupLinuxHostRouting E ownerID s =
     (case removeNFTRulesWithCommentPrefix E nat_chain (nftOwnerCommentPrefix ownerID) s of (s1, e1) \<Rightarrow>
       (case nftForwardBaseChains E s1 of
          (s2, Inl e) \<Rightarrow> (s2, join_errors [e1, Some e])
        | (s2, Inr bases) \<Rightarrow>
           (case collect_each (\<lambda>c. removeNFTRulesWithCommentPrefix E c (nftOwnerCommentPrefix ownerID)) bases s2 of
              (s3, es) \<Rightarrow> (s3, join_errors (e1 # es)))))"


subsection \<open>Policy routing\<close>

record wg_policy =
  wp_wgIface :: string
  wp_outIface :: string
  wp_table :: string

record wg_settings =
  ws_HostRouting :: bool
  ws_NATOutputInterface :: string
  ws_NATEgressOnly :: bool
  ws_NATDisable :: bool
  ws_RouteTable :: string
  ws_RouteOutInterface :: string

definition parsePolicyRoute :: "wg_settings option \<Rightarrow> string \<Rightarrow> wg_policy option" where
  "parsePolicyRoute cfg wgIface =
     (case cfg of
        None \<Rightarrow> None
      | Some c \<Rightarrow>
         (let tbl = TrimSpace (ws_RouteTable c); outIface = TrimSpace (ws_RouteOutInterface c) in
          if tbl = [] \<or> outIface = [] then None
          else Some \<lparr>wp_wgIface = wgIface, wp_outIface = outIface, wp_table = tbl\<rparr>))"

definition ipRuleExists :: "string \<Rightarrow> bool" where
  "ipRuleExists e \<longleftrightarrow> Contains e ''File exists''"

definition ipRuleMissing :: "string \<Rightarrow> bool" where
  "ipRuleMissing msg \<longleftrightarrow> Contains msg ''No such'' \<or> Contains msg ''not found'' \<or> Contains msg ''does not exist''"

definition policy_apply :: "'s host_env \<Rightarrow> wg_policy \<Rightarrow> 's \<Rightarrow> 's \<times> err" where
  "policy_apply E p =
     and_then (forgive ipRuleExists (runIP E [''rule'', ''add'', ''iif'', wp_wgIface p, ''lookup'', wp_table p]))
       (forgive ipRuleExists (runIP E [''route'', ''add'', ''default'', ''dev'', wp_outIface p, ''table'', wp_table p]))"

definition policy_cleanup :: "'s host_env \<Rightarrow> wg_policy \<Rightarrow> 's \<Rightarrow> 's \<times> err" where
  "policy_cleanup E p s =
     (case forgive ipRuleMissing (runIP E [''route'', ''del'', ''default'', ''dev'', wp_outIface p, ''table'', wp_table p]) s of
        (s1, e1) \<Rightarrow>
          (case forgive ipRuleMissing (runIP E [''rule'', ''del'', ''iif'', wp_wgIface p, ''lookup'', wp_table p]) s1 of
             (s2, e2) \<Rightarrow> (s2, join_errors [e1, e2])))"


subsection \<open>Start and stop\<close>

record wg_routing =
  wr_policy :: "wg_policy option"
  wr_owner :: string

definition wg_names :: "'s host_env \<Rightarrow> (string \<Rightarrow> string + string list) \<Rightarrow> wg_settings option \<Rightarrow> string \<Rightarrow> 's \<Rightarrow> 's \<times> string \<times> string" where
  "wg_names E routes cfg wgInterfaceName s =
     (let wgIf = (let n = TrimSpace wgInterfaceName in if n = [] then ''wg0'' else n);
          outIf = (case cfg of None \<Rightarrow> [] | Some c \<Rightarrow> TrimSpace (ws_NATOutputInterface c))
      in if outIf \<noteq> [] then (s, wgIf, outIf)
         else (case linuxDefaultRouteInterfaceIPv4 E routes s of
                 (s1, Some dev) \<Rightarrow> (s1, wgIf, dev)
               | (s1, None) \<Rightarrow> (s1, wgIf, ''eth0'')))"

definition applyLinuxHostRouting ::
  "'s host_env \<Rightarrow> (string \<Rightarrow> string + string list) \<Rightarrow> int \<Rightarrow> nat list option \<Rightarrow> gotime \<Rightarrow> wg_settings option \<Rightarrow> string \<Rightarrow> 's \<Rightarrow> 's \<times> wg_routing option" where
  "applyLinuxHostRouting E routes pid rnd now cfg wgInterfaceName s =
     (if (case cfg of None \<Rightarrow> False | Some c \<Rightarrow> \<not> ws_HostRouting c) then (s, None)
      else
        let (s1, wgIf, outIf) = wg_names E routes cfg wgInterfaceName s;
            natDisabled = (case cfg of None \<Rightarrow> False | Some c \<Rightarrow> ws_NATDisable c);
            egressOnly = (case cfg of None \<Rightarrow> True | Some c \<Rightarrow> ws_NATEgressOnly c);
            ownerID = newHostRoutingOwnerID pid rnd now wgIf;
            s2 = fst (ensureIPv4Forwarding E s1);
            s3 = (if natDisabled then s2 else fst (ensureNFTMasquerade E wgIf outIf egressOnly ownerID s2));
            s4 = fst (ensureNFTForwarding E wgIf outIf ownerID s3);
            policyRoute = parsePolicyRoute cfg wgIf;
            s5 = (case policyRoute of None \<Rightarrow> s4 | Some p \<Rightarrow> fst (policy_apply E p s4))
        in (s5, Some \<lparr>wr_policy = policyRoute, wr_owner = ownerID\<rparr>))"

definition wg_routing_cleanup :: "'s host_env \<Rightarrow> wg_routing \<Rightarrow> 's \<Rightarrow> 's" where
  "wg_routing_cleanup E r s =
     (let s1 = (case wr_policy r of None \<Rightarrow> s | Some p \<Rightarrow> fst (policy_cleanup E p s))
      in fst (cleanupLinuxHostRouting E (wr_owner r) s1))"

end
