(* ===== verification/Wireguard_Routing.thy ===== *)
theory Wireguard_Routing
  imports Host_Routing
begin

text \<open>
  The firewall rules of a WireGuard core belong to one start of it: they interpret \<open>tagged_rules\<close> with
  the owner the start made up. Shown: setting up and taking down changes no other rule, and taking
  down leaves none of the owner's.
\<close>

section \<open>Comments\<close>

definition wg_says :: "string \<Rightarrow> string \<Rightarrow> bool" where
  "wg_says ow t \<longleftrightarrow> (\<exists>wgIf outIf b. plain_word wgIf \<and> plain_word outIf \<and>
     t \<in> {nftForwardRuleComment ow wgIf outIf b, nftNATRuleComment ow wgIf outIf b})"

lemma wg_literals:
  "plain_text '' type=forward iface=''" "plain_text '' out=''" "plain_text '' type=nat iface=''" "plain_text '' scope=''"
  "plain_text ''egress''" "plain_text ''interface''"
  by (simp_all add: plain_text_def plain_char_def graphic_def of_char_def quote_mark_def hash_def byte_marks) (code_simp+)?

lemma wg_words:
  "nftForwardRuleComment ow wgIf outIf b =
     Join [''pg_node_wg'', ''owner='' @ ow, ''type=forward'', ''iface='' @ wgIf, ''out='' @ outIf, ''direction='' @ (if b then ''outbound'' else ''return'')] '' ''"
  "nftNATRuleComment ow wgIf outIf b =
     Join [''pg_node_wg'', ''owner='' @ ow, ''type=nat'', ''iface='' @ wgIf, ''out='' @ outIf, ''scope='' @ (if b then ''egress'' else ''interface'')] '' ''"
  by (simp_all add: nftForwardRuleComment_def nftNATRuleComment_def nftRuleCommentPrefix_def)

lemma wg_comment_words:
  assumes "wg_says ow t"
  obtains k wgIf outIf z where "t = Join [''pg_node_wg'', ''owner='' @ ow, ''type='' @ k, ''iface='' @ wgIf, ''out='' @ outIf, z] '' ''"
    "CHR '' '' \<notin> set k \<union> set wgIf \<union> set outIf \<union> set z" "hd z \<noteq> CHR ''o''"
proof -
  obtain wgIf outIf b where p: "plain_word wgIf" "plain_word outIf"
      "t = nftForwardRuleComment ow wgIf outIf b \<or> t = nftNATRuleComment ow wgIf outIf b" using assms by (auto simp: wg_says_def)
  note nb = no_blank [OF p(1)] no_blank [OF p(2)]
  from p(3) show thesis
  proof
    assume "t = nftForwardRuleComment ow wgIf outIf b"
    then show thesis using nb
      by (intro that [of "''forward''" wgIf outIf "''direction='' @ (if b then ''outbound'' else ''return'')"]) (simp_all add: wg_words)
  next
    assume "t = nftNATRuleComment ow wgIf outIf b"
    then show thesis using nb
      by (intro that [of "''nat''" wgIf outIf "''scope='' @ (if b then ''egress'' else ''interface'')"]) (simp_all add: wg_words)
  qed
qed

interpretation wgr: tagged_rules nftOwnerCommentPrefix wg_says
proof
  fix ow ow' t :: string
  assume w: "plain_word ow"
  show "owner_tag (nftOwnerCommentPrefix ow)"
    unfolding owner_tag_def nftOwnerCommentPrefix_def nftRuleCommentPrefix_def
    by (simp only: Contains_append plain_text_append plain_literals plain_word_text [OF w] simp_thms)
  show "plain_text t \<and> Contains t (nftOwnerCommentPrefix ow)" if says: "wg_says ow t"
  proof -
    obtain wgIf outIf b where p: "plain_word wgIf" "plain_word outIf"
        "t \<in> {nftForwardRuleComment ow wgIf outIf b, nftNATRuleComment ow wgIf outIf b}" using says by (auto simp: wg_says_def)
    have "plain_text t"
      using p(3) unfolding nftForwardRuleComment_def nftNATRuleComment_def nftRuleCommentPrefix_def
      by (elim insertE emptyE) (simp_all only: plain_text_append plain_literals wg_literals plain_word_text [OF w] plain_word_text [OF p(1)]
          plain_word_text [OF p(2)] simp_thms split: if_split)
    moreover have "\<exists>q. t = [] @ nftOwnerCommentPrefix ow @ q"
      using p(3) by (auto simp: nftForwardRuleComment_def nftNATRuleComment_def nftOwnerCommentPrefix_def)
    then have "Contains t (nftOwnerCommentPrefix ow)" using Contains_append by metis
    ultimately show ?thesis by simp
  qed
  show "ow' = ow" if says: "plain_word ow'" "wg_says ow' t" "Contains t (nftOwnerCommentPrefix ow)"
  proof -
    obtain k wgIf outIf z where t: "t = Join [''pg_node_wg'', ''owner='' @ ow', ''type='' @ k, ''iface='' @ wgIf, ''out='' @ outIf, z] '' ''"
        "CHR '' '' \<notin> set k \<union> set wgIf \<union> set outIf \<union> set z" "hd z \<noteq> CHR ''o''" by (rule wg_comment_words [OF says(2)])
    have "''owner='' @ ow \<in> set [''pg_node_wg'', ''owner='' @ ow', ''type='' @ k, ''iface='' @ wgIf, ''out='' @ outIf, z]"
      by (rule tag_word [of _ "''pg_node_wg''"])
        (use says(3) w no_blank [OF says(1)] t(2) in \<open>auto simp: t(1) nftOwnerCommentPrefix_def nftRuleCommentPrefix_def\<close>)
    then show ?thesis using t(3) by auto
  qed
qed


section \<open>Owners\<close>

lemma plain_word_append: "plain_word a \<Longrightarrow> plain_text b \<Longrightarrow> CHR '' '' \<notin> set b \<Longrightarrow> plain_word (a @ b)"
  by (auto simp: plain_word_def plain_text_def list_all_iff)

lemma hex_digit_plain: "n < 16 \<Longrightarrow> plain_char (hex_digit n)"
proof -
  assume n: "n < 16"
  have "of_char hash = (35 :: nat)" by (simp add: hash_def of_char_def)
  moreover have "of_char (hex_digit n) = (if n < 10 then 48 + n else 87 + n)" using n by (simp add: hex_digit_def)
  ultimately show ?thesis using n by (auto simp: plain_char_def graphic_def quote_mark_def split: if_splits)
qed

lemma owner_char_plain: "owner_char ch \<Longrightarrow> plain_char ch"
proof -
  assume o: "owner_char ch"
  have h: "of_char hash = (35 :: nat)" by (simp add: hash_def of_char_def)
  have c: "of_char (CHR ''_'') = (95 :: nat)" "of_char (CHR ''-'') = (45 :: nat)" "of_char (CHR ''.'') = (46 :: nat)"
    by (simp_all add: of_char_def)
  have "of_char ch \<in> {95, 45, 46} \<union> {97..122} \<union> {65..90} \<union> {48..57 :: nat}"
    using o c by (auto simp: owner_char_def Let_def within_def)
  then show ?thesis using h by (auto simp: plain_char_def graphic_def quote_mark_def)
qed

lemma owner_runes_plain: "list_all plain_char (owner_runes s)"
proof (induction s rule: owner_runes.induct)
  case (1 s)
  have "owner_char (CHR ''_'')" by (simp add: owner_char_def Let_def)
  then show ?case using 1 owner_char_plain by (subst owner_runes.simps) auto
qed

lemma sanitize_plain: "plain_word (sanitizeNFTOwnerPart s)"
proof -
  have "owner_char (CHR ''w'')" "owner_char (CHR ''g'')" by (simp_all add: owner_char_def Let_def within_def of_char_def)
  then have "plain_word ''wg''" using owner_char_plain by (simp add: plain_word_def)
  then show ?thesis using owner_runes_plain by (auto simp: sanitizeNFTOwnerPart_def Let_def plain_word_def)
qed

text \<open>Every start gets an owner that can be named in a comment.\<close>

lemma owner_plain:
  assumes "\<And>bs. rnd = Some bs \<Longrightarrow> list_all (\<lambda>b. b < 256) bs" "0 \<le> pid" "0 \<le> now"
  shows "plain_word (newHostRoutingOwnerID pid rnd now wgIf)"
proof -
  have u: "plain_char (CHR ''_'')" using owner_char_plain [of "CHR ''_''"] by (simp add: owner_char_def Let_def)
  have h: "list_all plain_char (hex_bytes bs)" if "list_all (\<lambda>b. b < 256) bs" for bs
    using that by (induction bs) (auto simp: hex_bytes_def intro!: hex_digit_plain)
  have "list_all plain_char (case rnd of None \<Rightarrow> show_int now | Some bs \<Rightarrow> hex_bytes bs)"
    using assms h show_int_plain by (auto simp: plain_word_def split: option.split)
  then show ?thesis using sanitize_plain [of wgIf] show_int_plain [OF assms(2)] u by (simp add: newHostRoutingOwnerID_def plain_word_def)
qed


section \<open>Setting up and taking down\<close>

text \<open>Commands of ip and writes to \<^verbatim>\<open>/proc\<close> do not change the firewall.\<close>

definition nft_frame :: "'s host_env \<Rightarrow> ('s \<Rightarrow> ruleset) \<Rightarrow> bool" where
  "nft_frame E view \<longleftrightarrow>
     (\<forall>args s. view (fst (hx_exec E ''ip'' args s)) = view s) \<and> (\<forall>f t s. view (fst (hx_write E f t s)) = view s)"

definition spared :: "string \<Rightarrow> ruleset \<Rightarrow> ruleset \<Rightarrow> bool" where
  "spared tag R R' \<longleftrightarrow> tidy_rules R' \<and> (\<forall>c. others tag (R' c) = others tag (R c))"

lemma spared_refl: "tidy_rules R \<Longrightarrow> spared tag R R"
  by (simp add: spared_def)

lemma spared_trans: "spared tag R S \<Longrightarrow> spared tag S T \<Longrightarrow> spared tag R T"
  by (simp add: spared_def)

lemma kept_spared: "kept tag c R R' \<Longrightarrow> spared tag R R'"
  unfolding kept_def spared_def by metis

lemma nft_frameD:
  assumes "nft_frame E view"
  shows "hx_exec E ''ip'' args s = (s', out, e) \<Longrightarrow> view s' = view s" "hx_write E f t s = (s', e') \<Longrightarrow> view s' = view s"
  using assms unfolding nft_frame_def by (metis fst_conv)+

lemma forgiven_view:
  assumes "nft_frame E view" "forgive k (runIP E args) s = (s', e)"
  shows "view s' = view s"
proof -
  obtain e' where "runIP E args s = (s', e')" using assms(2) by (auto simp: forgive_def split: prod.splits option.splits)
  then show ?thesis unfolding runIP_def by (rule runCmd_cases) (rule nft_frameD [OF assms(1)])
qed

lemma forgiven_view_fst: "nft_frame E view \<Longrightarrow> view (fst (forgive k (runIP E args) s)) = view s"
  by (rule forgiven_view [OF _ prod.collapse [symmetric]])

lemma policy_view:
  assumes "nft_frame E view"
  shows "view (fst (policy_apply E p s)) = view s" "view (fst (policy_cleanup E p s)) = view s"
  by (auto simp: policy_apply_def policy_cleanup_def and_then_def forgiven_view_fst [OF assms] dest!: forgiven_view [OF assms] split: prod.split option.split)

lemma forwarding_view:
  assumes "nft_frame E view"
  shows "view (fst (ensureIPv4Forwarding E s)) = view s"
  by (auto simp: ensureIPv4Forwarding_def dest!: nft_frameD [OF assms] split: sum.split prod.split option.split)

lemma names_view:
  assumes "nft_frame E view" "wg_names E routes cfg name s = (s1, wgIf, outIf)"
  shows "view s1 = view s"
proof -
  have "view s2 = view s" if r: "linuxDefaultRouteInterfaceIPv4 E routes s = (s2, dev)" for s2 dev
  proof -
    obtain s1 out e where x: "hx_exec E ''ip'' [''-4'', ''-j'', ''route'', ''show'', ''default''] s = (s1, out, e)" by (metis prod_cases3)
    have "s2 = s1" using r x by (auto simp: linuxDefaultRouteInterfaceIPv4_def Let_def split: option.splits)
    then show ?thesis using nft_frameD(1) [OF assms(1) x] by simp
  qed
  then show ?thesis using assms(2) by (auto simp: wg_names_def Let_def split: prod.splits option.splits if_splits)
qed

lemma acts_forgive:
  assumes "nft_law E view" "acts view tag c (\<lambda>m. m) (runNFT E args)"
  shows "acts view tag c (\<lambda>m. m) (forgive k (runNFT E args))"
  unfolding acts_def
proof (intro allI impI)
  fix s s' e
  assume f: "forgive k (runNFT E args) s = (s', e)" and t: "tidy_rules (view s)"
  obtain e' where r: "runNFT E args s = (s', e')" using f by (auto simp: forgive_def split: prod.splits option.splits)
  show "kept tag c (view s) (view s') \<and> (e = None \<longrightarrow> owned tag (view s' c) = owned tag (view s c))"
    using acts_done [OF assms(2) r t] runNFT_failed [OF assms(1), of args s s'] r by (cases e') simp_all
qed

definition nat_rule :: "string \<Rightarrow> string \<Rightarrow> string \<Rightarrow> bool \<Rightarrow> string list \<times> string option" where
  "nat_rule ow wgIf outIf b = (nftMasqueradeRuleArgs wgIf outIf b, Some (nftNATRuleComment ow wgIf outIf b))"

lemma ensureNFTMasquerade_acts:
  assumes "nft_law E view" "plain_word ow" "plain_word wgIf" "plain_word outIf"
  shows "acts view (nftOwnerCommentPrefix ow) nat_chain (\<lambda>m. [nat_rule ow wgIf outIf b]) (ensureNFTMasquerade E wgIf outIf b ow)"
proof -
  have "wg_says ow (nftNATRuleComment ow wgIf outIf b)" using assms(3,4) by (auto simp: wg_says_def)
  note add = wgr.add_acts [OF assms(1,2) this, of nat_chain "nftMasqueradeRuleArgs wgIf outIf b"]
  show ?thesis
    unfolding ensureNFTMasquerade_def nat_rule_def removeNFTRulesWithCommentPrefix_def
    using acts_and_then [OF acts_forgive [OF assms(1) add_table_acts [OF assms(1)]]
        acts_and_then [OF acts_forgive [OF assms(1) add_chain_acts [OF assms(1)]]
          acts_and_then [OF wgr.remove_acts [OF assms(1,2)] add]]] by simp
qed

definition wg_accept_spec :: "string \<Rightarrow> string \<Rightarrow> bool \<Rightarrow> string list" where
  "wg_accept_spec wgIf outIf outbound =
     (if outbound then [''iifname'', go_quote wgIf, ''oifname'', go_quote outIf, ''accept'']
      else [''iifname'', go_quote outIf, ''oifname'', go_quote wgIf, ''ct'', ''state'', ''established,related'', ''accept''])"

lemma insertNFTForwardRule_spec:
  "insertNFTForwardRule E c wgIf outIf ow d =
     runNFT E ([''insert'', ''rule''] @ chain_args c @ wg_accept_spec wgIf outIf d @ [''comment'', go_quote (nftForwardRuleComment ow wgIf outIf d)])"
  by (simp add: insertNFTForwardRule_def wg_accept_spec_def)

lemma ensureNFTForwarding_spared:
  assumes "nft_law E view" "tidy_rules (view s)" "plain_word ow" "plain_word wgIf" "plain_word outIf"
    and run: "ensureNFTForwarding E wgIf outIf ow s = (s', e)"
  shows "spared (nftOwnerCommentPrefix ow) (view s) (view s')"
proof -
  obtain s1 r where b: "nftForwardBaseChains E s = (s1, r)" by fastforce
  have v: "view s1 = view s" using base_chains_view [OF assms(1)] b by (simp add: nftForwardBaseChains_def)
  have t1: "tidy_rules (view s1)" using assms(2) v by simp
  have says: "wg_says ow (nftForwardRuleComment ow wgIf outIf d)" for d using assms(4,5) by (auto simp: wg_says_def)
  have a: "kept (nftOwnerCommentPrefix ow) c (view s) (view s')" if "wg_accept_in_chain E wgIf outIf ow c s = (s', e)" "tidy_rules (view s)" for c s s' e
    using acts_done [OF wgr.replace_acts [OF assms(1,3) says [of False] says [of True]], of c "wg_accept_spec wgIf outIf False" "wg_accept_spec wgIf outIf True"] that
    unfolding wg_accept_in_chain_def removeNFTRulesWithCommentPrefix_def insertNFTForwardRule_spec by blast
  show ?thesis
  proof (cases r)
    case (Inl x)
    then show ?thesis using run b v spared_refl [OF assms(2)] by (simp add: ensureNFTForwarding_def)
  next
    case (Inr bases)
    then have "each_chain (wg_accept_in_chain E wgIf outIf ow) bases s1 = (s', e)" using run b by (simp add: ensureNFTForwarding_def)
    from each_chain_kept [where view = view and Q = "\<lambda>c x. True", OF _ this t1] a show ?thesis by (auto simp: spared_def v)
  qed
qed

lemma apply_spared:
  assumes "nft_law E view" "nft_frame E view" "tidy_rules (view s)"
    and names: "wg_names E routes cfg name s = (s0, wgIf, outIf)" "plain_word wgIf" "plain_word outIf"
    and ow: "plain_word (newHostRoutingOwnerID pid rnd now wgIf)"
    and run: "applyLinuxHostRouting E routes pid rnd now cfg name s = (s', Some r)"
  shows "wr_owner r = newHostRoutingOwnerID pid rnd now wgIf"
    "spared (nftOwnerCommentPrefix (newHostRoutingOwnerID pid rnd now wgIf)) (view s) (view s')"
proof -
  let ?ow = "newHostRoutingOwnerID pid rnd now wgIf"
  let ?tag = "nftOwnerCommentPrefix ?ow" and ?b = "case cfg of None \<Rightarrow> True | Some c \<Rightarrow> ws_NATEgressOnly c"
  define s2 where "s2 = fst (ensureIPv4Forwarding E s0)"
  define s3 where "s3 = (if case cfg of None \<Rightarrow> False | Some c \<Rightarrow> ws_NATDisable c then s2 else fst (ensureNFTMasquerade E wgIf outIf ?b ?ow s2))"
  define s4 where "s4 = fst (ensureNFTForwarding E wgIf outIf ?ow s3)"
  have r: "s' = (case parsePolicyRoute cfg wgIf of None \<Rightarrow> s4 | Some p \<Rightarrow> fst (policy_apply E p s4))" "r = \<lparr>wr_policy = parsePolicyRoute cfg wgIf, wr_owner = ?ow\<rparr>"
    using run unfolding applyLinuxHostRouting_def s4_def s3_def s2_def by (auto simp: names(1) Let_def split: if_splits)
  have v2: "view s2 = view s" unfolding s2_def using forwarding_view [OF assms(2)] names_view [OF assms(2) names(1)] by simp
  have 3: "spared ?tag (view s) (view s3)"
  proof (cases "case cfg of None \<Rightarrow> False | Some c \<Rightarrow> ws_NATDisable c")
    case True
    then show ?thesis using spared_refl [OF assms(3)] v2 by (simp add: s3_def)
  next
    case False
    have "tidy_rules (view s2)" using assms(3) v2 by simp
    from kept_spared [OF conjunct1 [OF acts_done [OF ensureNFTMasquerade_acts [OF assms(1) ow names(2,3)] prod.collapse [symmetric] this]]]
    have "spared ?tag (view s) (view (fst (ensureNFTMasquerade E wgIf outIf ?b ?ow s2)))" unfolding v2 .
    then show ?thesis using False by (simp add: s3_def)
  qed
  have 4: "spared ?tag (view s) (view s4)" unfolding s4_def
    by (rule spared_trans [OF 3 ensureNFTForwarding_spared [OF assms(1) _ ow names(2,3) prod.collapse [symmetric]]]) (use 3 in \<open>simp add: spared_def\<close>)
  show "wr_owner r = ?ow" by (simp add: r(2))
  show "spared ?tag (view s) (view s')" unfolding r(1) using 4 policy_view(1) [OF assms(2)] by (simp split: option.split)
qed

lemma collect_each_kept:
  assumes f: "\<And>c s s' e. f c s = (s', e) \<Longrightarrow> tidy_rules (view s) \<Longrightarrow> kept tag c (view s) (view s') \<and> (e = None \<longrightarrow> owned tag (view s' c) = [])"
    and keeps: "\<And>c d s s' e. f c s = (s', e) \<Longrightarrow> tidy_rules (view s) \<Longrightarrow> owned tag (view s d) = [] \<Longrightarrow> owned tag (view s' d) = []"
    and "collect_each f cs s = (s', es)" "tidy_rules (view s)"
  shows "spared tag (view s) (view s') \<and> (\<forall>d. owned tag (view s d) = [] \<longrightarrow> owned tag (view s' d) = []) \<and>
         (present es = [] \<longrightarrow> (\<forall>c\<in>set cs. owned tag (view s' c) = []))"
  using assms(3,4)
proof (induction cs arbitrary: s es)
  case Nil
  then show ?case by (auto simp: spared_refl)
next
  case (Cons c cs)
  obtain s1 e1 where r: "f c s = (s1, e1)" by fastforce
  obtain es' where rest: "collect_each f cs s1 = (s', es')" "es = e1 # es'" using Cons.prems(1) r by (auto split: prod.splits)
  note F = f [OF r Cons.prems(2)]
  have "tidy_rules (view s1)" using F by (simp add: kept_def)
  note I = Cons.IH [OF rest(1) this]
  have "spared tag (view s) (view s')" using kept_spared spared_trans F I by blast
  moreover have "owned tag (view s' d) = []" if "owned tag (view s d) = []" for d using keeps [OF r Cons.prems(2) that] I by blast
  moreover have "owned tag (view s' d) = []" if "present es = []" "d \<in> set (c # cs)" for d
    using that F I rest(2) by (cases e1) auto
  ultimately show ?case by blast
qed

lemma removal_keeps_empty:
  assumes "nft_law E view" "tidy_rules (view s)" "plain_word ow" "removeRulesWithComment E c (nftOwnerCommentPrefix ow) s = (s', e)"
    and "owned (nftOwnerCommentPrefix ow) (view s d) = []"
  shows "owned (nftOwnerCommentPrefix ow) (view s' d) = []"
proof (cases "d = c")
  case True
  obtain s1 out e1 where x: "hx_exec E ''nft'' ([''-a'', ''list'', ''chain''] @ chain_args c) s = (s1, out, e1)" by (metis prod_cases3)
  show ?thesis
  proof (cases e)
    case None
    then show ?thesis using removal(2) [OF assms(1,2) wgr.tag_ok [OF assms(3)] assms(4)] True by simp
  next
    case (Some y)
    show ?thesis
    proof (cases e1)
      case None
      then obtain rs where rs: "view s c = Some rs" "listing out rs" "view s1 = view s"
        using nft_list [OF assms(1) x [unfolded None]] assms(2) by blast
      have "list_all tidy_rule rs" using assms(2) rs(1) by (auto simp: tidy_rules_def)
      from handles_listed [OF rs(2) wgr.tag_ok [OF assms(3)] this]
      have "ruleHandlesWithComment out (nftOwnerCommentPrefix ow) = []" using assms(5) True rs(1) by (simp add: owned_def)
      then have "s' = s1" using assms(4) x None by (simp add: removeRulesWithComment_def)
      then show ?thesis using rs(3) assms(5) by simp
    next
      case (Some z)
      then show ?thesis using nft_failed [OF assms(1) x] assms(4,5) x by (simp add: removeRulesWithComment_def)
    qed
  qed
next
  case False
  then show ?thesis using removal(1) [OF assms(1,2) wgr.tag_ok [OF assms(3)] assms(4)] assms(5) by (simp add: kept_def)
qed

lemma join_errors_None: "join_errors es = None \<longleftrightarrow> present es = []"
  by (simp add: join_errors_def Let_def)

lemma cleanup_spared:
  assumes "nft_law E view" "tidy_rules (view t)" "plain_word ow" and run: "cleanupLinuxHostRouting E ow t = (t', e)"
  shows "spared (nftOwnerCommentPrefix ow) (view t) (view t')"
    "e = None \<Longrightarrow> owned (nftOwnerCommentPrefix ow) (view t' nat_chain) = [] \<and>
       (\<exists>t2 cs. forwardBaseChains E (fst (removeRulesWithComment E nat_chain (nftOwnerCommentPrefix ow) t)) = (t2, Inr cs) \<and> list_all (\<lambda>c. owned (nftOwnerCommentPrefix ow) (view t' c) = []) cs)"
proof -
  let ?tag = "nftOwnerCommentPrefix ow"
  obtain t1 e1 where r1: "removeRulesWithComment E nat_chain ?tag t = (t1, e1)" by fastforce
  note R1 = removal [OF assms(1,2) wgr.tag_ok [OF assms(3)] r1]
  obtain t2 b where r2: "forwardBaseChains E t1 = (t2, b)" by fastforce
  have v2: "view t2 = view t1" by (rule base_chains_view [OF assms(1) r2])
  have tidy2: "tidy_rules (view t2)" using R1(1) v2 by (simp add: kept_def)
  note U = cleanupLinuxHostRouting_def removeNFTRulesWithCommentPrefix_def nftForwardBaseChains_def
  have "spared ?tag (view t) (view t') \<and> (e = None \<longrightarrow> owned ?tag (view t' nat_chain) = [] \<and>
       (\<exists>t2 cs. forwardBaseChains E (fst (removeRulesWithComment E nat_chain ?tag t)) = (t2, Inr cs) \<and> list_all (\<lambda>c. owned ?tag (view t' c) = []) cs))"
  proof (cases b)
    case (Inl x)
    then have "t' = t2" "e \<noteq> None" using run r1 r2 unfolding U by (cases e1; auto simp: join_errors_def Let_def)+
    then show ?thesis using kept_spared [OF R1(1)] v2 by auto
  next
    case (Inr cs)
    obtain es where c: "collect_each (\<lambda>c. removeRulesWithComment E c ?tag) cs t2 = (t', es)" and e: "e = join_errors (e1 # es)"
      using run r1 r2 Inr unfolding U by (auto split: prod.splits)
    have C: "spared ?tag (view t2) (view t') \<and> (\<forall>d. owned ?tag (view t2 d) = [] \<longrightarrow> owned ?tag (view t' d) = []) \<and>
         (present es = [] \<longrightarrow> (\<forall>c\<in>set cs. owned ?tag (view t' c) = []))"
    proof (rule collect_each_kept [where view = view, OF _ _ c tidy2])
      show "kept ?tag c (view s) (view s') \<and> (e = None \<longrightarrow> owned ?tag (view s' c) = [])"
        if "removeRulesWithComment E c ?tag s = (s', e)" "tidy_rules (view s)" for c s s' e
        using removal [OF assms(1) that(2) wgr.tag_ok [OF assms(3)] that(1)] by blast
    qed (rule removal_keeps_empty [OF assms(1) _ assms(3)])
    have s: "spared ?tag (view t) (view t')" using spared_trans [OF kept_spared [OF R1(1)]] C v2 by simp
    have "owned ?tag (view t' nat_chain) = [] \<and> list_all (\<lambda>c. owned ?tag (view t' c) = []) cs" if "e = None"
    proof -
      have "e1 = None" "present es = []" using that e by (auto simp: join_errors_None split: option.splits) (cases e1; simp)+
      then show ?thesis using R1(2) C v2 by (simp add: list_all_iff)
    qed
    then show ?thesis using s r1 r2 Inr by auto
  qed
  then show "spared ?tag (view t) (view t')" "e = None \<Longrightarrow> owned ?tag (view t' nat_chain) = [] \<and>
       (\<exists>t2 cs. forwardBaseChains E (fst (removeRulesWithComment E nat_chain ?tag t)) = (t2, Inr cs) \<and> list_all (\<lambda>c. owned ?tag (view t' c) = []) cs)" by blast+
qed

text \<open>
  C38: Starting a WireGuard core changes no firewall rule but those of the owner made up for this start, nor
  does stopping it, whatever succeeds or fails; the rules of every other start are not among them. A stop
  that reports no error leaves no rule of the owner in the nat chain and in all chains hooked to
  forward.
\<close>

theorem wg_routing_owned:
  assumes law: "nft_law E view" "nft_frame E view" and tidy_rules: "tidy_rules (view s)" "tidy_rules (view t)"
    and names: "wg_names E routes cfg name s = (s0, wgIf, outIf)" "plain_word wgIf" "plain_word outIf"
    and id: "0 \<le> pid" "0 \<le> now" "list_all (\<lambda>b. b < 256) (case rnd of None \<Rightarrow> [] | Some bs \<Rightarrow> bs)"
    and start: "applyLinuxHostRouting E routes pid rnd now cfg name s = (s', Some r)"
    and stop: "cleanupLinuxHostRouting E (wr_owner r) t = (t', e)"
    and foreign: "plain_word ow'" "ow' \<noteq> wr_owner r" "wg_says ow' c" "nr_comment rule = Some c"
  shows "spared (nftOwnerCommentPrefix (wr_owner r)) (view s) (view s') \<and>
         spared (nftOwnerCommentPrefix (wr_owner r)) (view t) (view t') \<and>
         spared (nftOwnerCommentPrefix (wr_owner r)) (view t) (view (wg_routing_cleanup E r t)) \<and>
         \<not> carries (nftOwnerCommentPrefix (wr_owner r)) rule \<and>
         (e \<noteq> None \<or>
          owned (nftOwnerCommentPrefix (wr_owner r)) (view t' nat_chain) = [] \<and>
          (\<exists>t2 cs. forwardBaseChains E (fst (removeRulesWithComment E nat_chain (nftOwnerCommentPrefix (wr_owner r)) t)) = (t2, Inr cs) \<and>
             list_all (\<lambda>c. owned (nftOwnerCommentPrefix (wr_owner r)) (view t' c) = []) cs))"
proof -
  have ow: "plain_word (newHostRoutingOwnerID pid rnd now wgIf)" using owner_plain [OF _ id(1,2)] id(3) by (cases rnd) auto
  note A = apply_spared [OF law tidy_rules(1) names ow start]
  have w: "plain_word (wr_owner r)" using ow A(1) by simp
  define t1 where "t1 = (case wr_policy r of None \<Rightarrow> t | Some p \<Rightarrow> fst (policy_cleanup E p t))"
  have v: "view t1 = view t" unfolding t1_def using policy_view(2) [OF law(2)] by (simp split: option.split)
  have "tidy_rules (view t1)" using tidy_rules(2) v by simp
  from cleanup_spared(1) [OF law(1) this w prod.collapse [symmetric]]
  have "spared (nftOwnerCommentPrefix (wr_owner r)) (view t) (view (wg_routing_cleanup E r t))"
    unfolding wg_routing_cleanup_def Let_def t1_def [symmetric] v .
  moreover have "e = None \<Longrightarrow> owned (nftOwnerCommentPrefix (wr_owner r)) (view t' nat_chain) = [] \<and>
          (\<exists>t2 cs. forwardBaseChains E (fst (removeRulesWithComment E nat_chain (nftOwnerCommentPrefix (wr_owner r)) t)) = (t2, Inr cs) \<and>
             list_all (\<lambda>c. owned (nftOwnerCommentPrefix (wr_owner r)) (view t' c) = []) cs)"
    by (rule cleanup_spared(2) [OF law(1) tidy_rules(2) w stop])
  ultimately show ?thesis
    using A cleanup_spared(1) [OF law(1) tidy_rules(2) w stop] wgr.foreign_rule [OF w foreign] by auto
qed

definition wg_example :: wg_settings where
  "wg_example = \<lparr>ws_HostRouting = True, ws_NATOutputInterface = ''eth0'', ws_NATEgressOnly = True, ws_NATDisable = False,
     ws_RouteTable = [], ws_RouteOutInterface = []\<rparr>"

lemma wg_example_names:
  "wg_names (nft_host []) routes (Some wg_example) ''wg0'' s = (s, ''wg0'', ''eth0'')" "plain_word ''wg0''" "plain_word ''eth0''"
proof -
  have "TrimSpace ''wg0'' = ''wg0''" "TrimSpace ''eth0'' = ''eth0''"
    by (rule TrimSpace_graphic; simp add: graphic_def of_char_def)+
  then show "wg_names (nft_host []) routes (Some wg_example) ''wg0'' s = (s, ''wg0'', ''eth0'')"
    by (simp add: wg_names_def wg_example_def)
qed (simp_all add: plain_word_def plain_char_def graphic_def of_char_def quote_mark_def hash_def byte_marks, code_simp+)

lemma nft_host_frame: "nft_frame (nft_host ifaces) nft_view"
  by (simp add: nft_frame_def nft_host_def)

lemma cleanup_never_fails: "snd (cleanupLinuxHostRouting (nft_host ifaces) ow t) = None"
proof -
  have "present (snd (collect_each (\<lambda>c. removeRulesWithComment (nft_host ifaces) c tag) cs s)) = []" for tag cs s
    by (induction cs arbitrary: s)
      (auto split: prod.split dest: arg_cong [of _ _ snd] simp: nft_host_never_fails(2), metis nft_host_never_fails(2) snd_conv present.simps(2))
  note C = this
  let ?tag = "nftOwnerCommentPrefix ow"
  obtain t1 where r1: "removeRulesWithComment (nft_host ifaces) nat_chain ?tag t = (t1, None)"
    using nft_host_never_fails(2) [of ifaces nat_chain ?tag t] by (metis prod.collapse)
  obtain t2 cs where r2: "forwardBaseChains (nft_host ifaces) t1 = (t2, Inr cs)"
    by (simp add: forwardBaseChains_def parseForwardBaseChains_def nft_host_def)
  obtain t3 es where r3: "collect_each (\<lambda>c. removeRulesWithComment (nft_host ifaces) c ?tag) cs t2 = (t3, es)" by fastforce
  have "present es = []" using C [of ?tag cs t2] r3 by simp
  then show ?thesis using r1 r2 r3
    by (simp add: cleanupLinuxHostRouting_def removeNFTRulesWithCommentPrefix_def nftForwardBaseChains_def join_errors_None)
qed

definition wg_example_owner :: string where
  "wg_example_owner = newHostRoutingOwnerID 7 (Some [1, 2, 3, 4, 5, 6, 7, 8]) 0 ''wg0''"

definition wg_example_start :: "(base_chain \<Rightarrow> nft_rule list) \<times> wg_routing option" where
  "wg_example_start = applyLinuxHostRouting (nft_host []) (\<lambda>t. Inr []) 7 (Some [1, 2, 3, 4, 5, 6, 7, 8]) 0 (Some wg_example) ''wg0'' nft_start"

lemma wg_example_started:
  "applyLinuxHostRouting (nft_host []) (\<lambda>t. Inr []) 7 (Some [1, 2, 3, 4, 5, 6, 7, 8]) 0 (Some wg_example) ''wg0'' nft_start =
     (fst wg_example_start, Some \<lparr>wr_policy = None, wr_owner = wg_example_owner\<rparr>)"
proof -
  have "trim_left ps [] = []" for ps by (subst trim_left.simps) (use space_at_le [of ps "[]"] in simp)
  then have "TrimSpace [] = []" by (simp add: TrimSpace_def)
  then have "parsePolicyRoute (Some wg_example) ''wg0'' = None" by (simp add: parsePolicyRoute_def wg_example_def)
  then have "snd wg_example_start = Some \<lparr>wr_policy = None, wr_owner = wg_example_owner\<rparr>"
    by (simp add: wg_example_start_def applyLinuxHostRouting_def wg_example_names Let_def wg_example_owner_def)
      (simp add: wg_example_def)
  then show ?thesis unfolding wg_example_start_def [symmetric] by (metis prod.collapse)
qed

theorem wg_routing_owned_witness:
  "spared (nftOwnerCommentPrefix wg_example_owner) (nft_view nft_start) (nft_view (fst wg_example_start)) \<and>
   owned (nftOwnerCommentPrefix wg_example_owner)
     (nft_view (fst (cleanupLinuxHostRouting (nft_host []) wg_example_owner (fst wg_example_start))) nat_chain) = []"
proof -
  let ?r = "\<lparr>wr_policy = None, wr_owner = wg_example_owner\<rparr>"
  have o: "plain_word wg_example_owner" unfolding wg_example_owner_def by (rule owner_plain) auto
  note A = apply_spared [OF nft_host_law nft_host_frame nft_start_tidy wg_example_names o [unfolded wg_example_owner_def] wg_example_started]
  have t: "tidy_rules (nft_view (fst wg_example_start))" using A(2) by (simp add: spared_def)
  have n: "plain_word ''x''" using owner_char_plain [of "CHR ''x''"] by (simp add: plain_word_def owner_char_def within_def of_char_def)
  have "length wg_example_owner \<noteq> 1" by (simp add: wg_example_owner_def newHostRoutingOwnerID_def)
  then have d: "''x'' \<noteq> wr_owner ?r" by (metis One_nat_def length_Cons list.size(3) wg_routing.select_convs(2))
  have f: "wg_says ''x'' (nftForwardRuleComment ''x'' ''wg0'' ''eth0'' True)" using wg_example_names(2,3) by (auto simp: wg_says_def)
  let ?rule = "\<lparr>nr_handle = ''1'', nr_spec = [], nr_comment = Some (nftForwardRuleComment ''x'' ''wg0'' ''eth0'' True)\<rparr>"
  show ?thesis
    using wg_routing_owned [OF nft_host_law nft_host_frame nft_start_tidy t wg_example_names _ _ _ wg_example_started prod.collapse [symmetric] n d f, of ?rule]
      cleanup_never_fails [of "[]" wg_example_owner "fst wg_example_start"] by simp
qed

end
