(* ===== verification/Spec2Isabelle.thy ===== *)
theory Spec2Isabelle
  imports Stats_Tracker Wireguard_Addresses Chunked_Upload Singbox_Supervisor Openvpn_Listeners Xray_Interleaving L2tp_Pool Wireguard_Routing
begin

text \<open>
  A verification of the PasarGuard node, the agent a panel controls over gRPC or REST to run VPN cores
  on a server, to give users access to them and to bill their traffic.

  \<^bold>\<open>Parts and how they interact.\<close> A request enters through a service
  (\<^verbatim>\<open>controller/rpc\<close>, \<^verbatim>\<open>controller/rest\<close>), which checks the API key, the client
  address and whether a core runs, and calls the controller (\<^verbatim>\<open>controller\<close>). The controller
  keeps the running cores by type and instance and shows them to the service as one backend
  (\<^verbatim>\<open>backend/composite.go\<close>), which fans every call out and merges the answers. Each core
  (\<^verbatim>\<open>backend/wireguard\<close>, \<^verbatim>\<open>backend/singbox\<close>, \<^verbatim>\<open>backend/openvpn\<close>,
  \<^verbatim>\<open>backend/xray\<close>, \<^verbatim>\<open>backend/l2tp\<close> over the daemon of \<^verbatim>\<open>backend/ipsec\<close>)
  implements the interface \<^verbatim>\<open>backend/backend.go\<close> over a kernel device or a process,
  counts traffic with \<^verbatim>\<open>pkg/stats\<close>, and has its clients' packets forwarded by rules on the host
  (\<^verbatim>\<open>backend/hostroute\<close>, \<^verbatim>\<open>backend/egress\<close>).

  \<^bold>\<open>Theories.\<close>
  \<^item> \<open>Node_Prelude\<close>: Go integers at their width, maps with an explicit range order (a \<open>ranger\<close> gives
    the order of every loop over a map and is universally quantified in the theorems), errors, the
    functions of the packages strings and strconv the code calls. \<open>Net_Ip\<close>: parsing, printing and
    containment of the packages net and net/netip. \<open>Go_Crypto\<close>: SHA-256 and base64, and
    \<^verbatim>\<open>EnsureBase64Password\<close> of \<^verbatim>\<open>common/helper.go\<close>. \<open>Go_Text\<close>: paths, quoted strings
    and lines of a file. \<open>Plain_Text\<close>: what these do on text of visible ASCII characters.
    \<open>Node_Messages\<close>: the messages of \<^verbatim>\<open>common/service.proto\<close> as records with the
    defaults of their accessors.
  \<^item> \<open>Stats_Tracker\<close>: \<^verbatim>\<open>pkg/stats\<close>. The locales \<open>usage_meter\<close> and \<open>exact_meter\<close> state what a
    meter promises; both trackers of the package and the sing-box counters interpret them. Shown:
    nothing is billed twice, and exactly what is counted is billed while no peer is removed.
  \<^item> \<open>Peer_Store\<close>, \<open>Wireguard_Device\<close>, \<open>Wireguard_Sync\<close>, \<open>Wireguard_Agreement\<close>, \<open>Wireguard_Core\<close>,
    \<open>Wireguard_Addresses\<close>: \<^verbatim>\<open>backend/wireguard\<close>. The store interprets the locale \<open>peer_directory\<close> the
    synchronisation relies on; wgctrl and netlink are the record \<open>wg_env\<close> with the law \<open>key_law\<close>
    as hypothesis. The kernel is a set of public keys, and for the addresses (\<open>Wireguard_Addresses\<close>) a device
    under \<open>device_law\<close>: an address belongs to one peer, the last that asked for it, and a peer
    keeps its old ones unless the change replaces them. Shown: after a synchronisation store, kernel and the users' wishes
    agree; a failed one leaves the store alone; the last bytes of a departing peer are billed; the
    invariant of every reachable state.
  \<^item> \<open>Backend_Composite\<close>: the interface as a table of methods over object references and a world, the
    composite, its log merger as a step function. The locale \<open>isolated_cores\<close> says that a method
    touches its own object only. \<open>Node_Controller\<close>: \<^verbatim>\<open>controller/controller.go\<close> and
    \<^verbatim>\<open>users_chunk.go\<close>, with the locale \<open>node_cores\<close> for constructors. \<open>Node_Service\<close>: all
    middleware and methods of both services. \<open>Node_Control\<close>: the properties of the services.
    \<open>Wireguard_Backend\<close> and \<open>Node_Access\<close> interpret both locales on the WireGuard core, whose kernel is
    private to it: two cores on one interface name (\<^verbatim>\<open>wg0\<close> is also what an empty name means) share
    a device in the code and are outside the model. A keep-alive disconnect does not wait for the services
    and gives the lock up while cores shut down; \<open>node_reach\<close> has its beginning, each shutdown and its end
    as separate steps.
    \<open>Chunked_Upload\<close>: framing and splitting of a user list, end to end.
  \<^item> \<open>Singbox\<close>: \<^verbatim>\<open>backend/singbox\<close>. \<open>Singbox_Slots\<close>: positions of the user list never change
    hands and a push delivers it. \<open>Singbox_Billing\<close>: the counters as an exact meter across restarts.
    \<open>Singbox_Supervisor\<close>: every interleaving of process, supervisor, timer and calls.
  \<^item> \<open>Openvpn\<close>: \<^verbatim>\<open>backend/openvpn\<close>. \<open>Openvpn_Billing\<close>: every byte of every session is counted
    once while the status rows are those of one life of the daemon. \<open>Openvpn_Access\<close>: the management dialogue admits exactly the listed certificates, and
    revocation. \<open>Openvpn_Listeners\<close>: disjoint address ranges, listeners start all or none.
  \<^item> \<open>Xray_Config\<close>: \<^verbatim>\<open>backend/xray/config.go\<close>, \<^verbatim>\<open>config_clone.go\<close> and the
    accounts. \<open>Xray_Core\<close>: the process, its log rings, start-up diagnostics, the calls over its API,
    restarts with fallback and the health check; the gRPC client, the process and the host are the record
    \<open>xray_env\<close>. \<open>Xray_Logs\<close>: a ring keeps the last lines. \<open>Xray_Rules\<close>: what a start request's
    configuration looks like after \<^verbatim>\<open>ApplyAPI\<close>. \<open>Xray_Users\<close>: the locale \<open>inbound_pass\<close> says
    what one pass over the inbounds promises, and the passes of \<^verbatim>\<open>SyncUser\<close> and
    \<^verbatim>\<open>UpdateUsers\<close> interpret it; shown is that a change reported as done reaches
    configuration and process alike, if the process refuses a removal only when it does not have the user
    (\<open>removals_heard\<close>, beside the law \<open>api_law\<close> of its API). \<open>Xray_Restart\<close>: what a start runs, and a dead core
    comes back. \<open>Xray_Interleaving\<close>: a full synchronisation and the health check as threads (\<open>sync_step\<close>); the
    synchronisation takes effect or is undone.
  \<^item> \<open>Ipsec\<close>: \<^verbatim>\<open>backend/ipsec/charon.go\<close>, the daemon all L2TP cores share. \<open>L2tp\<close>:
    \<^verbatim>\<open>backend/l2tp\<close>, with the text of every generated file; what the node reads of the host is
    the record \<open>l2_env\<close>, what it changes there \<open>l2_host\<close>. \<open>L2tp_Billing\<close>: every byte of every session is
    counted once although interface names are used again: a run (\<open>l2_run\<close>) has the hooks writing into the two
    directories and the polls reading and removing, and refines the history \<open>ppp_run\<close>; the record of the
    pppd hook is read back as it was written. \<open>L2tp_Access\<close>: the credentials file holds exactly the entitled logins
    beside the foreign lines. \<open>L2tp_Life\<close>: the daemon has as many references as cores run,
    less those that cores with a failed restart gave back (\<open>ipsec_run\<close> counts them). \<open>L2tp_Pool\<close>: the address range given to clients lies in the pool.
  \<^item> \<open>Host_Tools\<close>: the host as commands, files and interfaces. \<open>Host_Firewall\<close>:
    \<^verbatim>\<open>backend/hostroute\<close>, the accept rules and the clamping of the segment size. \<open>Egress\<close>:
    \<^verbatim>\<open>backend/egress\<close>. \<open>Host_Routing\<close>: what the L2TP, OpenVPN and WireGuard backends set up and
    take down (\<^verbatim>\<open>nat_linux.go\<close>, \<^verbatim>\<open>host_routing_linux.go\<close>). \<open>Text_Search\<close> and
    \<open>Host_Rules\<close>: finding rules by their comment in what nft prints; nft and ip are parameters with the
    hypotheses \<open>nft_law\<close>, \<open>nft_frame\<close> and \<open>ip_law\<close>. The last speaks of the four ip commands of the egress code
    and of nothing else; rules match by prefix, the newest first. \<open>Host_Owners\<close>: the locale \<open>tagged_rules\<close> says that a
    rule's comment names its owner and no other; the accept rules, the clamp rules (\<open>Host_Clamp\<close>) and the
    WireGuard rules (\<open>Wireguard_Routing\<close>) interpret it. Shown: whatever fails, only the owner's rules
    change; a success leaves exactly the wanted ones (\<open>Host_Forward\<close>). \<open>Host_Example\<close>: a host that meets
    \<open>nft_law\<close>.

  \<^bold>\<open>How code is read.\<close> A method of a struct is a function on the record of its fields that
  returns the record updated; a method that takes the mutex for its whole body is one step, and one that
  releases it in between is split there (\<open>Disconnect_begin\<close> and \<open>Disconnect_end\<close>). An error is \<open>Some\<close>
  of its text (\<open>err\<close>) or the left side of a sum. Goroutines are steps of an inductive relation
  (\<open>wg_reach\<close>, \<open>node_reach\<close>, \<open>sb_reach\<close>, \<open>vpn_run\<close>, \<open>sync_step\<close>, \<open>l2_run\<close>, \<open>ipsec_run\<close>), so a theorem about reachable states covers every
  interleaving of them. Clocks, random numbers, JSON decoding, files, processes and the network are
  arguments.

  \<^bold>\<open>Bounds and fuel.\<close> Loops are structural recursion over the list they range over. The
  assembly of chunks runs over a wrapping 64-bit index and has a termination proof of its own; the
  retry loops have the bounds the code gives them (50 attempts to reach the management socket, the
  deadline of the readiness poll). No definition takes fuel.

  \<^bold>\<open>Not modelled.\<close> The process entry point, configuration from the environment and loggers
  (\<^verbatim>\<open>cmd\<close>, \<^verbatim>\<open>config\<close>, \<^verbatim>\<open>logger\<close>); TLS set-up, listeners and system
  readings (\<^verbatim>\<open>pkg/tlsutil\<close>, \<^verbatim>\<open>pkg/netutil\<close>, \<^verbatim>\<open>pkg/sysstats\<close>); the search for
  orphaned Xray processes in \<^verbatim>\<open>/proc\<close> and through PowerShell; the text of log lines; the stubs
  for systems other than Linux; generated protobuf code. They are input and output with no state of
  their own. The backends' calls of the host rules are modelled on their own (\<open>Host_Routing\<close>), the
  life of a core only records whether they were made.
\<close>

end
